(* ===== verification/Prelude.thy ===== *)
theory Prelude
  imports Main "HOL-Library.Word"
begin

text \<open>
  The base of the development: the names of the machine integer types the server uses,
  the collections the component proofs share, decimal rendering as the C++ streams do it,
  the little-endian byte images that \<open>memcpy\<close> produces, and generic lemmas on lists.
  The model is of a build on a little-endian machine with 64-bit \<open>size_t\<close>.
\<close>

unbundle bit_operations_syntax

section \<open>Types of machine integers\<close>

type_synonym u8 = "8 word"
type_synonym u16 = "16 word"
type_synonym u32 = "32 word"
type_synonym u64 = "64 word"

section \<open>Shared collections\<close>

text \<open>
  \<open>step_defs\<close> collects the definitions of operations that a proof may unfold, and
  \<open>inv_defs\<close> the definitions of invariants.
\<close>

named_theorems step_defs
named_theorems inv_defs

lemma unat_succ_u32: "(n :: u32) < 0xFFFFFFFF \<Longrightarrow> unat (n + 1) = Suc (unat n)"
  by (simp add: word_less_nat_alt unat_word_ariths)

lemma u32_less_succ: "(n :: u32) < 0xFFFFFFFF \<Longrightarrow> k < n + 1 \<longleftrightarrow> k \<le> n"
  by (simp add: word_less_nat_alt word_le_nat_alt unat_succ_u32 [unfolded word_less_nat_alt] less_Suc_eq_le)

section \<open>Flags\<close>

text \<open>\<open>hasBitSet\<close> of tools.h.\<close>

definition hasBitSet :: "u32 \<Rightarrow> u32 \<Rightarrow> bool" where
  "hasBitSet flag flags = (flags AND flag \<noteq> 0)"

lemma hasBitSet_or: "hasBitSet f (a OR b) = (hasBitSet f a \<or> hasBitSet f b)"
proof -
  have "(a OR b) AND f = (a AND f) OR (b AND f)"
    by (simp add: bit.conj_disj_distrib2)
  then show ?thesis
    by (simp add: hasBitSet_def or_eq_0_iff)
qed

lemma hasBitSet_self: "f \<noteq> 0 \<Longrightarrow> hasBitSet f (a OR f)"
  by (simp add: hasBitSet_or) (simp add: hasBitSet_def)

section \<open>Decimal rendering\<close>

definition digit_char :: "nat \<Rightarrow> char" where
  "digit_char d = char_of (48 + d)"

fun dec_digits :: "nat \<Rightarrow> string" where
  "dec_digits n = (if n < 10 then [digit_char n] else dec_digits (n div 10) @ [digit_char (n mod 10)])"

declare dec_digits.simps [simp del]

text \<open>\<open>std::setw(k) << std::setfill('0')\<close> in front of an unsigned number.\<close>

definition setw_fill :: "nat \<Rightarrow> nat \<Rightarrow> string" where
  "setw_fill k n = replicate (k - length (dec_digits n)) (CHR ''0'') @ dec_digits n"

definition char_value :: "char \<Rightarrow> nat" where
  "char_value c = of_char c - 48"

definition dec_value :: "string \<Rightarrow> nat" where
  "dec_value s = foldl (\<lambda>v c. 10 * v + char_value c) 0 s"

lemma char_value_digit [simp]: "d < 10 \<Longrightarrow> char_value (digit_char d) = d"
  by (simp add: char_value_def digit_char_def)

lemma dec_value_snoc [simp]: "dec_value (s @ [c]) = 10 * dec_value s + char_value c"
  by (simp add: dec_value_def)

lemma dec_value_digits [simp]: "dec_value (dec_digits n) = n"
proof (induction n rule: dec_digits.induct)
  case (1 n)
  show ?case
  proof (cases "n < 10")
    case True
    then show ?thesis
      by (subst dec_digits.simps) (simp add: dec_value_def)
  next
    case False
    with "1" have "dec_value (dec_digits (n div 10)) = n div 10" by simp
    with False show ?thesis
      by (subst dec_digits.simps) simp
  qed
qed

lemma dec_value_zeros: "dec_value (replicate k (CHR ''0'') @ s) = dec_value s"
proof -
  have "foldl (\<lambda>v c. 10 * v + char_value c) 0 (replicate k (CHR ''0'')) = 0"
    by (induction k) (simp_all add: char_value_def)
  then show ?thesis by (simp add: dec_value_def)
qed

lemma dec_value_setw [simp]: "dec_value (setw_fill k n) = n"
  by (simp add: setw_fill_def dec_value_zeros)

lemma dec_digits_inj: "dec_digits m = dec_digits n \<longleftrightarrow> m = n"
  by (metis dec_value_digits)

lemma setw_fill_inj: "setw_fill k m = setw_fill k n \<longleftrightarrow> m = n"
  by (metis dec_value_setw)

lemma length_dec_digits: "0 < k \<Longrightarrow> n < 10 ^ k \<Longrightarrow> length (dec_digits n) \<le> k"
proof (induction n arbitrary: k rule: dec_digits.induct)
  case (1 n)
  show ?case
  proof (cases "n < 10")
    case True
    with "1.prems" show ?thesis by (subst dec_digits.simps) simp
  next
    case False
    with "1.prems" obtain j where k: "k = Suc j" and j: "0 < j"
      by (cases k; cases "k - 1") auto
    from "1.prems"(2) have "n div 10 < 10 ^ j"
      by (simp add: k less_mult_imp_div_less mult.commute)
    with "1.IH"[OF False j] have "length (dec_digits (n div 10)) \<le> j" by simp
    with False show ?thesis by (subst dec_digits.simps) (simp add: k)
  qed
qed

lemma length_setw_fill: "0 < k \<Longrightarrow> n < 10 ^ k \<Longrightarrow> length (setw_fill k n) = k"
  using length_dec_digits by (simp add: setw_fill_def)

lemma dec_digits_nonempty [simp]: "dec_digits n \<noteq> []"
  by (subst dec_digits.simps) simp

section \<open>Lists\<close>

lemma map_idx_append:
  "length xs = length ys \<Longrightarrow> xs @ as = ys @ bs \<longleftrightarrow> xs = ys \<and> as = bs"
  by (rule append_eq_append_conv) simp

lemma foldl_invariant:
  "P s \<Longrightarrow> (\<And>s x. x \<in> set xs \<Longrightarrow> P s \<Longrightarrow> P (f s x)) \<Longrightarrow> P (foldl f s xs)"
  by (induction xs arbitrary: s) auto

end
