(* ===== verification/Enums.thy ===== *)
theory Enums
  imports Prelude
begin

text \<open>
  The enumerations of enums.h and const.h that several components use, as datatypes with the
  source's enumerators in the source's order.  Where the code relies on the number behind an
  enumerator, the function with the suffix \<open>_code\<close> gives it.
\<close>

datatype ThreadState =
    THREAD_STATE_RUNNING | THREAD_STATE_CLOSING | THREAD_STATE_TERMINATED

datatype CombatType_t =
    COMBAT_NONE | COMBAT_PHYSICALDAMAGE | COMBAT_ENERGYDAMAGE | COMBAT_EARTHDAMAGE
    | COMBAT_FIREDAMAGE | COMBAT_UNDEFINEDDAMAGE | COMBAT_LIFEDRAIN | COMBAT_MANADRAIN
    | COMBAT_HEALING | COMBAT_DROWNDAMAGE | COMBAT_ICEDAMAGE | COMBAT_HOLYDAMAGE
    | COMBAT_DEATHDAMAGE

fun combat_code :: "CombatType_t \<Rightarrow> u16" where
  "combat_code COMBAT_NONE = 0"
| "combat_code COMBAT_PHYSICALDAMAGE = 1"
| "combat_code COMBAT_ENERGYDAMAGE = 2"
| "combat_code COMBAT_EARTHDAMAGE = 4"
| "combat_code COMBAT_FIREDAMAGE = 8"
| "combat_code COMBAT_UNDEFINEDDAMAGE = 16"
| "combat_code COMBAT_LIFEDRAIN = 32"
| "combat_code COMBAT_MANADRAIN = 64"
| "combat_code COMBAT_HEALING = 128"
| "combat_code COMBAT_DROWNDAMAGE = 256"
| "combat_code COMBAT_ICEDAMAGE = 512"
| "combat_code COMBAT_HOLYDAMAGE = 1024"
| "combat_code COMBAT_DEATHDAMAGE = 2048"

datatype Ammo_t =
    AMMO_NONE | AMMO_BOLT | AMMO_ARROW | AMMO_SPEAR | AMMO_THROWINGSTAR | AMMO_THROWINGKNIFE
    | AMMO_STONE | AMMO_SNOWBALL

datatype WeaponAction_t =
    WEAPONACTION_NONE | WEAPONACTION_REMOVECOUNT | WEAPONACTION_REMOVECHARGE | WEAPONACTION_MOVE

datatype Skulls_t =
    SKULL_NONE | SKULL_YELLOW | SKULL_GREEN | SKULL_WHITE | SKULL_RED | SKULL_BLACK
    | SKULL_ORANGE

datatype WeaponType_t =
    WEAPON_NONE | WEAPON_SWORD | WEAPON_CLUB | WEAPON_AXE | WEAPON_SHIELD | WEAPON_DISTANCE
    | WEAPON_WAND | WEAPON_AMMO

datatype AccountType_t =
    ACCOUNT_TYPE_NORMAL | ACCOUNT_TYPE_TUTOR | ACCOUNT_TYPE_SENIORTUTOR
    | ACCOUNT_TYPE_GAMEMASTER | ACCOUNT_TYPE_GOD

fun account_code :: "AccountType_t \<Rightarrow> u8" where
  "account_code ACCOUNT_TYPE_NORMAL = 1"
| "account_code ACCOUNT_TYPE_TUTOR = 2"
| "account_code ACCOUNT_TYPE_SENIORTUTOR = 3"
| "account_code ACCOUNT_TYPE_GAMEMASTER = 4"
| "account_code ACCOUNT_TYPE_GOD = 5"

datatype (plugins only: code) itemAttrTypes =
    ITEM_ATTRIBUTE_NONE | ITEM_ATTRIBUTE_ACTIONID | ITEM_ATTRIBUTE_UNIQUEID
    | ITEM_ATTRIBUTE_DESCRIPTION | ITEM_ATTRIBUTE_TEXT | ITEM_ATTRIBUTE_DATE
    | ITEM_ATTRIBUTE_WRITER | ITEM_ATTRIBUTE_NAME | ITEM_ATTRIBUTE_ARTICLE
    | ITEM_ATTRIBUTE_PLURALNAME | ITEM_ATTRIBUTE_WEIGHT | ITEM_ATTRIBUTE_ATTACK
    | ITEM_ATTRIBUTE_DEFENSE | ITEM_ATTRIBUTE_EXTRADEFENSE | ITEM_ATTRIBUTE_ARMOR
    | ITEM_ATTRIBUTE_HITCHANCE | ITEM_ATTRIBUTE_SHOOTRANGE | ITEM_ATTRIBUTE_OWNER
    | ITEM_ATTRIBUTE_DURATION | ITEM_ATTRIBUTE_DECAYSTATE | ITEM_ATTRIBUTE_CORPSEOWNER
    | ITEM_ATTRIBUTE_CHARGES | ITEM_ATTRIBUTE_FLUIDTYPE | ITEM_ATTRIBUTE_DOORID

fun attr_code :: "itemAttrTypes \<Rightarrow> u32" where
  "attr_code ITEM_ATTRIBUTE_NONE = 0"
| "attr_code ITEM_ATTRIBUTE_ACTIONID = 1"
| "attr_code ITEM_ATTRIBUTE_UNIQUEID = 2"
| "attr_code ITEM_ATTRIBUTE_DESCRIPTION = 4"
| "attr_code ITEM_ATTRIBUTE_TEXT = 8"
| "attr_code ITEM_ATTRIBUTE_DATE = 16"
| "attr_code ITEM_ATTRIBUTE_WRITER = 32"
| "attr_code ITEM_ATTRIBUTE_NAME = 64"
| "attr_code ITEM_ATTRIBUTE_ARTICLE = 128"
| "attr_code ITEM_ATTRIBUTE_PLURALNAME = 256"
| "attr_code ITEM_ATTRIBUTE_WEIGHT = 512"
| "attr_code ITEM_ATTRIBUTE_ATTACK = 1024"
| "attr_code ITEM_ATTRIBUTE_DEFENSE = 2048"
| "attr_code ITEM_ATTRIBUTE_EXTRADEFENSE = 4096"
| "attr_code ITEM_ATTRIBUTE_ARMOR = 8192"
| "attr_code ITEM_ATTRIBUTE_HITCHANCE = 16384"
| "attr_code ITEM_ATTRIBUTE_SHOOTRANGE = 32768"
| "attr_code ITEM_ATTRIBUTE_OWNER = 65536"
| "attr_code ITEM_ATTRIBUTE_DURATION = 131072"
| "attr_code ITEM_ATTRIBUTE_DECAYSTATE = 262144"
| "attr_code ITEM_ATTRIBUTE_CORPSEOWNER = 524288"
| "attr_code ITEM_ATTRIBUTE_CHARGES = 1048576"
| "attr_code ITEM_ATTRIBUTE_FLUIDTYPE = 2097152"
| "attr_code ITEM_ATTRIBUTE_DOORID = 4194304"

datatype skills_t =
    SKILL_FIST | SKILL_CLUB | SKILL_SWORD | SKILL_AXE | SKILL_DISTANCE | SKILL_SHIELD
    | SKILL_FISHING | SKILL_MAGLEVEL | SKILL_LEVEL

fun skill_code :: "skills_t \<Rightarrow> u8" where
  "skill_code SKILL_FIST = 0"
| "skill_code SKILL_CLUB = 1"
| "skill_code SKILL_SWORD = 2"
| "skill_code SKILL_AXE = 3"
| "skill_code SKILL_DISTANCE = 4"
| "skill_code SKILL_SHIELD = 5"
| "skill_code SKILL_FISHING = 6"
| "skill_code SKILL_MAGLEVEL = 7"
| "skill_code SKILL_LEVEL = 8"

end
