(* ===== verification/ReturnValues.thy ===== *)
theory ReturnValues
  imports Main
begin

text \<open>
  \<open>ReturnValue\<close> of enums.h: the answer of every query of the server, with the source's
  enumerators in the source's order.
\<close>

datatype (plugins only: code) ReturnValue =
    RETURNVALUE_NOERROR | RETURNVALUE_NOTPOSSIBLE | RETURNVALUE_NOTENOUGHROOM
    | RETURNVALUE_PLAYERISPZLOCKED | RETURNVALUE_PLAYERISNOTINVITED | RETURNVALUE_CANNOTTHROW
    | RETURNVALUE_THEREISNOWAY | RETURNVALUE_DESTINATIONOUTOFREACH | RETURNVALUE_CREATUREBLOCK
    | RETURNVALUE_NOTMOVEABLE | RETURNVALUE_DROPTWOHANDEDITEM
    | RETURNVALUE_BOTHHANDSNEEDTOBEFREE | RETURNVALUE_CANONLYUSEONEWEAPON
    | RETURNVALUE_NEEDEXCHANGE | RETURNVALUE_CANNOTBEDRESSED
    | RETURNVALUE_PUTTHISOBJECTINYOURHAND | RETURNVALUE_PUTTHISOBJECTINBOTHHANDS
    | RETURNVALUE_TOOFARAWAY | RETURNVALUE_FIRSTGODOWNSTAIRS | RETURNVALUE_FIRSTGOUPSTAIRS
    | RETURNVALUE_CONTAINERNOTENOUGHROOM | RETURNVALUE_NOTENOUGHCAPACITY
    | RETURNVALUE_CANNOTPICKUP | RETURNVALUE_THISISIMPOSSIBLE | RETURNVALUE_DEPOTISFULL
    | RETURNVALUE_CREATUREDOESNOTEXIST | RETURNVALUE_CANNOTUSETHISOBJECT
    | RETURNVALUE_PLAYERWITHTHISNAMEISNOTONLINE | RETURNVALUE_NOTREQUIREDLEVELTOUSERUNE
    | RETURNVALUE_YOUAREALREADYTRADING | RETURNVALUE_THISPLAYERISALREADYTRADING
    | RETURNVALUE_YOUMAYNOTLOGOUTDURINGAFIGHT | RETURNVALUE_DIRECTPLAYERSHOOT
    | RETURNVALUE_NOTENOUGHLEVEL | RETURNVALUE_NOTENOUGHMAGICLEVEL | RETURNVALUE_NOTENOUGHMANA
    | RETURNVALUE_NOTENOUGHSOUL | RETURNVALUE_YOUAREEXHAUSTED | RETURNVALUE_PLAYERISNOTREACHABLE
    | RETURNVALUE_CANONLYUSETHISRUNEONCREATURES | RETURNVALUE_ACTIONNOTPERMITTEDINPROTECTIONZONE
    | RETURNVALUE_YOUMAYNOTATTACKTHISPLAYER | RETURNVALUE_YOUMAYNOTATTACKAPERSONINPROTECTIONZONE
    | RETURNVALUE_YOUMAYNOTATTACKAPERSONWHILEINPROTECTIONZONE
    | RETURNVALUE_YOUMAYNOTATTACKTHISCREATURE | RETURNVALUE_YOUCANONLYUSEITONCREATURES
    | RETURNVALUE_CREATUREISNOTREACHABLE | RETURNVALUE_TURNSECUREMODETOATTACKUNMARKEDPLAYERS
    | RETURNVALUE_YOUNEEDPREMIUMACCOUNT | RETURNVALUE_YOUNEEDTOLEARNTHISSPELL
    | RETURNVALUE_YOURVOCATIONCANNOTUSETHISSPELL | RETURNVALUE_YOUNEEDAWEAPONTOUSETHISSPELL
    | RETURNVALUE_PLAYERISPZLOCKEDLEAVEPVPZONE | RETURNVALUE_PLAYERISPZLOCKEDENTERPVPZONE
    | RETURNVALUE_ACTIONNOTPERMITTEDINANOPVPZONE | RETURNVALUE_YOUCANNOTLOGOUTHERE
    | RETURNVALUE_YOUNEEDAMAGICITEMTOCASTSPELL | RETURNVALUE_CANNOTCONJUREITEMHERE
    | RETURNVALUE_YOUNEEDTOSPLITYOURSPEARS | RETURNVALUE_NAMEISTOOAMBIGIOUS
    | RETURNVALUE_CANONLYUSEONESHIELD | RETURNVALUE_NOPARTYMEMBERSINRANGE
    | RETURNVALUE_YOUARENOTTHEOWNER

end
