(* ===== verification/Text.thy ===== *)
theory Text
  imports Prelude
begin

text \<open>
  The string helpers of tools.cpp: case conversion in the C locale, trimming, splitting and
  replacing, the first line of a text, and the dotted form of an address.  Strings are lists
  of bytes, as \<open>std::string\<close> is.  A loop that the code never leaves is the value None.
  The lemmas relate splitting, joining and replacing, and bound the address form by the buffer
  it is printed into.
\<close>

section \<open>Characters\<close>

definition char_tolower :: "char \<Rightarrow> char" where
  "char_tolower c = (if 65 \<le> (of_char c :: nat) \<and> (of_char c :: nat) \<le> 90
     then char_of ((of_char c :: nat) + 32) else c)"

definition char_toupper :: "char \<Rightarrow> char" where
  "char_toupper c = (if 97 \<le> (of_char c :: nat) \<and> (of_char c :: nat) \<le> 122
     then char_of ((of_char c :: nat) - 32) else c)"

definition asLowerCaseString :: "string \<Rightarrow> string" where
  "asLowerCaseString source = map char_tolower source"

definition asUpperCaseString :: "string \<Rightarrow> string" where
  "asUpperCaseString source = map char_toupper source"

text \<open>What a C function sees of a string: the bytes before the first NUL.\<close>

definition c_str :: "string \<Rightarrow> string" where
  "c_str s = takeWhile (\<lambda>c. c \<noteq> CHR 0x00) s"

definition strcasecmp_eq :: "string \<Rightarrow> string \<Rightarrow> bool" where
  "strcasecmp_eq a b = (map char_tolower (c_str a) = map char_tolower (c_str b))"

lemma char_tolower_idem [simp]: "char_tolower (char_tolower c) = char_tolower c"
  by (simp add: char_tolower_def)

lemma asLowerCaseString_idem [simp]:
  "asLowerCaseString (asLowerCaseString s) = asLowerCaseString s"
  by (simp add: asLowerCaseString_def)

section \<open>Words\<close>

fun ucfirst :: "string \<Rightarrow> string" where
  "ucfirst [] = []"
| "ucfirst (i # str) = (if i \<noteq> CHR '' '' then char_toupper i # str else i # ucfirst str)"

text \<open>The loop of \<open>ucwords\<close>: \<open>prev\<close> is the byte before the current one.\<close>

fun ucwords_loop :: "char \<Rightarrow> string \<Rightarrow> string" where
  "ucwords_loop prev [] = []"
| "ucwords_loop prev (c # cs) =
     (let c' = (if prev = CHR '' '' then char_toupper c else c) in c' # ucwords_loop c' cs)"

fun ucwords :: "string \<Rightarrow> string" where
  "ucwords [] = []"
| "ucwords (c # cs) = char_toupper c # ucwords_loop (char_toupper c) cs"

fun booleanString :: "string \<Rightarrow> bool" where
  "booleanString [] = False"
| "booleanString (c # cs) =
     (let ch = char_tolower c in ch \<noteq> CHR ''f'' \<and> ch \<noteq> CHR ''n'' \<and> ch \<noteq> CHR ''0'')"

definition getFirstLine :: "string \<Rightarrow> string" where
  "getFirstLine str = takeWhile (\<lambda>c. c \<noteq> CHR 0x0A) str"

definition trim_right :: "string \<Rightarrow> char \<Rightarrow> string" where
  "trim_right source t = rev (dropWhile (\<lambda>c. c = t) (rev source))"

definition trim_left :: "string \<Rightarrow> char \<Rightarrow> string" where
  "trim_left source t = dropWhile (\<lambda>c. c = t) source"

definition trimString :: "string \<Rightarrow> string" where
  "trimString str = trim_left (trim_right str (CHR '' '')) (CHR '' '')"

lemma hd_trim_left: "trim_left s t \<noteq> [] \<Longrightarrow> hd (trim_left s t) \<noteq> t"
  using hd_dropWhile [of "\<lambda>c. c = t" s] by (simp add: trim_left_def)

lemma last_trim_right: "trim_right s t \<noteq> [] \<Longrightarrow> last (trim_right s t) \<noteq> t"
  using hd_dropWhile [of "\<lambda>c. c = t" "rev s"] by (simp add: trim_right_def last_rev)

lemma trim_left_suffix: "\<exists>k. s = replicate k t @ trim_left s t"
proof (induction s)
  case Nil
  then show ?case by (simp add: trim_left_def)
next
  case (Cons c s)
  then obtain k where "s = replicate k t @ trim_left s t" by blast
  then show ?case
    by (cases "c = t") (auto simp: trim_left_def intro: exI [of _ "Suc k"] exI [of _ 0])
qed

section \<open>Searching\<close>

text \<open>\<open>std::string::find\<close> on the rest of the string from the start position.\<close>

fun find_sub :: "string \<Rightarrow> string \<Rightarrow> nat option" where
  "find_sub p [] = (if p = [] then Some 0 else None)"
| "find_sub p (c # s) =
     (if take (length p) (c # s) = p then Some 0 else map_option Suc (find_sub p s))"

lemma find_sub_Some:
  "find_sub p s = Some i \<Longrightarrow> s = take i s @ p @ drop (i + length p) s \<and> i + length p \<le> length s"
proof (induction p s arbitrary: i rule: find_sub.induct)
  case (1 p)
  then show ?case by (simp split: if_splits)
next
  case (2 p c s)
  show ?case
  proof (cases "take (length p) (c # s) = p")
    case True
    with "2.prems" have i: "i = 0" by simp
    from True have "length p \<le> length (c # s)"
      by (metis length_take min.absorb_iff2 min.commute)
    with True i show ?thesis by (metis append_take_drop_id add_0 append_Nil take0)
  next
    case False
    with "2.prems" obtain j where j: "find_sub p s = Some j" "i = Suc j" by auto
    from "2.IH"[OF False j(1)] j(2) show ?thesis by simp
  qed
qed

lemma find_sub_bound: "find_sub p s = Some i \<Longrightarrow> i + length p \<le> length s"
  by (drule find_sub_Some) simp

lemma find_sub_append: "find_sub p (u @ p @ v) \<noteq> None"
proof (induction u)
  case Nil
  show ?case
  proof (cases "p @ v")
    case Nil
    then show ?thesis by simp
  next
    case (Cons a l)
    then have "take (length p) (a # l) = p" by (metis append_eq_conv_conj)
    then show ?thesis by (simp add: Cons)
  qed
next
  case (Cons c u)
  then show ?case by simp
qed

lemma find_sub_None_iff: "find_sub p s = None \<longleftrightarrow> (\<nexists>u v. s = u @ p @ v)"
  using find_sub_append find_sub_Some by (metis not_None_eq)

text \<open>The occurrence found is the first one: none ends before it.\<close>

lemma find_sub_first: "find_sub p s = Some i \<Longrightarrow> p \<noteq> [] \<Longrightarrow> find_sub p (take i s) = None"
proof (induction p s arbitrary: i rule: find_sub.induct)
  case (1 p)
  then show ?case by (simp split: if_splits)
next
  case (2 p c s)
  show ?case
  proof (cases "take (length p) (c # s) = p")
    case True
    with "2.prems" show ?thesis by simp
  next
    case False
    with "2.prems" obtain j where j: "find_sub p s = Some j" "i = Suc j" by auto
    from "2.IH"[OF False j(1) "2.prems"(2)] have IH: "find_sub p (take j s) = None" .
    have "take (length p) (take i (c # s)) \<noteq> p"
    proof
      assume eq: "take (length p) (take i (c # s)) = p"
      then have "length p \<le> i"
        by (metis length_take min.bounded_iff nat_le_linear take_all_iff)
      with eq have "take (length p) (c # s) = p" by (simp add: min_absorb1)
      with False show False by simp
    qed
    with IH j(2) show ?thesis by simp
  qed
qed

section \<open>Splitting and replacing\<close>

text \<open>
  The loop of \<open>explodeString\<close> on the rest of the input.  With an empty separator and a
  negative limit the code finds the separator at the current position for ever.
\<close>

function explode_loop :: "string \<Rightarrow> string \<Rightarrow> int \<Rightarrow> string list option" where
  "explode_loop sep s limit =
     (if limit - 1 \<noteq> -1 then
        (case find_sub sep s of
           None \<Rightarrow> Some [s]
         | Some i \<Rightarrow>
             if sep = [] \<and> limit < 0 then None
             else map_option ((#) (take i s))
                    (explode_loop sep (drop (i + length sep) s) (limit - 1)))
      else Some [s])"
  by pat_completeness auto
termination
proof (relation "measures [\<lambda>(sep, s, limit). length s, \<lambda>(sep, s, limit). nat limit]", goal_cases)
  case 1
  then show ?case by simp
next
  case (2 sep s limit i)
  then have "i + length sep \<le> length s" by (simp add: find_sub_bound)
  with 2 show ?case by (cases "sep = []") (auto simp: neq_Nil_conv)
qed

declare explode_loop.simps [simp del]

definition explodeString :: "string \<Rightarrow> string \<Rightarrow> int \<Rightarrow> string list option" where
  "explodeString inString separator limit = explode_loop separator inString limit"

text \<open>\<open>replaceString\<close>: the search goes on behind each replacement.\<close>

function replace_loop :: "string \<Rightarrow> string \<Rightarrow> string \<Rightarrow> string option" where
  "replace_loop sought replacement s =
     (case find_sub sought s of
        None \<Rightarrow> Some s
      | Some pos \<Rightarrow>
          if sought = [] then None
          else map_option (\<lambda>r. take pos s @ replacement @ r)
                 (replace_loop sought replacement (drop (pos + length sought) s)))"
  by pat_completeness auto
termination
proof (relation "measure (\<lambda>(sought, replacement, s). length s)", goal_cases)
  case 1
  then show ?case by simp
next
  case (2 sought replacement s pos)
  then have "pos + length sought \<le> length s" by (simp add: find_sub_bound)
  with 2 show ?case by (auto simp: neq_Nil_conv)
qed

declare replace_loop.simps [simp del]

definition replaceString :: "string \<Rightarrow> string \<Rightarrow> string \<Rightarrow> string option" where
  "replaceString str sought replacement = replace_loop sought replacement str"

text \<open>Joining pieces with a separator: the reference operation.\<close>

fun join :: "string \<Rightarrow> string list \<Rightarrow> string" where
  "join sep [] = []"
| "join sep [p] = p"
| "join sep (p # q # ps) = p @ sep @ join sep (q # ps)"

lemma join_Cons: "ps \<noteq> [] \<Longrightarrow> join sep (p # ps) = p @ sep @ join sep ps"
  by (cases ps) simp_all

lemma explode_loop_nonempty: "explode_loop sep s limit = Some ps \<Longrightarrow> ps \<noteq> []"
  by (subst (asm) explode_loop.simps) (auto split: if_splits option.splits)

lemma explode_loop_total:
  "sep \<noteq> [] \<Longrightarrow> \<exists>ps. explode_loop sep s limit = Some ps \<and> join sep ps = s"
proof (induction sep s limit rule: explode_loop.induct)
  case (1 sep s limit)
  show ?case
  proof (cases "limit - 1 \<noteq> -1 \<and> find_sub sep s \<noteq> None")
    case False
    then show ?thesis by (subst explode_loop.simps) auto
  next
    case True
    then obtain i where i: "find_sub sep s = Some i" and l: "limit - 1 \<noteq> -1" by auto
    from "1.IH"[OF l i] "1.prems" obtain ps where
      ps: "explode_loop sep (drop (i + length sep) s) (limit - 1) = Some ps"
        "join sep ps = drop (i + length sep) s" by auto
    have "join sep (take i s # ps) = s"
      using find_sub_Some [OF i] ps explode_loop_nonempty [OF ps(1)] by (simp add: join_Cons)
    with i l ps(1) "1.prems" show ?thesis by (subst explode_loop.simps) simp
  qed
qed

lemma explode_loop_pieces:
  "sep \<noteq> [] \<Longrightarrow> limit < 0 \<Longrightarrow> explode_loop sep s limit = Some ps \<Longrightarrow>
     p \<in> set ps \<Longrightarrow> find_sub sep p = None"
proof (induction sep s limit arbitrary: ps rule: explode_loop.induct)
  case (1 sep s limit)
  show ?case
  proof (cases "find_sub sep s")
    case None
    with "1.prems" show ?thesis by (subst (asm) explode_loop.simps) auto
  next
    case (Some i)
    with "1.prems" obtain qs where qs:
      "explode_loop sep (drop (i + length sep) s) (limit - 1) = Some qs" "ps = take i s # qs"
      by (subst (asm) explode_loop.simps) auto
    with "1.prems" Some consider "p = take i s" | "p \<in> set qs" by auto
    then show ?thesis
    proof cases
      case 1
      with Some "1.prems" show ?thesis by (simp add: find_sub_first)
    next
      case 2
      with "1.IH"[OF _ Some] "1.prems" qs show ?thesis by auto
    qed
  qed
qed

lemma explode_loop_limit:
  "0 \<le> limit \<Longrightarrow> explode_loop sep s limit = Some ps \<Longrightarrow> length ps \<le> nat limit + 1"
proof (induction sep s limit arbitrary: ps rule: explode_loop.induct)
  case (1 sep s limit)
  show ?case
  proof (cases "limit - 1 \<noteq> -1 \<and> find_sub sep s \<noteq> None")
    case False
    with "1.prems" show ?thesis by (subst (asm) explode_loop.simps) (auto split: if_splits)
  next
    case True
    then obtain i where i: "find_sub sep s = Some i" and l: "limit - 1 \<noteq> -1" by auto
    with "1.prems" obtain qs where qs:
      "explode_loop sep (drop (i + length sep) s) (limit - 1) = Some qs" "ps = take i s # qs"
      by (subst (asm) explode_loop.simps) auto
    from "1.IH"[OF l i _ _ qs(1)] "1.prems" l qs(2) show ?thesis by auto
  qed
qed

text \<open>Splitting at a non-empty separator always returns, the pieces joined with the separator
  give the input back, without a limit no piece contains the separator, and with the limit n there
  are at most n + 1 pieces.\<close>
theorem explodeString_roundtrip:
  assumes "sep \<noteq> []"
  shows "\<exists>ps. explodeString s sep limit = Some ps \<and> join sep ps = s \<and>
    (limit < 0 \<longrightarrow> (\<forall>p \<in> set ps. find_sub sep p = None)) \<and>
    (0 \<le> limit \<longrightarrow> length ps \<le> nat limit + 1)"
proof -
  from explode_loop_total [OF assms] obtain ps where
    ps: "explode_loop sep s limit = Some ps" "join sep ps = s" by blast
  then show ?thesis
    unfolding explodeString_def
    using explode_loop_pieces [OF assms _ ps(1)] explode_loop_limit [OF _ ps(1)] by blast
qed

theorem explodeString_roundtrip_witness:
  "\<exists>ps. explodeString ''aleta som;utori'' '';'' (-1) = Some ps \<and>
     join '';'' ps = ''aleta som;utori'' \<and>
     ((-1 :: int) < 0 \<longrightarrow> (\<forall>p \<in> set ps. find_sub '';'' p = None)) \<and>
     (0 \<le> (-1 :: int) \<longrightarrow> length ps \<le> nat (-1) + 1)"
  by (rule explodeString_roundtrip) simp

text \<open>Replacing is splitting at the sought text and joining with the replacement.\<close>

lemma replaceString_explode:
  "sought \<noteq> [] \<Longrightarrow> limit < 0 \<Longrightarrow>
     replace_loop sought r s = map_option (join r) (explode_loop sought s limit)"
proof (induction sought s limit rule: explode_loop.induct)
  case (1 sep s limit)
  show ?case
  proof (cases "find_sub sep s")
    case None
    with "1.prems" show ?thesis
      by (subst replace_loop.simps, subst explode_loop.simps) simp
  next
    case (Some i)
    let ?t = "drop (i + length sep) s"
    from "1.prems" have l: "limit - 1 \<noteq> -1" by simp
    from explode_loop_total [OF "1.prems"(1)] obtain ps where
      ps: "explode_loop sep ?t (limit - 1) = Some ps" by blast
    from "1.IH"[OF l Some] "1.prems" ps have "replace_loop sep r ?t = Some (join r ps)" by simp
    with Some l ps "1.prems" show ?thesis
      by (subst replace_loop.simps, subst explode_loop.simps)
         (simp add: join_Cons explode_loop_nonempty [OF ps])
  qed
qed

section \<open>Addresses\<close>

definition convertIPToString :: "u32 \<Rightarrow> string" where
  "convertIPToString ip =
     dec_digits (unat (ip AND 0xFF)) @ ''.'' @
     dec_digits (unat (drop_bit 8 ip AND 0xFF)) @ ''.'' @
     dec_digits (unat (drop_bit 16 ip AND 0xFF)) @ ''.'' @
     dec_digits (unat (drop_bit 24 ip))"

lemma length_dec_digits_byte: "n < 256 \<Longrightarrow> length (dec_digits n) \<le> 3"
  by (rule length_dec_digits) simp_all

lemma unat_and_byte: "unat (x AND 0xFF) < 256" for x :: u32
proof -
  have "unat (x AND 0xFF) \<le> unat (0xFF :: u32)"
    by (rule word_le_nat_alt [THEN iffD1]) (rule word_and_le1)
  then show ?thesis by simp
qed

lemma unat_drop_bit_24: "unat (drop_bit 24 x) < 256" for x :: u32
proof -
  have "unat x < 4294967296"
    using unsigned_less [of x, where 'a = nat] by simp
  then have "unat x div 2 ^ 24 < 256" by simp
  then show ?thesis by (simp add: drop_bit_eq_div unat_div_distrib)
qed

text \<open>The buffer \<open>sprintf\<close> writes to has 17 bytes: the text and its NUL take at most 16.\<close>

lemma convertIPToString_fits: "length (convertIPToString ip) + 1 \<le> 16"
proof -
  have "length (dec_digits (unat (ip AND 0xFF))) \<le> 3"
    "length (dec_digits (unat (drop_bit 8 ip AND 0xFF))) \<le> 3"
    "length (dec_digits (unat (drop_bit 16 ip AND 0xFF))) \<le> 3"
    "length (dec_digits (unat (drop_bit 24 ip))) \<le> 3"
    by (rule length_dec_digits_byte, rule unat_and_byte unat_drop_bit_24)+
  then show ?thesis by (simp add: convertIPToString_def)
qed

end
