(* ===== verification/NameTables.thy ===== *)
theory NameTables
  imports Enums ReturnValues Text
begin

text \<open>
  The tables of tools.cpp that give names to effects, missiles, damage types, ammunition,
  skulls and item attributes, the lookups that search them from the front without regard to
  case, the two fluid maps of const.h, and the message of every \<open>ReturnValue\<close>.
  Effects and missiles are the bytes sent to the client, so their tables hold the bytes.
\<close>

section \<open>Tables\<close>

definition magicEffectNames :: "(string \<times> u8) list" where
  "magicEffectNames = [
    (''redspark'', 1), (''bluebubble'', 2), (''poff'', 3), (''yellowspark'', 4)
    , (''explosionarea'', 5), (''explosion'', 6), (''firearea'', 7), (''yellowbubble'', 8)
    , (''greenbubble'', 9), (''blackspark'', 10), (''teleport'', 11), (''energy'', 12)
    , (''blueshimmer'', 13), (''redshimmer'', 14), (''greenshimmer'', 15), (''fire'', 16)
    , (''greenspark'', 17), (''mortarea'', 18), (''greennote'', 19), (''rednote'', 20)
    , (''poison'', 21), (''yellownote'', 22), (''purplenote'', 23), (''bluenote'', 24)
    , (''whitenote'', 25), (''bubbles'', 26), (''dice'', 27), (''giftwraps'', 28)
    , (''yellowfirework'', 29), (''redfirework'', 30), (''bluefirework'', 31), (''stun'', 32)
    , (''sleep'', 33), (''watercreature'', 34), (''groundshaker'', 35), (''hearts'', 36)
    , (''fireattack'', 37), (''energyarea'', 38), (''smallclouds'', 39), (''holydamage'', 40)
    , (''bigclouds'', 41), (''icearea'', 42), (''icetornado'', 43), (''iceattack'', 44)
    , (''stones'', 45), (''smallplants'', 46), (''carniphila'', 47), (''purpleenergy'', 48)
    , (''yellowenergy'', 49), (''holyarea'', 50), (''bigplants'', 51), (''cake'', 52)
    , (''giantice'', 53), (''watersplash'', 54), (''plantattack'', 55), (''tutorialarrow'', 56)
    , (''tutorialsquare'', 57), (''mirrorhorizontal'', 58), (''mirrorvertical'', 59)
    , (''skullhorizontal'', 60), (''skullvertical'', 61), (''assassin'', 62)
    , (''stepshorizontal'', 63), (''bloodysteps'', 64), (''stepsvertical'', 65)
    , (''yalaharighost'', 66), (''bats'', 67), (''smoke'', 68), (''insects'', 69)
    , (''dragonhead'', 70), (''orcshaman'', 71), (''orcshamanfire'', 72), (''thunder'', 73)
    , (''ferumbras'', 74), (''confettihorizontal'', 75), (''confettivertical'', 76)
    , (''blacksmoke'', 158), (''redsmoke'', 167), (''yellowsmoke'', 168), (''greensmoke'', 169)
    , (''purplesmoke'', 170)]"

definition shootTypeNames :: "(string \<times> u8) list" where
  "shootTypeNames = [
    (''spear'', 1), (''bolt'', 2), (''arrow'', 3), (''fire'', 4), (''energy'', 5)
    , (''poisonarrow'', 6), (''burstarrow'', 7), (''throwingstar'', 8), (''throwingknife'', 9)
    , (''smallstone'', 10), (''death'', 11), (''largerock'', 12), (''snowball'', 13)
    , (''powerbolt'', 14), (''poison'', 15), (''infernalbolt'', 16), (''huntingspear'', 17)
    , (''enchantedspear'', 18), (''redstar'', 19), (''greenstar'', 20), (''royalspear'', 21)
    , (''sniperarrow'', 22), (''onyxarrow'', 23), (''piercingbolt'', 24)
    , (''whirlwindsword'', 25), (''whirlwindaxe'', 26), (''whirlwindclub'', 27)
    , (''etherealspear'', 28), (''ice'', 29), (''earth'', 30), (''holy'', 31)
    , (''suddendeath'', 32), (''flasharrow'', 33), (''flammingarrow'', 34)
    , (''shiverarrow'', 35), (''energyball'', 36), (''smallice'', 37), (''smallholy'', 38)
    , (''smallearth'', 39), (''eartharrow'', 40), (''explosion'', 41), (''cake'', 42)
    , (''tarsalarrow'', 44), (''vortexbolt'', 45), (''prismaticbolt'', 48)
    , (''crystallinearrow'', 49), (''drillbolt'', 50), (''envenomedarrow'', 51)
    , (''gloothspear'', 53), (''simplearrow'', 54)]"

definition combatTypeNames :: "(string \<times> CombatType_t) list" where
  "combatTypeNames = [
    (''physical'', COMBAT_PHYSICALDAMAGE), (''energy'', COMBAT_ENERGYDAMAGE)
    , (''earth'', COMBAT_EARTHDAMAGE), (''fire'', COMBAT_FIREDAMAGE)
    , (''undefined'', COMBAT_UNDEFINEDDAMAGE), (''lifedrain'', COMBAT_LIFEDRAIN)
    , (''manadrain'', COMBAT_MANADRAIN), (''healing'', COMBAT_HEALING)
    , (''drown'', COMBAT_DROWNDAMAGE), (''ice'', COMBAT_ICEDAMAGE)
    , (''holy'', COMBAT_HOLYDAMAGE), (''death'', COMBAT_DEATHDAMAGE)]"

definition ammoTypeNames :: "(string \<times> Ammo_t) list" where
  "ammoTypeNames = [
    (''spear'', AMMO_SPEAR), (''bolt'', AMMO_BOLT), (''arrow'', AMMO_ARROW)
    , (''poisonarrow'', AMMO_ARROW), (''burstarrow'', AMMO_ARROW)
    , (''throwingstar'', AMMO_THROWINGSTAR), (''throwingknife'', AMMO_THROWINGKNIFE)
    , (''smallstone'', AMMO_STONE), (''largerock'', AMMO_STONE), (''snowball'', AMMO_SNOWBALL)
    , (''powerbolt'', AMMO_BOLT), (''infernalbolt'', AMMO_BOLT), (''huntingspear'', AMMO_SPEAR)
    , (''enchantedspear'', AMMO_SPEAR), (''royalspear'', AMMO_SPEAR)
    , (''sniperarrow'', AMMO_ARROW), (''onyxarrow'', AMMO_ARROW), (''piercingbolt'', AMMO_BOLT)
    , (''etherealspear'', AMMO_SPEAR), (''flasharrow'', AMMO_ARROW)
    , (''flammingarrow'', AMMO_ARROW), (''shiverarrow'', AMMO_ARROW)
    , (''eartharrow'', AMMO_ARROW)]"

definition weaponActionNames :: "(string \<times> WeaponAction_t) list" where
  "weaponActionNames = [
    (''move'', WEAPONACTION_MOVE), (''removecharge'', WEAPONACTION_REMOVECHARGE)
    , (''removecount'', WEAPONACTION_REMOVECOUNT)]"

definition skullNames :: "(string \<times> Skulls_t) list" where
  "skullNames = [
    (''none'', SKULL_NONE), (''yellow'', SKULL_YELLOW), (''green'', SKULL_GREEN)
    , (''white'', SKULL_WHITE), (''red'', SKULL_RED), (''black'', SKULL_BLACK)
    , (''orange'', SKULL_ORANGE)]"

section \<open>Lookups\<close>

text \<open>The first row whose name equals the value under \<open>strcasecmp\<close>, else the default.\<close>

fun lookup_name :: "'a \<Rightarrow> (string \<times> 'a) list \<Rightarrow> string \<Rightarrow> 'a" where
  "lookup_name none [] strValue = none"
| "lookup_name none ((name, v) # rows) strValue =
     (if strcasecmp_eq strValue name then v else lookup_name none rows strValue)"

definition getMagicEffect :: "string \<Rightarrow> u8" where
  "getMagicEffect strValue = lookup_name 0 magicEffectNames strValue"

definition getShootType :: "string \<Rightarrow> u8" where
  "getShootType strValue = lookup_name 0 shootTypeNames strValue"

definition getCombatType :: "string \<Rightarrow> CombatType_t" where
  "getCombatType strValue = lookup_name COMBAT_NONE combatTypeNames strValue"

definition getAmmoType :: "string \<Rightarrow> Ammo_t" where
  "getAmmoType strValue = lookup_name AMMO_NONE ammoTypeNames strValue"

definition getWeaponAction :: "string \<Rightarrow> WeaponAction_t" where
  "getWeaponAction strValue = lookup_name WEAPONACTION_NONE weaponActionNames strValue"

definition getSkullType :: "string \<Rightarrow> Skulls_t" where
  "getSkullType strValue = lookup_name SKULL_NONE skullNames strValue"

fun combat_name_loop :: "(string \<times> CombatType_t) list \<Rightarrow> CombatType_t \<Rightarrow> string" where
  "combat_name_loop [] combatType = ''unknown''"
| "combat_name_loop ((name, c) # rows) combatType =
     (if c = combatType then name else combat_name_loop rows combatType)"

definition getCombatName :: "CombatType_t \<Rightarrow> string" where
  "getCombatName combatType = combat_name_loop combatTypeNames combatType"

definition getSkillName :: "u8 \<Rightarrow> string" where
  "getSkillName skillid =
     (if skillid = 0 then ''fist fighting''
      else if skillid = 1 then ''club fighting''
      else if skillid = 2 then ''sword fighting''
      else if skillid = 3 then ''axe fighting''
      else if skillid = 4 then ''distance fighting''
      else if skillid = 5 then ''shielding''
      else if skillid = 6 then ''fishing''
      else if skillid = 7 then ''magic level''
      else if skillid = 8 then ''level''
      else ''unknown'')"

fun getWeaponName :: "WeaponType_t \<Rightarrow> string" where
  "getWeaponName WEAPON_SWORD = ''sword''"
| "getWeaponName WEAPON_CLUB = ''club''"
| "getWeaponName WEAPON_AXE = ''axe''"
| "getWeaponName WEAPON_DISTANCE = ''distance''"
| "getWeaponName WEAPON_WAND = ''wand''"
| "getWeaponName WEAPON_AMMO = ''ammunition''"
| "getWeaponName _ = ''''"

fun combatTypeToIndex :: "CombatType_t \<Rightarrow> nat" where
  "combatTypeToIndex COMBAT_PHYSICALDAMAGE = 0"
| "combatTypeToIndex COMBAT_ENERGYDAMAGE = 1"
| "combatTypeToIndex COMBAT_EARTHDAMAGE = 2"
| "combatTypeToIndex COMBAT_FIREDAMAGE = 3"
| "combatTypeToIndex COMBAT_UNDEFINEDDAMAGE = 4"
| "combatTypeToIndex COMBAT_LIFEDRAIN = 5"
| "combatTypeToIndex COMBAT_MANADRAIN = 6"
| "combatTypeToIndex COMBAT_HEALING = 7"
| "combatTypeToIndex COMBAT_DROWNDAMAGE = 8"
| "combatTypeToIndex COMBAT_ICEDAMAGE = 9"
| "combatTypeToIndex COMBAT_HOLYDAMAGE = 10"
| "combatTypeToIndex COMBAT_DEATHDAMAGE = 11"
| "combatTypeToIndex _ = 0"

text \<open>\<open>1 << v\<close> is computed in a 32-bit int and cast to the 16-bit enumeration.\<close>

definition indexToCombatType :: "nat \<Rightarrow> u16" where
  "indexToCombatType v = ucast (push_bit v (1 :: u32))"

definition stringToItemAttribute :: "string \<Rightarrow> itemAttrTypes" where
  "stringToItemAttribute str =
     (if str = ''aid'' then ITEM_ATTRIBUTE_ACTIONID
      else if str = ''uid'' then ITEM_ATTRIBUTE_UNIQUEID
      else if str = ''description'' then ITEM_ATTRIBUTE_DESCRIPTION
      else if str = ''text'' then ITEM_ATTRIBUTE_TEXT
      else if str = ''date'' then ITEM_ATTRIBUTE_DATE
      else if str = ''writer'' then ITEM_ATTRIBUTE_WRITER
      else if str = ''name'' then ITEM_ATTRIBUTE_NAME
      else if str = ''article'' then ITEM_ATTRIBUTE_ARTICLE
      else if str = ''pluralname'' then ITEM_ATTRIBUTE_PLURALNAME
      else if str = ''weight'' then ITEM_ATTRIBUTE_WEIGHT
      else if str = ''attack'' then ITEM_ATTRIBUTE_ATTACK
      else if str = ''defense'' then ITEM_ATTRIBUTE_DEFENSE
      else if str = ''extradefense'' then ITEM_ATTRIBUTE_EXTRADEFENSE
      else if str = ''armor'' then ITEM_ATTRIBUTE_ARMOR
      else if str = ''hitchance'' then ITEM_ATTRIBUTE_HITCHANCE
      else if str = ''shootrange'' then ITEM_ATTRIBUTE_SHOOTRANGE
      else if str = ''owner'' then ITEM_ATTRIBUTE_OWNER
      else if str = ''duration'' then ITEM_ATTRIBUTE_DURATION
      else if str = ''decaystate'' then ITEM_ATTRIBUTE_DECAYSTATE
      else if str = ''corpseowner'' then ITEM_ATTRIBUTE_CORPSEOWNER
      else if str = ''charges'' then ITEM_ATTRIBUTE_CHARGES
      else if str = ''fluidtype'' then ITEM_ATTRIBUTE_FLUIDTYPE
      else if str = ''doorid'' then ITEM_ATTRIBUTE_DOORID
      else ITEM_ATTRIBUTE_NONE)"

section \<open>Fluids\<close>

definition clientToServerFluidMap :: "u8 list" where
  "clientToServerFluidMap = [0, 1, 7, 3, 19, 2, 4, 27, 5, 6, 15, 10, 13, 11, 21, 14, 35, 43]"

definition fluidMap :: "u8 list" where
  "fluidMap = [0, 1, 5, 3, 6, 8, 9, 2]"

fun fluid_index :: "nat \<Rightarrow> u8 list \<Rightarrow> u8 \<Rightarrow> nat" where
  "fluid_index i [] serverFluid = 0"
| "fluid_index i (f # fs) serverFluid =
     (if f = serverFluid then i else fluid_index (i + 1) fs serverFluid)"

definition serverFluidToClient :: "u8 \<Rightarrow> u8" where
  "serverFluidToClient serverFluid = of_nat (fluid_index 0 clientToServerFluidMap serverFluid)"

definition clientFluidToServer :: "u8 \<Rightarrow> u8" where
  "clientFluidToServer clientFluid =
     (if unat clientFluid \<ge> length clientToServerFluidMap then 0
      else clientToServerFluidMap ! unat clientFluid)"

section \<open>Messages\<close>

definition getReturnMessage :: "ReturnValue \<Rightarrow> string" where
  "getReturnMessage value = (case value of
       RETURNVALUE_DESTINATIONOUTOFREACH \<Rightarrow> ''Destination is out of reach.''
     | RETURNVALUE_NOTMOVEABLE \<Rightarrow> ''You cannot move this object.''
     | RETURNVALUE_DROPTWOHANDEDITEM \<Rightarrow> ''Drop the double-handed object first.''
     | RETURNVALUE_BOTHHANDSNEEDTOBEFREE \<Rightarrow> ''Both hands need to be free.''
     | RETURNVALUE_CANNOTBEDRESSED \<Rightarrow> ''You cannot dress this object there.''
     | RETURNVALUE_PUTTHISOBJECTINYOURHAND \<Rightarrow> ''Put this object in your hand.''
     | RETURNVALUE_PUTTHISOBJECTINBOTHHANDS \<Rightarrow> ''Put this object in both hands.''
     | RETURNVALUE_CANONLYUSEONEWEAPON \<Rightarrow> ''You may only use one weapon.''
     | RETURNVALUE_TOOFARAWAY \<Rightarrow> ''Too far away.''
     | RETURNVALUE_FIRSTGODOWNSTAIRS \<Rightarrow> ''First go downstairs.''
     | RETURNVALUE_FIRSTGOUPSTAIRS \<Rightarrow> ''First go upstairs.''
     | RETURNVALUE_NOTENOUGHCAPACITY \<Rightarrow> ''This object is too heavy for you to carry.''
     | RETURNVALUE_CONTAINERNOTENOUGHROOM \<Rightarrow> ''You cannot put more objects in this container.''
     | RETURNVALUE_NEEDEXCHANGE \<Rightarrow> ''There is not enough room.''
     | RETURNVALUE_NOTENOUGHROOM \<Rightarrow> ''There is not enough room.''
     | RETURNVALUE_CANNOTPICKUP \<Rightarrow> ''You cannot take this object.''
     | RETURNVALUE_CANNOTTHROW \<Rightarrow> ''You cannot throw there.''
     | RETURNVALUE_THEREISNOWAY \<Rightarrow> ''There is no way.''
     | RETURNVALUE_THISISIMPOSSIBLE \<Rightarrow> ''This is impossible.''
     | RETURNVALUE_PLAYERISPZLOCKED \<Rightarrow> ''You can not enter a protection zone after attacking another player.''
     | RETURNVALUE_PLAYERISNOTINVITED \<Rightarrow> ''You are not invited.''
     | RETURNVALUE_CREATUREDOESNOTEXIST \<Rightarrow> ''Creature does not exist.''
     | RETURNVALUE_DEPOTISFULL \<Rightarrow> ''You cannot put more items in this depot.''
     | RETURNVALUE_CANNOTUSETHISOBJECT \<Rightarrow> ''You cannot use this object.''
     | RETURNVALUE_PLAYERWITHTHISNAMEISNOTONLINE \<Rightarrow> ''A player with this name is not online.''
     | RETURNVALUE_NOTREQUIREDLEVELTOUSERUNE \<Rightarrow> ''You do not have the required magic level to use this rune.''
     | RETURNVALUE_YOUAREALREADYTRADING \<Rightarrow> ''You are already trading.''
     | RETURNVALUE_THISPLAYERISALREADYTRADING \<Rightarrow> ''This player is already trading.''
     | RETURNVALUE_YOUMAYNOTLOGOUTDURINGAFIGHT \<Rightarrow> ''You may not logout during or immediately after a fight!''
     | RETURNVALUE_DIRECTPLAYERSHOOT \<Rightarrow> ''You are not allowed to shoot directly on players.''
     | RETURNVALUE_NOTENOUGHLEVEL \<Rightarrow> ''You do not have enough level.''
     | RETURNVALUE_NOTENOUGHMAGICLEVEL \<Rightarrow> ''You do not have enough magic level.''
     | RETURNVALUE_NOTENOUGHMANA \<Rightarrow> ''You do not have enough mana.''
     | RETURNVALUE_NOTENOUGHSOUL \<Rightarrow> ''You do not have enough soul.''
     | RETURNVALUE_YOUAREEXHAUSTED \<Rightarrow> ''You are exhausted.''
     | RETURNVALUE_CANONLYUSETHISRUNEONCREATURES \<Rightarrow> ''You can only use this rune on creatures.''
     | RETURNVALUE_PLAYERISNOTREACHABLE \<Rightarrow> ''Player is not reachable.''
     | RETURNVALUE_CREATUREISNOTREACHABLE \<Rightarrow> ''Creature is not reachable.''
     | RETURNVALUE_ACTIONNOTPERMITTEDINPROTECTIONZONE \<Rightarrow> ''This action is not permitted in a protection zone.''
     | RETURNVALUE_YOUMAYNOTATTACKTHISPLAYER \<Rightarrow> ''You may not attack this player.''
     | RETURNVALUE_YOUMAYNOTATTACKTHISCREATURE \<Rightarrow> ''You may not attack this creature.''
     | RETURNVALUE_YOUMAYNOTATTACKAPERSONINPROTECTIONZONE \<Rightarrow> ''You may not attack a person in a protection zone.''
     | RETURNVALUE_YOUMAYNOTATTACKAPERSONWHILEINPROTECTIONZONE \<Rightarrow> ''You may not attack a person while you are in a protection zone.''
     | RETURNVALUE_YOUCANONLYUSEITONCREATURES \<Rightarrow> ''You can only use it on creatures.''
     | RETURNVALUE_TURNSECUREMODETOATTACKUNMARKEDPLAYERS \<Rightarrow> ''Turn secure mode off if you really want to attack unmarked players.''
     | RETURNVALUE_YOUNEEDPREMIUMACCOUNT \<Rightarrow> ''You need a premium account.''
     | RETURNVALUE_YOUNEEDTOLEARNTHISSPELL \<Rightarrow> ''You need to learn this spell first.''
     | RETURNVALUE_YOURVOCATIONCANNOTUSETHISSPELL \<Rightarrow> ''Your vocation cannot use this spell.''
     | RETURNVALUE_YOUNEEDAWEAPONTOUSETHISSPELL \<Rightarrow> ''You need to equip a weapon to use this spell.''
     | RETURNVALUE_PLAYERISPZLOCKEDLEAVEPVPZONE \<Rightarrow> ''You can not leave a pvp zone after attacking another player.''
     | RETURNVALUE_PLAYERISPZLOCKEDENTERPVPZONE \<Rightarrow> ''You can not enter a pvp zone after attacking another player.''
     | RETURNVALUE_ACTIONNOTPERMITTEDINANOPVPZONE \<Rightarrow> ''This action is not permitted in a non pvp zone.''
     | RETURNVALUE_YOUCANNOTLOGOUTHERE \<Rightarrow> ''You can not logout here.''
     | RETURNVALUE_YOUNEEDAMAGICITEMTOCASTSPELL \<Rightarrow> ''You need a magic item to cast this spell.''
     | RETURNVALUE_CANNOTCONJUREITEMHERE \<Rightarrow> ''You cannot conjure items here.''
     | RETURNVALUE_YOUNEEDTOSPLITYOURSPEARS \<Rightarrow> ''You need to split your spears first.''
     | RETURNVALUE_NAMEISTOOAMBIGIOUS \<Rightarrow> ''Name is too ambigious.''
     | RETURNVALUE_CANONLYUSEONESHIELD \<Rightarrow> ''You may use only one shield.''
     | RETURNVALUE_NOPARTYMEMBERSINRANGE \<Rightarrow> ''No party members in range.''
     | RETURNVALUE_YOUARENOTTHEOWNER \<Rightarrow> ''You are not the owner.''
     | _ \<Rightarrow> ''Sorry, not possible.'')"

section \<open>Round trips\<close>

lemmas name_tables = combatTypeNames_def ammoTypeNames_def weaponActionNames_def skullNames_def

lemma strcasecmp_eq_refl [simp]: "strcasecmp_eq s s"
  by (simp add: strcasecmp_eq_def)

lemma strcasecmp_eq_lower:
  "CHR 0x00 \<notin> set s \<Longrightarrow> strcasecmp_eq (asLowerCaseString s) s"
proof -
  assume "CHR 0x00 \<notin> set s"
  moreover have "char_tolower c = CHR 0x00 \<longleftrightarrow> c = CHR 0x00" for c
  proof
    assume "char_tolower c = CHR 0x00"
    then have "(of_char (char_tolower c) :: nat) = 0" by simp
    then have "(of_char c :: nat) = 0"
      by (cases "65 \<le> (of_char c :: nat) \<and> (of_char c :: nat) \<le> 90")
         (auto simp: char_tolower_def)
    then have "char_of (of_char c :: nat) = CHR 0x00" by (simp add: char_of_def)
    then show "c = CHR 0x00" by simp
  qed (simp add: char_tolower_def)
  ultimately have "c_str (map char_tolower s) = map char_tolower s" "c_str s = s"
    by (auto simp: c_str_def takeWhile_eq_all_conv)
  then show ?thesis
    by (simp add: strcasecmp_eq_def asLowerCaseString_def comp_def)
qed

lemma getCombatType_name: "getCombatType (getCombatName t) = t"
  by (cases t)
     (simp_all add: getCombatType_def getCombatName_def combatTypeNames_def strcasecmp_eq_def
       c_str_def char_tolower_def)

lemma indexToCombatType_index: "t \<noteq> COMBAT_NONE \<Longrightarrow> indexToCombatType (combatTypeToIndex t) = combat_code t"
  by (cases t) (simp_all add: indexToCombatType_def)

lemma combatTypeToIndex_less: "combatTypeToIndex t < 12"
  by (cases t) simp_all

text \<open>The name of every damage type is read back as that type, its index is turned back into its
  bit, and the indexes of the twelve damage types are 0 to 11.\<close>
theorem combat_types_roundtrip:
  "getCombatType (getCombatName t) = t \<and>
   (t = COMBAT_NONE \<or> indexToCombatType (combatTypeToIndex t) = combat_code t) \<and>
   combatTypeToIndex t < 12"
  using getCombatType_name [of t] indexToCombatType_index [of t] combatTypeToIndex_less [of t]
  by blast

lemma distinct_fluid_map: "distinct clientToServerFluidMap"
  by (simp add: clientToServerFluidMap_def)

lemma fluid_index_nth:
  "distinct fs \<Longrightarrow> k < length fs \<Longrightarrow> fluid_index i fs (fs ! k) = i + k"
proof (induction i fs "fs ! k" arbitrary: k rule: fluid_index.induct)
  case (2 i f fs)
  then show ?case
    by (cases k) (auto simp: nth_eq_iff_index_eq)
qed simp

text \<open>Every client fluid below 18 survives the way to the server and back.\<close>

lemma fluid_roundtrip:
  assumes "unat c < length clientToServerFluidMap"
  shows "serverFluidToClient (clientFluidToServer c) = c"
  using assms fluid_index_nth [OF distinct_fluid_map assms, of 0]
  by (simp add: serverFluidToClient_def clientFluidToServer_def)

text \<open>Lava and swamp have no row in the client map and are sent as empty.\<close>

lemma fluid_not_sent: "serverFluidToClient 26 = 0 \<and> serverFluidToClient 28 = 0"
  by (simp add: serverFluidToClient_def clientToServerFluidMap_def)

end
