(* ===== verification/WildcardTree.thy ===== *)
theory WildcardTree
  imports ReturnValues Prelude "HOL-Library.Sublist" "HOL-Library.AList"
begin

text \<open>
  The prefix tree of the names of the players online (wildcardtree.h, wildcardtree.cpp), which
  completes a name typed with a trailing wildcard.  A node owns a map from characters to
  children, here an association list with distinct keys, and a flag that a name ends at it.
  The loops that walk the tree with a pointer rebuild the path they changed.  The tree is shown
  to implement a set of names, and \<open>findOne\<close> to decide whether exactly one name completes a
  query.
\<close>

section \<open>Nodes\<close>

datatype WildcardTreeNode = Node (children: "(char \<times> WildcardTreeNode) list") (breakpoint: bool)

definition getChild :: "WildcardTreeNode \<Rightarrow> char \<Rightarrow> WildcardTreeNode option" where
  "getChild n ch = map_of (children n) ch"

text \<open>Writing through the pointer to the child \<open>ch\<close>.\<close>

definition putChild :: "WildcardTreeNode \<Rightarrow> char \<Rightarrow> WildcardTreeNode \<Rightarrow> WildcardTreeNode" where
  "putChild n ch child = Node (AList.update ch child (children n)) (breakpoint n)"

definition eraseChild :: "WildcardTreeNode \<Rightarrow> char \<Rightarrow> WildcardTreeNode" where
  "eraseChild n ch = Node (AList.delete ch (children n)) (breakpoint n)"

text \<open>\<open>addChild\<close>: the child it returns; the node is updated with \<open>putChild\<close>.\<close>

definition addedChild :: "WildcardTreeNode \<Rightarrow> char \<Rightarrow> bool \<Rightarrow> WildcardTreeNode" where
  "addedChild n ch bp =
     (case getChild n ch of
        Some child \<Rightarrow> (if bp \<and> \<not> breakpoint child then Node (children child) True else child)
      | None \<Rightarrow> Node [] bp)"

text \<open>
  \<open>insert\<close>: all characters but the last add a child without a breakpoint.  For the empty
  string \<open>str.length() - 1\<close> wraps and the loop reads past the string, which is None here.
\<close>

fun insert_name :: "WildcardTreeNode \<Rightarrow> string \<Rightarrow> WildcardTreeNode option" where
  "insert_name cur [] = None"
| "insert_name cur [ch] = Some (putChild cur ch (addedChild cur ch True))"
| "insert_name cur (ch # c # cs) =
     map_option (putChild cur ch) (insert_name (addedChild cur ch False) (c # cs))"

text \<open>
  \<open>remove\<close> first walks down and pushes the nodes passed on a stack, here the pairs of a
  parent and the character taken.
\<close>

fun walk_down :: "WildcardTreeNode \<Rightarrow> (WildcardTreeNode \<times> char) list \<Rightarrow> string \<Rightarrow>
    (WildcardTreeNode \<times> (WildcardTreeNode \<times> char) list) option" where
  "walk_down cur path [] = Some (cur, path)"
| "walk_down cur path (ch # str) =
     (case getChild cur ch of
        None \<Rightarrow> None
      | Some child \<Rightarrow> walk_down child ((cur, ch) # path) str)"

text \<open>The tree with the current node put back under the parents on the stack.\<close>

fun rebuild :: "WildcardTreeNode \<Rightarrow> (WildcardTreeNode \<times> char) list \<Rightarrow> WildcardTreeNode" where
  "rebuild cur [] = cur"
| "rebuild cur ((parent, ch) # path) = rebuild (putChild parent ch cur) path"

text \<open>The loop that goes back up and erases nodes that have become useless.\<close>

fun unwind :: "WildcardTreeNode \<Rightarrow> (WildcardTreeNode \<times> char) list \<Rightarrow> WildcardTreeNode" where
  "unwind cur [] = cur"
| "unwind cur ((parent, ch) # path) =
     (if children cur \<noteq> [] \<or> breakpoint cur then rebuild cur ((parent, ch) # path)
      else unwind (eraseChild parent ch) path)"

definition remove_name :: "WildcardTreeNode \<Rightarrow> string \<Rightarrow> WildcardTreeNode" where
  "remove_name root str =
     (case walk_down root [] str of
        None \<Rightarrow> root
      | Some (cur, path) \<Rightarrow> unwind (Node (children cur) False) path)"

text \<open>The second loop of \<open>findOne\<close>: follow only children, collecting their characters.\<close>

fun complete :: "WildcardTreeNode \<Rightarrow> string \<Rightarrow> ReturnValue \<times> string" where
  "complete (Node [] bp) result = (RETURNVALUE_NOERROR, result)"
| "complete (Node [(ch, child)] bp) result =
     (if bp then (RETURNVALUE_NAMEISTOOAMBIGIOUS, result) else complete child (result @ [ch]))"
| "complete (Node (e1 # e2 # es) bp) result = (RETURNVALUE_NAMEISTOOAMBIGIOUS, result)"

fun walk_query :: "WildcardTreeNode \<Rightarrow> string \<Rightarrow> WildcardTreeNode option" where
  "walk_query cur [] = Some cur"
| "walk_query cur (ch # q) =
     (case getChild cur ch of None \<Rightarrow> None | Some child \<Rightarrow> walk_query child q)"

text \<open>\<open>findOne\<close>; \<open>result\<close> is the string the caller passes, written only when the query is found.\<close>

definition findOne :: "WildcardTreeNode \<Rightarrow> string \<Rightarrow> string \<Rightarrow> ReturnValue \<times> string" where
  "findOne root query result =
     (case walk_query root query of
        None \<Rightarrow> (RETURNVALUE_PLAYERWITHTHISNAMEISNOTONLINE, result)
      | Some cur \<Rightarrow> complete cur query)"

definition empty_tree :: WildcardTreeNode where
  "empty_tree = Node [] False"

section \<open>The set of names and the invariant\<close>

definition names :: "WildcardTreeNode \<Rightarrow> string set" where
  "names n = {s. \<exists>m. walk_query n s = Some m \<and> breakpoint m}"

text \<open>Keys are distinct, and every node below the root is useful: a name or a parent.\<close>

fun tree_ok :: "WildcardTreeNode \<Rightarrow> bool" where
  "tree_ok (Node cs bp) = (distinct (map fst cs) \<and>
     (\<forall>e \<in> set cs. tree_ok (snd e) \<and> (children (snd e) \<noteq> [] \<or> breakpoint (snd e))))"

declare tree_ok.simps [simp del]

lemma tree_ok_iff:
  "tree_ok n \<longleftrightarrow> distinct (map fst (children n)) \<and>
     (\<forall>ch c. getChild n ch = Some c \<longrightarrow> tree_ok c \<and> (children c \<noteq> [] \<or> breakpoint c))"
proof (cases n)
  case (Node cs bp)
  show ?thesis
    unfolding Node tree_ok.simps getChild_def
    by (fastforce simp: map_of_eq_Some_iff)
qed

lemma getChild_putChild [simp]:
  "getChild (putChild n ch c) k = (if k = ch then Some c else getChild n k)"
  by (simp add: getChild_def putChild_def update_conv')

lemma getChild_eraseChild [simp]:
  "getChild (eraseChild n ch) k = (if k = ch then None else getChild n k)"
  by (simp add: getChild_def eraseChild_def delete_conv')

lemma breakpoint_put [simp]: "breakpoint (putChild n ch c) = breakpoint n"
  "breakpoint (eraseChild n ch) = breakpoint n"
  by (simp_all add: putChild_def eraseChild_def)

lemma children_putChild [simp]: "children (putChild n ch c) \<noteq> []"
  by (simp add: putChild_def)

lemma distinct_keys_put:
  "distinct (map fst (children n)) \<Longrightarrow> distinct (map fst (children (putChild n ch c)))"
  "distinct (map fst (children n)) \<Longrightarrow> distinct (map fst (children (eraseChild n ch)))"
  by (simp_all add: putChild_def eraseChild_def distinct_update distinct_delete)

lemma tree_ok_putChild:
  "tree_ok n \<Longrightarrow> tree_ok c \<Longrightarrow> children c \<noteq> [] \<or> breakpoint c \<Longrightarrow> tree_ok (putChild n ch c)"
  by (subst tree_ok_iff) (auto simp: tree_ok_iff [of n] distinct_keys_put split: if_splits)

lemma tree_ok_eraseChild: "tree_ok n \<Longrightarrow> tree_ok (eraseChild n ch)"
  by (subst tree_ok_iff) (auto simp: tree_ok_iff [of n] distinct_keys_put split: if_splits)

lemma tree_ok_getChild: "tree_ok n \<Longrightarrow> getChild n ch = Some c \<Longrightarrow> tree_ok c"
  by (simp add: tree_ok_iff [of n])

lemma names_Nil: "[] \<in> names n \<longleftrightarrow> breakpoint n"
  by (simp add: names_def)

lemma names_Cons:
  "ch # s \<in> names n \<longleftrightarrow> (\<exists>c. getChild n ch = Some c \<and> s \<in> names c)"
  by (auto simp: names_def split: option.splits)

lemma names_empty: "names empty_tree = {}"
proof -
  have "s \<notin> names empty_tree" for s
    by (cases s) (simp_all add: names_Nil names_Cons empty_tree_def getChild_def)
  then show ?thesis by blast
qed

lemma names_putChild:
  "names (putChild n ch c) = {s \<in> names n. s = [] \<or> hd s \<noteq> ch} \<union> {ch # s | s. s \<in> names c}"
  (is "?l = ?r")
proof (rule set_eqI)
  fix s show "s \<in> ?l \<longleftrightarrow> s \<in> ?r"
    by (cases s) (auto simp: names_Nil names_Cons)
qed

lemma names_eraseChild: "names (eraseChild n ch) = {s \<in> names n. s = [] \<or> hd s \<noteq> ch}"
  (is "?l = ?r")
proof (rule set_eqI)
  fix s show "s \<in> ?l \<longleftrightarrow> s \<in> ?r"
    by (cases s) (auto simp: names_Nil names_Cons)
qed

section \<open>Insertion\<close>

lemma names_addedChild_False:
  "names (addedChild n ch False) = (case getChild n ch of None \<Rightarrow> {} | Some c \<Rightarrow> names c)"
  by (auto simp: addedChild_def names_empty [unfolded empty_tree_def] split: option.splits)

lemma getChild_flag [simp]: "getChild (Node (children c) b) ch = getChild c ch"
  by (simp add: getChild_def)

lemma names_eqI: "([] \<in> A \<longleftrightarrow> [] \<in> B) \<Longrightarrow> (\<And>ch s. ch # s \<in> A \<longleftrightarrow> ch # s \<in> B) \<Longrightarrow> A = B"
  by (metis neq_Nil_conv subsetI subset_antisym)

lemma names_breakpoint: "names (Node (children c) True) = insert [] (names c)"
  "names (Node (children c) False) = names c - {[]}"
  by (rule names_eqI; simp add: names_Nil names_Cons)+

lemma names_addedChild_True:
  "names (addedChild n ch True) = insert [] (case getChild n ch of None \<Rightarrow> {} | Some c \<Rightarrow> names c)"
proof (cases "getChild n ch")
  case None
  then show ?thesis
    using names_breakpoint(1) [of "Node [] False"] names_empty
    by (simp add: addedChild_def empty_tree_def)
next
  case (Some c)
  then show ?thesis
    by (auto simp: addedChild_def names_breakpoint names_Nil)
qed

lemma tree_ok_flag [simp]: "tree_ok (Node (children c) b) = tree_ok c"
  by (cases c) (simp add: tree_ok.simps)

lemma tree_ok_addedChild: "tree_ok n \<Longrightarrow> tree_ok (addedChild n ch b)"
  using tree_ok_getChild [of n ch]
  by (auto simp: addedChild_def tree_ok.simps(1) [of "[]"] split: option.splits)

lemma names_replace:
  assumes "names c = insert s (case getChild n ch of None \<Rightarrow> {} | Some c' \<Rightarrow> names c')"
  shows "names (putChild n ch c) = insert (ch # s) (names n)"
proof (rule set_eqI)
  fix t show "t \<in> names (putChild n ch c) \<longleftrightarrow> t \<in> insert (ch # s) (names n)"
    using assms by (cases t) (auto simp: names_Nil names_Cons split: option.splits if_splits)
qed

lemma insert_name_correct:
  "tree_ok n \<Longrightarrow> insert_name n s = Some n' \<Longrightarrow>
     tree_ok n' \<and> children n' \<noteq> [] \<and> names n' = insert s (names n)"
proof (induction n s arbitrary: n' rule: insert_name.induct)
  case (1 cur)
  then show ?case by simp
next
  case (2 cur ch)
  then show ?case
    by (auto intro!: tree_ok_putChild tree_ok_addedChild names_replace
        simp: names_addedChild_True)
       (auto simp: addedChild_def split: option.splits if_splits)
next
  case (3 cur ch c cs)
  then obtain m where m: "insert_name (addedChild cur ch False) (c # cs) = Some m"
    "n' = putChild cur ch m" by auto
  with "3.IH" [OF tree_ok_addedChild [OF "3.prems"(1)]] have
    "tree_ok m" "children m \<noteq> []" "names m = insert (c # cs) (names (addedChild cur ch False))"
    by auto
  with m "3.prems"(1) show ?case
    by (auto intro!: tree_ok_putChild names_replace simp: names_addedChild_False)
qed

lemma insert_name_total: "s \<noteq> [] \<Longrightarrow> \<exists>n'. insert_name n s = Some n'"
  by (induction n s rule: insert_name.induct) auto

section \<open>Removal\<close>

text \<open>The tree with the subtree at the path \<open>s\<close> replaced: what a rebuilt stack denotes.\<close>

fun replace_at :: "WildcardTreeNode \<Rightarrow> string \<Rightarrow> WildcardTreeNode \<Rightarrow> WildcardTreeNode" where
  "replace_at n [] x = x"
| "replace_at n (ch # s) x =
     (case getChild n ch of None \<Rightarrow> n | Some c \<Rightarrow> putChild n ch (replace_at c s x))"

lemma walk_down_Some:
  "walk_down n path s = Some (cur, path') \<Longrightarrow>
     walk_query n s = Some cur \<and> rebuild x path' = rebuild (replace_at n s x) path"
  by (induction n path s rule: walk_down.induct) (auto split: option.splits)

lemma walk_down_None: "walk_down n path s = None \<longleftrightarrow> walk_query n s = None"
  by (induction n path s rule: walk_down.induct) (auto split: option.splits)

lemma names_rebuild_cong: "names a = names b \<Longrightarrow> names (rebuild a path) = names (rebuild b path)"
proof (induction path arbitrary: a b)
  case (Cons f path)
  then show ?case by (cases f) (auto intro!: Cons.IH simp: names_putChild)
qed simp

lemma names_unwind: "names (unwind cur path) = names (rebuild cur path)"
proof (induction cur path rule: unwind.induct)
  case (2 cur parent ch path)
  show ?case
  proof (cases "children cur \<noteq> [] \<or> breakpoint cur")
    case False
    then have "cur = empty_tree" by (cases cur) (simp add: empty_tree_def)
    then have "names (eraseChild parent ch) = names (putChild parent ch cur)"
      by (simp add: names_putChild names_eraseChild names_empty)
    from names_rebuild_cong [OF this] False 2 show ?thesis by simp
  qed simp
qed simp

lemma names_replace_at:
  "walk_query n s = Some cur \<Longrightarrow> names (replace_at n s (Node (children cur) False)) = names n - {s}"
proof (induction s arbitrary: n)
  case Nil
  then show ?case by (simp add: names_breakpoint)
next
  case (Cons ch s)
  then obtain c where c: "getChild n ch = Some c" "walk_query c s = Some cur"
    by (auto split: option.splits)
  show ?case
  proof (rule set_eqI)
    fix t
    show "t \<in> names (replace_at n (ch # s) (Node (children cur) False)) \<longleftrightarrow> t \<in> names n - {ch # s}"
      using c Cons.IH [OF c(2)] by (cases t) (auto simp: names_Nil names_Cons)
  qed
qed

lemma tree_ok_rebuild:
  "tree_ok cur \<Longrightarrow> children cur \<noteq> [] \<or> breakpoint cur \<Longrightarrow> \<forall>f \<in> set path. tree_ok (fst f) \<Longrightarrow>
     tree_ok (rebuild cur path)"
  by (induction cur path rule: rebuild.induct) (auto intro: tree_ok_putChild)

lemma tree_ok_unwind:
  "tree_ok cur \<Longrightarrow> \<forall>f \<in> set path. tree_ok (fst f) \<Longrightarrow> tree_ok (unwind cur path)"
  by (induction cur path rule: unwind.induct)
     (auto intro: tree_ok_eraseChild tree_ok_rebuild tree_ok_putChild)

lemma walk_down_frames:
  "walk_down n path s = Some (cur, path') \<Longrightarrow> tree_ok n \<Longrightarrow> \<forall>f \<in> set path. tree_ok (fst f) \<Longrightarrow>
     tree_ok cur \<and> (\<forall>f \<in> set path'. tree_ok (fst f))"
  by (induction n path s rule: walk_down.induct) (auto split: option.splits dest: tree_ok_getChild)

lemma walk_query_None: "walk_query n s = None \<Longrightarrow> s \<notin> names n"
  by (simp add: names_def)

lemma remove_name_correct:
  assumes "tree_ok n"
  shows "tree_ok (remove_name n s) \<and> names (remove_name n s) = names n - {s}"
proof (cases "walk_down n [] s")
  case None
  then have "s \<notin> names n" by (simp add: walk_down_None walk_query_None)
  with None show ?thesis using assms by (simp add: remove_name_def)
next
  case (Some r)
  obtain cur path where r: "r = (cur, path)" by force
  note walk = walk_down_Some [OF Some [unfolded r]]
  have "names (remove_name n s) = names n - {s}"
    using Some walk [of "Node (children cur) False"] names_replace_at [of n s cur]
    by (simp add: remove_name_def r names_unwind)
  moreover have "tree_ok (remove_name n s)"
    using walk_down_frames [OF Some [unfolded r] assms] Some
    by (simp add: remove_name_def r tree_ok_unwind)
  ultimately show ?thesis by blast
qed

section \<open>Completion\<close>

lemma useful_has_name: "tree_ok n \<Longrightarrow> children n \<noteq> [] \<or> breakpoint n \<Longrightarrow> names n \<noteq> {}"
proof (induction n)
  case (Node cs bp)
  show ?case
  proof (cases cs)
    case Nil
    with Node.prems have "[] \<in> names (Node cs bp)" by (simp add: names_Nil)
    then show ?thesis by blast
  next
    case (Cons e es)
    obtain ch c where e: "e = (ch, c)" by force
    have c: "getChild (Node cs bp) ch = Some c" by (simp add: getChild_def Cons e)
    with Node.prems have "tree_ok c" "children c \<noteq> [] \<or> breakpoint c"
      by (simp_all add: tree_ok_iff [of "Node cs bp"])
    with Node.IH [of e c] Cons e obtain t where "t \<in> names c" by auto
    with c have "ch # t \<in> names (Node cs bp)" by (simp add: names_Cons)
    then show ?thesis by blast
  qed
qed

definition ambiguous :: "string set \<Rightarrow> bool" where
  "ambiguous M = (\<exists>s \<in> M. \<exists>t \<in> M. s \<noteq> t)"

lemma child_name:
  "tree_ok n \<Longrightarrow> getChild n ch = Some c \<Longrightarrow> \<exists>t. ch # t \<in> names n"
  using useful_has_name [of c] by (fastforce simp: tree_ok_iff [of n] names_Cons)

lemma complete_correct:
  "tree_ok n \<Longrightarrow> children n \<noteq> [] \<or> breakpoint n \<Longrightarrow>
     (\<exists>s. names n = {s} \<and> complete n r = (RETURNVALUE_NOERROR, r @ s)) \<or>
     (ambiguous (names n) \<and> fst (complete n r) = RETURNVALUE_NAMEISTOOAMBIGIOUS)"
proof (induction n r rule: complete.induct)
  case (1 bp result)
  then have "names (Node [] bp) = {[]}"
    by (intro names_eqI) (simp_all add: names_Nil names_Cons getChild_def)
  then show ?case by simp
next
  case (2 ch child bp result)
  have get: "getChild (Node [(ch, child)] b) k = (if k = ch then Some child else None)" for k b
    by (simp add: getChild_def)
  show ?case
  proof (cases bp)
    case True
    obtain t where "ch # t \<in> names (Node [(ch, child)] bp)"
      using child_name [OF "2.prems"(1)] get by metis
    moreover have "[] \<in> names (Node [(ch, child)] bp)" using True by (simp add: names_Nil)
    ultimately show ?thesis using True by (auto simp: ambiguous_def)
  next
    case False
    have child: "tree_ok child" "children child \<noteq> [] \<or> breakpoint child"
      using "2.prems"(1) get by (simp_all add: tree_ok_iff [of "Node [(ch, child)] bp"])
    have nm: "names (Node [(ch, child)] bp) = (#) ch ` names child"
      using False by (intro names_eqI) (auto simp: names_Nil names_Cons get image_iff)
    from "2.IH" [OF False child] show ?thesis
      using False unfolding nm ambiguous_def by auto
  qed
next
  case (3 e1 e2 es bp result)
  let ?n = "Node (e1 # e2 # es) bp"
  have keys: "fst e1 \<noteq> fst e2" using "3.prems"(1) by (simp add: tree_ok.simps)
  then have "getChild ?n (fst e1) = Some (snd e1)" "getChild ?n (fst e2) = Some (snd e2)"
    by (cases e1; cases e2; simp add: getChild_def)+
  then obtain s t where "fst e1 # s \<in> names ?n" "fst e2 # t \<in> names ?n"
    using child_name [OF "3.prems"(1)] by metis
  with keys show ?case by (force simp: ambiguous_def)
qed

lemma walk_query_names: "walk_query n q = Some c \<Longrightarrow> q @ s \<in> names n \<longleftrightarrow> s \<in> names c"
  by (induction q arbitrary: n) (auto simp: names_Cons split: option.splits)

lemma walk_query_prefix: "q @ s \<in> names n \<Longrightarrow> \<exists>c. walk_query n q = Some c"
  by (induction q arbitrary: n) (auto simp: names_Cons)

lemma walk_query_ok:
  "walk_query n q = Some c \<Longrightarrow> tree_ok n \<Longrightarrow>
     tree_ok c \<and> (q \<noteq> [] \<longrightarrow> children c \<noteq> [] \<or> breakpoint c)"
proof (induction q arbitrary: n)
  case (Cons ch q)
  then obtain d where "getChild n ch = Some d" "walk_query d q = Some c"
    by (auto split: option.splits)
  with Cons show ?case by (cases q) (auto simp: tree_ok_iff [of n])
qed simp

text \<open>The names that complete a query.\<close>

definition matches :: "string set \<Rightarrow> string \<Rightarrow> string set" where
  "matches N q = {s \<in> N. prefix q s}"

lemma matches_walk:
  "walk_query n q = Some c \<Longrightarrow> matches (names n) q = (@) q ` names c"
  by (auto simp: matches_def prefix_def walk_query_names)

lemma ambiguous_image [simp]: "ambiguous ((@) q ` N) = ambiguous N"
  by (auto simp: ambiguous_def)

lemma not_ambiguous_singleton [simp]: "\<not> ambiguous {s}"
  by (simp add: ambiguous_def)

lemma name_useful: "s \<in> names n \<Longrightarrow> children n \<noteq> [] \<or> breakpoint n"
  by (cases s) (auto simp: names_Nil names_Cons getChild_def)

lemma findOne_facts:
  assumes "tree_ok root" and "query \<noteq> [] \<or> names root \<noteq> {}"
  shows "(matches (names root) query = {} \<longrightarrow>
            findOne root query r = (RETURNVALUE_PLAYERWITHTHISNAMEISNOTONLINE, r)) \<and>
         (\<forall>s. matches (names root) query = {s} \<longrightarrow> findOne root query r = (RETURNVALUE_NOERROR, s)) \<and>
         (ambiguous (matches (names root) query) \<longleftrightarrow>
            fst (findOne root query r) = RETURNVALUE_NAMEISTOOAMBIGIOUS)"
proof (cases "walk_query root query")
  case None
  then have "matches (names root) query = {}"
    using walk_query_prefix [of query _ root] by (auto simp: matches_def prefix_def)
  with None show ?thesis by (simp add: findOne_def ambiguous_def)
next
  case (Some c)
  note c = walk_query_ok [OF Some assms(1)]
  have m: "matches (names root) query = (@) query ` names c" by (rule matches_walk [OF Some])
  have ok: "tree_ok c" using c by blast
  have use: "children c \<noteq> [] \<or> breakpoint c"
  proof (cases "query = []")
    case True
    with Some assms(2) obtain s where "s \<in> names c" by auto
    then show ?thesis by (rule name_useful)
  next
    case False
    with c show ?thesis by blast
  qed
  have ne: "names c \<noteq> {}" by (rule useful_has_name [OF ok use])
  from complete_correct [OF ok use, of query] show ?thesis
  proof (elim disjE exE conjE)
    fix s
    assume "names c = {s}" "complete c query = (RETURNVALUE_NOERROR, query @ s)"
    then show ?thesis by (simp add: m findOne_def Some)
  next
    assume amb: "ambiguous (names c)" and
      res: "fst (complete c query) = RETURNVALUE_NAMEISTOOAMBIGIOUS"
    have "(@) query ` names c \<noteq> {s}" for s
      using amb ambiguous_image [of query "names c"] by (metis not_ambiguous_singleton)
    with amb res ne show ?thesis by (simp add: m findOne_def Some)
  qed
qed

text \<open>C31: in a well-formed tree, \<open>findOne\<close> answers "not online" when no name starts with the query,
  "no error" with the one name that does when there is exactly one, and "ambiguous" exactly when two
  different names do.\<close>
theorem findOne_decides:
  assumes "tree_ok root" and "query \<noteq> [] \<or> names root \<noteq> {}"
  shows "(matches (names root) query = {} \<longrightarrow>
            findOne root query r = (RETURNVALUE_PLAYERWITHTHISNAMEISNOTONLINE, r)) \<and>
         (\<forall>s. matches (names root) query = {s} \<longrightarrow> findOne root query r = (RETURNVALUE_NOERROR, s)) \<and>
         (ambiguous (matches (names root) query) \<longleftrightarrow>
            fst (findOne root query r) = RETURNVALUE_NAMEISTOOAMBIGIOUS)"
  by (rule findOne_facts [OF assms])

definition example_tree :: WildcardTreeNode where
  "example_tree = Node [(CHR ''a'', Node [(CHR ''n'', Node [] True), (CHR ''l'', Node [] True)] False)] False"

theorem findOne_decides_witness:
  "fst (findOne example_tree ''a'' []) = RETURNVALUE_NAMEISTOOAMBIGIOUS \<and>
   ambiguous (matches (names example_tree) ''a'')"
proof -
  have ok: "tree_ok example_tree" by (simp add: example_tree_def tree_ok.simps)
  have r: "fst (findOne example_tree ''a'' []) = RETURNVALUE_NAMEISTOOAMBIGIOUS"
    by (simp add: example_tree_def findOne_def getChild_def)
  from findOne_decides [OF ok, of "''a''" "[]"] r show ?thesis by simp
qed

section \<open>The interface of a set of names\<close>

text \<open>
  What the game relies on: a register of names that can be added to and dropped from, whose
  contents change by exactly the name given, and that stays well-formed.
\<close>

datatype name_op = Add string | Drop string

fun run_names :: "('t \<Rightarrow> string \<Rightarrow> 't option) \<Rightarrow> ('t \<Rightarrow> string \<Rightarrow> 't) \<Rightarrow> name_op list \<Rightarrow> 't \<Rightarrow> 't option" where
  "run_names add_op drop_op [] t = Some t"
| "run_names add_op drop_op (Add s # ops) t =
     (case add_op t s of None \<Rightarrow> None | Some t' \<Rightarrow> run_names add_op drop_op ops t')"
| "run_names add_op drop_op (Drop s # ops) t = run_names add_op drop_op ops (drop_op t s)"

fun names_after :: "name_op list \<Rightarrow> string set \<Rightarrow> string set" where
  "names_after [] N = N"
| "names_after (Add s # ops) N = names_after ops (insert s N)"
| "names_after (Drop s # ops) N = names_after ops (N - {s})"

locale name_register =
  fixes none :: 't
    and add_op :: "'t \<Rightarrow> string \<Rightarrow> 't option"
    and drop_op :: "'t \<Rightarrow> string \<Rightarrow> 't"
    and contents :: "'t \<Rightarrow> string set"
    and ok :: "'t \<Rightarrow> bool"
  assumes ok_none: "ok none"
    and contents_none: "contents none = {}"
    and add_total: "s \<noteq> [] \<Longrightarrow> \<exists>t'. add_op t s = Some t'"
    and ok_add: "ok t \<Longrightarrow> add_op t s = Some t' \<Longrightarrow> ok t'"
    and contents_add: "ok t \<Longrightarrow> add_op t s = Some t' \<Longrightarrow> contents t' = insert s (contents t)"
    and ok_drop: "ok t \<Longrightarrow> ok (drop_op t s)"
    and contents_drop: "ok t \<Longrightarrow> contents (drop_op t s) = contents t - {s}"
begin

lemma run_total:
  "Add [] \<notin> set ops \<Longrightarrow> \<exists>t'. run_names add_op drop_op ops t = Some t'"
proof (induction ops arbitrary: t)
  case (Cons op ops)
  show ?case
  proof (cases op)
    case (Add s)
    with Cons.prems obtain u where "add_op t s = Some u" using add_total by fastforce
    with Add Cons show ?thesis by simp
  next
    case (Drop s)
    with Cons show ?thesis by simp
  qed
qed simp

lemma run_contents:
  "ok t \<Longrightarrow> run_names add_op drop_op ops t = Some t' \<Longrightarrow>
     ok t' \<and> contents t' = names_after ops (contents t)"
proof (induction ops arbitrary: t)
  case (Cons op ops)
  show ?case
  proof (cases op)
    case (Add s)
    with Cons.prems obtain u where u: "add_op t s = Some u" "run_names add_op drop_op ops u = Some t'"
      by (auto split: option.splits)
    with Cons.IH [OF ok_add [OF Cons.prems(1) u(1)] u(2)] Add Cons.prems(1) show ?thesis
      by (simp add: contents_add)
  next
    case (Drop s)
    with Cons.IH [OF ok_drop [OF Cons.prems(1)], of s] Cons.prems show ?thesis
      by (simp add: contents_drop)
  qed
qed simp

end

interpretation tree: name_register empty_tree insert_name remove_name names tree_ok
proof (unfold_locales, goal_cases)
  case 1
  show ?case by (simp add: empty_tree_def tree_ok.simps)
next
  case 2
  show ?case by (rule names_empty)
qed (use insert_name_total insert_name_correct remove_name_correct in auto)

text \<open>C29: whatever non-empty names are added and removed, starting from the empty tree, the tree holds
  exactly the names added and not removed since, and it is well-formed.\<close>
theorem tree_holds_names:
  assumes "Add [] \<notin> set ops"
  shows "\<exists>t. run_names insert_name remove_name ops empty_tree = Some t \<and> tree_ok t \<and>
     names t = names_after ops {}"
proof -
  from tree.run_total [OF assms] obtain t where
    t: "run_names insert_name remove_name ops empty_tree = Some t" by blast
  with tree.run_contents [OF tree.ok_none t] show ?thesis by (simp add: names_empty)
qed

theorem tree_holds_names_witness:
  "\<exists>t. run_names insert_name remove_name [Add ''ana'', Add ''anabel'', Drop ''ana''] empty_tree = Some t \<and>
     tree_ok t \<and> names t = names_after [Add ''ana'', Add ''anabel'', Drop ''ana''] {}"
  by (rule tree_holds_names) simp

end
