(* ===== verification/CreatureRegistry.thy ===== *)
theory CreatureRegistry
  imports WildcardTree Text
begin

text \<open>
  The creatures in the game: the maps \<open>players\<close>, \<open>monsters\<close> and \<open>npcs\<close> of game.h, the names of
  the players online, the id counters of player.cpp, monster.cpp and npc.cpp, and the functions
  of game.cpp that enter, leave and look up creatures.  The three kinds share one space of
  32-bit ids, split into ranges by the start values of the counters; the invariant is that every
  entry lies in its range below its counter, which makes the lookup by id reach the right map.
  The wildcard lookup is related to the set of names through the interface of the name tree.
\<close>

section \<open>State\<close>

record PlayerEntry =
  pid :: u32
  pguid :: u32
  paccount :: u32
  pname :: string

record OtherEntry =
  oid :: u32
  oname :: string

datatype Creature = CPlayer PlayerEntry | CMonster OtherEntry | CNpc OtherEntry

text \<open>The maps by id are association lists; the order of a list is the iteration order of the map.\<close>

record Registry =
  players :: "(u32 \<times> PlayerEntry) list"
  monsters :: "(u32 \<times> OtherEntry) list"
  npcs :: "(u32 \<times> OtherEntry) list"
  mappedPlayerNames :: "string \<rightharpoonup> PlayerEntry"
  wildcardTree :: WildcardTreeNode
  playerAutoID :: u32
  monsterAutoID :: u32
  npcAutoID :: u32

definition empty_registry :: Registry where
  "empty_registry = \<lparr>players = [], monsters = [], npcs = [], mappedPlayerNames = Map.empty,
     wildcardTree = empty_tree, playerAutoID = 0x10000000, monsterAutoID = 0x40000000,
     npcAutoID = 0x80000000\<rparr>"

section \<open>Entering and leaving\<close>

text \<open>\<open>setID\<close>: a creature that has no id yet takes the counter, which then moves on.\<close>

definition setID_player :: "Registry \<Rightarrow> PlayerEntry \<Rightarrow> Registry \<times> PlayerEntry" where
  "setID_player g p =
     (if pid p = 0 then (g\<lparr>playerAutoID := playerAutoID g + 1\<rparr>, p\<lparr>pid := playerAutoID g\<rparr>) else (g, p))"

definition setID_monster :: "Registry \<Rightarrow> OtherEntry \<Rightarrow> Registry \<times> OtherEntry" where
  "setID_monster g m =
     (if oid m = 0 then (g\<lparr>monsterAutoID := monsterAutoID g + 1\<rparr>, m\<lparr>oid := monsterAutoID g\<rparr>) else (g, m))"

definition setID_npc :: "Registry \<Rightarrow> OtherEntry \<Rightarrow> Registry \<times> OtherEntry" where
  "setID_npc g n =
     (if oid n = 0 then (g\<lparr>npcAutoID := npcAutoID g + 1\<rparr>, n\<lparr>oid := npcAutoID g\<rparr>) else (g, n))"

text \<open>None: the name is empty and the insertion into the tree reads past it.\<close>

definition addPlayer :: "Registry \<Rightarrow> PlayerEntry \<Rightarrow> Registry option" where
  "addPlayer g p =
     (let lowercase_name = asLowerCaseString (pname p) in
      map_option (\<lambda>t. g\<lparr>mappedPlayerNames := (mappedPlayerNames g)(lowercase_name \<mapsto> p),
          wildcardTree := t, players := AList.update (pid p) p (players g)\<rparr>)
        (insert_name (wildcardTree g) lowercase_name))"

definition removePlayer :: "Registry \<Rightarrow> PlayerEntry \<Rightarrow> Registry" where
  "removePlayer g p =
     (let lowercase_name = asLowerCaseString (pname p) in
      g\<lparr>mappedPlayerNames := (mappedPlayerNames g)(lowercase_name := None),
        wildcardTree := remove_name (wildcardTree g) lowercase_name,
        players := AList.delete (pid p) (players g)\<rparr>)"

definition addMonster :: "Registry \<Rightarrow> OtherEntry \<Rightarrow> Registry" where
  "addMonster g m = g\<lparr>monsters := AList.update (oid m) m (monsters g)\<rparr>"

definition removeMonster :: "Registry \<Rightarrow> OtherEntry \<Rightarrow> Registry" where
  "removeMonster g m = g\<lparr>monsters := AList.delete (oid m) (monsters g)\<rparr>"

definition addNpc :: "Registry \<Rightarrow> OtherEntry \<Rightarrow> Registry" where
  "addNpc g n = g\<lparr>npcs := AList.update (oid n) n (npcs g)\<rparr>"

definition removeNpc :: "Registry \<Rightarrow> OtherEntry \<Rightarrow> Registry" where
  "removeNpc g n = g\<lparr>npcs := AList.delete (oid n) (npcs g)\<rparr>"

text \<open>The registry part of \<open>internalPlaceCreature\<close>: \<open>setID\<close>, then \<open>addList\<close>.\<close>

fun enterCreature :: "Registry \<Rightarrow> Creature \<Rightarrow> Registry option" where
  "enterCreature g (CPlayer p) = (case setID_player g p of (g', p') \<Rightarrow> addPlayer g' p')"
| "enterCreature g (CMonster m) = (case setID_monster g m of (g', m') \<Rightarrow> Some (addMonster g' m'))"
| "enterCreature g (CNpc n) = (case setID_npc g n of (g', n') \<Rightarrow> Some (addNpc g' n'))"

fun leaveCreature :: "Registry \<Rightarrow> Creature \<Rightarrow> Registry" where
  "leaveCreature g (CPlayer p) = removePlayer g p"
| "leaveCreature g (CMonster m) = removeMonster g m"
| "leaveCreature g (CNpc n) = removeNpc g n"

section \<open>Lookups\<close>

definition getPlayerByID :: "Registry \<Rightarrow> u32 \<Rightarrow> PlayerEntry option" where
  "getPlayerByID g i = (if i = 0 then None else map_of (players g) i)"

definition getMonsterByID :: "Registry \<Rightarrow> u32 \<Rightarrow> OtherEntry option" where
  "getMonsterByID g i = (if i = 0 then None else map_of (monsters g) i)"

definition getNpcByID :: "Registry \<Rightarrow> u32 \<Rightarrow> OtherEntry option" where
  "getNpcByID g i = (if i = 0 then None else map_of (npcs g) i)"

definition getCreatureByID :: "Registry \<Rightarrow> u32 \<Rightarrow> Creature option" where
  "getCreatureByID g i =
     (if i \<le> playerAutoID g then map_option CPlayer (getPlayerByID g i)
      else if i \<le> monsterAutoID g then map_option CMonster (getMonsterByID g i)
      else if i \<le> npcAutoID g then map_option CNpc (getNpcByID g i)
      else None)"

definition getPlayerByName :: "Registry \<Rightarrow> string \<Rightarrow> PlayerEntry option" where
  "getPlayerByName g s = (if s = [] then None else mappedPlayerNames g (asLowerCaseString s))"

definition getCreatureByName :: "Registry \<Rightarrow> string \<Rightarrow> Creature option" where
  "getCreatureByName g s =
     (if s = [] then None
      else let lowerCaseName = asLowerCaseString s in
        case mappedPlayerNames g lowerCaseName of
          Some p \<Rightarrow> Some (CPlayer p)
        | None \<Rightarrow>
            (case find (\<lambda>e. lowerCaseName = asLowerCaseString (oname (snd e))) (npcs g) of
               Some e \<Rightarrow> Some (CNpc (snd e))
             | None \<Rightarrow>
                 map_option (\<lambda>e. CMonster (snd e))
                   (find (\<lambda>e. lowerCaseName = asLowerCaseString (oname (snd e))) (monsters g))))"

definition getNpcByName :: "Registry \<Rightarrow> string \<Rightarrow> OtherEntry option" where
  "getNpcByName g s =
     (if s = [] then None
      else map_option snd (find (\<lambda>e. strcasecmp_eq s (oname (snd e))) (npcs g)))"

definition getPlayerByGUID :: "Registry \<Rightarrow> u32 \<Rightarrow> PlayerEntry option" where
  "getPlayerByGUID g guid =
     (if guid = 0 then None else map_option snd (find (\<lambda>e. guid = pguid (snd e)) (players g)))"

definition getPlayerByAccount :: "Registry \<Rightarrow> u32 \<Rightarrow> PlayerEntry option" where
  "getPlayerByAccount g acc = map_option snd (find (\<lambda>e. paccount (snd e) = acc) (players g))"

text \<open>\<open>player\<close> is the caller's pointer, which some paths leave as it is.\<close>

definition getPlayerByNameWildcard ::
    "Registry \<Rightarrow> string \<Rightarrow> PlayerEntry option \<Rightarrow> ReturnValue \<times> PlayerEntry option" where
  "getPlayerByNameWildcard g s player =
     (let strlen = length s in
      if strlen = 0 \<or> strlen > 20 then (RETURNVALUE_PLAYERWITHTHISNAMEISNOTONLINE, player)
      else
        (let (ret, player') =
           (if last s = CHR ''~'' then
              (let query = asLowerCaseString (take (strlen - 1) s);
                   (ret, result) = findOne (wildcardTree g) query []
               in if ret \<noteq> RETURNVALUE_NOERROR then (ret, player)
                  else (RETURNVALUE_NOERROR, getPlayerByName g result))
            else (RETURNVALUE_NOERROR, getPlayerByName g s))
         in if ret \<noteq> RETURNVALUE_NOERROR then (ret, player')
            else if player' = None then (RETURNVALUE_PLAYERWITHTHISNAMEISNOTONLINE, None)
            else (RETURNVALUE_NOERROR, player')))"

section \<open>The invariant\<close>

definition ids_ok :: "('k \<Rightarrow> u32) \<Rightarrow> u32 \<Rightarrow> u32 \<Rightarrow> (u32 \<times> 'k) list \<Rightarrow> bool" where
  "ids_ok f lo hi xs = (\<forall>(k, v) \<in> set xs. f v = k \<and> lo \<le> k \<and> k < hi)"

definition registry_ok :: "Registry \<Rightarrow> bool" where
  "registry_ok g \<longleftrightarrow>
     ids_ok pid 0x10000000 (playerAutoID g) (players g) \<and>
     ids_ok oid 0x40000000 (monsterAutoID g) (monsters g) \<and>
     ids_ok oid 0x80000000 (npcAutoID g) (npcs g) \<and>
     tree_ok (wildcardTree g) \<and> names (wildcardTree g) = dom (mappedPlayerNames g) \<and>
     (\<forall>n p. mappedPlayerNames g n = Some p \<longrightarrow> n = asLowerCaseString (pname p) \<and> n \<noteq> [])"

text \<open>The id counters have not reached the next range: fewer than 2^28 players, for one.\<close>

definition counters_ok :: "Registry \<Rightarrow> bool" where
  "counters_ok g \<longleftrightarrow> 0x10000000 \<le> playerAutoID g \<and> playerAutoID g < 0x40000000 \<and>
     0x40000000 \<le> monsterAutoID g \<and> monsterAutoID g < 0x80000000 \<and>
     0x80000000 \<le> npcAutoID g \<and> npcAutoID g < 0xFFFFFFFF"

text \<open>A creature that enters has no id yet: every creature is placed once.\<close>

fun fresh :: "Creature \<Rightarrow> bool" where
  "fresh (CPlayer p) = (pid p = 0 \<and> pname p \<noteq> [])"
| "fresh (CMonster m) = (oid m = 0)"
| "fresh (CNpc n) = (oid n = 0)"

lemma registry_ok_empty: "registry_ok empty_registry" "counters_ok empty_registry"
  using tree.ok_none tree.contents_none
  by (simp_all add: registry_ok_def counters_ok_def empty_registry_def ids_ok_def)

lemma ids_ok_enter:
  "ids_ok f lo n xs \<Longrightarrow> lo \<le> n \<Longrightarrow> n < 0xFFFFFFFF \<Longrightarrow> f v = n \<Longrightarrow>
     ids_ok f lo (n + 1) (AList.update n v xs)"
  unfolding ids_ok_def
  by (induction xs) (auto simp: u32_less_succ)

lemma ids_ok_delete: "ids_ok f lo hi xs \<Longrightarrow> ids_ok f lo hi (AList.delete k xs)"
  by (auto simp: ids_ok_def AList.delete_eq)

lemma asLowerCase_Nil [simp]: "asLowerCaseString s = [] \<longleftrightarrow> s = []"
  by (simp add: asLowerCaseString_def)

lemma counters_lt: "counters_ok g \<Longrightarrow> playerAutoID g < 0xFFFFFFFF"
  "counters_ok g \<Longrightarrow> monsterAutoID g < 0xFFFFFFFF" "counters_ok g \<Longrightarrow> npcAutoID g < 0xFFFFFFFF"
  by (auto simp: counters_ok_def elim: order.strict_trans)

lemma enterCreature_ok:
  "registry_ok g \<Longrightarrow> counters_ok g \<Longrightarrow> fresh c \<Longrightarrow>
     \<exists>g'. enterCreature g c = Some g' \<and> registry_ok g'"
proof (cases c)
  case (CPlayer p)
  assume ok: "registry_ok g" "counters_ok g" "fresh c"
  let ?n = "asLowerCaseString (pname p)"
  from ok CPlayer have new: "pid p = 0" "?n \<noteq> []" by simp_all
  then obtain t where t: "insert_name (wildcardTree g) ?n = Some t"
    using tree.add_total by blast
  have "tree_ok t" "names t = insert ?n (dom (mappedPlayerNames g))"
    using ok(1) tree.ok_add [OF _ t] tree.contents_add [OF _ t] by (auto simp: registry_ok_def)
  with ok new t CPlayer show ?thesis
    by (auto simp: setID_player_def addPlayer_def Let_def registry_ok_def
        intro!: ids_ok_enter counters_lt) (auto simp: counters_ok_def)
next
  case (CMonster m)
  assume "registry_ok g" "counters_ok g" "fresh c"
  with CMonster show ?thesis
    by (auto simp: setID_monster_def addMonster_def registry_ok_def intro!: ids_ok_enter counters_lt)
       (auto simp: counters_ok_def)
next
  case (CNpc n)
  assume "registry_ok g" "counters_ok g" "fresh c"
  with CNpc show ?thesis
    by (auto simp: setID_npc_def addNpc_def registry_ok_def intro!: ids_ok_enter counters_lt)
       (auto simp: counters_ok_def)
qed

lemma leaveCreature_ok: "registry_ok g \<Longrightarrow> registry_ok (leaveCreature g c)"
proof (cases c)
  case (CPlayer p)
  assume ok: "registry_ok g"
  let ?n = "asLowerCaseString (pname p)"
  have "tree_ok (remove_name (wildcardTree g) ?n)"
    "names (remove_name (wildcardTree g) ?n) = dom (mappedPlayerNames g) - {?n}"
    using ok tree.ok_drop tree.contents_drop by (simp_all add: registry_ok_def)
  with ok show ?thesis
    unfolding CPlayer
    by (auto simp: removePlayer_def Let_def registry_ok_def intro: ids_ok_delete)
qed (auto simp: removeMonster_def removeNpc_def registry_ok_def intro: ids_ok_delete)

section \<open>Reachable registries\<close>

text \<open>Creatures enter and leave in any order, as long as the counters stay in their ranges.\<close>

inductive registry_reach :: "Registry \<Rightarrow> bool" where
  start: "registry_reach empty_registry"
| enter: "registry_reach g \<Longrightarrow> counters_ok g \<Longrightarrow> fresh c \<Longrightarrow> enterCreature g c = Some g' \<Longrightarrow>
    registry_reach g'"
| leave: "registry_reach g \<Longrightarrow> registry_reach (leaveCreature g c)"

lemma registry_reach_ok: "registry_reach g \<Longrightarrow> registry_ok g"
proof (induction rule: registry_reach.induct)
  case start
  show ?case by (rule registry_ok_empty)
next
  case (enter g c g')
  with enterCreature_ok [of g c] show ?case by auto
next
  case (leave g c)
  then show ?case by (simp add: leaveCreature_ok)
qed

fun registered :: "Registry \<Rightarrow> u32 \<Rightarrow> Creature \<Rightarrow> bool" where
  "registered g i (CPlayer p) = (map_of (players g) i = Some p)"
| "registered g i (CMonster m) = (map_of (monsters g) i = Some m)"
| "registered g i (CNpc n) = (map_of (npcs g) i = Some n)"

lemma ids_okD: "ids_ok f lo hi xs \<Longrightarrow> map_of xs k = Some v \<Longrightarrow> f v = k \<and> lo \<le> k \<and> k < hi"
  by (drule map_of_SomeD) (auto simp: ids_ok_def)

lemma range_order:
  assumes "counters_ok g"
  shows "0x40000000 \<le> i \<Longrightarrow> \<not> i \<le> playerAutoID g" "0x80000000 \<le> i \<Longrightarrow> \<not> i \<le> monsterAutoID g"
    "0x80000000 \<le> i \<Longrightarrow> \<not> i \<le> playerAutoID g"
  using assms unfolding counters_ok_def word_le_nat_alt word_less_nat_alt by auto

lemma id_lookup_complete:
  assumes ok: "registry_ok g" and cnt: "counters_ok g" and reg: "registered g i c"
  shows "getCreatureByID g i = Some c"
proof (cases c)
  case (CPlayer p)
  with ok reg have "0x10000000 \<le> i" "i < playerAutoID g"
    using ids_okD by (fastforce simp: registry_ok_def)+
  with CPlayer reg show ?thesis by (auto simp: getCreatureByID_def getPlayerByID_def)
next
  case (CMonster m)
  with ok reg have b: "0x40000000 \<le> i" "i < monsterAutoID g"
    using ids_okD by (fastforce simp: registry_ok_def)+
  with CMonster reg range_order(1) [OF cnt b(1)] show ?thesis
    by (auto simp: getCreatureByID_def getMonsterByID_def)
next
  case (CNpc n)
  with ok reg have b: "0x80000000 \<le> i" "i < npcAutoID g"
    using ids_okD by (fastforce simp: registry_ok_def)+
  with CNpc reg range_order(2,3) [OF cnt b(1)] show ?thesis
    by (auto simp: getCreatureByID_def getNpcByID_def)
qed

lemma id_lookup_sound: "getCreatureByID g i = Some c \<Longrightarrow> registered g i c"
  by (auto simp: getCreatureByID_def getPlayerByID_def getMonsterByID_def getNpcByID_def split: if_splits)

text \<open>C5: after any creatures have entered and left, as long as no id counter has run into the next
  range, looking an id up finds exactly the creature registered under it, of whatever kind.\<close>
theorem getCreatureByID_iff_registered:
  assumes "registry_reach g" and "counters_ok g"
  shows "getCreatureByID g i = Some c \<longleftrightarrow> registered g i c"
  using id_lookup_complete [OF registry_reach_ok [OF assms(1)] assms(2)] id_lookup_sound by blast

definition rat :: OtherEntry where
  "rat = \<lparr>oid = 0, oname = ''Rat''\<rparr>"

theorem getCreatureByID_iff_registered_witness:
  "\<exists>g. registry_reach g \<and> counters_ok g \<and>
     getCreatureByID g 0x40000000 = Some (CMonster (rat\<lparr>oid := 0x40000000\<rparr>))"
proof -
  let ?g = "empty_registry\<lparr>monsterAutoID := 0x40000001,
      monsters := [(0x40000000, rat\<lparr>oid := 0x40000000\<rparr>)]\<rparr>"
  have step: "enterCreature empty_registry (CMonster rat) = Some ?g"
    by (simp add: setID_monster_def addMonster_def empty_registry_def rat_def)
  have "fresh (CMonster rat)" by (simp add: rat_def)
  then have reach: "registry_reach ?g"
    by (rule registry_reach.enter [OF registry_reach.start registry_ok_empty(2) _ step])
  have cnt: "counters_ok ?g" by (simp add: counters_ok_def empty_registry_def)
  from getCreatureByID_iff_registered [OF reach cnt] reach cnt show ?thesis
    by (intro exI [of _ ?g]) simp
qed

text \<open>The names in the tree are lower case, so a completed name is found again.\<close>

lemma mapped_name_lookup:
  assumes "registry_ok g" and "n \<in> dom (mappedPlayerNames g)"
  shows "getPlayerByName g n = mappedPlayerNames g n" "mappedPlayerNames g n \<noteq> None"
proof -
  from assms(2) obtain y where y: "mappedPlayerNames g n = Some y" by blast
  with assms(1) have "n = asLowerCaseString (pname y)" "n \<noteq> []"
    by (auto simp: registry_ok_def)
  then have "asLowerCaseString n = n" by (metis asLowerCaseString_idem)
  then show "getPlayerByName g n = mappedPlayerNames g n"
    using \<open>n \<noteq> []\<close> by (simp add: getPlayerByName_def)
  show "mappedPlayerNames g n \<noteq> None" using y by simp
qed

section \<open>The players online\<close>

text \<open>With \<open>allowClones\<close> off, nobody logs in under a name that is online (protocolgame.cpp, line 61), and it is a player
  online who leaves.\<close>

definition online :: "Registry \<Rightarrow> PlayerEntry \<Rightarrow> bool" where
  "online g p \<longleftrightarrow> map_of (players g) (pid p) = Some p"

definition lower_name :: "PlayerEntry \<Rightarrow> string" where
  "lower_name p = asLowerCaseString (pname p)"

inductive without_clones :: "Registry \<Rightarrow> bool" where
  nobody: "without_clones empty_registry"
| player_enters: "without_clones g \<Longrightarrow> counters_ok g \<Longrightarrow> fresh (CPlayer p) \<Longrightarrow> (\<And>r. online g r \<Longrightarrow> lower_name r \<noteq> lower_name p) \<Longrightarrow>
    enterCreature g (CPlayer p) = Some g' \<Longrightarrow> without_clones g'"
| other_enters: "without_clones g \<Longrightarrow> counters_ok g \<Longrightarrow> fresh c \<Longrightarrow> (\<And>p. c \<noteq> CPlayer p) \<Longrightarrow> enterCreature g c = Some g' \<Longrightarrow>
    without_clones g'"
| player_leaves: "without_clones g \<Longrightarrow> online g p \<Longrightarrow> without_clones (leaveCreature g (CPlayer p))"
| other_leaves: "without_clones g \<Longrightarrow> (\<And>p. c \<noteq> CPlayer p) \<Longrightarrow> without_clones (leaveCreature g c)"

lemma without_clones_reach: "without_clones g \<Longrightarrow> registry_reach g"
  by (induction rule: without_clones.induct) (blast intro: registry_reach.intros)+

definition names_online :: "Registry \<Rightarrow> bool" where
  "names_online g \<longleftrightarrow> (\<forall>n p. mappedPlayerNames g n = Some p \<longleftrightarrow> online g p \<and> n = lower_name p)"

lemma names_online_enter:
  assumes "names_online g" "registry_ok g" "pid p = 0" "\<And>r. online g r \<Longrightarrow> lower_name r \<noteq> lower_name p"
    and "enterCreature g (CPlayer p) = Some g'"
  shows "names_online g'"
proof -
  define p' where "p' = p\<lparr>pid := playerAutoID g\<rparr>"
  have g': "mappedPlayerNames g' = (mappedPlayerNames g)(lower_name p' \<mapsto> p')" "map_of (players g') = (map_of (players g))(pid p' \<mapsto> p')"
    using assms(3,5) by (auto simp: setID_player_def addPlayer_def p'_def lower_name_def Let_def AList.update_conv')
  have "pid r < playerAutoID g" if "online g r" for r
    using assms(2) ids_okD [of pid _ _ "players g" "pid r" r] that by (auto simp: registry_ok_def online_def)
  then have new: "\<not> online g r" if "pid r = pid p'" for r
    using that \<open>\<And>r. online g r \<Longrightarrow> pid r < playerAutoID g\<close> [of r] by (auto simp: p'_def)
  have low: "lower_name r \<noteq> lower_name p'" if "online g r" for r
    using assms(4) [OF that] by (simp add: p'_def lower_name_def)
  have "mappedPlayerNames g' n = Some r \<longleftrightarrow> online g' r \<and> n = lower_name r" for n r
  proof (cases "pid r = pid p'")
    case True
    have "mappedPlayerNames g n \<noteq> Some r"
      using new [OF True] assms(1) by (simp add: names_online_def)
    then show ?thesis
      using True by (auto simp: online_def g')
  next
    case False
    then have "online g' r = online g r" "r \<noteq> p'"
      by (auto simp: online_def g')
    then show ?thesis
      using low [of r] assms(1) by (auto simp: g' names_online_def)
  qed
  then show ?thesis
    by (simp add: names_online_def)
qed

lemma names_online_leave:
  assumes "names_online g" "online g p"
  shows "names_online (removePlayer g p)" (is "names_online ?g")
proof -
  have g: "mappedPlayerNames ?g = (mappedPlayerNames g)(lower_name p := None)" "map_of (players ?g) = (map_of (players g))(pid p := None)"
    by (simp_all add: removePlayer_def lower_name_def Let_def delete_conv')
  have "mappedPlayerNames ?g n = Some r \<longleftrightarrow> online ?g r \<and> n = lower_name r" for n r
  proof (cases "r = p")
    case True
    then show ?thesis
      using assms(1) by (auto simp: g online_def names_online_def)
  next
    case False
    have one: "online ?g r = (online g r)"
      using False assms(2) by (auto simp: g online_def)
    have "lower_name r \<noteq> lower_name p" if "online g r"
    proof
      assume "lower_name r = lower_name p"
      then have "mappedPlayerNames g (lower_name p) = Some r" "mappedPlayerNames g (lower_name p) = Some p"
        using assms that by (simp_all add: names_online_def)
      then show False
        using False by simp
    qed
    then show ?thesis
      using assms(1) one by (auto simp: g(1) names_online_def)
  qed
  then show ?thesis
    by (simp add: names_online_def)
qed

lemma without_clones_online: "without_clones g \<Longrightarrow> names_online g"
proof (induction rule: without_clones.induct)
  case nobody
  show ?case by (simp add: names_online_def online_def empty_registry_def)
next
  case (player_enters g p g')
  then show ?case
    using names_online_enter [of g p g'] registry_reach_ok [OF without_clones_reach] by auto
next
  case (other_enters g c g')
  then have "mappedPlayerNames g' = mappedPlayerNames g" "players g' = players g"
    by (cases c; auto simp: setID_monster_def addMonster_def setID_npc_def addNpc_def)+
  then show ?case
    using other_enters by (simp add: names_online_def online_def)
next
  case (player_leaves g p)
  then show ?case by (simp add: names_online_leave)
next
  case (other_leaves g c)
  then have "mappedPlayerNames (leaveCreature g c) = mappedPlayerNames g" "players (leaveCreature g c) = players g"
    by (cases c; auto simp: removeMonster_def removeNpc_def)+
  then show ?case
    using other_leaves by (simp add: names_online_def online_def)
qed

text \<open>The players online whose name the query begins, whatever the case.\<close>

definition completing :: "Registry \<Rightarrow> string \<Rightarrow> PlayerEntry set" where
  "completing g q = {p. online g p \<and> prefix (asLowerCaseString q) (lower_name p)}"

lemma completing_names:
  assumes "names_online g"
  shows "matches (dom (mappedPlayerNames g)) (asLowerCaseString q) = lower_name ` completing g q"
    and "inj_on lower_name (completing g q)"
  using assms by (auto simp: matches_def completing_def names_online_def inj_on_def) (metis option.inject)

lemma wildcard_names:
  assumes "registry_ok g" and "q \<noteq> []" and "length q < 20"
    and "M = matches (dom (mappedPlayerNames g)) (asLowerCaseString q)"
  shows "M = {} \<Longrightarrow> getPlayerByNameWildcard g (q @ ''~'') player = (RETURNVALUE_PLAYERWITHTHISNAMEISNOTONLINE, player)"
    and "M = {n} \<Longrightarrow> getPlayerByNameWildcard g (q @ ''~'') player = (RETURNVALUE_NOERROR, mappedPlayerNames g n)"
    and "ambiguous M \<Longrightarrow> getPlayerByNameWildcard g (q @ ''~'') player = (RETURNVALUE_NAMEISTOOAMBIGIOUS, player)"
proof -
  let ?q = "asLowerCaseString q"
  have t: "tree_ok (wildcardTree g)" "names (wildcardTree g) = dom (mappedPlayerNames g)"
    using assms(1) by (simp_all add: registry_ok_def)
  have find: "(M = {} \<longrightarrow> findOne (wildcardTree g) ?q [] = (RETURNVALUE_PLAYERWITHTHISNAMEISNOTONLINE, [])) \<and>
     (\<forall>s. M = {s} \<longrightarrow> findOne (wildcardTree g) ?q [] = (RETURNVALUE_NOERROR, s)) \<and>
     (ambiguous M \<longleftrightarrow> fst (findOne (wildcardTree g) ?q []) = RETURNVALUE_NAMEISTOOAMBIGIOUS)"
    using findOne_facts [OF t(1), of ?q "[]"] assms(2,4) t(2) by simp
  have lookup: "getPlayerByName g n = mappedPlayerNames g n \<and> mappedPlayerNames g n \<noteq> None" if "M = {n}" for n
    using that mapped_name_lookup [OF assms(1), of n] assms(4) by (auto simp: matches_def)
  show "M = {} \<Longrightarrow> getPlayerByNameWildcard g (q @ ''~'') player = (RETURNVALUE_PLAYERWITHTHISNAMEISNOTONLINE, player)"
    and "M = {n} \<Longrightarrow> getPlayerByNameWildcard g (q @ ''~'') player = (RETURNVALUE_NOERROR, mappedPlayerNames g n)"
    and "ambiguous M \<Longrightarrow> getPlayerByNameWildcard g (q @ ''~'') player = (RETURNVALUE_NAMEISTOOAMBIGIOUS, player)"
    using find lookup assms(2,3)
    by (auto simp: getPlayerByNameWildcard_def Let_def split: prod.splits)
qed

text \<open>C39: when nobody logs in under a name that is online, as with \<open>allowClones\<close> off, the query \<open>q~\<close> of at most 20
  bytes finds the player online whose name begins with \<open>q\<close>, whatever the case, when there is exactly one, and
  reports "not online" or "ambiguous" when there is none or more than one, leaving the caller's pointer alone.\<close>
theorem getPlayerByNameWildcard_decides:
  assumes "without_clones g" and "q \<noteq> []" and "length q < 20"
  shows "(completing g q = {} \<longrightarrow>
            getPlayerByNameWildcard g (q @ ''~'') player = (RETURNVALUE_PLAYERWITHTHISNAMEISNOTONLINE, player)) \<and>
         (\<forall>p. completing g q = {p} \<longrightarrow> getPlayerByNameWildcard g (q @ ''~'') player = (RETURNVALUE_NOERROR, Some p)) \<and>
         (\<forall>p r. p \<in> completing g q \<and> r \<in> completing g q \<and> p \<noteq> r \<longrightarrow>
            getPlayerByNameWildcard g (q @ ''~'') player = (RETURNVALUE_NAMEISTOOAMBIGIOUS, player))"
proof -
  have names: "names_online g" and ok: "registry_ok g"
    using without_clones_online [OF assms(1)] registry_reach_ok [OF without_clones_reach [OF assms(1)]] by auto
  let ?M = "matches (dom (mappedPlayerNames g)) (asLowerCaseString q)"
  note w = wildcard_names [OF ok assms(2,3) refl, where player = player]
  have one: "mappedPlayerNames g (lower_name p) = Some p" if "completing g q = {p}" for p
    using names that by (auto simp: names_online_def completing_def)
  have "ambiguous ?M" if "p \<in> completing g q" "r \<in> completing g q" "p \<noteq> r" for p r
  proof -
    have "lower_name p \<noteq> lower_name r"
      using inj_onD [OF completing_names(2) [OF names, of q], of p r] that by blast
    then show ?thesis
      using that completing_names(1) [OF names, of q] by (auto simp: ambiguous_def)
  qed
  then show ?thesis
    using w completing_names(1) [OF names, of q] one by auto
qed

theorem getPlayerByNameWildcard_decides_witness:
  "\<exists>g p. without_clones g \<and> completing g ''An'' = {p} \<and> getPlayerByNameWildcard g ''An~'' None = (RETURNVALUE_NOERROR, Some p)"
proof -
  let ?p = "\<lparr>pid = 0x10000000, pguid = 7, paccount = 3, pname = ''Ana''\<rparr>"
  obtain g where g: "enterCreature empty_registry (CPlayer (?p\<lparr>pid := 0\<rparr>)) = Some g"
    using enterCreature_ok [OF registry_ok_empty, of "CPlayer (?p\<lparr>pid := 0\<rparr>)"] by auto
  have "fresh (CPlayer (?p\<lparr>pid := 0\<rparr>))" by simp
  then have reach: "without_clones g"
    by (rule without_clones.player_enters [OF without_clones.nobody registry_ok_empty(2) _ _ g])
       (simp add: online_def empty_registry_def)
  have low: "asLowerCaseString ''Ana'' = ''ana''" "asLowerCaseString ''An'' = ''an''"
    by (simp_all add: asLowerCaseString_def char_tolower_def char_of_def bit_0)
  from g have "players g = [(0x10000000, ?p)]"
    by (auto simp: setID_player_def addPlayer_def empty_registry_def low)
  then have "completing g ''An'' = {?p}"
    by (auto simp: completing_def online_def lower_name_def low split: if_splits)
  with getPlayerByNameWildcard_decides [OF reach, of "''An''" None] reach show ?thesis by auto
qed

end
