(* ===== verification/Bytes.thy ===== *)
theory Bytes
  imports Prelude
begin

text \<open>
  Bytes in memory: the little-endian image that \<open>memcpy\<close> gives of an integer of n bytes,
  reading it back, and writing a run of bytes into a buffer.  Shared by the network messages
  and by the property streams of the file format.
\<close>

section \<open>Little-endian images\<close>

fun le_bytes :: "nat \<Rightarrow> nat \<Rightarrow> u8 list" where
  "le_bytes 0 v = []"
| "le_bytes (Suc n) v = of_nat v # le_bytes n (v div 256)"

fun le_value :: "u8 list \<Rightarrow> nat" where
  "le_value [] = 0"
| "le_value (b # bs) = unat b + 256 * le_value bs"

lemma length_le_bytes [simp]: "length (le_bytes n v) = n"
  by (induction n v rule: le_bytes.induct) simp_all

lemma unat_of_nat_byte [simp]: "unat (of_nat v :: u8) = v mod 256"
  by (simp add: unat_of_nat)

lemma le_value_bytes [simp]: "le_value (le_bytes n v) = v mod 256 ^ n"
  by (induction n v rule: le_bytes.induct) (simp_all add: mod_mult2_eq)

lemma le_value_less: "le_value bs < 256 ^ length bs"
proof (induction bs)
  case (Cons b bs)
  have "unat b < 256" using unsigned_less [of b, where 'a = nat] by simp
  with Cons show ?case by simp
qed simp

lemma le_bytes_value: "length bs = n \<Longrightarrow> le_bytes n (le_value bs) = bs"
proof (induction bs arbitrary: n)
  case (Cons b bs)
  have b: "unat b < 256" using unsigned_less [of b, where 'a = nat] by simp
  have "unat (of_nat (unat b + 256 * le_value bs) :: u8) = unat b"
    using b by (simp only: unat_of_nat_byte) simp
  then have "of_nat (unat b + 256 * le_value bs) = (b :: u8)"
    by (simp only: word_unat_eq_iff)
  moreover have "(unat b + 256 * le_value bs) div 256 = le_value bs" using b by simp
  ultimately show ?case using Cons by (cases n) simp_all
qed simp

lemma le_bytes_inj:
  "v < 256 ^ n \<Longrightarrow> w < 256 ^ n \<Longrightarrow> le_bytes n v = le_bytes n w \<longleftrightarrow> v = w"
  by (metis le_value_bytes mod_less)

lemma unat_less_16: "unat (w :: u16) < 256 ^ 2"
  using unsigned_less [of w, where 'a = nat] by simp

lemma unat_less_32: "unat (w :: u32) < 256 ^ 4"
  using unsigned_less [of w, where 'a = nat] by simp

lemma unat_less_64: "unat (w :: u64) < 256 ^ 8"
  using unsigned_less [of w, where 'a = nat] by simp

lemma unat_less_8: "unat (w :: u8) < 256 ^ 1"
  using unsigned_less [of w, where 'a = nat] by simp

section \<open>Characters as bytes\<close>

definition byte_of_char :: "char \<Rightarrow> u8" where
  "byte_of_char c = of_nat (of_char c)"

definition char_of_byte :: "u8 \<Rightarrow> char" where
  "char_of_byte b = char_of (unat b)"

lemma unat_byte_of_char: "unat (byte_of_char c) = of_char c"
proof -
  have "(of_char c :: nat) < 256" by simp
  then show ?thesis by (simp only: byte_of_char_def unat_of_nat_byte) simp
qed

lemma char_of_byte_of_char [simp]: "char_of_byte (byte_of_char c) = c"
  by (simp add: char_of_byte_def unat_byte_of_char)

lemma map_char_bytes [simp]: "map (char_of_byte \<circ> byte_of_char) s = s"
  by (induction s) simp_all

section \<open>Buffers\<close>

text \<open>Overwriting part of a buffer, and reading part of it.\<close>

definition write_at :: "nat \<Rightarrow> 'a list \<Rightarrow> 'a list \<Rightarrow> 'a list" where
  "write_at p bs buf = take p buf @ bs @ drop (p + length bs) buf"

definition read_at :: "nat \<Rightarrow> nat \<Rightarrow> 'a list \<Rightarrow> 'a list" where
  "read_at p n buf = take n (drop p buf)"

lemma length_write_at [simp]: "p + length bs \<le> length buf \<Longrightarrow> length (write_at p bs buf) = length buf"
  by (simp add: write_at_def)

lemma read_write_same: "p \<le> length buf \<Longrightarrow> read_at p (length bs) (write_at p bs buf) = bs"
  by (simp add: read_at_def write_at_def)

lemma read_write_before:
  "q + n \<le> p \<Longrightarrow> p \<le> length buf \<Longrightarrow> read_at q n (write_at p bs buf) = read_at q n buf"
  by (simp add: read_at_def write_at_def drop_take min.absorb1)

lemma read_at_append: "read_at p (n + m) buf = read_at p n buf @ read_at (p + n) m buf"
  by (simp add: read_at_def take_add add.commute [of p n])

lemma length_read_at: "p + n \<le> length buf \<Longrightarrow> length (read_at p n buf) = n"
  by (simp add: read_at_def)

lemma read_write_extend:
  "q \<le> p \<Longrightarrow> p \<le> length buf \<Longrightarrow>
     read_at q (p - q + length bs) (write_at p bs buf) = read_at q (p - q) buf @ bs"
  by (subst read_at_append) (simp add: read_write_same read_write_before)

lemma read_write_after:
  "p + length bs \<le> q \<Longrightarrow> p + length bs \<le> length buf \<Longrightarrow> read_at q n (write_at p bs buf) = read_at q n buf"
  by (simp add: read_at_def write_at_def)

lemma write_write_append:
  "p + length xs + length ys \<le> length buf \<Longrightarrow>
     write_at (p + length xs) ys (write_at p xs buf) = write_at p (xs @ ys) buf"
  by (simp add: write_at_def ac_simps)

lemma write_at_Nil [simp]: "write_at p [] buf = buf"
  by (simp add: write_at_def)

lemma write_read_same: "p + n \<le> length buf \<Longrightarrow> write_at p (read_at p n buf) buf = buf"
  by (simp add: write_at_def read_at_def min_def) (metis append_take_drop_id drop_drop add.commute)

lemma write_at_again:
  "length xs = length ys \<Longrightarrow> p + length xs \<le> length buf \<Longrightarrow> write_at p ys (write_at p xs buf) = write_at p ys buf"
  by (simp add: write_at_def)

end
