(* ===== verification/Positions.thy ===== *)
theory Positions
  imports Prelude
begin

text \<open>
  Map positions and directions: position.h, position.cpp and the direction functions of
  tools.cpp.  Coordinates keep their widths (16, 16 and 8 bits), so the steps at the edge of
  the map wrap around as the unsigned fields do.  The lemmas show that the comparison
  operator is the lexicographic order on (z, y, x), that the step and the direction functions
  are inverse to each other, and that the printed form is unique.
\<close>

section \<open>Directions\<close>

datatype Direction =
    DIRECTION_NORTH | DIRECTION_EAST | DIRECTION_SOUTH | DIRECTION_WEST
  | DIRECTION_SOUTHWEST | DIRECTION_SOUTHEAST | DIRECTION_NORTHWEST | DIRECTION_NORTHEAST
  | DIRECTION_NONE

definition DIRECTION_DIAGONAL_MASK :: u8 where
  "DIRECTION_DIAGONAL_MASK = 4"

text \<open>The numeric value of an enumerator, written as position.h writes it.\<close>

fun direction_code :: "Direction \<Rightarrow> u8" where
  "direction_code DIRECTION_NORTH = 0"
| "direction_code DIRECTION_EAST = 1"
| "direction_code DIRECTION_SOUTH = 2"
| "direction_code DIRECTION_WEST = 3"
| "direction_code DIRECTION_SOUTHWEST = DIRECTION_DIAGONAL_MASK OR 0"
| "direction_code DIRECTION_SOUTHEAST = DIRECTION_DIAGONAL_MASK OR 1"
| "direction_code DIRECTION_NORTHWEST = DIRECTION_DIAGONAL_MASK OR 2"
| "direction_code DIRECTION_NORTHEAST = DIRECTION_DIAGONAL_MASK OR 3"
| "direction_code DIRECTION_NONE = 8"

fun show_direction :: "Direction \<Rightarrow> string" where
  "show_direction DIRECTION_NORTH = ''North''"
| "show_direction DIRECTION_EAST = ''East''"
| "show_direction DIRECTION_WEST = ''West''"
| "show_direction DIRECTION_SOUTH = ''South''"
| "show_direction DIRECTION_SOUTHWEST = ''South-West''"
| "show_direction DIRECTION_SOUTHEAST = ''South-East''"
| "show_direction DIRECTION_NORTHWEST = ''North-West''"
| "show_direction DIRECTION_NORTHEAST = ''North-East''"
| "show_direction DIRECTION_NONE = ''''"

text \<open>\<open>getDirection\<close>: an unknown word is read as north.\<close>

definition getDirection :: "string \<Rightarrow> Direction" where
  "getDirection s =
     (if s = ''north'' \<or> s = ''n'' \<or> s = ''0'' then DIRECTION_NORTH
      else if s = ''east'' \<or> s = ''e'' \<or> s = ''1'' then DIRECTION_EAST
      else if s = ''south'' \<or> s = ''s'' \<or> s = ''2'' then DIRECTION_SOUTH
      else if s = ''west'' \<or> s = ''w'' \<or> s = ''3'' then DIRECTION_WEST
      else if s = ''southwest'' \<or> s = ''south west'' \<or> s = ''south-west'' \<or> s = ''sw'' \<or> s = ''4''
        then DIRECTION_SOUTHWEST
      else if s = ''southeast'' \<or> s = ''south east'' \<or> s = ''south-east'' \<or> s = ''se'' \<or> s = ''5''
        then DIRECTION_SOUTHEAST
      else if s = ''northwest'' \<or> s = ''north west'' \<or> s = ''north-west'' \<or> s = ''nw'' \<or> s = ''6''
        then DIRECTION_NORTHWEST
      else if s = ''northeast'' \<or> s = ''north east'' \<or> s = ''north-east'' \<or> s = ''ne'' \<or> s = ''7''
        then DIRECTION_NORTHEAST
      else DIRECTION_NORTH)"

section \<open>Positions\<close>

datatype Position = Position (pos_x: u16) (pos_y: u16) (pos_z: u8)

definition getOffsetX :: "Position \<Rightarrow> Position \<Rightarrow> int" where
  "getOffsetX p1 p2 = uint (pos_x p1) - uint (pos_x p2)"

definition getOffsetY :: "Position \<Rightarrow> Position \<Rightarrow> int" where
  "getOffsetY p1 p2 = uint (pos_y p1) - uint (pos_y p2)"

definition getOffsetZ :: "Position \<Rightarrow> Position \<Rightarrow> int" where
  "getOffsetZ p1 p2 = uint (pos_z p1) - uint (pos_z p2)"

definition getDistanceX :: "Position \<Rightarrow> Position \<Rightarrow> int" where
  "getDistanceX p1 p2 = \<bar>getOffsetX p1 p2\<bar>"

definition getDistanceY :: "Position \<Rightarrow> Position \<Rightarrow> int" where
  "getDistanceY p1 p2 = \<bar>getOffsetY p1 p2\<bar>"

definition getDistanceZ :: "Position \<Rightarrow> Position \<Rightarrow> int" where
  "getDistanceZ p1 p2 = \<bar>getOffsetZ p1 p2\<bar>"

text \<open>The two templates \<open>areInRange\<close>; the template arguments come first.\<close>

definition areInRange2 :: "int \<Rightarrow> int \<Rightarrow> Position \<Rightarrow> Position \<Rightarrow> bool" where
  "areInRange2 deltax deltay p1 p2 =
     (getDistanceX p1 p2 \<le> deltax \<and> getDistanceY p1 p2 \<le> deltay)"

definition areInRange3 :: "int \<Rightarrow> int \<Rightarrow> int \<Rightarrow> Position \<Rightarrow> Position \<Rightarrow> bool" where
  "areInRange3 deltax deltay deltaz p1 p2 =
     (getDistanceX p1 p2 \<le> deltax \<and> getDistanceY p1 p2 \<le> deltay \<and> getDistanceZ p1 p2 \<le> deltaz)"

text \<open>\<open>operator<\<close>, the chain of comparisons as written, and \<open>operator>\<close>, its negation.\<close>

definition pos_less :: "Position \<Rightarrow> Position \<Rightarrow> bool" where
  "pos_less s p =
     (if pos_z s < pos_z p then True
      else if pos_z s > pos_z p then False
      else if pos_y s < pos_y p then True
      else if pos_y s > pos_y p then False
      else if pos_x s < pos_x p then True
      else if pos_x s > pos_x p then False
      else False)"

definition pos_greater :: "Position \<Rightarrow> Position \<Rightarrow> bool" where
  "pos_greater s p = (\<not> pos_less s p)"

definition pos_eq :: "Position \<Rightarrow> Position \<Rightarrow> bool" where
  "pos_eq s p = (pos_x p = pos_x s \<and> pos_y p = pos_y s \<and> pos_z p = pos_z s)"

definition pos_neq :: "Position \<Rightarrow> Position \<Rightarrow> bool" where
  "pos_neq s p = (pos_x p \<noteq> pos_x s \<or> pos_y p \<noteq> pos_y s \<or> pos_z p \<noteq> pos_z s)"

definition pos_plus :: "Position \<Rightarrow> Position \<Rightarrow> Position" where
  "pos_plus s p = Position (pos_x s + pos_x p) (pos_y s + pos_y p) (pos_z s + pos_z p)"

definition pos_minus :: "Position \<Rightarrow> Position \<Rightarrow> Position" where
  "pos_minus s p = Position (pos_x s - pos_x p) (pos_y s - pos_y p) (pos_z s - pos_z p)"

text \<open>\<open>operator<<\<close>.\<close>

definition show_position :: "Position \<Rightarrow> string" where
  "show_position p =
     ''( '' @ setw_fill 5 (unat (pos_x p)) @ '' / '' @ setw_fill 5 (unat (pos_y p)) @
     '' / '' @ setw_fill 3 (unat (pos_z p)) @ '' )''"

section \<open>Steps and directions\<close>

fun getNextPosition :: "Direction \<Rightarrow> Position \<Rightarrow> Position" where
  "getNextPosition DIRECTION_NORTH (Position x y z) = Position x (y - 1) z"
| "getNextPosition DIRECTION_SOUTH (Position x y z) = Position x (y + 1) z"
| "getNextPosition DIRECTION_WEST (Position x y z) = Position (x - 1) y z"
| "getNextPosition DIRECTION_EAST (Position x y z) = Position (x + 1) y z"
| "getNextPosition DIRECTION_SOUTHWEST (Position x y z) = Position (x - 1) (y + 1) z"
| "getNextPosition DIRECTION_NORTHWEST (Position x y z) = Position (x - 1) (y - 1) z"
| "getNextPosition DIRECTION_NORTHEAST (Position x y z) = Position (x + 1) (y - 1) z"
| "getNextPosition DIRECTION_SOUTHEAST (Position x y z) = Position (x + 1) (y + 1) z"
| "getNextPosition DIRECTION_NONE p = p"

definition getDirectionTo :: "Position \<Rightarrow> Position \<Rightarrow> Direction" where
  "getDirectionTo from_pos to_pos =
     (let x0 = getOffsetX from_pos to_pos;
          dir = (if x0 < 0 then DIRECTION_EAST else DIRECTION_WEST);
          x_offset = (if x0 < 0 then \<bar>x0\<bar> else x0);
          y0 = getOffsetY from_pos to_pos
      in if y0 \<ge> 0 then
           (if y0 > x_offset then DIRECTION_NORTH
            else if y0 = x_offset then
              (if dir = DIRECTION_EAST then DIRECTION_NORTHEAST else DIRECTION_NORTHWEST)
            else dir)
         else
           (let y_offset = \<bar>y0\<bar> in
            if y_offset > x_offset then DIRECTION_SOUTH
            else if y_offset = x_offset then
              (if dir = DIRECTION_EAST then DIRECTION_SOUTHEAST else DIRECTION_SOUTHWEST)
            else dir))"

text \<open>A position with a neighbour on every side: no step from it wraps.\<close>

definition interior :: "Position \<Rightarrow> bool" where
  "interior p = (0 < uint (pos_x p) \<and> uint (pos_x p) < 65535 \<and>
     0 < uint (pos_y p) \<and> uint (pos_y p) < 65535)"

section \<open>The order\<close>

lemma pos_less_lex:
  "pos_less p q \<longleftrightarrow> pos_z p < pos_z q \<or>
     pos_z p = pos_z q \<and> (pos_y p < pos_y q \<or> pos_y p = pos_y q \<and> pos_x p < pos_x q)"
  by (auto simp: pos_less_def)

lemma pos_eq_iff [simp]: "pos_eq p q \<longleftrightarrow> p = q"
  by (cases p; cases q) (auto simp: pos_eq_def)

instantiation Position :: linorder
begin
definition less_Position_def: "(p :: Position) < q \<longleftrightarrow> pos_less p q"
definition less_eq_Position_def: "(p :: Position) \<le> q \<longleftrightarrow> pos_less p q \<or> p = q"
instance
proof
  fix p q r :: Position
  show "(p < q) = (p \<le> q \<and> \<not> q \<le> p)"
    by (auto simp: less_Position_def less_eq_Position_def pos_less_lex)
  show "p \<le> p" by (simp add: less_eq_Position_def)
  show "p \<le> q \<Longrightarrow> q \<le> r \<Longrightarrow> p \<le> r"
    by (auto simp: less_eq_Position_def pos_less_lex)
  show "p \<le> q \<Longrightarrow> q \<le> p \<Longrightarrow> p = q"
    by (auto simp: less_eq_Position_def pos_less_lex)
  show "p \<le> q \<or> q \<le> p"
    by (cases p; cases q) (auto simp: less_eq_Position_def pos_less_lex)
qed
end


text \<open>Comparing two positions with \<open>operator<\<close> is exactly the strict lexicographic order on
  the triple (z, y, x): floor first, then row, then column.\<close>
theorem pos_less_iff_lexicographic:
  "pos_less p q \<longleftrightarrow>
     ((uint (pos_z p), uint (pos_y p), uint (pos_x p)),
      (uint (pos_z q), uint (pos_y q), uint (pos_x q))) \<in>
     {(a :: int, b). a < b} <*lex*> {(a :: int, b). a < b} <*lex*> {(a :: int, b). a < b}"
  by (auto simp: pos_less_lex word_less_def word_uint_eq_iff)

lemma pos_greater_iff_ge: "pos_greater p q \<longleftrightarrow> q \<le> p"
  by (auto simp: pos_greater_def less_Position_def [symmetric])

text \<open>\<open>operator>\<close> is the negation of \<open>operator<\<close>, so it holds of a position and itself.\<close>

lemma pos_greater_reflexive: "pos_greater p p"
  by (simp add: pos_greater_iff_ge)

section \<open>Steps against directions\<close>

lemma uint_pred: "0 < uint w \<Longrightarrow> uint (w - 1) = uint w - 1" for w :: u16
  using uint_sub_lem [of 1 w] by simp

lemma uint_succ: "uint w < 65535 \<Longrightarrow> uint (w + 1) = uint w + 1" for w :: u16
  by (simp add: uint_word_ariths)

lemma offset_of_step:
  assumes "interior (Position x y z)"
  shows "uint (x - 1) = uint x - 1" "uint (x + 1) = uint x + 1"
        "uint (y - 1) = uint y - 1" "uint (y + 1) = uint y + 1"
  using assms by (auto simp: interior_def intro: uint_pred uint_succ)

text \<open>Away from the edges of the map, the direction from a position to its neighbour in direction
  \<open>d\<close> is \<open>d\<close> again, for each of the eight directions: \<open>getDirectionTo\<close> inverts
  \<open>getNextPosition\<close>.\<close>
theorem getDirectionTo_getNextPosition:
  assumes "interior p" and "d \<noteq> DIRECTION_NONE"
  shows "getDirectionTo p (getNextPosition d p) = d"
proof (cases p)
  case (Position x y z)
  with assms(1) have "interior (Position x y z)" by simp
  note offset_of_step [OF this, simp]
  from assms(2) show ?thesis
    unfolding Position
    by (cases d) (simp_all add: getDirectionTo_def getOffsetX_def getOffsetY_def Let_def)
qed

theorem getDirectionTo_getNextPosition_witness:
  "getDirectionTo (Position 100 200 7) (getNextPosition DIRECTION_SOUTHWEST (Position 100 200 7)) =
     DIRECTION_SOUTHWEST"
  by (rule getDirectionTo_getNextPosition) (simp_all add: interior_def)

lemma getDirectionTo_same: "getDirectionTo p p = DIRECTION_NORTHWEST"
  by (simp add: getDirectionTo_def getOffsetX_def getOffsetY_def)

lemma show_direction_getDirection:
  "map getDirection [''north'', ''nw'', ''south-east'', ''7''] =
     [DIRECTION_NORTH, DIRECTION_NORTHWEST, DIRECTION_SOUTHEAST, DIRECTION_NORTHEAST]"
  by (simp add: getDirection_def)

section \<open>Ranges and printing\<close>

lemma areInRange3_sym: "areInRange3 dx dy dz p q = areInRange3 dx dy dz q p"
  by (simp add: areInRange3_def getDistanceX_def getDistanceY_def getDistanceZ_def
      getOffsetX_def getOffsetY_def getOffsetZ_def abs_minus_commute)

lemma areInRange3_self: "0 \<le> dx \<Longrightarrow> 0 \<le> dy \<Longrightarrow> 0 \<le> dz \<Longrightarrow> areInRange3 dx dy dz p p"
  by (simp add: areInRange3_def getDistanceX_def getDistanceY_def getDistanceZ_def
      getOffsetX_def getOffsetY_def getOffsetZ_def)

lemma unat_u16_less: "unat (w :: u16) < 10 ^ 5"
  using unsigned_less [of w, where 'a = nat] by simp

lemma unat_u8_less: "unat (w :: u8) < 10 ^ 3"
  using unsigned_less [of w, where 'a = nat] by simp

text \<open>The printed form of a position is always 23 characters wide and determines the position.\<close>
theorem show_position_fixed_width_inj:
  "length (show_position p) = 23 \<and> (show_position p = show_position q \<longleftrightarrow> p = q)"
proof
  have len: "length (setw_fill 5 (unat w)) = 5" for w :: u16
    by (rule length_setw_fill) (simp, rule unat_u16_less)
  have len8: "length (setw_fill 3 (unat w)) = 3" for w :: u8
    by (rule length_setw_fill) (simp, rule unat_u8_less)
  show "length (show_position p) = 23"
    by (simp add: show_position_def len len8)
  show "show_position p = show_position q \<longleftrightarrow> p = q"
    by (cases p; cases q) (simp add: show_position_def len len8 setw_fill_inj word_unat_eq_iff)
qed

end
