(* ===== verification/Checksum.thy ===== *)
theory Checksum
  imports Prelude
begin

text \<open>
  \<open>adlerChecksum\<close> of tools.cpp, the checksum of every message the server sends.  The code
  keeps two 32-bit sums and reduces them modulo 65521 after every 5552 bytes.  The reference is
  the Adler-32 sum over unbounded integers; the main lemma is that the blocks are short enough
  for the 32-bit sums never to wrap, so that the code computes the reference.
\<close>

definition NETWORKMESSAGE_MAXSIZE :: nat where
  "NETWORKMESSAGE_MAXSIZE = 24590"

text \<open>The inner loop, over one block.\<close>

fun adler_block :: "u32 \<Rightarrow> u32 \<Rightarrow> u8 list \<Rightarrow> u32 \<times> u32" where
  "adler_block a b [] = (a, b)"
| "adler_block a b (d # data) = (let a' = a + ucast d in adler_block a' (b + a') data)"

text \<open>The outer loop: blocks of at most 5552 bytes, then the reduction.\<close>

function adler_loop :: "u32 \<Rightarrow> u32 \<Rightarrow> u8 list \<Rightarrow> u32 \<times> u32" where
  "adler_loop a b data =
     (if length data > 0 then
        (let tmp = (if length data > 5552 then 5552 else length data);
             (a', b') = adler_block a b (take tmp data)
         in adler_loop (a' mod 65521) (b' mod 65521) (drop tmp data))
      else (a, b))"
  by pat_completeness auto
termination
  by (relation "measure (\<lambda>(a, b, data). length data)") auto

declare adler_loop.simps [simp del]

definition adlerChecksum :: "u8 list \<Rightarrow> u32" where
  "adlerChecksum data =
     (if length data > NETWORKMESSAGE_MAXSIZE then 0
      else (case adler_loop 1 0 data of (a, b) \<Rightarrow> push_bit 16 b OR a))"

section \<open>The reference sum\<close>

text \<open>The running pair of sums over the naturals, never reduced.\<close>

fun adler_sums :: "nat \<Rightarrow> nat \<Rightarrow> u8 list \<Rightarrow> nat \<times> nat" where
  "adler_sums a b [] = (a, b)"
| "adler_sums a b (d # data) = adler_sums (a + unat d) (b + (a + unat d)) data"

definition adler32_ref :: "u8 list \<Rightarrow> nat" where
  "adler32_ref data = (case adler_sums 1 0 data of (a, b) \<Rightarrow> (b mod 65521) * 65536 + a mod 65521)"

lemma adler_sums_append:
  "adler_sums a b (xs @ ys) = (case adler_sums a b xs of (a', b') \<Rightarrow> adler_sums a' b' ys)"
  by (induction a b xs rule: adler_sums.induct) simp_all

text \<open>The sums modulo 65521 depend on the start values modulo 65521 only.\<close>

lemma adler_sums_cong:
  "a mod m = a2 mod m \<Longrightarrow> b mod m = b2 mod m \<Longrightarrow>
     fst (adler_sums a b xs) mod m = fst (adler_sums a2 b2 xs) mod m \<and>
     snd (adler_sums a b xs) mod m = snd (adler_sums a2 b2 xs) mod m"
proof (induction xs arbitrary: a b a2 b2)
  case Nil
  then show ?case by simp
next
  case (Cons d xs)
  have "(a + unat d) mod m = (a2 + unat d) mod m"
    using Cons.prems(1) by (rule mod_add_cong) simp
  moreover from this have "(b + (a + unat d)) mod m = (b2 + (a2 + unat d)) mod m"
    by (rule mod_add_cong [OF Cons.prems(2)])
  ultimately show ?case by (simp only: adler_sums.simps) (rule Cons.IH)
qed

text \<open>The growth of the sums over n bytes, linear and quadratic.\<close>

lemma adler_sums_bound:
  "fst (adler_sums a b xs) \<le> a + 255 * length xs \<and>
   snd (adler_sums a b xs) \<le> b + length xs * a + 255 * (length xs * (length xs + 1) div 2)"
proof (induction xs arbitrary: a b)
  case Nil
  show ?case by simp
next
  case (Cons d xs)
  let ?n = "length xs" let ?a = "a + unat d" let ?b = "b + ?a"
  have d: "unat d \<le> 255" using unsigned_less [of d, where 'a = nat] by simp
  have tri: "Suc ?n * (Suc ?n + 1) div 2 = ?n * (?n + 1) div 2 + Suc ?n" by simp
  have "fst (adler_sums ?a ?b xs) \<le> ?a + 255 * ?n" using Cons.IH [of ?a ?b] by blast
  moreover have "snd (adler_sums ?a ?b xs) \<le> ?b + ?n * ?a + 255 * (?n * (?n + 1) div 2)"
    using Cons.IH [of ?a ?b] by blast
  moreover have "?b + ?n * ?a = b + Suc ?n * a + Suc ?n * unat d" by (simp add: algebra_simps)
  moreover have "Suc ?n * unat d \<le> Suc ?n * 255" using d by (rule mult_le_mono2)
  moreover have "255 * (Suc ?n * (Suc ?n + 1) div 2) = 255 * (?n * (?n + 1) div 2) + 255 * Suc ?n"
    unfolding tri by (simp add: algebra_simps)
  ultimately show ?case using d by simp
qed

lemma triangle_mono: "(n :: nat) \<le> m \<Longrightarrow> n * (n + 1) div 2 \<le> m * (m + 1) div 2"
  by (rule div_le_mono) (rule mult_le_mono, simp_all)

lemma adler_sums_mono:
  "a \<le> fst (adler_sums a b xs) \<and> b \<le> snd (adler_sums a b xs)"
proof (induction xs arbitrary: a b)
  case (Cons d xs)
  have "a + unat d \<le> fst (adler_sums (a + unat d) (b + (a + unat d)) xs)"
    "b + (a + unat d) \<le> snd (adler_sums (a + unat d) (b + (a + unat d)) xs)"
    using Cons.IH by blast+
  then show ?case by simp
qed simp

text \<open>As long as the exact sums fit in 32 bits, the machine sums are the exact ones.\<close>

lemma adler_block_exact:
  "fst (adler_sums (unat a) (unat b) xs) < 2 ^ 32 \<Longrightarrow>
   snd (adler_sums (unat a) (unat b) xs) < 2 ^ 32 \<Longrightarrow>
   (case adler_block a b xs of (a', b') \<Rightarrow> (unat a', unat b')) = adler_sums (unat a) (unat b) xs"
proof (induction xs arbitrary: a b)
  case Nil
  show ?case by simp
next
  case (Cons d xs)
  let ?a = "unat a + unat d" let ?b = "unat b + ?a"
  have lt: "?a < 2 ^ 32" "?b < 2 ^ 32"
    using adler_sums_mono [of ?a ?b xs] Cons.prems by auto
  have ua: "unat (a + ucast d) = ?a"
    using lt(1) by (simp add: unat_word_ariths unsigned_ucast_eq take_bit_eq_mod)
  have ub: "unat (b + (a + ucast d)) = ?b"
    using lt(2) ua by (simp add: unat_word_ariths unsigned_ucast_eq take_bit_eq_mod)
  have "(case adler_block (a + ucast d) (b + (a + ucast d)) xs of (a', b') \<Rightarrow> (unat a', unat b')) =
      adler_sums ?a ?b xs"
    using Cons.IH [of "a + ucast d" "b + (a + ucast d)"] Cons.prems ua ub by simp
  then show ?case by (simp add: Let_def)
qed

text \<open>The block length 5552: reduced sums cannot wrap within one block.\<close>

lemma adler_block_no_wrap:
  assumes "unat a < 65521" and "unat b < 65521" and "length xs \<le> 5552"
  shows "fst (adler_sums (unat a) (unat b) xs) < 2 ^ 32"
    and "snd (adler_sums (unat a) (unat b) xs) < 2 ^ 32"
proof -
  note bound = adler_sums_bound [of "unat a" "unat b" xs]
  show "fst (adler_sums (unat a) (unat b) xs) < 2 ^ 32"
    using bound assms by simp
  have "length xs * unat a \<le> 5552 * 65520"
    using assms by (intro mult_le_mono) simp_all
  moreover have "length xs * (length xs + 1) div 2 \<le> 5552 * (5552 + 1) div 2"
    using assms(3) by (rule triangle_mono)
  ultimately show "snd (adler_sums (unat a) (unat b) xs) < 2 ^ 32"
    using bound assms(2) by simp
qed

lemma adler_loop_correct:
  "unat a < 65521 \<Longrightarrow> unat b < 65521 \<Longrightarrow>
   (case adler_loop a b xs of (a', b') \<Rightarrow>
      unat a' = fst (adler_sums (unat a) (unat b) xs) mod 65521 \<and>
      unat b' = snd (adler_sums (unat a) (unat b) xs) mod 65521)"
proof (induction a b xs rule: adler_loop.induct)
  case (1 a b data)
  show ?case
  proof (cases "length data > 0")
    case False
    with "1.prems" show ?thesis by (subst adler_loop.simps) simp
  next
    case True
    let ?tmp = "if length data > 5552 then 5552 else length data"
    obtain a' b' where blk: "adler_block a b (take ?tmp data) = (a', b')" by fastforce
    have exact: "(unat a', unat b') = adler_sums (unat a) (unat b) (take ?tmp data)"
      using adler_block_exact [OF adler_block_no_wrap [OF "1.prems"], of "take ?tmp data"] blk
      by simp
    let ?a = "a' mod 65521" let ?b = "b' mod 65521"
    have red: "unat ?a = unat a' mod 65521" "unat ?b = unat b' mod 65521"
      by (simp_all add: unat_mod_distrib)
    have IH: "case adler_loop ?a ?b (drop ?tmp data) of (a2, b2) \<Rightarrow>
        unat a2 = fst (adler_sums (unat ?a) (unat ?b) (drop ?tmp data)) mod 65521 \<and>
        unat b2 = snd (adler_sums (unat ?a) (unat ?b) (drop ?tmp data)) mod 65521"
      using True blk red by (intro "1.IH" [OF _ refl refl [THEN trans, OF blk [symmetric]]]) simp_all
    have "adler_sums (unat a) (unat b) data = adler_sums (unat a') (unat b') (drop ?tmp data)"
      using adler_sums_append [of "unat a" "unat b" "take ?tmp data" "drop ?tmp data"]
      by (simp flip: exact)
    moreover have "adler_loop a b data = adler_loop ?a ?b (drop ?tmp data)"
      using True blk by (subst adler_loop.simps) (simp add: Let_def)
    moreover note adler_sums_cong [of "unat ?a" 65521 "unat a'" "unat ?b" "unat b'" "drop ?tmp data"]
    ultimately show ?thesis using IH red by (auto split: prod.splits)
  qed
qed

text \<open>The two halves of the result do not overlap.\<close>

lemma unat_push_or:
  fixes a b :: u32
  assumes "unat a < 65536" and "unat b < 65536"
  shows "unat (push_bit 16 b OR a) = unat b * 65536 + unat a"
proof -
  have "unat (push_bit 16 b) = push_bit 16 (unat b)"
    using assms(2) by (simp add: push_bit_eq_mult unat_word_ariths)
  moreover have "push_bit 16 (unat b) AND unat a = 0"
  proof (rule bit_eqI)
    fix n
    have "unat a = take_bit 16 (unat a)" using assms(1) by (simp add: take_bit_nat_eq_self)
    then have "bit (unat a) n \<Longrightarrow> n < 16" by (metis bit_take_bit_iff)
    then show "bit (push_bit 16 (unat b) AND unat a) n = bit 0 n"
      by (auto simp: bit_simps)
  qed
  ultimately show ?thesis
    by (simp add: unsigned_or_eq disjunctive_add_eq_or [symmetric] push_bit_eq_mult)
qed

text \<open>C36: for every message of a size the server sends, the checksum with its 32-bit sums is the
  Adler-32 checksum over unbounded integers: no intermediate sum wraps around.\<close>
theorem adlerChecksum_is_adler32:
  assumes "length data \<le> NETWORKMESSAGE_MAXSIZE"
  shows "unat (adlerChecksum data) = adler32_ref data"
proof -
  obtain a b where ab: "adler_loop 1 0 data = (a, b)" by fastforce
  have "unat a = fst (adler_sums 1 0 data) mod 65521" "unat b = snd (adler_sums 1 0 data) mod 65521"
    using adler_loop_correct [of 1 0 data] ab by simp_all
  moreover have lt: "unat a < 65536" "unat b < 65536"
    using calculation by (auto intro: less_trans [OF pos_mod_bound])
  moreover have "unat (push_bit 16 b OR a) = unat b * 65536 + unat a"
    using lt by (rule unat_push_or)
  ultimately show ?thesis
    using assms ab by (simp add: adlerChecksum_def adler32_ref_def split: prod.splits)
qed

theorem adlerChecksum_is_adler32_witness:
  "length [10, 20, 30 :: u8] \<le> NETWORKMESSAGE_MAXSIZE \<and>
   unat (adlerChecksum [10, 20, 30]) = adler32_ref [10, 20, 30]"
proof
  show *: "length [10, 20, 30 :: u8] \<le> NETWORKMESSAGE_MAXSIZE"
    by (simp add: NETWORKMESSAGE_MAXSIZE_def)
  show "unat (adlerChecksum [10, 20, 30]) = adler32_ref [10, 20, 30]"
    by (rule adlerChecksum_is_adler32 [OF *])
qed

lemma adlerChecksum_too_long: "NETWORKMESSAGE_MAXSIZE < length data \<Longrightarrow> adlerChecksum data = 0"
  by (simp add: adlerChecksum_def)

end
