(* ===== verification/NetMessage.thy ===== *)
theory NetMessage
  imports Bytes Positions Checksum
begin

text \<open>
  Network messages: networkmessage.h, networkmessage.cpp and the OutputMessage class of
  outputmessage.h.  A message is a record of its three info fields and its buffer; an output
  message extends it with the start of its headers.  Reads that fail return 0 (or the empty
  string) and set \<open>overrun\<close>, as in the code; an access that the code does not guard, and that
  would leave the buffer, is None.  The lemmas say that what is written can be read back, and
  that no sequence of reads or writes leaves the buffer.
\<close>

section \<open>Constants and state\<close>

definition INITIAL_BUFFER_POSITION :: u16 where
  "INITIAL_BUFFER_POSITION = 8"

definition HEADER_LENGTH :: nat where
  "HEADER_LENGTH = 2"

definition CHECKSUM_LENGTH :: nat where
  "CHECKSUM_LENGTH = 4"

definition XTEA_MULTIPLE :: nat where
  "XTEA_MULTIPLE = 8"

definition MAX_BODY_LENGTH :: nat where
  "MAX_BODY_LENGTH = NETWORKMESSAGE_MAXSIZE - HEADER_LENGTH - CHECKSUM_LENGTH - XTEA_MULTIPLE"

definition MAX_PROTOCOL_BODY_LENGTH :: nat where
  "MAX_PROTOCOL_BODY_LENGTH = MAX_BODY_LENGTH - 10"

lemma sizes:
  "NETWORKMESSAGE_MAXSIZE = 24590" "MAX_BODY_LENGTH = 24576" "MAX_PROTOCOL_BODY_LENGTH = 24566"
  by (simp_all add: NETWORKMESSAGE_MAXSIZE_def MAX_BODY_LENGTH_def MAX_PROTOCOL_BODY_LENGTH_def
      HEADER_LENGTH_def CHECKSUM_LENGTH_def XTEA_MULTIPLE_def)

record NetMsg =
  info_length :: u16
  info_position :: u16
  info_overrun :: bool
  buffer :: "u8 list"

record OutMsg = NetMsg +
  outputBufferStart :: u16

text \<open>The default member initialisers; the buffer itself is not initialised.\<close>

definition reset :: "'a NetMsg_scheme \<Rightarrow> 'a NetMsg_scheme" where
  "reset m = m\<lparr>info_length := 0, info_position := INITIAL_BUFFER_POSITION, info_overrun := False\<rparr>"

definition new_message :: "u8 list \<Rightarrow> NetMsg" where
  "new_message mem = \<lparr>info_length = 0, info_position = INITIAL_BUFFER_POSITION, info_overrun = False, buffer = mem\<rparr>"

definition new_output :: "u8 list \<Rightarrow> OutMsg" where
  "new_output mem = \<lparr>info_length = 0, info_position = INITIAL_BUFFER_POSITION, info_overrun = False, buffer = mem,
     outputBufferStart = INITIAL_BUFFER_POSITION\<rparr>"

section \<open>Guards\<close>

definition canAdd :: "nat \<Rightarrow> 'a NetMsg_scheme \<Rightarrow> bool" where
  "canAdd n m = (n + unat (info_position m) < MAX_BODY_LENGTH)"

definition canRead :: "int \<Rightarrow> 'a NetMsg_scheme \<Rightarrow> bool \<times> 'a NetMsg_scheme" where
  "canRead n m =
     (if uint (info_position m) + n > uint (info_length m) + 8 \<or>
         n \<ge> int NETWORKMESSAGE_MAXSIZE - uint (info_position m)
      then (False, m\<lparr>info_overrun := True\<rparr>) else (True, m))"

section \<open>Reading\<close>

definition advance :: "nat \<Rightarrow> 'a NetMsg_scheme \<Rightarrow> 'a NetMsg_scheme" where
  "advance n m = m\<lparr>info_position := info_position m + of_nat n\<rparr>"

definition getByte :: "'a NetMsg_scheme \<Rightarrow> u8 \<times> 'a NetMsg_scheme" where
  "getByte m = (case canRead 1 m of
     (False, m') \<Rightarrow> (0, m')
   | (True, m') \<Rightarrow> (buffer m' ! unat (info_position m'), advance 1 m'))"

definition getPreviousByte :: "'a NetMsg_scheme \<Rightarrow> (u8 \<times> 'a NetMsg_scheme) option" where
  "getPreviousByte m =
     (let p = info_position m - 1 in
      if unat p < length (buffer m) then Some (buffer m ! unat p, m\<lparr>info_position := p\<rparr>) else None)"

text \<open>The template \<open>get<T>\<close> for an unsigned T of n bytes.\<close>

definition get_uint :: "nat \<Rightarrow> 'a NetMsg_scheme \<Rightarrow> nat \<times> 'a NetMsg_scheme" where
  "get_uint n m = (case canRead (int n) m of
     (False, m') \<Rightarrow> (0, m')
   | (True, m') \<Rightarrow> (le_value (read_at (unat (info_position m')) n (buffer m')), advance n m'))"

definition get_u16 :: "'a NetMsg_scheme \<Rightarrow> u16 \<times> 'a NetMsg_scheme" where
  "get_u16 m = (case get_uint 2 m of (v, m') \<Rightarrow> (of_nat v, m'))"

definition get_u32 :: "'a NetMsg_scheme \<Rightarrow> u32 \<times> 'a NetMsg_scheme" where
  "get_u32 m = (case get_uint 4 m of (v, m') \<Rightarrow> (of_nat v, m'))"

definition getString :: "u16 \<Rightarrow> 'a NetMsg_scheme \<Rightarrow> string \<times> 'a NetMsg_scheme" where
  "getString len m =
     (case (if len = 0 then get_u16 m else (len, m)) of (stringLen, m1) \<Rightarrow>
        (case canRead (uint stringLen) m1 of
           (False, m2) \<Rightarrow> ([], m2)
         | (True, m2) \<Rightarrow>
             (map char_of_byte (read_at (unat (info_position m2)) (unat stringLen) (buffer m2)),
              advance (unat stringLen) m2)))"

definition getPosition :: "'a NetMsg_scheme \<Rightarrow> Position \<times> 'a NetMsg_scheme" where
  "getPosition m =
     (case get_u16 m of (x, m1) \<Rightarrow> case get_u16 m1 of (y, m2) \<Rightarrow> case getByte m2 of (z, m3) \<Rightarrow>
        (Position x y z, m3))"

definition skipBytes :: "16 word \<Rightarrow> 'a NetMsg_scheme \<Rightarrow> 'a NetMsg_scheme" where
  "skipBytes count m = m\<lparr>info_position := info_position m + count\<rparr>"

definition setLength :: "u16 \<Rightarrow> 'a NetMsg_scheme \<Rightarrow> 'a NetMsg_scheme" where
  "setLength n m = m\<lparr>info_length := n\<rparr>"

definition getLengthHeader :: "'a NetMsg_scheme \<Rightarrow> u16" where
  "getLengthHeader m = ucast (buffer m ! 0) OR push_bit 8 (ucast (buffer m ! 1))"

text \<open>\<open>getBodyBuffer\<close> moves the position behind the length header; the reader then fills the
  bytes from \<open>HEADER_LENGTH\<close> on.\<close>

definition getBodyBuffer :: "'a NetMsg_scheme \<Rightarrow> nat \<times> 'a NetMsg_scheme" where
  "getBodyBuffer m = (HEADER_LENGTH, m\<lparr>info_position := 2\<rparr>)"

section \<open>Writing\<close>

text \<open>The common tail of the writers: copy the bytes in, move the position, add to the length.\<close>

definition put_bytes :: "u8 list \<Rightarrow> 'a NetMsg_scheme \<Rightarrow> 'a NetMsg_scheme" where
  "put_bytes bs m =
     m\<lparr>buffer := write_at (unat (info_position m)) bs (buffer m),
       info_position := info_position m + of_nat (length bs),
       info_length := info_length m + of_nat (length bs)\<rparr>"

definition addByte :: "u8 \<Rightarrow> 'a NetMsg_scheme \<Rightarrow> 'a NetMsg_scheme" where
  "addByte v m = (if canAdd 1 m then put_bytes [v] m else m)"

definition add_uint :: "nat \<Rightarrow> nat \<Rightarrow> 'a NetMsg_scheme \<Rightarrow> 'a NetMsg_scheme" where
  "add_uint n v m = (if canAdd n m then put_bytes (le_bytes n v) m else m)"

definition addString :: "string \<Rightarrow> 'a NetMsg_scheme \<Rightarrow> 'a NetMsg_scheme" where
  "addString s m =
     (if \<not> canAdd (length s + 2) m \<or> length s > 8192 then m
      else put_bytes (map byte_of_char s) (add_uint 2 (length s) m))"

definition addBytes :: "u8 list \<Rightarrow> 'a NetMsg_scheme \<Rightarrow> 'a NetMsg_scheme" where
  "addBytes bs m = (if \<not> canAdd (length bs) m \<or> length bs > 8192 then m else put_bytes bs m)"

text \<open>The padding counts towards the length but the position stays.\<close>

definition addPaddingBytes :: "nat \<Rightarrow> 'a NetMsg_scheme \<Rightarrow> 'a NetMsg_scheme" where
  "addPaddingBytes n m =
     (if \<not> canAdd n m then m
      else m\<lparr>buffer := write_at (unat (info_position m)) (replicate n 0x33) (buffer m),
             info_length := info_length m + of_nat n\<rparr>)"

definition addPosition :: "Position \<Rightarrow> 'a NetMsg_scheme \<Rightarrow> 'a NetMsg_scheme" where
  "addPosition pos m =
     (case pos of Position x y z \<Rightarrow> addByte z (add_uint 2 (unat y) (add_uint 2 (unat x) m)))"

section \<open>Output messages\<close>

definition add_header :: "nat \<Rightarrow> nat \<Rightarrow> OutMsg \<Rightarrow> OutMsg option" where
  "add_header n v m =
     (if unat (outputBufferStart m) < n then None
      else Some (m\<lparr>outputBufferStart := outputBufferStart m - of_nat n,
                   buffer := write_at (unat (outputBufferStart m) - n) (le_bytes n v) (buffer m),
                   info_length := info_length m + of_nat n\<rparr>))"

definition writeMessageLength :: "OutMsg \<Rightarrow> OutMsg option" where
  "writeMessageLength m = add_header 2 (unat (info_length m)) m"

definition outputBytes :: "OutMsg \<Rightarrow> u8 list" where
  "outputBytes m = read_at (unat (outputBufferStart m)) (unat (info_length m)) (buffer m)"

definition addCryptoHeader :: "bool \<Rightarrow> OutMsg \<Rightarrow> OutMsg option" where
  "addCryptoHeader addChecksum m =
     (case (if addChecksum then add_header 4 (unat (adlerChecksum (outputBytes m))) m else Some m) of
        None \<Rightarrow> None | Some m' \<Rightarrow> writeMessageLength m')"

text \<open>\<open>append\<close> copies the body of another message without a check.\<close>

definition append_msg :: "'b NetMsg_scheme \<Rightarrow> OutMsg \<Rightarrow> OutMsg option" where
  "append_msg src m =
     (if 8 + unat (info_length src) \<le> length (buffer src) \<and>
         unat (info_position m) + unat (info_length src) \<le> length (buffer m)
      then Some (put_bytes (read_at 8 (unat (info_length src)) (buffer src)) m) else None)"

section \<open>What the writers keep\<close>

text \<open>
  A message under construction: the position is the end of the body, the body starts behind
  the space for the headers, and there is always room left.
\<close>

definition write_inv :: "'a NetMsg_scheme \<Rightarrow> bool" where
  [inv_defs]: "write_inv m =
     (unat (info_position m) = 8 + unat (info_length m) \<and>
      unat (info_position m) < MAX_BODY_LENGTH \<and> length (buffer m) = NETWORKMESSAGE_MAXSIZE)"

definition body :: "'a NetMsg_scheme \<Rightarrow> u8 list" where
  "body m = read_at 8 (unat (info_length m)) (buffer m)"

lemma unat_add_u16: "unat (w :: u16) + n < 65536 \<Longrightarrow> unat (w + of_nat n) = unat w + n"
  by (simp add: unat_word_ariths unat_of_nat)

lemma put_bytes_keeps:
  assumes "write_inv m" and "canAdd (length bs) m"
  shows "write_inv (put_bytes bs m)" and "body (put_bytes bs m) = body m @ bs"
proof -
  let ?n = "length bs" let ?p = "unat (info_position m)"
  from assms have p: "?p = 8 + unat (info_length m)" "?n + ?p < 24576" "length (buffer m) = 24590"
    by (simp_all add: write_inv_def canAdd_def sizes)
  then have "unat (info_position m + of_nat ?n) = ?p + ?n"
    and l: "unat (info_length m + of_nat ?n) = unat (info_length m) + ?n"
    by (simp_all add: unat_add_u16)
  with p show "write_inv (put_bytes bs m)"
    by (simp add: write_inv_def put_bytes_def sizes)
  show "body (put_bytes bs m) = body m @ bs"
    using read_write_extend [of 8 ?p "buffer m" bs] p l
    by (simp add: body_def put_bytes_def)
qed

lemma canAdd_put:
  "write_inv m \<Longrightarrow> canAdd (length bs) m \<Longrightarrow> canAdd n (put_bytes bs m) = canAdd (length bs + n) m"
  by (simp add: canAdd_def put_bytes_def write_inv_def sizes unat_add_u16 add.commute add.left_commute)

lemma canAdd_less: "canAdd n m \<Longrightarrow> k \<le> n \<Longrightarrow> canAdd k m"
  by (simp add: canAdd_def)

lemma write_inv_new: "length mem = NETWORKMESSAGE_MAXSIZE \<Longrightarrow> write_inv (new_message mem)"
  by (simp add: write_inv_def new_message_def INITIAL_BUFFER_POSITION_def sizes)

lemma write_inv_new_output: "length mem = NETWORKMESSAGE_MAXSIZE \<Longrightarrow> write_inv (new_output mem)"
  by (simp add: write_inv_def new_output_def INITIAL_BUFFER_POSITION_def sizes)

lemma body_new [simp]: "body (new_message mem) = []" "body (new_output mem) = []"
  by (simp_all add: body_def new_message_def new_output_def read_at_def)

lemma canAdd_new: "canAdd n (new_message mem) = (8 + n < MAX_BODY_LENGTH)"
proof -
  have "unat INITIAL_BUFFER_POSITION = 8" by (simp add: INITIAL_BUFFER_POSITION_def)
  then show ?thesis by (simp add: canAdd_def new_message_def add.commute)
qed

section \<open>Fields\<close>

text \<open>The values the writers and the readers exchange, with their images.\<close>

datatype field = FByte u8 | FU16 u16 | FU32 u32 | FString string | FPosition Position

fun field_image :: "field \<Rightarrow> u8 list" where
  "field_image (FByte b) = [b]"
| "field_image (FU16 w) = le_bytes 2 (unat w)"
| "field_image (FU32 w) = le_bytes 4 (unat w)"
| "field_image (FString s) = le_bytes 2 (length s) @ map byte_of_char s"
| "field_image (FPosition (Position x y z)) = le_bytes 2 (unat x) @ le_bytes 2 (unat y) @ [z]"

fun add_field :: "field \<Rightarrow> 'a NetMsg_scheme \<Rightarrow> 'a NetMsg_scheme" where
  "add_field (FByte b) m = addByte b m"
| "add_field (FU16 w) m = add_uint 2 (unat w) m"
| "add_field (FU32 w) m = add_uint 4 (unat w) m"
| "add_field (FString s) m = addString s m"
| "add_field (FPosition p) m = addPosition p m"

text \<open>What a parser asks for is the shape of the field.\<close>

datatype kind = KByte | KU16 | KU32 | KString | KPosition

fun kind_of :: "field \<Rightarrow> kind" where
  "kind_of (FByte _) = KByte"
| "kind_of (FU16 _) = KU16"
| "kind_of (FU32 _) = KU32"
| "kind_of (FString _) = KString"
| "kind_of (FPosition _) = KPosition"

fun get_field :: "kind \<Rightarrow> 'a NetMsg_scheme \<Rightarrow> field \<times> 'a NetMsg_scheme" where
  "get_field KByte m = (case getByte m of (b, m') \<Rightarrow> (FByte b, m'))"
| "get_field KU16 m = (case get_u16 m of (w, m') \<Rightarrow> (FU16 w, m'))"
| "get_field KU32 m = (case get_u32 m of (w, m') \<Rightarrow> (FU32 w, m'))"
| "get_field KString m = (case getString 0 m of (s, m') \<Rightarrow> (FString s, m'))"
| "get_field KPosition m = (case getPosition m of (p, m') \<Rightarrow> (FPosition p, m'))"

fun get_fields :: "kind list \<Rightarrow> 'a NetMsg_scheme \<Rightarrow> field list \<times> 'a NetMsg_scheme" where
  "get_fields [] m = ([], m)"
| "get_fields (k # ks) m =
     (case get_field k m of (f, m1) \<Rightarrow> case get_fields ks m1 of (fs, m2) \<Rightarrow> (f # fs, m2))"

fun string_ok :: "field \<Rightarrow> bool" where
  "string_ok (FString s) = (length s \<le> 8192)"
| "string_ok _ = True"

lemma add_field_keeps:
  assumes "write_inv m" and "canAdd (length (field_image f)) m" and "string_ok f"
  shows "write_inv (add_field f m) \<and> body (add_field f m) = body m @ field_image f"
proof (cases f)
  case (FString s)
  have c: "canAdd (length (le_bytes 2 (length s))) m"
    using assms(2) FString by (auto elim: canAdd_less)
  have "canAdd (length (map byte_of_char s)) (put_bytes (le_bytes 2 (length s)) m)"
    using assms FString c by (simp add: canAdd_put)
  with FString assms c show ?thesis
    by (simp add: addString_def add_uint_def put_bytes_keeps add.commute)
next
  case (FPosition p)
  obtain x y z where p: "p = Position x y z" by (cases p)
  let ?m1 = "put_bytes (le_bytes 2 (unat x)) m"
  let ?m2 = "put_bytes (le_bytes 2 (unat y)) ?m1"
  have c: "canAdd 5 m" using assms(2) FPosition p by simp
  have c1: "canAdd 2 m" using c by (rule canAdd_less) simp
  have i1: "write_inv ?m1" "body ?m1 = body m @ le_bytes 2 (unat x)"
    using assms(1) c1 by (simp_all add: put_bytes_keeps)
  have c2: "canAdd n ?m1 = canAdd (2 + n) m" for n
    using canAdd_put [of m "le_bytes 2 (unat x)" n] assms(1) c1 by simp
  have c3: "canAdd 2 ?m1" using c2 [of 2] canAdd_less [OF c, of 4] by simp
  have i2: "write_inv ?m2" "body ?m2 = body ?m1 @ le_bytes 2 (unat y)"
    using i1(1) c3 by (simp_all add: put_bytes_keeps)
  have c4: "canAdd (Suc 0) ?m2"
    using canAdd_put [of ?m1 "le_bytes 2 (unat y)" 1] i1(1) c3 c2 [of 3] c by simp
  show ?thesis
    using FPosition p c1 c3 c4 i1 i2 put_bytes_keeps [of ?m2 "[z]"]
    by (simp add: addPosition_def add_uint_def addByte_def)
qed (use assms in \<open>auto simp: addByte_def add_uint_def put_bytes_keeps\<close>)

lemma add_fields_keep:
  assumes "write_inv m" and "canAdd (length (concat (map field_image fs))) m" and "list_all string_ok fs"
  shows "write_inv (foldl (\<lambda>m f. add_field f m) m fs) \<and>
    body (foldl (\<lambda>m f. add_field f m) m fs) = body m @ concat (map field_image fs)"
  using assms
proof (induction fs arbitrary: m)
  case (Cons f fs)
  have c: "canAdd (length (field_image f)) m"
    using Cons.prems(2) by (rule canAdd_less) simp
  have k: "write_inv (add_field f m)" "body (add_field f m) = body m @ field_image f"
    using add_field_keeps [of m f] Cons.prems c by simp_all
  have "length (body m) = unat (info_length m)" if "write_inv m" for m :: "'a NetMsg_scheme"
    using that by (simp add: body_def write_inv_def sizes length_read_at)
  from this [OF k(1)] this [OF Cons.prems(1)] k
  have "unat (info_length (add_field f m)) = unat (info_length m) + length (field_image f)" by simp
  with k(1) Cons.prems(1,2) have "canAdd (length (concat (map field_image fs))) (add_field f m)"
    by (simp add: canAdd_def write_inv_def)
  with Cons.IH [OF k(1)] Cons.prems(3) k(2) show ?case by simp
qed simp

section \<open>Reading back\<close>

text \<open>What a reader may rely on: the bytes at its position, with the guards satisfied.\<close>

definition at_bytes :: "u8 list \<Rightarrow> 'a NetMsg_scheme \<Rightarrow> bool" where
  "at_bytes bs m =
     (read_at (unat (info_position m)) (length bs) (buffer m) = bs \<and>
      unat (info_position m) + length bs \<le> unat (info_length m) + 8 \<and>
      unat (info_position m) + length bs < NETWORKMESSAGE_MAXSIZE)"

lemma canRead_iff:
  "canRead (int n) m =
     (if unat (info_position m) + n \<le> unat (info_length m) + 8 \<and> unat (info_position m) + n < NETWORKMESSAGE_MAXSIZE
      then (True, m) else (False, m\<lparr>info_overrun := True\<rparr>))"
proof -
  have "uint (info_position m) + int n > uint (info_length m) + 8 \<longleftrightarrow>
      \<not> unat (info_position m) + n \<le> unat (info_length m) + 8"
    unfolding uint_nat by linarith
  moreover have "int n \<ge> int NETWORKMESSAGE_MAXSIZE - uint (info_position m) \<longleftrightarrow>
      \<not> unat (info_position m) + n < NETWORKMESSAGE_MAXSIZE"
    unfolding uint_nat by linarith
  ultimately show ?thesis unfolding canRead_def by presburger
qed

lemma canRead_one:
  "canRead 1 m =
     (if unat (info_position m) + 1 \<le> unat (info_length m) + 8 \<and> unat (info_position m) + 1 < NETWORKMESSAGE_MAXSIZE
      then (True, m) else (False, m\<lparr>info_overrun := True\<rparr>))"
  using canRead_iff [of 1 m] by simp

lemma unat_advance:
  "unat (info_position m) + n < NETWORKMESSAGE_MAXSIZE \<Longrightarrow>
     unat (info_position (advance n m)) = unat (info_position m) + n"
  by (simp add: advance_def unat_add_u16 sizes)

lemma advance_fields [simp]:
  "info_length (advance n m) = info_length m" "info_overrun (advance n m) = info_overrun m"
  "buffer (advance n m) = buffer m"
  by (simp_all add: advance_def)

lemma advance_advance [simp]: "advance k (advance n m) = advance (n + k) m"
  by (simp add: advance_def add.assoc)

lemma advance_0 [simp]: "advance 0 m = m"
  by (simp add: advance_def)

lemma at_bytes_append:
  assumes "at_bytes (xs @ ys) m"
  shows "at_bytes xs m" and "at_bytes ys (advance (length xs) m)"
proof -
  let ?p = "unat (info_position m)"
  have r: "read_at ?p (length xs) (buffer m) @ read_at (?p + length xs) (length ys) (buffer m) = xs @ ys"
    and bound: "?p + (length xs + length ys) \<le> unat (info_length m) + 8"
      "?p + (length xs + length ys) < NETWORKMESSAGE_MAXSIZE"
    using assms unfolding at_bytes_def length_append read_at_append by simp_all
  have "length (read_at ?p (length xs) (buffer m)) = length xs"
  proof -
    have "length (read_at ?p (length xs) (buffer m)) \<le> length xs"
      and "length (read_at (?p + length xs) (length ys) (buffer m)) \<le> length ys"
      by (simp_all add: read_at_def)
    with arg_cong [OF r, of length] show ?thesis by simp
  qed
  with r have "read_at ?p (length xs) (buffer m) = xs"
    and "read_at (?p + length xs) (length ys) (buffer m) = ys" by simp_all
  with bound show "at_bytes xs m" and "at_bytes ys (advance (length xs) m)"
    by (simp_all add: at_bytes_def unat_advance)
qed

lemma get_uint_at: "at_bytes bs m \<Longrightarrow> get_uint (length bs) m = (le_value bs, advance (length bs) m)"
  by (simp add: get_uint_def canRead_iff at_bytes_def)

lemma get_u16_at: "at_bytes (le_bytes 2 (unat w)) m \<Longrightarrow> get_u16 m = (w, advance 2 m)"
  using get_uint_at [of "le_bytes 2 (unat w)" m] unat_less_16 [of w] by (simp add: get_u16_def)

lemma get_u32_at: "at_bytes (le_bytes 4 (unat w)) m \<Longrightarrow> get_u32 m = (w, advance 4 m)"
  using get_uint_at [of "le_bytes 4 (unat w)" m] unat_less_32 [of w] by (simp add: get_u32_def)

lemma getByte_at:
  assumes "at_bytes [b] m"
  shows "getByte m = (b, advance 1 m)"
proof -
  have "take 1 (drop (unat (info_position m)) (buffer m)) = [b]"
    using assms by (simp add: at_bytes_def read_at_def)
  then have "buffer m ! unat (info_position m) = b"
    by (cases "unat (info_position m) < length (buffer m)")
      (simp_all add: take_Suc hd_drop_conv_nth drop_all)
  with assms show ?thesis by (simp add: getByte_def canRead_one at_bytes_def)
qed

lemma getString_at:
  assumes "at_bytes (le_bytes 2 (length s) @ map byte_of_char s) m" and "length s \<le> 8192"
  shows "getString 0 m = (s, advance (2 + length s) m)"
proof -
  let ?n = "of_nat (length s) :: u16" let ?m = "advance 2 m"
  have n: "unat ?n = length s" using assms(2) by (simp add: unat_of_nat)
  have w: "get_u16 m = (?n, ?m)"
    using at_bytes_append(1) [OF assms(1)] by (intro get_u16_at) (simp add: n)
  have a: "at_bytes (map byte_of_char s) ?m"
    using at_bytes_append(2) [OF assms(1)] by simp
  then have "canRead (uint ?n) ?m = (True, ?m)"
    by (simp add: uint_nat n canRead_iff at_bytes_def)
  with w a n show ?thesis by (simp add: getString_def at_bytes_def)
qed

lemma getPosition_at:
  assumes "at_bytes (field_image (FPosition p)) m"
  shows "getPosition m = (p, advance 5 m)"
proof -
  obtain x y z where p: "p = Position x y z" by (cases p)
  from assms p have a: "at_bytes (le_bytes 2 (unat x) @ (le_bytes 2 (unat y) @ [z])) m" by simp
  have b: "at_bytes (le_bytes 2 (unat y) @ [z]) (advance 2 m)"
    using at_bytes_append(2) [OF a] by simp
  have c: "at_bytes [z] (advance 4 m)" using at_bytes_append(2) [OF b] by simp
  show ?thesis
    using get_u16_at [OF at_bytes_append(1) [OF a]] get_u16_at [OF at_bytes_append(1) [OF b]]
      getByte_at [OF c] p by (simp add: getPosition_def)
qed

lemma get_field_at:
  "at_bytes (field_image f) m \<Longrightarrow> string_ok f \<Longrightarrow>
     get_field (kind_of f) m = (f, advance (length (field_image f)) m)"
proof (cases f)
  case (FPosition p)
  assume "at_bytes (field_image f) m"
  with FPosition getPosition_at [of p m] show ?thesis by (cases p) simp
qed (auto simp: getByte_at get_u16_at get_u32_at getString_at)

lemma get_fields_at:
  "at_bytes (concat (map field_image fs)) m \<Longrightarrow> list_all string_ok fs \<Longrightarrow>
     get_fields (map kind_of fs) m = (fs, advance (length (concat (map field_image fs))) m)"
proof (induction fs arbitrary: m)
  case (Cons f fs)
  then show ?case
    using at_bytes_append [of "field_image f" "concat (map field_image fs)" m]
    by (simp add: get_field_at)
qed simp

lemma body_at_bytes:
  "write_inv m \<Longrightarrow> info_length r = info_length m \<Longrightarrow> info_position r = 8 \<Longrightarrow>
     read_at 8 (unat (info_length m)) (buffer r) = body m \<Longrightarrow> at_bytes (body m) r"
  by (simp add: at_bytes_def body_def write_inv_def sizes length_read_at)

text \<open>C38: what the server writes into a message with its typed writers, a reader that asks for
  the same shapes in the same order gets back value for value, without an overrun, when the
  message has room for it and no string is longer than 8192; the reader only needs the same
  body behind the headers, not the same message.\<close>

theorem fields_roundtrip:
  assumes "length mem = NETWORKMESSAGE_MAXSIZE"
    and "8 + length (concat (map field_image fs)) < MAX_BODY_LENGTH"
    and "list_all string_ok fs"
    and "m = foldl (\<lambda>m f. add_field f m) (new_message mem) fs"
    and "info_length r = info_length m" and "info_position r = INITIAL_BUFFER_POSITION"
    and "read_at 8 (unat (info_length m)) (buffer r) = read_at 8 (unat (info_length m)) (buffer m)"
  shows "fst (get_fields (map kind_of fs) r) = fs \<and>
      info_overrun (snd (get_fields (map kind_of fs) r)) = info_overrun r \<and>
      unat (info_position (snd (get_fields (map kind_of fs) r))) = 8 + unat (info_length m)"
proof -
  have k: "write_inv m" "body m = concat (map field_image fs)"
    using add_fields_keep [OF write_inv_new [OF assms(1)] _ assms(3)] assms(2,4)
    by (simp_all add: canAdd_new)
  have "at_bytes (body m) r"
    using k(1) assms(5-7) by (intro body_at_bytes) (simp_all add: body_def INITIAL_BUFFER_POSITION_def)
  then have g: "get_fields (map kind_of fs) r = (fs, advance (length (body m)) r)"
    and b: "unat (info_position r) + length (body m) < NETWORKMESSAGE_MAXSIZE"
    using get_fields_at [of fs r] assms(3) k(2) by (simp_all add: at_bytes_def)
  have "length (body m) = unat (info_length m)"
    using k(1) by (simp add: body_def write_inv_def sizes length_read_at)
  with g unat_advance [OF b] assms(6) show ?thesis by (simp add: INITIAL_BUFFER_POSITION_def)
qed

lemma fields_roundtrip_witness:
  "let fs = [FByte 0x32, FString ''Temple'', FPosition (Position 32369 32241 7), FU32 100000];
       m = foldl (\<lambda>m f. add_field f m) (new_message (replicate NETWORKMESSAGE_MAXSIZE 0)) fs;
       r = m\<lparr>info_position := INITIAL_BUFFER_POSITION\<rparr>
   in fst (get_fields (map kind_of fs) r) = fs \<and>
      info_overrun (snd (get_fields (map kind_of fs) r)) = info_overrun r \<and>
      unat (info_position (snd (get_fields (map kind_of fs) r))) = 8 + unat (info_length m)"
  unfolding Let_def by (rule fields_roundtrip [OF length_replicate]) (simp_all add: sizes)

section \<open>Reads stay in the frame\<close>

text \<open>Two messages a reader cannot tell apart: the same info, the same bytes up to the end of
  the frame.\<close>

definition same_frame :: "NetMsg \<Rightarrow> NetMsg \<Rightarrow> bool" where
  "same_frame m m' =
     (info_length m = info_length m' \<and> info_position m = info_position m' \<and> info_overrun m = info_overrun m' \<and>
      length (buffer m) = NETWORKMESSAGE_MAXSIZE \<and> length (buffer m') = NETWORKMESSAGE_MAXSIZE \<and>
      take (unat (info_length m) + 8) (buffer m) = take (unat (info_length m') + 8) (buffer m'))"

lemma read_at_take:
  assumes "p + n \<le> k" and "take k xs = take k ys"
  shows "read_at p n xs = read_at p n ys"
proof -
  have "read_at p n zs = take n (drop p (take k zs))" for zs :: "'a list"
    using assms(1) by (simp add: read_at_def drop_take min_def)
  with assms(2) show ?thesis by simp
qed

lemma nth_take_eq: "p < k \<Longrightarrow> take k xs = take k ys \<Longrightarrow> xs ! p = ys ! p"
  by (metis nth_take)

lemma same_frame_advance: "same_frame m m' \<Longrightarrow> same_frame (advance n m) (advance n m')"
  by (auto simp: same_frame_def advance_def)

lemma same_frame_canRead:
  "same_frame m m' \<Longrightarrow> fst (canRead n m) = fst (canRead n m') \<and> same_frame (snd (canRead n m)) (snd (canRead n m'))"
  by (auto simp: canRead_def same_frame_def)

lemma same_frame_getByte:
  "same_frame m m' \<Longrightarrow> fst (getByte m) = fst (getByte m') \<and> same_frame (snd (getByte m)) (snd (getByte m'))"
  using nth_take_eq [of "unat (info_position m)" "unat (info_length m) + 8" "buffer m" "buffer m'"]
  by (auto simp: getByte_def canRead_one same_frame_def advance_def)

lemma same_frame_get_uint:
  "same_frame m m' \<Longrightarrow> fst (get_uint n m) = fst (get_uint n m') \<and> same_frame (snd (get_uint n m)) (snd (get_uint n m'))"
  using read_at_take [of "unat (info_position m)" n "unat (info_length m) + 8" "buffer m" "buffer m'"]
  by (auto simp: get_uint_def canRead_iff same_frame_def advance_def)

lemma same_frame_get_u16:
  "same_frame m m' \<Longrightarrow> fst (get_u16 m) = fst (get_u16 m') \<and> same_frame (snd (get_u16 m)) (snd (get_u16 m'))"
  using same_frame_get_uint [of m m' 2] by (simp add: get_u16_def split_beta)

lemma same_frame_get_u32:
  "same_frame m m' \<Longrightarrow> fst (get_u32 m) = fst (get_u32 m') \<and> same_frame (snd (get_u32 m)) (snd (get_u32 m'))"
  using same_frame_get_uint [of m m' 4] by (simp add: get_u32_def split_beta)

lemma same_frame_take_string:
  assumes "same_frame m m'" and "fst (canRead (uint w) m)"
  shows "read_at (unat (info_position m)) (unat w) (buffer m) = read_at (unat (info_position m')) (unat w) (buffer m')"
proof -
  have "unat (info_position m) + unat w \<le> unat (info_length m) + 8"
    using assms(2) unfolding uint_nat canRead_iff by (simp split: if_splits)
  with assms(1) show ?thesis
    using read_at_take [of "unat (info_position m)" "unat w" "unat (info_length m) + 8" "buffer m" "buffer m'"]
    by (auto simp: same_frame_def)
qed

lemma canRead_True: "fst (canRead n m) \<Longrightarrow> snd (canRead n m) = m"
  by (simp add: canRead_def split: if_splits)

lemma same_frame_getString0:
  assumes "same_frame m m'"
  shows "fst (getString 0 m) = fst (getString 0 m') \<and> same_frame (snd (getString 0 m)) (snd (getString 0 m'))"
proof -
  obtain w m1 where a: "get_u16 m = (w, m1)" by (cases "get_u16 m")
  obtain m1' where b: "get_u16 m' = (w, m1')" and s: "same_frame m1 m1'"
    using same_frame_get_u16 [OF assms] a by (cases "get_u16 m'") auto
  note c = same_frame_canRead [OF s, of "uint w"]
  show ?thesis
  proof (cases "fst (canRead (uint w) m1)")
    case True
    with c have t: "fst (canRead (uint w) m1')" by simp
    show ?thesis
      using a b canRead_True [OF True] canRead_True [OF t] True t
        same_frame_take_string [OF s True] same_frame_advance [OF s, of "unat w"]
      by (cases "canRead (uint w) m1"; cases "canRead (uint w) m1'") (simp add: getString_def)
  next
    case False
    with c a b show ?thesis
      by (cases "canRead (uint w) m1"; cases "canRead (uint w) m1'") (simp add: getString_def)
  qed
qed

lemma same_frame_getPosition:
  assumes "same_frame m m'"
  shows "fst (getPosition m) = fst (getPosition m') \<and> same_frame (snd (getPosition m)) (snd (getPosition m'))"
proof -
  note x = same_frame_get_u16 [OF assms]
  note y = same_frame_get_u16 [OF conjunct2 [OF x]]
  note z = same_frame_getByte [OF conjunct2 [OF y]]
  from x y z show ?thesis by (simp add: getPosition_def split_beta)
qed

lemma same_frame_get_field:
  assumes "same_frame m m'"
  shows "fst (get_field k m) = fst (get_field k m') \<and> same_frame (snd (get_field k m)) (snd (get_field k m'))"
  by (cases k)
    (use assms same_frame_getByte same_frame_get_u16 same_frame_get_u32 same_frame_getString0 same_frame_getPosition
      in \<open>simp_all add: split_beta\<close>)

text \<open>C28: whatever a parser asks for, in whatever order, the values it gets, the position it ends
  at and the overrun flag depend only on the bytes before the end of the frame (eight bytes of
  headers and as many bytes as the length says): bytes behind the frame, left by an earlier
  packet, are never read.\<close>

theorem reads_stay_in_frame:
  assumes "same_frame m m'"
  shows "fst (get_fields ks m) = fst (get_fields ks m') \<and>
    same_frame (snd (get_fields ks m)) (snd (get_fields ks m'))"
  using assms
proof (induction ks arbitrary: m m')
  case (Cons k ks)
  with same_frame_get_field [OF Cons.prems, of k] show ?case by (simp add: split_beta)
qed simp

lemma reads_stay_in_frame_witness:
  "let m = \<lparr>info_length = 2, info_position = 8, info_overrun = False,
             buffer = replicate 10 5 @ replicate 24580 (0 :: u8)\<rparr>;
       m' = m\<lparr>buffer := replicate 10 5 @ replicate 24580 1\<rparr>
   in fst (get_fields [KByte, KU32, KString] m) = fst (get_fields [KByte, KU32, KString] m') \<and>
      same_frame (snd (get_fields [KByte, KU32, KString] m)) (snd (get_fields [KByte, KU32, KString] m'))"
  unfolding Let_def by (rule reads_stay_in_frame) (simp add: same_frame_def sizes)

end
