(* ===== verification/Xtea.thy ===== *)
theory Xtea
  imports Bytes
begin

text \<open>
  The cipher of protocol.cpp: 32 rounds of XTEA over the 8-byte blocks of a message, in place.
  A block that would run past the end of the buffer is None.  The main lemmas are that
  decryption inverts encryption block by block and over whole buffers.
\<close>

text \<open>The key is an array of four 32-bit words.\<close>

type_synonym xtea_key = "u32 \<times> u32 \<times> u32 \<times> u32"

fun key_word :: "xtea_key \<Rightarrow> u32 \<Rightarrow> u32" where
  "key_word (k0, k1, k2, k3) i =
     (if i AND 3 = 0 then k0 else if i AND 3 = 1 then k1 else if i AND 3 = 2 then k2 else k3)"

definition xtea_delta :: u32 where
  "xtea_delta = 0x61C88647"

text \<open>\<open>(v << 4 ^ v >> 5) + v\<close>.\<close>

definition xtea_mix :: "u32 \<Rightarrow> u32" where
  "xtea_mix v = (push_bit 4 v XOR drop_bit 5 v) + v"

definition enc_round :: "xtea_key \<Rightarrow> u32 \<times> u32 \<times> u32 \<Rightarrow> u32 \<times> u32 \<times> u32" where
  "enc_round k = (\<lambda>(v0, v1, s).
     let v0' = v0 + (xtea_mix v1 XOR (s + key_word k s));
         s' = s - xtea_delta;
         v1' = v1 + (xtea_mix v0' XOR (s' + key_word k (drop_bit 11 s')))
     in (v0', v1', s'))"

definition dec_round :: "xtea_key \<Rightarrow> u32 \<times> u32 \<times> u32 \<Rightarrow> u32 \<times> u32 \<times> u32" where
  "dec_round k = (\<lambda>(v0, v1, s).
     let v1' = v1 - (xtea_mix v0 XOR (s + key_word k (drop_bit 11 s)));
         s' = s + xtea_delta;
         v0' = v0 - (xtea_mix v1' XOR (s' + key_word k s'))
     in (v0', v1', s'))"

text \<open>The bodies of the two outer loops: load two words, 32 rounds, store them.\<close>

definition load_word :: "u8 list \<Rightarrow> u32" where
  "load_word bs = of_nat (le_value bs)"

definition enc_block :: "xtea_key \<Rightarrow> u8 list \<Rightarrow> u8 list" where
  "enc_block k bs =
     (case (enc_round k ^^ 32) (load_word (take 4 bs), load_word (drop 4 bs), 0) of
        (v0, v1, s) \<Rightarrow> le_bytes 4 (unat v0) @ le_bytes 4 (unat v1))"

definition dec_block :: "xtea_key \<Rightarrow> u8 list \<Rightarrow> u8 list" where
  "dec_block k bs =
     (case (dec_round k ^^ 32) (load_word (take 4 bs), load_word (drop 4 bs), 0xC6EF3720) of
        (v0, v1, s) \<Rightarrow> le_bytes 4 (unat v0) @ le_bytes 4 (unat v1))"

text \<open>The outer loop over the buffer from \<open>start\<close>, \<open>messageLength\<close> bytes in steps of eight.\<close>

function xtea_loop :: "(u8 list \<Rightarrow> u8 list) \<Rightarrow> nat \<Rightarrow> nat \<Rightarrow> nat \<Rightarrow> u8 list \<Rightarrow> u8 list option" where
  "xtea_loop f start readPos messageLength buf =
     (if readPos < messageLength then
        (if start + readPos + 8 \<le> length buf then
           xtea_loop f start (readPos + 8) messageLength
             (write_at (start + readPos) (f (read_at (start + readPos) 8 buf)) buf)
         else None)
      else Some buf)"
  by pat_completeness auto
termination
  by (relation "measure (\<lambda>(f, start, readPos, messageLength, buf). messageLength - readPos)") auto

declare xtea_loop.simps [simp del]

section \<open>One block\<close>

lemma dec_enc_round: "dec_round k (enc_round k st) = st"
proof (cases st)
  case (fields v0 v1 s)
  then show ?thesis by (simp add: enc_round_def dec_round_def Let_def)
qed

lemma dec_enc_rounds: "(dec_round k ^^ n) ((enc_round k ^^ n) st) = st"
proof (induction n arbitrary: st)
  case (Suc n)
  have "(dec_round k ^^ Suc n) ((enc_round k ^^ Suc n) st) =
      (dec_round k ^^ n) (dec_round k (enc_round k ((enc_round k ^^ n) st)))"
    by (simp add: funpow_swap1)
  with Suc show ?case by (simp add: dec_enc_round)
qed simp

text \<open>The sum a decryption starts from is the sum an encryption ends with.\<close>

lemma enc_rounds_sum: "snd (snd ((enc_round k ^^ n) (v0, v1, s))) = s - of_nat n * xtea_delta"
  by (induction n) (auto simp: enc_round_def Let_def algebra_simps split: prod.splits)

lemma final_sum: "0 - of_nat 32 * xtea_delta = 0xC6EF3720"
  by (simp add: xtea_delta_def)

lemma load_word_bytes [simp]: "load_word (le_bytes 4 (unat v)) = v"
  using unat_less_32 [of v] by (simp add: load_word_def)

lemma bytes_load_word: "length bs = 4 \<Longrightarrow> le_bytes 4 (unat (load_word bs)) = bs"
  using le_value_less [of bs] le_bytes_value [of bs 4] by (simp add: load_word_def unat_of_nat)

lemma length_blocks [simp]: "length (enc_block k bs) = 8" "length (dec_block k bs) = 8"
  by (simp_all add: enc_block_def dec_block_def split: prod.splits)

lemma dec_enc_block:
  assumes "length bs = 8"
  shows "dec_block k (enc_block k bs) = bs"
proof -
  let ?st = "(load_word (take 4 bs), load_word (drop 4 bs), 0 :: u32)"
  obtain v0 v1 s where e: "(enc_round k ^^ 32) ?st = (v0, v1, s)" by (metis prod_cases3)
  then have s: "s = 0xC6EF3720"
    using enc_rounds_sum [of 32 k "load_word (take 4 bs)" "load_word (drop 4 bs)" 0] final_sum by simp
  have "(dec_round k ^^ 32) (v0, v1, 0xC6EF3720) = ?st"
    using dec_enc_rounds [of 32 k ?st] by (simp only: e s)
  moreover have "enc_block k bs = le_bytes 4 (unat v0) @ le_bytes 4 (unat v1)"
    by (simp add: enc_block_def e)
  ultimately have "dec_block k (enc_block k bs) = take 4 bs @ drop 4 bs"
    using assms by (simp add: dec_block_def bytes_load_word)
  then show ?thesis by simp
qed

section \<open>Whole buffers\<close>

text \<open>The pure view: a block function mapped over a list of a multiple of eight bytes.\<close>

function map_blocks :: "(u8 list \<Rightarrow> u8 list) \<Rightarrow> u8 list \<Rightarrow> u8 list" where
  "map_blocks f bs = (if bs = [] then [] else f (take 8 bs) @ map_blocks f (drop 8 bs))"
  by pat_completeness auto
termination
  by (relation "measure (\<lambda>(f, bs). length bs)") auto

declare map_blocks.simps [simp del]

lemma map_blocks_Nil [simp]: "map_blocks f [] = []"
  by (simp add: map_blocks.simps)

lemma map_blocks_step:
  "length b = 8 \<Longrightarrow> map_blocks f (b @ bs) = f b @ map_blocks f bs"
  by (subst map_blocks.simps) auto

lemma map_blocks_split:
  assumes "8 dvd length bs" and "bs \<noteq> []"
  obtains b r where "bs = b @ r" "length b = 8" "8 dvd length r"
proof
  from assms have le: "8 \<le> length bs" by (simp add: dvd_imp_le)
  show "bs = take 8 bs @ drop 8 bs" by simp
  show "length (take 8 bs) = 8" using le by simp
  show "8 dvd length (drop 8 bs)" using assms(1) le by (simp add: dvd_diff_nat)
qed

lemma length_map_blocks:
  assumes "\<And>b. length (f b) = 8"
  shows "8 dvd length bs \<Longrightarrow> length (map_blocks f bs) = length bs"
proof (induction "length bs" arbitrary: bs rule: less_induct)
  case less
  show ?case
  proof (cases "bs = []")
    case False
    with less.prems obtain b r where b: "bs = b @ r" "length b = 8" "8 dvd length r"
      by (rule map_blocks_split)
    with less.hyps [of r] assms show ?thesis by (simp add: map_blocks_step)
  qed simp
qed

lemma map_blocks_inverse:
  assumes "\<And>b. length (f b) = 8" and "\<And>b. length b = 8 \<Longrightarrow> g (f b) = b"
  shows "8 dvd length bs \<Longrightarrow> map_blocks g (map_blocks f bs) = bs"
proof (induction "length bs" arbitrary: bs rule: less_induct)
  case less
  show ?case
  proof (cases "bs = []")
    case False
    with less.prems obtain b r where b: "bs = b @ r" "length b = 8" "8 dvd length r"
      by (rule map_blocks_split)
    with less.hyps [of r] assms show ?thesis by (simp add: map_blocks_step)
  qed simp
qed

text \<open>The loop in place is the pure view of the bytes it covers.\<close>

lemma xtea_loop_blocks:
  assumes len: "\<And>b. length (f b) = 8"
  shows "readPos \<le> n \<Longrightarrow> 8 dvd n - readPos \<Longrightarrow> start + n \<le> length buf \<Longrightarrow>
    xtea_loop f start readPos n buf =
      Some (write_at (start + readPos) (map_blocks f (read_at (start + readPos) (n - readPos) buf)) buf)"
proof (induction "n - readPos" arbitrary: readPos buf rule: less_induct)
  case less
  show ?case
  proof (cases "readPos < n")
    case False
    with less.prems(1) show ?thesis
      by (subst xtea_loop.simps) (simp add: read_at_def)
  next
    case True
    let ?p = "start + readPos" let ?m = "n - (readPos + 8)"
    let ?b = "read_at ?p 8 buf" let ?buf = "write_at ?p (f ?b) buf"
    from True less.prems(2) have ge: "readPos + 8 \<le> n"
      using dvd_imp_le [of 8 "n - readPos"] by simp
    have dvd: "8 dvd ?m"
      using less.prems(2) ge dvd_diff_nat [of 8 "n - readPos" 8] by simp
    have b: "length ?b = 8" using ge less.prems(3) by (simp add: length_read_at)
    have fit: "?p + length (f ?b) \<le> length buf" using ge less.prems(3) by (simp add: len)
    have split: "n - readPos = 8 + ?m" using ge by simp
    have "xtea_loop f start readPos n buf = xtea_loop f start (readPos + 8) n ?buf"
      using True ge less.prems(3) by (subst xtea_loop.simps) simp
    also have "\<dots> = Some (write_at (start + (readPos + 8))
        (map_blocks f (read_at (start + (readPos + 8)) ?m ?buf)) ?buf)"
      using less.hyps [of "readPos + 8" ?buf] ge dvd less.prems(3) fit True by simp
    also have "read_at (start + (readPos + 8)) ?m ?buf = read_at (?p + 8) ?m buf"
      using fit by (simp add: read_write_after len add.assoc)
    also have "write_at (start + (readPos + 8)) (map_blocks f (read_at (?p + 8) ?m buf)) ?buf =
        write_at ?p (f ?b @ map_blocks f (read_at (?p + 8) ?m buf)) buf"
      using write_write_append [of ?p "f ?b" "map_blocks f (read_at (?p + 8) ?m buf)" buf]
        length_map_blocks [OF len, of "read_at (?p + 8) ?m buf"] dvd ge less.prems(3)
      by (simp add: len length_read_at add.assoc)
    also have "f ?b @ map_blocks f (read_at (?p + 8) ?m buf) = map_blocks f (read_at ?p (n - readPos) buf)"
      unfolding split read_at_append using b by (simp add: map_blocks_step)
    finally show ?thesis .
  qed
qed

text \<open>Decrypting in place what was encrypted in place gives the buffer back.\<close>

lemma xtea_buffer_roundtrip:
  assumes "8 dvd n" and "start + n \<le> length buf"
  shows "\<exists>buf'. xtea_loop (enc_block k) start 0 n buf = Some buf' \<and> length buf' = length buf \<and>
    xtea_loop (dec_block k) start 0 n buf' = Some buf"
proof -
  let ?bs = "read_at start n buf" let ?e = "map_blocks (enc_block k) ?bs"
  let ?buf = "write_at start ?e buf"
  have bs: "length ?bs = n" using assms(2) by (rule length_read_at)
  have e: "length ?e = n"
    using length_map_blocks [of "enc_block k" ?bs] assms(1) bs by simp
  have "read_at start n ?buf = ?e"
    using read_write_same [of start buf ?e] assms(2) e by simp
  moreover have "map_blocks (dec_block k) ?e = ?bs"
    using assms(1) bs by (intro map_blocks_inverse) (simp_all add: dec_enc_block)
  moreover have "write_at start ?bs ?buf = buf"
    using assms(2) e bs write_read_same [of start n buf] by (simp add: write_at_again)
  ultimately show ?thesis
    using xtea_loop_blocks [of "enc_block k" 0 n start buf]
      xtea_loop_blocks [of "dec_block k" 0 n start ?buf] assms e by simp
qed

end
