(* ===== verification/Protocol.thy ===== *)
theory Protocol
  imports NetMessage Xtea
begin

text \<open>
  The wire format of protocol.cpp and the parts of connection.cpp that look into a packet: how
  an outgoing message gets its inner length, its padding, its cipher, its checksum and its
  length header, and how an incoming packet is checked and stripped of them.  \<open>frame\<close> says
  what the encoding is as a function of the payload; the lemmas refine the in-place code to it
  and show that the receiving side inverts it.
\<close>

section \<open>State\<close>

record Protocol =
  key :: xtea_key
  encryptionEnabled :: bool
  checksumEnabled :: bool
  rawMessages :: bool
  outputBuffer :: "OutMsg option"

definition new_protocol :: Protocol where
  "new_protocol = \<lparr>key = (0, 0, 0, 0), encryptionEnabled = False, checksumEnabled = True,
     rawMessages = False, outputBuffer = None\<rparr>"

definition enableXTEAEncryption :: "Protocol \<Rightarrow> Protocol" where
  "enableXTEAEncryption p = p\<lparr>encryptionEnabled := True\<rparr>"

definition setXTEAKey :: "xtea_key \<Rightarrow> Protocol \<Rightarrow> Protocol" where
  "setXTEAKey k p = p\<lparr>key := k\<rparr>"

definition disableChecksum :: "Protocol \<Rightarrow> Protocol" where
  "disableChecksum p = p\<lparr>checksumEnabled := False\<rparr>"

section \<open>Sending\<close>

definition XTEA_encrypt :: "Protocol \<Rightarrow> OutMsg \<Rightarrow> OutMsg option" where
  "XTEA_encrypt p m =
     (let paddingBytes = unat (info_length m) mod 8;
          m1 = (if paddingBytes \<noteq> 0 then addPaddingBytes (8 - paddingBytes) m else m)
      in case xtea_loop (enc_block (key p)) (unat (outputBufferStart m1)) 0 (unat (info_length m1)) (buffer m1) of
           None \<Rightarrow> None | Some buf \<Rightarrow> Some (m1\<lparr>buffer := buf\<rparr>))"

definition onSendMessage :: "Protocol \<Rightarrow> OutMsg \<Rightarrow> OutMsg option" where
  "onSendMessage p m =
     (if \<not> rawMessages p then
        (case writeMessageLength m of
           None \<Rightarrow> None
         | Some m1 \<Rightarrow>
             if encryptionEnabled p then
               (case XTEA_encrypt p m1 of
                  None \<Rightarrow> None
                | Some m2 \<Rightarrow> addCryptoHeader (checksumEnabled p) m2)
             else Some m1)
      else Some m)"

section \<open>Receiving\<close>

text \<open>The length of the enciphered part is a \<open>size_t\<close>: of a negative difference it is huge.\<close>

definition XTEA_decrypt :: "Protocol \<Rightarrow> 'a NetMsg_scheme \<Rightarrow> (bool \<times> 'a NetMsg_scheme) option" where
  "XTEA_decrypt p m =
     (if (uint (info_length m) - 6) AND 7 \<noteq> 0 then Some (False, m)
      else
        let messageLength = nat ((uint (info_length m) - 6) mod 2 ^ 64)
        in case xtea_loop (dec_block (key p)) (unat (info_position m)) 0 messageLength (buffer m) of
             None \<Rightarrow> None
           | Some buf \<Rightarrow>
               (case get_u16 (m\<lparr>buffer := buf\<rparr>) of (innerLength, m1) \<Rightarrow>
                  if uint innerLength > uint (info_length m1) - 8 then Some (False, m1)
                  else Some (True, setLength innerLength m1)))"

text \<open>The check of the length header in \<open>Connection::parseHeader\<close>.\<close>

definition size_ok :: "u16 \<Rightarrow> bool" where
  "size_ok sz = (\<not> (sz = 0 \<or> unat sz \<ge> NETWORKMESSAGE_MAXSIZE - 16))"

text \<open>\<open>Connection::parseHeader\<close> from the length on, and the arrival of the bytes it asks for.\<close>

definition expect_body :: "u16 \<Rightarrow> NetMsg \<Rightarrow> NetMsg" where
  "expect_body sz m = snd (getBodyBuffer (setLength (sz + of_nat HEADER_LENGTH) m))"

definition bytes_arrive :: "nat \<Rightarrow> u8 list \<Rightarrow> NetMsg \<Rightarrow> NetMsg" where
  "bytes_arrive p bs m = m\<lparr>buffer := write_at p bs (buffer m)\<rparr>"

text \<open>The checksum of \<open>Connection::parsePacket\<close>: whether it matched, and the message behind it.\<close>

definition parse_checksum :: "NetMsg \<Rightarrow> bool \<times> NetMsg" where
  "parse_checksum m =
     (let len = uint (info_length m) - uint (info_position m) - int CHECKSUM_LENGTH;
          checksum = (if len > 0 then adlerChecksum (read_at (unat (info_position m) + CHECKSUM_LENGTH) (nat len) (buffer m))
                      else 0)
      in case get_u32 m of (recvChecksum, m1) \<Rightarrow>
           if recvChecksum \<noteq> checksum then (False, skipBytes (- of_nat CHECKSUM_LENGTH) m1) else (True, m1))"

section \<open>The format\<close>

definition padding :: "nat \<Rightarrow> nat" where
  "padding n = (8 - n mod 8) mod 8"

definition plain_part :: "u8 list \<Rightarrow> u8 list" where
  "plain_part B = le_bytes 2 (length B) @ B @ replicate (padding (length B + 2)) 0x33"

definition cipher_part :: "xtea_key \<Rightarrow> u8 list \<Rightarrow> u8 list" where
  "cipher_part k B = map_blocks (enc_block k) (plain_part B)"

definition frame :: "xtea_key \<Rightarrow> u8 list \<Rightarrow> u8 list" where
  "frame k B =
     le_bytes 2 (length (cipher_part k B) + 4) @ le_bytes 4 (unat (adlerChecksum (cipher_part k B))) @ cipher_part k B"

lemma padding_dvd: "8 dvd n + padding n"
proof -
  have "(n + padding n) mod 8 = (n mod 8 + (8 - n mod 8)) mod 8"
    unfolding padding_def by (simp only: mod_add_right_eq mod_add_left_eq)
  also have "n mod 8 + (8 - n mod 8) = 8" by simp
  finally show ?thesis by (simp add: mod_eq_0_iff_dvd)
qed

lemma padding_less: "padding n < 8"
  by (simp add: padding_def)

lemma padding_bound: "n \<le> 24568 \<Longrightarrow> n + padding n \<le> 24568"
proof -
  assume n: "n \<le> 24568"
  obtain q where "n + padding n = 8 * q" using padding_dvd [of n] by (auto simp: dvd_def)
  moreover from this n padding_less [of n] have "q \<le> 3071" by simp
  ultimately show ?thesis by simp
qed

lemma length_plain_part: "length (plain_part B) = length B + 2 + padding (length B + 2)"
  by (simp add: plain_part_def)

lemma dvd_plain_part: "8 dvd length (plain_part B)"
  by (simp only: length_plain_part padding_dvd)

lemma length_cipher_part: "length (cipher_part k B) = length (plain_part B)"
  by (simp add: cipher_part_def length_map_blocks dvd_plain_part)

lemma length_plain_bound: "length B \<le> 24566 \<Longrightarrow> length (plain_part B) \<le> 24568"
  using padding_bound [of "length B + 2"] by (simp add: length_plain_part)

lemma decipher: "map_blocks (dec_block k) (cipher_part k B) = plain_part B"
  unfolding cipher_part_def
  by (intro map_blocks_inverse) (simp_all add: dec_enc_block dvd_plain_part)

section \<open>The sender\<close>

lemma add_header_at:
  assumes "unat (outputBufferStart m) = s" and "n \<le> s" and "unat (info_length m) + n < 65536"
  shows "\<exists>m'. add_header n v m = Some m' \<and> unat (outputBufferStart m') = s - n \<and>
    unat (info_length m') = unat (info_length m) + n \<and> info_position m' = info_position m \<and>
    buffer m' = write_at (s - n) (le_bytes n v) (buffer m)"
proof -
  have le: "of_nat n \<le> outputBufferStart m"
    using assms(1,2) by (simp add: word_le_nat_alt unat_of_nat order.trans [OF mod_less_eq_dividend])
  have "s < 65536" using assms(1) unat_less_16 [of "outputBufferStart m"] by simp
  then have "unat (of_nat n :: u16) = n" using assms(2) by (simp add: unat_of_nat)
  with le have "unat (outputBufferStart m - of_nat n) = s - n"
    using assms(1) by (simp add: unat_sub)
  with assms show ?thesis by (simp add: add_header_def unat_add_u16)
qed

lemma read_at_prefix:
  "read_at s (length xs) buf = xs \<Longrightarrow> read_at (s + length xs) n buf = ys \<Longrightarrow>
     read_at s (length xs + n) buf = xs @ ys"
  by (simp add: read_at_append)

text \<open>A header in front of what the message shows already.\<close>

lemma outputBytes_header:
  assumes "unat (outputBufferStart m) = s" and "n \<le> s" and "unat (info_length m) + n < 65536"
    and "s \<le> length (buffer m)" and "add_header n v m = Some m'"
  shows "outputBytes m' = le_bytes n v @ outputBytes m"
proof -
  from add_header_at [OF assms(1-3), of v] assms(5)
  have m': "unat (outputBufferStart m') = s - n" "unat (info_length m') = unat (info_length m) + n"
    "buffer m' = write_at (s - n) (le_bytes n v) (buffer m)" by auto
  have "read_at (s - n) n (buffer m') = le_bytes n v"
    using read_write_same [of "s - n" "buffer m" "le_bytes n v"] assms(2,4) m'(3) by simp
  moreover have "read_at (s - n + n) (unat (info_length m)) (buffer m') = outputBytes m"
    using read_write_after [of "s - n" "le_bytes n v" s "buffer m"] assms(1,2,4) m'(3)
    by (simp add: outputBytes_def)
  ultimately show ?thesis
    using m' by (simp add: outputBytes_def add.commute [of _ n] read_at_append)
qed

text \<open>A message ready to be sent: the writers' invariant, no header yet, and a body that the
  protocols keep within \<open>MAX_PROTOCOL_BODY_LENGTH\<close>.\<close>

definition ready :: "OutMsg \<Rightarrow> bool" where
  [inv_defs]: "ready m =
     (write_inv m \<and> outputBufferStart m = INITIAL_BUFFER_POSITION \<and>
      unat (info_length m) \<le> MAX_PROTOCOL_BODY_LENGTH)"

lemma length_body: "write_inv m \<Longrightarrow> length (body m) = unat (info_length m)"
  by (simp add: body_def write_inv_def sizes length_read_at)

lemma writeMessageLength_ready:
  assumes "ready m"
  obtains m1 where "writeMessageLength m = Some m1" and "unat (outputBufferStart m1) = 6"
    and "unat (info_length m1) = length (body m) + 2" and "info_position m1 = info_position m"
    and "length (buffer m1) = 24590"
    and "read_at 6 (length (body m) + 2) (buffer m1) = le_bytes 2 (length (body m)) @ body m"
proof -
  have s: "unat (outputBufferStart m) = 8"
    and l: "unat (info_length m) + 2 < 65536" and b: "length (buffer m) = 24590"
    using assms by (simp_all add: ready_def write_inv_def INITIAL_BUFFER_POSITION_def sizes)
  obtain m1 where a: "writeMessageLength m = Some m1" "unat (outputBufferStart m1) = 6"
      "unat (info_length m1) = unat (info_length m) + 2" "info_position m1 = info_position m"
      "buffer m1 = write_at 6 (le_bytes 2 (unat (info_length m))) (buffer m)"
    using add_header_at [OF s _ l, of "unat (info_length m)"] by (auto simp: writeMessageLength_def)
  have "outputBytes m1 = le_bytes 2 (unat (info_length m)) @ outputBytes m"
    using a(1) by (intro outputBytes_header [OF s _ l]) (simp_all add: b writeMessageLength_def)
  moreover have "outputBytes m = body m" by (simp add: outputBytes_def body_def s)
  moreover have "length (body m) = unat (info_length m)"
    using assms by (simp add: ready_def length_body)
  ultimately show ?thesis
    using a b by (intro that [of m1]) (simp_all add: outputBytes_def)
qed

text \<open>The padding always fits, because of the ten bytes that \<open>MAX_PROTOCOL_BODY_LENGTH\<close> leaves.\<close>

lemma padding_step:
  assumes "unat (info_length m) = n + 2" and "unat (info_position m) = n + 8" and "n \<le> 24566"
    and "length (buffer m) = 24590" and "unat (outputBufferStart m) = 6"
  defines "m1 \<equiv> (if unat (info_length m) mod 8 \<noteq> 0 then addPaddingBytes (8 - unat (info_length m) mod 8) m else m)"
  shows "unat (info_length m1) = n + 2 + padding (n + 2)" and "length (buffer m1) = 24590"
    and "outputBufferStart m1 = outputBufferStart m"
    and "read_at 6 (n + 2 + padding (n + 2)) (buffer m1) =
           read_at 6 (n + 2) (buffer m) @ replicate (padding (n + 2)) 0x33"
proof -
  let ?k = "padding (n + 2)"
  have pb: "n + 2 + ?k \<le> 24568" using padding_bound [of "n + 2"] assms(3) by simp
  show "outputBufferStart m1 = outputBufferStart m" by (simp add: m1_def addPaddingBytes_def)
  have all: "unat (info_length m1) = n + 2 + ?k \<and> length (buffer m1) = 24590 \<and>
      read_at 6 (n + 2 + ?k) (buffer m1) = read_at 6 (n + 2) (buffer m) @ replicate ?k 0x33"
  proof (cases "(n + 2) mod 8 = 0")
    case True
    then have "?k = 0" by (simp add: padding_def)
    with True assms show ?thesis by (simp add: m1_def)
  next
    case False
    have k: "8 - (n + 2) mod 8 = ?k" using False by (simp add: padding_def)
    have "canAdd ?k m" using pb assms(2) by (simp add: canAdd_def sizes)
    then have e: "m1 = m\<lparr>buffer := write_at (n + 8) (replicate ?k 0x33) (buffer m),
        info_length := info_length m + of_nat ?k\<rparr>"
      using False k assms(1,2) by (simp add: m1_def addPaddingBytes_def)
    moreover have "unat (info_length m + of_nat ?k) = n + 2 + ?k"
      using unat_add_u16 [of "info_length m" ?k] pb assms(1) by simp
    moreover have "read_at 6 (n + 2 + ?k) (write_at (n + 8) (replicate ?k 0x33) (buffer m)) =
        read_at 6 (n + 2) (buffer m) @ replicate ?k 0x33"
    proof -
      have d: "n + 8 - 6 = n + 2" by simp
      show ?thesis
        using read_write_extend [of 6 "n + 8" "buffer m" "replicate ?k 0x33"] assms(3,4)
        unfolding d length_replicate by simp
    qed
    ultimately show ?thesis using pb assms(4) by simp
  qed
  then show "unat (info_length m1) = n + 2 + ?k" and "length (buffer m1) = 24590"
    and "read_at 6 (n + 2 + ?k) (buffer m1) = read_at 6 (n + 2) (buffer m) @ replicate ?k 0x33"
    by simp_all
qed

lemma XTEA_encrypt_ready:
  assumes "unat (info_length m) = length B + 2" and "unat (info_position m) = length B + 8"
    and "length B \<le> 24566" and "length (buffer m) = 24590" and s: "unat (outputBufferStart m) = 6"
    and "read_at 6 (length B + 2) (buffer m) = le_bytes 2 (length B) @ B"
  obtains m' where "XTEA_encrypt p m = Some m'" and "unat (outputBufferStart m') = 6"
    and "unat (info_length m') = length (plain_part B)" and "length (buffer m') = 24590"
    and "outputBytes m' = cipher_part (key p) B"
proof -
  define m1 where
    "m1 = (if unat (info_length m) mod 8 \<noteq> 0 then addPaddingBytes (8 - unat (info_length m) mod 8) m else m)"
  note pad = padding_step [OF assms(1-4) s, folded m1_def]
  let ?n = "length (plain_part B)"
  have n: "unat (info_length m1) = ?n" using pad(1) by (simp add: length_plain_part)
  have pt: "read_at 6 ?n (buffer m1) = plain_part B"
    using pad(4) assms(6) by (simp add: length_plain_part plain_part_def)
  have fit: "6 + ?n \<le> length (buffer m1)"
    using length_plain_bound [OF assms(3)] pad(2) by simp
  have loop: "xtea_loop (enc_block (key p)) 6 0 ?n (buffer m1) =
      Some (write_at 6 (cipher_part (key p) B) (buffer m1))"
    using xtea_loop_blocks [of "enc_block (key p)" 0 ?n 6 "buffer m1"] dvd_plain_part [of B] fit
    by (simp add: pt cipher_part_def)
  let ?m' = "m1\<lparr>buffer := write_at 6 (cipher_part (key p) B) (buffer m1)\<rparr>"
  have "XTEA_encrypt p m = Some ?m'"
    unfolding XTEA_encrypt_def Let_def m1_def [symmetric] using loop s pad(3) n by simp
  moreover have "outputBytes ?m' = cipher_part (key p) B"
    using read_write_same [of 6 "buffer m1" "cipher_part (key p) B"] fit s pad(3) n
    by (simp add: outputBytes_def length_cipher_part)
  ultimately show ?thesis
    using s pad(2,3) n fit by (intro that [of ?m']) (simp_all add: length_cipher_part)
qed

lemma onSendMessage_frame_facts:
  assumes "ready m" and "\<not> rawMessages p" and "encryptionEnabled p" and "checksumEnabled p"
  shows "\<exists>m'. onSendMessage p m = Some m' \<and> outputBytes m' = frame (key p) (body m)"
proof -
  let ?B = "body m" let ?c = "cipher_part (key p) ?B"
  have B: "length ?B = unat (info_length m)" "length ?B \<le> 24566"
    using assms(1) by (simp_all add: ready_def length_body sizes)
  obtain m1 where m1: "writeMessageLength m = Some m1" "unat (outputBufferStart m1) = 6"
      "unat (info_length m1) = length ?B + 2" "info_position m1 = info_position m"
      "length (buffer m1) = 24590" "read_at 6 (length ?B + 2) (buffer m1) = le_bytes 2 (length ?B) @ ?B"
    using writeMessageLength_ready [OF assms(1)] by blast
  have "unat (info_position m1) = length ?B + 8"
    using m1(4) assms(1) B(1) by (simp add: ready_def write_inv_def)
  then obtain m2 where m2: "XTEA_encrypt p m1 = Some m2" "unat (outputBufferStart m2) = 6"
      "unat (info_length m2) = length (plain_part ?B)" "length (buffer m2) = 24590"
      "outputBytes m2 = ?c"
    using XTEA_encrypt_ready [OF m1(3) _ B(2) m1(5,2,6)] by blast
  have small: "length (plain_part ?B) \<le> 24568" using B(2) by (rule length_plain_bound)
  have f2: "unat (info_length m2) + 4 < 65536" using small m2(3) by simp
  obtain m3 where m3: "add_header 4 (unat (adlerChecksum (outputBytes m2))) m2 = Some m3"
      "unat (outputBufferStart m3) = 2" "unat (info_length m3) = length (plain_part ?B) + 4"
      "buffer m3 = write_at 2 (le_bytes 4 (unat (adlerChecksum ?c))) (buffer m2)"
    using add_header_at [OF m2(2) _ f2, of "unat (adlerChecksum (outputBytes m2))"] m2(3,5) by auto
  have o3: "outputBytes m3 = le_bytes 4 (unat (adlerChecksum ?c)) @ ?c"
    using outputBytes_header [OF m2(2) _ f2 _ m3(1)] m2(4,5) by simp
  have f3: "unat (info_length m3) + 2 < 65536" using small m3(3) by simp
  obtain m4 where m4: "add_header 2 (unat (info_length m3)) m3 = Some m4"
    using add_header_at [OF m3(2) _ f3, of "unat (info_length m3)"] by auto
  have "outputBytes m4 = le_bytes 2 (unat (info_length m3)) @ outputBytes m3"
    using outputBytes_header [OF m3(2) _ f3 _ m4] m3(4) m2(4) by simp
  then have "outputBytes m4 = frame (key p) ?B"
    using o3 m3(3) by (simp add: frame_def length_cipher_part)
  moreover have "onSendMessage p m = Some m4"
    using assms(2-4) m1(1) m2(1) m3(1) m4
    by (simp add: onSendMessage_def addCryptoHeader_def writeMessageLength_def)
  ultimately show ?thesis by blast
qed

text \<open>C7: sending a message over an enciphered connection puts exactly one frame of its payload on
  the wire: the length of the rest, the Adler checksum of the enciphered part, and the XTEA
  image of inner length, payload and padding; the code never leaves the buffer, as the protocols
  keep payloads within \<open>MAX_PROTOCOL_BODY_LENGTH\<close>.\<close>

theorem onSendMessage_refines_frame:
  assumes "ready m" and "\<not> rawMessages p" and "encryptionEnabled p" and "checksumEnabled p"
  shows "\<exists>m'. onSendMessage p m = Some m' \<and> outputBytes m' = frame (key p) (body m)"
  using assms by (rule onSendMessage_frame_facts)

definition crypto_protocol :: "xtea_key \<Rightarrow> Protocol" where
  "crypto_protocol k = enableXTEAEncryption (setXTEAKey k new_protocol)"

lemma crypto_protocol_simps [simp]:
  "key (crypto_protocol k) = k" "encryptionEnabled (crypto_protocol k)"
  "checksumEnabled (crypto_protocol k)" "\<not> rawMessages (crypto_protocol k)"
  by (simp_all add: crypto_protocol_def enableXTEAEncryption_def setXTEAKey_def new_protocol_def)

definition pong :: OutMsg where
  "pong = addByte 0x1E (new_output (replicate NETWORKMESSAGE_MAXSIZE 0))"

lemma pong_ready: "ready pong"
proof -
  let ?m = "new_output (replicate NETWORKMESSAGE_MAXSIZE 0)"
  have i: "write_inv ?m" by (simp add: write_inv_new_output)
  have c: "canAdd 1 ?m" by (simp add: canAdd_def new_output_def INITIAL_BUFFER_POSITION_def sizes)
  then have "pong = put_bytes [0x1E] ?m" by (simp add: pong_def addByte_def)
  moreover have "write_inv (put_bytes [0x1E] ?m)" using put_bytes_keeps(1) [OF i, of "[0x1E]"] c by simp
  moreover have "unat (info_length (put_bytes [0x1E] ?m)) \<le> MAX_PROTOCOL_BODY_LENGTH"
    and "outputBufferStart (put_bytes [0x1E] ?m) = INITIAL_BUFFER_POSITION"
    by (simp_all add: put_bytes_def new_output_def sizes)
  ultimately show ?thesis by (simp add: ready_def)
qed

lemma onSendMessage_refines_frame_witness:
  "\<exists>m'. onSendMessage (crypto_protocol (1, 2, 3, 4)) pong = Some m' \<and>
     outputBytes m' = frame (1, 2, 3, 4) (body pong)"
  using onSendMessage_refines_frame [of pong "crypto_protocol (1, 2, 3, 4)"] pong_ready by simp

section \<open>The receiver\<close>

lemma ucast_or_push: "(ucast (a :: u8) :: u16) OR push_bit 8 (ucast (b :: u8)) = ucast a + push_bit 8 (ucast b)"
proof (rule disjunctive_add_eq_or [symmetric])
  show "(ucast a :: u16) AND push_bit 8 (ucast b) = 0"
    by (rule bit_eqI) (auto simp: bit_simps dest: bit_imp_le_length)
qed

lemma unat_header: "unat ((ucast (a :: u8) :: u16) OR push_bit 8 (ucast (b :: u8))) = le_value [a, b]"
proof -
  have a: "unat a < 256" and b: "unat b < 256"
    using unsigned_less [of a, where 'a = nat] unsigned_less [of b, where 'a = nat] by simp_all
  have "unat (push_bit 8 (ucast b) :: u16) = 256 * unat b"
    using b by (simp add: push_bit_eq_mult unat_word_ariths unsigned_ucast_eq take_bit_nat_eq_self)
  then show ?thesis
    using a b unfolding ucast_or_push
    by (simp add: unat_word_ariths unsigned_ucast_eq take_bit_nat_eq_self)
qed

lemma getLengthHeader_at:
  assumes "read_at 0 2 (buffer m) = le_bytes 2 n" and "n < 65536"
  shows "unat (getLengthHeader m) = n"
proof -
  have t: "take 2 (buffer m) = le_bytes 2 n" using assms(1) by (simp add: read_at_def)
  then have "length (take 2 (buffer m)) = 2" by simp
  then have l: "2 \<le> length (buffer m)" by simp
  have "take 2 (buffer m) = [buffer m ! 0, buffer m ! 1]"
    using l by (cases "buffer m"; cases "tl (buffer m)") auto
  moreover have "le_value (le_bytes 2 n) = n" using assms(2) by (simp only: le_value_bytes) simp
  ultimately have "le_value [buffer m ! 0, buffer m ! 1] = n" using t by simp
  then show ?thesis by (simp only: getLengthHeader_def unat_header)
qed

lemma length_frame: "length (frame k B) = length (plain_part B) + 6"
  by (simp add: frame_def length_cipher_part)

lemma take_frame: "take 2 (frame k B) = le_bytes 2 (length (plain_part B) + 4)"
  by (simp add: frame_def length_cipher_part)

lemma drop_frame:
  "drop 2 (frame k B) = le_bytes 4 (unat (adlerChecksum (cipher_part k B))) @ cipher_part k B"
  by (simp add: frame_def)

text \<open>The length header announces the rest of the frame.\<close>

lemma header_arrives:
  fixes k :: xtea_key
  assumes "length B \<le> 24566" and "length (buffer r) = 24590"
  defines "sz \<equiv> getLengthHeader (bytes_arrive 0 (take 2 (frame k B)) r)"
  shows "unat sz = length (plain_part B) + 4" and "size_ok sz"
proof -
  have n: "length (plain_part B) + 4 \<le> 24572" using length_plain_bound [OF assms(1)] by simp
  show u: "unat sz = length (plain_part B) + 4"
    unfolding sz_def
  proof (rule getLengthHeader_at)
    show "read_at 0 2 (buffer (bytes_arrive 0 (take 2 (frame k B)) r)) = le_bytes 2 (length (plain_part B) + 4)"
      using read_write_same [of 0 "buffer r" "take 2 (frame k B)"]
      by (simp add: bytes_arrive_def take_frame)
  qed (use n in simp)
  have "sz \<noteq> 0" using u by auto
  with u n show "size_ok sz" by (simp add: size_ok_def sizes)
qed

text \<open>The rest of the frame arrives behind it, and its checksum matches.\<close>

lemma body_arrives:
  fixes k :: xtea_key
  assumes "length B \<le> 24566" and "length (buffer r) = 24590" and "unat sz = length (plain_part B) + 4"
  defines "m \<equiv> bytes_arrive 2 (drop 2 (frame k B)) (expect_body sz r)"
  shows "\<exists>m'. parse_checksum m = (True, m') \<and> unat (info_length m') = length (plain_part B) + 6 \<and>
    unat (info_position m') = 6 \<and> length (buffer m') = 24590 \<and>
    read_at 6 (length (plain_part B)) (buffer m') = cipher_part k B"
proof -
  let ?n = "length (plain_part B)" let ?c = "cipher_part k B"
  let ?sum = "adlerChecksum ?c"
  have n: "?n + 4 \<le> 24572" using length_plain_bound [OF assms(1)] by simp
  have len: "unat (info_length m) = ?n + 6"
    using unat_add_u16 [of sz 2] n assms(3)
    by (simp add: m_def bytes_arrive_def expect_body_def getBodyBuffer_def setLength_def HEADER_LENGTH_def)
  have pos: "unat (info_position m) = 2"
    by (simp add: m_def bytes_arrive_def expect_body_def getBodyBuffer_def)
  have buf: "buffer m = write_at 2 (le_bytes 4 (unat ?sum) @ ?c) (buffer r)"
    by (simp add: m_def bytes_arrive_def expect_body_def getBodyBuffer_def setLength_def drop_frame)
  have lc: "length ?c = ?n" by (rule length_cipher_part)
  have all: "read_at 2 (4 + ?n) (buffer m) = le_bytes 4 (unat ?sum) @ ?c"
    using read_write_same [of 2 "buffer r" "le_bytes 4 (unat ?sum) @ ?c"] assms(2) buf lc by simp
  have split: "read_at 2 4 (buffer m) @ read_at 6 ?n (buffer m) = le_bytes 4 (unat ?sum) @ ?c"
    using all read_at_append [of 2 4 ?n "buffer m"] by simp
  have blen: "length (buffer m) = 24590" using buf assms(2) n lc by simp
  then have "length (read_at 2 4 (buffer m)) = 4" by (simp add: length_read_at)
  with split have sum: "read_at 2 4 (buffer m) = le_bytes 4 (unat ?sum)"
    and ct: "read_at 6 ?n (buffer m) = ?c" by simp_all
  have "at_bytes (le_bytes 4 (unat ?sum)) m"
    using sum pos len by (simp add: at_bytes_def sizes)
  then have g: "get_u32 m = (?sum, advance 4 m)" by (rule get_u32_at)
  have adv: "unat (info_position (advance 4 m)) = 6"
    using unat_advance [of m 4] pos by (simp add: sizes)
  have ilen: "uint (info_length m) - uint (info_position m) - int CHECKSUM_LENGTH = int ?n"
    unfolding uint_nat len pos by (simp add: CHECKSUM_LENGTH_def)
  have "0 < ?n" by (simp add: length_plain_part)
  then have "parse_checksum m = (True, advance 4 m)"
    unfolding parse_checksum_def Let_def ilen g using ct pos by (simp add: CHECKSUM_LENGTH_def)
  with len adv blen ct show ?thesis by simp
qed

lemma and_7_int: "8 dvd n \<Longrightarrow> int n AND 7 = 0"
  using take_bit_eq_mask [of 3 "int n"] by (auto simp: mask_eq_exp_minus_1 take_bit_eq_mod dvd_eq_mod_eq_0 zmod_int [symmetric])

lemma XTEA_decrypt_frame:
  assumes "length B \<le> 24566" and "unat (info_length m) = length (plain_part B) + 6"
    and pos: "unat (info_position m) = 6" and "length (buffer m) = 24590"
    and ct: "read_at 6 (length (plain_part B)) (buffer m) = cipher_part (key p) B"
  shows "\<exists>m'. XTEA_decrypt p m = Some (True, m') \<and> unat (info_length m') = length B \<and>
    info_position m' = INITIAL_BUFFER_POSITION \<and> length (buffer m') = 24590 \<and> body m' = B"
proof -
  let ?n = "length (plain_part B)"
  have n: "?n \<le> 24568" using assms(1) by (rule length_plain_bound)
  have ilen: "uint (info_length m) - 6 = int ?n" unfolding uint_nat assms(2) by simp
  have mlen: "nat (int ?n mod 2 ^ 64) = ?n" using n by simp
  let ?buf = "write_at 6 (plain_part B) (buffer m)" let ?m = "m\<lparr>buffer := ?buf\<rparr>"
  have loop: "xtea_loop (dec_block (key p)) 6 0 ?n (buffer m) = Some ?buf"
    using xtea_loop_blocks [of "dec_block (key p)" 0 ?n 6 "buffer m"] dvd_plain_part [of B] n assms(4)
    by (simp add: ct decipher)
  have "read_at 6 ?n ?buf = plain_part B"
    using read_write_same [of 6 "buffer m" "plain_part B"] n assms(4) by simp
  then have "read_at 6 (2 + (length B + padding (length B + 2))) ?buf = plain_part B"
    by (simp add: length_plain_part add.commute add.left_commute)
  then have r: "read_at 6 2 ?buf @ read_at 8 (length B + padding (length B + 2)) ?buf = plain_part B"
    using read_at_append [of 6 2 "length B + padding (length B + 2)" ?buf] by simp
  have bl: "length ?buf = 24590" using n assms(4) by simp
  then have "length (read_at 6 2 ?buf) = 2" by (simp add: length_read_at)
  with r have inner: "read_at 6 2 ?buf = le_bytes 2 (length B)"
    and rest: "read_at 8 (length B + padding (length B + 2)) ?buf = B @ replicate (padding (length B + 2)) 0x33"
    by (simp_all add: plain_part_def)
  from rest bl assms(1) have B: "read_at 8 (length B) ?buf = B"
    using read_at_append [of 8 "length B" "padding (length B + 2)" ?buf]
      length_read_at [of 8 "length B" ?buf] by simp
  let ?w = "of_nat (length B) :: u16"
  have w: "unat ?w = length B" using assms(1) by (simp add: unat_of_nat)
  have "at_bytes (le_bytes 2 (unat ?w)) ?m"
    using inner pos assms(2) unfolding w by (simp add: at_bytes_def sizes)
  then have g: "get_u16 ?m = (?w, advance 2 ?m)" by (rule get_u16_at)
  have "unat (info_position (advance 2 ?m)) = 8"
    using unat_advance [of ?m 2] pos by (simp add: sizes)
  then have p8: "info_position (advance 2 ?m) = INITIAL_BUFFER_POSITION"
    by (simp add: INITIAL_BUFFER_POSITION_def word_unat_eq_iff)
  have ok: "\<not> uint ?w > uint (info_length (advance 2 ?m)) - 8"
    unfolding uint_nat w using assms(2) by (simp add: length_plain_part)
  have "XTEA_decrypt p m = Some (True, setLength ?w (advance 2 ?m))"
    unfolding XTEA_decrypt_def Let_def ilen mlen
    using and_7_int [OF dvd_plain_part] loop g ok pos by simp
  moreover have "info_position (setLength ?w (advance 2 ?m)) = INITIAL_BUFFER_POSITION"
    using p8 by (simp add: setLength_def)
  moreover have "body (setLength ?w (advance 2 ?m)) = B"
    using B w by (simp add: body_def setLength_def)
  ultimately show ?thesis using w bl by (simp add: setLength_def)
qed

end
