(* ===== verification/Connection.thy ===== *)
theory Connection
  imports Protocol "HOL-Library.Sublist"
begin

text \<open>
  A client connection: connection.h, connection.cpp and the choice of the protocol in server.cpp.
  Each completion handler of the code is a function on the connection; what it asks of the
  network library and of the dispatcher is appended to \<open>events\<close>.  \<open>throws\<close> says whether the
  library call inside the try block throws, \<open>now\<close> is the clock.  A null protocol or a pop from
  an empty queue is None.  What a derived protocol does with a packet (a virtual call) is a
  parameter.
\<close>

section \<open>Services\<close>

record Service =
  is_single_socket :: bool
  is_checksummed :: bool
  protocol_identifier :: u8

definition add_service :: "Service \<Rightarrow> Service list \<Rightarrow> bool \<times> Service list" where
  "add_service new_svc services =
     (if list_ex is_single_socket services then (False, services) else (True, services @ [new_svc]))"

definition port_is_single_socket :: "Service list \<Rightarrow> bool" where
  "port_is_single_socket services = (services \<noteq> [] \<and> is_single_socket (hd services))"

fun select_service :: "u8 \<Rightarrow> bool \<Rightarrow> Service list \<Rightarrow> Service option" where
  "select_service protocolID checksummed [] = None"
| "select_service protocolID checksummed (service # services) =
     (if protocolID \<noteq> protocol_identifier service then select_service protocolID checksummed services
      else if (checksummed \<and> is_checksummed service) \<or> \<not> is_checksummed service then Some service
      else select_service protocolID checksummed services)"

definition make_protocol :: "Service list \<Rightarrow> bool \<Rightarrow> NetMsg \<Rightarrow> Service option \<times> NetMsg" where
  "make_protocol services checksummed m =
     (case getByte m of (protocolID, m') \<Rightarrow> (select_service protocolID checksummed services, m'))"

section \<open>State\<close>

datatype conn_event =
    ReleaseProtocol
  | CloseSocket
  | AsyncReadHeader
  | AsyncReadBody nat nat
  | AsyncWrite OutMsg "u8 list"
  | FirstMessage NetMsg
  | RecvMessage NetMsg

record Connection =
  conn_msg :: NetMsg
  messageQueue :: "OutMsg list"
  conn_open :: bool
  receivedFirst :: bool
  packetsSent :: u32
  timeConnected :: int
  socket_open :: bool
  conn_protocol :: "Protocol option"
  services :: "Service list"
  managed :: bool
  events :: "conn_event list"

text \<open>\<open>createConnection\<close>: the connection is in the manager's set.\<close>

definition createConnection :: "int \<Rightarrow> u8 list \<Rightarrow> Service list \<Rightarrow> Connection" where
  "createConnection now mem svcs =
     \<lparr>conn_msg = new_message mem, messageQueue = [], conn_open = True, receivedFirst = False, packetsSent = 0,
      timeConnected = now, socket_open = True, conn_protocol = None, services = svcs, managed = True, events = []\<rparr>"

definition emit :: "conn_event \<Rightarrow> Connection \<Rightarrow> Connection" where
  "emit e c = c\<lparr>events := events c @ [e]\<rparr>"

section \<open>Closing\<close>

definition closeSocket :: "Connection \<Rightarrow> Connection" where
  "closeSocket c = (if socket_open c then emit CloseSocket (c\<lparr>socket_open := False\<rparr>) else c)"

definition close :: "bool \<Rightarrow> Connection \<Rightarrow> Connection" where
  "close force c =
     (let c1 = c\<lparr>managed := False\<rparr> in
      if \<not> conn_open c1 then c1
      else
        let c2 = c1\<lparr>conn_open := False\<rparr>;
            c3 = (if conn_protocol c2 \<noteq> None then emit ReleaseProtocol c2 else c2)
        in if messageQueue c3 = [] \<or> force then closeSocket c3 else c3)"

definition handleTimeout :: "bool \<Rightarrow> Connection \<Rightarrow> Connection" where
  "handleTimeout aborted c = (if aborted then c else close True c)"

section \<open>Sending\<close>

text \<open>The message at the head of the queue is the object that gets its headers in place.\<close>

definition internalSend :: "bool \<Rightarrow> OutMsg \<Rightarrow> Connection \<Rightarrow> Connection option" where
  "internalSend throws m c =
     (case conn_protocol c of
        None \<Rightarrow> None
      | Some p \<Rightarrow>
          (case onSendMessage p m of
             None \<Rightarrow> None
           | Some m' \<Rightarrow>
               let c1 = c\<lparr>messageQueue := m' # tl (messageQueue c)\<rparr> in
               Some (if throws then close True c1 else emit (AsyncWrite m (outputBytes m')) c1)))"

definition conn_send :: "bool \<Rightarrow> OutMsg \<Rightarrow> Connection \<Rightarrow> Connection option" where
  "conn_send throws m c =
     (if \<not> conn_open c then Some c
      else
        let noPendingWrite = (messageQueue c = []);
            c1 = c\<lparr>messageQueue := messageQueue c @ [m]\<rparr>
        in if noPendingWrite then internalSend throws m c1 else Some c1)"

definition onWriteOperation :: "bool \<Rightarrow> bool \<Rightarrow> Connection \<Rightarrow> Connection option" where
  "onWriteOperation error throws c =
     (if messageQueue c = [] then None
      else
        let c1 = c\<lparr>messageQueue := tl (messageQueue c)\<rparr> in
        if error then Some (close True (c1\<lparr>messageQueue := []\<rparr>))
        else if messageQueue c1 \<noteq> [] then internalSend throws (hd (messageQueue c1)) c1
        else if \<not> conn_open c1 then Some (closeSocket c1)
        else Some c1)"

section \<open>Receiving\<close>

definition conn_accept :: "bool \<Rightarrow> Connection \<Rightarrow> Connection" where
  "conn_accept throws c = (if throws then close True c else emit AsyncReadHeader c)"

definition parseHeader :: "int \<Rightarrow> int \<Rightarrow> bool \<Rightarrow> bool \<Rightarrow> Connection \<Rightarrow> Connection" where
  "parseHeader maxPackets now error throws c =
     (if error then close True c
      else if \<not> conn_open c then c
      else
        let timePassed = max 1 (of_int ((now - timeConnected c) + 1) :: u32);
            c1 = c\<lparr>packetsSent := packetsSent c + 1\<rparr>
        in if packetsSent c1 div timePassed > of_int maxPackets then close False c1
        else
          let c2 = (if timePassed > 2 then c1\<lparr>timeConnected := now, packetsSent := 0\<rparr> else c1);
              sz = getLengthHeader (conn_msg c2)
          in if \<not> size_ok sz then close True c2
          else
            let c3 = c2\<lparr>conn_msg := expect_body sz (conn_msg c2)\<rparr>
            in if throws then close True c3 else emit (AsyncReadBody HEADER_LENGTH (unat sz)) c3)"

text \<open>\<open>Protocol::onRecvMessage\<close>: the packet reaches the derived protocol only when it decrypts.\<close>

definition onRecvMessage ::
  "(Connection \<Rightarrow> Connection option) \<Rightarrow> Protocol \<Rightarrow> Connection \<Rightarrow> Connection option" where
  "onRecvMessage handler p c =
     (if encryptionEnabled p then
        (case XTEA_decrypt p (conn_msg c) of
           None \<Rightarrow> None
         | Some (False, m) \<Rightarrow> Some (c\<lparr>conn_msg := m\<rparr>)
         | Some (True, m) \<Rightarrow> handler (emit (RecvMessage m) (c\<lparr>conn_msg := m\<rparr>)))
      else handler (emit (RecvMessage (conn_msg c)) c))"

text \<open>\<open>first\<close> and \<open>handler\<close> are the virtual \<open>onRecvFirstMessage\<close> and \<open>parsePacket\<close>.\<close>

definition parsePacket ::
  "(Connection \<Rightarrow> Connection option) \<Rightarrow> (Connection \<Rightarrow> Connection option) \<Rightarrow>
     bool \<Rightarrow> bool \<Rightarrow> Connection \<Rightarrow> Connection option" where
  "parsePacket first handler error throws c =
     (if error then Some (close True c)
      else if \<not> conn_open c then Some c
      else case parse_checksum (conn_msg c) of (matched, m1) \<Rightarrow>
        let continue = map_option (conn_accept throws) in
        if \<not> receivedFirst c then
          let c1 = c\<lparr>conn_msg := m1, receivedFirst := True\<rparr> in
          (case conn_protocol c1 of
             None \<Rightarrow>
               (case make_protocol (services c1) matched m1 of
                  (None, m2) \<Rightarrow> Some (close True (c1\<lparr>conn_msg := m2\<rparr>))
                | (Some svc, m2) \<Rightarrow>
                    continue (first (emit (FirstMessage m2) (c1\<lparr>conn_msg := m2, conn_protocol := Some new_protocol\<rparr>))))
           | Some p \<Rightarrow>
               (let m2 = skipBytes 1 m1 in
                continue (first (emit (FirstMessage m2) (c1\<lparr>conn_msg := m2\<rparr>)))))
        else
          (case conn_protocol c of
             None \<Rightarrow> None
           | Some p \<Rightarrow> continue (onRecvMessage handler p (c\<lparr>conn_msg := m1\<rparr>))))"

section \<open>The connection over time\<close>

text \<open>
  A connection with its history: the messages \<open>send\<close> accepted, whether a write is in flight
  (the library has been given one and has not completed it), and whether a write has failed.
\<close>

record History =
  conn :: Connection
  sent :: "OutMsg list"
  inflight :: bool
  failed :: bool

inductive conn_step :: "History \<Rightarrow> History \<Rightarrow> bool" where
  send_closed: "\<not> conn_open (conn h) \<Longrightarrow> conn_send throws m (conn h) = Some c \<Longrightarrow>
    conn_step h (h\<lparr>conn := c\<rparr>)"
| send_queued: "conn_open (conn h) \<Longrightarrow> messageQueue (conn h) \<noteq> [] \<Longrightarrow> conn_send throws m (conn h) = Some c \<Longrightarrow>
    conn_step h (h\<lparr>conn := c, sent := sent h @ [m]\<rparr>)"
| send_first: "conn_open (conn h) \<Longrightarrow> messageQueue (conn h) = [] \<Longrightarrow> conn_send throws m (conn h) = Some c \<Longrightarrow>
    conn_step h (h\<lparr>conn := c, sent := sent h @ [m], inflight := \<not> throws, failed := failed h \<or> throws\<rparr>)"
| write_error: "inflight h \<Longrightarrow> onWriteOperation True throws (conn h) = Some c \<Longrightarrow>
    conn_step h (h\<lparr>conn := c, inflight := False, failed := True\<rparr>)"
| write_last: "inflight h \<Longrightarrow> tl (messageQueue (conn h)) = [] \<Longrightarrow>
    onWriteOperation False throws (conn h) = Some c \<Longrightarrow>
    conn_step h (h\<lparr>conn := c, inflight := False\<rparr>)"
| write_next: "inflight h \<Longrightarrow> tl (messageQueue (conn h)) \<noteq> [] \<Longrightarrow>
    onWriteOperation False throws (conn h) = Some c \<Longrightarrow>
    conn_step h (h\<lparr>conn := c, inflight := \<not> throws, failed := failed h \<or> throws\<rparr>)"
| closing: "conn_step h (h\<lparr>conn := close force (conn h)\<rparr>)"
| timeout: "conn_step h (h\<lparr>conn := handleTimeout aborted (conn h)\<rparr>)"
| header: "conn_step h (h\<lparr>conn := parseHeader maxPackets now error throws (conn h)\<rparr>)"
| packet: "parsePacket Some Some error throws (conn h) = Some c \<Longrightarrow> conn_step h (h\<lparr>conn := c\<rparr>)"
| arrival: "conn_step h (h\<lparr>conn := conn h\<lparr>conn_msg := bytes_arrive p bs (conn_msg (conn h))\<rparr>\<rparr>)"
| protocol: "conn_step h (h\<lparr>conn := conn h\<lparr>conn_protocol := Some p\<rparr>\<rparr>)"

inductive conn_reach :: "History \<Rightarrow> bool" where
  init: "conn_reach \<lparr>conn = createConnection now mem svcs, sent = [], inflight = False, failed = False\<rparr>"
| step: "conn_reach h \<Longrightarrow> conn_step h h' \<Longrightarrow> conn_reach h'"

text \<open>The messages handed to the network library, in order.\<close>

definition written :: "Connection \<Rightarrow> OutMsg list" where
  "written c = concat (map (\<lambda>e. case e of AsyncWrite m bs \<Rightarrow> [m] | _ \<Rightarrow> []) (events c))"

lemma written_emit [simp]:
  "written (emit e c) = written c @ (case e of AsyncWrite m bs \<Rightarrow> [m] | _ \<Rightarrow> [])"
  by (simp add: written_def emit_def)

lemma emit_fields [simp]:
  "messageQueue (emit e c) = messageQueue c" "conn_open (emit e c) = conn_open c"
  "socket_open (emit e c) = socket_open c" "conn_protocol (emit e c) = conn_protocol c"
  "conn_msg (emit e c) = conn_msg c"
  by (simp_all add: emit_def)

lemma written_update [simp]:
  "written (c\<lparr>messageQueue := q\<rparr>) = written c" "written (c\<lparr>conn_msg := m\<rparr>) = written c"
  "written (c\<lparr>conn_open := b\<rparr>) = written c" "written (c\<lparr>managed := b\<rparr>) = written c"
  "written (c\<lparr>socket_open := b\<rparr>) = written c" "written (c\<lparr>conn_protocol := p\<rparr>) = written c"
  "written (c\<lparr>packetsSent := n\<rparr>) = written c" "written (c\<lparr>timeConnected := t\<rparr>) = written c"
  "written (c\<lparr>receivedFirst := b\<rparr>) = written c"
  by (simp_all add: written_def)

lemma closeSocket_effect [simp]:
  "written (closeSocket c) = written c" "messageQueue (closeSocket c) = messageQueue c"
  "conn_open (closeSocket c) = conn_open c" "\<not> socket_open (closeSocket c)"
  by (simp_all add: closeSocket_def)

lemma close_effect [simp]:
  "written (close force c) = written c" "messageQueue (close force c) = messageQueue c"
  "\<not> conn_open (close force c)"
  by (simp_all add: close_def Let_def)

lemma close_socket:
  "socket_open (close force c) = (socket_open c \<and> (conn_open c \<longrightarrow> messageQueue c \<noteq> [] \<and> \<not> force))"
  by (auto simp: close_def Let_def closeSocket_def)

text \<open>
  The handlers of the receiving side, the clock and the timers only ever close the connection:
  they leave the queue and what was written alone.
\<close>

definition recv_safe :: "Connection \<Rightarrow> Connection \<Rightarrow> bool" where
  [inv_defs]: "recv_safe c c' =
     (written c' = written c \<and> messageQueue c' = messageQueue c \<and> (conn_open c' \<longrightarrow> conn_open c) \<and>
      (socket_open c' \<longrightarrow> socket_open c) \<and>
      (conn_open c \<and> \<not> conn_open c' \<and> messageQueue c' = [] \<longrightarrow> \<not> socket_open c'))"

lemma recv_safe_refl: "recv_safe c c"
  by (auto simp: recv_safe_def)

lemma recv_safe_close: "recv_safe c (close force c)"
  by (auto simp: recv_safe_def close_socket)

lemma recv_safe_timeout: "recv_safe c (handleTimeout aborted c)"
  by (simp add: handleTimeout_def recv_safe_close recv_safe_refl)

lemma recv_safe_same:
  "written c' = written c \<Longrightarrow> messageQueue c' = messageQueue c \<Longrightarrow> conn_open c' = conn_open c \<Longrightarrow>
     socket_open c' = socket_open c \<Longrightarrow> recv_safe c c'"
  by (auto simp: recv_safe_def)

lemma recv_safe_close_after:
  "written c' = written c \<Longrightarrow> messageQueue c' = messageQueue c \<Longrightarrow> conn_open c' = conn_open c \<Longrightarrow>
     socket_open c' = socket_open c \<Longrightarrow> recv_safe c (close force c')"
  by (auto simp: recv_safe_def close_socket)

lemma recv_safe_accept:
  "written c' = written c \<Longrightarrow> messageQueue c' = messageQueue c \<Longrightarrow> conn_open c' = conn_open c \<Longrightarrow>
     socket_open c' = socket_open c \<Longrightarrow> recv_safe c (conn_accept throws c')"
  by (simp add: conn_accept_def recv_safe_close_after recv_safe_same)

lemma recv_safe_header: "recv_safe c (parseHeader maxPackets now error throws c)"
  unfolding parseHeader_def Let_def
  by (simp add: recv_safe_close recv_safe_refl recv_safe_close_after recv_safe_same)

lemma recv_safe_packet:
  "parsePacket Some Some error throws c = Some c' \<Longrightarrow> recv_safe c c'"
  unfolding parsePacket_def onRecvMessage_def Let_def
  by (auto simp: recv_safe_close recv_safe_refl recv_safe_close_after recv_safe_accept
      split: if_splits option.splits prod.splits bool.splits)

definition conn_inv :: "History \<Rightarrow> bool" where
  [inv_defs]: "conn_inv h =
     ((\<not> failed h \<longrightarrow> written (conn h) @ tl (messageQueue (conn h)) = sent h \<and>
        inflight h = (messageQueue (conn h) \<noteq> [])) \<and>
      (failed h \<longrightarrow> \<not> conn_open (conn h) \<and> \<not> inflight h \<and> prefix (written (conn h)) (sent h)) \<and>
      (\<not> conn_open (conn h) \<and> \<not> failed h \<and> messageQueue (conn h) = [] \<longrightarrow> \<not> socket_open (conn h)))"

lemma conn_inv_recv:
  "conn_inv h \<Longrightarrow> recv_safe (conn h) c \<Longrightarrow> conn_inv (h\<lparr>conn := c\<rparr>)"
  unfolding conn_inv_def recv_safe_def by auto

lemma internalSend_Some:
  assumes "internalSend throws m c = Some c'"
  shows "conn_open c' = (conn_open c \<and> \<not> throws)" and "tl (messageQueue c') = tl (messageQueue c)"
    and "messageQueue c' \<noteq> []"
    and "written c' = (if throws then written c else written c @ [m])"
    and "socket_open c' \<Longrightarrow> socket_open c"
  using assms by (auto simp: internalSend_def Let_def close_socket split: option.splits if_splits)

lemma conn_inv_send:
  assumes "conn_inv h" and "conn_open (conn h)" and "conn_send throws m (conn h) = Some c"
  shows "messageQueue (conn h) \<noteq> [] \<Longrightarrow> conn_inv (h\<lparr>conn := c, sent := sent h @ [m]\<rparr>)"
    and "messageQueue (conn h) = [] \<Longrightarrow>
      conn_inv (h\<lparr>conn := c, sent := sent h @ [m], inflight := \<not> throws, failed := failed h \<or> throws\<rparr>)"
proof -
  assume q: "messageQueue (conn h) \<noteq> []"
  with assms(2,3) have "c = (conn h)\<lparr>messageQueue := messageQueue (conn h) @ [m]\<rparr>"
    by (simp add: conn_send_def)
  with assms(1,2) q show "conn_inv (h\<lparr>conn := c, sent := sent h @ [m]\<rparr>)"
    by (auto simp: conn_inv_def)
next
  assume q: "messageQueue (conn h) = []"
  with assms(2,3) have "internalSend throws m ((conn h)\<lparr>messageQueue := [m]\<rparr>) = Some c"
    by (simp add: conn_send_def)
  note s = internalSend_Some [OF this]
  from s assms(1,2) q
  show "conn_inv (h\<lparr>conn := c, sent := sent h @ [m], inflight := \<not> throws, failed := failed h \<or> throws\<rparr>)"
    by (auto simp: conn_inv_def)
qed

lemma conn_inv_write_error:
  assumes "conn_inv h" and "inflight h" and "onWriteOperation True throws (conn h) = Some c"
  shows "conn_inv (h\<lparr>conn := c, inflight := False, failed := True\<rparr>)"
proof -
  have nf: "\<not> failed h" using assms(1,2) by (auto simp: conn_inv_def)
  then have "prefix (written (conn h)) (sent h)"
    using assms(1) by (auto simp: conn_inv_def intro: prefixI [OF sym])
  with nf assms show ?thesis
    by (auto simp: conn_inv_def onWriteOperation_def Let_def split: if_splits)
qed

lemma conn_inv_write_last:
  assumes "conn_inv h" and "inflight h" and "tl (messageQueue (conn h)) = []"
    and "onWriteOperation False throws (conn h) = Some c"
  shows "conn_inv (h\<lparr>conn := c, inflight := False\<rparr>)"
proof -
  have "\<not> failed h" using assms(1,2) by (auto simp: conn_inv_def)
  with assms show ?thesis
    by (auto simp: conn_inv_def onWriteOperation_def Let_def split: if_splits)
qed

lemma conn_inv_write_next:
  assumes "conn_inv h" and "inflight h" and "tl (messageQueue (conn h)) \<noteq> []"
    and "onWriteOperation False throws (conn h) = Some c"
  shows "conn_inv (h\<lparr>conn := c, inflight := \<not> throws, failed := failed h \<or> throws\<rparr>)"
proof -
  have nf: "\<not> failed h" using assms(1,2) by (auto simp: conn_inv_def)
  obtain q qs where q: "tl (messageQueue (conn h)) = q # qs" using assms(3) by (cases "tl (messageQueue (conn h))") auto
  with assms(4) have "internalSend throws q ((conn h)\<lparr>messageQueue := q # qs\<rparr>) = Some c"
    by (auto simp: onWriteOperation_def Let_def split: if_splits)
  note s = internalSend_Some [OF this]
  have w: "written (conn h) @ q # qs = sent h" using assms(1) nf q by (simp add: conn_inv_def)
  have "prefix (written (conn h)) (sent h)" using prefixI [OF w [symmetric]] .
  with w s nf assms(1) show ?thesis by (auto simp: conn_inv_def)
qed

lemma conn_inv_step: "conn_step h h' \<Longrightarrow> conn_inv h \<Longrightarrow> conn_inv h'"
proof (induction rule: conn_step.induct)
  case (send_closed h throws m c)
  then have "h\<lparr>conn := c\<rparr> = h" by (simp add: conn_send_def)
  with send_closed show ?case by simp
next
  case (protocol h p)
  then show ?case by (auto intro!: conn_inv_recv recv_safe_same)
next
  case (arrival h p bs)
  then show ?case by (auto intro!: conn_inv_recv recv_safe_same)
qed (simp_all add: conn_inv_recv recv_safe_close recv_safe_timeout recv_safe_header recv_safe_packet
    conn_inv_send conn_inv_write_error conn_inv_write_last conn_inv_write_next)

lemma conn_reach_inv: "conn_reach h \<Longrightarrow> conn_inv h"
proof (induction rule: conn_reach.induct)
  case (init now mem svcs)
  then show ?case by (simp add: conn_inv_def createConnection_def written_def)
qed (rule conn_inv_step)

text \<open>C1: however sends, completions, packets, timeouts and closes interleave, what is handed to the
  network library is a prefix of what \<open>send\<close> accepted, in that order and without repetition; while
  nothing has failed, the rest is exactly the queue behind its head, a write is in flight just
  when the queue is not empty (so there is never a second one, and the completion handler never
  pops an empty queue), and a closed connection without a write in flight has closed its socket.\<close>

theorem connection_writes_in_order:
  assumes "conn_reach h"
  shows "prefix (written (conn h)) (sent h) \<and> (inflight h \<longrightarrow> messageQueue (conn h) \<noteq> []) \<and>
    (\<not> failed h \<longrightarrow>
       written (conn h) @ tl (messageQueue (conn h)) = sent h \<and>
       inflight h = (messageQueue (conn h) \<noteq> []) \<and>
       (\<not> conn_open (conn h) \<and> \<not> inflight h \<longrightarrow> \<not> socket_open (conn h)))"
  using conn_reach_inv [OF assms] by (cases "failed h") (auto simp: conn_inv_def intro: prefixI [OF sym])

text \<open>A connection of a protocol that sends its messages as they are, with two sends and a close.\<close>

definition raw_protocol :: Protocol where
  "raw_protocol = new_protocol\<lparr>rawMessages := True\<rparr>"

definition raw_connection :: Connection where
  "raw_connection = (createConnection 0 [] [])\<lparr>conn_protocol := Some raw_protocol\<rparr>"

lemma raw_connection_simps [simp]:
  "conn_open raw_connection" "messageQueue raw_connection = []" "socket_open raw_connection"
  "conn_protocol raw_connection = Some raw_protocol" "written raw_connection = []"
  by (simp_all add: raw_connection_def createConnection_def written_def)

lemma onSend_raw [simp]: "onSendMessage raw_protocol m = Some m"
  by (simp add: onSendMessage_def raw_protocol_def)

definition one_write :: Connection where
  "one_write = emit (AsyncWrite pong (outputBytes pong)) (raw_connection\<lparr>messageQueue := [pong]\<rparr>)"

lemma one_write_reach: "conn_reach \<lparr>conn = one_write, sent = [pong], inflight = True, failed = False\<rparr>"
proof -
  let ?h0 = "\<lparr>conn = createConnection 0 [] [], sent = [], inflight = False, failed = False\<rparr>"
  let ?h1 = "\<lparr>conn = raw_connection, sent = [], inflight = False, failed = False\<rparr>"
  have r1: "conn_reach ?h1"
    using conn_reach.step [OF conn_reach.init conn_step.protocol [of ?h0 raw_protocol]]
    by (simp add: raw_connection_def)
  have "conn_send False pong raw_connection = Some one_write"
    by (simp add: conn_send_def internalSend_def Let_def one_write_def)
  then show ?thesis
    using conn_reach.step [OF r1 conn_step.send_first [of ?h1 False pong one_write]] by simp
qed

lemma connection_writes_in_order_witness:
  "prefix (written one_write) [pong] \<and> messageQueue one_write \<noteq> [] \<and> written one_write @ tl (messageQueue one_write) = [pong]"
  using connection_writes_in_order [OF one_write_reach] by simp

text \<open>a connection that is closed while a write is pending, and whose write then times out and
  fails, ends with its socket open and nothing left that would close it: \<open>close\<close> returns before
  looking at \<open>force\<close> when the connection is not open any more.\<close>

theorem forced_close_comes_too_late:
  "\<exists>h. conn_reach h \<and> \<not> conn_open (conn h) \<and> \<not> inflight h \<and> messageQueue (conn h) = [] \<and>
     socket_open (conn h) \<and> socket_open (handleTimeout False (conn h)) \<and> socket_open (close True (conn h))"
proof -
  let ?h0 = "\<lparr>conn = one_write, sent = [pong], inflight = True, failed = False\<rparr>"
  let ?c1 = "close False one_write"
  let ?h1 = "\<lparr>conn = ?c1, sent = [pong], inflight = True, failed = False\<rparr>"
  let ?c2 = "close True ((close True ?c1)\<lparr>messageQueue := []\<rparr>)"
  let ?h2 = "\<lparr>conn = close True ?c1, sent = [pong], inflight = True, failed = False\<rparr>"
  let ?h3 = "\<lparr>conn = ?c2, sent = [pong], inflight = False, failed = True\<rparr>"
  have "conn_reach ?h1"
    using conn_reach.step [OF one_write_reach conn_step.closing [of ?h0 False]] by simp
  then have r2: "conn_reach ?h2"
    using conn_reach.step [OF _ conn_step.timeout [of ?h1 False]] by (simp add: handleTimeout_def)
  have "onWriteOperation True False (close True ?c1) = Some ?c2"
    by (simp add: onWriteOperation_def Let_def one_write_def)
  then have "conn_reach ?h3"
    using conn_reach.step [OF r2 conn_step.write_error [of ?h2 False]] by simp
  moreover have "socket_open ?c2" by (simp add: close_socket one_write_def)
  ultimately show ?thesis
    by (intro exI [of _ ?h3]) (simp add: handleTimeout_def close_socket)
qed

section \<open>From one side to the other\<close>

lemma parseHeader_open:
  assumes "conn_open (parseHeader maxPackets now False False c)"
  shows "conn_msg (parseHeader maxPackets now False False c) = expect_body (getLengthHeader (conn_msg c)) (conn_msg c)"
    and "receivedFirst (parseHeader maxPackets now False False c) = receivedFirst c"
    and "conn_protocol (parseHeader maxPackets now False False c) = conn_protocol c"
    and "size_ok (getLengthHeader (conn_msg c))"
  using assms unfolding parseHeader_def Let_def
  by (simp_all add: emit_def split: if_splits)

text \<open>The packet of a frame whose length header \<open>c\<close> has just read.\<close>

definition after_body :: "int \<Rightarrow> int \<Rightarrow> u8 list \<Rightarrow> Connection \<Rightarrow> Connection" where
  "after_body maxPackets now wire c =
     (let c1 = c\<lparr>conn_msg := bytes_arrive 0 (take 2 wire) (conn_msg c)\<rparr>;
          c2 = parseHeader maxPackets now False False c1
      in c2\<lparr>conn_msg := bytes_arrive 2 (drop 2 wire) (conn_msg c2)\<rparr>)"

text \<open>C27: what one side sends the other receives: when the first side hands a message to
  \<open>onSendMessage\<close>, and the other, which shares the key, reads the two bytes of the length header,
  lets \<open>parseHeader\<close> ask for the rest and lets \<open>parsePacket\<close> handle it (the packet rate
  permitting), then checksum and decryption succeed and the derived protocol gets a message
  whose readable body is the body that was sent.\<close>

theorem wire_roundtrip:
  assumes "ready m" and "\<not> rawMessages p" and "encryptionEnabled p" and "checksumEnabled p"
    and "onSendMessage p m = Some m'"
    and "encryptionEnabled q" and "key q = key p"
    and "conn_protocol c = Some q" and "receivedFirst c"
    and "length (buffer (conn_msg c)) = NETWORKMESSAGE_MAXSIZE"
    and "conn_open (after_body maxPackets now (outputBytes m') c)"
  shows "\<exists>r. parsePacket first handler False False (after_body maxPackets now (outputBytes m') c) =
      map_option (conn_accept False)
        (handler (emit (RecvMessage r) ((after_body maxPackets now (outputBytes m') c)\<lparr>conn_msg := r\<rparr>))) \<and>
      body r = body m \<and> info_length r = info_length m \<and> info_position r = INITIAL_BUFFER_POSITION"
proof -
  let ?B = "body m" let ?w = "outputBytes m'" let ?d = "after_body maxPackets now ?w c"
  have w: "?w = frame (key p) ?B"
    using onSendMessage_frame_facts [OF assms(1-4)] assms(5) by simp
  have B: "length ?B = unat (info_length m)" "length ?B \<le> 24566"
    using assms(1) by (simp_all add: ready_def length_body sizes)
  define c1 where "c1 = c\<lparr>conn_msg := bytes_arrive 0 (take 2 ?w) (conn_msg c)\<rparr>"
  define c2 where "c2 = parseHeader maxPackets now False False c1"
  have d: "?d = c2\<lparr>conn_msg := bytes_arrive 2 (drop 2 ?w) (conn_msg c2)\<rparr>"
    unfolding after_body_def Let_def c1_def c2_def by (rule refl)
  have o: "conn_open (parseHeader maxPackets now False False c1)"
    using assms(11) unfolding d by (simp add: c2_def)
  note h = parseHeader_open [OF o, folded c2_def]
  let ?r = "bytes_arrive 0 (take 2 ?w) (conn_msg c)"
  have sz: "unat (getLengthHeader ?r) = length (plain_part ?B) + 4"
    unfolding w by (rule header_arrives(1)) (use B assms(10) in \<open>simp_all add: sizes\<close>)
  have lr: "length (buffer ?r) = 24590"
    using assms(10) by (simp add: bytes_arrive_def sizes w take_frame)
  have m2: "conn_msg ?d = bytes_arrive 2 (drop 2 (frame (key p) ?B)) (expect_body (getLengthHeader ?r) ?r)"
    unfolding d using h(1) by (simp add: c1_def w)
  obtain r1 where r1: "parse_checksum (conn_msg ?d) = (True, r1)"
      "unat (info_length r1) = length (plain_part ?B) + 6" "unat (info_position r1) = 6"
      "length (buffer r1) = 24590" "read_at 6 (length (plain_part ?B)) (buffer r1) = cipher_part (key p) ?B"
    using body_arrives [OF B(2) lr sz, of "key p"] unfolding m2 by blast
  obtain r where r: "XTEA_decrypt q r1 = Some (True, r)" "unat (info_length r) = length ?B"
      "info_position r = INITIAL_BUFFER_POSITION" "body r = ?B"
    using XTEA_decrypt_frame [OF B(2) r1(2-4), of q] r1(5) assms(7) by auto
  have "info_length r = info_length m" using r(2) B(1) by (simp add: word_unat_eq_iff)
  moreover have "receivedFirst ?d" "conn_protocol ?d = Some q" "conn_open ?d"
    using h(2,3) assms(8,9,11) by (simp_all add: d c1_def)
  then have "parsePacket first handler False False ?d =
      map_option (conn_accept False) (handler (emit (RecvMessage r) (?d\<lparr>conn_msg := r\<rparr>)))"
    using r1(1) r(1) assms(6) by (simp add: parsePacket_def onRecvMessage_def)
  ultimately show ?thesis using r by blast
qed

text \<open>A second's worth of traffic within the limit of packets: the connection stays open.\<close>

definition peer :: Connection where
  "peer = (createConnection 0 (replicate NETWORKMESSAGE_MAXSIZE 0) [])\<lparr>
     conn_protocol := Some (crypto_protocol (1, 2, 3, 4)), receivedFirst := True\<rparr>"

lemma peer_stays_open:
  assumes "size_ok (getLengthHeader (bytes_arrive 0 (take 2 w) (conn_msg peer)))"
  shows "conn_open (after_body 25 0 w peer)"
  using assms by (simp add: after_body_def Let_def parseHeader_def peer_def createConnection_def)

lemma wire_roundtrip_witness:
  "\<exists>m' r. onSendMessage (crypto_protocol (1, 2, 3, 4)) pong = Some m' \<and>
     parsePacket Some Some False False (after_body 25 0 (outputBytes m') peer) =
       Some (conn_accept False (emit (RecvMessage r) ((after_body 25 0 (outputBytes m') peer)\<lparr>conn_msg := r\<rparr>))) \<and>
     body r = body pong"
proof -
  let ?p = "crypto_protocol (1, 2, 3, 4)"
  obtain m' where m': "onSendMessage ?p pong = Some m'" "outputBytes m' = frame (key ?p) (body pong)"
    using onSendMessage_frame_facts [OF pong_ready, of ?p] by auto
  have "length (body pong) \<le> 24566"
    using pong_ready by (simp add: ready_def length_body sizes)
  then have "size_ok (getLengthHeader (bytes_arrive 0 (take 2 (outputBytes m')) (conn_msg peer)))"
    unfolding m'(2) by (rule header_arrives(2)) (simp add: peer_def createConnection_def new_message_def sizes)
  then have o: "conn_open (after_body 25 0 (outputBytes m') peer)" by (rule peer_stays_open)
  show ?thesis
    using wire_roundtrip [OF pong_ready _ _ _ m'(1), of ?p peer 25 0 Some Some] o m'(1)
    by (auto simp: peer_def createConnection_def new_message_def)
qed

end
