(* ===== verification/OutputPool.thy ===== *)
theory OutputPool
  imports Connection "HOL-Library.Multiset"
begin

text \<open>
  Buffered sending: \<open>Protocol::getOutputBuffer\<close>, \<open>ProtocolGame::writeToOutputBuffer\<close> and the
  OutputMessagePool of outputmessage.cpp, which sends the buffers of its protocols every ten
  milliseconds.  A protocol that flushes hands the full message to its connection; here the
  message is part of the result.
\<close>

section \<open>The buffer of a protocol\<close>

text \<open>The message to fill, what had to be sent first, and the protocol; \<open>mem\<close> is the memory of a
  new message.\<close>

definition getOutputBuffer :: "u8 list \<Rightarrow> int \<Rightarrow> Protocol \<Rightarrow> OutMsg \<times> OutMsg list \<times> Protocol" where
  "getOutputBuffer mem n p =
     (case outputBuffer p of
        None \<Rightarrow> (new_output mem, [], p\<lparr>outputBuffer := Some (new_output mem)\<rparr>)
      | Some out \<Rightarrow>
          if uint (info_length out) + n > int MAX_PROTOCOL_BODY_LENGTH
          then (new_output mem, [out], p\<lparr>outputBuffer := Some (new_output mem)\<rparr>)
          else (out, [], p))"

definition writeToOutputBuffer :: "u8 list \<Rightarrow> NetMsg \<Rightarrow> Protocol \<Rightarrow> (OutMsg list \<times> Protocol) option" where
  "writeToOutputBuffer mem m p =
     (case getOutputBuffer mem (uint (info_length m)) p of (out, flushed, p') \<Rightarrow>
        (case append_msg m out of
           None \<Rightarrow> None
         | Some out' \<Rightarrow> Some (flushed, p'\<lparr>outputBuffer := Some out'\<rparr>)))"

text \<open>What \<open>sendAll\<close> does with one protocol: the buffer moves out of it.\<close>

definition flush_protocol :: "Protocol \<Rightarrow> OutMsg list \<times> Protocol" where
  "flush_protocol p = (case outputBuffer p of None \<Rightarrow> ([], p) | Some out \<Rightarrow> ([out], p\<lparr>outputBuffer := None\<rparr>))"

text \<open>A game message that the protocols may append: made by the writers, within the limit.\<close>

definition game_message :: "NetMsg \<Rightarrow> bool" where
  [inv_defs]: "game_message m = (write_inv m \<and> unat (info_length m) \<le> MAX_PROTOCOL_BODY_LENGTH)"

definition buffer_ok :: "Protocol \<Rightarrow> bool" where
  [inv_defs]: "buffer_ok p = (case outputBuffer p of None \<Rightarrow> True | Some out \<Rightarrow> ready out)"

text \<open>The payload waiting in the buffer.\<close>

definition waiting :: "Protocol \<Rightarrow> u8 list" where
  "waiting p = (case outputBuffer p of None \<Rightarrow> [] | Some out \<Rightarrow> body out)"

lemma ready_new: "length mem = NETWORKMESSAGE_MAXSIZE \<Longrightarrow> ready (new_output mem)"
  using write_inv_new_output [of mem] by (simp add: ready_def) (simp add: new_output_def)

lemma append_ready:
  assumes "ready out" and "game_message m"
    and "unat (info_length out) + unat (info_length m) \<le> MAX_PROTOCOL_BODY_LENGTH"
  shows "\<exists>out'. append_msg m out = Some out' \<and> ready out' \<and> body out' = body out @ body m"
proof -
  let ?bs = "read_at 8 (unat (info_length m)) (buffer m)"
  have b: "?bs = body m" "length ?bs = unat (info_length m)"
    using assms(2) by (simp_all add: game_message_def body_def write_inv_def sizes length_read_at)
  have w: "write_inv out" using assms(1) by (simp add: ready_def)
  have c: "canAdd (length ?bs) out"
    unfolding b(2) using assms(3) w by (simp add: canAdd_def write_inv_def sizes)
  have a: "append_msg m out = Some (put_bytes ?bs out)"
    using assms by (simp add: append_msg_def game_message_def ready_def write_inv_def sizes)
  have "unat (info_length out + of_nat (length ?bs)) = unat (info_length out) + unat (info_length m)"
    using assms(3) b(2) unat_add_u16 [of "info_length out" "length ?bs"] by (simp add: sizes)
  then have "unat (info_length (put_bytes ?bs out)) \<le> MAX_PROTOCOL_BODY_LENGTH"
    using assms(3) by (simp add: put_bytes_def)
  moreover have "outputBufferStart (put_bytes ?bs out) = INITIAL_BUFFER_POSITION"
    using assms(1) by (simp add: put_bytes_def ready_def)
  ultimately have "ready (put_bytes ?bs out)"
    using put_bytes_keeps(1) [OF w c] by (simp add: ready_def)
  with a put_bytes_keeps(2) [OF w c] b(1) show ?thesis by simp
qed

lemma write_output_facts:
  assumes "buffer_ok p" and "game_message m" and "length mem = NETWORKMESSAGE_MAXSIZE"
  shows "\<exists>flushed p'. writeToOutputBuffer mem m p = Some (flushed, p') \<and> buffer_ok p' \<and>
    list_all ready flushed \<and> concat (map body flushed) @ waiting p' = waiting p @ body m"
proof (cases "outputBuffer p")
  case None
  have "unat (info_length (new_output mem)) = 0" by (simp add: new_output_def)
  then obtain out' where "append_msg m (new_output mem) = Some out'" "ready out'" "body out' = body m"
    using append_ready [OF ready_new [OF assms(3)] assms(2)] assms(2) by (auto simp: game_message_def)
  with None show ?thesis
    by (simp add: writeToOutputBuffer_def getOutputBuffer_def buffer_ok_def waiting_def)
next
  case (Some out)
  then have r: "ready out" using assms(1) by (simp add: buffer_ok_def)
  show ?thesis
  proof (cases "uint (info_length out) + uint (info_length m) > int MAX_PROTOCOL_BODY_LENGTH")
    case True
    have "unat (info_length (new_output mem)) = 0" by (simp add: new_output_def)
    then obtain out' where "append_msg m (new_output mem) = Some out'" "ready out'" "body out' = body m"
      using append_ready [OF ready_new [OF assms(3)] assms(2)] assms(2) by (auto simp: game_message_def)
    with Some True r show ?thesis
      by (simp add: writeToOutputBuffer_def getOutputBuffer_def buffer_ok_def waiting_def)
  next
    case False
    then have "unat (info_length out) + unat (info_length m) \<le> MAX_PROTOCOL_BODY_LENGTH"
      unfolding uint_nat by linarith
    then obtain out' where "append_msg m out = Some out'" "ready out'" "body out' = body out @ body m"
      using append_ready [OF r assms(2)] by blast
    with Some False show ?thesis
      by (simp add: writeToOutputBuffer_def getOutputBuffer_def buffer_ok_def waiting_def)
  qed
qed

text \<open>The buffer over a run of messages.\<close>

fun write_all :: "u8 list \<Rightarrow> NetMsg list \<Rightarrow> Protocol \<Rightarrow> (OutMsg list \<times> Protocol) option" where
  "write_all mem [] p = Some ([], p)"
| "write_all mem (m # ms) p =
     (case writeToOutputBuffer mem m p of
        None \<Rightarrow> None
      | Some (flushed, p1) \<Rightarrow>
          (case write_all mem ms p1 of
             None \<Rightarrow> None
           | Some (flushed', p2) \<Rightarrow> Some (flushed @ flushed', p2)))"

text \<open>C35: buffering never writes outside a message and loses, adds and reorders nothing: after any
  run of game messages, the bodies of the messages flushed on the way and the body still waiting
  are together the bodies of the game messages in order; and every flushed message is ready to
  be enciphered and framed.\<close>

theorem buffered_writes_keep_payload:
  assumes "buffer_ok p" and "list_all game_message ms" and "length mem = NETWORKMESSAGE_MAXSIZE"
  shows "\<exists>flushed p'. write_all mem ms p = Some (flushed, p') \<and> buffer_ok p' \<and> list_all ready flushed \<and>
    concat (map body flushed) @ waiting p' = waiting p @ concat (map body ms)"
  using assms(1,2)
proof (induction ms arbitrary: p)
  case (Cons m ms)
  obtain f p1 where 1: "writeToOutputBuffer mem m p = Some (f, p1)" "buffer_ok p1" "list_all ready f"
      "concat (map body f) @ waiting p1 = waiting p @ body m"
    using write_output_facts [OF Cons.prems(1) _ assms(3), of m] Cons.prems(2) by auto
  obtain f' p2 where 2: "write_all mem ms p1 = Some (f', p2)" "buffer_ok p2" "list_all ready f'"
      "concat (map body f') @ waiting p2 = waiting p1 @ concat (map body ms)"
    using Cons.IH [OF 1(2)] Cons.prems(2) by auto
  have "concat (map body (f @ f')) @ waiting p2 = concat (map body f) @ waiting p1 @ concat (map body ms)"
    using 2(4) by simp
  also have "\<dots> = waiting p @ body m @ concat (map body ms)" using 1(4) by (metis append.assoc)
  finally show ?case using 1 2 by simp
qed simp

definition ping :: NetMsg where
  "ping = addByte 0x1D (new_message (replicate NETWORKMESSAGE_MAXSIZE 0))"

lemma ping_game_message: "game_message ping"
proof -
  let ?m = "new_message (replicate NETWORKMESSAGE_MAXSIZE 0)"
  have i: "write_inv ?m" by (simp add: write_inv_new)
  have c: "canAdd 1 ?m" by (simp add: canAdd_new sizes)
  then have "ping = put_bytes [0x1D] ?m" by (simp add: ping_def addByte_def)
  moreover have "write_inv (put_bytes [0x1D] ?m)" using put_bytes_keeps(1) [OF i, of "[0x1D]"] c by simp
  moreover have "unat (info_length (put_bytes [0x1D] ?m)) \<le> MAX_PROTOCOL_BODY_LENGTH"
    by (simp add: put_bytes_def new_message_def sizes)
  ultimately show ?thesis by (simp add: game_message_def)
qed

lemma buffered_writes_keep_payload_witness:
  "\<exists>flushed p'. write_all (replicate NETWORKMESSAGE_MAXSIZE 0) [ping, ping] new_protocol = Some (flushed, p') \<and>
     buffer_ok p' \<and> list_all ready flushed \<and>
     concat (map body flushed) @ waiting p' = waiting new_protocol @ concat (map body [ping, ping])"
  by (rule buffered_writes_keep_payload)
    (simp_all add: ping_game_message buffer_ok_def new_protocol_def)

text \<open>the limit matters: the writers accept one byte more than a padded message can hold, and a
  message filled to the brim leaves \<open>XTEA_encrypt\<close> with a length that is not a multiple of eight,
  because its padding is refused without a word; every receiver drops such a packet.\<close>

theorem full_message_not_padded:
  assumes "write_inv m" and "unat (info_length m) = MAX_PROTOCOL_BODY_LENGTH + 1"
    and "writeMessageLength m = Some m1" and "XTEA_encrypt p m1 = Some m2"
  shows "unat (info_length m2) mod 8 = 1"
proof -
  have pos: "unat (info_position m) = 24575" and l: "unat (info_length m) = 24567"
    using assms(1,2) by (simp_all add: write_inv_def sizes)
  have "m1 = m\<lparr>outputBufferStart := outputBufferStart m - 2,
      buffer := write_at (unat (outputBufferStart m) - 2) (le_bytes 2 (unat (info_length m))) (buffer m),
      info_length := info_length m + of_nat 2\<rparr>"
    using assms(3) by (simp add: writeMessageLength_def add_header_def split: if_splits)
  then have l1: "unat (info_length m1) = 24569" and p1: "unat (info_position m1) = 24575"
    using pos unat_add_u16 [of "info_length m" 2] l by simp_all
  have "addPaddingBytes 7 m1 = m1"
    using p1 by (simp add: addPaddingBytes_def canAdd_def sizes)
  then have "info_length m2 = info_length m1"
    using assms(4) l1 by (auto simp: XTEA_encrypt_def Let_def split: option.splits)
  with l1 show ?thesis by simp
qed

definition brim :: OutMsg where
  "brim = (new_output (replicate NETWORKMESSAGE_MAXSIZE 0))\<lparr>info_length := 24567, info_position := 24575\<rparr>"

lemma full_message_not_padded_witness:
  "\<exists>m1 m2. writeMessageLength brim = Some m1 \<and> XTEA_encrypt new_protocol m1 = Some m2 \<and>
     unat (info_length m2) mod 8 = 1"
proof -
  have w: "write_inv brim" and l: "unat (info_length brim) = MAX_PROTOCOL_BODY_LENGTH + 1"
    by (simp_all add: write_inv_def brim_def new_output_def sizes)
  let ?mem = "write_at 6 (le_bytes 2 24567) (replicate NETWORKMESSAGE_MAXSIZE 0)"
  let ?m1 = "brim\<lparr>outputBufferStart := 6, buffer := ?mem, info_length := 24569\<rparr>"
  have 1: "writeMessageLength brim = Some ?m1"
    by (simp add: writeMessageLength_def add_header_def brim_def new_output_def INITIAL_BUFFER_POSITION_def)
  have "addPaddingBytes 7 ?m1 = ?m1"
    by (simp add: addPaddingBytes_def canAdd_def sizes brim_def)
  moreover obtain buf where "xtea_loop (enc_block (key new_protocol)) 6 0 24569 ?mem = Some buf"
  proof -
    let ?f = "enc_block (key new_protocol)"
    obtain buf where b: "xtea_loop ?f 6 0 24576 ?mem = Some buf"
      using xtea_loop_blocks [of ?f 0 24576 6 ?mem] by (auto simp: sizes)
    have "xtea_loop ?f 6 r 24569 mem = xtea_loop ?f 6 r 24576 mem" if "8 dvd r" for r mem
      using that
    proof (induction "24576 - r" arbitrary: r mem rule: less_induct)
      case less
      then have "r < 24569 \<longleftrightarrow> r < 24576" by (auto simp: dvd_def)
      with less show ?case
        by (subst (1 2) xtea_loop.simps) simp
    qed
    with b that show ?thesis by simp
  qed
  ultimately have 2: "XTEA_encrypt new_protocol ?m1 = Some (?m1\<lparr>buffer := buf\<rparr>)"
    by (simp add: XTEA_encrypt_def Let_def)
  have "unat (info_length (?m1\<lparr>buffer := buf\<rparr>)) mod 8 = 1"
    using w l 1 2 by (rule full_message_not_padded)
  with 1 2 show ?thesis by blast
qed

section \<open>The pool\<close>

text \<open>
  The pool keeps the protocols that buffer their output, and the scheduler has some number of
  \<open>sendAll\<close> tasks for it.  Protocols are named by their addresses; \<open>send\<close> of a flushed message is
  recorded.
\<close>

record OutputMessagePool =
  bufferedProtocols :: "nat list"
  scheduled :: nat
  pool_protocols :: "nat \<Rightarrow> Protocol"
  pool_sent :: "(nat \<times> OutMsg) list"

definition new_pool :: "(nat \<Rightarrow> Protocol) \<Rightarrow> OutputMessagePool" where
  "new_pool ps = \<lparr>bufferedProtocols = [], scheduled = 0, pool_protocols = ps, pool_sent = []\<rparr>"

definition scheduleSendAll :: "OutputMessagePool \<Rightarrow> OutputMessagePool" where
  "scheduleSendAll pool = pool\<lparr>scheduled := scheduled pool + 1\<rparr>"

definition send_one :: "nat \<Rightarrow> OutputMessagePool \<Rightarrow> OutputMessagePool" where
  "send_one i pool =
     (case flush_protocol (pool_protocols pool i) of (outs, p) \<Rightarrow>
        pool\<lparr>pool_protocols := (pool_protocols pool)(i := p),
             pool_sent := pool_sent pool @ map (Pair i) outs\<rparr>)"

definition sendAll :: "OutputMessagePool \<Rightarrow> OutputMessagePool" where
  "sendAll pool =
     (let pool1 = fold send_one (bufferedProtocols pool) pool
      in if bufferedProtocols pool1 \<noteq> [] then scheduleSendAll pool1 else pool1)"

definition addProtocolToAutosend :: "nat \<Rightarrow> OutputMessagePool \<Rightarrow> OutputMessagePool" where
  "addProtocolToAutosend i pool =
     (let pool1 = (if bufferedProtocols pool = [] then scheduleSendAll pool else pool)
      in pool1\<lparr>bufferedProtocols := bufferedProtocols pool1 @ [i]\<rparr>)"

text \<open>\<open>std::find\<close>, a swap with the last element, and a pop.\<close>

fun find_index :: "nat \<Rightarrow> nat list \<Rightarrow> nat" where
  "find_index i [] = 0"
| "find_index i (j # js) = (if i = j then 0 else Suc (find_index i js))"

definition removeProtocolFromAutosend :: "nat \<Rightarrow> OutputMessagePool \<Rightarrow> OutputMessagePool" where
  "removeProtocolFromAutosend i pool =
     (let bs = bufferedProtocols pool; k = find_index i bs in
      if k \<noteq> length bs then
        pool\<lparr>bufferedProtocols := butlast (bs[k := last bs, length bs - 1 := bs ! k])\<rparr>
      else pool)"

text \<open>The scheduler runs one of the tasks it was given.\<close>

inductive pool_step :: "OutputMessagePool \<Rightarrow> OutputMessagePool \<Rightarrow> bool" where
  tick: "0 < scheduled pool \<Longrightarrow> pool_step pool (sendAll (pool\<lparr>scheduled := scheduled pool - 1\<rparr>))"
| add: "i \<notin> set (bufferedProtocols pool) \<Longrightarrow> pool_step pool (addProtocolToAutosend i pool)"
| remove: "pool_step pool (removeProtocolFromAutosend i pool)"

inductive pool_reach :: "OutputMessagePool \<Rightarrow> bool" where
  init: "pool_reach (new_pool ps)"
| step: "pool_reach pool \<Longrightarrow> pool_step pool pool' \<Longrightarrow> pool_reach pool'"

lemma find_index_bound: "find_index i bs \<le> length bs"
  by (induction bs) auto

lemma find_index_mem: "find_index i bs \<noteq> length bs \<longleftrightarrow> i \<in> set bs"
  by (induction bs) auto

lemma find_index_nth: "i \<in> set bs \<Longrightarrow> bs ! find_index i bs = i \<and> find_index i bs < length bs"
  by (induction bs) auto

lemma swap_pop_mset:
  assumes "k < length bs"
  shows "mset (butlast (bs[k := last bs, length bs - 1 := bs ! k])) = mset bs - {#bs ! k#}"
proof -
  let ?s = "bs[k := last bs, length bs - 1 := bs ! k]"
  have ne: "bs \<noteq> []" using assms by auto
  have s: "mset ?s = mset bs"
    using mset_swap [of "length bs - 1" bs k] assms ne by (simp add: last_conv_nth)
  have "last ?s = bs ! k" using assms ne by (simp add: last_conv_nth)
  moreover have "?s \<noteq> []" using ne by simp
  then have "butlast ?s @ [last ?s] = ?s" by simp
  then have "mset ?s = add_mset (last ?s) (mset (butlast ?s))"
    by (metis mset_append mset.simps union_mset_add_mset_right add.right_neutral)
  ultimately show ?thesis using s by (metis add_mset_remove_trivial)
qed

lemma remove_mset:
  "mset (bufferedProtocols (removeProtocolFromAutosend i pool)) = mset (bufferedProtocols pool) - {#i#}"
proof (cases "i \<in> set (bufferedProtocols pool)")
  case True
  then show ?thesis
    using find_index_nth [OF True] find_index_mem [of i "bufferedProtocols pool"]
      swap_pop_mset [of "find_index i (bufferedProtocols pool)" "bufferedProtocols pool"]
    by (simp add: removeProtocolFromAutosend_def Let_def)
next
  case False
  then show ?thesis
    using find_index_mem [of i "bufferedProtocols pool"]
    by (simp add: removeProtocolFromAutosend_def Let_def)
qed

lemma send_one_fields [simp]:
  "bufferedProtocols (send_one i pool) = bufferedProtocols pool"
  "scheduled (send_one i pool) = scheduled pool"
  by (simp_all add: send_one_def split_beta)

lemma fold_send_fields [simp]:
  "bufferedProtocols (fold send_one is pool) = bufferedProtocols pool"
  "scheduled (fold send_one is pool) = scheduled pool"
  by (induction "is" arbitrary: pool) simp_all

lemma sendAll_fields:
  "bufferedProtocols (sendAll pool) = bufferedProtocols pool"
  "scheduled (sendAll pool) = scheduled pool + (if bufferedProtocols pool = [] then 0 else 1)"
  by (simp_all add: sendAll_def Let_def scheduleSendAll_def)

definition pool_inv :: "OutputMessagePool \<Rightarrow> bool" where
  [inv_defs]: "pool_inv pool =
     (distinct (bufferedProtocols pool) \<and> (bufferedProtocols pool \<noteq> [] \<longrightarrow> 0 < scheduled pool))"

lemma distinct_remove:
  assumes "distinct (bufferedProtocols pool)"
  shows "distinct (bufferedProtocols (removeProtocolFromAutosend i pool))"
proof -
  have "mset (bufferedProtocols (removeProtocolFromAutosend i pool)) =
      mset (remove1 i (bufferedProtocols pool))"
    by (simp add: remove_mset)
  then show ?thesis using assms by (metis distinct_remove1 mset_eq_imp_distinct_iff)
qed

lemma pool_inv_step: "pool_step pool pool' \<Longrightarrow> pool_inv pool \<Longrightarrow> pool_inv pool'"
proof (induction rule: pool_step.induct)
  case (tick pool)
  then show ?case by (simp add: pool_inv_def sendAll_fields)
next
  case (add i pool)
  then show ?case by (auto simp: pool_inv_def addProtocolToAutosend_def scheduleSendAll_def Let_def)
next
  case (remove pool i)
  have "scheduled (removeProtocolFromAutosend i pool) = scheduled pool"
    by (simp add: removeProtocolFromAutosend_def Let_def)
  moreover have "bufferedProtocols pool = [] \<Longrightarrow> bufferedProtocols (removeProtocolFromAutosend i pool) = []"
    by (simp add: removeProtocolFromAutosend_def Let_def)
  ultimately show ?case using remove distinct_remove by (auto simp: pool_inv_def)
qed

lemma pool_reach_inv: "pool_reach pool \<Longrightarrow> pool_inv pool"
proof (induction rule: pool_reach.induct)
  case (init ps)
  then show ?case by (simp add: pool_inv_def new_pool_def)
qed (rule pool_inv_step)

lemma fold_send_one:
  assumes "distinct is"
  shows "pool_protocols (fold send_one is pool) =
      (\<lambda>i. if i \<in> set is then snd (flush_protocol (pool_protocols pool i)) else pool_protocols pool i)"
    and "pool_sent (fold send_one is pool) =
      pool_sent pool @ concat (map (\<lambda>i. map (Pair i) (fst (flush_protocol (pool_protocols pool i)))) is)"
  using assms
proof (induction "is" arbitrary: pool)
  case (Cons i "is")
  {
    case 1
    have "pool_protocols (send_one i pool) =
        (pool_protocols pool)(i := snd (flush_protocol (pool_protocols pool i)))"
      by (simp add: send_one_def split_beta)
    then show ?case using Cons.IH(1) [of "send_one i pool"] 1 by (auto simp: fun_eq_iff)
  next
    case 2
    have p: "pool_protocols (send_one i pool) j = pool_protocols pool j" if "j \<in> set is" for j
      using that 2 by (auto simp: send_one_def split_beta)
    have "pool_sent (send_one i pool) = pool_sent pool @ map (Pair i) (fst (flush_protocol (pool_protocols pool i)))"
      by (simp add: send_one_def split_beta)
    with p show ?case using Cons.IH(2) [of "send_one i pool"] 2 by (simp cong: map_cong)
  }
qed simp_all

text \<open>C40: the pool loses no protocol and no buffer: in every state that additions, removals and ticks
  reach, as long as there is a protocol to serve a tick is scheduled, and a tick sends each
  buffered message of each of them exactly once, in their order, and empties the buffers.\<close>

theorem autosend_serves_everybody:
  assumes "pool_reach pool"
  shows "(bufferedProtocols pool \<noteq> [] \<longrightarrow> 0 < scheduled pool) \<and>
    pool_sent (sendAll pool) = pool_sent pool @
      concat (map (\<lambda>i. case outputBuffer (pool_protocols pool i) of None \<Rightarrow> [] | Some out \<Rightarrow> [(i, out)])
        (bufferedProtocols pool)) \<and>
    (\<forall>i \<in> set (bufferedProtocols pool). outputBuffer (pool_protocols (sendAll pool) i) = None)"
proof -
  have inv: "pool_inv pool" using assms by (rule pool_reach_inv)
  let ?p = "fold send_one (bufferedProtocols pool) pool"
  have eq: "pool_protocols (sendAll pool) = pool_protocols ?p" "pool_sent (sendAll pool) = pool_sent ?p"
    by (simp_all add: sendAll_def Let_def scheduleSendAll_def)
  have f: "map (Pair i) (fst (flush_protocol p)) =
      (case outputBuffer p of None \<Rightarrow> [] | Some out \<Rightarrow> [(i, out)])" for i :: nat and p
    by (simp add: flush_protocol_def split: option.split)
  have "outputBuffer (snd (flush_protocol p)) = None" for p
    by (simp add: flush_protocol_def split: option.split)
  with inv fold_send_one [of "bufferedProtocols pool" pool] show ?thesis
    unfolding eq by (simp add: pool_inv_def f)
qed

lemma one_player_reach: "pool_reach (addProtocolToAutosend 1 (new_pool (\<lambda>i. new_protocol)))"
  by (rule pool_reach.step [OF pool_reach.init pool_step.add]) (simp add: new_pool_def)

lemma autosend_serves_everybody_witness:
  "let pool = addProtocolToAutosend 1 (new_pool (\<lambda>i. new_protocol)) in
   0 < scheduled pool \<and> pool_sent (sendAll pool) = [] \<and> outputBuffer (pool_protocols (sendAll pool) 1) = None"
  using autosend_serves_everybody [OF one_player_reach]
  by (simp add: Let_def new_pool_def addProtocolToAutosend_def scheduleSendAll_def new_protocol_def)

text \<open>the pool may run more than one timer: when the only protocol leaves and another arrives
  before the next tick, a second task is scheduled beside the first, and as every tick schedules
  the next while there are protocols, both go on.\<close>

theorem autosend_timers_multiply:
  "\<exists>pool. pool_reach pool \<and> length (bufferedProtocols pool) = 1 \<and> scheduled pool = 2 \<and>
     pool_reach (sendAll (pool\<lparr>scheduled := scheduled pool - 1\<rparr>)) \<and>
     scheduled (sendAll (pool\<lparr>scheduled := scheduled pool - 1\<rparr>)) = 2"
proof -
  let ?p1 = "addProtocolToAutosend 1 (new_pool (\<lambda>i. new_protocol))"
  let ?p2 = "removeProtocolFromAutosend 1 ?p1"
  let ?p3 = "addProtocolToAutosend 2 ?p2"
  have r2: "pool_reach ?p2" by (rule pool_reach.step [OF one_player_reach pool_step.remove])
  have b2: "bufferedProtocols ?p2 = []" "scheduled ?p2 = 1"
    by (simp_all add: removeProtocolFromAutosend_def addProtocolToAutosend_def scheduleSendAll_def new_pool_def Let_def)
  have r3: "pool_reach ?p3"
    by (rule pool_reach.step [OF r2 pool_step.add]) (simp only: b2 list.set empty_iff not_False_eq_True)
  have b3: "bufferedProtocols ?p3 = [2]" "scheduled ?p3 = 2"
    using b2 by (simp_all add: addProtocolToAutosend_def scheduleSendAll_def Let_def)
  have "pool_reach (sendAll (?p3\<lparr>scheduled := scheduled ?p3 - 1\<rparr>))"
    by (rule pool_reach.step [OF r3 pool_step.tick]) (simp only: b3 zero_less_numeral)
  with r3 b3 show ?thesis
    by (intro exI [of _ ?p3]) (simp add: sendAll_fields)
qed

end
