(* ===== verification/Party.thy ===== *)
theory Party
  imports Positions "HOL-Library.Monad_Syntax"
begin

text \<open>
  Parties: party.h, party.cpp, and the party operations of player.cpp and game.cpp.  A method of
  a party runs on a state with the party itself (\<open>this\<close>), the players, whether the party is still
  allocated, and the messages and icon updates it has asked for.  The world maps party pointers
  to parties, and each game operation looks its objects up as the code does.  The scripts that
  may refuse a step are the three answers in the environment.  The main result is that the
  pointers between players and parties stay consistent, so that none dangles, unless a script refuses
  that a party disbands or that a player leaves at logout; what happens then is shown at the end.
\<close>

section \<open>State\<close>

type_synonym player_id = u32
type_synonym party_ptr = nat

record PartyPlayer =
  pname :: string
  female :: bool
  plevel :: u32
  ppos :: Position
  fromVocation :: u32
  notGainInFight :: bool
  inFight :: bool
  party_of :: "party_ptr option"
  invitePartyList :: "party_ptr list"

record Party =
  leader :: player_id
  memberList :: "player_id list"
  inviteList :: "player_id list"
  ticksMap :: "player_id \<rightharpoonup> int"
  extraExpPercent :: nat
  sharedExpActive :: bool
  sharedExpEnabled :: bool

datatype party_event =
    TextMessage player_id string
  | CreatureShield player_id player_id
  | CreatureSkull player_id player_id
  | ClosePrivate player_id
  | UpdateShield player_id
  | UpdateHelpers player_id

record PartyState =
  this :: Party
  alive :: bool
  pl :: "player_id \<Rightarrow> PartyPlayer"
  out :: "party_event list"

record PartyEnv =
  now :: int
  pz_locked :: int
  onJoin :: bool
  onLeave :: bool
  onDisband :: bool

definition emits :: "party_event list \<Rightarrow> PartyState \<Rightarrow> PartyState" where
  "emits es s = s\<lparr>out := out s @ es\<rparr>"

definition upd_player :: "player_id \<Rightarrow> (PartyPlayer \<Rightarrow> PartyPlayer) \<Rightarrow> PartyState \<Rightarrow> PartyState" where
  "upd_player i f s = s\<lparr>pl := (pl s)(i := f (pl s i))\<rparr>"

definition setParty :: "party_ptr option \<Rightarrow> player_id \<Rightarrow> PartyState \<Rightarrow> PartyState" where
  "setParty h i = upd_player i (\<lambda>p. p\<lparr>party_of := h\<rparr>)"

definition addPartyInvitation :: "party_ptr \<Rightarrow> player_id \<Rightarrow> PartyState \<Rightarrow> PartyState" where
  "addPartyInvitation h i =
     upd_player i (\<lambda>p. if h \<in> set (invitePartyList p) then p else p\<lparr>invitePartyList := h # invitePartyList p\<rparr>)"

definition removePartyInvitation :: "party_ptr \<Rightarrow> player_id \<Rightarrow> PartyState \<Rightarrow> PartyState" where
  "removePartyInvitation h i = upd_player i (\<lambda>p. p\<lparr>invitePartyList := removeAll h (invitePartyList p)\<rparr>)"

text \<open>\<open>sendPlayerPartyIcons\<close>.\<close>

definition partyIcons :: "player_id \<Rightarrow> player_id \<Rightarrow> party_event list" where
  "partyIcons i about = [CreatureShield i about, CreatureSkull i about]"

section \<open>Shared experience\<close>

definition empty_party :: "Party \<Rightarrow> bool" where
  "empty_party p = (memberList p = [] \<and> inviteList p = [])"

definition highest_level :: "Party \<Rightarrow> (player_id \<Rightarrow> PartyPlayer) \<Rightarrow> u32" where
  "highest_level p ps =
     foldl (\<lambda>h m. if plevel (ps m) > h then plevel (ps m) else h) (plevel (ps (leader p))) (memberList p)"

text \<open>The bound is \<open>ceil(float(highest) * 2 / 3)\<close>; the single-precision quotient has the same
  ceiling for every level below 2 ^ 20.\<close>

definition min_level :: "u32 \<Rightarrow> u32" where
  "min_level h = of_nat ((unat h * 2 + 2) div 3)"

definition canUseSharedExperience :: "PartyEnv \<Rightarrow> Party \<Rightarrow> (player_id \<Rightarrow> PartyPlayer) \<Rightarrow> player_id \<Rightarrow> bool" where
  "canUseSharedExperience env p ps i =
     (if memberList p = [] then False
      else if plevel (ps i) < min_level (highest_level p ps) then False
      else if \<not> areInRange3 30 30 1 (ppos (ps (leader p))) (ppos (ps i)) then False
      else if notGainInFight (ps i) then True
      else case ticksMap p i of
             None \<Rightarrow> False
           | Some t \<Rightarrow> \<not> ((of_int (now env - t) :: u64) > of_int (pz_locked env)))"

definition canEnableSharedExperience :: "PartyEnv \<Rightarrow> Party \<Rightarrow> (player_id \<Rightarrow> PartyPlayer) \<Rightarrow> bool" where
  "canEnableSharedExperience env p ps =
     (canUseSharedExperience env p ps (leader p) \<and> list_all (canUseSharedExperience env p ps) (memberList p))"

definition updateAllPartyIcons :: "PartyState \<Rightarrow> PartyState" where
  "updateAllPartyIcons s =
     (let l = leader (this s); ms = memberList (this s) in
      emits (concat (map (\<lambda>m. map (CreatureShield m) ms @ [CreatureShield m l, CreatureShield l m]) ms) @
             [CreatureShield l l]) s)"

definition updateSharedExperience :: "PartyEnv \<Rightarrow> PartyState \<Rightarrow> PartyState" where
  "updateSharedExperience env s =
     (if sharedExpActive (this s) then
        let result = canEnableSharedExperience env (this s) (pl s) in
        if result \<noteq> sharedExpEnabled (this s)
        then updateAllPartyIcons (s\<lparr>this := (this s)\<lparr>sharedExpEnabled := result\<rparr>\<rparr>) else s
      else s)"

text \<open>The rate is kept in percent.  Vocation 0 is \<open>VOCATION_NONE\<close>.\<close>

definition updateVocationsList :: "PartyState \<Rightarrow> PartyState" where
  "updateVocationsList s =
     (let vs = filter (\<lambda>v. v \<noteq> 0) (map (\<lambda>i. fromVocation (pl s i)) (leader (this s) # memberList (this s)));
          n = length (remdups vs)
      in s\<lparr>this := (this s)\<lparr>extraExpPercent := (if n > 1 then n * (10 + (n - 1) * 5) else 20)\<rparr>\<rparr>)"

definition setSharedExperience :: "PartyEnv \<Rightarrow> player_id option \<Rightarrow> bool \<Rightarrow> PartyState \<Rightarrow> bool \<times> PartyState" where
  "setSharedExperience env player active s =
     (if player \<noteq> Some (leader (this s)) then (False, s)
      else if sharedExpActive (this s) = active then (True, s)
      else
        let l = leader (this s);
            s1 = s\<lparr>this := (this s)\<lparr>sharedExpActive := active\<rparr>\<rparr>;
            s2 = (if active then
                    let e = canEnableSharedExperience env (this s1) (pl s1);
                        s' = s1\<lparr>this := (this s1)\<lparr>sharedExpEnabled := e\<rparr>\<rparr>
                    in if e then emits [TextMessage l ''Shared Experience is now active.''] s'
                       else emits [TextMessage l ''Shared Experience has been activated, but some members of your party are inactive.''] s'
                  else emits [TextMessage l ''Shared Experience has been deactivated.''] s1)
        in (True, updateAllPartyIcons s2))"

definition updatePlayerTicks :: "PartyEnv \<Rightarrow> player_id \<Rightarrow> u32 \<Rightarrow> PartyState \<Rightarrow> PartyState" where
  "updatePlayerTicks env i points s =
     (if points \<noteq> 0 \<and> \<not> notGainInFight (pl s i)
      then updateSharedExperience env (s\<lparr>this := (this s)\<lparr>ticksMap := (ticksMap (this s))(i \<mapsto> now env)\<rparr>\<rparr>) else s)"

definition clearPlayerPoints :: "PartyEnv \<Rightarrow> player_id \<Rightarrow> PartyState \<Rightarrow> PartyState" where
  "clearPlayerPoints env i s =
     (if ticksMap (this s) i \<noteq> None
      then updateSharedExperience env (s\<lparr>this := (this s)\<lparr>ticksMap := (ticksMap (this s))(i := None)\<rparr>\<rparr>) else s)"

section \<open>Messages\<close>

definition broadcastPartyMessage :: "string \<Rightarrow> bool \<Rightarrow> PartyState \<Rightarrow> PartyState" where
  "broadcastPartyMessage msg sendToInvitations s =
     emits (map (\<lambda>m. TextMessage m msg) (memberList (this s)) @ [TextMessage (leader (this s)) msg] @
            (if sendToInvitations then map (\<lambda>i. TextMessage i msg) (inviteList (this s)) else [])) s"

definition broadcastPartyLoot :: "string \<Rightarrow> PartyState \<Rightarrow> PartyState" where
  "broadcastPartyLoot loot s =
     emits (TextMessage (leader (this s)) loot # map (\<lambda>m. TextMessage m loot) (memberList (this s))) s"

section \<open>Membership\<close>

definition new_party :: "player_id \<Rightarrow> Party" where
  "new_party l = \<lparr>leader = l, memberList = [], inviteList = [], ticksMap = Map.empty, extraExpPercent = 20,
     sharedExpActive = False, sharedExpEnabled = False\<rparr>"

definition isPlayerInvited :: "player_id \<Rightarrow> Party \<Rightarrow> bool" where
  "isPlayerInvited i p = (i \<in> set (inviteList p))"

definition disband :: "PartyEnv \<Rightarrow> party_ptr \<Rightarrow> PartyState \<Rightarrow> PartyState" where
  "disband env h s =
     (if \<not> onDisband env then s
      else
        let cl = leader (this s); ms = memberList (this s);
            s1 = emits [ClosePrivate cl, UpdateShield cl, UpdateHelpers cl, CreatureSkull cl cl,
                   TextMessage cl ''Your party has been disbanded.''] (setParty None cl s);
            s2 = fold (\<lambda>i s. emits [CreatureShield cl i] (removePartyInvitation h i s)) (inviteList (this s1)) s1;
            s3 = s2\<lparr>this := (this s2)\<lparr>inviteList := []\<rparr>\<rparr>;
            s4 = fold (\<lambda>m s. emits [ClosePrivate m, TextMessage m ''Your party has been disbanded.''] (setParty None m s)) ms s3;
            s5 = emits (concat (map (\<lambda>m. UpdateShield m # map (\<lambda>other. CreatureSkull other m) ms @
                   [CreatureSkull m cl, CreatureSkull cl m, UpdateHelpers m]) ms)) s4
        in s5\<lparr>this := (this s5)\<lparr>memberList := []\<rparr>, alive := False\<rparr>)"

definition passPartyLeadership :: "PartyEnv \<Rightarrow> party_ptr \<Rightarrow> player_id option \<Rightarrow> PartyState \<Rightarrow> bool \<times> PartyState" where
  "passPartyLeadership env h player s =
     (case player of
        None \<Rightarrow> (False, s)
      | Some i \<Rightarrow>
          if leader (this s) = i \<or> party_of (pl s i) \<noteq> Some h then (False, s)
          else
            let s1 = s\<lparr>this := (this s)\<lparr>memberList := remove1 i (memberList (this s))\<rparr>\<rparr>;
                s2 = broadcastPartyMessage (pname (pl s i) @ '' is now the leader of the party.'') True s1;
                old = leader (this s2);
                s3 = s2\<lparr>this := (this s2)\<lparr>leader := i, memberList := old # memberList (this s2)\<rparr>\<rparr>;
                s4 = updateSharedExperience env s3;
                l = leader (this s4)
            in (True, emits
                  (concat (map (\<lambda>m. [CreatureShield m old, CreatureShield m l]) (memberList (this s4))) @
                   concat (map (\<lambda>m. [CreatureShield m old, CreatureShield m l]) (inviteList (this s4))) @
                   [CreatureShield l old, CreatureShield l l,
                    TextMessage i ''You are now the leader of the party.'']) s4))"

definition leaveParty :: "PartyEnv \<Rightarrow> party_ptr \<Rightarrow> player_id option \<Rightarrow> PartyState \<Rightarrow> bool \<times> PartyState" where
  "leaveParty env h player s =
     (case player of
        None \<Rightarrow> (False, s)
      | Some i \<Rightarrow>
          if party_of (pl s i) \<noteq> Some h \<and> leader (this s) \<noteq> i then (False, s)
          else if \<not> onLeave env then (False, s)
          else
            let p = this s;
                missingLeader = (leader p = i \<and> (memberList p = [] \<or> length (memberList p) = 1 \<and> inviteList p = []));
                s1 = (if leader p = i \<and> \<not> missingLeader
                      then snd (passPartyLeadership env h (Some (hd (memberList p))) s) else s);
                s2 = s1\<lparr>this := (this s1)\<lparr>memberList := remove1 i (memberList (this s1))\<rparr>\<rparr>;
                s3 = emits [ClosePrivate i, UpdateShield i, UpdateHelpers i] (setParty None i s2);
                s4 = emits (concat (map (\<lambda>m. CreatureSkull m i # partyIcons i m @ [UpdateHelpers m]) (memberList (this s3)))) s3;
                l = leader (this s4);
                s5 = emits ([CreatureSkull l i, CreatureSkull i i] @ partyIcons i l @
                       [TextMessage i ''You have left the party.'']) s4;
                s6 = updateVocationsList (updateSharedExperience env s5);
                s7 = clearPlayerPoints env i s6;
                s8 = broadcastPartyMessage (pname (pl s7 i) @ '' has left the party.'') False s7
            in (True, if missingLeader \<or> empty_party (this s8) then disband env h s8 else s8))"

definition joinParty :: "PartyEnv \<Rightarrow> party_ptr \<Rightarrow> player_id \<Rightarrow> PartyState \<Rightarrow> bool \<times> PartyState" where
  "joinParty env h i s =
     (if \<not> onJoin env then (False, s)
      else if i \<notin> set (inviteList (this s)) then (False, s)
      else
        let s1 = s\<lparr>this := (this s)\<lparr>inviteList := remove1 i (inviteList (this s))\<rparr>\<rparr>;
            s2 = broadcastPartyMessage (pname (pl s1 i) @ '' has joined the party.'') False s1;
            s3 = emits [UpdateShield i] (setParty (Some h) i s2);
            l = leader (this s3);
            s4 = emits (concat (map (\<lambda>m. CreatureSkull m i # partyIcons i m) (memberList (this s3))) @
                   [CreatureSkull i i, CreatureSkull l i] @ partyIcons i l) s3;
            s5 = s4\<lparr>this := (this s4)\<lparr>memberList := memberList (this s4) @ [i]\<rparr>\<rparr>;
            s6 = removePartyInvitation h i (emits [UpdateHelpers i] s5);
            s7 = updateVocationsList (updateSharedExperience env s6);
            leaderName = pname (pl s7 (leader (this s7)))
        in (True, emits [TextMessage i
              (''You have joined '' @ leaderName @ [CHR 0x27] @
               (if leaderName \<noteq> [] \<and> last leaderName = CHR ''s'' then '''' else ''s'') @
               '' party. Open the party channel to communicate with your companions.'')] s7))"

definition removeInvite :: "PartyEnv \<Rightarrow> party_ptr \<Rightarrow> player_id \<Rightarrow> bool \<Rightarrow> PartyState \<Rightarrow> bool \<times> PartyState" where
  "removeInvite env h i removeFromPlayer s =
     (if i \<notin> set (inviteList (this s)) then (False, s)
      else
        let s1 = s\<lparr>this := (this s)\<lparr>inviteList := remove1 i (inviteList (this s))\<rparr>\<rparr>;
            l = leader (this s1);
            s2 = emits [CreatureShield l i, CreatureShield i l] s1;
            s3 = (if removeFromPlayer then removePartyInvitation h i s2 else s2)
        in (True,
            if empty_party (this s3) then disband env h s3
            else emits (map UpdateHelpers (memberList (this s3)) @ [UpdateHelpers l]) s3))"

definition revokeInvitation :: "PartyEnv \<Rightarrow> party_ptr \<Rightarrow> player_id \<Rightarrow> PartyState \<Rightarrow> PartyState" where
  "revokeInvitation env h i s =
     (let l = leader (this s); lp = pl s l;
          s1 = emits [TextMessage i (pname lp @ '' has revoked '' @ (if female lp then ''her'' else ''his'') @ '' invitation.''),
                      TextMessage l (''Invitation for '' @ pname (pl s i) @ '' has been revoked.'')] s
      in snd (removeInvite env h i True s1))"

definition invitePlayer :: "party_ptr \<Rightarrow> player_id \<Rightarrow> PartyState \<Rightarrow> bool \<times> PartyState" where
  "invitePlayer h i s =
     (if isPlayerInvited i (this s) then (False, s)
      else
        let l = leader (this s); first = empty_party (this s);
            s1 = (if first then emits [UpdateShield l, CreatureSkull l l] s else s);
            s2 = emits [TextMessage l (pname (pl s i) @ '' has been invited.'' @
                   (if first then '' Open the party channel to communicate with your members.'' else ''''))] s1;
            s3 = s2\<lparr>this := (this s2)\<lparr>inviteList := inviteList (this s2) @ [i]\<rparr>\<rparr>;
            s4 = emits (map UpdateHelpers (memberList (this s3)) @ [UpdateHelpers l, CreatureShield l i, CreatureShield i l]) s3;
            s5 = addPartyInvitation h i s4
        in (True, emits [TextMessage i (pname (pl s5 l) @ '' has invited you to '' @
              (if female (pl s5 l) then ''her'' else ''his'') @ '' party.'')] s5))"

section \<open>The world\<close>

record PartyWorld =
  players :: "player_id \<Rightarrow> PartyPlayer"
  online :: "player_id set"
  parties :: "party_ptr \<rightharpoonup> Party"
  wout :: "party_event list"

text \<open>A call of a method through a party pointer; a pointer to no party is None.\<close>

definition run_party :: "party_ptr \<Rightarrow> (PartyState \<Rightarrow> PartyState) \<Rightarrow> PartyWorld \<Rightarrow> PartyWorld option" where
  "run_party h f w =
     (case parties w h of
        None \<Rightarrow> None
      | Some p \<Rightarrow>
          let s = f \<lparr>this = p, alive = True, pl = players w, out = wout w\<rparr>
          in Some (w\<lparr>players := pl s, wout := out s,
                     parties := (if alive s then (parties w)(h \<mapsto> this s) else (parties w)(h := None))\<rparr>))"

definition say :: "party_event list \<Rightarrow> PartyWorld \<Rightarrow> PartyWorld" where
  "say es w = w\<lparr>wout := wout w @ es\<rparr>"

definition isInviting :: "player_id \<Rightarrow> player_id \<Rightarrow> PartyWorld \<Rightarrow> bool option" where
  "isInviting i j w =
     (case party_of (players w i) of
        None \<Rightarrow> Some False
      | Some h \<Rightarrow> map_option (\<lambda>p. leader p = i \<and> isPlayerInvited j p) (parties w h))"

definition isPartner :: "player_id \<Rightarrow> player_id \<Rightarrow> PartyWorld \<Rightarrow> bool" where
  "isPartner i j w = (party_of (players w i) \<noteq> None \<and> party_of (players w i) = party_of (players w j))"

definition isLeader :: "player_id \<Rightarrow> party_ptr \<Rightarrow> PartyWorld \<Rightarrow> bool option" where
  "isLeader i h w = map_option (\<lambda>p. leader p = i) (parties w h)"

text \<open>\<open>fresh\<close> is the address a new party gets; its constructor sets the leader's pointer.\<close>

definition playerInviteToParty :: "party_ptr \<Rightarrow> player_id \<Rightarrow> player_id \<Rightarrow> PartyWorld \<Rightarrow> PartyWorld option" where
  "playerInviteToParty fresh i j w =
     (if i \<notin> online w \<or> j \<notin> online w then Some w
      else do {
        inviting \<leftarrow> isInviting j i w;
        if inviting then Some w
        else if party_of (players w j) \<noteq> None
        then Some (say [TextMessage i (pname (players w j) @ '' is already in a party.'')] w)
        else (case party_of (players w i) of
          None \<Rightarrow>
            run_party fresh (\<lambda>s. snd (invitePlayer fresh j (setParty (Some fresh) i s)))
              (w\<lparr>parties := (parties w)(fresh \<mapsto> new_party i)\<rparr>)
        | Some h \<Rightarrow> do {
            leads \<leftarrow> isLeader i h w;
            if \<not> leads then Some w else run_party h (\<lambda>s. snd (invitePlayer h j s)) w }) })"

definition playerJoinParty :: "PartyEnv \<Rightarrow> player_id \<Rightarrow> player_id \<Rightarrow> PartyWorld \<Rightarrow> PartyWorld option" where
  "playerJoinParty env i l w =
     (if i \<notin> online w \<or> l \<notin> online w then Some w
      else do {
        inviting \<leftarrow> isInviting l i w;
        if \<not> inviting then Some w
        else (case party_of (players w l) of
          None \<Rightarrow> Some w
        | Some h \<Rightarrow> do {
            leads \<leftarrow> isLeader l h w;
            if \<not> leads then Some w
            else if party_of (players w i) \<noteq> None
            then Some (say [TextMessage i ''You are already in a party.''] w)
            else run_party h (\<lambda>s. snd (joinParty env h i s)) w }) })"

definition playerRevokePartyInvitation :: "PartyEnv \<Rightarrow> player_id \<Rightarrow> player_id \<Rightarrow> PartyWorld \<Rightarrow> PartyWorld option" where
  "playerRevokePartyInvitation env i j w =
     (if i \<notin> online w then Some w
      else case party_of (players w i) of
        None \<Rightarrow> Some w
      | Some h \<Rightarrow> do {
          leads \<leftarrow> isLeader i h w;
          if \<not> leads \<or> j \<notin> online w then Some w
          else do {
            inviting \<leftarrow> isInviting i j w;
            if \<not> inviting then Some w else run_party h (revokeInvitation env h j) w } })"

definition playerPassPartyLeadership :: "PartyEnv \<Rightarrow> player_id \<Rightarrow> player_id \<Rightarrow> PartyWorld \<Rightarrow> PartyWorld option" where
  "playerPassPartyLeadership env i j w =
     (if i \<notin> online w then Some w
      else case party_of (players w i) of
        None \<Rightarrow> Some w
      | Some h \<Rightarrow> do {
          leads \<leftarrow> isLeader i h w;
          if \<not> leads \<or> j \<notin> online w \<or> \<not> isPartner i j w then Some w
          else run_party h (\<lambda>s. snd (passPartyLeadership env h (Some j) s)) w })"

definition playerLeaveParty :: "PartyEnv \<Rightarrow> player_id \<Rightarrow> PartyWorld \<Rightarrow> PartyWorld option" where
  "playerLeaveParty env i w =
     (if i \<notin> online w then Some w
      else case party_of (players w i) of
        None \<Rightarrow> Some w
      | Some h \<Rightarrow>
          if inFight (players w i) then Some w
          else run_party h (\<lambda>s. snd (leaveParty env h (Some i) s)) w)"

definition playerEnableSharedPartyExperience :: "PartyEnv \<Rightarrow> player_id \<Rightarrow> bool \<Rightarrow> PartyWorld \<Rightarrow> PartyWorld option" where
  "playerEnableSharedPartyExperience env i active w =
     (if i \<notin> online w then Some w
      else case party_of (players w i) of
        None \<Rightarrow> Some w
      | Some h \<Rightarrow>
          if inFight (players w i) then Some w
          else run_party h (\<lambda>s. snd (setSharedExperience env (Some i) active s)) w)"

text \<open>Logging out: \<open>clearPartyInvitations\<close> and the party part of \<open>Player::onRemoveCreature\<close>.\<close>

fun removeInvites :: "PartyEnv \<Rightarrow> player_id \<Rightarrow> party_ptr list \<Rightarrow> PartyWorld \<Rightarrow> PartyWorld option" where
  "removeInvites env i [] w = Some w"
| "removeInvites env i (h # hs) w =
     (case run_party h (\<lambda>s. snd (removeInvite env h i False s)) w of
        None \<Rightarrow> None | Some w' \<Rightarrow> removeInvites env i hs w')"

definition clearPartyInvitations :: "PartyEnv \<Rightarrow> player_id \<Rightarrow> PartyWorld \<Rightarrow> PartyWorld option" where
  "clearPartyInvitations env i w =
     (case removeInvites env i (invitePartyList (players w i)) w of
        None \<Rightarrow> None
      | Some w' \<Rightarrow> Some (w'\<lparr>players := (players w')(i := (players w' i)\<lparr>invitePartyList := []\<rparr>)\<rparr>))"

definition removePlayerFromParties :: "PartyEnv \<Rightarrow> player_id \<Rightarrow> PartyWorld \<Rightarrow> PartyWorld option" where
  "removePlayerFromParties env i w =
     (case clearPartyInvitations env i w of
        None \<Rightarrow> None
      | Some w1 \<Rightarrow>
          (case (case party_of (players w1 i) of
                   None \<Rightarrow> Some w1
                 | Some h \<Rightarrow> run_party h (\<lambda>s. snd (leaveParty env h (Some i) s)) w1) of
             None \<Rightarrow> None
           | Some w2 \<Rightarrow> Some (w2\<lparr>online := online w2 - {i}\<rparr>)))"

section \<open>Which party a player's pointers name\<close>

definition joined :: "party_ptr \<Rightarrow> (player_id \<Rightarrow> PartyPlayer) \<Rightarrow> player_id set" where
  "joined h ps = {i. party_of (ps i) = Some h}"

definition invited :: "party_ptr \<Rightarrow> (player_id \<Rightarrow> PartyPlayer) \<Rightarrow> player_id set" where
  "invited h ps = {i. h \<in> set (invitePartyList (ps i))}"

lemma joined_setParty:
  "joined h (pl (setParty (Some h) i s)) = insert i (joined h (pl s))"
  "joined h (pl (setParty None i s)) = joined h (pl s) - {i}"
  "g \<noteq> h \<Longrightarrow> joined g (pl (setParty (Some h) i s)) = joined g (pl s) - {i}"
  "invited h (pl (setParty x i s)) = invited h (pl s)"
  by (auto simp: joined_def invited_def setParty_def upd_player_def)

lemma invited_update:
  "invited h (pl (addPartyInvitation h i s)) = insert i (invited h (pl s))"
  "g \<noteq> h \<Longrightarrow> invited g (pl (addPartyInvitation h i s)) = invited g (pl s)"
  "invited h (pl (removePartyInvitation h i s)) = invited h (pl s) - {i}"
  "g \<noteq> h \<Longrightarrow> invited g (pl (removePartyInvitation h i s)) = invited g (pl s)"
  "joined g (pl (addPartyInvitation h i s)) = joined g (pl s)"
  "joined g (pl (removePartyInvitation h i s)) = joined g (pl s)"
  by (auto simp: joined_def invited_def addPartyInvitation_def removePartyInvitation_def upd_player_def)

lemma emits_simps [simp]:
  "this (emits es s) = this s" "alive (emits es s) = alive s" "pl (emits es s) = pl s"
  by (simp_all add: emits_def)

lemma setters_this [simp]:
  "this (setParty g i s) = this s" "alive (setParty g i s) = alive s"
  "this (addPartyInvitation h i s) = this s" "alive (addPartyInvitation h i s) = alive s"
  "this (removePartyInvitation h i s) = this s" "alive (removePartyInvitation h i s) = alive s"
  by (simp_all add: setParty_def addPartyInvitation_def removePartyInvitation_def upd_player_def)

text \<open>The helpers that only touch the experience settings.\<close>

definition same_members :: "PartyState \<Rightarrow> PartyState \<Rightarrow> bool" where
  "same_members s s' =
     (leader (this s') = leader (this s) \<and> memberList (this s') = memberList (this s) \<and>
      inviteList (this s') = inviteList (this s) \<and> alive s' = alive s \<and> pl s' = pl s)"

lemma same_members_helpers:
  "same_members s (updateAllPartyIcons s)"
  "same_members s (updateSharedExperience env s)"
  "same_members s (updateVocationsList s)"
  "same_members s (updatePlayerTicks env i n s)"
  "same_members s (clearPlayerPoints env i s)"
  "same_members s (broadcastPartyMessage msg b s)"
  "same_members s (broadcastPartyLoot msg s)"
  "same_members s (snd (setSharedExperience env p a s))"
  by (simp_all add: same_members_def updateAllPartyIcons_def updateSharedExperience_def updateVocationsList_def
      updatePlayerTicks_def clearPlayerPoints_def broadcastPartyMessage_def broadcastPartyLoot_def
      setSharedExperience_def Let_def)

lemmas helper_simps [simp] = same_members_helpers [unfolded same_members_def]

section \<open>What each method keeps\<close>

text \<open>
  A party agrees with the players' pointers; \<open>X\<close> are players whose invitations are about to be
  dropped all at once and do not count.
\<close>

definition party_ok :: "player_id set \<Rightarrow> party_ptr \<Rightarrow> Party \<Rightarrow> (player_id \<Rightarrow> PartyPlayer) \<Rightarrow> bool" where
  [inv_defs]: "party_ok X h p ps =
     (distinct (leader p # memberList p) \<and> distinct (inviteList p) \<and>
      joined h ps = set (leader p # memberList p) \<and> invited h ps - X = set (inviteList p))"

definition gone :: "player_id set \<Rightarrow> party_ptr \<Rightarrow> (player_id \<Rightarrow> PartyPlayer) \<Rightarrow> bool" where
  [inv_defs]: "gone X h ps = (joined h ps = {} \<and> invited h ps - X = {})"

definition others_same :: "party_ptr \<Rightarrow> (player_id \<Rightarrow> PartyPlayer) \<Rightarrow> (player_id \<Rightarrow> PartyPlayer) \<Rightarrow> bool" where
  [inv_defs]: "others_same h ps ps' = (\<forall>g. g \<noteq> h \<longrightarrow> joined g ps' = joined g ps \<and> invited g ps' = invited g ps)"

text \<open>After a method the party is deleted and nobody points to it, or it is consistent and not empty.\<close>

definition outcome :: "player_id set \<Rightarrow> party_ptr \<Rightarrow> (player_id \<Rightarrow> PartyPlayer) \<Rightarrow> PartyState \<Rightarrow> bool" where
  [inv_defs]: "outcome X h ps s =
     ((if alive s then party_ok X h (this s) (pl s) \<and> \<not> empty_party (this s) else gone X h (pl s)) \<and>
      others_same h ps (pl s))"

lemma fold_uninvite:
  fixes cl :: player_id and h :: party_ptr
  defines "f \<equiv> (\<lambda>i s. emits [CreatureShield cl i] (removePartyInvitation h i s))"
  shows "this (fold f is s) = this s" and "alive (fold f is s) = alive s"
    and "joined g (pl (fold f is s)) = joined g (pl s)"
    and "invited h (pl (fold f is s)) = invited h (pl s) - set is"
    and "g \<noteq> h \<Longrightarrow> invited g (pl (fold f is s)) = invited g (pl s)"
  by (induction "is" arbitrary: s) (auto simp: f_def invited_update)

lemma fold_unjoin:
  fixes ev :: "player_id \<Rightarrow> party_event list"
  defines "f \<equiv> (\<lambda>m s. emits (ev m) (setParty None m s))"
  shows "this (fold f ms s) = this s" and "alive (fold f ms s) = alive s"
    and "joined g (pl (fold f ms s)) = joined g (pl s) - set ms"
    and "invited g (pl (fold f ms s)) = invited g (pl s)"
  by (induction ms arbitrary: s) (auto simp: f_def joined_setParty)

lemma disband_effect:
  assumes "onDisband env"
  shows "\<not> alive (disband env h s)"
    and "joined g (pl (disband env h s)) = joined g (pl s) - set (leader (this s) # memberList (this s))"
    and "invited h (pl (disband env h s)) = invited h (pl s) - set (inviteList (this s))"
    and "g \<noteq> h \<Longrightarrow> invited g (pl (disband env h s)) = invited g (pl s)"
  using assms by (auto simp: disband_def Let_def fold_uninvite fold_unjoin joined_setParty)

lemma joined_one: "i \<in> joined g ps \<Longrightarrow> i \<in> joined h ps \<Longrightarrow> g = h"
  by (simp add: joined_def)

lemma disband_outcome:
  assumes "onDisband env" and "joined h (pl s) \<subseteq> set (leader (this s) # memberList (this s))"
    and "\<And>g. g \<noteq> h \<Longrightarrow> joined g (pl s) \<inter> set (leader (this s) # memberList (this s)) = {}"
    and "invited h (pl s) - X \<subseteq> set (inviteList (this s))"
    and "others_same h ps (pl s)"
  shows "outcome X h ps (disband env h s)"
  using assms(2-5) disband_effect [OF assms(1), where h = h and s = s]
  by (auto simp: outcome_def gone_def others_same_def)

lemma pass_effect:
  assumes "party_ok X h (this s) (pl s)" and "i \<in> set (memberList (this s))"
  shows "fst (passPartyLeadership env h (Some i) s)"
    and "leader (this (snd (passPartyLeadership env h (Some i) s))) = i"
    and "memberList (this (snd (passPartyLeadership env h (Some i) s))) =
      leader (this s) # remove1 i (memberList (this s))"
    and "inviteList (this (snd (passPartyLeadership env h (Some i) s))) = inviteList (this s)"
    and "alive (snd (passPartyLeadership env h (Some i) s)) = alive s"
    and "pl (snd (passPartyLeadership env h (Some i) s)) = pl s"
proof -
  have "party_of (pl s i) = Some h" and "leader (this s) \<noteq> i"
    using assms by (auto simp: party_ok_def joined_def)
  then show "fst (passPartyLeadership env h (Some i) s)"
    and "leader (this (snd (passPartyLeadership env h (Some i) s))) = i"
    and "memberList (this (snd (passPartyLeadership env h (Some i) s))) =
      leader (this s) # remove1 i (memberList (this s))"
    and "inviteList (this (snd (passPartyLeadership env h (Some i) s))) = inviteList (this s)"
    and "alive (snd (passPartyLeadership env h (Some i) s)) = alive s"
    and "pl (snd (passPartyLeadership env h (Some i) s)) = pl s"
    by (simp_all add: passPartyLeadership_def Let_def)
qed

lemma pass_outcome:
  assumes "party_ok X h (this s) (pl s)" and "\<not> empty_party (this s)" and "alive s" and "others_same h ps (pl s)"
  shows "outcome X h ps (snd (passPartyLeadership env h (Some i) s))"
proof (cases "leader (this s) = i \<or> party_of (pl s i) \<noteq> Some h")
  case True
  then show ?thesis using assms by (auto simp: passPartyLeadership_def outcome_def)
next
  case False
  then have "i \<in> joined h (pl s)" and "i \<noteq> leader (this s)" by (auto simp: joined_def)
  then have "i \<in> set (memberList (this s))" using assms(1) by (simp add: party_ok_def)
  note e = pass_effect [OF assms(1) this, of env]
  have "distinct (leader (this s) # memberList (this s))" using assms(1) by (simp add: party_ok_def)
  with e assms \<open>i \<in> set (memberList (this s))\<close> show ?thesis
    by (auto simp: outcome_def party_ok_def empty_party_def notin_set_remove1)
qed

lemma invite_outcome:
  assumes "party_ok X h (this s) (pl s)" and "alive s" and "others_same h ps (pl s)" and "i \<notin> X"
  shows "outcome X h ps (snd (invitePlayer h i s))"
proof (cases "i \<in> set (inviteList (this s))")
  case True
  then have "\<not> empty_party (this s)" by (auto simp: empty_party_def)
  with True assms show ?thesis by (simp add: invitePlayer_def isPlayerInvited_def outcome_def)
next
  case False
  with assms show ?thesis
    by (auto simp: invitePlayer_def isPlayerInvited_def outcome_def Let_def party_ok_def empty_party_def
        invited_update others_same_def)
qed

lemma join_outcome:
  assumes "party_ok X h (this s) (pl s)" and "\<not> empty_party (this s)" and "alive s" and "others_same h ps (pl s)"
    and "party_of (pl s i) = None" and "i \<notin> X"
  shows "outcome X h ps (snd (joinParty env h i s))"
proof (cases "onJoin env \<and> i \<in> set (inviteList (this s))")
  case False
  with assms show ?thesis by (auto simp: joinParty_def outcome_def)
next
  case True
  have n: "i \<notin> joined g (pl s)" for g using assms(5) by (simp add: joined_def)
  have m: "i \<notin> joined g ps" if "g \<noteq> h" for g
    using n [of g] that assms(4) by (simp add: others_same_def)
  from True assms n [of h] show ?thesis
    by (auto simp: joinParty_def outcome_def Let_def party_ok_def empty_party_def others_same_def
        joined_setParty invited_update set_remove1_eq n m)
qed

text \<open>Leaving, up to the decision whether the party goes on.\<close>

definition new_leader :: "player_id \<Rightarrow> Party \<Rightarrow> player_id" where
  "new_leader i p =
     (if leader p = i \<and> \<not> (memberList p = [] \<or> length (memberList p) = 1 \<and> inviteList p = [])
      then hd (memberList p) else leader p)"

lemma pl_setParty_cong: "pl s = pl s' \<Longrightarrow> pl (setParty x i s) = pl (setParty x i s')"
  by (simp add: setParty_def upd_player_def)

lemma leave_unfold:
  assumes "party_ok X h (this s) (pl s)" and "i \<in> set (leader (this s) # memberList (this s))" and "onLeave env"
  obtains s8 where
    "snd (leaveParty env h (Some i) s) = (if new_leader i (this s) = i \<or> empty_party (this s8) then disband env h s8 else s8)"
    and "leader (this s8) = new_leader i (this s)"
    and "memberList (this s8) = remove1 (new_leader i (this s)) (remove1 i (memberList (this s)))"
    and "inviteList (this s8) = inviteList (this s)" and "alive s8 = alive s"
    and "pl s8 = pl (setParty None i s)"
proof -
  let ?p = "this s"
  define missing where "missing = (leader ?p = i \<and> (memberList ?p = [] \<or> length (memberList ?p) = 1 \<and> inviteList ?p = []))"
  define s1 where "s1 = (if leader ?p = i \<and> \<not> missing
      then snd (passPartyLeadership env h (Some (hd (memberList ?p))) s) else s)"
  define s2 where "s2 = s1\<lparr>this := (this s1)\<lparr>memberList := remove1 i (memberList (this s1))\<rparr>\<rparr>"
  define s3 where "s3 = emits [ClosePrivate i, UpdateShield i, UpdateHelpers i] (setParty None i s2)"
  define s4 where "s4 = emits (concat (map (\<lambda>m. CreatureSkull m i # partyIcons i m @ [UpdateHelpers m]) (memberList (this s3)))) s3"
  define s5 where "s5 = emits ([CreatureSkull (leader (this s4)) i, CreatureSkull i i] @ partyIcons i (leader (this s4)) @
      [TextMessage i ''You have left the party.'']) s4"
  define s7 where "s7 = clearPlayerPoints env i (updateVocationsList (updateSharedExperience env s5))"
  define s8 where "s8 = broadcastPartyMessage (pname (pl s7 i) @ '' has left the party.'') False s7"
  have d: "distinct (leader ?p # memberList ?p)" using assms(1) by (simp add: party_ok_def)
  have in_party: "party_of (pl s i) = Some h" using assms(1,2) by (auto simp: party_ok_def joined_def)
  have m: "missing = (new_leader i ?p = i)"
  proof (cases "leader ?p = i \<and> \<not> missing")
    case True
    then have "memberList ?p \<noteq> []" by (auto simp: missing_def)
    then have "hd (memberList ?p) \<in> set (memberList ?p)" by simp
    then have "hd (memberList ?p) \<noteq> i" using d True by (metis distinct.simps(2))
    with True show ?thesis by (simp add: new_leader_def missing_def)
  next
    case False
    then show ?thesis by (auto simp: new_leader_def missing_def)
  qed
  have s1: "leader (this s1) = new_leader i ?p" "inviteList (this s1) = inviteList ?p" "alive s1 = alive s" "pl s1 = pl s"
    "remove1 i (memberList (this s1)) = remove1 (new_leader i ?p) (remove1 i (memberList ?p))"
  proof -
    have "leader (this s1) = new_leader i ?p \<and> inviteList (this s1) = inviteList ?p \<and> alive s1 = alive s \<and> pl s1 = pl s \<and>
        remove1 i (memberList (this s1)) = remove1 (new_leader i ?p) (remove1 i (memberList ?p))"
    proof (cases "leader ?p = i \<and> \<not> missing")
      case True
      then have ne: "memberList ?p \<noteq> []" by (auto simp: missing_def)
      then have h: "hd (memberList ?p) \<in> set (memberList ?p)" by simp
      from True ne have n: "new_leader i ?p = hd (memberList ?p)" by (auto simp: new_leader_def missing_def)
      have "remove1 i (memberList ?p) = memberList ?p" using d True by (auto simp: remove1_idem)
      with True n pass_effect [OF assms(1) h, of env] show ?thesis by (simp add: s1_def)
    next
      case False
      then have "new_leader i ?p = leader ?p" by (auto simp: new_leader_def missing_def)
      moreover have "leader ?p \<notin> set (remove1 i (memberList ?p))"
        using d by (auto dest: notin_set_remove1)
      moreover have "s1 = s" using False by (auto simp: s1_def)
      ultimately show ?thesis by (simp add: remove1_idem)
    qed
    then show "leader (this s1) = new_leader i ?p" "inviteList (this s1) = inviteList ?p" "alive s1 = alive s" "pl s1 = pl s"
      "remove1 i (memberList (this s1)) = remove1 (new_leader i ?p) (remove1 i (memberList ?p))" by simp_all
  qed
  have eq: "snd (leaveParty env h (Some i) s) = (if missing \<or> empty_party (this s8) then disband env h s8 else s8)"
    using in_party assms(3)
    by (simp add: leaveParty_def Let_def missing_def s1_def s2_def s3_def s4_def s5_def s7_def s8_def)
  have "pl s8 = pl (setParty None i s)"
    using pl_setParty_cong [of s2 s None i] s1 by (simp add: s8_def s7_def s5_def s4_def s3_def s2_def)
  then show ?thesis
    using that [of s8] eq m s1 by (simp add: s8_def s7_def s5_def s4_def s3_def s2_def)
qed

lemma leave_outcome:
  assumes "party_ok X h (this s) (pl s)" and "\<not> empty_party (this s)" and "alive s"
    and "others_same h ps (pl s)" and "onDisband env"
  shows "outcome X h ps (snd (leaveParty env h (Some i) s))"
proof (cases "i \<in> set (leader (this s) # memberList (this s)) \<and> onLeave env")
  case False
  then have "i \<notin> joined h (pl s) \<or> \<not> onLeave env" using assms(1) by (auto simp: party_ok_def)
  then have "snd (leaveParty env h (Some i) s) = s"
    using False by (auto simp: leaveParty_def joined_def)
  with assms show ?thesis by (simp add: outcome_def)
next
  case True
  let ?p = "this s" let ?l = "new_leader i (this s)"
  from True obtain s8 where s8:
    "snd (leaveParty env h (Some i) s) = (if ?l = i \<or> empty_party (this s8) then disband env h s8 else s8)"
    "leader (this s8) = ?l" "memberList (this s8) = remove1 ?l (remove1 i (memberList ?p))"
    "inviteList (this s8) = inviteList ?p" "alive s8 = alive s" "pl s8 = pl (setParty None i s)"
    using leave_unfold [OF assms(1), of i env] by blast
  have d: "distinct (leader ?p # memberList ?p)" "joined h (pl s) = set (leader ?p # memberList ?p)"
    "invited h (pl s) - X = set (inviteList ?p)" "distinct (inviteList ?p)"
    using assms(1) by (simp_all add: party_ok_def)
  have l: "?l \<in> set (leader ?p # memberList ?p)" by (auto simp: new_leader_def)
  have i: "i \<in> joined h (pl s)" using True d(2) by simp
  have j: "joined h (pl s8) = set (leader ?p # memberList ?p) - {i}"
    using s8(6) d(2) by (simp add: joined_setParty)
  have stay: "leader ?p \<in> {i, ?l}" by (simp add: new_leader_def)
  have ms: "set (leader (this s8) # memberList (this s8)) = insert ?l (set (leader ?p # memberList ?p) - {i})"
  proof -
    have "set (memberList (this s8)) = set (memberList ?p) - {i} - {?l}"
      using d(1) by (simp add: s8(3) set_remove1_eq distinct_remove1)
    then show ?thesis using stay by (simp only: s8(2) list.set) blast
  qed
  have o: "others_same h ps (pl s8)"
    unfolding others_same_def
  proof (intro allI impI)
    fix g
    assume g: "g \<noteq> h"
    then have "i \<notin> joined g (pl s)" using i joined_one [of i g "pl s" h] by blast
    with g assms(4) show "joined g (pl s8) = joined g ps \<and> invited g (pl s8) = invited g ps"
      by (simp add: s8(6) joined_setParty others_same_def)
  qed
  have inv: "invited h (pl s8) - X = set (inviteList (this s8))"
    using s8(4,6) d(3) by (simp add: joined_setParty)
  have sep: "joined g (pl s8) \<inter> set (leader (this s8) # memberList (this s8)) = {}" if "g \<noteq> h" for g
  proof -
    have "joined g (pl s8) = joined g (pl s) - {i}" using s8(6) by (simp add: joined_setParty)
    moreover have "set (leader (this s8) # memberList (this s8)) \<subseteq> joined h (pl s)"
      using ms l d(2) by auto
    ultimately show ?thesis using that joined_one [of _ g "pl s" h] by auto
  qed
  show ?thesis
  proof (cases "?l = i \<or> empty_party (this s8)")
    case True
    have "outcome X h ps (disband env h s8)"
      by (rule disband_outcome [OF assms(5) _ sep _ o]) (use j ms inv in auto)
    with True s8(1) show ?thesis by simp
  next
    case False
    then have "set (leader (this s8) # memberList (this s8)) = joined h (pl s8)"
      using ms j l by auto
    moreover have "distinct (leader (this s8) # memberList (this s8))"
      using d(1) by (simp add: s8(2,3))
    ultimately have "party_ok X h (this s8) (pl s8)"
      using inv d(4) s8(4) by (simp add: party_ok_def)
    with False s8(1,5) assms(3) o show ?thesis by (simp add: outcome_def)
  qed
qed

text \<open>Withdrawing an invitation, with the player's own list updated now or by the caller.\<close>

lemma removeInvite_outcome:
  assumes "party_ok X h (this s) (pl s)" and "\<not> empty_party (this s)" and "alive s"
    and "others_same h ps (pl s)" and "onDisband env" and "i \<notin> X"
  shows "outcome (if b then X else insert i X) h ps (snd (removeInvite env h i b s))"
proof (cases "i \<in> set (inviteList (this s))")
  case False
  have "invited h (pl s) - insert i X = set (inviteList (this s))"
    using assms(1) False by (auto simp: party_ok_def)
  with False assms show ?thesis by (auto simp: removeInvite_def outcome_def party_ok_def)
next
  case True
  let ?X = "if b then X else insert i X"
  define s1 where "s1 = emits [CreatureShield (leader (this s)) i, CreatureShield i (leader (this s))]
      (s\<lparr>this := (this s)\<lparr>inviteList := remove1 i (inviteList (this s))\<rparr>\<rparr>)"
  define s2 where "s2 = (if b then removePartyInvitation h i s1 else s1)"
  have eq: "snd (removeInvite env h i b s) =
      (if empty_party (this s2) then disband env h s2
       else emits (map UpdateHelpers (memberList (this s2)) @ [UpdateHelpers (leader (this s))]) s2)"
    using True by (simp add: removeInvite_def Let_def s1_def s2_def)
  have f: "leader (this s2) = leader (this s)" "memberList (this s2) = memberList (this s)"
    "inviteList (this s2) = remove1 i (inviteList (this s))" "alive s2 = alive s"
    "joined g (pl s2) = joined g (pl s)" for g
    by (simp_all add: s2_def s1_def invited_update)
  have "invited h (pl s2) - ?X = set (inviteList (this s2))"
    using assms(1,6) by (auto simp: f s2_def s1_def invited_update party_ok_def set_remove1_eq)
  moreover have "invited g (pl s2) = invited g (pl s)" if "g \<noteq> h" for g
    using that by (simp add: s2_def s1_def invited_update)
  ultimately have k: "party_ok ?X h (this s2) (pl s2)" "others_same h ps (pl s2)"
    using assms(1,4) f by (simp_all add: party_ok_def others_same_def)
  show ?thesis
  proof (cases "empty_party (this s2)")
    case True
    have "outcome ?X h ps (disband env h s2)"
      using k joined_one [of _ _ "pl s2" h]
      by (intro disband_outcome [OF assms(5)]) (auto simp: party_ok_def)
    with True eq show ?thesis by simp
  next
    case False
    with eq k assms(3) f show ?thesis by (simp add: outcome_def)
  qed
qed

lemma revoke_outcome:
  assumes "party_ok X h (this s) (pl s)" and "\<not> empty_party (this s)" and "alive s"
    and "others_same h ps (pl s)" and "onDisband env" and "i \<notin> X"
  shows "outcome X h ps (revokeInvitation env h i s)"
  unfolding revokeInvitation_def Let_def
  using removeInvite_outcome [where b = True and s = "emits es s" for es] assms by (simp del: emits_simps add: emits_simps)

lemma settings_outcome:
  "same_members s s' \<Longrightarrow> party_ok X h (this s) (pl s) \<Longrightarrow> \<not> empty_party (this s) \<Longrightarrow> alive s \<Longrightarrow>
     others_same h ps (pl s) \<Longrightarrow> outcome X h ps s'"
  by (simp add: same_members_def outcome_def party_ok_def empty_party_def)

text \<open>
  What every method does to the players' own lists: they stay free of duplicates, and only the
  players in \<open>A\<close> can get into a party or an invitation they were not in.
\<close>

definition tidy :: "player_id set \<Rightarrow> (player_id \<Rightarrow> PartyPlayer) \<Rightarrow> (player_id \<Rightarrow> PartyPlayer) \<Rightarrow> bool" where
  [inv_defs]: "tidy A ps ps' =
     ((\<forall>i. distinct (invitePartyList (ps i)) \<longrightarrow> distinct (invitePartyList (ps' i))) \<and>
      (\<forall>g. joined g ps' \<subseteq> joined g ps \<union> A \<and> invited g ps' \<subseteq> invited g ps \<union> A))"

lemma tidy_refl [simp]: "tidy A ps ps"
  by (simp add: tidy_def)

lemma tidy_trans: "tidy A ps ps' \<Longrightarrow> tidy A ps' ps'' \<Longrightarrow> tidy A ps ps''"
  unfolding tidy_def by blast

lemma tidy_mono: "tidy A ps ps' \<Longrightarrow> A \<subseteq> B \<Longrightarrow> tidy B ps ps'"
  unfolding tidy_def by blast

lemma tidy_setters:
  "tidy {} (pl s) (pl (setParty None i s))" "tidy {i} (pl s) (pl (setParty (Some h) i s))"
  "tidy {i} (pl s) (pl (addPartyInvitation h i s))" "tidy {} (pl s) (pl (removePartyInvitation h i s))"
  by (auto simp: tidy_def joined_def invited_def setParty_def addPartyInvitation_def removePartyInvitation_def
      upd_player_def distinct_removeAll split: if_splits)

lemma tidy_folds:
  fixes ev :: "player_id \<Rightarrow> party_event list"
  shows "tidy {} (pl s) (pl (fold (\<lambda>i s. emits (ev i) (removePartyInvitation h i s)) is s))"
    and "tidy {} (pl s) (pl (fold (\<lambda>i s. emits (ev i) (setParty None i s)) is s))"
proof (induction "is" arbitrary: s)
  case (Cons i "is")
  case 1
  then show ?case
    using Cons.IH(1) [of "emits (ev i) (removePartyInvitation h i s)"] tidy_setters(4) [of s h i]
    by (auto intro: tidy_trans)
  case 2
  then show ?case
    using Cons.IH(2) [of "emits (ev i) (setParty None i s)"] tidy_setters(1) [of s i]
    by (auto intro: tidy_trans)
qed simp_all

lemma tidy_disband: "tidy {} (pl s) (pl (disband env h s))"
proof (cases "onDisband env")
  case True
  let ?cl = "leader (this s)"
  let ?s1 = "emits [ClosePrivate ?cl, UpdateShield ?cl, UpdateHelpers ?cl, CreatureSkull ?cl ?cl,
     TextMessage ?cl ''Your party has been disbanded.''] (setParty None ?cl s)"
  let ?s2 = "fold (\<lambda>i s. emits [CreatureShield ?cl i] (removePartyInvitation h i s)) (inviteList (this s)) ?s1"
  let ?s3 = "?s2\<lparr>this := (this ?s2)\<lparr>inviteList := []\<rparr>\<rparr>"
  let ?s4 = "fold (\<lambda>m s. emits [ClosePrivate m, TextMessage m ''Your party has been disbanded.''] (setParty None m s))
     (memberList (this s)) ?s3"
  have 1: "tidy {} (pl s) (pl ?s1)" using tidy_setters(1) [of s ?cl] by simp
  have 2: "tidy {} (pl ?s1) (pl ?s3)"
    using tidy_folds(1) [of ?s1 "\<lambda>i. [CreatureShield ?cl i]" h "inviteList (this s)"] by simp
  have 3: "tidy {} (pl ?s3) (pl ?s4)" by (rule tidy_folds(2))
  have "pl (disband env h s) = pl ?s4" using True by (simp add: disband_def Let_def)
  then show ?thesis using tidy_trans [OF tidy_trans [OF 1 2] 3] by simp
qed (simp add: disband_def)

lemma tidy_leave:
  assumes "party_ok X h (this s) (pl s)"
  shows "tidy {} (pl s) (pl (snd (leaveParty env h (Some i) s)))"
    and "i \<in> joined h (pl s) \<Longrightarrow> onLeave env \<Longrightarrow> i \<notin> joined g (pl (snd (leaveParty env h (Some i) s)))"
proof -
  have both: "tidy {} (pl s) (pl (snd (leaveParty env h (Some i) s))) \<and>
      (i \<in> joined h (pl s) \<longrightarrow> onLeave env \<longrightarrow> i \<notin> joined g (pl (snd (leaveParty env h (Some i) s))))"
  proof (cases "i \<in> set (leader (this s) # memberList (this s)) \<and> onLeave env")
    case False
    then have "i \<notin> joined h (pl s) \<or> \<not> onLeave env" using assms(1) by (auto simp: party_ok_def)
    with False show ?thesis by (auto simp: leaveParty_def joined_def)
  next
    case True
    then obtain s8 where s8: "snd (leaveParty env h (Some i) s) =
        (if new_leader i (this s) = i \<or> empty_party (this s8) then disband env h s8 else s8)"
        "pl s8 = pl (setParty None i s)"
      using leave_unfold [OF assms, of i env] by blast
    have t: "tidy {} (pl s) (pl s8)" using tidy_setters(1) [of s i] s8(2) by simp
    have d: "tidy {} (pl s8) (pl (disband env h s8))" by (rule tidy_disband)
    have n: "i \<notin> joined g (pl s8)" using s8(2) by (simp add: joined_setParty)
    with d have "i \<notin> joined g (pl (disband env h s8))" by (auto simp: tidy_def)
    with t tidy_trans [OF t d] n s8(1) show ?thesis by simp
  qed
  then show "tidy {} (pl s) (pl (snd (leaveParty env h (Some i) s)))"
    and "i \<in> joined h (pl s) \<Longrightarrow> onLeave env \<Longrightarrow> i \<notin> joined g (pl (snd (leaveParty env h (Some i) s)))"
    by simp_all
qed

lemma tidy_pass: "tidy {} (pl s) (pl (snd (passPartyLeadership env h i s)))"
  by (simp add: passPartyLeadership_def Let_def split: option.split)

lemma tidy_join: "tidy {i} (pl s) (pl (snd (joinParty env h i s)))"
proof (cases "onJoin env \<and> i \<in> set (inviteList (this s))")
  case True
  have "tidy {i} (pl s) (pl (setParty (Some h) i s))" by (rule tidy_setters)
  moreover have "pl (snd (joinParty env h i s)) = pl (removePartyInvitation h i (setParty (Some h) i s))"
    using True by (simp add: joinParty_def Let_def removePartyInvitation_def setParty_def upd_player_def
        broadcastPartyMessage_def emits_def)
  ultimately show ?thesis
    using tidy_setters(4) [of "setParty (Some h) i s" h i] by (auto intro: tidy_trans tidy_mono)
qed (auto simp: joinParty_def)

lemma tidy_removeInvite: "tidy {} (pl s) (pl (snd (removeInvite env h i b s)))"
proof (cases "i \<in> set (inviteList (this s))")
  case True
  define s1 where "s1 = emits [CreatureShield (leader (this s)) i, CreatureShield i (leader (this s))]
      (s\<lparr>this := (this s)\<lparr>inviteList := remove1 i (inviteList (this s))\<rparr>\<rparr>)"
  define s2 where "s2 = (if b then removePartyInvitation h i s1 else s1)"
  have "tidy {} (pl s) (pl s2)" using tidy_setters(4) [of s1 h i] by (simp add: s1_def s2_def)
  moreover have "tidy {} (pl s2) (pl (disband env h s2))" by (rule tidy_disband)
  moreover have "pl (snd (removeInvite env h i b s)) = pl (if empty_party (this s2) then disband env h s2 else s2)"
    using True by (simp add: removeInvite_def Let_def s1_def s2_def)
  ultimately show ?thesis by (auto intro: tidy_trans)
qed (simp add: removeInvite_def)

lemma tidy_revoke: "tidy {} (pl s) (pl (revokeInvitation env h i s))"
proof -
  obtain es where "revokeInvitation env h i s = snd (removeInvite env h i True (emits es s))"
    by (rule that, unfold revokeInvitation_def Let_def, rule refl)
  then show ?thesis using tidy_removeInvite [of "emits es s" env h i True] by simp
qed

lemma tidy_invite: "tidy {i} (pl s) (pl (snd (invitePlayer h i s)))"
proof (cases "i \<in> set (inviteList (this s))")
  case False
  have "pl (snd (invitePlayer h i s)) = pl (addPartyInvitation h i s)"
    using False by (simp add: invitePlayer_def isPlayerInvited_def Let_def addPartyInvitation_def upd_player_def emits_def)
  with tidy_setters(3) [of i s h] show ?thesis by simp
qed (simp add: invitePlayer_def isPlayerInvited_def)

section \<open>Consistency of the world\<close>

text \<open>\<open>X h\<close> are the players whose invitation to \<open>h\<close> is about to be dropped.\<close>

definition world_inv :: "(party_ptr \<Rightarrow> player_id set) \<Rightarrow> PartyWorld \<Rightarrow> bool" where
  [inv_defs]: "world_inv X w =
     ((\<forall>h. case parties w h of
         None \<Rightarrow> gone (X h) h (players w)
       | Some p \<Rightarrow> party_ok (X h) h p (players w) \<and> \<not> empty_party p) \<and>
      (\<forall>i. distinct (invitePartyList (players w i))) \<and>
      (\<forall>g. joined g (players w) \<subseteq> online w \<and> invited g (players w) \<subseteq> online w))"

abbreviation world_ok :: "PartyWorld \<Rightarrow> bool" where
  "world_ok \<equiv> world_inv (\<lambda>_. {})"

lemma world_inv_party:
  "world_inv X w \<Longrightarrow> parties w h = Some p \<Longrightarrow> party_ok (X h) h p (players w) \<and> \<not> empty_party p"
  by (auto simp: world_inv_def dest: spec [where x = h])

lemma world_inv_none: "world_inv X w \<Longrightarrow> parties w h = None \<Longrightarrow> gone (X h) h (players w)"
  by (auto simp: world_inv_def dest: spec [where x = h])

lemma world_inv_joined: "world_inv X w \<Longrightarrow> party_of (players w i) = Some h \<Longrightarrow> \<exists>p. parties w h = Some p"
  using world_inv_none [of X w h] by (cases "parties w h") (auto simp: gone_def joined_def)

abbreviation entry :: "Party \<Rightarrow> PartyWorld \<Rightarrow> PartyState" where
  "entry p w \<equiv> \<lparr>this = p, alive = True, pl = players w, out = wout w\<rparr>"

text \<open>Storing what a method left of its party.\<close>

definition store :: "party_ptr \<Rightarrow> PartyState \<Rightarrow> PartyWorld \<Rightarrow> PartyWorld" where
  "store h s w = w\<lparr>players := pl s, wout := out s,
     parties := (if alive s then (parties w)(h \<mapsto> this s) else (parties w)(h := None))\<rparr>"

lemma run_party_store: "parties w h = Some p \<Longrightarrow> run_party h f w = Some (store h (f (entry p w)) w)"
  by (simp add: run_party_def store_def Let_def)

lemma store_fields [simp]:
  "players (store h s w) = pl s" "online (store h s w) = online w"
  "g \<noteq> h \<Longrightarrow> parties (store h s w) g = parties w g"
  by (simp_all add: store_def)

lemma store_keeps:
  assumes "world_inv X w" and "outcome Y h (players w) s"
    and "tidy A (players w) (pl s)" and "A \<subseteq> online w"
  shows "world_inv (X(h := Y)) (store h s w)"
proof -
  have o: "others_same h (players w) (pl s)" using assms(2) by (simp add: outcome_def)
  have "case parties (store h s w) g of None \<Rightarrow> gone ((X(h := Y)) g) g (pl s)
      | Some q \<Rightarrow> party_ok ((X(h := Y)) g) g q (pl s) \<and> \<not> empty_party q" for g
  proof (cases "g = h")
    case True
    then show ?thesis using assms(2) by (simp add: outcome_def store_def)
  next
    case False
    then have "joined g (pl s) = joined g (players w)" "invited g (pl s) = invited g (players w)"
      using o by (simp_all add: others_same_def)
    then show ?thesis
      using False world_inv_party [OF assms(1), of g] world_inv_none [OF assms(1), of g]
      by (auto simp: party_ok_def gone_def split: option.split)
  qed
  moreover have "distinct (invitePartyList (pl s i))" for i
    using assms(1,3) by (simp add: tidy_def world_inv_def)
  moreover have "joined g (pl s) \<subseteq> online w" "invited g (pl s) \<subseteq> online w" for g
    using assms(1,3,4) unfolding tidy_def world_inv_def by blast+
  ultimately show ?thesis unfolding world_inv_def store_fields by blast
qed

lemma entry_ok:
  "world_inv X w \<Longrightarrow> parties w h = Some p \<Longrightarrow>
     party_ok (X h) h (this (entry p w)) (pl (entry p w)) \<and> \<not> empty_party (this (entry p w)) \<and>
     alive (entry p w) \<and> others_same h (players w) (pl (entry p w))"
  using world_inv_party [of X w h p] by (simp add: others_same_def)

text \<open>Calls on a consistent world.\<close>

lemma run_ok:
  assumes "world_ok w" and "parties w h = Some p"
    and "outcome {} h (players w) (f (entry p w))"
    and "tidy A (players w) (pl (f (entry p w)))" and "A \<subseteq> online w"
  shows "\<exists>w'. run_party h f w = Some w' \<and> world_ok w'"
  using store_keeps [OF assms(1,3-5)] run_party_store [OF assms(2)] by (simp add: fun_upd_idem)

lemma world_ok_say: "world_ok (say es w) = world_ok w"
  by (simp add: world_inv_def say_def cong: option.case_cong)

lemma isInviting_total: "world_inv X w \<Longrightarrow> \<exists>b. isInviting i j w = Some b"
  by (cases "party_of (players w i)") (auto simp: isInviting_def dest: world_inv_joined)

lemma isInviting_party: "isInviting i j w = Some True \<Longrightarrow> \<exists>h. party_of (players w i) = Some h"
  by (auto simp: isInviting_def split: option.splits)

lemma isLeader_Some: "parties w h = Some p \<Longrightarrow> isLeader i h w = Some (leader p = i)"
  by (simp add: isLeader_def)

lemma invite_world:
  assumes "world_ok w" and "parties w fresh = None"
  shows "\<exists>w'. playerInviteToParty fresh i j w = Some w' \<and> world_ok w'"
proof (cases "i \<in> online w \<and> j \<in> online w \<and> isInviting j i w = Some False \<and> party_of (players w j) = None")
  case False
  then show ?thesis using assms isInviting_total [OF assms(1), of j i] by (auto simp: playerInviteToParty_def world_ok_say)
next
  case True
  show ?thesis
  proof (cases "party_of (players w i)")
    case (Some h)
    then obtain p where p: "parties w h = Some p" using world_inv_joined [OF assms(1)] by blast
    note e = entry_ok [OF assms(1) p]
    have "outcome {} h (players w) (snd (invitePlayer h j (entry p w)))"
      using e by (intro invite_outcome) auto
    moreover have "tidy {j} (players w) (pl (snd (invitePlayer h j (entry p w))))"
      using tidy_invite [of j "entry p w" h] by simp
    ultimately have "\<exists>w'. run_party h (\<lambda>s. snd (invitePlayer h j s)) w = Some w' \<and> world_ok w'"
      using True by (intro run_ok [OF assms(1) p]) auto
    with True Some assms(1) p show ?thesis by (auto simp: playerInviteToParty_def isLeader_Some)
  next
    case None
    let ?w = "w\<lparr>parties := (parties w)(fresh \<mapsto> new_party i)\<rparr>"
    let ?e = "setParty (Some fresh) i (entry (new_party i) w)"
    let ?f = "\<lambda>s. snd (invitePlayer fresh j (setParty (Some fresh) i s))"
    have g: "gone {} fresh (players w)" using world_inv_none [OF assms] .
    have ni: "i \<notin> joined g (players w)" for g using None by (simp add: joined_def)
    have ok: "party_ok {} fresh (this ?e) (pl ?e)"
      using g by (simp add: party_ok_def gone_def new_party_def joined_setParty)
    have o: "others_same fresh (players w) (pl ?e)"
      using ni by (simp add: others_same_def joined_setParty)
    have "outcome {} fresh (players w) (?f (entry (new_party i) w))"
      using ok o by (intro invite_outcome) auto
    moreover have "tidy {i, j} (players w) (pl (?f (entry (new_party i) w)))"
      using tidy_setters(2) [of i "entry (new_party i) w"] tidy_invite [of j ?e fresh]
      by (auto intro: tidy_trans tidy_mono)
    ultimately have "world_ok (store fresh (?f (entry (new_party i) w)) w)"
      using store_keeps [OF assms(1), of "{}" fresh _ "{i, j}"] True by (simp add: fun_upd_idem)
    moreover have "run_party fresh ?f ?w = Some (store fresh (?f (entry (new_party i) w)) w)"
      by (simp add: run_party_def store_def Let_def)
    ultimately show ?thesis using True None assms(1) by (auto simp: playerInviteToParty_def)
  qed
qed

lemma world_party:
  assumes "world_ok w" and "party_of (players w i) = Some h"
  obtains p where "parties w h = Some p" and "party_ok {} h p (players w)" and "\<not> empty_party p"
  using world_inv_joined [OF assms] world_inv_party [OF assms(1), of h] by auto

lemma join_world:
  assumes "world_ok w"
  shows "\<exists>w'. playerJoinParty env i l w = Some w' \<and> world_ok w'"
proof (cases "i \<in> online w \<and> l \<in> online w \<and> isInviting l i w = Some True \<and> party_of (players w i) = None")
  case False
  then show ?thesis using assms isInviting_total [OF assms, of l i] world_inv_joined [OF assms, of l]
    by (auto simp: playerJoinParty_def world_ok_say isLeader_def split: option.split)
next
  case True
  then obtain h where h: "party_of (players w l) = Some h" using isInviting_party by blast
  obtain p where p: "parties w h = Some p" using world_party [OF assms h] by blast
  note e = entry_ok [OF assms p]
  have "outcome {} h (players w) (snd (joinParty env h i (entry p w)))"
    using e True by (intro join_outcome) auto
  moreover have "tidy {i} (players w) (pl (snd (joinParty env h i (entry p w))))"
    using tidy_join [of i "entry p w" env h] by simp
  ultimately have "\<exists>w'. run_party h (\<lambda>s. snd (joinParty env h i s)) w = Some w' \<and> world_ok w'"
    using True by (intro run_ok [OF assms p]) auto
  with True h p assms show ?thesis by (auto simp: playerJoinParty_def isLeader_Some)
qed

lemma revoke_world:
  assumes "world_ok w" and "onDisband env"
  shows "\<exists>w'. playerRevokePartyInvitation env i j w = Some w' \<and> world_ok w'"
proof (cases "i \<in> online w \<and> party_of (players w i) \<noteq> None")
  case False
  then show ?thesis using assms(1) by (auto simp: playerRevokePartyInvitation_def)
next
  case True
  then obtain h where h: "party_of (players w i) = Some h" by auto
  obtain p where p: "parties w h = Some p" using world_party [OF assms(1) h] by blast
  note e = entry_ok [OF assms(1) p]
  have "outcome {} h (players w) (revokeInvitation env h j (entry p w))"
    using e assms(2) by (intro revoke_outcome) auto
  moreover have "tidy {} (players w) (pl (revokeInvitation env h j (entry p w)))"
    using tidy_revoke [of "entry p w" env h j] by simp
  ultimately have "\<exists>w'. run_party h (revokeInvitation env h j) w = Some w' \<and> world_ok w'"
    by (intro run_ok [OF assms(1) p]) auto
  with True h p assms(1) isInviting_total [OF assms(1), of i j] show ?thesis by (auto simp: playerRevokePartyInvitation_def isLeader_Some)
qed

lemma pass_world:
  assumes "world_ok w"
  shows "\<exists>w'. playerPassPartyLeadership env i j w = Some w' \<and> world_ok w'"
proof (cases "i \<in> online w \<and> party_of (players w i) \<noteq> None")
  case False
  then show ?thesis using assms by (auto simp: playerPassPartyLeadership_def)
next
  case True
  then obtain h where h: "party_of (players w i) = Some h" by auto
  obtain p where p: "parties w h = Some p" using world_party [OF assms h] by blast
  note e = entry_ok [OF assms p]
  have "outcome {} h (players w) (snd (passPartyLeadership env h (Some j) (entry p w)))"
    using e by (intro pass_outcome) auto
  moreover have "tidy {} (players w) (pl (snd (passPartyLeadership env h (Some j) (entry p w))))"
    using tidy_pass [of "entry p w" env h "Some j"] by simp
  ultimately have "\<exists>w'. run_party h (\<lambda>s. snd (passPartyLeadership env h (Some j) s)) w = Some w' \<and> world_ok w'"
    by (intro run_ok [OF assms p]) auto
  with True h p assms show ?thesis by (auto simp: playerPassPartyLeadership_def isLeader_Some)
qed

lemma leave_run:
  assumes "world_ok w" and "onDisband env" and "party_of (players w i) = Some h"
  shows "\<exists>w'. run_party h (\<lambda>s. snd (leaveParty env h (Some i) s)) w = Some w' \<and> world_ok w' \<and> online w' = online w \<and>
    (\<forall>g. invited g (players w') \<subseteq> invited g (players w)) \<and>
    (onLeave env \<longrightarrow> (\<forall>g. i \<notin> joined g (players w')))"
proof -
  obtain p where p: "parties w h = Some p" using world_party [OF assms(1,3)] by blast
  note e = entry_ok [OF assms(1) p]
  let ?s = "snd (leaveParty env h (Some i) (entry p w))"
  have k: "party_ok {} h (this (entry p w)) (pl (entry p w))" using e by simp
  have o: "outcome {} h (players w) ?s"
    using e assms(2) by (intro leave_outcome) auto
  have t: "tidy {} (players w) (pl ?s)" using tidy_leave(1) [OF k, of env i] by simp
  have "i \<in> joined h (players w)" using assms(3) by (simp add: joined_def)
  then have "onLeave env \<longrightarrow> (\<forall>g. i \<notin> joined g (pl ?s))"
    using tidy_leave(2) [OF k, of i env] by simp
  moreover have "world_ok (store h ?s w)"
    using store_keeps [OF assms(1) o t] by (simp add: fun_upd_idem)
  moreover have "\<forall>g. invited g (pl ?s) \<subseteq> invited g (players w)" using t by (simp add: tidy_def)
  ultimately show ?thesis using run_party_store [OF p, of "\<lambda>s. snd (leaveParty env h (Some i) s)"] by simp
qed

lemma leave_world:
  assumes "world_ok w" and "onDisband env"
  shows "\<exists>w'. playerLeaveParty env i w = Some w' \<and> world_ok w'"
proof (cases "party_of (players w i)")
  case (Some h)
  then show ?thesis
    using assms leave_run [OF assms Some] by (auto simp: playerLeaveParty_def)
qed (use assms in \<open>simp add: playerLeaveParty_def\<close>)

lemma settings_run:
  assumes "world_ok w" and "party_of (players w i) = Some h" and "\<And>s. same_members s (f s)"
  shows "\<exists>w'. run_party h f w = Some w' \<and> world_ok w'"
proof -
  obtain p where p: "parties w h = Some p" using world_party [OF assms(1,2)] by blast
  note e = entry_ok [OF assms(1) p]
  have "pl (f (entry p w)) = players w"
    using assms(3) [of "entry p w"] by (simp add: same_members_def)
  moreover have "outcome {} h (players w) (f (entry p w))"
    using e assms(3) by (intro settings_outcome) auto
  ultimately show ?thesis by (intro run_ok [OF assms(1) p, where A = "{}"]) auto
qed

lemma enable_world:
  assumes "world_ok w"
  shows "\<exists>w'. playerEnableSharedPartyExperience env i b w = Some w' \<and> world_ok w'"
  using assms settings_run [OF assms, of i _ "\<lambda>s. snd (setSharedExperience env (Some i) b s)"] same_members_helpers(8)
  by (auto simp: playerEnableSharedPartyExperience_def split: option.split)

section \<open>Logging out\<close>

lemma removeInvites_keeps:
  assumes "onDisband env"
  shows "world_inv (\<lambda>g. if g \<in> done then {i} else {}) w \<Longrightarrow> distinct hs \<Longrightarrow> set hs \<inter> done = {} \<Longrightarrow>
    \<forall>h \<in> set hs. parties w h \<noteq> None \<Longrightarrow>
    \<exists>w'. removeInvites env i hs w = Some w' \<and> online w' = online w \<and>
      world_inv (\<lambda>g. if g \<in> done \<union> set hs then {i} else {}) w' \<and> tidy {} (players w) (players w')"
proof (induction hs arbitrary: "done" w)
  case (Cons h hs)
  let ?X = "\<lambda>g. if g \<in> done then {i} else {}"
  obtain p where p: "parties w h = Some p" using Cons.prems(4) by auto
  note e = entry_ok [OF Cons.prems(1) p]
  have h: "h \<notin> done" using Cons.prems(3) by auto
  let ?s = "snd (removeInvite env h i False (entry p w))"
  have o: "outcome {i} h (players w) ?s"
    using removeInvite_outcome [of "{}" h "entry p w" "players w" env i False] e h assms by simp
  have t: "tidy {} (players w) (pl ?s)"
    using tidy_removeInvite [of "entry p w" env h i False] by simp
  have "?X(h := {i}) = (\<lambda>g. if g \<in> insert h done then {i} else {})" by (rule ext) simp
  then have inv: "world_inv (\<lambda>g. if g \<in> insert h done then {i} else {}) (store h ?s w)"
    using store_keeps [OF Cons.prems(1) o t] by simp
  have "\<forall>g \<in> set hs. g \<noteq> h \<and> parties w g \<noteq> None" using Cons.prems(2,4) by auto
  then have "\<forall>g \<in> set hs. parties (store h ?s w) g \<noteq> None" by simp
  then obtain w' where w': "removeInvites env i hs (store h ?s w) = Some w'" "online w' = online w"
      "world_inv (\<lambda>g. if g \<in> insert h done \<union> set hs then {i} else {}) w'" "tidy {} (pl ?s) (players w')"
    using Cons.IH [OF inv] Cons.prems(2,3) by auto
  have "removeInvites env i (h # hs) w = Some w'"
    using w'(1) run_party_store [OF p, of "\<lambda>s. snd (removeInvite env h i False s)"] by simp
  then show ?case using w'(2,3) tidy_trans [OF t w'(4)] by auto
qed simp

lemma clear_world:
  assumes "world_ok w" and "onDisband env"
  shows "\<exists>w'. clearPartyInvitations env i w = Some w' \<and> world_ok w' \<and> online w' = online w \<and>
    (\<forall>g. i \<notin> invited g (players w'))"
proof -
  let ?hs = "invitePartyList (players w i)"
  have "\<forall>h \<in> set ?hs. parties w h \<noteq> None"
    using world_inv_none [OF assms(1)] by (force simp: gone_def invited_def)
  moreover have "distinct ?hs" using assms(1) by (simp add: world_inv_def)
  ultimately obtain w1 where w1: "removeInvites env i ?hs w = Some w1" "online w1 = online w"
      "world_inv (\<lambda>g. if g \<in> set ?hs then {i} else {}) w1" "tidy {} (players w) (players w1)"
    using removeInvites_keeps [OF assms(2), of "{}" i w ?hs] assms(1) by auto
  let ?ps = "(players w1)(i := (players w1 i)\<lparr>invitePartyList := []\<rparr>)"
  have j: "joined g ?ps = joined g (players w1)" and v: "invited g ?ps = invited g (players w1) - {i}" for g
    by (auto simp: joined_def invited_def)
  have n: "g \<in> set ?hs" if "i \<in> invited g (players w1)" for g
    using that w1(4) by (auto simp: tidy_def invited_def)
  have "world_ok (w1\<lparr>players := ?ps\<rparr>)"
    unfolding world_inv_def
  proof (intro conjI allI)
    fix g
    have "invited g ?ps = invited g (players w1) - (if g \<in> set ?hs then {i} else {})"
      using n [of g] by (auto simp: v)
    then show "case parties (w1\<lparr>players := ?ps\<rparr>) g of None \<Rightarrow> gone {} g (players (w1\<lparr>players := ?ps\<rparr>))
        | Some p \<Rightarrow> party_ok {} g p (players (w1\<lparr>players := ?ps\<rparr>)) \<and> \<not> empty_party p"
      using world_inv_party [OF w1(3), of g] world_inv_none [OF w1(3), of g]
      by (auto simp: party_ok_def gone_def j split: option.split)
    show "joined g (players (w1\<lparr>players := ?ps\<rparr>)) \<subseteq> online (w1\<lparr>players := ?ps\<rparr>)"
      "invited g (players (w1\<lparr>players := ?ps\<rparr>)) \<subseteq> online (w1\<lparr>players := ?ps\<rparr>)"
      using w1(3) by (auto simp: world_inv_def j v)
  next
    fix k
    show "distinct (invitePartyList (players (w1\<lparr>players := ?ps\<rparr>) k))"
      using w1(3) by (simp add: world_inv_def)
  qed
  then show ?thesis using w1(1,2) by (simp add: clearPartyInvitations_def v)
qed

lemma logout_world:
  assumes "world_ok w" and "onDisband env" and "onLeave env"
  shows "\<exists>w'. removePlayerFromParties env i w = Some w' \<and> world_ok w'"
proof -
  obtain w1 where w1: "clearPartyInvitations env i w = Some w1" "world_ok w1" "online w1 = online w"
      "\<forall>g. i \<notin> invited g (players w1)"
    using clear_world [OF assms(1,2)] by blast
  have "\<exists>w2. (case party_of (players w1 i) of None \<Rightarrow> Some w1
        | Some h \<Rightarrow> run_party h (\<lambda>s. snd (leaveParty env h (Some i) s)) w1) = Some w2 \<and> world_ok w2 \<and>
      (\<forall>g. i \<notin> invited g (players w2)) \<and> (\<forall>g. i \<notin> joined g (players w2))"
  proof (cases "party_of (players w1 i)")
    case None
    then show ?thesis using w1(2,4) by (simp add: joined_def)
  next
    case (Some h)
    obtain w2 where "run_party h (\<lambda>s. snd (leaveParty env h (Some i) s)) w1 = Some w2" "world_ok w2"
        "\<forall>g. invited g (players w2) \<subseteq> invited g (players w1)" "\<forall>g. i \<notin> joined g (players w2)"
      using leave_run [OF w1(2) assms(2) Some] assms(3) by blast
    moreover from this(3) w1(4) have "\<forall>g. i \<notin> invited g (players w2)" by blast
    ultimately show ?thesis using Some by simp
  qed
  then obtain w2 where w2: "(case party_of (players w1 i) of None \<Rightarrow> Some w1
        | Some h \<Rightarrow> run_party h (\<lambda>s. snd (leaveParty env h (Some i) s)) w1) = Some w2" "world_ok w2"
      "\<forall>g. i \<notin> invited g (players w2)" "\<forall>g. i \<notin> joined g (players w2)" by blast
  have "world_ok (w2\<lparr>online := online w2 - {i}\<rparr>)"
    using w2(2-4) by (auto simp: world_inv_def cong: option.case_cong)
  then show ?thesis using w1(1) w2(1) by (simp add: removePlayerFromParties_def)
qed

section \<open>Everything that can happen\<close>

datatype party_op =
    Invite party_ptr player_id player_id
  | Join player_id player_id
  | Revoke player_id player_id
  | Pass player_id player_id
  | Leave player_id
  | Enable player_id bool
  | Ticks player_id u32
  | Logout player_id

text \<open>\<open>Ticks\<close> is the call \<open>party->updatePlayerTicks(this, points)\<close> of a player in a party.\<close>

fun party_apply :: "PartyEnv \<Rightarrow> party_op \<Rightarrow> PartyWorld \<Rightarrow> PartyWorld option" where
  "party_apply env (Invite fresh i j) w = playerInviteToParty fresh i j w"
| "party_apply env (Join i l) w = playerJoinParty env i l w"
| "party_apply env (Revoke i j) w = playerRevokePartyInvitation env i j w"
| "party_apply env (Pass i j) w = playerPassPartyLeadership env i j w"
| "party_apply env (Leave i) w = playerLeaveParty env i w"
| "party_apply env (Enable i b) w = playerEnableSharedPartyExperience env i b w"
| "party_apply env (Ticks i n) w =
     (case party_of (players w i) of None \<Rightarrow> Some w | Some h \<Rightarrow> run_party h (updatePlayerTicks env i n) w)"
| "party_apply env (Logout i) w = removePlayerFromParties env i w"

text \<open>A new party is allocated at an address that is not in use.\<close>

definition address_ok :: "party_op \<Rightarrow> PartyWorld \<Rightarrow> bool" where
  "address_ok op w = (case op of Invite fresh i j \<Rightarrow> parties w fresh = None | _ \<Rightarrow> True)"

text \<open>What the scripts may answer in a run: they may refuse that a player joins, and that a player leaves
  while online.  They do not refuse that a party disbands nor that a player leaves at logout, where the
  code goes on regardless (\<open>refused_logout_dangles\<close>, \<open>refused_disband_orphans\<close>).\<close>

definition scripts_permit :: "PartyEnv \<Rightarrow> party_op \<Rightarrow> bool" where
  "scripts_permit env op = (onDisband env \<and> (case op of Logout _ \<Rightarrow> onLeave env | _ \<Rightarrow> True))"

text \<open>Logging in, and whatever else changes a player (levels, positions, fights) but not the
  pointers.\<close>

inductive party_step :: "PartyWorld \<Rightarrow> PartyWorld \<Rightarrow> bool" where
  operation: "scripts_permit env op \<Longrightarrow> address_ok op w \<Longrightarrow> party_apply env op w = Some w' \<Longrightarrow> party_step w w'"
| login: "i \<notin> online w \<Longrightarrow> party_of p = None \<Longrightarrow> invitePartyList p = [] \<Longrightarrow>
    party_step w (w\<lparr>online := insert i (online w), players := (players w)(i := p)\<rparr>)"
| change: "\<forall>i. party_of (ps i) = party_of (players w i) \<and> invitePartyList (ps i) = invitePartyList (players w i) \<Longrightarrow>
    party_step w (w\<lparr>players := ps\<rparr>)"

inductive party_reach :: "PartyWorld \<Rightarrow> bool" where
  init: "\<forall>i. party_of (ps i) = None \<and> invitePartyList (ps i) = [] \<Longrightarrow>
    party_reach \<lparr>players = ps, online = {}, parties = Map.empty, wout = []\<rparr>"
| step: "party_reach w \<Longrightarrow> party_step w w' \<Longrightarrow> party_reach w'"

lemma operation_world:
  assumes "world_ok w" and "scripts_permit env op" and "address_ok op w"
  shows "\<exists>w'. party_apply env op w = Some w' \<and> world_ok w'"
proof (cases op)
  case (Invite fresh i j)
  then show ?thesis using assms invite_world by (simp add: address_ok_def)
next
  case (Ticks i n)
  then show ?thesis
    using assms settings_run [OF assms(1), of i _ "updatePlayerTicks env i n"] same_members_helpers(4)
    by (auto split: option.split)
qed (use assms join_world revoke_world pass_world leave_world enable_world logout_world in \<open>simp_all add: scripts_permit_def\<close>)

lemma party_step_ok: "party_step w w' \<Longrightarrow> world_ok w \<Longrightarrow> world_ok w'"
proof (induction rule: party_step.induct)
  case (operation env op w w')
  then show ?case using operation_world by fastforce
next
  case (login i w p)
  let ?ps = "(players w)(i := p)"
  have n: "i \<notin> joined g (players w)" "i \<notin> invited g (players w)" for g
    using login by (auto simp: world_inv_def)
  have j: "joined g ?ps = joined g (players w)" "invited g ?ps = invited g (players w)" for g
    using n [of g] login by (auto simp: joined_def invited_def)
  show ?case
    using login.prems login.hyps(3)
    by (auto simp: world_inv_def party_ok_def gone_def j cong: option.case_cong)
next
  case (change ps w)
  then have "joined g ps = joined g (players w)" "invited g ps = invited g (players w)" for g
    by (simp_all add: joined_def invited_def)
  with change show ?case
    by (auto simp: world_inv_def party_ok_def gone_def cong: option.case_cong)
qed

lemma party_reach_ok: "party_reach w \<Longrightarrow> world_ok w"
proof (induction rule: party_reach.induct)
  case (init ps)
  then show ?case by (simp add: world_inv_def gone_def joined_def invited_def)
qed (rule party_step_ok)

text \<open>Two players online, the first of whom has invited the second.\<close>

definition blank :: PartyPlayer where
  "blank = \<lparr>pname = ''Cipfried'', female = False, plevel = 8, ppos = Position 32369 32241 7, fromVocation = 0,
     notGainInFight = False, inFight = False, party_of = None, invitePartyList = []\<rparr>"

definition calm :: PartyEnv where
  "calm = \<lparr>now = 0, pz_locked = 60000, onJoin = True, onLeave = True, onDisband = True\<rparr>"

definition pair_world :: PartyWorld where
  "pair_world = \<lparr>players = (\<lambda>_. blank), online = {1, 2}, parties = Map.empty, wout = []\<rparr>"

definition party_world :: PartyWorld where
  "party_world = the (playerInviteToParty 0 1 2 pair_world)"

lemma pair_world_reach: "party_reach pair_world"
proof -
  let ?w0 = "\<lparr>players = (\<lambda>_. blank), online = {}, parties = Map.empty, wout = []\<rparr>"
  have 0: "party_reach ?w0" by (rule party_reach.init) (simp add: blank_def)
  have "party_step ?w0 (?w0\<lparr>online := insert 2 (online ?w0), players := (players ?w0)(2 := blank)\<rparr>)"
    by (rule party_step.login) (simp_all add: blank_def)
  then have 1: "party_reach (?w0\<lparr>online := {2}\<rparr>)" using party_reach.step [OF 0] by (simp add: fun_upd_idem)
  have "party_step (?w0\<lparr>online := {2}\<rparr>) (?w0\<lparr>online := {1, 2}\<rparr>)"
    using party_step.login [of 1 "?w0\<lparr>online := {2}\<rparr>" blank] by (simp add: blank_def fun_upd_idem)
  then show ?thesis using party_reach.step [OF 1] by (simp add: pair_world_def)
qed

lemma party_world_eq: "party_apply calm (Invite 0 1 2) pair_world = Some party_world"
  by (simp add: party_world_def pair_world_def playerInviteToParty_def isInviting_def blank_def run_party_def Let_def)

lemma party_world_reach: "party_reach party_world"
  by (rule party_reach.step [OF pair_world_reach party_step.operation [OF _ _ party_world_eq]])
    (simp_all add: scripts_permit_def calm_def address_ok_def pair_world_def)

lemma party_world_party: "\<exists>p. parties party_world 0 = Some p \<and> leader p = 1 \<and> inviteList p = [2]"
  by (simp add: party_world_def pair_world_def playerInviteToParty_def isInviting_def blank_def run_party_def Let_def
      invitePlayer_def isPlayerInvited_def new_party_def setParty_def upd_player_def addPartyInvitation_def emits_def)

text \<open>C3: in every state that invitations, joins, revocations, changes of leader, departures, logins and
  logouts reach, as long as no script refuses that a party disbands or that a player leaves at logout
  (\<open>scripts_permit\<close>; every other refusal is allowed), the pointers agree: a party has no member twice, its leader is not among its
  members, leader and members are exactly the players whose party pointer names it and its
  invited players exactly those who have it in their list, all of them online, and it is not
  empty; and a player's pointers name existing parties only.\<close>

theorem party_pointers_consistent:
  assumes "party_reach w"
  shows "(\<forall>h p. parties w h = Some p \<longrightarrow>
      distinct (leader p # memberList p) \<and> distinct (inviteList p) \<and> (memberList p \<noteq> [] \<or> inviteList p \<noteq> []) \<and>
      (\<forall>i. i \<in> set (leader p # memberList p) \<longleftrightarrow> party_of (players w i) = Some h) \<and>
      (\<forall>i. i \<in> set (inviteList p) \<longleftrightarrow> h \<in> set (invitePartyList (players w i))) \<and>
      set (leader p # memberList p) \<union> set (inviteList p) \<subseteq> online w) \<and>
    (\<forall>i h. party_of (players w i) = Some h \<or> h \<in> set (invitePartyList (players w i)) \<longrightarrow> parties w h \<noteq> None)"
proof -
  have ok: "world_ok w" using assms by (rule party_reach_ok)
  have 1: "distinct (leader p # memberList p) \<and> distinct (inviteList p) \<and> (memberList p \<noteq> [] \<or> inviteList p \<noteq> []) \<and>
      (\<forall>i. i \<in> set (leader p # memberList p) \<longleftrightarrow> party_of (players w i) = Some h) \<and>
      (\<forall>i. i \<in> set (inviteList p) \<longleftrightarrow> h \<in> set (invitePartyList (players w i))) \<and>
      set (leader p # memberList p) \<union> set (inviteList p) \<subseteq> online w" if p: "parties w h = Some p" for h p
  proof -
    have k: "party_ok {} h p (players w)" "\<not> empty_party p" using world_inv_party [OF ok p] by auto
    then have j: "set (leader p # memberList p) = joined h (players w)" "set (inviteList p) = invited h (players w)"
      by (simp_all add: party_ok_def)
    have "joined h (players w) \<union> invited h (players w) \<subseteq> online w" using ok by (simp add: world_inv_def)
    with k j show ?thesis unfolding j party_ok_def empty_party_def joined_def invited_def by auto
  qed
  have 2: "parties w h \<noteq> None" if "party_of (players w i) = Some h \<or> h \<in> set (invitePartyList (players w i))" for i h
    using world_inv_none [OF ok, of h] that by (auto simp: gone_def joined_def invited_def)
  from 1 2 show ?thesis by blast
qed

lemma party_pointers_consistent_witness:
  "\<exists>p. parties party_world 0 = Some p \<and> leader p = 1 \<and> inviteList p = [2] \<and>
     (\<forall>i. i \<in> set (leader p # memberList p) \<longleftrightarrow> party_of (players party_world i) = Some 0) \<and>
     (\<forall>i. i \<in> set (inviteList p) \<longleftrightarrow> 0 \<in> set (invitePartyList (players party_world i))) \<and>
     1 \<in> online party_world"
proof -
  obtain p where p: "parties party_world 0 = Some p" "leader p = 1" "inviteList p = [2]"
    using party_world_party by blast
  with party_pointers_consistent [OF party_world_reach] have
    "(\<forall>i. i \<in> set (leader p # memberList p) \<longleftrightarrow> party_of (players party_world i) = Some 0)"
    "(\<forall>i. i \<in> set (inviteList p) \<longleftrightarrow> 0 \<in> set (invitePartyList (players party_world i)))"
    "set (leader p # memberList p) \<subseteq> online party_world" by blast+
  with p show ?thesis by auto
qed

text \<open>C34: no party operation ever follows a dangling pointer, neither to call a method of a party nor to
  ask who leads it: on every reachable state every operation runs to its end, also a logout that
  withdraws all invitations of the player while the parties it empties are deleted.  As for C3, the
  scripts refuse neither that a party disbands nor that a player leaves at logout.\<close>

theorem party_operations_defined:
  assumes "party_reach w" and "scripts_permit env op" and "address_ok op w"
  shows "\<exists>w'. party_apply env op w = Some w'"
  using operation_world [OF party_reach_ok [OF assms(1)] assms(2,3)] by blast

lemma party_operations_defined_witness:
  "(\<exists>w'. party_apply calm (Logout 2) party_world = Some w') \<and> (\<exists>w'. party_apply calm (Join 2 1) party_world = Some w')"
  using party_operations_defined [OF party_world_reach, of calm "Logout 2"]
    party_operations_defined [OF party_world_reach, of calm "Join 2 1"]
  by (simp add: scripts_permit_def calm_def address_ok_def)

section \<open>What refusals lead to\<close>

text \<open>When a script refuses the leave of a logout, the player is gone but its party keeps it.\<close>

lemma refused_logout_dangles:
  assumes "party_reach w" and "party_of (players w i) = Some h" and "invitePartyList (players w i) = []" and "\<not> onLeave env"
  shows "\<exists>w' p. party_apply env (Logout i) w = Some w' \<and> i \<notin> online w' \<and> parties w' h = Some p \<and>
    i \<in> set (leader p # memberList p)"
proof -
  obtain p where p: "parties w h = Some p" "party_ok {} h p (players w)"
    using world_party [OF party_reach_ok [OF assms(1)] assms(2)] by blast
  then have "i \<in> set (leader p # memberList p)" using assms(2) by (auto simp: party_ok_def joined_def)
  with p assms show ?thesis
    by (auto simp: removePlayerFromParties_def clearPartyInvitations_def run_party_def leaveParty_def)
qed

text \<open>When a script refuses that a party disbands, the leader who left it is still its leader.\<close>

lemma refused_disband_orphans:
  assumes "party_reach w" and p: "parties w h = Some p" "memberList p = []" and "leader p \<in> online w"
    and "\<not> inFight (players w (leader p))" and "onLeave env" and "\<not> onDisband env"
  shows "\<exists>w' p'. party_apply env (Leave (leader p)) w = Some w' \<and> parties w' h = Some p' \<and> leader p' = leader p \<and>
    party_of (players w' (leader p)) = None"
proof -
  have k: "party_ok {} h p (players w)" using world_inv_party [OF party_reach_ok [OF assms(1)] p(1)] by simp
  then have h: "party_of (players w (leader p)) = Some h" by (auto simp: party_ok_def joined_def)
  obtain s8 where s8: "snd (leaveParty env h (Some (leader p)) (entry p w)) =
        (if new_leader (leader p) p = leader p \<or> empty_party (this s8) then disband env h s8 else s8)"
      "leader (this s8) = new_leader (leader p) p" "alive s8" "pl s8 = pl (setParty None (leader p) (entry p w))"
    using leave_unfold [of "{}" h "entry p w" "leader p" env] k assms(6) by auto
  have "snd (leaveParty env h (Some (leader p)) (entry p w)) = s8" using s8(1) assms(7) by (simp add: disband_def)
  then show ?thesis
    using run_party_store [OF p(1), of "\<lambda>s. snd (leaveParty env h (Some (leader p)) s)"] s8 assms(4,5) h p(2)
    by (simp add: playerLeaveParty_def store_def new_leader_def setParty_def upd_player_def)
qed

section \<open>Who leads, and who shares\<close>

text \<open>When the leader of a party of several players leaves, the first member takes over and the
  others stay in their order; when the last but one leaves and nobody is invited, the party is
  disbanded and no player points to it any more.\<close>

theorem leader_leaves:
  assumes "party_reach w" and "parties w h = Some p" and "onLeave env" and "onDisband env"
    and "playerLeaveParty env (leader p) w = Some w'" and "\<not> inFight (players w (leader p))"
  shows "(length (memberList p) > 1 \<longrightarrow>
      (\<exists>p'. parties w' h = Some p' \<and> leader p' = hd (memberList p) \<and> memberList p' = tl (memberList p) \<and>
         inviteList p' = inviteList p)) \<and>
    (length (memberList p) = 1 \<and> inviteList p = [] \<longrightarrow>
      parties w' h = None \<and> (\<forall>i. party_of (players w' i) \<noteq> Some h))"
proof -
  have ok: "world_ok w" using assms(1) by (rule party_reach_ok)
  have k: "party_ok {} h p (players w)" using world_inv_party [OF ok assms(2)] by simp
  then have lead: "party_of (players w (leader p)) = Some h" "leader p \<in> joined h (players w)"
    and d: "distinct (leader p # memberList p)" by (auto simp: party_ok_def joined_def)
  have on: "leader p \<in> online w" using lead(2) ok by (auto simp: world_inv_def)
  obtain s8 where s8: "snd (leaveParty env h (Some (leader p)) (entry p w)) =
        (if new_leader (leader p) p = leader p \<or> empty_party (this s8) then disband env h s8 else s8)"
      "leader (this s8) = new_leader (leader p) p"
      "memberList (this s8) = remove1 (new_leader (leader p) p) (remove1 (leader p) (memberList p))"
      "inviteList (this s8) = inviteList p" "alive s8"
      "pl s8 = pl (setParty None (leader p) (entry p w))"
    using leave_unfold [of "{}" h "entry p w" "leader p" env] k assms(3) by auto
  have w': "w' = store h (snd (leaveParty env h (Some (leader p)) (entry p w))) w"
    using assms(5,6) on lead(1) run_party_store [OF assms(2)] by (simp add: playerLeaveParty_def)
  have "\<exists>p'. parties w' h = Some p' \<and> leader p' = hd (memberList p) \<and> memberList p' = tl (memberList p) \<and>
         inviteList p' = inviteList p" if long: "length (memberList p) > 1"
  proof -
    obtain a b ms where m: "memberList p = a # b # ms"
      using long by (cases "memberList p"; cases "tl (memberList p)") auto
    then have n: "new_leader (leader p) p = a" by (simp add: new_leader_def)
    have "a \<noteq> leader p" using d m by auto
    moreover have "memberList (this s8) = b # ms" using s8(3) n m d by (simp add: remove1_idem)
    ultimately have "snd (leaveParty env h (Some (leader p)) (entry p w)) = s8"
      using s8(1) n by (simp add: empty_party_def)
    with w' s8 n m \<open>memberList (this s8) = b # ms\<close> show ?thesis by (simp add: store_def)
  qed
  moreover have "parties w' h = None \<and> (\<forall>i. party_of (players w' i) \<noteq> Some h)"
    if "length (memberList p) = 1 \<and> inviteList p = []"
  proof -
    have n: "new_leader (leader p) p = leader p" using that by (simp add: new_leader_def)
    then have e: "snd (leaveParty env h (Some (leader p)) (entry p w)) = disband env h s8" using s8(1) by simp
    have dead: "parties w' h = None"
      using disband_effect(1) [OF assms(4)] by (simp add: w' e store_def)
    have "\<exists>w''. playerLeaveParty env (leader p) w = Some w'' \<and> world_ok w''"
      using leave_world [OF ok assms(4)] .
    with assms(5) have "world_ok w'" by simp
    from world_inv_none [OF this dead] dead show ?thesis by (auto simp: gone_def joined_def)
  qed
  ultimately show ?thesis by blast
qed

lemma join_fields:
  assumes "onJoin env" and "i \<in> set (inviteList (this s))"
  shows "leader (this (snd (joinParty env h i s))) = leader (this s)"
    and "memberList (this (snd (joinParty env h i s))) = memberList (this s) @ [i]"
    and "inviteList (this (snd (joinParty env h i s))) = remove1 i (inviteList (this s))"
    and "alive (snd (joinParty env h i s)) = alive s"
  using assms by (simp_all add: joinParty_def Let_def)

definition couple_world :: PartyWorld where
  "couple_world = the (playerJoinParty calm 2 1 party_world)"

lemma couple_world_eq: "playerJoinParty calm 2 1 party_world = Some couple_world"
  using join_world [OF party_reach_ok [OF party_world_reach], of calm 2 1] by (auto simp: couple_world_def)

lemma couple_world_reach: "party_reach couple_world"
  by (rule party_reach.step [OF party_world_reach party_step.operation [of calm "Join 2 1"]])
    (simp_all add: scripts_permit_def calm_def [THEN arg_cong, of onDisband] address_ok_def couple_world_eq)

lemma couple_world_party:
  "\<exists>p. parties couple_world 0 = Some p \<and> leader p = 1 \<and> memberList p = [2] \<and> inviteList p = []"
proof -
  obtain p where p: "parties party_world 0 = Some p" "leader p = 1" "inviteList p = [2]" "memberList p = []"
    by (auto simp: party_world_def pair_world_def playerInviteToParty_def isInviting_def blank_def run_party_def Let_def
        invitePlayer_def isPlayerInvited_def new_party_def setParty_def upd_player_def addPartyInvitation_def emits_def)
  have o: "online party_world = {1, 2}" "party_of (players party_world 1) = Some 0" "party_of (players party_world 2) = None"
    by (simp_all add: party_world_def pair_world_def playerInviteToParty_def isInviting_def blank_def run_party_def Let_def
        invitePlayer_def isPlayerInvited_def new_party_def setParty_def upd_player_def addPartyInvitation_def emits_def)
  let ?s = "snd (joinParty calm 0 2 (entry p party_world))"
  have "playerJoinParty calm 2 1 party_world = Some (store 0 ?s party_world)"
    using o p run_party_store [OF p(1), of "\<lambda>s. snd (joinParty calm 0 2 s)"]
    by (simp add: playerJoinParty_def isInviting_def isLeader_def isPlayerInvited_def)
  then have c: "couple_world = store 0 ?s party_world" by (simp add: couple_world_def)
  have "onJoin calm" by (simp add: calm_def)
  then show ?thesis
    unfolding c using join_fields [of calm 2 "entry p party_world" 0] p by (simp add: store_def)
qed

text \<open>The same couple with nobody fighting.\<close>

definition peaceful_world :: PartyWorld where
  "peaceful_world = couple_world\<lparr>players := (\<lambda>i. (players couple_world i)\<lparr>inFight := False\<rparr>)\<rparr>"

lemma peaceful_world_reach: "party_reach peaceful_world"
  unfolding peaceful_world_def
  by (rule party_reach.step [OF couple_world_reach party_step.change]) simp

lemma leader_leaves_witness:
  "\<exists>w'. playerLeaveParty calm 1 peaceful_world = Some w' \<and> parties w' 0 = None \<and>
     (\<forall>i. party_of (players w' i) \<noteq> Some 0)"
proof -
  obtain p where p: "parties peaceful_world 0 = Some p" "leader p = 1" "memberList p = [2]" "inviteList p = []"
    using couple_world_party by (auto simp: peaceful_world_def)
  have c: "onLeave calm" "onDisband calm" by (simp_all add: calm_def)
  obtain w' where w': "playerLeaveParty calm (leader p) peaceful_world = Some w'"
    using leave_world [OF party_reach_ok [OF peaceful_world_reach] c(2)] by blast
  have "\<not> inFight (players peaceful_world (leader p))" by (simp add: peaceful_world_def)
  from leader_leaves [OF peaceful_world_reach p(1) c w' this] p w' show ?thesis by auto
qed

end
