(* ===== verification/ItemAttributes.thy ===== *)
theory ItemAttributes
  imports Enums
begin

text \<open>
  The optional attributes of an item: the class ItemAttributes of item.h and item.cpp, a singly
  linked list of values with a word of bits that says which attributes are in it.  The lemmas
  show that bits and list stay in step, so that the pair behaves as a map from attribute types
  to values, in which \<open>getAttr\<close> allocates, \<open>removeAttribute\<close> deletes, and nothing else changes.
\<close>

section \<open>State\<close>

text \<open>The union of a 64-bit integer and a string pointer.\<close>

datatype attr_value = AInt u64 | AStr string

record ItemAttributes =
  attributes :: "(itemAttrTypes \<times> attr_value) list"
  attributeBits :: u32

definition no_attributes :: ItemAttributes where
  "no_attributes = \<lparr>attributes = [], attributeBits = 0\<rparr>"

definition isIntAttrType :: "itemAttrTypes \<Rightarrow> bool" where
  "isIntAttrType t = (attr_code t AND 0x7FFE13 \<noteq> 0)"

definition isStrAttrType :: "itemAttrTypes \<Rightarrow> bool" where
  "isStrAttrType t = (attr_code t AND 0x1EC \<noteq> 0)"

section \<open>Operations\<close>

definition hasAttribute :: "itemAttrTypes \<Rightarrow> ItemAttributes \<Rightarrow> bool" where
  "hasAttribute t a = (attr_code t AND attributeBits a \<noteq> 0)"

text \<open>The loop of \<open>removeAttribute\<close> behind the first element, and the pop at the front; the list
  is not empty when the bit is set.\<close>

fun erase_after :: "itemAttrTypes \<Rightarrow> (itemAttrTypes \<times> attr_value) list \<Rightarrow> (itemAttrTypes \<times> attr_value) list" where
  "erase_after t [] = []"
| "erase_after t (p # ps) = (if fst p = t then ps else p # erase_after t ps)"

definition removeAttribute :: "itemAttrTypes \<Rightarrow> ItemAttributes \<Rightarrow> ItemAttributes option" where
  "removeAttribute t a =
     (if \<not> hasAttribute t a then Some a
      else case attributes a of
        [] \<Rightarrow> None
      | p # ps \<Rightarrow>
          Some (a\<lparr>attributes := (if fst p = t then ps else p # erase_after t ps),
                  attributeBits := attributeBits a AND NOT (attr_code t)\<rparr>))"

fun find_attr :: "itemAttrTypes \<Rightarrow> (itemAttrTypes \<times> attr_value) list \<Rightarrow> attr_value option" where
  "find_attr t [] = None"
| "find_attr t (p # ps) = (if fst p = t then Some (snd p) else find_attr t ps)"

definition getExistingAttr :: "itemAttrTypes \<Rightarrow> ItemAttributes \<Rightarrow> attr_value option" where
  "getExistingAttr t a = (if hasAttribute t a then find_attr t (attributes a) else None)"

text \<open>\<open>getAttr\<close> returns a reference into the list, which the caller updates: here the update is an
  argument.  A new element starts zeroed.\<close>

fun update_attr :: "itemAttrTypes \<Rightarrow> (attr_value \<Rightarrow> attr_value) \<Rightarrow> (itemAttrTypes \<times> attr_value) list \<Rightarrow> (itemAttrTypes \<times> attr_value) list option" where
  "update_attr t f [] = None"
| "update_attr t f (p # ps) =
     (if fst p = t then Some ((fst p, f (snd p)) # ps)
      else case update_attr t f ps of None \<Rightarrow> None | Some qs \<Rightarrow> Some (p # qs))"

definition getAttr :: "itemAttrTypes \<Rightarrow> (attr_value \<Rightarrow> attr_value) \<Rightarrow> ItemAttributes \<Rightarrow> ItemAttributes" where
  "getAttr t f a =
     (case (if hasAttribute t a then update_attr t f (attributes a) else None) of
        Some ps \<Rightarrow> a\<lparr>attributes := ps\<rparr>
      | None \<Rightarrow> a\<lparr>attributeBits := attributeBits a OR attr_code t,
                  attributes := (t, f (AInt 0)) # attributes a\<rparr>)"

fun int_value :: "attr_value \<Rightarrow> u64" where
  "int_value (AInt n) = n"
| "int_value (AStr s) = 0"

fun str_value :: "attr_value \<Rightarrow> string" where
  "str_value (AStr s) = s"
| "str_value (AInt n) = []"

definition attrs_getStrAttr :: "itemAttrTypes \<Rightarrow> ItemAttributes \<Rightarrow> string" where
  "attrs_getStrAttr t a =
     (if \<not> isStrAttrType t then []
      else case getExistingAttr t a of None \<Rightarrow> [] | Some v \<Rightarrow> str_value v)"

definition attrs_setStrAttr :: "itemAttrTypes \<Rightarrow> string \<Rightarrow> ItemAttributes \<Rightarrow> ItemAttributes" where
  "attrs_setStrAttr t s a =
     (if \<not> isStrAttrType t then a
      else if s = [] then a
      else getAttr t (\<lambda>_. AStr s) a)"

definition attrs_getIntAttr :: "itemAttrTypes \<Rightarrow> ItemAttributes \<Rightarrow> u64" where
  "attrs_getIntAttr t a =
     (if \<not> isIntAttrType t then 0
      else case getExistingAttr t a of None \<Rightarrow> 0 | Some v \<Rightarrow> int_value v)"

definition attrs_setIntAttr :: "itemAttrTypes \<Rightarrow> u64 \<Rightarrow> ItemAttributes \<Rightarrow> ItemAttributes" where
  "attrs_setIntAttr t n a = (if \<not> isIntAttrType t then a else getAttr t (\<lambda>_. AInt n) a)"

definition attrs_increaseIntAttr :: "itemAttrTypes \<Rightarrow> u64 \<Rightarrow> ItemAttributes \<Rightarrow> ItemAttributes" where
  "attrs_increaseIntAttr t n a =
     (if \<not> isIntAttrType t then a else getAttr t (\<lambda>v. AInt (int_value v + n)) a)"

section \<open>The codes are single bits\<close>

text \<open>Every attribute but \<open>ITEM_ATTRIBUTE_NONE\<close> is one bit; the bit's number.\<close>

definition attr_bit :: "itemAttrTypes \<Rightarrow> nat" where
  "attr_bit t = (case t of
     ITEM_ATTRIBUTE_NONE \<Rightarrow> 32 | ITEM_ATTRIBUTE_ACTIONID \<Rightarrow> 0 | ITEM_ATTRIBUTE_UNIQUEID \<Rightarrow> 1
   | ITEM_ATTRIBUTE_DESCRIPTION \<Rightarrow> 2 | ITEM_ATTRIBUTE_TEXT \<Rightarrow> 3 | ITEM_ATTRIBUTE_DATE \<Rightarrow> 4
   | ITEM_ATTRIBUTE_WRITER \<Rightarrow> 5 | ITEM_ATTRIBUTE_NAME \<Rightarrow> 6 | ITEM_ATTRIBUTE_ARTICLE \<Rightarrow> 7
   | ITEM_ATTRIBUTE_PLURALNAME \<Rightarrow> 8 | ITEM_ATTRIBUTE_WEIGHT \<Rightarrow> 9 | ITEM_ATTRIBUTE_ATTACK \<Rightarrow> 10
   | ITEM_ATTRIBUTE_DEFENSE \<Rightarrow> 11 | ITEM_ATTRIBUTE_EXTRADEFENSE \<Rightarrow> 12 | ITEM_ATTRIBUTE_ARMOR \<Rightarrow> 13
   | ITEM_ATTRIBUTE_HITCHANCE \<Rightarrow> 14 | ITEM_ATTRIBUTE_SHOOTRANGE \<Rightarrow> 15 | ITEM_ATTRIBUTE_OWNER \<Rightarrow> 16
   | ITEM_ATTRIBUTE_DURATION \<Rightarrow> 17 | ITEM_ATTRIBUTE_DECAYSTATE \<Rightarrow> 18 | ITEM_ATTRIBUTE_CORPSEOWNER \<Rightarrow> 19
   | ITEM_ATTRIBUTE_CHARGES \<Rightarrow> 20 | ITEM_ATTRIBUTE_FLUIDTYPE \<Rightarrow> 21 | ITEM_ATTRIBUTE_DOORID \<Rightarrow> 22)"

lemma attr_code_bit: "attr_code t = push_bit (attr_bit t) 1"
  by (cases t) (simp_all add: attr_bit_def)

lemma attr_bit_inj: "attr_bit s = attr_bit t \<Longrightarrow> s = t"
  by (cases s; cases t) (simp_all add: attr_bit_def)

lemma attr_bit_less: "t \<noteq> ITEM_ATTRIBUTE_NONE \<Longrightarrow> attr_bit t < 32"
  by (cases t) (simp_all add: attr_bit_def)

lemma bit_attr_code: "bit (attr_code t) n \<longleftrightarrow> n = attr_bit t \<and> t \<noteq> ITEM_ATTRIBUTE_NONE"
  using attr_bit_less [of t] by (auto simp: attr_code_bit bit_simps attr_bit_def)

lemma hasAttribute_bit: "hasAttribute t a \<longleftrightarrow> t \<noteq> ITEM_ATTRIBUTE_NONE \<and> bit (attributeBits a) (attr_bit t)"
proof -
  have zero: "w = 0 \<longleftrightarrow> (\<forall>n. \<not> bit w n)" for w :: u32
    by (auto intro: bit_eqI)
  have "attr_code t AND attributeBits a = 0 \<longleftrightarrow> (\<forall>n. \<not> (bit (attr_code t) n \<and> bit (attributeBits a) n))"
    unfolding zero bit_and_iff by (rule refl)
  then show ?thesis by (auto simp: hasAttribute_def bit_attr_code)
qed

lemma attr_kinds:
  "isIntAttrType t \<longleftrightarrow> t \<noteq> ITEM_ATTRIBUTE_NONE \<and> \<not> isStrAttrType t"
  "\<not> isStrAttrType ITEM_ATTRIBUTE_NONE"
  by (cases t; simp add: isIntAttrType_def isStrAttrType_def) (simp add: isStrAttrType_def)

section \<open>Bits and list in step\<close>

definition present :: "ItemAttributes \<Rightarrow> itemAttrTypes set" where
  "present a = fst ` set (attributes a)"

fun value_ok :: "itemAttrTypes \<times> attr_value \<Rightarrow> bool" where
  "value_ok (t, AInt n) = isIntAttrType t"
| "value_ok (t, AStr s) = (isStrAttrType t \<and> s \<noteq> [])"

definition attrs_ok :: "ItemAttributes \<Rightarrow> bool" where
  [inv_defs]: "attrs_ok a =
     (distinct (map fst (attributes a)) \<and> list_all value_ok (attributes a) \<and>
      (\<forall>n. bit (attributeBits a) n \<longleftrightarrow> (\<exists>t \<in> present a. n = attr_bit t)))"

definition lookup :: "ItemAttributes \<Rightarrow> itemAttrTypes \<Rightarrow> attr_value option" where
  "lookup a = map_of (attributes a)"

lemma lookup_present: "lookup a t = None \<longleftrightarrow> t \<notin> present a"
  by (simp add: lookup_def present_def map_of_eq_None_iff)

lemma value_ok_type: "value_ok p \<Longrightarrow> fst p \<noteq> ITEM_ATTRIBUTE_NONE"
  by (cases p rule: value_ok.cases) (auto simp: attr_kinds)

lemma none_absent: "attrs_ok a \<Longrightarrow> ITEM_ATTRIBUTE_NONE \<notin> present a"
proof
  assume ok: "attrs_ok a" and "ITEM_ATTRIBUTE_NONE \<in> present a"
  then obtain v where "(ITEM_ATTRIBUTE_NONE, v) \<in> set (attributes a)" by (auto simp: present_def)
  with ok have "value_ok (ITEM_ATTRIBUTE_NONE, v)" by (auto simp: attrs_ok_def list_all_iff)
  from value_ok_type [OF this] show False by simp
qed

lemma hasAttribute_present: "attrs_ok a \<Longrightarrow> hasAttribute t a \<longleftrightarrow> t \<in> present a"
  using none_absent [of a] by (auto simp: hasAttribute_bit attrs_ok_def dest: attr_bit_inj)

lemma attrs_ok_empty [simp]: "attrs_ok no_attributes"
  by (simp add: attrs_ok_def no_attributes_def present_def)

lemma lookup_empty [simp]: "lookup no_attributes = Map.empty"
  by (simp add: lookup_def no_attributes_def)

lemma find_attr_map_of: "find_attr t ps = map_of ps t"
  by (induction ps) auto

lemma getExistingAttr_lookup: "attrs_ok a \<Longrightarrow> getExistingAttr t a = lookup a t"
  using hasAttribute_present [of a t] lookup_present [of a t]
  by (auto simp: getExistingAttr_def find_attr_map_of lookup_def)

lemma update_attr_Some:
  "t \<in> fst ` set ps \<Longrightarrow> \<exists>qs. update_attr t f ps = Some qs \<and> map fst qs = map fst ps \<and>
     map_of qs = (map_of ps)(t := map_option f (map_of ps t)) \<and>
     set qs \<subseteq> set ps \<union> {(t, f v) | v. (t, v) \<in> set ps}"
proof (induction ps)
  case (Cons p ps)
  obtain s v where p: "p = (s, v)" by fastforce
  show ?case
  proof (cases "s = t")
    case True
    then show ?thesis by (auto simp: p)
  next
    case False
    with Cons.prems p have "t \<in> fst ` set ps" by auto
    from Cons.IH [OF this] obtain qs where "update_attr t f ps = Some qs" "map fst qs = map fst ps"
        "map_of qs = (map_of ps)(t := map_option f (map_of ps t))" "set qs \<subseteq> set ps \<union> {(t, f v) | v. (t, v) \<in> set ps}"
      by blast
    with False p show ?thesis by (auto simp: fun_upd_twist)
  qed
qed simp

lemma getAttr_keeps:
  assumes "attrs_ok a" and "\<And>v. value_ok (t, f v)"
  shows "attrs_ok (getAttr t f a)"
    and "lookup (getAttr t f a) = (lookup a)(t \<mapsto> f (case lookup a t of None \<Rightarrow> AInt 0 | Some v \<Rightarrow> v))"
proof -
  have t: "t \<noteq> ITEM_ATTRIBUTE_NONE" using value_ok_type [OF assms(2)] by simp
  have both: "attrs_ok (getAttr t f a) \<and>
    lookup (getAttr t f a) = (lookup a)(t \<mapsto> f (case lookup a t of None \<Rightarrow> AInt 0 | Some v \<Rightarrow> v))"
  proof (cases "t \<in> present a")
    case True
    then obtain qs where qs: "update_attr t f (attributes a) = Some qs" "map fst qs = map fst (attributes a)"
        "map_of qs = (map_of (attributes a))(t := map_option f (map_of (attributes a) t))"
        "set qs \<subseteq> set (attributes a) \<union> {(t, f v) | v. (t, v) \<in> set (attributes a)}"
      using update_attr_Some [of t "attributes a" f] by (auto simp: present_def)
    have e: "getAttr t f a = a\<lparr>attributes := qs\<rparr>"
      using True hasAttribute_present [OF assms(1)] qs(1) by (simp add: getAttr_def)
    have "present (getAttr t f a) = present a"
      using qs(2) by (simp add: e present_def) (metis list.set_map)
    moreover have "list_all value_ok qs"
      using qs(4) assms by (auto simp: attrs_ok_def list_all_iff)
    moreover obtain v where "lookup a t = Some v" using True lookup_present by fastforce
    ultimately show ?thesis
      using assms(1) qs(2,3) by (simp add: attrs_ok_def e lookup_def)
  next
    case False
    then have e: "getAttr t f a = a\<lparr>attributeBits := attributeBits a OR attr_code t,
        attributes := (t, f (AInt 0)) # attributes a\<rparr>"
      using hasAttribute_present [OF assms(1)] by (simp add: getAttr_def)
    have p: "present (getAttr t f a) = insert t (present a)" by (simp add: e present_def)
    have "bit (attributeBits (getAttr t f a)) n \<longleftrightarrow> (\<exists>s \<in> insert t (present a). n = attr_bit s)" for n
      using assms(1) t by (auto simp: e bit_or_iff bit_attr_code attrs_ok_def)
    moreover have "t \<notin> fst ` set (attributes a)" using False by (simp add: present_def)
    ultimately have "attrs_ok (getAttr t f a)"
      using assms p by (simp add: attrs_ok_def e)
    moreover have "lookup a t = None" using False by (simp add: lookup_present)
    ultimately show ?thesis by (simp add: e lookup_def)
  qed
  then show "attrs_ok (getAttr t f a)"
    and "lookup (getAttr t f a) = (lookup a)(t \<mapsto> f (case lookup a t of None \<Rightarrow> AInt 0 | Some v \<Rightarrow> v))"
    by simp_all
qed

lemma setInt_keeps:
  assumes "attrs_ok a" and "isIntAttrType t"
  shows "attrs_ok (attrs_setIntAttr t n a)" and "lookup (attrs_setIntAttr t n a) = (lookup a)(t \<mapsto> AInt n)"
  using getAttr_keeps [of a t "\<lambda>_. AInt n"] assms by (simp_all add: attrs_setIntAttr_def)

lemma increaseInt_keeps:
  assumes "attrs_ok a" and "isIntAttrType t"
  shows "attrs_ok (attrs_increaseIntAttr t n a)"
    and "lookup (attrs_increaseIntAttr t n a) = (lookup a)(t \<mapsto> AInt (attrs_getIntAttr t a + n))"
  using getAttr_keeps [of a t "\<lambda>v. AInt (int_value v + n)"] assms
  by (simp_all add: attrs_increaseIntAttr_def attrs_getIntAttr_def getExistingAttr_lookup split: option.split)

lemma setStr_keeps:
  assumes "attrs_ok a" and "isStrAttrType t"
  shows "attrs_ok (attrs_setStrAttr t s a)"
    and "lookup (attrs_setStrAttr t s a) = (if s = [] then lookup a else (lookup a)(t \<mapsto> AStr s))"
  using getAttr_keeps [of a t "\<lambda>_. AStr s"] assms by (auto simp: attrs_setStrAttr_def)

lemma erase_after_facts:
  "distinct (map fst ps) \<Longrightarrow> map_of (erase_after t ps) = (map_of ps)(t := None) \<and>
     fst ` set (erase_after t ps) = fst ` set ps - {t} \<and> set (erase_after t ps) \<subseteq> set ps \<and>
     distinct (map fst (erase_after t ps))"
proof (induction ps)
  case (Cons p ps)
  show ?case
  proof (cases "fst p = t")
    case True
    with Cons.prems have "t \<notin> fst ` set ps" by auto
    then have "map_of ps t = None" by (simp add: map_of_eq_None_iff)
    with True Cons.prems \<open>t \<notin> fst ` set ps\<close> show ?thesis by (auto simp: fun_eq_iff)
  next
    case False
    with Cons show ?thesis by (auto simp: fun_upd_twist)
  qed
qed simp

lemma removeAttribute_keeps:
  assumes "attrs_ok a"
  shows "\<exists>b. removeAttribute t a = Some b \<and> attrs_ok b \<and> lookup b = (lookup a)(t := None)"
proof (cases "t \<in> present a")
  case False
  then have "lookup a t = None" by (simp add: lookup_present)
  then have "(lookup a)(t := None) = lookup a" by (metis fun_upd_triv)
  with False assms hasAttribute_present [OF assms] show ?thesis by (simp add: removeAttribute_def)
next
  case True
  then obtain p ps where ps: "attributes a = p # ps" by (cases "attributes a") (auto simp: present_def)
  let ?b = "a\<lparr>attributes := erase_after t (attributes a), attributeBits := attributeBits a AND NOT (attr_code t)\<rparr>"
  have r: "removeAttribute t a = Some ?b"
    using True hasAttribute_present [OF assms] ps by (auto simp: removeAttribute_def)
  have d: "distinct (map fst (attributes a))" using assms by (simp add: attrs_ok_def)
  note e = erase_after_facts [OF d, of t]
  have p: "present ?b = present a - {t}" using e by (simp add: present_def)
  have t: "t \<noteq> ITEM_ATTRIBUTE_NONE" using True none_absent [OF assms] by auto
  have "bit (attributeBits ?b) n \<longleftrightarrow> (\<exists>s \<in> present ?b. n = attr_bit s)" for n
  proof -
    have "bit (attributeBits ?b) n \<longleftrightarrow> bit (attributeBits a) n \<and> n \<noteq> attr_bit t"
      using t by (auto simp: bit_and_iff bit_not_iff bit_attr_code dest: bit_imp_le_length)
    also have "\<dots> \<longleftrightarrow> (\<exists>s \<in> present ?b. n = attr_bit s)"
      using assms unfolding p by (auto simp: attrs_ok_def dest: attr_bit_inj)
    finally show ?thesis .
  qed
  moreover have "list_all value_ok (erase_after t (attributes a))"
    using e assms by (auto simp: attrs_ok_def list_all_iff)
  ultimately have "attrs_ok ?b" using e by (simp add: attrs_ok_def)
  moreover have "lookup ?b = (lookup a)(t := None)" using e by (simp add: lookup_def)
  ultimately show ?thesis using r by blast
qed

section \<open>The attributes are a map\<close>

datatype attr_op = SetInt itemAttrTypes u64 | SetStr itemAttrTypes string | Increase itemAttrTypes u64 | Remove itemAttrTypes

fun attr_apply :: "attr_op \<Rightarrow> ItemAttributes \<Rightarrow> ItemAttributes option" where
  "attr_apply (SetInt t n) a = Some (attrs_setIntAttr t n a)"
| "attr_apply (SetStr t s) a = Some (attrs_setStrAttr t s a)"
| "attr_apply (Increase t n) a = Some (attrs_increaseIntAttr t n a)"
| "attr_apply (Remove t) a = removeAttribute t a"

fun attr_run :: "attr_op list \<Rightarrow> ItemAttributes \<Rightarrow> ItemAttributes option" where
  "attr_run [] a = Some a"
| "attr_run (x # xs) a = (case attr_apply x a of None \<Rightarrow> None | Some b \<Rightarrow> attr_run xs b)"

text \<open>What each operation means on a map: values of the wrong kind and empty strings are ignored.\<close>

fun attr_spec :: "attr_op \<Rightarrow> (itemAttrTypes \<rightharpoonup> attr_value) \<Rightarrow> (itemAttrTypes \<rightharpoonup> attr_value)" where
  "attr_spec (SetInt t n) f = (if isIntAttrType t then f(t \<mapsto> AInt n) else f)"
| "attr_spec (SetStr t s) f = (if isStrAttrType t \<and> s \<noteq> [] then f(t \<mapsto> AStr s) else f)"
| "attr_spec (Increase t n) f =
     (if isIntAttrType t then f(t \<mapsto> AInt ((case f t of None \<Rightarrow> 0 | Some v \<Rightarrow> int_value v) + n)) else f)"
| "attr_spec (Remove t) f = f(t := None)"

lemma attr_apply_spec:
  assumes "attrs_ok a"
  shows "\<exists>b. attr_apply x a = Some b \<and> attrs_ok b \<and> lookup b = attr_spec x (lookup a)"
proof (cases x)
  case (SetInt t n)
  then show ?thesis using assms setInt_keeps [OF assms, of t n] by (cases "isIntAttrType t") (auto simp: attrs_setIntAttr_def)
next
  case (SetStr t s)
  then show ?thesis using assms setStr_keeps [OF assms, of t s] by (cases "isStrAttrType t") (auto simp: attrs_setStrAttr_def)
next
  case (Increase t n)
  show ?thesis
  proof (cases "isIntAttrType t")
    case True
    then have "attrs_getIntAttr t a = (case lookup a t of None \<Rightarrow> 0 | Some v \<Rightarrow> int_value v)"
      using assms by (simp add: attrs_getIntAttr_def getExistingAttr_lookup)
    with True Increase increaseInt_keeps [OF assms True, of n] show ?thesis by simp
  next
    case False
    with Increase assms show ?thesis by (simp add: attrs_increaseIntAttr_def)
  qed
next
  case (Remove t)
  then show ?thesis using removeAttribute_keeps [OF assms, of t] by simp
qed

lemma attr_run_spec:
  "attrs_ok a \<Longrightarrow> \<exists>b. attr_run xs a = Some b \<and> attrs_ok b \<and> lookup b = fold attr_spec xs (lookup a)"
proof (induction xs arbitrary: a)
  case (Cons x xs)
  obtain b where "attr_apply x a = Some b" "attrs_ok b" "lookup b = attr_spec x (lookup a)"
    using attr_apply_spec [OF Cons.prems] by blast
  with Cons.IH [of b] show ?case by simp
qed simp

text \<open>C37: after any sequence of settings, increments and removals, the list and the bits of an item's
  attributes implement a finite map: no removal pops an empty list, the bit of an attribute is
  set exactly when the map has it, and the getters return the map's value, or 0 and the empty
  string where it has none or one of the other kind.\<close>

theorem attributes_are_a_map:
  "\<exists>a. attr_run xs no_attributes = Some a \<and>
     (\<forall>t. hasAttribute t a \<longleftrightarrow> fold attr_spec xs Map.empty t \<noteq> None) \<and>
     (\<forall>t. attrs_getIntAttr t a = (case fold attr_spec xs Map.empty t of Some (AInt n) \<Rightarrow> n | _ \<Rightarrow> 0)) \<and>
     (\<forall>t. attrs_getStrAttr t a = (case fold attr_spec xs Map.empty t of Some (AStr s) \<Rightarrow> s | _ \<Rightarrow> []))"
proof -
  obtain a where a: "attr_run xs no_attributes = Some a" "attrs_ok a" "lookup a = fold attr_spec xs Map.empty"
    using attr_run_spec [of no_attributes xs] by auto
  have ok: "value_ok (t, v)" if "lookup a t = Some v" for t v
    using a(2) map_of_SomeD [of "attributes a" t v] that by (auto simp: attrs_ok_def lookup_def list_all_iff)
  have "attrs_getIntAttr t a = (case lookup a t of Some (AInt n) \<Rightarrow> n | _ \<Rightarrow> 0)" for t
  proof (cases "lookup a t")
    case (Some v)
    then show ?thesis
      using ok [OF Some] attr_kinds(1) [of t]
      by (cases v) (auto simp: attrs_getIntAttr_def getExistingAttr_lookup [OF a(2)])
  qed (simp add: attrs_getIntAttr_def getExistingAttr_lookup [OF a(2)])
  moreover have "attrs_getStrAttr t a = (case lookup a t of Some (AStr s) \<Rightarrow> s | _ \<Rightarrow> [])" for t
  proof (cases "lookup a t")
    case (Some v)
    then show ?thesis
      using ok [OF Some] attr_kinds(1) [of t]
      by (cases v) (auto simp: attrs_getStrAttr_def getExistingAttr_lookup [OF a(2)])
  qed (simp add: attrs_getStrAttr_def getExistingAttr_lookup [OF a(2)])
  moreover have "hasAttribute t a \<longleftrightarrow> lookup a t \<noteq> None" for t
    by (simp add: hasAttribute_present [OF a(2)] lookup_present)
  ultimately show ?thesis using a(1,3) by auto
qed

end
