(* ===== verification/PropStream.thy ===== *)
theory PropStream
  imports Bytes
begin

text \<open>
  The property streams of fileloader.h.  A PropStream is the list of bytes that are left, a
  PropWriteStream the list of bytes written so far.  A failed read is None; no caller looks at a
  stream again after a failed read.
\<close>

type_synonym prop_stream = "u8 list"

section \<open>Reading\<close>

text \<open>\<open>read<T>\<close> for an integer T of n bytes; the value is its image as an unsigned number.\<close>

definition prop_read :: "nat \<Rightarrow> prop_stream \<Rightarrow> (nat \<times> prop_stream) option" where
  "prop_read n ps = (if length ps < n then None else Some (le_value (take n ps), drop n ps))"

definition prop_readString :: "prop_stream \<Rightarrow> (string \<times> prop_stream) option" where
  "prop_readString ps =
     (case prop_read 2 ps of
        None \<Rightarrow> None
      | Some (strLen, ps1) \<Rightarrow>
          if length ps1 < strLen then None
          else Some (map char_of_byte (take strLen ps1), drop strLen ps1))"

definition prop_skip :: "nat \<Rightarrow> prop_stream \<Rightarrow> prop_stream option" where
  "prop_skip n ps = (if length ps < n then None else Some (drop n ps))"

section \<open>Writing\<close>

definition prop_write :: "nat \<Rightarrow> nat \<Rightarrow> prop_stream \<Rightarrow> prop_stream" where
  "prop_write n v ps = ps @ le_bytes n v"

definition prop_writeString :: "string \<Rightarrow> prop_stream \<Rightarrow> prop_stream" where
  "prop_writeString s ps =
     (if length s > 65535 then prop_write 2 0 ps
      else prop_write 2 (length s) ps @ map byte_of_char s)"

section \<open>What was written can be read\<close>

lemma prop_read_write:
  "v < 256 ^ n \<Longrightarrow> prop_read n (prop_write n v [] @ ps) = Some (v, ps)"
  by (simp add: prop_read_def prop_write_def)

lemma prop_readString_write:
  "length s \<le> 65535 \<Longrightarrow> prop_readString (prop_writeString s [] @ ps) = Some (s, ps)"
  using prop_read_write [of "length s" 2 "map byte_of_char s @ ps"]
  by (simp add: prop_readString_def prop_writeString_def)

lemma prop_write_append: "prop_write n v (ps @ qs) = ps @ prop_write n v qs"
  by (simp add: prop_write_def)

lemma prop_writeString_append: "prop_writeString s (ps @ qs) = ps @ prop_writeString s qs"
  by (simp add: prop_writeString_def prop_write_def)

lemma prop_read_length: "prop_read n ps = Some (v, ps') \<Longrightarrow> length ps' = length ps - n \<and> n \<le> length ps"
  by (auto simp: prop_read_def split: if_splits)

lemma prop_readString_length: "prop_readString ps = Some (s, ps') \<Longrightarrow> length ps' \<le> length ps"
  by (auto simp: prop_readString_def prop_read_def split: if_splits)

lemma prop_skip_length: "prop_skip n ps = Some ps' \<Longrightarrow> length ps' \<le> length ps"
  by (auto simp: prop_skip_def split: if_splits)

end
