(* ===== verification/ItemStream.thy ===== *)
theory ItemStream
  imports ItemAttributes PropStream
begin

text \<open>
  Items and their persistent form: the parts of item.h and item.cpp that set up an item, read
  and write its attributes through the property streams, and compare items.  The table of item
  types is data the server loads, and a parameter.  The main result is that loading what was
  saved gives the item back, and which items that does not hold for.
\<close>

section \<open>State\<close>

record ItemType =
  isFluidContainer :: bool
  isSplash :: bool
  stackable :: bool
  moveable :: bool
  pickupable :: bool
  stopTime :: bool
  decayTo :: int
  charges :: u32
  decayTime :: u32
  weight :: u32

type_synonym items = "u16 \<Rightarrow> ItemType"

record Item =
  item_id :: u16
  item_count :: u8
  item_attrs :: "ItemAttributes option"

definition item_attributes :: "Item \<Rightarrow> ItemAttributes" where
  "item_attributes i = (case item_attrs i of None \<Rightarrow> no_attributes | Some a \<Rightarrow> a)"

text \<open>The accessors of Item: a missing attribute object reads as nothing and is created by a
  setter.  Item's integers are 32 bits, sign-extended into the 64 of the list.\<close>

definition getStrAttr :: "itemAttrTypes \<Rightarrow> Item \<Rightarrow> string" where
  "getStrAttr t i = (case item_attrs i of None \<Rightarrow> [] | Some a \<Rightarrow> attrs_getStrAttr t a)"

definition setStrAttr :: "itemAttrTypes \<Rightarrow> string \<Rightarrow> Item \<Rightarrow> Item" where
  "setStrAttr t s i = i\<lparr>item_attrs := Some (attrs_setStrAttr t s (item_attributes i))\<rparr>"

definition getIntAttr :: "itemAttrTypes \<Rightarrow> Item \<Rightarrow> u32" where
  "getIntAttr t i = (case item_attrs i of None \<Rightarrow> 0 | Some a \<Rightarrow> ucast (attrs_getIntAttr t a))"

definition setIntAttr :: "itemAttrTypes \<Rightarrow> u32 \<Rightarrow> Item \<Rightarrow> Item" where
  "setIntAttr t n i = i\<lparr>item_attrs := Some (attrs_setIntAttr t (scast n) (item_attributes i))\<rparr>"

definition item_hasAttribute :: "itemAttrTypes \<Rightarrow> Item \<Rightarrow> bool" where
  "item_hasAttribute t i = (case item_attrs i of None \<Rightarrow> False | Some a \<Rightarrow> hasAttribute t a)"

definition setActionId :: "u16 \<Rightarrow> Item \<Rightarrow> Item" where
  "setActionId n = setIntAttr ITEM_ATTRIBUTE_ACTIONID (ucast (if n < 100 then 100 else n))"

definition getActionId :: "Item \<Rightarrow> u16" where
  "getActionId i = ucast (getIntAttr ITEM_ATTRIBUTE_ACTIONID i)"

definition setCharges :: "u16 \<Rightarrow> Item \<Rightarrow> Item" where
  "setCharges n = setIntAttr ITEM_ATTRIBUTE_CHARGES (ucast n)"

definition getCharges :: "Item \<Rightarrow> u16" where
  "getCharges i = ucast (getIntAttr ITEM_ATTRIBUTE_CHARGES i)"

definition setFluidType :: "u16 \<Rightarrow> Item \<Rightarrow> Item" where
  "setFluidType n = setIntAttr ITEM_ATTRIBUTE_FLUIDTYPE (ucast n)"

definition getFluidType :: "Item \<Rightarrow> u16" where
  "getFluidType i = ucast (getIntAttr ITEM_ATTRIBUTE_FLUIDTYPE i)"

definition setItemCount :: "u8 \<Rightarrow> Item \<Rightarrow> Item" where
  "setItemCount n i = i\<lparr>item_count := n\<rparr>"

definition is_fluid :: "items \<Rightarrow> Item \<Rightarrow> bool" where
  "is_fluid its i = (isFluidContainer (its (item_id i)) \<or> isSplash (its (item_id i)))"

definition getSubType :: "items \<Rightarrow> Item \<Rightarrow> u16" where
  "getSubType its i =
     (if is_fluid its i then getFluidType i
      else if stackable (its (item_id i)) then ucast (item_count i)
      else if charges (its (item_id i)) \<noteq> 0 then getCharges i
      else ucast (item_count i))"

definition setSubType :: "items \<Rightarrow> u16 \<Rightarrow> Item \<Rightarrow> Item" where
  "setSubType its n i =
     (if is_fluid its i then setFluidType n i
      else if stackable (its (item_id i)) then setItemCount (ucast n) i
      else if charges (its (item_id i)) \<noteq> 0 then setCharges n i
      else setItemCount (ucast n) i)"

text \<open>The constructor.\<close>

definition new_item :: "items \<Rightarrow> u16 \<Rightarrow> u16 \<Rightarrow> Item" where
  "new_item its t cnt =
     (let ty = its t; i0 = \<lparr>item_id = t, item_count = 1, item_attrs = None\<rparr>;
          i1 = (if isFluidContainer ty \<or> isSplash ty then setFluidType cnt i0
                else if stackable ty then
                  (if cnt \<noteq> 0 then setItemCount (ucast cnt) i0
                   else if charges ty \<noteq> 0 then setItemCount (ucast (charges ty)) i0 else i0)
                else if charges ty \<noteq> 0 then
                  (if cnt \<noteq> 0 then setCharges cnt i0 else setCharges (ucast (charges ty)) i0)
                else i0);
          duration = decayTime ty * 1000
      in if duration \<noteq> 0 then setIntAttr ITEM_ATTRIBUTE_DURATION duration i1 else i1)"

section \<open>Weight and equality\<close>

definition getBaseWeight :: "items \<Rightarrow> Item \<Rightarrow> u32" where
  "getBaseWeight its i =
     (if item_hasAttribute ITEM_ATTRIBUTE_WEIGHT i then getIntAttr ITEM_ATTRIBUTE_WEIGHT i
      else weight (its (item_id i)))"

definition getWeight :: "items \<Rightarrow> Item \<Rightarrow> u32" where
  "getWeight its i =
     (if stackable (its (item_id i)) then getBaseWeight its i * max 1 (ucast (item_count i))
      else getBaseWeight its i)"

text \<open>A value is compared as the string or the integer that its type says it is.\<close>

definition value_differs :: "itemAttrTypes \<Rightarrow> attr_value \<Rightarrow> attr_value \<Rightarrow> bool" where
  "value_differs t v w =
     (if isStrAttrType t then str_value v \<noteq> str_value w else int_value v \<noteq> int_value w)"

text \<open>\<open>equals\<close> compares every attribute of the one item with every attribute of the other.\<close>

definition item_equals :: "Item \<Rightarrow> Item option \<Rightarrow> bool" where
  "item_equals i other =
     (case other of
        None \<Rightarrow> False
      | Some j \<Rightarrow>
          if item_id i \<noteq> item_id j then False
          else case item_attrs i of
            None \<Rightarrow> item_attrs j = None
          | Some a \<Rightarrow>
              (case item_attrs j of
                 None \<Rightarrow> False
               | Some b \<Rightarrow>
                   if attributeBits a \<noteq> attributeBits b then False
                   else list_all (\<lambda>(t, v). list_all (\<lambda>(s, w). \<not> (t = s \<and> value_differs t v w)) (attributes b)) (attributes a)))"

section \<open>Attribute codes in the stream\<close>

datatype AttrTypes_t =
    ATTR_TILE_FLAGS | ATTR_ACTION_ID | ATTR_UNIQUE_ID | ATTR_TEXT | ATTR_DESC | ATTR_TELE_DEST
  | ATTR_ITEM | ATTR_DEPOT_ID | ATTR_RUNE_CHARGES | ATTR_HOUSEDOORID | ATTR_COUNT | ATTR_DURATION
  | ATTR_DECAYING_STATE | ATTR_WRITTENDATE | ATTR_WRITTENBY | ATTR_SLEEPERGUID | ATTR_SLEEPSTART
  | ATTR_CHARGES | ATTR_CONTAINER_ITEMS | ATTR_NAME | ATTR_ARTICLE | ATTR_PLURALNAME | ATTR_WEIGHT
  | ATTR_ATTACK | ATTR_DEFENSE | ATTR_EXTRADEFENSE | ATTR_ARMOR | ATTR_HITCHANCE | ATTR_SHOOTRANGE

definition attr_types :: "(AttrTypes_t \<times> nat) list" where
  "attr_types = [
     (ATTR_TILE_FLAGS, 3), (ATTR_ACTION_ID, 4), (ATTR_UNIQUE_ID, 5), (ATTR_TEXT, 6), (ATTR_DESC, 7),
     (ATTR_TELE_DEST, 8), (ATTR_ITEM, 9), (ATTR_DEPOT_ID, 10), (ATTR_RUNE_CHARGES, 12), (ATTR_HOUSEDOORID, 14),
     (ATTR_COUNT, 15), (ATTR_DURATION, 16), (ATTR_DECAYING_STATE, 17), (ATTR_WRITTENDATE, 18), (ATTR_WRITTENBY, 19),
     (ATTR_SLEEPERGUID, 20), (ATTR_SLEEPSTART, 21), (ATTR_CHARGES, 22), (ATTR_CONTAINER_ITEMS, 23), (ATTR_NAME, 24),
     (ATTR_ARTICLE, 25), (ATTR_PLURALNAME, 26), (ATTR_WEIGHT, 27), (ATTR_ATTACK, 28), (ATTR_DEFENSE, 29),
     (ATTR_EXTRADEFENSE, 30), (ATTR_ARMOR, 31), (ATTR_HITCHANCE, 32), (ATTR_SHOOTRANGE, 33)]"

definition attr_type_code :: "AttrTypes_t \<Rightarrow> nat" where
  "attr_type_code a = (case map_of attr_types a of None \<Rightarrow> 0 | Some n \<Rightarrow> n)"

definition attr_type_of :: "nat \<Rightarrow> AttrTypes_t option" where
  "attr_type_of n = map_of (map (\<lambda>(a, m). (m, a)) attr_types) n"

lemma attr_type_of_code: "attr_type_of (attr_type_code a) = Some a"
  by (cases a) (simp_all add: attr_type_of_def attr_type_code_def attr_types_def)

lemma attr_type_code_range: "0 < attr_type_code a \<and> attr_type_code a < 256"
  by (cases a) (simp_all add: attr_type_code_def attr_types_def)

section \<open>Loading\<close>

datatype Attr_ReadValue = ATTR_READ_CONTINUE | ATTR_READ_ERROR | ATTR_READ_END

text \<open>Loading works on the item and on the unique ids the game has given out.\<close>

record Loading =
  ld_item :: Item
  uniqueItems :: "u16 set"

type_synonym read_result = "Attr_ReadValue \<times> prop_stream \<times> Loading"

definition on_item :: "(Item \<Rightarrow> Item) \<Rightarrow> Loading \<Rightarrow> Loading" where
  "on_item f l = l\<lparr>ld_item := f (ld_item l)\<rparr>"

definition setUniqueId :: "u16 \<Rightarrow> Loading \<Rightarrow> Loading" where
  "setUniqueId n l =
     (if item_hasAttribute ITEM_ATTRIBUTE_UNIQUEID (ld_item l) then l
      else if n \<notin> uniqueItems l
      then l\<lparr>uniqueItems := insert n (uniqueItems l),
             ld_item := setIntAttr ITEM_ATTRIBUTE_UNIQUEID (ucast n) (ld_item l)\<rparr>
      else l)"

definition read_int :: "nat \<Rightarrow> (nat \<Rightarrow> Loading \<Rightarrow> Loading) \<Rightarrow> prop_stream \<Rightarrow> Loading \<Rightarrow> read_result" where
  "read_int n f ps l =
     (case prop_read n ps of
        None \<Rightarrow> (ATTR_READ_ERROR, ps, l)
      | Some (v, ps') \<Rightarrow> (ATTR_READ_CONTINUE, ps', f v l))"

definition read_str :: "(string \<Rightarrow> Loading \<Rightarrow> Loading) \<Rightarrow> prop_stream \<Rightarrow> Loading \<Rightarrow> read_result" where
  "read_str f ps l =
     (case prop_readString ps of
        None \<Rightarrow> (ATTR_READ_ERROR, ps, l)
      | Some (s, ps') \<Rightarrow> (ATTR_READ_CONTINUE, ps', f s l))"

definition read_skip :: "nat \<Rightarrow> prop_stream \<Rightarrow> Loading \<Rightarrow> read_result" where
  "read_skip n ps l =
     (case prop_skip n ps of
        None \<Rightarrow> (ATTR_READ_ERROR, ps, l)
      | Some ps' \<Rightarrow> (ATTR_READ_CONTINUE, ps', l))"

definition set_int32 :: "itemAttrTypes \<Rightarrow> nat \<Rightarrow> Loading \<Rightarrow> Loading" where
  "set_int32 t v = on_item (setIntAttr t (of_nat v))"

definition set_str :: "itemAttrTypes \<Rightarrow> string \<Rightarrow> Loading \<Rightarrow> Loading" where
  "set_str t s = on_item (setStrAttr t s)"

text \<open>Decay states: 0 \<open>DECAYING_FALSE\<close>, 1 \<open>DECAYING_TRUE\<close>, 2 \<open>DECAYING_PENDING\<close>.\<close>

definition readAttr :: "items \<Rightarrow> AttrTypes_t option \<Rightarrow> prop_stream \<Rightarrow> Loading \<Rightarrow> read_result" where
  "readAttr its attr ps l =
     (case attr of
        Some ATTR_COUNT \<Rightarrow> read_int 1 (\<lambda>v. on_item (setSubType its (of_nat v))) ps l
      | Some ATTR_RUNE_CHARGES \<Rightarrow> read_int 1 (\<lambda>v. on_item (setSubType its (of_nat v))) ps l
      | Some ATTR_ACTION_ID \<Rightarrow> read_int 2 (\<lambda>v. on_item (setActionId (of_nat v))) ps l
      | Some ATTR_UNIQUE_ID \<Rightarrow> read_int 2 (\<lambda>v. setUniqueId (of_nat v)) ps l
      | Some ATTR_TEXT \<Rightarrow> read_str (set_str ITEM_ATTRIBUTE_TEXT) ps l
      | Some ATTR_WRITTENDATE \<Rightarrow> read_int 4 (set_int32 ITEM_ATTRIBUTE_DATE) ps l
      | Some ATTR_WRITTENBY \<Rightarrow> read_str (set_str ITEM_ATTRIBUTE_WRITER) ps l
      | Some ATTR_DESC \<Rightarrow> read_str (set_str ITEM_ATTRIBUTE_DESCRIPTION) ps l
      | Some ATTR_CHARGES \<Rightarrow> read_int 2 (\<lambda>v. on_item (setSubType its (of_nat v))) ps l
      | Some ATTR_DURATION \<Rightarrow>
          read_int 4 (\<lambda>v. set_int32 ITEM_ATTRIBUTE_DURATION
            (if sint (of_nat v :: u32) < 0 then 0 else v)) ps l
      | Some ATTR_DECAYING_STATE \<Rightarrow>
          read_int 1 (\<lambda>v l. if v \<noteq> 0 then set_int32 ITEM_ATTRIBUTE_DECAYSTATE 2 l else l) ps l
      | Some ATTR_NAME \<Rightarrow> read_str (set_str ITEM_ATTRIBUTE_NAME) ps l
      | Some ATTR_ARTICLE \<Rightarrow> read_str (set_str ITEM_ATTRIBUTE_ARTICLE) ps l
      | Some ATTR_PLURALNAME \<Rightarrow> read_str (set_str ITEM_ATTRIBUTE_PLURALNAME) ps l
      | Some ATTR_WEIGHT \<Rightarrow> read_int 4 (set_int32 ITEM_ATTRIBUTE_WEIGHT) ps l
      | Some ATTR_ATTACK \<Rightarrow> read_int 4 (set_int32 ITEM_ATTRIBUTE_ATTACK) ps l
      | Some ATTR_DEFENSE \<Rightarrow> read_int 4 (set_int32 ITEM_ATTRIBUTE_DEFENSE) ps l
      | Some ATTR_EXTRADEFENSE \<Rightarrow> read_int 4 (set_int32 ITEM_ATTRIBUTE_EXTRADEFENSE) ps l
      | Some ATTR_ARMOR \<Rightarrow> read_int 4 (set_int32 ITEM_ATTRIBUTE_ARMOR) ps l
      | Some ATTR_HITCHANCE \<Rightarrow>
          read_int 1 (\<lambda>v. on_item (setIntAttr ITEM_ATTRIBUTE_HITCHANCE (scast (of_nat v :: u8)))) ps l
      | Some ATTR_SHOOTRANGE \<Rightarrow> read_int 1 (set_int32 ITEM_ATTRIBUTE_SHOOTRANGE) ps l
      | Some ATTR_DEPOT_ID \<Rightarrow> read_skip 2 ps l
      | Some ATTR_HOUSEDOORID \<Rightarrow> read_skip 1 ps l
      | Some ATTR_SLEEPERGUID \<Rightarrow> read_skip 4 ps l
      | Some ATTR_SLEEPSTART \<Rightarrow> read_skip 4 ps l
      | Some ATTR_TELE_DEST \<Rightarrow> read_skip 5 ps l
      | _ \<Rightarrow> (ATTR_READ_ERROR, ps, l))"

lemma read_shorter:
  "fst (snd (read_int n f ps l)) = ps' \<Longrightarrow> length ps' \<le> length ps"
  "fst (snd (read_str g ps l)) = ps' \<Longrightarrow> length ps' \<le> length ps"
  "fst (snd (read_skip n ps l)) = ps' \<Longrightarrow> length ps' \<le> length ps"
  by (auto simp: read_int_def read_str_def read_skip_def split: option.splits
      dest: prop_read_length prop_readString_length prop_skip_length)

lemma readAttr_shorter: "length (fst (snd (readAttr its attr ps l))) \<le> length ps"
proof (cases attr)
  case None
  then show ?thesis by (simp add: readAttr_def)
next
  case (Some a)
  then show ?thesis
    by (cases a) (simp_all add: readAttr_def read_shorter)
qed

lemma readAttr_le: "readAttr its attr ps l = (r, ps', l') \<Longrightarrow> length ps' \<le> length ps"
  using readAttr_shorter [of its attr ps l] by simp

text \<open>The loop ends because every round reads at least the attribute's code.\<close>

function unserializeAttr :: "items \<Rightarrow> prop_stream \<Rightarrow> Loading \<Rightarrow> bool \<times> prop_stream \<times> Loading" where
  "unserializeAttr its ps l =
     (case prop_read 1 ps of
        None \<Rightarrow> (True, ps, l)
      | Some (attr_type, ps1) \<Rightarrow>
          if attr_type = 0 then (True, ps1, l)
          else case readAttr its (attr_type_of attr_type) ps1 l of
            (ATTR_READ_ERROR, ps2, l2) \<Rightarrow> (False, ps2, l2)
          | (ATTR_READ_END, ps2, l2) \<Rightarrow> (True, ps2, l2)
          | (ATTR_READ_CONTINUE, ps2, l2) \<Rightarrow> unserializeAttr its ps2 l2)"
  by pat_completeness auto
termination
  by (relation "measure (\<lambda>(its, ps, l). length ps)")
    (auto dest!: prop_read_length readAttr_le [OF sym])

declare unserializeAttr.simps [simp del]

section \<open>Saving\<close>

definition write_code :: "AttrTypes_t \<Rightarrow> prop_stream \<Rightarrow> prop_stream" where
  "write_code a = prop_write 1 (attr_type_code a)"

definition write_int_attr :: "AttrTypes_t \<Rightarrow> nat \<Rightarrow> nat \<Rightarrow> prop_stream \<Rightarrow> prop_stream" where
  "write_int_attr a n v w = prop_write n v (write_code a w)"

definition write_str_attr :: "AttrTypes_t \<Rightarrow> string \<Rightarrow> prop_stream \<Rightarrow> prop_stream" where
  "write_str_attr a s w = prop_writeString s (write_code a w)"

definition decay_state :: "Item \<Rightarrow> u8" where
  "decay_state i = ucast (getIntAttr ITEM_ATTRIBUTE_DECAYSTATE i)"

definition serializeAttr :: "items \<Rightarrow> Item \<Rightarrow> prop_stream \<Rightarrow> prop_stream" where
  "serializeAttr its i w0 =
     (let ty = its (item_id i);
          has = (\<lambda>t. item_hasAttribute t i); int = (\<lambda>t. unat (getIntAttr t i)); str = (\<lambda>t. getStrAttr t i);
          w1 = (if stackable ty \<or> isFluidContainer ty \<or> isSplash ty
                then write_int_attr ATTR_COUNT 1 (unat (ucast (getSubType its i) :: u8)) w0 else w0);
          w2 = (if getCharges i \<noteq> 0 then write_int_attr ATTR_CHARGES 2 (unat (getCharges i)) w1 else w1);
          w3 = (if moveable ty \<and> getActionId i \<noteq> 0 then write_int_attr ATTR_ACTION_ID 2 (unat (getActionId i)) w2 else w2);
          w4 = (if str ITEM_ATTRIBUTE_TEXT \<noteq> [] then write_str_attr ATTR_TEXT (str ITEM_ATTRIBUTE_TEXT) w3 else w3);
          w5 = (if int ITEM_ATTRIBUTE_DATE \<noteq> 0 then write_int_attr ATTR_WRITTENDATE 4 (int ITEM_ATTRIBUTE_DATE) w4 else w4);
          w6 = (if str ITEM_ATTRIBUTE_WRITER \<noteq> [] then write_str_attr ATTR_WRITTENBY (str ITEM_ATTRIBUTE_WRITER) w5 else w5);
          w7 = (if str ITEM_ATTRIBUTE_DESCRIPTION \<noteq> [] then write_str_attr ATTR_DESC (str ITEM_ATTRIBUTE_DESCRIPTION) w6 else w6);
          w8 = (if has ITEM_ATTRIBUTE_DURATION then write_int_attr ATTR_DURATION 4 (int ITEM_ATTRIBUTE_DURATION) w7 else w7);
          w9 = (if decay_state i = 1 \<or> decay_state i = 2 then write_int_attr ATTR_DECAYING_STATE 1 (unat (decay_state i)) w8 else w8);
          w10 = (if has ITEM_ATTRIBUTE_NAME then write_str_attr ATTR_NAME (str ITEM_ATTRIBUTE_NAME) w9 else w9);
          w11 = (if has ITEM_ATTRIBUTE_ARTICLE then write_str_attr ATTR_ARTICLE (str ITEM_ATTRIBUTE_ARTICLE) w10 else w10);
          w12 = (if has ITEM_ATTRIBUTE_PLURALNAME then write_str_attr ATTR_PLURALNAME (str ITEM_ATTRIBUTE_PLURALNAME) w11 else w11);
          w13 = (if has ITEM_ATTRIBUTE_WEIGHT then write_int_attr ATTR_WEIGHT 4 (int ITEM_ATTRIBUTE_WEIGHT) w12 else w12);
          w14 = (if has ITEM_ATTRIBUTE_ATTACK then write_int_attr ATTR_ATTACK 4 (int ITEM_ATTRIBUTE_ATTACK) w13 else w13);
          w15 = (if has ITEM_ATTRIBUTE_DEFENSE then write_int_attr ATTR_DEFENSE 4 (int ITEM_ATTRIBUTE_DEFENSE) w14 else w14);
          w16 = (if has ITEM_ATTRIBUTE_EXTRADEFENSE then write_int_attr ATTR_EXTRADEFENSE 4 (int ITEM_ATTRIBUTE_EXTRADEFENSE) w15 else w15);
          w17 = (if has ITEM_ATTRIBUTE_ARMOR then write_int_attr ATTR_ARMOR 4 (int ITEM_ATTRIBUTE_ARMOR) w16 else w16);
          w18 = (if has ITEM_ATTRIBUTE_HITCHANCE
                 then write_int_attr ATTR_HITCHANCE 1 (unat (ucast (getIntAttr ITEM_ATTRIBUTE_HITCHANCE i) :: u8)) w17 else w17);
          w19 = (if has ITEM_ATTRIBUTE_SHOOTRANGE
                 then write_int_attr ATTR_SHOOTRANGE 1 (unat (ucast (getIntAttr ITEM_ATTRIBUTE_SHOOTRANGE i) :: u8)) w18 else w18)
      in w19)"

section \<open>Reading what was written, attribute by attribute\<close>

lemma ucast_scast_32 [simp]: "(ucast (scast (n :: u32) :: u64) :: u32) = n"
  by (rule bit_word_eqI) (simp add: bit_simps)

lemma ucast_scast_8 [simp]: "(ucast (scast (b :: u8) :: u32) :: u8) = b"
  by (rule bit_word_eqI) (simp add: bit_simps)

lemma ucast_ucast_small [simp]:
  "(ucast (ucast (b :: u8) :: u32) :: u8) = b" "(ucast (ucast (b :: u8) :: u16) :: u8) = b"
  "(ucast (ucast (w :: u16) :: u32) :: u16) = w"
  by (rule bit_word_eqI; simp add: bit_simps)+

lemma scast_ucast_small:
  "(scast (ucast (b :: u8) :: u32) :: u64) = ucast b" "(scast (ucast (w :: u16) :: u32) :: u64) = ucast w"
  by (rule bit_word_eqI; auto simp: bit_simps min_def dest: bit_imp_le_length split: if_splits)+

lemma ucast_ucast_up_16: "(ucast (ucast (b :: u8) :: u16) :: u32) = ucast b"
  by (rule bit_word_eqI) (auto simp: bit_simps dest: bit_imp_le_length)

lemma item_attributes_set:
  assumes "attrs_ok (item_attributes i)" and "isIntAttrType t"
  shows "attrs_ok (item_attributes (setIntAttr t n i))"
    and "lookup (item_attributes (setIntAttr t n i)) = (lookup (item_attributes i))(t \<mapsto> AInt (scast n))"
  using setInt_keeps [OF assms] by (simp_all add: setIntAttr_def item_attributes_def)

lemma item_attributes_setStr:
  assumes "attrs_ok (item_attributes i)" and "isStrAttrType t" and "s \<noteq> []"
  shows "attrs_ok (item_attributes (setStrAttr t s i))"
    and "lookup (item_attributes (setStrAttr t s i)) = (lookup (item_attributes i))(t \<mapsto> AStr s)"
  using setStr_keeps [OF assms(1,2), of s] assms(3) by (simp_all add: setStrAttr_def item_attributes_def)

lemma item_fields [simp]:
  "item_id (setIntAttr t n i) = item_id i" "item_count (setIntAttr t n i) = item_count i"
  "item_id (setStrAttr t s i) = item_id i" "item_count (setStrAttr t s i) = item_count i"
  "item_id (setItemCount c i) = item_id i" "item_count (setItemCount c i) = c"
  "item_attributes (setItemCount c i) = item_attributes i"
  by (simp_all add: setIntAttr_def setStrAttr_def setItemCount_def item_attributes_def)

lemma getIntAttr_lookup:
  "attrs_ok (item_attributes i) \<Longrightarrow> isIntAttrType t \<Longrightarrow>
     getIntAttr t i = (case lookup (item_attributes i) t of None \<Rightarrow> 0 | Some v \<Rightarrow> ucast (int_value v))"
  by (cases "item_attrs i") (simp_all add: getIntAttr_def item_attributes_def attrs_getIntAttr_def getExistingAttr_lookup
      split: option.split)

lemma getStrAttr_lookup:
  "attrs_ok (item_attributes i) \<Longrightarrow> isStrAttrType t \<Longrightarrow>
     getStrAttr t i = (case lookup (item_attributes i) t of None \<Rightarrow> [] | Some v \<Rightarrow> str_value v)"
  by (cases "item_attrs i") (simp_all add: getStrAttr_def item_attributes_def attrs_getStrAttr_def getExistingAttr_lookup)

lemma item_has_lookup:
  "attrs_ok (item_attributes i) \<Longrightarrow> item_hasAttribute t i \<longleftrightarrow> lookup (item_attributes i) t \<noteq> None"
  by (cases "item_attrs i") (simp_all add: item_hasAttribute_def item_attributes_def hasAttribute_present lookup_present)

text \<open>
  A section of a saved item: whether it is written, its code, its payload, and what reading it
  does to the count and to the attribute map.
\<close>

type_synonym item_view = "u8 \<times> (itemAttrTypes \<rightharpoonup> attr_value)"
type_synonym attr_section = "bool \<times> AttrTypes_t \<times> u8 list \<times> (item_view \<Rightarrow> item_view)"

definition view :: "Loading \<Rightarrow> item_view" where
  "view l = (item_count (ld_item l), lookup (item_attributes (ld_item l)))"

fun section_bytes :: "attr_section \<Rightarrow> u8 list" where
  "section_bytes (active, code, payload, eff) = (if active then le_bytes 1 (attr_type_code code) @ payload else [])"

fun section_effect :: "attr_section \<Rightarrow> item_view \<Rightarrow> item_view" where
  "section_effect (active, code, payload, eff) = (if active then eff else id)"

definition loads :: "items \<Rightarrow> u16 \<Rightarrow> attr_section \<Rightarrow> bool" where
  "loads its ty sec = (case sec of (active, code, payload, eff) \<Rightarrow>
     active \<longrightarrow> (\<forall>ps l. item_id (ld_item l) = ty \<longrightarrow> attrs_ok (item_attributes (ld_item l)) \<longrightarrow>
       (\<exists>l'. readAttr its (Some code) (payload @ ps) l = (ATTR_READ_CONTINUE, ps, l') \<and>
          item_id (ld_item l') = ty \<and> attrs_ok (item_attributes (ld_item l')) \<and> view l' = eff (view l))))"

lemma unserialize_sections:
  assumes "list_all (loads its ty) secs" and "item_id (ld_item l) = ty" and "attrs_ok (item_attributes (ld_item l))"
  shows "\<exists>l'. unserializeAttr its (concat (map section_bytes secs) @ ps) l = unserializeAttr its ps l' \<and>
    item_id (ld_item l') = ty \<and> attrs_ok (item_attributes (ld_item l')) \<and> view l' = fold section_effect secs (view l)"
  using assms
proof (induction secs arbitrary: l)
  case (Cons sec secs)
  obtain active code payload eff where sec: "sec = (active, code, payload, eff)" by (cases sec)
  show ?case
  proof (cases active)
    case False
    with Cons sec show ?thesis by simp
  next
    case True
    let ?rest = "concat (map section_bytes secs) @ ps"
    obtain l1 where l1: "readAttr its (Some code) (payload @ ?rest) l = (ATTR_READ_CONTINUE, ?rest, l1)"
        "item_id (ld_item l1) = ty" "attrs_ok (item_attributes (ld_item l1))" "view l1 = eff (view l)"
      using Cons.prems sec True by (auto simp: loads_def)
    have "prop_read 1 (section_bytes sec @ ?rest) = Some (attr_type_code code, payload @ ?rest)"
      using attr_type_code_range [of code] True sec prop_read_write [of "attr_type_code code" 1]
      by (simp add: prop_write_def)
    then have "unserializeAttr its (section_bytes sec @ ?rest) l = unserializeAttr its ?rest l1"
      using l1(1) attr_type_code_range [of code]
      by (subst unserializeAttr.simps) (simp add: attr_type_of_code)
    with Cons.IH [of l1] Cons.prems(1) l1 sec True show ?thesis by simp
  qed
next
  case Nil
  then show ?case by (intro exI [of _ l]) simp
qed

text \<open>The kinds of sections.\<close>

definition put :: "itemAttrTypes \<Rightarrow> attr_value \<Rightarrow> item_view \<Rightarrow> item_view" where
  "put t v = apsnd (\<lambda>m. m(t \<mapsto> v))"

lemma prop_read_le: "v < 256 ^ n \<Longrightarrow> prop_read n (le_bytes n v @ ps) = Some (v, ps)"
  using prop_read_write [of v n ps] by (simp add: prop_write_def)

definition int_section :: "bool \<Rightarrow> AttrTypes_t \<Rightarrow> itemAttrTypes \<Rightarrow> u32 \<Rightarrow> attr_section" where
  "int_section active code t n = (active, code, le_bytes 4 (unat n), put t (AInt (scast n)))"

definition str_section :: "bool \<Rightarrow> AttrTypes_t \<Rightarrow> itemAttrTypes \<Rightarrow> string \<Rightarrow> attr_section" where
  "str_section active code t s = (active, code, prop_writeString s [], put t (AStr s))"

lemma loads_int:
  assumes "\<And>ps l. readAttr its (Some code) ps l = read_int 4 (set_int32 t) ps l" and "isIntAttrType t"
  shows "loads its ty (int_section active code t n)"
  using assms(2) unat_less_32 [of n]
  by (auto simp: loads_def int_section_def assms(1) read_int_def prop_read_le set_int32_def on_item_def
      item_attributes_set view_def put_def)

lemma loads_str:
  assumes "\<And>ps l. readAttr its (Some code) ps l = read_str (set_str t) ps l" and "isStrAttrType t"
    and "active \<Longrightarrow> s \<noteq> [] \<and> length s \<le> 65535"
  shows "loads its ty (str_section active code t s)"
  using assms(2,3)
  by (auto simp: loads_def str_section_def assms(1) read_str_def prop_readString_write set_str_def on_item_def
      item_attributes_setStr view_def put_def)

lemma kinds [simp]:
  "isIntAttrType ITEM_ATTRIBUTE_ACTIONID" "isIntAttrType ITEM_ATTRIBUTE_DATE" "isIntAttrType ITEM_ATTRIBUTE_WEIGHT"
  "isIntAttrType ITEM_ATTRIBUTE_ATTACK" "isIntAttrType ITEM_ATTRIBUTE_DEFENSE" "isIntAttrType ITEM_ATTRIBUTE_EXTRADEFENSE"
  "isIntAttrType ITEM_ATTRIBUTE_ARMOR" "isIntAttrType ITEM_ATTRIBUTE_HITCHANCE" "isIntAttrType ITEM_ATTRIBUTE_SHOOTRANGE"
  "isIntAttrType ITEM_ATTRIBUTE_DURATION" "isIntAttrType ITEM_ATTRIBUTE_DECAYSTATE" "isIntAttrType ITEM_ATTRIBUTE_CHARGES"
  "isIntAttrType ITEM_ATTRIBUTE_FLUIDTYPE"
  "isStrAttrType ITEM_ATTRIBUTE_DESCRIPTION" "isStrAttrType ITEM_ATTRIBUTE_TEXT" "isStrAttrType ITEM_ATTRIBUTE_WRITER"
  "isStrAttrType ITEM_ATTRIBUTE_NAME" "isStrAttrType ITEM_ATTRIBUTE_ARTICLE" "isStrAttrType ITEM_ATTRIBUTE_PLURALNAME"
  by (simp_all add: isIntAttrType_def isStrAttrType_def)

section \<open>The items that survive saving\<close>

text \<open>
  What is written of an item as the list of its sections, in the order of the code.  The first
  two depend on the kind of the item, the others put one attribute each.
\<close>

definition count_effect :: "items \<Rightarrow> Item \<Rightarrow> item_view \<Rightarrow> item_view" where
  "count_effect its i =
     (if is_fluid its i then put ITEM_ATTRIBUTE_FLUIDTYPE (AInt (ucast (ucast (getSubType its i) :: u8)))
      else apfst (\<lambda>_. ucast (getSubType its i)))"

definition attr_sections :: "items \<Rightarrow> Item \<Rightarrow> attr_section list" where
  "attr_sections its i =
     (let ty = its (item_id i); has = (\<lambda>t. item_hasAttribute t i); int = (\<lambda>t. getIntAttr t i); str = (\<lambda>t. getStrAttr t i)
      in [(stackable ty \<or> isFluidContainer ty \<or> isSplash ty, ATTR_COUNT,
             le_bytes 1 (unat (ucast (getSubType its i) :: u8)), count_effect its i),
          (getCharges i \<noteq> 0, ATTR_CHARGES, le_bytes 2 (unat (getCharges i)),
             put ITEM_ATTRIBUTE_CHARGES (AInt (ucast (getCharges i)))),
          (moveable ty \<and> getActionId i \<noteq> 0, ATTR_ACTION_ID, le_bytes 2 (unat (getActionId i)),
             put ITEM_ATTRIBUTE_ACTIONID (AInt (ucast (getActionId i)))),
          str_section (str ITEM_ATTRIBUTE_TEXT \<noteq> []) ATTR_TEXT ITEM_ATTRIBUTE_TEXT (str ITEM_ATTRIBUTE_TEXT),
          int_section (int ITEM_ATTRIBUTE_DATE \<noteq> 0) ATTR_WRITTENDATE ITEM_ATTRIBUTE_DATE (int ITEM_ATTRIBUTE_DATE),
          str_section (str ITEM_ATTRIBUTE_WRITER \<noteq> []) ATTR_WRITTENBY ITEM_ATTRIBUTE_WRITER (str ITEM_ATTRIBUTE_WRITER),
          str_section (str ITEM_ATTRIBUTE_DESCRIPTION \<noteq> []) ATTR_DESC ITEM_ATTRIBUTE_DESCRIPTION (str ITEM_ATTRIBUTE_DESCRIPTION),
          int_section (has ITEM_ATTRIBUTE_DURATION) ATTR_DURATION ITEM_ATTRIBUTE_DURATION (int ITEM_ATTRIBUTE_DURATION),
          (decay_state i = 1 \<or> decay_state i = 2, ATTR_DECAYING_STATE, le_bytes 1 (unat (decay_state i)),
             put ITEM_ATTRIBUTE_DECAYSTATE (AInt 2)),
          str_section (has ITEM_ATTRIBUTE_NAME) ATTR_NAME ITEM_ATTRIBUTE_NAME (str ITEM_ATTRIBUTE_NAME),
          str_section (has ITEM_ATTRIBUTE_ARTICLE) ATTR_ARTICLE ITEM_ATTRIBUTE_ARTICLE (str ITEM_ATTRIBUTE_ARTICLE),
          str_section (has ITEM_ATTRIBUTE_PLURALNAME) ATTR_PLURALNAME ITEM_ATTRIBUTE_PLURALNAME (str ITEM_ATTRIBUTE_PLURALNAME),
          int_section (has ITEM_ATTRIBUTE_WEIGHT) ATTR_WEIGHT ITEM_ATTRIBUTE_WEIGHT (int ITEM_ATTRIBUTE_WEIGHT),
          int_section (has ITEM_ATTRIBUTE_ATTACK) ATTR_ATTACK ITEM_ATTRIBUTE_ATTACK (int ITEM_ATTRIBUTE_ATTACK),
          int_section (has ITEM_ATTRIBUTE_DEFENSE) ATTR_DEFENSE ITEM_ATTRIBUTE_DEFENSE (int ITEM_ATTRIBUTE_DEFENSE),
          int_section (has ITEM_ATTRIBUTE_EXTRADEFENSE) ATTR_EXTRADEFENSE ITEM_ATTRIBUTE_EXTRADEFENSE (int ITEM_ATTRIBUTE_EXTRADEFENSE),
          int_section (has ITEM_ATTRIBUTE_ARMOR) ATTR_ARMOR ITEM_ATTRIBUTE_ARMOR (int ITEM_ATTRIBUTE_ARMOR),
          (has ITEM_ATTRIBUTE_HITCHANCE, ATTR_HITCHANCE, le_bytes 1 (unat (ucast (int ITEM_ATTRIBUTE_HITCHANCE) :: u8)),
             put ITEM_ATTRIBUTE_HITCHANCE (AInt (scast (scast (ucast (int ITEM_ATTRIBUTE_HITCHANCE) :: u8) :: u32)))),
          (has ITEM_ATTRIBUTE_SHOOTRANGE, ATTR_SHOOTRANGE, le_bytes 1 (unat (ucast (int ITEM_ATTRIBUTE_SHOOTRANGE) :: u8)),
             put ITEM_ATTRIBUTE_SHOOTRANGE (AInt (ucast (ucast (int ITEM_ATTRIBUTE_SHOOTRANGE) :: u8))))])"

lemma write_attr_bytes:
  "write_int_attr a n v w = w @ le_bytes 1 (attr_type_code a) @ le_bytes n v"
  "write_str_attr a s w = w @ le_bytes 1 (attr_type_code a) @ prop_writeString s []"
  by (simp_all add: write_int_attr_def write_str_attr_def write_code_def prop_write_def prop_writeString_def)

lemma serialize_sections: "serializeAttr its i [] = concat (map section_bytes (attr_sections its i))"
proof -
  have step: "(if b then w @ c @ d else w) = w @ (if b then c @ d else [])" for b and w c d :: prop_stream
    by simp
  have date: "(unat n \<noteq> 0) = (n \<noteq> 0)" for n :: u32
    by (simp add: unat_eq_zero)
  show ?thesis
    unfolding serializeAttr_def attr_sections_def Let_def write_attr_bytes step date
    by (simp only: list.map concat.simps section_bytes.simps int_section_def str_section_def append.assoc append_Nil append_Nil2)
qed

text \<open>
  The items that saving keeps.  An item comes with the invariant of its attributes and with
  32-bit numbers, and: a fluid has a type below 256, a count is only kept for stackable items,
  charges only where the type has them, an action id only where the type is moveable, strings
  are at most 65535 long, a date is not 0, a duration is not negative and present where the
  type has one, and the two attributes that are written in a byte fit it.
\<close>

definition storable :: "items \<Rightarrow> Item \<Rightarrow> bool" where
  "storable its i =
     (let ty = its (item_id i); m = lookup (item_attributes i) in
      attrs_ok (item_attributes i) \<and>
      (if isFluidContainer ty \<or> isSplash ty
       then \<exists>b :: u8. m ITEM_ATTRIBUTE_FLUIDTYPE = Some (AInt (ucast b)) else m ITEM_ATTRIBUTE_FLUIDTYPE = None) \<and>
      (\<not> stackable ty \<or> isFluidContainer ty \<or> isSplash ty \<longrightarrow> item_count i = 1) \<and>
      (if charges ty \<noteq> 0 \<and> \<not> stackable ty \<and> \<not> isFluidContainer ty \<and> \<not> isSplash ty
       then \<exists>c :: u16. c \<noteq> 0 \<and> m ITEM_ATTRIBUTE_CHARGES = Some (AInt (ucast c)) else m ITEM_ATTRIBUTE_CHARGES = None) \<and>
      (m ITEM_ATTRIBUTE_ACTIONID = None \<or>
        moveable ty \<and> (\<exists>n :: u16. 100 \<le> n \<and> m ITEM_ATTRIBUTE_ACTIONID = Some (AInt (ucast n)))) \<and>
      (\<forall>t \<in> {ITEM_ATTRIBUTE_TEXT, ITEM_ATTRIBUTE_WRITER, ITEM_ATTRIBUTE_DESCRIPTION, ITEM_ATTRIBUTE_NAME,
              ITEM_ATTRIBUTE_ARTICLE, ITEM_ATTRIBUTE_PLURALNAME}. length (getStrAttr t i) \<le> 65535) \<and>
      (\<forall>t \<in> {ITEM_ATTRIBUTE_DATE, ITEM_ATTRIBUTE_DURATION, ITEM_ATTRIBUTE_WEIGHT, ITEM_ATTRIBUTE_ATTACK,
              ITEM_ATTRIBUTE_DEFENSE, ITEM_ATTRIBUTE_EXTRADEFENSE, ITEM_ATTRIBUTE_ARMOR}.
         m t = None \<or> m t = Some (AInt (scast (getIntAttr t i)))) \<and>
      (m ITEM_ATTRIBUTE_DATE \<noteq> None \<longrightarrow> getIntAttr ITEM_ATTRIBUTE_DATE i \<noteq> 0) \<and>
      (if m ITEM_ATTRIBUTE_DURATION = None then decayTime ty * 1000 = 0
       else 0 \<le> sint (getIntAttr ITEM_ATTRIBUTE_DURATION i)) \<and>
      (m ITEM_ATTRIBUTE_HITCHANCE = None \<or>
        (\<exists>b :: u8. m ITEM_ATTRIBUTE_HITCHANCE = Some (AInt (scast (scast b :: u32))))) \<and>
      (m ITEM_ATTRIBUTE_SHOOTRANGE = None \<or> (\<exists>b :: u8. m ITEM_ATTRIBUTE_SHOOTRANGE = Some (AInt (ucast b)))))"

definition saved_types :: "itemAttrTypes set" where
  "saved_types = {ITEM_ATTRIBUTE_ACTIONID, ITEM_ATTRIBUTE_DESCRIPTION, ITEM_ATTRIBUTE_TEXT, ITEM_ATTRIBUTE_DATE,
     ITEM_ATTRIBUTE_WRITER, ITEM_ATTRIBUTE_NAME, ITEM_ATTRIBUTE_ARTICLE, ITEM_ATTRIBUTE_PLURALNAME,
     ITEM_ATTRIBUTE_WEIGHT, ITEM_ATTRIBUTE_ATTACK, ITEM_ATTRIBUTE_DEFENSE, ITEM_ATTRIBUTE_EXTRADEFENSE,
     ITEM_ATTRIBUTE_ARMOR, ITEM_ATTRIBUTE_HITCHANCE, ITEM_ATTRIBUTE_SHOOTRANGE, ITEM_ATTRIBUTE_DURATION,
     ITEM_ATTRIBUTE_CHARGES, ITEM_ATTRIBUTE_FLUIDTYPE}"

lemma loads_byte:
  assumes "\<And>ps l. readAttr its (Some code) ps l = read_int 1 f ps l"
    and "\<And>l. active \<Longrightarrow> item_id (ld_item l) = ty \<Longrightarrow> attrs_ok (item_attributes (ld_item l)) \<Longrightarrow>
      item_id (ld_item (f (unat b) l)) = ty \<and> attrs_ok (item_attributes (ld_item (f (unat b) l))) \<and>
      view (f (unat b) l) = eff (view l)"
  shows "loads its ty (active, code, le_bytes 1 (unat (b :: u8)), eff)"
  using assms(2) unat_less_8 [of b]
  by (auto simp: loads_def assms(1) read_int_def prop_read_le simp del: le_bytes.simps power_one_right)

lemma loads_short:
  assumes "\<And>ps l. readAttr its (Some code) ps l = read_int 2 f ps l"
    and "\<And>l. active \<Longrightarrow> item_id (ld_item l) = ty \<Longrightarrow> attrs_ok (item_attributes (ld_item l)) \<Longrightarrow>
      item_id (ld_item (f (unat w) l)) = ty \<and> attrs_ok (item_attributes (ld_item (f (unat w) l))) \<and>
      view (f (unat w) l) = eff (view l)"
  shows "loads its ty (active, code, le_bytes 2 (unat (w :: u16)), eff)"
  using assms(2) unat_less_16 [of w]
  by (auto simp: loads_def assms(1) read_int_def prop_read_le)

lemma unat_of_nat_word [simp]:
  "(of_nat (unat (b :: u8)) :: u16) = ucast b" "(of_nat (unat (b :: u8)) :: u32) = ucast b"
  "(of_nat (unat (w :: u16)) :: u32) = ucast w"
  by (rule word_unat_eq_iff [THEN iffD2]; simp add: unsigned_ucast_eq unat_of_nat take_bit_nat_eq_self_iff)+

lemma set_view:
  assumes "attrs_ok (item_attributes (ld_item l))" and "isIntAttrType t"
  shows "view (on_item (setIntAttr t n) l) = put t (AInt (scast n)) (view l)"
    and "attrs_ok (item_attributes (ld_item (on_item (setIntAttr t n) l)))"
    and "item_id (ld_item (on_item (setIntAttr t n) l)) = item_id (ld_item l)"
  using item_attributes_set [OF assms, of n] by (simp_all add: view_def on_item_def put_def)

lemma loads_count:
  "loads its (item_id i) (active, ATTR_COUNT, le_bytes 1 (unat (ucast (getSubType its i) :: u8)), count_effect its i)"
  if "active \<longleftrightarrow> stackable (its (item_id i)) \<or> isFluidContainer (its (item_id i)) \<or> isSplash (its (item_id i))"
proof (rule loads_byte)
  show "readAttr its (Some ATTR_COUNT) ps l = read_int 1 (\<lambda>v. on_item (setSubType its (of_nat v))) ps l" for ps l
    by (simp add: readAttr_def)
  fix l :: Loading
  assume a: "active" "item_id (ld_item l) = item_id i" "attrs_ok (item_attributes (ld_item l))"
  let ?b = "ucast (getSubType its i) :: u8"
  let ?l = "on_item (setSubType its (of_nat (unat ?b))) l"
  show "item_id (ld_item ?l) = item_id i \<and> attrs_ok (item_attributes (ld_item ?l)) \<and> view ?l = count_effect its i (view l)"
  proof (cases "is_fluid its i")
    case True
    then have "is_fluid its (ld_item l)" using a(2) by (simp add: is_fluid_def)
    then have "?l = on_item (setIntAttr ITEM_ATTRIBUTE_FLUIDTYPE (ucast (ucast ?b :: u16))) l"
      by (simp add: on_item_def setSubType_def setFluidType_def)
    with a True show ?thesis
      by (simp add: set_view count_effect_def scast_ucast_small ucast_ucast_up_16)
  next
    case False
    then have "?l = on_item (setItemCount ?b) l"
      using a(1,2) that by (simp add: on_item_def setSubType_def is_fluid_def)
    with a False show ?thesis by (simp add: on_item_def view_def count_effect_def)
  qed
qed

lemma loads_charges:
  assumes "active \<Longrightarrow> charges (its ty) \<noteq> 0 \<and> \<not> stackable (its ty) \<and> \<not> isFluidContainer (its ty) \<and> \<not> isSplash (its ty)"
  shows "loads its ty (active, ATTR_CHARGES, le_bytes 2 (unat (c :: u16)), put ITEM_ATTRIBUTE_CHARGES (AInt (ucast c)))"
proof (rule loads_short)
  show "readAttr its (Some ATTR_CHARGES) ps l = read_int 2 (\<lambda>v. on_item (setSubType its (of_nat v))) ps l" for ps l
    by (simp add: readAttr_def)
  fix l :: Loading
  assume a: "active" "item_id (ld_item l) = ty" "attrs_ok (item_attributes (ld_item l))"
  then have "on_item (setSubType its (of_nat (unat c))) l = on_item (setIntAttr ITEM_ATTRIBUTE_CHARGES (ucast c)) l"
    using assms by (simp add: on_item_def setSubType_def is_fluid_def setCharges_def)
  with a show "item_id (ld_item (on_item (setSubType its (of_nat (unat c))) l)) = ty \<and>
      attrs_ok (item_attributes (ld_item (on_item (setSubType its (of_nat (unat c))) l))) \<and>
      view (on_item (setSubType its (of_nat (unat c))) l) = put ITEM_ATTRIBUTE_CHARGES (AInt (ucast c)) (view l)"
    by (simp add: set_view scast_ucast_small)
qed

lemma loads_action:
  assumes "active \<Longrightarrow> 100 \<le> n"
  shows "loads its ty (active, ATTR_ACTION_ID, le_bytes 2 (unat (n :: u16)), put ITEM_ATTRIBUTE_ACTIONID (AInt (ucast n)))"
proof (rule loads_short)
  show "readAttr its (Some ATTR_ACTION_ID) ps l = read_int 2 (\<lambda>v. on_item (setActionId (of_nat v))) ps l" for ps l
    by (simp add: readAttr_def)
  fix l :: Loading
  assume a: "active" "item_id (ld_item l) = ty" "attrs_ok (item_attributes (ld_item l))"
  then have "\<not> n < 100" using assms by (simp add: not_less)
  then have "on_item (setActionId (of_nat (unat n))) l = on_item (setIntAttr ITEM_ATTRIBUTE_ACTIONID (ucast n)) l"
    by (simp add: on_item_def setActionId_def)
  with a show "item_id (ld_item (on_item (setActionId (of_nat (unat n))) l)) = ty \<and>
      attrs_ok (item_attributes (ld_item (on_item (setActionId (of_nat (unat n))) l))) \<and>
      view (on_item (setActionId (of_nat (unat n))) l) = put ITEM_ATTRIBUTE_ACTIONID (AInt (ucast n)) (view l)"
    by (simp add: set_view scast_ucast_small)
qed

lemma loads_decay:
  assumes "active \<longleftrightarrow> b = 1 \<or> b = 2"
  shows "loads its ty (active, ATTR_DECAYING_STATE, le_bytes 1 (unat (b :: u8)), put ITEM_ATTRIBUTE_DECAYSTATE (AInt 2))"
  by (rule loads_byte [where f = "\<lambda>v l. if v \<noteq> 0 then set_int32 ITEM_ATTRIBUTE_DECAYSTATE 2 l else l"])
    (use assms in \<open>auto simp: readAttr_def set_int32_def set_view\<close>)

lemma loads_duration:
  assumes "active \<Longrightarrow> 0 \<le> sint (n :: u32)"
  shows "loads its ty (int_section active ATTR_DURATION ITEM_ATTRIBUTE_DURATION n)"
proof -
  have "sint (of_nat (unat n) :: u32) = sint n" by simp
  then show ?thesis
    using assms unat_less_32 [of n]
    by (auto simp: loads_def int_section_def readAttr_def read_int_def prop_read_le set_int32_def set_view)
qed

lemma loads_hitchance:
  "loads its ty (active, ATTR_HITCHANCE, le_bytes 1 (unat (b :: u8)), put ITEM_ATTRIBUTE_HITCHANCE (AInt (scast (scast b :: u32))))"
  by (rule loads_byte [where f = "\<lambda>v. on_item (setIntAttr ITEM_ATTRIBUTE_HITCHANCE (scast (of_nat v :: u8)))"])
    (auto simp: readAttr_def set_view)

lemma loads_shootrange:
  "loads its ty (active, ATTR_SHOOTRANGE, le_bytes 1 (unat (b :: u8)), put ITEM_ATTRIBUTE_SHOOTRANGE (AInt (ucast b)))"
  by (rule loads_byte [where f = "set_int32 ITEM_ATTRIBUTE_SHOOTRANGE"])
    (auto simp: readAttr_def set_int32_def set_view scast_ucast_small)

lemma readAttr_plain:
  "readAttr its (Some ATTR_TEXT) = read_str (set_str ITEM_ATTRIBUTE_TEXT)"
  "readAttr its (Some ATTR_WRITTENDATE) = read_int 4 (set_int32 ITEM_ATTRIBUTE_DATE)"
  "readAttr its (Some ATTR_WRITTENBY) = read_str (set_str ITEM_ATTRIBUTE_WRITER)"
  "readAttr its (Some ATTR_DESC) = read_str (set_str ITEM_ATTRIBUTE_DESCRIPTION)"
  "readAttr its (Some ATTR_NAME) = read_str (set_str ITEM_ATTRIBUTE_NAME)"
  "readAttr its (Some ATTR_ARTICLE) = read_str (set_str ITEM_ATTRIBUTE_ARTICLE)"
  "readAttr its (Some ATTR_PLURALNAME) = read_str (set_str ITEM_ATTRIBUTE_PLURALNAME)"
  "readAttr its (Some ATTR_WEIGHT) = read_int 4 (set_int32 ITEM_ATTRIBUTE_WEIGHT)"
  "readAttr its (Some ATTR_ATTACK) = read_int 4 (set_int32 ITEM_ATTRIBUTE_ATTACK)"
  "readAttr its (Some ATTR_DEFENSE) = read_int 4 (set_int32 ITEM_ATTRIBUTE_DEFENSE)"
  "readAttr its (Some ATTR_EXTRADEFENSE) = read_int 4 (set_int32 ITEM_ATTRIBUTE_EXTRADEFENSE)"
  "readAttr its (Some ATTR_ARMOR) = read_int 4 (set_int32 ITEM_ATTRIBUTE_ARMOR)"
  by (simp_all add: fun_eq_iff readAttr_def)

text \<open>A string attribute that is present is not empty.\<close>

lemma has_nonempty:
  assumes "attrs_ok (item_attributes i)" and "isStrAttrType t" and "item_hasAttribute t i"
  shows "getStrAttr t i \<noteq> [] \<and> lookup (item_attributes i) t = Some (AStr (getStrAttr t i))"
proof -
  obtain v where v: "lookup (item_attributes i) t = Some v"
    using item_has_lookup [OF assms(1)] assms(3) by auto
  then have "value_ok (t, v)"
    using assms(1) map_of_SomeD [of "attributes (item_attributes i)" t v] by (auto simp: attrs_ok_def lookup_def list_all_iff)
  then show ?thesis
    using v assms(2) attr_kinds(1) [of t] getStrAttr_lookup [OF assms(1,2)] by (cases v) auto
qed

section \<open>Saving and loading\<close>

lemma new_item_facts:
  fixes its :: items and t :: u16
  defines "ty \<equiv> its t"
  shows "item_id (new_item its t 0) = t"
    and "attrs_ok (item_attributes (new_item its t 0))"
    and "k \<noteq> ITEM_ATTRIBUTE_FLUIDTYPE \<Longrightarrow> k \<noteq> ITEM_ATTRIBUTE_CHARGES \<Longrightarrow>
      (k = ITEM_ATTRIBUTE_DURATION \<Longrightarrow> decayTime ty * 1000 = 0) \<Longrightarrow>
      lookup (item_attributes (new_item its t 0)) k = None"
    and "\<not> (isFluidContainer ty \<or> isSplash ty) \<Longrightarrow>
      lookup (item_attributes (new_item its t 0)) ITEM_ATTRIBUTE_FLUIDTYPE = None"
    and "isFluidContainer ty \<or> isSplash ty \<or> stackable ty \<or> charges ty = 0 \<Longrightarrow>
      lookup (item_attributes (new_item its t 0)) ITEM_ATTRIBUTE_CHARGES = None"
    and "isFluidContainer ty \<or> isSplash ty \<or> \<not> stackable ty \<Longrightarrow> item_count (new_item its t 0) = 1"
proof -
  define i0 where "i0 = \<lparr>item_id = t, item_count = 1, item_attrs = None\<rparr>"
  define i1 where "i1 = (if isFluidContainer ty \<or> isSplash ty then setFluidType 0 i0
      else if stackable ty then (if charges ty \<noteq> 0 then setItemCount (ucast (charges ty)) i0 else i0)
      else if charges ty \<noteq> 0 then setCharges (ucast (charges ty)) i0 else i0)"
  have new: "new_item its t 0 =
      (if decayTime ty * 1000 \<noteq> 0 then setIntAttr ITEM_ATTRIBUTE_DURATION (decayTime ty * 1000) i1 else i1)"
    by (simp add: new_item_def Let_def i1_def i0_def ty_def)
  have e: "item_attributes i0 = no_attributes" by (simp add: item_attributes_def i0_def)
  have i1: "item_id i1 = t" "attrs_ok (item_attributes i1)"
    "lookup (item_attributes i1) k =
      (if isFluidContainer ty \<or> isSplash ty then (if k = ITEM_ATTRIBUTE_FLUIDTYPE then Some (AInt 0) else None)
       else if \<not> stackable ty \<and> charges ty \<noteq> 0 \<and> k = ITEM_ATTRIBUTE_CHARGES
       then Some (AInt (scast (ucast (ucast (charges ty) :: u16) :: u32))) else None)"
    "isFluidContainer ty \<or> isSplash ty \<or> \<not> stackable ty \<Longrightarrow> item_count i1 = 1" for k
    using item_attributes_set [of i0] e
    by (auto simp: i1_def setFluidType_def setCharges_def i0_def)
  note d = item_attributes_set [OF i1(2), of ITEM_ATTRIBUTE_DURATION "decayTime ty * 1000"]
  show "item_id (new_item its t 0) = t" "attrs_ok (item_attributes (new_item its t 0))"
    using i1(1,2) d(1) by (simp_all add: new)
  show "k \<noteq> ITEM_ATTRIBUTE_FLUIDTYPE \<Longrightarrow> k \<noteq> ITEM_ATTRIBUTE_CHARGES \<Longrightarrow>
      (k = ITEM_ATTRIBUTE_DURATION \<Longrightarrow> decayTime ty * 1000 = 0) \<Longrightarrow>
      lookup (item_attributes (new_item its t 0)) k = None"
    using i1(3) [of k] d(2) by (auto simp: new)
  show "\<not> (isFluidContainer ty \<or> isSplash ty) \<Longrightarrow>
      lookup (item_attributes (new_item its t 0)) ITEM_ATTRIBUTE_FLUIDTYPE = None"
    using i1(3) [of ITEM_ATTRIBUTE_FLUIDTYPE] d(2) by (auto simp: new)
  show "isFluidContainer ty \<or> isSplash ty \<or> stackable ty \<or> charges ty = 0 \<Longrightarrow>
      lookup (item_attributes (new_item its t 0)) ITEM_ATTRIBUTE_CHARGES = None"
    using i1(3) [of ITEM_ATTRIBUTE_CHARGES] d(2) by (auto simp: new)
  show "isFluidContainer ty \<or> isSplash ty \<or> \<not> stackable ty \<Longrightarrow> item_count (new_item its t 0) = 1"
    using i1(4) by (simp add: new)
qed

lemma storable_getters:
  assumes "storable its i"
  shows "attrs_ok (item_attributes i)"
    and "getActionId i \<noteq> 0 \<Longrightarrow> moveable (its (item_id i)) \<and> 100 \<le> getActionId i"
    and "getActionId i = 0 \<Longrightarrow> lookup (item_attributes i) ITEM_ATTRIBUTE_ACTIONID = None"
    and "getActionId i \<noteq> 0 \<Longrightarrow> lookup (item_attributes i) ITEM_ATTRIBUTE_ACTIONID = Some (AInt (ucast (getActionId i)))"
    and "getCharges i \<noteq> 0 \<Longrightarrow> charges (its (item_id i)) \<noteq> 0 \<and> \<not> stackable (its (item_id i)) \<and>
      \<not> isFluidContainer (its (item_id i)) \<and> \<not> isSplash (its (item_id i))"
    and "getCharges i = 0 \<Longrightarrow> lookup (item_attributes i) ITEM_ATTRIBUTE_CHARGES = None \<and>
      (isFluidContainer (its (item_id i)) \<or> isSplash (its (item_id i)) \<or> stackable (its (item_id i)) \<or> charges (its (item_id i)) = 0)"
    and "getCharges i \<noteq> 0 \<Longrightarrow> lookup (item_attributes i) ITEM_ATTRIBUTE_CHARGES = Some (AInt (ucast (getCharges i)))"
proof -
  show ok: "attrs_ok (item_attributes i)" using assms by (simp add: storable_def Let_def)
  have small: "(ucast (ucast (w :: u16) :: u64) :: u32) = ucast w" for w
    by (rule bit_word_eqI) (auto simp: bit_simps dest: bit_imp_le_length)
  have a: "lookup (item_attributes i) ITEM_ATTRIBUTE_ACTIONID = None \<or>
      moveable (its (item_id i)) \<and> (\<exists>n :: u16. 100 \<le> n \<and> lookup (item_attributes i) ITEM_ATTRIBUTE_ACTIONID = Some (AInt (ucast n)))"
    using assms by (simp add: storable_def Let_def)
  have ga: "getActionId i = (case lookup (item_attributes i) ITEM_ATTRIBUTE_ACTIONID of None \<Rightarrow> 0
      | Some v \<Rightarrow> ucast (ucast (int_value v) :: u32))"
    using getIntAttr_lookup [OF ok, of ITEM_ATTRIBUTE_ACTIONID] by (simp add: getActionId_def split: option.split)
  show "getActionId i \<noteq> 0 \<Longrightarrow> moveable (its (item_id i)) \<and> 100 \<le> getActionId i"
    using a by (auto simp: ga small)
  show "getActionId i = 0 \<Longrightarrow> lookup (item_attributes i) ITEM_ATTRIBUTE_ACTIONID = None"
    using a by (auto simp: ga small word_le_nat_alt)
  show "getActionId i \<noteq> 0 \<Longrightarrow> lookup (item_attributes i) ITEM_ATTRIBUTE_ACTIONID = Some (AInt (ucast (getActionId i)))"
    using a by (auto simp: ga small)
  have c: "if charges (its (item_id i)) \<noteq> 0 \<and> \<not> stackable (its (item_id i)) \<and>
        \<not> isFluidContainer (its (item_id i)) \<and> \<not> isSplash (its (item_id i))
      then \<exists>c :: u16. c \<noteq> 0 \<and> lookup (item_attributes i) ITEM_ATTRIBUTE_CHARGES = Some (AInt (ucast c))
      else lookup (item_attributes i) ITEM_ATTRIBUTE_CHARGES = None"
    using assms unfolding storable_def Let_def by blast
  have gc: "getCharges i = (case lookup (item_attributes i) ITEM_ATTRIBUTE_CHARGES of None \<Rightarrow> 0
      | Some v \<Rightarrow> ucast (ucast (int_value v) :: u32))"
    using getIntAttr_lookup [OF ok, of ITEM_ATTRIBUTE_CHARGES] by (simp add: getCharges_def split: option.split)
  show "getCharges i \<noteq> 0 \<Longrightarrow> charges (its (item_id i)) \<noteq> 0 \<and> \<not> stackable (its (item_id i)) \<and>
      \<not> isFluidContainer (its (item_id i)) \<and> \<not> isSplash (its (item_id i))"
    using c by (auto simp: gc small split: if_splits)
  show "getCharges i = 0 \<Longrightarrow> lookup (item_attributes i) ITEM_ATTRIBUTE_CHARGES = None \<and>
      (isFluidContainer (its (item_id i)) \<or> isSplash (its (item_id i)) \<or> stackable (its (item_id i)) \<or> charges (its (item_id i)) = 0)"
    using c by (auto simp: gc small split: if_splits)
  show "getCharges i \<noteq> 0 \<Longrightarrow> lookup (item_attributes i) ITEM_ATTRIBUTE_CHARGES = Some (AInt (ucast (getCharges i)))"
    using c by (auto simp: gc small split: if_splits)
qed

lemma sections_load:
  assumes "storable its i"
  shows "list_all (loads its (item_id i)) (attr_sections its i)"
proof -
  note ok = storable_getters(1) [OF assms]
  have len: "length (getStrAttr t i) \<le> 65535"
    if "t \<in> {ITEM_ATTRIBUTE_TEXT, ITEM_ATTRIBUTE_WRITER, ITEM_ATTRIBUTE_DESCRIPTION, ITEM_ATTRIBUTE_NAME,
              ITEM_ATTRIBUTE_ARTICLE, ITEM_ATTRIBUTE_PLURALNAME}" for t
    using assms that unfolding storable_def Let_def by blast
  have dur: "0 \<le> sint (getIntAttr ITEM_ATTRIBUTE_DURATION i)" if "item_hasAttribute ITEM_ATTRIBUTE_DURATION i"
    using assms that item_has_lookup [OF ok, of ITEM_ATTRIBUTE_DURATION] by (simp add: storable_def Let_def)
  show ?thesis
    unfolding attr_sections_def Let_def list.pred_inject
    by (intro conjI loads_count loads_charges loads_action loads_decay loads_duration loads_hitchance loads_shootrange
        loads_int loads_str)
      (use storable_getters [OF assms] len dur has_nonempty [OF ok] in \<open>simp_all add: readAttr_plain\<close>)
qed

text \<open>Effects on the view, one attribute at a time.\<close>

lemma effect_put:
  "snd (section_effect (a, c, p, put k v) w) t = (if t = k \<and> a then Some v else snd w t)"
  "fst (section_effect (a, c, p, put k v) w) = fst w"
  by (cases w; simp add: put_def)+

lemma effect_count:
  "snd (section_effect (a, c, p, count_effect its i) w) t =
     (if a \<and> is_fluid its i \<and> t = ITEM_ATTRIBUTE_FLUIDTYPE
      then Some (AInt (ucast (ucast (getSubType its i) :: u8))) else snd w t)"
  "fst (section_effect (a, c, p, count_effect its i) w) =
     (if a \<and> \<not> is_fluid its i then ucast (getSubType its i) else fst w)"
  by (cases w; simp add: count_effect_def put_def)+

definition loaded_view :: "items \<Rightarrow> Item \<Rightarrow> item_view \<Rightarrow> item_view" where
  "loaded_view its i w = fold section_effect (attr_sections its i) w"

lemmas loaded_simps =
  loaded_view_def attr_sections_def Let_def int_section_def str_section_def fold_simps effect_put effect_count

lemma loaded_count:
  "fst (loaded_view its i w) =
     (if (stackable (its (item_id i)) \<or> isFluidContainer (its (item_id i)) \<or> isSplash (its (item_id i))) \<and> \<not> is_fluid its i
      then ucast (getSubType its i) else fst w)"
  unfolding loaded_simps by (rule refl)

lemma loaded_decay:
  assumes "decay_state i = 1 \<or> decay_state i = 2"
  shows "snd (loaded_view its i w) ITEM_ATTRIBUTE_DECAYSTATE = Some (AInt 2)"
  using assms unfolding loaded_simps by simp

lemma loaded_strings:
  assumes "attrs_ok (item_attributes i)"
    and "t \<in> {ITEM_ATTRIBUTE_TEXT, ITEM_ATTRIBUTE_WRITER, ITEM_ATTRIBUTE_DESCRIPTION, ITEM_ATTRIBUTE_NAME,
              ITEM_ATTRIBUTE_ARTICLE, ITEM_ATTRIBUTE_PLURALNAME}"
    and "snd w t = None"
  shows "snd (loaded_view its i w) t = lookup (item_attributes i) t"
proof -
  have s: "isStrAttrType t" using assms(2) by auto
  have "snd (loaded_view its i w) t =
      (if item_hasAttribute t i then Some (AStr (getStrAttr t i)) else snd w t)"
  proof -
    have "getStrAttr t i \<noteq> [] \<longleftrightarrow> item_hasAttribute t i"
      using has_nonempty [OF assms(1) s] item_has_lookup [OF assms(1), of t] getStrAttr_lookup [OF assms(1) s]
      by (auto split: option.splits)
    with assms(2) show ?thesis unfolding loaded_simps by (elim insertE emptyE) simp_all
  qed
  with assms(3) has_nonempty [OF assms(1) s] item_has_lookup [OF assms(1), of t] show ?thesis by auto
qed

lemma loaded_numbers:
  assumes "storable its i"
    and "t \<in> {ITEM_ATTRIBUTE_DATE, ITEM_ATTRIBUTE_DURATION, ITEM_ATTRIBUTE_WEIGHT, ITEM_ATTRIBUTE_ATTACK,
              ITEM_ATTRIBUTE_DEFENSE, ITEM_ATTRIBUTE_EXTRADEFENSE, ITEM_ATTRIBUTE_ARMOR}"
    and "lookup (item_attributes i) t = None \<Longrightarrow> snd w t = None"
  shows "snd (loaded_view its i w) t = lookup (item_attributes i) t"
proof -
  note ok = storable_getters(1) [OF assms(1)]
  have "\<forall>t \<in> {ITEM_ATTRIBUTE_DATE, ITEM_ATTRIBUTE_DURATION, ITEM_ATTRIBUTE_WEIGHT, ITEM_ATTRIBUTE_ATTACK,
              ITEM_ATTRIBUTE_DEFENSE, ITEM_ATTRIBUTE_EXTRADEFENSE, ITEM_ATTRIBUTE_ARMOR}.
      lookup (item_attributes i) t = None \<or> lookup (item_attributes i) t = Some (AInt (scast (getIntAttr t i)))"
    using assms(1) unfolding storable_def Let_def by (elim conjE)
  from bspec [OF this assms(2)]
  have v: "lookup (item_attributes i) t = None \<or> lookup (item_attributes i) t = Some (AInt (scast (getIntAttr t i)))" .
  have date: "lookup (item_attributes i) ITEM_ATTRIBUTE_DATE \<noteq> None \<longleftrightarrow> getIntAttr ITEM_ATTRIBUTE_DATE i \<noteq> 0"
  proof -
    have "lookup (item_attributes i) ITEM_ATTRIBUTE_DATE \<noteq> None \<longrightarrow> getIntAttr ITEM_ATTRIBUTE_DATE i \<noteq> 0"
      using assms(1) unfolding storable_def Let_def by (elim conjE)
    then show ?thesis
      using getIntAttr_lookup [OF ok, of ITEM_ATTRIBUTE_DATE]
      by (cases "lookup (item_attributes i) ITEM_ATTRIBUTE_DATE") auto
  qed
  have "snd (loaded_view its i w) t =
      (if lookup (item_attributes i) t \<noteq> None then Some (AInt (scast (getIntAttr t i))) else snd w t)"
    using assms(2) date item_has_lookup [OF ok]
    unfolding loaded_simps by (elim insertE emptyE) simp_all
  with v assms(3) show ?thesis by auto
qed

lemma loaded_bytes:
  assumes "storable its i"
  shows "lookup (item_attributes i) ITEM_ATTRIBUTE_HITCHANCE = None \<longrightarrow> snd w ITEM_ATTRIBUTE_HITCHANCE = None \<Longrightarrow>
      snd (loaded_view its i w) ITEM_ATTRIBUTE_HITCHANCE = lookup (item_attributes i) ITEM_ATTRIBUTE_HITCHANCE"
    and "lookup (item_attributes i) ITEM_ATTRIBUTE_SHOOTRANGE = None \<longrightarrow> snd w ITEM_ATTRIBUTE_SHOOTRANGE = None \<Longrightarrow>
      snd (loaded_view its i w) ITEM_ATTRIBUTE_SHOOTRANGE = lookup (item_attributes i) ITEM_ATTRIBUTE_SHOOTRANGE"
proof -
  note ok = storable_getters(1) [OF assms]
  have up: "(ucast (ucast (b :: u8) :: u64) :: u32) = ucast b" for b
    by (rule bit_word_eqI) (auto simp: bit_simps dest: bit_imp_le_length)
  have h: "lookup (item_attributes i) ITEM_ATTRIBUTE_HITCHANCE = None \<or>
      (\<exists>b :: u8. lookup (item_attributes i) ITEM_ATTRIBUTE_HITCHANCE = Some (AInt (scast (scast b :: u32))))"
    using assms unfolding storable_def Let_def by (elim conjE)
  have s: "lookup (item_attributes i) ITEM_ATTRIBUTE_SHOOTRANGE = None \<or>
      (\<exists>b :: u8. lookup (item_attributes i) ITEM_ATTRIBUTE_SHOOTRANGE = Some (AInt (ucast b)))"
    using assms unfolding storable_def Let_def by (elim conjE)
  show "lookup (item_attributes i) ITEM_ATTRIBUTE_HITCHANCE = None \<longrightarrow> snd w ITEM_ATTRIBUTE_HITCHANCE = None \<Longrightarrow>
      snd (loaded_view its i w) ITEM_ATTRIBUTE_HITCHANCE = lookup (item_attributes i) ITEM_ATTRIBUTE_HITCHANCE"
    using h getIntAttr_lookup [OF ok, of ITEM_ATTRIBUTE_HITCHANCE] item_has_lookup [OF ok, of ITEM_ATTRIBUTE_HITCHANCE]
    unfolding loaded_simps by auto
  show "lookup (item_attributes i) ITEM_ATTRIBUTE_SHOOTRANGE = None \<longrightarrow> snd w ITEM_ATTRIBUTE_SHOOTRANGE = None \<Longrightarrow>
      snd (loaded_view its i w) ITEM_ATTRIBUTE_SHOOTRANGE = lookup (item_attributes i) ITEM_ATTRIBUTE_SHOOTRANGE"
    using s getIntAttr_lookup [OF ok, of ITEM_ATTRIBUTE_SHOOTRANGE] item_has_lookup [OF ok, of ITEM_ATTRIBUTE_SHOOTRANGE]
    unfolding loaded_simps by (auto simp: up)
qed

lemma loaded_special:
  assumes "storable its i"
  shows "snd w ITEM_ATTRIBUTE_ACTIONID = None \<Longrightarrow>
      snd (loaded_view its i w) ITEM_ATTRIBUTE_ACTIONID = lookup (item_attributes i) ITEM_ATTRIBUTE_ACTIONID"
    and "(getCharges i = 0 \<Longrightarrow> snd w ITEM_ATTRIBUTE_CHARGES = None) \<Longrightarrow>
      snd (loaded_view its i w) ITEM_ATTRIBUTE_CHARGES = lookup (item_attributes i) ITEM_ATTRIBUTE_CHARGES"
    and "(\<not> is_fluid its i \<Longrightarrow> snd w ITEM_ATTRIBUTE_FLUIDTYPE = None) \<Longrightarrow>
      snd (loaded_view its i w) ITEM_ATTRIBUTE_FLUIDTYPE = lookup (item_attributes i) ITEM_ATTRIBUTE_FLUIDTYPE"
proof -
  note g = storable_getters [OF assms]
  show "snd w ITEM_ATTRIBUTE_ACTIONID = None \<Longrightarrow>
      snd (loaded_view its i w) ITEM_ATTRIBUTE_ACTIONID = lookup (item_attributes i) ITEM_ATTRIBUTE_ACTIONID"
    using g(2-4) unfolding loaded_simps by (cases "getActionId i = 0") auto
  show "(getCharges i = 0 \<Longrightarrow> snd w ITEM_ATTRIBUTE_CHARGES = None) \<Longrightarrow>
      snd (loaded_view its i w) ITEM_ATTRIBUTE_CHARGES = lookup (item_attributes i) ITEM_ATTRIBUTE_CHARGES"
    using g(6,7) unfolding loaded_simps by (cases "getCharges i = 0") auto
  have f: "if isFluidContainer (its (item_id i)) \<or> isSplash (its (item_id i))
      then \<exists>b :: u8. lookup (item_attributes i) ITEM_ATTRIBUTE_FLUIDTYPE = Some (AInt (ucast b))
      else lookup (item_attributes i) ITEM_ATTRIBUTE_FLUIDTYPE = None"
    using assms unfolding storable_def Let_def by (elim conjE)
  have down: "(ucast (ucast (ucast (ucast (b :: u8) :: u64) :: u32) :: u16) :: u8) = b" for b
    by (rule bit_word_eqI) (auto simp: bit_simps dest: bit_imp_le_length)
  show "(\<not> is_fluid its i \<Longrightarrow> snd w ITEM_ATTRIBUTE_FLUIDTYPE = None) \<Longrightarrow>
      snd (loaded_view its i w) ITEM_ATTRIBUTE_FLUIDTYPE = lookup (item_attributes i) ITEM_ATTRIBUTE_FLUIDTYPE"
  proof (cases "is_fluid its i")
    case True
    then obtain b :: u8 where b: "lookup (item_attributes i) ITEM_ATTRIBUTE_FLUIDTYPE = Some (AInt (ucast b))"
      using f by (auto simp: is_fluid_def)
    then have "(ucast (getSubType its i) :: u8) = b"
      using True getIntAttr_lookup [OF g(1), of ITEM_ATTRIBUTE_FLUIDTYPE]
      by (simp add: getSubType_def getFluidType_def down)
    with b True show ?thesis unfolding loaded_simps by (auto simp: is_fluid_def)
  next
    case False
    assume "\<not> is_fluid its i \<Longrightarrow> snd w ITEM_ATTRIBUTE_FLUIDTYPE = None"
    with False f show ?thesis unfolding loaded_simps by (auto simp: is_fluid_def)
  qed
qed

text \<open>C2: a saved item comes back: loading the bytes that \<open>serializeAttr\<close> wrote for a storable item
  into a newly created item of the same type reads them to the end without an error and gives
  the same count and the same value of every attribute that is saved; a decaying item comes back
  with its decay pending.\<close>

theorem save_load:
  assumes "storable its i"
  shows "\<exists>l'. unserializeAttr its (serializeAttr its i []) \<lparr>ld_item = new_item its (item_id i) 0, uniqueItems = U\<rparr> = (True, [], l') \<and>
    item_id (ld_item l') = item_id i \<and> item_count (ld_item l') = item_count i \<and>
    (\<forall>t \<in> saved_types. lookup (item_attributes (ld_item l')) t = lookup (item_attributes i) t) \<and>
    (decay_state i = 1 \<or> decay_state i = 2 \<longrightarrow> decay_state (ld_item l') = 2)"
proof -
  let ?n = "new_item its (item_id i) 0" let ?ty = "its (item_id i)"
  let ?l = "\<lparr>ld_item = ?n, uniqueItems = U\<rparr>" let ?w = "view ?l"
  note n = new_item_facts [where its = its and t = "item_id i"]
  note g = storable_getters [OF assms]
  obtain l' where l': "unserializeAttr its (serializeAttr its i []) ?l = unserializeAttr its [] l'"
      "item_id (ld_item l') = item_id i" "attrs_ok (item_attributes (ld_item l'))" "view l' = loaded_view its i ?w"
    using unserialize_sections [OF sections_load [OF assms], of ?l "[]"] n(1,2)
    unfolding serialize_sections loaded_view_def by auto
  have "unserializeAttr its [] l' = (True, [], l')"
    by (subst unserializeAttr.simps) (simp add: prop_read_def)
  moreover have "item_count (ld_item l') = item_count i"
  proof -
    have c: "\<not> stackable ?ty \<or> isFluidContainer ?ty \<or> isSplash ?ty \<longrightarrow> item_count i = 1"
      using assms unfolding storable_def Let_def by (elim conjE)
    have "item_count (ld_item l') = fst (loaded_view its i ?w)"
      unfolding l'(4) [symmetric] by (simp add: view_def)
    then show ?thesis
      using c n(6) unfolding loaded_count by (auto simp: view_def is_fluid_def getSubType_def)
  qed
  moreover have "lookup (item_attributes (ld_item l')) t = lookup (item_attributes i) t" if mem: "t \<in> saved_types" for t
  proof -
    have e: "lookup (item_attributes (ld_item l')) t = snd (loaded_view its i ?w) t"
      unfolding l'(4) [symmetric] by (simp add: view_def)
    have w: "snd ?w t = lookup (item_attributes ?n) t" for t by (simp add: view_def)
    have none: "snd ?w k = None"
      if "k \<notin> {ITEM_ATTRIBUTE_FLUIDTYPE, ITEM_ATTRIBUTE_CHARGES, ITEM_ATTRIBUTE_DURATION}" for k
      unfolding w by (rule n(3)) (use that in auto)
    have dur: "lookup (item_attributes i) ITEM_ATTRIBUTE_DURATION = None \<Longrightarrow> decayTime ?ty * 1000 = 0"
      using assms unfolding storable_def Let_def by (elim conjE) simp
    consider "t \<in> {ITEM_ATTRIBUTE_TEXT, ITEM_ATTRIBUTE_WRITER, ITEM_ATTRIBUTE_DESCRIPTION, ITEM_ATTRIBUTE_NAME,
              ITEM_ATTRIBUTE_ARTICLE, ITEM_ATTRIBUTE_PLURALNAME}"
      | "t \<in> {ITEM_ATTRIBUTE_DATE, ITEM_ATTRIBUTE_DURATION, ITEM_ATTRIBUTE_WEIGHT, ITEM_ATTRIBUTE_ATTACK,
              ITEM_ATTRIBUTE_DEFENSE, ITEM_ATTRIBUTE_EXTRADEFENSE, ITEM_ATTRIBUTE_ARMOR}"
      | "t = ITEM_ATTRIBUTE_HITCHANCE" | "t = ITEM_ATTRIBUTE_SHOOTRANGE" | "t = ITEM_ATTRIBUTE_ACTIONID"
      | "t = ITEM_ATTRIBUTE_CHARGES" | "t = ITEM_ATTRIBUTE_FLUIDTYPE"
      using mem unfolding saved_types_def by blast
    then show ?thesis
    proof cases
      case 1
      then show ?thesis unfolding e by (intro loaded_strings [OF g(1)]) (auto simp: w intro: n(3))
    next
      case 2
      then show ?thesis unfolding e by (intro loaded_numbers [OF assms]) (auto simp: w dur intro: n(3))
    next
      case 3
      then show ?thesis unfolding e using loaded_bytes(1) [OF assms] none by simp
    next
      case 4
      then show ?thesis unfolding e using loaded_bytes(2) [OF assms] none by simp
    next
      case 5
      then show ?thesis unfolding e using loaded_special(1) [OF assms] none by simp
    next
      case 6
      then show ?thesis unfolding e using loaded_special(2) [OF assms, of ?w] g(6) n(5) by (simp add: w)
    next
      case 7
      then show ?thesis unfolding e using loaded_special(3) [OF assms, of ?w] n(4) by (simp add: w is_fluid_def)
    qed
  qed
  moreover have "decay_state (ld_item l') = 2" if "decay_state i = 1 \<or> decay_state i = 2"
  proof -
    have "lookup (item_attributes (ld_item l')) ITEM_ATTRIBUTE_DECAYSTATE = Some (AInt 2)"
      using loaded_decay [OF that, of its ?w] unfolding l'(4) [symmetric] by (simp add: view_def)
    then show ?thesis
      using getIntAttr_lookup [OF l'(3), of ITEM_ATTRIBUTE_DECAYSTATE] by (simp add: decay_state_def)
  qed
  ultimately show ?thesis using l'(1,2) by auto
qed

text \<open>Twelve coins with a label.\<close>

definition coin_type :: ItemType where
  "coin_type = \<lparr>isFluidContainer = False, isSplash = False, stackable = True, moveable = True,
     pickupable = True, stopTime = False, decayTo = -1, charges = 0, decayTime = 0, weight = 10\<rparr>"

definition labelled_coins :: Item where
  "labelled_coins = setStrAttr ITEM_ATTRIBUTE_TEXT ''pay'' \<lparr>item_id = 2148, item_count = 12, item_attrs = None\<rparr>"

lemma labelled_coins_storable: "storable (\<lambda>_. coin_type) labelled_coins"
proof -
  have "attrs_ok (item_attributes labelled_coins)"
    "lookup (item_attributes labelled_coins) = [ITEM_ATTRIBUTE_TEXT \<mapsto> AStr ''pay'']"
    using item_attributes_setStr [of "\<lparr>item_id = 2148, item_count = 12, item_attrs = None\<rparr>" ITEM_ATTRIBUTE_TEXT "''pay''"]
      by (simp_all add: labelled_coins_def item_attributes_def)
  then show ?thesis
    by (simp add: storable_def Let_def coin_type_def getStrAttr_lookup)
qed

theorem save_load_witness:
  "\<exists>l'. unserializeAttr (\<lambda>_. coin_type) (serializeAttr (\<lambda>_. coin_type) labelled_coins [])
      \<lparr>ld_item = new_item (\<lambda>_. coin_type) 2148 0, uniqueItems = {}\<rparr> = (True, [], l') \<and>
    item_count (ld_item l') = 12"
  using save_load [OF labelled_coins_storable, of "{}"]
  by (auto simp: labelled_coins_def setStrAttr_def)

section \<open>Equal items\<close>

lemma attrs_ok_bits:
  assumes "attrs_ok a" and "attrs_ok b"
  shows "attributeBits a = attributeBits b \<longleftrightarrow> present a = present b"
proof
  have sub: "present a \<subseteq> present b"
    if "attributeBits a = attributeBits b" "attrs_ok a" "attrs_ok b" for a b
    using that by (auto simp: attrs_ok_def dest!: attr_bit_inj)
  show "attributeBits a = attributeBits b \<Longrightarrow> present a = present b"
    using sub [of a b] sub [of b a] assms by auto
  show "present a = present b \<Longrightarrow> attributeBits a = attributeBits b"
    using assms by (intro bit_word_eqI) (simp add: attrs_ok_def)
qed

lemma value_differs_ok:
  "value_ok (t, v) \<Longrightarrow> value_ok (t, w) \<Longrightarrow> value_differs t v w \<longleftrightarrow> v \<noteq> w"
  by (cases v; cases w) (auto simp: value_differs_def attr_kinds)

lemma attrs_ok_member:
  "attrs_ok a \<Longrightarrow> (t, v) \<in> set (attributes a) \<longleftrightarrow> lookup a t = Some v"
  "attrs_ok a \<Longrightarrow> lookup a t = Some v \<Longrightarrow> value_ok (t, v)"
  by (auto simp: attrs_ok_def lookup_def list_all_iff dest: map_of_SomeD)

lemma attrs_compare:
  assumes "attrs_ok a" and "attrs_ok b"
  shows "attributeBits a = attributeBits b \<and>
      list_all (\<lambda>(t, v). list_all (\<lambda>(s, w). \<not> (t = s \<and> value_differs t v w)) (attributes b)) (attributes a) \<longleftrightarrow>
    lookup a = lookup b"
proof -
  have "list_all (\<lambda>(t, v). list_all (\<lambda>(s, w). \<not> (t = s \<and> value_differs t v w)) (attributes b)) (attributes a) \<longleftrightarrow>
      (\<forall>t v w. (t, v) \<in> set (attributes a) \<longrightarrow> (t, w) \<in> set (attributes b) \<longrightarrow> \<not> value_differs t v w)"
    unfolding list_all_iff by fast
  also have "\<dots> \<longleftrightarrow> (\<forall>t v w. lookup a t = Some v \<longrightarrow> lookup b t = Some w \<longrightarrow> v = w)"
    unfolding attrs_ok_member(1) [OF assms(1)] attrs_ok_member(1) [OF assms(2)]
    by (metis value_differs_ok attrs_ok_member(2) assms)
  finally have "list_all (\<lambda>(t, v). list_all (\<lambda>(s, w). \<not> (t = s \<and> value_differs t v w)) (attributes b)) (attributes a) \<longleftrightarrow>
      (\<forall>t v w. lookup a t = Some v \<longrightarrow> lookup b t = Some w \<longrightarrow> v = w)" .
  moreover have "present a = present b \<longleftrightarrow> (\<forall>t. lookup a t = None \<longleftrightarrow> lookup b t = None)"
    by (auto simp: lookup_present)
  moreover have "(\<forall>t. lookup a t = None \<longleftrightarrow> lookup b t = None) \<and>
      (\<forall>t v w. lookup a t = Some v \<longrightarrow> lookup b t = Some w \<longrightarrow> v = w) \<longleftrightarrow> lookup a = lookup b"
    by (auto simp: fun_eq_iff) (metis not_None_eq)
  ultimately show ?thesis using attrs_ok_bits [OF assms] by simp
qed

lemma item_equals_facts:
  assumes "attrs_ok (item_attributes i)" and "attrs_ok (item_attributes j)"
  shows "item_equals i (Some j) \<longleftrightarrow>
    item_id i = item_id j \<and> (item_attrs i = None \<longleftrightarrow> item_attrs j = None) \<and>
    lookup (item_attributes i) = lookup (item_attributes j)"
  using assms attrs_compare [of "item_attributes i" "item_attributes j"]
  by (cases "item_attrs i"; cases "item_attrs j"; cases "item_id i = item_id j")
    (simp_all only: item_equals_def item_attributes_def option.case if_True if_False not_True_eq_False
      not_False_eq_True simp_thms option.distinct if_bool_eq_conj imp_conv_disj, auto)

text \<open>two items are equal, and so may be stacked, exactly when their types agree, both or
  neither have an attribute object, and every attribute has the same value in both: the quadratic
  comparison of the two lists decides equality of the maps, whatever the order of the lists.\<close>

theorem equals_compares_attributes:
  assumes "attrs_ok (item_attributes i)" and "attrs_ok (item_attributes j)"
  shows "item_equals i (Some j) = (item_id i = item_id j \<and> (item_attrs i = None) = (item_attrs j = None) \<and>
    lookup (item_attributes i) = lookup (item_attributes j))"
  by (rule item_equals_facts [OF assms])

definition signed_twice :: "bool \<Rightarrow> Item" where
  "signed_twice b =
     (let blank = \<lparr>item_id = 1949, item_count = 1, item_attrs = None\<rparr> in
      if b then setStrAttr ITEM_ATTRIBUTE_WRITER ''Bo'' (setIntAttr ITEM_ATTRIBUTE_DATE 7 blank)
      else setIntAttr ITEM_ATTRIBUTE_DATE 7 (setStrAttr ITEM_ATTRIBUTE_WRITER ''Bo'' blank))"

theorem equals_compares_attributes_witness:
  "item_equals (signed_twice True) (Some (signed_twice False)) \<and>
   item_attrs (signed_twice True) \<noteq> item_attrs (signed_twice False)"
proof -
  define blank where "blank = \<lparr>item_id = 1949, item_count = 1, item_attrs = None\<rparr>"
  have blank: "attrs_ok (item_attributes blank)" by (simp add: blank_def item_attributes_def)
  have t: "signed_twice True = setStrAttr ITEM_ATTRIBUTE_WRITER ''Bo'' (setIntAttr ITEM_ATTRIBUTE_DATE 7 blank)"
    and f: "signed_twice False = setIntAttr ITEM_ATTRIBUTE_DATE 7 (setStrAttr ITEM_ATTRIBUTE_WRITER ''Bo'' blank)"
    by (simp_all add: signed_twice_def blank_def Let_def)
  have ok: "attrs_ok (item_attributes (signed_twice True))" "attrs_ok (item_attributes (signed_twice False))"
    "lookup (item_attributes (signed_twice True)) = lookup (item_attributes (signed_twice False))"
    using blank by (auto simp: t f item_attributes_set item_attributes_setStr fun_upd_twist)
  have "item_attrs (signed_twice True) \<noteq> item_attrs (signed_twice False)" by code_simp
  with equals_compares_attributes [OF ok(1,2)] ok(3) show ?thesis
    by (simp add: t f blank_def) (simp add: setStrAttr_def setIntAttr_def)
qed

text \<open>Removing the last attribute leaves an empty attribute object behind, and the item no longer
  equals one that never had attributes.\<close>

definition item_removeAttribute :: "itemAttrTypes \<Rightarrow> Item \<Rightarrow> Item option" where
  "item_removeAttribute t i =
     (case item_attrs i of
        None \<Rightarrow> Some i
      | Some a \<Rightarrow> (case removeAttribute t a of None \<Rightarrow> None | Some b \<Rightarrow> Some (i\<lparr>item_attrs := Some b\<rparr>)))"

lemma emptied_item_differs:
  assumes "item_attrs i = None" and "isIntAttrType t"
  shows "\<exists>j. item_removeAttribute t (setIntAttr t n i) = Some j \<and>
    lookup (item_attributes j) = lookup (item_attributes i) \<and> \<not> item_equals i (Some j) \<and> \<not> item_equals j (Some i)"
proof -
  let ?a = "attrs_setIntAttr t (scast n) no_attributes"
  have ok: "attrs_ok ?a" and l: "lookup ?a = [t \<mapsto> AInt (scast n)]"
    using setInt_keeps [OF attrs_ok_empty assms(2)] by simp_all
  obtain b where "removeAttribute t ?a = Some b" "attrs_ok b" "lookup b = Map.empty"
    using removeAttribute_keeps [OF ok, of t] l by auto
  then show ?thesis
    using assms(1) by (simp add: item_removeAttribute_def setIntAttr_def item_attributes_def item_equals_def)
qed

end
