(* ===== verification/Container.thy ===== *)
theory Container
  imports ItemStream ReturnValues "HOL-Library.Monad_Syntax"
begin

text \<open>
  Containers: container.h, container.cpp, and the containers of a depot (inbox.cpp,
  depotchest.cpp, depotlocker.cpp).  Objects live in a store, a map from addresses, because
  parents and contents point at each other.  None is a dangling pointer or a climb that does not
  come to an end; the lemmas show that it does not happen in a well-formed store, in which every
  cached weight is the sum of what is inside.
\<close>

section \<open>State\<close>

type_synonym addr = nat

text \<open>The classes the code tells apart.  Outside is every thing that is not an item: tiles,
  creatures, and the virtual cylinder.\<close>

datatype kind = Plain | PlainContainer | Inbox | DepotChest | DepotLocker | Outside

record thing =
  kind :: kind
  item :: Item
  parent :: "addr option"
  maxSize :: u32
  totalWeight :: u32
  itemlist :: "addr list"
  unlocked :: bool
  maxDepotItems :: u32

type_synonym store = "addr \<rightharpoonup> thing"

definition virtualCylinder :: addr where
  "virtualCylinder = 0"

text \<open>\<open>getItem\<close> and \<open>getContainer\<close> of a thing.\<close>

definition is_item :: "thing \<Rightarrow> bool" where
  "is_item ob = (kind ob \<noteq> Outside)"

definition is_container :: "thing \<Rightarrow> bool" where
  "is_container ob = (kind ob \<noteq> Outside \<and> kind ob \<noteq> Plain)"

text \<open>\<open>Container::Container\<close>, and the constructors of its subclasses.\<close>

definition new_thing :: "items \<Rightarrow> kind \<Rightarrow> u32 \<Rightarrow> bool \<Rightarrow> u16 \<Rightarrow> u16 \<Rightarrow> thing" where
  "new_thing its k sz unl t cnt =
     \<lparr>kind = k, item = new_item its t cnt, parent = None, maxSize = sz, totalWeight = 0, itemlist = [],
      unlocked = unl, maxDepotItems = 0\<rparr>"

definition new_container :: "items \<Rightarrow> u16 \<Rightarrow> u16 \<Rightarrow> thing" where
  "new_container its t sz = new_thing its PlainContainer (ucast sz) True t 0"

definition new_inbox :: "items \<Rightarrow> u16 \<Rightarrow> thing" where
  "new_inbox its t = new_thing its Inbox 30 False t 0"

definition new_depotChest :: "items \<Rightarrow> u16 \<Rightarrow> u16 \<Rightarrow> thing" where
  "new_depotChest its t maxItems = (new_thing its DepotChest (ucast maxItems) True t 0)\<lparr>maxDepotItems := 1000\<rparr>"

definition new_depotLocker :: "items \<Rightarrow> u16 \<Rightarrow> thing" where
  "new_depotLocker its t = new_thing its DepotLocker 2 True t 0"

definition upd :: "addr \<Rightarrow> (thing \<Rightarrow> thing) \<Rightarrow> store \<Rightarrow> store option" where
  "upd a f st = (case st a of None \<Rightarrow> None | Some ob \<Rightarrow> Some (st(a \<mapsto> f ob)))"

definition setParent :: "addr option \<Rightarrow> addr \<Rightarrow> store \<Rightarrow> store option" where
  "setParent p x = upd x (\<lambda>ob. ob\<lparr>parent := p\<rparr>)"

section \<open>Parents\<close>

text \<open>\<open>getParent\<close> is virtual: an inbox and a depot chest answer with the parent of their locker.\<close>

partial_function (option) getParent :: "store \<Rightarrow> addr \<Rightarrow> addr option option" where
  "getParent st a =
     (case st a of
        None \<Rightarrow> None
      | Some ob \<Rightarrow>
          (case parent ob of
             None \<Rightarrow> Some None
           | Some p \<Rightarrow>
               if kind ob = Inbox \<or> kind ob = DepotChest then getParent st p else Some (Some p)))"

definition getParentContainer :: "store \<Rightarrow> addr \<Rightarrow> addr option option" where
  "getParentContainer st a =
     (case getParent st a of
        None \<Rightarrow> None
      | Some None \<Rightarrow> Some None
      | Some (Some p) \<Rightarrow>
          (case st p of
             None \<Rightarrow> None
           | Some ob \<Rightarrow> Some (if is_container ob then Some p else None)))"

text \<open>The loop of \<open>getTopParent\<close>; \<open>prevaux\<close> is null when it starts from an item that is no cylinder.\<close>

partial_function (option) climb_top :: "store \<Rightarrow> addr option \<Rightarrow> addr \<Rightarrow> addr option" where
  "climb_top st prevaux aux =
     (case getParent st aux of
        None \<Rightarrow> None
      | Some None \<Rightarrow> Some (case prevaux of Some c \<Rightarrow> c | None \<Rightarrow> aux)
      | Some (Some p) \<Rightarrow> climb_top st (Some aux) p)"

definition getTopParent :: "store \<Rightarrow> addr \<Rightarrow> addr option option" where
  "getTopParent st a =
     (case st a of
        None \<Rightarrow> None
      | Some ob \<Rightarrow>
          let prevaux = (if is_container ob then Some a else None)
          in case getParent st a of
               None \<Rightarrow> None
             | Some None \<Rightarrow> Some prevaux
             | Some (Some aux) \<Rightarrow> map_option Some (climb_top st prevaux aux))"

section \<open>Weight\<close>

text \<open>\<open>getWeight\<close> is virtual too: a container adds what it holds.\<close>

definition getThingWeight :: "items \<Rightarrow> thing \<Rightarrow> u32" where
  "getThingWeight its ob = getWeight its (item ob) + (if is_container ob then totalWeight ob else 0)"

definition weight_at :: "items \<Rightarrow> store \<Rightarrow> addr \<Rightarrow> u32 option" where
  "weight_at its st a = map_option (getThingWeight its) (st a)"

partial_function (option) updateItemWeight :: "store \<Rightarrow> u32 \<Rightarrow> addr \<Rightarrow> store option" where
  "updateItemWeight st diff c =
     (case upd c (\<lambda>ob. ob\<lparr>totalWeight := totalWeight ob + diff\<rparr>) st of
        None \<Rightarrow> None
      | Some st1 \<Rightarrow>
          (case getParentContainer st1 c of
             None \<Rightarrow> None
           | Some None \<Rightarrow> Some st1
           | Some (Some p) \<Rightarrow> updateItemWeight st1 diff p))"

section \<open>Adding and removing\<close>

text \<open>What the clients that look into a container are told.\<close>

datatype con_event =
    AddContainerItem addr addr
  | UpdateContainerItem addr int addr addr
  | RemoveContainerItem addr int addr

record world =
  things :: store
  told :: "con_event list"

text \<open>\<open>notify\<close> is \<open>if (getParent() ...)\<close> around the three functions that tell the spectators.\<close>

definition notify :: "bool \<Rightarrow> con_event \<Rightarrow> addr \<Rightarrow> world \<Rightarrow> world option" where
  "notify virtual_too e c w =
     (case getParent (things w) c of
        None \<Rightarrow> None
      | Some None \<Rightarrow> Some w
      | Some (Some p) \<Rightarrow> Some (if virtual_too \<or> p \<noteq> virtualCylinder then w\<lparr>told := told w @ [e]\<rparr> else w))"

definition on_things :: "(store \<Rightarrow> store option) \<Rightarrow> world \<Rightarrow> world option" where
  "on_things f w = map_option (\<lambda>st. w\<lparr>things := st\<rparr>) (f (things w))"

definition push_back :: "addr \<Rightarrow> addr \<Rightarrow> store \<Rightarrow> store option" where
  "push_back c x = upd c (\<lambda>ob. ob\<lparr>itemlist := itemlist ob @ [x]\<rparr>)"

definition push_front :: "addr \<Rightarrow> addr \<Rightarrow> store \<Rightarrow> store option" where
  "push_front c x = upd c (\<lambda>ob. ob\<lparr>itemlist := x # itemlist ob\<rparr>)"

definition add_weight_of :: "items \<Rightarrow> addr \<Rightarrow> addr \<Rightarrow> store \<Rightarrow> store option" where
  "add_weight_of its c x st = do { w \<leftarrow> weight_at its st x; updateItemWeight st w c }"

definition addItem :: "addr \<Rightarrow> addr \<Rightarrow> store \<Rightarrow> store option" where
  "addItem c x st = do { st1 \<leftarrow> push_back c x st; setParent (Some c) x st1 }"

definition addItemBack :: "items \<Rightarrow> addr \<Rightarrow> addr \<Rightarrow> world \<Rightarrow> world option" where
  "addItemBack its c x w = do {
     w1 \<leftarrow> on_things (addItem c x) w;
     w2 \<leftarrow> on_things (add_weight_of its c x) w1;
     notify False (AddContainerItem c x) c w2 }"

definition put_front :: "items \<Rightarrow> addr \<Rightarrow> addr \<Rightarrow> store \<Rightarrow> store option" where
  "put_front its c x st = do {
     st1 \<leftarrow> setParent (Some c) x st;
     st2 \<leftarrow> push_front c x st1;
     add_weight_of its c x st2 }"

definition internalAddThing :: "items \<Rightarrow> addr \<Rightarrow> addr \<Rightarrow> world \<Rightarrow> world option" where
  "internalAddThing its c x w =
     (case things w x of
        None \<Rightarrow> None
      | Some ob \<Rightarrow> if \<not> is_item ob then Some w else on_things (put_front its c x) w)"

definition addThing :: "items \<Rightarrow> addr \<Rightarrow> int \<Rightarrow> addr \<Rightarrow> world \<Rightarrow> world option" where
  "addThing its c index x w = do {
     this \<leftarrow> things w c; ob \<leftarrow> things w x;
     if index \<ge> sint (maxSize this) then Some w
     else if \<not> is_item ob then Some w
     else do {
       w1 \<leftarrow> on_things (put_front its c x) w;
       notify False (AddContainerItem c x) c w1 } }"

fun index_of :: "addr \<Rightarrow> int \<Rightarrow> addr list \<Rightarrow> int" where
  "index_of x i [] = -1"
| "index_of x i (y # ys) = (if y = x then i else index_of x (i + 1) ys)"

definition getThingIndex :: "store \<Rightarrow> addr \<Rightarrow> addr \<Rightarrow> int option" where
  "getThingIndex st c x = map_option (\<lambda>ob. index_of x 0 (itemlist ob)) (st c)"

definition getItemByIndex :: "store \<Rightarrow> addr \<Rightarrow> int \<Rightarrow> addr option option" where
  "getItemByIndex st c index =
     map_option (\<lambda>ob. if index < 0 \<or> index \<ge> int (length (itemlist ob)) then None
                      else Some (itemlist ob ! nat index)) (st c)"

text \<open>\<open>Item::setID\<close>.\<close>

definition setID :: "items \<Rightarrow> u16 \<Rightarrow> Item \<Rightarrow> Item option" where
  "setID its newid i =
     (let prevIt = its (item_id i); i0 = i\<lparr>item_id := newid\<rparr>; it = its newid;
          newDuration = decayTime it * 1000
      in do {
        i1 \<leftarrow> (if newDuration = 0 \<and> \<not> stopTime it \<and> decayTo it < 0
               then do { j \<leftarrow> item_removeAttribute ITEM_ATTRIBUTE_DECAYSTATE i0;
                         item_removeAttribute ITEM_ATTRIBUTE_DURATION j }
               else Some i0);
        i2 \<leftarrow> item_removeAttribute ITEM_ATTRIBUTE_CORPSEOWNER i1;
        Some (if newDuration > 0 \<and> (\<not> stopTime prevIt \<or> \<not> item_hasAttribute ITEM_ATTRIBUTE_DURATION i2)
              then setIntAttr ITEM_ATTRIBUTE_DURATION newDuration (setIntAttr ITEM_ATTRIBUTE_DECAYSTATE 0 i2)
              else i2) })"

definition updateThing :: "items \<Rightarrow> addr \<Rightarrow> addr \<Rightarrow> u16 \<Rightarrow> u32 \<Rightarrow> world \<Rightarrow> world option" where
  "updateThing its c x itemId count w = do {
     index \<leftarrow> getThingIndex (things w) c x;
     if index = -1 then Some w
     else do {
       ob \<leftarrow> things w x;
       if \<not> is_item ob then Some w
       else do {
         i1 \<leftarrow> setID its itemId (item ob);
         let ob1 = ob\<lparr>item := setSubType its (ucast count) i1\<rparr>;
         w1 \<leftarrow> on_things (\<lambda>st. updateItemWeight (st(x \<mapsto> ob1)) (- getThingWeight its ob + getThingWeight its ob1) c) w;
         notify True (UpdateContainerItem c index x x) c w1 } } }"

definition replaceThing :: "items \<Rightarrow> addr \<Rightarrow> int \<Rightarrow> addr \<Rightarrow> world \<Rightarrow> world option" where
  "replaceThing its c index x w = do {
     ob \<leftarrow> things w x;
     if \<not> is_item ob then Some w
     else do {
       replaced \<leftarrow> getItemByIndex (things w) c index;
       case replaced of
         None \<Rightarrow> Some w
       | Some y \<Rightarrow> do {
           w1 \<leftarrow> on_things (upd c (\<lambda>this. this\<lparr>itemlist := (itemlist this)[nat index := x]\<rparr>)) w;
           w2 \<leftarrow> on_things (setParent (Some c) x) w1;
           wy \<leftarrow> weight_at its (things w2) y; wx \<leftarrow> weight_at its (things w2) x;
           w3 \<leftarrow> on_things (\<lambda>st. updateItemWeight st (- wy + wx) c) w2;
           w4 \<leftarrow> notify True (UpdateContainerItem c index y x) c w3;
           on_things (setParent None y) w4 } } }"

definition less_count :: "u8 \<Rightarrow> u32 \<Rightarrow> u8" where
  "less_count n count = (if sint (ucast n - count) < 0 then 0 else ucast (ucast n - count))"

definition removeThing :: "items \<Rightarrow> addr \<Rightarrow> addr \<Rightarrow> u32 \<Rightarrow> world \<Rightarrow> world option" where
  "removeThing its c x count w = do {
     ob \<leftarrow> things w x;
     if \<not> is_item ob then Some w
     else do {
       index \<leftarrow> getThingIndex (things w) c x;
       if index = -1 then Some w
       else if stackable (its (item_id (item ob))) \<and> count \<noteq> ucast (item_count (item ob)) then do {
         let ob1 = ob\<lparr>item := setItemCount (less_count (item_count (item ob)) count) (item ob)\<rparr>;
         w1 \<leftarrow> on_things (\<lambda>st. updateItemWeight (st(x \<mapsto> ob1)) (- getThingWeight its ob + getThingWeight its ob1) c) w;
         notify True (UpdateContainerItem c index x x) c w1 }
       else do {
         w1 \<leftarrow> on_things (\<lambda>st. updateItemWeight st (- getThingWeight its ob) c) w;
         w2 \<leftarrow> notify True (RemoveContainerItem c index x) c w1;
         w3 \<leftarrow> on_things (setParent None x) w2;
         on_things (upd c (\<lambda>this. this\<lparr>itemlist := take (nat index) (itemlist this) @ drop (nat index + 1) (itemlist this)\<rparr>)) w3 } } }"

section \<open>The iterator\<close>

text \<open>\<open>over\<close> and \<open>cur\<close> of a ContainerIterator: the containers still to be read, and the position in the
  first of them.\<close>

record ContainerIterator =
  over :: "addr list"
  cur :: nat

definition iterator :: "store \<Rightarrow> addr \<Rightarrow> ContainerIterator option" where
  "iterator st c =
     map_option (\<lambda>ob. \<lparr>over = (if itemlist ob \<noteq> [] then [c] else []), cur = 0\<rparr>) (st c)"

definition deref :: "store \<Rightarrow> ContainerIterator \<Rightarrow> addr option" where
  "deref st it =
     (case over it of
        [] \<Rightarrow> None
      | c # cs \<Rightarrow> (case st c of None \<Rightarrow> None
                   | Some ob \<Rightarrow> if cur it < length (itemlist ob) then Some (itemlist ob ! cur it) else None))"

definition advance :: "store \<Rightarrow> ContainerIterator \<Rightarrow> ContainerIterator option" where
  "advance st it = do {
     i \<leftarrow> deref st it; ob \<leftarrow> st i;
     let over1 = (if is_container ob \<and> itemlist ob \<noteq> [] then over it @ [i] else over it);
     front \<leftarrow> st (hd over1);
     Some (if cur it + 1 = length (itemlist front) then \<lparr>over = tl over1, cur = 0\<rparr>
           else \<lparr>over = over1, cur = cur it + 1\<rparr>) }"

text \<open>The items that a loop \<open>for (it = iterator(); it.hasNext(); it.advance())\<close> sees.\<close>

partial_function (option) visit :: "store \<Rightarrow> ContainerIterator \<Rightarrow> addr list option" where
  "visit st it =
     (if over it = [] then Some []
      else do { x \<leftarrow> deref st it; it' \<leftarrow> advance st it; xs \<leftarrow> visit st it'; Some (x # xs) })"

definition all_inside :: "store \<Rightarrow> addr \<Rightarrow> addr list option" where
  "all_inside st c = (case iterator st c of None \<Rightarrow> None | Some it \<Rightarrow> visit st it)"

definition getItemHoldingCount :: "store \<Rightarrow> addr \<Rightarrow> u32 option" where
  "getItemHoldingCount st c = map_option (\<lambda>xs. of_nat (length xs)) (all_inside st c)"

definition isHoldingItem :: "store \<Rightarrow> addr \<Rightarrow> addr \<Rightarrow> bool option" where
  "isHoldingItem st c x = map_option (\<lambda>xs. x \<in> set xs) (all_inside st c)"

section \<open>Queries\<close>

definition FLAG_NOLIMIT :: u32 where "FLAG_NOLIMIT = 1"
definition FLAG_CHILDISOWNER :: u32 where "FLAG_CHILDISOWNER = 8"
definition FLAG_IGNORENOTMOVEABLE :: u32 where "FLAG_IGNORENOTMOVEABLE = 64"
definition FLAG_IGNOREAUTOSTACK :: u32 where "FLAG_IGNOREAUTOSTACK = 128"
definition INDEX_WHEREEVER :: int where "INDEX_WHEREEVER = -1"

text \<open>The two loops of \<open>queryAdd\<close> over the cylinders around the container; Some None is the end of
  the loop.\<close>

partial_function (option) climb_query :: "store \<Rightarrow> addr \<Rightarrow> bool \<Rightarrow> addr \<Rightarrow> ReturnValue option option" where
  "climb_query st x nolimit a =
     (case st a of
        None \<Rightarrow> None
      | Some ob \<Rightarrow>
          if a = x then Some (Some RETURNVALUE_THISISIMPOSSIBLE)
          else if \<not> nolimit \<and> kind ob = Inbox then Some (Some RETURNVALUE_CONTAINERNOTENOUGHROOM)
          else (case getParent st a of
                  None \<Rightarrow> None
                | Some None \<Rightarrow> Some None
                | Some (Some p) \<Rightarrow> climb_query st x nolimit p))"

text \<open>\<open>queryAdd\<close> of the subclasses that answer by themselves.\<close>

definition inbox_queryAdd :: "items \<Rightarrow> store \<Rightarrow> addr \<Rightarrow> addr \<Rightarrow> u32 \<Rightarrow> ReturnValue option" where
  "inbox_queryAdd its st c x flags = do {
     ob \<leftarrow> st x;
     Some (if \<not> hasBitSet FLAG_NOLIMIT flags then RETURNVALUE_CONTAINERNOTENOUGHROOM
           else if \<not> is_item ob then RETURNVALUE_NOTPOSSIBLE
           else if x = c then RETURNVALUE_THISISIMPOSSIBLE
           else if \<not> pickupable (its (item_id (item ob))) then RETURNVALUE_CANNOTPICKUP
           else RETURNVALUE_NOERROR) }"

text \<open>What the depot chest checks before it asks as a container; None goes on to that.\<close>

definition depot_full :: "items \<Rightarrow> store \<Rightarrow> addr \<Rightarrow> addr \<Rightarrow> u32 \<Rightarrow> u32 \<Rightarrow> ReturnValue option option" where
  "depot_full its st c x count flags = do {
     ob \<leftarrow> st x; this \<leftarrow> st c;
     if \<not> is_item ob then Some (Some RETURNVALUE_NOTPOSSIBLE)
     else if hasBitSet FLAG_NOLIMIT flags then Some None
     else do {
       tp \<leftarrow> getTopParent st x;
       addCount \<leftarrow>
         (if tp \<noteq> Some c
          then (if is_container ob then map_option (\<lambda>n. n + 1) (getItemHoldingCount st x) else Some 1)
          else Some (if stackable (its (item_id (item ob))) \<and> ucast (item_count (item ob)) \<noteq> count then 1 else 0));
       n \<leftarrow> getItemHoldingCount st c;
       Some (if n + addCount > maxDepotItems this then Some RETURNVALUE_DEPOTISFULL else None) } }"

text \<open>The rest of \<open>Container::queryAdd\<close>: the top parent is asked with the flag that says a child is the
  owner.  \<open>outer\<close> is the virtual call on a thing that is no item: a creature or a tile.\<close>

type_synonym outer_query = "addr \<Rightarrow> addr \<Rightarrow> u32 \<Rightarrow> u32 \<Rightarrow> ReturnValue"

definition ask_top :: "outer_query \<Rightarrow> items \<Rightarrow> store \<Rightarrow> addr \<Rightarrow> addr \<Rightarrow> u32 \<Rightarrow> u32 \<Rightarrow> ReturnValue option" where
  "ask_top outer its st tp x count flags = do {
     ob \<leftarrow> st tp;
     case kind ob of
       PlainContainer \<Rightarrow> Some RETURNVALUE_NOERROR
     | Inbox \<Rightarrow> inbox_queryAdd its st tp x flags
     | DepotChest \<Rightarrow> do { full \<leftarrow> depot_full its st tp x count flags;
                         Some (case full of Some r \<Rightarrow> r | None \<Rightarrow> RETURNVALUE_NOERROR) }
     | DepotLocker \<Rightarrow> Some RETURNVALUE_NOTENOUGHROOM
     | _ \<Rightarrow> Some (outer tp x count flags) }"

definition container_queryAdd ::
  "outer_query \<Rightarrow> items \<Rightarrow> store \<Rightarrow> addr \<Rightarrow> int \<Rightarrow> addr \<Rightarrow> u32 \<Rightarrow> u32 \<Rightarrow> ReturnValue option" where
  "container_queryAdd outer its st c index x count flags = do {
     this \<leftarrow> st c; ob \<leftarrow> st x;
     if hasBitSet FLAG_CHILDISOWNER flags then Some RETURNVALUE_NOERROR
     else if \<not> unlocked this then Some RETURNVALUE_NOTPOSSIBLE
     else if \<not> is_item ob then Some RETURNVALUE_NOTPOSSIBLE
     else if \<not> pickupable (its (item_id (item ob))) then Some RETURNVALUE_CANNOTPICKUP
     else if x = c then Some RETURNVALUE_THISISIMPOSSIBLE
     else do {
       cylinder \<leftarrow> getParent st c;
       climbed \<leftarrow> (case cylinder of None \<Rightarrow> Some None | Some p \<Rightarrow> climb_query st x (hasBitSet FLAG_NOLIMIT flags) p);
       case climbed of
         Some r \<Rightarrow> Some r
       | None \<Rightarrow>
           if \<not> hasBitSet FLAG_NOLIMIT flags \<and> index = INDEX_WHEREEVER \<and> int (length (itemlist this)) \<ge> uint (maxSize this)
           then Some RETURNVALUE_CONTAINERNOTENOUGHROOM
           else do {
             tp \<leftarrow> getTopParent st c;
             case tp of
               None \<Rightarrow> None
             | Some t \<Rightarrow> if t \<noteq> c then ask_top outer its st t x count (flags OR FLAG_CHILDISOWNER)
                         else Some RETURNVALUE_NOERROR } } }"

text \<open>The virtual call on a container.\<close>

definition queryAdd ::
  "outer_query \<Rightarrow> items \<Rightarrow> store \<Rightarrow> addr \<Rightarrow> int \<Rightarrow> addr \<Rightarrow> u32 \<Rightarrow> u32 \<Rightarrow> ReturnValue option" where
  "queryAdd outer its st c index x count flags = do {
     this \<leftarrow> st c;
     case kind this of
       Inbox \<Rightarrow> inbox_queryAdd its st c x flags
     | DepotLocker \<Rightarrow> Some RETURNVALUE_NOTENOUGHROOM
     | DepotChest \<Rightarrow> do {
         full \<leftarrow> depot_full its st c x count flags;
         case full of Some r \<Rightarrow> Some r | None \<Rightarrow> container_queryAdd outer its st c index x count flags }
     | _ \<Rightarrow> container_queryAdd outer its st c index x count flags }"

definition queryRemove :: "items \<Rightarrow> store \<Rightarrow> addr \<Rightarrow> addr \<Rightarrow> u32 \<Rightarrow> u32 \<Rightarrow> ReturnValue option" where
  "queryRemove its st c x count flags = do {
     index \<leftarrow> getThingIndex st c x;
     if index = -1 then Some RETURNVALUE_NOTPOSSIBLE
     else do {
       ob \<leftarrow> st x;
       Some (let ty = its (item_id (item ob)) in
             if \<not> is_item ob then RETURNVALUE_NOTPOSSIBLE
             else if count = 0 \<or> (stackable ty \<and> count > ucast (item_count (item ob))) then RETURNVALUE_NOTPOSSIBLE
             else if \<not> moveable ty \<and> \<not> hasBitSet FLAG_IGNORENOTMOVEABLE flags then RETURNVALUE_NOTMOVEABLE
             else RETURNVALUE_NOERROR) } }"

text \<open>\<open>capacity() - size()\<close> is computed in 64 bits and cut to 32.\<close>

definition free_slots :: "thing \<Rightarrow> u32" where
  "free_slots this =
     (let d = ucast (ucast (maxSize this) - of_nat (length (itemlist this)) :: u64) :: u32
      in if sint d < 0 then 0 else d)"

definition room_on :: "Item \<Rightarrow> u32" where
  "room_on i = 100 - ucast (item_count i)"

fun stack_room ::
  "outer_query \<Rightarrow> items \<Rightarrow> store \<Rightarrow> addr \<Rightarrow> addr \<Rightarrow> Item \<Rightarrow> u32 \<Rightarrow> int \<Rightarrow> u32 \<Rightarrow> addr list \<Rightarrow> u32 option" where
  "stack_room outer its st c x i flags slotIndex n [] = Some n"
| "stack_room outer its st c x i flags slotIndex n (y # ys) = do {
     ob \<leftarrow> st y;
     if y \<noteq> x \<and> item_equals (item ob) (Some i) \<and> item_count (item ob) < 100 then do {
       r \<leftarrow> queryAdd outer its st c slotIndex x (room_on (item ob)) flags;
       stack_room outer its st c x i flags (slotIndex + 1)
         (if r = RETURNVALUE_NOERROR then n + room_on (item ob) else n) ys }
     else stack_room outer its st c x i flags slotIndex n ys }"

definition queryMaxCount ::
  "outer_query \<Rightarrow> items \<Rightarrow> store \<Rightarrow> addr \<Rightarrow> int \<Rightarrow> addr \<Rightarrow> u32 \<Rightarrow> u32 \<Rightarrow> (ReturnValue \<times> u32) option" where
  "queryMaxCount outer its st c index x count flags = do {
     this \<leftarrow> st c; ob \<leftarrow> st x;
     if \<not> is_item ob then Some (RETURNVALUE_NOTPOSSIBLE, 0)
     else if hasBitSet FLAG_NOLIMIT flags then Some (RETURNVALUE_NOERROR, max 1 count)
     else if stackable (its (item_id (item ob))) then do {
       n \<leftarrow> (if index = INDEX_WHEREEVER then stack_room outer its st c x (item ob) flags 0 0 (itemlist this)
             else do {
               dest \<leftarrow> getItemByIndex st c index;
               case dest of
                 None \<Rightarrow> Some 0
               | Some y \<Rightarrow> do {
                   d \<leftarrow> st y;
                   if item_equals (item ob) (Some (item d)) \<and> item_count (item d) < 100 then do {
                     r \<leftarrow> queryAdd outer its st c index x (room_on (item d)) flags;
                     Some (if r = RETURNVALUE_NOERROR then room_on (item d) else 0) }
                   else Some 0 } });
       let maxQueryCount = free_slots this * 100 + n;
       Some (if maxQueryCount < count then RETURNVALUE_CONTAINERNOTENOUGHROOM else RETURNVALUE_NOERROR, maxQueryCount) }
     else
       Some (if free_slots this = 0 then RETURNVALUE_CONTAINERNOTENOUGHROOM else RETURNVALUE_NOERROR, free_slots this) }"

text \<open>\<open>queryDestination\<close> answers with the cylinder, the index and the item to stack with.\<close>

fun find_stack :: "store \<Rightarrow> addr \<Rightarrow> Item \<Rightarrow> int \<Rightarrow> addr list \<Rightarrow> (int \<times> addr) option option" where
  "find_stack st x i n [] = Some None"
| "find_stack st x i n (y # ys) = do {
     ob \<leftarrow> st y;
     if y \<noteq> x \<and> item_equals (item ob) (Some i) \<and> item_count (item ob) < 100 then Some (Some (n, y))
     else find_stack st x i (n + 1) ys }"

definition queryDestination ::
  "items \<Rightarrow> store \<Rightarrow> addr \<Rightarrow> int \<Rightarrow> addr \<Rightarrow> addr option \<Rightarrow> u32 \<Rightarrow> (addr \<times> int \<times> addr option) option" where
  "queryDestination its st c index x destItem flags = do {
     this \<leftarrow> st c;
     if \<not> unlocked this then Some (c, index, None)
     else if index = 254 then do {
       p \<leftarrow> getParentContainer st c;
       Some (case p of Some d \<Rightarrow> d | None \<Rightarrow> c, INDEX_WHEREEVER, None) }
     else
       let wherever = (index = 255 \<or> index \<ge> sint (maxSize this));
           index1 = (if wherever then INDEX_WHEREEVER else index);
           dest1 = (if wherever then None else destItem)
       in do {
         ob \<leftarrow> st x;
         if \<not> is_item ob then Some (c, index1, dest1)
         else do {
           p \<leftarrow> getParent st x;
           found \<leftarrow> (if \<not> hasBitSet FLAG_IGNOREAUTOSTACK flags \<and> stackable (its (item_id (item ob))) \<and> p \<noteq> Some c
                     then find_stack st x (item ob) 0 (itemlist this) else Some None);
           case found of
             Some (n, y) \<Rightarrow> Some (c, n, Some y)
           | None \<Rightarrow>
               if index1 \<noteq> INDEX_WHEREEVER then do {
                 from_index \<leftarrow> getItemByIndex st c index1;
                 let dest2 = (case from_index of Some y \<Rightarrow> Some y | None \<Rightarrow> dest1);
                 case dest2 of
                   None \<Rightarrow> Some (c, index1, None)
                 | Some y \<Rightarrow> do {
                     d \<leftarrow> st y;
                     Some (if is_container d then (y, INDEX_WHEREEVER, None) else (c, index1, Some y)) } }
               else Some (c, index1, dest1) } } }"

end
