(* ===== verification/ContainerStore.thy ===== *)
theory ContainerStore
  imports Container
begin

text \<open>
  The store of containers kept well-formed: parents and contents agree, nothing is inside itself,
  and the cached weight of every container is the weight of its contents.  The lemmas follow the
  change of one container's weight up through the containers around it, then each operation.
\<close>

section \<open>The invariant\<close>

text \<open>A locker shows the one inbox of its player and chests it shares, so what it lists may have
  another parent; every other container owns what it lists.\<close>

definition holds :: "thing \<Rightarrow> bool" where
  "holds ob = (kind ob = PlainContainer \<or> kind ob = Inbox \<or> kind ob = DepotChest)"

definition kids :: "store \<Rightarrow> addr \<Rightarrow> addr list" where
  "kids st c = (case st c of None \<Rightarrow> [] | Some ob \<Rightarrow> if holds ob then itemlist ob else [])"

text \<open>Which thing may be in which: \<open>fits x p\<close>.\<close>

definition fits :: "thing \<Rightarrow> thing \<Rightarrow> bool" where
  "fits xo po =
     (case kind xo of
        Outside \<Rightarrow> kind po = Outside
      | DepotLocker \<Rightarrow> kind po = Outside
      | Inbox \<Rightarrow> kind po = DepotLocker
      | DepotChest \<Rightarrow> kind po = DepotLocker
      | _ \<Rightarrow> kind po \<noteq> Plain)"

text \<open>\<open>shape E rank st\<close>: parents exist, fit and have a lower rank; what is listed by a container has
  it as its parent; and what has a container as its parent is listed there, unless it is in E.\<close>

definition shape :: "addr set \<Rightarrow> (addr \<Rightarrow> nat) \<Rightarrow> store \<Rightarrow> bool" where
  "shape E rank st =
     (finite (dom st) \<and>
      (\<forall>a ob. st a = Some ob \<longrightarrow> distinct (kids st a) \<and>
         (\<forall>p. parent ob = Some p \<longrightarrow> rank p < rank a \<and>
            (\<exists>po. st p = Some po \<and> fits ob po \<and> (holds po \<longrightarrow> a \<notin> E \<longrightarrow> a \<in> set (itemlist po))))) \<and>
      (\<forall>c x. x \<in> set (kids st c) \<longrightarrow> (\<exists>ob. st x = Some ob \<and> is_item ob \<and> parent ob = Some c)))"

definition wt :: "items \<Rightarrow> store \<Rightarrow> addr \<Rightarrow> u32" where
  "wt its st x = (case st x of None \<Rightarrow> 0 | Some ob \<Rightarrow> getThingWeight its ob)"

definition load :: "items \<Rightarrow> store \<Rightarrow> addr \<Rightarrow> u32" where
  "load its st c = sum_list (map (wt its st) (kids st c))"

text \<open>Every cached weight plus a given correction is the weight of the contents.\<close>

definition weights_off :: "items \<Rightarrow> (addr \<Rightarrow> u32) \<Rightarrow> store \<Rightarrow> bool" where
  "weights_off its f st = (\<forall>c ob. st c = Some ob \<longrightarrow> holds ob \<longrightarrow> totalWeight ob + f c = load its st c)"

definition store_ok :: "items \<Rightarrow> store \<Rightarrow> bool" where
  "store_ok its st = ((\<exists>rank. shape {} rank st) \<and> weights_off its (\<lambda>_. 0) st)"

lemma shapeD:
  assumes "shape E rank st" and "st a = Some ob"
  shows "distinct (kids st a)"
    and "parent ob = Some p \<Longrightarrow> rank p < rank a"
    and "parent ob = Some p \<Longrightarrow> \<exists>po. st p = Some po \<and> fits ob po \<and> (holds po \<longrightarrow> a \<notin> E \<longrightarrow> a \<in> set (itemlist po))"
  using assms by (auto simp: shape_def)

lemma shape_kid:
  "shape E rank st \<Longrightarrow> x \<in> set (kids st c) \<Longrightarrow> \<exists>ob. st x = Some ob \<and> is_item ob \<and> parent ob = Some c"
  by (simp add: shape_def)

lemma kid_parent: "shape E rank st \<Longrightarrow> x \<in> set (kids st c) \<Longrightarrow> st x = Some ob \<Longrightarrow> parent ob = Some c"
  using shape_kid by fastforce

lemma kid_rank: "shape E rank st \<Longrightarrow> x \<in> set (kids st c) \<Longrightarrow> rank c < rank x"
  using shape_kid shapeD(2) by metis

lemma kids_Some: "st c = Some ob \<Longrightarrow> kids st c = (if holds ob then itemlist ob else [])"
  by (simp add: kids_def)

lemma kid_holder: "x \<in> set (kids st c) \<Longrightarrow> \<exists>ob. st c = Some ob \<and> holds ob \<and> x \<in> set (itemlist ob)"
  by (cases "st c") (auto simp: kids_def split: if_splits)

lemma kid_kind:
  assumes "shape E rank st" and "x \<in> set (kids st c)" and "st x = Some ob"
  shows "kind ob = Plain \<or> kind ob = PlainContainer"
proof -
  obtain co where co: "st c = Some co" "holds co" using kid_holder [OF assms(2)] by blast
  have "fits ob co" using shapeD(3) [OF assms(1,3) kid_parent [OF assms]] co(1) by auto
  moreover have "is_item ob" using shape_kid [OF assms(1,2)] assms(3) by auto
  ultimately show ?thesis using co(2) by (cases "kind ob") (auto simp: fits_def holds_def is_item_def)
qed

section \<open>Parents\<close>

lemma getParent_plain:
  "st a = Some ob \<Longrightarrow> kind ob \<noteq> Inbox \<Longrightarrow> kind ob \<noteq> DepotChest \<Longrightarrow> getParent st a = Some (parent ob)"
  by (subst getParent.simps) (simp split: option.split)

lemma getParent_depot:
  assumes "shape E rank st" and "st a = Some ob" and "kind ob = Inbox \<or> kind ob = DepotChest"
  shows "getParent st a = Some None \<or>
    (\<exists>l lo p po. parent ob = Some l \<and> st l = Some lo \<and> kind lo = DepotLocker \<and> parent lo = Some p \<and>
       st p = Some po \<and> kind po = Outside \<and> getParent st a = Some (Some p))"
proof (cases "parent ob")
  case None
  then show ?thesis using assms(2) by (subst getParent.simps) simp
next
  case (Some l)
  obtain lo where lo: "st l = Some lo" "fits ob lo" using shapeD(3) [OF assms(1,2) Some] by blast
  then have k: "kind lo = DepotLocker" using assms(3) by (auto simp: fits_def)
  have e: "getParent st a = Some (parent lo)"
    using assms(2,3) Some getParent_plain [of st l lo] lo(1) k by (subst getParent.simps) simp
  show ?thesis
  proof (cases "parent lo")
    case None
    with e show ?thesis by simp
  next
    case p: (Some p)
    then obtain po where "st p = Some po" "fits lo po" using shapeD(3) [OF assms(1) lo(1)] by blast
    with k p e Some lo(1) show ?thesis by (auto simp: fits_def)
  qed
qed

text \<open>In a well-formed store the parent is always found; it exists, has a lower rank, and no container
  but a locker is passed over on the way.\<close>

lemma getParent_total:
  assumes "shape E rank st" and "st a = Some ob"
  shows "\<exists>r. getParent st a = Some r \<and>
    (\<forall>p. r = Some p \<longrightarrow> rank p < rank a \<and> (\<exists>po. st p = Some po \<and> (parent ob = Some p \<or> kind po = Outside)))"
proof (cases "kind ob = Inbox \<or> kind ob = DepotChest")
  case True
  from getParent_depot [OF assms True] show ?thesis
  proof (elim disjE exE conjE)
    fix l lo p po
    assume l: "parent ob = Some l" "st l = Some lo" "parent lo = Some p" "st p = Some po" "kind po = Outside"
      and g: "getParent st a = Some (Some p)"
    have "rank p < rank a" using shapeD(2) [OF assms l(1)] shapeD(2) [OF assms(1) l(2,3)] by linarith
    with g l show ?thesis by auto
  qed auto
next
  case False
  then show ?thesis
    using getParent_plain [of st a ob] assms(2) shapeD(2,3) [OF assms] by (cases "parent ob") auto
qed

lemma getParentContainer_total:
  assumes "shape E rank st" and "st c = Some ob"
  shows "\<exists>r. getParentContainer st c = Some r \<and>
    (\<forall>p. r = Some p \<longrightarrow> rank p < rank c \<and> parent ob = Some p \<and> (\<exists>po. st p = Some po \<and> is_container po)) \<and>
    (r = None \<longrightarrow> (\<forall>k. c \<notin> set (kids st k)))"
proof -
  obtain r where r: "getParent st c = Some r"
      "\<forall>p. r = Some p \<longrightarrow> rank p < rank c \<and> (\<exists>po. st p = Some po \<and> (parent ob = Some p \<or> kind po = Outside))"
    using getParent_total [OF assms] by blast
  have kid: "r = Some k" "is_container ko" if "c \<in> set (kids st k)" "st k = Some ko" for k ko
  proof -
    have "kind ob = Plain \<or> kind ob = PlainContainer" using kid_kind [OF assms(1) that(1) assms(2)] .
    then have "r = parent ob" using getParent_plain [of st c ob] assms(2) r(1) by auto
    then show "r = Some k" using kid_parent [OF assms(1) that(1) assms(2)] by simp
    show "is_container ko" using kid_holder [OF that(1)] that(2) by (auto simp: holds_def is_container_def)
  qed
  show ?thesis
  proof (cases r)
    case None
    have "\<forall>k. c \<notin> set (kids st k)" using kid(1) None kid_holder by fastforce
    with None r(1) show ?thesis by (simp add: getParentContainer_def)
  next
    case (Some p)
    with r(2) obtain po where po: "rank p < rank c" "st p = Some po" "parent ob = Some p \<or> kind po = Outside" by blast
    show ?thesis
    proof (cases "is_container po")
      case True
      then have "kind po \<noteq> Outside" by (simp add: is_container_def)
      with True po Some r(1) show ?thesis by (auto simp: getParentContainer_def)
    next
      case False
      then have "\<forall>k. c \<notin> set (kids st k)" using kid Some po(2) kid_holder by (metis option.inject)
      with False Some r(1) po(2) show ?thesis by (simp add: getParentContainer_def)
    qed
  qed
qed

section \<open>A change of weight\<close>

lemma sum_upd:
  fixes f :: "addr \<Rightarrow> u32"
  assumes "distinct xs"
  shows "sum_list (map (f(x := f x + d)) xs) = sum_list (map f xs) + (if x \<in> set xs then d else 0)"
  using assms by (induction xs) (auto simp: algebra_simps)

lemma holds_weight [simp]:
  "holds (ob\<lparr>totalWeight := w\<rparr>) = holds ob" "is_container (ob\<lparr>totalWeight := w\<rparr>) = is_container ob"
  "is_item (ob\<lparr>totalWeight := w\<rparr>) = is_item ob"
  "fits (ob\<lparr>totalWeight := w\<rparr>) po = fits ob po" "fits xo (ob\<lparr>totalWeight := w\<rparr>) = fits xo ob"
  by (simp_all add: holds_def is_container_def is_item_def fits_def split: kind.split)

lemma kids_set_weight [simp]:
  "st c = Some ob \<Longrightarrow> kids (st(c \<mapsto> ob\<lparr>totalWeight := w\<rparr>)) = kids st"
  by (auto simp: kids_def fun_eq_iff)

lemma shape_set_weight:
  assumes "shape E rank st" and "st c = Some ob"
  shows "shape E rank (st(c \<mapsto> ob\<lparr>totalWeight := w\<rparr>))"
proof -
  let ?st = "st(c \<mapsto> ob\<lparr>totalWeight := w\<rparr>)"
  have look: "\<exists>ob'. st a = Some ob' \<and> parent ob' = parent o1 \<and> fits ob' = fits o1 \<and> is_item ob' = is_item o1 \<and> holds ob' = holds o1"
    if "?st a = Some o1" for a o1
    using that assms(2) by (auto simp: fun_eq_iff split: if_splits)
  have forth: "\<exists>o1. ?st a = Some o1 \<and> parent o1 = parent ob' \<and> (\<forall>x. fits x o1 = fits x ob') \<and> is_item o1 = is_item ob' \<and>
      holds o1 = holds ob' \<and> itemlist o1 = itemlist ob'"
    if "st a = Some ob'" for a ob'
    using that assms(2) by (auto split: if_splits)
  have "finite (dom ?st)" using assms(1) by (simp add: shape_def)
  moreover have "distinct (kids ?st a) \<and> (\<forall>p. parent o1 = Some p \<longrightarrow> rank p < rank a \<and>
      (\<exists>po. ?st p = Some po \<and> fits o1 po \<and> (holds po \<longrightarrow> a \<notin> E \<longrightarrow> a \<in> set (itemlist po))))"
    if "?st a = Some o1" for a o1
  proof -
    from look [OF that] obtain ob' where o': "st a = Some ob'" "parent ob' = parent o1" "fits ob' = fits o1" by blast
    show ?thesis
    proof (intro conjI allI impI)
      show "distinct (kids ?st a)" using shapeD(1) [OF assms(1) o'(1)] assms(2) by simp
      fix p assume p: "parent o1 = Some p"
      then show "rank p < rank a" using shapeD(2) [OF assms(1) o'(1)] o'(2) by simp
      from p obtain po where "st p = Some po" "fits ob' po" "holds po \<longrightarrow> a \<notin> E \<longrightarrow> a \<in> set (itemlist po)"
        using shapeD(3) [OF assms(1) o'(1)] o'(2) by auto
      then show "\<exists>po. ?st p = Some po \<and> fits o1 po \<and> (holds po \<longrightarrow> a \<notin> E \<longrightarrow> a \<in> set (itemlist po))"
        using forth [of p po] o'(3) by metis
    qed
  qed
  moreover have "\<exists>o1. ?st x = Some o1 \<and> is_item o1 \<and> parent o1 = Some k" if "x \<in> set (kids ?st k)" for x k
  proof -
    have "x \<in> set (kids st k)" using that assms(2) by simp
    from shape_kid [OF assms(1) this] show ?thesis using forth by metis
  qed
  ultimately show ?thesis unfolding shape_def by blast
qed

lemma load_set_weight:
  assumes "shape E rank st" and "st c = Some ob" and "is_container ob"
  shows "load its (st(c \<mapsto> ob\<lparr>totalWeight := totalWeight ob + d\<rparr>)) k =
    load its st k + (if c \<in> set (kids st k) then d else 0)"
proof -
  let ?st = "st(c \<mapsto> ob\<lparr>totalWeight := totalWeight ob + d\<rparr>)"
  have "wt its ?st = (wt its st)(c := wt its st c + d)"
    using assms(2,3) by (auto simp: wt_def getThingWeight_def fun_eq_iff is_container_def)
  moreover have "distinct (kids st k)" using shapeD(1) [OF assms(1), of k] by (cases "st k") (auto simp: kids_def)
  ultimately show ?thesis using assms(2) by (simp add: load_def sum_upd)
qed

definition same_but_weight :: "store \<Rightarrow> store \<Rightarrow> bool" where
  "same_but_weight st st' = (\<forall>a. map_option (\<lambda>ob. ob\<lparr>totalWeight := 0\<rparr>) (st' a) = map_option (\<lambda>ob. ob\<lparr>totalWeight := 0\<rparr>) (st a))"

lemma same_but_weightD:
  assumes "same_but_weight st st'" and "st a = Some ob"
  shows "\<exists>w. st' a = Some (ob\<lparr>totalWeight := w\<rparr>)"
proof -
  have "map_option (\<lambda>ob. ob\<lparr>totalWeight := 0\<rparr>) (st' a) = Some (ob\<lparr>totalWeight := 0\<rparr>)"
    using assms by (simp add: same_but_weight_def)
  then obtain o1 where o1: "st' a = Some o1" "o1\<lparr>totalWeight := 0\<rparr> = ob\<lparr>totalWeight := 0\<rparr>" by auto
  have "o1 = ob\<lparr>totalWeight := totalWeight o1\<rparr>"
    using o1(2) by (cases o1; cases ob) simp
  then have "Some o1 = Some (ob\<lparr>totalWeight := totalWeight o1\<rparr>)" by (rule arg_cong)
  with o1(1) have "st' a = Some (ob\<lparr>totalWeight := totalWeight o1\<rparr>)" by (rule trans)
  then show ?thesis by blast
qed

lemma same_but_weight_None: "same_but_weight st st' \<Longrightarrow> st a = None \<Longrightarrow> st' a = None"
  by (metis same_but_weight_def option.map_disc_iff)

lemma same_but_weight_kids: "same_but_weight st st' \<Longrightarrow> kids st' = kids st"
proof (rule ext)
  fix k assume s: "same_but_weight st st'"
  show "kids st' k = kids st k"
  proof (cases "st k")
    case None
    with same_but_weight_None [OF s] show ?thesis by (simp add: kids_def)
  next
    case (Some ob)
    with same_but_weightD [OF s] show ?thesis by (fastforce simp: kids_def)
  qed
qed

lemma same_but_weight_refl [simp]: "same_but_weight st st"
  by (simp add: same_but_weight_def)

lemma same_but_weight_trans: "same_but_weight st st1 \<Longrightarrow> same_but_weight st1 st2 \<Longrightarrow> same_but_weight st st2"
  by (simp add: same_but_weight_def)

lemma same_but_weight_set: "st c = Some ob \<Longrightarrow> same_but_weight st (st(c \<mapsto> ob\<lparr>totalWeight := w\<rparr>))"
  by (simp add: same_but_weight_def)

lemma updateItemWeight_ok:
  assumes "shape E rank st" and "st c = Some ob" and "is_container ob"
    and "weights_off its f st" and "\<forall>e \<in> E. rank c < rank e"
  shows "\<exists>st'. updateItemWeight st d c = Some st' \<and> shape E rank st' \<and>
    weights_off its (f(c := f c - d)) st' \<and> same_but_weight st st' \<and> (\<forall>a. rank c < rank a \<longrightarrow> st' a = st a)"
  using assms
proof (induction "rank c" arbitrary: c ob st f rule: less_induct)
  case less
  let ?st1 = "st(c \<mapsto> ob\<lparr>totalWeight := totalWeight ob + d\<rparr>)"
  let ?f = "f(c := f c - d)"
  have sh1: "shape E rank ?st1" by (rule shape_set_weight [OF less.prems(1,2)])
  have sw: "same_but_weight st ?st1" using less.prems(2) by (rule same_but_weight_set)
  have off: "totalWeight o1 + (?f k + (if c \<in> set (kids st k) then d else 0)) = load its ?st1 k"
    if o1: "?st1 k = Some o1" "holds o1" for k o1
  proof -
    obtain o2 where o2: "st k = Some o2" "holds o2" "totalWeight o1 + ?f k = totalWeight o2 + f k"
      using o1 less.prems(2) by (cases "k = c") auto
    then have "totalWeight o2 + f k = load its st k" using less.prems(4) by (auto simp: weights_off_def)
    with o2(3) load_set_weight [OF less.prems(1-3), of its d k] show ?thesis by (simp add: algebra_simps)
  qed
  have upd: "upd c (\<lambda>ob. ob\<lparr>totalWeight := totalWeight ob + d\<rparr>) st = Some ?st1"
    using less.prems(2) by (simp add: upd_def)
  obtain r where r: "getParentContainer ?st1 c = Some r"
      "\<forall>p. r = Some p \<longrightarrow> rank p < rank c \<and> parent ob = Some p \<and> (\<exists>po. ?st1 p = Some po \<and> is_container po)"
      "r = None \<longrightarrow> (\<forall>k. c \<notin> set (kids ?st1 k))"
    using getParentContainer_total [OF sh1, of c] by auto
  show ?case
  proof (cases r)
    case None
    have "weights_off its ?f ?st1"
      using off r(3) None less.prems(2) unfolding weights_off_def by fastforce
    moreover have "updateItemWeight st d c = Some ?st1"
      using upd r(1) None by (subst updateItemWeight.simps) simp
    ultimately show ?thesis using sh1 sw by auto
  next
    case (Some p)
    with r(2) obtain po where p: "rank p < rank c" "parent ob = Some p" "?st1 p = Some po" "is_container po" by blast
    have only: "k = p" if "c \<in> set (kids st k)" for k
      using kid_parent [OF less.prems(1) that less.prems(2)] p(2) by simp
    have "c \<in> set (kids st p)" if "holds po"
    proof -
      have "p \<noteq> c" using p(1) by auto
      then have "st p = Some po" using p(3) by simp
      moreover have "c \<notin> E" using less.prems(5) by auto
      ultimately show ?thesis using shapeD(3) [OF less.prems(1,2) p(2)] that by (auto simp: kids_Some)
    qed
    note member = this
    have "weights_off its (?f(p := ?f p + d)) ?st1"
      unfolding weights_off_def
    proof (intro allI impI)
      fix k o1
      assume o1: "?st1 k = Some o1" "holds o1"
      show "totalWeight o1 + (?f(p := ?f p + d)) k = load its ?st1 k"
      proof (cases "k = p")
        case True
        then have "holds po" using o1 p(3) by simp
        with True off [OF o1] member show ?thesis by (simp add: add.assoc)
      next
        case False
        then have "c \<notin> set (kids st k)" using only by blast
        with off [OF o1] False show ?thesis by simp
      qed
    qed
    moreover have "\<forall>e \<in> E. rank p < rank e" using less.prems(5) p(1) by auto
    ultimately obtain st' where st': "updateItemWeight ?st1 d p = Some st'" "shape E rank st'"
        "weights_off its ((?f(p := ?f p + d))(p := (?f(p := ?f p + d)) p - d)) st'" "same_but_weight ?st1 st'"
        "\<forall>a. rank p < rank a \<longrightarrow> st' a = ?st1 a"
      using less.hyps [OF p(1) sh1 p(3,4)] by blast
    have "(?f(p := ?f p + d))(p := (?f(p := ?f p + d)) p - d) = ?f" by (simp add: fun_eq_iff)
    moreover have "updateItemWeight st d c = Some st'"
      using upd r(1) Some st'(1) by (subst updateItemWeight.simps) simp
    moreover have "\<forall>a. rank c < rank a \<longrightarrow> st' a = st a" using st'(5) p(1) by auto
    ultimately show ?thesis
      using st'(2,3) same_but_weight_trans [OF sw st'(4)] by metis
  qed
qed

end
