(* ===== verification/ContainerOps.thy ===== *)
theory ContainerOps
  imports ContainerStore
begin

text \<open>
  The operations of a container keep the store well-formed: each is a change of the links, the
  list and the parent, around a change of weight that climbs to the outermost container.
\<close>

section \<open>Changing links\<close>

lemma thing_class_simps [simp]:
  "holds (ob\<lparr>parent := p\<rparr>) = holds ob" "holds (ob\<lparr>itemlist := xs\<rparr>) = holds ob" "holds (ob\<lparr>item := i\<rparr>) = holds ob"
  "is_container (ob\<lparr>parent := p\<rparr>) = is_container ob" "is_container (ob\<lparr>itemlist := xs\<rparr>) = is_container ob"
  "is_container (ob\<lparr>item := i\<rparr>) = is_container ob"
  "is_item (ob\<lparr>parent := p\<rparr>) = is_item ob" "is_item (ob\<lparr>itemlist := xs\<rparr>) = is_item ob" "is_item (ob\<lparr>item := i\<rparr>) = is_item ob"
  "fits (ob\<lparr>parent := p\<rparr>) = fits ob" "fits (ob\<lparr>itemlist := xs\<rparr>) = fits ob" "fits (ob\<lparr>item := i\<rparr>) = fits ob"
  "fits xo (ob\<lparr>parent := p\<rparr>) = fits xo ob" "fits xo (ob\<lparr>itemlist := xs\<rparr>) = fits xo ob" "fits xo (ob\<lparr>item := i\<rparr>) = fits xo ob"
  "getThingWeight its (ob\<lparr>parent := p\<rparr>) = getThingWeight its ob"
  "getThingWeight its (ob\<lparr>itemlist := xs\<rparr>) = getThingWeight its ob"
  by (simp_all add: holds_def is_container_def is_item_def fits_def fun_eq_iff getThingWeight_def split: kind.split)

lemma holds_container: "holds ob \<Longrightarrow> is_container ob \<and> is_item ob"
  by (auto simp: holds_def is_container_def is_item_def)

text \<open>One step up, and everything in or under a thing.\<close>

definition up :: "store \<Rightarrow> (addr \<times> addr) set" where
  "up st = {(a, p). \<exists>ob. st a = Some ob \<and> parent ob = Some p}"

definition under :: "store \<Rightarrow> addr \<Rightarrow> addr set" where
  "under st x = {a. (a, x) \<in> (up st)\<^sup>*}"

lemma under_self [simp]: "x \<in> under st x"
  by (simp add: under_def)

lemma under_up: "st a = Some ob \<Longrightarrow> parent ob = Some p \<Longrightarrow> p \<in> under st x \<Longrightarrow> a \<in> under st x"
  by (auto simp: under_def up_def intro: converse_rtrancl_into_rtrancl)

lemma under_cases: "a \<in> under st x \<Longrightarrow> a = x \<or> (\<exists>ob p. st a = Some ob \<and> parent ob = Some p \<and> p \<in> under st x)"
  unfolding under_def by (auto simp: up_def elim: converse_rtranclE)

lemma under_rank: "shape E rank st \<Longrightarrow> a \<in> under st x \<Longrightarrow> a = x \<or> rank x < rank a"
proof -
  assume sh: "shape E rank st" and "a \<in> under st x"
  then have "(a, x) \<in> (up st)\<^sup>*" by (simp add: under_def)
  then show ?thesis
  proof (induction rule: converse_rtrancl_induct)
    case (step a b)
    then have "rank b < rank a" using shapeD(2) [OF sh] by (auto simp: up_def)
    with step.IH show ?case by auto
  qed simp
qed

text \<open>\<open>detached x\<close>: no container lists x.\<close>

definition detached :: "store \<Rightarrow> addr \<Rightarrow> bool" where
  "detached st x = (\<forall>k. x \<notin> set (kids st k))"

abbreviation link :: "addr \<Rightarrow> thing \<Rightarrow> addr \<Rightarrow> thing \<Rightarrow> addr list \<Rightarrow> store \<Rightarrow> store" where
  "link x ox c oc il st \<equiv> st(x \<mapsto> ox\<lparr>parent := Some c\<rparr>, c \<mapsto> oc\<lparr>itemlist := il\<rparr>)"

lemma kids_link:
  assumes "st x = Some ox" and "st c = Some oc" and "x \<noteq> c"
  shows "kids (link x ox c oc il st) = (kids st)(c := if holds oc then il else [])"
  using assms by (auto simp: kids_def fun_eq_iff)

lemma wt_link:
  assumes "st x = Some ox" and "st c = Some oc" and "x \<noteq> c"
  shows "wt its (link x ox c oc il st) = wt its st"
  using assms by (auto simp: wt_def fun_eq_iff)

lemma shape_link:
  assumes sh: "shape {} rank st" and x: "st x = Some ox" and c: "st c = Some oc"
    and "is_item ox" and "fits ox oc" and "detached st x" and "c \<notin> under st x"
    and il: "holds oc \<Longrightarrow> distinct il \<and> x \<in> set il \<and> set il \<subseteq> insert x (set (itemlist oc))"
  shows "\<exists>rank'. shape (if holds oc then set (itemlist oc) - set il else {}) rank' (link x ox c oc il st)"
proof -
  have xc: "x \<noteq> c" using assms(7) by auto
  let ?st = "link x ox c oc il st"
  let ?E = "if holds oc then set (itemlist oc) - set il else {}"
  define r where "r a = rank a + (if a \<in> under st x then Suc (rank c) else 0)" for a
  have kids: "kids ?st = (kids st)(c := if holds oc then il else [])" by (rule kids_link [OF x c xc])
  have "finite (dom ?st)" using sh by (simp add: shape_def)
  moreover have "distinct (kids ?st a) \<and> (\<forall>p. parent ob = Some p \<longrightarrow> r p < r a \<and>
      (\<exists>po. ?st p = Some po \<and> fits ob po \<and> (holds po \<longrightarrow> a \<notin> ?E \<longrightarrow> a \<in> set (itemlist po))))"
    if a: "?st a = Some ob" for a ob
  proof (intro conjI allI impI)
    show "distinct (kids ?st a)"
      using shapeD(1) [OF sh, of a] il unfolding kids by (cases "st a") (auto simp: kids_def)
    fix p assume p: "parent ob = Some p"
    show "r p < r a"
    proof (cases "a = x")
      case True
      then have "p = c" using a p xc by auto
      with True assms(7) show ?thesis by (simp add: r_def)
    next
      case False
      then obtain o1 where o1: "st a = Some o1" "parent o1 = Some p" using a p c by (auto split: if_splits)
      then have "rank p < rank a" using shapeD(2) [OF sh] by blast
      moreover have "p \<in> under st x \<Longrightarrow> a \<in> under st x" using under_up [of st a o1 p] o1 by blast
      ultimately show ?thesis by (auto simp: r_def)
    qed
    show "\<exists>po. ?st p = Some po \<and> fits ob po \<and> (holds po \<longrightarrow> a \<notin> ?E \<longrightarrow> a \<in> set (itemlist po))"
    proof (cases "a = x")
      case True
      then have "p = c" "fits ob oc" using a p xc assms(5) by auto
      with True il show ?thesis by simp
    next
      case False
      then obtain o1 where o1: "st a = Some o1" "parent o1 = Some p" "fits ob = fits o1" using a p c by (auto split: if_splits)
      then obtain po where po: "st p = Some po" "fits o1 po" "holds po \<longrightarrow> a \<in> set (itemlist po)"
        using shapeD(3) [OF sh o1(1,2)] by auto
      consider "p = c" | "p = x" | "p \<noteq> c" "p \<noteq> x" by blast
      then show ?thesis
        using po o1(3) c x xc by cases auto
    qed
  qed
  moreover have "\<exists>ob. ?st y = Some ob \<and> is_item ob \<and> parent ob = Some k" if y: "y \<in> set (kids ?st k)" for y k
  proof (cases "y = x")
    case True
    with y assms(6) have "k = c" unfolding kids by (auto simp: detached_def split: if_splits)
    with True xc assms(4) show ?thesis by simp
  next
    case False
    have "y \<in> set (kids st k)"
      using y False il c unfolding kids by (auto simp: kids_Some split: if_splits)
    from shape_kid [OF sh this] obtain ob where "st y = Some ob" "is_item ob" "parent ob = Some k" by blast
    with False c show ?thesis by (cases "y = c") auto
  qed
  ultimately have "shape ?E r ?st" unfolding shape_def by blast
  then show ?thesis by blast
qed

lemma shape_exc_rank: "shape E rank st \<Longrightarrow> st e = Some ob \<Longrightarrow> parent ob = Some c \<Longrightarrow> rank c < rank e"
  by (rule shapeD(2))

lemma shape_item:
  assumes "shape E rank st" and "st x = Some ox"
  shows "shape E rank (st(x \<mapsto> ox\<lparr>item := i\<rparr>))"
proof -
  let ?st = "st(x \<mapsto> ox\<lparr>item := i\<rparr>)"
  have kids: "kids ?st = kids st" using assms(2) by (auto simp: kids_def fun_eq_iff)
  have down: "\<exists>o1. st a = Some o1 \<and> parent o1 = parent ob \<and> fits ob = fits o1" if "?st a = Some ob" for a ob
    using that assms(2) by (auto split: if_splits)
  have forth: "\<exists>ob. ?st a = Some ob \<and> parent ob = parent o1 \<and> (\<forall>xo. fits xo ob = fits xo o1) \<and> is_item ob = is_item o1 \<and>
      holds ob = holds o1 \<and> itemlist ob = itemlist o1" if "st a = Some o1" for a o1
    using that assms(2) by (cases "a = x") auto
  have "finite (dom ?st)" using assms(1) by (simp add: shape_def)
  moreover have "distinct (kids ?st a) \<and> (\<forall>p. parent ob = Some p \<longrightarrow> rank p < rank a \<and>
      (\<exists>po. ?st p = Some po \<and> fits ob po \<and> (holds po \<longrightarrow> a \<notin> E \<longrightarrow> a \<in> set (itemlist po))))"
    if a: "?st a = Some ob" for a ob
  proof -
    obtain o1 where o1: "st a = Some o1" "parent o1 = parent ob" "fits ob = fits o1" using down [OF a] by blast
    then show ?thesis unfolding kids using shapeD [OF assms(1) o1(1)] forth by metis
  qed
  moreover have "\<exists>ob. ?st y = Some ob \<and> is_item ob \<and> parent ob = Some k" if "y \<in> set (kids ?st k)" for y k
    using shape_kid [OF assms(1)] that forth unfolding kids by metis
  ultimately show ?thesis unfolding shape_def by blast
qed

text \<open>A thing that no container lists loses its parent.\<close>

lemma shape_orphan:
  assumes sh: "shape E rank st" and "st y = Some oy" and "detached st y" and "E \<subseteq> insert y E'"
  shows "shape E' rank (st(y \<mapsto> oy\<lparr>parent := None\<rparr>))"
proof -
  let ?st = "st(y \<mapsto> oy\<lparr>parent := None\<rparr>)"
  have kids: "kids ?st = kids st" using assms(2) by (auto simp: kids_def fun_eq_iff)
  have forth: "\<exists>ob. ?st a = Some ob \<and> (\<forall>xo. fits xo ob = fits xo o1) \<and> holds ob = holds o1 \<and> itemlist ob = itemlist o1"
    if "st a = Some o1" for a o1
    using that assms(2) by (cases "a = y") auto
  have "finite (dom ?st)" using sh by (simp add: shape_def)
  moreover have "distinct (kids ?st a) \<and> (\<forall>p. parent ob = Some p \<longrightarrow> rank p < rank a \<and>
      (\<exists>po. ?st p = Some po \<and> fits ob po \<and> (holds po \<longrightarrow> a \<notin> E' \<longrightarrow> a \<in> set (itemlist po))))"
    if a: "?st a = Some ob" for a ob
  proof (cases "a = y")
    case True
    with a show ?thesis unfolding kids using shapeD(1) [OF sh assms(2)] by auto
  next
    case False
    then have o: "st a = Some ob" using a by simp
    show ?thesis unfolding kids
    proof (intro conjI allI impI)
      show "distinct (kids st a)" by (rule shapeD(1) [OF sh o])
      fix p assume p: "parent ob = Some p"
      show "rank p < rank a" by (rule shapeD(2) [OF sh o p])
      from shapeD(3) [OF sh o p] forth assms(4) False
      show "\<exists>po. ?st p = Some po \<and> fits ob po \<and> (holds po \<longrightarrow> a \<notin> E' \<longrightarrow> a \<in> set (itemlist po))"
        by (metis insertE subsetD)
    qed
  qed
  moreover have "\<exists>ob. ?st z = Some ob \<and> is_item ob \<and> parent ob = Some k" if "z \<in> set (kids ?st k)" for z k
  proof -
    have "z \<noteq> y" using that assms(3) unfolding kids by (auto simp: detached_def)
    then show ?thesis using shape_kid [OF sh] that unfolding kids by simp
  qed
  ultimately show ?thesis unfolding shape_def by blast
qed

text \<open>A container forgets some of what it lists.\<close>

lemma shape_forget:
  assumes sh: "shape E rank st" and c: "st c = Some oc" and "distinct il" and "set il \<subseteq> set (itemlist oc)"
  shows "shape (E \<union> (set (itemlist oc) - set il)) rank (st(c \<mapsto> oc\<lparr>itemlist := il\<rparr>))"
proof -
  let ?st = "st(c \<mapsto> oc\<lparr>itemlist := il\<rparr>)" and ?E = "E \<union> (set (itemlist oc) - set il)"
  have kids: "kids ?st = (kids st)(c := if holds oc then il else [])" using c by (auto simp: kids_def fun_eq_iff)
  have down: "\<exists>o1. st a = Some o1 \<and> parent o1 = parent ob \<and> fits ob = fits o1" if "?st a = Some ob" for a ob
    using that c by (auto split: if_splits)
  have "finite (dom ?st)" using sh by (simp add: shape_def)
  moreover have "distinct (kids ?st a) \<and> (\<forall>p. parent ob = Some p \<longrightarrow> rank p < rank a \<and>
      (\<exists>po. ?st p = Some po \<and> fits ob po \<and> (holds po \<longrightarrow> a \<notin> ?E \<longrightarrow> a \<in> set (itemlist po))))"
    if a: "?st a = Some ob" for a ob
  proof -
    obtain o1 where o1: "st a = Some o1" "parent o1 = parent ob" "fits ob = fits o1" using down [OF a] by blast
    show ?thesis
    proof (intro conjI allI impI)
      show "distinct (kids ?st a)" using shapeD(1) [OF sh o1(1)] assms(3) unfolding kids by simp
      fix p assume p: "parent ob = Some p"
      then show "rank p < rank a" using shapeD(2) [OF sh o1(1)] o1(2) by simp
      from p obtain po where "st p = Some po" "fits o1 po" "holds po \<longrightarrow> a \<notin> E \<longrightarrow> a \<in> set (itemlist po)"
        using shapeD(3) [OF sh o1(1)] o1(2) by auto
      then show "\<exists>po. ?st p = Some po \<and> fits ob po \<and> (holds po \<longrightarrow> a \<notin> ?E \<longrightarrow> a \<in> set (itemlist po))"
        using c o1(3) by (cases "p = c") auto
    qed
  qed
  moreover have "\<exists>ob. ?st y = Some ob \<and> is_item ob \<and> parent ob = Some k" if y: "y \<in> set (kids ?st k)" for y k
  proof -
    have "y \<in> set (kids st k)" using y assms(4) c unfolding kids by (auto simp: kids_Some split: if_splits)
    from shape_kid [OF sh this] show ?thesis using c by (cases "y = c") auto
  qed
  ultimately show ?thesis unfolding shape_def by blast
qed

section \<open>Weights after a change of links\<close>

lemma load_link:
  assumes "st x = Some ox" and "st c = Some oc" and "x \<noteq> c"
  shows "load its (link x ox c oc il st) k = (if k = c then (if holds oc then sum_list (map (wt its st) il) else 0) else load its st k)"
  using assms by (simp add: load_def kids_link wt_link)

lemma weights_off_link:
  assumes "weights_off its (\<lambda>_. 0) st" and "st x = Some ox" and "st c = Some oc" and "x \<noteq> c"
    and "holds oc \<Longrightarrow> sum_list (map (wt its st) il) = load its st c + d"
  shows "weights_off its (\<lambda>k. if k = c then d else 0) (link x ox c oc il st)"
  unfolding weights_off_def
proof (intro allI impI)
  fix k ob
  assume k: "(link x ox c oc il st) k = Some ob" "holds ob"
  then obtain o1 where o1: "st k = Some o1" "holds o1" "totalWeight o1 = totalWeight ob"
    using assms(2,3) by (auto split: if_splits)
  then have "totalWeight ob = load its st k" using assms(1) by (auto simp: weights_off_def)
  with o1 assms show "totalWeight ob + (if k = c then d else 0) = load its (link x ox c oc il st) k"
    unfolding load_link [OF assms(2-4)] by auto
qed

lemma off_cancel: "(\<lambda>k. if k = c then d else 0)(c := (if c = c then d else 0) - d) = (\<lambda>_. 0 :: u32)"
  by (simp add: fun_eq_iff)

lemma updateItemWeight_settles:
  assumes "shape E rank st" and "st c = Some ob" and "is_container ob" and "\<forall>e \<in> E. rank c < rank e"
    and "weights_off its (\<lambda>k. if k = c then d else 0) st"
  shows "\<exists>st'. updateItemWeight st d c = Some st' \<and> shape E rank st' \<and> weights_off its (\<lambda>_. 0) st' \<and> same_but_weight st st'"
  using updateItemWeight_ok [OF assms(1-3,5,4), of d] unfolding off_cancel by blast

text \<open>\<open>x may go into c\<close>: what the caller of an addition has to make sure of.\<close>

definition may_enter :: "store \<Rightarrow> addr \<Rightarrow> addr \<Rightarrow> bool" where
  "may_enter st c x =
     (\<exists>oc ox. st c = Some oc \<and> st x = Some ox \<and> is_container oc \<and> is_item ox \<and> fits ox oc \<and>
        detached st x \<and> c \<notin> under st x)"

text \<open>Linking x into c and settling the weights, for any new list of c that has x added once.\<close>

lemma enter_ok:
  assumes "store_ok its st" and "st c = Some oc" and "st x = Some ox" and "may_enter st c x"
    and il: "il = x # itemlist oc \<or> il = itemlist oc @ [x]"
  shows "\<exists>st'. updateItemWeight (link x ox c oc il st) (getThingWeight its ox) c = Some st' \<and> store_ok its st' \<and>
    same_but_weight (link x ox c oc il st) st'"
proof -
  obtain rank where sh: "shape {} rank st" and w: "weights_off its (\<lambda>_. 0) st" using assms(1) by (auto simp: store_ok_def)
  have m: "is_container oc" "is_item ox" "fits ox oc" "detached st x" "c \<notin> under st x"
    using assms(2-4) by (auto simp: may_enter_def)
  have xc: "x \<noteq> c" using m(5) by auto
  have "distinct il \<and> x \<in> set il \<and> set il \<subseteq> insert x (set (itemlist oc))" if "holds oc"
    using il m(4) shapeD(1) [OF sh assms(2)] that assms(2) by (auto simp: detached_def kids_Some dest: spec [of _ c])
  then obtain rank' where sh': "shape (if holds oc then set (itemlist oc) - set il else {}) rank' (link x ox c oc il st)"
    using shape_link [OF sh assms(3,2) m(2-5)] by blast
  have "(if holds oc then set (itemlist oc) - set il else {}) = {}" using il by auto
  with sh' have sh'': "shape {} rank' (link x ox c oc il st)" by simp
  have "wt its st x = getThingWeight its ox" using assms(3) by (simp add: wt_def)
  then have "sum_list (map (wt its st) il) = load its st c + getThingWeight its ox" if "holds oc"
    using il that assms(2) by (auto simp: load_def kids_Some)
  then have "weights_off its (\<lambda>k. if k = c then getThingWeight its ox else 0) (link x ox c oc il st)"
    using weights_off_link [OF w assms(3,2) xc] by blast
  from updateItemWeight_settles [OF sh'' _ _ _ this] m(1) show ?thesis
    by (auto simp: store_ok_def)
qed

lemma put_front_ok:
  assumes "store_ok its st" and "may_enter st c x"
  shows "\<exists>st'. put_front its c x st = Some st' \<and> store_ok its st' \<and>
    (\<exists>oc ox. st c = Some oc \<and> st x = Some ox \<and> same_but_weight (link x ox c oc (x # itemlist oc) st) st')"
proof -
  obtain oc ox where o: "st c = Some oc" "st x = Some ox" "c \<notin> under st x" using assms(2) by (auto simp: may_enter_def)
  then have "x \<noteq> c" by auto
  then have "put_front its c x st = updateItemWeight (link x ox c oc (x # itemlist oc) st) (getThingWeight its ox) c"
    using o by (simp add: put_front_def setParent_def push_front_def upd_def add_weight_of_def weight_at_def)
  with enter_ok [OF assms(1) o(1,2) assms(2), of "x # itemlist oc"] o show ?thesis by auto
qed

lemma addItem_ok:
  assumes "store_ok its st" and "may_enter st c x"
  shows "\<exists>st'. Option.bind (addItem c x st) (add_weight_of its c x) = Some st' \<and> store_ok its st' \<and>
    (\<exists>oc ox. st c = Some oc \<and> st x = Some ox \<and> same_but_weight (link x ox c oc (itemlist oc @ [x]) st) st')"
proof -
  obtain oc ox where o: "st c = Some oc" "st x = Some ox" "c \<notin> under st x" using assms(2) by (auto simp: may_enter_def)
  then have "x \<noteq> c" by auto
  then have "Option.bind (addItem c x st) (add_weight_of its c x) =
      updateItemWeight (link x ox c oc (itemlist oc @ [x]) st) (getThingWeight its ox) c"
    using o by (simp add: addItem_def setParent_def push_back_def upd_def add_weight_of_def weight_at_def fun_upd_twist)
  with enter_ok [OF assms(1) o(1,2) assms(2), of "itemlist oc @ [x]"] o show ?thesis by auto
qed

lemma notify_ok:
  assumes "shape E rank (things w)" and "things w c = Some oc"
  shows "\<exists>w'. notify b e c w = Some w' \<and> things w' = things w"
  using getParent_total [OF assms] by (auto simp: notify_def split: option.split)

lemma notify_store_ok:
  assumes "store_ok its st" and "st c = Some oc"
  shows "\<exists>w'. notify b e c (w\<lparr>things := st\<rparr>) = Some w' \<and> things w' = st"
proof -
  obtain rank where "shape {} rank st" using assms(1) by (auto simp: store_ok_def)
  then show ?thesis using notify_ok [of "{}" rank "w\<lparr>things := st\<rparr>" c oc b e] assms(2) by simp
qed

lemma store_ok_member: "same_but_weight st st' \<Longrightarrow> st a = Some ob \<Longrightarrow> \<exists>ob'. st' a = Some ob'"
  using same_but_weightD by blast

lemma addThing_ok:
  assumes "store_ok its (things w)" and "may_enter (things w) c x"
  shows "\<exists>w'. addThing its c index x w = Some w' \<and> store_ok its (things w')"
proof -
  obtain oc ox where o: "things w c = Some oc" "things w x = Some ox" "is_item ox"
    using assms(2) by (auto simp: may_enter_def)
  obtain st' where st': "put_front its c x (things w) = Some st'" "store_ok its st'"
      "same_but_weight (link x ox c oc (x # itemlist oc) (things w)) st'"
    using put_front_ok [OF assms] o by auto
  obtain oc' where "st' c = Some oc'" using store_ok_member [OF st'(3), of c] by auto
  then obtain w' where "notify False (AddContainerItem c x) c (w\<lparr>things := st'\<rparr>) = Some w'" "things w' = st'"
    using notify_store_ok [OF st'(2)] by blast
  with o st' assms(1) show ?thesis by (simp add: addThing_def on_things_def)
qed

lemma addItemBack_ok:
  assumes "store_ok its (things w)" and "may_enter (things w) c x"
  shows "\<exists>w'. addItemBack its c x w = Some w' \<and> store_ok its (things w')"
proof -
  obtain st' where st': "Option.bind (addItem c x (things w)) (add_weight_of its c x) = Some st'" "store_ok its st'"
    and e: "\<exists>oc ox. things w c = Some oc \<and> same_but_weight (link x ox c oc (itemlist oc @ [x]) (things w)) st'"
    using addItem_ok [OF assms] by blast
  obtain oc' where "st' c = Some oc'" using e store_ok_member by fastforce
  then obtain w' where "notify False (AddContainerItem c x) c (w\<lparr>things := st'\<rparr>) = Some w'" "things w' = st'"
    using notify_store_ok [OF st'(2)] by blast
  with st' show ?thesis by (auto simp: addItemBack_def on_things_def split: Option.bind_splits)
qed

lemma internalAddThing_ok:
  assumes "store_ok its (things w)" and "may_enter (things w) c x"
  shows "\<exists>w'. internalAddThing its c x w = Some w' \<and> store_ok its (things w')"
  using put_front_ok [OF assms] assms(2) by (auto simp: internalAddThing_def on_things_def may_enter_def)

section \<open>Changing and removing what is inside\<close>

lemma index_of_found: "index_of x i ys \<noteq> -1 \<Longrightarrow> 0 \<le> i \<Longrightarrow> i \<le> index_of x i ys \<and>
    index_of x i ys < i + int (length ys) \<and> ys ! nat (index_of x i ys - i) = x"
proof (induction ys arbitrary: i)
  case (Cons y ys)
  show ?case
  proof (cases "y = x")
    case False
    with Cons.prems have "index_of x (i + 1) ys \<noteq> -1" "0 \<le> i + 1" by auto
    note IH = Cons.IH [OF this]
    then have "nat (index_of x (i + 1) ys - i) = Suc (nat (index_of x (i + 1) ys - (i + 1)))" by linarith
    with IH False show ?thesis by simp
  qed (use Cons.prems in auto)
qed simp

lemma index_of_missing: "index_of x i ys = -1 \<Longrightarrow> 0 \<le> i \<Longrightarrow> x \<notin> set ys"
proof (induction ys arbitrary: i)
  case (Cons y ys)
  then show ?case by (auto split: if_splits)
qed simp

lemma getThingIndex_cases:
  assumes "getThingIndex st c x = Some i" and "st c = Some oc"
  shows "i = -1 \<and> x \<notin> set (itemlist oc) \<or>
    (0 \<le> i \<and> nat i < length (itemlist oc) \<and> itemlist oc ! nat i = x \<and> x \<in> set (itemlist oc))"
proof -
  have i: "i = index_of x 0 (itemlist oc)" using assms by (simp add: getThingIndex_def)
  show ?thesis
  proof (cases "i = -1")
    case True
    with i index_of_missing [of x 0 "itemlist oc"] show ?thesis by simp
  next
    case False
    with i index_of_found [of x 0 "itemlist oc"] have "0 \<le> i" "nat i < length (itemlist oc)" "itemlist oc ! nat i = x" by auto
    then show ?thesis by (metis nth_mem)
  qed
qed

lemma kid_distinct: "shape E rank st \<Longrightarrow> x \<in> set (kids st c) \<Longrightarrow> x \<noteq> c"
  using kid_rank by fastforce

lemma wt_item:
  assumes "st x = Some ox"
  shows "wt its (st(x \<mapsto> ox\<lparr>item := i\<rparr>)) = (wt its st)(x := getThingWeight its (ox\<lparr>item := i\<rparr>))"
    and "kids (st(x \<mapsto> ox\<lparr>item := i\<rparr>)) = kids st"
  using assms by (auto simp: wt_def kids_def fun_eq_iff)

lemma load_item:
  fixes its :: items and i :: Item and ox :: thing
  assumes sh: "shape E rank st" and x: "st x = Some ox" and "x \<in> set (kids st c)"
  defines "d \<equiv> - getThingWeight its ox + getThingWeight its (ox\<lparr>item := i\<rparr>)"
  shows "load its (st(x \<mapsto> ox\<lparr>item := i\<rparr>)) k = load its st k + (if k = c then d else 0)"
proof -
  have "wt its (st(x \<mapsto> ox\<lparr>item := i\<rparr>)) = (wt its st)(x := wt its st x + d)"
    using x by (simp add: wt_item wt_def d_def fun_eq_iff)
  moreover have "x \<in> set (kids st k) \<longleftrightarrow> k = c"
    using kid_parent [OF sh _ x] assms(3) by (metis option.inject)
  moreover have "distinct (kids st k)" using shapeD(1) [OF sh, of k] by (cases "st k") (auto simp: kids_def)
  ultimately show ?thesis using x by (simp add: load_def wt_item(2) sum_upd)
qed

text \<open>A change of an item, and the change of weight it causes.\<close>

lemma change_item_ok:
  assumes "store_ok its st" and c: "st c = Some oc" "holds oc" and x: "st x = Some ox" "x \<in> set (itemlist oc)"
  shows "\<exists>st'. updateItemWeight (st(x \<mapsto> ox\<lparr>item := i\<rparr>)) (- getThingWeight its ox + getThingWeight its (ox\<lparr>item := i\<rparr>)) c = Some st' \<and>
    store_ok its st' \<and> same_but_weight (st(x \<mapsto> ox\<lparr>item := i\<rparr>)) st'"
proof -
  let ?st = "st(x \<mapsto> ox\<lparr>item := i\<rparr>)" and ?d = "- getThingWeight its ox + getThingWeight its (ox\<lparr>item := i\<rparr>)"
  obtain rank where sh: "shape {} rank st" and w: "weights_off its (\<lambda>_. 0) st" using assms(1) by (auto simp: store_ok_def)
  have kid: "x \<in> set (kids st c)" using c x by (simp add: kids_Some)
  have xc: "x \<noteq> c" by (rule kid_distinct [OF sh kid])
  have "weights_off its (\<lambda>k. if k = c then ?d else 0) ?st"
    unfolding weights_off_def
  proof (intro allI impI)
    fix k ob assume k: "?st k = Some ob" "holds ob"
    then obtain o1 where "st k = Some o1" "holds o1" "totalWeight o1 = totalWeight ob" using x(1) by (auto split: if_splits)
    then have "totalWeight ob = load its st k" using w by (auto simp: weights_off_def)
    then show "totalWeight ob + (if k = c then ?d else 0) = load its ?st k"
      unfolding load_item [OF sh x(1) kid] by simp
  qed
  from updateItemWeight_settles [OF shape_item [OF sh x(1)] _ _ _ this, of oc] c xc holds_container [OF c(2)]
  show ?thesis by (auto simp: store_ok_def)
qed

lemma updateThing_ok:
  assumes "store_ok its (things w)" and c: "things w c = Some oc" "holds oc"
    and attrs: "\<And>ox. things w x = Some ox \<Longrightarrow> setID its itemId (item ox) \<noteq> None"
  shows "\<exists>w'. updateThing its c x itemId count w = Some w' \<and> store_ok its (things w')"
proof -
  obtain i where i: "getThingIndex (things w) c x = Some i" using c(1) by (simp add: getThingIndex_def)
  show ?thesis
  proof (cases "i = -1")
    case True
    with i assms(1) show ?thesis by (simp add: updateThing_def)
  next
    case False
    then have mem: "x \<in> set (itemlist oc)" using getThingIndex_cases [OF i c(1)] by auto
    obtain rank where sh: "shape {} rank (things w)" using assms(1) by (auto simp: store_ok_def)
    obtain ox where ox: "things w x = Some ox" "is_item ox"
      using shape_kid [OF sh, of x c] mem c by (auto simp: kids_Some)
    obtain i1 where i1: "setID its itemId (item ox) = Some i1" using attrs [OF ox(1)] by auto
    define i2 where "i2 = setSubType its (ucast count) i1"
    obtain st' where st': "updateItemWeight ((things w)(x \<mapsto> ox\<lparr>item := i2\<rparr>))
          (- getThingWeight its ox + getThingWeight its (ox\<lparr>item := i2\<rparr>)) c = Some st'"
        "store_ok its st'" "same_but_weight ((things w)(x \<mapsto> ox\<lparr>item := i2\<rparr>)) st'"
      using change_item_ok [OF assms(1) c ox(1) mem] by blast
    obtain oc' where "st' c = Some oc'" using store_ok_member [OF st'(3), of c] c by fastforce
    from notify_store_ok [OF st'(2) this, of True "UpdateContainerItem c i x x" w] obtain w'
      where "notify True (UpdateContainerItem c i x x) c (w\<lparr>things := st'\<rparr>) = Some w'" "things w' = st'" by blast
    with i False ox i1 st' show ?thesis
      by (simp add: updateThing_def Let_def i2_def [symmetric] on_things_def)
  qed
qed

lemma detach_ok:
  assumes sh: "shape {} rank st" and off: "weights_off its (\<lambda>k. if k = c then getThingWeight its ox else 0) st"
    and c: "st c = Some oc" "holds oc" and x: "st x = Some ox" "itemlist oc = as @ x # bs"
  shows "store_ok its (st(x \<mapsto> ox\<lparr>parent := None\<rparr>, c \<mapsto> oc\<lparr>itemlist := as @ bs\<rparr>))"
proof -
  let ?st1 = "st(c \<mapsto> oc\<lparr>itemlist := as @ bs\<rparr>)"
  let ?st2 = "?st1(x \<mapsto> ox\<lparr>parent := None\<rparr>)"
  have kid: "x \<in> set (kids st c)" using c x by (simp add: kids_Some)
  have xc: "x \<noteq> c" by (rule kid_distinct [OF sh kid])
  have dist: "distinct (as @ x # bs)" using shapeD(1) [OF sh c(1)] c x by (simp add: kids_Some)
  have sh1: "shape ({} \<union> (set (itemlist oc) - set (as @ bs))) rank ?st1"
    by (rule shape_forget [OF sh c(1)]) (use dist x in auto)
  have kids: "kids ?st1 = (kids st)(c := as @ bs)" using c by (auto simp: kids_def fun_eq_iff)
  have only: "k = c" if "x \<in> set (kids st k)" for k
    using kid_parent [OF sh that x(1)] kid_parent [OF sh kid x(1)] by simp
  have "detached ?st1 x"
    using only dist unfolding detached_def kids by (auto split: if_splits)
  then have sh2: "shape {} rank ?st2"
    by (intro shape_orphan [OF sh1]) (use x xc dist in auto)
  have kids2: "kids ?st2 = (kids st)(c := as @ bs)"
    using c x(1) xc by (auto simp: kids_def fun_eq_iff)
  have wt2: "wt its ?st2 = wt its st" using x(1) c(1) xc by (auto simp: wt_def fun_eq_iff)
  have "weights_off its (\<lambda>_. 0) ?st2"
    unfolding weights_off_def
  proof (intro allI impI)
    fix k ob assume k: "?st2 k = Some ob" "holds ob"
    then obtain o1 where o1: "st k = Some o1" "holds o1" "totalWeight o1 = totalWeight ob"
      using x(1) c(1) by (auto split: if_splits)
    then have "totalWeight ob + (if k = c then getThingWeight its ox else 0) = load its st k"
      using off [unfolded weights_off_def, rule_format, OF o1(1,2)] o1(3) by simp
    moreover have "load its st c = load its ?st2 c + getThingWeight its ox"
      using c x by (simp add: load_def kids2 wt2 kids_Some) (simp add: wt_def)
    moreover have "k \<noteq> c \<Longrightarrow> load its ?st2 k = load its st k" by (simp add: load_def kids2 wt2)
    ultimately show "totalWeight ob + 0 = load its ?st2 k" by (cases "k = c") auto
  qed
  with sh2 have "store_ok its ?st2" by (auto simp: store_ok_def)
  then show ?thesis using fun_upd_twist [OF xc, of st] by simp
qed

lemma take_drop_split: "i < length xs \<Longrightarrow> xs = take i xs @ xs ! i # drop (i + 1) xs"
  by (simp add: id_take_nth_drop)

text \<open>What is left of the store when x, which c lists, is removed.\<close>

definition after_removal :: "items \<Rightarrow> addr \<Rightarrow> thing \<Rightarrow> addr \<Rightarrow> thing \<Rightarrow> u32 \<Rightarrow> store \<Rightarrow> store" where
  "after_removal its c oc x ox n st =
     (if stackable (its (item_id (item ox))) \<and> n \<noteq> ucast (item_count (item ox))
      then st(x \<mapsto> ox\<lparr>item := setItemCount (less_count (item_count (item ox)) n) (item ox)\<rparr>)
      else st(x \<mapsto> ox\<lparr>parent := None\<rparr>, c \<mapsto> oc\<lparr>itemlist := remove1 x (itemlist oc)\<rparr>))"

lemma removeThing_ok:
  assumes "store_ok its (things w)" and c: "things w c = Some oc" "holds oc" and "things w x = Some ox"
  shows "\<exists>w'. removeThing its c x count w = Some w' \<and> store_ok its (things w') \<and>
    (is_item ox \<and> x \<in> set (itemlist oc) \<longrightarrow> same_but_weight (after_removal its c oc x ox count (things w)) (things w'))"
proof (cases "is_item ox")
  case False
  with assms show ?thesis by (simp add: removeThing_def)
next
  case item: True
  obtain i where i: "getThingIndex (things w) c x = Some i" using c(1) by (simp add: getThingIndex_def)
  show ?thesis
  proof (cases "i = -1")
    case True
    then have "x \<notin> set (itemlist oc)" using getThingIndex_cases [OF i c(1)] by auto
    with True i item assms show ?thesis by (simp add: removeThing_def)
  next
    case False
    then have mem: "x \<in> set (itemlist oc)" and pos: "0 \<le> i" "nat i < length (itemlist oc)" "itemlist oc ! nat i = x"
      using getThingIndex_cases [OF i c(1)] by auto
    show ?thesis
    proof (cases "stackable (its (item_id (item ox))) \<and> count \<noteq> ucast (item_count (item ox))")
      case True
      define i2 where "i2 = setItemCount (less_count (item_count (item ox)) count) (item ox)"
      obtain st' where st': "updateItemWeight ((things w)(x \<mapsto> ox\<lparr>item := i2\<rparr>))
            (- getThingWeight its ox + getThingWeight its (ox\<lparr>item := i2\<rparr>)) c = Some st'"
          "store_ok its st'" "same_but_weight ((things w)(x \<mapsto> ox\<lparr>item := i2\<rparr>)) st'"
        using change_item_ok [OF assms(1) c assms(4) mem] by blast
      obtain oc' where "st' c = Some oc'" using store_ok_member [OF st'(3), of c] c by fastforce
      from notify_store_ok [OF st'(2) this, of True "UpdateContainerItem c i x x" w] obtain w'
        where "notify True (UpdateContainerItem c i x x) c (w\<lparr>things := st'\<rparr>) = Some w'" "things w' = st'" by blast
      with i False item True st' assms(4) show ?thesis
        by (simp add: removeThing_def Let_def i2_def [symmetric] on_things_def after_removal_def)
    next
      case whole: False
      obtain rank where sh: "shape {} rank (things w)" and off: "weights_off its (\<lambda>_. 0) (things w)"
        using assms(1) by (auto simp: store_ok_def)
      have xc: "x \<noteq> c" using kid_distinct [OF sh, of x c] mem c by (auto simp: kids_Some)
      obtain st1 where st1: "updateItemWeight (things w) (- getThingWeight its ox) c = Some st1" "shape {} rank st1"
          "weights_off its ((\<lambda>_. 0)(c := 0 - - getThingWeight its ox)) st1" "same_but_weight (things w) st1"
          "\<forall>a. rank c < rank a \<longrightarrow> st1 a = things w a"
        using updateItemWeight_ok [OF sh c(1) _ off, of "- getThingWeight its ox"] holds_container [OF c(2)] by blast
      obtain v where oc1: "st1 c = Some (oc\<lparr>totalWeight := v\<rparr>)" using same_but_weightD [OF st1(4) c(1)] by blast
      have "rank c < rank x" using kid_rank [OF sh, of x c] mem c by (simp add: kids_Some)
      then have ox1: "st1 x = Some ox" using st1(5) assms(4) by simp
      obtain w2 where w2: "notify True (RemoveContainerItem c i x) c (w\<lparr>things := st1\<rparr>) = Some w2" "things w2 = st1"
        using notify_ok [of "{}" rank "w\<lparr>things := st1\<rparr>" c "oc\<lparr>totalWeight := v\<rparr>"] st1(2) oc1 by auto
      let ?as = "take (nat i) (itemlist oc)" and ?bs = "drop (nat i + 1) (itemlist oc)"
      have split: "itemlist oc = ?as @ x # ?bs" using take_drop_split [OF pos(2)] pos(3) by simp
      have "(\<lambda>_. 0)(c := 0 - - getThingWeight its ox) = (\<lambda>k. if k = c then getThingWeight its ox else 0)"
        by (simp add: fun_eq_iff)
      with detach_ok [OF st1(2) _ oc1 _ ox1, of its ?as ?bs] st1(3) c(2) split
      have "store_ok its (st1(x \<mapsto> ox\<lparr>parent := None\<rparr>, c \<mapsto> oc\<lparr>totalWeight := v, itemlist := ?as @ ?bs\<rparr>))" by simp
      moreover have "x \<notin> set ?as" using shapeD(1) [OF sh c(1)] c split by (simp add: kids_Some) (metis distinct_append disjoint_insert(1) list.simps(15))
      then have r: "remove1 x (itemlist oc) = ?as @ ?bs" using arg_cong [OF split, of "remove1 x"] by (simp add: remove1_append)
      have "same_but_weight (after_removal its c oc x ox count (things w))
          (st1(x \<mapsto> ox\<lparr>parent := None\<rparr>, c \<mapsto> oc\<lparr>totalWeight := v, itemlist := ?as @ ?bs\<rparr>))"
        using st1(4) whole by (auto simp: after_removal_def same_but_weight_def r)
      moreover have "removeThing its c x count w =
          Some (w2\<lparr>things := st1(x \<mapsto> ox\<lparr>parent := None\<rparr>, c \<mapsto> oc\<lparr>totalWeight := v, itemlist := ?as @ ?bs\<rparr>)\<rparr>)"
        using i False item whole st1(1) w2 assms(4) ox1 oc1 xc
        by (auto simp: removeThing_def on_things_def setParent_def upd_def)
      ultimately show ?thesis by simp
    qed
  qed
qed

lemma replaceThing_ok:
  assumes "store_ok its (things w)" and c: "things w c = Some oc" "holds oc" and "may_enter (things w) c x"
  shows "\<exists>w'. replaceThing its c index x w = Some w' \<and> store_ok its (things w')"
proof -
  let ?st = "things w"
  obtain ox where x: "?st x = Some ox" "is_item ox" "fits ox oc" "detached ?st x" "c \<notin> under ?st x"
    using assms(4) c(1) by (auto simp: may_enter_def)
  obtain r where r: "getItemByIndex ?st c index = Some r" using c(1) by (simp add: getItemByIndex_def)
  show ?thesis
  proof (cases r)
    case None
    with r x assms(1) show ?thesis by (simp add: replaceThing_def)
  next
    case (Some y)
    then have n: "0 \<le> index" "nat index < length (itemlist oc)" "y = itemlist oc ! nat index"
      using r c(1) by (auto simp: getItemByIndex_def split: if_splits)
    let ?l = "itemlist oc" and ?as = "take (nat index) (itemlist oc)" and ?bs = "drop (nat index + 1) (itemlist oc)"
    have split: "?l = ?as @ y # ?bs" using take_drop_split [OF n(2)] n(3) by simp
    have l': "?l[nat index := x] = ?as @ x # ?bs" using n(2) by (simp add: upd_conv_take_nth_drop)
    obtain rank where sh: "shape {} rank ?st" and off: "weights_off its (\<lambda>_. 0) ?st"
      using assms(1) by (auto simp: store_ok_def)
    have kidy: "y \<in> set (kids ?st c)" using c split by (simp add: kids_Some) (metis in_set_conv_decomp)
    obtain oy where y: "?st y = Some oy" "parent oy = Some c" using shape_kid [OF sh kidy] by blast
    have dist: "distinct (?as @ y # ?bs)" using shapeD(1) [OF sh c(1)] c split by (simp add: kids_Some)
    have xl: "x \<notin> set ?l" using x(4) c by (auto simp: detached_def kids_Some dest: spec [of _ c])
    have xc: "x \<noteq> c" using x(5) by auto
    have yc: "y \<noteq> c" by (rule kid_distinct [OF sh kidy])
    have yx: "y \<noteq> x" using xl split by (metis in_set_conv_decomp)
    let ?il = "?as @ x # ?bs"
    let ?st2 = "link x ox c oc ?il ?st"
    have xab: "x \<notin> set ?as" "x \<notin> set ?bs" using xl in_set_takeD in_set_dropD by fast+
    have "distinct ?il \<and> x \<in> set ?il \<and> set ?il \<subseteq> insert x (set ?l)"
      using dist xab split by (auto dest: in_set_takeD in_set_dropD)
    then obtain rank' where sh2: "shape (set ?l - set ?il) rank' ?st2"
      using shape_link [OF sh x(1) c(1) x(2-5), of ?il] c(2) by auto
    have "set ?l - set ?il = {y}" using dist yx arg_cong [OF split, of set] by auto
    with sh2 have sh2: "shape {y} rank' ?st2" by simp
    let ?d = "- getThingWeight its oy + getThingWeight its ox"
    have "sum_list (map (wt its ?st) ?il) = load its ?st c + ?d"
      using c x(1) y(1) arg_cong [OF split, of "\<lambda>l. sum_list (map (wt its ?st) l)"]
      by (simp add: load_def kids_Some) (simp add: wt_def algebra_simps)
    then have off2: "weights_off its (\<lambda>k. if k = c then ?d else 0) ?st2"
      using weights_off_link [OF off x(1) c(1) xc, of ?il ?d] by simp
    have y2: "?st2 y = Some oy" using y(1) yc yx by simp
    have ry: "rank' c < rank' y" by (rule shapeD(2) [OF sh2 y2 y(2)])
    obtain st3 where st3: "updateItemWeight ?st2 ?d c = Some st3" "shape {y} rank' st3"
        "weights_off its (\<lambda>_. 0) st3" "same_but_weight ?st2 st3"
      using updateItemWeight_settles [OF sh2 _ _ _ off2, of "oc\<lparr>itemlist := ?il\<rparr>"] ry holds_container [OF c(2)] by auto
    obtain v where v: "st3 c = Some (oc\<lparr>itemlist := ?il, totalWeight := v\<rparr>)"
      using same_but_weightD [OF st3(4), of c] by auto
    obtain oy3 where y3: "st3 y = Some oy3" using store_ok_member [OF st3(4) y2] by blast
    obtain w4 where w4: "notify True (UpdateContainerItem c index y x) c (w\<lparr>things := st3\<rparr>) = Some w4" "things w4 = st3"
      using notify_ok [of "{y}" rank' "w\<lparr>things := st3\<rparr>" c "oc\<lparr>itemlist := ?il, totalWeight := v\<rparr>"] st3(2) v
      by auto
    have "kids st3 k = kids ?st2 k" for k using same_but_weight_kids [OF st3(4)] by simp
    moreover have "y \<notin> set (kids ?st2 k)" for k
    proof (cases "k = c")
      case True
      have "y \<notin> set ?il" using dist yx unfolding distinct_append set_append by simp
      then have "y \<notin> set (kids ?st2 c)" using c(2) by (simp only: kids_link [OF x(1) c(1) xc] fun_upd_same if_True simp_thms)
      with True show ?thesis by (simp only: simp_thms)
    next
      case False
      then have "y \<notin> set (kids ?st k)" using kid_parent [OF sh _ y(1)] y(2) by (metis option.inject)
      with False show ?thesis unfolding kids_link [OF x(1) c(1) xc] by simp
    qed
    ultimately have det: "detached st3 y" by (simp add: detached_def)
    let ?st4 = "st3(y \<mapsto> oy3\<lparr>parent := None\<rparr>)"
    have sh4: "shape {} rank' ?st4" by (rule shape_orphan [OF st3(2) y3 det]) simp
    have "kids ?st4 = kids st3" "wt its ?st4 = wt its st3" using y3 by (auto simp: kids_def wt_def fun_eq_iff)
    then have "load its ?st4 k = load its st3 k" for k by (simp only: load_def)
    moreover have "\<exists>o1. st3 k = Some o1 \<and> holds o1 = holds ob \<and> totalWeight o1 = totalWeight ob" if "?st4 k = Some ob" for k ob
      using that y3 by (auto split: if_splits)
    ultimately have "weights_off its (\<lambda>_. 0) ?st4"
      using st3(3) unfolding weights_off_def by metis
    with sh4 have "store_ok its ?st4" by (auto simp: store_ok_def)
    moreover have "replaceThing its c index x w = Some (w4\<lparr>things := ?st4\<rparr>)"
      using x r Some c y(1) xc yc yx l' st3(1) w4 y3
      by (simp add: replaceThing_def on_things_def upd_def setParent_def weight_at_def fun_upd_twist)
    ultimately show ?thesis by simp
  qed
qed

end
