(* ===== verification/ContainerWalk.thy ===== *)
theory ContainerWalk
  imports ContainerOps "HOL-Library.Multiset"
begin

text \<open>
  What is inside a container: the contents of a well-formed store as finite trees, the iterator as
  a breadth-first walk of them, and the weight of a container as a sum over all that is inside.
\<close>

section \<open>Contents as trees\<close>

definition kid_of :: "store \<Rightarrow> (addr \<times> addr) set" where
  "kid_of st = {(x, c). x \<in> set (kids st c)}"

definition inside :: "store \<Rightarrow> addr \<Rightarrow> addr set" where
  "inside st c = {x. (x, c) \<in> (kid_of st)\<^sup>+}"

datatype ctree = CT (root: addr) (branches: "ctree list")

fun nodes :: "ctree \<Rightarrow> addr list" where
  "nodes (CT a ts) = a # concat (map nodes ts)"

fun reps :: "store \<Rightarrow> ctree \<Rightarrow> bool" where
  "reps st (CT a ts) =
     ((case st a of None \<Rightarrow> False | Some ob \<Rightarrow> is_container ob \<longrightarrow> holds ob) \<and>
      kids st a = map root ts \<and> list_all (reps st) ts)"

lemma kid_plain:
  assumes "shape E rank st" and "x \<in> set (kids st c)"
  shows "\<exists>ob. st x = Some ob \<and> (is_container ob \<longrightarrow> holds ob)"
proof -
  obtain ob where ob: "st x = Some ob" using shape_kid [OF assms] by blast
  from kid_kind [OF assms ob] ob show ?thesis by (auto simp: is_container_def holds_def)
qed

lemma trees_of_list:
  "\<forall>x \<in> set xs. \<exists>t. root t = x \<and> P t \<Longrightarrow> \<exists>ts. map root ts = xs \<and> list_all P ts"
proof (induction xs)
  case (Cons x xs)
  then obtain t ts where "root t = x" "P t" "map root ts = xs" "list_all P ts" by auto
  then have "map root (t # ts) = x # xs \<and> list_all P (t # ts)" by simp
  then show ?case by (rule exI [of _ "t # ts"])
qed simp

lemma tree_exists:
  assumes sh: "shape E rank st" and "st a = Some ob" and "is_container ob \<longrightarrow> holds ob"
  shows "\<exists>t. root t = a \<and> reps st t"
proof -
  have "finite (rank ` dom st)" using sh by (simp add: shape_def)
  then obtain M where "\<forall>n \<in> rank ` dom st. n \<le> M" using finite_nat_set_iff_bounded_le by blast
  then have M: "rank a \<le> M" if "a \<in> dom st" for a using that by blast
  from assms(2,3) show ?thesis
  proof (induction "M - rank a" arbitrary: a ob rule: less_induct)
    case less
    have "\<exists>t. root t = x \<and> reps st t" if x: "x \<in> set (kids st a)" for x
    proof -
      obtain xo where xo: "st x = Some xo" "is_container xo \<longrightarrow> holds xo" using kid_plain [OF sh x] by blast
      have "rank a < rank x" "rank x \<le> M" using kid_rank [OF sh x] M [of x] xo(1) by auto
      then have "M - rank x < M - rank a" by linarith
      from less.hyps [OF this xo] show ?thesis .
    qed
    then obtain ts where "map root ts = kids st a" "list_all (reps st) ts"
      using trees_of_list [of "kids st a" "reps st"] by blast
    with less.prems have "reps st (CT a ts)" by simp
    then show ?case by (metis ctree.sel(1))
  qed
qed

lemma root_node: "root t \<in> set (nodes t)"
  by (cases t) simp

lemma nodes_inside: "reps st t \<Longrightarrow> set (nodes t) = insert (root t) (inside st (root t))"
proof (induction t)
  case (CT a ts)
  have ts: "set (nodes t) = insert (root t) (inside st (root t))" if "t \<in> set ts" for t
    using CT that by (simp add: list_all_iff)
  have kids: "set (kids st a) = root ` set ts" using CT.prems by simp
  have "inside st a = (\<Union>x \<in> set (kids st a). insert x (inside st x))"
  proof
    show "inside st a \<subseteq> (\<Union>x \<in> set (kids st a). insert x (inside st x))"
    proof
      fix x assume "x \<in> inside st a"
      then have "(x, a) \<in> (kid_of st)\<^sup>+" by (simp add: inside_def)
      then show "x \<in> (\<Union>x \<in> set (kids st a). insert x (inside st x))"
        by (cases rule: trancl.cases) (auto simp: kid_of_def inside_def)
    qed
    show "(\<Union>x \<in> set (kids st a). insert x (inside st x)) \<subseteq> inside st a"
      by (auto simp: inside_def kid_of_def intro: trancl.intros)
  qed
  with kids ts show ?case by auto
qed

lemma inside_rank: "shape E rank st \<Longrightarrow> x \<in> inside st c \<Longrightarrow> rank c < rank x"
proof -
  assume sh: "shape E rank st" and "x \<in> inside st c"
  then have "(x, c) \<in> (kid_of st)\<^sup>+" by (simp add: inside_def)
  then show "rank c < rank x"
  proof (induction rule: trancl.induct)
    case (trancl_into_trancl a b c)
    then show ?case using kid_rank [OF sh, of b c] by (auto simp: kid_of_def)
  qed (use kid_rank [OF sh] in \<open>auto simp: kid_of_def\<close>)
qed

lemma single_valued_kid: "shape E rank st \<Longrightarrow> single_valued (kid_of st)"
  using shape_kid kid_parent unfolding single_valued_def kid_of_def
  by (metis (mono_tags, lifting) case_prodD mem_Collect_eq option.inject)

lemma inside_self: "x \<in> insert c (inside st c) \<longleftrightarrow> (x, c) \<in> (kid_of st)\<^sup>*"
  by (auto simp: inside_def rtrancl_eq_or_trancl)

lemma siblings_disjoint:
  assumes sh: "shape E rank st" and "r1 \<in> set (kids st a)" and "r2 \<in> set (kids st a)" and "r1 \<noteq> r2"
  shows "insert r1 (inside st r1) \<inter> insert r2 (inside st r2) = {}"
proof -
  have no: False if rs: "(r, s) \<in> (kid_of st)\<^sup>*" "r \<noteq> s" "r \<in> set (kids st a)" "s \<in> set (kids st a)" for r s
  proof -
    obtain b where b: "(r, b) \<in> kid_of st" "(b, s) \<in> (kid_of st)\<^sup>*" using rs(1,2) by (metis converse_rtranclE)
    moreover have "(r, a) \<in> kid_of st" using rs(3) by (simp add: kid_of_def)
    ultimately have "b = a" using single_valued_kid [OF sh] by (auto simp: single_valued_def)
    with b(2) have "a \<in> insert s (inside st s)" using inside_self [of a s st] by blast
    then have "rank s \<le> rank a" using inside_rank [OF sh, of a s] by auto
    moreover have "rank a < rank s" using kid_rank [OF sh rs(4)] .
    ultimately show False by simp
  qed
  show ?thesis
  proof (rule ccontr)
    assume "\<not> ?thesis"
    then obtain x where "x \<in> insert r1 (inside st r1)" "x \<in> insert r2 (inside st r2)" by blast
    then have "(x, r1) \<in> (kid_of st)\<^sup>*" "(x, r2) \<in> (kid_of st)\<^sup>*" unfolding inside_self .
    from single_valued_confluent [OF single_valued_kid [OF sh] this]
    show False using no [of r1 r2] no [of r2 r1] assms(2-4) by blast
  qed
qed

lemma distinct_nodes: "shape E rank st \<Longrightarrow> reps st t \<Longrightarrow> distinct (nodes t)"
proof (induction t)
  case (CT a ts)
  have kids: "kids st a = map root ts" and sub: "\<And>t. t \<in> set ts \<Longrightarrow> reps st t"
    using CT.prems(2) by (auto simp: list_all_iff)
  have "a \<notin> set (concat (map nodes ts))"
  proof
    assume "a \<in> set (concat (map nodes ts))"
    then obtain t where t: "t \<in> set ts" "a \<in> set (nodes t)" by auto
    have "root t \<in> set (kids st a)" using t(1) kids by simp
    then have r: "rank a < rank (root t)" by (rule kid_rank [OF CT.prems(1)])
    from t(2) have "a = root t \<or> a \<in> inside st (root t)" using nodes_inside [OF sub [OF t(1)]] by blast
    with r inside_rank [OF CT.prems(1), of a "root t"] show False by auto
  qed
  moreover have "distinct (concat (map nodes ts))"
  proof -
    have d: "distinct (map root ts)"
      using kids shapeD(1) [OF CT.prems(1), of a] CT.prems(2) by (auto split: option.splits)
    have sib: "set (nodes t) \<inter> set (nodes u) = {}" if "t \<in> set ts" "u \<in> set ts" "root t \<noteq> root u" for t u
      using siblings_disjoint [OF CT.prems(1), of "root t" a "root u"] that kids
        nodes_inside [OF sub [OF that(1)]] nodes_inside [OF sub [OF that(2)]] by simp
    have each: "\<And>t. t \<in> set ts \<Longrightarrow> distinct (nodes t)" using CT.IH CT.prems(1) sub by blast
    from d sib each show ?thesis
    proof (induction ts)
      case (Cons t us)
      have "set (nodes t) \<inter> set (concat (map nodes us)) = {}"
      proof -
        have "set (nodes t) \<inter> set (nodes u) = {}" if "u \<in> set us" for u
          using Cons.prems(2) [of t u] Cons.prems(1) that by auto
        then show ?thesis by auto
      qed
      moreover have "distinct (concat (map nodes us))" using Cons by simp
      ultimately show ?case using Cons.prems(3) [of t] by simp
    qed simp
  qed
  ultimately show ?case by simp
qed

section \<open>The weight of a container\<close>

definition base_weight :: "items \<Rightarrow> store \<Rightarrow> addr \<Rightarrow> u32" where
  "base_weight its st x = (case st x of None \<Rightarrow> 0 | Some ob \<Rightarrow> getWeight its (item ob))"

lemma tree_weight:
  assumes "weights_off its (\<lambda>_. 0) st"
  shows "reps st t \<Longrightarrow> wt its st (root t) = sum_list (map (base_weight its st) (nodes t))"
proof (induction t)
  case (CT a ts)
  obtain ob where ob: "st a = Some ob" "is_container ob \<longrightarrow> holds ob" and kids: "kids st a = map root ts"
    and sub: "\<And>t. t \<in> set ts \<Longrightarrow> reps st t"
    using CT.prems by (auto simp: list_all_iff split: option.splits)
  have "map (wt its st) (map root ts) = map (\<lambda>t. sum_list (map (base_weight its st) (nodes t))) ts"
    using CT.IH sub by simp
  then have l: "load its st a = sum_list (map (base_weight its st) (concat (map nodes ts)))"
    unfolding load_def kids by (induction ts) simp_all
  have b: "base_weight its st a = getWeight its (item ob)" "wt its st a = getThingWeight its ob"
    using ob(1) by (simp_all add: base_weight_def wt_def)
  show ?case
  proof (cases "holds ob")
    case True
    then have "totalWeight ob = load its st a" using assms ob(1) by (auto simp: weights_off_def)
    with l holds_container [OF True] show ?thesis by (simp add: b getThingWeight_def)
  next
    case False
    then have "ts = []" using kids ob(1) by (simp add: kids_Some)
    with False ob(2) show ?thesis by (simp add: b getThingWeight_def)
  qed
qed

lemma container_weight_facts:
  assumes "store_ok its st" and "st c = Some oc" and "holds oc"
  shows "finite (inside st c)" and "c \<notin> inside st c"
    and "getThingWeight its oc = (\<Sum>x \<in> insert c (inside st c). base_weight its st x)"
proof -
  obtain rank where sh: "shape {} rank st" and w: "weights_off its (\<lambda>_. 0) st" using assms(1) by (auto simp: store_ok_def)
  obtain t where t: "root t = c" "reps st t" using tree_exists [OF sh assms(2)] assms(3) by blast
  have n: "set (nodes t) = insert c (inside st c)" using nodes_inside [OF t(2)] t(1) by simp
  then show "finite (inside st c)" by (metis List.finite_set finite_insert)
  show "c \<notin> inside st c" using inside_rank [OF sh] by blast
  have "getThingWeight its oc = wt its st c" using assms(2) by (simp add: wt_def)
  also have "\<dots> = sum_list (map (base_weight its st) (nodes t))" using tree_weight [OF w t(2)] t(1) by simp
  also have "\<dots> = (\<Sum>x \<in> set (nodes t). base_weight its st x)"
    by (rule sum_list_distinct_conv_sum_set [OF distinct_nodes [OF sh t(2)]])
  finally show "getThingWeight its oc = (\<Sum>x \<in> insert c (inside st c). base_weight its st x)" using n by simp
qed

section \<open>The iterator is a breadth-first walk\<close>

text \<open>The queue of a breadth-first walk: the contents still to be read of each container in \<open>over\<close>.\<close>

fun tree_size :: "ctree \<Rightarrow> nat" where
  "tree_size (CT a ts) = 2 + sum_list (map tree_size ts)"

definition queue_size :: "ctree list list \<Rightarrow> nat" where
  "queue_size Q = sum_list (map (\<lambda>us. 1 + sum_list (map tree_size us)) Q)"

function bfs :: "ctree list list \<Rightarrow> addr list" where
  "bfs [] = []"
| "bfs ([] # Q) = bfs Q"
| "bfs ((CT a ts # us) # Q) = a # bfs (us # (if ts = [] then Q else Q @ [ts]))"
  by pat_completeness auto
termination
  by (relation "measure queue_size") (auto simp: queue_size_def)

lemma bfs_mset: "mset (bfs Q) = mset (concat (map nodes (concat Q)))"
  by (induction Q rule: bfs.induct) auto

lemma bfs_level: "\<exists>ys. bfs (us # Q) = map root us @ ys"
proof (induction us arbitrary: Q)
  case (Cons t us)
  obtain a ts where t: "t = CT a ts" by (cases t)
  obtain ys where "bfs (us # (if ts = [] then Q else Q @ [ts])) = map root us @ ys" using Cons.IH by blast
  then show ?case by (simp add: t)
qed simp

definition lists :: "store \<Rightarrow> addr \<Rightarrow> ctree list \<Rightarrow> bool" where
  "lists st c ts = ((\<exists>ob. st c = Some ob \<and> itemlist ob = map root ts) \<and> ts \<noteq> [] \<and> list_all (reps st) ts)"

fun walks :: "store \<Rightarrow> ContainerIterator \<Rightarrow> ctree list list \<Rightarrow> bool" where
  "walks st it [] = (over it = [])"
| "walks st it (us # Q) =
     (\<exists>c cs seen. over it = c # cs \<and> lists st c (seen @ us) \<and> us \<noteq> [] \<and> cur it = length seen \<and>
        list_all2 (lists st) cs Q)"

lemma walks_deref:
  assumes "walks st it ((CT a ts # us) # Q)"
  shows "deref st it = Some a"
proof -
  obtain c cs seen ob where "over it = c # cs" "st c = Some ob" "itemlist ob = map root (seen @ CT a ts # us)" "cur it = length seen"
    using assms by (auto simp: lists_def)
  then show ?thesis by (simp add: deref_def nth_append)
qed

text \<open>The iterator state after an advance: the walk drops an exhausted list.\<close>

lemma walks_advance:
  assumes "walks st it ((CT a ts # us) # Q)"
  shows "\<exists>it'. advance st it = Some it' \<and>
    walks st it' ((if us = [] then [] else [us]) @ (if ts = [] then Q else Q @ [ts]))"
proof -
  obtain c cs seen co where o: "over it = c # cs" "st c = Some co" "itemlist co = map root (seen @ CT a ts # us)"
      and cur: "cur it = length seen" and ls: "lists st c (seen @ CT a ts # us)" and rest: "list_all2 (lists st) cs Q"
    using assms by (auto simp: lists_def)
  have "reps st (CT a ts)" using ls by (simp add: lists_def)
  then obtain ao where ao: "st a = Some ao" "is_container ao \<longrightarrow> holds ao" "kids st a = map root ts" "list_all (reps st) ts"
    by (auto split: option.splits)
  have pushed: "is_container ao \<and> itemlist ao \<noteq> [] \<longleftrightarrow> ts \<noteq> []" and il: "ts \<noteq> [] \<Longrightarrow> itemlist ao = map root ts"
    using ao holds_container [of ao] by (auto simp: kids_Some split: if_splits)
  let ?over = "if ts \<noteq> [] then over it @ [a] else over it"
  let ?Q = "if ts = [] then Q else Q @ [ts]" and ?cs = "if ts = [] then cs else cs @ [a]"
  have rest': "list_all2 (lists st) ?cs ?Q"
    using rest il ao(1,4) by (simp add: list_all2_appendI lists_def)
  have over': "?over = c # ?cs" using o(1) by simp
  have adv: "advance st it =
      Some (if us = [] then \<lparr>over = ?cs, cur = 0\<rparr> else \<lparr>over = c # ?cs, cur = cur it + 1\<rparr>)"
    using walks_deref [OF assms] ao(1) pushed o cur over' by (simp add: advance_def Let_def)
  show ?thesis
  proof (cases "us = []")
    case False
    have "walks st \<lparr>over = c # ?cs, cur = cur it + 1\<rparr> (us # ?Q)"
      using False ls cur rest' by (auto intro!: exI [of _ "seen @ [CT a ts]"])
    with adv False show ?thesis by simp
  next
    case True
    have "walks st \<lparr>over = ?cs, cur = 0\<rparr> ?Q"
    proof (cases ?Q)
      case Nil
      with rest' have "?cs = []" by simp
      with Nil show ?thesis by simp
    next
      case (Cons vs Q')
      with rest' obtain c' cs' where "?cs = c' # cs'" "lists st c' vs" "list_all2 (lists st) cs' Q'"
        by (auto simp: list_all2_Cons2)
      with Cons show ?thesis by (auto simp: lists_def intro!: exI [of _ "[]"])
    qed
    with adv True show ?thesis by simp
  qed
qed

lemma visit_walks: "walks st it Q \<Longrightarrow> visit st it = Some (bfs Q)"
proof (induction "queue_size Q" arbitrary: it Q rule: less_induct)
  case less
  show ?case
  proof (cases Q)
    case Nil
    with less.prems show ?thesis by (subst visit.simps) simp
  next
    case (Cons vs Q')
    with less.prems obtain t us where vs: "vs = t # us" by (auto simp: neq_Nil_conv)
    obtain a ts where t: "t = CT a ts" by (cases t)
    let ?Q1 = "if ts = [] then Q' else Q' @ [ts]"
    let ?Q = "(if us = [] then [] else [us]) @ ?Q1"
    have Q: "Q = (CT a ts # us) # Q'" using Cons vs t by simp
    obtain it' where it': "advance st it = Some it'" "walks st it' ?Q"
      using walks_advance less.prems unfolding Q by blast
    have "queue_size ?Q < queue_size Q" by (simp add: Q queue_size_def)
    from less.hyps [OF this it'(2)] have "visit st it' = Some (bfs ?Q)" .
    moreover have "bfs ?Q = bfs (us # ?Q1)" by simp
    moreover have "over it \<noteq> []" using less.prems unfolding Q by auto
    moreover have "deref st it = Some a" using walks_deref less.prems unfolding Q by blast
    ultimately show ?thesis
      using it'(1) unfolding Q by (subst visit.simps) simp
  qed
qed

lemma all_inside_facts:
  assumes "store_ok its st" and "st c = Some oc" and "holds oc"
  shows "\<exists>xs. all_inside st c = Some xs \<and> distinct xs \<and> set xs = inside st c \<and> (\<exists>ys. xs = itemlist oc @ ys)"
proof -
  obtain rank where sh: "shape {} rank st" using assms(1) by (auto simp: store_ok_def)
  obtain t where t: "root t = c" "reps st t" using tree_exists [OF sh assms(2)] assms(3) by blast
  obtain ts where ts: "t = CT c ts" using t(1) by (cases t) simp
  have il: "itemlist oc = map root ts" and sub: "list_all (reps st) ts"
    using t(2) assms(2,3) by (simp_all add: ts kids_Some)
  let ?Q = "if ts = [] then [] else [ts]"
  have "walks st \<lparr>over = (if itemlist oc \<noteq> [] then [c] else []), cur = 0\<rparr> ?Q"
    using assms(2) il sub by (auto simp: lists_def intro!: exI [of _ "[]"])
  from visit_walks [OF this] have v: "all_inside st c = Some (bfs ?Q)"
    using assms(2) by (simp add: all_inside_def iterator_def)
  have m: "mset (bfs ?Q) = mset (concat (map nodes ts))" by (simp add: bfs_mset)
  have "set (bfs ?Q) = inside st c"
  proof -
    have "set (nodes t) = insert c (inside st c)" using nodes_inside [OF t(2)] t(1) by simp
    moreover have "c \<notin> inside st c" using inside_rank [OF sh] by blast
    moreover have "distinct (nodes t)" by (rule distinct_nodes [OF sh t(2)])
    ultimately have "set (concat (map nodes ts)) = inside st c" by (auto simp: ts)
    with mset_eq_setD [OF m] show ?thesis by simp
  qed
  moreover have "distinct (bfs ?Q)"
    using mset_eq_imp_distinct_iff [OF m] distinct_nodes [OF sh t(2)] by (simp add: ts)
  moreover have "\<exists>ys. bfs ?Q = itemlist oc @ ys"
    using bfs_level [of ts "[]"] il by (cases ts) auto
  ultimately show ?thesis using v by blast
qed

end
