(* ===== verification/ContainerSafety.thy ===== *)
theory ContainerSafety
  imports ContainerWalk
begin

text \<open>
  The queries of a container and the life of a store: every query returns, an item that a query
  lets in is not one of the containers around its destination, and the store stays well-formed
  under every sequence of operations.
\<close>

section \<open>The queries return\<close>

lemma outside_under:
  assumes sh: "shape E rank st" and "st a = Some ob" and "kind ob = Outside" and "a \<in> under st x"
  shows "\<exists>xo. st x = Some xo \<and> kind xo = Outside"
proof -
  have "(a, x) \<in> (up st)\<^sup>*" using assms(4) by (simp add: under_def)
  then show ?thesis using assms(2,3)
  proof (induction arbitrary: ob rule: converse_rtrancl_induct)
    case (step a b)
    have "parent ob = Some b" using step.hyps(1) step.prems(1) by (auto simp: up_def)
    then obtain bo where "st b = Some bo" "fits ob bo" using shapeD(3) [OF sh step.prems(1)] by blast
    with step.prems(2) step.IH show ?case by (auto simp: fits_def)
  qed auto
qed

lemma climb_query_total:
  assumes sh: "shape E rank st" and "st x = Some xo" and "kind xo \<noteq> DepotLocker"
  shows "st a = Some ob \<Longrightarrow>
    \<exists>r. climb_query st x b a = Some r \<and> (r = None \<longrightarrow> a \<notin> under st x) \<and> r \<noteq> Some RETURNVALUE_NOERROR"
proof (induction "rank a" arbitrary: a ob rule: less_induct)
  case less
  let ?step = "climb_query st x b a = (if a = x then Some (Some RETURNVALUE_THISISIMPOSSIBLE)
      else if \<not> b \<and> kind ob = Inbox then Some (Some RETURNVALUE_CONTAINERNOTENOUGHROOM)
      else (case getParent st a of None \<Rightarrow> None | Some None \<Rightarrow> Some None
            | Some (Some p) \<Rightarrow> climb_query st x b p))"
  have step: ?step using less.prems by (subst climb_query.simps) simp
  consider "a = x" | "\<not> b" "kind ob = Inbox" | "a \<noteq> x" "b \<or> kind ob \<noteq> Inbox" by blast
  then show ?case
  proof cases
    case 3
    show ?thesis
    proof (cases "kind ob = Inbox \<or> kind ob = DepotChest")
      case False
      then have g: "getParent st a = Some (parent ob)" using getParent_plain [of st a ob] less.prems by simp
      show ?thesis
      proof (cases "parent ob")
        case None
        then have "a \<notin> under st x" using under_cases [of a st x] less.prems 3(1) by auto
        with None g step 3 show ?thesis by auto
      next
        case (Some p)
        then obtain po where po: "st p = Some po" "rank p < rank a" using shapeD(2,3) [OF sh less.prems] by blast
        then obtain r where "climb_query st x b p = Some r" "r = None \<longrightarrow> p \<notin> under st x" "r \<noteq> Some RETURNVALUE_NOERROR" using less.hyps by blast
        moreover have "p \<notin> under st x \<Longrightarrow> a \<notin> under st x" using under_cases [of a st x] less.prems 3(1) Some by auto
        ultimately show ?thesis using g Some step 3 by auto
      qed
    next
      case True
      have locker: "kind lo = DepotLocker" if "parent ob = Some l" "st l = Some lo" for l lo
        using shapeD(3) [OF sh less.prems that(1)] that(2) True by (auto simp: fits_def)
      from getParent_depot [OF sh less.prems True] show ?thesis
      proof (elim disjE exE conjE)
        assume g: "getParent st a = Some None"
        have "a \<notin> under st x"
        proof
          assume "a \<in> under st x"
          then obtain l where l: "parent ob = Some l" "l \<in> under st x" using under_cases [of a st x] less.prems 3(1) by auto
          obtain lo where lo: "st l = Some lo" using shapeD(3) [OF sh less.prems l(1)] by blast
          have "parent lo = None"
            using g True l(1) less.prems lo getParent_plain [of st l lo] locker [OF l(1) lo]
            by (subst (asm) getParent.simps) simp
          then have "l = x" using under_cases [OF l(2)] lo by auto
          with locker [OF l(1) lo] lo assms(2,3) show False by simp
        qed
        with g step 3 show ?thesis by auto
      next
        fix l lo p po
        assume l: "parent ob = Some l" "st l = Some lo" "kind lo = DepotLocker" "parent lo = Some p"
          and p: "st p = Some po" and g: "getParent st a = Some (Some p)"
        have "rank p < rank a" using shapeD(2) [OF sh l(2,4)] shapeD(2) [OF sh less.prems l(1)] by linarith
        then obtain r where r: "climb_query st x b p = Some r" "r = None \<longrightarrow> p \<notin> under st x"
          "r \<noteq> Some RETURNVALUE_NOERROR" using less.hyps p by blast
        have "a \<notin> under st x" if "p \<notin> under st x"
        proof
          assume "a \<in> under st x"
          then have "l \<in> under st x" using under_cases [of a st x] less.prems 3(1) l(1) by auto
          then have "l = x" using under_cases [of l st x] l that by auto
          with l assms(2,3) show False by simp
        qed
        with r g step 3 show ?thesis by auto
      qed
    qed
  qed (use step in auto)
qed

lemma climb_top_total:
  assumes sh: "shape E rank st"
  shows "st a = Some ob \<Longrightarrow> (\<And>q. prev = Some q \<Longrightarrow> \<exists>qo. st q = Some qo) \<Longrightarrow>
    \<exists>t to. climb_top st prev a = Some t \<and> st t = Some to"
proof (induction "rank a" arbitrary: a ob prev rule: less_induct)
  case less
  obtain r where r: "getParent st a = Some r" "\<forall>p. r = Some p \<longrightarrow> rank p < rank a \<and> (\<exists>po. st p = Some po)"
    using getParent_total [OF sh less.prems(1)] by blast
  show ?case
  proof (cases r)
    case None
    with r(1) less.prems show ?thesis by (subst climb_top.simps) (auto split: option.split)
  next
    case (Some p)
    with r(2) obtain po where p: "rank p < rank a" "st p = Some po" by blast
    from less.hyps [OF p, of "Some a"] less.prems(1) obtain t to
      where "climb_top st (Some a) p = Some t" "st t = Some to" by auto
    with r(1) Some show ?thesis by (subst climb_top.simps) auto
  qed
qed

lemma getTopParent_total:
  assumes sh: "shape E rank st" and "st a = Some ob"
  shows "\<exists>r. getTopParent st a = Some r \<and> (is_container ob \<longrightarrow> r \<noteq> None) \<and> (\<forall>t. r = Some t \<longrightarrow> (\<exists>to. st t = Some to))"
proof -
  let ?prev = "if is_container ob then Some a else None"
  obtain r where r: "getParent st a = Some r" "\<forall>p. r = Some p \<longrightarrow> (\<exists>po. st p = Some po)"
    using getParent_total [OF assms] by blast
  show ?thesis
  proof (cases r)
    case None
    with r(1) assms(2) show ?thesis by (auto simp: getTopParent_def)
  next
    case (Some p)
    then obtain po where "st p = Some po" using r(2) by blast
    moreover have "\<And>q. ?prev = Some q \<Longrightarrow> \<exists>qo. st q = Some qo" using assms(2) by (auto split: if_splits)
    ultimately obtain t to where "climb_top st ?prev p = Some t" "st t = Some to"
      using climb_top_total [OF sh, of p po ?prev] by blast
    with r(1) Some assms(2) show ?thesis by (auto simp: getTopParent_def Let_def)
  qed
qed

lemma count_total:
  assumes "store_ok its st" and "st c = Some oc" and "holds oc"
  shows "\<exists>n. getItemHoldingCount st c = Some n"
  using all_inside_facts [OF assms] by (auto simp: getItemHoldingCount_def)

lemma depot_full_total:
  assumes "store_ok its st" and c: "st c = Some oc" "holds oc" and x: "st x = Some ox" "kind ox \<noteq> DepotLocker"
  shows "\<exists>r. depot_full its st c x cnt flags = Some r"
proof -
  obtain rank where sh: "shape {} rank st" using assms(1) by (auto simp: store_ok_def)
  obtain tp where tp: "getTopParent st x = Some tp" using getTopParent_total [OF sh x(1)] by blast
  obtain n where n: "getItemHoldingCount st c = Some n" using count_total [OF assms(1) c] by blast
  have "is_container ox \<Longrightarrow> \<exists>m. getItemHoldingCount st x = Some m"
    using count_total [OF assms(1) x(1)] x(2) by (cases "kind ox") (auto simp: is_container_def holds_def)
  with tp n c x show ?thesis by (auto simp: depot_full_def)
qed

lemma ask_top_total:
  assumes "store_ok its st" and "st t = Some to" and x: "st x = Some ox" "kind ox \<noteq> DepotLocker"
  shows "\<exists>r. ask_top outer its st t x cnt flags = Some r"
proof (cases "kind to")
  case DepotChest
  then have "holds to" by (simp add: holds_def)
  then obtain r where "depot_full its st t x cnt flags = Some r"
    using depot_full_total [OF assms(1,2) _ x] by blast
  with DepotChest assms(2) show ?thesis by (simp add: ask_top_def)
qed (use assms in \<open>auto simp: ask_top_def inbox_queryAdd_def\<close>)

lemma container_queryAdd_facts:
  assumes "store_ok its st" and c: "st c = Some oc" "is_container oc" and x: "st x = Some ox" "kind ox \<noteq> DepotLocker"
  shows "\<exists>r. container_queryAdd outer its st c index x cnt flags = Some r \<and>
    (r = RETURNVALUE_NOERROR \<longrightarrow> \<not> hasBitSet FLAG_CHILDISOWNER flags \<longrightarrow> is_item ox \<and> c \<notin> under st x)"
proof -
  obtain rank where sh: "shape {} rank st" using assms(1) by (auto simp: store_ok_def)
  obtain g where g: "getParent st c = Some g" "\<forall>p. g = Some p \<longrightarrow> (\<exists>po. st p = Some po)"
    using getParent_total [OF sh c(1)] by blast
  let ?nl = "hasBitSet FLAG_NOLIMIT flags"
  obtain climbed where climbed: "(case g of None \<Rightarrow> Some None | Some p \<Rightarrow> climb_query st x ?nl p) = Some climbed"
      "climbed \<noteq> Some RETURNVALUE_NOERROR"
    using climb_query_total [OF sh x, of _ _ ?nl] g(2) by (cases g) fastforce+
  obtain t to where top: "getTopParent st c = Some (Some t)" "st t = Some to"
    using getTopParent_total [OF sh c(1)] c(2) by auto
  obtain a where a: "ask_top outer its st t x cnt (flags OR FLAG_CHILDISOWNER) = Some a"
    using ask_top_total [OF assms(1) top(2) x] by blast
  have free: "c \<notin> under st x" if "climbed = None" "x \<noteq> c"
  proof -
    have "climb_query st x True c = Some None"
    proof -
      have "climb_query st x True c = (case getParent st c of None \<Rightarrow> None | Some None \<Rightarrow> Some None
            | Some (Some p) \<Rightarrow> climb_query st x True p)"
        using c(1) that(2) by (subst climb_query.simps) simp
      moreover have "climb_query st x True p = Some None" if "climb_query st x b p = Some None" for b p
        using that
      proof (induction "rank p" arbitrary: p rule: less_induct)
        case less
        obtain po where po: "st p = Some po"
          using less.prems by (subst (asm) climb_query.simps) (auto split: option.splits)
        obtain r where r: "getParent st p = Some r" "\<forall>q. r = Some q \<longrightarrow> rank q < rank p"
          using getParent_total [OF sh po] by blast
        show ?case
          using less.prems less.hyps r po
          by (subst climb_query.simps, subst (asm) (2) climb_query.simps) (auto split: if_splits option.splits)
      qed
      ultimately show ?thesis using climbed(1) that(1) g by (cases g) auto
    qed
    with climb_query_total [OF sh x c(1), of True] show ?thesis by auto
  qed
  show ?thesis
    using c(1) x(1) g(1) climbed top a free
    by (auto simp: container_queryAdd_def split: option.split)
qed

lemma queryAdd_facts:
  assumes "store_ok its st" and c: "st c = Some oc" "holds oc" and x: "st x = Some ox" "kind ox \<noteq> DepotLocker"
  shows "\<exists>r. queryAdd outer its st c index x cnt flags = Some r \<and>
    (r = RETURNVALUE_NOERROR \<longrightarrow> \<not> hasBitSet FLAG_CHILDISOWNER flags \<longrightarrow> kind oc \<noteq> Inbox \<longrightarrow> is_item ox \<and> c \<notin> under st x)"
proof -
  have con: "is_container oc" using holds_container [OF c(2)] by simp
  obtain r where r: "container_queryAdd outer its st c index x cnt flags = Some r"
      "r = RETURNVALUE_NOERROR \<longrightarrow> \<not> hasBitSet FLAG_CHILDISOWNER flags \<longrightarrow> is_item ox \<and> c \<notin> under st x"
    using container_queryAdd_facts [OF assms(1) c(1) con x] by blast
  obtain f where f: "depot_full its st c x cnt flags = Some f" using depot_full_total [OF assms(1) c x] by blast
  have nf: "f \<noteq> Some RETURNVALUE_NOERROR"
    using f by (auto simp: depot_full_def split: Option.bind_splits if_splits)
  show ?thesis
    using c r f nf x(1)
    by (cases "kind oc") (auto simp: queryAdd_def holds_def inbox_queryAdd_def split: option.split)
qed

text \<open>No item is around an inbox: only its locker is, and what is no item.\<close>

lemma inbox_not_under:
  assumes sh: "shape E rank st" and c: "st c = Some oc" "kind oc = Inbox" and x: "st x = Some ox" "is_item ox" "kind ox \<noteq> DepotLocker"
    and "x \<noteq> c"
  shows "c \<notin> under st x"
proof
  assume "c \<in> under st x"
  then obtain l where l: "parent oc = Some l" "l \<in> under st x" using under_cases [of c st x] c(1) assms(7) by auto
  obtain lo where lo: "st l = Some lo" "fits oc lo" using shapeD(3) [OF sh c(1) l(1)] by blast
  then have k: "kind lo = DepotLocker" using c(2) by (simp add: fits_def)
  then have "l \<noteq> x" using lo(1) x by auto
  then obtain p where p: "parent lo = Some p" "p \<in> under st x" using under_cases [OF l(2)] lo(1) by auto
  obtain po where "st p = Some po" "fits lo po" using shapeD(3) [OF sh lo(1) p(1)] by blast
  then have "\<exists>xo. st x = Some xo \<and> kind xo = Outside" using outside_under [OF sh _ _ p(2)] k by (auto simp: fits_def)
  with x show False by (auto simp: is_item_def)
qed

lemma inbox_queryAdd_facts:
  "inbox_queryAdd its st c x flags = Some RETURNVALUE_NOERROR \<Longrightarrow> \<exists>ox. st x = Some ox \<and> is_item ox \<and> x \<noteq> c"
  by (auto simp: inbox_queryAdd_def split: Option.bind_splits if_splits)

lemma queryAdd_not_under:
  assumes "store_ok its st" and c: "st c = Some oc" "holds oc" and x: "st x = Some ox" "kind ox \<noteq> DepotLocker"
    and "\<not> hasBitSet FLAG_CHILDISOWNER flags"
    and q: "queryAdd outer its st c index x cnt flags = Some RETURNVALUE_NOERROR"
  shows "is_item ox \<and> c \<notin> under st x"
proof (cases "kind oc = Inbox")
  case True
  obtain rank where sh: "shape {} rank st" using assms(1) by (auto simp: store_ok_def)
  have "is_item ox" "x \<noteq> c" using inbox_queryAdd_facts [of its st c x flags] q c(1) x(1) True by (auto simp: queryAdd_def)
  with inbox_not_under [OF sh c(1) True x(1) _ x(2)] show ?thesis by blast
next
  case False
  with queryAdd_facts [OF assms(1) c x, of outer index cnt flags] q assms(6) show ?thesis by auto
qed

lemma queryAdd_guards:
  assumes "store_ok its st" and c: "st c = Some oc" "holds oc" and x: "st x = Some ox" "kind ox = Plain \<or> kind ox = PlainContainer"
    and "detached st x" and "\<not> hasBitSet FLAG_CHILDISOWNER flags"
    and q: "queryAdd outer its st c index x cnt flags = Some RETURNVALUE_NOERROR"
  shows "may_enter st c x"
proof -
  have "kind ox \<noteq> DepotLocker" using x(2) by auto
  from queryAdd_not_under [OF assms(1) c x(1) this assms(7) q] have "is_item ox" "c \<notin> under st x" by auto
  moreover have "fits ox oc" using x(2) c(2) by (auto simp: fits_def holds_def)
  ultimately show ?thesis using c x(1) assms(6) holds_container [OF c(2)] by (auto simp: may_enter_def)
qed

lemma stack_room_total:
  assumes "store_ok its st" and "st c = Some oc" and "holds oc" and "st x = Some ox" and "kind ox \<noteq> DepotLocker"
  shows "\<forall>y \<in> set ys. \<exists>ob. st y = Some ob \<Longrightarrow> \<exists>m. stack_room outer its st c x i flags slot n ys = Some m"
proof (induction ys arbitrary: slot n)
  case (Cons y ys)
  obtain ob where ob: "st y = Some ob" using Cons.prems by auto
  obtain r where r: "queryAdd outer its st c slot x (room_on (item ob)) flags = Some r"
    using queryAdd_facts [OF assms] by blast
  from Cons.IH Cons.prems have IH: "\<exists>m. stack_room outer its st c x i flags s k ys = Some m" for s k by simp
  show ?case using ob r IH by simp
qed simp

lemma queryMaxCount_total:
  assumes "store_ok its st" and c: "st c = Some oc" "holds oc" and x: "st x = Some ox" "kind ox \<noteq> DepotLocker"
  shows "\<exists>r. queryMaxCount outer its st c index x cnt flags = Some r"
proof -
  obtain rank where sh: "shape {} rank st" using assms(1) by (auto simp: store_ok_def)
  have mem: "\<forall>y \<in> set (itemlist oc). \<exists>ob. st y = Some ob"
    using shape_kid [OF sh, of _ c] c by (auto simp: kids_Some)
  obtain n where n: "stack_room outer its st c x (item ox) flags 0 0 (itemlist oc) = Some n"
    using stack_room_total [OF assms mem] by blast
  obtain d where d: "getItemByIndex st c index = Some d" using c(1) by (simp add: getItemByIndex_def)
  have "\<exists>k. (case d of None \<Rightarrow> Some 0
      | Some y \<Rightarrow> Option.bind (st y) (\<lambda>d. if item_equals (item ox) (Some (item d)) \<and> item_count (item d) < 100
          then Option.bind (queryAdd outer its st c index x (room_on (item d)) flags)
            (\<lambda>r. Some (if r = RETURNVALUE_NOERROR then room_on (item d) else 0)) else Some 0)) = Some k"
  proof (cases d)
    case (Some y)
    then have "y \<in> set (itemlist oc)"
      using d c(1) by (auto simp: getItemByIndex_def split: if_splits)
    then obtain yo where "st y = Some yo" using mem by blast
    with Some queryAdd_facts [OF assms, of outer index "room_on (item yo)" flags] show ?thesis by auto
  qed simp
  then obtain k where k: "(case d of None \<Rightarrow> Some 0
      | Some y \<Rightarrow> Option.bind (st y) (\<lambda>d. if item_equals (item ox) (Some (item d)) \<and> item_count (item d) < 100
          then Option.bind (queryAdd outer its st c index x (room_on (item d)) flags)
            (\<lambda>r. Some (if r = RETURNVALUE_NOERROR then room_on (item d) else 0)) else Some 0)) = Some k" by blast
  show ?thesis using c(1) x(1) n d k by (simp add: queryMaxCount_def Let_def)
qed

lemma find_stack_total:
  "\<forall>y \<in> set ys. \<exists>ob. st y = Some ob \<Longrightarrow>
    \<exists>r. find_stack st x i n ys = Some r \<and> (\<forall>k y. r = Some (k, y) \<longrightarrow> y \<in> set ys)"
proof (induction ys arbitrary: n)
  case (Cons y ys)
  then obtain ob where "st y = Some ob" by auto
  with Cons show ?case by fastforce
qed simp

lemma queryDestination_total:
  assumes "store_ok its st" and c: "st c = Some oc" "holds oc" and x: "st x = Some ox"
    and "\<And>y. dest = Some y \<Longrightarrow> \<exists>yo. st y = Some yo"
  shows "\<exists>r. queryDestination its st c index x dest flags = Some r"
proof -
  obtain rank where sh: "shape {} rank st" using assms(1) by (auto simp: store_ok_def)
  have mem: "\<forall>y \<in> set (itemlist oc). \<exists>ob. st y = Some ob"
    using shape_kid [OF sh, of _ c] c by (auto simp: kids_Some)
  obtain p where p: "getParent st x = Some p" using getParent_total [OF sh x] by blast
  obtain q where q: "getParentContainer st c = Some q" using getParentContainer_total [OF sh c(1)] by blast
  obtain f where f: "find_stack st x (item ox) 0 (itemlist oc) = Some f" using find_stack_total [OF mem] by blast
  define wherever where "wherever = (index = 255 \<or> index \<ge> sint (maxSize oc))"
  define i1 where "i1 = (if wherever then INDEX_WHEREEVER else index)"
  define dd where "dd = (if wherever then None else dest)"
  obtain d where d1: "getItemByIndex st c i1 = Some d" using c(1) by (simp add: getItemByIndex_def)
  then have "\<And>y. d = Some y \<Longrightarrow> y \<in> set (itemlist oc)"
    using c(1) by (auto simp: getItemByIndex_def split: if_splits)
  note d = d1 this
  have "\<exists>yo. st y = Some yo" if "(case d of Some y \<Rightarrow> Some y | None \<Rightarrow> dd) = Some y" for y
    using that d(2) mem assms(5) by (auto simp: dd_def split: option.splits if_splits)
  then have "\<exists>r. (case (case d of Some y \<Rightarrow> Some y | None \<Rightarrow> dd) of None \<Rightarrow> Some (c, i1, None)
      | Some y \<Rightarrow> Option.bind (st y) (\<lambda>yo. Some (if is_container yo then (y, INDEX_WHEREEVER, None) else (c, i1, Some y)))) = Some r"
    by (cases "case d of Some y \<Rightarrow> Some y | None \<Rightarrow> dd") auto
  then obtain r where r: "(case (case d of Some y \<Rightarrow> Some y | None \<Rightarrow> dd) of None \<Rightarrow> Some (c, i1, None)
      | Some y \<Rightarrow> Option.bind (st y) (\<lambda>yo. Some (if is_container yo then (y, INDEX_WHEREEVER, None) else (c, i1, Some y)))) = Some r"
    by blast
  show ?thesis
  proof (cases wherever)
    case True
    then have "(index = 255 \<or> sint (maxSize oc) \<le> index) = True" by (simp add: wherever_def)
    with c(1) x p q f show ?thesis
      by (auto simp: queryDestination_def simp del: disj_not1 split: option.split)
  next
    case False
    then have w: "index \<noteq> 255" "\<not> sint (maxSize oc) \<le> index" and e: "i1 = index" "dd = dest"
      by (simp_all add: wherever_def i1_def dd_def)
    from c(1) x p q f d(1) r w show ?thesis
      unfolding e by (cases r rule: prod_cases3) (auto simp: queryDestination_def split: option.split)
  qed
qed

end
