(* ===== verification/ContainerLife.thy ===== *)
theory ContainerLife
  imports ContainerSafety
begin

text \<open>
  The life of a store of containers as a state machine, and the properties of containers on every
  state it reaches: weights, walks, queries and operations.
\<close>

section \<open>Attributes of the items in a store\<close>

definition items_of :: "store \<Rightarrow> addr \<Rightarrow> Item option" where
  "items_of st a = map_option item (st a)"

definition items_ok :: "store \<Rightarrow> bool" where
  "items_ok st = (\<forall>a i. items_of st a = Some i \<longrightarrow> attrs_ok (item_attributes i))"

lemma items_of_upd: "upd a f st = Some st' \<Longrightarrow> (\<And>ob. item (f ob) = item ob) \<Longrightarrow> items_of st' = items_of st"
  by (rule ext) (auto simp: upd_def items_of_def split: option.splits)

lemma items_of_weight: "updateItemWeight st d c = Some st' \<Longrightarrow> items_of st' = items_of st"
proof (rule updateItemWeight.raw_induct [where P = "\<lambda>st d c st'. items_of st' = items_of st"])
  fix F and st :: store and d c st'
  assume IH: "\<And>st d c st'. F st d c = Some st' \<Longrightarrow> items_of st' = items_of st"
    and s: "(case upd c (\<lambda>ob. ob\<lparr>totalWeight := totalWeight ob + d\<rparr>) st of None \<Rightarrow> None
      | Some st1 \<Rightarrow> case getParentContainer st1 c of None \<Rightarrow> None | Some None \<Rightarrow> Some st1
          | Some (Some p) \<Rightarrow> F st1 d p) = Some st'"
  then obtain st1 where st1: "upd c (\<lambda>ob. ob\<lparr>totalWeight := totalWeight ob + d\<rparr>) st = Some st1"
      "(case getParentContainer st1 c of None \<Rightarrow> None | Some None \<Rightarrow> Some st1 | Some (Some p) \<Rightarrow> F st1 d p) = Some st'"
    by (auto split: option.splits)
  have "items_of st1 = items_of st" using items_of_upd [OF st1(1)] by simp
  moreover have "items_of st' = items_of st1" using st1(2) IH by (auto split: option.splits)
  ultimately show "items_of st' = items_of st" by simp
qed

lemma items_of_setParent: "setParent p x st = Some st' \<Longrightarrow> items_of st' = items_of st"
  unfolding setParent_def by (erule items_of_upd) simp

lemma items_of_push: "push_front c x st = Some st' \<Longrightarrow> items_of st' = items_of st"
  "push_back c x st = Some st' \<Longrightarrow> items_of st' = items_of st"
  unfolding push_front_def push_back_def by (erule items_of_upd, simp)+

lemma items_of_add_weight: "add_weight_of its c x st = Some st' \<Longrightarrow> items_of st' = items_of st"
  by (auto simp: add_weight_of_def split: Option.bind_splits dest: items_of_weight)

lemma items_of_put_front: "put_front its c x st = Some st' \<Longrightarrow> items_of st' = items_of st"
  by (auto simp: put_front_def split: Option.bind_splits dest!: items_of_setParent items_of_push items_of_add_weight)

lemma items_of_addItem: "addItem c x st = Some st' \<Longrightarrow> items_of st' = items_of st"
  by (auto simp: addItem_def split: Option.bind_splits dest!: items_of_setParent items_of_push)

lemma items_of_on_things:
  "on_things f w = Some w' \<Longrightarrow> (\<And>st'. f (things w) = Some st' \<Longrightarrow> items_of st' = it) \<Longrightarrow> items_of (things w') = it"
  by (auto simp: on_things_def)

lemma notify_things: "notify b e c w = Some w' \<Longrightarrow> things w' = things w"
  by (auto simp: notify_def split: option.splits if_splits)

lemma on_things_Some: "on_things f w = Some w' \<longleftrightarrow> (\<exists>st. f (things w) = Some st \<and> w' = w\<lparr>things := st\<rparr>)"
  by (auto simp: on_things_def)

lemmas items_of_steps = items_of_weight items_of_setParent items_of_put_front items_of_addItem items_of_add_weight

lemma items_of_adding:
  "addThing its c index x w = Some w' \<Longrightarrow> items_of (things w') = items_of (things w)"
  "addItemBack its c x w = Some w' \<Longrightarrow> items_of (things w') = items_of (things w)"
  "internalAddThing its c x w = Some w' \<Longrightarrow> items_of (things w') = items_of (things w)"
  by (auto simp: addThing_def addItemBack_def internalAddThing_def on_things_Some
      split: Option.bind_splits if_splits option.splits dest!: notify_things items_of_steps)

lemma items_of_replacing:
  "replaceThing its c index x w = Some w' \<Longrightarrow> items_of (things w') = items_of (things w)"
  by (auto simp: replaceThing_def on_things_Some
      split: Option.bind_splits if_splits option.splits dest!: notify_things items_of_steps items_of_upd)

section \<open>Changes of one item\<close>

lemma item_removeAttribute_ok:
  assumes "attrs_ok (item_attributes i)"
  shows "\<exists>j. item_removeAttribute t i = Some j \<and> attrs_ok (item_attributes j)"
proof (cases "item_attrs i")
  case None
  with assms show ?thesis by (simp add: item_removeAttribute_def)
next
  case (Some a)
  then obtain b where "removeAttribute t a = Some b" "attrs_ok b"
    using removeAttribute_keeps [of a t] assms by (auto simp: item_attributes_def)
  with Some show ?thesis by (simp add: item_removeAttribute_def item_attributes_def)
qed

lemma attrs_ok_setID [simp]: "attrs_ok (item_attributes (i\<lparr>item_id := n\<rparr>)) = attrs_ok (item_attributes i)"
  by (simp add: item_attributes_def)

lemma setID_ok:
  assumes "attrs_ok (item_attributes i)"
  shows "\<exists>j. setID its n i = Some j \<and> attrs_ok (item_attributes j)"
proof -
  let ?it = "its n" and ?i0 = "i\<lparr>item_id := n\<rparr>"
  have "attrs_ok (item_attributes ?i0)" using assms by simp
  then obtain j1 where j1: "item_removeAttribute ITEM_ATTRIBUTE_DECAYSTATE ?i0 = Some j1" "attrs_ok (item_attributes j1)"
    using item_removeAttribute_ok by blast
  then obtain j2 where j2: "item_removeAttribute ITEM_ATTRIBUTE_DURATION j1 = Some j2" "attrs_ok (item_attributes j2)"
    using item_removeAttribute_ok by blast
  define i1 where "i1 = (if decayTime ?it * 1000 = 0 \<and> \<not> stopTime ?it \<and> decayTo ?it < 0 then j2 else ?i0)"
  have "attrs_ok (item_attributes i1)" using assms j2 by (simp add: i1_def)
  then obtain i2 where i2: "item_removeAttribute ITEM_ATTRIBUTE_CORPSEOWNER i1 = Some i2" "attrs_ok (item_attributes i2)"
    using item_removeAttribute_ok by blast
  have "setID its n i = Some (if decayTime ?it * 1000 > 0 \<and> (\<not> stopTime (its (item_id i)) \<or> \<not> item_hasAttribute ITEM_ATTRIBUTE_DURATION i2)
      then setIntAttr ITEM_ATTRIBUTE_DURATION (decayTime ?it * 1000) (setIntAttr ITEM_ATTRIBUTE_DECAYSTATE 0 i2) else i2)"
    using i2(1) j1(1) j2(1) unfolding i1_def by (auto simp: setID_def Let_def split: if_splits)
  then show ?thesis using i2(2) by (simp add: item_attributes_set)
qed

lemma setSubType_ok: "attrs_ok (item_attributes i) \<Longrightarrow> attrs_ok (item_attributes (setSubType its n i))"
  by (simp add: setSubType_def setFluidType_def setCharges_def item_attributes_set)

lemma items_ok_change: "items_ok st \<Longrightarrow> attrs_ok (item_attributes i) \<Longrightarrow> items_of st' = (items_of st)(x \<mapsto> i) \<Longrightarrow> items_ok st'"
  by (simp add: items_ok_def)

lemma items_ok_same: "items_ok st \<Longrightarrow> items_of st' = items_of st \<Longrightarrow> items_ok st'"
  by (simp add: items_ok_def)

lemma items_of_item: "st x = Some ob \<Longrightarrow> items_of (st(x \<mapsto> ob\<lparr>item := i\<rparr>)) = (items_of st)(x \<mapsto> i)"
  by (auto simp: items_of_def fun_eq_iff)

lemma updateThing_items:
  assumes "updateThing its c x itemId cnt w = Some w'" and "items_ok (things w)"
  shows "items_ok (things w')"
proof -
  consider "w' = w"
    | i1 ob st where "things w x = Some ob" "setID its itemId (item ob) = Some i1"
        "updateItemWeight ((things w)(x \<mapsto> ob\<lparr>item := setSubType its (ucast cnt) i1\<rparr>))
           (- getThingWeight its ob + getThingWeight its (ob\<lparr>item := setSubType its (ucast cnt) i1\<rparr>)) c = Some st" "things w' = st"
    using assms(1) by (auto simp: updateThing_def on_things_Some Let_def split: Option.bind_splits if_splits dest!: notify_things)
  then show ?thesis
  proof cases
    case 2
    have "attrs_ok (item_attributes (item ob))" using assms(2) 2(1) by (auto simp: items_ok_def items_of_def)
    then have "attrs_ok (item_attributes i1)" using setID_ok [of "item ob" its itemId] 2(2) by auto
    with items_ok_change [OF assms(2) setSubType_ok [OF this]] items_of_weight [OF 2(3)] items_of_item [of "things w" x ob] 2(1,4)
    show ?thesis by metis
  qed (use assms in simp)
qed

lemma removeThing_items:
  assumes "removeThing its c x cnt w = Some w'" and "items_ok (things w)"
  shows "items_ok (things w')"
proof -
  consider "items_of (things w') = items_of (things w)"
    | ob where "things w x = Some ob"
        "items_of (things w') =
           items_of ((things w)(x \<mapsto> ob\<lparr>item := setItemCount (less_count (item_count (item ob)) cnt) (item ob)\<rparr>))"
    using assms(1) by (auto simp: removeThing_def on_things_Some Let_def split: Option.bind_splits if_splits
        dest!: notify_things items_of_steps items_of_upd)
  then show ?thesis
  proof cases
    case 2
    have "attrs_ok (item_attributes (item ob))" using assms(2) 2(1) by (auto simp: items_ok_def items_of_def)
    then have "attrs_ok (item_attributes (setItemCount n (item ob)))" for n by simp
    from items_ok_change [OF assms(2) this] items_of_item [of "things w" x ob] 2
    show ?thesis by metis
  qed (use assms items_ok_same in blast)
qed

section \<open>The store over time\<close>

definition virtual_thing :: thing where
  "virtual_thing =
     \<lparr>kind = Outside, item = \<lparr>item_id = 0, item_count = 1, item_attrs = None\<rparr>, parent = None, maxSize = 0,
      totalWeight = 0, itemlist = [], unlocked = False, maxDepotItems = 0\<rparr>"

definition empty_world :: world where
  "empty_world = \<lparr>things = [virtualCylinder \<mapsto> virtual_thing], told = []\<rparr>"

definition fresh_thing :: "thing \<Rightarrow> bool" where
  "fresh_thing ob = (parent ob = None \<and> itemlist ob = [] \<and> totalWeight ob = 0 \<and> attrs_ok (item_attributes (item ob)))"

text \<open>Which moves the server makes: things are created; an item outside every container is put on a
  tile or a creature; loading adds without a query what its caller knows to be new; playing adds
  what a query lets in; and items are removed, replaced and changed.\<close>

inductive con_step :: "items \<Rightarrow> world \<Rightarrow> world \<Rightarrow> bool" for its where
  create: "things w a = None \<Longrightarrow> fresh_thing ob \<Longrightarrow> con_step its w (w\<lparr>things := (things w)(a \<mapsto> ob)\<rparr>)"
| lay: "things w x = Some ox \<Longrightarrow> is_item ox \<Longrightarrow> detached (things w) x \<Longrightarrow>
    things w t = Some to \<Longrightarrow> kind to = Outside \<Longrightarrow> fits ox to \<Longrightarrow> t \<notin> under (things w) x \<Longrightarrow>
    setParent (Some t) x (things w) = Some st \<Longrightarrow> con_step its w (w\<lparr>things := st\<rparr>)"
| lift: "detached (things w) x \<Longrightarrow> setParent None x (things w) = Some st \<Longrightarrow> con_step its w (w\<lparr>things := st\<rparr>)"
| load: "may_enter (things w) c x \<Longrightarrow> internalAddThing its c x w = Some w' \<Longrightarrow> con_step its w w'"
| add: "things w c = Some oc \<Longrightarrow> holds oc \<Longrightarrow> things w x = Some ox \<Longrightarrow> kind ox = Plain \<or> kind ox = PlainContainer \<Longrightarrow>
    detached (things w) x \<Longrightarrow> \<not> hasBitSet FLAG_CHILDISOWNER flags \<Longrightarrow>
    queryAdd outer its (things w) c index x cnt flags = Some RETURNVALUE_NOERROR \<Longrightarrow>
    addThing its c index x w = Some w' \<Longrightarrow> con_step its w w'"
| add_back: "things w c = Some oc \<Longrightarrow> holds oc \<Longrightarrow> things w x = Some ox \<Longrightarrow> kind ox = Plain \<or> kind ox = PlainContainer \<Longrightarrow>
    detached (things w) x \<Longrightarrow> \<not> hasBitSet FLAG_CHILDISOWNER flags \<Longrightarrow>
    queryAdd outer its (things w) c index x cnt flags = Some RETURNVALUE_NOERROR \<Longrightarrow>
    addItemBack its c x w = Some w' \<Longrightarrow> con_step its w w'"
| remove: "things w c = Some oc \<Longrightarrow> holds oc \<Longrightarrow> removeThing its c x cnt w = Some w' \<Longrightarrow> con_step its w w'"
| replace: "things w c = Some oc \<Longrightarrow> holds oc \<Longrightarrow> may_enter (things w) c x \<Longrightarrow>
    replaceThing its c index x w = Some w' \<Longrightarrow> con_step its w w'"
| update: "things w c = Some oc \<Longrightarrow> holds oc \<Longrightarrow> updateThing its c x itemId cnt w = Some w' \<Longrightarrow> con_step its w w'"

inductive con_reach :: "items \<Rightarrow> world \<Rightarrow> bool" for its where
  init: "con_reach its empty_world"
| step: "con_reach its w \<Longrightarrow> con_step its w w' \<Longrightarrow> con_reach its w'"

definition world_ok :: "items \<Rightarrow> world \<Rightarrow> bool" where
  "world_ok its w = (store_ok its (things w) \<and> items_ok (things w))"

lemma empty_world_ok: "world_ok its empty_world"
proof -
  have "kids (things empty_world) = (\<lambda>_. [])"
    by (auto simp: empty_world_def kids_def virtual_thing_def fun_eq_iff)
  moreover have "parent virtual_thing = None" "attrs_ok (item_attributes (item virtual_thing))" "\<not> holds virtual_thing"
    by (simp_all add: virtual_thing_def item_attributes_def holds_def)
  ultimately show ?thesis
    by (auto simp: world_ok_def store_ok_def shape_def weights_off_def empty_world_def items_ok_def items_of_def split: if_splits)
qed

lemma create_ok:
  assumes "world_ok its w" and new: "things w a = None" and ob: "fresh_thing ob"
  shows "world_ok its (w\<lparr>things := (things w)(a \<mapsto> ob)\<rparr>)"
proof -
  let ?st = "things w" and ?st' = "(things w)(a \<mapsto> ob)"
  obtain rank where sh: "shape {} rank ?st" and off: "weights_off its (\<lambda>_. 0) ?st" and it: "items_ok ?st"
    using assms(1) by (auto simp: world_ok_def store_ok_def)
  have kids: "kids ?st' = kids ?st" using new ob by (auto simp: kids_def fresh_thing_def fun_eq_iff)
  have "a \<notin> set (kids ?st k)" for k using shape_kid [OF sh] new by fastforce
  then have load: "load its ?st' k = load its ?st k" for k
    unfolding load_def kids by (intro arg_cong [of _ _ sum_list] map_cong) (auto simp: wt_def)
  have "shape {} rank ?st'"
    unfolding shape_def kids
  proof (intro conjI allI impI)
    show "finite (dom ?st')" using sh by (simp add: shape_def)
    fix b o1 assume b: "?st' b = Some o1"
    show "distinct (kids ?st b)"
      using shapeD(1) [OF sh, of b] by (cases "?st b") (auto simp: kids_def)
    fix p assume p: "parent o1 = Some p"
    have o1: "?st b = Some o1" using b p ob by (auto simp: fresh_thing_def split: if_splits)
    show "rank p < rank b" by (rule shapeD(2) [OF sh o1 p])
    obtain po where "?st p = Some po" "fits o1 po" "holds po \<longrightarrow> b \<in> set (itemlist po)" using shapeD(3) [OF sh o1 p] by auto
    then show "\<exists>po. ?st' p = Some po \<and> fits o1 po \<and> (holds po \<longrightarrow> b \<notin> {} \<longrightarrow> b \<in> set (itemlist po))" using new by auto
  next
    fix c x assume "x \<in> set (kids ?st c)"
    from shape_kid [OF sh this] show "\<exists>ob'. ?st' x = Some ob' \<and> is_item ob' \<and> parent ob' = Some c" using new by auto
  qed
  moreover have "weights_off its (\<lambda>_. 0) ?st'"
    unfolding weights_off_def load
  proof (intro allI impI)
    fix c o1 assume "?st' c = Some o1" "holds o1"
    then show "totalWeight o1 + 0 = load its ?st c"
      using off ob new by (cases "c = a") (auto simp: weights_off_def fresh_thing_def load_def kids_def)
  qed
  moreover have "items_ok ?st'" using it ob by (auto simp: items_ok_def items_of_def fresh_thing_def split: if_splits)
  ultimately show ?thesis by (auto simp: world_ok_def store_ok_def)
qed

lemma lay_ok:
  assumes "store_ok its st" and x: "st x = Some ox" "is_item ox" "detached st x"
    and t: "st t = Some to" "kind to = Outside" "fits ox to" "t \<notin> under st x"
  shows "store_ok its (st(x \<mapsto> ox\<lparr>parent := Some t\<rparr>))"
proof -
  obtain rank where sh: "shape {} rank st" and off: "weights_off its (\<lambda>_. 0) st" using assms(1) by (auto simp: store_ok_def)
  have xt: "x \<noteq> t" using t(4) by auto
  have nh: "\<not> holds to" using t(2) by (simp add: holds_def)
  have e: "link x ox t to (itemlist to) st = st(x \<mapsto> ox\<lparr>parent := Some t\<rparr>)"
    using t(1) xt by (auto simp: fun_eq_iff)
  obtain rank' where "shape {} rank' (link x ox t to (itemlist to) st)"
    using shape_link [OF sh x(1) t(1) x(2) t(3) x(3) t(4), of "itemlist to"] nh by auto
  moreover have "weights_off its (\<lambda>k. if k = t then 0 else 0) (link x ox t to (itemlist to) st)"
    by (rule weights_off_link [OF off x(1) t(1) xt]) (use nh in simp)
  ultimately show ?thesis unfolding e store_ok_def by auto
qed

lemma lift_ok:
  assumes "store_ok its st" and x: "st x = Some ox" "detached st x"
  shows "store_ok its (st(x \<mapsto> ox\<lparr>parent := None\<rparr>))"
proof -
  let ?st = "st(x \<mapsto> ox\<lparr>parent := None\<rparr>)"
  obtain rank where sh: "shape {} rank st" and off: "weights_off its (\<lambda>_. 0) st" using assms(1) by (auto simp: store_ok_def)
  have "shape {} rank ?st" by (rule shape_orphan [OF sh x]) simp
  moreover have "kids ?st = kids st" "wt its ?st = wt its st" using x(1) by (auto simp: kids_def wt_def fun_eq_iff)
  then have "load its ?st k = load its st k" for k by (simp only: load_def)
  then have "weights_off its (\<lambda>_. 0) ?st"
    using off x(1) by (auto simp: weights_off_def split: if_splits)
  ultimately show ?thesis by (auto simp: store_ok_def)
qed

lemma con_step_ok:
  assumes "con_step its w w'" and "world_ok its w"
  shows "world_ok its w'"
proof -
  have ok: "store_ok its (things w)" "items_ok (things w)" using assms(2) by (auto simp: world_ok_def)
  from assms(1) show ?thesis
  proof cases
    case (create a ob)
    then show ?thesis using create_ok [OF assms(2)] by simp
  next
    case (lay x ox t to st)
    then have "st = (things w)(x \<mapsto> ox\<lparr>parent := Some t\<rparr>)" by (simp add: setParent_def upd_def)
    then have "store_ok its st" using lay_ok [OF ok(1) lay(2-8)] by simp
    with lay items_ok_same [OF ok(2) items_of_setParent] show ?thesis by (simp add: world_ok_def)
  next
    case (lift x st)
    then obtain ox where "things w x = Some ox" "st = (things w)(x \<mapsto> ox\<lparr>parent := None\<rparr>)"
      by (auto simp: setParent_def upd_def split: option.splits)
    with lift_ok [OF ok(1)] lift items_ok_same [OF ok(2) items_of_setParent] show ?thesis by (simp add: world_ok_def)
  next
    case (load c x)
    with internalAddThing_ok [OF ok(1) load(1)] items_ok_same [OF ok(2) items_of_adding(3)]
    show ?thesis by (auto simp: world_ok_def)
  next
    case (add c oc x ox flags outer index cnt)
    then have "may_enter (things w) c x" using queryAdd_guards [OF ok(1)] by blast
    from addThing_ok [OF ok(1) this, of index] add items_ok_same [OF ok(2) items_of_adding(1)]
    show ?thesis by (auto simp: world_ok_def)
  next
    case (add_back c oc x ox flags outer index cnt)
    then have "may_enter (things w) c x" using queryAdd_guards [OF ok(1)] by blast
    from addItemBack_ok [OF ok(1) this] add_back items_ok_same [OF ok(2) items_of_adding(2)]
    show ?thesis by (auto simp: world_ok_def)
  next
    case (remove c oc x cnt)
    then obtain ox where "things w x = Some ox" by (auto simp: removeThing_def split: Option.bind_splits)
    from removeThing_ok [OF ok(1) remove(1,2) this, of cnt] remove removeThing_items [OF remove(3) ok(2)]
    show ?thesis by (auto simp: world_ok_def)
  next
    case (replace c oc x index)
    from replaceThing_ok [OF ok(1) replace(1-3), of index] replace items_ok_same [OF ok(2) items_of_replacing]
    show ?thesis by (auto simp: world_ok_def)
  next
    case (update c oc x itemId cnt)
    have "\<And>ox. things w x = Some ox \<Longrightarrow> setID its itemId (item ox) \<noteq> None"
      using ok(2) setID_ok by (fastforce simp: items_ok_def items_of_def)
    then have "\<exists>w'. updateThing its c x itemId cnt w = Some w' \<and> store_ok its (things w')"
      by (intro updateThing_ok [OF ok(1) update(1,2)])
    with update updateThing_items [OF update(3) ok(2)]
    show ?thesis by (auto simp: world_ok_def)
  qed
qed

lemma con_reach_ok: "con_reach its w \<Longrightarrow> world_ok its w"
  by (induction rule: con_reach.induct) (auto intro: empty_world_ok con_step_ok)

section \<open>Properties\<close>



text \<open>C6: a loop over the iterator of a container ends, sees everything inside the container exactly
  once and sees the container's own list first; so \<open>getItemHoldingCount\<close> counts the items inside
  and \<open>isHoldingItem\<close> decides whether an item is among them.\<close>

theorem iterator_visits_contents:
  assumes "con_reach its w" and "things w c = Some oc" and "holds oc"
  shows "(\<exists>xs. all_inside (things w) c = Some xs \<and> distinct xs \<and> set xs = inside (things w) c \<and>
        take (length (itemlist oc)) xs = itemlist oc) \<and>
    getItemHoldingCount (things w) c = Some (of_nat (card (inside (things w) c))) \<and>
    isHoldingItem (things w) c x = Some (x \<in> inside (things w) c)"
proof -
  obtain xs ys where "all_inside (things w) c = Some xs" "distinct xs" "set xs = inside (things w) c" "xs = itemlist oc @ ys"
    using all_inside_facts [of its "things w" c oc] con_reach_ok [OF assms(1)] assms(2,3) by (auto simp: world_ok_def)
  then show ?thesis
    using distinct_card [of xs] by (auto simp: getItemHoldingCount_def isHoldingItem_def)
qed

text \<open>C33: the queries and operations of an inbox, a depot chest or a plain container return: no climb
  through the parents runs in circles or meets a dangling pointer.  The thing they are asked about is
  any thing but a depot locker, inside the container or elsewhere; \<open>queryDestination\<close> may be given any
  item that exists; and the operations that add are given a thing that may enter (\<open>may_enter\<close>: it is in
  no container, and none of its own contents is the container), which is what \<open>queryAdd\<close> and the removal
  from its former place see to.\<close>

theorem container_calls_return:
  assumes "con_reach its w" and "things w c = Some oc" and "holds oc"
    and "things w x = Some ox" and "kind ox \<noteq> DepotLocker"
  shows "queryAdd outer its (things w) c index x cnt flags \<noteq> None \<and>
    queryMaxCount outer its (things w) c index x cnt flags \<noteq> None \<and>
    queryRemove its (things w) c x cnt flags \<noteq> None \<and>
    ((\<forall>y. dest = Some y \<longrightarrow> things w y \<noteq> None) \<longrightarrow> queryDestination its (things w) c index x dest flags \<noteq> None) \<and>
    getTopParent (things w) x \<noteq> None \<and> getItemHoldingCount (things w) c \<noteq> None \<and>
    removeThing its c x cnt w \<noteq> None \<and> updateThing its c x itemId cnt w \<noteq> None \<and>
    (may_enter (things w) c x \<longrightarrow> addThing its c index x w \<noteq> None \<and> addItemBack its c x w \<noteq> None \<and>
       internalAddThing its c x w \<noteq> None \<and> replaceThing its c index x w \<noteq> None)"
proof -
  have ok: "store_ok its (things w)" "items_ok (things w)" using con_reach_ok [OF assms(1)] by (auto simp: world_ok_def)
  obtain rank where sh: "shape {} rank (things w)" using ok(1) by (auto simp: store_ok_def)
  have "\<And>ox. things w x = Some ox \<Longrightarrow> setID its itemId (item ox) \<noteq> None"
    using ok(2) setID_ok by (fastforce simp: items_ok_def items_of_def)
  then have "\<exists>w'. updateThing its c x itemId cnt w = Some w' \<and> store_ok its (things w')"
    by (intro updateThing_ok [OF ok(1) assms(2,3)])
  then have "updateThing its c x itemId cnt w \<noteq> None" by auto
  moreover have "queryAdd outer its (things w) c index x cnt flags \<noteq> None"
    using queryAdd_facts [OF ok(1) assms(2-5), of outer index cnt flags] by auto
  moreover have "queryMaxCount outer its (things w) c index x cnt flags \<noteq> None"
    using queryMaxCount_total [OF ok(1) assms(2-5), of outer index cnt flags] by auto
  moreover have "queryRemove its (things w) c x cnt flags \<noteq> None"
    using assms(2,4) by (auto simp: queryRemove_def getThingIndex_def)
  moreover have "(\<forall>y. dest = Some y \<longrightarrow> things w y \<noteq> None) \<Longrightarrow> queryDestination its (things w) c index x dest flags \<noteq> None"
    using queryDestination_total [OF ok(1) assms(2-4), of dest index flags] by auto
  moreover have "getItemHoldingCount (things w) c \<noteq> None" using count_total [OF ok(1) assms(2,3)] by auto
  moreover have "getTopParent (things w) x \<noteq> None" using getTopParent_total [OF sh assms(4)] by auto
  moreover have "removeThing its c x cnt w \<noteq> None" using removeThing_ok [OF ok(1) assms(2-4), of cnt] by auto
  moreover have "may_enter (things w) c x \<Longrightarrow> addThing its c index x w \<noteq> None \<and> addItemBack its c x w \<noteq> None \<and>
      internalAddThing its c x w \<noteq> None \<and> replaceThing its c index x w \<noteq> None"
    using addThing_ok [OF ok(1), of c x index] addItemBack_ok [OF ok(1), of c x] internalAddThing_ok [OF ok(1), of c x]
      replaceThing_ok [OF ok(1) assms(2,3), of x index] by auto
  ultimately show ?thesis by blast
qed


lemma unat_ucast_8_32 [simp]: "unat (ucast (k :: u8) :: u32) = unat k"
  using unsigned_less [of k, where 'a = nat] by (simp add: unsigned_ucast_eq take_bit_nat_eq_self)

lemma less_count_exact:
  assumes "n \<le> ucast (k :: u8)"
  shows "unat (less_count k n) = unat k - unat n"
proof -
  let ?d = "ucast k - n :: u32"
  have k: "unat (ucast k :: u32) = unat k" "unat k < 256"
    using unsigned_less [of k, where 'a = nat] by simp_all
  have d: "unat ?d = unat k - unat n" using assms k(1) by (simp add: unat_sub)
  then have "uint ?d < 256" using k(2) by (metis (mono_tags, lifting) diff_le_self le_less_trans of_nat_less_iff of_nat_numeral uint_nat)
  then have "signed_take_bit 31 (uint ?d) = uint ?d" by (intro signed_take_bit_int_eq_self) (auto intro: order_trans [of _ 0])
  then have "0 \<le> sint ?d" unfolding sint_uint by simp
  then have "less_count k n = ucast ?d" by (simp add: less_count_def)
  then show ?thesis using d k(2) by (simp add: unsigned_ucast_eq unsigned_take_bit_eq take_bit_nat_eq_self)
qed

text \<open>C32: a removal takes exactly what was asked for: when \<open>queryRemove\<close> allows it, \<open>removeThing\<close>
  of a part of a stack leaves the rest of the stack in its place, with the count reduced by
  exactly that part, and any other removal takes the item out of the list and leaves it whole,
  with no parent; no other list and no other item changes.\<close>

theorem removal_is_exact:
  assumes "con_reach its w" and "things w c = Some oc" and "holds oc" and "things w x = Some ox"
    and "queryRemove its (things w) c x cnt flags = Some RETURNVALUE_NOERROR"
  shows "\<exists>w' ox'. removeThing its c x cnt w = Some w' \<and> things w' x = Some ox' \<and>
    (if stackable (its (item_id (item ox))) \<and> cnt \<noteq> ucast (item_count (item ox))
     then kids (things w') = kids (things w) \<and>
       unat (item_count (item ox')) = unat (item_count (item ox)) - unat cnt \<and> unat cnt \<le> unat (item_count (item ox)) \<and>
       item_id (item ox') = item_id (item ox) \<and> item_attrs (item ox') = item_attrs (item ox)
     else kids (things w') = (kids (things w))(c := remove1 x (kids (things w) c)) \<and>
       item ox' = item ox \<and> parent ox' = None) \<and>
    (\<forall>y. y \<noteq> x \<longrightarrow> items_of (things w') y = items_of (things w) y)"
proof -
  let ?st = "things w" and ?n = "item_count (item ox)"
  have ok: "store_ok its ?st" using con_reach_ok [OF assms(1)] by (simp add: world_ok_def)
  obtain rank where sh: "shape {} rank ?st" using ok by (auto simp: store_ok_def)
  obtain i where i: "getThingIndex ?st c x = Some i" using assms(2) by (simp add: getThingIndex_def)
  have q: "i \<noteq> -1" "is_item ox" "stackable (its (item_id (item ox))) \<Longrightarrow> cnt \<le> ucast ?n"
    using assms(4,5) i by (auto simp: queryRemove_def Let_def not_less split: Option.bind_splits if_splits)
  have mem: "x \<in> set (itemlist oc)" using getThingIndex_cases [OF i assms(2)] q(1) by auto
  then have xc: "x \<noteq> c" using kid_distinct [OF sh, of x c] assms(2,3) by (simp add: kids_Some)
  let ?st' = "after_removal its c oc x ox cnt ?st"
  obtain w' where w': "removeThing its c x cnt w = Some w'" "same_but_weight ?st' (things w')"
    using removeThing_ok [OF ok assms(2-4), of cnt] q(2) mem by auto
  have x': "\<exists>v. things w' x = Some (ob\<lparr>totalWeight := v\<rparr>)" if "?st' x = Some ob" for ob
    by (rule same_but_weightD [OF w'(2) that])
  have kids: "kids (things w') = kids ?st'" by (rule same_but_weight_kids [OF w'(2)])
  have items: "items_of (things w') y = items_of ?st' y" for y
    using same_but_weightD [OF w'(2), of y] same_but_weight_None [OF w'(2), of y]
    by (cases "?st' y") (auto simp: items_of_def)
  show ?thesis
  proof (cases "stackable (its (item_id (item ox))) \<and> cnt \<noteq> ucast ?n")
    case True
    have st': "?st' = ?st(x \<mapsto> ox\<lparr>item := setItemCount (less_count ?n cnt) (item ox)\<rparr>)"
      using True by (simp add: after_removal_def)
    have "kids ?st' = kids ?st" unfolding st' using assms(4) by (rule wt_item(2))
    moreover have "unat cnt \<le> unat ?n" using q(3) True by (simp add: word_le_nat_alt)
    moreover have "items_of ?st' y = items_of ?st y" if "y \<noteq> x" for y using that by (simp add: st' items_of_def)
    moreover obtain v where "things w' x = Some (ox\<lparr>item := setItemCount (less_count ?n cnt) (item ox), totalWeight := v\<rparr>)"
      using x' [of "ox\<lparr>item := setItemCount (less_count ?n cnt) (item ox)\<rparr>"] by (auto simp: st')
    ultimately show ?thesis
      using True w'(1) kids items less_count_exact [OF q(3)] by (simp add: setItemCount_def)
  next
    case False
    have st': "?st' = ?st(x \<mapsto> ox\<lparr>parent := None\<rparr>, c \<mapsto> oc\<lparr>itemlist := remove1 x (itemlist oc)\<rparr>)"
      using False by (auto simp: after_removal_def)
    have "kids ?st' = (kids ?st)(c := remove1 x (kids ?st c))"
      using assms(2-4) xc by (auto simp: st' kids_def fun_eq_iff)
    moreover have "items_of ?st' y = items_of ?st y" for y using assms(2,4) xc by (simp add: st' items_of_def)
    moreover obtain v where "things w' x = Some (ox\<lparr>parent := None, totalWeight := v\<rparr>)"
      using x' [of "ox\<lparr>parent := None\<rparr>"] xc by (auto simp: st')
    ultimately show ?thesis using False w'(1) kids items by auto
  qed
qed

end
