(* ===== verification/ContainerExample.thy ===== *)
theory ContainerExample
  imports ContainerLife
begin

text \<open>
  A concrete store: twelve coins in a bag in a backpack, reached by the steps of the server, on
  which the properties of containers are applied.
\<close>

definition shop :: items where
  "shop t = \<lparr>isFluidContainer = False, isSplash = False, stackable = (t = 2148), moveable = True, pickupable = True,
     stopTime = False, decayTo = -1, charges = 0, decayTime = 0, weight = (if t = 2148 then 10 else 800)\<rparr>"

definition bag :: thing where "bag = new_container shop 1987 8"
definition pack :: thing where "pack = new_container shop 1988 20"
definition coins :: thing where "coins = new_thing shop Plain 0 False 2148 12"

definition laid_out :: world where
  "laid_out = \<lparr>things = [virtualCylinder \<mapsto> virtual_thing, 1 \<mapsto> bag, 2 \<mapsto> pack, 3 \<mapsto> coins], told = []\<rparr>"

definition bagged :: world where
  "bagged = \<lparr>things = [virtualCylinder \<mapsto> virtual_thing, 1 \<mapsto> bag\<lparr>itemlist := [3], totalWeight := 120\<rparr>, 2 \<mapsto> pack,
      3 \<mapsto> coins\<lparr>parent := Some 1\<rparr>], told = []\<rparr>"

definition packed :: world where
  "packed = \<lparr>things = [virtualCylinder \<mapsto> virtual_thing, 1 \<mapsto> bag\<lparr>itemlist := [3], totalWeight := 120, parent := Some 2\<rparr>,
      2 \<mapsto> pack\<lparr>itemlist := [1], totalWeight := 920\<rparr>, 3 \<mapsto> coins\<lparr>parent := Some 1\<rparr>], told = []\<rparr>"

lemma shop_items [simp]:
  "new_item shop 1987 0 = \<lparr>item_id = 1987, item_count = 1, item_attrs = None\<rparr>"
  "new_item shop 1988 0 = \<lparr>item_id = 1988, item_count = 1, item_attrs = None\<rparr>"
  "new_item shop 2148 12 = \<lparr>item_id = 2148, item_count = 12, item_attrs = None\<rparr>"
  by (simp_all add: new_item_def shop_def setItemCount_def)

lemma shop_fields [simp]:
  "stackable (shop t) = (t = 2148)" "pickupable (shop t)" "moveable (shop t)"
  by (simp_all add: shop_def)

lemma fields [simp]:
  "bag = \<lparr>kind = PlainContainer, item = \<lparr>item_id = 1987, item_count = 1, item_attrs = None\<rparr>, parent = None, maxSize = 8,
     totalWeight = 0, itemlist = [], unlocked = True, maxDepotItems = 0\<rparr>"
  "pack = \<lparr>kind = PlainContainer, item = \<lparr>item_id = 1988, item_count = 1, item_attrs = None\<rparr>, parent = None, maxSize = 20,
     totalWeight = 0, itemlist = [], unlocked = True, maxDepotItems = 0\<rparr>"
  "coins = \<lparr>kind = Plain, item = \<lparr>item_id = 2148, item_count = 12, item_attrs = None\<rparr>, parent = None, maxSize = 0,
     totalWeight = 0, itemlist = [], unlocked = False, maxDepotItems = 0\<rparr>"
  by (simp_all add: bag_def pack_def coins_def new_container_def new_thing_def)

lemma shop_weights [simp]:
  "getWeight shop \<lparr>item_id = 1987, item_count = 1, item_attrs = None\<rparr> = 800"
  "getWeight shop \<lparr>item_id = 1988, item_count = 1, item_attrs = None\<rparr> = 800"
  "getWeight shop \<lparr>item_id = 2148, item_count = 12, item_attrs = None\<rparr> = 120"
  by (simp_all add: getWeight_def getBaseWeight_def item_hasAttribute_def shop_def)

lemma laid_out_reach: "con_reach shop laid_out"
proof -
  have f: "fresh_thing bag" "fresh_thing pack" "fresh_thing coins"
    by (simp_all add: fresh_thing_def item_attributes_def)
  note r = step [OF _ create]
  have "con_reach shop (empty_world\<lparr>things := (things empty_world)(1 \<mapsto> bag)\<rparr>)"
    by (rule r [OF init _ f(1)]) (simp add: empty_world_def virtualCylinder_def)
  from r [OF this _ f(2), of 2] have "con_reach shop (empty_world\<lparr>things := (things empty_world)(1 \<mapsto> bag, 2 \<mapsto> pack)\<rparr>)"
    by (simp add: empty_world_def virtualCylinder_def)
  from r [OF this _ f(3), of 3] show ?thesis
    by (simp add: empty_world_def laid_out_def virtualCylinder_def)
qed

lemma bagged_step: "con_step shop laid_out bagged"
proof (rule add)
  show "things laid_out 1 = Some bag" "things laid_out 3 = Some coins"
    by (simp_all add: laid_out_def virtualCylinder_def)
  show "holds bag" "kind coins = Plain \<or> kind coins = PlainContainer" by (simp_all add: holds_def)
  show "detached (things laid_out) 3"
    by (auto simp: detached_def kids_def laid_out_def virtual_thing_def virtualCylinder_def split: if_splits)
  show "\<not> hasBitSet FLAG_CHILDISOWNER 0" by (simp add: hasBitSet_def)
  show "queryAdd (\<lambda>_ _ _ _. RETURNVALUE_NOERROR) shop (things laid_out) 1 0 3 12 0 = Some RETURNVALUE_NOERROR"
    by (simp add: queryAdd_def container_queryAdd_def laid_out_def virtualCylinder_def getParent.simps getTopParent_def
        hasBitSet_def is_item_def is_container_def INDEX_WHEREEVER_def)
  show "addThing shop 1 0 3 laid_out = Some bagged"
    by (simp add: addThing_def laid_out_def bagged_def virtualCylinder_def is_item_def on_things_def put_front_def
        setParent_def push_front_def upd_def add_weight_of_def weight_at_def getThingWeight_def is_container_def
        updateItemWeight.simps getParentContainer_def getParent.simps notify_def fun_upd_twist)
qed

lemma packed_step: "con_step shop bagged packed"
proof (rule load)
  show "may_enter (things bagged) 2 1"
    using under_cases [of 2 "things bagged" 1]
    by (auto simp: may_enter_def bagged_def virtualCylinder_def virtual_thing_def is_container_def is_item_def fits_def
        detached_def kids_def split: if_splits)
  show "internalAddThing shop 2 1 bagged = Some packed"
    by (simp add: internalAddThing_def bagged_def packed_def virtualCylinder_def is_item_def on_things_def put_front_def
        setParent_def push_front_def upd_def add_weight_of_def weight_at_def getThingWeight_def is_container_def
        updateItemWeight.simps getParentContainer_def getParent.simps fun_upd_twist)
qed

lemma packed_reach: "con_reach shop packed"
  by (rule step [OF step [OF laid_out_reach bagged_step] packed_step])

section \<open>The properties at this store\<close>

lemma packed_at [simp]:
  "things packed 1 = Some (bag\<lparr>itemlist := [3], totalWeight := 120, parent := Some 2\<rparr>)"
  "things packed 2 = Some (pack\<lparr>itemlist := [1], totalWeight := 920\<rparr>)"
  "things packed 3 = Some (coins\<lparr>parent := Some 1\<rparr>)"
  "things packed (Suc 0) = Some (bag\<lparr>itemlist := [3], totalWeight := 120, parent := Some 2\<rparr>)"
  by (simp_all add: packed_def virtualCylinder_def)

lemma coins_inside: "3 \<in> inside (things packed) 2"
proof -
  have "(3, 1) \<in> kid_of (things packed)" "(1, 2) \<in> kid_of (things packed)"
    by (simp_all add: kid_of_def kids_def holds_def)
  then show ?thesis unfolding inside_def by (auto intro: trancl.intros)
qed



theorem iterator_visits_contents_witness: "isHoldingItem (things packed) 2 3 = Some True"
  using iterator_visits_contents [OF packed_reach packed_at(2), of 3] coins_inside
  by (simp add: holds_def)

theorem container_calls_return_witness:
  "queryMaxCount (\<lambda>_ _ _ _. RETURNVALUE_NOERROR) shop (things packed) 2 INDEX_WHEREEVER 3 12 0 \<noteq> None"
  using container_calls_return [OF packed_reach packed_at(2) _ packed_at(3), of "\<lambda>_ _ _ _. RETURNVALUE_NOERROR"
      INDEX_WHEREEVER 12 0 None]
  by (simp add: holds_def)

theorem removal_is_exact_witness:
  "\<exists>w' ox'. removeThing shop 1 3 5 packed = Some w' \<and> things w' 3 = Some ox' \<and> item_count (item ox') = 7"
proof -
  have h: "holds (bag\<lparr>itemlist := [3], totalWeight := 120, parent := Some 2\<rparr>)" by (simp add: holds_def)
  have "queryRemove shop (things packed) 1 3 5 0 = Some RETURNVALUE_NOERROR"
    by (simp add: queryRemove_def getThingIndex_def is_item_def)
  from removal_is_exact [OF packed_reach packed_at(1) h packed_at(3) this]
  obtain w' ox' where "removeThing shop 1 3 5 packed = Some w'" "things w' 3 = Some ox'"
      "unat (item_count (item ox')) = 7" by auto
  moreover from this(3) have "item_count (item ox') = 7" by (simp add: word_unat_eq_iff)
  ultimately show ?thesis by blast
qed

text \<open>A second bag on the floor, which may take the bag out of the backpack.\<close>

definition two_bags :: world where
  "two_bags = packed\<lparr>things := (things packed)(5 \<mapsto> bag)\<rparr>"

lemma two_bags_reach: "con_reach shop two_bags"
  unfolding two_bags_def
  by (rule step [OF packed_reach create]) (simp_all add: packed_def virtualCylinder_def fresh_thing_def item_attributes_def)


end
