(* ===== verification/Advance.thy ===== *)
theory Advance
  imports Text Enums
begin

text \<open>
  How a player advances: experience and level, magic level, and skills
  (player.h, player.cpp, vocation.h, vocation.cpp).  Numbers keep their widths: a difference of a
  signed and an unsigned number is computed unsigned and read back signed, as C++ does it.  The
  products with powers and percentages that the code computes in floating point, and the hooks of
  the scripts, are arguments; a hook answers with the amount to use instead.
\<close>

section \<open>State\<close>

record Vocation =
  gainHP :: u32
  gainMana :: u32
  gainCap :: u32
  vocBaseSpeed :: u32
  none_vocation :: bool
  soulMax :: u8
  cacheMana :: "u32 \<rightharpoonup> u64"
  cacheSkill :: "u8 \<Rightarrow> u32 \<rightharpoonup> u32"

record Skill =
  tries :: u64
  skill_level :: u16
  percent :: u8

text \<open>What is sent to clients, and the scripts that are told of an advance.\<close>

datatype notice =
    Stats
  | Skills
  | SpeedChanged
  | HealthShown
  | PartyShare
  | PlayerAdvance u8 nat nat
  | ToPlayer nat string
  | ToSpectators nat string

record Progress =
  level :: u32
  levelPercent :: u8
  experience :: u64
  magLevel :: u32
  manaSpent :: u64
  magLevelPercent :: u8
  skills :: "u8 \<Rightarrow> Skill"
  healthMax :: u32
  health :: u32
  manaMax :: u32
  mana :: u32
  capacity :: u32
  baseSpeed :: u32
  maxSpeedFlag :: bool
  notGainMana :: bool
  in_party :: bool
  sent :: "notice list"

definition SKILL_LAST :: u8 where "SKILL_LAST = skill_code SKILL_FISHING"
definition MESSAGE_EVENT_ADVANCE :: nat where "MESSAGE_EVENT_ADVANCE = 19"
definition MESSAGE_EXPERIENCE :: nat where "MESSAGE_EXPERIENCE = 26"
definition MESSAGE_EXPERIENCE_OTHERS :: nat where "MESSAGE_EXPERIENCE_OTHERS = 29"
definition PLAYER_MAX_SPEED :: u32 where "PLAYER_MAX_SPEED = 1500"

definition send :: "notice list \<Rightarrow> Progress \<Rightarrow> Progress" where
  "send es p = p\<lparr>sent := sent p @ es\<rparr>"

definition dec :: "'a::len word \<Rightarrow> string" where
  "dec w = dec_digits (unat w)"

text \<open>\<open>std::max<int32_t>(0, a - b)\<close>.\<close>

definition sub_floor :: "u32 \<Rightarrow> u32 \<Rightarrow> u32" where
  "sub_floor a b = (if sint (a - b) < 0 then 0 else a - b)"

lemma u64_room: "(a :: u64) < b \<Longrightarrow> 2 ^ 64 - unat b < 2 ^ 64 - unat a"
  using unsigned_less [of b, where 'a = nat] by (simp add: word_less_nat_alt)

lemma unat_pred: "(1 :: 'a::len word) < w \<Longrightarrow> unat (w - 1) < unat w"
  by (cases "w = 0") (simp_all add: measure_unat)

section \<open>Experience and level\<close>

definition getExpForLevel :: "u32 \<Rightarrow> u64" where
  "getExpForLevel lv = (let n = scast (lv - 1) :: u64 in (50 * n * n * n - 150 * n * n + 400 * n) div 3)"

definition getPercentLevel :: "u64 \<Rightarrow> u64 \<Rightarrow> u8" where
  "getPercentLevel count nextLevelCount =
     (if nextLevelCount = 0 then 0
      else let result = ucast (count * 100 div nextLevelCount) :: u8 in if result > 100 then 0 else result)"

definition updateBaseSpeed :: "Vocation \<Rightarrow> Progress \<Rightarrow> Progress" where
  "updateBaseSpeed voc p =
     p\<lparr>baseSpeed := (if maxSpeedFlag p then PLAYER_MAX_SPEED else vocBaseSpeed voc + 2 * (level p - 1))\<rparr>"

definition level_up :: "Vocation \<Rightarrow> Progress \<Rightarrow> Progress" where
  "level_up voc p =
     p\<lparr>level := level p + 1, healthMax := healthMax p + gainHP voc, health := health p + gainHP voc,
       manaMax := manaMax p + gainMana voc, mana := mana p + gainMana voc, capacity := capacity p + gainCap voc\<rparr>"

definition level_down :: "Vocation \<Rightarrow> Progress \<Rightarrow> Progress" where
  "level_down voc p =
     p\<lparr>level := level p - 1, healthMax := sub_floor (healthMax p) (gainHP voc),
       manaMax := sub_floor (manaMax p) (gainMana voc), capacity := sub_floor (capacity p) (gainCap voc)\<rparr>"

text \<open>The loop of \<open>addExperience\<close>; it goes on only while the requirements grow.\<close>

function gain_levels :: "Vocation \<Rightarrow> Progress \<Rightarrow> u64 \<Rightarrow> u64 \<Rightarrow> Progress \<times> u64 \<times> u64" where
  "gain_levels voc p cur nxt =
     (if experience p \<ge> nxt then
        let p1 = level_up voc p; next1 = getExpForLevel (level p1 + 1)
        in if nxt \<ge> next1 then (p1, nxt, next1) else gain_levels voc p1 nxt next1
      else (p, cur, nxt))"
  by pat_completeness auto
termination
  by (relation "measure (\<lambda>(voc, p, cur, nxt). 2 ^ 64 - unat nxt)")
    (use u64_room in \<open>auto simp: not_le\<close>)

definition level_percent :: "u64 \<Rightarrow> u64 \<Rightarrow> Progress \<Rightarrow> Progress" where
  "level_percent cur nxt p =
     p\<lparr>levelPercent := (if nxt > cur then getPercentLevel (experience p - cur) (nxt - cur) else 0)\<rparr>"

text \<open>What both functions do when the level has changed.\<close>

definition level_changed :: "Vocation \<Rightarrow> Progress \<Rightarrow> Progress" where
  "level_changed voc p =
     send ([SpeedChanged, HealthShown] @ (if in_party p then [PartyShare] else []))
       (updateBaseSpeed voc (p\<lparr>health := healthMax p, mana := manaMax p\<rparr>))"

definition exp_string :: "u64 \<Rightarrow> string" where
  "exp_string n = dec n @ (if n \<noteq> 1 then '' experience points.'' else '' experience point.'')"

text \<open>\<open>others\<close> is the name of the player when somebody else can see him.\<close>

definition send_exp :: "bool \<Rightarrow> string option \<Rightarrow> string \<Rightarrow> u64 \<Rightarrow> Progress \<Rightarrow> Progress" where
  "send_exp sendText others verb n p =
     (if sendText
      then send ([ToPlayer MESSAGE_EXPERIENCE (''You '' @ verb @ '' '' @ exp_string n)] @
             (case others of None \<Rightarrow> [] | Some name \<Rightarrow>
               [ToSpectators MESSAGE_EXPERIENCE_OTHERS (name @ '' '' @ verb @ '' '' @ exp_string n)])) p
      else p)"

definition addExperience ::
  "(u64 \<Rightarrow> u64) \<Rightarrow> string option \<Rightarrow> Vocation \<Rightarrow> u64 \<Rightarrow> bool \<Rightarrow> Progress \<Rightarrow> Progress" where
  "addExperience onGain others voc amount sendText p =
     (let cur = getExpForLevel (level p); nxt = getExpForLevel (level p + 1) in
      if cur \<ge> nxt then send [Stats] (p\<lparr>levelPercent := 0\<rparr>)
      else let amount1 = onGain amount in
      if amount1 = 0 then p
      else
        let p1 = send_exp sendText others ''gained'' amount1 (p\<lparr>experience := experience p + amount1\<rparr>);
            (p2, curr2, next2) = gain_levels voc p1 cur nxt;
            p3 = (if level p \<noteq> level p2
                  then send [PlayerAdvance (skill_code SKILL_LEVEL) (unat (level p)) (unat (level p2)),
                             ToPlayer MESSAGE_EVENT_ADVANCE (''You advanced from Level '' @ dec (level p) @ '' to Level '' @ dec (level p2) @ ''.'')]
                         (level_changed voc p2)
                  else p2)
        in send [Stats] (level_percent curr2 next2 p3))"

function lose_levels :: "Vocation \<Rightarrow> Progress \<Rightarrow> Progress" where
  "lose_levels voc p =
     (if level p > 1 \<and> experience p < getExpForLevel (level p) then lose_levels voc (level_down voc p) else p)"
  by pat_completeness auto
termination
  by (relation "measure (\<lambda>(voc, p). unat (level p))") (auto simp: level_down_def unat_pred)

definition downgraded :: "u32 \<Rightarrow> u32 \<Rightarrow> notice" where
  "downgraded from to =
     ToPlayer MESSAGE_EVENT_ADVANCE (''You were downgraded from Level '' @ dec from @ '' to Level '' @ dec to @ ''.'')"

definition removeExperience ::
  "(u64 \<Rightarrow> u64) \<Rightarrow> string option \<Rightarrow> Vocation \<Rightarrow> u64 \<Rightarrow> bool \<Rightarrow> Progress \<Rightarrow> Progress" where
  "removeExperience onLose others voc amount sendText p =
     (if experience p = 0 \<or> amount = 0 then p
      else let amount1 = onLose amount in
      if amount1 = 0 then p
      else
        let left = (if sint (experience p - amount1) < 0 then 0 else experience p - amount1);
            p1 = send_exp sendText others ''lost'' (experience p - left) (p\<lparr>experience := left\<rparr>);
            p2 = lose_levels voc p1;
            p3 = (if level p \<noteq> level p2 then send [downgraded (level p) (level p2)] (level_changed voc p2) else p2)
        in send [Stats] (level_percent (getExpForLevel (level p3)) (getExpForLevel (level p3 + 1)) p3))"

text \<open>The part of \<open>Player::death\<close> that takes experience; \<open>share\<close> is the product with the percentage.\<close>

definition death_experience :: "(u64 \<Rightarrow> u64) \<Rightarrow> (u64 \<Rightarrow> u64) \<Rightarrow> Vocation \<Rightarrow> Progress \<Rightarrow> Progress" where
  "death_experience share onLose voc p =
     (let expLoss = onLose (share (experience p)) in
      if expLoss = 0 then p
      else
        let p1 = (if none_vocation voc \<or> level p > 7 then p\<lparr>experience := experience p - expLoss\<rparr> else p);
            p2 = lose_levels voc p1;
            p3 = (if level p \<noteq> level p2 then send [downgraded (level p) (level p2)] p2 else p2)
        in level_percent (getExpForLevel (level p3)) (getExpForLevel (level p3 + 1)) p3)"

section \<open>Magic level and skills\<close>

text \<open>\<open>Vocation::getReqMana\<close>; \<open>raw\<close> is the product with the power.\<close>

definition round_mana :: "u64 \<Rightarrow> u64" where
  "round_mana req = (let modResult = req mod 20 in if modResult < 10 then req - modResult else req - (modResult + 20))"

definition getReqMana :: "(u32 \<Rightarrow> u64) \<Rightarrow> u32 \<Rightarrow> Vocation \<Rightarrow> u64 \<times> Vocation" where
  "getReqMana raw lv voc =
     (case cacheMana voc lv of
        Some n \<Rightarrow> (n, voc)
      | None \<Rightarrow> let req = round_mana (raw lv) in (req, voc\<lparr>cacheMana := (cacheMana voc)(lv \<mapsto> req)\<rparr>))"

text \<open>\<open>Vocation::getReqSkillTries\<close>: the cache keeps 32 bits.\<close>

definition getReqSkillTries :: "(u8 \<Rightarrow> u16 \<Rightarrow> u64) \<Rightarrow> u8 \<Rightarrow> u16 \<Rightarrow> Vocation \<Rightarrow> u64 \<times> Vocation" where
  "getReqSkillTries raw skill lv voc =
     (if skill > SKILL_LAST then (0, voc)
      else case cacheSkill voc skill (ucast lv) of
        Some n \<Rightarrow> (ucast n, voc)
      | None \<Rightarrow> (raw skill lv, voc\<lparr>cacheSkill := (cacheSkill voc)(skill := (cacheSkill voc skill)(ucast lv \<mapsto> ucast (raw skill lv)))\<rparr>))"

definition getSkillName :: "u8 \<Rightarrow> string" where
  "getSkillName s =
     (if s = skill_code SKILL_FIST then ''fist fighting''
      else if s = skill_code SKILL_CLUB then ''club fighting''
      else if s = skill_code SKILL_SWORD then ''sword fighting''
      else if s = skill_code SKILL_AXE then ''axe fighting''
      else if s = skill_code SKILL_DISTANCE then ''distance fighting''
      else if s = skill_code SKILL_SHIELD then ''shielding''
      else if s = skill_code SKILL_FISHING then ''fishing''
      else if s = skill_code SKILL_MAGLEVEL then ''magic level''
      else if s = skill_code SKILL_LEVEL then ''level''
      else ''unknown'')"

definition mag_text :: "u32 \<Rightarrow> notice" where
  "mag_text lv = ToPlayer MESSAGE_EVENT_ADVANCE (''You advanced to magic level '' @ dec lv @ ''.'')"

definition skill_text :: "u8 \<Rightarrow> u16 \<Rightarrow> notice" where
  "skill_text s lv = ToPlayer MESSAGE_EVENT_ADVANCE (''You advanced to '' @ getSkillName s @ '' level '' @ dec lv @ ''.'')"

text \<open>The loops that raise the magic level and a skill, in \<open>addManaSpent\<close>, \<open>addSkillAdvance\<close> and
  \<open>addOfflineTrainingTries\<close>; the last does not tell the player about every single level.  The result
  says whether the loop was left because the requirements stopped growing.\<close>

record Loop =
  capped :: bool
  amount :: u64
  cur_req :: u64
  next_req :: u64

definition mag_up :: "bool \<Rightarrow> Progress \<Rightarrow> Progress" where
  "mag_up tell p =
     send ((if tell then [mag_text (magLevel p + 1)] else []) @
           [PlayerAdvance (skill_code SKILL_MAGLEVEL) (unat (magLevel p)) (unat (magLevel p + 1))])
       (p\<lparr>magLevel := magLevel p + 1, manaSpent := 0\<rparr>)"

function gain_mag :: "bool \<Rightarrow> (u32 \<Rightarrow> u64) \<Rightarrow> Vocation \<Rightarrow> Progress \<Rightarrow> Loop \<Rightarrow> Vocation \<times> Progress \<times> Loop" where
  "gain_mag tell raw voc p l =
     (if manaSpent p + amount l \<ge> next_req l then
        let p1 = mag_up tell p; (req, voc1) = getReqMana raw (magLevel p1 + 1) voc;
            l1 = l\<lparr>amount := amount l - (next_req l - manaSpent p), cur_req := next_req l, next_req := req\<rparr>
        in if next_req l \<ge> req then (voc1, p1, l1\<lparr>capped := True\<rparr>) else gain_mag tell raw voc1 p1 l1
      else (voc, p, l))"
  by pat_completeness auto
termination
  by (relation "measure (\<lambda>(tell, raw, voc, p, l). 2 ^ 64 - unat (next_req l))")
    (use u64_room in \<open>auto simp: not_le\<close>)

definition set_skill :: "u8 \<Rightarrow> Skill \<Rightarrow> Progress \<Rightarrow> Progress" where
  "set_skill s sk p = p\<lparr>skills := (skills p)(s := sk)\<rparr>"

definition skill_up :: "bool \<Rightarrow> u8 \<Rightarrow> Progress \<Rightarrow> Progress" where
  "skill_up tell s p =
     (let lv = skill_level (skills p s) + 1 in
      send ((if tell then [skill_text s lv] else []) @ [PlayerAdvance s (unat (ucast lv - 1 :: u32)) (unat lv)])
        (set_skill s \<lparr>tries = 0, skill_level = lv, percent = 0\<rparr> p))"

function gain_skill ::
  "bool \<Rightarrow> (u8 \<Rightarrow> u16 \<Rightarrow> u64) \<Rightarrow> u8 \<Rightarrow> Vocation \<Rightarrow> Progress \<Rightarrow> Loop \<Rightarrow> Vocation \<times> Progress \<times> Loop" where
  "gain_skill tell raw s voc p l =
     (if tries (skills p s) + amount l \<ge> next_req l then
        let p1 = skill_up tell s p; (req, voc1) = getReqSkillTries raw s (skill_level (skills p1 s) + 1) voc;
            l1 = l\<lparr>amount := amount l - (next_req l - tries (skills p s)), cur_req := next_req l, next_req := req\<rparr>
        in if next_req l \<ge> req then (voc1, p1, l1\<lparr>amount := 0, capped := True\<rparr>) else gain_skill tell raw s voc1 p1 l1
      else (voc, p, l))"
  by pat_completeness auto
termination
  by (relation "measure (\<lambda>(tell, raw, s, voc, p, l). 2 ^ 64 - unat (next_req l))")
    (use u64_room in \<open>auto simp: not_le\<close>)

definition percent_of :: "u64 \<Rightarrow> u64 \<Rightarrow> u64 \<Rightarrow> u8" where
  "percent_of n cur nxt = (if nxt > cur then getPercentLevel n nxt else 0)"

definition addManaSpent ::
  "(u32 \<Rightarrow> u64) \<Rightarrow> (u64 \<Rightarrow> u64) \<Rightarrow> Vocation \<Rightarrow> u64 \<Rightarrow> Progress \<Rightarrow> Vocation \<times> Progress" where
  "addManaSpent raw onGain voc n p =
     (if notGainMana p then (voc, p)
      else
        let (cur, voc1) = getReqMana raw (magLevel p) voc; (nxt, voc2) = getReqMana raw (magLevel p + 1) voc1 in
        if cur \<ge> nxt then (voc2, p)
        else let n1 = onGain n in
        if n1 = 0 then (voc2, p)
        else
          let (voc3, p1, l) = gain_mag True raw voc2 p \<lparr>capped = False, amount = n1, cur_req = cur, next_req = nxt\<rparr> in
          if capped l then (voc3, p1)
          else
            let p2 = p1\<lparr>manaSpent := manaSpent p1 + amount l\<rparr>;
                p3 = p2\<lparr>magLevelPercent := percent_of (manaSpent p2) (cur_req l) (next_req l)\<rparr>
            in (voc3, if magLevelPercent p3 \<noteq> magLevelPercent p \<or> magLevel p1 \<noteq> magLevel p then send [Stats] p3 else p3))"

definition addSkillAdvance ::
  "(u8 \<Rightarrow> u16 \<Rightarrow> u64) \<Rightarrow> (u64 \<Rightarrow> u64) \<Rightarrow> u8 \<Rightarrow> Vocation \<Rightarrow> u64 \<Rightarrow> Progress \<Rightarrow> Vocation \<times> Progress" where
  "addSkillAdvance raw onGain s voc n p =
     (let (cur, voc1) = getReqSkillTries raw s (skill_level (skills p s)) voc;
          (nxt, voc2) = getReqSkillTries raw s (skill_level (skills p s) + 1) voc1 in
      if cur \<ge> nxt then (voc2, p)
      else let n1 = onGain n in
      if n1 = 0 then (voc2, p)
      else
        let (voc3, p1, l) = gain_skill True raw s voc2 p \<lparr>capped = False, amount = n1, cur_req = cur, next_req = nxt\<rparr>;
            sk = (skills p1 s)\<lparr>tries := tries (skills p1 s) + amount l\<rparr>;
            pc = percent_of (tries sk) (cur_req l) (next_req l);
            p2 = set_skill s (sk\<lparr>percent := pc\<rparr>) p1
        in (voc3, if percent sk \<noteq> pc \<or> skill_level sk \<noteq> skill_level (skills p s) then send [Skills] p2 else p2))"

text \<open>\<open>Player::addOfflineTrainingTries\<close>; \<open>shown\<close> prints a part of a requirement as a percentage.\<close>

definition trained_text ::
  "(u64 \<Rightarrow> u64 \<Rightarrow> string) \<Rightarrow> u8 \<Rightarrow> nat \<times> u64 \<times> u64 \<Rightarrow> nat \<times> (u64 \<times> u64) option \<Rightarrow> notice" where
  "trained_text shown s old new =
     ToPlayer MESSAGE_EVENT_ADVANCE
       (''Your '' @ ucwords (getSkillName s) @ '' skill changed from level '' @ dec_digits (fst old) @
        '' (with '' @ shown (fst (snd old)) (snd (snd old)) @ ''% progress towards level '' @ dec_digits (fst old + 1) @
        '') to level '' @ dec_digits (fst new) @
        '' (with '' @ (case snd new of Some (n, req) \<Rightarrow> shown n req | None \<Rightarrow> ''0.00'') @ ''% progress towards level '' @
        dec_digits (fst new + 1) @ '')'')"

definition train_mag ::
  "(u32 \<Rightarrow> u64) \<Rightarrow> (u64 \<Rightarrow> u64) \<Rightarrow> (u64 \<Rightarrow> u64 \<Rightarrow> string) \<Rightarrow> Vocation \<Rightarrow> u64 \<Rightarrow> Progress \<Rightarrow> bool \<times> Vocation \<times> Progress" where
  "train_mag raw onGain shown voc n p =
     (let (cur, voc1) = getReqMana raw (magLevel p) voc; (nxt, voc2) = getReqMana raw (magLevel p + 1) voc1 in
      if cur \<ge> nxt then (False, voc2, p)
      else
        let (voc3, p1, l) = gain_mag False raw voc2 p \<lparr>capped = False, amount = onGain n, cur_req = cur, next_req = nxt\<rparr>;
            p2 = p1\<lparr>manaSpent := manaSpent p1 + (if capped l then 0 else amount l)\<rparr>;
            p3 = (if magLevel p2 \<noteq> magLevel p then send [mag_text (magLevel p2)] p2 else p2);
            pc = percent_of (manaSpent p3) (cur_req l) (next_req l);
            changed = (magLevel p2 \<noteq> magLevel p \<or> pc \<noteq> magLevelPercent p);
            p4 = send (if changed then [Skills] else []) (p3\<lparr>magLevelPercent := pc\<rparr>)
        in (changed, voc3,
            send [trained_text shown (skill_code SKILL_MAGLEVEL) (unat (magLevel p), manaSpent p * 100, nxt)
                    (unat (magLevel p4), if next_req l > cur_req l then Some (manaSpent p4 * 100, next_req l) else None)] p4))"

definition train_skill ::
  "(u8 \<Rightarrow> u16 \<Rightarrow> u64) \<Rightarrow> (u64 \<Rightarrow> u64) \<Rightarrow> (u64 \<Rightarrow> u64 \<Rightarrow> string) \<Rightarrow> u8 \<Rightarrow> Vocation \<Rightarrow> u64 \<Rightarrow> Progress \<Rightarrow> bool \<times> Vocation \<times> Progress" where
  "train_skill raw onGain shown s voc n p =
     (let old = skills p s;
          (cur, voc1) = getReqSkillTries raw s (skill_level old) voc;
          (nxt, voc2) = getReqSkillTries raw s (skill_level old + 1) voc1 in
      if cur \<ge> nxt then (False, voc2, p)
      else
        let (voc3, p1, l) = gain_skill False raw s voc2 p \<lparr>capped = False, amount = onGain n, cur_req = cur, next_req = nxt\<rparr>;
            sk = (skills p1 s)\<lparr>tries := tries (skills p1 s) + amount l\<rparr>;
            p2 = (if skill_level sk \<noteq> skill_level old then send [skill_text s (skill_level sk)] p1 else p1);
            pc = percent_of (tries sk) (cur_req l) (next_req l);
            changed = (skill_level sk \<noteq> skill_level old \<or> pc \<noteq> percent sk);
            p3 = send (if changed then [Skills] else []) (set_skill s (sk\<lparr>percent := pc\<rparr>) p2)
        in (changed, voc3,
            send [trained_text shown s (unat (skill_level old), tries old * 100, nxt)
                    (unat (skill_level sk), if next_req l > cur_req l then Some (tries sk * 100, next_req l) else None)] p3))"

definition addOfflineTrainingTries ::
  "(u32 \<Rightarrow> u64) \<Rightarrow> (u8 \<Rightarrow> u16 \<Rightarrow> u64) \<Rightarrow> (u64 \<Rightarrow> u64) \<Rightarrow> (u64 \<Rightarrow> u64 \<Rightarrow> string) \<Rightarrow> u8 \<Rightarrow> Vocation \<Rightarrow> u64 \<Rightarrow> Progress
    \<Rightarrow> bool \<times> Vocation \<times> Progress" where
  "addOfflineTrainingTries rawm raws onGain shown s voc n p =
     (if n = 0 \<or> s = skill_code SKILL_LEVEL then (False, voc, p)
      else if s = skill_code SKILL_MAGLEVEL then train_mag rawm onGain shown voc n p
      else train_skill raws onGain shown s voc n p)"

text \<open>What \<open>Player::death\<close> takes of the magic level and of a skill.\<close>

function lose_mag :: "(u32 \<Rightarrow> u64) \<Rightarrow> Vocation \<Rightarrow> Progress \<Rightarrow> u64 \<Rightarrow> Vocation \<times> Progress \<times> u64" where
  "lose_mag raw voc p lost =
     (if lost > manaSpent p \<and> magLevel p > 0 then
        let (req, voc1) = getReqMana raw (magLevel p) voc
        in lose_mag raw voc1 (p\<lparr>manaSpent := req, magLevel := magLevel p - 1\<rparr>) (lost - manaSpent p)
      else (voc, p, lost))"
  by pat_completeness auto
termination
  by (relation "measure (\<lambda>(raw, voc, p, lost). unat (magLevel p))") (auto intro: measure_unat)

fun sum_mana :: "(u32 \<Rightarrow> u64) \<Rightarrow> nat \<Rightarrow> u32 \<Rightarrow> Vocation \<Rightarrow> u64 \<Rightarrow> u64 \<times> Vocation" where
  "sum_mana raw 0 i voc acc = (acc, voc)"
| "sum_mana raw (Suc k) i voc acc =
     (let (req, voc1) = getReqMana raw i voc in sum_mana raw k (i + 1) voc1 (acc + req))"

definition death_mana :: "(u64 \<Rightarrow> u64) \<Rightarrow> (u32 \<Rightarrow> u64) \<Rightarrow> Vocation \<Rightarrow> Progress \<Rightarrow> Vocation \<times> Progress" where
  "death_mana share raw voc p =
     (let (sum, voc1) = sum_mana raw (unat (magLevel p)) 1 voc 0;
          (voc2, p1, lost) = lose_mag raw voc1 p (share (sum + manaSpent p));
          p2 = p1\<lparr>manaSpent := manaSpent p1 - lost\<rparr>;
          (nxt, voc3) = getReqMana raw (magLevel p2 + 1) voc2;
          (cur, voc4) = getReqMana raw (magLevel p2) voc3
      in (voc4, p2\<lparr>magLevelPercent := percent_of (manaSpent p2) cur nxt\<rparr>))"

function lose_skill :: "(u8 \<Rightarrow> u16 \<Rightarrow> u64) \<Rightarrow> u8 \<Rightarrow> Vocation \<Rightarrow> Skill \<Rightarrow> u32 \<Rightarrow> Vocation \<times> Skill \<times> u32" where
  "lose_skill raw s voc sk lost =
     (if ucast lost > tries sk then
        let lost1 = ucast (ucast lost - tries sk) in
        if skill_level sk \<le> 10 then (voc, sk\<lparr>skill_level := 10, tries := 0\<rparr>, 0)
        else
          let (req, voc1) = getReqSkillTries raw s (skill_level sk) voc
          in lose_skill raw s voc1 (sk\<lparr>tries := req, skill_level := skill_level sk - 1\<rparr>) lost1
      else (voc, sk, lost))"
  by pat_completeness auto
termination
  by (relation "measure (\<lambda>(raw, s, voc, sk, lost). unat (skill_level sk))")
    (auto simp: not_le intro!: measure_unat)

fun sum_tries :: "(u8 \<Rightarrow> u16 \<Rightarrow> u64) \<Rightarrow> u8 \<Rightarrow> nat \<Rightarrow> u16 \<Rightarrow> Vocation \<Rightarrow> u64 \<Rightarrow> u64 \<times> Vocation" where
  "sum_tries raw s 0 c voc acc = (acc, voc)"
| "sum_tries raw s (Suc k) c voc acc =
     (let (req, voc1) = getReqSkillTries raw s c voc in sum_tries raw s k (c + 1) voc1 (acc + req))"

text \<open>The difference of the tries and what is lost is computed in 64 bits and cut to 32.\<close>

definition death_skill ::
  "(u64 \<Rightarrow> u64) \<Rightarrow> (u8 \<Rightarrow> u16 \<Rightarrow> u64) \<Rightarrow> u8 \<Rightarrow> Vocation \<times> Progress \<Rightarrow> Vocation \<times> Progress" where
  "death_skill share raw s vp =
     (let (voc, p) = vp; sk = skills p s;
          (sum, voc1) = sum_tries raw s (unat (skill_level sk) - 10) 11 voc 0;
          (voc2, sk1, lost) = lose_skill raw s voc1 sk (ucast (share (sum + tries sk)));
          d = ucast (tries sk1 - ucast lost) :: u32;
          sk2 = sk1\<lparr>tries := (if sint d < 0 then 0 else ucast d)\<rparr>;
          (req, voc3) = getReqSkillTries raw s (skill_level sk2) voc2
      in (voc3, set_skill s (sk2\<lparr>percent := getPercentLevel (tries sk2) req\<rparr>) p))"

text \<open>The three losses, in the order of \<open>Player::death\<close>.\<close>

definition death_losses ::
  "(u64 \<Rightarrow> u64) \<Rightarrow> (u32 \<Rightarrow> u64) \<Rightarrow> (u8 \<Rightarrow> u16 \<Rightarrow> u64) \<Rightarrow> (u64 \<Rightarrow> u64) \<Rightarrow> Vocation \<Rightarrow> Progress \<Rightarrow> Vocation \<times> Progress" where
  "death_losses share rawm raws onLose voc p =
     (let (voc1, p1) = foldl (\<lambda>vp s. death_skill share raws s vp) (death_mana share rawm voc p) [0, 1, 2, 3, 4, 5, 6]
      in (voc1, send [Stats] (death_experience share onLose voc1 p1)))"

declare gain_levels.simps [simp del] lose_levels.simps [simp del] gain_mag.simps [simp del]
  gain_skill.simps [simp del] lose_mag.simps [simp del] lose_skill.simps [simp del]

end
