(* ===== verification/AdvanceLevels.thy ===== *)
theory AdvanceLevels
  imports Advance
begin

text \<open>
  Experience and level: the requirements in natural numbers, the highest level, at which the
  64-bit arithmetic of \<open>getExpForLevel\<close> wraps, and the properties that hold of a player through
  any sequence of gains, losses and deaths.
\<close>

section \<open>The requirements\<close>

primrec need :: "nat \<Rightarrow> nat" where
  "need 0 = 0"
| "need (Suc n) = need n + 50 * (n * (n - 1)) + 100"

definition maxLevel :: nat where
  "maxLevel = 717217"

lemma need_closed: "3 * int (need n) = 50 * int n * int n * int n - 150 * int n * int n + 400 * int n"
proof (induction n)
  case (Suc n)
  have "int (need (Suc n)) = int (need n) + 50 * (int n * int (n - 1)) + 100"
    by (simp only: need.simps of_nat_add of_nat_mult of_nat_numeral)
  moreover have "int n * int (n - 1) = int n * int n - int n"
    by (cases n) (simp_all add: algebra_simps)
  ultimately show ?case using Suc by (simp add: algebra_simps del: need.simps)
qed simp

lemma need_less: "m < n \<Longrightarrow> need m < need n"
  by (rule lift_Suc_mono_less [of need]) simp_all

lemma need_mono: "m \<le> n \<Longrightarrow> need m \<le> need n"
  by (rule lift_Suc_mono_le [of need]) simp_all

lemma need_less_iff: "need m < need n \<longleftrightarrow> m < n"
  using need_less need_mono by (meson linorder_not_less)

lemma need_le_iff: "need m \<le> need n \<longleftrightarrow> m \<le> n"
  using need_less_iff by (meson linorder_not_less)

lemma need_top: "need (maxLevel - 1) = 6148891664141657600"
proof -
  have "3 * int (need 717216) = 3 * 6148891664141657600" unfolding need_closed by simp
  then have "need 717216 = 6148891664141657600" by linarith
  then show ?thesis by (simp add: maxLevel_def)
qed

lemma getExpForLevel_need:
  assumes "0 < unat l" and "unat l \<le> maxLevel"
  shows "unat (getExpForLevel l) = need (unat l - 1)"
proof -
  let ?m = "unat l - 1" and ?n = "scast (l - 1) :: u64"
  have l0: "l \<noteq> 0" using assms(1) by auto
  have u: "uint (l - 1) = int ?m" using unat_minus_one [OF l0] by (simp only: uint_nat)
  have "sint (l - 1) = uint (l - 1)"
    unfolding sint_uint by (rule signed_take_bit_int_eq_self) (use u assms(2) in \<open>simp_all add: maxLevel_def\<close>)
  then have n: "?n = of_int (int ?m)" using u by (metis of_int_sint)
  have b: "3 * int (need ?m) < 2 ^ 64"
    using need_mono [OF diff_le_mono [OF assms(2), of 1]] need_top by simp
  have "50 * ?n * ?n * ?n - 150 * ?n * ?n + 400 * ?n = (of_int (3 * int (need ?m)) :: u64)"
    unfolding need_closed n by (simp only: of_int_add of_int_diff of_int_mult of_int_numeral)
  also have "\<dots> = of_int (int (3 * need ?m))" by (simp only: of_nat_mult of_nat_numeral)
  also have "\<dots> = of_nat (3 * need ?m)" by (rule of_int_of_nat_eq)
  finally have "getExpForLevel l = of_nat (3 * need ?m) div 3" by (simp only: getExpForLevel_def Let_def)
  moreover have "unat (of_nat (3 * need ?m) :: u64) = 3 * need ?m"
    using b by (simp add: unsigned_of_nat take_bit_nat_eq_self del: of_nat_mult)
  ultimately show ?thesis by (simp add: unat_div del: of_nat_mult)
qed

lemma unat_level_succ: "unat l \<le> maxLevel \<Longrightarrow> unat (l + 1 :: u32) = unat l + 1"
  by (simp add: unat_succ_u32 word_less_nat_alt maxLevel_def)

lemma requirement_wraps: "getExpForLevel (of_nat maxLevel + 1) \<le> getExpForLevel (of_nat maxLevel)"
  by (simp add: getExpForLevel_def maxLevel_def Let_def)

lemma at_top: "unat l = maxLevel \<Longrightarrow> getExpForLevel (l + 1) \<le> getExpForLevel l"
  using requirement_wraps ucast_id [of l] of_nat_unat [of l, where 'a = "32 word"] by simp

lemma below_top:
  assumes "0 < unat l" and "unat l < maxLevel"
  shows "getExpForLevel l < getExpForLevel (l + 1)"
  using assms by (simp add: word_less_nat_alt getExpForLevel_need unat_level_succ need_less)

section \<open>The level follows the experience\<close>

definition level_ok :: "Progress \<Rightarrow> bool" where
  "level_ok p \<longleftrightarrow> 0 < unat (level p) \<and> unat (level p) \<le> maxLevel \<and> getExpForLevel (level p) \<le> experience p \<and>
     (unat (level p) < maxLevel \<longrightarrow> experience p < getExpForLevel (level p + 1))"

text \<open>The numbers that grow with the level: what a player had at level one, and a gain for every
  level since.  They fit when the sum for the highest level is a signed 32-bit number.\<close>

definition grown1 :: "u32 \<Rightarrow> nat \<Rightarrow> u32 \<Rightarrow> u32 \<Rightarrow> bool" where
  "grown1 gain base lv n \<longleftrightarrow> unat n = base + (unat lv - 1) * unat gain"

definition grown :: "Vocation \<Rightarrow> nat \<times> nat \<times> nat \<Rightarrow> Progress \<Rightarrow> bool" where
  "grown voc b p \<longleftrightarrow> (case b of (h, m, c) \<Rightarrow>
     grown1 (gainHP voc) h (level p) (healthMax p) \<and> grown1 (gainMana voc) m (level p) (manaMax p) \<and>
     grown1 (gainCap voc) c (level p) (capacity p))"

definition gains_fit :: "Vocation \<Rightarrow> nat \<times> nat \<times> nat \<Rightarrow> bool" where
  "gains_fit voc b \<longleftrightarrow> (case b of (h, m, c) \<Rightarrow>
     h + maxLevel * unat (gainHP voc) < 2 ^ 31 \<and> m + maxLevel * unat (gainMana voc) < 2 ^ 31 \<and>
     c + maxLevel * unat (gainCap voc) < 2 ^ 31)"

lemma grown1_up:
  assumes "grown1 gain base lv n" and "base + maxLevel * unat gain < 2 ^ 31" and "0 < unat lv" and "unat lv < maxLevel"
  shows "grown1 gain base (lv + 1) (n + gain)"
proof -
  have lv: "unat (lv + 1) = unat lv + 1" using assms(4) by (intro unat_level_succ) simp
  have "unat lv * unat gain \<le> maxLevel * unat gain" using assms(4) by (intro mult_le_mono1) simp
  then have b: "base + unat lv * unat gain < 2 ^ 31" using assms(2) by linarith
  have e: "unat n + unat gain = base + unat lv * unat gain"
    using assms(1,3) by (cases "unat lv") (simp_all add: grown1_def)
  have "unat (n + gain) = unat n + unat gain"
    unfolding unat_word_ariths e by (rule mod_less) (use b in simp)
  with e lv show ?thesis by (simp add: grown1_def)
qed

lemma grown1_down:
  assumes "grown1 gain base lv n" and "base + maxLevel * unat gain < 2 ^ 31" and "1 < unat lv" and "unat lv \<le> maxLevel"
  shows "grown1 gain base (lv - 1) (sub_floor n gain)"
proof -
  have "lv \<noteq> 0" using assms(3) by auto
  then have lv: "unat (lv - 1) = unat lv - 1" by (rule unat_minus_one)
  have e: "unat n = base + (unat lv - 2) * unat gain + unat gain"
  proof -
    obtain k where k: "unat lv = Suc (Suc k)" using assms(3) by (cases "unat lv"; cases "unat lv - 1") auto
    with assms(1) show ?thesis by (simp add: grown1_def)
  qed
  have "(unat lv - 2) * unat gain \<le> maxLevel * unat gain" using assms(4) by (intro mult_le_mono1) simp
  then have b: "base + (unat lv - 2) * unat gain < 2 ^ 31" using assms(2) by linarith
  have "gain \<le> n" using e by (simp add: word_le_nat_alt)
  then have d: "unat (n - gain) = base + (unat lv - 2) * unat gain" using e by (simp add: unat_sub)
  then have "int (unat (n - gain)) < int (2 ^ 31)" using b by (simp only: of_nat_less_iff)
  then have "sint (n - gain) = uint (n - gain)"
    unfolding sint_uint by (intro signed_take_bit_int_eq_self) (simp_all add: order_trans [OF _ uint_ge_0])
  then have "sub_floor n gain = n - gain" by (simp add: sub_floor_def)
  with d lv show ?thesis by (simp add: grown1_def numeral_2_eq_2)
qed

lemma grown_up:
  "grown voc b p \<Longrightarrow> gains_fit voc b \<Longrightarrow> 0 < unat (level p) \<Longrightarrow> unat (level p) < maxLevel \<Longrightarrow> grown voc b (level_up voc p)"
  by (auto simp: grown_def gains_fit_def level_up_def grown1_up split: prod.splits)

lemma grown_down:
  "grown voc b p \<Longrightarrow> gains_fit voc b \<Longrightarrow> 1 < unat (level p) \<Longrightarrow> unat (level p) \<le> maxLevel \<Longrightarrow> grown voc b (level_down voc p)"
  by (auto simp: grown_def gains_fit_def level_down_def grown1_down split: prod.splits)

lemma level_up_facts [simp]:
  "level (level_up voc p) = level p + 1" "experience (level_up voc p) = experience p"
  by (simp_all add: level_up_def)

lemma gain_levels_stop: "\<not> nxt \<le> experience p \<Longrightarrow> gain_levels voc p cur nxt = (p, cur, nxt)"
  by (subst gain_levels.simps) (simp only: if_False)

lemma gain_levels_top:
  "nxt \<le> experience p \<Longrightarrow> getExpForLevel (level p + 1 + 1) \<le> nxt \<Longrightarrow>
   gain_levels voc p cur nxt = (level_up voc p, nxt, getExpForLevel (level p + 1 + 1))"
  by (subst gain_levels.simps) (simp only: if_True Let_def level_up_facts)

lemma gain_levels_next:
  "nxt \<le> experience p \<Longrightarrow> \<not> getExpForLevel (level p + 1 + 1) \<le> nxt \<Longrightarrow>
   gain_levels voc p cur nxt = gain_levels voc (level_up voc p) nxt (getExpForLevel (level p + 1 + 1))"
  by (subst gain_levels.simps) (simp only: if_True if_False Let_def level_up_facts)

definition levels_done :: "Vocation \<Rightarrow> nat \<times> nat \<times> nat \<Rightarrow> u64 \<Rightarrow> Progress \<times> u64 \<times> u64 \<Rightarrow> bool" where
  "levels_done voc b e r \<longleftrightarrow> (case r of (q, cur, nxt) \<Rightarrow>
     level_ok q \<and> experience q = e \<and> grown voc b q \<and> cur = getExpForLevel (level q) \<and> nxt = getExpForLevel (level q + 1))"

lemma gain_levels_ok:
  assumes "0 < unat (level p)" and "unat (level p) < maxLevel" and "getExpForLevel (level p) \<le> experience p"
    and "gains_fit voc b" and "grown voc b p" and "cur = getExpForLevel (level p)" and "nxt = getExpForLevel (level p + 1)"
  shows "levels_done voc b (experience p) (gain_levels voc p cur nxt)"
  using assms
proof (induction voc p cur nxt rule: gain_levels.induct)
  case (1 voc p cur nxt)
  let ?p = "level_up voc p" and ?n = "getExpForLevel (level p + 1 + 1)"
  have lv: "unat (level p + 1) = unat (level p) + 1" using "1.prems"(2) by (intro unat_level_succ) simp
  have g: "grown voc b ?p" by (rule grown_up) fact+
  show ?case
  proof (cases "nxt \<le> experience p")
    case False
    show ?thesis
      unfolding gain_levels_stop [OF False] levels_done_def level_ok_def using "1.prems" False by simp
  next
    case up: True
    show ?thesis
    proof (cases "unat (level p + 1) = maxLevel")
      case True
      have le: "?n \<le> nxt" using at_top [OF True] "1.prems"(7) by simp
      show ?thesis
        unfolding gain_levels_top [OF up le] levels_done_def level_ok_def
        using True up g "1.prems"(7) by (simp add: maxLevel_def)
    next
      case False
      with lv "1.prems"(2) have b: "unat (level p + 1) < maxLevel" by simp
      have "nxt < ?n" using below_top [of "level p + 1"] lv b "1.prems"(7) by simp
      then have nle: "\<not> ?n \<le> nxt" by simp
      have "levels_done voc b (experience ?p) (gain_levels voc ?p nxt (getExpForLevel (level ?p + 1)))"
        by (rule "1.IH" [OF up refl refl]) (use up b lv g nle "1.prems"(4,7) in simp_all)
      then show ?thesis unfolding gain_levels_next [OF up nle] by simp
    qed
  qed
qed

lemma lose_levels_ok:
  assumes "0 < unat (level p)" and "unat (level p) \<le> maxLevel"
    and "unat (level p) < maxLevel \<Longrightarrow> experience p < getExpForLevel (level p + 1)"
    and "gains_fit voc b" and "grown voc b p"
  shows "level_ok (lose_levels voc p) \<and> grown voc b (lose_levels voc p) \<and> experience (lose_levels voc p) = experience p"
  using assms
proof (induction voc p rule: lose_levels.induct)
  case (1 voc p)
  let ?p = "level_down voc p"
  show ?case
  proof (cases "level p > 1 \<and> experience p < getExpForLevel (level p)")
    case True
    then have l0: "level p \<noteq> 0" and l1: "1 < unat (level p)" by (auto simp: word_less_nat_alt)
    have l: "unat (level p - 1) = unat (level p) - 1" by (rule unat_minus_one [OF l0])
    have g: "grown voc b ?p" using 1 l1 by (intro grown_down)
    have "level_ok (lose_levels voc ?p) \<and> grown voc b (lose_levels voc ?p) \<and> experience (lose_levels voc ?p) = experience ?p"
      by (rule "1.IH") (use True l l1 g "1.prems" in \<open>auto simp: level_down_def\<close>)
    then show ?thesis using True by (subst (1 2 3) lose_levels.simps) (simp add: level_down_def)
  next
    case False
    have "getExpForLevel (level p) \<le> experience p"
    proof (cases "level p > 1")
      case True
      with False show ?thesis by (simp add: not_less)
    next
      case one: False
      then have "unat (level p) = 1" using "1.prems"(1) by (simp add: word_less_nat_alt)
      then have "unat (getExpForLevel (level p)) = 0" using getExpForLevel_need [of "level p"] by (simp add: maxLevel_def)
      then show ?thesis by (simp add: word_le_nat_alt)
    qed
    with False "1.prems" show ?thesis by (subst (1 2 3) lose_levels.simps) (auto simp: level_ok_def)
  qed
qed

text \<open>The progress bar: the part of the way to the next level, in percent.\<close>

definition percent_ok :: "Progress \<Rightarrow> bool" where
  "percent_ok p \<longleftrightarrow> unat (levelPercent p) =
     (if unat (level p) < maxLevel
      then 100 * (unat (experience p) - need (unat (level p) - 1)) div (need (unat (level p)) - need (unat (level p) - 1))
      else 0)"

lemma getPercentLevel_part:
  assumes "unat n < unat m" and "100 * unat m < 2 ^ 64"
  shows "unat (getPercentLevel n m) = 100 * unat n div unat m"
proof -
  have m: "m \<noteq> 0" and lt: "100 * unat n < 100 * unat m" using assms(1) by auto
  have "unat n * 100 < 2 ^ 64" using assms(2) lt by linarith
  then have "unat (n * 100) = unat n * 100" unfolding unat_word_ariths by simp
  then have q: "unat (n * 100 div m) = 100 * unat n div unat m" by (simp add: unat_div mult.commute)
  have "100 * unat n div unat m < 100" using lt assms(1) by (simp add: div_less_iff_less_mult mult.commute)
  then have "unat (ucast (n * 100 div m) :: u8) = 100 * unat n div unat m"
    using q by (simp add: unsigned_ucast_eq take_bit_nat_eq_self)
  moreover have "\<not> (ucast (n * 100 div m) :: u8) > 100"
    using calculation \<open>100 * unat n div unat m < 100\<close> by (simp add: word_less_nat_alt)
  ultimately show ?thesis using m by (simp add: getPercentLevel_def Let_def)
qed

lemma need_step_bound:
  assumes "n < maxLevel"
  shows "100 * (need (Suc n) - need n) < 2 ^ 64"
proof -
  have "n * (n - 1) \<le> 717217 * 717217" using assms by (intro mult_mono) (simp_all add: maxLevel_def)
  then show ?thesis by simp
qed

lemma level_percent_ok:
  assumes "level_ok p"
  shows "percent_ok (level_percent (getExpForLevel (level p)) (getExpForLevel (level p + 1)) p)"
proof (cases "unat (level p) < maxLevel")
  case False
  with assms at_top [of "level p"] show ?thesis by (auto simp: level_percent_def percent_ok_def level_ok_def)
next
  case True
  let ?c = "getExpForLevel (level p)" and ?n = "getExpForLevel (level p + 1)"
  have pos: "0 < unat (level p)" using assms by (simp add: level_ok_def)
  have lt: "?c < ?n" by (rule below_top [OF pos True])
  have c: "unat ?c = need (unat (level p) - 1)" using pos True by (intro getExpForLevel_need) simp_all
  have n: "unat ?n = need (unat (level p))"
    using True by (subst getExpForLevel_need) (simp_all add: unat_level_succ)
  have e: "?c \<le> experience p" "experience p < ?n" using assms True by (auto simp: level_ok_def)
  then have x: "unat (experience p - ?c) = unat (experience p) - unat ?c" by (simp add: unat_sub)
  have d: "unat (?n - ?c) = unat ?n - unat ?c" using lt by (simp add: unat_sub)
  have "100 * unat (?n - ?c) < 2 ^ 64"
    unfolding d n c using need_step_bound [of "unat (level p) - 1"] pos True by simp
  moreover have "unat (experience p - ?c) < unat (?n - ?c)"
    using e unfolding x d by (simp add: word_le_nat_alt word_less_nat_alt diff_less_mono)
  ultimately have "unat (getPercentLevel (experience p - ?c) (?n - ?c)) = 100 * unat (experience p - ?c) div unat (?n - ?c)"
    by (rule getPercentLevel_part [rotated])
  then show ?thesis using lt True by (simp add: percent_ok_def level_percent_def x d c n)
qed

text \<open>Steps that change neither level nor experience.\<close>

definition same_progress :: "Progress \<Rightarrow> Progress \<Rightarrow> bool" where
  "same_progress p q \<longleftrightarrow> level q = level p \<and> experience q = experience p \<and> healthMax q = healthMax p \<and>
     manaMax q = manaMax p \<and> capacity q = capacity p"

lemma same_progress_level_ok: "same_progress p q \<Longrightarrow> level_ok q = level_ok p"
  by (simp add: same_progress_def level_ok_def)

lemma same_progress_grown: "same_progress p q \<Longrightarrow> grown voc b q = grown voc b p"
  by (simp add: same_progress_def grown_def)

lemma same_progress_simps [simp]:
  "same_progress p (send es p)" "same_progress p (level_percent c n p)" "same_progress p (level_changed voc p)"
  "same_progress p (send_exp t os v x p)" "same_progress p p"
  by (simp_all add: same_progress_def send_def level_percent_def level_changed_def updateBaseSpeed_def send_exp_def)

lemma same_progress_trans: "same_progress p q \<Longrightarrow> same_progress q r \<Longrightarrow> same_progress p r"
  by (simp add: same_progress_def)

section \<open>Operations\<close>

definition progress_ok :: "Vocation \<Rightarrow> nat \<times> nat \<times> nat \<Rightarrow> Progress \<Rightarrow> bool" where
  "progress_ok voc b p \<longleftrightarrow> level_ok p \<and> grown voc b p \<and> percent_ok p \<and> unat (experience p) < 2 ^ 63"

text \<open>All three functions end with the progress bar of a player whose level is right.\<close>

lemma progress_okI:
  assumes "level_ok q" and "grown voc b q" and "unat (experience q) < 2 ^ 63" and "same_progress q r"
    and "cur = getExpForLevel (level r)" and "nxt = getExpForLevel (level r + 1)"
  shows "progress_ok voc b (level_percent cur nxt r)" and "progress_ok voc b (send es (level_percent cur nxt r))"
proof -
  have r: "level_ok r" "grown voc b r" "unat (experience r) < 2 ^ 63"
    using assms same_progress_level_ok [OF assms(4)] same_progress_grown [OF assms(4)] by (auto simp: same_progress_def)
  show 1: "progress_ok voc b (level_percent cur nxt r)"
    using r level_percent_ok [OF r(1)] assms(5,6)
    by (auto simp: progress_ok_def level_percent_def level_ok_def grown_def)
  then show "progress_ok voc b (send es (level_percent cur nxt r))"
    by (simp add: progress_ok_def send_def level_ok_def grown_def percent_ok_def)
qed

lemma addExperience_ok:
  assumes ok: "progress_ok voc b p" and fit: "gains_fit voc b" and small: "unat (onGain n) \<le> 2 ^ 61"
  shows "progress_ok voc b (addExperience onGain others voc n sendText p)"
proof -
  let ?c = "getExpForLevel (level p)" and ?n = "getExpForLevel (level p + 1)"
  have lv: "level_ok p" and g: "grown voc b p" and pos: "0 < unat (level p)" "unat (level p) \<le> maxLevel"
    and e: "?c \<le> experience p" using ok by (auto simp: progress_ok_def level_ok_def)
  show ?thesis
  proof (cases "?n \<le> ?c")
    case True
    then have "unat (level p) = maxLevel" using below_top [of "level p"] pos by (cases "unat (level p) < maxLevel") auto
    with True ok show ?thesis
      by (simp add: addExperience_def Let_def progress_ok_def send_def level_ok_def grown_def percent_ok_def)
  next
    case lt: False
    then have low: "unat (level p) < maxLevel" using at_top [of "level p"] pos by (cases "unat (level p) = maxLevel") auto
    show ?thesis
    proof (cases "onGain n = 0")
      case True
      with lt ok show ?thesis by (simp add: addExperience_def Let_def)
    next
      case some: False
      let ?p1 = "send_exp sendText others ''gained'' (onGain n) (p\<lparr>experience := experience p + onGain n\<rparr>)"
      have "unat (experience p) < need (maxLevel - 1)"
      proof -
        have "unat (experience p) < unat ?n" using lv low by (simp add: level_ok_def word_less_nat_alt)
        also have "unat ?n = need (unat (level p))" using low by (subst getExpForLevel_need) (simp_all add: unat_level_succ)
        also have "\<dots> \<le> need (maxLevel - 1)" using low by (intro need_mono) simp
        finally show ?thesis .
      qed
      then have sum: "unat (experience p) + unat (onGain n) < 2 ^ 63" using small need_top by simp
      then have u: "unat (experience p + onGain n) = unat (experience p) + unat (onGain n)"
        unfolding unat_word_ariths by simp
      have p1: "same_progress (p\<lparr>experience := experience p + onGain n\<rparr>) ?p1" by simp
      obtain p2 c2 n2 where q: "gain_levels voc ?p1 ?c ?n = (p2, c2, n2)" by (cases "gain_levels voc ?p1 ?c ?n")
      have "levels_done voc b (experience ?p1) (gain_levels voc ?p1 ?c ?n)"
      proof (rule gain_levels_ok)
        show "getExpForLevel (level ?p1) \<le> experience ?p1"
          using e p1 u by (simp add: same_progress_def word_le_nat_alt)
        show "grown voc b ?p1" using g same_progress_grown [OF p1] by (simp add: grown_def)
      qed (use pos low fit p1 in \<open>simp_all add: same_progress_def\<close>)
      with q have f: "level_ok p2" "experience p2 = experience ?p1" "grown voc b p2"
        "c2 = getExpForLevel (level p2)" "n2 = getExpForLevel (level p2 + 1)" by (auto simp: levels_done_def)
      have "unat (experience p2) < 2 ^ 63" using f(2) p1 u sum by (simp add: same_progress_def)
      note fin = progress_okI(2) [OF f(1,3) this]
      show ?thesis
      proof -
        define p3 where "p3 = (if level p \<noteq> level p2
          then send [PlayerAdvance (skill_code SKILL_LEVEL) (unat (level p)) (unat (level p2)),
                 ToPlayer MESSAGE_EVENT_ADVANCE (''You advanced from Level '' @ dec (level p) @ '' to Level '' @ dec (level p2) @ ''.'')]
             (level_changed voc p2) else p2)"
        have s: "same_progress p2 p3"
          by (auto simp: p3_def intro: same_progress_trans [OF same_progress_simps(3) same_progress_simps(1)])
        have "addExperience onGain others voc n sendText p = send [Stats] (level_percent c2 n2 p3)"
          using lt some by (simp only: addExperience_def Let_def q prod.case if_False p3_def)
        moreover have "progress_ok voc b (send [Stats] (level_percent c2 n2 p3))"
          by (rule fin [OF s]) (use f(4,5) s in \<open>simp_all add: same_progress_def\<close>)
        ultimately show ?thesis by simp
      qed
    qed
  qed
qed

lemma lose_ok:
  assumes ok: "progress_ok voc b p" and fit: "gains_fit voc b" and q: "same_progress (p\<lparr>experience := e\<rparr>) q" and le: "e \<le> experience p"
  shows "level_ok (lose_levels voc q) \<and> grown voc b (lose_levels voc q) \<and> experience (lose_levels voc q) = e \<and> unat e < 2 ^ 63"
proof -
  have "level_ok (lose_levels voc q) \<and> grown voc b (lose_levels voc q) \<and> experience (lose_levels voc q) = experience q"
  proof (rule lose_levels_ok [OF _ _ _ fit])
    show "grown voc b q" using ok same_progress_grown [OF q] by (simp add: progress_ok_def grown_def)
    show "unat (level q) < maxLevel \<Longrightarrow> experience q < getExpForLevel (level q + 1)"
      using ok q le by (auto simp: progress_ok_def level_ok_def same_progress_def)
  qed (use ok q in \<open>simp_all add: progress_ok_def level_ok_def same_progress_def\<close>)
  moreover have "unat e < 2 ^ 63" using ok le by (auto simp: progress_ok_def word_le_nat_alt)
  ultimately show ?thesis using q by (simp add: same_progress_def)
qed

lemma sint_neg_u64: "sint (w :: 64 word) < 0 \<longleftrightarrow> 2 ^ 63 \<le> unat w"
proof -
  have "sint w < 0 \<longleftrightarrow> odd (uint w div 2 ^ 63)"
    by (simp add: sint_uint bit_iff_odd)
  also have "uint w div 2 ^ 63 = (if uint w < 2 ^ 63 then 0 else 1)"
  proof (cases "uint w < 2 ^ 63")
    case False
    then have "uint w div 2 ^ 63 = (uint w - 2 ^ 63) div 2 ^ 63 + 1" by (subst div_pos_geq) simp_all
    moreover have "(uint w - 2 ^ 63) div 2 ^ 63 = 0"
      using False uint_lt2p [of w] by (intro div_pos_pos_trivial) simp_all
    ultimately show ?thesis using False by simp
  qed simp
  also have "odd (if uint w < 2 ^ 63 then 0 else 1 :: int) \<longleftrightarrow> \<not> uint w < 2 ^ 63" by simp
  also have "uint w < 2 ^ 63 \<longleftrightarrow> unat w < 2 ^ 63"
    using of_nat_less_iff [of "unat w" "2 ^ 63", where 'a = int] by simp
  finally show ?thesis by (simp add: not_less)
qed
lemma loss_left:
  assumes "unat (e :: u64) < 2 ^ 63" and "unat x \<le> 2 ^ 63"
  shows "(if sint (e - x) < 0 then 0 else e - x) = (if x \<le> e then e - x else 0)"
proof (cases "x \<le> e")
  case True
  then have "unat (e - x) < 2 ^ 63" using assms(1) by (simp add: unat_sub)
  then have "\<not> sint (e - x) < 0" unfolding sint_neg_u64 by simp
  with True show ?thesis by simp
next
  case False
  then have "unat (e - x) = 2 ^ 64 + unat e - unat x" by (simp add: unat_sub_if' word_le_nat_alt)
  then have "2 ^ 63 \<le> unat (e - x)" using assms(2) by simp
  then have "sint (e - x) < 0" unfolding sint_neg_u64 .
  with False show ?thesis by simp
qed

lemma removeExperience_ok:
  assumes ok: "progress_ok voc b p" and fit: "gains_fit voc b" and small: "unat (onLose n) \<le> 2 ^ 63"
  shows "progress_ok voc b (removeExperience onLose others voc n sendText p)"
proof (cases "experience p = 0 \<or> n = 0 \<or> onLose n = 0")
  case True
  with ok show ?thesis by (auto simp: removeExperience_def)
next
  case False
  define left where "left = (if onLose n \<le> experience p then experience p - onLose n else 0)"
  define p1 where "p1 = send_exp sendText others ''lost'' (experience p - left) (p\<lparr>experience := left\<rparr>)"
  define p2 where "p2 = lose_levels voc p1"
  define p3 where "p3 = (if level p \<noteq> level p2 then send [downgraded (level p) (level p2)] (level_changed voc p2) else p2)"
  have "left \<le> experience p" by (auto simp: left_def word_le_nat_alt unat_sub)
  then have f: "level_ok p2 \<and> grown voc b p2 \<and> experience p2 = left \<and> unat left < 2 ^ 63"
    unfolding p2_def by (intro lose_ok [OF ok fit]) (simp_all add: p1_def)
  have s: "same_progress p2 p3"
    by (auto simp: p3_def intro: same_progress_trans [OF same_progress_simps(3) same_progress_simps(1)])
  have "progress_ok voc b (send [Stats] (level_percent (getExpForLevel (level p3)) (getExpForLevel (level p3 + 1)) p3))"
    by (rule progress_okI(2) [OF _ _ _ s]) (use f in simp_all)
  moreover have "removeExperience onLose others voc n sendText p =
    send [Stats] (level_percent (getExpForLevel (level p3)) (getExpForLevel (level p3 + 1)) p3)"
  proof -
    have l: "(if sint (experience p - onLose n) < 0 then 0 else experience p - onLose n) = left"
      using loss_left [of "experience p" "onLose n"] ok small by (simp only: left_def progress_ok_def)
    have "\<not> (experience p = 0 \<or> n = 0)" "onLose n \<noteq> 0" using False by simp_all
    then show ?thesis by (simp only: removeExperience_def Let_def l p3_def p2_def p1_def if_False)
  qed
  ultimately show ?thesis by simp
qed

lemma death_experience_ok:
  assumes ok: "progress_ok voc b p" and fit: "gains_fit voc b" and "onLose (share (experience p)) \<le> experience p"
  shows "progress_ok voc b (death_experience share onLose voc p)"
proof (cases "onLose (share (experience p)) = 0")
  case True
  with ok show ?thesis by (simp add: death_experience_def)
next
  case False
  let ?x = "onLose (share (experience p))"
  define left where "left = (if none_vocation voc \<or> level p > 7 then experience p - ?x else experience p)"
  define p2 where "p2 = lose_levels voc (p\<lparr>experience := left\<rparr>)"
  define p3 where "p3 = (if level p \<noteq> level p2 then send [downgraded (level p) (level p2)] p2 else p2)"
  have "left \<le> experience p" using assms(3) by (auto simp: left_def word_le_nat_alt unat_sub)
  then have f: "level_ok p2 \<and> grown voc b p2 \<and> experience p2 = left \<and> unat left < 2 ^ 63"
    unfolding p2_def by (intro lose_ok [OF ok fit]) simp_all
  have s: "same_progress p2 p3" by (simp add: p3_def)
  have "progress_ok voc b (level_percent (getExpForLevel (level p3)) (getExpForLevel (level p3 + 1)) p3)"
    by (rule progress_okI(1) [OF _ _ _ s]) (use f in simp_all)
  moreover have "p\<lparr>experience := left\<rparr> = (if none_vocation voc \<or> level p > 7 then p\<lparr>experience := experience p - ?x\<rparr> else p)"
    by (simp add: left_def)
  ultimately show ?thesis
    using False by (simp only: death_experience_def Let_def p3_def p2_def if_False)
qed

section \<open>A player's life\<close>

inductive adv_step :: "Vocation \<Rightarrow> Progress \<Rightarrow> Progress \<Rightarrow> bool" for voc where
  gain: "unat (onGain n) \<le> 2 ^ 61 \<Longrightarrow> adv_step voc p (addExperience onGain others voc n sendText p)"
| lose: "unat (onLose n) \<le> 2 ^ 63 \<Longrightarrow> adv_step voc p (removeExperience onLose others voc n sendText p)"
| die: "onLose (share (experience p)) \<le> experience p \<Longrightarrow> adv_step voc p (death_experience share onLose voc p)"

lemma adv_steps_ok:
  assumes "(adv_step voc)\<^sup>*\<^sup>* p q" and "progress_ok voc b p" and "gains_fit voc b"
  shows "progress_ok voc b q"
  using assms
  by (induction rule: rtranclp_induct)
    (auto elim!: adv_step.cases intro: addExperience_ok removeExperience_ok death_experience_ok)

lemma level_ok_levels:
  assumes "level_ok p" and "0 < l" and "l \<le> maxLevel"
  shows "l \<le> unat (level p) \<longleftrightarrow> need (l - 1) \<le> unat (experience p)"
proof
  assume l: "l \<le> unat (level p)"
  have "need (l - 1) \<le> need (unat (level p) - 1)" using l by (intro need_mono) simp
  also have "\<dots> \<le> unat (experience p)"
    using assms(1) getExpForLevel_need [of "level p"] by (simp add: level_ok_def word_le_nat_alt)
  finally show "need (l - 1) \<le> unat (experience p)" .
next
  assume e: "need (l - 1) \<le> unat (experience p)"
  show "l \<le> unat (level p)"
  proof (rule ccontr)
    assume "\<not> l \<le> unat (level p)"
    then have lt: "unat (level p) < l" by simp
    then have low: "unat (level p) < maxLevel" using assms(3) by simp
    have "unat (experience p) < unat (getExpForLevel (level p + 1))"
      using assms(1) low by (simp add: level_ok_def word_less_nat_alt)
    also have "\<dots> = need (unat (level p))" using low by (subst getExpForLevel_need) (simp_all add: unat_level_succ)
    also have "\<dots> \<le> need (l - 1)" using lt by (intro need_mono) simp
    finally show False using e by simp
  qed
qed

text \<open>C25: through any gains and losses of experience and any deaths, as long as the scripts that are asked for the
  amounts answer at most \<open>2 ^ 61\<close> for a gain, at most \<open>2 ^ 63\<close> for a loss, and for a death at most the experience that
  the player has (which the code does not check: a greater answer wraps the experience around), a player has exactly the levels whose requirement his experience meets, his progress bar
  is the part of the way to the next level, and his health, mana and capacity are those of his level:
  a death that costs levels takes what the levels gave, no more and no less.\<close>

theorem level_follows_experience:
  assumes "(adv_step voc)\<^sup>*\<^sup>* p q" and "progress_ok voc (h, m, c) p" and "gains_fit voc (h, m, c)"
  shows "(\<forall>l. 0 < l \<and> l \<le> maxLevel \<longrightarrow> (l \<le> unat (level q) \<longleftrightarrow> need (l - 1) \<le> unat (experience q))) \<and>
    0 < unat (level q) \<and> unat (level q) \<le> maxLevel \<and> percent_ok q \<and>
    unat (healthMax q) = h + (unat (level q) - 1) * unat (gainHP voc) \<and>
    unat (manaMax q) = m + (unat (level q) - 1) * unat (gainMana voc) \<and>
    unat (capacity q) = c + (unat (level q) - 1) * unat (gainCap voc)"
  using adv_steps_ok [OF assms] level_ok_levels [of q]
  by (auto simp: progress_ok_def grown_def grown1_def level_ok_def)

definition knight :: Vocation where
  "knight = \<lparr>gainHP = 15, gainMana = 5, gainCap = 2500, vocBaseSpeed = 220, none_vocation = False, soulMax = 100,
     cacheMana = Map.empty, cacheSkill = (\<lambda>_. Map.empty)\<rparr>"

definition novice :: Progress where
  "novice = \<lparr>level = 1, levelPercent = 0, experience = 0, magLevel = 0, manaSpent = 0, magLevelPercent = 0,
     skills = (\<lambda>_. \<lparr>tries = 0, skill_level = 10, percent = 0\<rparr>), healthMax = 150, health = 150, manaMax = 50, mana = 50,
     capacity = 40000, baseSpeed = 220, maxSpeedFlag = False, notGainMana = False, in_party = False, sent = []\<rparr>"

lemma level_follows_experience_witness:
  "unat (healthMax (removeExperience id None knight 350 False (addExperience id None knight 500 False novice))) =
    150 + (unat (level (removeExperience id None knight 350 False (addExperience id None knight 500 False novice))) - 1) * 15"
proof -
  let ?p = "addExperience id None knight 500 False novice"
  have "adv_step knight novice ?p" by (rule adv_step.gain) simp
  moreover have "adv_step knight ?p (removeExperience id None knight 350 False ?p)" by (rule adv_step.lose) simp
  ultimately have r: "(adv_step knight)\<^sup>*\<^sup>* novice (removeExperience id None knight 350 False ?p)" by simp
  have "level_ok novice" "percent_ok novice"
    by (simp_all add: level_ok_def percent_ok_def novice_def getExpForLevel_def maxLevel_def)
  then have "progress_ok knight (150, 50, 40000) novice"
    by (simp add: progress_ok_def grown_def grown1_def novice_def)
  moreover have "gains_fit knight (150, 50, 40000)" by (simp add: gains_fit_def knight_def maxLevel_def)
  ultimately show ?thesis using level_follows_experience [OF r] by (simp add: knight_def)
qed

end
