(* ===== verification/AdvanceSkills.thy ===== *)
theory AdvanceSkills
  imports Advance
begin

text \<open>
  The magic level: the mana a player has ever spent is kept as a level and a rest.  A death takes
  its share of all of it and training adds to it, so that training the lost share brings a player
  back to where he was.  The cache of requirements is right for mana; for skills it is not.
\<close>

section \<open>Requirements\<close>

definition mana_req :: "(u32 \<Rightarrow> u64) \<Rightarrow> nat \<Rightarrow> nat" where
  "mana_req raw i = unat (round_mana (raw (of_nat i)))"

definition mana_cache_ok :: "(u32 \<Rightarrow> u64) \<Rightarrow> Vocation \<Rightarrow> bool" where
  "mana_cache_ok raw voc \<longleftrightarrow> (\<forall>lv n. cacheMana voc lv = Some n \<longrightarrow> n = round_mana (raw lv))"

lemma getReqMana_ok:
  assumes "mana_cache_ok raw voc"
  obtains voc' where "getReqMana raw lv voc = (round_mana (raw lv), voc')" and "mana_cache_ok raw voc'"
proof -
  have "fst (getReqMana raw lv voc) = round_mana (raw lv) \<and> mana_cache_ok raw (snd (getReqMana raw lv voc))"
    using assms by (auto simp: getReqMana_def mana_cache_ok_def Let_def split: option.splits if_splits)
  then show thesis using that by (cases "getReqMana raw lv voc") simp
qed

text \<open>All the mana that a level and a rest stand for.\<close>

definition mana_total :: "(u32 \<Rightarrow> u64) \<Rightarrow> nat \<Rightarrow> nat \<Rightarrow> nat" where
  "mana_total raw k s = (\<Sum>i = 1..k. mana_req raw i) + s"

lemma mana_total_Suc: "mana_total raw (Suc k) s = mana_total raw k (mana_req raw (Suc k)) + s"
  by (simp add: mana_total_def)

lemma mana_total_add: "mana_total raw k s + t = mana_total raw k (s + t)"
  by (simp add: mana_total_def)

lemma mana_total_mono: "k \<le> l \<Longrightarrow> mana_total raw k 0 \<le> mana_total raw l s"
  unfolding mana_total_def by (rule order_trans [OF _ le_add1]) (auto intro: sum_mono2)

text \<open>A level and a rest below the next requirement are determined by the total.\<close>

lemma mana_total_unique:
  assumes "mana_total raw k s = mana_total raw l t" and "s < mana_req raw (Suc k)" and "t < mana_req raw (Suc l)"
  shows "k = l \<and> s = t"
proof -
  have "\<not> l < k" if "mana_total raw k s = mana_total raw l t" "t < mana_req raw (Suc l)" for k l s t
    using that mana_total_mono [of "Suc l" k raw s] by (auto simp: mana_total_def)
  with assms have "k = l" by (metis linorder_neqE_nat)
  with assms(1) show ?thesis by (simp add: mana_total_def)
qed

section \<open>Training\<close>

lemma of_nat_unat_u32: "of_nat (unat (w :: u32)) = w"
  by simp

lemma of_nat_unat_u64: "of_nat (unat (w :: u64)) = w"
  by simp

lemma gain_mag_stop: "\<not> next_req l \<le> manaSpent p + amount l \<Longrightarrow> gain_mag tell raw voc p l = (voc, p, l)"
  by (subst gain_mag.simps) (simp only: if_False)

lemma gain_mag_next:
  assumes "next_req l \<le> manaSpent p + amount l" and "getReqMana raw (magLevel p + 1 + 1) voc = (req, voc1)"
    and "\<not> req \<le> next_req l"
  shows "gain_mag tell raw voc p l = gain_mag tell raw voc1 (mag_up tell p)
    (l\<lparr>amount := amount l - (next_req l - manaSpent p), cur_req := next_req l, next_req := req\<rparr>)"
proof -
  have lv: "magLevel (mag_up tell p) = magLevel p + 1" by (simp add: mag_up_def send_def)
  show ?thesis
    by (subst gain_mag.simps) (simp only: assms(1) if_True Let_def lv assms(2) prod.case assms(3) if_False)
qed

lemma gain_mag_reaches:
  assumes "mana_cache_ok raw voc" and "next_req l = round_mana (raw (magLevel p + 1))"
    and "unat (magLevel p) \<le> L" and "L < 2 ^ 32 - 2"
    and "\<And>i. unat (magLevel p) < i \<Longrightarrow> i \<le> L \<Longrightarrow> mana_req raw i < mana_req raw (Suc i)"
    and "mana_total raw (unat (magLevel p)) (unat (manaSpent p)) + unat (amount l) = mana_total raw L S"
    and "manaSpent p < next_req l" and "unat (manaSpent p) + unat (amount l) < 2 ^ 64" and "S < mana_req raw (Suc L)"
    and "\<not> capped l"
  shows "\<exists>voc' p' l'. gain_mag tell raw voc p l = (voc', p', l') \<and> mana_cache_ok raw voc' \<and> \<not> capped l' \<and>
    unat (magLevel p') = L \<and> unat (manaSpent p' + amount l') = S"
  using assms
proof (induction tell raw voc p l rule: gain_mag.induct)
  case (1 tell raw voc p l)
  let ?k = "unat (magLevel p)"
  note prems = "1.prems"
  have k1: "unat (magLevel p + 1) = Suc ?k" using prems(3,4) by (subst unat_succ_u32) (simp_all add: word_less_nat_alt)
  have lv: "of_nat (Suc ?k) = magLevel p + 1" by simp
  have nr: "unat (next_req l) = mana_req raw (Suc ?k)" unfolding mana_req_def lv prems(2) ..
  have sum: "unat (manaSpent p + amount l) = unat (manaSpent p) + unat (amount l)"
    using prems(8) unfolding unat_word_ariths by simp
  show ?case
  proof (cases "?k = L")
    case True
    with prems(6) have S: "unat (manaSpent p) + unat (amount l) = S" by (simp add: mana_total_def)
    then have "\<not> next_req l \<le> manaSpent p + amount l"
      using prems(9) True nr sum by (simp add: word_le_nat_alt)
    then show ?thesis using gain_mag_stop prems(1,10) True S sum by auto
  next
    case False
    then have lt: "Suc ?k \<le> L" using prems(3) by simp
    have k2: "unat (magLevel p + 1 + 1) = Suc (Suc ?k)"
      using lt prems(4) k1 by (subst unat_succ_u32) (simp_all add: word_less_nat_alt)
    have "mana_total raw (Suc ?k) 0 \<le> mana_total raw L S" by (rule mana_total_mono [OF lt])
    then have enough: "mana_req raw (Suc ?k) \<le> unat (manaSpent p) + unat (amount l)"
      using prems(6) by (simp add: mana_total_def)
    then have go: "next_req l \<le> manaSpent p + amount l" using nr sum by (simp add: word_le_nat_alt)
    obtain voc1 where r: "getReqMana raw (magLevel p + 1 + 1) voc = (round_mana (raw (magLevel p + 1 + 1)), voc1)"
      and c1: "mana_cache_ok raw voc1" by (rule getReqMana_ok [OF prems(1)])
    let ?r = "round_mana (raw (magLevel p + 1 + 1))"
    have rr: "unat ?r = mana_req raw (Suc (Suc ?k))" by (simp add: mana_req_def ac_simps)
    have "mana_req raw (Suc ?k) < mana_req raw (Suc (Suc ?k))" using prems(5) [of "Suc ?k"] lt by simp
    then have grow: "\<not> ?r \<le> next_req l" using nr rr by (simp add: word_le_nat_alt)
    let ?p = "mag_up tell p"
    let ?l = "l\<lparr>amount := amount l - (next_req l - manaSpent p), cur_req := next_req l, next_req := ?r\<rparr>"
    have p1: "magLevel ?p = magLevel p + 1" "manaSpent ?p = 0" by (simp_all add: mag_up_def send_def)
    have d: "unat (next_req l - manaSpent p) = mana_req raw (Suc ?k) - unat (manaSpent p)"
      using prems(7) nr by (simp add: unat_sub)
    have ms: "unat (manaSpent p) < mana_req raw (Suc ?k)" using prems(7) nr by (simp add: word_less_nat_alt)
    have le: "next_req l - manaSpent p \<le> amount l" using d enough by (simp add: word_le_nat_alt)
    have a: "unat (amount l - (next_req l - manaSpent p)) = unat (manaSpent p) + unat (amount l) - mana_req raw (Suc ?k)"
      using le d ms enough by (simp add: unat_sub)
    have "\<exists>voc' p' l'. gain_mag tell raw voc1 ?p ?l = (voc', p', l') \<and> mana_cache_ok raw voc' \<and> \<not> capped l' \<and>
      unat (magLevel p') = L \<and> unat (manaSpent p' + amount l') = S"
    proof (rule "1.IH" [OF go refl refl _ refl grow c1])
      show "(?r, voc1) = getReqMana raw (magLevel ?p + 1) voc" using r p1 by simp
    qed (use p1 k1 lt prems grow rr a enough in \<open>simp_all add: mana_total_Suc mana_total_def word_less_nat_alt not_le\<close>)
    then show ?thesis unfolding gain_mag_next [OF go r grow] .
  qed
qed

section \<open>Dying\<close>

lemma sum_mana_ok:
  assumes "mana_cache_ok raw voc" and "unat acc + (\<Sum>j = unat i..<unat i + k. mana_req raw j) < 2 ^ 64"
    and "unat i + k < 2 ^ 32"
  shows "\<exists>sum voc'. sum_mana raw k i voc acc = (sum, voc') \<and> mana_cache_ok raw voc' \<and>
    unat sum = unat acc + (\<Sum>j = unat i..<unat i + k. mana_req raw j)"
  using assms
proof (induction k arbitrary: i voc acc)
  case (Suc k)
  obtain voc1 where r: "getReqMana raw i voc = (round_mana (raw i), voc1)" and c: "mana_cache_ok raw voc1"
    by (rule getReqMana_ok [OF Suc.prems(1)])
  have q: "unat (round_mana (raw i)) = mana_req raw (unat i)" by (simp add: mana_req_def)
  have split: "(\<Sum>j = unat i..<unat i + Suc k. mana_req raw j) =
      mana_req raw (unat i) + (\<Sum>j = Suc (unat i)..<Suc (unat i) + k. mana_req raw j)"
    by (subst sum.atLeast_Suc_lessThan) simp_all
  have i1: "unat (i + 1) = Suc (unat i)" if "k \<noteq> 0"
    using Suc.prems(3) that by (subst unat_succ_u32) (simp_all add: word_less_nat_alt)
  have acc: "unat (acc + round_mana (raw i)) = unat acc + mana_req raw (unat i)"
    using Suc.prems(2) unfolding unat_word_ariths q split by simp
  show ?case
  proof (cases "k = 0")
    case True
    then show ?thesis using r c acc by simp
  next
    case False
    obtain sum voc' where f: "sum_mana raw k (i + 1) voc1 (acc + round_mana (raw i)) = (sum, voc')" "mana_cache_ok raw voc'"
      "unat sum = unat (acc + round_mana (raw i)) + (\<Sum>j = unat (i + 1)..<unat (i + 1) + k. mana_req raw j)"
    proof -
      have "unat (acc + round_mana (raw i)) + (\<Sum>j = unat (i + 1)..<unat (i + 1) + k. mana_req raw j) < 2 ^ 64"
        using Suc.prems(2) unfolding i1 [OF False] acc split by simp
      from Suc.IH [OF c this] Suc.prems(3) i1 [OF False] that show thesis by auto
    qed
    have "unat sum = unat acc + (\<Sum>j = unat i..<unat i + Suc k. mana_req raw j)"
      using f(3) unfolding i1 [OF False] acc split by simp
    moreover have "sum_mana raw (Suc k) i voc acc = (sum, voc')" using f(1) r by simp
    ultimately show ?thesis using f(2) by blast
  qed
qed simp

lemma lose_mag_stop: "\<not> (lost > manaSpent p \<and> magLevel p > 0) \<Longrightarrow> lose_mag raw voc p lost = (voc, p, lost)"
  by (subst lose_mag.simps) (simp only: if_False)

lemma lose_mag_next:
  "lost > manaSpent p \<and> magLevel p > 0 \<Longrightarrow> getReqMana raw (magLevel p) voc = (req, voc1) \<Longrightarrow>
   lose_mag raw voc p lost = lose_mag raw voc1 (p\<lparr>manaSpent := req, magLevel := magLevel p - 1\<rparr>) (lost - manaSpent p)"
  by (subst lose_mag.simps) (simp only: if_True Let_def prod.case simp_thms)

lemma lose_mag_ok:
  assumes "mana_cache_ok raw voc" and "unat lost \<le> mana_total raw (unat (magLevel p)) (unat (manaSpent p))"
    and "unat (manaSpent p) - unat lost < mana_req raw (Suc (unat (magLevel p)))"
    and "\<And>i. 0 < i \<Longrightarrow> i \<le> unat (magLevel p) \<Longrightarrow> 0 < mana_req raw i"
  shows "\<exists>voc' p' lost'. lose_mag raw voc p lost = (voc', p', lost') \<and> mana_cache_ok raw voc' \<and>
    lost' \<le> manaSpent p' \<and> unat (manaSpent p') - unat lost' < mana_req raw (Suc (unat (magLevel p'))) \<and>
    unat (magLevel p') \<le> unat (magLevel p) \<and> notGainMana p' = notGainMana p \<and>
    mana_total raw (unat (magLevel p')) (unat (manaSpent p')) + unat lost =
      mana_total raw (unat (magLevel p)) (unat (manaSpent p)) + unat lost'"
  using assms
proof (induction raw voc p lost rule: lose_mag.induct)
  case (1 raw voc p lost)
  note prems = "1.prems"
  show ?case
  proof (cases "lost > manaSpent p \<and> magLevel p > 0")
    case False
    have "lost \<le> manaSpent p"
    proof (cases "magLevel p = 0")
      case True
      with prems(2) show ?thesis by (simp add: mana_total_def word_le_nat_alt)
    next
      case nz: False
      with False show ?thesis by (simp add: word_gt_0)
    qed
    with prems show ?thesis unfolding lose_mag_stop [OF False] by simp
  next
    case True
    obtain voc1 where r: "getReqMana raw (magLevel p) voc = (round_mana (raw (magLevel p)), voc1)"
      and c1: "mana_cache_ok raw voc1" by (rule getReqMana_ok [OF prems(1)])
    let ?p = "p\<lparr>manaSpent := round_mana (raw (magLevel p)), magLevel := magLevel p - 1\<rparr>"
    obtain k where k: "unat (magLevel p) = Suc k" using True by (cases "unat (magLevel p)") (auto simp: word_less_nat_alt)
    have k1: "unat (magLevel p - 1) = k" using k True by (subst unat_minus_one) auto
    have q: "unat (round_mana (raw (magLevel p))) = mana_req raw (Suc k)" by (simp add: mana_req_def flip: k)
    have lt: "unat (manaSpent p) < unat lost" using True by (simp add: word_less_nat_alt)
    then have d: "unat (lost - manaSpent p) = unat lost - unat (manaSpent p)" by (simp add: unat_sub word_le_nat_alt)
    have "\<exists>voc' p' lost'. lose_mag raw voc1 ?p (lost - manaSpent p) = (voc', p', lost') \<and> mana_cache_ok raw voc' \<and>
      lost' \<le> manaSpent p' \<and> unat (manaSpent p') - unat lost' < mana_req raw (Suc (unat (magLevel p'))) \<and>
      unat (magLevel p') \<le> unat (magLevel ?p) \<and> notGainMana p' = notGainMana ?p \<and>
      mana_total raw (unat (magLevel p')) (unat (manaSpent p')) + unat (lost - manaSpent p) =
        mana_total raw (unat (magLevel ?p)) (unat (manaSpent ?p)) + unat lost'"
    proof (rule "1.IH" [OF True r [symmetric] refl c1])
      show "unat (lost - manaSpent p) \<le> mana_total raw (unat (magLevel ?p)) (unat (manaSpent ?p))"
        using prems(2) k k1 q d by (simp add: mana_total_def)
      show "unat (manaSpent ?p) - unat (lost - manaSpent p) < mana_req raw (Suc (unat (magLevel ?p)))"
        using k1 q d lt prems(4) [of "Suc k"] k by simp
      show "\<And>i. 0 < i \<Longrightarrow> i \<le> unat (magLevel ?p) \<Longrightarrow> 0 < mana_req raw i" using prems(4) k k1 by simp
    qed
    then show ?thesis
      unfolding lose_mag_next [OF True r] using k k1 q d lt by (auto simp: mana_total_def)
  qed
qed

lemma death_mana_ok:
  assumes "mana_cache_ok raw voc" and "unat (magLevel p) < 2 ^ 32 - 2"
    and "\<And>i. i \<le> unat (magLevel p) \<Longrightarrow> mana_req raw i < mana_req raw (Suc i)"
    and "unat (manaSpent p) < mana_req raw (Suc (unat (magLevel p)))"
    and "mana_total raw (unat (magLevel p)) (unat (manaSpent p)) < 2 ^ 64" and "\<And>x. share x \<le> x"
  obtains voc' p' where "death_mana share raw voc p = (voc', p')" and "mana_cache_ok raw voc'"
    and "unat (magLevel p') \<le> unat (magLevel p)" and "unat (manaSpent p') < mana_req raw (Suc (unat (magLevel p')))"
    and "notGainMana p' = notGainMana p"
    and "mana_total raw (unat (magLevel p')) (unat (manaSpent p')) + unat (share (of_nat (mana_total raw (unat (magLevel p)) (unat (manaSpent p))))) =
      mana_total raw (unat (magLevel p)) (unat (manaSpent p))"
proof -
  let ?k = "unat (magLevel p)" and ?s = "unat (manaSpent p)"
  let ?T = "mana_total raw ?k ?s"
  have sums: "(\<Sum>j = 1..<1 + ?k. mana_req raw j) = (\<Sum>j = 1..?k. mana_req raw j)"
    by (simp add: atLeastLessThanSuc_atLeastAtMost)
  have "\<exists>sum voc'. sum_mana raw ?k 1 voc 0 = (sum, voc') \<and> mana_cache_ok raw voc' \<and>
      unat sum = unat (0 :: u64) + (\<Sum>j = unat (1 :: u32)..<unat (1 :: u32) + ?k. mana_req raw j)"
    by (rule sum_mana_ok [OF assms(1)]) (use assms(2,5) sums in \<open>simp_all add: mana_total_def\<close>)
  then obtain sum voc1 where s: "sum_mana raw ?k 1 voc 0 = (sum, voc1)" "mana_cache_ok raw voc1"
    and us: "unat sum = (\<Sum>j = 1..?k. mana_req raw j)" using sums by auto
  have ut: "unat (sum + manaSpent p) = ?T"
    using assms(5) unfolding unat_word_ariths us by (simp add: mana_total_def)
  then have t: "sum + manaSpent p = of_nat ?T" by (metis of_nat_unat_u64)
  let ?lost = "share (of_nat ?T)"
  have "?lost \<le> of_nat ?T" by (rule assms(6))
  then have "unat ?lost \<le> ?T" using ut t by (simp add: word_le_nat_alt)
  then obtain voc2 p1 lost' where l: "lose_mag raw voc1 p ?lost = (voc2, p1, lost')" "mana_cache_ok raw voc2"
    "lost' \<le> manaSpent p1" "unat (manaSpent p1) - unat lost' < mana_req raw (Suc (unat (magLevel p1)))"
    "unat (magLevel p1) \<le> ?k" "notGainMana p1 = notGainMana p"
    "mana_total raw (unat (magLevel p1)) (unat (manaSpent p1)) + unat ?lost = ?T + unat lost'"
  proof -
    have "0 < mana_req raw i" if "0 < i" "i \<le> ?k" for i
      using assms(3) [of "i - 1"] that by (cases i) auto
    with lose_mag_ok [OF s(2), of ?lost p] assms(4) \<open>unat ?lost \<le> ?T\<close> that show thesis by (metis less_imp_diff_less)
  qed
  obtain voc3 where r3: "getReqMana raw (magLevel p1 + 1) voc2 = (round_mana (raw (magLevel p1 + 1)), voc3)" "mana_cache_ok raw voc3"
    by (rule getReqMana_ok [OF l(2)])
  obtain voc4 where r4: "getReqMana raw (magLevel p1) voc3 = (round_mana (raw (magLevel p1)), voc4)" "mana_cache_ok raw voc4"
    by (rule getReqMana_ok [OF r3(2)])
  let ?p = "p1\<lparr>manaSpent := manaSpent p1 - lost'\<rparr>"
  have d: "unat (manaSpent p1 - lost') = unat (manaSpent p1) - unat lost'" using l(3) by (simp add: unat_sub)
  show thesis
  proof (rule that)
    show "death_mana share raw voc p = (voc4, ?p\<lparr>magLevelPercent :=
        percent_of (manaSpent p1 - lost') (round_mana (raw (magLevel p1))) (round_mana (raw (magLevel p1 + 1)))\<rparr>)"
      by (simp add: death_mana_def s t l(1) r3(1) r4(1))
  qed (use l r4(2) d in \<open>auto simp: mana_total_def word_le_nat_alt\<close>)
qed

lemma addManaSpent_ok:
  assumes "mana_cache_ok raw voc" and "\<not> notGainMana p" and "unat (magLevel p) \<le> L" and "L < 2 ^ 32 - 2"
    and "\<And>i. i \<le> L \<Longrightarrow> mana_req raw i < mana_req raw (Suc i)"
    and "mana_total raw (unat (magLevel p)) (unat (manaSpent p)) + unat n = mana_total raw L S"
    and "unat (manaSpent p) < mana_req raw (Suc (unat (magLevel p)))" and "S < mana_req raw (Suc L)"
    and "unat (manaSpent p) + unat n < 2 ^ 64"
  shows "\<exists>voc' p'. addManaSpent raw id voc n p = (voc', p') \<and> unat (magLevel p') = L \<and> unat (manaSpent p') = S"
proof (cases "n = 0")
  case True
  with mana_total_unique [of raw _ _ L S] assms(6-8)
  have "unat (magLevel p) = L" "unat (manaSpent p) = S" by simp_all
  moreover have "\<exists>voc'. addManaSpent raw id voc n p = (voc', p)"
    using True assms(2) by (simp add: addManaSpent_def split: prod.splits)
  ultimately show ?thesis by auto
next
  case False
  let ?k = "unat (magLevel p)"
  have k1: "of_nat (Suc ?k) = magLevel p + 1" by simp
  obtain voc1 where r1: "getReqMana raw (magLevel p) voc = (round_mana (raw (magLevel p)), voc1)" "mana_cache_ok raw voc1"
    by (rule getReqMana_ok [OF assms(1)])
  obtain voc2 where r2: "getReqMana raw (magLevel p + 1) voc1 = (round_mana (raw (magLevel p + 1)), voc2)" "mana_cache_ok raw voc2"
    by (rule getReqMana_ok [OF r1(2)])
  have q: "unat (round_mana (raw (magLevel p))) = mana_req raw ?k" "unat (round_mana (raw (magLevel p + 1))) = mana_req raw (Suc ?k)"
    by (simp_all add: mana_req_def add.commute)
  have grow: "\<not> round_mana (raw (magLevel p + 1)) \<le> round_mana (raw (magLevel p))"
    using assms(5) [OF assms(3)] q by (simp add: word_le_nat_alt)
  let ?l = "\<lparr>capped = False, amount = n, cur_req = round_mana (raw (magLevel p)), next_req = round_mana (raw (magLevel p + 1))\<rparr>"
  have "\<exists>voc' p' l'. gain_mag True raw voc2 p ?l = (voc', p', l') \<and> mana_cache_ok raw voc' \<and> \<not> capped l' \<and>
    unat (magLevel p') = L \<and> unat (manaSpent p' + amount l') = S"
    by (rule gain_mag_reaches) (use assms q r2(2) in \<open>simp_all add: word_less_nat_alt\<close>)
  then obtain voc3 p1 l1 where g: "gain_mag True raw voc2 p ?l = (voc3, p1, l1)" "\<not> capped l1"
    "unat (magLevel p1) = L" "unat (manaSpent p1 + amount l1) = S" by blast
  then show ?thesis
    using False assms(2) grow by (auto simp: addManaSpent_def r1(1) r2(1) Let_def send_def)
qed


definition steady_mana :: "u32 \<Rightarrow> u64" where
  "steady_mana lv = 400 * ucast lv"

definition sorcerer :: Vocation where
  "sorcerer = \<lparr>gainHP = 5, gainMana = 30, gainCap = 1000, vocBaseSpeed = 220, none_vocation = False, soulMax = 100,
     cacheMana = Map.empty, cacheSkill = (\<lambda>_. Map.empty)\<rparr>"

definition mage :: Progress where
  "mage = \<lparr>level = 8, levelPercent = 0, experience = 4200, magLevel = 2, manaSpent = 100, magLevelPercent = 8,
     skills = (\<lambda>_. \<lparr>tries = 0, skill_level = 10, percent = 0\<rparr>), healthMax = 185, health = 185, manaMax = 260, mana = 260,
     capacity = 47000, baseSpeed = 234, maxSpeedFlag = False, notGainMana = False, in_party = False, sent = []\<rparr>"

lemma steady_mana_req: "i \<le> 3 \<Longrightarrow> mana_req steady_mana i = 400 * i"
proof -
  assume "i \<le> 3"
  then have "i \<in> {0, 1, 2, 3}" by auto
  then show ?thesis by (auto simp: mana_req_def steady_mana_def round_mana_def)
qed


section \<open>Skills\<close>

text \<open>The cache of the requirements of skills keeps 32 bits of a 64-bit number, so that a large
  requirement is answered differently the second time it is asked for.\<close>

lemma cached_tries_differ:
  "fst (getReqSkillTries (\<lambda>_ _. 2 ^ 32) 0 100 sorcerer) = 2 ^ 32"
  "fst (getReqSkillTries (\<lambda>_ _. 2 ^ 32) 0 100 (snd (getReqSkillTries (\<lambda>_ _. 2 ^ 32) 0 100 sorcerer))) = 0"
  by (simp_all add: getReqSkillTries_def SKILL_LAST_def sorcerer_def)

lemma rounding_takes_twenty_more: "round_mana 1619 = 1580" "round_mana 1609 = 1600" "round_mana 19 = - 20"
  by (simp_all add: round_mana_def Let_def)

end
