(* ===== verification/Scheduler.thy ===== *)
theory Scheduler
  imports Enums
begin

text \<open>
  Tasks that run later: the scheduler (scheduler.h, scheduler.cpp) and the dispatcher
  (tasks.h, tasks.cpp, thread_holder_base.h).  The scheduler's thread is a program counter, and a
  step of the system is what one thread does between two points where another can come in: a block
  under \<open>eventLock\<close>, a test of the state, or sending a signal.  Time is the clock the code reads.
  The priority queue of the standard library is a bag with a function \<open>pq_top\<close> that picks an
  element with the earliest cycle; which of several it picks is not specified.
\<close>

section \<open>State\<close>

text \<open>\<open>job\<close> stands for the function of a task; no two tasks share one.\<close>

record Task =
  task_job :: nat
  expiration :: "nat option"

record SchedulerTask =
  eventId :: u32
  cycle :: nat
  job :: nat

record Dispatcher =
  d_state :: ThreadState
  taskList :: "Task list"
  dispatcherCycle :: u64

record Scheduler =
  s_state :: ThreadState
  lastEventId :: u32
  eventList :: "SchedulerTask list"
  eventIds :: "u32 set"

type_synonym pq_top = "SchedulerTask list \<Rightarrow> SchedulerTask"

definition pq_ok :: "pq_top \<Rightarrow> bool" where
  "pq_ok pick \<longleftrightarrow> (\<forall>ts. ts \<noteq> [] \<longrightarrow> pick ts \<in> set ts \<and> (\<forall>t \<in> set ts. cycle (pick ts) \<le> cycle t))"

definition createSchedulerTask :: "nat \<Rightarrow> u32 \<Rightarrow> nat \<Rightarrow> SchedulerTask" where
  "createSchedulerTask now delay j = \<lparr>eventId = 0, cycle = now + unat delay, job = j\<rparr>"

definition hasExpired :: "nat \<Rightarrow> Task \<Rightarrow> bool" where
  "hasExpired now t = (case expiration t of None \<Rightarrow> False | Some e \<Rightarrow> e < now)"

section \<open>Dispatcher\<close>

text \<open>\<open>addTask\<close> answers whether it signals.\<close>

definition addTask :: "Task \<Rightarrow> bool \<Rightarrow> Dispatcher \<Rightarrow> bool \<times> Dispatcher" where
  "addTask t push_front d =
     (if d_state d = THREAD_STATE_RUNNING
      then (taskList d = [], d\<lparr>taskList := (if push_front then t # taskList d else taskList d @ [t])\<rparr>)
      else (False, d))"

text \<open>A round of the thread that finds a task: the job it runs, when the task has not expired.\<close>

definition dispatch :: "nat \<Rightarrow> Dispatcher \<Rightarrow> nat option \<times> Dispatcher" where
  "dispatch now d =
     (case taskList d of
        [] \<Rightarrow> (None, d)
      | t # ts \<Rightarrow>
          if hasExpired now t then (None, d\<lparr>taskList := ts\<rparr>)
          else (Some (task_job t), d\<lparr>taskList := ts, dispatcherCycle := dispatcherCycle d + 1\<rparr>))"

section \<open>Scheduler\<close>

text \<open>\<open>addEvent\<close> answers with the id and whether it signals.\<close>

definition next_id :: "u32 \<Rightarrow> u32" where
  "next_id n = (if n + 1 = 0 then 1 else n + 1)"

definition addEvent :: "pq_top \<Rightarrow> SchedulerTask \<Rightarrow> Scheduler \<Rightarrow> u32 \<times> bool \<times> Scheduler" where
  "addEvent pick task s =
     (if s_state s = THREAD_STATE_RUNNING then
        let t = (if eventId task = 0 then task\<lparr>eventId := next_id (lastEventId s)\<rparr> else task);
            s1 = (if eventId task = 0 then s\<lparr>lastEventId := next_id (lastEventId s)\<rparr> else s);
            s2 = s1\<lparr>eventIds := insert (eventId t) (eventIds s1), eventList := t # eventList s1\<rparr>
        in (eventId t, t = pick (eventList s2), s2)
      else (0, False, s))"

definition stopEvent :: "u32 \<Rightarrow> Scheduler \<Rightarrow> bool \<times> Scheduler" where
  "stopEvent i s =
     (if i = 0 then (False, s)
      else if i \<notin> eventIds s then (False, s)
      else (True, s\<lparr>eventIds := eventIds s - {i}\<rparr>))"

text \<open>The branch of \<open>threadMain\<close> after a timeout: None when the queue is empty, where \<open>top\<close> is undefined
  behaviour; else the task to hand over, unless it was stopped.\<close>

definition timeout_branch :: "pq_top \<Rightarrow> Scheduler \<Rightarrow> (SchedulerTask option \<times> Scheduler) option" where
  "timeout_branch pick s =
     (if eventList s = [] then None
      else
        let t = pick (eventList s); s1 = s\<lparr>eventList := remove1 t (eventList s)\<rparr>
        in if eventId t \<notin> eventIds s1 then Some (None, s1)
           else Some (Some t, s1\<lparr>eventIds := eventIds s1 - {eventId t}\<rparr>))"

text \<open>The second part of \<open>shutdown\<close>, under the lock.\<close>

definition clear_events :: "Scheduler \<Rightarrow> Scheduler" where
  "clear_events s = s\<lparr>eventList := [], eventIds := {}\<rparr>"

section \<open>The system\<close>

text \<open>Where the thread of the scheduler is.  \<open>Broken\<close> is after undefined behaviour.\<close>

datatype sched_pc =
    Loop
  | Locking
  | WaitSignal
  | WaitUntil nat
  | Delivering SchedulerTask
  | Finished
  | Broken

text \<open>\<open>signals\<close> counts calls of \<open>notify_one\<close> on their way.  \<open>added\<close>, \<open>stopped\<close>, \<open>handed\<close> and \<open>executed\<close>
  are the history: the events accepted, the ids that \<open>stopEvent\<close> removed, the events taken from
  the queue for the dispatcher with the time, and the jobs the dispatcher ran.\<close>

record system =
  sched :: Scheduler
  pc :: sched_pc
  disp :: Dispatcher
  signals :: nat
  now :: nat
  added :: "SchedulerTask list"
  stopped :: "u32 set"
  handed :: "(SchedulerTask \<times> nat) list"
  executed :: "nat list"

definition start :: system where
  "start = \<lparr>sched = \<lparr>s_state = THREAD_STATE_RUNNING, lastEventId = 0, eventList = [], eventIds = {}\<rparr>, pc = Loop,
     disp = \<lparr>d_state = THREAD_STATE_RUNNING, taskList = [], dispatcherCycle = 0\<rparr>, signals = 0, now = 0, added = [],
     stopped = {}, handed = [], executed = []\<rparr>"

text \<open>The steps of the scheduler's thread.\<close>

definition at_loop :: "system \<Rightarrow> system" where
  "at_loop w = w\<lparr>pc := (if s_state (sched w) = THREAD_STATE_TERMINATED then Finished else Locking)\<rparr>"

definition at_lock :: "pq_top \<Rightarrow> system \<Rightarrow> system" where
  "at_lock pick w =
     w\<lparr>pc := (if eventList (sched w) = [] then WaitSignal else WaitUntil (cycle (pick (eventList (sched w)))))\<rparr>"

definition on_timeout :: "pq_top \<Rightarrow> system \<Rightarrow> system" where
  "on_timeout pick w =
     (case timeout_branch pick (sched w) of
        None \<Rightarrow> w\<lparr>pc := Broken\<rparr>
      | Some (None, s) \<Rightarrow> w\<lparr>pc := Loop, sched := s\<rparr>
      | Some (Some t, s) \<Rightarrow> w\<lparr>pc := Delivering t, sched := s, handed := handed w @ [(t, now w)]\<rparr>)"

definition deliver :: "SchedulerTask \<Rightarrow> system \<Rightarrow> system" where
  "deliver t w = w\<lparr>pc := Loop, disp := snd (addTask \<lparr>task_job = job t, expiration = None\<rparr> True (disp w))\<rparr>"

definition waiting :: "system \<Rightarrow> bool" where
  "waiting w = (case pc w of WaitSignal \<Rightarrow> True | WaitUntil _ \<Rightarrow> True | _ \<Rightarrow> False)"

definition on_signal :: "system \<Rightarrow> system" where
  "on_signal w = w\<lparr>signals := signals w - 1, pc := (if waiting w then Loop else pc w)\<rparr>"

definition do_add :: "pq_top \<Rightarrow> SchedulerTask \<Rightarrow> system \<Rightarrow> system" where
  "do_add pick t w =
     (case addEvent pick t (sched w) of (i, sig, s) \<Rightarrow>
        if i = 0 then w
        else w\<lparr>sched := s, signals := signals w + (if sig then 1 else 0), added := added w @ [t\<lparr>eventId := i\<rparr>]\<rparr>)"

definition do_stop :: "u32 \<Rightarrow> system \<Rightarrow> system" where
  "do_stop i w =
     (case stopEvent i (sched w) of (found, s) \<Rightarrow>
        w\<lparr>sched := s, stopped := (if found then insert i (stopped w) else stopped w)\<rparr>)"

definition do_dispatch :: "system \<Rightarrow> system" where
  "do_dispatch w =
     (case dispatch (now w) (disp w) of (r, d) \<Rightarrow>
        w\<lparr>disp := d, executed := executed w @ (case r of None \<Rightarrow> [] | Some j \<Rightarrow> [j])\<rparr>)"

definition set_s_state :: "ThreadState \<Rightarrow> system \<Rightarrow> system" where
  "set_s_state st w = w\<lparr>sched := (sched w)\<lparr>s_state := st\<rparr>\<rparr>"

inductive sys_step :: "pq_top \<Rightarrow> system \<Rightarrow> system \<Rightarrow> bool" for pick where
  loop: "pc w = Loop \<Longrightarrow> sys_step pick w (at_loop w)"
| lock: "pc w = Locking \<Longrightarrow> sys_step pick w (at_lock pick w)"
| timeout: "pc w = WaitUntil d \<Longrightarrow> d \<le> now w \<Longrightarrow> sys_step pick w (on_timeout pick w)"
| deliver: "pc w = Delivering t \<Longrightarrow> sys_step pick w (deliver t w)"
| signal: "0 < signals w \<Longrightarrow> sys_step pick w (on_signal w)"
| spurious: "waiting w \<Longrightarrow> sys_step pick w (w\<lparr>pc := Loop\<rparr>)"
| tick: "now w \<le> n \<Longrightarrow> sys_step pick w (w\<lparr>now := n\<rparr>)"
| add: "j \<notin> job ` set (added w) \<Longrightarrow> created \<le> now w \<Longrightarrow>
    sys_step pick w (do_add pick (createSchedulerTask created delay j) w)"
| stop: "sys_step pick w (do_stop i w)"
| post: "sys_step pick w (w\<lparr>disp := snd (addTask t False (disp w))\<rparr>)"
| dispatch: "d_state (disp w) \<noteq> THREAD_STATE_TERMINATED \<Longrightarrow> sys_step pick w (do_dispatch w)"
| close: "s_state (sched w) = THREAD_STATE_RUNNING \<Longrightarrow> sys_step pick w (set_s_state THREAD_STATE_CLOSING w)"
| terminate: "sys_step pick w (set_s_state THREAD_STATE_TERMINATED w)"
| clear: "s_state (sched w) = THREAD_STATE_TERMINATED \<Longrightarrow>
    sys_step pick w (w\<lparr>sched := clear_events (sched w), signals := signals w + 1\<rparr>)"
| close_dispatcher: "sys_step pick w (w\<lparr>disp := (disp w)\<lparr>d_state := st\<rparr>\<rparr>)"

text \<open>A run of the scheduler's thread that nobody interferes with while the clock stands still; only a call of
  \<open>notify_one\<close> that is already on its way still comes.\<close>

definition thread_step :: "pq_top \<Rightarrow> system \<Rightarrow> system" where
  "thread_step pick w =
     (case pc w of
        Loop \<Rightarrow> at_loop w
      | Locking \<Rightarrow> at_lock pick w
      | Delivering t \<Rightarrow> deliver t w
      | WaitSignal \<Rightarrow> if 0 < signals w then on_signal w else w
      | WaitUntil d \<Rightarrow> if d \<le> now w then on_timeout pick w else if 0 < signals w then on_signal w else w
      | _ \<Rightarrow> w)"

end
