(* ===== verification/SchedulerRun.thy ===== *)
theory SchedulerRun
  imports Scheduler
begin

text \<open>
  What the scheduler promises: no event is lost, run twice, run early or run after it was stopped,
  and an event that is due reaches the dispatcher without any help from another thread.  All this is for the first
  \<open>2 ^ 32 - 1\<close> events, which have different ids; after them the ids are given again.  Two flaws
  of the shutdown are shown as well, and what becomes of an id that is given twice.
\<close>

section \<open>Invariant\<close>

definition queue :: "system \<Rightarrow> SchedulerTask list" where
  "queue w = eventList (sched w)"

definition gone :: "system \<Rightarrow> SchedulerTask set" where
  "gone w = fst ` set (handed w)"

definition ids_ok :: "system \<Rightarrow> bool" where
  "ids_ok w \<longleftrightarrow> inj_on eventId (set (added w)) \<and> distinct (map job (added w)) \<and>
     (\<forall>t \<in> set (added w). eventId t \<noteq> 0 \<and> eventId t \<le> lastEventId (sched w))"

definition places_ok :: "system \<Rightarrow> bool" where
  "places_ok w \<longleftrightarrow> distinct (queue w) \<and> distinct (map fst (handed w)) \<and> set (queue w) \<subseteq> set (added w) \<and>
     gone w \<subseteq> set (added w) \<and> gone w \<inter> set (queue w) = {} \<and>
     (\<forall>t \<in> set (queue w). eventId t \<in> eventIds (sched w) \<longleftrightarrow> eventId t \<notin> stopped w) \<and>
     eventIds (sched w) \<subseteq> eventId ` set (queue w) \<and>
     (\<forall>t \<in> gone w. eventId t \<notin> stopped w) \<and> stopped w \<subseteq> eventId ` set (added w) \<and>
     (\<forall>(t, k) \<in> set (handed w). cycle t \<le> k)"

definition kept_ok :: "system \<Rightarrow> bool" where
  "kept_ok w \<longleftrightarrow> (s_state (sched w) \<noteq> THREAD_STATE_TERMINATED \<longrightarrow>
     (\<forall>t \<in> set (added w). t \<in> gone w \<or> eventId t \<in> stopped w \<or> t \<in> set (queue w)))"

text \<open>A waiting thread either wakes in time for the earliest event or has a signal on its way.\<close>

definition wait_ok :: "system \<Rightarrow> bool" where
  "wait_ok w \<longleftrightarrow> (s_state (sched w) \<noteq> THREAD_STATE_TERMINATED \<longrightarrow>
     (case pc w of
        WaitSignal \<Rightarrow> queue w = [] \<or> 0 < signals w
      | WaitUntil d \<Rightarrow> (\<exists>t \<in> set (queue w). cycle t \<le> d) \<and> (0 < signals w \<or> (\<forall>t \<in> set (queue w). d \<le> cycle t))
      | Finished \<Rightarrow> False
      | Broken \<Rightarrow> False
      | _ \<Rightarrow> True))"

definition timeout_ok :: "system \<Rightarrow> bool" where
  "timeout_ok w \<longleftrightarrow> (case pc w of WaitUntil d \<Rightarrow> queue w = [] \<or> (\<exists>t \<in> set (queue w). cycle t \<le> d) | _ \<Rightarrow> True)"

lemmas bookkeeping = ids_ok_def places_ok_def kept_ok_def queue_def gone_def

text \<open>Steps that move only the thread, the clock, the signals or the dispatcher.\<close>

definition same_books :: "system \<Rightarrow> system \<Rightarrow> bool" where
  "same_books w v \<longleftrightarrow> sched v = sched w \<and> added v = added w \<and> stopped v = stopped w \<and> handed v = handed w"

lemma same_books_ok:
  "same_books w v \<Longrightarrow> ids_ok v = ids_ok w \<and> places_ok v = places_ok w \<and> kept_ok v = kept_ok w"
  by (simp add: same_books_def bookkeeping)

lemma pickD:
  assumes "pq_ok pick" and "ts \<noteq> []"
  shows "pick ts \<in> set ts" and "t \<in> set ts \<Longrightarrow> cycle (pick ts) \<le> cycle t"
  using assms by (auto simp: pq_ok_def)

lemma next_id_fresh: "n + 1 \<noteq> 0 \<Longrightarrow> next_id n \<noteq> 0 \<and> n < next_id n"
  using unatSuc [of n] by (auto simp: next_id_def word_less_nat_alt add.commute)

text \<open>The branch after a timeout.\<close>

lemma on_timeout_ok:
  assumes pick: "pq_ok pick" and w: "ids_ok w" "places_ok w" "kept_ok w" "timeout_ok w"
    and pc: "pc w = WaitUntil d" "d \<le> now w" and ne: "queue w \<noteq> []"
  shows "ids_ok (on_timeout pick w) \<and> places_ok (on_timeout pick w) \<and> kept_ok (on_timeout pick w) \<and>
    pc (on_timeout pick w) \<noteq> Broken \<and> \<not> waiting (on_timeout pick w) \<and> pc (on_timeout pick w) \<noteq> Finished"
proof -
  let ?s = "sched w" and ?t = "pick (queue w)"
  have t: "?t \<in> set (queue w)" by (rule pickD(1) [OF pick ne])
  have due: "cycle ?t \<le> now w"
  proof -
    obtain u where "u \<in> set (queue w)" "cycle u \<le> d" using w(4) ne pc(1) by (auto simp: timeout_ok_def)
    with pickD(2) [OF pick ne] pc(2) show ?thesis by (meson order.trans)
  qed
  have dq: "distinct (queue w)" using w(2) by (simp add: places_ok_def)
  have inj: "inj_on eventId (set (added w))" and sub: "set (queue w) \<subseteq> set (added w)"
    using w by (auto simp: ids_ok_def places_ok_def)
  have other: "eventId u \<noteq> eventId ?t" if "u \<in> set (added w)" "u \<noteq> ?t" for u
    using inj_onD [OF inj] that t sub by blast
  have ids: "eventIds ?s \<subseteq> eventId ` set (queue w)" using w(2) by (simp add: places_ok_def)
  show ?thesis
  proof (cases "eventId ?t \<in> eventIds ?s")
    case False
    then have e: "on_timeout pick w = w\<lparr>pc := Loop, sched := ?s\<lparr>eventList := remove1 ?t (queue w)\<rparr>\<rparr>"
      using ne by (simp add: on_timeout_def timeout_branch_def queue_def Let_def)
    have st: "eventId ?t \<in> stopped w" using False t w(2) by (auto simp: places_ok_def)
    have i: "eventIds ?s \<subseteq> eventId ` (set (queue w) - {?t})" using ids False by blast
    have "places_ok (on_timeout pick w)"
      unfolding e places_ok_def queue_def gone_def
      using w(2) sub dq i by (auto simp: places_ok_def gone_def queue_def)
    moreover have "ids_ok (on_timeout pick w)" using w(1) unfolding e by (simp add: ids_ok_def)
    moreover have "kept_ok (on_timeout pick w)"
      using w(3) dq st unfolding e by (auto simp: kept_ok_def gone_def queue_def)
    ultimately show ?thesis unfolding e by (simp add: waiting_def)
  next
    case True
    then have e: "on_timeout pick w = w\<lparr>pc := Delivering ?t,
        sched := ?s\<lparr>eventList := remove1 ?t (queue w), eventIds := eventIds ?s - {eventId ?t}\<rparr>, handed := handed w @ [(?t, now w)]\<rparr>"
      using ne by (simp add: on_timeout_def timeout_branch_def queue_def Let_def)
    have st: "eventId ?t \<notin> stopped w" using True t w(2) by (auto simp: places_ok_def)
    have new: "?t \<notin> gone w" using t w(2) by (auto simp: places_ok_def)
    have i: "eventIds ?s - {eventId ?t} \<subseteq> eventId ` (set (queue w) - {?t})"
      using ids by blast
    have "places_ok (on_timeout pick w)"
      unfolding e places_ok_def queue_def gone_def
      using w(2) t sub st new dq due i other by (auto simp: places_ok_def gone_def queue_def)
    moreover have "ids_ok (on_timeout pick w)" using w(1) unfolding e by (simp add: ids_ok_def)
    moreover have "kept_ok (on_timeout pick w)"
      using w(3) dq unfolding e by (auto simp: kept_ok_def gone_def queue_def)
    ultimately show ?thesis unfolding e by (simp add: waiting_def)
  qed
qed

definition sys_ok :: "system \<Rightarrow> bool" where
  "sys_ok w \<longleftrightarrow> ids_ok w \<and> places_ok w \<and> kept_ok w \<and> wait_ok w \<and> timeout_ok w"

lemma same_books_sys_ok:
  assumes "sys_ok w" and "same_books w v" and "wait_ok v" and "timeout_ok v"
  shows "sys_ok v"
  using assms same_books_ok [of w v] by (simp add: sys_ok_def)

lemma awake_ok: "\<not> waiting v \<Longrightarrow> pc v \<noteq> Finished \<Longrightarrow> pc v \<noteq> Broken \<Longrightarrow> wait_ok v \<and> timeout_ok v"
  by (auto simp: waiting_def wait_ok_def timeout_ok_def split: sched_pc.splits)

lemma add_ok:
  assumes pick: "pq_ok pick" and w: "sys_ok w" and new: "j \<notin> job ` set (added w)" and wrap: "s_state (sched w) = THREAD_STATE_RUNNING \<Longrightarrow> lastEventId (sched w) + 1 \<noteq> 0"
  shows "sys_ok (do_add pick (createSchedulerTask created delay j) w)"
proof (cases "s_state (sched w) = THREAD_STATE_RUNNING")
  case False
  then have "do_add pick (createSchedulerTask created delay j) w = w" by (simp add: do_add_def addEvent_def)
  with w show ?thesis by simp
next
  case True
  let ?s = "sched w" and ?n = "next_id (lastEventId (sched w))"
  let ?t = "\<lparr>eventId = ?n, cycle = created + unat delay, job = j\<rparr>"
  let ?q = "?t # eventList ?s"
  let ?v = "w\<lparr>sched := ?s\<lparr>lastEventId := ?n, eventIds := insert ?n (eventIds ?s), eventList := ?q\<rparr>,
      signals := signals w + (if ?t = pick ?q then 1 else 0), added := added w @ [?t]\<rparr>"
  have fresh: "?n \<noteq> 0" "lastEventId ?s < ?n" using next_id_fresh [OF wrap [OF True]] by auto
  then have e: "do_add pick (createSchedulerTask created delay j) w = ?v"
    using True by (simp add: do_add_def addEvent_def createSchedulerTask_def Let_def)
  have ids: "ids_ok w" "places_ok w" "kept_ok w" "wait_ok w" "timeout_ok w" using w by (auto simp: sys_ok_def)
  have below: "eventId u < ?n" if "u \<in> set (added w)" for u
    using ids(1) that fresh(2) by (auto simp: ids_ok_def dest: order.strict_trans1)
  then have nid: "?n \<notin> eventId ` set (added w)" by (metis imageE order.irrefl)
  have nt: "?t \<notin> set (added w)" using new by (auto intro: rev_image_eqI)
  have "ids_ok ?v" using ids(1) nid new fresh(1) below by (auto simp: ids_ok_def less_imp_le)
  moreover have "places_ok ?v"
    using ids(2) nid nt unfolding places_ok_def queue_def gone_def by auto
  moreover have "kept_ok ?v" using ids(3) True by (auto simp: kept_ok_def gone_def queue_def)
  moreover have "wait_ok ?v \<and> timeout_ok ?v"
  proof (cases "waiting w")
    case False
    with ids(4) True show ?thesis by (intro awake_ok) (auto simp: waiting_def wait_ok_def)
  next
    case wt: True
    have p: "pick ?q \<in> set ?q" "\<And>u. u \<in> set ?q \<Longrightarrow> cycle (pick ?q) \<le> cycle u"
      using pickD [OF pick, of ?q] by simp_all
    show ?thesis
    proof (cases "?t = pick ?q")
      case True
      then show ?thesis
        using wt ids(4,5) \<open>s_state ?s = THREAD_STATE_RUNNING\<close>
        by (auto simp: waiting_def wait_ok_def timeout_ok_def queue_def split: sched_pc.splits)
    next
      case other: False
      then have pq: "pick ?q \<in> set (queue w)" using p(1) by (simp add: queue_def)
      then have "queue w \<noteq> []" by auto
      moreover have "cycle (pick ?q) \<le> cycle ?t" by (rule p(2)) simp
      moreover have "?v = w\<lparr>sched := ?s\<lparr>lastEventId := ?n, eventIds := insert ?n (eventIds ?s), eventList := ?q\<rparr>, added := added w @ [?t]\<rparr>"
        using other by simp
      ultimately show ?thesis
        using wt ids(4,5) pq \<open>s_state ?s = THREAD_STATE_RUNNING\<close>
        by (cases "pc w") (auto simp: waiting_def wait_ok_def timeout_ok_def queue_def intro: order.trans)
    qed
  qed
  ultimately show ?thesis unfolding e by (simp add: sys_ok_def)
qed

lemma stop_ok:
  assumes "sys_ok w" shows "sys_ok (do_stop i w)"
proof (cases "i \<noteq> 0 \<and> i \<in> eventIds (sched w)")
  case False
  then have "do_stop i w = w" by (auto simp: do_stop_def stopEvent_def)
  with assms show ?thesis by simp
next
  case True
  let ?v = "w\<lparr>sched := (sched w)\<lparr>eventIds := eventIds (sched w) - {i}\<rparr>, stopped := insert i (stopped w)\<rparr>"
  have e: "do_stop i w = ?v" using True by (simp add: do_stop_def stopEvent_def)
  have w: "ids_ok w" "places_ok w" "kept_ok w" "wait_ok w" "timeout_ok w" using assms by (auto simp: sys_ok_def)
  have "eventIds (sched w) \<subseteq> eventId ` set (queue w)" using w(2) by (simp add: places_ok_def)
  then obtain u where u: "u \<in> set (queue w)" "i = eventId u" using True by blast
  have inj: "inj_on eventId (set (added w))" and sub: "set (queue w) \<subseteq> set (added w)" "gone w \<subseteq> set (added w)"
    and dis: "gone w \<inter> set (queue w) = {}" using w by (auto simp: ids_ok_def places_ok_def)
  have g: "eventId t \<noteq> i" if "t \<in> gone w" for t
    using inj_onD [OF inj, of t u] that u sub dis by auto
  have "places_ok ?v"
    using w(2) u sub g unfolding places_ok_def queue_def gone_def by auto
  moreover have "ids_ok ?v" "kept_ok ?v" using w by (auto simp: ids_ok_def kept_ok_def queue_def gone_def)
  moreover have q: "queue ?v = queue w" by (simp add: queue_def)
  have "wait_ok ?v" "timeout_ok ?v"
    unfolding wait_ok_def timeout_ok_def q using w(4,5) by (auto simp: wait_ok_def timeout_ok_def split: sched_pc.splits)
  ultimately show ?thesis unfolding e by (simp add: sys_ok_def)
qed

lemma state_ok:
  assumes "sys_ok w" and "s_state (sched w) = THREAD_STATE_TERMINATED \<longrightarrow> st = THREAD_STATE_TERMINATED"
  shows "sys_ok (set_s_state st w)"
  using assms
  by (auto simp: sys_ok_def set_s_state_def bookkeeping wait_ok_def timeout_ok_def split: sched_pc.splits)

lemma clear_ok:
  assumes "sys_ok w" and "s_state (sched w) = THREAD_STATE_TERMINATED"
  shows "sys_ok (w\<lparr>sched := clear_events (sched w), signals := signals w + 1\<rparr>)"
  using assms
  by (auto simp: sys_ok_def clear_events_def bookkeeping wait_ok_def timeout_ok_def split: sched_pc.splits)

lemma timeout_step_ok:
  assumes pick: "pq_ok pick" and w: "sys_ok w" and pc: "pc w = WaitUntil d" "d \<le> now w"
  shows "sys_ok (on_timeout pick w)"
proof (cases "queue w = []")
  case True
  then have e: "on_timeout pick w = w\<lparr>pc := Broken\<rparr>" by (simp add: on_timeout_def timeout_branch_def queue_def)
  have "s_state (sched w) = THREAD_STATE_TERMINATED"
    using w pc(1) True by (auto simp: sys_ok_def wait_ok_def)
  then show ?thesis
    unfolding e using w by (intro same_books_sys_ok [OF w]) (auto simp: same_books_def wait_ok_def timeout_ok_def)
next
  case False
  have o: "ids_ok w" "places_ok w" "kept_ok w" "timeout_ok w" using w by (auto simp: sys_ok_def)
  from on_timeout_ok [OF pick o pc False] awake_ok [of "on_timeout pick w"] show ?thesis by (auto simp: sys_ok_def)
qed

lemma lock_ok:
  assumes pick: "pq_ok pick" and w: "sys_ok w"
  shows "sys_ok (at_lock pick w)"
proof (rule same_books_sys_ok [OF w])
  show "same_books w (at_lock pick w)" by (simp add: same_books_def at_lock_def)
  show "wait_ok (at_lock pick w)" "timeout_ok (at_lock pick w)"
    using pickD [OF pick, of "queue w"]
    by (auto simp: at_lock_def wait_ok_def timeout_ok_def queue_def)
qed

lemma sys_step_ok:
  assumes "pq_ok pick" and "sys_step pick w v" and "sys_ok w"
    and "added v \<noteq> added w \<Longrightarrow> lastEventId (sched w) + 1 \<noteq> 0"
  shows "sys_ok v"
  using assms(2)
proof cases
  case loop
  then show ?thesis
    by (intro same_books_sys_ok [OF assms(3)]) (auto simp: same_books_def at_loop_def wait_ok_def timeout_ok_def)
next
  case lock
  with lock_ok [OF assms(1,3)] show ?thesis by simp
next
  case (timeout d)
  with timeout_step_ok [OF assms(1,3)] show ?thesis by simp
next
  case (deliver t)
  then show ?thesis
    by (intro same_books_sys_ok [OF assms(3)]) (auto simp: same_books_def deliver_def wait_ok_def timeout_ok_def)
next
  case signal
  then show ?thesis
    using assms(3)
    by (intro same_books_sys_ok [OF assms(3)])
      (auto simp: same_books_def on_signal_def waiting_def sys_ok_def wait_ok_def timeout_ok_def queue_def split: sched_pc.splits)
next
  case spurious
  then show ?thesis
    by (intro same_books_sys_ok [OF assms(3)]) (auto simp: same_books_def wait_ok_def timeout_ok_def)
next
  case (tick n)
  then show ?thesis
    using assms(3) by (intro same_books_sys_ok [OF assms(3)]) (auto simp: same_books_def sys_ok_def wait_ok_def timeout_ok_def queue_def split: sched_pc.splits)
next
  case (add j created delay)
  have "lastEventId (sched w) + 1 \<noteq> 0" if "s_state (sched w) = THREAD_STATE_RUNNING"
  proof -
    have "added v \<noteq> added w"
      using add(1) that by (auto simp: do_add_def addEvent_def createSchedulerTask_def next_id_def Let_def)
    then show ?thesis
      by (rule assms(4))
  qed
  with add add_ok [OF assms(1,3)] show ?thesis by simp
next
  case (stop i)
  with stop_ok [OF assms(3)] show ?thesis by simp
next
  case (post t)
  then show ?thesis
    using assms(3) by (intro same_books_sys_ok [OF assms(3)]) (auto simp: same_books_def sys_ok_def wait_ok_def timeout_ok_def queue_def split: sched_pc.splits)
next
  case dispatch
  then show ?thesis
    using assms(3) by (intro same_books_sys_ok [OF assms(3)])
      (auto simp: same_books_def do_dispatch_def sys_ok_def wait_ok_def timeout_ok_def queue_def split: sched_pc.splits prod.splits)
next
  case close
  with state_ok [OF assms(3)] show ?thesis by simp
next
  case terminate
  with state_ok [OF assms(3)] show ?thesis by simp
next
  case clear
  with clear_ok [OF assms(3)] show ?thesis by simp
next
  case (close_dispatcher st)
  then show ?thesis
    using assms(3) by (intro same_books_sys_ok [OF assms(3)]) (auto simp: same_books_def sys_ok_def wait_ok_def timeout_ok_def queue_def split: sched_pc.splits)
qed

lemma start_ok: "sys_ok start"
  by (simp add: start_def sys_ok_def bookkeeping wait_ok_def timeout_ok_def)

text \<open>The ids count the events.\<close>

lemma step_counts:
  assumes "sys_step pick w v"
  shows "added v = added w \<and> lastEventId (sched v) = lastEventId (sched w) \<or>
    length (added v) = Suc (length (added w)) \<and> lastEventId (sched v) = next_id (lastEventId (sched w))"
  using assms
proof cases
  case (add j created delay)
  then show ?thesis
    by (auto simp: do_add_def addEvent_def createSchedulerTask_def Let_def)
qed (auto simp: at_loop_def at_lock_def on_timeout_def timeout_branch_def deliver_def on_signal_def do_stop_def stopEvent_def
      do_dispatch_def set_s_state_def clear_events_def Let_def split: option.splits prod.splits)

lemma reach_ok:
  assumes "(sys_step pick)\<^sup>*\<^sup>* start w" "pq_ok pick"
  shows "length (added w) < 2 ^ 32 \<Longrightarrow> sys_ok w \<and> unat (lastEventId (sched w)) = length (added w)"
  using assms(1)
proof (induction rule: rtranclp_induct)
  case base
  then show ?case by (simp add: start_ok) (simp add: start_def)
next
  case (step w v)
  have le: "length (added w) \<le> length (added v)"
    using step_counts [OF step.hyps(2)] by auto
  then have w: "sys_ok w" "unat (lastEventId (sched w)) = length (added w)"
    using step.IH step.prems by auto
  have succ: "unat (lastEventId (sched w) + 1) = length (added v)" "lastEventId (sched w) + 1 \<noteq> 0"
    if new: "length (added v) = Suc (length (added w))"
  proof -
    have "unat (lastEventId (sched w)) + 1 < 2 ^ 32"
      using new w(2) step.prems by simp
    then show "unat (lastEventId (sched w) + 1) = length (added v)"
      using new w(2) by (simp add: unat_word_ariths)
    then show "lastEventId (sched w) + 1 \<noteq> 0"
      using new by auto
  qed
  have "unat (lastEventId (sched v)) = length (added v)"
    using step_counts [OF step.hyps(2)] succ w(2) by (auto simp: next_id_def)
  moreover have "lastEventId (sched w) + 1 \<noteq> 0" if "added v \<noteq> added w"
    using step_counts [OF step.hyps(2)] succ(2) that by auto
  ultimately show ?case
    using sys_step_ok [OF assms(2) step.hyps(2) w(1)] by simp
qed

section \<open>Safety\<close>

text \<open>C22: as long as fewer than \<open>2 ^ 32\<close> events have come, so that no id has been given twice, an event the
  scheduler accepted is handed to the dispatcher at most once, never before its
  time and never after \<open>stopEvent\<close> has found it; and until the scheduler is shut down every event
  is either handed over, or stopped, or still waiting with its id in force.  This holds however the
  threads interleave.\<close>

theorem events_run_once_and_on_time:
  assumes "pq_ok pick" and "(sys_step pick)\<^sup>*\<^sup>* start w" and "length (added w) < 2 ^ 32"
  shows "distinct (map fst (handed w)) \<and> inj_on eventId (set (added w)) \<and>
    (\<forall>(t, k) \<in> set (handed w). t \<in> set (added w) \<and> cycle t \<le> k \<and> eventId t \<notin> stopped w) \<and>
    (s_state (sched w) \<noteq> THREAD_STATE_TERMINATED \<longrightarrow>
      (\<forall>t \<in> set (added w). t \<in> fst ` set (handed w) \<or> eventId t \<in> stopped w \<or>
        t \<in> set (eventList (sched w)) \<and> eventId t \<in> eventIds (sched w)))"
proof -
  have w: "ids_ok w" "places_ok w" "kept_ok w" using reach_ok [OF assms(2,1,3)] by (auto simp: sys_ok_def)
  have "t \<in> set (added w) \<and> cycle t \<le> k \<and> eventId t \<notin> stopped w" if "(t, k) \<in> set (handed w)" for t k
  proof -
    have g: "t \<in> gone w" using that by (force simp: gone_def)
    have "cycle t \<le> k" using w(2) that by (auto simp: places_ok_def)
    with g w(2) show ?thesis by (auto simp: places_ok_def)
  qed
  moreover have "t \<in> fst ` set (handed w) \<or> eventId t \<in> stopped w \<or> t \<in> set (eventList (sched w)) \<and> eventId t \<in> eventIds (sched w)"
    if "t \<in> set (added w)" "s_state (sched w) \<noteq> THREAD_STATE_TERMINATED" for t
    using w(2,3) that unfolding places_ok_def kept_ok_def gone_def queue_def by blast
  ultimately show ?thesis using w(1,2) unfolding ids_ok_def places_ok_def by blast
qed

section \<open>Liveness\<close>

definition due :: "system \<Rightarrow> SchedulerTask set" where
  "due w = {t \<in> set (queue w). cycle t \<le> now w}"

definition stage :: "system \<Rightarrow> nat" where
  "stage w = (case pc w of Loop \<Rightarrow> 2 | Locking \<Rightarrow> 1 | WaitUntil d \<Rightarrow> if d \<le> now w then 0 else 3 | _ \<Rightarrow> 3)"

definition work :: "system \<Rightarrow> nat" where
  "work w = 4 * card (due w) + stage w"

lemma thread_step_keeps [simp]:
  "now (thread_step pick w) = now w" "s_state (sched (thread_step pick w)) = s_state (sched w)"
  "added (thread_step pick w) = added w" "stopped (thread_step pick w) = stopped w"
  by (auto simp: thread_step_def at_loop_def at_lock_def on_timeout_def timeout_branch_def deliver_def on_signal_def Let_def
      split: sched_pc.splits option.splits prod.splits)

text \<open>A step that accepts no event keeps the invariant, however many there were.\<close>

lemma thread_step_ok:
  assumes "pq_ok pick" "sys_ok w"
  shows "sys_ok (thread_step pick w)"
proof (cases "thread_step pick w = w")
  case False
  then have "sys_step pick w (thread_step pick w)"
    by (cases "pc w") (auto simp: thread_step_def intro: sys_step.intros split: if_splits)
  then show ?thesis
    by (rule sys_step_ok [OF assms(1) _ assms(2)]) simp
qed (use assms in simp)

lemma due_finite [simp]: "finite (due w)"
  by (simp add: due_def)

lemma timeout_work:
  assumes pick: "pq_ok pick" and w: "sys_ok w" and "due w \<noteq> {}"
  shows "card (due (on_timeout pick w)) < card (due w) \<and> stage (on_timeout pick w) \<le> 3"
proof -
  let ?t = "pick (queue w)"
  have ne: "queue w \<noteq> []" using assms(3) by (auto simp: due_def)
  have t: "?t \<in> due w"
    using assms(3) pickD [OF pick ne] by (auto simp: due_def intro: order.trans)
  have "queue (on_timeout pick w) = remove1 ?t (queue w)" "now (on_timeout pick w) = now w"
    using ne by (auto simp: on_timeout_def timeout_branch_def queue_def Let_def)
  moreover have "distinct (queue w)" using w by (simp add: sys_ok_def places_ok_def)
  ultimately have "due (on_timeout pick w) = due w - {?t}" by (auto simp: due_def)
  with t have "card (due (on_timeout pick w)) < card (due w)" by (simp add: card_Diff1_less del: card_Diff_insert)
  then show ?thesis by (simp add: stage_def split: sched_pc.splits)
qed

lemma thread_works:
  assumes pick: "pq_ok pick" and w: "sys_ok w" and run: "s_state (sched w) \<noteq> THREAD_STATE_TERMINATED" and "due w \<noteq> {}"
  shows "work (thread_step pick w) < work w"
proof -
  obtain t where t: "t \<in> set (queue w)" "cycle t \<le> now w" using assms(4) by (auto simp: due_def)
  then have ne: "queue w \<noteq> []" by auto
  show ?thesis
  proof (cases "pc w")
    case Loop
    then show ?thesis using run by (simp add: thread_step_def at_loop_def work_def due_def queue_def stage_def)
  next
    case Locking
    have "cycle (pick (queue w)) \<le> now w" using pickD(2) [OF pick ne t(1)] t(2) by (rule order.trans)
    then show ?thesis using Locking ne by (simp add: thread_step_def at_lock_def work_def due_def queue_def stage_def)
  next
    case WaitSignal
    then have "0 < signals w" using w run ne by (auto simp: sys_ok_def wait_ok_def)
    then show ?thesis
      using WaitSignal by (simp add: thread_step_def on_signal_def waiting_def work_def due_def queue_def stage_def)
  next
    case (WaitUntil d)
    show ?thesis
    proof (cases "d \<le> now w")
      case True
      then show ?thesis using WaitUntil timeout_work [OF pick w assms(4)] by (simp add: thread_step_def work_def)
    next
      case False
      then have "0 < signals w" using w run WaitUntil t by (fastforce simp: sys_ok_def wait_ok_def)
      then show ?thesis
        using WaitUntil False by (simp add: thread_step_def on_signal_def waiting_def work_def due_def queue_def stage_def)
    qed
  next
    case (Delivering u)
    then show ?thesis by (simp add: thread_step_def deliver_def work_def due_def queue_def stage_def)
  next
    case Finished
    then show ?thesis using w run by (simp add: sys_ok_def wait_ok_def)
  next
    case Broken
    then show ?thesis using w run by (simp add: sys_ok_def wait_ok_def)
  qed
qed

lemma thread_empties:
  assumes "pq_ok pick" and "sys_ok w" and "s_state (sched w) \<noteq> THREAD_STATE_TERMINATED"
  shows "\<exists>n \<le> work w. let v = (thread_step pick ^^ n) w in
    due v = {} \<and> sys_ok v \<and> now v = now w \<and> added v = added w \<and> stopped v = stopped w \<and> s_state (sched v) = s_state (sched w)"
  using assms(2,3)
proof (induction "work w" arbitrary: w rule: less_induct)
  case less
  show ?case
  proof (cases "due w = {}")
    case True
    then show ?thesis using less.prems by (intro exI [of _ 0]) simp
  next
    case False
    let ?w = "thread_step pick w"
    have lt: "work ?w < work w" by (rule thread_works [OF assms(1) less.prems False])
    from less.hyps [OF lt] thread_step_ok [OF assms(1) less.prems(1)] less.prems(2)
    obtain n where "n \<le> work ?w" "let v = (thread_step pick ^^ n) ?w in
      due v = {} \<and> sys_ok v \<and> now v = now w \<and> added v = added w \<and> stopped v = stopped w \<and> s_state (sched v) = s_state (sched w)"
      by auto
    then show ?thesis
      using lt by (intro exI [of _ "Suc n"]) (simp add: funpow_Suc_right del: funpow.simps)
  qed
qed

text \<open>C21: no wake-up is lost while the scheduler runs: whatever has happened before, as long as fewer than
  \<open>2 ^ 32\<close> events have come, so that no id has been given twice, and even if no other thread ever does anything again
  but send the signals that are on their way, the scheduler's thread by itself hands over every event that is due and was not stopped, after at most four steps for each due event and three more.\<close>

theorem due_events_are_handed_over:
  assumes "pq_ok pick" and "(sys_step pick)\<^sup>*\<^sup>* start w" and "length (added w) < 2 ^ 32"
    and "s_state (sched w) \<noteq> THREAD_STATE_TERMINATED"
  shows "\<exists>n \<le> 4 * length (eventList (sched w)) + 3. \<forall>t \<in> set (added w).
    cycle t \<le> now w \<and> eventId t \<notin> stopped w \<longrightarrow> t \<in> fst ` set (handed ((thread_step pick ^^ n) w))"
proof -
  have "card (due w) \<le> length (queue w)"
    by (rule order_trans [OF card_mono card_length]) (auto simp: due_def)
  moreover have "stage w \<le> 3" by (simp add: stage_def split: sched_pc.splits)
  ultimately have "work w \<le> 4 * length (eventList (sched w)) + 3" by (simp add: work_def queue_def)
  with thread_empties [OF assms(1) conjunct1 [OF reach_ok [OF assms(2,1,3)]] assms(4)]
  obtain n v where n: "n \<le> 4 * length (eventList (sched w)) + 3" and v: "v = (thread_step pick ^^ n) w"
    and f: "due v = {}" "sys_ok v" "now v = now w" "added v = added w" "stopped v = stopped w" "s_state (sched v) = s_state (sched w)"
    by (auto simp: Let_def intro: order.trans)
  have "t \<in> fst ` set (handed v)" if "t \<in> set (added w)" "cycle t \<le> now w" "eventId t \<notin> stopped w" for t
    using f that assms(4) by (auto simp: sys_ok_def kept_ok_def gone_def due_def)
  with n v show ?thesis by blast
qed

section \<open>A run\<close>

fun earliest :: "SchedulerTask list \<Rightarrow> SchedulerTask" where
  "earliest [] = \<lparr>eventId = 0, cycle = 0, job = 0\<rparr>"
| "earliest [t] = t"
| "earliest (t # ts) = (if cycle t \<le> cycle (earliest ts) then t else earliest ts)"

lemma earliest_ok: "pq_ok earliest"
proof -
  have "ts \<noteq> [] \<longrightarrow> earliest ts \<in> set ts \<and> (\<forall>t \<in> set ts. cycle (earliest ts) \<le> cycle t)" for ts
    by (induction ts rule: earliest.induct) auto
  then show ?thesis by (simp add: pq_ok_def)
qed

definition one_event :: system where
  "one_event = (at_lock earliest (at_loop (do_add earliest (createSchedulerTask 0 10 7) start)))\<lparr>now := 10\<rparr>"

lemmas run_defs = start_def do_add_def addEvent_def createSchedulerTask_def next_id_def at_loop_def at_lock_def
  on_timeout_def timeout_branch_def

lemma one_event_is: "one_event = start\<lparr>pc := WaitUntil 10, signals := 1, now := 10, added := [\<lparr>eventId = 1, cycle = 10, job = 7\<rparr>],
    sched := \<lparr>s_state = THREAD_STATE_RUNNING, lastEventId = 1, eventList = [\<lparr>eventId = 1, cycle = 10, job = 7\<rparr>], eventIds = {1}\<rparr>\<rparr>"
  by (simp add: one_event_def run_defs)

lemma one_event_reach: "(sys_step earliest)\<^sup>*\<^sup>* start one_event"
proof -
  let ?a = "do_add earliest (createSchedulerTask 0 10 7) start"
  have "sys_step earliest start ?a" by (rule sys_step.add) (simp_all add: start_def)
  moreover have "sys_step earliest ?a (at_loop ?a)" by (rule sys_step.loop) (simp add: run_defs)
  moreover have "sys_step earliest (at_loop ?a) (at_lock earliest (at_loop ?a))" by (rule sys_step.lock) (simp add: run_defs)
  moreover have "sys_step earliest (at_lock earliest (at_loop ?a)) one_event"
    unfolding one_event_def by (rule sys_step.tick) (simp add: run_defs)
  ultimately show ?thesis by (meson converse_rtranclp_into_rtranclp rtranclp.rtrancl_refl)
qed

lemma events_run_once_and_on_time_witness:
  "handed (on_timeout earliest one_event) = [(\<lparr>eventId = 1, cycle = 10, job = 7\<rparr>, 10)] \<and>
    list_all (\<lambda>(t, k). cycle t \<le> k) (handed (on_timeout earliest one_event))"
proof -
  have "sys_step earliest one_event (on_timeout earliest one_event)"
    by (rule sys_step.timeout [of _ 10]) (simp_all add: one_event_is start_def)
  with one_event_reach have r: "(sys_step earliest)\<^sup>*\<^sup>* start (on_timeout earliest one_event)" by simp
  have "handed (on_timeout earliest one_event) = [(\<lparr>eventId = 1, cycle = 10, job = 7\<rparr>, 10)]"
    by (simp add: one_event_is run_defs)
  moreover have "length (added (on_timeout earliest one_event)) < 2 ^ 32"
    by (simp add: one_event_is run_defs)
  ultimately show ?thesis
    using events_run_once_and_on_time [OF earliest_ok r] by auto
qed

lemma due_events_are_handed_over_witness:
  "\<exists>n \<le> 7. \<lparr>eventId = 1, cycle = 10, job = 7\<rparr> \<in> fst ` set (handed ((thread_step earliest ^^ n) one_event))"
  using due_events_are_handed_over [OF earliest_ok one_event_reach] by (simp add: one_event_is start_def)

section \<open>Ids that are given again\<close>

text \<open>After \<open>2 ^ 32 - 1\<close> events the ids begin again at 1, whether or not an event with that id is still waiting.  Of two
  waiting events with the same id only the first is handed over; the other is dropped as if it had been stopped,
  and whoever stops one stops both.\<close>

lemma reused_id_is_dropped:
  assumes "eventId a = eventId b" "cycle a < cycle b" "eventList s = [b, a]" "eventIds s = {eventId a}"
  shows "timeout_branch earliest s = Some (Some a, s\<lparr>eventList := [b], eventIds := {}\<rparr>)"
    and "timeout_branch earliest (s\<lparr>eventList := [b], eventIds := {}\<rparr>) = Some (None, s\<lparr>eventList := [], eventIds := {}\<rparr>)"
    and "snd (stopEvent (eventId b) s) = (if eventId a = 0 then s else s\<lparr>eventIds := {}\<rparr>)"
proof -
  have "b \<noteq> a"
    using assms(2) by auto
  then show "timeout_branch earliest s = Some (Some a, s\<lparr>eventList := [b], eventIds := {}\<rparr>)"
    using assms by (simp add: timeout_branch_def Let_def)
  show "timeout_branch earliest (s\<lparr>eventList := [b], eventIds := {}\<rparr>) = Some (None, s\<lparr>eventList := [], eventIds := {}\<rparr>)"
    by (simp add: timeout_branch_def Let_def)
  show "snd (stopEvent (eventId b) s) = (if eventId a = 0 then s else s\<lparr>eventIds := {}\<rparr>)"
    using assms by (simp add: stopEvent_def)
qed

section \<open>Two flaws of the shutdown\<close>

text \<open>The thread tests the state outside the lock.  When \<open>shutdown\<close> runs between that test and the
  lock, its signal is lost, the queue stays empty, and the thread waits although it should end.\<close>

lemma shutdown_can_be_missed:
  "\<exists>w. (sys_step earliest)\<^sup>*\<^sup>* start w \<and> s_state (sched w) = THREAD_STATE_TERMINATED \<and> pc w = WaitSignal \<and> signals w = 0 \<and>
    queue w = [] \<and> (\<forall>t. do_add earliest t w = w) \<and> thread_step earliest w = w"
proof -
  let ?a = "at_loop start"
  let ?b = "set_s_state THREAD_STATE_TERMINATED ?a"
  let ?c = "?b\<lparr>sched := clear_events (sched ?b), signals := signals ?b + 1\<rparr>"
  let ?d = "on_signal ?c"
  let ?e = "at_lock earliest ?d"
  have "sys_step earliest start ?a" by (rule sys_step.loop) (simp add: start_def)
  moreover have "sys_step earliest ?a ?b" by (rule sys_step.terminate)
  moreover have "sys_step earliest ?b ?c" by (rule sys_step.clear) (simp add: set_s_state_def)
  moreover have "sys_step earliest ?c ?d" by (rule sys_step.signal) simp
  moreover have "sys_step earliest ?d ?e"
    by (rule sys_step.lock) (simp add: on_signal_def set_s_state_def at_loop_def start_def waiting_def)
  ultimately have "(sys_step earliest)\<^sup>*\<^sup>* start ?e" by (meson converse_rtranclp_into_rtranclp rtranclp.rtrancl_refl)
  moreover have "s_state (sched ?e) = THREAD_STATE_TERMINATED" "pc ?e = WaitSignal" "signals ?e = 0" "queue ?e = []"
    by (simp_all add: at_lock_def on_signal_def set_s_state_def at_loop_def start_def waiting_def clear_events_def queue_def)
  moreover from this have "\<forall>t. do_add earliest t ?e = ?e" "thread_step earliest ?e = ?e"
    by (simp_all add: do_add_def addEvent_def thread_step_def)
  ultimately show ?thesis by blast
qed

text \<open>When the wait of the thread times out while \<open>shutdown\<close> empties the queue, the thread takes
  the top of an empty queue.\<close>

lemma shutdown_can_break: "\<exists>w. (sys_step earliest)\<^sup>*\<^sup>* start w \<and> pc w = Broken"
proof -
  let ?b = "set_s_state THREAD_STATE_TERMINATED one_event"
  let ?c = "?b\<lparr>sched := clear_events (sched ?b), signals := signals ?b + 1\<rparr>"
  have "sys_step earliest one_event ?b" by (rule sys_step.terminate)
  moreover have "sys_step earliest ?b ?c" by (rule sys_step.clear) (simp add: set_s_state_def)
  moreover have "sys_step earliest ?c (on_timeout earliest ?c)"
    by (rule sys_step.timeout [of _ 10]) (simp_all add: set_s_state_def one_event_is start_def)
  ultimately have "(sys_step earliest)\<^sup>*\<^sup>* start (on_timeout earliest ?c)"
    using one_event_reach by (meson rtranclp.rtrancl_into_rtrancl)
  moreover have "pc (on_timeout earliest ?c) = Broken"
    by (simp add: on_timeout_def timeout_branch_def clear_events_def)
  ultimately show ?thesis by blast
qed

end
