(* ===== verification/Trade.thy ===== *)
theory Trade
  imports Container
begin

text \<open>
  Trading between two players: the state machine in game.cpp (playerRequestTrade,
  internalStartTrade, playerAcceptTrade, internalCloseTrade, playerCloseTrade) with the fields of
  player.h, and the places of player.cpp that cancel a trade when the offered item is touched.
  Moving the items is the business of other parts of the game: the answers of the queries and of
  the moves are arguments, and so are the answers of scripts and of the line of sight.
\<close>

section \<open>State\<close>

datatype tradestate_t = TRADE_NONE | TRADE_INITIATED | TRADE_ACCEPT | TRADE_ACKNOWLEDGE | TRADE_TRANSFER

record Trader =
  tradeState :: tradestate_t
  tradePartner :: "u32 option"
  tradeItem :: "addr option"

text \<open>What players and items are told.\<close>

datatype trade_event =
    CancelMessage u32 ReturnValue
  | WantsToTrade u32 u32
  | TradeItemRequest u32 u32 addr bool
  | TradeCancelled u32
  | TradeError u32 ReturnValue
  | TradeClose u32
  | OnTradeTransfer addr u32
  | OnTradeCancel addr u32
  | MoveItem addr u32

text \<open>\<open>offers\<close> is \<open>Game::tradeItems\<close>, \<open>held\<close> the references that trades hold on items.\<close>

record Trades =
  trader :: "u32 \<Rightarrow> Trader"
  offers :: "addr \<rightharpoonup> u32"
  held :: "addr \<Rightarrow> int"
  trade_log :: "trade_event list"

definition upd_trader :: "u32 \<Rightarrow> (Trader \<Rightarrow> Trader) \<Rightarrow> Trades \<Rightarrow> Trades" where
  "upd_trader p f s = s\<lparr>trader := (trader s)(p := f (trader s p))\<rparr>"

definition tell :: "trade_event list \<Rightarrow> Trades \<Rightarrow> Trades" where
  "tell es s = s\<lparr>trade_log := trade_log s @ es\<rparr>"

definition setTradeState :: "tradestate_t \<Rightarrow> u32 \<Rightarrow> Trades \<Rightarrow> Trades" where
  "setTradeState st p = upd_trader p (\<lambda>t. t\<lparr>tradeState := st\<rparr>)"

text \<open>Erasing an item from \<open>tradeItems\<close> gives back the reference.\<close>

definition release :: "addr option \<Rightarrow> Trades \<Rightarrow> Trades" where
  "release i s =
     (case i of
        None \<Rightarrow> s
      | Some x \<Rightarrow>
          if offers s x = None then s
          else s\<lparr>offers := (offers s)(x := None), held := (held s)(x := held s x - 1)\<rparr>)"

section \<open>Starting\<close>

definition internalStartTrade :: "u32 \<Rightarrow> u32 \<Rightarrow> addr \<Rightarrow> Trades \<Rightarrow> bool \<times> Trades" where
  "internalStartTrade player partner i s =
     (let p = trader s player; q = trader s partner in
      if tradeState p \<noteq> TRADE_NONE \<and> \<not> (tradeState p = TRADE_ACKNOWLEDGE \<and> tradePartner p = Some partner)
      then (False, tell [CancelMessage player RETURNVALUE_YOUAREALREADYTRADING] s)
      else if tradeState q \<noteq> TRADE_NONE \<and> tradePartner q \<noteq> Some player
      then (False, tell [CancelMessage player RETURNVALUE_THISPLAYERISALREADYTRADING] s)
      else
        let s1 = upd_trader player (\<lambda>_. \<lparr>tradeState = TRADE_INITIATED, tradePartner = Some partner, tradeItem = Some i\<rparr>) s;
            s2 = tell [TradeItemRequest player player i True]
                   (s1\<lparr>held := (held s1)(i := held s1 i + 1), offers := (offers s1)(i \<mapsto> player)\<rparr>)
        in (True,
            if tradeState q = TRADE_NONE
            then upd_trader partner (\<lambda>t. t\<lparr>tradeState := TRADE_ACKNOWLEDGE, tradePartner := Some player\<rparr>)
                   (tell [WantsToTrade player partner] s2)
            else tell ((case tradeItem q of None \<Rightarrow> [] | Some j \<Rightarrow> [TradeItemRequest player partner j False]) @
                       [TradeItemRequest partner player i False]) s2))"

text \<open>The check of \<open>playerRequestTrade\<close> that the item is not part of a trade already.  The code walks
  \<open>tradeItems\<close>; here the walk is over a list of its keys.\<close>

fun already_traded :: "store \<Rightarrow> addr \<Rightarrow> addr list \<Rightarrow> bool option" where
  "already_traded st x [] = Some False"
| "already_traded st x (y # ys) = do {
     ox \<leftarrow> st x; oy \<leftarrow> st y;
     if x = y then Some True
     else do {
       outer \<leftarrow> (if is_container ox then isHoldingItem st x y else Some False);
       if outer then Some True
       else do {
         inner \<leftarrow> (if is_container oy then isHoldingItem st y x else Some False);
         if inner then Some True else already_traded st x ys } } }"

text \<open>From that check on; \<open>script\<close> is the answer of the script hook.\<close>

definition request_trade :: "store \<Rightarrow> addr list \<Rightarrow> bool \<Rightarrow> u32 \<Rightarrow> u32 \<Rightarrow> addr \<Rightarrow> Trades \<Rightarrow> Trades option" where
  "request_trade st keys script player partner i s = do {
     traded \<leftarrow> already_traded st i keys;
     if traded then Some s
     else do {
       ob \<leftarrow> st i;
       many \<leftarrow> (if is_container ob then map_option (\<lambda>n. n + 1 > 100) (getItemHoldingCount st i) else Some False);
       Some (if many \<or> \<not> script then s else snd (internalStartTrade player partner i s)) } }"

section \<open>Cancelling\<close>

text \<open>One half of \<open>internalCloseTrade\<close>, for the player or for the partner.\<close>

definition close_side :: "u32 \<Rightarrow> Trades \<Rightarrow> Trades" where
  "close_side p s =
     (let i = tradeItem (trader s p);
          s1 = (case i of None \<Rightarrow> s | Some x \<Rightarrow> tell [OnTradeCancel x p] (release i s));
          s2 = upd_trader p (\<lambda>_. \<lparr>tradeState = TRADE_NONE, tradePartner = None, tradeItem = None\<rparr>) s1
      in tell [TradeCancelled p, TradeClose p] s2)"

definition internalCloseTrade :: "u32 \<Rightarrow> Trades \<Rightarrow> Trades" where
  "internalCloseTrade p s =
     (let q = tradePartner (trader s p) in
      if (\<exists>x. q = Some x \<and> tradeState (trader s x) = TRADE_TRANSFER) \<or> tradeState (trader s p) = TRADE_TRANSFER then s
      else
        let s1 = close_side p s
        in (case q of None \<Rightarrow> s1 | Some x \<Rightarrow> close_side x s1))"

text \<open>\<open>Player::checkTradeState\<close>: \<open>around\<close> are the containers around the item, from the inside out.\<close>

definition checkTradeState :: "u32 \<Rightarrow> addr \<Rightarrow> addr list \<Rightarrow> Trades \<Rightarrow> Trades" where
  "checkTradeState p i around s =
     (let t = trader s p in
      if tradeItem t = None \<or> tradeState t = TRADE_TRANSFER then s
      else if tradeItem t = Some i then internalCloseTrade p s
      else if tradeItem t \<in> Some ` set around then internalCloseTrade p s
      else s)"

text \<open>\<open>onRemoveTileItem\<close>, \<open>onRemoveInventoryItem\<close> and \<open>onRemoveContainerItem\<close>: \<open>contents\<close> is what is inside
  the item, for the last what lies deeper inside the container that lost it.\<close>

definition on_remove_item :: "u32 \<Rightarrow> addr \<Rightarrow> addr list \<Rightarrow> addr set \<Rightarrow> Trades \<Rightarrow> Trades" where
  "on_remove_item p i around contents s =
     (if tradeState (trader s p) = TRADE_TRANSFER then s
      else
        let s1 = checkTradeState p i around s
        in if tradeItem (trader s1 p) \<in> Some ` contents then internalCloseTrade p s1 else s1)"

text \<open>When the player has moved.\<close>

definition after_move :: "u32 \<Rightarrow> bool \<Rightarrow> bool \<Rightarrow> Trades \<Rightarrow> Trades" where
  "after_move p item_near partner_near s =
     (if tradeState (trader s p) = TRADE_TRANSFER then s
      else
        let s1 = (if tradeItem (trader s p) \<noteq> None \<and> \<not> item_near then internalCloseTrade p s else s)
        in if tradePartner (trader s1 p) \<noteq> None \<and> \<not> partner_near then internalCloseTrade p s1 else s1)"

section \<open>Accepting\<close>

text \<open>\<open>onTradeAccept\<close> is the script's answer, None without a script; the others are the answers of
  the two tests to add, the two tests to remove and the two moves.\<close>

record Answers =
  reachable :: bool
  onTradeAccept :: "bool option"
  test_add1 :: ReturnValue
  test_add2 :: ReturnValue
  test_remove1 :: ReturnValue
  test_remove2 :: ReturnValue
  move1 :: ReturnValue
  move2 :: ReturnValue

text \<open>\<open>internalAddItem\<close> refuses a null item.\<close>

definition test_add :: "addr option \<Rightarrow> ReturnValue \<Rightarrow> ReturnValue" where
  "test_add i r = (case i of None \<Rightarrow> RETURNVALUE_NOTPOSSIBLE | Some _ \<Rightarrow> r)"

text \<open>The exchange: whether it succeeded, the last two return values, and what happened to the items.  The answer of
  the second move is not looked at: when it fails, the exchange has succeeded all the same.\<close>

definition exchange ::
  "Answers \<Rightarrow> u32 \<Rightarrow> u32 \<Rightarrow> addr option \<Rightarrow> addr option \<Rightarrow> bool \<times> ReturnValue \<times> ReturnValue \<times> trade_event list" where
  "exchange e player partner i1 i2 =
     (let r1 = test_add i1 (test_add1 e); r2 = test_add i2 (test_add2 e) in
      if r1 = RETURNVALUE_NOERROR \<and> r2 = RETURNVALUE_NOERROR then
        if test_remove1 e = RETURNVALUE_NOERROR \<and> test_remove2 e = RETURNVALUE_NOERROR then
          if move1 e = RETURNVALUE_NOERROR
          then (True, move1 e, test_remove2 e,
                [MoveItem (the i1) partner] @ (if move2 e = RETURNVALUE_NOERROR then [MoveItem (the i2) player] else []) @
                [OnTradeTransfer (the i1) partner, OnTradeTransfer (the i2) player])
          else (False, move1 e, test_remove2 e, [])
        else (False, test_remove1 e, test_remove2 e, [])
      else (False, r1, r2, []))"

definition trade_failed :: "u32 \<Rightarrow> addr option \<Rightarrow> ReturnValue \<Rightarrow> trade_event list" where
  "trade_failed p i r = (case i of None \<Rightarrow> [] | Some x \<Rightarrow> [TradeError p r, OnTradeCancel x p])"

definition end_side :: "u32 \<Rightarrow> Trades \<Rightarrow> Trades" where
  "end_side p s =
     tell [TradeClose p] (upd_trader p (\<lambda>_. \<lparr>tradeState = TRADE_NONE, tradePartner = None, tradeItem = None\<rparr>) s)"

text \<open>None is a null pointer handed to the script.\<close>

definition playerAcceptTrade :: "Answers \<Rightarrow> u32 \<Rightarrow> Trades \<Rightarrow> Trades option" where
  "playerAcceptTrade e player s =
     (let p = trader s player in
      if \<not> (tradeState p = TRADE_ACKNOWLEDGE \<or> tradeState p = TRADE_INITIATED) then Some s
      else case tradePartner p of
        None \<Rightarrow> Some s
      | Some partner \<Rightarrow>
          if \<not> reachable e then Some (tell [CancelMessage player RETURNVALUE_CREATUREISNOTREACHABLE] s)
          else
            let s1 = setTradeState TRADE_ACCEPT player s in
            if tradeState (trader s1 partner) \<noteq> TRADE_ACCEPT then Some s1
            else
              let i1 = tradeItem (trader s1 player); i2 = tradeItem (trader s1 partner) in
              if onTradeAccept e \<noteq> None \<and> (i1 = None \<or> i2 = None) then None
              else if onTradeAccept e = Some False then Some (internalCloseTrade player s1)
              else
                let s2 = setTradeState TRADE_TRANSFER partner (setTradeState TRADE_TRANSFER player s1);
                    s3 = release i2 (release i1 s2);
                    (ok, r1, r2, moved) = exchange e player partner i1 i2;
                    s4 = tell (if ok then moved else trade_failed partner i2 r1 @ trade_failed player i1 r2) s3
                in Some (end_side partner (end_side player s4)))"

end
