(* ===== verification/TradeRun.thy ===== *)
theory TradeRun
  imports Trade
begin

text \<open>
  What the trade state machine keeps: partners point at each other, every offered item is
  registered with its owner and held by one reference, and items change hands only when both
  players have accepted and both have offered one; the second item may then fail to move.
\<close>

section \<open>Projections\<close>

lemma tell_simps [simp]:
  "trader (tell es s) = trader s" "offers (tell es s) = offers s" "held (tell es s) = held s"
  "trade_log (tell es s) = trade_log s @ es"
  by (simp_all add: tell_def)

lemma upd_trader_simps [simp]:
  "trader (upd_trader p f s) = (trader s)(p := f (trader s p))" "offers (upd_trader p f s) = offers s"
  "held (upd_trader p f s) = held s" "trade_log (upd_trader p f s) = trade_log s"
  by (simp_all add: upd_trader_def)

lemma release_simps [simp]:
  "trader (release i s) = trader s" "trade_log (release i s) = trade_log s"
  "offers (release i s) = (case i of None \<Rightarrow> offers s | Some x \<Rightarrow> (offers s)(x := None))"
  by (auto simp: release_def fun_eq_iff split: option.splits)

section \<open>Invariant\<close>

definition idle :: Trader where
  "idle = \<lparr>tradeState = TRADE_NONE, tradePartner = None, tradeItem = None\<rparr>"

definition side_ok :: "Trader \<Rightarrow> bool" where
  "side_ok t = (case tradeState t of
     TRADE_NONE \<Rightarrow> tradePartner t = None \<and> tradeItem t = None
   | TRADE_INITIATED \<Rightarrow> tradePartner t \<noteq> None \<and> tradeItem t \<noteq> None
   | TRADE_ACCEPT \<Rightarrow> tradePartner t \<noteq> None
   | TRADE_ACKNOWLEDGE \<Rightarrow> tradePartner t \<noteq> None \<and> tradeItem t = None
   | TRADE_TRANSFER \<Rightarrow> False)"

definition faces :: "Trader \<Rightarrow> u32 \<Rightarrow> bool" where
  "faces t p = (tradePartner t = Some p)"

definition partners_ok :: "(u32 \<Rightarrow> Trader) \<Rightarrow> bool" where
  "partners_ok tr \<longleftrightarrow> (\<forall>p. side_ok (tr p)) \<and> (\<forall>p. \<not> faces (tr p) p) \<and> (\<forall>p q. faces (tr p) q \<longrightarrow> faces (tr q) p) \<and>
     (\<forall>p q. faces (tr p) q \<longrightarrow> tradeState (tr p) = TRADE_ACKNOWLEDGE \<longrightarrow> tradeItem (tr q) \<noteq> None)"

definition offers_ok :: "Trades \<Rightarrow> bool" where
  "offers_ok s \<longleftrightarrow> (\<forall>i p. tradeItem (trader s p) = Some i \<longleftrightarrow> offers s i = Some p) \<and>
     (\<forall>i. held s i = (if offers s i = None then 0 else 1))"

definition trade_ok :: "Trades \<Rightarrow> bool" where
  "trade_ok s \<longleftrightarrow> partners_ok (trader s) \<and> offers_ok s"

lemma idle_simps [simp]:
  "tradeState idle = TRADE_NONE" "tradePartner idle = None" "tradeItem idle = None" "side_ok idle" "\<not> faces idle p"
  by (simp_all add: idle_def side_ok_def faces_def)

lemma partners_okD:
  assumes "partners_ok tr"
  shows "side_ok (tr p)" and "\<not> faces (tr p) p" and "faces (tr p) q \<Longrightarrow> faces (tr q) p"
    and "faces (tr p) q \<Longrightarrow> tradeState (tr p) = TRADE_ACKNOWLEDGE \<Longrightarrow> tradeItem (tr q) \<noteq> None"
  using assms by (simp_all add: partners_ok_def)

lemma partners_okI:
  assumes "\<And>p. side_ok (tr p)" and "\<And>p. \<not> faces (tr p) p" and "\<And>p q. faces (tr p) q \<Longrightarrow> faces (tr q) p"
    and "\<And>p q. faces (tr p) q \<Longrightarrow> tradeState (tr p) = TRADE_ACKNOWLEDGE \<Longrightarrow> tradeItem (tr q) \<noteq> None"
  shows "partners_ok tr"
  using assms by (simp add: partners_ok_def)

text \<open>Two players become idle and their items are released.\<close>

lemma faces_unique: "faces t p \<Longrightarrow> faces t q \<Longrightarrow> p = q"
  by (simp add: faces_def)

lemma others_face_others:
  assumes "partners_ok tr" and "faces (tr p) q" and "r \<noteq> p" and "r \<noteq> q" and "faces (tr r) x"
  shows "x \<noteq> p \<and> x \<noteq> q"
proof -
  have bk: "faces (tr x) r" by (rule partners_okD(3) [OF assms(1,5)])
  have "faces (tr q) p" by (rule partners_okD(3) [OF assms(1,2)])
  with bk assms(2,3,4) show ?thesis by (auto dest: faces_unique)
qed

lemma couple_idle:
  assumes "partners_ok tr" and "faces (tr p) q"
  shows "partners_ok (tr(p := idle, q := idle))"
proof (rule partners_okI)
  fix r x
  show "side_ok ((tr(p := idle, q := idle)) r)" using partners_okD(1) [OF assms(1), of r] by simp
  show "\<not> faces ((tr(p := idle, q := idle)) r) r" using partners_okD(2) [OF assms(1), of r] by simp
  assume f: "faces ((tr(p := idle, q := idle)) r) x"
  then have r: "r \<noteq> p" "r \<noteq> q" "faces (tr r) x" by (auto split: if_splits)
  with others_face_others [OF assms r] have x: "x \<noteq> p" "x \<noteq> q" by auto
  with partners_okD(3) [OF assms(1) r(3)] show "faces ((tr(p := idle, q := idle)) x) r" by simp
  assume "tradeState ((tr(p := idle, q := idle)) r) = TRADE_ACKNOWLEDGE"
  with partners_okD(4) [OF assms(1) r(3)] r x show "tradeItem ((tr(p := idle, q := idle)) x) \<noteq> None" by simp
qed

lemma offers_okD:
  assumes "offers_ok s"
  shows "tradeItem (trader s p) = Some i \<longleftrightarrow> offers s i = Some p" and "held s i = (if offers s i = None then 0 else 1)"
  using assms by (simp_all add: offers_ok_def)

lemma offers_okI:
  assumes "\<And>p i. tradeItem (trader s p) = Some i \<longleftrightarrow> offers s i = Some p"
    and "\<And>i. held s i = (if offers s i = None then 0 else 1)"
  shows "offers_ok s"
  using assms by (simp add: offers_ok_def)

lemma release_ok:
  assumes ok: "offers_ok s" and i: "tradeItem (trader s p) = i" and s': "trader s' = (trader s)(p := t)" and t: "tradeItem t = None"
    and off: "offers s' = offers (release i s)" and held: "held s' = held (release i s)"
  shows "offers_ok s'"
proof (cases i)
  case None
  have no: "offers s x \<noteq> Some p" for x using offers_okD(1) [OF ok, of p x] i None by simp
  show ?thesis
  proof (rule offers_okI)
    show "tradeItem (trader s' q) = Some x \<longleftrightarrow> offers s' x = Some q" for q x
      using offers_okD(1) [OF ok, of q x] s' t off None no [of x] by (cases "q = p") simp_all
    show "held s' x = (if offers s' x = None then 0 else 1)" for x
      using offers_okD(2) [OF ok, of x] off held None by (simp add: release_def)
  qed
next
  case (Some y)
  with offers_okD(1) [OF ok, of p y] i have y: "offers s y = Some p" by simp
  have only: "offers s x = Some p \<longleftrightarrow> x = y" for x using offers_okD(1) [OF ok, of p x] i Some by auto
  have off': "offers s' = (offers s)(y := None)" using off Some by simp
  have held': "held s' = (held s)(y := held s y - 1)" using held Some y by (simp add: release_def)
  show ?thesis
  proof (rule offers_okI)
    show "tradeItem (trader s' q) = Some x \<longleftrightarrow> offers s' x = Some q" for q x
      using offers_okD(1) [OF ok, of q x] s' t off' only [of x] y by (cases "q = p"; cases "x = y") simp_all
    show "held s' x = (if offers s' x = None then 0 else 1)" for x
      using offers_okD(2) [OF ok, of x] off' held' y by (cases "x = y") simp_all
  qed
qed

lemma close_side_simps [simp]:
  "trader (close_side p s) = (trader s)(p := idle)"
  "offers (close_side p s) = offers (release (tradeItem (trader s p)) s)"
  "held (close_side p s) = held (release (tradeItem (trader s p)) s)"
  by (cases "tradeItem (trader s p)"; simp add: close_side_def Let_def idle_def release_def)+

lemma close_side_offers: "offers_ok s \<Longrightarrow> offers_ok (close_side p s)"
  by (rule release_ok [of s p _ _ idle]) simp_all

lemma trade_okD:
  assumes "trade_ok s" shows "partners_ok (trader s)" and "offers_ok s"
  using assms by (simp_all add: trade_ok_def)

lemma no_transfer: "trade_ok s \<Longrightarrow> tradeState (trader s p) \<noteq> TRADE_TRANSFER"
  using partners_okD(1) [OF trade_okD(1), of s p] by (auto simp: side_ok_def)

lemma close_cases:
  assumes "trade_ok s"
  obtains "tradePartner (trader s p) = None" "internalCloseTrade p s = close_side p s"
  | q where "faces (trader s p) q" "internalCloseTrade p s = close_side q (close_side p s)"
  using no_transfer [OF assms] that
  by (cases "tradePartner (trader s p)") (simp_all add: internalCloseTrade_def faces_def)

lemma close_ok:
  assumes "trade_ok s" shows "trade_ok (internalCloseTrade p s)"
proof (rule close_cases [OF assms])
  assume a: "tradePartner (trader s p) = None" "internalCloseTrade p s = close_side p s"
  have "side_ok (trader s p)" by (rule partners_okD(1) [OF trade_okD(1) [OF assms]])
  with a(1) have "tradeState (trader s p) = TRADE_NONE" "tradeItem (trader s p) = None"
    by (auto simp: side_ok_def split: tradestate_t.splits)
  with a(1) have "trader s p = idle" by (simp add: idle_def)
  then have "(trader s)(p := idle) = trader s" by auto
  with a(2) trade_okD [OF assms] close_side_offers show ?thesis by (simp add: trade_ok_def)
next
  fix q assume a: "faces (trader s p) q" "internalCloseTrade p s = close_side q (close_side p s)"
  from couple_idle [OF trade_okD(1) [OF assms] a(1)] close_side_offers trade_okD(2) [OF assms] a(2)
  show ?thesis by (simp add: trade_ok_def)
qed

section \<open>Starting\<close>

definition start_refused :: "u32 \<Rightarrow> u32 \<Rightarrow> Trades \<Rightarrow> bool" where
  "start_refused player partner s \<longleftrightarrow>
     tradeState (trader s player) \<noteq> TRADE_NONE \<and>
       \<not> (tradeState (trader s player) = TRADE_ACKNOWLEDGE \<and> faces (trader s player) partner) \<or>
     tradeState (trader s partner) \<noteq> TRADE_NONE \<and> \<not> faces (trader s partner) player"

lemma start_refused_keeps:
  "start_refused player partner s \<Longrightarrow> trader (snd (internalStartTrade player partner i s)) = trader s \<and>
   offers (snd (internalStartTrade player partner i s)) = offers s \<and> held (snd (internalStartTrade player partner i s)) = held s"
  by (auto simp: start_refused_def internalStartTrade_def faces_def Let_def)

definition offering :: "u32 \<Rightarrow> addr \<Rightarrow> Trader" where
  "offering partner i = \<lparr>tradeState = TRADE_INITIATED, tradePartner = Some partner, tradeItem = Some i\<rparr>"

definition asked :: "u32 \<Rightarrow> Trader \<Rightarrow> Trader" where
  "asked player t = (if tradeState t = TRADE_NONE then t\<lparr>tradeState := TRADE_ACKNOWLEDGE, tradePartner := Some player\<rparr> else t)"

lemma start_accepted:
  assumes "\<not> start_refused player partner s" and "player \<noteq> partner"
  shows "trader (snd (internalStartTrade player partner i s)) =
      (trader s)(player := offering partner i, partner := asked player (trader s partner))"
    and "offers (snd (internalStartTrade player partner i s)) = (offers s)(i \<mapsto> player)"
    and "held (snd (internalStartTrade player partner i s)) = (held s)(i := held s i + 1)"
  using assms
  by (auto simp: start_refused_def internalStartTrade_def faces_def offering_def asked_def Let_def fun_upd_twist)

lemma side_none: "side_ok t \<Longrightarrow> tradeState t = TRADE_NONE \<longleftrightarrow> tradePartner t = None"
  by (auto simp: side_ok_def split: tradestate_t.splits)

lemma recouple:
  assumes P: "partners_ok tr" and ne: "p \<noteq> q"
    and p: "\<And>x. faces (tr p) x \<Longrightarrow> x = q" and q: "\<And>x. faces (tr q) x \<Longrightarrow> x = p"
    and t: "side_ok t" "faces t q" "tradeState t = TRADE_ACKNOWLEDGE \<Longrightarrow> tradeItem u \<noteq> None"
    and u: "side_ok u" "faces u p" "tradeState u = TRADE_ACKNOWLEDGE \<Longrightarrow> tradeItem t \<noteq> None"
  shows "partners_ok (tr(p := t, q := u))"
proof (rule partners_okI)
  let ?t = "tr(p := t, q := u)"
  fix r
  consider (p) "r = p" | (q) "r = q" | (other) "r \<noteq> p" "r \<noteq> q" by blast
  note cases = this
  have at: "?t p = t" "?t q = u" using ne by simp_all
  have far: "x \<noteq> p \<and> x \<noteq> q \<and> faces (tr r) x \<and> faces (tr x) r"
    if o: "r \<noteq> p" "r \<noteq> q" and f: "faces (?t r) x" for x
  proof -
    have f1: "faces (tr r) x" using f o by simp
    have f2: "faces (tr x) r" by (rule partners_okD(3) [OF P f1])
    have "x \<noteq> p" using p f2 o by blast
    moreover have "x \<noteq> q" using q f2 o by blast
    ultimately show ?thesis using f1 f2 by simp
  qed
  show "side_ok (?t r)" using partners_okD(1) [OF P, of r] t(1) u(1) by simp
  show "\<not> faces (?t r) r"
  proof (cases rule: cases)
    case p
    have "\<not> faces t p" using faces_unique [OF t(2)] ne by blast
    with p ne show ?thesis by simp
  next
    case q
    have "\<not> faces u q" using faces_unique [OF u(2)] ne by blast
    with q show ?thesis by simp
  next
    case other
    with partners_okD(2) [OF P, of r] show ?thesis by simp
  qed
  fix x assume f: "faces (?t r) x"
  have x: "x = q" if "r = p" using that f ne faces_unique [OF t(2)] by simp
  have x': "x = p" if "r = q" using that f faces_unique [OF u(2)] by simp
  show "faces (?t x) r"
  proof (cases rule: cases)
    case p
    with x have "x = q" by blast
    with p u(2) show ?thesis by simp
  next
    case q
    with x' have "x = p" by blast
    with q t(2) ne show ?thesis by simp
  next
    case other
    with far [OF other f] show ?thesis by simp
  qed
  assume a: "tradeState (?t r) = TRADE_ACKNOWLEDGE"
  show "tradeItem (?t x) \<noteq> None"
  proof (cases rule: cases)
    case p
    with x have "x = q" by blast
    with a p t(3) ne show ?thesis by simp
  next
    case q
    with x' have "x = p" by blast
    with a q u(3) ne show ?thesis by simp
  next
    case other
    with far [OF other f] a have "faces (tr r) x" "tradeState (tr r) = TRADE_ACKNOWLEDGE" by simp_all
    then have "tradeItem (tr x) \<noteq> None" by (rule partners_okD(4) [OF P])
    with far [OF other f] show ?thesis by simp
  qed
qed

lemma startable:
  assumes "partners_ok (trader s)" and "\<not> start_refused player partner s"
  shows "faces (trader s player) x \<Longrightarrow> x = partner" and "faces (trader s partner) x \<Longrightarrow> x = player"
    and "tradeItem (trader s player) = None"
proof -
  have side: "side_ok (trader s p)" for p by (rule partners_okD(1) [OF assms(1)])
  show "faces (trader s player) x \<Longrightarrow> x = partner"
    using assms(2) side_none [OF side, of player] by (auto simp: start_refused_def faces_def)
  show "faces (trader s partner) x \<Longrightarrow> x = player"
    using assms(2) side_none [OF side, of partner] by (auto simp: start_refused_def faces_def)
  have "tradeState (trader s player) = TRADE_NONE \<or> tradeState (trader s player) = TRADE_ACKNOWLEDGE"
    using assms(2) by (auto simp: start_refused_def)
  with side [of player] show "tradeItem (trader s player) = None" by (auto simp: side_ok_def)
qed

lemma asked_props:
  assumes "side_ok t" and "\<And>x. faces t x \<Longrightarrow> x = player"
  shows "side_ok (asked player t)" and "faces (asked player t) player" and "tradeItem (asked player t) = tradeItem t"
  using assms(1) assms(2) [of "the (tradePartner t)"]
  by (auto simp: asked_def side_ok_def faces_def split: tradestate_t.splits)

lemma trade_start_ok:
  assumes ok: "trade_ok s" and ne: "player \<noteq> partner" and new: "offers s i = None"
  shows "trade_ok (snd (internalStartTrade player partner i s))"
proof (cases "start_refused player partner s")
  case True
  from start_refused_keeps [OF True] ok show ?thesis by (simp add: trade_ok_def offers_ok_def)
next
  case go: False
  let ?s = "snd (internalStartTrade player partner i s)"
  note P = trade_okD(1) [OF ok] and O = trade_okD(2) [OF ok] and s' = start_accepted [OF go ne, of i]
  note free = startable [OF P go]
  note ask = asked_props [OF partners_okD(1) [OF P, of partner] free(2)]
  have "partners_ok (trader ?s)"
    unfolding s'(1) by (rule recouple [OF P ne free(1,2) _ _ _ ask(1,2)])
      (simp_all add: offering_def side_ok_def faces_def)
  moreover have "offers_ok ?s"
  proof (rule offers_okI)
    fix p j
    have item: "tradeItem (trader ?s p) = (if p = player then Some i else tradeItem (trader s p))"
      unfolding s'(1) using ne ask(3) by (simp add: offering_def)
    show "tradeItem (trader ?s p) = Some j \<longleftrightarrow> offers ?s j = Some p"
      unfolding item s'(2) using offers_okD(1) [OF O, of p j] free(3) new
      by (cases "p = player"; cases "j = i") auto
    show "held ?s j = (if offers ?s j = None then 0 else 1)"
      unfolding s'(2,3) using offers_okD(2) [OF O, of j] new by (cases "j = i") simp_all
  qed
  ultimately show ?thesis by (simp add: trade_ok_def)
qed

section \<open>Accepting\<close>

definition may_accept :: "u32 \<Rightarrow> u32 \<Rightarrow> Trades \<Rightarrow> bool" where
  "may_accept p q s \<longleftrightarrow> (tradeState (trader s p) = TRADE_ACKNOWLEDGE \<or> tradeState (trader s p) = TRADE_INITIATED) \<and>
     faces (trader s p) q"

definition final_log :: "Answers \<Rightarrow> u32 \<Rightarrow> u32 \<Rightarrow> Trades \<Rightarrow> trade_event list" where
  "final_log e p q s =
     (let i1 = tradeItem (trader s p); i2 = tradeItem (trader s q); (ok, r1, r2, moved) = exchange e p q i1 i2
      in (if ok then moved else trade_failed q i2 r1 @ trade_failed p i1 r2) @ [TradeClose p, TradeClose q])"

definition finish :: "Answers \<Rightarrow> u32 \<Rightarrow> u32 \<Rightarrow> Trades \<Rightarrow> Trades" where
  "finish e p q s =
     (let s3 = release (tradeItem (trader s q)) (release (tradeItem (trader s p))
                 (setTradeState TRADE_TRANSFER q (setTradeState TRADE_TRANSFER p (setTradeState TRADE_ACCEPT p s))));
          i1 = tradeItem (trader s p); i2 = tradeItem (trader s q);
          (ok, r1, r2, moved) = exchange e p q i1 i2
      in end_side q (end_side p (tell (if ok then moved else trade_failed q i2 r1 @ trade_failed p i1 r2) s3)))"

lemma setTradeState_simps [simp]:
  "trader (setTradeState st p s) = (trader s)(p := (trader s p)\<lparr>tradeState := st\<rparr>)"
  "offers (setTradeState st p s) = offers s" "held (setTradeState st p s) = held s"
  "trade_log (setTradeState st p s) = trade_log s"
  by (simp_all add: setTradeState_def)

lemma end_side_simps [simp]:
  "trader (end_side p s) = (trader s)(p := idle)" "offers (end_side p s) = offers s" "held (end_side p s) = held s"
  "trade_log (end_side p s) = trade_log s @ [TradeClose p]"
  by (simp_all add: end_side_def idle_def)

lemma release_held [simp]:
  "held (release i s) = (case i of None \<Rightarrow> held s | Some x \<Rightarrow> if offers s x = None then held s else (held s)(x := held s x - 1))"
  by (simp add: release_def split: option.split)

definition both_accept :: "Answers \<Rightarrow> u32 \<Rightarrow> u32 \<Rightarrow> Trades \<Rightarrow> Trades option" where
  "both_accept e p q s =
     (if onTradeAccept e \<noteq> None \<and> (tradeItem (trader s p) = None \<or> tradeItem (trader s q) = None) then None
      else if onTradeAccept e = Some False then Some (internalCloseTrade p (setTradeState TRADE_ACCEPT p s))
      else Some (finish e p q s))"

lemma accept_stops:
  assumes "\<And>q. \<not> may_accept p q s"
  shows "playerAcceptTrade e p s = Some s"
proof (cases "tradePartner (trader s p)")
  case None
  then show ?thesis by (simp add: playerAcceptTrade_def Let_def)
next
  case (Some q)
  with assms [of q] have "tradeState (trader s p) \<noteq> TRADE_ACKNOWLEDGE \<and> tradeState (trader s p) \<noteq> TRADE_INITIATED"
    by (auto simp: may_accept_def faces_def)
  then show ?thesis by (simp add: playerAcceptTrade_def Let_def)
qed

lemma accept_eq:
  assumes "may_accept p q s" and "p \<noteq> q"
  shows "playerAcceptTrade e p s =
    (if \<not> reachable e then Some (tell [CancelMessage p RETURNVALUE_CREATUREISNOTREACHABLE] s)
     else if tradeState (trader s q) \<noteq> TRADE_ACCEPT then Some (setTradeState TRADE_ACCEPT p s)
     else both_accept e p q s)"
proof -
  have st: "tradeState (trader s p) = TRADE_ACKNOWLEDGE \<or> tradeState (trader s p) = TRADE_INITIATED"
    and q: "tradePartner (trader s p) = Some q"
    using assms(1) by (simp_all add: may_accept_def faces_def)
  obtain ok r1 r2 moved where x: "exchange e p q (tradeItem (trader s p)) (tradeItem (trader s q)) = (ok, r1, r2, moved)"
    using prod_cases4 by blast
  have items: "tradeItem (trader (setTradeState TRADE_ACCEPT p s) r) = tradeItem (trader s r)" for r by simp
  have qs: "tradeState (trader (setTradeState TRADE_ACCEPT p s) q) = tradeState (trader s q)" using assms(2) by simp
  have go: "\<not> (tradeState (trader s p) = TRADE_ACKNOWLEDGE \<or> tradeState (trader s p) = TRADE_INITIATED) \<longleftrightarrow> False"
    using st by blast
  show ?thesis
    unfolding playerAcceptTrade_def both_accept_def finish_def Let_def go q items qs x if_False option.case prod.case
    by (rule if_cong [OF refl refl], rule if_cong [OF refl refl]) (simp only: if_cancel if_True if_False split: if_split)
qed

lemma not_self:
  assumes "trade_ok s" and "may_accept p q s"
  shows "p \<noteq> q"
  using assms(2) partners_okD(2) [OF trade_okD(1) [OF assms(1)], of p] by (auto simp: may_accept_def)

lemma accept_cases:
  assumes "playerAcceptTrade e p s = Some s'" and "trade_ok s"
  obtains (refused) es where "s' = tell es s" "es = [] \<or> es = [CancelMessage p RETURNVALUE_CREATUREISNOTREACHABLE]"
  | (first) q where "may_accept p q s" "tradeState (trader s q) \<noteq> TRADE_ACCEPT" "s' = setTradeState TRADE_ACCEPT p s"
  | (vetoed) q where "may_accept p q s" "s' = internalCloseTrade p (setTradeState TRADE_ACCEPT p s)"
  | (both) q where "may_accept p q s" "tradeState (trader s q) = TRADE_ACCEPT" "s' = finish e p q s"
proof (cases "\<exists>q. may_accept p q s")
  case False
  with assms(1) accept_stops [of p s e] have "s' = tell [] s" by (simp add: tell_def)
  then show ?thesis by (rule refused) simp
next
  case True
  then obtain q where m: "may_accept p q s" by blast
  note eq = accept_eq [OF m not_self [OF assms(2) m], of e]
  consider "\<not> reachable e" | "reachable e" "tradeState (trader s q) \<noteq> TRADE_ACCEPT"
    | "reachable e" "tradeState (trader s q) = TRADE_ACCEPT" by blast
  then show ?thesis
  proof cases
    case 1
    with assms(1) eq have "s' = tell [CancelMessage p RETURNVALUE_CREATUREISNOTREACHABLE] s" by simp
    then show ?thesis by (rule refused) simp
  next
    case 2
    with assms(1) eq have "s' = setTradeState TRADE_ACCEPT p s" by simp
    with m 2(2) show ?thesis by (rule first)
  next
    case 3
    with assms(1) eq have "both_accept e p q s = Some s'" by simp
    then have "s' = internalCloseTrade p (setTradeState TRADE_ACCEPT p s) \<or> s' = finish e p q s"
      by (simp add: both_accept_def split: if_splits)
    with m 3(2) vetoed both show ?thesis by blast
  qed
qed

lemma accepting_side: "side_ok t \<Longrightarrow> tradePartner t \<noteq> None \<Longrightarrow> side_ok (t\<lparr>tradeState := TRADE_ACCEPT\<rparr>)"
  by (simp add: side_ok_def)

lemma accepting_ok:
  assumes ok: "trade_ok s" and m: "may_accept p q s"
  shows "trade_ok (setTradeState TRADE_ACCEPT p s)"
proof -
  note P = trade_okD(1) [OF ok] and O = trade_okD(2) [OF ok]
  have pq: "faces (trader s p) q" using m by (simp add: may_accept_def)
  have qp: "faces (trader s q) p" by (rule partners_okD(3) [OF P pq])
  have ne: "p \<noteq> q" using pq partners_okD(2) [OF P] by blast
  have "partners_ok ((trader s)(p := (trader s p)\<lparr>tradeState := TRADE_ACCEPT\<rparr>, q := trader s q))"
  proof (rule recouple [OF P ne faces_unique [OF _ pq] faces_unique [OF _ qp] _ _ _ partners_okD(1) [OF P] qp])
    show "side_ok ((trader s p)\<lparr>tradeState := TRADE_ACCEPT\<rparr>)"
      using accepting_side [OF partners_okD(1) [OF P, of p]] pq by (simp add: faces_def)
    show "faces ((trader s p)\<lparr>tradeState := TRADE_ACCEPT\<rparr>) q" using pq by (simp add: faces_def)
    show "tradeState (trader s q) = TRADE_ACKNOWLEDGE \<Longrightarrow> tradeItem ((trader s p)\<lparr>tradeState := TRADE_ACCEPT\<rparr>) \<noteq> None"
      using partners_okD(4) [OF P qp] by simp
  qed simp_all
  then have 1: "partners_ok (trader (setTradeState TRADE_ACCEPT p s))" using ne by (simp add: fun_upd_twist)
  have 2: "offers_ok (setTradeState TRADE_ACCEPT p s)"
    by (rule offers_okI) (use offers_okD [OF O] in simp_all)
  from 1 2 show ?thesis by (simp add: trade_ok_def)
qed

lemma finish_simps:
  assumes "p \<noteq> q"
  shows "trader (finish e p q s) = (trader s)(p := idle, q := idle)"
    and "offers (finish e p q s) = offers (close_side q (close_side p s))"
    and "held (finish e p q s) = held (close_side q (close_side p s))"
    and "trade_log (finish e p q s) = trade_log s @ final_log e p q s"
  using assms by (auto simp: finish_def final_log_def Let_def fun_eq_iff split: prod.splits option.splits)

lemma finish_ok:
  assumes ok: "trade_ok s" and m: "may_accept p q s"
  shows "trade_ok (finish e p q s)"
proof -
  note P = trade_okD(1) [OF ok] and O = trade_okD(2) [OF ok]
  have pq: "faces (trader s p) q" using m by (simp add: may_accept_def)
  have ne: "p \<noteq> q" using pq partners_okD(2) [OF P] by blast
  have "offers_ok (close_side q (close_side p s))" by (intro close_side_offers O)
  then have "offers_ok (finish e p q s)"
    by (simp add: offers_ok_def finish_simps [OF ne] del: close_side_simps(2,3))
  with couple_idle [OF P pq] show ?thesis by (simp add: trade_ok_def finish_simps(1) [OF ne])
qed

lemma accept_ok:
  assumes ok: "trade_ok s" and a: "playerAcceptTrade e p s = Some s'"
  shows "trade_ok s'"
  using a ok
proof (cases rule: accept_cases)
  case (refused es)
  from ok show ?thesis unfolding refused(1) by (simp add: trade_ok_def offers_ok_def)
next
  case (first q)
  with accepting_ok [OF ok] show ?thesis by simp
next
  case (vetoed q)
  with close_ok [OF accepting_ok [OF ok]] show ?thesis by simp
next
  case (both q)
  with finish_ok [OF ok] show ?thesis by simp
qed

section \<open>Runs\<close>

lemma not_traded: "already_traded st x ys = Some False \<Longrightarrow> x \<notin> set ys"
proof (induction ys)
  case (Cons y ys)
  then show ?case by (auto split: Option.bind_splits if_splits)
qed simp

text \<open>What can happen to the trades of the server, with every answer of the rest of the game.  A
  request comes from a player who names another, as \<open>playerRequestTrade\<close> makes sure; the sale of a
  house offers a fresh item.\<close>

inductive trade_step :: "Trades \<Rightarrow> Trades \<Rightarrow> bool" where
  request: "trade_step s s'"
    if "p \<noteq> q" "set keys = dom (offers s)" "request_trade st keys script p q i s = Some s'"
| sale: "trade_step s (snd (internalStartTrade p q i s))" if "p \<noteq> q" "offers s i = None"
| accept: "trade_step s s'" if "playerAcceptTrade e p s = Some s'"
| close: "trade_step s (internalCloseTrade p s)"
| touch: "trade_step s (checkTradeState p i around s)"
| remove: "trade_step s (on_remove_item p i around contents s)"
| walk: "trade_step s (after_move p item_near partner_near s)"

definition no_trades :: Trades where
  "no_trades = \<lparr>trader = \<lambda>_. idle, offers = Map.empty, held = \<lambda>_. 0, trade_log = []\<rparr>"

lemma no_trades_ok: "trade_ok no_trades"
  by (auto simp: trade_ok_def no_trades_def offers_ok_def intro!: partners_okI)

lemma request_cases:
  assumes "request_trade st keys script p q i s = Some s'" and "set keys = dom (offers s)"
  shows "s' = s \<or> offers s i = None \<and> s' = snd (internalStartTrade p q i s)"
proof -
  from assms(1) obtain t where t: "already_traded st i keys = Some t" by (auto simp: request_trade_def split: Option.bind_splits)
  show ?thesis
  proof (cases t)
    case True
    with assms(1) t show ?thesis by (simp add: request_trade_def)
  next
    case False
    with t not_traded [of st i keys] assms(2) have "offers s i = None" by (simp add: domIff)
    with assms(1) t False show ?thesis by (auto simp: request_trade_def split: Option.bind_splits if_splits)
  qed
qed

text \<open>What the callbacks do is to close or to do nothing.\<close>

lemma touch_cases: "checkTradeState p i around s = s \<or> checkTradeState p i around s = internalCloseTrade p s"
  by (simp add: checkTradeState_def Let_def)

inductive closes :: "Trades \<Rightarrow> Trades \<Rightarrow> bool" where
  nothing: "closes s s"
| again: "closes s (internalCloseTrade p t)" if "closes s t"

lemma closes_touch: "closes s t \<Longrightarrow> closes s (checkTradeState p i around t)"
  using touch_cases [of p i around t] by (auto intro: closes.again)

lemma closes_remove: "closes s (on_remove_item p i around contents s)"
proof -
  have "closes s (checkTradeState p i around s)" by (intro closes_touch closes.nothing)
  then show ?thesis by (simp add: on_remove_item_def Let_def closes.intros)
qed

lemma closes_walk: "closes s (after_move p item_near partner_near s)"
  by (auto simp: after_move_def Let_def intro: closes.intros)

lemma closes_ok: "closes s t \<Longrightarrow> trade_ok s \<Longrightarrow> trade_ok t"
  by (induction rule: closes.induct) (auto intro: close_ok)

lemma step_cases:
  assumes "trade_step s s'"
  obtains (same) "s' = s"
  | (start) p q i where "p \<noteq> q" "offers s i = None" "s' = snd (internalStartTrade p q i s)"
  | (accept) e p where "playerAcceptTrade e p s = Some s'"
  | (closes) "closes s s'"
  using assms
proof cases
  case (request p q keys st script i)
  with request_cases [OF request(3,2)] request(1) same start show ?thesis by blast
next
  case (close p)
  have "closes s s'" unfolding close by (intro closes.intros)
  then show ?thesis by (rule closes)
next
  case (touch p i around)
  have "closes s s'" unfolding touch by (intro closes_touch closes.intros)
  then show ?thesis by (rule closes)
qed (use start accept closes closes_remove closes_walk in blast)+

lemma step_ok:
  assumes "trade_step s s'" and "trade_ok s"
  shows "trade_ok s'"
  using assms(1)
proof (cases rule: step_cases)
  case (start p q i)
  with trade_start_ok [OF assms(2)] show ?thesis by simp
next
  case (accept e p)
  with accept_ok [OF assms(2)] show ?thesis by simp
qed (use assms(2) closes_ok in auto)

lemma trade_run_ok: "trade_step\<^sup>*\<^sup>* no_trades s \<Longrightarrow> trade_ok s"
  by (induction rule: rtranclp_induct) (auto intro: step_ok no_trades_ok)

section \<open>What moves\<close>

definition moves :: "trade_event list \<Rightarrow> trade_event list" where
  "moves = filter (\<lambda>e. case e of MoveItem _ _ \<Rightarrow> True | _ \<Rightarrow> False)"

lemma moves_simps [simp]:
  "moves [] = []" "moves (es @ fs) = moves es @ moves fs" "moves (MoveItem i p # es) = MoveItem i p # moves es"
  "moves (TradeCancelled p # es) = moves es" "moves (TradeClose p # es) = moves es" "moves (OnTradeCancel i p # es) = moves es"
  "moves (CancelMessage p r # es) = moves es" "moves (WantsToTrade p q # es) = moves es"
  "moves (TradeItemRequest p q i b # es) = moves es" "moves (TradeError p r # es) = moves es"
  "moves (OnTradeTransfer i p # es) = moves es"
  by (simp_all add: moves_def)

lemma release_log [simp]: "trade_log (release i s) = trade_log s" by simp

lemma close_side_moves: "moves (trade_log (close_side p s)) = moves (trade_log s)"
  by (cases "tradeItem (trader s p)") (simp_all add: close_side_def Let_def)

lemma close_moves: "moves (trade_log (internalCloseTrade p s)) = moves (trade_log s)"
  by (simp add: internalCloseTrade_def close_side_moves Let_def split: option.split)

lemma closes_moves: "closes s t \<Longrightarrow> moves (trade_log t) = moves (trade_log s)"
  by (induction rule: closes.induct) (simp_all add: close_moves)

lemma start_moves: "moves (trade_log (snd (internalStartTrade p q i s))) = moves (trade_log s)"
  by (simp add: internalStartTrade_def Let_def split: option.split)

lemma trade_failed_moves: "moves (trade_failed p i r) = []"
  by (simp add: trade_failed_def split: option.split)

definition tests_passed :: "Answers \<Rightarrow> bool" where
  "tests_passed e \<longleftrightarrow> test_add1 e = RETURNVALUE_NOERROR \<and> test_add2 e = RETURNVALUE_NOERROR \<and>
     test_remove1 e = RETURNVALUE_NOERROR \<and> test_remove2 e = RETURNVALUE_NOERROR \<and> move1 e = RETURNVALUE_NOERROR"

definition all_agreed :: "Answers \<Rightarrow> bool" where
  "all_agreed e \<longleftrightarrow> onTradeAccept e \<noteq> Some False \<and> reachable e \<and> tests_passed e"

lemma exchange_moves:
  assumes "exchange e p q i1 i2 = (ok, r1, r2, es)"
  shows "ok \<Longrightarrow> \<exists>x y. i1 = Some x \<and> i2 = Some y \<and>
      moves es = [MoveItem x q] @ (if move2 e = RETURNVALUE_NOERROR then [MoveItem y p] else []) \<and> tests_passed e"
  using assms by (cases i1; cases i2) (auto simp: exchange_def tests_passed_def test_add_def Let_def split: if_splits)

lemma finish_moves:
  assumes "p \<noteq> q" and "moves (trade_log (finish e p q s)) \<noteq> moves (trade_log s)"
  shows "\<exists>x y. tradeItem (trader s p) = Some x \<and> tradeItem (trader s q) = Some y \<and>
    moves (trade_log (finish e p q s)) =
      moves (trade_log s) @ [MoveItem x q] @ (if move2 e = RETURNVALUE_NOERROR then [MoveItem y p] else []) \<and> tests_passed e"
proof -
  obtain ok r1 r2 es where x: "exchange e p q (tradeItem (trader s p)) (tradeItem (trader s q)) = (ok, r1, r2, es)"
    using prod_cases4 by blast
  have log: "moves (trade_log (finish e p q s)) = moves (trade_log s) @ (if ok then moves es else [])"
    by (simp add: finish_simps(4) [OF assms(1)] final_log_def x trade_failed_moves)
  with assms(2) have "ok" by (simp split: if_splits)
  with exchange_moves [OF x] log show ?thesis by auto
qed

section \<open>The properties\<close>

text \<open>C18: whatever the players and the scripts do, trades stay consistent: partners point at each
  other and at nobody else, a player without a partner is in no trade, the offered items are
  exactly those registered, each under the name of its owner and held by one reference, and the
  transfer state is never seen between two operations.\<close>

theorem trades_consistent:
  assumes "trade_step\<^sup>*\<^sup>* no_trades s"
  shows "(\<forall>p. tradeState (trader s p) \<noteq> TRADE_TRANSFER \<and>
      (tradeState (trader s p) = TRADE_NONE \<longleftrightarrow> tradePartner (trader s p) = None)) \<and>
    (\<forall>p q. tradePartner (trader s p) = Some q \<longrightarrow> p \<noteq> q \<and> tradePartner (trader s q) = Some p) \<and>
    (\<forall>p i. tradeItem (trader s p) = Some i \<longleftrightarrow> offers s i = Some p) \<and>
    (\<forall>i. held s i = (if offers s i = None then 0 else 1))"
proof -
  note ok = trade_run_ok [OF assms]
  note P = trade_okD(1) [OF ok] and O = trade_okD(2) [OF ok]
  have 1: "tradeState (trader s p) \<noteq> TRADE_TRANSFER \<and> (tradeState (trader s p) = TRADE_NONE \<longleftrightarrow> tradePartner (trader s p) = None)" for p
    using no_transfer [OF ok] side_none [OF partners_okD(1) [OF P, of p]] by blast
  have 2: "p \<noteq> q \<and> tradePartner (trader s q) = Some p" if "tradePartner (trader s p) = Some q" for p q
    using partners_okD(2) [OF P, of p] partners_okD(3) [OF P, of p q] that by (auto simp: faces_def)
  from 1 2 offers_okD [OF O] show ?thesis by blast
qed

text \<open>C17: an item changes hands in a trade only when the two partners have both accepted and have both
  offered an item, no script has refused, and every test and the first move have passed; then the item of the
  one who accepted last is the other's, and the other's item is his if and only if the second move succeeds, which
  nobody looks at.  Either way both players are free again, both items are released, and no other trade is touched.\<close>

theorem items_change_hands_by_agreement:
  assumes "trade_step\<^sup>*\<^sup>* no_trades s" and "trade_step s s'" and "moves (trade_log s') \<noteq> moves (trade_log s)"
  shows "\<exists>e p q x y. playerAcceptTrade e p s = Some s' \<and> all_agreed e \<and> tradePartner (trader s p) = Some q \<and> tradePartner (trader s q) = Some p \<and>
    tradeState (trader s q) = TRADE_ACCEPT \<and> tradeState (trader s p) \<in> {TRADE_INITIATED, TRADE_ACKNOWLEDGE} \<and>
    tradeItem (trader s p) = Some x \<and> tradeItem (trader s q) = Some y \<and> x \<noteq> y \<and>
    moves (trade_log s') =
      moves (trade_log s) @ [MoveItem x q] @ (if move2 e = RETURNVALUE_NOERROR then [MoveItem y p] else []) \<and>
    trader s' = (trader s)(p := idle, q := idle) \<and> offers s' = (offers s)(x := None, y := None)"
proof -
  note ok = trade_run_ok [OF assms(1)]
  note P = trade_okD(1) [OF ok] and O = trade_okD(2) [OF ok]
  obtain e p where acc: "playerAcceptTrade e p s = Some s'"
    using assms(2) by (cases rule: step_cases) (use assms(3) start_moves closes_moves in auto)
  from acc ok obtain q where m: "may_accept p q s" and q: "tradeState (trader s q) = TRADE_ACCEPT" and s': "s' = finish e p q s"
    by (cases rule: accept_cases) (use assms(3) close_moves in auto)
  note ne = not_self [OF ok m]
  have pq: "faces (trader s p) q" using m by (simp add: may_accept_def)
  have qp: "faces (trader s q) p" by (rule partners_okD(3) [OF P pq])
  from finish_moves [OF ne assms(3) [unfolded s']] obtain x y where
    xy: "tradeItem (trader s p) = Some x" "tradeItem (trader s q) = Some y" and
    log: "moves (trade_log s') =
      moves (trade_log s) @ [MoveItem x q] @ (if move2 e = RETURNVALUE_NOERROR then [MoveItem y p] else [])"
    and tests: "tests_passed e" unfolding s' by blast
  have agreed: "all_agreed e"
    using tests acc pq q m assms(3) close_moves
    by (auto simp: all_agreed_def playerAcceptTrade_def may_accept_def faces_def setTradeState_def Let_def split: if_splits)
  have "x \<noteq> y" using offers_okD(1) [OF O, of p x] offers_okD(1) [OF O, of q y] xy ne by auto
  moreover have "offers s' = (offers s)(x := None, y := None)"
    unfolding s' finish_simps(2) [OF ne] using xy ne by simp
  ultimately show ?thesis
    using m q pq qp xy log finish_simps(1) [OF ne, of e s, folded s']
      acc agreed
    by (intro exI [of _ e] exI [of _ p] exI [of _ q] exI [of _ x] exI [of _ y]) (simp add: may_accept_def faces_def disj_commute)
qed

section \<open>A trade\<close>

definition swords :: store where
  "swords = (\<lambda>_. Some \<lparr>kind = Plain, item = \<lparr>item_id = 2376, item_count = 1, item_attrs = None\<rparr>, parent = None, maxSize = 0,
     totalWeight = 0, itemlist = [], unlocked = False, maxDepotItems = 0\<rparr>)"

definition all_well :: Answers where
  "all_well = \<lparr>reachable = True, onTradeAccept = Some True, test_add1 = RETURNVALUE_NOERROR, test_add2 = RETURNVALUE_NOERROR,
     test_remove1 = RETURNVALUE_NOERROR, test_remove2 = RETURNVALUE_NOERROR, move1 = RETURNVALUE_NOERROR, move2 = RETURNVALUE_NOERROR\<rparr>"

definition asking :: Trades where "asking = the (request_trade swords [] True 1 2 10 no_trades)"
definition both_offer :: Trades where "both_offer = the (request_trade swords [10] True 2 1 11 asking)"
definition one_agrees :: Trades where "one_agrees = the (playerAcceptTrade all_well 1 both_offer)"
definition swapped :: Trades where "swapped = the (playerAcceptTrade all_well 2 one_agrees)"

lemmas deal_defs = request_trade_def swords_def is_container_def internalStartTrade_def no_trades_def upd_trader_def
  tell_def idle_def playerAcceptTrade_def setTradeState_def all_well_def

lemma asking_eq: "request_trade swords [] True 1 2 10 no_trades = Some asking"
  "asking = no_trades\<lparr>trader := (\<lambda>_. idle)(1 := offering 2 10, 2 := idle\<lparr>tradeState := TRADE_ACKNOWLEDGE, tradePartner := Some 1\<rparr>),
     offers := [10 \<mapsto> 1], held := (\<lambda>_. 0)(10 := 1), trade_log := [TradeItemRequest 1 1 10 True, WantsToTrade 1 2]\<rparr>"
  by (simp_all add: asking_def deal_defs offering_def fun_upd_twist)

lemma both_offer_eq: "request_trade swords [10] True 2 1 11 asking = Some both_offer"
  "both_offer = no_trades\<lparr>trader := (\<lambda>_. idle)(1 := offering 2 10, 2 := offering 1 11),
     offers := [10 \<mapsto> 1, 11 \<mapsto> 2], held := (\<lambda>_. 0)(10 := 1, 11 := 1), trade_log := [TradeItemRequest 1 1 10 True, WantsToTrade 1 2,
       TradeItemRequest 2 2 11 True, TradeItemRequest 2 1 10 False, TradeItemRequest 1 2 11 False]\<rparr>"
  by (simp_all add: both_offer_def asking_eq(2) deal_defs offering_def fun_upd_twist)

lemma one_agrees_eq: "playerAcceptTrade all_well 1 both_offer = Some one_agrees"
  "one_agrees = both_offer\<lparr>trader := (\<lambda>_. idle)(1 := (offering 2 10)\<lparr>tradeState := TRADE_ACCEPT\<rparr>, 2 := offering 1 11)\<rparr>"
  by (simp_all add: one_agrees_def both_offer_eq(2) deal_defs offering_def fun_upd_twist)

lemma deal_reach: "trade_step\<^sup>*\<^sup>* no_trades one_agrees"
proof -
  have "trade_step no_trades asking" by (rule trade_step.request [OF _ _ asking_eq(1)]) (simp_all add: no_trades_def)
  moreover have "trade_step asking both_offer"
    by (rule trade_step.request [OF _ _ both_offer_eq(1)]) (simp_all add: asking_eq(2))
  moreover have "trade_step both_offer one_agrees" by (rule trade_step.accept [OF one_agrees_eq(1)])
  ultimately show ?thesis by (meson converse_rtranclp_into_rtranclp rtranclp.rtrancl_refl)
qed

lemma trades_consistent_witness:
  "offers one_agrees 10 = Some 1 \<and> held one_agrees 10 = 1 \<and> tradePartner (trader one_agrees 2) = Some 1"
proof -
  have "tradePartner (trader one_agrees 1) = Some 2" "tradeItem (trader one_agrees 1) = Some 10"
    by (simp_all add: one_agrees_eq(2) offering_def)
  with trades_consistent [OF deal_reach] have "offers one_agrees 10 = Some 1" "tradePartner (trader one_agrees 2) = Some 1"
    by blast+
  moreover from this(1) trades_consistent [OF deal_reach] have "held one_agrees 10 = 1" by (metis option.distinct(1))
  ultimately show ?thesis by blast
qed

lemma swapped_eq: "playerAcceptTrade all_well 2 one_agrees = Some swapped"
  "moves (trade_log swapped) = [MoveItem 11 1, MoveItem 10 2]" "moves (trade_log one_agrees) = []"
  by (simp_all add: swapped_def one_agrees_eq(2) both_offer_eq(2) deal_defs offering_def release_def exchange_def test_add_def end_side_def)

lemma items_change_hands_by_agreement_witness:
  "\<exists>e p q x y. playerAcceptTrade e p one_agrees = Some swapped \<and> all_agreed e \<and>
     [MoveItem 11 1, MoveItem 10 2] = [MoveItem x q] @ (if move2 e = RETURNVALUE_NOERROR then [MoveItem y p] else [])"
proof -
  have st: "trade_step one_agrees swapped" by (rule trade_step.accept [OF swapped_eq(1)])
  have "moves (trade_log swapped) \<noteq> moves (trade_log one_agrees)" unfolding swapped_eq(2,3) by simp
  from items_change_hands_by_agreement [OF deal_reach st this] show ?thesis
    unfolding swapped_eq(2,3) by (simp only: append_Nil) blast
qed

text \<open>When the second move fails, one player has both items.\<close>

lemma second_move_may_fail:
  "\<exists>s. playerAcceptTrade (all_well\<lparr>move2 := RETURNVALUE_NOTENOUGHROOM\<rparr>) 2 one_agrees = Some s \<and>
     moves (trade_log s) = [MoveItem 11 1] \<and> trader s 1 = idle \<and> trader s 2 = idle"
  by (simp add: one_agrees_eq(2) both_offer_eq(2) deal_defs offering_def release_def exchange_def test_add_def end_side_def)

text \<open>Nothing keeps a player who was only asked from accepting at once.  When the other one accepts too,
  the script hook is handed an item that is not there.\<close>

lemma accept_without_offer:
  "\<exists>s. trade_step\<^sup>*\<^sup>* no_trades s \<and> playerAcceptTrade all_well 1 s = None"
proof -
  let ?s = "setTradeState TRADE_ACCEPT 2 asking"
  have a: "playerAcceptTrade all_well 2 asking = Some ?s"
    by (simp add: asking_eq(2) deal_defs offering_def)
  have "trade_step no_trades asking" by (rule trade_step.request [OF _ _ asking_eq(1)]) (simp_all add: no_trades_def)
  moreover have "trade_step asking ?s" by (rule trade_step.accept [OF a])
  ultimately have "trade_step\<^sup>*\<^sup>* no_trades ?s" by (meson converse_rtranclp_into_rtranclp rtranclp.rtrancl_refl)
  moreover have "playerAcceptTrade all_well 1 ?s = None"
    by (simp add: asking_eq(2) deal_defs offering_def)
  ultimately show ?thesis by blast
qed

end
