(* ===== verification/Tile.thy ===== *)
theory Tile
  imports Container
begin

text \<open>
  Tiles: tile.h and tile.cpp.  A tile has a ground, a vector of items of which the first
  \<open>downItemCount\<close> are the ordinary ones with the newest in front and the rest are those always on
  top, a vector of creatures, and a word of flags that summarises what lies on it.  A tile
  without a vector is a tile with an empty one.  Which spectators there are, what they see, and
  the creatures' own properties are arguments.
\<close>

section \<open>Flags\<close>

definition TILESTATE_FLOORCHANGE_DOWN :: u32 where "TILESTATE_FLOORCHANGE_DOWN = push_bit 0 1"
definition TILESTATE_FLOORCHANGE_NORTH :: u32 where "TILESTATE_FLOORCHANGE_NORTH = push_bit 1 1"
definition TILESTATE_FLOORCHANGE_SOUTH :: u32 where "TILESTATE_FLOORCHANGE_SOUTH = push_bit 2 1"
definition TILESTATE_FLOORCHANGE_EAST :: u32 where "TILESTATE_FLOORCHANGE_EAST = push_bit 3 1"
definition TILESTATE_FLOORCHANGE_WEST :: u32 where "TILESTATE_FLOORCHANGE_WEST = push_bit 4 1"
definition TILESTATE_FLOORCHANGE_SOUTH_ALT :: u32 where "TILESTATE_FLOORCHANGE_SOUTH_ALT = push_bit 5 1"
definition TILESTATE_FLOORCHANGE_EAST_ALT :: u32 where "TILESTATE_FLOORCHANGE_EAST_ALT = push_bit 6 1"
definition TILESTATE_PROTECTIONZONE :: u32 where "TILESTATE_PROTECTIONZONE = push_bit 7 1"
definition TILESTATE_NOPVPZONE :: u32 where "TILESTATE_NOPVPZONE = push_bit 8 1"
definition TILESTATE_NOLOGOUT :: u32 where "TILESTATE_NOLOGOUT = push_bit 9 1"
definition TILESTATE_PVPZONE :: u32 where "TILESTATE_PVPZONE = push_bit 10 1"
definition TILESTATE_TELEPORT :: u32 where "TILESTATE_TELEPORT = push_bit 11 1"
definition TILESTATE_MAGICFIELD :: u32 where "TILESTATE_MAGICFIELD = push_bit 12 1"
definition TILESTATE_MAILBOX :: u32 where "TILESTATE_MAILBOX = push_bit 13 1"
definition TILESTATE_TRASHHOLDER :: u32 where "TILESTATE_TRASHHOLDER = push_bit 14 1"
definition TILESTATE_BED :: u32 where "TILESTATE_BED = push_bit 15 1"
definition TILESTATE_DEPOT :: u32 where "TILESTATE_DEPOT = push_bit 16 1"
definition TILESTATE_BLOCKSOLID :: u32 where "TILESTATE_BLOCKSOLID = push_bit 17 1"
definition TILESTATE_BLOCKPATH :: u32 where "TILESTATE_BLOCKPATH = push_bit 18 1"
definition TILESTATE_IMMOVABLEBLOCKSOLID :: u32 where "TILESTATE_IMMOVABLEBLOCKSOLID = push_bit 19 1"
definition TILESTATE_IMMOVABLEBLOCKPATH :: u32 where "TILESTATE_IMMOVABLEBLOCKPATH = push_bit 20 1"
definition TILESTATE_IMMOVABLENOFIELDBLOCKPATH :: u32 where "TILESTATE_IMMOVABLENOFIELDBLOCKPATH = push_bit 21 1"
definition TILESTATE_NOFIELDBLOCKPATH :: u32 where "TILESTATE_NOFIELDBLOCKPATH = push_bit 22 1"
definition TILESTATE_SUPPORTS_HANGABLE :: u32 where "TILESTATE_SUPPORTS_HANGABLE = push_bit 23 1"

definition TILESTATE_FLOORCHANGE :: u32 where
  "TILESTATE_FLOORCHANGE = TILESTATE_FLOORCHANGE_DOWN OR TILESTATE_FLOORCHANGE_NORTH OR TILESTATE_FLOORCHANGE_SOUTH OR
     TILESTATE_FLOORCHANGE_EAST OR TILESTATE_FLOORCHANGE_WEST OR TILESTATE_FLOORCHANGE_SOUTH_ALT OR TILESTATE_FLOORCHANGE_EAST_ALT"

section \<open>State\<close>

record TileType = ItemType +
  isMagicField :: bool
  isBed :: bool
  floorChange :: u8
  alwaysOnTopOrder :: u8
  forceUse :: bool
  hasHeight :: bool
  blockSolid :: bool
  blockProjectile :: bool
  blockPathFind :: bool
  allowPickupable :: bool
  replaceable :: bool
  alwaysOnTop :: bool
  isVertical :: bool
  isHorizontal :: bool
  isHangable :: bool
  lookThrough :: bool
  isGroundTile :: bool

datatype ITEMPROPERTY =
    CONST_PROP_BLOCKSOLID | CONST_PROP_HASHEIGHT | CONST_PROP_BLOCKPROJECTILE | CONST_PROP_BLOCKPATH | CONST_PROP_ISVERTICAL
  | CONST_PROP_ISHORIZONTAL | CONST_PROP_MOVEABLE | CONST_PROP_IMMOVABLEBLOCKSOLID | CONST_PROP_IMMOVABLEBLOCKPATH
  | CONST_PROP_IMMOVABLENOFIELDBLOCKPATH | CONST_PROP_NOFIELDBLOCKPATH | CONST_PROP_SUPPORTHANGABLE

text \<open>The classes of items a tile tells apart, and what it is given.\<close>

datatype item_class = OtherItem | TeleportItem | MagicFieldItem | MailboxItem | TrashHolderItem | BedItemClass | DepotLockerItem

datatype Thing = AnItem addr | ACreature addr

datatype tile_event =
    SendAddTileItem addr int addr
  | SendUpdateTileItem addr int addr
  | SendRemoveTileThing addr int

text \<open>The item types, the classes of the objects, the players who watch, and whom each can see.  \<open>keepsOrder\<close> says of
  the runs considered whether an item on top only ever becomes one of the same order.\<close>

record Surroundings =
  types :: "u16 \<Rightarrow> TileType"
  class_of :: "addr \<Rightarrow> item_class"
  watchers :: "addr list"
  canSeeCreature :: "addr \<Rightarrow> addr \<Rightarrow> bool"
  keepsOrder :: bool

text \<open>\<open>obj\<close> are the items by address, \<open>parented\<close> the things whose parent is this tile.\<close>

record Tile =
  ground :: "addr option"
  tile_items :: "addr list"
  downItemCount :: u16
  tile_creatures :: "addr list"
  tile_flags :: u32
  obj :: "addr \<Rightarrow> Item"
  parented :: "Thing set"
  tile_sent :: "tile_event list"

definition hasFlag :: "u32 \<Rightarrow> Tile \<Rightarrow> bool" where "hasFlag flag t = hasBitSet flag (tile_flags t)"
definition setFlag :: "u32 \<Rightarrow> Tile \<Rightarrow> Tile" where "setFlag flag t = t\<lparr>tile_flags := tile_flags t OR flag\<rparr>"
definition resetFlag :: "u32 \<Rightarrow> Tile \<Rightarrow> Tile" where "resetFlag flag t = t\<lparr>tile_flags := tile_flags t AND NOT flag\<rparr>"

definition type_of :: "Surroundings \<Rightarrow> Tile \<Rightarrow> addr \<Rightarrow> TileType" where
  "type_of e t x = types e (item_id (obj t x))"

definition downItems :: "Tile \<Rightarrow> addr list" where "downItems t = take (unat (downItemCount t)) (tile_items t)"
definition topItems :: "Tile \<Rightarrow> addr list" where "topItems t = drop (unat (downItemCount t)) (tile_items t)"

text \<open>\<open>Item::hasProperty\<close>.\<close>

definition type_hasProperty :: "ITEMPROPERTY \<Rightarrow> TileType \<Rightarrow> bool \<Rightarrow> bool" where
  "type_hasProperty prop it unique =
     (case prop of
        CONST_PROP_BLOCKSOLID \<Rightarrow> blockSolid it
      | CONST_PROP_MOVEABLE \<Rightarrow> moveable it \<and> \<not> unique
      | CONST_PROP_HASHEIGHT \<Rightarrow> hasHeight it
      | CONST_PROP_BLOCKPROJECTILE \<Rightarrow> blockProjectile it
      | CONST_PROP_BLOCKPATH \<Rightarrow> blockPathFind it
      | CONST_PROP_ISVERTICAL \<Rightarrow> isVertical it
      | CONST_PROP_ISHORIZONTAL \<Rightarrow> isHorizontal it
      | CONST_PROP_IMMOVABLEBLOCKSOLID \<Rightarrow> blockSolid it \<and> (\<not> moveable it \<or> unique)
      | CONST_PROP_IMMOVABLEBLOCKPATH \<Rightarrow> blockPathFind it \<and> (\<not> moveable it \<or> unique)
      | CONST_PROP_IMMOVABLENOFIELDBLOCKPATH \<Rightarrow> \<not> isMagicField it \<and> blockPathFind it \<and> (\<not> moveable it \<or> unique)
      | CONST_PROP_NOFIELDBLOCKPATH \<Rightarrow> \<not> isMagicField it \<and> blockPathFind it
      | CONST_PROP_SUPPORTHANGABLE \<Rightarrow> isHorizontal it \<or> isVertical it)"

definition item_hasProperty :: "Surroundings \<Rightarrow> Tile \<Rightarrow> addr \<Rightarrow> ITEMPROPERTY \<Rightarrow> bool" where
  "item_hasProperty e t x prop =
     type_hasProperty prop (type_of e t x) (item_hasAttribute ITEM_ATTRIBUTE_UNIQUEID (obj t x))"

text \<open>The two \<open>Tile::hasProperty\<close>; \<open>all_items\<close> is the order in which the code goes through the items.\<close>

definition all_items :: "Tile \<Rightarrow> addr list" where
  "all_items t = (case ground t of None \<Rightarrow> [] | Some g \<Rightarrow> [g]) @ tile_items t"

definition tile_hasProperty :: "Surroundings \<Rightarrow> Tile \<Rightarrow> ITEMPROPERTY \<Rightarrow> bool" where
  "tile_hasProperty e t prop = list_ex (\<lambda>x. item_hasProperty e t x prop) (all_items t)"

definition tile_hasProperty_but :: "Surroundings \<Rightarrow> Tile \<Rightarrow> addr \<Rightarrow> ITEMPROPERTY \<Rightarrow> bool" where
  "tile_hasProperty_but e t exclude prop = list_ex (\<lambda>x. x \<noteq> exclude \<and> item_hasProperty e t x prop) (all_items t)"

section \<open>Keeping the flags\<close>

definition flag_if :: "bool \<Rightarrow> u32 \<Rightarrow> Tile \<Rightarrow> Tile" where "flag_if b flag t = (if b then setFlag flag t else t)"
definition unflag_if :: "bool \<Rightarrow> u32 \<Rightarrow> Tile \<Rightarrow> Tile" where "unflag_if b flag t = (if b then resetFlag flag t else t)"

definition setTileFlags :: "Surroundings \<Rightarrow> addr \<Rightarrow> Tile \<Rightarrow> Tile" where
  "setTileFlags e x t =
     (let has = item_hasProperty e t x; c = class_of e x; fc = floorChange (type_of e t x) in
      flag_if (has CONST_PROP_SUPPORTHANGABLE) TILESTATE_SUPPORTS_HANGABLE (
      flag_if (c = DepotLockerItem) TILESTATE_DEPOT (
      flag_if (c = BedItemClass) TILESTATE_BED (
      flag_if (has CONST_PROP_BLOCKSOLID) TILESTATE_BLOCKSOLID (
      flag_if (c = TrashHolderItem) TILESTATE_TRASHHOLDER (
      flag_if (c = MailboxItem) TILESTATE_MAILBOX (
      flag_if (c = MagicFieldItem) TILESTATE_MAGICFIELD (
      flag_if (c = TeleportItem) TILESTATE_TELEPORT (
      flag_if (has CONST_PROP_IMMOVABLENOFIELDBLOCKPATH) TILESTATE_IMMOVABLENOFIELDBLOCKPATH (
      flag_if (has CONST_PROP_NOFIELDBLOCKPATH) TILESTATE_NOFIELDBLOCKPATH (
      flag_if (has CONST_PROP_BLOCKPATH) TILESTATE_BLOCKPATH (
      flag_if (has CONST_PROP_IMMOVABLEBLOCKSOLID) TILESTATE_IMMOVABLEBLOCKSOLID (
      flag_if (\<not> hasFlag TILESTATE_FLOORCHANGE t \<and> fc \<noteq> 0) (ucast fc) t)))))))))))))"

definition resetTileFlags :: "Surroundings \<Rightarrow> addr \<Rightarrow> Tile \<Rightarrow> Tile" where
  "resetTileFlags e x t =
     (let has = item_hasProperty e t x; c = class_of e x;
          gone = (\<lambda>prop. has prop \<and> \<not> tile_hasProperty_but e t x prop) in
      unflag_if (has CONST_PROP_SUPPORTHANGABLE) TILESTATE_SUPPORTS_HANGABLE (
      unflag_if (c = DepotLockerItem) TILESTATE_DEPOT (
      unflag_if (c = BedItemClass) TILESTATE_BED (
      unflag_if (c = TrashHolderItem) TILESTATE_TRASHHOLDER (
      unflag_if (c = MailboxItem) TILESTATE_MAILBOX (
      unflag_if (c = MagicFieldItem) TILESTATE_MAGICFIELD (
      unflag_if (c = TeleportItem) TILESTATE_TELEPORT (
      unflag_if (gone CONST_PROP_IMMOVABLENOFIELDBLOCKPATH) TILESTATE_IMMOVABLENOFIELDBLOCKPATH (
      unflag_if (gone CONST_PROP_IMMOVABLEBLOCKPATH) TILESTATE_IMMOVABLEBLOCKPATH (
      unflag_if (gone CONST_PROP_NOFIELDBLOCKPATH) TILESTATE_NOFIELDBLOCKPATH (
      unflag_if (gone CONST_PROP_BLOCKPATH) TILESTATE_BLOCKPATH (
      unflag_if (gone CONST_PROP_IMMOVABLEBLOCKSOLID) TILESTATE_IMMOVABLEBLOCKSOLID (
      unflag_if (gone CONST_PROP_BLOCKSOLID) TILESTATE_BLOCKSOLID (
      unflag_if (floorChange (type_of e t x) \<noteq> 0) TILESTATE_FLOORCHANGE t))))))))))))))"

section \<open>Where things are\<close>

text \<open>The loops that count on until they find their item; the bound is the ten things a client is
  shown.\<close>

fun find_from :: "int \<Rightarrow> addr \<Rightarrow> addr list \<Rightarrow> int + int" where
  "find_from n x [] = Inl n"
| "find_from n x (y # ys) = (if y = x then Inr (n + 1) else find_from (n + 1) x ys)"

definition tile_getThingIndex :: "Surroundings \<Rightarrow> Tile \<Rightarrow> Thing \<Rightarrow> int" where
  "tile_getThingIndex e t thing =
     (let g = (case thing of AnItem x \<Rightarrow> ground t = Some x | ACreature _ \<Rightarrow> False);
          n0 = (if ground t = None then -1 else 0) in
      if g then 0
      else
        let tops = (case thing of
                      AnItem x \<Rightarrow> if alwaysOnTop (type_of e t x) then find_from n0 x (topItems t) else Inl (n0 + int (length (topItems t)))
                    | ACreature _ \<Rightarrow> Inl (n0 + int (length (topItems t))))
        in case tops of
             Inr n \<Rightarrow> n
           | Inl n1 \<Rightarrow>
               let crs = (case thing of
                            ACreature c \<Rightarrow> find_from n1 c (tile_creatures t)
                          | AnItem _ \<Rightarrow> Inl (n1 + int (length (tile_creatures t))))
               in case crs of
                    Inr n \<Rightarrow> n
                  | Inl n2 \<Rightarrow>
                      (case thing of
                         AnItem x \<Rightarrow>
                           if \<not> alwaysOnTop (type_of e t x)
                           then (case find_from n2 x (downItems t) of Inr n \<Rightarrow> n | Inl _ \<Rightarrow> -1) else -1
                       | ACreature _ \<Rightarrow> -1))"

definition tile_getThing :: "Tile \<Rightarrow> nat \<Rightarrow> Thing option" where
  "tile_getThing t index =
     (if index = 0 \<and> ground t \<noteq> None then map_option AnItem (ground t)
      else
        let i1 = (if ground t = None then index else index - 1) in
        if i1 < length (topItems t) then Some (AnItem (tile_items t ! (unat (downItemCount t) + i1)))
        else
          let i2 = i1 - length (topItems t) in
          if i2 < length (tile_creatures t) then Some (ACreature (tile_creatures t ! i2))
          else
            let i3 = i2 - length (tile_creatures t) in
            if i3 < unat (downItemCount t) then Some (AnItem (tile_items t ! i3)) else None)"

fun stack_top :: "int \<Rightarrow> addr \<Rightarrow> addr list \<Rightarrow> int + int" where
  "stack_top n x [] = Inl n"
| "stack_top n x (y # ys) = (if y = x then Inr n else if n + 1 = 10 then Inr (-1) else stack_top (n + 1) x ys)"

fun skip_seen :: "(addr \<Rightarrow> bool) \<Rightarrow> int \<Rightarrow> addr list \<Rightarrow> int option" where
  "skip_seen sees n [] = Some n"
| "skip_seen sees n (c # cs) =
     (if sees c then if n + 1 \<ge> 10 then None else skip_seen sees (n + 1) cs else skip_seen sees n cs)"

fun stack_down :: "int \<Rightarrow> addr \<Rightarrow> addr list \<Rightarrow> int" where
  "stack_down n x [] = -1"
| "stack_down n x (y # ys) = (if y = x then n else if n + 1 \<ge> 10 then -1 else stack_down (n + 1) x ys)"

definition getStackposOfItem :: "Surroundings \<Rightarrow> Tile \<Rightarrow> addr \<Rightarrow> addr \<Rightarrow> int" where
  "getStackposOfItem e t p x =
     (if ground t = Some x then 0
      else
        let n0 = (if ground t = None then 0 else 1); onTop = alwaysOnTop (type_of e t x);
            tops = (if onTop then stack_top n0 x (topItems t)
                    else let n = n0 + int (length (topItems t)) in if n \<ge> 10 then Inr (-1) else Inl n)
        in case tops of
             Inr n \<Rightarrow> n
           | Inl n1 \<Rightarrow>
               (case skip_seen (canSeeCreature e p) n1 (tile_creatures t) of
                  None \<Rightarrow> -1
                | Some n2 \<Rightarrow> if \<not> onTop then stack_down n2 x (downItems t) else -1))"

fun stack_creature :: "(addr \<Rightarrow> bool) \<Rightarrow> int option \<Rightarrow> int \<Rightarrow> addr \<Rightarrow> addr list \<Rightarrow> int" where
  "stack_creature sees limit n x [] = -1"
| "stack_creature sees limit n x (c # cs) =
     (if c = x then n
      else if sees c then
        (case limit of
           Some l \<Rightarrow> if n + 1 \<ge> l then -1 else stack_creature sees limit (n + 1) x cs
         | None \<Rightarrow> stack_creature sees limit (n + 1) x cs)
      else stack_creature sees limit n x cs)"

definition getClientIndexOfCreature :: "Surroundings \<Rightarrow> Tile \<Rightarrow> addr \<Rightarrow> addr \<Rightarrow> int" where
  "getClientIndexOfCreature e t p c =
     stack_creature (canSeeCreature e p) None ((if ground t = None then 0 else 1) + int (length (topItems t))) c (rev (tile_creatures t))"

definition getStackposOfCreature :: "Surroundings \<Rightarrow> Tile \<Rightarrow> addr \<Rightarrow> addr \<Rightarrow> int" where
  "getStackposOfCreature e t p c =
     (let n = (if ground t = None then 0 else 1) + int (length (topItems t)) in
      if n \<ge> 10 then -1 else stack_creature (canSeeCreature e p) (Some 10) n c (rev (tile_creatures t)))"

end
