(* ===== verification/TileOps.thy ===== *)
theory TileOps
  imports Tile
begin

text \<open>
  The operations of tile.cpp that change a tile, and what they send to the players who watch it.
\<close>

section \<open>Notifications\<close>

definition stack_positions :: "Surroundings \<Rightarrow> Tile \<Rightarrow> addr \<Rightarrow> (addr \<times> int) list" where
  "stack_positions e t x = map (\<lambda>p. (p, getStackposOfItem e t p x)) (watchers e)"

definition shown :: "(addr \<Rightarrow> int \<Rightarrow> tile_event) \<Rightarrow> (addr \<times> int) list \<Rightarrow> tile_event list" where
  "shown ev ps = map (\<lambda>(p, n). ev p n) (filter (\<lambda>(p, n). n \<noteq> -1) ps)"

definition tile_send :: "tile_event list \<Rightarrow> Tile \<Rightarrow> Tile" where
  "tile_send es t = t\<lparr>tile_sent := tile_sent t @ es\<rparr>"

definition parent_of :: "Thing \<Rightarrow> bool \<Rightarrow> Tile \<Rightarrow> Tile" where
  "parent_of thing here t = t\<lparr>parented := (if here then insert thing (parented t) else parented t - {thing})\<rparr>"

definition onAddTileItem :: "Surroundings \<Rightarrow> addr \<Rightarrow> Tile \<Rightarrow> Tile" where
  "onAddTileItem e x t =
     (let t1 = setTileFlags e x t
      in tile_send (shown (\<lambda>p n. SendAddTileItem p n x) (stack_positions e t1 x)) t1)"

definition onUpdateTileItem :: "Surroundings \<Rightarrow> addr \<Rightarrow> Tile \<Rightarrow> Tile" where
  "onUpdateTileItem e x t = tile_send (shown (\<lambda>p n. SendUpdateTileItem p n x) (stack_positions e t x)) t"

definition onRemoveTileItem :: "Surroundings \<Rightarrow> (addr \<times> int) list \<Rightarrow> addr \<Rightarrow> Tile \<Rightarrow> Tile" where
  "onRemoveTileItem e oldStackPos x t = tile_send (shown SendRemoveTileThing oldStackPos) (resetTileFlags e x t)"

section \<open>Removing\<close>

definition tile_removeThing :: "Surroundings \<Rightarrow> Thing \<Rightarrow> u32 \<Rightarrow> Tile \<Rightarrow> Tile" where
  "tile_removeThing e thing count t =
     (case thing of
        ACreature c \<Rightarrow> t\<lparr>tile_creatures := remove1 c (tile_creatures t)\<rparr>
      | AnItem x \<Rightarrow>
          if tile_getThingIndex e t thing = -1 then t
          else if ground t = Some x then
            onRemoveTileItem e (map (\<lambda>p. (p, 0)) (watchers e)) x ((parent_of thing False t)\<lparr>ground := None\<rparr>)
          else if alwaysOnTop (type_of e t x) then
            if x \<notin> set (topItems t) then t
            else onRemoveTileItem e (stack_positions e t x) x
                   ((parent_of thing False t)\<lparr>tile_items := downItems t @ remove1 x (topItems t)\<rparr>)
          else if x \<notin> set (downItems t) then t
          else if stackable (type_of e t x) \<and> count \<noteq> ucast (item_count (obj t x)) then
            onUpdateTileItem e x (t\<lparr>obj := (obj t)(x := setItemCount (less_count (item_count (obj t x)) count) (obj t x))\<rparr>)
          else
            onRemoveTileItem e (stack_positions e t x) x
              ((parent_of thing False t)\<lparr>tile_items := remove1 x (downItems t) @ topItems t, downItemCount := downItemCount t - 1\<rparr>))"

section \<open>Adding\<close>

text \<open>The order among the items on top; a new item comes before those of the same order here, and after
  them in \<open>internalAddThing\<close>.\<close>

fun insert_before :: "(addr \<Rightarrow> bool) \<Rightarrow> addr \<Rightarrow> addr list \<Rightarrow> addr list" where
  "insert_before stop x [] = [x]"
| "insert_before stop x (y # ys) = (if stop y then x # y # ys else y # insert_before stop x ys)"

definition put_on_top :: "(addr \<Rightarrow> bool) \<Rightarrow> addr \<Rightarrow> Tile \<Rightarrow> Tile" where
  "put_on_top stop x t = t\<lparr>tile_items := downItems t @ insert_before stop x (topItems t)\<rparr>"

definition put_down :: "addr \<Rightarrow> Tile \<Rightarrow> Tile" where
  "put_down x t = t\<lparr>tile_items := x # tile_items t, downItemCount := downItemCount t + 1\<rparr>"

definition drop_old :: "Surroundings \<Rightarrow> addr \<Rightarrow> Tile \<Rightarrow> Tile" where
  "drop_old e old t = parent_of (AnItem old) False (tile_removeThing e (AnItem old) 1 t)"

definition replace_ground :: "Surroundings \<Rightarrow> addr \<Rightarrow> addr \<Rightarrow> Tile \<Rightarrow> Tile" where
  "replace_ground e oldGround x t =
     onUpdateTileItem e x (setTileFlags e x (resetTileFlags e oldGround ((parent_of (AnItem oldGround) False t)\<lparr>ground := Some x\<rparr>)))"

definition drop_splash :: "Surroundings \<Rightarrow> addr \<Rightarrow> Tile \<Rightarrow> Tile" where
  "drop_splash e x t =
     (if isSplash (type_of e t x)
      then (case find (\<lambda>y. isSplash (type_of e t y)) (topItems t) of None \<Rightarrow> t | Some old \<Rightarrow> drop_old e old t)
      else t)"

definition add_on_top :: "Surroundings \<Rightarrow> addr \<Rightarrow> Tile \<Rightarrow> Tile" where
  "add_on_top e x t =
     (let t1 = drop_splash e x t
      in onAddTileItem e x (put_on_top (\<lambda>y. alwaysOnTopOrder (type_of e t1 x) \<le> alwaysOnTopOrder (type_of e t1 y)) x t1))"

definition add_down :: "Surroundings \<Rightarrow> addr \<Rightarrow> Tile \<Rightarrow> Tile" where
  "add_down e x t =
     (case (if isMagicField (type_of e t x) then find (\<lambda>y. class_of e y = MagicFieldItem) (downItems t) else None) of
        None \<Rightarrow> onAddTileItem e x (put_down x t)
      | Some oldField \<Rightarrow>
          if replaceable (type_of e t oldField) then onAddTileItem e x (put_down x (drop_old e oldField t))
          else parent_of (AnItem x) False t)"

definition tile_addThing :: "Surroundings \<Rightarrow> Thing \<Rightarrow> Tile \<Rightarrow> Tile" where
  "tile_addThing e thing t =
     (case thing of
        ACreature c \<Rightarrow> (parent_of thing True t)\<lparr>tile_creatures := c # tile_creatures t\<rparr>
      | AnItem x \<Rightarrow>
          if length (tile_items t) \<ge> 65535 then t
          else
            let t1 = parent_of thing True t; it = type_of e t x in
            if isGroundTile it then
              (case ground t of
                 None \<Rightarrow> onAddTileItem e x (t1\<lparr>ground := Some x\<rparr>)
               | Some oldGround \<Rightarrow> replace_ground e oldGround x t1)
            else if alwaysOnTop it then add_on_top e x t1
            else add_down e x t1)"

definition tile_internalAddThing :: "Surroundings \<Rightarrow> Thing \<Rightarrow> Tile \<Rightarrow> Tile" where
  "tile_internalAddThing e thing t =
     (let t1 = parent_of thing True t in
      case thing of
        ACreature c \<Rightarrow> t1\<lparr>tile_creatures := c # tile_creatures t1\<rparr>
      | AnItem x \<Rightarrow>
          let it = type_of e t x in
          if isGroundTile it then (if ground t1 = None then setTileFlags e x (t1\<lparr>ground := Some x\<rparr>) else t1)
          else if length (tile_items t1) \<ge> 65535 then t1
          else if alwaysOnTop it
          then setTileFlags e x (put_on_top (\<lambda>y. alwaysOnTopOrder (type_of e t1 y) > alwaysOnTopOrder it) x t1)
          else setTileFlags e x (put_down x t1))"

section \<open>Changing and replacing\<close>

text \<open>None is \<open>setID\<close> on an item whose attribute bits do not match its attribute list.\<close>

definition tile_updateThing :: "Surroundings \<Rightarrow> Thing \<Rightarrow> u16 \<Rightarrow> u32 \<Rightarrow> Tile \<Rightarrow> Tile option" where
  "tile_updateThing e thing itemId count t =
     (if tile_getThingIndex e t thing = -1 then Some t
      else case thing of
        ACreature _ \<Rightarrow> Some t
      | AnItem x \<Rightarrow>
          let t1 = resetTileFlags e x t; its = (\<lambda>i. ItemType.truncate (types e i)) in
          map_option (\<lambda>i1. onUpdateTileItem e x (setTileFlags e x (t1\<lparr>obj := (obj t1)(x := setSubType its (ucast count) i1)\<rparr>)))
            (setID its itemId (obj t1 x)))"

definition replaced :: "Surroundings \<Rightarrow> addr \<Rightarrow> addr \<Rightarrow> Tile \<Rightarrow> Tile" where
  "replaced e old x t =
     parent_of (AnItem old) False
       (onUpdateTileItem e x (setTileFlags e x (resetTileFlags e old (parent_of (AnItem x) True t))))"

definition tile_replaceThing :: "Surroundings \<Rightarrow> nat \<Rightarrow> Thing \<Rightarrow> Tile \<Rightarrow> Tile" where
  "tile_replaceThing e index thing t =
     (case thing of
        ACreature _ \<Rightarrow> t
      | AnItem x \<Rightarrow>
          if index = 0 \<and> ground t \<noteq> None then replaced e (the (ground t)) x (t\<lparr>ground := Some x\<rparr>)
          else
            let i1 = (if ground t = None then index else index - 1) in
            if i1 < length (topItems t)
            then replaced e (topItems t ! i1) x (t\<lparr>tile_items := downItems t @ (topItems t)[i1 := x]\<rparr>)
            else
              let i2 = i1 - length (topItems t) in
              if i2 < length (tile_creatures t) then t
              else
                let i3 = i2 - length (tile_creatures t) in
                if i3 < length (downItems t)
                then replaced e (downItems t ! i3) x (t\<lparr>tile_items := (downItems t)[i3 := x] @ topItems t\<rparr>)
                else t)"

end
