(* ===== verification/TileRun.thy ===== *)
theory TileRun
  imports TileOps
begin

text \<open>
  What the operations of a tile keep: the two sections of its items in their order, and the flags
  that summarise the items.
\<close>

section \<open>Flags bit by bit\<close>

lemma hasBitSet_push: "hasBitSet (push_bit n 1) w \<longleftrightarrow> bit w n"
  by (simp add: hasBitSet_def bit_iff_and_push_bit_not_eq_0)

lemma bit_flag: "bit (push_bit m (1 :: u32)) k \<longleftrightarrow> k = m \<and> m < 32"
  by (auto simp: bit_exp_iff)

lemmas flag_defs = TILESTATE_BLOCKSOLID_def TILESTATE_BLOCKPATH_def TILESTATE_IMMOVABLEBLOCKSOLID_def
  TILESTATE_IMMOVABLEBLOCKPATH_def TILESTATE_IMMOVABLENOFIELDBLOCKPATH_def TILESTATE_NOFIELDBLOCKPATH_def
  TILESTATE_SUPPORTS_HANGABLE_def TILESTATE_DEPOT_def TILESTATE_BED_def TILESTATE_TRASHHOLDER_def TILESTATE_MAILBOX_def
  TILESTATE_MAGICFIELD_def TILESTATE_TELEPORT_def TILESTATE_PROTECTIONZONE_def TILESTATE_NOPVPZONE_def
  TILESTATE_NOLOGOUT_def TILESTATE_PVPZONE_def TILESTATE_FLOORCHANGE_DOWN_def TILESTATE_FLOORCHANGE_NORTH_def
  TILESTATE_FLOORCHANGE_SOUTH_def TILESTATE_FLOORCHANGE_EAST_def TILESTATE_FLOORCHANGE_WEST_def
  TILESTATE_FLOORCHANGE_SOUTH_ALT_def TILESTATE_FLOORCHANGE_EAST_ALT_def

lemma flag_bits [simp]:
  "bit TILESTATE_BLOCKSOLID k \<longleftrightarrow> k = 17" "bit TILESTATE_BLOCKPATH k \<longleftrightarrow> k = 18"
  "bit TILESTATE_IMMOVABLEBLOCKSOLID k \<longleftrightarrow> k = 19" "bit TILESTATE_IMMOVABLEBLOCKPATH k \<longleftrightarrow> k = 20"
  "bit TILESTATE_IMMOVABLENOFIELDBLOCKPATH k \<longleftrightarrow> k = 21" "bit TILESTATE_NOFIELDBLOCKPATH k \<longleftrightarrow> k = 22"
  "bit TILESTATE_SUPPORTS_HANGABLE k \<longleftrightarrow> k = 23" "bit TILESTATE_DEPOT k \<longleftrightarrow> k = 16" "bit TILESTATE_BED k \<longleftrightarrow> k = 15"
  "bit TILESTATE_TRASHHOLDER k \<longleftrightarrow> k = 14" "bit TILESTATE_MAILBOX k \<longleftrightarrow> k = 13" "bit TILESTATE_MAGICFIELD k \<longleftrightarrow> k = 12"
  "bit TILESTATE_TELEPORT k \<longleftrightarrow> k = 11" "bit TILESTATE_FLOORCHANGE k \<longleftrightarrow> k < 7"
  "bit TILESTATE_PROTECTIONZONE k \<longleftrightarrow> k = 7" "bit TILESTATE_NOPVPZONE k \<longleftrightarrow> k = 8"
  "bit TILESTATE_NOLOGOUT k \<longleftrightarrow> k = 9" "bit TILESTATE_PVPZONE k \<longleftrightarrow> k = 10"
  unfolding flag_defs TILESTATE_FLOORCHANGE_def bit_or_iff bit_flag by auto

lemma flag_if_simps [simp]:
  "ground (flag_if b f t) = ground t" "tile_items (flag_if b f t) = tile_items t"
  "downItemCount (flag_if b f t) = downItemCount t" "tile_creatures (flag_if b f t) = tile_creatures t"
  "obj (flag_if b f t) = obj t" "parented (flag_if b f t) = parented t" "tile_sent (flag_if b f t) = tile_sent t"
  "bit (tile_flags (flag_if b f t)) k \<longleftrightarrow> bit (tile_flags t) k \<or> b \<and> bit f k"
  by (simp_all add: flag_if_def setFlag_def bit_or_iff)

lemma unflag_if_simps [simp]:
  "ground (unflag_if b f t) = ground t" "tile_items (unflag_if b f t) = tile_items t"
  "downItemCount (unflag_if b f t) = downItemCount t" "tile_creatures (unflag_if b f t) = tile_creatures t"
  "obj (unflag_if b f t) = obj t" "parented (unflag_if b f t) = parented t" "tile_sent (unflag_if b f t) = tile_sent t"
  "bit (tile_flags (unflag_if b f t)) k \<longleftrightarrow> bit (tile_flags t) k \<and> \<not> (b \<and> bit f k)"
  by (auto simp: unflag_if_def resetFlag_def bit_and_iff bit_not_iff dest: bit_imp_possible_bit)

lemma setTileFlags_simps [simp]:
  "ground (setTileFlags e x t) = ground t" "tile_items (setTileFlags e x t) = tile_items t"
  "downItemCount (setTileFlags e x t) = downItemCount t" "tile_creatures (setTileFlags e x t) = tile_creatures t"
  "obj (setTileFlags e x t) = obj t" "parented (setTileFlags e x t) = parented t" "tile_sent (setTileFlags e x t) = tile_sent t"
  by (simp_all add: setTileFlags_def Let_def)

lemma resetTileFlags_simps [simp]:
  "ground (resetTileFlags e x t) = ground t" "tile_items (resetTileFlags e x t) = tile_items t"
  "downItemCount (resetTileFlags e x t) = downItemCount t" "tile_creatures (resetTileFlags e x t) = tile_creatures t"
  "obj (resetTileFlags e x t) = obj t" "parented (resetTileFlags e x t) = parented t" "tile_sent (resetTileFlags e x t) = tile_sent t"
  by (simp_all add: resetTileFlags_def Let_def)

text \<open>The flags that the code keeps exact, with their bits.\<close>

definition checked :: "(ITEMPROPERTY \<times> nat) set" where
  "checked = {(CONST_PROP_BLOCKSOLID, 17), (CONST_PROP_BLOCKPATH, 18), (CONST_PROP_IMMOVABLEBLOCKSOLID, 19),
     (CONST_PROP_IMMOVABLENOFIELDBLOCKPATH, 21), (CONST_PROP_NOFIELDBLOCKPATH, 22)}"

lemma setTileFlags_bit:
  assumes "(p, k) \<in> checked"
  shows "bit (tile_flags (setTileFlags e x t)) k \<longleftrightarrow> bit (tile_flags t) k \<or> item_hasProperty e t x p"
proof -
  have "\<not> bit (ucast (floorChange (type_of e t x)) :: u32) k" if "k > 7" for k :: nat
    using that by (auto simp: bit_ucast_iff dest: bit_imp_le_length)
  then have floor: "\<not> bit (ucast (floorChange (type_of e t x)) :: u32) 17" "\<not> bit (ucast (floorChange (type_of e t x)) :: u32) 18"
    "\<not> bit (ucast (floorChange (type_of e t x)) :: u32) 19" "\<not> bit (ucast (floorChange (type_of e t x)) :: u32) 21"
    "\<not> bit (ucast (floorChange (type_of e t x)) :: u32) 22" by simp_all
  from assms show ?thesis
    unfolding checked_def by (elim insertE emptyE) (simp_all add: setTileFlags_def Let_def floor)
qed

lemma resetTileFlags_bit:
  assumes "(p, k) \<in> checked"
  shows "bit (tile_flags (resetTileFlags e x t)) k \<longleftrightarrow>
    bit (tile_flags t) k \<and> \<not> (item_hasProperty e t x p \<and> \<not> tile_hasProperty_but e t x p)"
  using assms unfolding checked_def by (elim insertE emptyE) (simp_all add: resetTileFlags_def Let_def)

definition flags_for :: "Surroundings \<Rightarrow> Tile \<Rightarrow> addr set \<Rightarrow> bool" where
  "flags_for e t S \<longleftrightarrow> (\<forall>(p, k) \<in> checked. bit (tile_flags t) k \<longleftrightarrow> (\<exists>y \<in> S. item_hasProperty e t y p))"

lemma flags_forD: "flags_for e t S \<Longrightarrow> (p, k) \<in> checked \<Longrightarrow> bit (tile_flags t) k \<longleftrightarrow> (\<exists>y \<in> S. item_hasProperty e t y p)"
  by (auto simp: flags_for_def)

lemma flags_forI: "(\<And>p k. (p, k) \<in> checked \<Longrightarrow> bit (tile_flags t) k \<longleftrightarrow> (\<exists>y \<in> S. item_hasProperty e t y p)) \<Longrightarrow> flags_for e t S"
  by (auto simp: flags_for_def)

lemma item_hasProperty_cong: "obj t x = obj t' x \<Longrightarrow> item_hasProperty e t x p = item_hasProperty e t' x p"
  by (simp add: item_hasProperty_def type_of_def)

lemma flags_for_cong:
  assumes "flags_for e t S" and "tile_flags t' = tile_flags t" and "\<And>x. x \<in> S \<Longrightarrow> obj t' x = obj t x"
  shows "flags_for e t' S"
proof (rule flags_forI)
  fix p k assume "(p, k) \<in> checked"
  with assms(1) have "bit (tile_flags t) k \<longleftrightarrow> (\<exists>y \<in> S. item_hasProperty e t y p)" by (rule flags_forD)
  with assms(2,3) item_hasProperty_cong show "bit (tile_flags t') k \<longleftrightarrow> (\<exists>y \<in> S. item_hasProperty e t' y p)" by metis
qed

lemma tile_hasProperty_iff: "tile_hasProperty e t p \<longleftrightarrow> (\<exists>y \<in> set (all_items t). item_hasProperty e t y p)"
  by (auto simp: tile_hasProperty_def list_ex_iff)

lemma tile_hasProperty_but_iff:
  "tile_hasProperty_but e t x p \<longleftrightarrow> (\<exists>y \<in> set (all_items t) - {x}. item_hasProperty e t y p)"
  by (auto simp: tile_hasProperty_but_def list_ex_iff)

lemma set_for:
  assumes "flags_for e t S"
  shows "flags_for e (setTileFlags e x t) (insert x S)"
proof (rule flags_forI)
  fix p k assume pk: "(p, k) \<in> checked"
  have "item_hasProperty e (setTileFlags e x t) y p = item_hasProperty e t y p" for y
    by (rule item_hasProperty_cong) simp
  with setTileFlags_bit [OF pk] flags_forD [OF assms pk]
  show "bit (tile_flags (setTileFlags e x t)) k \<longleftrightarrow> (\<exists>y \<in> insert x S. item_hasProperty e (setTileFlags e x t) y p)" by auto
qed

lemma reset_for:
  assumes "flags_for e t (insert x S)" and "x \<notin> S" and "set (all_items t) - {x} = S"
  shows "flags_for e (resetTileFlags e x t) S"
proof (rule flags_forI)
  fix p k assume pk: "(p, k) \<in> checked"
  have "item_hasProperty e (resetTileFlags e x t) y p = item_hasProperty e t y p" for y
    by (rule item_hasProperty_cong) simp
  with resetTileFlags_bit [OF pk] flags_forD [OF assms(1) pk] assms(3) tile_hasProperty_but_iff [of e t x p]
  show "bit (tile_flags (resetTileFlags e x t)) k \<longleftrightarrow> (\<exists>y \<in> S. item_hasProperty e (resetTileFlags e x t) y p)" by auto
qed

text \<open>The other flags are not exact.  The one for an immovable item that blocks the path is never set,
  and the one for a teleport, a mailbox and the like goes with the first such item that leaves.\<close>

lemma immovableblockpath_is_never_set:
  "bit (tile_flags (setTileFlags e x t)) 20 = bit (tile_flags t) 20"
proof -
  have "\<not> bit (ucast (floorChange (type_of e t x)) :: u32) 20" by (auto simp: bit_ucast_iff dest: bit_imp_le_length)
  then show ?thesis by (simp add: setTileFlags_def Let_def)
qed

lemma special_flag_goes_with_the_first:
  "class_of e x = TeleportItem \<Longrightarrow> \<not> hasFlag TILESTATE_TELEPORT (resetTileFlags e x t)"
  "class_of e x = MailboxItem \<Longrightarrow> \<not> hasFlag TILESTATE_MAILBOX (resetTileFlags e x t)"
  "floorChange (type_of e t x) \<noteq> 0 \<Longrightarrow> \<not> hasFlag TILESTATE_FLOORCHANGE_NORTH (resetTileFlags e x t)"
  unfolding hasFlag_def TILESTATE_TELEPORT_def TILESTATE_MAILBOX_def TILESTATE_FLOORCHANGE_NORTH_def hasBitSet_push
  by (simp_all add: resetTileFlags_def Let_def)

section \<open>Sections\<close>

definition fields_single :: "Surroundings \<Rightarrow> Tile \<Rightarrow> bool" where
  "fields_single e t \<longleftrightarrow> (\<forall>x \<in> set (all_items t). class_of e x = MagicFieldItem \<longrightarrow> \<not> stackable (type_of e t x))"

text \<open>Nothing is said of the order on top when items may become ones of another order.\<close>

definition order_rank :: "Surroundings \<Rightarrow> TileType \<Rightarrow> u8" where
  "order_rank e it = (if keepsOrder e then alwaysOnTopOrder it else 0)"

definition order_of :: "Surroundings \<Rightarrow> Tile \<Rightarrow> addr \<Rightarrow> u8" where
  "order_of e t x = order_rank e (type_of e t x)"

definition sections_ok :: "Surroundings \<Rightarrow> Tile \<Rightarrow> bool" where
  "sections_ok e t \<longleftrightarrow> unat (downItemCount t) \<le> length (tile_items t) \<and> length (tile_items t) \<le> 65535 \<and>
     distinct (all_items t) \<and> distinct (tile_creatures t) \<and>
     (\<forall>x \<in> set (downItems t). \<not> alwaysOnTop (type_of e t x)) \<and> (\<forall>x \<in> set (topItems t). alwaysOnTop (type_of e t x)) \<and>
     sorted (map (order_of e t) (topItems t)) \<and>
     (\<forall>x \<in> set (all_items t). AnItem x \<in> parented t) \<and> (\<forall>c \<in> set (tile_creatures t). ACreature c \<in> parented t)"

definition tile_ok :: "Surroundings \<Rightarrow> Tile \<Rightarrow> bool" where
  "tile_ok e t \<longleftrightarrow> sections_ok e t \<and> fields_single e t \<and> flags_for e t (set (all_items t))"

definition grounds :: "Tile \<Rightarrow> addr list" where "grounds t = (case ground t of None \<Rightarrow> [] | Some g \<Rightarrow> [g])"

lemma all_items_eq: "all_items t = grounds t @ tile_items t"
  by (simp add: all_items_def grounds_def)

lemma sections_split: "tile_items t = downItems t @ topItems t"
  by (simp add: downItems_def topItems_def)

lemma sections_of:
  assumes "tile_items t = d @ u" and "unat (downItemCount t) = length d"
  shows "downItems t = d" and "topItems t = u"
  using assms by (simp_all add: downItems_def topItems_def)

lemma sections_okD:
  assumes "sections_ok e t"
  shows "unat (downItemCount t) = length (downItems t)" and "length (downItems t) + length (topItems t) \<le> 65535"
    and "distinct (grounds t @ downItems t @ topItems t)" and "distinct (tile_creatures t)"
    and "x \<in> set (downItems t) \<Longrightarrow> \<not> alwaysOnTop (type_of e t x)" and "x \<in> set (topItems t) \<Longrightarrow> alwaysOnTop (type_of e t x)"
    and "sorted (map (order_of e t) (topItems t))" and "x \<in> set (all_items t) \<Longrightarrow> AnItem x \<in> parented t"
    and "c \<in> set (tile_creatures t) \<Longrightarrow> ACreature c \<in> parented t"
proof -
  from assms have len: "unat (downItemCount t) \<le> length (tile_items t)" "length (tile_items t) \<le> 65535"
    by (simp_all add: sections_ok_def)
  then show "unat (downItemCount t) = length (downItems t)" by (simp add: downItems_def)
  show "length (downItems t) + length (topItems t) \<le> 65535" using len(2) sections_split [of t] by simp
  show "distinct (grounds t @ downItems t @ topItems t)"
    using assms by (simp only: sections_ok_def all_items_eq sections_split [symmetric])
qed (use assms in \<open>simp_all add: sections_ok_def\<close>)

text \<open>To show that the sections of a changed tile are in order, its items are given as two lists.\<close>

lemma sections_okI:
  assumes "tile_items t = d @ u" and "unat (downItemCount t) = length d" and "length d + length u \<le> 65535"
    and "distinct (grounds t @ d @ u)" and "distinct (tile_creatures t)"
    and "\<And>x. x \<in> set d \<Longrightarrow> \<not> alwaysOnTop (type_of e t x)" and "\<And>x. x \<in> set u \<Longrightarrow> alwaysOnTop (type_of e t x)"
    and "sorted (map (order_of e t) u)" and "\<And>x. x \<in> set (grounds t @ d @ u) \<Longrightarrow> AnItem x \<in> parented t"
    and "\<And>c. c \<in> set (tile_creatures t) \<Longrightarrow> ACreature c \<in> parented t"
  shows "sections_ok e t"
  using assms by (simp add: sections_ok_def sections_of [OF assms(1,2)] all_items_eq)

lemma type_of_same: "obj t' = obj t \<Longrightarrow> type_of e t' = type_of e t"
  by (simp add: type_of_def fun_eq_iff)

lemma order_of_same: "obj t' = obj t \<Longrightarrow> order_of e t' = order_of e t"
  by (simp add: order_of_def type_of_def fun_eq_iff)

section \<open>The notifications\<close>

lemma tile_send_simps [simp]:
  "ground (tile_send es t) = ground t" "tile_items (tile_send es t) = tile_items t"
  "downItemCount (tile_send es t) = downItemCount t" "tile_creatures (tile_send es t) = tile_creatures t"
  "obj (tile_send es t) = obj t" "parented (tile_send es t) = parented t" "tile_sent (tile_send es t) = tile_sent t @ es"
  "tile_flags (tile_send es t) = tile_flags t"
  by (simp_all add: tile_send_def)

lemma parent_of_simps [simp]:
  "ground (parent_of x b t) = ground t" "tile_items (parent_of x b t) = tile_items t"
  "downItemCount (parent_of x b t) = downItemCount t" "tile_creatures (parent_of x b t) = tile_creatures t"
  "obj (parent_of x b t) = obj t" "tile_sent (parent_of x b t) = tile_sent t" "tile_flags (parent_of x b t) = tile_flags t"
  "parented (parent_of x b t) = (if b then insert x (parented t) else parented t - {x})"
  by (simp_all add: parent_of_def)

lemma notify_simps [simp]:
  "ground (onAddTileItem e x t) = ground t" "tile_items (onAddTileItem e x t) = tile_items t"
  "downItemCount (onAddTileItem e x t) = downItemCount t" "tile_creatures (onAddTileItem e x t) = tile_creatures t"
  "obj (onAddTileItem e x t) = obj t" "parented (onAddTileItem e x t) = parented t"
  "ground (onUpdateTileItem e x t) = ground t" "tile_items (onUpdateTileItem e x t) = tile_items t"
  "downItemCount (onUpdateTileItem e x t) = downItemCount t" "tile_creatures (onUpdateTileItem e x t) = tile_creatures t"
  "obj (onUpdateTileItem e x t) = obj t" "parented (onUpdateTileItem e x t) = parented t"
  "tile_flags (onUpdateTileItem e x t) = tile_flags t"
  "ground (onRemoveTileItem e ps x t) = ground t" "tile_items (onRemoveTileItem e ps x t) = tile_items t"
  "downItemCount (onRemoveTileItem e ps x t) = downItemCount t" "tile_creatures (onRemoveTileItem e ps x t) = tile_creatures t"
  "obj (onRemoveTileItem e ps x t) = obj t" "parented (onRemoveTileItem e ps x t) = parented t"
  by (simp_all add: onAddTileItem_def onUpdateTileItem_def onRemoveTileItem_def Let_def)

lemma add_for: "flags_for e t S \<Longrightarrow> flags_for e (onAddTileItem e x t) (insert x S)"
  by (rule flags_for_cong [OF set_for]) (simp_all add: onAddTileItem_def Let_def)

lemma remove_for:
  "flags_for e t (insert x S) \<Longrightarrow> x \<notin> S \<Longrightarrow> set (all_items t) - {x} = S \<Longrightarrow> flags_for e (onRemoveTileItem e ps x t) S"
  by (rule flags_for_cong [OF reset_for]) (simp_all add: onRemoveTileItem_def Let_def)

section \<open>The stack\<close>

text \<open>The order in which the code counts the things on a tile.\<close>

definition stack :: "Tile \<Rightarrow> Thing list" where
  "stack t = map AnItem (grounds t @ topItems t) @ map ACreature (tile_creatures t) @ map AnItem (downItems t)"

lemma find_from_in: "x \<notin> set a \<Longrightarrow> find_from n x (a @ x # b) = Inr (n + 1 + int (length a))"
  by (induction a arbitrary: n) auto

lemma find_from_out: "x \<notin> set ys \<Longrightarrow> find_from n x ys = Inl (n + int (length ys))"
  by (induction ys arbitrary: n) auto

lemma in_items: "x \<in> set (all_items t) \<longleftrightarrow> ground t = Some x \<or> x \<in> set (topItems t) \<or> x \<in> set (downItems t)"
  unfolding all_items_eq sections_split [of t] by (auto simp: grounds_def split: option.splits)

lemma ground_apart:
  assumes "sections_ok e t" and "ground t = Some x"
  shows "x \<notin> set (topItems t)" and "x \<notin> set (downItems t)"
  using sections_okD(3) [OF assms(1)] assms(2) by (auto simp: grounds_def)

lemma index_ground: "ground t = Some x \<Longrightarrow> tile_getThingIndex e t (AnItem x) = 0"
  by (simp add: tile_getThingIndex_def)

lemma index_top:
  assumes ok: "sections_ok e t" and u: "topItems t = a @ x # b"
  shows "tile_getThingIndex e t (AnItem x) = int (length (grounds t) + length a)"
proof -
  have "distinct (topItems t)" using sections_okD(3) [OF ok] by simp
  with u have a: "x \<notin> set a" by simp
  have "ground t \<noteq> Some x" using ground_apart(1) [OF ok, of x] u by auto
  moreover have "alwaysOnTop (type_of e t x)" using sections_okD(6) [OF ok, of x] u by simp
  ultimately show ?thesis
    using u find_from_in [OF a] by (simp add: tile_getThingIndex_def Let_def grounds_def split: option.split)
qed

lemma index_creature:
  assumes ok: "sections_ok e t" and c: "tile_creatures t = a @ c # b"
  shows "tile_getThingIndex e t (ACreature c) = int (length (grounds t) + length (topItems t) + length a)"
proof -
  have "c \<notin> set a" using sections_okD(4) [OF ok] c by simp
  with c find_from_in [OF this] show ?thesis
    by (simp add: tile_getThingIndex_def Let_def grounds_def split: option.split)
qed

lemma index_down:
  assumes ok: "sections_ok e t" and d: "downItems t = a @ x # b"
  shows "tile_getThingIndex e t (AnItem x) =
    int (length (grounds t) + length (topItems t) + length (tile_creatures t) + length a)"
proof -
  have "distinct (downItems t)" using sections_okD(3) [OF ok] by simp
  with d have a: "x \<notin> set a" by simp
  have "ground t \<noteq> Some x" using ground_apart(2) [OF ok, of x] d by auto
  moreover have "\<not> alwaysOnTop (type_of e t x)" using sections_okD(5) [OF ok, of x] d by simp
  ultimately show ?thesis
    using d find_from_in [OF a] by (simp add: tile_getThingIndex_def Let_def grounds_def split: option.split)
qed

lemma index_none: "AnItem x \<notin> set (stack t) \<Longrightarrow> tile_getThingIndex e t (AnItem x) = -1"
  "ACreature x \<notin> set (stack t) \<Longrightarrow> tile_getThingIndex e t (ACreature x) = -1"
  by (auto simp: stack_def tile_getThingIndex_def Let_def grounds_def find_from_out image_iff split: option.splits)

lemma index_in_stack:
  assumes ok: "sections_ok e t" and s: "stack t = a @ th # b"
  shows "tile_getThingIndex e t th = int (length a)"
proof -
  have "th \<in> set (stack t)" by (simp add: s)
  then consider (g) x where "th = AnItem x" "ground t = Some x" | (u) x where "th = AnItem x" "x \<in> set (topItems t)"
    | (c) c where "th = ACreature c" "c \<in> set (tile_creatures t)" | (d) x where "th = AnItem x" "x \<in> set (downItems t)"
    by (auto simp: stack_def grounds_def split: option.splits)
  note cases = this
  have "distinct (stack t)"
    using sections_okD(3,4) [OF ok] by (auto simp: stack_def distinct_map inj_on_def)
  with s have th: "th \<notin> set a" "th \<notin> set b" by auto
  have a: "a' = a" if "stack t = a' @ th # b'" for a' b' using that s append_Cons_eq_iff [OF th, of a' b'] by simp
  from cases show ?thesis
  proof cases
    case (g x)
    then have "stack t = [] @ th # map AnItem (topItems t) @ map ACreature (tile_creatures t) @ map AnItem (downItems t)"
      by (simp add: stack_def grounds_def)
    from a [OF this] g show ?thesis by (simp add: index_ground)
  next
    case (u x)
    then obtain v w where vw: "topItems t = v @ x # w" by (meson split_list)
    then have "stack t = map AnItem (grounds t @ v) @ th # map AnItem w @ map ACreature (tile_creatures t) @ map AnItem (downItems t)"
      using u(1) by (simp add: stack_def)
    from a [OF this] show ?thesis using index_top [OF ok vw] u(1) by auto
  next
    case (c c)
    then obtain v w where vw: "tile_creatures t = v @ c # w" by (meson split_list)
    then have "stack t = (map AnItem (grounds t @ topItems t) @ map ACreature v) @ th # map ACreature w @ map AnItem (downItems t)"
      using c(1) by (simp add: stack_def)
    from a [OF this] show ?thesis using index_creature [OF ok vw] c(1) by auto
  next
    case (d x)
    then obtain v w where vw: "downItems t = v @ x # w" by (meson split_list)
    then have "stack t = (map AnItem (grounds t @ topItems t) @ map ACreature (tile_creatures t) @ map AnItem v) @ th # map AnItem w"
      using d(1) by (simp add: stack_def)
    from a [OF this] show ?thesis using index_down [OF ok vw] d(1) by auto
  qed
qed

lemma getThing_stack:
  assumes "sections_ok e t"
  shows "tile_getThing t n = (if n < length (stack t) then Some (stack t ! n) else None)"
proof -
  have len: "unat (downItemCount t) = length (downItems t)" by (rule sections_okD(1) [OF assms])
  have up: "tile_items t ! (unat (downItemCount t) + i) = topItems t ! i" for i
    using len sections_split [of t] by (metis nth_append_length_plus)
  have down: "i < length (downItems t) \<Longrightarrow> tile_items t ! i = downItems t ! i" for i
    using sections_split [of t] by (metis nth_append)
  define rest where "rest m = (if m < length (topItems t) then Some (AnItem (topItems t ! m))
      else if m - length (topItems t) < length (tile_creatures t) then Some (ACreature (tile_creatures t ! (m - length (topItems t))))
      else if m - length (topItems t) - length (tile_creatures t) < length (downItems t)
      then Some (AnItem (downItems t ! (m - length (topItems t) - length (tile_creatures t)))) else None)" for m
  have rest: "rest m = (if m < length (tl' @ cr @ dn) then Some ((tl' @ cr @ dn) ! m) else None)"
    if "tl' = map AnItem (topItems t)" "cr = map ACreature (tile_creatures t)" "dn = map AnItem (downItems t)" for m tl' cr dn
    using that by (auto simp: rest_def nth_append)
  note rest = rest [OF refl refl refl]
  show ?thesis
  proof (cases "ground t")
    case None
    then have "tile_getThing t n = rest n" by (simp add: tile_getThing_def rest_def Let_def len up [unfolded len] down)
    with rest None show ?thesis by (simp add: stack_def grounds_def)
  next
    case (Some g)
    then have "tile_getThing t 0 = Some (AnItem g)" "tile_getThing t (Suc m) = rest m" for m
      by (simp_all add: tile_getThing_def rest_def Let_def len up [unfolded len] down)
    with rest Some show ?thesis by (cases n) (simp_all add: stack_def grounds_def)
  qed
qed

section \<open>Removing\<close>

lemma tile_okD:
  assumes "tile_ok e t"
  shows "sections_ok e t" and "fields_single e t" and "flags_for e t (set (all_items t))"
  using assms by (simp_all add: tile_ok_def)

definition without :: "addr \<Rightarrow> Tile \<Rightarrow> Tile \<Rightarrow> bool" where
  "without x t t1 \<longleftrightarrow> grounds t1 = removeAll x (grounds t) \<and>
     tile_items t1 = removeAll x (downItems t) @ removeAll x (topItems t) \<and>
     unat (downItemCount t1) = length (removeAll x (downItems t)) \<and> tile_creatures t1 = tile_creatures t \<and>
     obj t1 = obj t \<and> parented t1 = parented t - {AnItem x} \<and> tile_flags t1 = tile_flags t \<and> tile_sent t1 = tile_sent t"

lemma withoutD:
  assumes "without x t t1"
  shows "grounds t1 = removeAll x (grounds t)" and "tile_items t1 = removeAll x (downItems t) @ removeAll x (topItems t)"
    and "unat (downItemCount t1) = length (removeAll x (downItems t))" and "tile_creatures t1 = tile_creatures t"
    and "obj t1 = obj t" and "parented t1 = parented t - {AnItem x}" and "tile_flags t1 = tile_flags t"
    and "tile_sent t1 = tile_sent t"
  using assms by (simp_all add: without_def)

lemma without_sections:
  assumes "without x t t1"
  shows "downItems t1 = removeAll x (downItems t)" and "topItems t1 = removeAll x (topItems t)"
    and "all_items t1 = removeAll x (all_items t)"
  using sections_of [OF withoutD(2,3) [OF assms]] withoutD(1,2) [OF assms] sections_split [of t]
  by (simp_all add: all_items_eq)

lemma length_removeAll_le: "length (removeAll x xs) \<le> length xs"
  by (simp add: removeAll_filter_not_eq)

lemma removed_ok:
  assumes ok: "tile_ok e t" and w: "without x t t1" and x: "x \<in> set (all_items t)"
  shows "tile_ok e (onRemoveTileItem e ps x t1)"
proof -
  note S = tile_okD(1) [OF ok] and w' = withoutD [OF w] and ws = without_sections [OF w]
  let ?t = "onRemoveTileItem e ps x t1"
  have types: "type_of e ?t = type_of e t" "order_of e ?t = order_of e t"
    using type_of_same [of ?t t] order_of_same [of ?t t] w'(5) by simp_all
  have g: "grounds ?t = grounds t1" by (simp add: grounds_def)
  have all: "all_items ?t = removeAll x (all_items t)" using ws(3) by (simp add: all_items_eq g)
  have "sections_ok e ?t"
  proof (rule sections_okI [where d = "removeAll x (downItems t)" and u = "removeAll x (topItems t)"])
    show "length (removeAll x (downItems t)) + length (removeAll x (topItems t)) \<le> 65535"
      using sections_okD(2) [OF S] length_removeAll_le [of x "downItems t"] length_removeAll_le [of x "topItems t"] by linarith
    show "distinct (grounds ?t @ removeAll x (downItems t) @ removeAll x (topItems t))"
      using sections_okD(3) [OF S] by (auto simp: g w'(1) distinct_removeAll)
    show "sorted (map (order_of e ?t) (removeAll x (topItems t)))"
      using sections_okD(7) [OF S] by (simp add: types removeAll_filter_not_eq sorted_filter)
    show "tile_items ?t = removeAll x (downItems t) @ removeAll x (topItems t)" by (simp add: w'(2))
    show "unat (downItemCount ?t) = length (removeAll x (downItems t))" by (simp add: w'(3))
    show "distinct (tile_creatures ?t)" using sections_okD(4) [OF S] by (simp add: w'(4))
    show "\<not> alwaysOnTop (type_of e ?t y)" if "y \<in> set (removeAll x (downItems t))" for y
      using sections_okD(5) [OF S, of y] that by (simp add: types)
    show "alwaysOnTop (type_of e ?t y)" if "y \<in> set (removeAll x (topItems t))" for y
      using sections_okD(6) [OF S, of y] that by (simp add: types)
    show "AnItem y \<in> parented ?t" if "y \<in> set (grounds ?t @ removeAll x (downItems t) @ removeAll x (topItems t))" for y
    proof -
      have "y \<in> set (removeAll x (all_items t))" using that w'(1) by (simp add: g all_items_eq sections_split [of t])
      then show ?thesis using sections_okD(8) [OF S, of y] by (simp add: w'(6))
    qed
    show "ACreature c \<in> parented ?t" if "c \<in> set (tile_creatures ?t)" for c
      using sections_okD(9) [OF S, of c] that by (simp add: w'(4,6))
  qed
  moreover have "fields_single e ?t"
    using tile_okD(2) [OF ok] by (simp add: fields_single_def all types)
  moreover have "flags_for e ?t (set (all_items ?t))"
    unfolding all set_removeAll
  proof (rule remove_for)
    show "flags_for e t1 (insert x (set (all_items t) - {x}))"
      unfolding insert_Diff [OF x] by (rule flags_for_cong [OF tile_okD(3) [OF ok] w'(7)]) (simp add: w'(5))
    show "set (all_items t1) - {x} = set (all_items t) - {x}" by (simp add: ws(3))
  qed simp
  ultimately show ?thesis by (simp add: tile_ok_def)
qed

lemma type_of_upd: "type_of e (t\<lparr>obj := f\<rparr>) x = types e (item_id (f x))"
  by (simp add: type_of_def)

text \<open>The three things that removing can do to an item on the tile.\<close>

lemma remove_cases:
  assumes S: "sections_ok e t"
  obtains (same) "tile_removeThing e (AnItem x) n t = t" "x \<notin> set (all_items t)"
  | (count) k where "stackable (type_of e t x)" "x \<in> set (all_items t)" "\<not> alwaysOnTop (type_of e t x)"
      "tile_removeThing e (AnItem x) n t = onUpdateTileItem e x (t\<lparr>obj := (obj t)(x := setItemCount k (obj t x))\<rparr>)"
  | (ground) t1 where "x \<in> set (all_items t)" "without x t t1" "ground t = Some x"
      "tile_removeThing e (AnItem x) n t = onRemoveTileItem e (map (\<lambda>p. (p, 0)) (watchers e)) x t1"
  | (out) t1 where "x \<in> set (all_items t)" "without x t t1"
      "tile_removeThing e (AnItem x) n t = onRemoveTileItem e (stack_positions e t x) x t1"
proof -
  note apart = sections_okD(3) [OF S]
  have du: "distinct (topItems t)" "distinct (downItems t)" using apart by simp_all
  have index: "tile_getThingIndex e t (AnItem x) \<noteq> -1" if "x \<in> set (all_items t)"
  proof -
    have "AnItem x \<in> set (stack t)"
      using that unfolding in_items by (auto simp: stack_def grounds_def split: option.splits)
    then obtain a b where "stack t = a @ AnItem x # b" by (meson split_list)
    from index_in_stack [OF S this] show ?thesis by simp
  qed
  consider (none) "x \<notin> set (all_items t)" | (g) "ground t = Some x" | (u) "ground t \<noteq> Some x" "x \<in> set (topItems t)"
    | (d) "ground t \<noteq> Some x" "x \<in> set (downItems t)" unfolding in_items by blast
  then show ?thesis
  proof cases
    case none
    then have "AnItem x \<notin> set (stack t)"
      unfolding in_items by (auto simp: stack_def grounds_def split: option.splits)
    with index_none(1) [OF this] none same show ?thesis by (simp add: tile_removeThing_def)
  next
    case g
    then have x: "x \<in> set (all_items t)" by (simp add: in_items)
    have w: "without x t ((parent_of (AnItem x) False t)\<lparr>ground := None\<rparr>)"
      using g ground_apart [OF S g] sections_okD(1) [OF S] sections_split [of t]
      by (simp add: without_def grounds_def)
    show ?thesis by (rule ground [OF x w g]) (simp add: tile_removeThing_def g index [OF x])
  next
    case u
    then have x: "x \<in> set (all_items t)" by (simp add: in_items)
    have nd: "x \<notin> set (downItems t)" using apart u(2) by auto
    have top: "alwaysOnTop (type_of e t x)" by (rule sections_okD(6) [OF S u(2)])
    have ng: "removeAll x (grounds t) = grounds t" using u(1) by (auto simp: grounds_def split: option.split)
    let ?t = "(parent_of (AnItem x) False t)\<lparr>tile_items := downItems t @ remove1 x (topItems t)\<rparr>"
    have w: "without x t ?t"
      using nd ng sections_okD(1) [OF S] by (simp add: without_def grounds_def distinct_remove1_removeAll [OF du(1)])
    show ?thesis by (rule out [OF x w]) (simp add: tile_removeThing_def index [OF x] u top)
  next
    case d
    then have x: "x \<in> set (all_items t)" by (simp add: in_items)
    have nu: "x \<notin> set (topItems t)" using apart d(2) by auto
    have top: "\<not> alwaysOnTop (type_of e t x)" by (rule sections_okD(5) [OF S d(2)])
    have ng: "removeAll x (grounds t) = grounds t" using d(1) by (auto simp: grounds_def split: option.split)
    show ?thesis
    proof (cases "stackable (type_of e t x) \<and> n \<noteq> ucast (item_count (obj t x))")
      case True
      then have st: "stackable (type_of e t x)" by simp
      show ?thesis
        by (rule count [OF st x top, of "less_count (item_count (obj t x)) n"])
          (use True d top in \<open>simp add: tile_removeThing_def index [OF x]\<close>)
    next
      case False
      let ?t = "(parent_of (AnItem x) False t)\<lparr>tile_items := remove1 x (downItems t) @ topItems t, downItemCount := downItemCount t - 1\<rparr>"
      have "unat (downItemCount t) = length (downItems t)" by (rule sections_okD(1) [OF S])
      moreover have "length (downItems t) > 0" using d(2) by (cases "downItems t") auto
      ultimately have "unat (downItemCount t - 1) = length (downItems t) - 1"
        by (metis unat_minus_one gr_implies_not0 unat_0)
      then have c: "unat (downItemCount t - 1) = length (remove1 x (downItems t))"
        using d(2) by (simp add: length_remove1)
      have w: "without x t ?t"
        using nu ng c by (simp add: without_def grounds_def distinct_remove1_removeAll [OF du(2)])
      show ?thesis by (rule out [OF x w]) (simp add: tile_removeThing_def index [OF x] d top if_not_P [OF False])
    qed
  qed
qed

text \<open>A change of the items themselves that leaves alone what the tile looks at.\<close>

definition looks :: "Surroundings \<Rightarrow> Item \<Rightarrow> TileType \<times> bool" where
  "looks e i = (types e (item_id i), item_hasAttribute ITEM_ATTRIBUTE_UNIQUEID i)"

lemma looks_same:
  assumes "looks e (obj t' x) = looks e (obj t x)"
  shows "type_of e t' x = type_of e t x" and "item_hasProperty e t' x p = item_hasProperty e t x p"
  using assms by (simp_all add: looks_def type_of_def item_hasProperty_def)

lemma repainted_ok:
  assumes ok: "tile_ok e t" and same: "ground t' = ground t" "tile_items t' = tile_items t" "downItemCount t' = downItemCount t"
      "tile_creatures t' = tile_creatures t" "tile_flags t' = tile_flags t"
    and look: "\<And>x. x \<in> set (all_items t) \<Longrightarrow> looks e (obj t' x) = looks e (obj t x)"
    and par: "\<And>x. x \<in> set (all_items t) \<Longrightarrow> AnItem x \<in> parented t'" "\<And>c. c \<in> set (tile_creatures t) \<Longrightarrow> ACreature c \<in> parented t'"
  shows "tile_ok e t'"
proof -
  note S = tile_okD(1) [OF ok]
  have g: "grounds t' = grounds t" by (simp add: grounds_def same)
  have all: "all_items t' = all_items t" by (simp add: all_items_eq g same)
  have sec: "downItems t' = downItems t" "topItems t' = topItems t" by (simp_all add: downItems_def topItems_def same)
  have ty: "type_of e t' x = type_of e t x" if "x \<in> set (all_items t)" for x using looks_same(1) [OF look [OF that]] .
  have memd: "x \<in> set (all_items t)" if "x \<in> set (downItems t)" for x using that by (simp add: in_items)
  have memu: "x \<in> set (all_items t)" if "x \<in> set (topItems t)" for x using that by (simp add: in_items)
  have "map (order_of e t') (topItems t) = map (order_of e t) (topItems t)"
    by (rule map_cong [OF refl]) (simp add: order_of_def ty [OF memu])
  note ord = this
  have "sections_ok e t'"
    using S par unfolding sections_ok_def all sec same ord by (simp add: ty [OF memd] ty [OF memu])
  moreover have "fields_single e t'" using tile_okD(2) [OF ok] ty by (simp add: fields_single_def all)
  moreover have "flags_for e t' (set (all_items t'))"
  proof (rule flags_forI)
    fix p k assume "(p, k) \<in> checked"
    from flags_forD [OF tile_okD(3) [OF ok] this]
    show "bit (tile_flags t') k \<longleftrightarrow> (\<exists>y \<in> set (all_items t'). item_hasProperty e t' y p)"
      by (simp add: all same looks_same(2) [OF look])
  qed
  ultimately show ?thesis by (simp add: tile_ok_def)
qed

lemma remove_ok:
  assumes "tile_ok e t"
  shows "tile_ok e (tile_removeThing e (AnItem x) n t)"
  using tile_okD(1) [OF assms]
proof (cases rule: remove_cases [where x = x and n = n])
  case same
  with assms show ?thesis by simp
next
  case (count k)
  note S = tile_okD(1) [OF assms]
  show ?thesis
    unfolding count(4)
    by (rule repainted_ok [OF assms]) (use sections_okD(8,9) [OF S] in \<open>simp_all add: looks_def setItemCount_def item_hasAttribute_def\<close>)
next
  case (ground t1)
  then show ?thesis using removed_ok [OF assms] by simp
next
  case (out t1)
  then show ?thesis using removed_ok [OF assms] by simp
qed

lemma remove_creature_ok:
  assumes "tile_ok e t"
  shows "tile_ok e (tile_removeThing e (ACreature c) n t)"
proof -
  let ?t = "t\<lparr>tile_creatures := remove1 c (tile_creatures t)\<rparr>"
  have eqs: "all_items ?t = all_items t" "downItems ?t = downItems t" "topItems ?t = topItems t" "type_of e ?t = type_of e t"
    "order_of e ?t = order_of e t" "\<And>x p. item_hasProperty e ?t x p = item_hasProperty e t x p"
    by (simp_all add: all_items_def downItems_def topItems_def type_of_def order_of_def item_hasProperty_def fun_eq_iff)
  have "sections_ok e ?t"
    using tile_okD(1) [OF assms] notin_set_remove1 [of _ "tile_creatures t" c]
    by (auto simp: sections_ok_def eqs distinct_remove1 dest: notin_set_remove1)
  then show ?thesis
    using assms by (simp add: tile_removeThing_def tile_ok_def eqs fields_single_def flags_for_def)
qed

text \<open>An item that cannot be counted down leaves the tile.\<close>

lemma drop_old_cases:
  assumes ok: "tile_ok e t" and x: "x \<in> set (all_items t)" and single: "\<not> stackable (type_of e t x) \<or> alwaysOnTop (type_of e t x)"
  obtains ps t1 where "without x t t1" "tile_removeThing e (AnItem x) n t = onRemoveTileItem e ps x t1"
  using tile_okD(1) [OF ok] by (cases rule: remove_cases [where x = x and n = n]) (use x single that in auto)

section \<open>Adding\<close>

lemma set_insert_before [simp]: "set (insert_before stop x ys) = insert x (set ys)"
  by (induction ys) auto

lemma length_insert_before [simp]: "length (insert_before stop x ys) = length ys + 1"
  by (induction ys) auto

lemma distinct_insert_before: "distinct ys \<Longrightarrow> x \<notin> set ys \<Longrightarrow> distinct (insert_before stop x ys)"
  by (induction ys) auto

lemma sorted_insert_before:
  assumes "\<And>y. stop y \<Longrightarrow> f x \<le> f y" and "\<And>y. \<not> stop y \<Longrightarrow> f y \<le> f x" and "sorted (map f ys)"
  shows "sorted (map f (insert_before stop x ys))"
  using assms(3)
proof (induction ys)
  case (Cons y ys)
  show ?case
  proof (cases "stop y")
    case True
    with assms(1) Cons.prems show ?thesis by force
  next
    case False
    with assms(2) Cons show ?thesis by auto
  qed
qed simp

lemma drop_old_ok:
  assumes ok: "tile_ok e t" and x: "x \<in> set (all_items t)" and single: "\<not> stackable (type_of e t x) \<or> alwaysOnTop (type_of e t x)"
  shows "tile_ok e (drop_old e x t)" and "all_items (drop_old e x t) = removeAll x (all_items t)"
    and "obj (drop_old e x t) = obj t" and "parented (drop_old e x t) = parented t - {AnItem x}"
proof -
  from ok x single obtain ps t1 where w: "without x t t1" and eq: "tile_removeThing e (AnItem x) 1 t = onRemoveTileItem e ps x t1"
    by (rule drop_old_cases)
  have ok1: "tile_ok e (onRemoveTileItem e ps x t1)" by (rule removed_ok [OF ok w x])
  show all: "all_items (drop_old e x t) = removeAll x (all_items t)"
    using without_sections(3) [OF w] by (simp add: drop_old_def eq all_items_def)
  show "obj (drop_old e x t) = obj t" "parented (drop_old e x t) = parented t - {AnItem x}"
    using withoutD [OF w] by (simp_all add: drop_old_def eq)
  have all1: "all_items (onRemoveTileItem e ps x t1) = removeAll x (all_items t)"
    using without_sections(3) [OF w] by (simp add: all_items_def)
  show "tile_ok e (drop_old e x t)"
    unfolding drop_old_def eq
    by (rule repainted_ok [OF ok1])
      (use sections_okD(8,9) [OF tile_okD(1) [OF ok1]] all1 in auto)
qed

lemma drop_old_length:
  assumes "tile_ok e t" and "x \<in> set (all_items t)" and "\<not> stackable (type_of e t x) \<or> alwaysOnTop (type_of e t x)"
    and "ground t \<noteq> Some x"
  shows "length (tile_items (drop_old e x t)) < length (tile_items t)"
proof -
  from assms(1-3) obtain ps t1 where w: "without x t t1" and eq: "tile_removeThing e (AnItem x) 1 t = onRemoveTileItem e ps x t1"
    by (rule drop_old_cases)
  have "x \<in> set (tile_items t)" using assms(2,4) by (auto simp: all_items_eq grounds_def split: option.splits)
  then have "length (removeAll x (tile_items t)) < length (tile_items t)" by (rule length_removeAll_less)
  then show ?thesis using withoutD(2) [OF w] sections_split [of t] by (metis eq drop_old_def parent_of_simps(2) notify_simps(15) removeAll_append)
qed

lemma added_ok:
  assumes ok: "tile_ok e t" and S1: "sections_ok e t1" and all: "set (all_items t1) = insert x (set (all_items t))"
    and same: "obj t1 = obj t" "tile_flags t1 = tile_flags t"
    and single: "class_of e x = MagicFieldItem \<Longrightarrow> \<not> stackable (type_of e t x)"
  shows "tile_ok e (onAddTileItem e x t1)" and "tile_ok e (setTileFlags e x t1)"
proof -
  have f: "flags_for e t1 (set (all_items t))" by (rule flags_for_cong [OF tile_okD(3) [OF ok]]) (simp_all add: same)
  have fields: "fields_single e t1"
    using tile_okD(2) [OF ok] single type_of_same [OF same(1), of e] by (auto simp: fields_single_def all)
  have eqs: "all_items (onAddTileItem e x t1) = all_items t1" "all_items (setTileFlags e x t1) = all_items t1"
    "type_of e (onAddTileItem e x t1) = type_of e t1" "type_of e (setTileFlags e x t1) = type_of e t1"
    by (simp_all add: all_items_def type_of_def fun_eq_iff)
  have "sections_ok e (onAddTileItem e x t1)" "sections_ok e (setTileFlags e x t1)"
    using S1 by (simp_all add: sections_ok_def eqs downItems_def topItems_def order_of_def cong: map_cong)
  then show "tile_ok e (onAddTileItem e x t1)" "tile_ok e (setTileFlags e x t1)"
    using fields add_for [OF f, of x] set_for [OF f, of x] by (simp_all add: tile_ok_def fields_single_def eqs all)
qed

lemma put_down_ok:
  assumes S: "sections_ok e t" and new: "x \<notin> set (all_items t)" and par: "AnItem x \<in> parented t"
    and room: "length (tile_items t) < 65535" and low: "\<not> alwaysOnTop (type_of e t x)"
  shows "sections_ok e (put_down x t)" and "set (all_items (put_down x t)) = insert x (set (all_items t))"
proof -
  let ?t = "put_down x t"
  have t: "tile_items ?t = x # tile_items t" "downItemCount ?t = downItemCount t + 1" "grounds ?t = grounds t"
    "tile_creatures ?t = tile_creatures t" "parented ?t = parented t"
    by (simp_all add: put_down_def grounds_def)
  have ty: "type_of e ?t = type_of e t" "order_of e ?t = order_of e t"
    by (simp_all add: put_down_def type_of_def order_of_def fun_eq_iff)
  have n: "unat (downItemCount t) < 65535" using sections_okD(1,2) [OF S] room sections_split [of t]
    by (metis le_add1 le_less_trans length_append)
  have dc: "unat (downItemCount t + 1) = length (x # downItems t)"
    using n sections_okD(1) [OF S] by (simp add: unat_word_ariths)
  have mem: "set (all_items t) = set (grounds t) \<union> set (downItems t) \<union> set (topItems t)"
    unfolding all_items_eq sections_split [of t] by auto
  show all: "set (all_items ?t) = insert x (set (all_items t))" by (auto simp: all_items_eq t)
  show "sections_ok e ?t"
  proof (rule sections_okI [where d = "x # downItems t" and u = "topItems t"])
    show "tile_items ?t = (x # downItems t) @ topItems t" using t(1) sections_split [of t] by simp
    show "unat (downItemCount ?t) = length (x # downItems t)" using dc by (simp add: t(2))
    show "length (x # downItems t) + length (topItems t) \<le> 65535"
      using room arg_cong [OF sections_split [of t], of length] by simp
    show "distinct (grounds ?t @ (x # downItems t) @ topItems t)"
      using sections_okD(3) [OF S] new unfolding mem t(3) by auto
    show "AnItem y \<in> parented ?t" if "y \<in> set (grounds ?t @ (x # downItems t) @ topItems t)" for y
    proof -
      have "y = x \<or> y \<in> set (all_items t)" using that unfolding mem t(3) by auto
      with par sections_okD(8) [OF S, of y] t(5) show ?thesis by auto
    qed
    show "ACreature c \<in> parented ?t" if "c \<in> set (tile_creatures ?t)" for c
      using that sections_okD(9) [OF S, of c] by (simp add: t(4,5))
  qed (use low sections_okD(4,5,6,7) [OF S] in \<open>auto simp: t(4) ty\<close>)
qed

lemma put_on_top_ok:
  assumes S: "sections_ok e t" and new: "x \<notin> set (all_items t)" and par: "AnItem x \<in> parented t"
    and room: "length (tile_items t) < 65535" and high: "alwaysOnTop (type_of e t x)"
    and stop: "\<And>y. stop y \<Longrightarrow> order_of e t x \<le> order_of e t y" "\<And>y. \<not> stop y \<Longrightarrow> order_of e t y \<le> order_of e t x"
  shows "sections_ok e (put_on_top stop x t)" and "set (all_items (put_on_top stop x t)) = insert x (set (all_items t))"
proof -
  let ?t = "put_on_top stop x t" and ?u = "insert_before stop x (topItems t)"
  have t: "tile_items ?t = downItems t @ ?u" "downItemCount ?t = downItemCount t" "grounds ?t = grounds t"
    "tile_creatures ?t = tile_creatures t" "parented ?t = parented t"
    by (simp_all add: put_on_top_def grounds_def)
  have ty: "type_of e ?t = type_of e t" "order_of e ?t = order_of e t"
    by (simp_all add: put_on_top_def type_of_def order_of_def fun_eq_iff)
  have mem: "set (all_items t) = set (grounds t) \<union> set (downItems t) \<union> set (topItems t)"
    unfolding all_items_eq sections_split [of t] by auto
  show all: "set (all_items ?t) = insert x (set (all_items t))" unfolding mem by (auto simp: all_items_eq t)
  show "sections_ok e ?t"
  proof (rule sections_okI [where d = "downItems t" and u = ?u])
    show "length (downItems t) + length ?u \<le> 65535"
      using room arg_cong [OF sections_split [of t], of length] by simp
    show "distinct (grounds ?t @ downItems t @ ?u)"
      using sections_okD(3) [OF S] new distinct_insert_before [of "topItems t" x stop] unfolding mem t(3) by auto
    show "sorted (map (order_of e ?t) ?u)"
      unfolding ty by (rule sorted_insert_before [OF stop sections_okD(7) [OF S]])
    show "AnItem y \<in> parented ?t" if "y \<in> set (grounds ?t @ downItems t @ ?u)" for y
    proof -
      have "y = x \<or> y \<in> set (all_items t)" using that unfolding mem t(3) by auto
      with par sections_okD(8) [OF S, of y] t(5) show ?thesis by auto
    qed
    show "ACreature c \<in> parented ?t" if "c \<in> set (tile_creatures ?t)" for c
      using that sections_okD(9) [OF S, of c] by (simp add: t(4,5))
  qed (use high sections_okD(1,4,5,6) [OF S] in \<open>auto simp: t ty\<close>)
qed

lemma put_ground_ok:
  assumes S: "sections_ok e t" and new: "x \<notin> set (all_items t)" and par: "AnItem x \<in> parented t" and no: "ground t = None"
  shows "sections_ok e (t\<lparr>ground := Some x\<rparr>)" and "set (all_items (t\<lparr>ground := Some x\<rparr>)) = insert x (set (all_items t))"
proof -
  let ?t = "t\<lparr>ground := Some x\<rparr>"
  have all: "all_items ?t = x # all_items t" by (simp add: all_items_def no)
  then show "set (all_items ?t) = insert x (set (all_items t))" by simp
  have eqs: "downItems ?t = downItems t" "topItems ?t = topItems t" "type_of e ?t = type_of e t" "order_of e ?t = order_of e t"
    by (simp_all add: downItems_def topItems_def type_of_def order_of_def fun_eq_iff)
  show "sections_ok e ?t" using S new par by (simp add: sections_ok_def all eqs)
qed

text \<open>A new parent changes nothing else.\<close>

lemma parent_ok: "tile_ok e t \<Longrightarrow> tile_ok e (parent_of th True t)"
  by (rule repainted_ok) (auto dest: sections_okD(8,9) [OF tile_okD(1)])

lemma unparent_ok: "tile_ok e t \<Longrightarrow> x \<notin> set (all_items t) \<Longrightarrow> tile_ok e (parent_of (AnItem x) False t)"
  by (rule repainted_ok) (auto dest: sections_okD(8,9) [OF tile_okD(1)])

lemma all_items_parent [simp]: "all_items (parent_of th b t) = all_items t" "topItems (parent_of th b t) = topItems t"
  "downItems (parent_of th b t) = downItems t" "type_of e (parent_of th b t) = type_of e t"
  by (simp_all add: all_items_def topItems_def downItems_def type_of_def fun_eq_iff)

lemma drop_splash_cases:
  obtains (same) "drop_splash e x t = t" | (old) old where "old \<in> set (topItems t)" "drop_splash e x t = drop_old e old t"
proof (cases "find (\<lambda>y. isSplash (type_of e t y)) (topItems t)")
  case None
  then show ?thesis by (intro same) (simp add: drop_splash_def)
next
  case (Some old')
  then have "old' \<in> set (topItems t)" by (auto simp: find_Some_iff)
  with Some show ?thesis by (cases "isSplash (type_of e t x)") (auto simp: drop_splash_def intro: same old)
qed

lemma on_top_goes:
  assumes "sections_ok e t" and "old \<in> set (topItems t)"
  shows "old \<in> set (all_items t)" and "\<not> stackable (type_of e t old) \<or> alwaysOnTop (type_of e t old)" and "ground t \<noteq> Some old"
  using assms(2) sections_okD(6) [OF assms] ground_apart(1) [OF assms(1), of old] by (auto simp: in_items)

lemma drop_splash_ok:
  assumes ok: "tile_ok e t" and new: "x \<notin> set (all_items t)" and par: "AnItem x \<in> parented t"
    and room: "length (tile_items t) < 65535"
  shows "tile_ok e (drop_splash e x t)" and "x \<notin> set (all_items (drop_splash e x t))" and "AnItem x \<in> parented (drop_splash e x t)"
    and "length (tile_items (drop_splash e x t)) < 65535" and "obj (drop_splash e x t) = obj t"
proof -
  let ?t = "drop_splash e x t"
  have "tile_ok e ?t \<and> x \<notin> set (all_items ?t) \<and> AnItem x \<in> parented ?t \<and> length (tile_items ?t) < 65535 \<and> obj ?t = obj t"
  proof (cases rule: drop_splash_cases [of e x t])
    case same
    with ok new par room show ?thesis by simp
  next
    case (old old)
    note g = on_top_goes [OF tile_okD(1) [OF ok] old(1)]
    show ?thesis using drop_old_ok [OF ok g(1,2)] drop_old_length [OF ok g] new par room g(1) unfolding old(2) by auto
  qed
  then show "tile_ok e ?t" "x \<notin> set (all_items ?t)" "AnItem x \<in> parented ?t" "length (tile_items ?t) < 65535" "obj ?t = obj t"
    by blast+
qed

lemma add_on_top_ok:
  assumes ok: "tile_ok e t" and new: "x \<notin> set (all_items t)" and par: "AnItem x \<in> parented t"
    and room: "length (tile_items t) < 65535" and high: "alwaysOnTop (type_of e t x)"
    and single: "class_of e x = MagicFieldItem \<Longrightarrow> \<not> stackable (type_of e t x)"
  shows "tile_ok e (add_on_top e x t)"
proof -
  define t1 where "t1 = drop_splash e x t"
  note 1 = drop_splash_ok [OF ok new par room, folded t1_def]
  have ty: "type_of e t1 = type_of e t" by (rule type_of_same [OF 1(5)])
  let ?stop = "\<lambda>y. alwaysOnTopOrder (type_of e t1 x) \<le> alwaysOnTopOrder (type_of e t1 y)"
  have P: "sections_ok e (put_on_top ?stop x t1)" "set (all_items (put_on_top ?stop x t1)) = insert x (set (all_items t1))"
    by (rule put_on_top_ok [OF tile_okD(1) [OF 1(1)] 1(2-4)]; use high in \<open>auto simp: ty order_of_def order_rank_def\<close>)+
  have "tile_ok e (onAddTileItem e x (put_on_top ?stop x t1))"
    by (rule added_ok(1) [OF 1(1) P]) (use single in \<open>simp_all add: ty put_on_top_def\<close>)
  then show ?thesis by (simp add: add_on_top_def t1_def Let_def)
qed

lemma field_goes:
  assumes "tile_ok e t" and "old \<in> set (downItems t)" and "class_of e old = MagicFieldItem"
  shows "old \<in> set (all_items t)" and "\<not> stackable (type_of e t old) \<or> alwaysOnTop (type_of e t old)" and "ground t \<noteq> Some old"
  using assms(2,3) tile_okD(2) [OF assms(1)] ground_apart(2) [OF tile_okD(1) [OF assms(1)], of old]
  by (auto simp: in_items fields_single_def)

lemma add_down_ok:
  assumes ok: "tile_ok e t" and new: "x \<notin> set (all_items t)" and par: "AnItem x \<in> parented t"
    and room: "length (tile_items t) < 65535" and low: "\<not> alwaysOnTop (type_of e t x)"
    and single: "class_of e x = MagicFieldItem \<Longrightarrow> \<not> stackable (type_of e t x)"
  shows "tile_ok e (add_down e x t)"
proof -
  have put: "tile_ok e (onAddTileItem e x (put_down x t1))"
    if "tile_ok e t1" "x \<notin> set (all_items t1)" "AnItem x \<in> parented t1" "length (tile_items t1) < 65535" "obj t1 = obj t" for t1
  proof -
    have ty: "type_of e t1 = type_of e t" by (rule type_of_same) (rule that(5))
    note P = put_down_ok [OF tile_okD(1) [OF that(1)] that(2-4), unfolded ty, OF low]
    show ?thesis by (rule added_ok(1) [OF that(1) P]) (use single in \<open>simp_all add: put_down_def ty\<close>)
  qed
  show ?thesis
  proof (cases "if isMagicField (type_of e t x) then find (\<lambda>y. class_of e y = MagicFieldItem) (downItems t) else None")
    case None
    with put [OF ok new par room] show ?thesis by (simp add: add_down_def)
  next
    case (Some old)
    then have f: "find (\<lambda>y. class_of e y = MagicFieldItem) (downItems t) = Some old" by (simp split: if_splits)
    then have d: "old \<in> set (downItems t)" "class_of e old = MagicFieldItem" by (auto simp: find_Some_iff)
    note g = field_goes [OF ok d]
    have "tile_ok e (onAddTileItem e x (put_down x (drop_old e old t)))"
      by (rule put) (use drop_old_ok [OF ok g(1,2)] drop_old_length [OF ok g] new par room g(1) in auto)
    with Some unparent_ok [OF ok new] show ?thesis by (simp add: add_down_def)
  qed
qed

section \<open>Replacing\<close>

definition swap :: "addr \<Rightarrow> addr \<Rightarrow> addr \<Rightarrow> addr" where
  "swap old x y = (if y = old then x else y)"

definition swapped_in :: "addr \<Rightarrow> addr \<Rightarrow> Tile \<Rightarrow> Tile \<Rightarrow> bool" where
  "swapped_in old x t t1 \<longleftrightarrow> grounds t1 = map (swap old x) (grounds t) \<and>
     tile_items t1 = map (swap old x) (downItems t) @ map (swap old x) (topItems t) \<and>
     downItemCount t1 = downItemCount t \<and> tile_creatures t1 = tile_creatures t \<and> obj t1 = obj t \<and>
     AnItem x \<in> parented t1 \<and> parented t - {AnItem old} \<subseteq> parented t1 \<and> tile_flags t1 = tile_flags t"

definition fits_section :: "Surroundings \<Rightarrow> Tile \<Rightarrow> addr \<Rightarrow> TileType \<Rightarrow> bool" where
  "fits_section e t old new \<longleftrightarrow> (old \<in> set (tile_items t) \<longrightarrow> alwaysOnTop new = alwaysOnTop (type_of e t old) \<and>
     (alwaysOnTop new \<longrightarrow> keepsOrder e \<longrightarrow> alwaysOnTopOrder new = alwaysOnTopOrder (type_of e t old)))"

lemma swap_all: "old \<notin> set ys \<Longrightarrow> map (swap old x) ys = ys"
  by (induction ys) (auto simp: swap_def)

lemma swap_update: "distinct ys \<Longrightarrow> i < length ys \<Longrightarrow> ys[i := x] = map (swap (ys ! i) x) ys"
  by (rule nth_equalityI) (auto simp: swap_def nth_list_update nth_eq_iff_index_eq)

lemma distinct_swap: "distinct ys \<Longrightarrow> x \<notin> set ys \<Longrightarrow> distinct (map (swap old x) ys)"
  by (auto simp: distinct_map inj_on_def swap_def)

lemma reset_then_set:
  assumes f: "flags_for e t (insert old S)" and "set (all_items t) - {old} = insert x S" and "old \<notin> S" and "old \<noteq> x"
  shows "flags_for e (setTileFlags e x (resetTileFlags e old t)) (insert x S)"
proof (rule flags_forI)
  fix p k assume pk: "(p, k) \<in> checked"
  have c: "item_hasProperty e (setTileFlags e x (resetTileFlags e old t)) y p = item_hasProperty e t y p"
    "item_hasProperty e (resetTileFlags e old t) y p = item_hasProperty e t y p" for y
    by (rule item_hasProperty_cong; simp)+
  from setTileFlags_bit [OF pk] resetTileFlags_bit [OF pk] flags_forD [OF f pk] tile_hasProperty_but_iff [of e t old p] assms(2)
  show "bit (tile_flags (setTileFlags e x (resetTileFlags e old t))) k \<longleftrightarrow>
    (\<exists>y \<in> insert x S. item_hasProperty e (setTileFlags e x (resetTileFlags e old t)) y p)" by (auto simp: c)
qed

lemma swapped_ok:
  assumes ok: "tile_ok e t" and w: "swapped_in old x t t1" and old: "old \<in> set (all_items t)" and new: "x \<notin> set (all_items t)"
    and fits: "fits_section e t old (type_of e t x)" and single: "class_of e x = MagicFieldItem \<Longrightarrow> \<not> stackable (type_of e t x)"
  shows "tile_ok e (setTileFlags e x (resetTileFlags e old t1))" and "old \<notin> set (all_items t1)"
proof -
  note S = tile_okD(1) [OF ok]
  have w': "grounds t1 = map (swap old x) (grounds t)"
    "tile_items t1 = map (swap old x) (downItems t) @ map (swap old x) (topItems t)"
    "downItemCount t1 = downItemCount t" "tile_creatures t1 = tile_creatures t" "obj t1 = obj t" "AnItem x \<in> parented t1"
    "parented t - {AnItem old} \<subseteq> parented t1" "tile_flags t1 = tile_flags t"
    using w by (simp_all add: swapped_in_def)
  let ?t = "setTileFlags e x (resetTileFlags e old t1)"
  have ne: "old \<noteq> x" using old new by auto
  have all1: "all_items t1 = map (swap old x) (all_items t)" by (simp add: all_items_eq w' sections_split [of t])
  have all: "all_items ?t = all_items t1" by (simp add: all_items_def)
  have set_all: "set (all_items t1) = insert x (set (all_items t) - {old})"
    using old unfolding all1 by (auto simp: swap_def image_iff)
  then show "old \<notin> set (all_items t1)" using ne by simp
  have g: "grounds ?t = grounds t1" by (simp add: grounds_def)
  have ty: "type_of e ?t = type_of e t" "order_of e ?t = order_of e t"
    using type_of_same [of ?t t] order_of_same [of ?t t] w'(5) by simp_all
  have mem: "set (tile_items t) = set (downItems t) \<union> set (topItems t)" by (subst sections_split) auto
  have "sections_ok e ?t"
  proof (rule sections_okI [where d = "map (swap old x) (downItems t)" and u = "map (swap old x) (topItems t)"])
    have "distinct (map (swap old x) (grounds t @ downItems t @ topItems t))"
      by (rule distinct_swap [OF sections_okD(3) [OF S]]) (use new in \<open>simp add: all_items_eq mem\<close>)
    then show "distinct (grounds ?t @ map (swap old x) (downItems t) @ map (swap old x) (topItems t))" by (simp add: g w'(1))
    show "\<not> alwaysOnTop (type_of e ?t y)" if y: "y \<in> set (map (swap old x) (downItems t))" for y
    proof -
      from y obtain y' where d: "y' \<in> set (downItems t)" and "y = swap old x y'" by auto
      with sections_okD(5) [OF S d] fits show ?thesis by (auto simp: swap_def ty fits_section_def mem split: if_splits)
    qed
    show "alwaysOnTop (type_of e ?t y)" if y: "y \<in> set (map (swap old x) (topItems t))" for y
    proof -
      from y obtain y' where u: "y' \<in> set (topItems t)" and "y = swap old x y'" by auto
      with sections_okD(6) [OF S u] fits show ?thesis by (auto simp: swap_def ty fits_section_def mem split: if_splits)
    qed
    have "order_of e t (swap old x y) = order_of e t y" if "y \<in> set (topItems t)" for y
      using that sections_okD(6) [OF S that] fits by (auto simp: swap_def fits_section_def mem order_of_def order_rank_def)
    then have "map (order_of e t) (map (swap old x) (topItems t)) = map (order_of e t) (topItems t)" by simp
    with sections_okD(7) [OF S] show "sorted (map (order_of e ?t) (map (swap old x) (topItems t)))" by (simp only: ty)
    show "AnItem y \<in> parented ?t" if "y \<in> set (grounds ?t @ map (swap old x) (downItems t) @ map (swap old x) (topItems t))" for y
    proof -
      have "y \<in> set (all_items t1)" using that by (simp add: all_items_eq g w'(2))
      with set_all w'(6,7) sections_okD(8) [OF S, of y] show ?thesis by auto
    qed
    show "ACreature c \<in> parented ?t" if "c \<in> set (tile_creatures ?t)" for c
      using that sections_okD(9) [OF S, of c] w'(4,7) by auto
  qed (use w' sections_okD(1,2,4) [OF S] in simp_all)
  moreover have "fields_single e ?t"
    using tile_okD(2) [OF ok] single by (auto simp: fields_single_def all set_all ty)
  moreover have "flags_for e ?t (set (all_items ?t))"
    unfolding all set_all
  proof (rule reset_then_set [OF _ _ _ ne])
    show "flags_for e t1 (insert old (set (all_items t) - {old}))"
      unfolding insert_Diff [OF old] by (rule flags_for_cong [OF tile_okD(3) [OF ok] w'(8)]) (simp add: w'(5))
    show "set (all_items t1) - {old} = insert x (set (all_items t) - {old})" using set_all ne by auto
  qed simp
  ultimately show "tile_ok e ?t" by (simp add: tile_ok_def)
qed

lemma notified_ok: "tile_ok e t \<Longrightarrow> tile_ok e (onUpdateTileItem e x t)"
  by (rule repainted_ok) (auto dest: sections_okD(8,9) [OF tile_okD(1)])

lemma replace_ground_ok:
  assumes ok: "tile_ok e t" and g: "ground t = Some old" and new: "x \<notin> set (all_items t)" and par: "AnItem x \<in> parented t"
    and single: "class_of e x = MagicFieldItem \<Longrightarrow> \<not> stackable (type_of e t x)"
  shows "tile_ok e (replace_ground e old x t)"
proof -
  have "old \<notin> set (downItems t)" "old \<notin> set (topItems t)" using ground_apart [OF tile_okD(1) [OF ok] g] by auto
  note n = this
  let ?t = "(parent_of (AnItem old) False t)\<lparr>ground := Some x\<rparr>"
  have "swapped_in old x t ?t"
    using g par n new by (auto simp: swapped_in_def grounds_def swap_def swap_all in_items simp flip: sections_split)
  then have "tile_ok e (setTileFlags e x (resetTileFlags e old ?t))"
  proof (rule swapped_ok(1) [OF ok])
    show "fits_section e t old (type_of e t x)"
      using n arg_cong [OF sections_split [of t], of set] by (simp add: fits_section_def)
  qed (use g new single in \<open>simp_all add: in_items\<close>)
  then show ?thesis unfolding replace_ground_def by (rule notified_ok)
qed

lemma replaced_ok:
  assumes ok: "tile_ok e t" and w: "swapped_in old x t (parent_of (AnItem x) True t1)" and old: "old \<in> set (all_items t)"
    and new: "x \<notin> set (all_items t)" and fits: "fits_section e t old (type_of e t x)"
    and single: "class_of e x = MagicFieldItem \<Longrightarrow> \<not> stackable (type_of e t x)"
  shows "tile_ok e (replaced e old x t1)"
proof -
  let ?t = "parent_of (AnItem x) True t1"
  note P = swapped_ok [OF ok w old new fits single]
  have "old \<notin> set (all_items (onUpdateTileItem e x (setTileFlags e x (resetTileFlags e old ?t))))"
    using P(2) by (simp add: all_items_def)
  with notified_ok [OF P(1)] show ?thesis unfolding replaced_def by (rule unparent_ok)
qed

text \<open>Replacing finds an item and puts the new one in its place, or does nothing.\<close>

lemma replace_cases:
  assumes S: "sections_ok e t" and new: "x \<notin> set (all_items t)"
  obtains (same) "tile_replaceThing e n (AnItem x) t = t"
  | (swap) old t1 where "old \<in> set (all_items t)" "tile_getThing t n = Some (AnItem old)"
      "swapped_in old x t (parent_of (AnItem x) True t1)" "tile_sent t1 = tile_sent t"
      "tile_replaceThing e n (AnItem x) t = replaced e old x t1"
proof -
  note get = getThing_stack [OF S, of n]
  have du: "distinct (topItems t)" "distinct (downItems t)" using sections_okD(3) [OF S] by simp_all
  define i1 where "i1 = (if ground t = None then n else n - 1)"
  let ?i2 = "i1 - length (topItems t)" and ?i3 = "i1 - length (topItems t) - length (tile_creatures t)"
  have eq: "tile_replaceThing e n (AnItem x) t =
      (if n = 0 \<and> ground t \<noteq> None then replaced e (the (ground t)) x (t\<lparr>ground := Some x\<rparr>)
       else if i1 < length (topItems t)
       then replaced e (topItems t ! i1) x (t\<lparr>tile_items := downItems t @ (topItems t)[i1 := x]\<rparr>)
       else if ?i2 < length (tile_creatures t) then t
       else if ?i3 < length (downItems t)
       then replaced e (downItems t ! ?i3) x (t\<lparr>tile_items := (downItems t)[?i3 := x] @ topItems t\<rparr>) else t)"
    by (simp only: tile_replaceThing_def Let_def Thing.case i1_def)
  consider (g) old where "n = 0" "ground t = Some old"
    | (u) "\<not> (n = 0 \<and> ground t \<noteq> None)" "i1 < length (topItems t)"
    | (d) "\<not> (n = 0 \<and> ground t \<noteq> None)" "\<not> i1 < length (topItems t)" "\<not> ?i2 < length (tile_creatures t)" "?i3 < length (downItems t)"
    | (c) "\<not> (n = 0 \<and> ground t \<noteq> None)" "\<not> i1 < length (topItems t)" "?i2 < length (tile_creatures t)"
    | (none) "\<not> (n = 0 \<and> ground t \<noteq> None)" "\<not> i1 < length (topItems t)" "\<not> ?i2 < length (tile_creatures t)"
        "\<not> ?i3 < length (downItems t)"
    by blast
  then show ?thesis
  proof cases
    case (g old)
    show ?thesis
    proof (rule swap)
      show "old \<in> set (all_items t)" using g by (simp add: in_items)
      show "tile_getThing t n = Some (AnItem old)" using g by (simp add: tile_getThing_def)
      show "swapped_in old x t (parent_of (AnItem x) True (t\<lparr>ground := Some x\<rparr>))"
        using g(2) ground_apart [OF S g(2)] new
        by (auto simp: swapped_in_def grounds_def swap_def swap_all simp flip: sections_split)
      show "tile_replaceThing e n (AnItem x) t = replaced e old x (t\<lparr>ground := Some x\<rparr>)" unfolding eq using g by simp
    qed simp
  next
    case u
    let ?old = "topItems t ! i1"
    have o': "?old \<in> set (topItems t)" using u(2) by simp
    then have apart: "?old \<notin> set (grounds t)" "?old \<notin> set (downItems t)" using sections_okD(3) [OF S] by auto
    show ?thesis
    proof (rule swap)
      show "?old \<in> set (all_items t)" using o' by (simp add: in_items)
      show "tile_getThing t n = Some (AnItem ?old)"
        using get u by (cases n) (auto simp: stack_def grounds_def i1_def nth_append split: option.splits)
      show "swapped_in ?old x t (parent_of (AnItem x) True (t\<lparr>tile_items := downItems t @ (topItems t)[i1 := x]\<rparr>))"
        using swap_update [OF du(1) u(2), of x] swap_all [OF apart(1)] swap_all [OF apart(2)]
        by (auto simp: swapped_in_def grounds_def)
      show "tile_replaceThing e n (AnItem x) t = replaced e ?old x (t\<lparr>tile_items := downItems t @ (topItems t)[i1 := x]\<rparr>)"
        unfolding eq if_not_P [OF u(1)] if_P [OF u(2)] ..
    qed simp
  next
    case d
    let ?old = "downItems t ! ?i3"
    have o': "?old \<in> set (downItems t)" using d(4) by simp
    then have apart: "?old \<notin> set (grounds t)" "?old \<notin> set (topItems t)" using sections_okD(3) [OF S] by auto
    show ?thesis
    proof (rule swap)
      show "?old \<in> set (all_items t)" using o' by (simp add: in_items)
      show "tile_getThing t n = Some (AnItem ?old)"
        using get d by (cases n) (auto simp: stack_def grounds_def i1_def nth_append split: option.splits)
      show "swapped_in ?old x t (parent_of (AnItem x) True (t\<lparr>tile_items := (downItems t)[?i3 := x] @ topItems t\<rparr>))"
        using swap_update [OF du(2) d(4), of x] swap_all [OF apart(1)] swap_all [OF apart(2)]
        by (auto simp: swapped_in_def grounds_def)
      show "tile_replaceThing e n (AnItem x) t = replaced e ?old x (t\<lparr>tile_items := (downItems t)[?i3 := x] @ topItems t\<rparr>)"
        unfolding eq if_not_P [OF d(1)] if_not_P [OF d(2)] if_not_P [OF d(3)] if_P [OF d(4)] ..
    qed simp
  next
    case c
    show ?thesis by (rule same) (unfold eq if_not_P [OF c(1)] if_not_P [OF c(2)] if_P [OF c(3)], rule refl)
  next
    case none
    show ?thesis
      by (rule same) (unfold eq if_not_P [OF none(1)] if_not_P [OF none(2)] if_not_P [OF none(3)] if_not_P [OF none(4)], rule refl)
  qed
qed

lemma replace_ok:
  assumes ok: "tile_ok e t" and new: "x \<notin> set (all_items t)"
    and fits: "\<And>old. tile_getThing t n = Some (AnItem old) \<Longrightarrow> fits_section e t old (type_of e t x)"
    and single: "class_of e x = MagicFieldItem \<Longrightarrow> \<not> stackable (type_of e t x)"
  shows "tile_ok e (tile_replaceThing e n (AnItem x) t)"
  using tile_okD(1) [OF ok] new
proof (cases rule: replace_cases [where n = n])
  case same
  with ok show ?thesis by simp
next
  case (swap old t1)
  then show ?thesis using replaced_ok [OF ok swap(3,1) new fits [OF swap(2)] single] by simp
qed

section \<open>Changing in place\<close>

lemma setSubType_id: "item_id (setSubType its n i) = item_id i"
  by (simp add: setSubType_def setFluidType_def setCharges_def setItemCount_def setIntAttr_def)

lemma removeAttribute_id: "item_removeAttribute a i = Some j \<Longrightarrow> item_id j = item_id i"
  by (auto simp: item_removeAttribute_def split: option.splits)

lemma setID_id: "setID its newid i = Some j \<Longrightarrow> item_id j = newid"
  by (auto simp: setID_def Let_def setIntAttr_def dest!: removeAttribute_id split: Option.bind_splits if_splits)

lemma update_ok:
  assumes ok: "tile_ok e t" and upd: "tile_updateThing e th itemId n t = Some t'"
    and fits: "\<And>x. th = AnItem x \<Longrightarrow> fits_section e t x (types e itemId)"
    and single: "\<And>x. th = AnItem x \<Longrightarrow> class_of e x = MagicFieldItem \<Longrightarrow> \<not> stackable (types e itemId)"
  shows "tile_ok e t'"
proof (cases "tile_getThingIndex e t th = -1 \<or> (\<exists>c. th = ACreature c)")
  case True
  with upd have "t' = t" by (auto simp: tile_updateThing_def split: if_splits)
  with ok show ?thesis by simp
next
  case False
  note S = tile_okD(1) [OF ok]
  from False obtain x where th: "th = AnItem x" by (cases th) auto
  let ?its = "\<lambda>i. ItemType.truncate (types e i)"
  from upd False th obtain i1 where i1: "setID ?its itemId (obj t x) = Some i1"
    and t': "t' = onUpdateTileItem e x (setTileFlags e x ((resetTileFlags e x t)\<lparr>obj := (obj t)(x := setSubType ?its (ucast n) i1)\<rparr>))"
    by (auto simp: tile_updateThing_def Let_def)
  let ?i = "setSubType ?its (ucast n) i1" and ?r = "resetTileFlags e x t"
  let ?t = "?r\<lparr>obj := (obj t)(x := ?i)\<rparr>"
  have id: "item_id ?i = itemId" using setSubType_id [of ?its] setID_id [OF i1] by simp
  have m: "x \<in> set (all_items t)"
  proof (rule ccontr)
    assume "x \<notin> set (all_items t)"
    then have "AnItem x \<notin> set (stack t)" unfolding in_items by (auto simp: stack_def grounds_def split: option.splits)
    from index_none(1) [OF this] False th show False by simp
  qed
  have eqs: "all_items ?t = all_items t" "downItems ?t = downItems t" "topItems ?t = topItems t"
    by (simp_all add: all_items_def downItems_def topItems_def)
  have ty: "type_of e ?t y = (if y = x then types e itemId else type_of e t y)" for y
    by (simp add: type_of_def id)
  have mem: "set (tile_items t) = set (downItems t) \<union> set (topItems t)" by (subst sections_split) auto
  have f: "fits_section e t x (types e itemId)" using fits th by blast
  have "order_of e ?t y = order_of e t y" if "y \<in> set (topItems t)" for y
    using that f sections_okD(6) [OF S that] by (auto simp: order_of_def order_rank_def ty fits_section_def mem)
  then have ord: "map (order_of e ?t) (topItems t) = map (order_of e t) (topItems t)" by simp
  have "sections_ok e ?t"
    using S unfolding sections_ok_def eqs ord ty
    using f by (auto simp: fits_section_def mem)
  moreover have "fields_single e ?t"
    using tile_okD(2) [OF ok] single th unfolding fields_single_def eqs ty by auto
  ultimately have st: "sections_ok e ?t" "fields_single e ?t" by blast+
  have "flags_for e ?r (set (all_items t) - {x})"
    by (rule reset_for) (simp_all add: insert_absorb m tile_okD(3) [OF ok])
  then have "flags_for e ?t (set (all_items t) - {x})" by (rule flags_for_cong) simp_all
  from set_for [OF this, of x] have fl: "flags_for e (setTileFlags e x ?t) (set (all_items t))" by (simp add: insert_absorb m)
  have eqs': "all_items (setTileFlags e x ?t) = all_items t" "downItems (setTileFlags e x ?t) = downItems ?t"
    "topItems (setTileFlags e x ?t) = topItems ?t" "type_of e (setTileFlags e x ?t) = type_of e ?t"
    "order_of e (setTileFlags e x ?t) = order_of e ?t"
    by (simp_all add: all_items_def downItems_def topItems_def type_of_def order_of_def fun_eq_iff)
  have "tile_ok e (setTileFlags e x ?t)"
    using st fl unfolding tile_ok_def sections_ok_def fields_single_def eqs' eqs by simp
  then show ?thesis unfolding t' by (rule notified_ok)
qed

section \<open>Runs\<close>

lemma add_creature_ok:
  assumes ok: "tile_ok e t" and new: "c \<notin> set (tile_creatures t)" and par: "ACreature c \<in> parented t"
  shows "tile_ok e (t\<lparr>tile_creatures := c # tile_creatures t\<rparr>)"
proof -
  let ?t = "t\<lparr>tile_creatures := c # tile_creatures t\<rparr>"
  have eqs: "all_items ?t = all_items t" "downItems ?t = downItems t" "topItems ?t = topItems t" "type_of e ?t = type_of e t"
    "order_of e ?t = order_of e t" "\<And>x p. item_hasProperty e ?t x p = item_hasProperty e t x p"
    by (simp_all add: all_items_def downItems_def topItems_def type_of_def order_of_def item_hasProperty_def fun_eq_iff)
  have "sections_ok e ?t" using tile_okD(1) [OF ok] new par by (simp add: sections_ok_def eqs)
  then show ?thesis using ok by (simp add: tile_ok_def eqs fields_single_def flags_for_def)
qed

lemma add_item_ok:
  assumes ok: "tile_ok e t" and new: "x \<notin> set (all_items t)"
    and single: "class_of e x = MagicFieldItem \<Longrightarrow> \<not> stackable (type_of e t x)"
  shows "tile_ok e (tile_addThing e (AnItem x) t)" and "tile_ok e (tile_internalAddThing e (AnItem x) t)"
proof -
  let ?t = "parent_of (AnItem x) True t"
  have ok': "tile_ok e ?t" by (rule parent_ok [OF ok])
  have new': "x \<notin> set (all_items ?t)" "AnItem x \<in> parented ?t" using new by simp_all
  have single': "class_of e x = MagicFieldItem \<Longrightarrow> \<not> stackable (type_of e ?t x)" using single by simp
  note S = tile_okD(1) [OF ok']
  have g: "tile_ok e (onAddTileItem e x (?t\<lparr>ground := Some x\<rparr>))" "tile_ok e (setTileFlags e x (?t\<lparr>ground := Some x\<rparr>))"
    if "ground ?t = None"
    using added_ok [OF ok' put_ground_ok [OF S new' that] _ _ single'] by simp_all
  show "tile_ok e (tile_addThing e (AnItem x) t)"
    using ok g(1) replace_ground_ok [OF ok' _ new' single'] add_on_top_ok [OF ok' new' _ _ single'] add_down_ok [OF ok' new' _ _ single']
    by (auto simp: tile_addThing_def Let_def split: option.split)
  have top: "tile_ok e (setTileFlags e x (put_on_top (\<lambda>y. alwaysOnTopOrder (type_of e ?t y) > alwaysOnTopOrder (type_of e t x)) x ?t))"
    if r: "length (tile_items ?t) < 65535" and h: "alwaysOnTop (type_of e t x)"
  proof -
    have h': "alwaysOnTop (type_of e ?t x)" using h by simp
    have st: "alwaysOnTopOrder (type_of e ?t y) > alwaysOnTopOrder (type_of e t x) \<Longrightarrow> order_of e ?t x \<le> order_of e ?t y"
      "\<not> alwaysOnTopOrder (type_of e ?t y) > alwaysOnTopOrder (type_of e t x) \<Longrightarrow> order_of e ?t y \<le> order_of e ?t x" for y
      by (auto simp: order_of_def order_rank_def)
    note P = put_on_top_ok [OF S new' r h' st]
    show ?thesis by (rule added_ok(2) [OF ok' P _ _ single']) (simp_all add: put_on_top_def)
  qed
  have down: "tile_ok e (setTileFlags e x (put_down x ?t))" if r: "length (tile_items ?t) < 65535" and l: "\<not> alwaysOnTop (type_of e t x)"
  proof -
    have l': "\<not> alwaysOnTop (type_of e ?t x)" using l by simp
    show ?thesis by (rule added_ok(2) [OF ok' put_down_ok [OF S new' r l'] _ _ single']) (simp_all add: put_down_def)
  qed
  show "tile_ok e (tile_internalAddThing e (AnItem x) t)"
    using ok' g(2) top down by (auto simp: tile_internalAddThing_def Let_def not_less)
qed

end
