(* ===== verification/TileLife.thy ===== *)
theory TileLife
  imports TileRun
begin

text \<open>
  The life of a tile: every run of its operations keeps its sections in order and its flags true,
  and the numbers it tells the players' clients are the places of the items in what they are shown.
\<close>

section \<open>Runs\<close>

definition bare_tile :: Tile where
  "bare_tile = \<lparr>ground = None, tile_items = [], downItemCount = 0, tile_creatures = [], tile_flags = 0,
     obj = \<lambda>_. \<lparr>item_id = 0, item_count = 1, item_attrs = None\<rparr>, parented = {}, tile_sent = []\<rparr>"

definition may_hold :: "Surroundings \<Rightarrow> addr \<Rightarrow> TileType \<Rightarrow> bool" where
  "may_hold e x it \<longleftrightarrow> (class_of e x = MagicFieldItem \<longrightarrow> \<not> stackable it)"

text \<open>What the game does to a tile.  A thing is added only when it is not there already, and no type of a magic field is
  stackable.  An item changes or is replaced only within its section: \<open>Game::transformItem\<close> arranges this at line 1556,
  but not at line 1600, where an item without charges becomes what its type decays to, of which we assume that it
  is of the same section.  Nothing keeps it from becoming one of another order, unless \<open>keepsOrder\<close> says that the
  types are such.  Elsewhere items change freely, but none that lies there is given or loses a unique id.\<close>

inductive tile_step :: "Surroundings \<Rightarrow> Tile \<Rightarrow> Tile \<Rightarrow> bool" for e where
  add: "tile_step e t (tile_addThing e (AnItem x) t)" if "x \<notin> set (all_items t)" "may_hold e x (type_of e t x)"
| load: "tile_step e t (tile_internalAddThing e (AnItem x) t)" if "x \<notin> set (all_items t)" "may_hold e x (type_of e t x)"
| enter: "tile_step e t (tile_addThing e (ACreature c) t)" if "c \<notin> set (tile_creatures t)"
| place: "tile_step e t (tile_internalAddThing e (ACreature c) t)" if "c \<notin> set (tile_creatures t)"
| remove: "tile_step e t (tile_removeThing e th n t)"
| update: "tile_step e t t'" if "tile_updateThing e th itemId n t = Some t'"
    "\<And>x. th = AnItem x \<Longrightarrow> fits_section e t x (types e itemId) \<and> may_hold e x (types e itemId)"
| replace: "tile_step e t (tile_replaceThing e n (AnItem x) t)" if "x \<notin> set (all_items t)" "may_hold e x (type_of e t x)"
    "\<And>old. tile_getThing t n = Some (AnItem old) \<Longrightarrow> fits_section e t old (type_of e t x)"
| zone: "tile_step e t (setFlag f t)"
    if "f \<in> {TILESTATE_PROTECTIONZONE, TILESTATE_NOPVPZONE, TILESTATE_NOLOGOUT, TILESTATE_PVPZONE}"
| elsewhere: "tile_step e t (t\<lparr>obj := f, parented := P\<rparr>)" if "\<And>x. x \<in> set (all_items t) \<Longrightarrow> looks e (f x) = looks e (obj t x)"
    "\<And>x. x \<in> set (all_items t) \<Longrightarrow> AnItem x \<in> P" "\<And>c. c \<in> set (tile_creatures t) \<Longrightarrow> ACreature c \<in> P"

lemma bare_ok: "tile_ok e bare_tile"
  by (simp add: tile_ok_def sections_ok_def fields_single_def flags_for_def bare_tile_def all_items_def downItems_def topItems_def)

lemma zone_ok:
  assumes ok: "tile_ok e t" and f: "f \<in> {TILESTATE_PROTECTIONZONE, TILESTATE_NOPVPZONE, TILESTATE_NOLOGOUT, TILESTATE_PVPZONE}"
  shows "tile_ok e (setFlag f t)"
proof -
  have b: "\<not> bit f k" if "(p, k) \<in> checked" for p k using that f by (auto simp: checked_def)
  have "flags_for e (setFlag f t) (set (all_items (setFlag f t)))"
  proof (rule flags_forI)
    fix p k assume pk: "(p, k) \<in> checked"
    have "all_items (setFlag f t) = all_items t" "\<And>y. item_hasProperty e (setFlag f t) y p = item_hasProperty e t y p"
      by (simp_all add: setFlag_def all_items_def item_hasProperty_def type_of_def)
    with flags_forD [OF tile_okD(3) [OF ok] pk] b [OF pk]
    show "bit (tile_flags (setFlag f t)) k \<longleftrightarrow> (\<exists>y \<in> set (all_items (setFlag f t)). item_hasProperty e (setFlag f t) y p)"
      by (simp add: setFlag_def bit_or_iff)
  qed
  moreover have "sections_ok e (setFlag f t)" "fields_single e (setFlag f t)"
    using tile_okD(1,2) [OF ok]
    by (simp_all add: setFlag_def sections_ok_def fields_single_def all_items_def downItems_def topItems_def order_of_def type_of_def
        cong: map_cong)
  ultimately show ?thesis by (simp add: tile_ok_def)
qed

lemma tile_step_ok:
  assumes "tile_step e t t'" and ok: "tile_ok e t"
  shows "tile_ok e t'"
  using assms(1)
proof cases
  case (add x)
  with add_item_ok(1) [OF ok] show ?thesis by (simp add: may_hold_def)
next
  case (load x)
  with add_item_ok(2) [OF ok] show ?thesis by (simp add: may_hold_def)
next
  case (enter c)
  have "tile_ok e (parent_of (ACreature c) True t)" by (rule parent_ok [OF ok])
  from add_creature_ok [OF this] enter show ?thesis by (simp add: tile_addThing_def)
next
  case (place c)
  have "tile_ok e (parent_of (ACreature c) True t)" by (rule parent_ok [OF ok])
  from add_creature_ok [OF this] place show ?thesis by (simp add: tile_internalAddThing_def Let_def)
next
  case (remove th n)
  then show ?thesis using remove_ok [OF ok] remove_creature_ok [OF ok] by (cases th) simp_all
next
  case (update th itemId n)
  show ?thesis by (rule update_ok [OF ok update(1)]) (use update(2) in \<open>auto simp: may_hold_def\<close>)
next
  case (replace x n)
  with replace_ok [OF ok] show ?thesis by (simp add: may_hold_def)
next
  case (zone f)
  with zone_ok [OF ok] show ?thesis by simp
next
  case (elsewhere f P)
  show ?thesis unfolding elsewhere(1) by (rule repainted_ok [OF ok]) (use elsewhere in simp_all)
qed

lemma tile_run_ok: "(tile_step e)\<^sup>*\<^sup>* bare_tile t \<Longrightarrow> tile_ok e t"
  by (induction rule: rtranclp_induct) (auto intro: tile_step_ok bare_ok)

lemma flag_of_bit: "hasFlag TILESTATE_BLOCKSOLID t = bit (tile_flags t) 17" "hasFlag TILESTATE_BLOCKPATH t = bit (tile_flags t) 18"
  "hasFlag TILESTATE_IMMOVABLEBLOCKSOLID t = bit (tile_flags t) 19"
  "hasFlag TILESTATE_IMMOVABLENOFIELDBLOCKPATH t = bit (tile_flags t) 21" "hasFlag TILESTATE_NOFIELDBLOCKPATH t = bit (tile_flags t) 22"
  by (simp_all only: hasFlag_def flag_defs hasBitSet_push)

lemma flag_iff_property:
  assumes "tile_ok e t"
  shows "hasFlag TILESTATE_BLOCKSOLID t = tile_hasProperty e t CONST_PROP_BLOCKSOLID"
    and "hasFlag TILESTATE_BLOCKPATH t = tile_hasProperty e t CONST_PROP_BLOCKPATH"
    and "hasFlag TILESTATE_IMMOVABLEBLOCKSOLID t = tile_hasProperty e t CONST_PROP_IMMOVABLEBLOCKSOLID"
    and "hasFlag TILESTATE_IMMOVABLENOFIELDBLOCKPATH t = tile_hasProperty e t CONST_PROP_IMMOVABLENOFIELDBLOCKPATH"
    and "hasFlag TILESTATE_NOFIELDBLOCKPATH t = tile_hasProperty e t CONST_PROP_NOFIELDBLOCKPATH"
  unfolding flag_of_bit tile_hasProperty_iff
  by (rule flags_forD [OF tile_okD(3) [OF assms]]; simp add: checked_def)+

text \<open>C20: through every run in which items change only within their section, magic fields do not stack and no item
  that lies there is given a unique id, a tile is well formed: the count of ordinary items is within the vector and
  does not wrap, the ordinary items come first and those always on top after them, in their order if no item
  becomes one of another order, nothing is there twice, everything there has the tile as its parent, the place the tile gives for
  a thing is where it finds that thing, and the flags for blocking are set exactly when something
  on the tile blocks in that way.\<close>

theorem tile_well_formed:
  assumes "(tile_step e)\<^sup>*\<^sup>* bare_tile t"
  shows "unat (downItemCount t) \<le> length (tile_items t) \<and> length (tile_items t) \<le> 65535 \<and>
    distinct (all_items t) \<and> distinct (tile_creatures t) \<and>
    list_all (\<lambda>x. \<not> alwaysOnTop (type_of e t x)) (downItems t) \<and> list_all (\<lambda>x. alwaysOnTop (type_of e t x)) (topItems t) \<and>
    (keepsOrder e \<longrightarrow> sorted (map (\<lambda>x. alwaysOnTopOrder (type_of e t x)) (topItems t))) \<and>
    AnItem ` set (all_items t) \<union> ACreature ` set (tile_creatures t) \<subseteq> parented t \<and>
    (\<forall>th n. tile_getThing t n = Some th \<longleftrightarrow> tile_getThingIndex e t th = int n) \<and>
    hasFlag TILESTATE_BLOCKSOLID t = tile_hasProperty e t CONST_PROP_BLOCKSOLID \<and>
    hasFlag TILESTATE_BLOCKPATH t = tile_hasProperty e t CONST_PROP_BLOCKPATH \<and>
    hasFlag TILESTATE_NOFIELDBLOCKPATH t = tile_hasProperty e t CONST_PROP_NOFIELDBLOCKPATH \<and>
    hasFlag TILESTATE_IMMOVABLEBLOCKSOLID t = tile_hasProperty e t CONST_PROP_IMMOVABLEBLOCKSOLID \<and>
    hasFlag TILESTATE_IMMOVABLENOFIELDBLOCKPATH t = tile_hasProperty e t CONST_PROP_IMMOVABLENOFIELDBLOCKPATH"
proof -
  note ok = tile_run_ok [OF assms]
  note S = tile_okD(1) [OF ok]
  have "tile_getThing t n = Some th \<longleftrightarrow> tile_getThingIndex e t th = int n" for th n
  proof (cases "th \<in> set (stack t)")
    case True
    then obtain a b where s: "stack t = a @ th # b" by (meson split_list)
    have "distinct (stack t)" using sections_okD(3,4) [OF S] by (auto simp: stack_def distinct_map inj_on_def)
    with s have "n < length (stack t) \<and> stack t ! n = th \<longleftrightarrow> n = length a"
      by (metis length_append less_add_same_cancel1 list.size(4) nth_append_length nth_eq_iff_index_eq zero_less_Suc add_Suc_right)
    then show ?thesis by (auto simp: getThing_stack [OF S] index_in_stack [OF S s])
  next
    case False
    then have "tile_getThingIndex e t th = -1" by (cases th) (simp_all add: index_none)
    with False show ?thesis by (auto simp: getThing_stack [OF S])
  qed
  moreover have "AnItem ` set (all_items t) \<union> ACreature ` set (tile_creatures t) \<subseteq> parented t"
    using sections_okD(8,9) [OF S] by auto
  moreover have "keepsOrder e \<longrightarrow> sorted (map (\<lambda>x. alwaysOnTopOrder (type_of e t x)) (topItems t))"
    using sections_okD(7) [OF S] by (cases "keepsOrder e") (simp_all add: order_of_def [abs_def] order_rank_def)
  ultimately show ?thesis
    using S flag_iff_property [OF ok] unfolding sections_ok_def list_all_iff by blast
qed

end
