(* ===== verification/TileView.thy ===== *)
theory TileView
  imports TileLife "HOL-Library.Sublist"
begin

text \<open>
  What a player is shown of a tile, and what is sent when it changes.  The server sends only the
  place of a change, and nothing beyond the tenth thing.
\<close>

section \<open>The list a player sees\<close>

definition tile_view :: "Surroundings \<Rightarrow> Tile \<Rightarrow> addr \<Rightarrow> Thing list" where
  "tile_view e t p = map AnItem (grounds t @ topItems t) @ map ACreature (filter (canSeeCreature e p) (rev (tile_creatures t))) @
     map AnItem (downItems t)"

definition place :: "nat \<Rightarrow> int" where
  "place n = (if n < 10 then int n else -1)"

lemma stack_top_in: "x \<notin> set a \<Longrightarrow> n < 10 \<Longrightarrow> stack_top (int n) x (a @ x # b) = Inr (place (n + length a))"
proof (induction a arbitrary: n)
  case (Cons y a)
  then show ?case using Cons.IH [of "n + 1"] by (cases "n + 1 < 10") (auto simp: place_def add.commute)
qed (simp add: place_def)

lemma skip_seen_eq:
  "n < 10 \<Longrightarrow> skip_seen sees (int n) cs = (if n + length (filter sees cs) < 10 then Some (int (n + length (filter sees cs))) else None)"
proof (induction cs arbitrary: n)
  case (Cons c cs)
  then show ?case using Cons.IH [of "n + 1"] by (cases "n + 1 < 10") (auto simp: add.commute)
qed simp

lemma stack_down_in: "x \<notin> set a \<Longrightarrow> n < 10 \<Longrightarrow> stack_down (int n) x (a @ x # b) = place (n + length a)"
proof (induction a arbitrary: n)
  case (Cons y a)
  then show ?case using Cons.IH [of "n + 1"] by (cases "n + 1 < 10") (auto simp: place_def add.commute)
qed (simp add: place_def)

lemma view_distinct:
  assumes "sections_ok e t" shows "distinct (tile_view e t p)"
  using sections_okD(3,4) [OF assms] by (auto simp: tile_view_def distinct_map inj_on_def)

lemma item_in_view: "AnItem x \<in> set (tile_view e t p) \<longleftrightarrow> x \<in> set (all_items t)"
  unfolding in_items by (auto simp: tile_view_def grounds_def split: option.splits)

text \<open>The stack position the code computes is the place in that list.\<close>

lemma stackpos_is_place:
  assumes ok: "sections_ok e t" and v: "tile_view e t p = a @ AnItem x # b"
  shows "getStackposOfItem e t p x = place (length a)"
proof -
  have x: "x \<in> set (all_items t)" using item_in_view [of x e t p] v by simp
  have a: "a' = a" if "tile_view e t p = a' @ AnItem x # b'" for a' b'
  proof -
    have "AnItem x \<notin> set a" "AnItem x \<notin> set b" using view_distinct [OF ok, of p] v by auto
    with that v append_Cons_eq_iff [of "AnItem x" a b a' b'] show ?thesis by simp
  qed
  consider (g) "ground t = Some x" | (u) "ground t \<noteq> Some x" "x \<in> set (topItems t)" | (d) "ground t \<noteq> Some x" "x \<in> set (downItems t)"
    using x unfolding in_items by blast
  then show ?thesis
  proof cases
    case g
    then have "tile_view e t p = [] @ AnItem x # map AnItem (topItems t) @
        map ACreature (filter (canSeeCreature e p) (rev (tile_creatures t))) @ map AnItem (downItems t)"
      by (simp add: tile_view_def grounds_def)
    from a [OF this] g show ?thesis by (auto simp: getStackposOfItem_def place_def)
  next
    case u
    then obtain v' w where vw: "topItems t = v' @ x # w" by (meson split_list)
    then have "tile_view e t p = map AnItem (grounds t @ v') @ AnItem x # map AnItem w @
        map ACreature (filter (canSeeCreature e p) (rev (tile_creatures t))) @ map AnItem (downItems t)"
      by (simp add: tile_view_def)
    from a [OF this] have len: "length a = length (grounds t) + length v'" by auto
    have nv: "x \<notin> set v'" using sections_okD(3) [OF ok] vw by auto
    have top: "alwaysOnTop (type_of e t x)" by (rule sections_okD(6) [OF ok u(2)])
    have "length (grounds t) < 10" by (simp add: grounds_def split: option.split)
    from stack_top_in [OF nv this, of w] have "stack_top (int (length (grounds t))) x (topItems t) = Inr (place (length a))"
      by (simp add: vw len)
    then show ?thesis using u(1) top by (auto simp: getStackposOfItem_def grounds_def split: option.splits)
  next
    case d
    then obtain v' w where vw: "downItems t = v' @ x # w" by (meson split_list)
    then have "tile_view e t p = (map AnItem (grounds t @ topItems t) @
        map ACreature (filter (canSeeCreature e p) (rev (tile_creatures t))) @ map AnItem v') @ AnItem x # map AnItem w"
      by (simp add: tile_view_def)
    from a [OF this] have len: "length a = length (grounds t) + length (topItems t) +
        length (filter (canSeeCreature e p) (tile_creatures t)) + length v'" by (auto simp: rev_filter [symmetric])
    have nv: "x \<notin> set v'" using sections_okD(3) [OF ok] vw by auto
    have low: "\<not> alwaysOnTop (type_of e t x)" by (rule sections_okD(5) [OF ok d(2)])
    let ?n = "length (grounds t) + length (topItems t)" and ?c = "length (filter (canSeeCreature e p) (tile_creatures t))"
    have n: "(if ground t = None then 0 else 1) + int (length (topItems t)) = int ?n"
      by (simp add: grounds_def split: option.split)
    have eq: "getStackposOfItem e t p x =
        (if int ?n \<ge> 10 then -1 else case skip_seen (canSeeCreature e p) (int ?n) (tile_creatures t) of
           None \<Rightarrow> -1 | Some n2 \<Rightarrow> stack_down n2 x (downItems t))"
      using d(1) low n by (simp add: getStackposOfItem_def Let_def split: option.split)
    show ?thesis
    proof (cases "?n + ?c < 10")
      case True
      then have "?n < 10" by simp
      from skip_seen_eq [OF this, of "canSeeCreature e p" "tile_creatures t"] True stack_down_in [OF nv True, of w]
      show ?thesis unfolding eq len vw by (simp add: add.assoc)
    next
      case False
      then have "place (length a) = -1" by (simp add: place_def len)
      moreover have "getStackposOfItem e t p x = -1"
        using skip_seen_eq [of ?n "canSeeCreature e p" "tile_creatures t"] False unfolding eq by auto
      ultimately show ?thesis by simp
    qed
  qed
qed

section \<open>What a message means\<close>

text \<open>The programs of the players are not part of this one.  The messages name a place in the list a player has
  been sent: to insert, to change and to take out there.\<close>

fun apply_message :: "addr \<Rightarrow> Thing list \<Rightarrow> tile_event \<Rightarrow> Thing list" where
  "apply_message p v (SendAddTileItem q n x) = (if q = p then take 10 (take (nat n) v @ AnItem x # drop (nat n) v) else v)"
| "apply_message p v (SendUpdateTileItem q n x) = (if q = p then v[nat n := AnItem x] else v)"
| "apply_message p v (SendRemoveTileThing q n) = (if q = p then take (nat n) v @ drop (nat n + 1) v else v)"

text \<open>Such a list agrees with the tile up to the first \<open>k\<close> things.\<close>

definition in_sync :: "nat \<Rightarrow> Thing list \<Rightarrow> Thing list \<Rightarrow> bool" where
  "in_sync k v w \<longleftrightarrow> prefix v w \<and> length v \<le> 10 \<and> min k (length w) \<le> length v"

lemma in_sync_ten: "in_sync 10 v w \<longleftrightarrow> v = take 10 w"
proof
  assume "in_sync 10 v w"
  then obtain u where w: "w = v @ u" and l: "length v \<le> 10" "min 10 (length v + length u) \<le> length v"
    by (auto simp: in_sync_def prefix_def)
  then have "length v = 10 \<or> u = []" by (cases u) auto
  with w l(1) show "v = take 10 w" by auto
qed (auto simp: in_sync_def take_is_prefix)

lemma sync_take: "in_sync k v w \<Longrightarrow> v = take (length v) w"
  by (auto simp: in_sync_def prefix_def)

lemma sync_add:
  assumes s: "in_sync k v (a @ b)" and k: "k = 9 \<or> k = 10"
  shows "in_sync k (if length a < 10 then take 10 (take (length a) v @ y # drop (length a) v) else v) (a @ y # b)"
proof (cases "length a < 10")
  case True
  from s obtain u where u: "a @ b = v @ u" by (auto simp: in_sync_def prefix_def)
  have "length a \<le> length v" using s k True by (auto simp: in_sync_def min_def split: if_splits)
  with u obtain c where c: "v = a @ c" "b = c @ u" by (metis append_eq_append_conv_if append_take_drop_id append_eq_append_conv_if append_eq_conv_conj)
  have "prefix (take 10 (a @ y # c)) (a @ y # b)" unfolding c(2) by (metis append.assoc append_Cons prefix_order.trans prefixI take_is_prefix)
  moreover have "min k (length (a @ y # b)) \<le> length (take 10 (a @ y # c))"
    using s k c by (auto simp: in_sync_def min_def split: if_splits)
  ultimately show ?thesis using True c by (simp add: in_sync_def)
next
  case False
  have l: "length v \<le> 10" and p: "prefix v (a @ b)" using s by (auto simp: in_sync_def)
  with False have "prefix v a" by (metis length_append prefix_def prefix_length_prefix le_trans linorder_not_less)
  then have "prefix v (a @ y # b)" by (rule prefix_prefix)
  with False s k show ?thesis by (auto simp: in_sync_def min_def split: if_splits)
qed

lemma sync_remove:
  assumes s: "in_sync 10 v (a @ y # b)"
  defines "v' \<equiv> if length a < 10 then take (length a) v @ drop (length a + 1) v else v"
  shows "in_sync 9 v' (a @ b)" and "length (a @ y # b) \<le> 10 \<Longrightarrow> in_sync 10 v' (a @ b)"
proof -
  have v: "v = take 10 (a @ y # b)" using s by (simp add: in_sync_ten)
  have v': "v' = take 9 (a @ b) \<or> length a \<ge> 10 \<and> v' = take 10 (a @ b)"
  proof (cases "length a < 10")
    case True
    then have "v = a @ y # take (9 - length a) b" using v by (auto simp: take_Cons' numeral_eq_Suc)
    with True show ?thesis by (simp add: v'_def)
  qed (simp add: v'_def v)
  then show "in_sync 9 v' (a @ b)"
    using take_is_prefix [of 9 "a @ b"] take_is_prefix [of 10 "a @ b"]
    by (auto simp: in_sync_def min_def simp del: take_append)
  assume "length (a @ y # b) \<le> 10"
  with v' show "in_sync 10 v' (a @ b)" unfolding in_sync_ten by auto
qed

lemma sync_update:
  assumes s: "in_sync k v (a @ y # b)"
  shows "in_sync k (if length a < 10 then v[length a := z] else v) (a @ z # b)"
proof -
  have v: "v = take (length v) (a @ y # b)" by (rule sync_take [OF s])
  have "(take (length v) (a @ y # b))[length a := z] = take (length v) ((a @ y # b)[length a := z])"
    by (rule take_update_swap [symmetric])
  with v have "v[length a := z] = take (length v) (a @ z # b)" by (metis list_update_length)
  then have 1: "prefix (v[length a := z]) (a @ z # b)" by (metis take_is_prefix)
  have 2: "prefix v (a @ z # b)" if "length a \<ge> 10"
  proof -
    have "length v \<le> length a" using s that by (simp add: in_sync_def)
    with v have "v = take (length v) a" by simp
    then show ?thesis by (metis prefix_prefix take_is_prefix)
  qed
  from s 1 2 show ?thesis by (auto simp: in_sync_def)
qed

section \<open>The messages of an operation\<close>

lemma view_cong:
  assumes "ground t' = ground t" and "tile_items t' = tile_items t" and "downItemCount t' = downItemCount t"
    and "tile_creatures t' = tile_creatures t"
  shows "tile_view e t' = tile_view e t"
  using assms by (simp add: tile_view_def grounds_def downItems_def topItems_def fun_eq_iff)

lemma client_others: "(\<And>q. ev q = SendAddTileItem q (f q) x \<or> ev q = SendUpdateTileItem q (f q) x \<or> ev q = SendRemoveTileThing q (f q)) \<Longrightarrow>
    p \<notin> set qs \<Longrightarrow> foldl (apply_message p) v (map ev (filter P qs)) = v"
proof (induction qs)
  case (Cons q qs)
  then have "apply_message p v (ev q) = v" by (metis apply_message.simps list.set_intros(1))
  with Cons show ?case by simp
qed simp

text \<open>A client hears the message to its own player only.\<close>

lemma client_hears:
  assumes ev: "\<And>q n. ev q n = SendAddTileItem q n x \<or> ev q n = SendUpdateTileItem q n x \<or> ev q n = SendRemoveTileThing q n"
    and "distinct qs" and "p \<in> set qs"
  shows "foldl (apply_message p) v (shown ev (map (\<lambda>q. (q, f q)) qs)) = (if f p = -1 then v else apply_message p v (ev p (f p)))"
proof -
  from assms(3) obtain a b where qs: "qs = a @ p # b" by (meson split_list)
  with assms(2) have n: "p \<notin> set a" "p \<notin> set b" by auto
  have sh: "shown ev (map (\<lambda>q. (q, f q)) qs) = map (\<lambda>q. ev q (f q)) (filter (\<lambda>q. f q \<noteq> -1) qs)" for qs
    by (induction qs) (auto simp: shown_def)
  note quiet = client_others [of "\<lambda>q. ev q (f q)" f x p, OF ev]
  show ?thesis unfolding sh qs by (simp add: quiet [OF n(1)] quiet [OF n(2)])
qed

lemma place_nat: "place n \<noteq> -1 \<longleftrightarrow> n < 10" "n < 10 \<Longrightarrow> place n = int n"
  by (auto simp: place_def)

definition new_messages :: "Tile \<Rightarrow> Tile \<Rightarrow> tile_event list" where
  "new_messages t t' = drop (length (tile_sent t)) (tile_sent t')"

definition told_of :: "Surroundings \<Rightarrow> addr \<Rightarrow> Tile \<Rightarrow> Thing list \<Rightarrow> Tile \<Rightarrow> Thing list \<Rightarrow> bool" where
  "told_of e p t v t' v' \<longleftrightarrow> (\<exists>es. tile_sent t' = tile_sent t @ es \<and> v' = foldl (apply_message p) v es)"

lemma told_trans: "told_of e p t v t1 v1 \<Longrightarrow> told_of e p t1 v1 t2 v2 \<Longrightarrow> told_of e p t v t2 v2"
  by (auto simp: told_of_def)

lemma told_same: "tile_sent t' = tile_sent t \<Longrightarrow> told_of e p t v t' v"
  by (auto simp: told_of_def intro: exI [of _ "[]"])

lemma told_add:
  assumes p: "p \<in> set (watchers e)" "distinct (watchers e)" and S: "sections_ok e (onAddTileItem e x t)"
    and sent: "tile_sent t = tile_sent t0" and w: "tile_view e t p = a @ AnItem x # b"
    and s: "in_sync k v (a @ b)" and k: "k = 9 \<or> k = 10"
  shows "\<exists>v'. told_of e p t0 v (onAddTileItem e x t) v' \<and> in_sync k v' (a @ AnItem x # b)"
proof -
  let ?t = "setTileFlags e x t"
  have "tile_view e ?t p = a @ AnItem x # b" unfolding view_cong [of ?t t e, simplified] by (rule w)
  moreover have "sections_ok e ?t"
    using S by (simp add: sections_ok_def all_items_def downItems_def topItems_def order_of_def type_of_def cong: map_cong)
  ultimately have pos: "getStackposOfItem e ?t p x = place (length a)" by (rule stackpos_is_place [rotated])
  let ?v = "if length a < 10 then take 10 (take (length a) v @ AnItem x # drop (length a) v) else v"
  have "foldl (apply_message p) v (shown (\<lambda>p n. SendAddTileItem p n x) (stack_positions e ?t x)) = ?v"
    unfolding stack_positions_def by (subst client_hears [OF _ p(2,1)]) (simp_all add: pos place_nat)
  then have "told_of e p t0 v (onAddTileItem e x t) ?v"
    by (auto simp: told_of_def onAddTileItem_def Let_def sent)
  with sync_add [OF s k] show ?thesis by blast
qed

lemma told_update:
  assumes p: "p \<in> set (watchers e)" "distinct (watchers e)" and S: "sections_ok e t"
    and sent: "tile_sent t = tile_sent t0" and w: "tile_view e t p = a @ AnItem x # b" and s: "in_sync k v (a @ y # b)"
  shows "\<exists>v'. told_of e p t0 v (onUpdateTileItem e x t) v' \<and> in_sync k v' (a @ AnItem x # b)"
proof -
  have pos: "getStackposOfItem e t p x = place (length a)" by (rule stackpos_is_place [OF S w])
  let ?v = "if length a < 10 then v[length a := AnItem x] else v"
  have "foldl (apply_message p) v (shown (\<lambda>p n. SendUpdateTileItem p n x) (stack_positions e t x)) = ?v"
    unfolding stack_positions_def by (subst client_hears [OF _ p(2,1)]) (simp_all add: pos place_nat)
  then have "told_of e p t0 v (onUpdateTileItem e x t) ?v"
    by (auto simp: told_of_def onUpdateTileItem_def Let_def sent)
  with sync_update [OF s] show ?thesis by blast
qed

lemma told_remove:
  assumes p: "p \<in> set (watchers e)" "distinct (watchers e)" and pos: "f p = place (length a)"
    and sent: "tile_sent t = tile_sent t0" and s: "in_sync 10 v (a @ AnItem x # b)"
  shows "\<exists>v'. told_of e p t0 v (onRemoveTileItem e (map (\<lambda>p. (p, f p)) (watchers e)) x t) v' \<and> in_sync 9 v' (a @ b) \<and>
    (length (a @ AnItem x # b) \<le> 10 \<longrightarrow> in_sync 10 v' (a @ b))"
proof -
  let ?v = "if length a < 10 then take (length a) v @ drop (length a + 1) v else v"
  have "foldl (apply_message p) v (shown SendRemoveTileThing (map (\<lambda>p. (p, f p)) (watchers e))) = ?v"
    by (subst client_hears [OF _ p(2,1)]) (simp_all add: pos place_nat)
  then have "told_of e p t0 v (onRemoveTileItem e (map (\<lambda>p. (p, f p)) (watchers e)) x t) ?v"
    by (auto simp: told_of_def onRemoveTileItem_def Let_def sent)
  with sync_remove [OF s] show ?thesis by blast
qed

section \<open>The operations\<close>

text \<open>The view and the client's list after an operation, from a client that knew the first ten things.\<close>

definition follows :: "Surroundings \<Rightarrow> addr \<Rightarrow> Tile \<Rightarrow> Tile \<Rightarrow> bool" where
  "follows e p t t' \<longleftrightarrow> (\<exists>v'. told_of e p t (take 10 (tile_view e t p)) t' v' \<and> in_sync 9 v' (tile_view e t' p) \<and>
     (length (tile_view e t p) \<le> 10 \<longrightarrow> in_sync 10 v' (tile_view e t' p)))"

lemma in_sync_weaken: "in_sync 10 v w \<Longrightarrow> in_sync 9 v w"
  by (auto simp: in_sync_def)

lemma followsI: "told_of e p t (take 10 (tile_view e t p)) t' v' \<Longrightarrow> in_sync 10 v' (tile_view e t' p) \<Longrightarrow> follows e p t t'"
  unfolding follows_def using in_sync_weaken by blast

lemma follows_same: "tile_sent t' = tile_sent t \<Longrightarrow> tile_view e t' p = tile_view e t p \<Longrightarrow> follows e p t t'"
  by (rule followsI [OF told_same]) (simp_all add: in_sync_ten)

lemma follows_quiet:
  assumes "follows e p t t1" and "tile_sent t2 = tile_sent t1" and "tile_view e t2 p = tile_view e t1 p"
  shows "follows e p t t2"
  using assms unfolding follows_def told_of_def by simp

lemma follows_from:
  assumes "follows e p t1 t2" and "tile_sent t1 = tile_sent t" and "tile_view e t1 p = tile_view e t p"
  shows "follows e p t t2"
  using assms unfolding follows_def told_of_def by simp

lemma view_split:
  assumes "sections_ok e t" and "x \<in> set (all_items t)"
  obtains a b where "tile_view e t p = a @ AnItem x # b" "AnItem x \<notin> set a" "AnItem x \<notin> set b"
proof -
  from assms(2) obtain a b where v: "tile_view e t p = a @ AnItem x # b"
    using item_in_view [of x e t p] by (meson split_list)
  moreover from view_distinct [OF assms(1), of p] v have "AnItem x \<notin> set a" "AnItem x \<notin> set b" by auto
  ultimately show ?thesis by (rule that)
qed

lemma removeAll_map_AnItem: "removeAll (AnItem x) (map AnItem ys) = map AnItem (removeAll x ys)"
  by (induction ys) auto

lemma without_view:
  assumes "without x t t1"
  shows "tile_view e t1 p = removeAll (AnItem x) (tile_view e t p)"
proof -
  have "AnItem x \<notin> set (map ACreature cs)" for cs by auto
  then have cs: "removeAll (AnItem x) (map ACreature cs) = map ACreature cs" for cs by (rule removeAll_id)
  show ?thesis
    using withoutD(1,4) [OF assms] without_sections(1,2) [OF assms]
    by (simp add: tile_view_def removeAll_map_AnItem cs)
qed

lemma remove_follows:
  assumes ok: "tile_ok e t" and p: "p \<in> set (watchers e)" "distinct (watchers e)"
  shows "follows e p t (tile_removeThing e (AnItem x) n t)"
proof -
  note S = tile_okD(1) [OF ok]
  have gone: "follows e p t (onRemoveTileItem e (map (\<lambda>p. (p, f p)) (watchers e)) x t1)"
    if w: "without x t t1" and v: "tile_view e t p = a @ AnItem x # b" and out: "AnItem x \<notin> set a" "AnItem x \<notin> set b"
      and f: "f p = place (length a)" for f t1 a b
  proof -
    let ?t = "onRemoveTileItem e (map (\<lambda>p. (p, f p)) (watchers e)) x t1"
    have "tile_view e ?t p = tile_view e t1 p" by (rule fun_cong [OF view_cong]) simp_all
    also have "\<dots> = a @ b" unfolding without_view [OF w] v using out by simp
    finally have v1: "tile_view e ?t p = a @ b" .
    have "in_sync 10 (take 10 (tile_view e t p)) (a @ AnItem x # b)" unfolding in_sync_ten v ..
    from told_remove [where f = f, OF p f withoutD(8) [OF w] this] show ?thesis unfolding follows_def v1 by (metis v)
  qed
  from S show ?thesis
  proof (cases rule: remove_cases [where x = x and n = n])
    case same
    then show ?thesis by (simp add: follows_same)
  next
    case (count k)
    obtain a b where v: "tile_view e t p = a @ AnItem x # b" using view_split [OF S count(2)] by blast
    let ?t = "t\<lparr>obj := (obj t)(x := setItemCount k (obj t x))\<rparr>"
    have v': "tile_view e ?t p = a @ AnItem x # b" using v view_cong [of ?t t e] by simp
    have S': "sections_ok e ?t"
      by (rule tile_okD(1) [OF repainted_ok [OF ok]])
        (use sections_okD(8,9) [OF S] in \<open>simp_all add: looks_def setItemCount_def item_hasAttribute_def\<close>)
    have "in_sync 10 (take 10 (tile_view e t p)) (a @ AnItem x # b)" unfolding in_sync_ten v ..
    from told_update [OF p S' _ v' this, of t] obtain v1 where
      "told_of e p t (take 10 (tile_view e t p)) (onUpdateTileItem e x ?t) v1" "in_sync 10 v1 (a @ AnItem x # b)" by auto
    moreover have "tile_view e (onUpdateTileItem e x ?t) p = a @ AnItem x # b"
      unfolding v' [symmetric] by (rule fun_cong [OF view_cong]) simp_all
    ultimately show ?thesis unfolding count(4) by (intro followsI) simp_all
  next
    case (ground t1)
    have v: "tile_view e t p = [] @ AnItem x # tl (tile_view e t p)" using ground(3) by (simp add: tile_view_def grounds_def)
    have "AnItem x \<notin> set (tl (tile_view e t p))" using view_distinct [OF S, of p] v by (metis append_Nil distinct.simps(2))
    from gone [where f = "\<lambda>_. 0", OF ground(2) v _ this] ground(4) show ?thesis by (simp add: place_def)
  next
    case (out t1)
    obtain a b where v: "tile_view e t p = a @ AnItem x # b" "AnItem x \<notin> set a" "AnItem x \<notin> set b"
      using view_split [OF S out(1)] by blast
    from gone [where f = "\<lambda>p. getStackposOfItem e t p x", OF out(2) v stackpos_is_place [OF S v(1)]] out(3) show ?thesis by (simp add: stack_positions_def)
  qed
qed

text \<open>Adding, after something may have been taken out.\<close>

definition gains :: "Surroundings \<Rightarrow> addr \<Rightarrow> addr \<Rightarrow> Tile \<Rightarrow> Tile \<Rightarrow> bool" where
  "gains e p x t t1 \<longleftrightarrow> tile_sent t1 = tile_sent t \<and>
     (\<exists>a b. tile_view e t p = a @ b \<and> tile_view e t1 p = a @ AnItem x # b)"

lemma gainsI: "tile_sent t1 = tile_sent t \<Longrightarrow> tile_view e t p = a @ b \<Longrightarrow> tile_view e t1 p = a @ AnItem x # b \<Longrightarrow> gains e p x t t1"
  unfolding gains_def by blast

lemma insert_before_split: "\<exists>u1 u2. ys = u1 @ u2 \<and> insert_before stop x ys = u1 @ x # u2"
proof (induction ys)
  case (Cons y ys)
  then obtain u1 u2 where "ys = u1 @ u2" "insert_before stop x ys = u1 @ x # u2" by blast
  then have "y # ys = (y # u1) @ u2 \<and> insert_before stop x (y # ys) = (y # u1) @ x # u2 \<or> stop y" by simp
  then show ?case by (metis append_Nil insert_before.simps(2))
qed simp

lemma put_on_top_gains:
  assumes "sections_ok e t"
  shows "gains e p x t (put_on_top stop x t)"
proof -
  obtain u1 u2 where u: "topItems t = u1 @ u2" "insert_before stop x (topItems t) = u1 @ x # u2"
    using insert_before_split by blast
  have "downItems (put_on_top stop x t) = downItems t" "topItems (put_on_top stop x t) = u1 @ x # u2"
    using sections_of [of "put_on_top stop x t" "downItems t" "u1 @ x # u2"] sections_okD(1) [OF assms] u(2)
    by (simp_all add: put_on_top_def)
  note sec = this
  let ?a = "map AnItem (grounds t @ u1)"
  let ?b = "map AnItem u2 @ map ACreature (filter (canSeeCreature e p) (rev (tile_creatures t))) @ map AnItem (downItems t)"
  have "tile_view e t p = ?a @ ?b" by (simp add: tile_view_def u(1))
  moreover have "grounds (put_on_top stop x t) = grounds t" "tile_creatures (put_on_top stop x t) = tile_creatures t"
    by (simp_all add: put_on_top_def grounds_def)
  then have "tile_view e (put_on_top stop x t) p = ?a @ AnItem x # ?b" by (simp add: tile_view_def sec)
  ultimately show ?thesis by (intro gainsI [of _ _ _ _ ?a ?b]) (simp add: put_on_top_def)
qed

lemma put_down_gains:
  assumes S: "sections_ok e t" and room: "length (tile_items t) < 65535"
  shows "gains e p x t (put_down x t)"
proof -
  have "unat (downItemCount t) < 65535" using sections_okD(1,2) [OF S] room sections_split [of t]
    by (metis le_add1 le_less_trans length_append)
  then have "unat (downItemCount t + 1) = length (x # downItems t)"
    using sections_okD(1) [OF S] by (simp add: unat_word_ariths)
  then have "downItems (put_down x t) = x # downItems t" "topItems (put_down x t) = topItems t"
    using sections_of [of "put_down x t" "x # downItems t" "topItems t"] sections_split [of t] by (simp_all add: put_down_def)
  note sec = this
  let ?a = "map AnItem (grounds t @ topItems t) @ map ACreature (filter (canSeeCreature e p) (rev (tile_creatures t)))"
  have "tile_view e t p = ?a @ map AnItem (downItems t)" by (simp add: tile_view_def)
  moreover have "grounds (put_down x t) = grounds t" "tile_creatures (put_down x t) = tile_creatures t" "tile_sent (put_down x t) = tile_sent t"
    by (simp_all add: put_down_def grounds_def)
  then have "tile_view e (put_down x t) p = ?a @ AnItem x # map AnItem (downItems t)" by (simp add: tile_view_def sec)
  ultimately show ?thesis by (intro gainsI [of _ _ _ _ ?a]) (simp add: put_down_def)
qed

lemma put_ground_gains:
  assumes "ground t = None" shows "gains e p x t (t\<lparr>ground := Some x\<rparr>)"
proof -
  have "tile_view e t p = [] @ tile_view e t p" by simp
  moreover have "tile_view e (t\<lparr>ground := Some x\<rparr>) p = [] @ AnItem x # tile_view e t p"
    using assms by (simp add: tile_view_def grounds_def downItems_def topItems_def)
  ultimately show ?thesis by (intro gainsI [of _ _ _ _ "[]"]) simp_all
qed

lemma add_follows:
  assumes f: "follows e p t t1" and g: "gains e p x t1 t2" and S: "sections_ok e (onAddTileItem e x t2)"
    and p: "p \<in> set (watchers e)" "distinct (watchers e)"
  shows "follows e p t (onAddTileItem e x t2)"
proof -
  from g obtain a b where sent: "tile_sent t2 = tile_sent t1" and v: "tile_view e t1 p = a @ b" "tile_view e t2 p = a @ AnItem x # b"
    by (auto simp: gains_def)
  have v': "tile_view e (onAddTileItem e x t2) p = a @ AnItem x # b" using view_cong [of "onAddTileItem e x t2" t2 e] v(2) by simp
  from f obtain v1 where v1: "told_of e p t (take 10 (tile_view e t p)) t1 v1" "in_sync 9 v1 (a @ b)"
    "length (tile_view e t p) \<le> 10 \<Longrightarrow> in_sync 10 v1 (a @ b)" by (auto simp: follows_def v)
  from told_add [OF p S sent v(2) v1(2)] obtain v2 where
    v2: "told_of e p t1 v1 (onAddTileItem e x t2) v2" "in_sync 9 v2 (a @ AnItem x # b)" by blast
  have "in_sync 10 v2 (a @ AnItem x # b)" if short: "length (tile_view e t p) \<le> 10"
  proof -
    from told_add [OF p S sent v(2) v1(3) [OF short]] obtain v3 where
      v3: "told_of e p t1 v1 (onAddTileItem e x t2) v3" "in_sync 10 v3 (a @ AnItem x # b)" by blast
    have "v3 = v2" using v2(1) v3(1) by (auto simp: told_of_def)
    with v3(2) show ?thesis by simp
  qed
  with told_trans [OF v1(1) v2(1)] v2(2) show ?thesis by (auto simp: follows_def v')
qed

text \<open>Putting one item in the place of another.\<close>

lemma swap_view:
  assumes S: "sections_ok e t" and w: "swapped_in old x t t1" and old: "old \<in> set (all_items t)"
  obtains a b where "tile_view e t p = a @ AnItem old # b" "tile_view e t1 p = a @ AnItem x # b"
proof -
  have w': "grounds t1 = map (swap old x) (grounds t)" "downItems t1 = map (swap old x) (downItems t)"
    "topItems t1 = map (swap old x) (topItems t)" "tile_creatures t1 = tile_creatures t"
    using w sections_of [of t1 "map (swap old x) (downItems t)" "map (swap old x) (topItems t)"] sections_okD(1) [OF S]
    by (simp_all add: swapped_in_def)
  let ?sw = "\<lambda>th. if th = AnItem old then AnItem x else th"
  have it: "map ?sw (map AnItem ys) = map AnItem (map (swap old x) ys)" for ys by (simp add: swap_def)
  have cr: "map ?sw (map ACreature cs) = map ACreature cs" for cs by simp
  have v: "tile_view e t1 p = map ?sw (tile_view e t p)"
    unfolding tile_view_def w' map_append it cr by (simp only: map_append)
  obtain a b where ab: "tile_view e t p = a @ AnItem old # b" "AnItem old \<notin> set a" "AnItem old \<notin> set b"
    using view_split [OF S old] by blast
  have id: "map ?sw ys = ys" if "AnItem old \<notin> set ys" for ys using that by (induction ys) auto
  have "tile_view e t1 p = a @ AnItem x # b" unfolding v ab(1) by (simp add: id [OF ab(2)] id [OF ab(3)])
  with ab(1) show ?thesis by (rule that)
qed

lemma swap_follows:
  assumes S: "sections_ok e t" and w: "swapped_in old x t t1" and old: "old \<in> set (all_items t)"
    and S2: "sections_ok e t2" and same: "ground t2 = ground t1" "tile_items t2 = tile_items t1" "downItemCount t2 = downItemCount t1"
      "tile_creatures t2 = tile_creatures t1" and sent: "tile_sent t2 = tile_sent t"
    and p: "p \<in> set (watchers e)" "distinct (watchers e)"
  shows "follows e p t (onUpdateTileItem e x t2)"
proof -
  obtain a b where ab: "tile_view e t p = a @ AnItem old # b" "tile_view e t1 p = a @ AnItem x # b"
    using swap_view [OF S w old] by blast
  have v2: "tile_view e t2 p = a @ AnItem x # b" unfolding ab(2) [symmetric] by (rule fun_cong [OF view_cong [OF same]])
  have v3: "tile_view e (onUpdateTileItem e x t2) p = a @ AnItem x # b"
    unfolding v2 [symmetric] by (rule fun_cong [OF view_cong]) simp_all
  have "in_sync 10 (take 10 (tile_view e t p)) (a @ AnItem old # b)" unfolding in_sync_ten ab(1) ..
  from told_update [OF p S2 sent v2 this] show ?thesis unfolding v3 [symmetric] using followsI by blast
qed

lemma replace_follows:
  assumes ok: "tile_ok e t" and new: "x \<notin> set (all_items t)"
    and fits: "\<And>old. tile_getThing t n = Some (AnItem old) \<Longrightarrow> fits_section e t old (type_of e t x)"
    and single: "class_of e x = MagicFieldItem \<Longrightarrow> \<not> stackable (type_of e t x)"
    and p: "p \<in> set (watchers e)" "distinct (watchers e)"
  shows "follows e p t (tile_replaceThing e n (AnItem x) t)"
  using tile_okD(1) [OF ok] new
proof (cases rule: replace_cases [where n = n])
  case same
  then show ?thesis by (simp add: follows_same)
next
  case (swap old t1)
  let ?r = "parent_of (AnItem x) True t1"
  let ?t2 = "setTileFlags e x (resetTileFlags e old ?r)"
  have S2: "sections_ok e ?t2"
    by (rule tile_okD(1) [OF swapped_ok(1) [OF ok swap(3,1) new fits [OF swap(2)] single]])
  have "follows e p t (onUpdateTileItem e x ?t2)"
    by (rule swap_follows [OF tile_okD(1) [OF ok] swap(3,1) S2 _ _ _ _ _ p]) (simp_all add: swap(4))
  then have "follows e p t (replaced e old x t1)"
    unfolding replaced_def by (rule follows_quiet) (simp, rule fun_cong [OF view_cong], simp_all)
  then show ?thesis by (simp add: swap(5))
qed

lemma parent_view: "tile_view e (parent_of th b t) p = tile_view e t p"
  by (rule fun_cong [OF view_cong]) simp_all

lemma update_follows:
  assumes ok: "tile_ok e t" and upd: "tile_updateThing e (AnItem x) itemId n t = Some t'" and ok': "tile_ok e t'"
    and p: "p \<in> set (watchers e)" "distinct (watchers e)"
  shows "follows e p t t'"
proof (cases "x \<in> set (all_items t)")
  case False
  then have "AnItem x \<notin> set (stack t)" unfolding in_items by (auto simp: stack_def grounds_def split: option.splits)
  with index_none(1) [OF this] upd have "t' = t" by (simp add: tile_updateThing_def)
  then show ?thesis by (simp add: follows_same)
next
  case True
  from upd have "t' = t \<or> (\<exists>t2. t' = onUpdateTileItem e x t2 \<and> ground t2 = ground t \<and> tile_items t2 = tile_items t \<and>
      downItemCount t2 = downItemCount t \<and> tile_creatures t2 = tile_creatures t \<and> tile_sent t2 = tile_sent t)"
    by (auto simp: tile_updateThing_def Let_def split: if_splits)
  then show ?thesis
  proof
    assume "t' = t"
    then show ?thesis by (simp add: follows_same)
  next
    assume "\<exists>t2. t' = onUpdateTileItem e x t2 \<and> ground t2 = ground t \<and> tile_items t2 = tile_items t \<and>
      downItemCount t2 = downItemCount t \<and> tile_creatures t2 = tile_creatures t \<and> tile_sent t2 = tile_sent t"
    then obtain t2 where t2: "t' = onUpdateTileItem e x t2" "ground t2 = ground t" "tile_items t2 = tile_items t"
      "downItemCount t2 = downItemCount t" "tile_creatures t2 = tile_creatures t" "tile_sent t2 = tile_sent t" by blast
    obtain a b where v: "tile_view e t p = a @ AnItem x # b" using view_split [OF tile_okD(1) [OF ok] True] by blast
    have v2: "tile_view e t2 p = a @ AnItem x # b" unfolding v [symmetric] by (rule fun_cong [OF view_cong [OF t2(2-5)]])
    have v3: "tile_view e t' p = a @ AnItem x # b"
      unfolding v2 [symmetric] t2(1) by (rule fun_cong [OF view_cong]) simp_all
    have S2: "sections_ok e t2"
      using tile_okD(1) [OF ok'] unfolding t2(1)
      by (simp add: sections_ok_def all_items_def downItems_def topItems_def order_of_def type_of_def cong: map_cong)
    have "in_sync 10 (take 10 (tile_view e t p)) (a @ AnItem x # b)" unfolding in_sync_ten v ..
    from told_update [OF p S2 t2(6) v2 this] obtain v1 where
      "told_of e p t (take 10 (tile_view e t p)) t' v1" "in_sync 10 v1 (a @ AnItem x # b)" unfolding t2(1) by blast
    then show ?thesis by (intro followsI) (simp_all add: v3)
  qed
qed

lemma drop_old_follows:
  assumes "tile_ok e t" and "p \<in> set (watchers e)" and "distinct (watchers e)"
  shows "follows e p t (drop_old e x t)"
  by (rule follows_quiet [OF remove_follows [OF assms, where x = x and n = 1]]) (simp_all add: drop_old_def parent_view)

lemma add_item_follows:
  assumes ok: "tile_ok e t" and new: "x \<notin> set (all_items t)"
    and single: "class_of e x = MagicFieldItem \<Longrightarrow> \<not> stackable (type_of e t x)"
    and p: "p \<in> set (watchers e)" "distinct (watchers e)"
  shows "follows e p t (tile_addThing e (AnItem x) t)"
proof (cases "length (tile_items t) \<ge> 65535")
  case True
  then show ?thesis by (simp add: tile_addThing_def follows_same)
next
  case False
  define t0 where "t0 = parent_of (AnItem x) True t"
  have ok0: "tile_ok e t0" unfolding t0_def by (rule parent_ok [OF ok])
  have t0: "x \<notin> set (all_items t0)" "AnItem x \<in> parented t0" "length (tile_items t0) < 65535" "tile_sent t0 = tile_sent t"
    "tile_view e t0 p = tile_view e t p" "type_of e t0 = type_of e t"
    using new False by (simp_all add: t0_def parent_view)
  note S0 = tile_okD(1) [OF ok0]
  have single0: "class_of e x = MagicFieldItem \<Longrightarrow> \<not> stackable (type_of e t0 x)" using single t0(6) by simp
  have whole: "tile_ok e (tile_addThing e (AnItem x) t)" by (rule add_item_ok(1) [OF ok new single])
  have eq: "tile_addThing e (AnItem x) t =
      (if isGroundTile (type_of e t x)
       then (case ground t0 of None \<Rightarrow> onAddTileItem e x (t0\<lparr>ground := Some x\<rparr>) | Some g \<Rightarrow> replace_ground e g x t0)
       else if alwaysOnTop (type_of e t x) then add_on_top e x t0 else add_down e x t0)"
    using False unfolding t0_def by (simp add: tile_addThing_def Let_def)
  have start: "follows e p t0 t0" by (rule follows_same) simp_all
  have "follows e p t0 (tile_addThing e (AnItem x) t)"
  proof (cases "isGroundTile (type_of e t x)")
    case True
    show ?thesis
    proof (cases "ground t0")
      case None
      have e: "tile_addThing e (AnItem x) t = onAddTileItem e x (t0\<lparr>ground := Some x\<rparr>)" using True None by (simp add: eq)
      show ?thesis unfolding e
        by (rule add_follows [OF start put_ground_gains [OF None] _ p]) (use tile_okD(1) [OF whole] in \<open>simp add: e\<close>)
    next
      case (Some old)
      have e: "tile_addThing e (AnItem x) t = replace_ground e old x t0" using True Some by (simp add: eq)
      let ?g = "(parent_of (AnItem old) False t0)\<lparr>ground := Some x\<rparr>"
      have n: "old \<notin> set (downItems t0)" "old \<notin> set (topItems t0)" using ground_apart [OF S0 Some] by auto
      have w: "swapped_in old x t0 ?g"
        using Some t0(1,2) n by (auto simp: swapped_in_def grounds_def swap_def swap_all in_items simp flip: sections_split)
      have m: "old \<in> set (all_items t0)" using Some by (simp add: in_items)
      have fits: "fits_section e t0 old (type_of e t0 x)"
        using n arg_cong [OF sections_split [of t0], of set] by (simp add: fits_section_def)
      have S2: "sections_ok e (setTileFlags e x (resetTileFlags e old ?g))"
        by (rule tile_okD(1) [OF swapped_ok(1) [OF ok0 w m t0(1) fits single0]])
      show ?thesis unfolding e replace_ground_def
        by (rule swap_follows [OF S0 w m S2 _ _ _ _ _ p]) simp_all
    qed
  next
    case item: False
    show ?thesis
    proof (cases "alwaysOnTop (type_of e t x)")
      case True
      define t1 where "t1 = drop_splash e x t0"
      note 1 = drop_splash_ok [OF ok0 t0(1-3), folded t1_def]
      have f: "follows e p t0 t1" unfolding t1_def
        by (cases rule: drop_splash_cases [of e x t0]) (use start drop_old_follows [OF ok0 p] in auto)
      let ?stop = "\<lambda>y. alwaysOnTopOrder (type_of e t1 x) \<le> alwaysOnTopOrder (type_of e t1 y)"
      have e: "tile_addThing e (AnItem x) t = onAddTileItem e x (put_on_top ?stop x t1)"
        using item True by (simp add: eq add_on_top_def t1_def Let_def)
      show ?thesis unfolding e
        by (rule add_follows [OF f put_on_top_gains [OF tile_okD(1) [OF 1(1)]] _ p]) (use tile_okD(1) [OF whole] in \<open>simp add: e\<close>)
    next
      case low: False
      have put: "follows e p t0 (onAddTileItem e x (put_down x t1))"
        if "follows e p t0 t1" "tile_ok e t1" "length (tile_items t1) < 65535" "sections_ok e (onAddTileItem e x (put_down x t1))" for t1
        by (rule add_follows [OF that(1) put_down_gains [OF tile_okD(1) [OF that(2)] that(3)] that(4) p])
      have e: "tile_addThing e (AnItem x) t = add_down e x t0" using item low by (simp add: eq)
      show ?thesis
      proof (cases "if isMagicField (type_of e t0 x) then find (\<lambda>y. class_of e y = MagicFieldItem) (downItems t0) else None")
        case None
        then have e1: "tile_addThing e (AnItem x) t = onAddTileItem e x (put_down x t0)" by (simp add: e add_down_def)
        show ?thesis unfolding e1 by (rule put [OF start ok0 t0(3)]) (use tile_okD(1) [OF whole] in \<open>simp add: e1\<close>)
      next
        case (Some old)
        show ?thesis
        proof (cases "replaceable (type_of e t0 old)")
          case True
          then have e1: "tile_addThing e (AnItem x) t = onAddTileItem e x (put_down x (drop_old e old t0))"
            using Some by (simp add: e add_down_def)
          have d: "old \<in> set (downItems t0)" "class_of e old = MagicFieldItem" using Some by (auto simp: find_Some_iff split: if_splits)
          note g = field_goes [OF ok0 d]
          have "length (tile_items (drop_old e old t0)) < 65535" using drop_old_length [OF ok0 g] t0(3) by simp
          then show ?thesis unfolding e1
            by (intro put [OF drop_old_follows [OF ok0 p] drop_old_ok(1) [OF ok0 g(1,2)]]) (use tile_okD(1) [OF whole] in \<open>simp_all add: e1\<close>)
        next
          case False
          then have "tile_addThing e (AnItem x) t = parent_of (AnItem x) False t0" using Some by (simp add: e add_down_def)
          then show ?thesis by (simp add: follows_same parent_view)
        qed
      qed
    qed
  qed
  then show ?thesis by (rule follows_from) (simp_all add: t0)
qed

text \<open>The same for creatures: a visible creature is at its place in the list.\<close>

lemma stack_creature_in: "c \<notin> set a \<Longrightarrow> n < 10 \<Longrightarrow> sees c \<Longrightarrow>
    stack_creature sees (Some 10) (int n) c (a @ c # b) = place (n + length (filter sees a))"
proof (induction a arbitrary: n)
  case (Cons y a)
  then show ?case using Cons.IH [of "n + 1"] by (cases "n + 1 < 10") (auto simp: place_def add.commute)
qed (simp add: place_def)

lemma creature_is_place:
  assumes ok: "sections_ok e t" and v: "tile_view e t p = a @ ACreature c # b"
  shows "getStackposOfCreature e t p c = place (length a)"
proof -
  have "ACreature c \<in> set (tile_view e t p)" by (simp add: v)
  then have c: "c \<in> set (rev (tile_creatures t))" "canSeeCreature e p c" by (auto simp: tile_view_def)
  then obtain v' w where vw: "rev (tile_creatures t) = v' @ c # w" by (meson split_list)
  have "distinct (rev (tile_creatures t))" using sections_okD(4) [OF ok] by simp
  then have nv: "c \<notin> set v'" using vw by simp
  let ?a = "map AnItem (grounds t @ topItems t) @ map ACreature (filter (canSeeCreature e p) v')"
  let ?b = "map ACreature (filter (canSeeCreature e p) w) @ map AnItem (downItems t)"
  have view: "tile_view e t p = ?a @ ACreature c # ?b" using c(2) by (simp add: tile_view_def vw)
  have nin: "ACreature c \<notin> set a" "ACreature c \<notin> set b" using view_distinct [OF ok, of p] v by auto
  have "a = ?a" by (rule conjunct1 [OF iffD1 [OF append_Cons_eq_iff [OF nin] trans [OF v [symmetric] view]]])
  then have len: "length a = length (grounds t) + length (topItems t) + length (filter (canSeeCreature e p) v')" by simp
  let ?n = "length (grounds t) + length (topItems t)"
  have n: "(if ground t = None then 0 else 1) + int (length (topItems t)) = int ?n"
    by (simp add: grounds_def split: option.split)
  have st: "stack_creature (canSeeCreature e p) (Some 10) (int ?n) c (v' @ c # w) =
      place (?n + length (filter (canSeeCreature e p) v'))" if "?n < 10"
    by (rule stack_creature_in) (use nv c(2) that in simp_all)
  show ?thesis
  proof (cases "?n < 10")
    case True
    then show ?thesis unfolding getStackposOfCreature_def n Let_def vw st [OF True] len by simp
  next
    case False
    then show ?thesis unfolding getStackposOfCreature_def n Let_def len by (simp add: place_def)
  qed
qed

section \<open>The messages about a change\<close>

inductive item_change :: "Surroundings \<Rightarrow> Tile \<Rightarrow> Tile \<Rightarrow> bool" for e where
  added: "item_change e t (tile_addThing e (AnItem x) t)" if "x \<notin> set (all_items t)" "may_hold e x (type_of e t x)"
| removed: "item_change e t (tile_removeThing e (AnItem x) n t)"
| changed: "item_change e t t'" if "tile_updateThing e (AnItem x) itemId n t = Some t'"
    "fits_section e t x (types e itemId)" "may_hold e x (types e itemId)"
| replaced: "item_change e t (tile_replaceThing e n (AnItem x) t)" if "x \<notin> set (all_items t)" "may_hold e x (type_of e t x)"
    "\<And>old. tile_getThing t n = Some (AnItem old) \<Longrightarrow> fits_section e t old (type_of e t x)"

lemma change_is_step: "item_change e t t' \<Longrightarrow> tile_step e t t'"
  by (induction rule: item_change.induct) (auto intro: tile_step.intros)

lemma change_follows:
  assumes "item_change e t t'" and ok: "tile_ok e t" and p: "p \<in> set (watchers e)" "distinct (watchers e)"
  shows "follows e p t t'"
  using assms(1)
proof cases
  case (added x)
  with add_item_follows [OF ok _ _ p] show ?thesis by (simp add: may_hold_def)
next
  case (removed x n)
  with remove_follows [OF ok p] show ?thesis by simp
next
  case (changed x itemId n)
  show ?thesis by (rule update_follows [OF ok changed(1) tile_step_ok [OF change_is_step [OF assms(1)] ok] p])
next
  case (replaced x n)
  with replace_follows [OF ok _ _ _ p] show ?thesis by (simp add: may_hold_def)
qed

text \<open>When an item of a tile is added, removed, changed or replaced, also when it takes the place of a
  splash, a magic field or a ground, a client that knew the first ten things and does what the
  messages to its player say shows again the first things of the tile in their order, all of them
  when it knew all of them before, and otherwise at most the tenth is missing.\<close>

lemma messages_follow_the_tile:
  assumes "(tile_step e)\<^sup>*\<^sup>* bare_tile t" and "item_change e t t'" and "p \<in> set (watchers e)" and "distinct (watchers e)"
  shows "let v' = foldl (apply_message p) (take 10 (tile_view e t p)) (new_messages t t') in
    prefix v' (tile_view e t' p) \<and> min 9 (length (tile_view e t' p)) \<le> length v' \<and>
    (length (tile_view e t p) \<le> 10 \<longrightarrow> v' = take 10 (tile_view e t' p))"
proof -
  from change_follows [OF assms(2) tile_run_ok [OF assms(1)] assms(3,4)] obtain v' es where
    v: "tile_sent t' = tile_sent t @ es" "v' = foldl (apply_message p) (take 10 (tile_view e t p)) es" "in_sync 9 v' (tile_view e t' p)"
    "length (tile_view e t p) \<le> 10 \<longrightarrow> in_sync 10 v' (tile_view e t' p)"
    unfolding follows_def told_of_def by blast
  have "new_messages t t' = es" by (simp add: new_messages_def v(1))
  with v(2) v(3) [unfolded in_sync_def] v(4) [unfolded in_sync_ten] show ?thesis by (simp add: Let_def)
qed

section \<open>A tile with a wall\<close>

definition plain_type :: TileType where
  "plain_type = \<lparr>isFluidContainer = False, isSplash = False, stackable = False, moveable = False, pickupable = False, stopTime = False,
     decayTo = -1, charges = 0, decayTime = 0, weight = 0, isMagicField = False, isBed = False, floorChange = 0, alwaysOnTopOrder = 0,
     forceUse = False, hasHeight = False, blockSolid = False, blockProjectile = False, blockPathFind = False, allowPickupable = False,
     replaceable = True, alwaysOnTop = False, isVertical = False, isHorizontal = False, isHangable = False, lookThrough = False,
     isGroundTile = False\<rparr>"

definition meadow :: Surroundings where
  "meadow = \<lparr>types = (\<lambda>i. if i = 100 then plain_type\<lparr>isGroundTile := True\<rparr> else plain_type\<lparr>blockSolid := True\<rparr>),
     class_of = \<lambda>_. OtherItem, watchers = [7], canSeeCreature = \<lambda>_ _. True, keepsOrder = True\<rparr>"

definition unbuilt :: Tile where
  "unbuilt = bare_tile\<lparr>obj := (\<lambda>x. \<lparr>item_id = (if x = 1 then 100 else 200), item_count = 1, item_attrs = None\<rparr>), parented := {}\<rparr>"

definition grass :: Tile where "grass = tile_addThing meadow (AnItem 1) unbuilt"
definition walled :: Tile where "walled = tile_addThing meadow (AnItem 2) grass"

lemma unbuilt_types [simp]: "types meadow (item_id (obj unbuilt x)) = (if x = 1 then plain_type\<lparr>isGroundTile := True\<rparr> else plain_type\<lparr>blockSolid := True\<rparr>)"
  by (simp add: unbuilt_def meadow_def)

lemma unbuilt_simps [simp]: "ground unbuilt = None" "tile_items unbuilt = []" "downItemCount unbuilt = 0" "tile_creatures unbuilt = []"
  "tile_sent unbuilt = []"
  by (simp_all add: unbuilt_def bare_tile_def)

lemma grass_simps [simp]: "ground grass = Some 1" "tile_items grass = []" "downItemCount grass = 0" "tile_creatures grass = []"
  "obj grass = obj unbuilt"
  by (simp_all add: grass_def tile_addThing_def type_of_def plain_type_def)

lemma walled_simps [simp]: "ground walled = Some 1" "tile_items walled = [2]" "downItemCount walled = 1" "tile_creatures walled = []"
  "obj walled = obj unbuilt"
  by (simp_all add: walled_def tile_addThing_def type_of_def plain_type_def add_down_def put_down_def)

lemma grass_run: "(tile_step meadow)\<^sup>*\<^sup>* bare_tile grass"
proof -
  have "tile_step meadow bare_tile unbuilt"
    unfolding unbuilt_def by (rule tile_step.elsewhere) (simp_all add: bare_tile_def all_items_def)
  moreover have "tile_step meadow unbuilt grass"
    unfolding grass_def by (rule tile_step.add) (simp_all add: all_items_def may_hold_def meadow_def)
  ultimately show ?thesis by (meson converse_rtranclp_into_rtranclp rtranclp.rtrancl_refl)
qed

lemma grass_walled: "item_change meadow grass walled"
  unfolding walled_def by (rule item_change.added) (simp_all add: all_items_def may_hold_def meadow_def)

lemma tile_well_formed_witness: "hasFlag TILESTATE_BLOCKSOLID walled \<and> tile_getThingIndex meadow walled (AnItem 2) = 1"
proof -
  have "(tile_step meadow)\<^sup>*\<^sup>* bare_tile walled"
    using grass_run change_is_step [OF grass_walled] by (rule rtranclp.rtrancl_into_rtrancl)
  note w = tile_well_formed [OF this]
  have "tile_getThing walled 1 = Some (AnItem 2)" by (simp add: tile_getThing_def topItems_def Let_def)
  moreover have "tile_hasProperty meadow walled CONST_PROP_BLOCKSOLID"
    by (simp add: tile_hasProperty_def all_items_def item_hasProperty_def type_hasProperty_def type_of_def)
  ultimately show ?thesis using w by (metis of_nat_1)
qed

section \<open>The description of a tile\<close>

text \<open>\<open>ProtocolGame::GetTileDescription\<close>: a loop sends its things and counts them, and the function ends with the
  tenth, which is None here.\<close>

fun send_counted :: "nat \<Rightarrow> Thing list \<Rightarrow> Thing list \<times> nat option" where
  "send_counted count [] = ([], Some count)"
| "send_counted count (x # xs) =
     (if count + 1 = 10 then ([x], None)
      else let (sent, count') = send_counted (count + 1) xs in (x # sent, count'))"

definition GetTileDescription :: "Surroundings \<Rightarrow> Tile \<Rightarrow> addr \<Rightarrow> Thing list" where
  "GetTileDescription e t p =
     (let g = (case ground t of None \<Rightarrow> [] | Some x \<Rightarrow> [AnItem x]);
          (tops, count1) = send_counted (length g) (map AnItem (topItems t)) in
      case count1 of
        None \<Rightarrow> g @ tops
      | Some n1 \<Rightarrow>
          (let (crs, count2) = send_counted n1 (map ACreature (filter (canSeeCreature e p) (rev (tile_creatures t)))) in
           case count2 of
             None \<Rightarrow> g @ tops @ crs
           | Some n2 \<Rightarrow> g @ tops @ crs @ fst (send_counted n2 (map AnItem (downItems t)))))"

lemma send_counted_take:
  "n < 10 \<Longrightarrow> send_counted n xs = (take (10 - n) xs, if n + length xs < 10 then Some (n + length xs) else None)"
proof (induction xs arbitrary: n)
  case (Cons x xs)
  show ?case
  proof (cases "n + 1 = 10")
    case True
    then show ?thesis by simp
  next
    case False
    then have "Suc n < 10" "10 - n = Suc (10 - Suc n)"
      using Cons.prems by simp_all
    then show ?thesis
      using Cons.IH [of "Suc n"] False by (simp only: send_counted.simps) simp
  qed
qed simp

lemma description_is_view: "GetTileDescription e t p = take 10 (tile_view e t p)"
proof -
  define g tops crs downs where "g = (case ground t of None \<Rightarrow> [] | Some x \<Rightarrow> [AnItem x])"
    and "tops = map AnItem (topItems t)" and "crs = map ACreature (filter (canSeeCreature e p) (rev (tile_creatures t)))"
    and "downs = map AnItem (downItems t)"
  have view: "tile_view e t p = g @ tops @ crs @ downs"
    by (simp add: tile_view_def g_def tops_def crs_def downs_def grounds_def split: option.split)
  have g: "length g < 10"
    by (simp add: g_def split: option.split)
  have "GetTileDescription e t p = take 10 (g @ tops @ crs @ downs)"
    unfolding GetTileDescription_def g_def [symmetric] tops_def [symmetric] crs_def [symmetric] downs_def [symmetric]
    using g by (auto simp: send_counted_take Let_def)
  then show ?thesis
    by (simp only: view)
qed

text \<open>The position sent for a thing that is not there.\<close>

lemma stack_top_absent: "x \<notin> set ys \<Longrightarrow> stack_top n x ys = Inr (-1) \<or> (\<exists>m. stack_top n x ys = Inl m)"
  by (induction ys arbitrary: n) auto

lemma stack_down_absent: "x \<notin> set ys \<Longrightarrow> stack_down n x ys = -1"
  by (induction ys arbitrary: n) auto

lemma stack_creature_absent: "c \<notin> set cs \<Longrightarrow> stack_creature sees limit n c cs = -1"
  by (induction cs arbitrary: n) (auto split: option.split)

lemma position_absent:
  assumes "x \<notin> set (all_items t)"
  shows "getStackposOfItem e t p x = -1"
proof -
  have x: "ground t \<noteq> Some x" "x \<notin> set (topItems t)" "x \<notin> set (downItems t)"
    using assms by (auto simp: in_items)
  show ?thesis
    using x(1) stack_top_absent [OF x(2), of "if ground t = None then 0 else 1"] stack_down_absent [OF x(3)]
    by (auto simp: getStackposOfItem_def Let_def split: option.split sum.split)
qed

lemma place_of_description:
  assumes "distinct v" "v = a @ th # b"
  shows "place (length a) = int n \<longleftrightarrow> n < length (take 10 v) \<and> take 10 v ! n = th"
proof
  assume "place (length a) = int n"
  then have "n = length a" "n < 10"
    by (auto simp: place_def split: if_splits)
  then show "n < length (take 10 v) \<and> take 10 v ! n = th"
    using assms(2) nth_take [of n 10 v] by (simp del: take_append)
next
  assume n: "n < length (take 10 v) \<and> take 10 v ! n = th"
  then have "n < length v" "n < 10"
    by simp_all
  moreover from this n have "v ! n = v ! length a"
    using assms(2) by (simp del: take_append)
  moreover have "length a < length v"
    using assms(2) by simp
  ultimately have "n = length a"
    using assms(1) by (simp add: nth_eq_iff_index_eq)
  then show "place (length a) = int n"
    using \<open>n < 10\<close> by (simp add: place_def)
qed

text \<open>C19: on every tile that has come about as in C20, the position that the server computes for an item or a visible
  creature, which it sends with every message about it, is the one at which the description of the tile sends
  that very thing to the same player; and the position is -1, for which no message is sent, exactly when
  the description leaves the thing out, as it leaves out what comes after the tenth.\<close>

theorem positions_are_those_described:
  assumes "(tile_step e)\<^sup>*\<^sup>* bare_tile t"
  shows "(getStackposOfItem e t p x = int n \<longleftrightarrow>
       n < length (GetTileDescription e t p) \<and> GetTileDescription e t p ! n = AnItem x) \<and>
    (getStackposOfItem e t p x = -1 \<longleftrightarrow> AnItem x \<notin> set (GetTileDescription e t p)) \<and>
    (canSeeCreature e p c \<longrightarrow>
       (getStackposOfCreature e t p c = int n \<longleftrightarrow>
          n < length (GetTileDescription e t p) \<and> GetTileDescription e t p ! n = ACreature c) \<and>
       (getStackposOfCreature e t p c = -1 \<longleftrightarrow> ACreature c \<notin> set (GetTileDescription e t p)))"
proof -
  note S = tile_okD(1) [OF tile_run_ok [OF assms]]
  note d = view_distinct [OF S, of p]
  let ?v = "tile_view e t p"
  have out: "\<not> (n < length (take 10 ?v) \<and> take 10 ?v ! n = th)" if "th \<notin> set ?v" for th n
    using that nth_mem [of n "take 10 ?v"] set_take_subset [of 10 ?v] by blast
  have none: "pos = -1 \<longleftrightarrow> th \<notin> set (take 10 ?v)"
    if "\<And>n. pos = int n \<longleftrightarrow> n < length (take 10 ?v) \<and> take 10 ?v ! n = th" "pos = -1 \<or> 0 \<le> pos" for pos th
    using that nonneg_int_cases [of pos] unfolding in_set_conv_nth by (metis int_nat_eq of_nat_0_le_iff neg_0_le_iff_le not_one_le_zero)
  have item: "(getStackposOfItem e t p x = int n \<longleftrightarrow> n < length (take 10 ?v) \<and> take 10 ?v ! n = AnItem x) \<and>
      (getStackposOfItem e t p x = -1 \<or> 0 \<le> getStackposOfItem e t p x)" for n
  proof (cases "AnItem x \<in> set ?v")
    case True
    then obtain a b where v: "?v = a @ AnItem x # b" by (meson split_list)
    show ?thesis unfolding stackpos_is_place [OF S v] using place_of_description [OF d v, of n] by (auto simp: place_def)
  next
    case False
    then have "getStackposOfItem e t p x = -1"
      using item_in_view [of x e t p] by (simp add: position_absent)
    then show ?thesis using out [OF False] by simp
  qed
  have creature: "(getStackposOfCreature e t p c = int n \<longleftrightarrow> n < length (take 10 ?v) \<and> take 10 ?v ! n = ACreature c) \<and>
      (getStackposOfCreature e t p c = -1 \<or> 0 \<le> getStackposOfCreature e t p c)"
    if sees: "canSeeCreature e p c" for n
  proof (cases "ACreature c \<in> set ?v")
    case True
    then obtain a b where v: "?v = a @ ACreature c # b" by (meson split_list)
    show ?thesis unfolding creature_is_place [OF S v] using place_of_description [OF d v, of n] by (auto simp: place_def)
  next
    case False
    then have "c \<notin> set (rev (tile_creatures t))"
      using sees by (auto simp: tile_view_def)
    then have "getStackposOfCreature e t p c = -1"
      by (simp add: getStackposOfCreature_def stack_creature_absent Let_def)
    then show ?thesis using out [OF False] by simp
  qed
  show ?thesis
    unfolding description_is_view
    using item creature none [of "getStackposOfItem e t p x" "AnItem x"] none [of "getStackposOfCreature e t p c" "ACreature c"]
    by blast
qed

lemma positions_are_those_described_witness:
  "getStackposOfItem meadow walled 7 2 = 1 \<and> GetTileDescription meadow walled 7 ! 1 = AnItem 2"
proof -
  have run: "(tile_step meadow)\<^sup>*\<^sup>* bare_tile walled"
    using grass_run change_is_step [OF grass_walled] by (rule rtranclp.rtrancl_into_rtrancl)
  have "GetTileDescription meadow walled 7 = [AnItem 1, AnItem 2]"
    by (simp add: description_is_view tile_view_def grounds_def downItems_def topItems_def)
  then show ?thesis
    using positions_are_those_described [OF run, of 7 2 1 0] by simp
qed

section \<open>The order on top can be lost\<close>

text \<open>An item on top that becomes one of a higher order stays where it is.\<close>

definition signs :: Surroundings where
  "signs = meadow\<lparr>types := (\<lambda>i. plain_type\<lparr>alwaysOnTop := True, alwaysOnTopOrder := ucast i\<rparr>), keepsOrder := False\<rparr>"

definition two_signs :: Tile where
  "two_signs = bare_tile\<lparr>tile_items := [1, 2], obj := (\<lambda>x. \<lparr>item_id = (if x = 1 then 1 else 2), item_count = 1, item_attrs = None\<rparr>),
     parented := {AnItem 1, AnItem 2}\<rparr>"

lemma order_is_lost:
  "\<exists>t. tile_updateThing signs (AnItem 1) 3 1 two_signs = Some t \<and>
     map (\<lambda>x. alwaysOnTopOrder (type_of signs two_signs x)) (topItems two_signs) = [1, 2] \<and>
     map (\<lambda>x. alwaysOnTopOrder (type_of signs t x)) (topItems t) = [3, 2]"
  by (simp add: tile_updateThing_def two_signs_def signs_def bare_tile_def tile_getThingIndex_def downItems_def topItems_def
      type_of_def meadow_def plain_type_def setID_def setSubType_def setItemCount_def is_fluid_def item_removeAttribute_def
      ItemType.truncate_def Let_def)

end
