(* ===== verification/TileQuery.thy ===== *)
theory TileQuery
  imports TileOps Positions
begin

text \<open>
  The questions the game asks a tile: what lies on it, whether a thing may come or go, and where
  a step onto it leads.
\<close>

section \<open>What lies on it\<close>

fun height_reaches :: "Surroundings \<Rightarrow> Tile \<Rightarrow> u32 \<Rightarrow> u32 \<Rightarrow> addr list \<Rightarrow> bool" where
  "height_reaches e t n height [] = False"
| "height_reaches e t n height (x # xs) =
     (let h = (if item_hasProperty e t x CONST_PROP_HASHEIGHT then height + 1 else height)
      in n = h \<or> height_reaches e t n h xs)"

definition tile_hasHeight :: "Surroundings \<Rightarrow> Tile \<Rightarrow> u32 \<Rightarrow> bool" where
  "tile_hasHeight e t n = height_reaches e t n 0 (all_items t)"

definition tile_getThingCount :: "Tile \<Rightarrow> nat" where
  "tile_getThingCount t = length (tile_creatures t) + length (tile_items t) + (if ground t = None then 0 else 1)"

text \<open>The getters of the special items: the flag first, then the ground, then the items from the back.
  The teleport alone is not looked for on the ground.\<close>

definition special_item :: "Surroundings \<Rightarrow> u32 \<Rightarrow> item_class \<Rightarrow> bool \<Rightarrow> Tile \<Rightarrow> addr option" where
  "special_item e flag c on_ground t =
     (if \<not> hasFlag flag t then None
      else case ground t of
        Some g \<Rightarrow> if on_ground \<and> class_of e g = c then Some g else find (\<lambda>x. class_of e x = c) (rev (tile_items t))
      | None \<Rightarrow> find (\<lambda>x. class_of e x = c) (rev (tile_items t)))"

definition getTeleportItem :: "Surroundings \<Rightarrow> Tile \<Rightarrow> addr option" where
  "getTeleportItem e = special_item e TILESTATE_TELEPORT TeleportItem False"

definition getFieldItem :: "Surroundings \<Rightarrow> Tile \<Rightarrow> addr option" where
  "getFieldItem e = special_item e TILESTATE_MAGICFIELD MagicFieldItem True"

definition getTrashHolder :: "Surroundings \<Rightarrow> Tile \<Rightarrow> addr option" where
  "getTrashHolder e = special_item e TILESTATE_TRASHHOLDER TrashHolderItem True"

definition getMailbox :: "Surroundings \<Rightarrow> Tile \<Rightarrow> addr option" where
  "getMailbox e = special_item e TILESTATE_MAILBOX MailboxItem True"

definition getBedItem :: "Surroundings \<Rightarrow> Tile \<Rightarrow> addr option" where
  "getBedItem e = special_item e TILESTATE_BED BedItemClass True"

definition first_of :: "'a list \<Rightarrow> 'a option" where
  "first_of xs = (case xs of [] \<Rightarrow> None | x # _ \<Rightarrow> Some x)"

definition getTopCreature :: "Tile \<Rightarrow> addr option" where "getTopCreature t = first_of (tile_creatures t)"
definition getBottomCreature :: "Tile \<Rightarrow> addr option" where "getBottomCreature t = first_of (rev (tile_creatures t))"
definition getTopDownItem :: "Tile \<Rightarrow> addr option" where "getTopDownItem t = first_of (downItems t)"
definition getTopTopItem :: "Tile \<Rightarrow> addr option" where "getTopTopItem t = first_of (rev (topItems t))"

text \<open>Who looks: nobody, or a creature, of which the first argument says whether it is a player with
  access; \<open>plain\<close> are the creatures that are neither invisible nor in ghost mode.\<close>

definition getTopVisibleCreature :: "Surroundings \<Rightarrow> (addr \<Rightarrow> bool) \<Rightarrow> (addr \<Rightarrow> bool) \<Rightarrow> addr option \<Rightarrow> Tile \<Rightarrow> addr option" where
  "getTopVisibleCreature e access plain who t =
     (case who of
        Some p \<Rightarrow> if access p then getTopCreature t else find (canSeeCreature e p) (tile_creatures t)
      | None \<Rightarrow> find plain (tile_creatures t))"

definition getBottomVisibleCreature :: "Surroundings \<Rightarrow> (addr \<Rightarrow> bool) \<Rightarrow> (addr \<Rightarrow> bool) \<Rightarrow> addr option \<Rightarrow> Tile \<Rightarrow> addr option" where
  "getBottomVisibleCreature e access plain who t =
     (case who of
        Some p \<Rightarrow> if access p then getBottomCreature t else find (canSeeCreature e p) (rev (tile_creatures t))
      | None \<Rightarrow> find plain (rev (tile_creatures t)))"

definition getItemByTopOrder :: "Surroundings \<Rightarrow> int \<Rightarrow> Tile \<Rightarrow> addr option" where
  "getItemByTopOrder e topOrder t = find (\<lambda>x. uint (alwaysOnTopOrder (type_of e t x)) = topOrder) (rev (topItems t))"

definition getTopVisibleThing :: "Surroundings \<Rightarrow> (addr \<Rightarrow> bool) \<Rightarrow> (addr \<Rightarrow> bool) \<Rightarrow> addr option \<Rightarrow> Tile \<Rightarrow> Thing option" where
  "getTopVisibleThing e access plain who t =
     (case getTopVisibleCreature e access plain who t of
        Some c \<Rightarrow> Some (ACreature c)
      | None \<Rightarrow>
          (case find (\<lambda>x. \<not> lookThrough (type_of e t x)) (downItems t @ rev (topItems t)) of
             Some x \<Rightarrow> Some (AnItem x)
           | None \<Rightarrow> map_option AnItem (ground t)))"

definition getUseItem :: "Surroundings \<Rightarrow> Tile \<Rightarrow> addr option" where
  "getUseItem e t =
     (if tile_items t = [] then ground t
      else case find (\<lambda>x. forceUse (type_of e t x)) (rev (tile_items t)) of
        Some x \<Rightarrow> Some x
      | None \<Rightarrow> (case getTopDownItem t of Some x \<Rightarrow> Some x | None \<Rightarrow> getTopTopItem t))"

definition isMoveableBlocking :: "Tile \<Rightarrow> bool" where
  "isMoveableBlocking t = (ground t = None \<or> hasFlag TILESTATE_BLOCKSOLID t)"

datatype ZoneType_t = ZONE_PROTECTION | ZONE_NOPVP | ZONE_PVP | ZONE_NOLOGOUT | ZONE_NORMAL

definition getZone :: "Tile \<Rightarrow> ZoneType_t" where
  "getZone t =
     (if hasFlag TILESTATE_PROTECTIONZONE t then ZONE_PROTECTION
      else if hasFlag TILESTATE_NOPVPZONE t then ZONE_NOPVP
      else if hasFlag TILESTATE_PVPZONE t then ZONE_PVP
      else ZONE_NORMAL)"

text \<open>\<open>Item::countByType\<close>; the sub type is -1 for any.\<close>

definition countByType :: "items \<Rightarrow> Item \<Rightarrow> int \<Rightarrow> u32" where
  "countByType its i subType = (if subType = -1 \<or> subType = uint (getSubType its i) then ucast (item_count i) else 0)"

definition tile_getItemTypeCount :: "Surroundings \<Rightarrow> u16 \<Rightarrow> int \<Rightarrow> Tile \<Rightarrow> u32" where
  "tile_getItemTypeCount e itemId subType t =
     sum_list (map (\<lambda>x. countByType (\<lambda>i. ItemType.truncate (types e i)) (obj t x) subType)
       (filter (\<lambda>x. item_id (obj t x) = itemId) (all_items t)))"

section \<open>Coming and going\<close>

definition FLAG_IGNOREBLOCKITEM :: u32 where "FLAG_IGNOREBLOCKITEM = 2"
definition FLAG_IGNOREBLOCKCREATURE :: u32 where "FLAG_IGNOREBLOCKCREATURE = 4"
definition FLAG_PATHFINDING :: u32 where "FLAG_PATHFINDING = 16"
definition FLAG_IGNOREFIELDDAMAGE :: u32 where "FLAG_IGNOREFIELDDAMAGE = 32"

text \<open>What the query asks of the creatures.  \<open>immuneTo\<close> and \<open>afflictedBy\<close> are a monster's answers for
  the combat type of a field, \<open>playerSummon\<close> says that its master is a player.\<close>

datatype creature_kind = IsPlayer | IsMonster | IsNpc

record Being =
  being_kind :: creature_kind
  ghost :: bool
  pushable :: bool
  summon :: bool
  playerSummon :: bool
  pushCreatures :: bool
  pushItems :: bool
  immuneTo :: "addr \<Rightarrow> bool"
  afflictedBy :: "addr \<Rightarrow> bool"
  accessPlayer :: bool
  pzLocked :: bool
  walksThrough :: "addr \<Rightarrow> bool"
  without_parent :: bool
  own_tile :: "u32 option"

definition pushes_all :: "(addr \<Rightarrow> Being) \<Rightarrow> addr list \<Rightarrow> bool" where
  "pushes_all b cs = list_all (\<lambda>c. being_kind (b c) = IsPlayer \<and> ghost (b c) \<or>
     being_kind (b c) = IsMonster \<and> pushable (b c) \<and> \<not> (summon (b c) \<and> playerSummon (b c))) cs"

text \<open>The two parts of the query about a creature, for monsters and for all the others.\<close>

definition queryAdd_monster :: "Surroundings \<Rightarrow> (addr \<Rightarrow> Being) \<Rightarrow> Tile \<Rightarrow> Being \<Rightarrow> u32 \<Rightarrow> ReturnValue" where
  "queryAdd_monster e b t m fs =
     (if hasFlag (TILESTATE_PROTECTIONZONE OR TILESTATE_FLOORCHANGE OR TILESTATE_TELEPORT) t then RETURNVALUE_NOTPOSSIBLE
      else if pushCreatures m \<and> \<not> summon m \<and> \<not> pushes_all b (tile_creatures t) then RETURNVALUE_NOTPOSSIBLE
      else if \<not> (pushCreatures m \<and> \<not> summon m) \<and> list_ex (\<lambda>c. \<not> ghost (b c)) (tile_creatures t) then RETURNVALUE_NOTENOUGHROOM
      else if hasFlag TILESTATE_IMMOVABLEBLOCKSOLID t then RETURNVALUE_NOTPOSSIBLE
      else if hasBitSet FLAG_PATHFINDING fs \<and> hasFlag TILESTATE_IMMOVABLENOFIELDBLOCKPATH t then RETURNVALUE_NOTPOSSIBLE
      else if (hasFlag TILESTATE_BLOCKSOLID t \<or> hasBitSet FLAG_PATHFINDING fs \<and> hasFlag TILESTATE_NOFIELDBLOCKPATH t) \<and>
        \<not> (pushItems m \<or> hasBitSet FLAG_IGNOREBLOCKITEM fs) then RETURNVALUE_NOTPOSSIBLE
      else case getFieldItem e t of
        None \<Rightarrow> RETURNVALUE_NOERROR
      | Some field \<Rightarrow>
          if \<not> blockSolid (type_of e t field) \<and> \<not> immuneTo m field \<and>
             \<not> (hasBitSet FLAG_IGNOREFIELDDAMAGE fs \<and> (pushItems m \<or> afflictedBy m field))
          then RETURNVALUE_NOTPOSSIBLE else RETURNVALUE_NOERROR)"

definition pz_check :: "Tile \<Rightarrow> u32 \<Rightarrow> ReturnValue" where
  "pz_check t own =
     (if \<not> hasBitSet TILESTATE_PVPZONE own \<and> hasFlag TILESTATE_PVPZONE t then RETURNVALUE_PLAYERISPZLOCKEDENTERPVPZONE
      else if hasBitSet TILESTATE_PVPZONE own \<and> \<not> hasFlag TILESTATE_PVPZONE t then RETURNVALUE_PLAYERISPZLOCKEDLEAVEPVPZONE
      else if \<not> hasBitSet TILESTATE_NOPVPZONE own \<and> hasFlag TILESTATE_NOPVPZONE t \<or>
        \<not> hasBitSet TILESTATE_PROTECTIONZONE own \<and> hasFlag TILESTATE_PROTECTIONZONE t then RETURNVALUE_PLAYERISPZLOCKED
      else RETURNVALUE_NOERROR)"

definition queryAdd_player :: "(addr \<Rightarrow> Being) \<Rightarrow> Tile \<Rightarrow> Being \<Rightarrow> u32 \<Rightarrow> ReturnValue" where
  "queryAdd_player b t p fs =
     (if \<not> hasBitSet FLAG_IGNOREBLOCKCREATURE fs \<and> \<not> accessPlayer p \<and> list_ex (\<lambda>c. \<not> walksThrough p c) (tile_creatures t)
      then RETURNVALUE_NOTPOSSIBLE
      else if without_parent p \<and> hasFlag TILESTATE_NOLOGOUT t then RETURNVALUE_NOTPOSSIBLE
      else case own_tile p of
        None \<Rightarrow> RETURNVALUE_NOERROR
      | Some own \<Rightarrow> if pzLocked p then pz_check t own else RETURNVALUE_NOERROR)"

definition solid_fixed :: "Surroundings \<Rightarrow> Tile \<Rightarrow> addr \<Rightarrow> bool" where
  "solid_fixed e t x \<longleftrightarrow> blockSolid (type_of e t x) \<and>
     (\<not> moveable (type_of e t x) \<or> item_hasAttribute ITEM_ATTRIBUTE_UNIQUEID (obj t x))"

definition queryAdd_creature :: "Surroundings \<Rightarrow> (addr \<Rightarrow> Being) \<Rightarrow> Tile \<Rightarrow> Being \<Rightarrow> u32 \<Rightarrow> ReturnValue" where
  "queryAdd_creature e b t c fs =
     (if hasBitSet FLAG_NOLIMIT fs then RETURNVALUE_NOERROR
      else if hasBitSet FLAG_PATHFINDING fs \<and> hasFlag (TILESTATE_FLOORCHANGE OR TILESTATE_TELEPORT) t then RETURNVALUE_NOTPOSSIBLE
      else if ground t = None then RETURNVALUE_NOTPOSSIBLE
      else if being_kind c = IsMonster then queryAdd_monster e b t c fs
      else
        let r = (if being_kind c = IsPlayer then queryAdd_player b t c fs
                 else if \<not> hasBitSet FLAG_IGNOREBLOCKCREATURE fs \<and> list_ex (\<lambda>o'. \<not> ghost (b o')) (tile_creatures t)
                 then RETURNVALUE_NOTENOUGHROOM else RETURNVALUE_NOERROR) in
        if r \<noteq> RETURNVALUE_NOERROR then r
        else if \<not> hasBitSet FLAG_IGNOREBLOCKITEM fs
        then (if hasFlag TILESTATE_BLOCKSOLID t then RETURNVALUE_NOTENOUGHROOM else RETURNVALUE_NOERROR)
        else if list_ex (solid_fixed e t) (all_items t) then RETURNVALUE_NOTPOSSIBLE
        else RETURNVALUE_NOERROR)"

text \<open>The test that an item fits with what blocks already, the same for the ground and for the items.\<close>

definition fits_with :: "TileType \<Rightarrow> TileType \<Rightarrow> bool" where
  "fits_with new old \<longleftrightarrow>
     \<not> blockSolid old \<or> allowPickupable old \<and> \<not> isMagicField new \<and> \<not> blockSolid new \<or>
     pickupable new \<and> hasHeight old \<and> \<not> pickupable old \<and> \<not> isBed old"

definition queryAdd_item :: "Surroundings \<Rightarrow> (addr \<Rightarrow> Being) \<Rightarrow> Tile \<Rightarrow> addr \<Rightarrow> u32 \<Rightarrow> ReturnValue" where
  "queryAdd_item e b t x fs =
     (let it = type_of e t x in
      if length (tile_items t) \<ge> 65535 then RETURNVALUE_NOTPOSSIBLE
      else if hasBitSet FLAG_NOLIMIT fs then RETURNVALUE_NOERROR
      else if ground t = None \<and> \<not> isHangable it then RETURNVALUE_NOTPOSSIBLE
      else if blockSolid it \<and> \<not> hasBitSet FLAG_IGNOREBLOCKCREATURE fs \<and> list_ex (\<lambda>c. \<not> ghost (b c)) (tile_creatures t)
      then RETURNVALUE_NOTENOUGHROOM
      else if isHangable it \<and> hasFlag TILESTATE_SUPPORTS_HANGABLE t
      then (if list_ex (\<lambda>y. isHangable (type_of e t y)) (tile_items t) then RETURNVALUE_NEEDEXCHANGE else RETURNVALUE_NOERROR)
      else if list_all (\<lambda>y. fits_with it (type_of e t y)) (all_items t) then RETURNVALUE_NOERROR
      else RETURNVALUE_NOTENOUGHROOM)"

definition tile_queryAdd :: "Surroundings \<Rightarrow> (addr \<Rightarrow> Being) \<Rightarrow> Tile \<Rightarrow> Thing \<Rightarrow> u32 \<Rightarrow> ReturnValue" where
  "tile_queryAdd e b t thing fs =
     (case thing of ACreature c \<Rightarrow> queryAdd_creature e b t (b c) fs | AnItem x \<Rightarrow> queryAdd_item e b t x fs)"

definition tile_queryMaxCount :: "u32 \<Rightarrow> ReturnValue \<times> u32" where
  "tile_queryMaxCount count = (RETURNVALUE_NOERROR, max 1 count)"

definition tile_queryRemove :: "Surroundings \<Rightarrow> Tile \<Rightarrow> Thing \<Rightarrow> u32 \<Rightarrow> u32 \<Rightarrow> ReturnValue" where
  "tile_queryRemove e t thing count fs =
     (if tile_getThingIndex e t thing = -1 then RETURNVALUE_NOTPOSSIBLE
      else case thing of
        ACreature _ \<Rightarrow> RETURNVALUE_NOTPOSSIBLE
      | AnItem x \<Rightarrow>
          let it = type_of e t x in
          if count = 0 \<or> stackable it \<and> count > ucast (item_count (obj t x)) then RETURNVALUE_NOTPOSSIBLE
          else if \<not> moveable it \<and> \<not> hasBitSet FLAG_IGNORENOTMOVEABLE fs then RETURNVALUE_NOTMOVEABLE
          else RETURNVALUE_NOERROR)"

section \<open>Where a step leads\<close>

text \<open>The answer is the position of the tile of destination, the flags, and the item on top of the
  ordinary ones there; coordinates wrap at their width.  \<open>at\<close> is the map.\<close>

definition shift_if :: "u32 \<Rightarrow> Tile \<Rightarrow> u16 \<Rightarrow> u16 \<Rightarrow> u16" where
  "shift_if flag t d n = (if hasFlag flag t then n + d else n)"

type_synonym game_map = "u16 \<Rightarrow> u16 \<Rightarrow> u8 \<Rightarrow> Tile option"

definition has_at :: "game_map \<Rightarrow> u32 \<Rightarrow> u16 \<Rightarrow> u16 \<Rightarrow> u8 \<Rightarrow> bool" where
  "has_at at flag cx cy cz = (case at cx cy cz of None \<Rightarrow> False | Some t \<Rightarrow> hasFlag flag t)"

definition goes_down :: "game_map \<Rightarrow> u16 \<Rightarrow> u16 \<Rightarrow> u8 \<Rightarrow> (u16 \<times> u16 \<times> u8) option" where
  "goes_down at dx dy dz =
     (if has_at at TILESTATE_FLOORCHANGE_SOUTH_ALT dx (dy - 1) dz then Some (dx, dy - 2, dz)
      else if has_at at TILESTATE_FLOORCHANGE_EAST_ALT (dx - 1) dy dz then Some (dx - 2, dy, dz)
      else case at dx dy dz of
        None \<Rightarrow> None
      | Some d \<Rightarrow>
          let y1 = shift_if TILESTATE_FLOORCHANGE_SOUTH_ALT d (-2) (shift_if TILESTATE_FLOORCHANGE_SOUTH d (-1)
                     (shift_if TILESTATE_FLOORCHANGE_NORTH d 1 dy));
              x1 = shift_if TILESTATE_FLOORCHANGE_WEST d 1 (shift_if TILESTATE_FLOORCHANGE_EAST_ALT d (-2)
                     (shift_if TILESTATE_FLOORCHANGE_EAST d (-1) dx))
          in Some (x1, y1, dz))"

definition goes_up :: "Tile \<Rightarrow> u16 \<Rightarrow> u16 \<Rightarrow> u8 \<Rightarrow> u16 \<times> u16 \<times> u8" where
  "goes_up t dx dy dz =
     (let y1 = shift_if TILESTATE_FLOORCHANGE_SOUTH_ALT t 2 (shift_if TILESTATE_FLOORCHANGE_SOUTH t 1
                 (shift_if TILESTATE_FLOORCHANGE_NORTH t (-1) dy));
          x1 = shift_if TILESTATE_FLOORCHANGE_EAST_ALT t 2 (shift_if TILESTATE_FLOORCHANGE_WEST t (-1)
                 (shift_if TILESTATE_FLOORCHANGE_EAST t 1 dx))
      in (x1, y1, dz))"

definition tile_queryDestination :: "game_map \<Rightarrow> Position \<Rightarrow> Tile \<Rightarrow> u32 \<Rightarrow> Position \<times> u32 \<times> addr option" where
  "tile_queryDestination at tilePos t fs =
     (let target = (if hasFlag TILESTATE_FLOORCHANGE_DOWN t then goes_down at (pos_x tilePos) (pos_y tilePos) (pos_z tilePos + 1)
                    else if hasFlag TILESTATE_FLOORCHANGE t then Some (goes_up t (pos_x tilePos) (pos_y tilePos) (pos_z tilePos - 1))
                    else None)
      in case target of
        None \<Rightarrow> (tilePos, fs, getTopDownItem t)
      | Some (dx, dy, dz) \<Rightarrow>
          (case at dx dy dz of
             None \<Rightarrow> (tilePos, fs, getTopDownItem t)
           | Some d \<Rightarrow> (Position dx dy dz, fs OR FLAG_NOLIMIT, getTopDownItem d)))"

end
