(* ===== verification/MapTree.thy ===== *)
theory MapTree
  imports Prelude
begin

text \<open>
  The tree that holds the map: QTreeNode, QTreeLeafNode, Floor and the two operations of Map on
  tiles (map.h, map.cpp).  A position is found by the bits 15 to 3 of its coordinates, a leaf
  holds eight by eight tiles on each of sixteen floors and knows its neighbours to the east and to
  the south.  Leaves have names here, for they are shared by the tree and by their neighbours.
\<close>

section \<open>State\<close>

definition FLOOR_BITS :: nat where "FLOOR_BITS = 3"
definition FLOOR_SIZE :: nat where "FLOOR_SIZE = 8"
definition FLOOR_MASK :: u16 where "FLOOR_MASK = 7"
definition MAP_MAX_LAYERS :: nat where "MAP_MAX_LAYERS = 16"

type_synonym leaf_id = nat

text \<open>The four children are those for the bits of x and y both clear, x set, y set, and both set.\<close>

datatype QTreeNode = QTreeNode "QTreeNode option" "QTreeNode option" "QTreeNode option" "QTreeNode option" | QTreeLeaf leaf_id

type_synonym 't Floor = "nat \<Rightarrow> nat \<Rightarrow> 't option"

record 't QTreeLeafNode =
  leafS :: "leaf_id option"
  leafE :: "leaf_id option"
  floors :: "nat \<Rightarrow> 't Floor option"
  creature_list :: "nat list"
  player_list :: "nat list"

record 't Map =
  root :: QTreeNode
  leaves :: "leaf_id \<Rightarrow> 't QTreeLeafNode"
  next_leaf :: leaf_id

definition new_node :: QTreeNode where "new_node = QTreeNode None None None None"

definition new_leaf :: "'t QTreeLeafNode" where
  "new_leaf = \<lparr>leafS = None, leafE = None, floors = \<lambda>_. None, creature_list = [], player_list = []\<rparr>"

definition new_map :: "'t Map" where
  "new_map = \<lparr>root = new_node, leaves = \<lambda>_. new_leaf, next_leaf = 0\<rparr>"

section \<open>The tree\<close>

definition child_at :: "bool \<Rightarrow> bool \<Rightarrow> QTreeNode option \<Rightarrow> QTreeNode option \<Rightarrow> QTreeNode option \<Rightarrow> QTreeNode option \<Rightarrow> QTreeNode option" where
  "child_at bx b_y c0 c1 c2 c3 = (if b_y then (if bx then c3 else c2) else (if bx then c1 else c0))"

fun set_child :: "bool \<Rightarrow> bool \<Rightarrow> QTreeNode \<Rightarrow> QTreeNode \<Rightarrow> QTreeNode" where
  "set_child bx b_y n (QTreeNode c0 c1 c2 c3) =
     (if b_y then (if bx then QTreeNode c0 c1 c2 (Some n) else QTreeNode c0 c1 (Some n) c3)
      else (if bx then QTreeNode c0 (Some n) c2 c3 else QTreeNode (Some n) c1 c2 c3))"
| "set_child bx b_y n (QTreeLeaf l) = QTreeLeaf l"

text \<open>\<open>getLeaf\<close>, and \<open>getLeafStatic\<close>, which is the same loop without the test of the root.\<close>

function getLeaf :: "QTreeNode \<Rightarrow> u32 \<Rightarrow> u32 \<Rightarrow> leaf_id option" where
  "getLeaf (QTreeLeaf l) x y = Some l"
| "getLeaf (QTreeNode c0 c1 c2 c3) x y =
     (case child_at (bit x 15) (bit y 15) c0 c1 c2 c3 of
        None \<Rightarrow> None
      | Some n \<Rightarrow> getLeaf n (push_bit 1 x) (push_bit 1 y))"
  by pat_completeness auto
termination by (relation "measure (\<lambda>(n, x, y). size n)") (auto simp: child_at_def split: if_splits)

text \<open>A new leaf gets the name \<open>l\<close>.  The level counts down from 15, and at \<open>FLOOR_BITS\<close> there are leaves; it
  does not reach 0.\<close>

function createLeaf :: "leaf_id \<Rightarrow> QTreeNode \<Rightarrow> u32 \<Rightarrow> u32 \<Rightarrow> nat \<Rightarrow> QTreeNode \<times> leaf_id \<times> bool" where
  "createLeaf l (QTreeLeaf k) x y level = (QTreeLeaf k, k, False)"
| "createLeaf l (QTreeNode c0 c1 c2 c3) x y level =
     (let old = child_at (bit x 15) (bit y 15) c0 c1 c2 c3;
          child = (case old of Some n \<Rightarrow> n | None \<Rightarrow> if level \<noteq> FLOOR_BITS then new_node else QTreeLeaf l)
      in if level = 0 then (QTreeNode c0 c1 c2 c3, l, False)
         else
           let (n, k, created) = createLeaf l child (x * 2) (y * 2) (level - 1)
           in (set_child (bit x 15) (bit y 15) n (QTreeNode c0 c1 c2 c3), k,
               created \<or> old = None \<and> level = FLOOR_BITS))"
  by pat_completeness auto
termination by (relation "measure (\<lambda>(l, n, x, y, level). level)") auto

section \<open>Tiles\<close>

definition leaf_of :: "'t Map \<Rightarrow> u32 \<Rightarrow> u32 \<Rightarrow> leaf_id option" where
  "leaf_of m x y = getLeaf (root m) x y"

definition upd_leaf :: "leaf_id \<Rightarrow> ('t QTreeLeafNode \<Rightarrow> 't QTreeLeafNode) \<Rightarrow> 't Map \<Rightarrow> 't Map" where
  "upd_leaf l f m = m\<lparr>leaves := (leaves m)(l := f (leaves m l))\<rparr>"

definition getTile :: "'t Map \<Rightarrow> u16 \<Rightarrow> u16 \<Rightarrow> u8 \<Rightarrow> 't option" where
  "getTile m x y z =
     (if unat z \<ge> MAP_MAX_LAYERS then None
      else case leaf_of m (ucast x) (ucast y) of
        None \<Rightarrow> None
      | Some l \<Rightarrow>
          (case floors (leaves m l) (unat z) of
             None \<Rightarrow> None
           | Some fl \<Rightarrow> fl (unat (x AND FLOOR_MASK)) (unat (y AND FLOOR_MASK))))"

text \<open>A new leaf learns its neighbours, and they learn it.  Coordinates are \<open>uint32_t\<close> and wrap.\<close>

definition link :: "leaf_id \<Rightarrow> u32 \<Rightarrow> u32 \<Rightarrow> 't Map \<Rightarrow> 't Map" where
  "link l x y m =
     (let m1 = (case leaf_of m x (y - 8) of None \<Rightarrow> m | Some n \<Rightarrow> upd_leaf n (\<lambda>f. f\<lparr>leafS := Some l\<rparr>) m);
          m2 = (case leaf_of m1 (x - 8) y of None \<Rightarrow> m1 | Some w \<Rightarrow> upd_leaf w (\<lambda>f. f\<lparr>leafE := Some l\<rparr>) m1);
          m3 = (case leaf_of m2 x (y + 8) of None \<Rightarrow> m2 | Some s \<Rightarrow> upd_leaf l (\<lambda>f. f\<lparr>leafS := Some s\<rparr>) m2)
      in (case leaf_of m3 (x + 8) y of None \<Rightarrow> m3 | Some e \<Rightarrow> upd_leaf l (\<lambda>f. f\<lparr>leafE := Some e\<rparr>) m3))"

definition createFloor :: "leaf_id \<Rightarrow> nat \<Rightarrow> 't Map \<Rightarrow> 't Map" where
  "createFloor l z =
     upd_leaf l (\<lambda>f. case floors f z of None \<Rightarrow> f\<lparr>floors := (floors f)(z := Some (\<lambda>_ _. None))\<rparr> | Some _ \<Rightarrow> f)"

definition create :: "u16 \<Rightarrow> u16 \<Rightarrow> 't Map \<Rightarrow> leaf_id \<times> 't Map" where
  "create x y m =
     (let (n, l, created) = createLeaf (next_leaf m) (root m) (ucast x) (ucast y) 15;
          m1 = m\<lparr>root := n\<rparr>
      in if created
         then (l, link l (ucast x) (ucast y) (m1\<lparr>leaves := (leaves m1)(l := new_leaf), next_leaf := next_leaf m + 1\<rparr>))
         else (l, m1))"

text \<open>Where a tile is already, the new one is merged into it.\<close>

definition put_tile :: "('t \<Rightarrow> 't \<Rightarrow> 't) \<Rightarrow> nat \<Rightarrow> nat \<Rightarrow> nat \<Rightarrow> 't \<Rightarrow> 't QTreeLeafNode \<Rightarrow> 't QTreeLeafNode" where
  "put_tile merge offsetX offsetY z new f =
     (case floors f z of
        None \<Rightarrow> f
      | Some fl \<Rightarrow>
          let t = (case fl offsetX offsetY of None \<Rightarrow> new | Some old \<Rightarrow> merge old new)
          in f\<lparr>floors := (floors f)(z := Some (fl(offsetX := (fl offsetX)(offsetY := Some t))))\<rparr>)"

definition setTile :: "('t \<Rightarrow> 't \<Rightarrow> 't) \<Rightarrow> u16 \<Rightarrow> u16 \<Rightarrow> u8 \<Rightarrow> 't \<Rightarrow> 't Map \<Rightarrow> 't Map" where
  "setTile merge x y z new m =
     (if unat z \<ge> MAP_MAX_LAYERS then m
      else
        let (l, m1) = create x y m; m2 = createFloor l (unat z) m1
        in upd_leaf l (put_tile merge (unat (x AND FLOOR_MASK)) (unat (y AND FLOOR_MASK)) (unat z) new) m2)"

section \<open>Blocks\<close>

text \<open>The tree sees of a coordinate the bits 15 to 3.\<close>

definition way :: "nat \<Rightarrow> u32 \<Rightarrow> u32 \<Rightarrow> (bool \<times> bool) list" where
  "way n x y = map (\<lambda>i. (bit x (15 - i), bit y (15 - i))) [0..<n]"

fun walk :: "QTreeNode \<Rightarrow> (bool \<times> bool) list \<Rightarrow> leaf_id option" where
  "walk (QTreeLeaf l) p = Some l"
| "walk (QTreeNode c0 c1 c2 c3) [] = None"
| "walk (QTreeNode c0 c1 c2 c3) ((bx, b_y) # p) = (case child_at bx b_y c0 c1 c2 c3 of None \<Rightarrow> None | Some n \<Rightarrow> walk n p)"

fun depth_ok :: "nat \<Rightarrow> QTreeNode \<Rightarrow> bool" where
  "depth_ok d (QTreeLeaf l) = (d = 0)"
| "depth_ok d (QTreeNode c0 c1 c2 c3) =
     (d > 0 \<and> pred_option (depth_ok (d - 1)) c0 \<and> pred_option (depth_ok (d - 1)) c1 \<and>
      pred_option (depth_ok (d - 1)) c2 \<and> pred_option (depth_ok (d - 1)) c3)"


lemma walk_Nil_depth: "depth_ok 0 t \<Longrightarrow> \<exists>l. t = QTreeLeaf l"
  by (cases t) auto

lemma child_depth:
  assumes "depth_ok d (QTreeNode c0 c1 c2 c3)" and "child_at bx b_y c0 c1 c2 c3 = Some n"
  shows "depth_ok (d - 1) n"
  using assms by (auto simp: child_at_def split: if_splits)

lemma way_Suc:
  assumes "n < 15"
  shows "way (Suc n) x y = (bit x 15, bit y 15) # way n (push_bit 1 x) (push_bit 1 y)"
proof -
  have "[0..<Suc n] = 0 # map Suc [0..<n]"
    by (simp add: map_Suc_upt upt_conv_Cons del: upt_Suc)
  moreover have "bit (push_bit 1 w) (15 - i) = bit w (14 - i)" if "i < n" for w :: u32 and i
    using that assms unfolding bit_push_bit_iff by (auto dest: bit_imp_le_length)
  ultimately show ?thesis
    by (simp add: way_def o_def del: upt_Suc)
qed

lemma length_way [simp]: "length (way n x y) = n"
  by (simp add: way_def)

lemma getLeaf_walk:
  "depth_ok d t \<Longrightarrow> d \<le> 15 \<Longrightarrow> getLeaf t x y = walk t (way d x y)"
proof (induction t x y arbitrary: d rule: getLeaf.induct)
  case (1 l x y)
  then show ?case by simp
next
  case (2 c0 c1 c2 c3 x y)
  then obtain e where d: "d = Suc e" "e < 15"
    by (cases d) auto
  show ?case
  proof (cases "child_at (bit x 15) (bit y 15) c0 c1 c2 c3")
    case None
    then show ?thesis
      by (simp add: d way_Suc)
  next
    case (Some n)
    then have "depth_ok e n"
      using child_depth [OF 2(2)] d by simp
    then show ?thesis
      using 2(1) [OF Some, of e] d Some by (simp add: way_Suc)
  qed
qed

lemma child_at_set_child:
  assumes "set_child bx b_y n (QTreeNode c0 c1 c2 c3) = QTreeNode d0 d1 d2 d3"
  shows "child_at ax a_y d0 d1 d2 d3 = (if ax = bx \<and> a_y = b_y then Some n else child_at ax a_y c0 c1 c2 c3)"
  using assms by (auto simp: child_at_def split: if_splits)

lemma walk_set_child:
  "walk (set_child bx b_y n (QTreeNode c0 c1 c2 c3)) ((ax, a_y) # p)
     = (if ax = bx \<and> a_y = b_y then walk n p else walk (QTreeNode c0 c1 c2 c3) ((ax, a_y) # p))"
  by (auto simp: child_at_def)

lemma depth_set_child:
  "depth_ok d (QTreeNode c0 c1 c2 c3) \<Longrightarrow> depth_ok (d - 1) n
     \<Longrightarrow> depth_ok d (set_child bx b_y n (QTreeNode c0 c1 c2 c3))"
  by auto

lemma walk_new_node: "p \<noteq> [] \<Longrightarrow> walk new_node p = None"
  by (cases p) (auto simp: new_node_def child_at_def)

lemma depth_new_node: "depth_ok d new_node = (0 < d)"
  by (simp add: new_node_def)

text \<open>The leaf for a position is in the tree afterwards, and no other way through the tree has changed.\<close>

lemma createLeaf_walk:
  assumes "depth_ok d t" and "d \<le> 13" and "createLeaf l t x y (d + 2) = (t', k, created)"
  shows "depth_ok d t' \<and>
         (\<forall>p. length p = d \<longrightarrow> walk t' p = (if p = way d x y then Some k else walk t p)) \<and>
         (if created then k = l \<and> walk t (way d x y) = None else walk t (way d x y) = Some k)"
  using assms
proof (induction d arbitrary: t t' k created x y)
  case 0
  obtain k' where "t = QTreeLeaf k'"
    using walk_Nil_depth [OF 0(1)] by auto
  then show ?case
    using 0 by (auto simp: way_def)
next
  case (Suc d)
  obtain c0 c1 c2 c3 where t: "t = QTreeNode c0 c1 c2 c3"
    using Suc.prems(1) by (cases t) auto
  define old where "old = child_at (bit x 15) (bit y 15) c0 c1 c2 c3"
  define child where
    "child = (case old of Some n \<Rightarrow> n | None \<Rightarrow> if d + 3 \<noteq> FLOOR_BITS then new_node else QTreeLeaf l)"
  obtain n k' c where rec: "createLeaf l child (x * 2) (y * 2) (d + 2) = (n, k', c)"
    by (cases "createLeaf l child (x * 2) (y * 2) (d + 2)") auto
  have res: "t' = set_child (bit x 15) (bit y 15) n t" "k = k'"
      "created = (c \<or> old = None \<and> d + 3 = FLOOR_BITS)"
  proof -
    have "Suc d + 2 = d + 3"
      by simp
    note call = Suc.prems(3) [unfolded this t createLeaf.simps(2)]
    show "t' = set_child (bit x 15) (bit y 15) n t" "k = k'" "created = (c \<or> old = None \<and> d + 3 = FLOOR_BITS)"
      using call rec unfolding t old_def child_def Let_def by (simp_all del: set_child.simps)
  qed
  have cd: "depth_ok d child"
    using child_depth [of "Suc d"] Suc.prems(1) unfolding t child_def old_def
    by (auto simp: depth_new_node FLOOR_BITS_def split: option.splits)
  have two: "x * 2 = push_bit 1 x" "y * 2 = push_bit 1 y"
    by (simp_all add: push_bit_eq_mult)
  have w: "way (Suc d) x y = (bit x 15, bit y 15) # way d (x * 2) (y * 2)"
    unfolding two by (rule way_Suc) (use Suc.prems(2) in simp)
  have IH: "depth_ok d n"
      "\<And>p. length p = d \<Longrightarrow> walk n p = (if p = way d (x * 2) (y * 2) then Some k else walk child p)"
      "if c then k = l \<and> walk child (way d (x * 2) (y * 2)) = None else walk child (way d (x * 2) (y * 2)) = Some k"
    using Suc.IH [OF cd _ rec] Suc.prems(2) res by auto
  have old_walk: "walk t (way (Suc d) x y) = (case old of None \<Rightarrow> None | Some m \<Rightarrow> walk m (way d (x * 2) (y * 2)))"
    by (simp add: w t old_def)
  have "depth_ok (Suc d) t'"
    using Suc.prems(1) IH(1) unfolding res(1) t by (intro depth_set_child) simp_all
  moreover have "walk t' p = (if p = way (Suc d) x y then Some k else walk t p)" if len: "length p = Suc d" for p
  proof -
    obtain ax a_y q where p: "p = (ax, a_y) # q" "length q = d"
      using len by (cases p) auto
    have fresh: "walk child q = None" if "old = None" "q \<noteq> way d (x * 2) (y * 2)"
      using that p by (cases d) (auto simp: child_def FLOOR_BITS_def walk_new_node way_def simp flip: length_greater_0_conv)
    show ?thesis
    proof (cases "ax = bit x 15 \<and> a_y = bit y 15")
      case False
      then show ?thesis
        unfolding res(1) p(1) w t walk_set_child by auto
    next
      case True
      show ?thesis
      proof (cases "q = way d (x * 2) (y * 2)")
        case True
        then show ?thesis
          using IH(2) [OF p(2)] \<open>ax = _ \<and> _\<close> unfolding res(1) p(1) w t walk_set_child by simp
      next
        case False
        then show ?thesis
          using IH(2) [OF p(2)] fresh [OF _ False] \<open>ax = _ \<and> _\<close>
          unfolding res(1) p(1) w t walk_set_child
          by (cases old) (simp_all add: old_def [symmetric] child_def)
      qed
    qed
  qed
  moreover have "if created then k = l \<and> walk t (way (Suc d) x y) = None else walk t (way (Suc d) x y) = Some k"
  proof (cases old)
    case (Some m)
    then show ?thesis
      using IH(3) by (simp add: res(3) old_walk child_def split: if_splits)
  next
    case None
    show ?thesis
    proof (cases d)
      case 0
      then have "created" "k = l"
        using None rec res by (simp_all add: child_def FLOOR_BITS_def)
      then show ?thesis
        using None by (simp add: old_walk)
    next
      case (Suc e)
      then have "walk child (way d (x * 2) (y * 2)) = None"
        using None by (simp add: child_def FLOOR_BITS_def walk_new_node flip: length_0_conv)
      then show ?thesis
        using IH(3) None old_walk Suc by (auto simp: res(3) FLOOR_BITS_def split: if_splits)
    qed
  qed
  ultimately show ?case
    by blast
qed


section \<open>Well-formed maps\<close>

definition blk :: "u32 \<Rightarrow> nat" where "blk x = take_bit 13 (drop_bit 3 (unat x))"

lemma bit_blk: "bit (blk x) i = (i < 13 \<and> bit x (i + 3))"
  by (auto simp: blk_def bit_take_bit_iff bit_drop_bit_eq bit_unsigned_iff add.commute dest: bit_imp_le_length)

lemma way_eq_iff: "way 13 x y = way 13 x' y' \<longleftrightarrow> blk x = blk x' \<and> blk y = blk y'"
proof -
  have eq: "(\<forall>i < 13. bit u (15 - i) = bit v (15 - i)) \<longleftrightarrow> blk u = blk v" for u v :: u32
  proof
    assume L: "\<forall>i < 13. bit u (15 - i) = bit v (15 - i)"
    show "blk u = blk v"
    proof (rule bit_eqI)
      fix i
      have "bit u (i + 3) = bit v (i + 3)" if "i < 13"
        using L [rule_format, of "12 - i"] that by (simp add: add.commute)
      then show "bit (blk u) i = bit (blk v) i"
        by (auto simp: bit_blk)
    qed
  next
    assume R: "blk u = blk v"
    show "\<forall>i < 13. bit u (15 - i) = bit v (15 - i)"
    proof (intro allI impI)
      fix i :: nat assume "i < 13"
      then show "bit u (15 - i) = bit v (15 - i)"
        using arg_cong [OF R, of "\<lambda>b. bit b (12 - i)"] unfolding bit_blk by (auto simp: less_eq_Suc_le)
    qed
  qed
  have "way 13 x y = way 13 x' y' \<longleftrightarrow>
      (\<forall>i < 13. bit x (15 - i) = bit x' (15 - i)) \<and> (\<forall>i < 13. bit y (15 - i) = bit y' (15 - i))"
    unfolding way_def by (auto simp del: upt_Suc)
  then show ?thesis
    by (simp add: eq)
qed

lemma blk_less: "blk x < 8192"
  unfolding blk_def using take_bit_nat_less_exp [of 13] by simp

lemma blk_plus_8: "blk (x + 8) = (blk x + 1) mod 8192"
proof -
  have "unat (x + 8) = (unat x + 8) mod 2 ^ 32"
    by (simp add: unat_word_ariths)
  then have "blk (x + 8) = ((unat x + 8) mod 4294967296 div 8) mod 8192"
    by (simp add: blk_def take_bit_eq_mod drop_bit_eq_div)
  also have "\<dots> = ((unat x + 8) div 8) mod 8192"
    using mod_mult2_eq [of "unat x + 8" 8 536870912] by (simp add: mod_mod_cancel)
  also have "\<dots> = (blk x + 1) mod 8192"
    by (simp add: blk_def take_bit_eq_mod drop_bit_eq_div mod_Suc_eq div_add_self2 [of 8 "unat x", simplified])
  finally show ?thesis .
qed

lemma blk_minus_8: "blk x = (blk (x - 8) + 1) mod 8192"
  using blk_plus_8 [of "x - 8"] by simp

lemma next_blk_inj: "a < 8192 \<Longrightarrow> b < 8192 \<Longrightarrow> (a + 1) mod 8192 = (b + 1) mod 8192 \<Longrightarrow> a = (b :: nat)"
  by (auto simp: mod_Suc split: if_splits)


text \<open>
  Every leaf is thirteen steps below the root, has its own name, and its two links name the leaf one
  block to the east and one block to the south, if there is one; coordinates wrap at the edge.
\<close>

definition map_ok :: "'t Map \<Rightarrow> bool" where
  "map_ok m =
     (depth_ok 13 (root m) \<and>
      (\<forall>x y l. leaf_of m x y = Some l \<longrightarrow>
         l < next_leaf m \<and>
         leafE (leaves m l) = leaf_of m (x + 8) y \<and>
         leafS (leaves m l) = leaf_of m x (y + 8) \<and>
         (\<forall>u v. leaf_of m u v = Some l \<longrightarrow> blk u = blk x \<and> blk v = blk y)))"

lemma map_okD:
  assumes "map_ok m" and "leaf_of m x y = Some l"
  shows "l < next_leaf m" "leafE (leaves m l) = leaf_of m (x + 8) y" "leafS (leaves m l) = leaf_of m x (y + 8)"
    and "leaf_of m u v = Some l \<Longrightarrow> blk u = blk x \<and> blk v = blk y"
  using assms unfolding map_ok_def by blast+

lemma map_ok_depth: "map_ok m \<Longrightarrow> depth_ok 13 (root m)"
  by (simp add: map_ok_def)

lemma leaf_of_cong:
  assumes "depth_ok 13 (root m)" and "blk u = blk x" and "blk v = blk y"
  shows "leaf_of m u v = leaf_of m x y"
proof -
  have "way 13 u v = way 13 x y"
    using assms(2,3) by (simp add: way_eq_iff)
  then show ?thesis
    by (simp add: leaf_of_def getLeaf_walk [OF assms(1)])
qed

lemma map_ok_new: "map_ok (new_map :: 't Map)"
proof -
  have "depth_ok 13 (root (new_map :: 't Map))"
    by (simp add: new_map_def depth_new_node)
  moreover have "leaf_of (new_map :: 't Map) x y = None" for x y
    by (simp add: leaf_of_def new_map_def new_node_def child_at_def)
  ultimately show ?thesis
    by (simp add: map_ok_def)
qed

lemma leaf_of_upd [simp]: "leaf_of (upd_leaf l f m) = leaf_of m"
  by (rule ext)+ (simp add: leaf_of_def upd_leaf_def)

lemma leaves_upd: "leaves (upd_leaf l f m) k = (if k = l then f (leaves m l) else leaves m k)"
  by (simp add: upd_leaf_def)

lemma next_upd [simp]: "next_leaf (upd_leaf l f m) = next_leaf m" "root (upd_leaf l f m) = root m"
  by (simp_all add: upd_leaf_def)

lemma leaf_of_link [simp]: "leaf_of (link l x y m) = leaf_of m"
  by (simp add: link_def Let_def split: option.splits)

lemma link_frame [simp]: "next_leaf (link l x y m) = next_leaf m" "root (link l x y m) = root m"
  by (simp_all add: link_def Let_def split: option.splits)

lemma link_leafE:
  "leafE (leaves (link l x y m) k) =
     (if k = l \<and> leaf_of m (x + 8) y \<noteq> None then leaf_of m (x + 8) y
      else if leaf_of m (x - 8) y = Some k then Some l else leafE (leaves m k))"
  by (simp add: link_def Let_def leaves_upd split: option.split)

lemma link_leafS:
  "leafS (leaves (link l x y m) k) =
     (if k = l \<and> leaf_of m x (y + 8) \<noteq> None then leaf_of m x (y + 8)
      else if leaf_of m x (y - 8) = Some k then Some l else leafS (leaves m k))"
  by (simp add: link_def Let_def leaves_upd split: option.split)

lemma link_content:
  "floors (leaves (link l x y m) k) = floors (leaves m k)"
  "creature_list (leaves (link l x y m) k) = creature_list (leaves m k)"
  "player_list (leaves (link l x y m) k) = player_list (leaves m k)"
  by (simp_all add: link_def Let_def leaves_upd split: option.split)

section \<open>A leaf is made\<close>

lemma leaf_of_create:
  assumes "depth_ok 13 (root m)" and "create x y m = (l, m')"
  shows "depth_ok 13 (root m') \<and>
    leaf_of m' u v = (if blk u = blk (ucast x) \<and> blk v = blk (ucast y) then Some l else leaf_of m u v)"
proof -
  obtain n k created where call: "createLeaf (next_leaf m) (root m) (ucast x) (ucast y) (13 + 2) = (n, k, created)"
    by (cases "createLeaf (next_leaf m) (root m) (ucast x) (ucast y) (13 + 2)") auto
  note tree = createLeaf_walk [OF assms(1) _ call, simplified]
  have res: "root m' = n" "l = k"
    using assms(2) call by (auto simp: create_def Let_def split: if_splits)
  have d: "depth_ok 13 n"
    using tree by simp
  have "leaf_of m' u v = walk n (way 13 u v)" "leaf_of m u v = walk (root m) (way 13 u v)"
    by (simp_all add: leaf_of_def res getLeaf_walk [OF d] getLeaf_walk [OF assms(1)])
  then show ?thesis
    using tree by (auto simp: res way_eq_iff)
qed

lemma create_old:
  assumes "depth_ok 13 (root m)" and "create x y m = (l, m')" and "leaf_of m (ucast x) (ucast y) = Some k"
  shows "l = k \<and> leaves m' = leaves m \<and> next_leaf m' = next_leaf m"
proof -
  obtain n k' created where call: "createLeaf (next_leaf m) (root m) (ucast x) (ucast y) (13 + 2) = (n, k', created)"
    by (cases "createLeaf (next_leaf m) (root m) (ucast x) (ucast y) (13 + 2)") auto
  have "walk (root m) (way 13 (ucast x) (ucast y)) = Some k"
    using assms(3) by (simp add: leaf_of_def getLeaf_walk [OF assms(1)])
  then have "\<not> created" "k' = k"
    using createLeaf_walk [OF assms(1) _ call] by (auto split: if_splits)
  then show ?thesis
    using assms(2) call by (auto simp: create_def Let_def)
qed

lemma create_fresh:
  assumes "depth_ok 13 (root m)" and "create x y m = (l, m')" and "leaf_of m (ucast x) (ucast y) = None"
  shows "l = next_leaf m \<and> next_leaf m' = next_leaf m + 1 \<and>
    (\<exists>n. m' = link l (ucast x) (ucast y) (m\<lparr>root := n, leaves := (leaves m)(l := new_leaf), next_leaf := next_leaf m + 1\<rparr>))"
proof -
  obtain n k' created where call: "createLeaf (next_leaf m) (root m) (ucast x) (ucast y) (13 + 2) = (n, k', created)"
    by (cases "createLeaf (next_leaf m) (root m) (ucast x) (ucast y) (13 + 2)") auto
  have "walk (root m) (way 13 (ucast x) (ucast y)) = None"
    using assms(3) by (simp add: leaf_of_def getLeaf_walk [OF assms(1)])
  then have c: "created" "k' = next_leaf m"
    using createLeaf_walk [OF assms(1) _ call] by (auto split: if_splits)
  then have m': "m' = link l (ucast x) (ucast y) (m\<lparr>root := n, leaves := (leaves m)(l := new_leaf), next_leaf := next_leaf m + 1\<rparr>)"
      "l = next_leaf m"
    using assms(2) call by (auto simp: create_def Let_def)
  then show ?thesis
    by auto
qed


lemma blk_step: "blk (x + 8) = blk (u + 8) \<longleftrightarrow> blk x = blk u"
  using next_blk_inj [OF blk_less blk_less, of x u] by (auto simp: blk_plus_8)

lemma blk_step_minus: "blk u = blk (x - 8) \<longleftrightarrow> blk (u + 8) = blk x"
  using blk_step [of u "x - 8"] by simp

lemma blk_step_neq: "blk (x + 8) \<noteq> blk x" "blk (x - 8) \<noteq> blk x"
proof -
  show neq: "blk (x + 8) \<noteq> blk x" for x
    using blk_less [of x] by (auto simp: blk_plus_8 mod_Suc)
  show "blk (x - 8) \<noteq> blk x"
    using neq [of "x - 8"] by simp
qed

lemma create_leaf_ok:
  assumes ok: "map_ok m" and call: "create x y m = (l, m')"
  shows "map_ok m'"
proof (cases "leaf_of m (ucast x) (ucast y)")
  case (Some k)
  note old = create_old [OF map_ok_depth [OF ok] call Some]
  have same: "leaf_of m' = leaf_of m"
  proof (rule ext)+
    fix u v
    show "leaf_of m' u v = leaf_of m u v"
      using leaf_of_create [OF map_ok_depth [OF ok] call, of u v]
        leaf_of_cong [OF map_ok_depth [OF ok], of u "ucast x" v "ucast y"] Some old by (auto split: if_splits)
  qed
  have dep: "depth_ok 13 (root m')" and same': "leaves m' = leaves m" "next_leaf m' = next_leaf m"
    using old leaf_of_create [OF map_ok_depth [OF ok] call] by blast+
  show ?thesis
    using ok dep unfolding map_ok_def same same' by (intro conjI) (assumption, erule conjunct2)
next
  case None
  define X Y where "X = (ucast x :: u32)" and "Y = (ucast y :: u32)"
  obtain n where l: "l = next_leaf m" and nx: "next_leaf m' = next_leaf m + 1"
    and m': "m' = link l X Y (m\<lparr>root := n, leaves := (leaves m)(l := new_leaf), next_leaf := next_leaf m + 1\<rparr>)"
    using create_fresh [OF map_ok_depth [OF ok] call None] unfolding X_def Y_def by blast
  define m1 where "m1 = m\<lparr>root := n, leaves := (leaves m)(l := new_leaf), next_leaf := next_leaf m + 1\<rparr>"
  have dep: "depth_ok 13 (root m')"
    and lf: "\<And>u v. leaf_of m' u v = (if blk u = blk X \<and> blk v = blk Y then Some l else leaf_of m u v)"
    using leaf_of_create [OF map_ok_depth [OF ok] call] by (auto simp: X_def Y_def)
  have lf1: "leaf_of m1 = leaf_of m'"
    unfolding m' m1_def by simp
  have lvE: "leafE (leaves m' k) = (if k = l \<and> leaf_of m' (X + 8) Y \<noteq> None then leaf_of m' (X + 8) Y
      else if leaf_of m' (X - 8) Y = Some k then Some l else if k = l then None else leafE (leaves m k))" for k
    using link_leafE [of l X Y m1 k] unfolding lf1
    unfolding m' m1_def [symmetric] by (simp add: m1_def new_leaf_def)
  have lvS: "leafS (leaves m' k) = (if k = l \<and> leaf_of m' X (Y + 8) \<noteq> None then leaf_of m' X (Y + 8)
      else if leaf_of m' X (Y - 8) = Some k then Some l else if k = l then None else leafS (leaves m k))" for k
    using link_leafS [of l X Y m1 k] unfolding lf1
    unfolding m' m1_def [symmetric] by (simp add: m1_def new_leaf_def)
  have fresh: "leaf_of m u v \<noteq> Some l" for u v
    using map_okD(1) [OF ok] l by fastforce
  have one: "blk u = blk X \<and> blk v = blk Y" if "leaf_of m' u v = Some l" for u v
    using that fresh by (auto simp: lf split: if_splits)
  show ?thesis
    unfolding map_ok_def
  proof (intro conjI allI impI)
    show "depth_ok 13 (root m')"
      by (rule dep)
  next
    fix u v k assume k: "leaf_of m' u v = Some k"
    show "k < next_leaf m'"
      using k map_okD(1) [OF ok] nx l by (fastforce simp: lf split: if_splits)
    show "blk a = blk u" if "leaf_of m' a b = Some k" for a b
      using k that map_okD(4) [OF ok, of u v k a b] fresh by (auto simp: lf split: if_splits)
    show "blk b = blk v" if "leaf_of m' a b = Some k" for a b
      using k that map_okD(4) [OF ok, of u v k a b] fresh by (auto simp: lf split: if_splits)
    show "leafE (leaves m' k) = leaf_of m' (u + 8) v"
    proof (cases "k = l")
      case True
      then have "leaf_of m' (u + 8) v = leaf_of m' (X + 8) Y"
        using one k by (intro leaf_of_cong [OF dep]) (auto simp: blk_step)
      then show ?thesis
        using True one [of "X - 8" Y] by (auto simp: lvE blk_step_neq)
    next
      case False
      then have old: "leaf_of m u v = Some k"
        using k by (auto simp: lf split: if_splits)
      show ?thesis
      proof (cases "leaf_of m' (X - 8) Y = Some k")
        case True
        then have "leaf_of m (X - 8) Y = Some k"
          using False by (auto simp: lf split: if_splits)
        then have "blk (u + 8) = blk X \<and> blk v = blk Y"
          using map_okD(4) [OF ok _ old] blk_step_minus by blast
        then show ?thesis
          using True False by (simp add: lvE lf)
      next
        case other: False
        have "\<not> (blk (u + 8) = blk X \<and> blk v = blk Y)"
          using other k leaf_of_cong [OF dep, of u "X - 8" v Y] blk_step_minus by auto
        then show ?thesis
          using other False map_okD(2) [OF ok old] by (auto simp: lvE lf [of "u + 8"])
      qed
    qed
    show "leafS (leaves m' k) = leaf_of m' u (v + 8)"
    proof (cases "k = l")
      case True
      then have "leaf_of m' u (v + 8) = leaf_of m' X (Y + 8)"
        using one k by (intro leaf_of_cong [OF dep]) (auto simp: blk_step)
      then show ?thesis
        using True one [of X "Y - 8"] by (auto simp: lvS blk_step_neq)
    next
      case False
      then have old: "leaf_of m u v = Some k"
        using k by (auto simp: lf split: if_splits)
      show ?thesis
      proof (cases "leaf_of m' X (Y - 8) = Some k")
        case True
        then have "leaf_of m X (Y - 8) = Some k"
          using False by (auto simp: lf split: if_splits)
        then have "blk u = blk X \<and> blk (v + 8) = blk Y"
          using map_okD(4) [OF ok _ old] blk_step_minus by blast
        then show ?thesis
          using True False by (simp add: lvS lf)
      next
        case other: False
        have "\<not> (blk u = blk X \<and> blk (v + 8) = blk Y)"
          using other k leaf_of_cong [OF dep, of u X v "Y - 8"] blk_step_minus by auto
        then show ?thesis
          using other False map_okD(3) [OF ok old] by (auto simp: lvS lf [of u "v + 8"])
      qed
    qed
  qed
qed


lemma create_content:
  assumes ok: "map_ok m" and call: "create x y m = (l, m')"
  shows "k \<noteq> l \<Longrightarrow> floors (leaves m' k) = floors (leaves m k)"
    and "k \<noteq> l \<Longrightarrow> creature_list (leaves m' k) = creature_list (leaves m k)"
    and "k \<noteq> l \<Longrightarrow> player_list (leaves m' k) = player_list (leaves m k)"
    and "leaf_of m (ucast x) (ucast y) = Some l \<or> leaf_of m (ucast x) (ucast y) = None \<and> l = next_leaf m"
    and "leaf_of m (ucast x) (ucast y) = Some l \<Longrightarrow> leaves m' l = leaves m l"
    and "leaf_of m (ucast x) (ucast y) = None \<Longrightarrow> floors (leaves m' l) = (\<lambda>_. None) \<and>
       creature_list (leaves m' l) = [] \<and> player_list (leaves m' l) = []"
proof -
  have both: "(k \<noteq> l \<longrightarrow> floors (leaves m' k) = floors (leaves m k) \<and>
        creature_list (leaves m' k) = creature_list (leaves m k) \<and> player_list (leaves m' k) = player_list (leaves m k)) \<and>
      (leaf_of m (ucast x) (ucast y) = Some l \<or> leaf_of m (ucast x) (ucast y) = None \<and> l = next_leaf m) \<and>
      (leaf_of m (ucast x) (ucast y) = Some l \<longrightarrow> leaves m' l = leaves m l) \<and>
      (leaf_of m (ucast x) (ucast y) = None \<longrightarrow> floors (leaves m' l) = (\<lambda>_. None) \<and>
       creature_list (leaves m' l) = [] \<and> player_list (leaves m' l) = [])"
  proof (cases "leaf_of m (ucast x) (ucast y)")
    case (Some k')
    then show ?thesis
      using create_old [OF map_ok_depth [OF ok] call Some] by simp
  next
    case None
    from create_fresh [OF map_ok_depth [OF ok] call None] obtain n where
      "l = next_leaf m"
      "m' = link l (ucast x) (ucast y) (m\<lparr>root := n, leaves := (leaves m)(l := new_leaf), next_leaf := next_leaf m + 1\<rparr>)"
      by blast
    then show ?thesis
      by (simp add: None link_content new_leaf_def)
  qed
  show "k \<noteq> l \<Longrightarrow> floors (leaves m' k) = floors (leaves m k)"
    "k \<noteq> l \<Longrightarrow> creature_list (leaves m' k) = creature_list (leaves m k)"
    "k \<noteq> l \<Longrightarrow> player_list (leaves m' k) = player_list (leaves m k)"
    "leaf_of m (ucast x) (ucast y) = Some l \<or> leaf_of m (ucast x) (ucast y) = None \<and> l = next_leaf m"
    "leaf_of m (ucast x) (ucast y) = Some l \<Longrightarrow> leaves m' l = leaves m l"
    "leaf_of m (ucast x) (ucast y) = None \<Longrightarrow> floors (leaves m' l) = (\<lambda>_. None) \<and>
       creature_list (leaves m' l) = [] \<and> player_list (leaves m' l) = []"
    using both by blast+
qed

section \<open>The map as a store of tiles\<close>

lemma upd_leaf_ok:
  assumes "map_ok m" and "\<And>f. leafE (g f) = leafE f" and "\<And>f. leafS (g f) = leafS f"
  shows "map_ok (upd_leaf l g m)"
proof -
  have links: "leafE (leaves (upd_leaf l g m) k) = leafE (leaves m k)"
      "leafS (leaves (upd_leaf l g m) k) = leafS (leaves m k)" for k
    using assms by (simp_all add: leaves_upd)
  show ?thesis
    using assms(1) unfolding map_ok_def leaf_of_upd next_upd links .
qed

lemma createFloor_leaf:
  "leaf_of (createFloor l z m) = leaf_of m"
  "map_ok m \<Longrightarrow> map_ok (createFloor l z m)"
  by (auto simp: createFloor_def intro!: upd_leaf_ok split: option.split)

lemma put_tile_leaf:
  "leafE (put_tile merge i j z t f) = leafE f" "leafS (put_tile merge i j z t f) = leafS f"
  "creature_list (put_tile merge i j z t f) = creature_list f" "player_list (put_tile merge i j z t f) = player_list f"
  by (simp_all add: put_tile_def Let_def split: option.split)

lemma setTile_ok:
  assumes "map_ok m"
  shows "map_ok (setTile merge x y z t m)"
proof -
  obtain l m1 where c: "create x y m = (l, m1)"
    by (cases "create x y m") auto
  have "map_ok (createFloor l (unat z) m1)"
    by (intro createFloor_leaf create_leaf_ok [OF assms c])
  then show ?thesis
    using assms by (auto simp: setTile_def c Let_def put_tile_leaf intro!: upd_leaf_ok)
qed

lemma unat_low_bits: "unat (x AND FLOOR_MASK) = unat x mod 8"
proof -
  have "x AND FLOOR_MASK = take_bit 3 x"
    by (simp add: FLOOR_MASK_def take_bit_eq_mask mask_eq_exp_minus_1)
  then show ?thesis
    by (simp add: unsigned_take_bit_eq) (simp add: take_bit_eq_mod)
qed

lemma blk_u16: "blk (ucast (x :: u16)) = unat x div 8"
proof -
  have "unat x < 65536"
    using unsigned_less [of x, where 'a = nat] by simp
  then have "unat x div 8 < 8192"
    by simp
  then show ?thesis
    by (simp add: blk_def drop_bit_eq_div take_bit_eq_mod unsigned_ucast_eq)
qed

lemma u16_block_offset:
  "x = x' \<longleftrightarrow> blk (ucast x) = blk (ucast x') \<and> unat (x AND FLOOR_MASK) = unat (x' AND FLOOR_MASK)" for x x' :: u16
proof
  assume "blk (ucast x) = blk (ucast x') \<and> unat (x AND FLOOR_MASK) = unat (x' AND FLOOR_MASK)"
  then have "unat x div 8 = unat x' div 8" "unat x mod 8 = unat x' mod 8"
    by (simp_all add: blk_u16 unat_low_bits)
  then have "unat x = unat x'"
    by (metis div_mult_mod_eq)
  then show "x = x'"
    by (simp add: word_unat_eq_iff)
qed simp

definition tile_in :: "'t QTreeLeafNode \<Rightarrow> nat \<Rightarrow> nat \<Rightarrow> nat \<Rightarrow> 't option" where
  "tile_in f i j z = (case floors f z of None \<Rightarrow> None | Some fl \<Rightarrow> fl i j)"

lemma getTile_tile_in:
  "getTile m x y z =
     (if unat z \<ge> MAP_MAX_LAYERS then None
      else case leaf_of m (ucast x) (ucast y) of None \<Rightarrow> None
        | Some l \<Rightarrow> tile_in (leaves m l) (unat (x AND FLOOR_MASK)) (unat (y AND FLOOR_MASK)) (unat z))"
  by (simp add: getTile_def tile_in_def split: option.split)

lemma tile_in_put:
  "floors f z \<noteq> None \<Longrightarrow> tile_in (put_tile merge i j z t f) i' j' z' =
     (if i' = i \<and> j' = j \<and> z' = z then Some (case tile_in f i j z of None \<Rightarrow> t | Some old \<Rightarrow> merge old t)
      else tile_in f i' j' z')"
  by (auto simp: tile_in_def put_tile_def Let_def split: option.split)

lemma floor_made: "floors (leaves (createFloor l z m) l) z \<noteq> None"
  by (simp add: createFloor_def leaves_upd split: option.split)

lemma tile_in_createFloor: "tile_in (leaves (createFloor l z m) k) i j z' = tile_in (leaves m k) i j z'"
  by (auto simp: createFloor_def leaves_upd tile_in_def split: option.split)

lemma setTile_updates:
  assumes ok: "map_ok m" and z: "unat z < MAP_MAX_LAYERS"
  shows "getTile (setTile merge x y z t m) x' y' z' =
    (if (x', y', z') = (x, y, z) then Some (case getTile m x y z of None \<Rightarrow> t | Some old \<Rightarrow> merge old t)
     else getTile m x' y' z')"
proof -
  obtain l m1 where c: "create x y m = (l, m1)"
    by (cases "create x y m") auto
  define i j i' j' where "i = unat (x AND FLOOR_MASK)" and "j = unat (y AND FLOOR_MASK)"
    and "i' = unat (x' AND FLOOR_MASK)" and "j' = unat (y' AND FLOOR_MASK)"
  define m2 where "m2 = createFloor l (unat z) m1"
  have set: "setTile merge x y z t m = upd_leaf l (put_tile merge i j (unat z) t) m2"
    using z by (simp add: setTile_def c m2_def i_def j_def)
  have lf: "leaf_of m1 u v = (if blk u = blk (ucast x) \<and> blk v = blk (ucast y) then Some l else leaf_of m u v)" for u v
    using leaf_of_create [OF map_ok_depth [OF ok] c] by blast
  have lf2: "leaf_of m2 = leaf_of m1"
    by (simp add: m2_def createFloor_leaf)
  have in_l: "tile_in (leaves m2 l) a b d =
      (case leaf_of m (ucast x) (ucast y) of None \<Rightarrow> None | Some k \<Rightarrow> tile_in (leaves m k) a b d)" for a b d
    using create_content(4,5,6) [OF ok c] by (auto simp: m2_def tile_in_createFloor) (simp add: tile_in_def)
  have elsewhere: "tile_in (leaves m2 k) a b d = tile_in (leaves m k) a b d" if "k \<noteq> l" for k a b d
    using create_content(1) [OF ok c that] unfolding m2_def tile_in_createFloor by (simp add: tile_in_def)
  have same_pos: "(x', y', z') = (x, y, z) \<longleftrightarrow>
      blk (ucast x') = blk (ucast x) \<and> blk (ucast y') = blk (ucast y) \<and> i' = i \<and> j' = j \<and> unat z' = unat z"
    using u16_block_offset [of x' x] u16_block_offset [of y' y] by (auto simp: i_def j_def i'_def j'_def word_unat_eq_iff [of z' z])
  show ?thesis
  proof (cases "blk (ucast x') = blk (ucast x) \<and> blk (ucast y') = blk (ucast y)")
    case True
    then have "leaf_of m (ucast x') (ucast y') = leaf_of m (ucast x) (ucast y)"
      by (intro leaf_of_cong map_ok_depth ok) auto
    then have old: "getTile m x' y' z' = (if unat z' \<ge> MAP_MAX_LAYERS then None else tile_in (leaves m2 l) i' j' (unat z'))"
        "getTile m x y z = tile_in (leaves m2 l) i j (unat z)"
      using z by (simp_all add: getTile_tile_in in_l i'_def j'_def i_def j_def)
    have set': "getTile (setTile merge x y z t m) x' y' z' =
        (if unat z' \<ge> MAP_MAX_LAYERS then None
         else if i' = i \<and> j' = j \<and> unat z' = unat z
           then Some (case tile_in (leaves m2 l) i j (unat z) of None \<Rightarrow> t | Some old \<Rightarrow> merge old t)
           else tile_in (leaves m2 l) i' j' (unat z'))"
      using True floor_made [of l "unat z" m1] lf [of "ucast x'" "ucast y'"]
      by (simp add: getTile_tile_in set lf2 leaves_upd m2_def [symmetric] i'_def [symmetric] j'_def [symmetric] tile_in_put)
    show ?thesis
    proof (cases "(x', y', z') = (x, y, z)")
      case here: True
      then have "i' = i \<and> j' = j \<and> unat z' = unat z" "\<not> unat z' \<ge> MAP_MAX_LAYERS"
        using z by (simp_all add: i_def j_def i'_def j'_def)
      then show ?thesis
        unfolding set' old if_P [OF here] by simp
    next
      case there: False
      then have "\<not> (i' = i \<and> j' = j \<and> unat z' = unat z)"
        using same_pos True by blast
      then show ?thesis
        unfolding set' old if_not_P [OF there] by (simp only: if_False)
    qed
  next
    case False
    have "l \<noteq> k" if k: "leaf_of m (ucast x') (ucast y') = Some k" for k
    proof
      assume "l = k"
      then have "leaf_of m (ucast x) (ucast y) = Some k"
        using create_content(4) [OF ok c] map_okD(1) [OF ok k] by blast
      then show False
        using map_okD(4) [OF ok k] False by metis
    qed
    moreover have "leaf_of m1 (ucast x') (ucast y') = leaf_of m (ucast x') (ucast y')"
      unfolding lf using False by (rule if_not_P)
    ultimately have "getTile (setTile merge x y z t m) x' y' z' = getTile m x' y' z'"
      using elsewhere
      by (cases "leaf_of m (ucast x') (ucast y')") (simp_all add: getTile_tile_in set lf2 leaves_upd)
    moreover have "(x', y', z') \<noteq> (x, y, z)"
      using False by auto
    ultimately show ?thesis
      by (simp only: if_False)
  qed
qed

lemma setTile_outside: "\<not> unat z < MAP_MAX_LAYERS \<Longrightarrow> setTile merge x y z t m = m"
  by (simp add: setTile_def)

lemma getTile_new: "getTile new_map x y z = None"
  by (simp add: getTile_def leaf_of_def new_map_def new_node_def child_at_def)

end
