(* ===== verification/MapTiles.thy ===== *)
theory MapTiles
  imports MapTree TileQuery
begin

text \<open>
  The map of the game: \<open>Map::setTile\<close> with the merging of tiles, loading by a list of calls, and changes
  to a single tile, over the tree of \<open>MapTree\<close>.
\<close>

definition tile_at :: "'t Map \<Rightarrow> Position \<Rightarrow> 't option" where
  "tile_at m p = getTile m (pos_x p) (pos_y p) (pos_z p)"

text \<open>The items of the new tile come over from the back to the front, then its ground.  The objects move with them.\<close>

definition bring_objects :: "Tile \<Rightarrow> Tile \<Rightarrow> Tile" where
  "bring_objects new t = t\<lparr>obj := \<lambda>x. if x \<in> set (all_items new) then obj new x else obj t x\<rparr>"

definition merge_tile :: "Surroundings \<Rightarrow> Tile \<Rightarrow> Tile \<Rightarrow> Tile" where
  "merge_tile e old new =
     (let t1 = fold (\<lambda>x. tile_addThing e (AnItem x)) (rev (tile_items new)) (bring_objects new old)
      in case ground new of None \<Rightarrow> t1 | Some g \<Rightarrow> tile_addThing e (AnItem g) t1)"

definition map_setTile :: "Surroundings \<Rightarrow> Position \<times> Tile \<Rightarrow> Tile Map \<Rightarrow> Tile Map" where
  "map_setTile e = (\<lambda>(p, t). setTile (merge_tile e) (pos_x p) (pos_y p) (pos_z p) t)"

section \<open>Changing a tile in place\<close>

definition change_in :: "('t \<Rightarrow> 't) \<Rightarrow> nat \<Rightarrow> nat \<Rightarrow> nat \<Rightarrow> 't QTreeLeafNode \<Rightarrow> 't QTreeLeafNode" where
  "change_in g i j z f =
     f\<lparr>floors := (floors f)(z := map_option (\<lambda>fl. fl(i := (fl i)(j := map_option g (fl i j)))) (floors f z))\<rparr>"

definition change_tile :: "('t \<Rightarrow> 't) \<Rightarrow> Position \<Rightarrow> 't Map \<Rightarrow> 't Map" where
  "change_tile g p m =
     (case leaf_of m (ucast (pos_x p)) (ucast (pos_y p)) of
        None \<Rightarrow> m
      | Some l \<Rightarrow> upd_leaf l (change_in g (unat (pos_x p AND FLOOR_MASK)) (unat (pos_y p AND FLOOR_MASK)) (unat (pos_z p))) m)"

lemma change_in_leaf [simp]:
  "leafE (change_in g i j z f) = leafE f" "leafS (change_in g i j z f) = leafS f"
  "creature_list (change_in g i j z f) = creature_list f" "player_list (change_in g i j z f) = player_list f"
  by (simp_all add: change_in_def)

lemma change_tile_frame:
  "leaf_of (change_tile g p m) = leaf_of m" "map_ok m \<Longrightarrow> map_ok (change_tile g p m)"
  "creature_list (leaves (change_tile g p m) l) = creature_list (leaves m l)"
  "player_list (leaves (change_tile g p m) l) = player_list (leaves m l)"
  by (auto simp: change_tile_def leaves_upd intro: upd_leaf_ok split: option.split)

lemma tile_in_change:
  "tile_in (change_in g i j z f) i' j' z' =
     (if i' = i \<and> j' = j \<and> z' = z then map_option g (tile_in f i j z) else tile_in f i' j' z')"
  by (auto simp: tile_in_def change_in_def split: option.split)

lemma tile_at_change:
  assumes ok: "map_ok m"
  shows "tile_at (change_tile g p m) q = (if q = p then map_option g (tile_at m p) else tile_at m q)"
proof (cases "leaf_of m (ucast (pos_x p)) (ucast (pos_y p))")
  case None
  then show ?thesis
    by (simp add: change_tile_def tile_at_def getTile_tile_in)
next
  case (Some l)
  note p = Some
  define i j i' j' where "i = unat (pos_x p AND FLOOR_MASK)" and "j = unat (pos_y p AND FLOOR_MASK)"
    and "i' = unat (pos_x q AND FLOOR_MASK)" and "j' = unat (pos_y q AND FLOOR_MASK)"
  have ch: "change_tile g p m = upd_leaf l (change_in g i j (unat (pos_z p))) m"
    by (simp add: change_tile_def p i_def j_def)
  show ?thesis
  proof (cases "leaf_of m (ucast (pos_x q)) (ucast (pos_y q)) = Some l")
    case False
    then have "q \<noteq> p"
      using p by auto
    moreover have "tile_at (change_tile g p m) q = tile_at m q"
      using False by (cases "leaf_of m (ucast (pos_x q)) (ucast (pos_y q))") (auto simp: ch tile_at_def getTile_tile_in leaves_upd)
    ultimately show ?thesis
      by simp
  next
    case True
    have "blk (ucast (pos_x q)) = blk (ucast (pos_x p)) \<and> blk (ucast (pos_y q)) = blk (ucast (pos_y p))"
      using map_okD(4) [OF ok p True] by blast
    then have same: "q = p \<longleftrightarrow> i' = i \<and> j' = j \<and> unat (pos_z q) = unat (pos_z p)"
      using u16_block_offset [of "pos_x q" "pos_x p"] u16_block_offset [of "pos_y q" "pos_y p"]
      by (cases p; cases q) (auto simp: i_def j_def i'_def j'_def word_unat_eq_iff [where 'a = 8])
    have "tile_at (change_tile g p m) q =
        (if unat (pos_z q) \<ge> MAP_MAX_LAYERS then None
         else if i' = i \<and> j' = j \<and> unat (pos_z q) = unat (pos_z p)
           then map_option g (tile_in (leaves m l) i j (unat (pos_z p))) else tile_in (leaves m l) i' j' (unat (pos_z q)))"
      using True by (simp add: ch tile_at_def getTile_tile_in leaves_upd tile_in_change i'_def j'_def)
    moreover have "tile_at m q = (if unat (pos_z q) \<ge> MAP_MAX_LAYERS then None else tile_in (leaves m l) i' j' (unat (pos_z q)))"
      "tile_at m p = (if unat (pos_z p) \<ge> MAP_MAX_LAYERS then None else tile_in (leaves m l) i j (unat (pos_z p)))"
      using True p by (simp_all add: tile_at_def getTile_tile_in i'_def j'_def i_def j_def)
    ultimately show ?thesis
      by (simp add: same)
  qed
qed

section \<open>The map as a store of tiles\<close>

definition load_tiles :: "Surroundings \<Rightarrow> (Position \<times> Tile) list \<Rightarrow> Tile Map" where
  "load_tiles e calls = fold (map_setTile e) calls new_map"

text \<open>The same with a plain map from positions to tiles.\<close>

definition store_tile :: "Surroundings \<Rightarrow> Position \<times> Tile \<Rightarrow> (Position \<Rightarrow> Tile option) \<Rightarrow> (Position \<Rightarrow> Tile option)" where
  "store_tile e = (\<lambda>(p, t) st.
     if pos_z p < 16 then st(p := Some (case st p of None \<Rightarrow> t | Some old \<Rightarrow> merge_tile e old t)) else st)"

lemma map_setTile_ok: "map_ok m \<Longrightarrow> map_ok (map_setTile e c m)"
  by (cases c) (simp add: map_setTile_def setTile_ok)

lemma tile_at_setTile:
  assumes "map_ok m"
  shows "tile_at (map_setTile e c m) = store_tile e c (tile_at m)"
proof (rule ext)
  fix q
  obtain p t where c: "c = (p, t)"
    by (cases c)
  have q: "(pos_x q, pos_y q, pos_z q) = (pos_x p, pos_y p, pos_z p) \<longleftrightarrow> q = p"
    by (cases p; cases q) auto
  show "tile_at (map_setTile e c m) q = store_tile e c (tile_at m) q"
  proof (cases "pos_z p < 16")
    case True
    then have "unat (pos_z p) < MAP_MAX_LAYERS"
      by (simp add: MAP_MAX_LAYERS_def word_less_nat_alt)
    from setTile_updates [OF assms this, of "merge_tile e" "pos_x p" "pos_y p" t "pos_x q" "pos_y q" "pos_z q"] show ?thesis
      unfolding q using True by (auto simp: c map_setTile_def store_tile_def tile_at_def)
  next
    case False
    then have "\<not> unat (pos_z p) < MAP_MAX_LAYERS"
      by (simp add: MAP_MAX_LAYERS_def word_less_nat_alt)
    then show ?thesis
      using False by (simp add: c map_setTile_def setTile_outside store_tile_def)
  qed
qed

lemma load_tiles_store:
  "map_ok m \<Longrightarrow> map_ok (fold (map_setTile e) calls m) \<and> tile_at (fold (map_setTile e) calls m) = fold (store_tile e) calls (tile_at m)"
  by (induction calls arbitrary: m) (simp_all add: map_setTile_ok tile_at_setTile)

lemma tile_at_new: "tile_at new_map = (\<lambda>_. None)"
  by (rule ext) (simp add: tile_at_def getTile_new)

text \<open>C10: the map, whatever tiles are set in it and in whatever order, is a plain table from positions to tiles: a
  tile set at a free position is found there and nowhere else, one set where a tile is already is merged
  into it as \<open>Map::setTile\<close> says, and above layer 15 nothing is stored.  And every leaf is
  linked to the leaves one block to its east and to its south, coordinates taken round the edge.\<close>
theorem map_is_a_table_of_tiles:
  "tile_at (load_tiles e calls) = fold (store_tile e) calls (\<lambda>_. None) \<and> map_ok (load_tiles e calls)"
  using load_tiles_store [OF map_ok_new, of e calls] by (simp add: load_tiles_def tile_at_new)

end
