(* ===== verification/MapSight.thy ===== *)
theory MapSight
  imports MapTiles
begin

text \<open>
  Lines of sight over the map: \<open>checkSightLine\<close>, \<open>isSightClear\<close> and \<open>canThrowObjectTo\<close> (map.cpp).
  The line is drawn by integer arithmetic, one tile at a time, and that it arrives has to be shown.
  An operation on \<open>int32_t\<close> that overflows has no meaning, and is None.
\<close>

section \<open>The code\<close>

definition stops_missiles :: "Surroundings \<Rightarrow> Tile Map \<Rightarrow> Position \<Rightarrow> bool" where
  "stops_missiles e m p = (case tile_at m p of None \<Rightarrow> False | Some t \<Rightarrow> tile_hasProperty e t CONST_PROP_BLOCKPROJECTILE)"

definition holds_something :: "Tile Map \<Rightarrow> Position \<Rightarrow> bool" where
  "holds_something m p = (case tile_at m p of None \<Rightarrow> False | Some t \<Rightarrow> tile_getThingCount t > 0)"

definition toward :: "u16 \<Rightarrow> u16 \<Rightarrow> int" where
  "toward a b = (if a < b then 1 else if a = b then 0 else -1)"

text \<open>An \<open>int32_t\<close> that is computed: None is an overflow, which has no meaning in C++.\<close>

definition int32 :: "int \<Rightarrow> int option" where
  "int32 v = (if - (2 ^ 31) \<le> v \<and> v < 2 ^ 31 then Some v else None)"

text \<open>\<open>A * x + B * y\<close>.\<close>

definition int32_sum :: "int \<Rightarrow> int \<Rightarrow> int \<Rightarrow> int \<Rightarrow> int option" where
  "int32_sum a x b y = do { u \<leftarrow> int32 (a * x); v \<leftarrow> int32 (b * y); int32 (u + v) }"

text \<open>The line \<open>A * x + B * y + C = 0\<close>.\<close>

record Line = lineA :: int lineB :: int lineC :: int lineMx :: int lineMy :: int

definition line_to :: "Position \<Rightarrow> Position \<Rightarrow> Line option" where
  "line_to start destination =
     (let a = getOffsetY destination start; b = getOffsetX start destination
      in do {
        s \<leftarrow> int32_sum a (uint (pos_x destination)) b (uint (pos_y destination));
        c \<leftarrow> int32 (- s);
        Some \<lparr>lineA = a, lineB = b, lineC = c,
          lineMx = toward (pos_x start) (pos_x destination), lineMy = toward (pos_y start) (pos_y destination)\<rparr> })"

definition off_line :: "Line \<Rightarrow> int \<Rightarrow> int \<Rightarrow> int option" where
  "off_line l x y = do { s \<leftarrow> int32_sum (lineA l) x (lineB l) y; t \<leftarrow> int32 (s + lineC l); int32 \<bar>t\<bar> }"

definition sight_step :: "Line \<Rightarrow> Position \<Rightarrow> Position \<Rightarrow> Position option" where
  "sight_step l destination start =
     (let x = uint (pos_x start); y = uint (pos_y start)
      in do {
        move_hor \<leftarrow> off_line l (x + lineMx l) y;
        move_ver \<leftarrow> off_line l x (y + lineMy l);
        move_cross \<leftarrow> off_line l (x + lineMx l) (y + lineMy l);
        let y' = (if pos_y start \<noteq> pos_y destination \<and>
                    (pos_x start = pos_x destination \<or> move_hor > move_ver \<or> move_hor > move_cross)
                  then pos_y start + word_of_int (lineMy l) else pos_y start);
        let x' = (if pos_x start \<noteq> pos_x destination \<and>
                    (y' = pos_y destination \<or> move_ver > move_hor \<or> move_ver > move_cross)
                  then pos_x start + word_of_int (lineMx l) else pos_x start);
        Some (Position x' y' (pos_z start)) })"

text \<open>The loop ends at the destination's column, or with None inside at a tile that stops missiles.\<close>

partial_function (option) sight_loop :: "(Position \<Rightarrow> bool) \<Rightarrow> Line \<Rightarrow> Position \<Rightarrow> Position \<Rightarrow> Position option option" where
  "sight_loop stops l destination start =
     (if pos_x start \<noteq> pos_x destination \<or> pos_y start \<noteq> pos_y destination then
        (case sight_step l destination start of
           None \<Rightarrow> None
         | Some p \<Rightarrow> if stops p then Some None else sight_loop stops l destination p)
      else Some (Some start))"

declare sight_loop.simps [code]

fun floors_clear :: "(Position \<Rightarrow> bool) \<Rightarrow> nat \<Rightarrow> Position \<Rightarrow> bool" where
  "floors_clear full 0 p = True"
| "floors_clear full (Suc n) p =
     (if full p then False else floors_clear full n (Position (pos_x p) (pos_y p) (pos_z p + 1)))"

definition checkSightLine :: "Surroundings \<Rightarrow> Tile Map \<Rightarrow> Position \<Rightarrow> Position \<Rightarrow> bool option" where
  "checkSightLine e m fromPos toPos =
     (if pos_eq fromPos toPos then Some True
      else
        let start = (if pos_z fromPos > pos_z toPos then toPos else fromPos);
            destination = (if pos_z fromPos > pos_z toPos then fromPos else toPos)
        in do {
          line \<leftarrow> line_to start destination;
          end \<leftarrow> sight_loop (stops_missiles e m) line destination start;
          Some (case end of
                  None \<Rightarrow> False
                | Some p \<Rightarrow> floors_clear (holds_something m) (unat (pos_z destination) - unat (pos_z p)) p) })"

definition isSightClear :: "Surroundings \<Rightarrow> Tile Map \<Rightarrow> Position \<Rightarrow> Position \<Rightarrow> bool \<Rightarrow> bool option" where
  "isSightClear e m fromPos toPos floorCheck =
     (if floorCheck \<and> pos_z fromPos \<noteq> pos_z toPos then Some False
      else case checkSightLine e m fromPos toPos of
        None \<Rightarrow> None
      | Some True \<Rightarrow> Some True
      | Some False \<Rightarrow> checkSightLine e m toPos fromPos)"

definition canThrowObjectTo :: "Surroundings \<Rightarrow> Tile Map \<Rightarrow> Position \<Rightarrow> Position \<Rightarrow> bool \<Rightarrow> int \<Rightarrow> int \<Rightarrow> bool option" where
  "canThrowObjectTo e m fromPos toPos checkLineOfSight rangex rangey =
     (if (pos_z fromPos \<ge> 8 \<and> pos_z toPos < 8) \<or> (pos_z toPos \<ge> 8 \<and> pos_z fromPos < 8) then Some False
      else let deltaz = getDistanceZ fromPos toPos
      in if deltaz > 2 then Some False
         else if getDistanceX fromPos toPos - deltaz > rangex then Some False
         else if getDistanceY fromPos toPos - deltaz > rangey then Some False
         else if \<not> checkLineOfSight then Some True
         else isSightClear e m fromPos toPos False)"

section \<open>The line without bounds\<close>

text \<open>The same line in the integers; where no more than 16,383 columns and rows are between the ends, it is
  the line of the code.\<close>

definition ideal_line :: "Position \<Rightarrow> Position \<Rightarrow> Line" where
  "ideal_line s d =
     \<lparr>lineA = getOffsetY d s, lineB = getOffsetX s d,
      lineC = -(getOffsetY d s * uint (pos_x d) + getOffsetX s d * uint (pos_y d)),
      lineMx = toward (pos_x s) (pos_x d), lineMy = toward (pos_y s) (pos_y d)\<rparr>"

definition ideal_off :: "Line \<Rightarrow> int \<Rightarrow> int \<Rightarrow> int" where
  "ideal_off l x y = \<bar>lineA l * x + lineB l * y + lineC l\<bar>"

definition ideal_step :: "Line \<Rightarrow> Position \<Rightarrow> Position \<Rightarrow> Position" where
  "ideal_step l destination start =
     (let x = uint (pos_x start); y = uint (pos_y start);
          move_hor = ideal_off l (x + lineMx l) y;
          move_ver = ideal_off l x (y + lineMy l);
          move_cross = ideal_off l (x + lineMx l) (y + lineMy l);
          y' = (if pos_y start \<noteq> pos_y destination \<and>
                  (pos_x start = pos_x destination \<or> move_hor > move_ver \<or> move_hor > move_cross)
                then pos_y start + word_of_int (lineMy l) else pos_y start);
          x' = (if pos_x start \<noteq> pos_x destination \<and>
                  (y' = pos_y destination \<or> move_ver > move_hor \<or> move_ver > move_cross)
                then pos_x start + word_of_int (lineMx l) else pos_x start)
      in Position x' y' (pos_z start))"

definition within_reach :: "Position \<Rightarrow> Position \<Rightarrow> bool" where
  "within_reach p q = (getDistanceX p q \<le> 16383 \<and> getDistanceY p q \<le> 16383)"

lemma product_bound:
  fixes a x :: int
  assumes "\<bar>a\<bar> \<le> k" "\<bar>x\<bar> \<le> n"
  shows "\<bar>a * x\<bar> \<le> k * n"
  unfolding abs_mult using assms by (intro mult_mono) simp_all

lemma int32_exact: "\<bar>v\<bar> < 2 ^ 31 \<Longrightarrow> int32 v = Some v"
  by (auto simp: int32_def abs_less_iff)

lemma int32_sum_exact:
  assumes "\<bar>a\<bar> \<le> 16383" "\<bar>b\<bar> \<le> 16383" "\<bar>x\<bar> \<le> 65536" "\<bar>y\<bar> \<le> 65536"
  shows "int32_sum a x b y = Some (a * x + b * y)" "\<bar>a * x + b * y\<bar> \<le> 2147352576"
proof -
  have b: "\<bar>a * x\<bar> \<le> 1073676288" "\<bar>b * y\<bar> \<le> 1073676288"
    using product_bound [OF assms(1,3)] product_bound [OF assms(2,4)] by simp_all
  then show s: "\<bar>a * x + b * y\<bar> \<le> 2147352576" by linarith
  show "int32_sum a x b y = Some (a * x + b * y)"
    using b s by (simp add: int32_sum_def int32_exact)
qed

lemma offset_bounds:
  assumes "within_reach s d"
  shows "\<bar>getOffsetY d s\<bar> \<le> 16383" "\<bar>getOffsetX s d\<bar> \<le> 16383"
  using assms by (simp_all add: within_reach_def getOffsetX_def getOffsetY_def getDistanceX_def getDistanceY_def abs_minus_commute)

lemma coordinate_bounds: "0 \<le> uint (a :: u16)" "uint (a :: u16) \<le> 65535"
  using uint_lt2p [of a] by simp_all

lemma line_to_ideal:
  assumes "within_reach s d"
  shows "line_to s d = Some (ideal_line s d)"
proof -
  note b = int32_sum_exact [OF offset_bounds [OF assms], of "uint (pos_x d)" "uint (pos_y d)"]
  show ?thesis
    using b coordinate_bounds [of "pos_x d"] coordinate_bounds [of "pos_y d"]
    by (simp add: line_to_def Let_def ideal_line_def int32_exact)
qed

section \<open>One step\<close>

lemma abs_le_shift:
  "0 < k \<Longrightarrow> \<bar>w\<bar> \<le> \<bar>w + k\<bar> \<longleftrightarrow> - k \<le> 2 * w"
  "0 < k \<Longrightarrow> \<bar>w\<bar> \<le> \<bar>w - k\<bar> \<longleftrightarrow> 2 * w \<le> k" for w k :: int
  by (auto simp: abs_if)

lemma greedy_step:
  fixes X Y u v :: int
  assumes pos: "0 < X" "0 < Y" and near: "2 * \<bar>Y * u - X * v\<bar> \<le> max X Y"
  defines "hor \<equiv> \<bar>Y * (u - 1) - X * v\<bar>" and "ver \<equiv> \<bar>Y * u - X * (v - 1)\<bar>"
    and "crossing \<equiv> \<bar>Y * (u - 1) - X * (v - 1)\<bar>"
  shows "\<not> (hor \<le> ver \<and> hor \<le> crossing \<and> ver \<le> hor \<and> ver \<le> crossing)"
    and "0 < u \<Longrightarrow> v = 1 \<Longrightarrow> \<not> (ver \<le> hor \<and> ver \<le> crossing)"
    and "hor \<le> ver \<Longrightarrow> hor \<le> crossing \<Longrightarrow> 2 * hor \<le> max X Y"
    and "ver \<le> hor \<Longrightarrow> ver \<le> crossing \<Longrightarrow> 2 * ver \<le> max X Y"
    and "\<not> (hor \<le> ver \<and> hor \<le> crossing) \<Longrightarrow> \<not> (ver \<le> hor \<and> ver \<le> crossing) \<Longrightarrow> 2 * crossing \<le> max X Y"
proof -
  define e where "e = Y * u - X * v"
  define w where "w = e - Y"
  define c where "c = w + X"
  have h: "hor = \<bar>w\<bar>" "ver = \<bar>c + Y\<bar>" "crossing = \<bar>c\<bar>"
    by (simp_all add: hor_def ver_def crossing_def e_def w_def c_def algebra_simps)
  have e: "2 * e \<le> max X Y" "- (2 * e) \<le> max X Y"
    using near by (simp_all add: e_def [symmetric])
  have m: "max X Y = X \<or> max X Y = Y" "X \<le> max X Y" "Y \<le> max X Y"
    by auto
  have cmp: "hor \<le> crossing \<longleftrightarrow> - X \<le> 2 * w" "hor \<le> ver \<longleftrightarrow> - (X + Y) \<le> 2 * w"
      "ver \<le> crossing \<longleftrightarrow> 2 * (c + Y) \<le> Y" "ver \<le> hor \<longleftrightarrow> 2 * (c + Y) \<le> X + Y"
    using abs_le_shift(1) [of X w] abs_le_shift(1) [of "X + Y" w] abs_le_shift(2) [of Y "c + Y"]
      abs_le_shift(2) [of "X + Y" "c + Y"] pos
    by (simp_all add: h c_def algebra_simps)
  show "\<not> (hor \<le> ver \<and> hor \<le> crossing \<and> ver \<le> hor \<and> ver \<le> crossing)"
    unfolding cmp c_def using pos by (intro notI, elim conjE) simp
  show "\<not> (ver \<le> hor \<and> ver \<le> crossing)" if "v = 1" "0 < u"
  proof -
    have "c + Y = Y * u"
      using that by (simp add: c_def w_def e_def)
    moreover have "Y * 1 \<le> Y * u"
      by (rule mult_left_mono) (use that pos in simp_all)
    ultimately show ?thesis
      unfolding cmp using pos by (intro notI, elim conjE) simp
  qed
  show "2 * hor \<le> max X Y" if "hor \<le> ver" "hor \<le> crossing"
    using that [unfolded cmp] e m(2) pos unfolding h w_def by (auto simp: abs_if)
  show "2 * ver \<le> max X Y" if "ver \<le> hor" "ver \<le> crossing"
    using that [unfolded cmp] e m(3) pos unfolding h c_def w_def by (auto simp: abs_if)
  show "2 * crossing \<le> max X Y" if "\<not> (hor \<le> ver \<and> hor \<le> crossing)" "\<not> (ver \<le> hor \<and> ver \<le> crossing)"
  proof -
    have "2 * c < X" "- Y < 2 * c"
      using that pos unfolding cmp c_def by auto
    then show ?thesis
      using m(2,3) unfolding h by linarith
  qed
qed


text \<open>A position lies between two others, and near the line through them: at most half a tile off,
  measured along the shorter axis.\<close>

definition in_between :: "int \<Rightarrow> int \<Rightarrow> int \<Rightarrow> bool" where
  "in_between a b c = (a \<le> c \<and> c \<le> b \<or> b \<le> c \<and> c \<le> a)"

definition in_box :: "Position \<Rightarrow> Position \<Rightarrow> Position \<Rightarrow> bool" where
  "in_box s d p =
     (in_between (uint (pos_x s)) (uint (pos_x d)) (uint (pos_x p)) \<and>
      in_between (uint (pos_y s)) (uint (pos_y d)) (uint (pos_y p)))"

definition deviation :: "Position \<Rightarrow> Position \<Rightarrow> Position \<Rightarrow> int" where
  "deviation s d p = getOffsetY d s * getOffsetX p d + getOffsetX s d * getOffsetY p d"

definition half_a_tile :: "Position \<Rightarrow> Position \<Rightarrow> Position \<Rightarrow> bool" where
  "half_a_tile s d p = (2 * \<bar>deviation s d p\<bar> \<le> max (getDistanceX s d) (getDistanceY s d))"

definition left_to_go :: "Position \<Rightarrow> Position \<Rightarrow> nat" where
  "left_to_go d p = nat (getDistanceX p d + getDistanceY p d)"

lemmas offsets = getOffsetX_def getOffsetY_def getDistanceX_def getDistanceY_def

lemma ideal_off_deviation:
  "ideal_off (ideal_line s d) (uint (pos_x p) + i) (uint (pos_y p) + j)
     = \<bar>deviation s d p + getOffsetY d s * i + getOffsetX s d * j\<bar>"
  by (simp add: ideal_off_def ideal_line_def Let_def deviation_def offsets algebra_simps)

text \<open>The same numbers with the signs taken out.\<close>

lemma signs_out:
  fixes mx my :: int
  assumes "mx = 1 \<or> mx = -1" "my = 1 \<or> my = -1"
  shows "\<bar>(my * Y) * (- (mx * u)) + (- (mx * X)) * (- (my * v)) + (my * Y) * (mx * i) + (- (mx * X)) * (my * j)\<bar>
     = \<bar>Y * (u - i) - X * (v - j)\<bar>"
proof -
  have "(my * Y) * (- (mx * u)) + (- (mx * X)) * (- (my * v)) + (my * Y) * (mx * i) + (- (mx * X)) * (my * j)
      = - (mx * my) * (Y * (u - i) - X * (v - j))"
    by (simp add: algebra_simps)
  moreover have "\<bar>mx * my\<bar> = 1"
    using assms by auto
  ultimately show ?thesis
    by (simp add: abs_mult)
qed

lemma toward_sign:
  "a \<noteq> b \<Longrightarrow> toward a b = 1 \<or> toward a b = -1"
  "uint b - uint a = toward a b * \<bar>uint b - uint a\<bar>"
  by (auto simp: toward_def word_less_alt)

lemma word_step:
  assumes "uint (a :: u16) \<noteq> uint b" and "t = toward a b"
  shows "uint (a + word_of_int t) = uint a + t"
proof (cases "a < b")
  case True
  then have "uint a < 65535"
    using uint_lt2p [of b] by (simp add: word_less_alt)
  then show ?thesis
    using True assms by (simp add: toward_def uint_succ)
next
  case False
  then have "0 < uint a"
    using assms(1) uint_ge_0 [of b] unfolding word_less_alt by linarith
  then show ?thesis
    using False assms uint_pred [of a] by (simp add: toward_def)
qed


lemma deviation_move:
  "uint (pos_x q) = uint (pos_x p) + i \<Longrightarrow> uint (pos_y q) = uint (pos_y p) + j
    \<Longrightarrow> deviation s d q = deviation s d p + getOffsetY d s * i + getOffsetX s d * j"
  by (simp add: deviation_def offsets algebra_simps)

definition moves :: "Position \<Rightarrow> Position \<Rightarrow> Position \<Rightarrow> int \<Rightarrow> int \<Rightarrow> bool" where
  "moves d p q i j =
     (pos_z q = pos_z p \<and>
      uint (pos_x q) = uint (pos_x p) + i * toward (pos_x p) (pos_x d) \<and>
      uint (pos_y q) = uint (pos_y p) + j * toward (pos_y p) (pos_y d) \<and>
      (i = 1 \<and> pos_x p \<noteq> pos_x d \<or> i = 0) \<and> (j = 1 \<and> pos_y p \<noteq> pos_y d \<or> j = 0) \<and> i + j > 0)"

lemma moves_progress:
  assumes "moves d p q i j"
  shows "in_box p d q" "left_to_go d q < left_to_go d p" "pos_z q = pos_z p"
    "getDistanceX p q \<le> 1" "getDistanceY p q \<le> 1"
proof -
  have neq: "pos_x p \<noteq> pos_x d \<longleftrightarrow> uint (pos_x p) \<noteq> uint (pos_x d)" "pos_y p \<noteq> pos_y d \<longleftrightarrow> uint (pos_y p) \<noteq> uint (pos_y d)"
    by (simp_all add: word_uint_eq_iff)
  show "in_box p d q" "left_to_go d q < left_to_go d p" "pos_z q = pos_z p"
    "getDistanceX p q \<le> 1" "getDistanceY p q \<le> 1"
    using assms unfolding moves_def neq
    by (auto simp: in_box_def in_between_def left_to_go_def offsets toward_def word_less_alt neq split: if_splits)
qed

lemma toward_in_box:
  assumes "in_box s d p"
  shows "pos_x p \<noteq> pos_x d \<Longrightarrow> toward (pos_x p) (pos_x d) = toward (pos_x s) (pos_x d)"
    and "pos_y p \<noteq> pos_y d \<Longrightarrow> toward (pos_y p) (pos_y d) = toward (pos_y s) (pos_y d)"
  using assms by (auto simp: in_box_def in_between_def toward_def word_less_alt word_uint_eq_iff)

lemma in_box_trans: "in_box s d p \<Longrightarrow> in_box p d q \<Longrightarrow> in_box s d q"
  by (auto simp: in_box_def in_between_def)

lemma in_box_start [simp]: "in_box s d s" "in_box s d d"
  by (auto simp: in_box_def in_between_def)

lemma near_start: "half_a_tile s d s"
  by (simp add: half_a_tile_def deviation_def offsets algebra_simps)

lemma less_off:
  assumes "half_a_tile s d p" "deviation s d p = k * v" "deviation s d q = k * (v - 1)" "0 < v"
  shows "half_a_tile s d q"
proof -
  have "\<bar>k\<bar> * (v - 1) \<le> \<bar>k\<bar> * v"
    by (rule mult_left_mono) simp_all
  then have "\<bar>deviation s d q\<bar> \<le> \<bar>deviation s d p\<bar>"
    using assms(4) by (simp add: assms(2,3) abs_mult)
  then show ?thesis
    using assms(1) unfolding half_a_tile_def by linarith
qed

text \<open>The step of the code, in each of its three cases.\<close>

lemma sight_step_moves:
  assumes box: "in_box s d p" and near: "half_a_tile s d p" and more: "pos_x p \<noteq> pos_x d \<or> pos_y p \<noteq> pos_y d"
  obtains i j where "moves d p (ideal_step (ideal_line s d) d p) i j" "half_a_tile s d (ideal_step (ideal_line s d) d p)"
proof -
  define q where "q = ideal_step (ideal_line s d) d p"
  define mx my where "mx = toward (pos_x p) (pos_x d)" and "my = toward (pos_y p) (pos_y d)"
  define X Y where "X = getDistanceX s d" and "Y = getDistanceY s d"
  define u v where "u = getDistanceX p d" and "v = getDistanceY p d"
  have l: "lineMx (ideal_line s d) = toward (pos_x s) (pos_x d)" "lineMy (ideal_line s d) = toward (pos_y s) (pos_y d)"
    by (simp_all add: ideal_line_def Let_def)
  have tx: "lineMx (ideal_line s d) = mx" if "pos_x p \<noteq> pos_x d"
    using toward_in_box(1) [OF box that] by (simp add: l mx_def)
  have ty: "lineMy (ideal_line s d) = my" if "pos_y p \<noteq> pos_y d"
    using toward_in_box(2) [OF box that] by (simp add: l my_def)
  have sx: "uint (pos_x p + word_of_int mx) = uint (pos_x p) + mx" if "pos_x p \<noteq> pos_x d"
    using word_step [of "pos_x p" "pos_x d" mx] that by (simp add: mx_def word_uint_eq_iff)
  have sy: "uint (pos_y p + word_of_int my) = uint (pos_y p) + my" if "pos_y p \<noteq> pos_y d"
    using word_step [of "pos_y p" "pos_y d" my] that by (simp add: my_def word_uint_eq_iff)
  have X: "getOffsetX s d = - (mx * X)" "0 < X" "getOffsetX p d = - (mx * u)" "0 < u" if "pos_x p \<noteq> pos_x d"
    using that box toward_in_box(1) [OF box that] unfolding mx_def
    by (auto simp: X_def u_def offsets in_box_def in_between_def toward_def word_less_alt word_uint_eq_iff)
  have Y: "getOffsetY d s = my * Y" "0 < Y" "getOffsetY p d = - (my * v)" "0 < v" if "pos_y p \<noteq> pos_y d"
    using that box toward_in_box(2) [OF box that] unfolding my_def
    by (auto simp: Y_def v_def offsets in_box_def in_between_def toward_def word_less_alt word_uint_eq_iff)
  have dev: "deviation s d p = getOffsetY d s * getOffsetX p d + getOffsetX s d * getOffsetY p d"
    by (rule deviation_def)
  show thesis
  proof (cases "pos_x p = pos_x d")
    case True
    then have y: "pos_y p \<noteq> pos_y d"
      using more by blast
    have q: "q = Position (pos_x p) (pos_y p + word_of_int my) (pos_z p)"
      using True y by (simp add: q_def ideal_step_def Let_def ty)
    have "moves d p q 0 1"
      using y by (simp add: moves_def q sy my_def [symmetric])
    moreover have "half_a_tile s d q"
    proof (rule less_off)
      show before: "deviation s d p = - (getOffsetX s d * my) * v"
        using True by (simp add: dev Y(3) [OF y] getOffsetX_def [of p d])
      show "deviation s d q = - (getOffsetX s d * my) * (v - 1)"
        using deviation_move [of q p 0 my s d] sy [OF y] unfolding before
        by (simp add: q algebra_simps)
      show "0 < v"
        by (rule Y(4) [OF y])
    qed (rule near)
    ultimately show ?thesis
      using that unfolding q_def by blast
  next
    case x: False
    show ?thesis
    proof (cases "pos_y p = pos_y d")
      case True
      have q: "q = Position (pos_x p + word_of_int mx) (pos_y p) (pos_z p)"
        using True x by (simp add: q_def ideal_step_def Let_def tx)
      have "moves d p q 1 0"
        using x by (simp add: moves_def q sx mx_def [symmetric])
      moreover have "half_a_tile s d q"
      proof (rule less_off)
        show before: "deviation s d p = - (getOffsetY d s * mx) * u"
          using True by (simp add: dev X(3) [OF x] getOffsetY_def [of p d])
        show "deviation s d q = - (getOffsetY d s * mx) * (u - 1)"
          using deviation_move [of q p mx 0 s d] sx [OF x] unfolding before
          by (simp add: q algebra_simps)
        show "0 < u"
          by (rule X(4) [OF x])
      qed (rule near)
      ultimately show ?thesis
        using that unfolding q_def by blast
    next
      case y: False
      define hor ver crossing where "hor = \<bar>Y * (u - 1) - X * v\<bar>" and "ver = \<bar>Y * u - X * (v - 1)\<bar>"
        and "crossing = \<bar>Y * (u - 1) - X * (v - 1)\<bar>"
      have signs: "mx = 1 \<or> mx = -1" "my = 1 \<or> my = -1"
        unfolding mx_def my_def by (rule toward_sign(1) [OF x], rule toward_sign(1) [OF y])
      have moved: "\<bar>deviation s d p + getOffsetY d s * (mx * i) + getOffsetX s d * (my * j)\<bar> = \<bar>Y * (u - i) - X * (v - j)\<bar>" for i j
        unfolding dev X(1,3) [OF x] Y(1,3) [OF y] by (rule signs_out [OF signs])
      have nums: "ideal_off (ideal_line s d) (uint (pos_x p) + mx) (uint (pos_y p)) = hor"
          "ideal_off (ideal_line s d) (uint (pos_x p)) (uint (pos_y p) + my) = ver"
          "ideal_off (ideal_line s d) (uint (pos_x p) + mx) (uint (pos_y p) + my) = crossing"
        using ideal_off_deviation [of s d p mx 0] ideal_off_deviation [of s d p 0 my] ideal_off_deviation [of s d p mx my]
          moved [of 1 0] moved [of 0 1] moved [of 1 1] by (simp_all add: hor_def ver_def crossing_def)
      have nearXY: "2 * \<bar>Y * u - X * v\<bar> \<le> max X Y"
        using near moved [of 0 0] by (simp add: half_a_tile_def X_def Y_def)
      note greedy = greedy_step [OF X(2) [OF x] Y(2) [OF y] nearXY, folded hor_def ver_def crossing_def]
      have near_q: "half_a_tile s d r" if "uint (pos_x r) = uint (pos_x p) + mx * i" "uint (pos_y r) = uint (pos_y p) + my * j"
          "2 * \<bar>Y * (u - i) - X * (v - j)\<bar> \<le> max X Y" for r i j
        using deviation_move [OF that(1,2), of s d] moved [of i j] that(3) by (simp add: half_a_tile_def X_def Y_def)
      define y' where "y' = (if hor > ver \<or> hor > crossing then pos_y p + word_of_int my else pos_y p)"
      have q: "q = Position (if y' = pos_y d \<or> ver > hor \<or> ver > crossing then pos_x p + word_of_int mx else pos_x p) y' (pos_z p)"
        using x y by (simp add: q_def ideal_step_def Let_def tx ty nums y'_def)
      consider "hor \<le> ver \<and> hor \<le> crossing" | "ver \<le> hor \<and> ver \<le> crossing"
        | "\<not> (hor \<le> ver \<and> hor \<le> crossing)" "\<not> (ver \<le> hor \<and> ver \<le> crossing)"
        by blast
      then show ?thesis
      proof cases
        case 1
        then have q': "q = Position (pos_x p + word_of_int mx) (pos_y p) (pos_z p)"
          using greedy(1) by (auto simp: q y'_def not_less)
        have "moves d p q 1 0"
          using x by (simp add: moves_def q' sx mx_def [symmetric])
        moreover have "half_a_tile s d q"
          using near_q [of q 1 0] greedy(3) 1 x by (simp add: q' sx hor_def)
        ultimately show ?thesis
          using that unfolding q_def by blast
      next
        case 2
        have y': "y' = pos_y p + word_of_int my"
          using greedy(1) 2 by (auto simp: y'_def not_less)
        have "y' \<noteq> pos_y d"
        proof
          assume "y' = pos_y d"
          then have "getOffsetY p d = - my"
            using sy [OF y] y' by (simp add: offsets)
          then have "v = 1"
            using Y(3) [OF y] signs by auto
          then show False
            using greedy(2) X(4) [OF x] 2 by blast
        qed
        then have q': "q = Position (pos_x p) (pos_y p + word_of_int my) (pos_z p)"
          using 2 y' by (auto simp: q not_less)
        have "moves d p q 0 1"
          using y by (simp add: moves_def q' sy my_def [symmetric])
        moreover have "half_a_tile s d q"
          using near_q [of q 0 1] greedy(4) 2 y by (simp add: q' sy ver_def)
        ultimately show ?thesis
          using that unfolding q_def by blast
      next
        case 3
        then have q': "q = Position (pos_x p + word_of_int mx) (pos_y p + word_of_int my) (pos_z p)"
          by (auto simp: q y'_def not_le)
        have "moves d p q 1 1"
          using x y by (simp add: moves_def q' sx sy mx_def [symmetric] my_def [symmetric])
        moreover have "half_a_tile s d q"
          using near_q [of q 1 1] greedy(5) [OF 3] x y by (simp add: q' sx sy crossing_def)
        ultimately show ?thesis
          using that unfolding q_def by blast
      qed
    qed
  qed
qed


section \<open>The whole line\<close>

fun sight_path :: "nat \<Rightarrow> Line \<Rightarrow> Position \<Rightarrow> Position \<Rightarrow> Position list" where
  "sight_path 0 l d p = []"
| "sight_path (Suc n) l d p =
     (if pos_x p \<noteq> pos_x d \<or> pos_y p \<noteq> pos_y d
      then ideal_step l d p # sight_path n l d (ideal_step l d p) else [])"

fun next_to_each_other :: "Position \<Rightarrow> Position list \<Rightarrow> bool" where
  "next_to_each_other p [] = True"
| "next_to_each_other p (q # qs) = (q \<noteq> p \<and> areInRange3 1 1 0 p q \<and> next_to_each_other q qs)"

text \<open>A straight line of tiles on the floor of \<open>s\<close>, from beside \<open>s\<close> to over or under \<open>d\<close>.\<close>

definition straight :: "Position \<Rightarrow> Position \<Rightarrow> Position list \<Rightarrow> bool" where
  "straight s d ps =
     (next_to_each_other s ps \<and> last (s # ps) = Position (pos_x d) (pos_y d) (pos_z s) \<and>
      length ps \<le> left_to_go d s \<and> list_all (\<lambda>q. in_box s d q \<and> half_a_tile s d q) ps)"

lemma left_to_go_0: "left_to_go d p = 0 \<longleftrightarrow> pos_x p = pos_x d \<and> pos_y p = pos_y d"
  by (auto simp: left_to_go_def offsets word_uint_eq_iff)

text \<open>Inside of the box of the two ends no number of the code overflows.\<close>

lemma ideal_off_bound:
  assumes reach: "within_reach s d" and x: "\<bar>x - uint (pos_x d)\<bar> \<le> 16384" "\<bar>x\<bar> \<le> 65536"
    and y: "\<bar>y - uint (pos_y d)\<bar> \<le> 16384" "\<bar>y\<bar> \<le> 65536"
  shows "off_line (ideal_line s d) x y = Some (ideal_off (ideal_line s d) x y)"
proof -
  let ?a = "getOffsetY d s" and ?b = "getOffsetX s d"
  note ab = offset_bounds [OF reach]
  have c: "lineC (ideal_line s d) = -(?a * uint (pos_x d) + ?b * uint (pos_y d))"
    by (simp add: ideal_line_def)
  have "?a * x + ?b * y + lineC (ideal_line s d) = ?a * (x - uint (pos_x d)) + ?b * (y - uint (pos_y d))"
    by (simp add: c algebra_simps)
  moreover have "\<bar>?a * (x - uint (pos_x d))\<bar> \<le> 16383 * 16384" "\<bar>?b * (y - uint (pos_y d))\<bar> \<le> 16383 * 16384"
    by (rule product_bound [OF ab(1) x(1)], rule product_bound [OF ab(2) y(1)])
  ultimately have small: "\<bar>?a * x + ?b * y + lineC (ideal_line s d)\<bar> \<le> 536854528"
    by linarith
  have l: "lineA (ideal_line s d) = ?a" "lineB (ideal_line s d) = ?b"
    by (simp_all add: ideal_line_def)
  show ?thesis
    using int32_sum_exact(1) [OF ab x(2) y(2)] small by (simp add: off_line_def ideal_off_def l int32_exact)
qed

lemma sight_step_ideal:
  assumes reach: "within_reach s d" and box: "in_box s d p"
  shows "sight_step (ideal_line s d) d p = Some (ideal_step (ideal_line s d) d p)"
proof -
  define mx my where "mx = lineMx (ideal_line s d)" and "my = lineMy (ideal_line s d)"
  have m: "\<bar>mx\<bar> \<le> 1" "\<bar>my\<bar> \<le> 1"
    by (simp_all add: mx_def my_def ideal_line_def toward_def)
  have near: "\<bar>uint (pos_x p) - uint (pos_x d)\<bar> \<le> 16383" "\<bar>uint (pos_y p) - uint (pos_y d)\<bar> \<le> 16383"
    using reach box by (auto simp: within_reach_def in_box_def in_between_def offsets)
  have off: "off_line (ideal_line s d) (uint (pos_x p) + i) (uint (pos_y p) + j)
      = Some (ideal_off (ideal_line s d) (uint (pos_x p) + i) (uint (pos_y p) + j))" if "\<bar>i\<bar> \<le> 1" "\<bar>j\<bar> \<le> 1" for i j
    using that near coordinate_bounds [of "pos_x p"] coordinate_bounds [of "pos_y p"] by (intro ideal_off_bound [OF reach]) linarith+
  show ?thesis
    using off [of mx 0] off [of 0 my] off [of mx my] m
    by (simp add: sight_step_def ideal_step_def mx_def [symmetric] my_def [symmetric] Let_def)
qed

lemma sight_path_straight:
  assumes "in_box s d p" "half_a_tile s d p" "left_to_go d p \<le> n" and reach: "within_reach s d"
  defines "ps \<equiv> sight_path n (ideal_line s d) d p"
  shows "next_to_each_other p ps" "last (p # ps) = Position (pos_x d) (pos_y d) (pos_z p)"
    "length ps \<le> left_to_go d p" "list_all (\<lambda>q. in_box s d q \<and> half_a_tile s d q) ps"
    "sight_loop stops (ideal_line s d) d p =
       Some (if list_ex stops ps then None else Some (Position (pos_x d) (pos_y d) (pos_z p)))"
proof -
  have "next_to_each_other p ps \<and> last (p # ps) = Position (pos_x d) (pos_y d) (pos_z p) \<and>
    length ps \<le> left_to_go d p \<and> list_all (\<lambda>q. in_box s d q \<and> half_a_tile s d q) ps \<and>
    sight_loop stops (ideal_line s d) d p =
       Some (if list_ex stops ps then None else Some (Position (pos_x d) (pos_y d) (pos_z p)))"
    using assms(1-3) unfolding ps_def
  proof (induction n arbitrary: p)
    case 0
    then show ?case
      by (cases p) (simp add: left_to_go_0 sight_loop.simps)
  next
    case (Suc n)
    show ?case
    proof (cases "pos_x p \<noteq> pos_x d \<or> pos_y p \<noteq> pos_y d")
      case False
      then show ?thesis
        by (cases p) (simp add: sight_loop.simps)
    next
      case True
      define q where "q = ideal_step (ideal_line s d) d p"
      obtain i j where m: "moves d p q i j" and near: "half_a_tile s d q"
        using sight_step_moves [OF Suc.prems(1,2) True] unfolding q_def by blast
      note prog = moves_progress [OF m]
      have box: "in_box s d q"
        using in_box_trans [OF Suc.prems(1) prog(1)] .
      have "q \<noteq> p" "areInRange3 1 1 0 p q"
        using prog by (auto simp: areInRange3_def getDistanceZ_def getOffsetZ_def)
      moreover note IH = Suc.IH [OF box near]
      ultimately show ?thesis
        using prog(2,3) Suc.prems(3) box near
        unfolding sight_loop.simps [of stops "ideal_line s d" d p] sight_path.simps if_P [OF True]
          sight_step_ideal [OF reach Suc.prems(1)] option.case q_def [symmetric]
        by simp
    qed
  qed
  then show "next_to_each_other p ps" "last (p # ps) = Position (pos_x d) (pos_y d) (pos_z p)"
    "length ps \<le> left_to_go d p" "list_all (\<lambda>q. in_box s d q \<and> half_a_tile s d q) ps"
    "sight_loop stops (ideal_line s d) d p =
       Some (if list_ex stops ps then None else Some (Position (pos_x d) (pos_y d) (pos_z p)))"
    by blast+
qed

definition floors_between :: "Position \<Rightarrow> Position \<Rightarrow> Position list" where
  "floors_between s d =
     map (\<lambda>k. Position (pos_x d) (pos_y d) (pos_z s + of_nat k)) [0..<unat (pos_z d) - unat (pos_z s)]"

lemma floors_clear_all:
  "floors_clear full n (Position x y z) = list_all (\<lambda>k. \<not> full (Position x y (z + of_nat k))) [0..<n]"
proof (induction n arbitrary: z)
  case (Suc n)
  have "[0..<Suc n] = 0 # map Suc [0..<n]"
    by (simp add: map_Suc_upt upt_conv_Cons del: upt_Suc)
  then show ?case
    using Suc by (simp add: list.pred_map o_def add.assoc del: upt_Suc)
qed simp

definition lower :: "Position \<Rightarrow> Position \<Rightarrow> Position" where
  "lower p q = (if pos_z p > pos_z q then q else p)"
definition upper :: "Position \<Rightarrow> Position \<Rightarrow> Position" where
  "upper p q = (if pos_z p > pos_z q then p else q)"

lemma within_reach_ends: "within_reach p q \<Longrightarrow> within_reach (lower p q) (upper p q)"
  by (simp add: within_reach_def lower_def upper_def offsets abs_minus_commute)

lemma checkSightLine_line:
  assumes "within_reach p q"
  shows "\<exists>ps. straight (lower p q) (upper p q) ps \<and>
     checkSightLine e m p q =
       Some (list_all (\<lambda>r. \<not> stops_missiles e m r) ps \<and>
             list_all (\<lambda>r. \<not> holds_something m r) (floors_between (lower p q) (upper p q)))"
proof -
  define s d where "s = lower p q" and "d = upper p q"
  have reach: "within_reach s d"
    using within_reach_ends [OF assms] by (simp add: s_def d_def)
  define ps where "ps = sight_path (left_to_go d s) (ideal_line s d) d s"
  note path = sight_path_straight [of s d s "left_to_go d s", folded ps_def, OF _ near_start _ reach, simplified]
  have "straight s d ps"
    using path by (simp add: straight_def)
  moreover have "checkSightLine e m p q =
       Some (list_all (\<lambda>r. \<not> stops_missiles e m r) ps \<and> list_all (\<lambda>r. \<not> holds_something m r) (floors_between s d))"
  proof (cases "p = q")
    case True
    then have "s = d"
      by (simp add: s_def d_def lower_def upper_def)
    then have "ps = []" "floors_between s d = []"
      using left_to_go_0 [of d s] by (simp_all add: ps_def floors_between_def)
    then show ?thesis
      using True by (simp add: checkSightLine_def)
  next
    case False
    have "checkSightLine e m p q = do {
          line \<leftarrow> line_to s d;
          end \<leftarrow> sight_loop (stops_missiles e m) line d s;
          Some (case end of
                  None \<Rightarrow> False
                | Some p \<Rightarrow> floors_clear (holds_something m) (unat (pos_z d) - unat (pos_z p)) p) }"
      unfolding checkSightLine_def Let_def s_def d_def lower_def upper_def by (simp only: pos_eq_iff False if_False)
    then show ?thesis
      by (simp add: line_to_ideal [OF reach] path(5) floors_clear_all floors_between_def list.pred_map o_def list_all_iff list_ex_iff)
  qed
  ultimately show ?thesis
    unfolding s_def d_def by blast
qed


text \<open>C14: between ends that are no more than 16,383 columns and rows apart, where nothing overflows,
  \<open>Map::checkSightLine\<close> always returns, and answers whether a straight line of tiles is clear.
  The line goes on the floor of the end with the smaller z, tile by tile to above the other end: each tile is
  next to the one before, none lies outside the box of the two ends, and none is more than
  half a tile off the ideal line; then it goes through the floors, which have to be empty.  It takes at most
  as many steps as the two coordinates differ.\<close>
theorem sight_lines_are_straight:
  assumes "getDistanceX p q \<le> 16383" and "getDistanceY p q \<le> 16383"
  shows "\<exists>ps. straight (lower p q) (upper p q) ps \<and>
     checkSightLine e m p q =
       Some (list_all (\<lambda>r. \<not> stops_missiles e m r) ps \<and>
             list_all (\<lambda>r. \<not> holds_something m r) (floors_between (lower p q) (upper p q)))"
  by (rule checkSightLine_line) (simp add: within_reach_def assms)

lemma isSightClear_decides:
  assumes "within_reach p q"
  shows "isSightClear e m p q fc =
     Some ((fc \<longrightarrow> pos_z p = pos_z q) \<and> (checkSightLine e m p q = Some True \<or> checkSightLine e m q p = Some True))"
proof -
  have "within_reach q p" using assms by (simp add: within_reach_def offsets abs_minus_commute)
  then show ?thesis
    using checkSightLine_line [OF assms, of e m] checkSightLine_line [of q p e m]
    by (auto simp: isSightClear_def split: bool.split)
qed

lemma isSightClear_sym: "within_reach p q \<Longrightarrow> isSightClear e m p q fc = isSightClear e m q p fc"
  using isSightClear_decides [of p q e m fc] isSightClear_decides [of q p e m fc]
  by (auto simp: within_reach_def offsets abs_minus_commute)

text \<open>On different floors both calls of \<open>isSightClear\<close> follow the same line, for each begins at the end with the
  smaller z: the second call never changes the answer.\<close>

lemma different_floors_one_line: "pos_z p \<noteq> pos_z q \<Longrightarrow> checkSightLine e m q p = checkSightLine e m p q"
  by (auto simp: checkSightLine_def Let_def)

text \<open>Farther apart the numbers overflow.\<close>

lemma far_lines_overflow: "checkSightLine e m (Position 0 65535 7) (Position 65535 0 7) = None"
  by (simp add: checkSightLine_def Let_def pos_eq_def line_to_def int32_sum_def int32_def getOffsetX_def getOffsetY_def toward_def)

end
