(* ===== verification/MapSpectators.thy ===== *)
theory MapSpectators
  imports MapSight
begin

text \<open>
  Who sees a place: the creature lists of the leaves, the scan over the leaves from neighbour to neighbour
  (\<open>Map::getSpectatorsInternal\<close>) and the two caches in front of it (\<open>Map::getSpectators\<close>).
\<close>

section \<open>State\<close>

definition maxViewportX :: int where "maxViewportX = 11"
definition maxViewportY :: int where "maxViewportY = 11"

text \<open>The map, the position of each creature's tile, which creatures are players, the direction each
  faces, and the two caches.  A set of spectators is an \<open>unordered_set\<close>.\<close>

record World =
  board :: "Tile Map"
  place_of :: "addr \<Rightarrow> Position"
  is_player :: "addr \<Rightarrow> bool"
  facing :: "addr \<Rightarrow> Direction"
  spectatorCache :: "Position \<Rightarrow> addr set option"
  playersSpectatorCache :: "Position \<Rightarrow> addr set option"

definition clearSpectatorCache :: "World \<Rightarrow> World" where
  "clearSpectatorCache w = w\<lparr>spectatorCache := \<lambda>_. None, playersSpectatorCache := \<lambda>_. None\<rparr>"

section \<open>The lists of a leaf\<close>

definition leaf_addCreature :: "(addr \<Rightarrow> bool) \<Rightarrow> addr \<Rightarrow> 't QTreeLeafNode \<Rightarrow> 't QTreeLeafNode" where
  "leaf_addCreature isp c f =
     (let f1 = f\<lparr>creature_list := creature_list f @ [c]\<rparr>
      in if isp c then f1\<lparr>player_list := player_list f1 @ [c]\<rparr> else f1)"

fun index_of :: "'a \<Rightarrow> 'a list \<Rightarrow> nat option" where
  "index_of x [] = None"
| "index_of x (y # ys) = (if y = x then Some 0 else map_option Suc (index_of x ys))"

text \<open>The last element takes the place of the removed one; None is the failed assertion.\<close>

definition swap_out :: "'a \<Rightarrow> 'a list \<Rightarrow> 'a list option" where
  "swap_out x xs = map_option (\<lambda>i. butlast (xs[i := last xs])) (index_of x xs)"

definition leaf_removeCreature :: "(addr \<Rightarrow> bool) \<Rightarrow> addr \<Rightarrow> 't QTreeLeafNode \<Rightarrow> 't QTreeLeafNode option" where
  "leaf_removeCreature isp c f =
     (case swap_out c (creature_list f) of
        None \<Rightarrow> None
      | Some cs \<Rightarrow>
          if isp c then map_option (\<lambda>ps. f\<lparr>creature_list := cs, player_list := ps\<rparr>) (swap_out c (player_list f))
          else Some (f\<lparr>creature_list := cs\<rparr>))"

lemma index_of_Some: "index_of x xs = Some i \<Longrightarrow> i < length xs \<and> xs ! i = x"
  by (induction xs arbitrary: i) (auto split: if_splits)

lemma index_of_None: "index_of x xs = None \<longleftrightarrow> x \<notin> set xs"
  by (induction xs) auto

lemma swap_out_distinct:
  assumes "distinct xs" "x \<in> set xs"
  shows "\<exists>ys. swap_out x xs = Some ys \<and> distinct ys \<and> set ys = set xs - {x}"
proof -
  obtain i where i: "index_of x xs = Some i"
    using assms(2) index_of_None [of x xs] by (cases "index_of x xs") auto
  have len: "i < length xs" "xs ! i = x"
    using index_of_Some [OF i] by auto
  then have ne: "xs \<noteq> []"
    by auto
  then obtain zs y where xs: "xs = zs @ [y]"
    by (metis append_butlast_last_id)
  show ?thesis
  proof (cases "i = length zs")
    case True
    then show ?thesis
      using assms len i by (auto simp: swap_out_def xs nth_append)
  next
    case False
    then have iz: "i < length zs"
      using len by (simp add: xs)
    then have "swap_out x xs = Some (zs[i := y])" "zs ! i = x"
      using i len by (simp_all add: swap_out_def xs list_update_append nth_append)
    moreover have "distinct (zs[i := y])" "set (zs[i := y]) = set xs - {x}"
      using assms(1) iz \<open>zs ! i = x\<close>
      by (auto simp: xs distinct_list_update set_update_distinct)
    ultimately show ?thesis
      by blast
  qed
qed

section \<open>The scan\<close>

text \<open>From a leaf to the one east of it, and through the tree where there is no leaf; coordinates go to
  \<open>uint32_t\<close> in the call of \<open>getLeafStatic\<close>.\<close>

function scan_row :: "'t Map \<Rightarrow> (leaf_id \<Rightarrow> addr set) \<Rightarrow> int \<Rightarrow> int \<Rightarrow> int \<Rightarrow> leaf_id option \<Rightarrow> addr set \<Rightarrow> addr set" where
  "scan_row m pick ny endx2 nx east found =
     (if nx \<le> endx2 then
        (case east of
           Some l \<Rightarrow> scan_row m pick ny endx2 (nx + 8) (leafE (leaves m l)) (found \<union> pick l)
         | None \<Rightarrow> scan_row m pick ny endx2 (nx + 8) (leaf_of m (word_of_int (nx + 8)) (word_of_int ny)) found)
      else found)"
  by pat_completeness auto
termination by (relation "measure (\<lambda>(m, pick, ny, endx2, nx, east, found). nat (endx2 + 1 - nx))") auto

function scan_rows :: "'t Map \<Rightarrow> (leaf_id \<Rightarrow> addr set) \<Rightarrow> int \<Rightarrow> int \<Rightarrow> int \<Rightarrow> int \<Rightarrow> leaf_id option \<Rightarrow> addr set \<Rightarrow> addr set" where
  "scan_rows m pick startx1 endx2 endy2 ny south found =
     (if ny \<le> endy2 then
        (let found' = scan_row m pick ny endx2 startx1 south found
         in scan_rows m pick startx1 endx2 endy2 (ny + 8)
              (case south of Some l \<Rightarrow> leafS (leaves m l)
               | None \<Rightarrow> leaf_of m (word_of_int startx1) (word_of_int (ny + 8))) found')
      else found)"
  by pat_completeness auto
termination by (relation "measure (\<lambda>(m, pick, sx, ex, endy2, ny, south, found). nat (endy2 + 1 - ny))") auto

declare scan_row.simps [simp del] scan_rows.simps [simp del]

text \<open>\<open>std::min<uint32_t>(0xFFFF, std::max<int32_t>(0, v))\<close>.\<close>

definition clamp :: "int \<Rightarrow> int" where "clamp v = min 65535 (max 0 v)"

text \<open>The ranges are \<open>int32_t\<close>, and so are the sums: they are exact for ranges below 2 ^ 31 - 2 ^ 17.\<close>

record Ranges =
  minRangeX :: int
  maxRangeX :: int
  minRangeY :: int
  maxRangeY :: int
  minRangeZ :: int
  maxRangeZ :: int

definition in_ranges :: "Position \<Rightarrow> Ranges \<Rightarrow> Position \<Rightarrow> bool" where
  "in_ranges centerPos r cpos =
     (let min_y = uint (pos_y centerPos) + minRangeY r; min_x = uint (pos_x centerPos) + minRangeX r;
          max_y = uint (pos_y centerPos) + maxRangeY r; max_x = uint (pos_x centerPos) + maxRangeX r
      in if minRangeZ r > uint (pos_z cpos) \<or> maxRangeZ r < uint (pos_z cpos) then False
         else let offsetZ = getOffsetZ centerPos cpos
         in \<not> (min_y + offsetZ > uint (pos_y cpos) \<or> max_y + offsetZ < uint (pos_y cpos) \<or>
               min_x + offsetZ > uint (pos_x cpos) \<or> max_x + offsetZ < uint (pos_x cpos)))"

definition getSpectatorsInternal :: "World \<Rightarrow> addr set \<Rightarrow> Position \<Rightarrow> Ranges \<Rightarrow> bool \<Rightarrow> addr set" where
  "getSpectatorsInternal w found centerPos r onlyPlayers =
     (let m = board w;
          min_y = uint (pos_y centerPos) + minRangeY r; min_x = uint (pos_x centerPos) + minRangeX r;
          max_y = uint (pos_y centerPos) + maxRangeY r; max_x = uint (pos_x centerPos) + maxRangeX r;
          minoffset = uint (pos_z centerPos) - maxRangeZ r;
          x1 = clamp (min_x + minoffset); y1 = clamp (min_y + minoffset);
          maxoffset = uint (pos_z centerPos) - minRangeZ r;
          x2 = clamp (max_x + maxoffset); y2 = clamp (max_y + maxoffset);
          startx1 = x1 - x1 mod 8; starty1 = y1 - y1 mod 8; endx2 = x2 - x2 mod 8; endy2 = y2 - y2 mod 8;
          pick = (\<lambda>l. set (filter (\<lambda>c. in_ranges centerPos r (place_of w c))
                    (if onlyPlayers then player_list (leaves m l) else creature_list (leaves m l))))
      in scan_rows m pick startx1 endx2 endy2 starty1 (leaf_of m (word_of_int startx1) (word_of_int starty1)) found)"

section \<open>The caches\<close>

definition rangesZ :: "bool \<Rightarrow> Position \<Rightarrow> int \<times> int" where
  "rangesZ multifloor centerPos =
     (let z = uint (pos_z centerPos) in
      if multifloor then
        (if z > 7 then (max (z - 2) 0, min (z + 2) (int MAP_MAX_LAYERS - 1))
         else if z = 6 then (0, 8) else if z = 7 then (0, 9) else (0, 7))
      else (z, z))"

definition getSpectators :: "World \<Rightarrow> addr set \<Rightarrow> Position \<Rightarrow> bool \<Rightarrow> bool \<Rightarrow> int \<Rightarrow> int \<Rightarrow> int \<Rightarrow> int \<Rightarrow> addr set \<times> World" where
  "getSpectators w found centerPos multifloor onlyPlayers rminX rmaxX rminY rmaxY =
     (if unat (pos_z centerPos) \<ge> MAP_MAX_LAYERS then (found, w)
      else
        let x1 = (if rminX = 0 then - maxViewportX else - rminX); x2 = (if rmaxX = 0 then maxViewportX else rmaxX);
            y1 = (if rminY = 0 then - maxViewportY else - rminY); y2 = (if rmaxY = 0 then maxViewportY else rmaxY);
            usual = (x1 = - maxViewportX \<and> x2 = maxViewportX \<and> y1 = - maxViewportY \<and> y2 = maxViewportY \<and> multifloor);
            (z1, z2) = rangesZ multifloor centerPos;
            scan = getSpectatorsInternal w found centerPos
              \<lparr>minRangeX = x1, maxRangeX = x2, minRangeY = y1, maxRangeY = y2, minRangeZ = z1, maxRangeZ = z2\<rparr> onlyPlayers
        in case (if usual \<and> onlyPlayers then playersSpectatorCache w centerPos else None) of
             Some cachedList \<Rightarrow> (found \<union> cachedList, w)
           | None \<Rightarrow>
               (case (if usual then spectatorCache w centerPos else None) of
                  Some cachedList \<Rightarrow>
                    (found \<union> (if onlyPlayers then {c \<in> cachedList. is_player w c} else cachedList), w)
                | None \<Rightarrow>
                    (scan,
                     if \<not> usual then w
                     else if onlyPlayers then w\<lparr>playersSpectatorCache := (playersSpectatorCache w)(centerPos \<mapsto> scan)\<rparr>
                     else w\<lparr>spectatorCache := (spectatorCache w)(centerPos \<mapsto> scan)\<rparr>)))"

section \<open>What the scan finds\<close>

definition leaves_in_row :: "'t Map \<Rightarrow> int \<Rightarrow> int \<Rightarrow> int \<Rightarrow> leaf_id set" where
  "leaves_in_row m ny nx endx2 =
     {l. \<exists>k. nx + 8 * int k \<le> endx2 \<and> leaf_of m (word_of_int (nx + 8 * int k)) (word_of_int ny) = Some l}"

definition leaves_in :: "'t Map \<Rightarrow> int \<Rightarrow> int \<Rightarrow> int \<Rightarrow> int \<Rightarrow> leaf_id set" where
  "leaves_in m startx1 endx2 ny endy2 = {l. \<exists>j. ny + 8 * int j \<le> endy2 \<and> l \<in> leaves_in_row m (ny + 8 * int j) startx1 endx2}"

lemma split_first: "(\<exists>k. P k) \<longleftrightarrow> P 0 \<or> (\<exists>k. P (Suc k))"
  by (metis not0_implies_Suc)

lemma leaves_in_row_step:
  "leaves_in_row m ny nx endx2 =
     (if nx \<le> endx2 then set_option (leaf_of m (word_of_int nx) (word_of_int ny)) \<union> leaves_in_row m ny (nx + 8) endx2 else {})"
proof (cases "nx \<le> endx2")
  case True
  then show ?thesis
    unfolding leaves_in_row_def by (subst split_first) (auto simp: algebra_simps)
next
  case False
  then show ?thesis
    by (simp add: leaves_in_row_def)
qed

lemma leaves_in_step:
  "leaves_in m sx ex ny endy2 = (if ny \<le> endy2 then leaves_in_row m ny sx ex \<union> leaves_in m sx ex (ny + 8) endy2 else {})"
proof (cases "ny \<le> endy2")
  case True
  then show ?thesis
    unfolding leaves_in_def by (subst split_first) (auto simp: algebra_simps)
next
  case False
  then show ?thesis
    by (simp add: leaves_in_def)
qed

lemma scan_row_finds:
  assumes "map_ok m" "east = leaf_of m (word_of_int nx) (word_of_int ny)"
  shows "scan_row m pick ny endx2 nx east found = found \<union> \<Union> (pick ` leaves_in_row m ny nx endx2)"
  using assms
proof (induction m pick ny endx2 nx east found rule: scan_row.induct)
  case (1 m pick ny endx2 nx east found)
  show ?case
  proof (cases "nx \<le> endx2")
    case False
    then show ?thesis
      by (subst scan_row.simps, subst leaves_in_row_step) simp
  next
    case True
    show ?thesis
    proof (cases east)
      case None
      then show ?thesis
        using 1(1) [OF True None 1(3)] True 1(4) by (subst scan_row.simps, subst leaves_in_row_step) simp
    next
      case (Some l)
      have here: "leaf_of m (word_of_int nx) (word_of_int ny) = Some l"
        using 1(4) Some by simp
      have "leafE (leaves m l) = leaf_of m (word_of_int (nx + 8)) (word_of_int ny)"
        using map_okD(2) [OF 1(3) here] by simp
      note IH = 1(2) [OF True Some 1(3) this]
      have "scan_row m pick ny endx2 nx east found = scan_row m pick ny endx2 (nx + 8) (leafE (leaves m l)) (found \<union> pick l)"
        using True Some by (subst scan_row.simps) simp
      then show ?thesis
        unfolding IH leaves_in_row_step [of m ny nx] using True here by auto
    qed
  qed
qed

lemma scan_rows_finds:
  assumes "map_ok m" "south = leaf_of m (word_of_int startx1) (word_of_int ny)"
  shows "scan_rows m pick startx1 endx2 endy2 ny south found = found \<union> \<Union> (pick ` leaves_in m startx1 endx2 ny endy2)"
  using assms
proof (induction m pick startx1 endx2 endy2 ny south found rule: scan_rows.induct)
  case (1 m pick sx ex endy2 ny south found)
  show ?case
  proof (cases "ny \<le> endy2")
    case False
    then show ?thesis
      by (subst scan_rows.simps, subst leaves_in_step) simp
  next
    case True
    have "(case south of Some l \<Rightarrow> leafS (leaves m l) | None \<Rightarrow> leaf_of m (word_of_int sx) (word_of_int (ny + 8))) =
        leaf_of m (word_of_int sx) (word_of_int (ny + 8))"
      using map_okD(3) [OF 1(2), of "word_of_int sx" "word_of_int ny"] 1(3) by (simp split: option.split)
    then show ?thesis
      using 1(1) [OF True refl 1(2)] True scan_row_finds [OF 1(2,3)]
      by (subst scan_rows.simps, subst leaves_in_step) (auto simp: Let_def)
  qed
qed

section \<open>Who is on the map\<close>

definition stands :: "World \<Rightarrow> addr \<Rightarrow> bool" where
  "stands w c = (\<exists>t. tile_at (board w) (place_of w c) = Some t \<and> c \<in> set (tile_creatures t))"

definition in_block :: "Position \<Rightarrow> u32 \<Rightarrow> u32 \<Rightarrow> bool" where
  "in_block p x y = (blk (ucast (pos_x p)) = blk x \<and> blk (ucast (pos_y p)) = blk y)"

definition leaves_ok :: "World \<Rightarrow> bool" where
  "leaves_ok w =
     (\<forall>x y l. leaf_of (board w) x y = Some l \<longrightarrow>
        distinct (creature_list (leaves (board w) l)) \<and> distinct (player_list (leaves (board w) l)) \<and>
        set (creature_list (leaves (board w) l)) = {c. stands w c \<and> in_block (place_of w c) x y} \<and>
        set (player_list (leaves (board w) l)) = {c. stands w c \<and> is_player w c \<and> in_block (place_of w c) x y})"

definition spectators :: "World \<Rightarrow> Position \<Rightarrow> Ranges \<Rightarrow> bool \<Rightarrow> addr set" where
  "spectators w p r onlyPlayers = {c. stands w c \<and> (onlyPlayers \<longrightarrow> is_player w c) \<and> in_ranges p r (place_of w c)}"

lemma tile_at_leaf: "tile_at m p = Some t \<Longrightarrow> \<exists>l. leaf_of m (ucast (pos_x p)) (ucast (pos_y p)) = Some l"
  by (auto simp: tile_at_def getTile_tile_in split: if_splits option.splits)

lemma blk_of_block: "blk (word_of_int (8 * (uint (x :: u16) div 8))) = blk (ucast x)"
proof -
  have "unat x < 65536"
    using unsigned_less [of x, where 'a = nat] by simp
  then have b: "8 * (unat x div 8) < 65536"
    by linarith
  have "uint x = int (unat x)"
    by simp
  then have "8 * (uint x div 8) = int (8 * (unat x div 8))"
    by (simp only: of_nat_mult zdiv_int of_nat_numeral)
  then have "(word_of_int (8 * (uint x div 8)) :: u32) = word_of_nat (8 * (unat x div 8))"
    by (simp only: of_int_of_nat_eq)
  moreover have "unat (word_of_nat (8 * (unat x div 8)) :: u32) = 8 * (unat x div 8)"
    unfolding unat_of_nat using b by (intro mod_less) simp
  ultimately show ?thesis
    using b by (simp add: blk_u16) (simp add: blk_def drop_bit_eq_div take_bit_eq_mod)
qed

lemma block_start:
  assumes "a \<le> x" "x \<le> b" "0 \<le> x" "x \<le> 65535"
  defines "s \<equiv> clamp a - clamp a mod 8" and "t \<equiv> clamp b - clamp b mod 8"
  shows "\<exists>k. s + 8 * int k = 8 * (x div 8) \<and> s + 8 * int k \<le> t"
proof -
  have "clamp a \<le> x" "x \<le> clamp b"
    using assms(1-4) by (auto simp: clamp_def)
  then have d: "clamp a div 8 \<le> x div 8" "x div 8 \<le> clamp b div 8"
    by (simp_all add: zdiv_mono1)
  have s: "s = 8 * (clamp a div 8)" "t = 8 * (clamp b div 8)"
    by (simp_all add: s_def t_def minus_mod_eq_mult_div)
  have "s + 8 * int (nat (x div 8 - clamp a div 8)) = 8 * (x div 8)"
    using d by (simp add: s)
  then show ?thesis
    using d s(2) by (intro exI [of _ "nat (x div 8 - clamp a div 8)"]) simp
qed

lemma getSpectatorsInternal_exact:
  assumes ok: "map_ok (board w)" and lists: "leaves_ok w"
  shows "getSpectatorsInternal w found p r onlyPlayers = found \<union> spectators w p r onlyPlayers"
proof -
  define m where "m = board w"
  define pick where "pick l = set (filter (\<lambda>c. in_ranges p r (place_of w c))
      (if onlyPlayers then player_list (leaves m l) else creature_list (leaves m l)))" for l
  define off1 off2 where "off1 = uint (pos_z p) - maxRangeZ r" and "off2 = uint (pos_z p) - minRangeZ r"
  define a b c d where "a = uint (pos_x p) + minRangeX r + off1" and "b = uint (pos_x p) + maxRangeX r + off2"
    and "c = uint (pos_y p) + minRangeY r + off1" and "d = uint (pos_y p) + maxRangeY r + off2"
  define sx ex sy ey where "sx = clamp a - clamp a mod 8" and "ex = clamp b - clamp b mod 8"
    and "sy = clamp c - clamp c mod 8" and "ey = clamp d - clamp d mod 8"
  have scan: "getSpectatorsInternal w found p r onlyPlayers = found \<union> \<Union> (pick ` leaves_in m sx ex sy ey)"
    using scan_rows_finds [OF ok refl, folded m_def, of pick sx ex ey sy found]
    unfolding getSpectatorsInternal_def Let_def m_def [symmetric]
      a_def [symmetric] off1_def [symmetric] off2_def [symmetric] b_def [symmetric] c_def [symmetric] d_def [symmetric]
      sx_def [symmetric] ex_def [symmetric] sy_def [symmetric] ey_def [symmetric] pick_def [symmetric] .
  have lists': "distinct (creature_list (leaves m l)) \<and> distinct (player_list (leaves m l)) \<and>
      set (creature_list (leaves m l)) = {c. stands w c \<and> in_block (place_of w c) x y} \<and>
      set (player_list (leaves m l)) = {c. stands w c \<and> is_player w c \<and> in_block (place_of w c) x y}"
    if "leaf_of m x y = Some l" for x y l
    using lists that unfolding leaves_ok_def m_def by blast
  have pick_sound: "pick l \<subseteq> spectators w p r onlyPlayers" if "leaf_of m x y = Some l" for x y l
  proof -
    have "set (creature_list (leaves m l)) \<subseteq> {c. stands w c}" "set (player_list (leaves m l)) \<subseteq> {c. stands w c \<and> is_player w c}"
      using lists' [OF that] by blast+
    then show ?thesis
      by (auto simp: pick_def spectators_def)
  qed
  have sound: "\<Union> (pick ` leaves_in m sx ex sy ey) \<subseteq> spectators w p r onlyPlayers"
  proof (rule UN_least)
    fix l assume "l \<in> leaves_in m sx ex sy ey"
    then obtain x y where "leaf_of m x y = Some l"
      unfolding leaves_in_def leaves_in_row_def by blast
    then show "pick l \<subseteq> spectators w p r onlyPlayers"
      by (rule pick_sound)
  qed
  have "c0 \<in> \<Union> (pick ` leaves_in m sx ex sy ey)" if c0: "c0 \<in> spectators w p r onlyPlayers" for c0
  proof -
    define q where "q = place_of w c0"
    have st: "stands w c0" and pl: "onlyPlayers \<longrightarrow> is_player w c0" and rng: "in_ranges p r q"
      using c0 by (auto simp: spectators_def q_def)
    obtain t where "tile_at m q = Some t"
      using st unfolding stands_def q_def m_def by blast
    then obtain l where l: "leaf_of m (ucast (pos_x q)) (ucast (pos_y q)) = Some l"
      using tile_at_leaf [of m q t] by blast
    have bounds: "a \<le> uint (pos_x q)" "uint (pos_x q) \<le> b" "c \<le> uint (pos_y q)" "uint (pos_y q) \<le> d"
      using rng by (simp_all add: in_ranges_def Let_def getOffsetZ_def a_def b_def c_def d_def off1_def off2_def split: if_splits)
    have top: "uint (pos_x q) \<le> 65535" "uint (pos_y q) \<le> 65535"
      using uint_lt2p [of "pos_x q"] uint_lt2p [of "pos_y q"] by simp_all
    obtain i where i: "sx + 8 * int i = 8 * (uint (pos_x q) div 8)" "sx + 8 * int i \<le> ex"
      using block_start [OF bounds(1,2) _ top(1)] unfolding sx_def ex_def by auto
    obtain j where j: "sy + 8 * int j = 8 * (uint (pos_y q) div 8)" "sy + 8 * int j \<le> ey"
      using block_start [OF bounds(3,4) _ top(2)] unfolding sy_def ey_def by auto
    have "leaf_of m (word_of_int (sx + 8 * int i)) (word_of_int (sy + 8 * int j)) = Some l"
      unfolding i(1) j(1) l [symmetric] using ok map_ok_depth unfolding m_def
      by (intro leaf_of_cong blk_of_block) blast
    then have "l \<in> leaves_in m sx ex sy ey"
      using i(2) j(2) by (auto simp: leaves_in_def leaves_in_row_def)
    moreover have "c0 \<in> set (creature_list (leaves m l))" "is_player w c0 \<Longrightarrow> c0 \<in> set (player_list (leaves m l))"
      using lists' [OF l] st unfolding in_block_def q_def by blast+
    then have "c0 \<in> pick l"
      using pl rng by (simp add: pick_def q_def)
    ultimately show ?thesis
      by blast
  qed
  then show ?thesis
    using sound scan by blast
qed


section \<open>With the caches\<close>

definition view_ranges :: "bool \<Rightarrow> Position \<Rightarrow> int \<Rightarrow> int \<Rightarrow> int \<Rightarrow> int \<Rightarrow> Ranges" where
  "view_ranges multifloor p rminX rmaxX rminY rmaxY =
     \<lparr>minRangeX = (if rminX = 0 then - maxViewportX else - rminX), maxRangeX = (if rmaxX = 0 then maxViewportX else rmaxX),
      minRangeY = (if rminY = 0 then - maxViewportY else - rminY), maxRangeY = (if rmaxY = 0 then maxViewportY else rmaxY),
      minRangeZ = fst (rangesZ multifloor p), maxRangeZ = snd (rangesZ multifloor p)\<rparr>"

abbreviation usual_ranges :: "Position \<Rightarrow> Ranges" where "usual_ranges p \<equiv> view_ranges True p 0 0 0 0"

text \<open>What a cache may hold: everybody who sees the place and nobody who is not on the map; and nobody else
  at all, unless lists were \<open>mixed\<close>, that is, unless somebody has asked with a list that was not empty.\<close>

definition cached_ok :: "bool \<Rightarrow> World \<Rightarrow> Position \<Rightarrow> bool \<Rightarrow> addr set \<Rightarrow> bool" where
  "cached_ok mixed w p onlyPlayers S =
     (spectators w p (usual_ranges p) onlyPlayers \<subseteq> S \<and> S \<subseteq> {c. stands w c} \<and>
      (\<not> mixed \<longrightarrow> S = spectators w p (usual_ranges p) onlyPlayers))"

definition caches_ok :: "bool \<Rightarrow> World \<Rightarrow> bool" where
  "caches_ok mixed w =
     ((\<forall>p S. spectatorCache w p = Some S \<longrightarrow> cached_ok mixed w p False S) \<and>
      (\<forall>p S. playersSpectatorCache w p = Some S \<longrightarrow> cached_ok mixed w p True S))"

text \<open>The same of an answer, which comes on top of the list that was given.\<close>

definition answer_ok :: "bool \<Rightarrow> World \<Rightarrow> addr set \<Rightarrow> Position \<Rightarrow> Ranges \<Rightarrow> bool \<Rightarrow> addr set \<Rightarrow> bool" where
  "answer_ok mixed w found p r onlyPlayers list =
     (found \<union> spectators w p r onlyPlayers \<subseteq> list \<and> list \<subseteq> found \<union> {c. stands w c} \<and>
      (\<not> mixed \<longrightarrow> list = found \<union> spectators w p r onlyPlayers))"

lemma spectators_stand: "spectators w p r onlyPlayers \<subseteq> {c. stands w c}"
  by (auto simp: spectators_def)

lemma usual_ranges_eq:
  "(if rminX = 0 then - maxViewportX else - rminX) = - maxViewportX \<Longrightarrow> (if rmaxX = 0 then maxViewportX else rmaxX) = maxViewportX \<Longrightarrow>
   (if rminY = 0 then - maxViewportY else - rminY) = - maxViewportY \<Longrightarrow> (if rmaxY = 0 then maxViewportY else rmaxY) = maxViewportY \<Longrightarrow>
   view_ranges True p rminX rmaxX rminY rmaxY = usual_ranges p"
  by (simp add: view_ranges_def)

lemma spectators_caches [simp]:
  "spectators (w\<lparr>spectatorCache := x\<rparr>) = spectators w" "spectators (w\<lparr>playersSpectatorCache := x\<rparr>) = spectators w"
  by (intro ext, simp add: spectators_def stands_def)+

lemma players_among: "{c \<in> spectators w p r False. is_player w c} = spectators w p r True"
  by (auto simp: spectators_def)

text \<open>No answer misses a spectator; it is exact as long as no list was mixed into the caches, and the
  caches stay so when the list was empty.\<close>

lemma getSpectators_answers:
  assumes ok: "map_ok (board w)" "leaves_ok w" "caches_ok mixed w" and z: "unat (pos_z p) < MAP_MAX_LAYERS"
    and call: "getSpectators w found p multifloor onlyPlayers rminX rmaxX rminY rmaxY = (list, w')"
  shows "answer_ok mixed w found p (view_ranges multifloor p rminX rmaxX rminY rmaxY) onlyPlayers list"
    and "found = {} \<or> mixed \<and> found \<subseteq> {c. stands w c} \<Longrightarrow> caches_ok mixed w'"
    and "board w' = board w" "place_of w' = place_of w" "is_player w' = is_player w" "facing w' = facing w"
proof -
  define usual where "usual \<longleftrightarrow> (if rminX = 0 then - maxViewportX else - rminX) = - maxViewportX \<and>
    (if rmaxX = 0 then maxViewportX else rmaxX) = maxViewportX \<and>
    (if rminY = 0 then - maxViewportY else - rminY) = - maxViewportY \<and>
    (if rmaxY = 0 then maxViewportY else rmaxY) = maxViewportY \<and> multifloor"
  define r where "r = view_ranges multifloor p rminX rmaxX rminY rmaxY"
  define scan where "scan = getSpectatorsInternal w found p r onlyPlayers"
  have res: "(list, w') =
      (case (if usual \<and> onlyPlayers then playersSpectatorCache w p else None) of
         Some cachedList \<Rightarrow> (found \<union> cachedList, w)
       | None \<Rightarrow>
           (case (if usual then spectatorCache w p else None) of
              Some cachedList \<Rightarrow> (found \<union> (if onlyPlayers then {c \<in> cachedList. is_player w c} else cachedList), w)
            | None \<Rightarrow>
                (scan,
                 if \<not> usual then w
                 else if onlyPlayers then w\<lparr>playersSpectatorCache := (playersSpectatorCache w)(p \<mapsto> scan)\<rparr>
                 else w\<lparr>spectatorCache := (spectatorCache w)(p \<mapsto> scan)\<rparr>)))"
    using z unfolding call [symmetric] getSpectators_def usual_def scan_def r_def view_ranges_def Let_def
    by (simp add: case_prod_beta del: not_less)
  have scan: "scan = found \<union> spectators w p r onlyPlayers"
    unfolding scan_def by (rule getSpectatorsInternal_exact [OF ok(1,2)])
  have usual: "r = usual_ranges p" if usual
  proof -
    note u = that [unfolded usual_def]
    from usual_ranges_eq [OF u [THEN conjunct1] u [THEN conjunct2, THEN conjunct1] u [THEN conjunct2, THEN conjunct2, THEN conjunct1]
        u [THEN conjunct2, THEN conjunct2, THEN conjunct2, THEN conjunct1]] u
    show ?thesis
      unfolding r_def by (cases multifloor) simp_all
  qed
  have cached: "spectatorCache w p = Some S \<Longrightarrow> cached_ok mixed w p False S"
    "playersSpectatorCache w p = Some S \<Longrightarrow> cached_ok mixed w p True S" for S
    using ok(3) unfolding caches_ok_def by blast+
  have "answer_ok mixed w found p r onlyPlayers scan"
    using spectators_stand [of w p r onlyPlayers] by (auto simp: scan answer_ok_def)
  moreover have "answer_ok mixed w found p r False (found \<union> S)" if "spectatorCache w p = Some S" usual for S
    using cached(1) [OF that(1)] usual [OF that(2)] by (auto simp: answer_ok_def cached_ok_def)
  moreover have "answer_ok mixed w found p r True (found \<union> {c \<in> S. is_player w c})" if "spectatorCache w p = Some S" usual for S
    using cached(1) [OF that(1)] usual [OF that(2)] players_among [of w p r] by (auto simp: answer_ok_def cached_ok_def)
  moreover have "answer_ok mixed w found p r True (found \<union> S)" if "playersSpectatorCache w p = Some S" usual for S
    using cached(2) [OF that(1)] usual [OF that(2)] by (auto simp: answer_ok_def cached_ok_def)
  ultimately show "answer_ok mixed w found p (view_ranges multifloor p rminX rmaxX rminY rmaxY) onlyPlayers list"
    using res unfolding r_def [symmetric] by (auto split: if_splits option.splits)
  show "board w' = board w" "place_of w' = place_of w" "is_player w' = is_player w" "facing w' = facing w"
    using res by (auto split: if_splits option.splits)
  show "caches_ok mixed w'" if f: "found = {} \<or> mixed \<and> found \<subseteq> {c. stands w c}"
  proof -
    have s: "cached_ok mixed w p onlyPlayers scan" if usual
      using scan usual [OF that] f spectators_stand [of w p r onlyPlayers] by (auto simp: cached_ok_def)
    have keep: "caches_ok mixed (w\<lparr>playersSpectatorCache := (playersSpectatorCache w)(p \<mapsto> scan)\<rparr>)" if usual onlyPlayers
      using ok(3) s that by (auto simp: caches_ok_def cached_ok_def stands_def)
    have keep': "caches_ok mixed (w\<lparr>spectatorCache := (spectatorCache w)(p \<mapsto> scan)\<rparr>)" if usual "\<not> onlyPlayers"
      using ok(3) s that by (auto simp: caches_ok_def cached_ok_def stands_def)
    show ?thesis
      using res keep keep' ok(3) by (auto split: if_splits option.splits)
  qed
qed

lemma getSpectators_frame:
  "getSpectators w found p mf op x1 x2 y1 y2 = (list, w') \<Longrightarrow> is_player w' = is_player w \<and> board w' = board w \<and> place_of w' = place_of w"
  by (auto simp: getSpectators_def Let_def case_prod_beta split: option.splits if_splits)

text \<open>With a list that is not empty the cache keeps the whole list, not the spectators of the place.\<close>

lemma second_query_is_cached_whole:
  assumes "map_ok (board w)" "leaves_ok w" "unat (pos_z p) < MAP_MAX_LAYERS" "spectatorCache w p = None"
  shows "spectatorCache (snd (getSpectators w found p True False 0 0 0 0)) p
    = Some (found \<union> spectators w p (usual_ranges p) False)"
  using assms getSpectatorsInternal_exact [OF assms(1,2)]
  by (simp add: getSpectators_def Let_def case_prod_beta view_ranges_def)

end
