(* ===== verification/MapLife.thy ===== *)
theory MapLife
  imports MapSpectators TileRun "HOL-Library.Multiset"
begin

text \<open>
  Creatures come to the map, walk over it and leave it (\<open>Map::placeCreature\<close>, \<open>Map::moveCreature\<close>,
  \<open>Tile::removeCreature\<close>), and through all of it the lists of the leaves and the caches of spectators
  stay true.
\<close>

section \<open>Operations\<close>

text \<open>A creature on a tile: \<open>Tile::internalAddThing\<close>, \<open>Tile::addThing\<close> and \<open>Tile::removeThing\<close> with their calls of
  \<open>clearSpectatorCache\<close> and \<open>setParent\<close>.\<close>

definition enter_tile :: "(Tile \<Rightarrow> Tile) \<Rightarrow> addr \<Rightarrow> Position \<Rightarrow> World \<Rightarrow> World" where
  "enter_tile add c p w =
     (clearSpectatorCache w)\<lparr>board := change_tile add p (board w), place_of := (place_of w)(c := p)\<rparr>"

definition leave_tile :: "Surroundings \<Rightarrow> addr \<Rightarrow> World \<Rightarrow> World" where
  "leave_tile e c w =
     (let p = place_of w c in
      case tile_at (board w) p of
        None \<Rightarrow> w
      | Some t \<Rightarrow>
          (if c \<in> set (tile_creatures t) then clearSpectatorCache w else w)
            \<lparr>board := change_tile (tile_removeThing e (ACreature c) 0) p (board w)\<rparr>)"

definition getQTNode :: "World \<Rightarrow> Position \<Rightarrow> leaf_id option" where
  "getQTNode w p = leaf_of (board w) (ucast (pos_x p)) (ucast (pos_y p))"

text \<open>None is the null pointer, or the failed assertion of the leaf.\<close>

definition node_add :: "addr \<Rightarrow> leaf_id option \<Rightarrow> World \<Rightarrow> World option" where
  "node_add c n w =
     (case n of None \<Rightarrow> None
      | Some l \<Rightarrow> Some (w\<lparr>board := upd_leaf l (leaf_addCreature (is_player w) c) (board w)\<rparr>))"

definition node_remove :: "addr \<Rightarrow> leaf_id option \<Rightarrow> World \<Rightarrow> World option" where
  "node_remove c n w =
     (case n of None \<Rightarrow> None
      | Some l \<Rightarrow> map_option (\<lambda>f. w\<lparr>board := upd_leaf l (\<lambda>_. f) (board w)\<rparr>)
                   (leaf_removeCreature (is_player w) c (leaves (board w) l)))"

definition tile_removeCreature :: "Surroundings \<Rightarrow> addr \<Rightarrow> World \<Rightarrow> World option" where
  "tile_removeCreature e c w = map_option (leave_tile e c) (node_remove c (getQTNode w (place_of w c)) w)"

text \<open>The places tried around a position, in the order the shuffle left.\<close>

definition extendedRelList :: "(int \<times> int) list" where
  "extendedRelList = [(0, -2), (-1, -1), (0, -1), (1, -1), (-2, 0), (-1, 0), (1, 0), (2, 0), (-1, 1), (0, 1), (1, 1), (0, 2)]"

definition normalRelList :: "(int \<times> int) list" where
  "normalRelList = [(-1, -1), (0, -1), (1, -1), (-1, 0), (1, 0), (-1, 1), (0, 1), (1, 1)]"

definition shuffled :: "bool \<Rightarrow> (int \<times> int) list \<Rightarrow> bool" where
  "shuffled extendedPos relList =
     (if extendedPos
      then mset (take 4 relList) = mset (take 4 extendedRelList) \<and> mset (drop 4 relList) = mset (drop 4 extendedRelList)
      else mset relList = mset normalRelList)"

fun try_places :: "Surroundings \<Rightarrow> (addr \<Rightarrow> Being) \<Rightarrow> Tile Map \<Rightarrow> Position \<Rightarrow> addr \<Rightarrow> bool \<Rightarrow> bool \<Rightarrow> (int \<times> int) list \<Rightarrow> (Position \<times> Tile) option" where
  "try_places e b m centerPos c extendedPos placeInPZ [] = None"
| "try_places e b m centerPos c extendedPos placeInPZ ((dx, dy) # rest) =
     (let tryPos = Position (pos_x centerPos + word_of_int dx) (pos_y centerPos + word_of_int dy) (pos_z centerPos);
          more = try_places e b m centerPos c extendedPos placeInPZ rest
      in case tile_at m tryPos of
           None \<Rightarrow> more
         | Some t \<Rightarrow>
             if placeInPZ \<and> \<not> hasFlag TILESTATE_PROTECTIONZONE t then more
             else if tile_queryAdd e b t (ACreature c) 0 = RETURNVALUE_NOERROR
             then (if \<not> extendedPos \<or> isSightClear e m centerPos tryPos False = Some True then Some (tryPos, t) else more)
             else more)"

definition find_place :: "Surroundings \<Rightarrow> (addr \<Rightarrow> Being) \<Rightarrow> Tile Map \<Rightarrow> (int \<times> int) list \<Rightarrow> Position \<Rightarrow> addr \<Rightarrow> bool \<Rightarrow> bool \<Rightarrow> (Position \<times> Tile) option" where
  "find_place e b m relList centerPos c extendedPos forceLogin =
     (case tile_at m centerPos of
        None \<Rightarrow> try_places e b m centerPos c extendedPos False relList
      | Some t \<Rightarrow>
          let ret = tile_queryAdd e b t (ACreature c) FLAG_IGNOREBLOCKITEM
          in if forceLogin \<or> ret = RETURNVALUE_NOERROR \<or> ret = RETURNVALUE_PLAYERISNOTINVITED then Some (centerPos, t)
             else try_places e b m centerPos c extendedPos (hasFlag TILESTATE_PROTECTIONZONE t) relList)"

definition placeCreature :: "Surroundings \<Rightarrow> (addr \<Rightarrow> Being) \<Rightarrow> (int \<times> int) list \<Rightarrow> Position \<Rightarrow> addr \<Rightarrow> bool \<Rightarrow> bool \<Rightarrow> World \<Rightarrow> (bool \<times> World) option" where
  "placeCreature e b relList centerPos c extendedPos forceLogin w =
     (case find_place e b (board w) relList centerPos c extendedPos forceLogin of
        None \<Rightarrow> Some (False, w)
      | Some (p, t) \<Rightarrow>
          let (dest, _, _) = tile_queryDestination (getTile (board w)) p t 0
          in map_option (Pair True)
               (node_add c (getQTNode w dest) (enter_tile (tile_internalAddThing e (ACreature c)) c dest w)))"

text \<open>What a player's client hears of a move: the creature, where to and at which place of the stack, where from
  and at which place, and whether it was a teleport.\<close>

datatype move_message = SendCreatureMove addr Position int Position int bool

definition turned :: "Position \<Rightarrow> Position \<Rightarrow> Direction \<Rightarrow> Direction" where
  "turned oldPos newPos dir =
     (let d1 = (if pos_y oldPos > pos_y newPos then DIRECTION_NORTH
                else if pos_y oldPos < pos_y newPos then DIRECTION_SOUTH else dir)
      in if pos_x oldPos < pos_x newPos then DIRECTION_EAST
         else if pos_x oldPos > pos_x newPos then DIRECTION_WEST else d1)"

definition moveCreature :: "Surroundings \<Rightarrow> addr \<Rightarrow> Position \<Rightarrow> bool \<Rightarrow> World \<Rightarrow> ((addr \<times> move_message) set \<times> World) option" where
  "moveCreature e c newPos forceTeleport w =
     (let oldPos = place_of w c in
      case (tile_at (board w) oldPos, tile_at (board w) newPos) of
        (Some oldTile, Some newTile) \<Rightarrow>
          let teleport = (forceTeleport \<or> ground newTile = None \<or> \<not> areInRange3 1 1 0 oldPos newPos);
              (list1, w1) = getSpectators w {} oldPos True False 0 0 0 0;
              (list, w2) = getSpectators w1 list1 newPos True False 0 0 0 0;
              oldStackPos = (\<lambda>p. if canSeeCreature e p c then getClientIndexOfCreature e oldTile p c else -1);
              w3 = leave_tile e c w2;
              leaf = getQTNode w3 oldPos; new_leaf = getQTNode w3 newPos
          in (case (if leaf \<noteq> new_leaf then (case node_remove c leaf w3 of None \<Rightarrow> None | Some w4 \<Rightarrow> node_add c new_leaf w4)
                    else Some w3) of
                None \<Rightarrow> None
              | Some w5 \<Rightarrow>
                  let w6 = enter_tile (tile_addThing e (ACreature c)) c newPos w5;
                      w7 = (if teleport then w6 else w6\<lparr>facing := (facing w6)(c := turned oldPos newPos (facing w6 c))\<rparr>);
                      told = {p \<in> list. is_player w p \<and> oldStackPos p \<noteq> -1}
                  in Some
                       ((\<lambda>p. (p, SendCreatureMove c newPos
                          (case tile_at (board w7) newPos of Some t \<Rightarrow> getStackposOfCreature e t p c | None \<Rightarrow> -1)
                          oldPos (oldStackPos p) teleport)) ` told, w7))
      | _ \<Rightarrow> None)"


section \<open>What the leaves list\<close>

text \<open>\<open>P\<close> says where each creature is that the leaves should list.\<close>

definition lists_show :: "'t Map \<Rightarrow> (addr \<Rightarrow> bool) \<Rightarrow> (addr \<Rightarrow> Position option) \<Rightarrow> bool" where
  "lists_show m isp P =
     (\<forall>x y l. leaf_of m x y = Some l \<longrightarrow>
        distinct (creature_list (leaves m l)) \<and> distinct (player_list (leaves m l)) \<and>
        set (creature_list (leaves m l)) = {c. \<exists>p. P c = Some p \<and> in_block p x y} \<and>
        set (player_list (leaves m l)) = {c. isp c \<and> (\<exists>p. P c = Some p \<and> in_block p x y)})"

lemma lists_showD:
  assumes "lists_show m isp P" "leaf_of m x y = Some l"
  shows "distinct (creature_list (leaves m l))" "distinct (player_list (leaves m l))"
    "set (creature_list (leaves m l)) = {c. \<exists>p. P c = Some p \<and> in_block p x y}"
    "set (player_list (leaves m l)) = {c. isp c \<and> (\<exists>p. P c = Some p \<and> in_block p x y)}"
  using assms unfolding lists_show_def by blast+

definition whereabouts :: "World \<Rightarrow> addr \<Rightarrow> Position option" where
  "whereabouts w c = (if stands w c then Some (place_of w c) else None)"

lemma leaves_ok_lists: "leaves_ok w \<longleftrightarrow> lists_show (board w) (is_player w) (whereabouts w)"
proof -
  have eq: "{c. stands w c \<and> in_block (place_of w c) x y} = {c. \<exists>p. whereabouts w c = Some p \<and> in_block p x y}"
    "{c. stands w c \<and> is_player w c \<and> in_block (place_of w c) x y} =
      {c. is_player w c \<and> (\<exists>p. whereabouts w c = Some p \<and> in_block p x y)}" for x y
    by (auto simp: whereabouts_def)
  show ?thesis
    unfolding leaves_ok_def lists_show_def eq ..
qed

lemma lists_show_frame:
  assumes "leaf_of m' = leaf_of m" "\<And>l. creature_list (leaves m' l) = creature_list (leaves m l)"
    "\<And>l. player_list (leaves m' l) = player_list (leaves m l)"
  shows "lists_show m' isp P = lists_show m isp P"
  unfolding lists_show_def assms ..

lemma same_leaf_block:
  assumes "map_ok m" "leaf_of m (ucast (pos_x p)) (ucast (pos_y p)) = Some l" "leaf_of m x y = Some l"
  shows "in_block p x y"
  using map_okD(4) [OF assms(1,3,2)] by (simp add: in_block_def)

lemma in_block_leaf:
  assumes "map_ok m" "in_block p x y"
  shows "leaf_of m x y = leaf_of m (ucast (pos_x p)) (ucast (pos_y p))"
  using assms by (intro leaf_of_cong map_ok_depth) (auto simp: in_block_def)

lemma leaf_add_lists:
  "creature_list (leaf_addCreature isp c f) = creature_list f @ [c]"
  "player_list (leaf_addCreature isp c f) = player_list f @ (if isp c then [c] else [])"
  "leafE (leaf_addCreature isp c f) = leafE f" "leafS (leaf_addCreature isp c f) = leafS f"
  "floors (leaf_addCreature isp c f) = floors f"
  by (simp_all add: leaf_addCreature_def Let_def)

lemma node_add_lists:
  assumes ok: "map_ok m" and L: "lists_show m isp P" and c: "P c = None"
    and l: "leaf_of m (ucast (pos_x p)) (ucast (pos_y p)) = Some l"
  shows "lists_show (upd_leaf l (leaf_addCreature isp c) m) isp (P(c \<mapsto> p))"
  unfolding lists_show_def leaf_of_upd
proof (intro allI impI)
  fix x y k assume k: "leaf_of m x y = Some k"
  note old = lists_showD [OF L k]
  have free: "c \<notin> set (creature_list (leaves m k))" "c \<notin> set (player_list (leaves m k))"
    unfolding old using c by auto
  show "distinct (creature_list (leaves (upd_leaf l (leaf_addCreature isp c) m) k)) \<and>
       distinct (player_list (leaves (upd_leaf l (leaf_addCreature isp c) m) k)) \<and>
       set (creature_list (leaves (upd_leaf l (leaf_addCreature isp c) m) k)) =
         {d. \<exists>q. (P(c \<mapsto> p)) d = Some q \<and> in_block q x y} \<and>
       set (player_list (leaves (upd_leaf l (leaf_addCreature isp c) m) k)) =
         {d. isp d \<and> (\<exists>q. (P(c \<mapsto> p)) d = Some q \<and> in_block q x y)}"
  proof (cases "k = l")
    case True
    have here: "in_block p x y"
      using same_leaf_block [OF ok l] k True by blast
    show ?thesis
      using old(1,2) free here unfolding True leaves_upd
      by (auto simp: leaf_add_lists old(3,4) [unfolded True] c)
  next
    case False
    have there: "\<not> in_block p x y"
      using in_block_leaf [OF ok, of p x y] k l False by auto
    show ?thesis
      using old(1,2) False there c unfolding leaves_upd by (auto simp: old(3,4))
  qed
qed

lemma node_remove_lists:
  assumes ok: "map_ok m" and L: "lists_show m isp P" and c: "P c = Some p"
    and l: "leaf_of m (ucast (pos_x p)) (ucast (pos_y p)) = Some l"
  shows "\<exists>f. leaf_removeCreature isp c (leaves m l) = Some f \<and> lists_show (upd_leaf l (\<lambda>_. f) m) isp (P(c := None)) \<and>
    floors f = floors (leaves m l) \<and> leafE f = leafE (leaves m l) \<and> leafS f = leafS (leaves m l)"
proof -
  note here = lists_showD [OF L l]
  have p: "in_block p (ucast (pos_x p)) (ucast (pos_y p))"
    by (simp add: in_block_def)
  have in1: "c \<in> set (creature_list (leaves m l))" and in2: "isp c \<Longrightarrow> c \<in> set (player_list (leaves m l))"
    unfolding here using c p by auto
  obtain cs where cs: "swap_out c (creature_list (leaves m l)) = Some cs" "distinct cs"
      "set cs = set (creature_list (leaves m l)) - {c}"
    using swap_out_distinct [OF here(1) in1] by blast
  obtain ps where ps: "isp c \<Longrightarrow> swap_out c (player_list (leaves m l)) = Some ps" "\<not> isp c \<Longrightarrow> ps = player_list (leaves m l)"
      "distinct ps" "set ps = set (player_list (leaves m l)) - {c}"
  proof (cases "isp c")
    case True
    then show ?thesis
      using that swap_out_distinct [OF here(2) in2 [OF True]] by blast
  next
    case False
    then have "c \<notin> set (player_list (leaves m l))"
      unfolding here by simp
    then show ?thesis
      using that [of "player_list (leaves m l)"] False here(2) by simp
  qed
  define f where "f = (leaves m l)\<lparr>creature_list := cs, player_list := ps\<rparr>"
  have "leaf_removeCreature isp c (leaves m l) = Some f"
    using ps(1,2) by (cases "isp c") (simp_all add: leaf_removeCreature_def cs f_def)
  moreover have "lists_show (upd_leaf l (\<lambda>_. f) m) isp (P(c := None))"
    unfolding lists_show_def leaf_of_upd
  proof (intro allI impI)
    fix x y k assume k: "leaf_of m x y = Some k"
    note old = lists_showD [OF L k]
    show "distinct (creature_list (leaves (upd_leaf l (\<lambda>_. f) m) k)) \<and>
         distinct (player_list (leaves (upd_leaf l (\<lambda>_. f) m) k)) \<and>
         set (creature_list (leaves (upd_leaf l (\<lambda>_. f) m) k)) = {d. \<exists>q. (P(c := None)) d = Some q \<and> in_block q x y} \<and>
         set (player_list (leaves (upd_leaf l (\<lambda>_. f) m) k)) = {d. isp d \<and> (\<exists>q. (P(c := None)) d = Some q \<and> in_block q x y)}"
    proof (cases "k = l")
      case True
      show ?thesis
        using cs(2,3) ps(3,4) old(3,4) unfolding leaves_upd True by (auto simp: f_def)
    next
      case False
      have there: "\<not> in_block p x y"
        using in_block_leaf [OF ok, of p x y] k l False by auto
      show ?thesis
        using old(1,2) False there c unfolding leaves_upd by (auto simp: old(3,4))
    qed
  qed
  ultimately show ?thesis
    by (auto simp: f_def)
qed

lemma lists_show_same_block:
  assumes "lists_show m isp P" "P c = Some p"
    and same: "blk (ucast (pos_x p)) = blk (ucast (pos_x q))" "blk (ucast (pos_y p)) = blk (ucast (pos_y q))"
  shows "lists_show m isp (P(c \<mapsto> q))"
proof -
  have eq: "{d. \<exists>r. (P(c \<mapsto> q)) d = Some r \<and> in_block r x y} = {d. \<exists>r. P d = Some r \<and> in_block r x y}"
      "{d. isp d \<and> (\<exists>r. (P(c \<mapsto> q)) d = Some r \<and> in_block r x y)} = {d. isp d \<and> (\<exists>r. P d = Some r \<and> in_block r x y)}" for x y
    using assms(2) same by (auto simp: in_block_def)
  show ?thesis
    using assms(1) unfolding lists_show_def eq .
qed


section \<open>Who is on which tile\<close>

definition tiles_ok :: "World \<Rightarrow> bool" where
  "tiles_ok w =
     (\<forall>p t. tile_at (board w) p = Some t \<longrightarrow>
        distinct (tile_creatures t) \<and> (\<forall>c\<in>set (tile_creatures t). place_of w c = p))"

definition world_ok :: "bool \<Rightarrow> World \<Rightarrow> bool" where
  "world_ok mixed w = (map_ok (board w) \<and> tiles_ok w \<and> leaves_ok w \<and> caches_ok mixed w)"

lemma tiles_okD:
  assumes "tiles_ok w" "tile_at (board w) p = Some t"
  shows "distinct (tile_creatures t)" "c \<in> set (tile_creatures t) \<Longrightarrow> place_of w c = p"
    "c \<in> set (tile_creatures t) \<Longrightarrow> stands w c"
proof -
  show "distinct (tile_creatures t)" and at: "c \<in> set (tile_creatures t) \<Longrightarrow> place_of w c = p"
    using assms unfolding tiles_ok_def by blast+
  show "stands w c" if "c \<in> set (tile_creatures t)"
    using at [OF that] assms(2) that by (simp add: stands_def)
qed

lemma caches_ok_cleared: "spectatorCache w = (\<lambda>_. None) \<Longrightarrow> playersSpectatorCache w = (\<lambda>_. None) \<Longrightarrow> caches_ok mixed w"
  by (simp add: caches_ok_def)

lemma clear_simps [simp]:
  "board (clearSpectatorCache w) = board w" "place_of (clearSpectatorCache w) = place_of w"
  "is_player (clearSpectatorCache w) = is_player w" "facing (clearSpectatorCache w) = facing w"
  "spectatorCache (clearSpectatorCache w) = (\<lambda>_. None)" "playersSpectatorCache (clearSpectatorCache w) = (\<lambda>_. None)"
  by (simp_all add: clearSpectatorCache_def)

lemma tile_at_lists:
  assumes "floors (g (leaves m l)) = floors (leaves m l)"
  shows "tile_at (upd_leaf l g m) = tile_at m"
proof (rule ext)
  fix p
  have "tile_in (leaves (upd_leaf l g m) k) i j z = tile_in (leaves m k) i j z" for k i j z
    using assms by (simp add: leaves_upd tile_in_def)
  then show "tile_at (upd_leaf l g m) p = tile_at m p"
    by (simp add: tile_at_def getTile_tile_in split: option.split)
qed

lemma enter_tile_world:
  assumes ok: "map_ok (board w)" and tiles: "tiles_ok w" and t: "tile_at (board w) p = Some t"
    and add: "\<And>t. tile_creatures (add t) = c # tile_creatures t" and away: "\<not> stands w c"
  defines "w' \<equiv> enter_tile add c p w"
  shows "map_ok (board w')" "tiles_ok w'" "whereabouts w' = (whereabouts w)(c \<mapsto> p)" "caches_ok mixed w'"
    "is_player w' = is_player w" "tile_at (board w') p = Some (add t)"
    "leaf_of (board w') = leaf_of (board w)"
    "lists_show (board w') isp P = lists_show (board w) isp P"
proof -
  have b: "board w' = change_tile add p (board w)" "place_of w' = (place_of w)(c := p)"
    by (simp_all add: w'_def enter_tile_def)
  show "map_ok (board w')" "leaf_of (board w') = leaf_of (board w)"
    using ok by (simp_all add: b change_tile_frame)
  show "lists_show (board w') isp P = lists_show (board w) isp P"
    unfolding b by (rule lists_show_frame) (simp_all add: change_tile_frame)
  have at: "tile_at (board w') q = (if q = p then Some (add t) else tile_at (board w) q)" for q
    using tile_at_change [OF ok, of add p q] t by (simp add: b)
  then show "tile_at (board w') p = Some (add t)"
    by simp
  have free: "c \<notin> set (tile_creatures s)" if "tile_at (board w) q = Some s" for q s
    using tiles_okD(3) [OF tiles that] away by blast
  show "tiles_ok w'"
    unfolding tiles_ok_def
  proof (intro allI impI conjI ballI)
    fix q s assume s: "tile_at (board w') q = Some s"
    show "distinct (tile_creatures s)"
      using s free [OF t] tiles_okD(1) [OF tiles] t by (auto simp: at add split: if_splits)
    fix d assume d: "d \<in> set (tile_creatures s)"
    show "place_of w' d = q"
    proof (cases "q = p")
      case True
      then have "s = add t"
        using s at by simp
      then show ?thesis
        using d tiles_okD(2) [OF tiles t] True by (auto simp: add b)
    next
      case False
      then have old: "tile_at (board w) q = Some s"
        using s at by simp
      then show ?thesis
        using d free [OF old] tiles_okD(2) [OF tiles old] by (auto simp: b)
    qed
  qed
  have st: "stands w' d \<longleftrightarrow> d = c \<or> stands w d" for d
  proof (cases "d = c")
    case True
    then show ?thesis
      by (auto simp: stands_def b(2) at add)
  next
    case False
    then show ?thesis
      using t by (auto simp: stands_def b(2) at add)
  qed
  show "whereabouts w' = (whereabouts w)(c \<mapsto> p)"
    by (rule ext) (auto simp: whereabouts_def st b)
  show "caches_ok mixed w'" "is_player w' = is_player w"
    by (simp_all add: w'_def enter_tile_def caches_ok_def)
qed

lemma leave_tile_world:
  fixes e :: Surroundings
  assumes ok: "map_ok (board w)" and tiles: "tiles_ok w" and st: "stands w c"
  defines "w' \<equiv> leave_tile e c w"
  shows "map_ok (board w')" "tiles_ok w'" "whereabouts w' = (whereabouts w)(c := None)" "caches_ok mixed w'"
    "is_player w' = is_player w" "place_of w' = place_of w" "leaf_of (board w') = leaf_of (board w)"
    "lists_show (board w') isp P = lists_show (board w) isp P" "\<not> stands w' c"
    "tile_at (board w') p = None \<longleftrightarrow> tile_at (board w) p = None"
proof -
  define q where "q = place_of w c"
  obtain t where t: "tile_at (board w) q = Some t" and c: "c \<in> set (tile_creatures t)"
    using st by (auto simp: stands_def q_def)
  define f where "f = tile_removeThing e (ACreature c) 0"
  have f: "tile_creatures (f t) = remove1 c (tile_creatures t)" for t
    by (simp add: f_def tile_removeThing_def)
  have b: "w' = (clearSpectatorCache w)\<lparr>board := change_tile f q (board w)\<rparr>"
    using t c by (simp add: w'_def leave_tile_def Let_def q_def f_def)
  show "map_ok (board w')" "leaf_of (board w') = leaf_of (board w)" "is_player w' = is_player w" "place_of w' = place_of w"
    using ok by (simp_all add: b change_tile_frame)
  show "lists_show (board w') isp P = lists_show (board w) isp P"
    by (rule lists_show_frame) (simp_all add: b change_tile_frame)
  have at: "tile_at (board w') r = (if r = q then Some (f t) else tile_at (board w) r)" for r
    using tile_at_change [OF ok, of f q r] t by (simp add: b)
  then show "tile_at (board w') p = None \<longleftrightarrow> tile_at (board w) p = None"
    using t by simp
  have dist: "distinct (tile_creatures t)"
    using tiles_okD(1) [OF tiles t] .
  show "tiles_ok w'"
    unfolding tiles_ok_def
  proof (intro allI impI conjI ballI)
    fix r s assume s: "tile_at (board w') r = Some s"
    show "distinct (tile_creatures s)"
      using s dist tiles_okD(1) [OF tiles] by (auto simp: at f split: if_splits)
    fix d assume d: "d \<in> set (tile_creatures s)"
    show "place_of w' d = r"
      using s d tiles_okD(2) [OF tiles t] tiles_okD(2) [OF tiles] \<open>place_of w' = place_of w\<close>
      by (auto simp: at f dest: notin_set_remove1 split: if_splits) (meson notin_set_remove1)+
  qed
  have stands': "stands w' d \<longleftrightarrow> d \<noteq> c \<and> stands w d" for d
  proof (cases "place_of w d = q")
    case True
    then show ?thesis
      using dist t by (auto simp: stands_def \<open>place_of w' = place_of w\<close> at f)
  next
    case False
    then show ?thesis
      by (auto simp: stands_def \<open>place_of w' = place_of w\<close> at q_def)
  qed
  then show "\<not> stands w' c"
    by simp
  show "whereabouts w' = (whereabouts w)(c := None)"
    by (rule ext) (auto simp: whereabouts_def stands' \<open>place_of w' = place_of w\<close>)
  show "caches_ok mixed w'"
    by (rule caches_ok_cleared) (simp_all add: b)
qed


section \<open>Every operation keeps the world well formed\<close>

lemma upd_one_leaf_ok:
  assumes "map_ok m" "leafE (g (leaves m l)) = leafE (leaves m l)" "leafS (g (leaves m l)) = leafS (leaves m l)"
  shows "map_ok (upd_leaf l g m)"
proof -
  define g' where "g' f = (if f = leaves m l then g f else f)" for f
  have "map_ok (upd_leaf l g' m)"
    using assms by (intro upd_leaf_ok) (auto simp: g'_def)
  then show ?thesis
    by (simp add: upd_leaf_def g'_def)
qed

lemma lists_only:
  assumes ok: "map_ok (board w)" and tiles: "tiles_ok w"
    and g: "floors (g (leaves (board w) l)) = floors (leaves (board w) l)"
      "leafE (g (leaves (board w) l)) = leafE (leaves (board w) l)" "leafS (g (leaves (board w) l)) = leafS (leaves (board w) l)"
  defines "w' \<equiv> w\<lparr>board := upd_leaf l g (board w)\<rparr>"
  shows "map_ok (board w')" "tiles_ok w'" "stands w' = stands w" "whereabouts w' = whereabouts w"
    "tile_at (board w') = tile_at (board w)"
proof -
  show at: "tile_at (board w') = tile_at (board w)"
    using tile_at_lists [of g "board w" l] g(1) by (simp add: w'_def)
  show "map_ok (board w')"
    using upd_one_leaf_ok [of "board w" g l] ok g(2,3) by (simp add: w'_def)
  show "tiles_ok w'"
    using tiles unfolding tiles_ok_def at by (simp add: w'_def)
  show st: "stands w' = stands w"
    by (rule ext) (simp add: stands_def at, simp add: w'_def)
  show "whereabouts w' = whereabouts w"
    by (rule ext) (simp add: whereabouts_def st, simp add: w'_def)
qed

lemma tile_leaf: "tile_at (board w) p = Some t \<Longrightarrow> \<exists>l. getQTNode w p = Some l"
  using tile_at_leaf [of "board w" p t] by (simp add: getQTNode_def)

lemma stands_tile: "stands w c \<Longrightarrow> \<exists>t. tile_at (board w) (place_of w c) = Some t"
  by (auto simp: stands_def)

lemma whereabouts_place: "stands w c \<Longrightarrow> whereabouts w c = Some (place_of w c)"
  by (simp add: whereabouts_def)

lemma whereabouts_None: "whereabouts w c = None \<longleftrightarrow> \<not> stands w c"
  by (simp add: whereabouts_def)

lemma node_remove_world:
  assumes ok: "map_ok (board w)" and tiles: "tiles_ok w" and L: "lists_show (board w) (is_player w) P"
    and c: "P c = Some p" and n: "getQTNode w p = Some l"
  shows "\<exists>w'. node_remove c (Some l) w = Some w' \<and> map_ok (board w') \<and> tiles_ok w' \<and> stands w' = stands w \<and>
    whereabouts w' = whereabouts w \<and> tile_at (board w') = tile_at (board w) \<and> place_of w' = place_of w \<and>
    is_player w' = is_player w \<and> facing w' = facing w \<and> leaf_of (board w') = leaf_of (board w) \<and>
    lists_show (board w') (is_player w') (P(c := None)) \<and>
    spectatorCache w' = spectatorCache w \<and> playersSpectatorCache w' = playersSpectatorCache w"
proof -
  obtain f where f: "leaf_removeCreature (is_player w) c (leaves (board w) l) = Some f"
      "lists_show (upd_leaf l (\<lambda>_. f) (board w)) (is_player w) (P(c := None))"
      "floors f = floors (leaves (board w) l)" "leafE f = leafE (leaves (board w) l)" "leafS f = leafS (leaves (board w) l)"
    using node_remove_lists [OF ok L c n [unfolded getQTNode_def]] by blast
  have "node_remove c (Some l) w = Some (w\<lparr>board := upd_leaf l (\<lambda>_. f) (board w)\<rparr>)"
    by (simp add: node_remove_def f(1))
  then show ?thesis
    using lists_only [OF ok tiles, of "\<lambda>_. f" l] f by simp
qed

lemma node_add_world:
  assumes ok: "map_ok (board w)" and tiles: "tiles_ok w" and L: "lists_show (board w) (is_player w) P"
    and c: "P c = None" and n: "getQTNode w p = Some l"
  shows "\<exists>w'. node_add c (Some l) w = Some w' \<and> map_ok (board w') \<and> tiles_ok w' \<and> stands w' = stands w \<and>
    whereabouts w' = whereabouts w \<and> tile_at (board w') = tile_at (board w) \<and> place_of w' = place_of w \<and>
    is_player w' = is_player w \<and> facing w' = facing w \<and> leaf_of (board w') = leaf_of (board w) \<and>
    lists_show (board w') (is_player w') (P(c \<mapsto> p)) \<and>
    spectatorCache w' = spectatorCache w \<and> playersSpectatorCache w' = playersSpectatorCache w"
  using node_add_lists [OF ok L c n [unfolded getQTNode_def]]
    lists_only [OF ok tiles, of "leaf_addCreature (is_player w) c" l]
  by (simp add: node_add_def leaf_add_lists)

lemma world_okD:
  assumes "world_ok mixed w"
  shows "map_ok (board w)" "tiles_ok w" "leaves_ok w" "caches_ok mixed w" "lists_show (board w) (is_player w) (whereabouts w)"
  using assms by (simp_all add: world_ok_def leaves_ok_lists)

lemma world_okI:
  "map_ok (board w) \<Longrightarrow> tiles_ok w \<Longrightarrow> lists_show (board w) (is_player w) (whereabouts w) \<Longrightarrow> caches_ok mixed w \<Longrightarrow> world_ok mixed w"
  by (simp add: world_ok_def leaves_ok_lists)

lemma tile_removeCreature_ok:
  assumes ok: "world_ok mixed w" and st: "stands w c"
  shows "\<exists>w'. tile_removeCreature e c w = Some w' \<and> world_ok mixed w' \<and> whereabouts w' = (whereabouts w)(c := None)"
proof -
  obtain t where t: "tile_at (board w) (place_of w c) = Some t"
    using stands_tile [OF st] by blast
  then obtain l where l: "getQTNode w (place_of w c) = Some l"
    using tile_leaf by blast
  obtain w1 where w1: "node_remove c (Some l) w = Some w1" "map_ok (board w1)" "tiles_ok w1" "stands w1 = stands w"
      "whereabouts w1 = whereabouts w" "lists_show (board w1) (is_player w1) ((whereabouts w)(c := None))"
    using node_remove_world [OF world_okD(1,2,5) [OF ok] whereabouts_place [OF st] l] by blast
  have st1: "stands w1 c"
    using st w1(4) by simp
  note left = leave_tile_world [OF w1(2,3) st1, where e = e]
  have "world_ok mixed (leave_tile e c w1)"
    by (rule world_okI) (use left w1(5,6) in simp_all)
  then show ?thesis
    using left(3) w1(1,5) by (simp add: tile_removeCreature_def l)
qed

lemma tile_creatures_add:
  "tile_creatures (tile_addThing e (ACreature c) t) = c # tile_creatures t"
  "tile_creatures (tile_internalAddThing e (ACreature c) t) = c # tile_creatures t"
  by (simp_all add: tile_addThing_def tile_internalAddThing_def Let_def)

lemma try_places_tile:
  "try_places e b m centerPos c ext pz rel = Some (p, t) \<Longrightarrow> tile_at m p = Some t"
  by (induction e b m centerPos c ext pz rel rule: try_places.induct)
    (auto simp: Let_def split: option.splits if_splits)

lemma find_place_tile:
  "find_place e b m rel centerPos c ext force = Some (p, t) \<Longrightarrow> tile_at m p = Some t"
  by (auto simp: find_place_def Let_def dest: try_places_tile split: option.splits if_splits)

lemma queryDestination_tile:
  assumes "tile_at m p = Some t" "tile_queryDestination (getTile m) p t fs = (dest, fs', it)"
  shows "\<exists>d. tile_at m dest = Some d"
  using assms by (auto simp: tile_queryDestination_def Let_def tile_at_def split: option.splits if_splits)

lemma placeCreature_ok:
  assumes ok: "world_ok mixed w" and away: "\<not> stands w c"
  shows "\<exists>r w'. placeCreature e b rel centerPos c ext force w = Some (r, w') \<and> world_ok mixed w' \<and>
    (case find_place e b (board w) rel centerPos c ext force of
       None \<Rightarrow> \<not> r \<and> w' = w
     | Some (p, t) \<Rightarrow> r \<and> whereabouts w' = (whereabouts w)(c \<mapsto> fst (tile_queryDestination (getTile (board w)) p t 0)))"
proof (cases "find_place e b (board w) rel centerPos c ext force")
  case None
  then show ?thesis
    using ok by (auto simp: placeCreature_def)
next
  case (Some pt)
  obtain p t where pt: "pt = (p, t)"
    by (cases pt)
  note at = find_place_tile [OF Some [unfolded pt]]
  obtain dest fs it where q: "tile_queryDestination (getTile (board w)) p t 0 = (dest, fs, it)"
    using prod_cases3 by blast
  obtain d where d: "tile_at (board w) dest = Some d"
    using queryDestination_tile [OF at q] by blast
  define add where "add = tile_internalAddThing e (ACreature c)"
  note w1 = enter_tile_world [OF world_okD(1,2) [OF ok] d _ away, of add, OF tile_creatures_add(2) [of e c, folded add_def]]
  define w1' where "w1' = enter_tile add c dest w"
  obtain l where l: "getQTNode w dest = Some l"
    using tile_leaf [OF d] by blast
  have l1: "getQTNode w1' dest = Some l"
    using l w1(7) by (simp add: getQTNode_def w1'_def)
  have L1: "lists_show (board w1') (is_player w1') (whereabouts w)"
    using w1(5) w1(8) world_okD(5) [OF ok] by (simp add: w1'_def)
  have c: "whereabouts w c = None"
    using away by (simp add: whereabouts_None)
  obtain w2 where w2: "node_add c (Some l) w1' = Some w2" "map_ok (board w2)" "tiles_ok w2"
      "whereabouts w2 = whereabouts w1'" "lists_show (board w2) (is_player w2) ((whereabouts w)(c \<mapsto> dest))"
      "spectatorCache w2 = spectatorCache w1'" "playersSpectatorCache w2 = playersSpectatorCache w1'"
    using node_add_world [OF w1(1,2) [folded w1'_def] L1 c l1] by blast
  have wh: "whereabouts w2 = (whereabouts w)(c \<mapsto> dest)"
    using w2(4) w1(3) by (simp add: w1'_def)
  have "caches_ok mixed w2"
    by (rule caches_ok_cleared) (simp_all add: w2 w1'_def enter_tile_def)
  then have "world_ok mixed w2"
    using w2(2,3,5) wh by (intro world_okI) simp_all
  moreover have "placeCreature e b rel centerPos c ext force w = Some (True, w2)"
    using w2(1) by (simp add: placeCreature_def Some pt q add_def [symmetric] w1'_def [symmetric] l)
  ultimately show ?thesis
    using wh unfolding Some pt option.case prod.case q fst_conv by blast
qed

section \<open>A move\<close>

lemma same_people:
  assumes "board w' = board w" "place_of w' = place_of w" "is_player w' = is_player w"
  shows "stands w' = stands w" "whereabouts w' = whereabouts w" "tiles_ok w' = tiles_ok w" "leaves_ok w' = leaves_ok w"
    "spectators w' = spectators w" "cached_ok mixed w' = cached_ok mixed w"
proof -
  show st: "stands w' = stands w"
    by (rule ext) (simp add: stands_def assms)
  show "whereabouts w' = whereabouts w"
    by (rule ext) (simp add: whereabouts_def st assms)
  show "tiles_ok w' = tiles_ok w"
    by (simp add: tiles_ok_def assms)
  show "leaves_ok w' = leaves_ok w"
    by (simp add: leaves_ok_def st assms)
  show sp: "spectators w' = spectators w"
    by (intro ext) (simp add: spectators_def st assms)
  show "cached_ok mixed w' = cached_ok mixed w"
    by (intro ext) (simp add: cached_ok_def sp st)
qed

lemma tile_at_floor: "tile_at m p = Some t \<Longrightarrow> unat (pos_z p) < MAP_MAX_LAYERS"
  by (simp add: tile_at_def getTile_def split: if_splits)

lemma same_leaf_same_block:
  assumes ok: "map_ok (board w)" and old: "getQTNode w p = Some l" and new: "getQTNode w q = Some l"
  shows "blk (ucast (pos_x p)) = blk (ucast (pos_x q)) \<and> blk (ucast (pos_y p)) = blk (ucast (pos_y q))"
  using map_okD(4) [OF ok new [unfolded getQTNode_def] old [unfolded getQTNode_def]] .

text \<open>The change of node: whatever the two leaves are, the creature is then listed where it goes.\<close>

lemma change_node:
  assumes ok: "map_ok (board w)" and tiles: "tiles_ok w" and L: "lists_show (board w) (is_player w) P"
    and c: "P c = Some p" and old: "getQTNode w p = Some l" and new: "getQTNode w q = Some k"
  shows "\<exists>w'. (if Some l \<noteq> Some k then (case node_remove c (Some l) w of None \<Rightarrow> None | Some w4 \<Rightarrow> node_add c (Some k) w4) else Some w) = Some w' \<and>
    map_ok (board w') \<and> tiles_ok w' \<and> stands w' = stands w \<and> whereabouts w' = whereabouts w \<and>
    tile_at (board w') = tile_at (board w) \<and> is_player w' = is_player w \<and> facing w' = facing w \<and>
    lists_show (board w') (is_player w') (P(c \<mapsto> q))"
proof (cases "l = k")
  case True
  then have "lists_show (board w) (is_player w) (P(c \<mapsto> q))"
    using lists_show_same_block [OF L c] same_leaf_same_block [OF ok old] new by blast
  then show ?thesis
    using True ok tiles by simp
next
  case False
  obtain w4 where w4: "node_remove c (Some l) w = Some w4" "map_ok (board w4)" "tiles_ok w4" "stands w4 = stands w"
      "whereabouts w4 = whereabouts w" "tile_at (board w4) = tile_at (board w)" "is_player w4 = is_player w" "facing w4 = facing w"
      "leaf_of (board w4) = leaf_of (board w)" "lists_show (board w4) (is_player w4) (P(c := None))"
    using node_remove_world [OF ok tiles L c old] by blast
  have "getQTNode w4 q = Some k"
    using new w4(9) by (simp add: getQTNode_def)
  then obtain w5 where w5: "node_add c (Some k) w4 = Some w5" "map_ok (board w5)" "tiles_ok w5" "stands w5 = stands w4"
      "whereabouts w5 = whereabouts w4" "tile_at (board w5) = tile_at (board w4)" "is_player w5 = is_player w4" "facing w5 = facing w4"
      "lists_show (board w5) (is_player w5) ((P(c := None))(c \<mapsto> q))"
    using node_add_world [OF w4(2,3,10), of c q k] by auto
  then show ?thesis
    using False w4 by simp
qed

text \<open>Which players could be told of a move: they are on the map, see the creature and have it in their stack.
  Those whom it concerns see its old or its new place too.\<close>

definition could_see :: "Surroundings \<Rightarrow> World \<Rightarrow> addr \<Rightarrow> addr \<Rightarrow> bool" where
  "could_see e w c p \<longleftrightarrow>
     is_player w p \<and> stands w p \<and> canSeeCreature e p c \<and>
     (case tile_at (board w) (place_of w c) of None \<Rightarrow> False | Some t \<Rightarrow> getClientIndexOfCreature e t p c \<noteq> -1)"

definition sees_move :: "Surroundings \<Rightarrow> World \<Rightarrow> addr \<Rightarrow> Position \<Rightarrow> addr \<Rightarrow> bool" where
  "sees_move e w c newPos p \<longleftrightarrow>
     could_see e w c p \<and>
     (in_ranges (place_of w c) (usual_ranges (place_of w c)) (place_of w p) \<or> in_ranges newPos (usual_ranges newPos) (place_of w p))"

definition told_rightly :: "bool \<Rightarrow> Surroundings \<Rightarrow> World \<Rightarrow> addr \<Rightarrow> Position \<Rightarrow> addr set \<Rightarrow> bool" where
  "told_rightly mixed e w c newPos P =
     ({p. sees_move e w c newPos p} \<subseteq> P \<and> P \<subseteq> {p. could_see e w c p} \<and>
      (\<not> mixed \<longrightarrow> P = {p. sees_move e w c newPos p}))"

lemma moveCreature_ok:
  assumes ok: "world_ok mixed w" and st: "stands w c" and new: "tile_at (board w) newPos = Some newTile"
  shows "\<exists>msgs w'. moveCreature e c newPos forceTeleport w = Some (msgs, w') \<and> world_ok mixed w' \<and>
    whereabouts w' = (whereabouts w)(c \<mapsto> newPos) \<and> told_rightly mixed e w c newPos (fst ` msgs) \<and> is_player w' = is_player w"
proof -
  define oldPos where "oldPos = place_of w c"
  obtain oldTile where old: "tile_at (board w) oldPos = Some oldTile"
    using stands_tile [OF st] unfolding oldPos_def by blast
  obtain list1 w1 where g1: "getSpectators w {} oldPos True False 0 0 0 0 = (list1, w1)"
    by (cases "getSpectators w {} oldPos True False 0 0 0 0") auto
  note e1 = getSpectators_answers [OF world_okD(1,3,4) [OF ok] tile_at_floor [OF old] g1]
  note s1 = same_people [OF e1(3,4,5)]
  have ok1: "map_ok (board w1)" "leaves_ok w1" "caches_ok mixed w1"
    using world_okD [OF ok] s1 e1(2,3) by simp_all
  obtain list w2 where g2: "getSpectators w1 list1 newPos True False 0 0 0 0 = (list, w2)"
    by (cases "getSpectators w1 list1 newPos True False 0 0 0 0") auto
  note e2 = getSpectators_answers [OF ok1 tile_at_floor [OF new] g2]
  note s2 = same_people [OF e2(3,4,5)]
  have b2: "board w2 = board w" "place_of w2 = place_of w" "is_player w2 = is_player w" "facing w2 = facing w"
    using e1(3-6) e2(3-6) by simp_all
  have w2: "map_ok (board w2)" "tiles_ok w2" "stands w2 c" "whereabouts w2 = whereabouts w"
      "lists_show (board w2) (is_player w2) (whereabouts w)"
    using world_okD [OF ok] s1 s2 st b2 by simp_all
  define seeing where "seeing = spectators w oldPos (usual_ranges oldPos) False \<union> spectators w newPos (usual_ranges newPos) False"
  have list: "seeing \<subseteq> list \<and> list \<subseteq> {c. stands w c} \<and> (\<not> mixed \<longrightarrow> list = seeing)"
    using e1(1) e2(1) s1(5) s1(1) unfolding seeing_def answer_ok_def by auto
  define w3 where "w3 = leave_tile e c w2"
  note left = leave_tile_world [OF w2(1,2,3), where e = e, folded w3_def]
  obtain l where l: "getQTNode w3 oldPos = Some l"
    using tile_leaf [OF old] left(7) b2 by (auto simp: getQTNode_def)
  obtain k where k: "getQTNode w3 newPos = Some k"
    using tile_leaf [OF new] left(7) b2 by (auto simp: getQTNode_def)
  have L3: "lists_show (board w3) (is_player w3) (whereabouts w)"
    using left(5) left(8) w2(5) by simp
  have W: "whereabouts w c = Some oldPos"
    using whereabouts_place [OF st] by (simp add: oldPos_def)
  obtain w5 where w5:
    "(if Some l \<noteq> Some k then (case node_remove c (Some l) w3 of None \<Rightarrow> None | Some w4 \<Rightarrow> node_add c (Some k) w4) else Some w3) = Some w5"
    "map_ok (board w5)" "tiles_ok w5" "stands w5 = stands w3" "whereabouts w5 = whereabouts w3"
    "tile_at (board w5) = tile_at (board w3)" "is_player w5 = is_player w3" "facing w5 = facing w3"
    "lists_show (board w5) (is_player w5) ((whereabouts w)(c \<mapsto> newPos))"
    using change_node [OF left(1,2) L3 W l k] by blast
  obtain t5 where t5: "tile_at (board w5) newPos = Some t5"
    using left(10) [of newPos] new b2 w5(6) by auto
  have away: "\<not> stands w5 c"
    using left(9) w5(4) by simp
  define w6 where "w6 = enter_tile (tile_addThing e (ACreature c)) c newPos w5"
  note in6 = enter_tile_world [OF w5(2,3) t5 _ away, of "tile_addThing e (ACreature c)", OF tile_creatures_add(1), folded w6_def]
  have wh6: "whereabouts w6 = (whereabouts w)(c \<mapsto> newPos)"
    using in6(3) w5(5) left(3) w2(4) by simp
  have ok6: "world_ok mixed w6"
    using in6 w5(7,9) wh6 by (intro world_okI) simp_all
  define teleport where "teleport = (forceTeleport \<or> ground newTile = None \<or> \<not> areInRange3 1 1 0 oldPos newPos)"
  define w7 where "w7 = (if teleport then w6 else w6\<lparr>facing := (facing w6)(c := turned oldPos newPos (facing w6 c))\<rparr>)"
  have ok7: "world_ok mixed w7" and wh7: "whereabouts w7 = whereabouts w6" and pl7: "is_player w7 = is_player w6"
  proof -
    have same: "board w7 = board w6" "place_of w7 = place_of w6" "is_player w7 = is_player w6"
      "spectatorCache w7 = spectatorCache w6" "playersSpectatorCache w7 = playersSpectatorCache w6"
      by (simp_all add: w7_def)
    then show "world_ok mixed w7" "whereabouts w7 = whereabouts w6" "is_player w7 = is_player w6"
      using ok6 same_people [OF same(1,2,3)] unfolding world_ok_def caches_ok_def by simp_all
  qed
  define oldStackPos where "oldStackPos = (\<lambda>p. if canSeeCreature e p c then getClientIndexOfCreature e oldTile p c else -1)"
  define told where "told = {p \<in> list. is_player w p \<and> oldStackPos p \<noteq> -1}"
  define msgs where "msgs = (\<lambda>p. (p, SendCreatureMove c newPos
      (case tile_at (board w7) newPos of Some t \<Rightarrow> getStackposOfCreature e t p c | None \<Rightarrow> -1) oldPos (oldStackPos p) teleport)) ` told"
  have "moveCreature e c newPos forceTeleport w = Some (msgs, w7)"
    unfolding moveCreature_def Let_def oldPos_def [symmetric] old new g1 g2 prod.case option.case w3_def [symmetric] l k w5(1)
      w6_def [symmetric] teleport_def [symmetric] w7_def [symmetric]
    by (simp only: oldStackPos_def told_def msgs_def)
  moreover have "fst ` msgs = told"
    by (auto simp: msgs_def image_image)
  moreover have "told_rightly mixed e w c newPos told"
  proof -
    have "told = {p \<in> list. could_see e w c p}"
      using list unfolding told_def could_see_def oldPos_def [symmetric] old oldStackPos_def by (auto split: if_splits)
    moreover have "{p. sees_move e w c newPos p} = {p \<in> seeing. could_see e w c p}"
      unfolding seeing_def sees_move_def oldPos_def [symmetric] spectators_def by (auto simp: could_see_def)
    ultimately show ?thesis using list unfolding told_rightly_def by auto
  qed
  ultimately show ?thesis
    using ok7 wh7 wh6 pl7 in6(5) w5(7) left(5) b2(3) by auto
qed

end
