(* ===== verification/MapRun.thy ===== *)
theory MapRun
  imports MapLife TileView
begin

text \<open>
  All the runs of the map: tiles are set and changed, creatures come, move and go, and spectators are
  asked for, in any order.  After every run the scan and the caches tell of everybody who sees a place, and of
  nobody else as long as every query began with an empty list (the flag \<open>mixed\<close> of a run says whether one did
  not); no pointer of the map is null and no assertion fails.
\<close>

section \<open>Setting a tile\<close>

lemma addThing_item_creatures: "tile_creatures (tile_removeThing e (AnItem x) n t) = tile_creatures t"
  by (simp add: tile_removeThing_def)

lemma addThing_creatures: "tile_creatures (tile_addThing e (AnItem x) t) = tile_creatures t"
  by (simp add: tile_addThing_def Let_def replace_ground_def add_on_top_def put_on_top_def drop_splash_def drop_old_def
      add_down_def put_down_def addThing_item_creatures split: option.split)

lemma merge_tile_creatures: "tile_creatures (merge_tile e old new) = tile_creatures old"
proof -
  have "tile_creatures (fold (\<lambda>x. tile_addThing e (AnItem x)) xs t) = tile_creatures t" for xs t
    by (induction xs arbitrary: t) (simp_all add: addThing_creatures)
  then show ?thesis
    by (simp add: merge_tile_def Let_def addThing_creatures bring_objects_def split: option.split)
qed

lemma setTile_lists:
  assumes ok: "map_ok m" and L: "lists_show m isp P"
    and on: "\<And>c p. P c = Some p \<Longrightarrow> leaf_of m (ucast (pos_x p)) (ucast (pos_y p)) \<noteq> None"
  shows "lists_show (setTile merge x y z t m) isp P"
proof (cases "unat z \<ge> MAP_MAX_LAYERS")
  case True
  then show ?thesis
    using L by (simp add: setTile_def)
next
  case False
  obtain l m1 where c: "create x y m = (l, m1)"
    by (cases "create x y m") auto
  have frame: "lists_show (setTile merge x y z t m) isp P = lists_show m1 isp P"
    using False
    by (intro lists_show_frame) (auto simp: setTile_def c Let_def leaves_upd put_tile_leaf createFloor_def split: option.split)
  have "lists_show m1 isp P"
    unfolding lists_show_def
  proof (intro allI impI)
    fix u v k assume k: "leaf_of m1 u v = Some k"
    have k': "(if blk u = blk (ucast x) \<and> blk v = blk (ucast y) then Some l else leaf_of m u v) = Some k"
      using leaf_of_create [OF map_ok_depth [OF ok] c, of u v] k by metis
    have lists: "distinct (creature_list (leaves m1 k)) \<and> distinct (player_list (leaves m1 k)) \<and>
        set (creature_list (leaves m1 k)) = {c. \<exists>p. P c = Some p \<and> in_block p u v} \<and>
        set (player_list (leaves m1 k)) = {c. isp c \<and> (\<exists>p. P c = Some p \<and> in_block p u v)}"
      if "leaf_of m u v = Some k" "creature_list (leaves m1 k) = creature_list (leaves m k)"
        "player_list (leaves m1 k) = player_list (leaves m k)"
      using lists_showD [OF L that(1)] that(2,3) by simp
    show "distinct (creature_list (leaves m1 k)) \<and> distinct (player_list (leaves m1 k)) \<and>
        set (creature_list (leaves m1 k)) = {c. \<exists>p. P c = Some p \<and> in_block p u v} \<and>
        set (player_list (leaves m1 k)) = {c. isp c \<and> (\<exists>p. P c = Some p \<and> in_block p u v)}"
    proof (cases "leaf_of m (ucast x) (ucast y)")
      case (Some l0)
      then have l: "leaf_of m (ucast x) (ucast y) = Some l" "leaves m1 l = leaves m l"
        using create_content(4,5) [OF ok c] by auto
      have "leaf_of m u v = Some k"
        using k' l(1) leaf_of_cong [OF map_ok_depth [OF ok], of u "ucast x" v "ucast y"] by (auto split: if_splits)
      moreover have "creature_list (leaves m1 k) = creature_list (leaves m k)" "player_list (leaves m1 k) = player_list (leaves m k)"
        using create_content(2,3) [OF ok c, of k] l(2) by (cases "k = l"; simp)+
      ultimately show ?thesis
        by (rule lists)
    next
      case None
      show ?thesis
      proof (cases "blk u = blk (ucast x) \<and> blk v = blk (ucast y)")
        case True
        then have kl: "k = l"
          using k' by simp
        have nobody: "\<not> (P d = Some p \<and> in_block p u v)" for d p
        proof
          assume d: "P d = Some p \<and> in_block p u v"
          then have "leaf_of m (ucast (pos_x p)) (ucast (pos_y p)) = leaf_of m (ucast x) (ucast y)"
            using True unfolding in_block_def by (intro leaf_of_cong map_ok_depth ok) auto
          then show False
            using on d None by metis
        qed
        then show ?thesis
          using create_content(6) [OF ok c None] kl by simp
      next
        case False
        then have old: "leaf_of m u v = Some k"
          using k' by (simp only: if_False)
        have "k \<noteq> l"
          using map_okD(1) [OF ok old] create_content(4) [OF ok c] None by auto
        then show ?thesis
          using lists [OF old create_content(2,3) [OF ok c]] by blast
      qed
    qed
  qed
  then show ?thesis
    by (simp add: frame)
qed


section \<open>Runs\<close>

definition empty_world :: "(addr \<Rightarrow> bool) \<Rightarrow> World" where
  "empty_world isp =
     \<lparr>board = new_map, place_of = \<lambda>_. Position 0 0 0, is_player = isp, facing = \<lambda>_. DIRECTION_NORTH,
      spectatorCache = \<lambda>_. None, playersSpectatorCache = \<lambda>_. None\<rparr>"

text \<open>A tile that is set holds no creatures yet, as \<open>IOMap\<close> and the scripts make them; changes of items leave the
  creatures of a tile alone; a creature is placed only when it has no tile, and moved or removed only when
  it has one.  Who asks for spectators begins with an empty list, or, in runs that are \<open>mixed\<close>, with any list of creatures on the
  map, as \<open>Monster::convinceCreature\<close> does with what it found around itself (monster.cpp:1957).  Queries that
  are not cached, such as those of one floor, change nothing and need no step.\<close>

inductive reachable_world :: "Surroundings \<Rightarrow> (addr \<Rightarrow> Being) \<Rightarrow> (addr \<Rightarrow> bool) \<Rightarrow> bool \<Rightarrow> World \<Rightarrow> bool" for e b isp mixed where
  start: "reachable_world e b isp mixed (empty_world isp)"
| set_tile: "reachable_world e b isp mixed w \<Longrightarrow> tile_creatures t = [] \<Longrightarrow>
    reachable_world e b isp mixed (w\<lparr>board := map_setTile e (p, t) (board w)\<rparr>)"
| change_items: "reachable_world e b isp mixed w \<Longrightarrow> (\<And>t. tile_creatures (f t) = tile_creatures t) \<Longrightarrow>
    reachable_world e b isp mixed (w\<lparr>board := change_tile f p (board w)\<rparr>)"
| ask: "reachable_world e b isp mixed w \<Longrightarrow> found = {} \<or> mixed \<and> found \<subseteq> {c. stands w c} \<Longrightarrow>
    getSpectators w found p mf op x1 x2 y1 y2 = (list, w') \<Longrightarrow> reachable_world e b isp mixed w'"
| place: "reachable_world e b isp mixed w \<Longrightarrow> \<not> stands w c \<Longrightarrow> shuffled ext rel \<Longrightarrow>
    placeCreature e b rel centerPos c ext force w = Some (r, w') \<Longrightarrow> reachable_world e b isp mixed w'"
| move: "reachable_world e b isp mixed w \<Longrightarrow> stands w c \<Longrightarrow> tile_at (board w) newPos \<noteq> None \<Longrightarrow>
    moveCreature e c newPos force w = Some (msgs, w') \<Longrightarrow> reachable_world e b isp mixed w'"
| remove: "reachable_world e b isp mixed w \<Longrightarrow> stands w c \<Longrightarrow> tile_removeCreature e c w = Some w' \<Longrightarrow> reachable_world e b isp mixed w'"
| turn: "reachable_world e b isp mixed w \<Longrightarrow> reachable_world e b isp mixed (w\<lparr>facing := f\<rparr>)"
| forget: "reachable_world e b isp mixed w \<Longrightarrow> reachable_world e b isp mixed (clearSpectatorCache w)"

lemma new_world_ok: "world_ok mixed (empty_world isp)"
proof -
  have none: "tile_at (board (empty_world isp)) = (\<lambda>_. None)"
    by (simp add: empty_world_def tile_at_new)
  have "leaf_of (new_map :: Tile Map) x y = None" for x y
    by (simp add: leaf_of_def new_map_def new_node_def child_at_def)
  then have "lists_show (board (empty_world isp)) (is_player (empty_world isp)) (whereabouts (empty_world isp))"
    by (simp add: lists_show_def empty_world_def)
  moreover have "tiles_ok (empty_world isp)"
    by (simp add: tiles_ok_def none)
  ultimately show ?thesis
    by (intro world_okI caches_ok_cleared) (simp_all add: empty_world_def map_ok_new)
qed

lemma same_crowds:
  assumes ok: "world_ok mixed w" and m: "map_ok m"
    and at: "\<And>q t. tile_at m q = Some t \<Longrightarrow> tile_creatures t = (case tile_at (board w) q of None \<Rightarrow> [] | Some s \<Rightarrow> tile_creatures s)"
    and keep: "\<And>q s. tile_at (board w) q = Some s \<Longrightarrow> tile_at m q \<noteq> None"
    and L: "lists_show m (is_player w) (whereabouts w)"
  shows "world_ok mixed (w\<lparr>board := m\<rparr>)"
proof -
  define w' where "w' = w\<lparr>board := m\<rparr>"
  have tiles: "tiles_ok w'"
    unfolding tiles_ok_def
  proof (intro allI impI)
    fix q t assume t: "tile_at (board w') q = Some t"
    show "distinct (tile_creatures t) \<and> (\<forall>c\<in>set (tile_creatures t). place_of w' c = q)"
    proof (cases "tile_at (board w) q")
      case None
      then show ?thesis
        using at [of q t] t by (simp add: w'_def)
    next
      case (Some s)
      then show ?thesis
        using at [of q t] t tiles_okD(1,2) [OF world_okD(2) [OF ok] Some] by (simp add: w'_def)
    qed
  qed
  have st: "stands w' c = stands w c" for c
  proof
    assume "stands w' c"
    then obtain t where t: "tile_at m (place_of w c) = Some t" "c \<in> set (tile_creatures t)"
      by (auto simp: stands_def w'_def)
    then show "stands w c"
      using at [OF t(1)] by (auto simp: stands_def split: option.splits)
  next
    assume "stands w c"
    then obtain s where s: "tile_at (board w) (place_of w c) = Some s" "c \<in> set (tile_creatures s)"
      by (auto simp: stands_def)
    then obtain t where t: "tile_at m (place_of w c) = Some t"
      using keep by blast
    then show "stands w' c"
      using at [OF t] s by (simp add: stands_def w'_def)
  qed
  have wh: "whereabouts w' = whereabouts w"
    by (rule ext) (simp add: whereabouts_def st, simp add: w'_def)
  have sp: "spectators w' = spectators w"
    by (intro ext) (simp add: spectators_def st, simp add: w'_def)
  have "cached_ok mixed w' = cached_ok mixed w"
    by (intro ext) (simp add: cached_ok_def sp st)
  then have "caches_ok mixed w'"
    using world_okD(4) [OF ok] unfolding caches_ok_def by (simp add: w'_def)
  then have "world_ok mixed w'"
    using tiles L wh m by (intro world_okI) (simp_all add: w'_def)
  then show ?thesis
    by (simp add: w'_def)
qed

lemma whereabouts_leaf: "whereabouts w c = Some p \<Longrightarrow> leaf_of (board w) (ucast (pos_x p)) (ucast (pos_y p)) \<noteq> None"
  using tile_at_leaf [of "board w" p] by (auto simp: whereabouts_def stands_def split: if_splits)

lemma set_tile_ok:
  assumes ok: "world_ok mixed w" and t: "tile_creatures t = []"
  shows "world_ok mixed (w\<lparr>board := map_setTile e (p, t) (board w)\<rparr>)"
proof (rule same_crowds [OF ok])
  note at = tile_at_setTile [OF world_okD(1) [OF ok], of e "(p, t)"]
  show "map_ok (map_setTile e (p, t) (board w))"
    by (rule map_setTile_ok [OF world_okD(1) [OF ok]])
  show "tile_creatures s = (case tile_at (board w) q of None \<Rightarrow> [] | Some s \<Rightarrow> tile_creatures s)"
    if "tile_at (map_setTile e (p, t) (board w)) q = Some s" for q s
    using that t unfolding at by (auto simp: store_tile_def merge_tile_creatures split: if_splits option.splits)
  show "tile_at (map_setTile e (p, t) (board w)) q \<noteq> None" if "tile_at (board w) q = Some s" for q s
    using that unfolding at by (simp add: store_tile_def)
  show "lists_show (map_setTile e (p, t) (board w)) (is_player w) (whereabouts w)"
    unfolding map_setTile_def prod.case
    by (intro setTile_lists world_okD [OF ok] whereabouts_leaf)
qed

lemma change_items_ok:
  assumes ok: "world_ok mixed w" and f: "\<And>t. tile_creatures (f t) = tile_creatures t"
  shows "world_ok mixed (w\<lparr>board := change_tile f p (board w)\<rparr>)"
proof (rule same_crowds [OF ok])
  note at = tile_at_change [OF world_okD(1) [OF ok], of f p]
  show "map_ok (change_tile f p (board w))"
    by (rule change_tile_frame(2) [OF world_okD(1) [OF ok]])
  show "tile_creatures s = (case tile_at (board w) q of None \<Rightarrow> [] | Some s \<Rightarrow> tile_creatures s)"
    if "tile_at (change_tile f p (board w)) q = Some s" for q s
    using that unfolding at by (auto simp: f split: if_splits)
  show "tile_at (change_tile f p (board w)) q \<noteq> None" if "tile_at (board w) q = Some s" for q s
    using that unfolding at by auto
  show "lists_show (change_tile f p (board w)) (is_player w) (whereabouts w)"
    using world_okD(5) [OF ok] lists_show_frame [of "change_tile f p (board w)" "board w"] by (simp add: change_tile_frame)
qed

lemma ask_ok:
  assumes ok: "world_ok mixed w" and call: "getSpectators w found p mf op x1 x2 y1 y2 = (list, w')"
    and found: "found = {} \<or> mixed \<and> found \<subseteq> {c. stands w c}"
  shows "world_ok mixed w'"
proof (cases "unat (pos_z p) < MAP_MAX_LAYERS")
  case True
  note e = getSpectators_answers [OF world_okD(1,3,4) [OF ok] True call]
  show ?thesis
    using world_okD [OF ok] same_people [OF e(3,4,5)] e(2) [OF found] e(3) by (simp add: world_ok_def)
next
  case False
  then show ?thesis
    using ok call by (simp add: getSpectators_def)
qed

lemma reachable_ok: "reachable_world e b isp mixed w \<Longrightarrow> world_ok mixed w"
proof (induction rule: reachable_world.induct)
  case start
  show ?case by (rule new_world_ok)
next
  case (set_tile w t p)
  then show ?case by (blast intro: set_tile_ok)
next
  case (change_items w f p)
  then show ?case by (blast intro: change_items_ok)
next
  case (ask w found p mf op x1 x2 y1 y2 list w')
  then show ?case by (blast intro: ask_ok)
next
  case (place w c ext rel centerPos force r w')
  then show ?case
    using placeCreature_ok [OF place.IH place.hyps(2), of e b rel centerPos ext force] by auto
next
  case (move w c newPos force msgs w')
  then show ?case
    using moveCreature_ok [OF move.IH move.hyps(2), of newPos _ e force] by fastforce
next
  case (remove w c w')
  then show ?case
    using tile_removeCreature_ok [OF remove.IH remove.hyps(2), of e] by auto
next
  case (turn w f)
  then show ?case
    using same_people [of "w\<lparr>facing := f\<rparr>" w] by (simp add: world_ok_def caches_ok_def)
next
  case (forget w)
  then show ?case
    using same_people [of "clearSpectatorCache w" w] by (simp add: world_ok_def caches_ok_def)
qed


lemma is_player_stays: "reachable_world e b isp mixed w \<Longrightarrow> is_player w = isp"
proof (induction rule: reachable_world.induct)
  case (ask w found p mf op x1 x2 y1 y2 list w')
  then show ?case
    using getSpectators_frame [OF ask.hyps(3)] by simp
next
  case (place w c ext rel centerPos force r w')
  then show ?case
    by (auto simp: placeCreature_def node_add_def enter_tile_def split: option.splits prod.splits)
next
  case (move w c newPos force msgs w')
  then obtain t where t: "tile_at (board w) newPos = Some t"
    by blast
  show ?case
    using moveCreature_ok [OF reachable_ok [OF move.hyps(1)] move.hyps(2) t, of e force] move.hyps(4) move.IH by auto
next
  case (remove w c w')
  then show ?case
    by (auto simp: tile_removeCreature_def node_remove_def leave_tile_def Let_def split: option.splits if_splits)
qed (simp_all add: empty_world_def)

section \<open>What holds after every run\<close>

definition ranges_fit :: "int \<Rightarrow> int \<Rightarrow> int \<Rightarrow> int \<Rightarrow> bool" where
  "ranges_fit x1 x2 y1 y2 = (\<forall>r \<in> {x1, x2, y1, y2}. \<bar>r\<bar> < 2 ^ 31 - 2 ^ 17)"

text \<open>C9: in every run of the map \<open>Map::getSpectators\<close> answers with the list it was given and everybody who sees the
  place: the creatures that stand on a tile in the ranges asked for, shifted by the difference of floors.
  It adds nobody who is not on the map; and as long as nobody has asked with a list that was not empty, it adds
  nobody else at all, whether the answer comes from a cache or from the scan along the links of the leaves, and
  whatever was placed, moved, removed, built or asked before.  (After \<open>Monster::convinceCreature\<close> a cache may hold
  more: \<open>second_query_is_cached_whole\<close>.)  The ranges are such that the sums of the code stay inside of \<open>int32_t\<close>.\<close>
theorem spectators_are_exact:
  assumes "reachable_world e b isp mixed w" and "pos_z p < 16"
    and "ranges_fit rminX rmaxX rminY rmaxY"
  shows "answer_ok mixed w found p (view_ranges multifloor p rminX rmaxX rminY rmaxY) onlyPlayers
    (fst (getSpectators w found p multifloor onlyPlayers rminX rmaxX rminY rmaxY))"
proof -
  obtain list w' where call: "getSpectators w found p multifloor onlyPlayers rminX rmaxX rminY rmaxY = (list, w')"
    by (cases "getSpectators w found p multifloor onlyPlayers rminX rmaxX rminY rmaxY") auto
  have z: "unat (pos_z p) < MAP_MAX_LAYERS"
    using assms(2) by (simp add: MAP_MAX_LAYERS_def word_less_nat_alt)
  show ?thesis
    using getSpectators_answers(1) [OF world_okD(1,3,4) [OF reachable_ok [OF assms(1)]] z call] call by simp
qed

text \<open>C13: in every run of the map the operations on creatures come through, no node is a null pointer and no
  assertion of a leaf fails: a creature that is on the map is removed, and is moved to any tile there
  is; one that is not is placed or refused.  Afterwards the creature is where it should be and everybody
  else is where they were.  A move is told to all the players who see the old or the new place and see the
  creature, and to no player who is not on the map or does not see the creature; as long as nobody has asked
  for spectators with a list that was not empty, it is told to nobody else.\<close>
theorem map_operations_come_through:
  assumes "reachable_world e b isp mixed w"
  shows "if stands w c
    then (\<exists>w'. tile_removeCreature e c w = Some w' \<and> whereabouts w' = (whereabouts w)(c := None)) \<and>
         (tile_at (board w) newPos = None \<or>
          (\<exists>msgs w'. moveCreature e c newPos forceTeleport w = Some (msgs, w') \<and> whereabouts w' = (whereabouts w)(c \<mapsto> newPos) \<and>
             told_rightly mixed e w c newPos (fst ` msgs)))
    else (\<exists>r w'. placeCreature e b relList centerPos c extendedPos forceLogin w = Some (r, w') \<and>
             (case find_place e b (board w) relList centerPos c extendedPos forceLogin of
                None \<Rightarrow> \<not> r \<and> w' = w
              | Some (p, t) \<Rightarrow> r \<and> whereabouts w' = (whereabouts w)(c \<mapsto> fst (tile_queryDestination (getTile (board w)) p t 0))))"
proof (cases "stands w c")
  case True
  note ok = reachable_ok [OF assms]
  have "\<exists>msgs w'. moveCreature e c newPos forceTeleport w = Some (msgs, w') \<and> whereabouts w' = (whereabouts w)(c \<mapsto> newPos) \<and>
      told_rightly mixed e w c newPos (fst ` msgs)" if "tile_at (board w) newPos = Some t" for t
    using moveCreature_ok [OF ok True that, of e forceTeleport] by blast
  then show ?thesis
    using True tile_removeCreature_ok [OF ok True, of e] by (cases "tile_at (board w) newPos") auto
next
  case False
  then show ?thesis
    using placeCreature_ok [OF reachable_ok [OF assms] False, of e b relList centerPos extendedPos forceLogin]
    unfolding if_not_P [OF False] by blast
qed

section \<open>A run\<close>

definition home :: Position where "home = Position 1000 1000 7"

definition plain_being :: Being where
  "plain_being = \<lparr>being_kind = IsPlayer, ghost = False, pushable = True, summon = False, playerSummon = False,
     pushCreatures = False, pushItems = False, immuneTo = \<lambda>_. False, afflictedBy = \<lambda>_. False, accessPlayer = False,
     pzLocked = False, walksThrough = \<lambda>_. False, without_parent = True, own_tile = None\<rparr>"

text \<open>A tile is set and a creature logs in there.\<close>

lemma somebody_home:
  "\<exists>w. reachable_world meadow (\<lambda>_. plain_being) (\<lambda>_. True) False w \<and> whereabouts w = [5 \<mapsto> home]"
proof -
  define w1 where "w1 = (empty_world (\<lambda>_. True))\<lparr>board := map_setTile meadow (home, bare_tile) (board (empty_world (\<lambda>_. True)))\<rparr>"
  have r1: "reachable_world meadow (\<lambda>_. plain_being) (\<lambda>_. True) False w1"
    unfolding w1_def by (rule set_tile [OF start]) (simp add: bare_tile_def)
  have at: "tile_at (board w1) = [home \<mapsto> bare_tile]"
    using tile_at_setTile [OF map_ok_new, of meadow "(home, bare_tile)"]
    by (simp add: w1_def empty_world_def tile_at_new store_tile_def home_def)
  have nobody: "\<not> stands w1 c" for c
    by (simp add: stands_def at bare_tile_def)
  have dest: "tile_queryDestination m home bare_tile 0 = (home, 0, None)" for m
    by (simp add: tile_queryDestination_def bare_tile_def hasFlag_def hasBitSet_def getTopDownItem_def first_of_def downItems_def)
  have found: "find_place meadow (\<lambda>_. plain_being) (board w1) normalRelList home 5 False True = Some (home, bare_tile)"
    by (simp add: find_place_def at)
  obtain r w2 where w2: "placeCreature meadow (\<lambda>_. plain_being) normalRelList home 5 False True w1 = Some (r, w2)"
      "whereabouts w2 = (whereabouts w1)(5 \<mapsto> home)"
    using placeCreature_ok [OF reachable_ok [OF r1] nobody, where e = meadow and b = "\<lambda>_. plain_being" and rel = normalRelList and
        centerPos = home and c = 5 and ext = False and force = True]
    by (auto simp: found dest)
  have "reachable_world meadow (\<lambda>_. plain_being) (\<lambda>_. True) False w2"
    by (rule place [OF r1 nobody _ w2(1)]) (simp add: shuffled_def)
  moreover have "whereabouts w2 = [5 \<mapsto> home]"
    unfolding w2(2) by (rule ext) (simp add: whereabouts_def nobody)
  ultimately show ?thesis
    by blast
qed


text \<open>He sees his own place.\<close>

theorem spectators_are_exact_witness:
  "\<exists>w. reachable_world meadow (\<lambda>_. plain_being) (\<lambda>_. True) False w \<and>
     fst (getSpectators w {} home True True 0 0 0 0) = {5}"
proof -
  obtain w where w: "reachable_world meadow (\<lambda>_. plain_being) (\<lambda>_. True) False w" "whereabouts w = [5 \<mapsto> home]"
    using somebody_home by blast
  have at: "stands w c \<longleftrightarrow> c = 5" "stands w c \<Longrightarrow> place_of w c = home" for c
    using fun_cong [OF w(2), of c] by (auto simp: whereabouts_def split: if_splits)
  have "is_player w c" for c
    using is_player_stays [OF w(1)] by simp
  then have "spectators w home (view_ranges True home 0 0 0 0) True = {5}"
    using at by (auto simp: spectators_def view_ranges_def in_ranges_def home_def rangesZ_def maxViewportX_def maxViewportY_def getOffsetZ_def)
  then show ?thesis
    using spectators_are_exact [OF w(1), of home 0 0 0 0 "{}" True True] w(1)
    by (auto simp: home_def answer_ok_def ranges_fit_def)
qed

theorem map_operations_come_through_witness:
  "\<exists>w. reachable_world meadow (\<lambda>_. plain_being) (\<lambda>_. True) False w \<and> stands w 5 \<and>
     (\<exists>w'. tile_removeCreature meadow 5 w = Some w' \<and> whereabouts w' = (\<lambda>_. None))"
proof -
  obtain w where w: "reachable_world meadow (\<lambda>_. plain_being) (\<lambda>_. True) False w" "whereabouts w = [5 \<mapsto> home]"
    using somebody_home by blast
  have "stands w 5"
    using fun_cong [OF w(2), of 5] by (auto simp: whereabouts_def split: if_splits)
  then show ?thesis
    using map_operations_come_through [OF w(1), where c = 5 and newPos = home] w(1,2) by auto
qed

theorem sight_lines_are_straight_witness:
  "checkSightLine meadow new_map (Position 1000 1000 7) (Position 1010 1003 7) \<noteq> None"
  using sight_lines_are_straight [of "Position 1000 1000 7" "Position 1010 1003 7" meadow new_map]
  by (auto simp: getDistanceX_def getDistanceY_def getOffsetX_def getOffsetY_def)

end
