(* ===== verification/PathSearch.thy ===== *)
theory PathSearch
  imports MapSight
begin

text \<open>
  The search for paths: \<open>Map::getPathMatching\<close> with its table of nodes (\<open>AStarNodes\<close>) and the condition a path has
  to meet (\<open>FrozenPathingConditionCall\<close> of creature.cpp).
\<close>

section \<open>Parameters\<close>

record FindPathParams =
  fullPathSearch :: bool
  clearSight :: bool
  allowDiagonal :: bool
  keepDistance :: bool
  maxSearchDist :: int
  minTargetDist :: int
  maxTargetDist :: int

text \<open>The creature that walks: its position, its cache of walkable tiles around it, and what it sees of other creatures.\<close>

record Walker =
  walker_addr :: addr
  walker_pos :: Position
  useCacheMap :: bool
  localMapCache :: "int \<Rightarrow> int \<Rightarrow> bool"
  has_access :: "addr \<Rightarrow> bool"
  plainly_seen :: "addr \<Rightarrow> bool"

record Search =
  surroundings :: Surroundings
  beings :: "addr \<Rightarrow> Being"
  field :: "Tile Map"
  walker :: Walker
  targetPos :: Position
  fpp :: FindPathParams

definition maxWalkCacheWidth :: int where "maxWalkCacheWidth = 11"
definition maxWalkCacheHeight :: int where "maxWalkCacheHeight = 11"

definition getWalkCache :: "Walker \<Rightarrow> Position \<Rightarrow> int" where
  "getWalkCache w pos =
     (if \<not> useCacheMap w then 2
      else let myPos = walker_pos w in
        if pos_z myPos \<noteq> pos_z pos then 0
        else if pos_eq pos myPos then 1
        else let dx = getOffsetX pos myPos in
          if \<bar>dx\<bar> \<le> maxWalkCacheWidth then
            (let dy = getOffsetY pos myPos in
             if \<bar>dy\<bar> \<le> maxWalkCacheHeight then
               (if localMapCache w (maxWalkCacheHeight + dy) (maxWalkCacheWidth + dx) then 1 else 0)
             else 2)
          else 2)"

text \<open>The creature's own tile is the one at its position.\<close>

definition canWalkTo :: "Search \<Rightarrow> Position \<Rightarrow> Tile option" where
  "canWalkTo s pos =
     (let walkCache = getWalkCache (walker s) pos in
      if walkCache = 0 then None
      else if walkCache = 1 then tile_at (field s) pos
      else if pos \<noteq> walker_pos (walker s) then
        (case tile_at (field s) pos of
           None \<Rightarrow> None
         | Some t \<Rightarrow>
             if tile_queryAdd (surroundings s) (beings s) t (ACreature (walker_addr (walker s)))
                  (FLAG_PATHFINDING OR FLAG_IGNOREFIELDDAMAGE) \<noteq> RETURNVALUE_NOERROR
             then None else Some t)
      else tile_at (field s) pos)"

section \<open>The condition\<close>

definition isInRange :: "Search \<Rightarrow> Position \<Rightarrow> Position \<Rightarrow> bool" where
  "isInRange s startPos testPos =
     (let tx = uint (pos_x (targetPos s)); ty = uint (pos_y (targetPos s));
          x = uint (pos_x testPos); y = uint (pos_y testPos); d = maxTargetDist (fpp s)
      in if fullPathSearch (fpp s) then
           (if x > tx + d then False else if x < tx - d then False
            else if y > ty + d then False else if y < ty - d then False else True)
         else
           let dx = getOffsetX startPos (targetPos s);
               dxMax = (if dx \<ge> 0 then d else 0);
               dxMin = (if dx \<le> 0 then d else 0);
               dy = getOffsetY startPos (targetPos s);
               dyMax = (if dy \<ge> 0 then d else 0);
               dyMin = (if dy \<le> 0 then d else 0)
           in (if x > tx + dxMax then False else if x < tx - dxMin then False
               else if y > ty + dyMax then False else if y < ty - dyMin then False else True))"

text \<open>The call, with the best match so far, which it may change.\<close>

definition pathCondition :: "Search \<Rightarrow> Position \<Rightarrow> Position \<Rightarrow> int \<Rightarrow> bool \<times> int" where
  "pathCondition s startPos testPos bestMatchDist =
     (if \<not> isInRange s startPos testPos then (False, bestMatchDist)
      else if clearSight (fpp s) \<and> isSightClear (surroundings s) (field s) testPos (targetPos s) True \<noteq> Some True
      then (False, bestMatchDist)
      else
        let testDist = max (getDistanceX (targetPos s) testPos) (getDistanceY (targetPos s) testPos)
        in if maxTargetDist (fpp s) = 1 then
             (if testDist < minTargetDist (fpp s) \<or> testDist > maxTargetDist (fpp s) then (False, bestMatchDist)
              else (True, bestMatchDist))
           else if testDist \<le> maxTargetDist (fpp s) then
             (if testDist < minTargetDist (fpp s) then (False, bestMatchDist)
              else if testDist = maxTargetDist (fpp s) then (True, 0)
              else if testDist > bestMatchDist then (True, testDist)
              else (False, bestMatchDist))
           else (False, bestMatchDist))"

section \<open>Nodes\<close>

definition MAX_NODES :: nat where "MAX_NODES = 512"
definition MAP_NORMALWALKCOST :: int where "MAP_NORMALWALKCOST = 10"
definition MAP_DIAGONALWALKCOST :: int where "MAP_DIAGONALWALKCOST = 25"

record AStarNode =
  parent :: "nat option"
  f_of :: int
  node_x :: u16
  node_y :: u16

text \<open>The arrays up to \<open>curNode\<close>; a node is named by its index.\<close>

record AStarNodes =
  nodes :: "AStarNode list"
  openNodes :: "bool list"
  nodeTable :: "u32 \<Rightarrow> nat option"
  closedNodes :: int

definition table_key :: "u16 \<Rightarrow> u16 \<Rightarrow> u32" where
  "table_key x y = push_bit 16 (ucast x) OR ucast y"

definition first_nodes :: "u16 \<Rightarrow> u16 \<Rightarrow> AStarNodes" where
  "first_nodes x y =
     \<lparr>nodes = [\<lparr>parent = None, f_of = 0, node_x = x, node_y = y\<rparr>], openNodes = [True],
      nodeTable = [table_key x y \<mapsto> 0], closedNodes = 0\<rparr>"

definition createOpenNode :: "nat option \<Rightarrow> u16 \<Rightarrow> u16 \<Rightarrow> int \<Rightarrow> AStarNodes \<Rightarrow> AStarNodes option" where
  "createOpenNode p x y f ns =
     (if length (nodes ns) \<ge> MAX_NODES then None
      else Some (ns\<lparr>nodes := nodes ns @ [\<lparr>parent = p, f_of = f, node_x = x, node_y = y\<rparr>],
                    openNodes := openNodes ns @ [True],
                    nodeTable := (nodeTable ns)(table_key x y \<mapsto> length (nodes ns))\<rparr>))"

fun best_from :: "nat \<Rightarrow> (bool \<times> AStarNode) list \<Rightarrow> int \<Rightarrow> nat option \<Rightarrow> nat option" where
  "best_from i [] best_f best = best"
| "best_from i ((opened, n) # rest) best_f best =
     (if opened \<and> f_of n < best_f then best_from (Suc i) rest (f_of n) (Some i) else best_from (Suc i) rest best_f best)"

definition getBestNode :: "AStarNodes \<Rightarrow> nat option" where
  "getBestNode ns = best_from 0 (zip (openNodes ns) (nodes ns)) 2147483647 None"

definition closeNode :: "nat \<Rightarrow> AStarNodes \<Rightarrow> AStarNodes" where
  "closeNode i ns = ns\<lparr>openNodes := (openNodes ns)[i := False], closedNodes := closedNodes ns + 1\<rparr>"

definition openNode :: "nat \<Rightarrow> AStarNodes \<Rightarrow> AStarNodes" where
  "openNode i ns =
     (if \<not> openNodes ns ! i then ns\<lparr>openNodes := (openNodes ns)[i := True], closedNodes := closedNodes ns - 1\<rparr> else ns)"

definition getNodeByPosition :: "u16 \<Rightarrow> u16 \<Rightarrow> AStarNodes \<Rightarrow> nat option" where
  "getNodeByPosition x y ns = nodeTable ns (table_key x y)"

definition getMapWalkCost :: "AStarNode \<Rightarrow> Position \<Rightarrow> int" where
  "getMapWalkCost n p =
     (if \<bar>uint (node_x n) - uint (pos_x p)\<bar> = \<bar>uint (node_y n) - uint (pos_y p)\<bar> then MAP_DIAGONALWALKCOST else MAP_NORMALWALKCOST)"

definition getTileWalkCost :: "Search \<Rightarrow> Tile \<Rightarrow> int" where
  "getTileWalkCost s t =
     (let c = walker_addr (walker s);
          cost = (if getTopVisibleCreature (surroundings s) (has_access (walker s)) (plainly_seen (walker s)) (Some c) t \<noteq> None
                  then MAP_NORMALWALKCOST * 3 else 0)
      in (case getFieldItem (surroundings s) t of
            None \<Rightarrow> cost
          | Some fld \<Rightarrow>
              if \<not> immuneTo (beings s c) fld \<and> \<not> afflictedBy (beings s c) fld then cost + MAP_NORMALWALKCOST * 18 else cost))"

section \<open>The search\<close>

fun dirNeighbors :: "Direction \<Rightarrow> (int \<times> int) list" where
  "dirNeighbors DIRECTION_NORTH = [(-1, 0), (0, 1), (1, 0), (1, 1), (-1, 1)]"
| "dirNeighbors DIRECTION_EAST = [(-1, 0), (0, 1), (0, -1), (-1, -1), (-1, 1)]"
| "dirNeighbors DIRECTION_SOUTH = [(-1, 0), (1, 0), (0, -1), (-1, -1), (1, -1)]"
| "dirNeighbors DIRECTION_WEST = [(0, 1), (1, 0), (0, -1), (1, -1), (1, 1)]"
| "dirNeighbors DIRECTION_SOUTHWEST = [(1, 0), (0, -1), (-1, -1), (1, -1), (1, 1)]"
| "dirNeighbors DIRECTION_SOUTHEAST = [(-1, 0), (0, -1), (-1, -1), (1, -1), (-1, 1)]"
| "dirNeighbors DIRECTION_NORTHWEST = [(0, 1), (1, 0), (1, -1), (1, 1), (-1, 1)]"
| "dirNeighbors DIRECTION_NORTHEAST = [(-1, 0), (0, 1), (-1, -1), (1, 1), (-1, 1)]"
| "dirNeighbors DIRECTION_NONE = []"

definition allNeighbors :: "(int \<times> int) list" where
  "allNeighbors = [(-1, 0), (0, 1), (1, 0), (0, -1), (-1, -1), (1, -1), (1, 1), (-1, 1)]"

definition behind :: "bool \<Rightarrow> AStarNode \<Rightarrow> AStarNode \<Rightarrow> Direction" where
  "behind diagonal p n =
     (let offset_x = uint (node_x p) - uint (node_x n); offset_y = uint (node_y p) - uint (node_y n)
      in if offset_y = 0 then (if offset_x = -1 then DIRECTION_WEST else DIRECTION_EAST)
         else if \<not> diagonal \<or> offset_x = 0 then (if offset_y = -1 then DIRECTION_NORTH else DIRECTION_SOUTH)
         else if offset_y = -1 then (if offset_x = -1 then DIRECTION_NORTHWEST else DIRECTION_NORTHEAST)
         else if offset_x = -1 then DIRECTION_SOUTHWEST else DIRECTION_SOUTHEAST)"

definition neighbors_of :: "bool \<Rightarrow> AStarNodes \<Rightarrow> AStarNode \<Rightarrow> (int \<times> int) list" where
  "neighbors_of diagonal ns n =
     (case parent n of
        Some p \<Rightarrow> take (if diagonal then 5 else 3) (dirNeighbors (behind diagonal (nodes ns ! p) n))
      | None \<Rightarrow> allNeighbors)"

text \<open>How the visit of the neighbours ends: all done, no room for a new node, or a null tile dereferenced.\<close>

datatype visit = Visited AStarNodes | NoRoom AStarNodes | NullTile

definition too_far :: "Search \<Rightarrow> Position \<Rightarrow> Position \<Rightarrow> bool" where
  "too_far s startPos pos =
     (maxSearchDist (fpp s) \<noteq> 0 \<and>
      (getDistanceX startPos pos > maxSearchDist (fpp s) \<or> getDistanceY startPos pos > maxSearchDist (fpp s)))"

fun visit_neighbors :: "Search \<Rightarrow> Position \<Rightarrow> nat \<Rightarrow> AStarNode \<Rightarrow> (int \<times> int) list \<Rightarrow> AStarNodes \<Rightarrow> visit" where
  "visit_neighbors s startPos i n [] ns = Visited ns"
| "visit_neighbors s startPos i n ((dx, dy) # rest) ns =
     (let pos = Position (node_x n + word_of_int dx) (node_y n + word_of_int dy) (pos_z startPos) in
      if too_far s startPos pos then visit_neighbors s startPos i n rest ns
      else if keepDistance (fpp s) \<and> \<not> isInRange s startPos pos then visit_neighbors s startPos i n rest ns
      else case getNodeByPosition (pos_x pos) (pos_y pos) ns of
        Some k \<Rightarrow>
          (case tile_at (field s) pos of
             None \<Rightarrow> NullTile
           | Some tile \<Rightarrow>
               let newf = f_of n + getMapWalkCost n pos + getTileWalkCost s tile in
               if f_of (nodes ns ! k) \<le> newf then visit_neighbors s startPos i n rest ns
               else visit_neighbors s startPos i n rest
                      (openNode k (ns\<lparr>nodes := (nodes ns)[k := (nodes ns ! k)\<lparr>f_of := newf, parent := Some i\<rparr>]\<rparr>)))
      | None \<Rightarrow>
          (case canWalkTo s pos of
             None \<Rightarrow> visit_neighbors s startPos i n rest ns
           | Some tile \<Rightarrow>
               let newf = f_of n + getMapWalkCost n pos + getTileWalkCost s tile in
               (case createOpenNode (Some i) (pos_x pos) (pos_y pos) newf ns of
                  None \<Rightarrow> NoRoom ns
                | Some ns' \<Rightarrow> visit_neighbors s startPos i n rest ns')))"

text \<open>The outcome of the loop: the index of the node found with the position at that time, no path, or the crash.\<close>

datatype outcome = FoundNode nat Position AStarNodes | NoPath | Crash

definition node_pos :: "Position \<Rightarrow> AStarNode \<Rightarrow> Position" where
  "node_pos startPos n = Position (node_x n) (node_y n) (pos_z startPos)"

partial_function (option) search_loop ::
    "Search \<Rightarrow> Position \<Rightarrow> (nat \<times> Position) option \<Rightarrow> int \<Rightarrow> AStarNodes \<Rightarrow> outcome option" where
  "search_loop s startPos found bestMatch ns =
     (let done = (case found of None \<Rightarrow> NoPath | Some (k, endPos) \<Rightarrow> FoundNode k endPos ns) in
      if maxSearchDist (fpp s) \<noteq> 0 \<or> closedNodes ns < 100 then
        (case getBestNode ns of
           None \<Rightarrow> Some done
         | Some i \<Rightarrow>
             let n = nodes ns ! i; pos = node_pos startPos n; (hit, bestMatch') = pathCondition s startPos pos bestMatch;
                 found' = (if hit then Some (i, pos) else found)
             in if hit \<and> bestMatch' = 0 then Some (FoundNode i pos ns)
                else (case visit_neighbors s startPos i n (neighbors_of (allowDiagonal (fpp s)) ns n) ns of
                        NullTile \<Rightarrow> Some Crash
                      | NoRoom ns' \<Rightarrow>
                          if found' \<noteq> None then search_loop s startPos found' bestMatch' (closeNode i ns') else Some NoPath
                      | Visited ns' \<Rightarrow> search_loop s startPos found' bestMatch' (closeNode i ns')))
      else Some done)"

declare search_loop.simps [code]

definition push_direction :: "int \<Rightarrow> int \<Rightarrow> Direction list \<Rightarrow> Direction list" where
  "push_direction dx dy dirList =
     (if dx = 1 \<and> dy = 1 then DIRECTION_NORTHWEST # dirList
      else if dx = -1 \<and> dy = 1 then DIRECTION_NORTHEAST # dirList
      else if dx = 1 \<and> dy = -1 then DIRECTION_SOUTHWEST # dirList
      else if dx = -1 \<and> dy = -1 then DIRECTION_SOUTHEAST # dirList
      else if dx = 1 then DIRECTION_WEST # dirList
      else if dx = -1 then DIRECTION_EAST # dirList
      else if dy = 1 then DIRECTION_NORTH # dirList
      else if dy = -1 then DIRECTION_SOUTH # dirList
      else dirList)"

partial_function (option) trace_back :: "AStarNodes \<Rightarrow> u16 \<Rightarrow> u16 \<Rightarrow> nat option \<Rightarrow> Direction list \<Rightarrow> Direction list option" where
  "trace_back ns prevx prevy found dirList =
     (case found of
        None \<Rightarrow> Some dirList
      | Some k \<Rightarrow>
          let n = nodes ns ! k
          in trace_back ns (node_x n) (node_y n) (parent n)
               (push_direction (uint (node_x n) - uint prevx) (uint (node_y n) - uint prevy) dirList))"

declare trace_back.simps [code]

datatype path_result = PathFound "Direction list" | NoPathFound | NullPointer

definition getPathMatching :: "Search \<Rightarrow> Direction list \<Rightarrow> path_result option" where
  "getPathMatching s dirList =
     (let startPos = walker_pos (walker s) in
      case search_loop s startPos None 0 (first_nodes (pos_x startPos) (pos_y startPos)) of
        None \<Rightarrow> None
      | Some Crash \<Rightarrow> Some NullPointer
      | Some NoPath \<Rightarrow> Some NoPathFound
      | Some (FoundNode k endPos ns) \<Rightarrow>
          map_option PathFound (trace_back ns (pos_x endPos) (pos_y endPos) (parent (nodes ns ! k)) dirList))"

end
