(* ===== verification/PathFound.thy ===== *)
theory PathFound
  imports PathSearch MapRun
begin

text \<open>
  What the search for paths guarantees: it ends, it dereferences no null pointer, and the directions it
  gives lead over tiles the creature may walk on to a place that meets the condition.
\<close>

section \<open>The table of nodes\<close>

lemma table_key_inj: "table_key x y = table_key x' y' \<longleftrightarrow> x = x' \<and> y = y'"
proof
  assume eq: "table_key x y = table_key x' y'"
  have bits: "bit (table_key u v) k = (if k < 16 then bit v k else k < 32 \<and> bit u (k - 16))" for u v k
    by (auto simp: table_key_def bit_or_iff bit_push_bit_iff bit_ucast_iff not_less dest: bit_imp_le_length)
  show "x = x' \<and> y = y'"
  proof
    show "x = x'"
    proof (rule bit_word_eqI)
      fix k :: nat assume "k < LENGTH(16)"
      then show "bit x k = bit x' k"
        using bits [of x y "k + 16"] bits [of x' y' "k + 16"] eq by simp
    qed
    show "y = y'"
    proof (rule bit_word_eqI)
      fix k :: nat assume "k < LENGTH(16)"
      then show "bit y k = bit y' k"
        using bits [of x y k] bits [of x' y' k] eq by simp
    qed
  qed
qed simp

definition beside :: "AStarNode \<Rightarrow> AStarNode \<Rightarrow> bool" where
  "beside p n = (\<exists>dx dy. (dx, dy) \<in> set allNeighbors \<and>
     node_x n = node_x p + word_of_int dx \<and> node_y n = node_y p + word_of_int dy)"

definition allowed :: "Search \<Rightarrow> Position \<Rightarrow> Position \<Rightarrow> bool" where
  "allowed s startPos pos =
     (canWalkTo s pos \<noteq> None \<and> \<not> too_far s startPos pos \<and> (keepDistance (fpp s) \<longrightarrow> isInRange s startPos pos))"

definition node_ok :: "Search \<Rightarrow> Position \<Rightarrow> AStarNode list \<Rightarrow> AStarNode \<Rightarrow> bool" where
  "node_ok s startPos ns n =
     (allowed s startPos (node_pos startPos n) \<and>
      (\<exists>p < length ns. parent n = Some p \<and> f_of (ns ! p) < f_of n \<and> beside (ns ! p) n))"

definition nodes_ok :: "Search \<Rightarrow> Position \<Rightarrow> AStarNodes \<Rightarrow> bool" where
  "nodes_ok s startPos ns =
     (nodes ns \<noteq> [] \<and> length (nodes ns) \<le> MAX_NODES \<and> length (openNodes ns) = length (nodes ns) \<and>
      parent (nodes ns ! 0) = None \<and> f_of (nodes ns ! 0) = 0 \<and> node_pos startPos (nodes ns ! 0) = startPos \<and>
      (\<forall>k. 0 < k \<longrightarrow> k < length (nodes ns) \<longrightarrow> node_ok s startPos (nodes ns) (nodes ns ! k)) \<and>
      (\<forall>k < length (nodes ns). 0 \<le> f_of (nodes ns ! k)) \<and>
      (\<forall>x y k. nodeTable ns (table_key x y) = Some k \<longrightarrow>
         k < length (nodes ns) \<and> node_x (nodes ns ! k) = x \<and> node_y (nodes ns ! k) = y))"

lemma nodes_okD:
  assumes "nodes_ok s startPos ns"
  shows "0 < length (nodes ns)" "length (nodes ns) \<le> MAX_NODES" "length (openNodes ns) = length (nodes ns)"
    "parent (nodes ns ! 0) = None" "f_of (nodes ns ! 0) = 0" "node_pos startPos (nodes ns ! 0) = startPos"
    "0 < k \<Longrightarrow> k < length (nodes ns) \<Longrightarrow> node_ok s startPos (nodes ns) (nodes ns ! k)"
    "k < length (nodes ns) \<Longrightarrow> 0 \<le> f_of (nodes ns ! k)"
    "nodeTable ns (table_key x y) = Some k \<Longrightarrow> k < length (nodes ns) \<and> node_x (nodes ns ! k) = x \<and> node_y (nodes ns ! k) = y"
  using assms unfolding nodes_ok_def by (blast, blast, blast, blast, blast, blast, blast, blast, blast)

lemma first_nodes_ok: "nodes_ok s (Position x y z) (first_nodes x y)"
  by (auto simp: nodes_ok_def first_nodes_def MAX_NODES_def node_pos_def table_key_inj split: if_splits)

lemma canWalkTo_tile: "canWalkTo s pos = Some t \<Longrightarrow> tile_at (field s) pos = Some t"
  by (auto simp: canWalkTo_def Let_def split: if_splits option.splits)

lemma getTileWalkCost_nonneg: "0 \<le> getTileWalkCost s t"
  by (auto simp: getTileWalkCost_def Let_def MAP_NORMALWALKCOST_def split: option.split)

lemma getMapWalkCost_pos: "0 < getMapWalkCost n p"
  by (simp add: getMapWalkCost_def MAP_NORMALWALKCOST_def MAP_DIAGONALWALKCOST_def)

lemma dirNeighbors_among: "set (dirNeighbors d) \<subseteq> set allNeighbors"
  by (cases d) (auto simp: allNeighbors_def)

lemma neighbors_among: "set (neighbors_of diagonal ns n) \<subseteq> set allNeighbors"
proof (cases "parent n")
  case (Some p)
  have "set (neighbors_of diagonal ns n) \<subseteq> set (dirNeighbors (behind diagonal (nodes ns ! p) n))"
    unfolding neighbors_of_def Some option.case by (rule set_take_subset)
  then show ?thesis
    using dirNeighbors_among by blast
qed (simp add: neighbors_of_def)

text \<open>A step to a neighbour leads elsewhere.\<close>

lemma neighbor_elsewhere:
  assumes "(dx, dy) \<in> set allNeighbors"
  shows "\<not> (x + word_of_int dx = (x :: u16) \<and> y + word_of_int dy = (y :: u16))"
  using assms by (auto simp: allNeighbors_def)

section \<open>A new node\<close>

lemma create_ok_nodes:
  assumes ok: "nodes_ok s startPos ns" and i: "i < length (nodes ns)"
    and d: "(dx, dy) \<in> set allNeighbors" and xy: "x = node_x (nodes ns ! i) + word_of_int dx" "y = node_y (nodes ns ! i) + word_of_int dy"
    and al: "allowed s startPos (Position x y (pos_z startPos))" and f: "f_of (nodes ns ! i) < f"
    and call: "createOpenNode (Some i) x y f ns = Some ns'"
  shows "nodes_ok s startPos ns'" "length (nodes ns') = Suc (length (nodes ns))" "nodes ns' ! i = nodes ns ! i"
proof -
  note D = nodes_okD [OF ok]
  define n where "n = \<lparr>parent = Some i, f_of = f, node_x = x, node_y = y\<rparr>"
  have ns': "ns' = ns\<lparr>nodes := nodes ns @ [n], openNodes := openNodes ns @ [True],
      nodeTable := (nodeTable ns)(table_key x y \<mapsto> length (nodes ns))\<rparr>" and room: "length (nodes ns) < MAX_NODES"
    using call by (auto simp: createOpenNode_def n_def split: if_splits)
  show "length (nodes ns') = Suc (length (nodes ns))" "nodes ns' ! i = nodes ns ! i"
    using i by (simp_all add: ns' nth_append)
  have old: "node_ok s startPos (nodes ns @ [n]) m" if "node_ok s startPos (nodes ns) m" for m
    using that unfolding node_ok_def by (force simp: nth_append)
  have new: "node_ok s startPos (nodes ns @ [n]) n"
    using al i f d xy by (auto simp: node_ok_def node_pos_def n_def beside_def nth_append intro!: exI [of _ i])
  have "0 \<le> f"
    using D(8) [OF i] f by simp
  show "nodes_ok s startPos ns'"
    unfolding nodes_ok_def
  proof (intro conjI allI impI)
    show "nodes ns' \<noteq> []" "length (nodes ns') \<le> MAX_NODES" "length (openNodes ns') = length (nodes ns')"
      using room D(3) by (simp_all add: ns')
    show "parent (nodes ns' ! 0) = None" "f_of (nodes ns' ! 0) = 0" "node_pos startPos (nodes ns' ! 0) = startPos"
      using D(1,4,5,6) by (simp_all add: ns' nth_append)
    show "node_ok s startPos (nodes ns') (nodes ns' ! k)" if "0 < k" "k < length (nodes ns')" for k
      using that old [OF D(7)] new by (auto simp: ns' nth_append less_Suc_eq)
    show "0 \<le> f_of (nodes ns' ! k)" if "k < length (nodes ns')" for k
      using that D(8) \<open>0 \<le> f\<close> by (auto simp: ns' nth_append less_Suc_eq n_def)
    fix u v k assume k: "nodeTable ns' (table_key u v) = Some k"
    show "k < length (nodes ns')" "node_x (nodes ns' ! k) = u" "node_y (nodes ns' ! k) = v"
      using k D(9) [of u v k] by (auto simp: ns' table_key_inj nth_append n_def split: if_splits)
  qed
qed

section \<open>A cheaper way to a node\<close>

lemma cheaper_ok:
  assumes ok: "nodes_ok s startPos ns" and i: "i < length (nodes ns)" and k: "k < length (nodes ns)" and ki: "k \<noteq> i" "k \<noteq> 0"
    and b: "beside (nodes ns ! i) (nodes ns ! k)" and f: "f_of (nodes ns ! i) < f" "f < f_of (nodes ns ! k)"
  defines "ns' \<equiv> openNode k (ns\<lparr>nodes := (nodes ns)[k := (nodes ns ! k)\<lparr>f_of := f, parent := Some i\<rparr>]\<rparr>)"
  shows "nodes_ok s startPos ns'" "length (nodes ns') = length (nodes ns)" "nodes ns' ! i = nodes ns ! i"
    "(\<Sum>n\<leftarrow>nodes ns'. nat (f_of n)) < (\<Sum>n\<leftarrow>nodes ns. nat (f_of n))"
proof -
  note D = nodes_okD [OF ok]
  define n where "n = (nodes ns ! k)\<lparr>f_of := f, parent := Some i\<rparr>"
  have nodes': "nodes ns' = (nodes ns)[k := n]" "nodeTable ns' = nodeTable ns" "length (openNodes ns') = length (openNodes ns)"
    by (simp_all add: ns'_def openNode_def n_def)
  show "length (nodes ns') = length (nodes ns)" "nodes ns' ! i = nodes ns ! i"
    using ki by (simp_all add: nodes')
  have f0: "0 \<le> f"
    using D(8) [OF i] f by simp
  have keep: "node_ok s startPos (nodes ns') m" if m: "node_ok s startPos (nodes ns) m" for m
  proof -
    obtain p where p: "p < length (nodes ns)" "parent m = Some p" "f_of (nodes ns ! p) < f_of m" "beside (nodes ns ! p) m"
      using m unfolding node_ok_def by blast
    have "f_of (nodes ns' ! p) < f_of m" "beside (nodes ns' ! p) m"
      using p f by (cases "p = k"; simp add: nodes' n_def beside_def)+
    then show ?thesis
      using m p(1,2) by (auto simp: node_ok_def nodes')
  qed
  have new: "node_ok s startPos (nodes ns') n"
    using D(7) [of k] k ki i f b
    by (auto simp: node_ok_def nodes' n_def node_pos_def beside_def intro!: exI [of _ i])
  show "nodes_ok s startPos ns'"
    unfolding nodes_ok_def
  proof (intro conjI allI impI)
    show "nodes ns' \<noteq> []" "length (nodes ns') \<le> MAX_NODES" "length (openNodes ns') = length (nodes ns')"
      using D(1-3) by (auto simp: nodes')
    show "parent (nodes ns' ! 0) = None" "f_of (nodes ns' ! 0) = 0" "node_pos startPos (nodes ns' ! 0) = startPos"
      using D(4,5,6) ki by (simp_all add: nodes')
    show "node_ok s startPos (nodes ns') (nodes ns' ! j)" if "0 < j" "j < length (nodes ns')" for j
      using that keep [OF D(7), of j] new k by (cases "j = k") (simp_all add: nodes')
    show "0 \<le> f_of (nodes ns' ! j)" if "j < length (nodes ns')" for j
      using that D(8) [of j] f0 by (cases "j = k") (simp_all add: nodes' n_def)
    fix u v j assume j: "nodeTable ns' (table_key u v) = Some j"
    show "j < length (nodes ns')" "node_x (nodes ns' ! j) = u" "node_y (nodes ns' ! j) = v"
      using j D(9) [of u v j] by (cases "j = k"; simp add: nodes' n_def)+
  qed
  have "(\<Sum>n\<leftarrow>nodes ns'. nat (f_of n)) + nat (f_of (nodes ns ! k)) = (\<Sum>n\<leftarrow>nodes ns. nat (f_of n)) + nat f"
  proof -
    have split: "nodes ns = take k (nodes ns) @ nodes ns ! k # drop (Suc k) (nodes ns)"
      using k by (rule id_take_nth_drop)
    have split': "nodes ns' = take k (nodes ns) @ n # drop (Suc k) (nodes ns)"
      using k by (simp add: nodes' upd_conv_take_nth_drop)
    show ?thesis
      unfolding split' by (subst (4) split) (simp add: n_def)
  qed
  moreover have "nat f < nat (f_of (nodes ns ! k))"
    using f f0 by simp
  ultimately show "(\<Sum>n\<leftarrow>nodes ns'. nat (f_of n)) < (\<Sum>n\<leftarrow>nodes ns. nat (f_of n))"
    by linarith
qed


section \<open>The visit of the neighbours\<close>

definition f_sum :: "AStarNodes \<Rightarrow> nat" where "f_sum ns = (\<Sum>n\<leftarrow>nodes ns. nat (f_of n))"

text \<open>A visit makes nodes, or makes some cheaper, or changes nothing; nodes stay where they are.\<close>

definition progress :: "Position \<Rightarrow> AStarNodes \<Rightarrow> AStarNodes \<Rightarrow> bool" where
  "progress startPos ns ns' =
     ((length (nodes ns) < length (nodes ns') \<or> length (nodes ns) = length (nodes ns') \<and> (f_sum ns' < f_sum ns \<or> ns' = ns)) \<and>
      (\<forall>k < length (nodes ns). node_pos startPos (nodes ns' ! k) = node_pos startPos (nodes ns ! k)))"

lemma progress_refl [simp]: "progress startPos ns ns"
  by (simp add: progress_def)

lemma progress_trans:
  assumes "progress startPos a b" "progress startPos b c"
  shows "progress startPos a c"
proof -
  have "length (nodes a) < length (nodes c) \<or> length (nodes a) = length (nodes c) \<and> (f_sum c < f_sum a \<or> c = a)"
    using assms(1) [unfolded progress_def, THEN conjunct1] assms(2) [unfolded progress_def, THEN conjunct1] by auto
  moreover have "node_pos startPos (nodes c ! k) = node_pos startPos (nodes a ! k)" if "k < length (nodes a)" for k
  proof -
    have "k < length (nodes b)"
      using assms(1) that unfolding progress_def by auto
    then have "node_pos startPos (nodes c ! k) = node_pos startPos (nodes b ! k)"
      using assms(2) unfolding progress_def by blast
    moreover have "node_pos startPos (nodes b ! k) = node_pos startPos (nodes a ! k)"
      using assms(1) that unfolding progress_def by blast
    ultimately show ?thesis
      by simp
  qed
  ultimately show ?thesis
    unfolding progress_def by blast
qed

definition visit_ok :: "Search \<Rightarrow> Position \<Rightarrow> AStarNodes \<Rightarrow> visit \<Rightarrow> bool" where
  "visit_ok s startPos ns v =
     (case v of
        NullTile \<Rightarrow> False
      | Visited ns' \<Rightarrow> nodes_ok s startPos ns' \<and> progress startPos ns ns'
      | NoRoom ns' \<Rightarrow> nodes_ok s startPos ns' \<and> progress startPos ns ns')"

lemma visit_ok_trans: "progress startPos a b \<Longrightarrow> visit_ok s startPos b v \<Longrightarrow> visit_ok s startPos a v"
  by (auto simp: visit_ok_def intro: progress_trans split: visit.splits)

lemma visit_cases:
  fixes s startPos n dx dy
  defines "pos \<equiv> Position (node_x n + word_of_int dx) (node_y n + word_of_int dy) (pos_z startPos)"
  shows "too_far s startPos pos \<or> keepDistance (fpp s) \<and> \<not> isInRange s startPos pos \<Longrightarrow>
      visit_neighbors s startPos i n ((dx, dy) # rest) ns = visit_neighbors s startPos i n rest ns"
    and "\<not> (too_far s startPos pos \<or> keepDistance (fpp s) \<and> \<not> isInRange s startPos pos) \<Longrightarrow>
      getNodeByPosition (pos_x pos) (pos_y pos) ns = Some k \<Longrightarrow> tile_at (field s) pos = Some tile \<Longrightarrow>
      visit_neighbors s startPos i n ((dx, dy) # rest) ns =
        (let newf = f_of n + getMapWalkCost n pos + getTileWalkCost s tile in
         if f_of (nodes ns ! k) \<le> newf then visit_neighbors s startPos i n rest ns
         else visit_neighbors s startPos i n rest
                (openNode k (ns\<lparr>nodes := (nodes ns)[k := (nodes ns ! k)\<lparr>f_of := newf, parent := Some i\<rparr>]\<rparr>)))"
    and "\<not> (too_far s startPos pos \<or> keepDistance (fpp s) \<and> \<not> isInRange s startPos pos) \<Longrightarrow>
      getNodeByPosition (pos_x pos) (pos_y pos) ns = None \<Longrightarrow> canWalkTo s pos = None \<Longrightarrow>
      visit_neighbors s startPos i n ((dx, dy) # rest) ns = visit_neighbors s startPos i n rest ns"
    and "\<not> (too_far s startPos pos \<or> keepDistance (fpp s) \<and> \<not> isInRange s startPos pos) \<Longrightarrow>
      getNodeByPosition (pos_x pos) (pos_y pos) ns = None \<Longrightarrow> canWalkTo s pos = Some tile \<Longrightarrow>
      visit_neighbors s startPos i n ((dx, dy) # rest) ns =
        (case createOpenNode (Some i) (pos_x pos) (pos_y pos) (f_of n + getMapWalkCost n pos + getTileWalkCost s tile) ns of
           None \<Rightarrow> NoRoom ns | Some ns' \<Rightarrow> visit_neighbors s startPos i n rest ns')"
  unfolding pos_def by (auto simp: Let_def split: option.split)

lemma visit_neighbors_ok:
  assumes tile: "tile_at (field s) startPos \<noteq> None"
  shows "nodes_ok s startPos ns \<Longrightarrow> i < length (nodes ns) \<Longrightarrow> nodes ns ! i = n \<Longrightarrow> set ds \<subseteq> set allNeighbors \<Longrightarrow>
    visit_ok s startPos ns (visit_neighbors s startPos i n ds ns)"
proof (induction ds arbitrary: ns)
  case Nil
  then show ?case
    by (simp add: visit_ok_def)
next
  case (Cons d rest)
  obtain dx dy where d: "d = (dx, dy)" "(dx, dy) \<in> set allNeighbors"
    using Cons.prems(4) by (cases d) auto
  define x y where "x = node_x n + word_of_int dx" and "y = node_y n + word_of_int dy"
  define pos where "pos = Position x y (pos_z startPos)"
  have p_xy: "pos_x pos = x" "pos_y pos = y"
    by (simp_all add: pos_def)
  have xy: "x = node_x (nodes ns ! i) + word_of_int dx" "y = node_y (nodes ns ! i) + word_of_int dy"
    using Cons.prems(3) by (simp_all add: x_def y_def)
  have more: "visit_ok s startPos ns (visit_neighbors s startPos i n rest ns)"
    using Cons by simp
  have next': "visit_ok s startPos ns (visit_neighbors s startPos i n rest ns')"
    if "nodes_ok s startPos ns'" "progress startPos ns ns'" "nodes ns' ! i = nodes ns ! i" for ns'
  proof (rule visit_ok_trans [OF that(2)], rule Cons.IH)
    show "i < length (nodes ns')"
      using that(2) Cons.prems(2) by (auto simp: progress_def)
  qed (use that Cons.prems in auto)
  consider "too_far s startPos pos \<or> keepDistance (fpp s) \<and> \<not> isInRange s startPos pos"
    | (old) k where "\<not> too_far s startPos pos" "\<not> (keepDistance (fpp s) \<and> \<not> isInRange s startPos pos)" "getNodeByPosition x y ns = Some k"
    | (new) "\<not> too_far s startPos pos" "\<not> (keepDistance (fpp s) \<and> \<not> isInRange s startPos pos)" "getNodeByPosition x y ns = None"
    by (cases "getNodeByPosition x y ns") auto
  then show ?case
  proof cases
    case 1
    then show ?thesis
      using more visit_cases(1) [of s startPos n dx dy, folded x_def y_def, folded pos_def] unfolding d by simp
  next
    case old
    have k: "k < length (nodes ns)" "node_x (nodes ns ! k) = x" "node_y (nodes ns ! k) = y"
      using nodes_okD(9) [OF Cons.prems(1), of x y k] old(3) by (auto simp: getNodeByPosition_def)
    have pos: "pos = node_pos startPos (nodes ns ! k)"
      by (simp add: pos_def node_pos_def k)
    have "tile_at (field s) pos \<noteq> None"
    proof (cases "k = 0")
      case True
      then show ?thesis
        using tile nodes_okD(6) [OF Cons.prems(1)] pos by simp
    next
      case False
      then have "canWalkTo s pos \<noteq> None"
        using nodes_okD(7) [OF Cons.prems(1), of k] k(1) unfolding node_ok_def allowed_def pos by blast
      then show ?thesis
        using canWalkTo_tile by fastforce
    qed
    then obtain tile' where tile': "tile_at (field s) pos = Some tile'"
      by blast
    define newf where "newf = f_of n + getMapWalkCost n pos + getTileWalkCost s tile'"
    have newf: "f_of n < newf"
      using getMapWalkCost_pos [of n pos] getTileWalkCost_nonneg [of s tile'] by (simp add: newf_def)
    define ns' where "ns' = openNode k (ns\<lparr>nodes := (nodes ns)[k := (nodes ns ! k)\<lparr>f_of := newf, parent := Some i\<rparr>]\<rparr>)"
    have step: "visit_neighbors s startPos i n (d # rest) ns =
        (if f_of (nodes ns ! k) \<le> newf then visit_neighbors s startPos i n rest ns else visit_neighbors s startPos i n rest ns')"
      using visit_cases(2) [of s startPos n dx dy, folded x_def y_def, folded pos_def, OF _ _ tile', of ns k i rest] old p_xy
      unfolding d ns'_def newf_def Let_def by simp
    show ?thesis
    proof (cases "f_of (nodes ns ! k) \<le> newf")
      case True
      then show ?thesis
        using more step by simp
    next
      case False
      have f0: "0 \<le> f_of n"
        using nodes_okD(8) [OF Cons.prems(1,2)] Cons.prems(3) by simp
      have "k \<noteq> 0"
      proof
        assume "k = 0"
        then show False
          using False nodes_okD(5) [OF Cons.prems(1)] f0 newf by simp
      qed
      moreover have "k \<noteq> i"
        using neighbor_elsewhere [OF d(2), of "node_x n" "node_y n"] k(2,3) Cons.prems(3) x_def y_def by metis
      moreover have "beside (nodes ns ! i) (nodes ns ! k)"
        using k(2,3) xy d(2) unfolding beside_def by blast
      ultimately have good: "nodes_ok s startPos ns'" "length (nodes ns') = length (nodes ns)" "nodes ns' ! i = nodes ns ! i"
          "f_sum ns' < f_sum ns"
        using cheaper_ok [OF Cons.prems(1,2) k(1), of newf] newf False Cons.prems(3)
        unfolding ns'_def f_sum_def by simp_all
      have same_place: "node_pos startPos (nodes ns' ! j) = node_pos startPos (nodes ns ! j)" for j
      proof -
        have "nodes ns' = (nodes ns)[k := (nodes ns ! k)\<lparr>f_of := newf, parent := Some i\<rparr>]"
          by (simp add: ns'_def openNode_def)
        then show ?thesis
          using k(1) by (cases "j = k") (simp_all add: node_pos_def)
      qed
      have "progress startPos ns ns'"
        using good(2,4) same_place unfolding progress_def by simp
      then show ?thesis
        using False step next' good by simp
    qed
  next
    case new
    show ?thesis
    proof (cases "canWalkTo s pos")
      case None
      then show ?thesis
        using more visit_cases(3) [of s startPos n dx dy, folded x_def y_def, folded pos_def] new p_xy unfolding d by simp
    next
      case (Some tile')
      define newf where "newf = f_of n + getMapWalkCost n pos + getTileWalkCost s tile'"
      have newf: "f_of n < newf"
        using getMapWalkCost_pos [of n pos] getTileWalkCost_nonneg [of s tile'] by (simp add: newf_def)
      have step: "visit_neighbors s startPos i n (d # rest) ns =
          (case createOpenNode (Some i) x y newf ns of None \<Rightarrow> NoRoom ns | Some ns' \<Rightarrow> visit_neighbors s startPos i n rest ns')"
        using visit_cases(4) [of s startPos n dx dy, folded x_def y_def, folded pos_def, OF _ _ Some, of ns i rest] new p_xy
        unfolding d newf_def by simp
      show ?thesis
      proof (cases "createOpenNode (Some i) x y newf ns")
        case None
        then show ?thesis
          using Cons.prems(1) step by (simp add: visit_ok_def)
      next
        case made: (Some ns')
        have "allowed s startPos (Position x y (pos_z startPos))"
          using new Some by (auto simp: allowed_def pos_def)
        note new' = create_ok_nodes [OF Cons.prems(1,2) d(2) xy this _ made]
        have "nodes_ok s startPos ns'" "length (nodes ns') = Suc (length (nodes ns))" "nodes ns' ! i = nodes ns ! i"
          using new' newf Cons.prems(3) by simp_all
        moreover have "progress startPos ns ns'"
          using made by (auto simp: progress_def createOpenNode_def nth_append split: if_splits)
        ultimately show ?thesis
          using made step next' by simp
      qed
    qed
  qed
qed


section \<open>The loop\<close>

definition meets_condition :: "Search \<Rightarrow> Position \<Rightarrow> Position \<Rightarrow> bool" where
  "meets_condition s startPos p =
     (isInRange s startPos p \<and>
      (clearSight (fpp s) \<longrightarrow> isSightClear (surroundings s) (field s) p (targetPos s) True = Some True) \<and>
      (let d = max (getDistanceX (targetPos s) p) (getDistanceY (targetPos s) p)
       in minTargetDist (fpp s) \<le> d \<and> d \<le> maxTargetDist (fpp s)))"

lemma pathCondition_meets: "fst (pathCondition s startPos p b) \<Longrightarrow> meets_condition s startPos p"
  by (auto simp: pathCondition_def meets_condition_def Let_def split: if_splits)

lemma best_from_open:
  assumes "best_from i xs bf best = Some k"
  shows "best = Some k \<or> i \<le> k \<and> k < i + length xs \<and> fst (xs ! (k - i))"
  using assms
proof (induction i xs bf best rule: best_from.induct)
  case (2 i opened n rest best_f best)
  show ?case
  proof (cases "opened \<and> f_of n < best_f")
    case True
    then have "Some i = Some k \<or> Suc i \<le> k \<and> k < Suc i + length rest \<and> fst (rest ! (k - Suc i))"
      using 2(1) [OF True] 2(3) by simp
    then show ?thesis
      using True by (auto simp: nth_Cons' Suc_le_eq)
  next
    case False
    then have "best = Some k \<or> Suc i \<le> k \<and> k < Suc i + length rest \<and> fst (rest ! (k - Suc i))"
      using 2(2) [OF False] 2(3) [unfolded best_from.simps if_not_P [OF False]] by simp
    then show ?thesis
      by (auto simp: nth_Cons' Suc_le_eq)
  qed
qed simp

lemma getBestNode_open:
  assumes "nodes_ok s startPos ns" "getBestNode ns = Some i"
  shows "i < length (nodes ns)" "openNodes ns ! i"
proof -
  have both: "i < length (zip (openNodes ns) (nodes ns)) \<and> fst (zip (openNodes ns) (nodes ns) ! i)"
    using best_from_open [OF assms(2) [unfolded getBestNode_def], unfolded add_0 diff_zero] by blast
  have len: "length (openNodes ns) = length (nodes ns)"
    by (rule nodes_okD(3) [OF assms(1)])
  show i: "i < length (nodes ns)"
    using both [THEN conjunct1] len by simp
  show "openNodes ns ! i"
    using both [THEN conjunct2] i len by simp
qed

lemma closeNode_ok: "nodes_ok s startPos ns \<Longrightarrow> nodes_ok s startPos (closeNode i ns)"
  by (simp add: nodes_ok_def closeNode_def)

definition found_ok :: "Search \<Rightarrow> Position \<Rightarrow> (nat \<times> Position) option \<Rightarrow> AStarNodes \<Rightarrow> bool" where
  "found_ok s startPos found ns =
     (case found of None \<Rightarrow> True
      | Some (k, p) \<Rightarrow> k < length (nodes ns) \<and> p = node_pos startPos (nodes ns ! k) \<and> meets_condition s startPos p)"

lemma found_ok_progress:
  assumes "found_ok s startPos found ns" "progress startPos ns ns'"
  shows "found_ok s startPos found (closeNode i ns')"
proof (cases found)
  case (Some kp)
  obtain k p where kp: "kp = (k, p)"
    by (cases kp)
  have k: "k < length (nodes ns)" "p = node_pos startPos (nodes ns ! k)" "meets_condition s startPos p"
    using assms(1) unfolding found_ok_def Some kp option.case prod.case by blast+
  have "k < length (nodes ns')"
    using k(1) assms(2) [unfolded progress_def, THEN conjunct1] by auto
  moreover have "node_pos startPos (nodes ns' ! k) = node_pos startPos (nodes ns ! k)"
    using k(1) assms(2) unfolding progress_def by blast
  ultimately show ?thesis
    using k by (simp add: found_ok_def Some kp closeNode_def)
qed (simp add: found_ok_def)

definition outcome_ok :: "Search \<Rightarrow> Position \<Rightarrow> outcome \<Rightarrow> bool" where
  "outcome_ok s startPos r =
     (case r of Crash \<Rightarrow> False | NoPath \<Rightarrow> True
      | FoundNode k p ns \<Rightarrow> nodes_ok s startPos ns \<and> found_ok s startPos (Some (k, p)) ns)"

definition open_count :: "AStarNodes \<Rightarrow> nat" where "open_count ns = length (filter id (openNodes ns))"

lemma open_count_close:
  assumes "i < length (openNodes ns)" "openNodes ns ! i"
  shows "open_count (closeNode i ns) < open_count ns"
proof -
  have split: "openNodes ns = take i (openNodes ns) @ True # drop (Suc i) (openNodes ns)"
    using id_take_nth_drop [OF assms(1)] assms(2) by simp
  have split': "openNodes (closeNode i ns) = take i (openNodes ns) @ False # drop (Suc i) (openNodes ns)"
    using assms(1) by (simp add: closeNode_def upd_conv_take_nth_drop)
  show ?thesis
    unfolding open_count_def split' by (subst (3) split) simp
qed

text \<open>Every turn of the loop uses up room for nodes, or makes nodes cheaper, or closes one for good.\<close>

definition search_measure :: "(AStarNodes \<times> AStarNodes) set" where
  "search_measure = measures [\<lambda>ns. MAX_NODES - length (nodes ns), f_sum, open_count]"

lemma turn_decreases:
  assumes ok: "nodes_ok s startPos ns" and ok': "nodes_ok s startPos ns'" and p: "progress startPos ns ns'"
    and i: "getBestNode ns = Some i"
  shows "(closeNode i ns', ns) \<in> search_measure"
proof -
  have c: "length (nodes (closeNode i ns')) = length (nodes ns')" "f_sum (closeNode i ns') = f_sum ns'"
    by (simp_all add: closeNode_def f_sum_def)
  note o = getBestNode_open [OF ok i]
  have "open_count (closeNode i ns) < open_count ns"
    using open_count_close o nodes_okD(3) [OF ok] by simp
  then show ?thesis
    using p [unfolded progress_def, THEN conjunct1] nodes_okD(2) [OF ok'] unfolding search_measure_def
    by (auto simp: c)
qed

lemma search_loop_ok:
  assumes tile: "tile_at (field s) startPos \<noteq> None"
  shows "nodes_ok s startPos ns \<Longrightarrow> found_ok s startPos found ns \<Longrightarrow>
    \<exists>r. search_loop s startPos found best ns = Some r \<and> outcome_ok s startPos r"
proof (induction ns arbitrary: found best rule: wf_induct_rule [OF wf_measures, of "[\<lambda>ns. MAX_NODES - length (nodes ns), f_sum, open_count]"])
  case (1 ns)
  note IH = 1(1) [folded search_measure_def] and ok = 1(2) and found = 1(3)
  define res where "res = (case found of None \<Rightarrow> NoPath | Some (k, endPos) \<Rightarrow> FoundNode k endPos ns)"
  have fin: "outcome_ok s startPos res"
    using ok found by (auto simp: res_def outcome_ok_def found_ok_def split: option.split prod.split)
  show ?case
  proof (cases "(maxSearchDist (fpp s) \<noteq> 0 \<or> closedNodes ns < 100) \<and> getBestNode ns \<noteq> None")
    case False
    then have "search_loop s startPos found best ns = Some res"
      by (subst search_loop.simps) (auto simp: Let_def res_def split: option.split)
    then show ?thesis
      using fin by blast
  next
    case True
    then obtain i where i: "getBestNode ns = Some i"
      by blast
    define n where "n = nodes ns ! i"
    define pos where "pos = node_pos startPos n"
    obtain hit best' where hit: "pathCondition s startPos pos best = (hit, best')"
      by (cases "pathCondition s startPos pos best")
    define found' where "found' = (if hit then Some (i, pos) else found)"
    define v where "v = visit_neighbors s startPos i n (neighbors_of (allowDiagonal (fpp s)) ns n) ns"
    have i_len: "i < length (nodes ns)"
      using getBestNode_open [OF ok i] by blast
    have found': "found_ok s startPos found' ns"
      using found i_len pathCondition_meets [of s startPos pos best] hit by (auto simp: found'_def found_ok_def pos_def n_def)
    have step: "search_loop s startPos found best ns =
        (if hit \<and> best' = 0 then Some (FoundNode i pos ns)
         else (case v of
                 NullTile \<Rightarrow> Some Crash
               | NoRoom ns' \<Rightarrow> if found' \<noteq> None then search_loop s startPos found' best' (closeNode i ns') else Some NoPath
               | Visited ns' \<Rightarrow> search_loop s startPos found' best' (closeNode i ns')))"
    proof -
      have c: "maxSearchDist (fpp s) \<noteq> 0 \<or> closedNodes ns < 100"
        using True by blast
      show ?thesis
        unfolding search_loop.simps [of s startPos found best ns] Let_def if_P [OF c] i option.case
          n_def [symmetric] pos_def [symmetric] hit prod.case found'_def [symmetric] v_def [symmetric] ..
    qed
    have v: "visit_ok s startPos ns v"
      unfolding v_def by (rule visit_neighbors_ok [OF tile ok i_len n_def [symmetric] neighbors_among])
    have go: "\<exists>r. search_loop s startPos found' best' (closeNode i ns') = Some r \<and> outcome_ok s startPos r"
      if "nodes_ok s startPos ns'" "progress startPos ns ns'" for ns'
      by (rule IH [OF turn_decreases [OF ok that i]])
        (use closeNode_ok [OF that(1)] found_ok_progress [OF found' that(2)] in blast)+
    show ?thesis
    proof (cases "hit \<and> best' = 0")
      case True
      then have "outcome_ok s startPos (FoundNode i pos ns)"
        using ok found' by (simp add: outcome_ok_def found'_def)
      then show ?thesis
        using True step by simp
    next
      case False
      note step' = step [unfolded if_not_P [OF False]]
      show ?thesis
      proof (cases v)
        case (Visited ns')
        then show ?thesis
          using step' go v by (simp add: visit_ok_def)
      next
        case (NoRoom ns')
        show ?thesis
        proof (cases "found' = None")
          case True
          then show ?thesis
            using step' NoRoom by (simp add: outcome_ok_def)
        next
          case False
          then show ?thesis
            using step' go v NoRoom by (simp add: visit_ok_def)
        qed
      next
        case NullTile
        then show ?thesis
          using v by (simp add: visit_ok_def)
      qed
    qed
  qed
qed


section \<open>The way back\<close>

fun walks :: "Position \<Rightarrow> Direction list \<Rightarrow> Position list" where
  "walks p [] = []"
| "walks p (d # ds) = getNextPosition d p # walks (getNextPosition d p) ds"

lemma walks_append: "walks p (ds @ [d]) = walks p ds @ [getNextPosition d (last (p # walks p ds))]"
  by (induction ds arbitrary: p) simp_all

text \<open>No tile lies on the last column or row: what keeps a step from wrapping round the edge.\<close>

definition edge_free :: "Tile Map \<Rightarrow> bool" where
  "edge_free m = (\<forall>p. pos_x p = 65535 \<or> pos_y p = 65535 \<longrightarrow> tile_at m p = None)"

lemma step_uint:
  fixes a :: u16
  assumes "a \<noteq> 65535" "a + word_of_int d \<noteq> 65535" "d \<in> {-1, 0, 1}"
  shows "uint (a + word_of_int d) = uint a + d"
proof -
  have max: "uint a \<noteq> 65535" and lt: "uint a < 65536"
    using assms(1) uint_lt2p [of a] by (auto simp: word_uint_eq_iff)
  consider "d = 0" | "d = 1" | "d = -1"
    using assms(3) by blast
  then show ?thesis
  proof cases
    case 2
    then show ?thesis
      using max lt uint_succ [of a] by simp
  next
    case 3
    have "a \<noteq> 0"
      using assms(2) 3 by auto
    then have "0 < uint a"
      using uint_ge_0 [of a] by (simp add: word_uint_eq_iff order.strict_iff_order)
    then show ?thesis
      using 3 uint_pred [of a] by simp
  qed simp
qed

lemma push_direction_leads:
  assumes d: "(dx, dy) \<in> set allNeighbors"
    and x: "node_x n = node_x p + word_of_int dx" and y: "node_y n = node_y p + word_of_int dy"
    and ux: "uint (node_x n) = uint (node_x p) + dx" and uy: "uint (node_y n) = uint (node_y p) + dy"
  shows "\<exists>d. (\<forall>ds. push_direction (uint (node_x p) - uint (node_x n)) (uint (node_y p) - uint (node_y n)) ds = d # ds) \<and>
    getNextPosition d (node_pos startPos p) = node_pos startPos n"
proof -
  have diff: "uint (node_x p) - uint (node_x n) = - dx" "uint (node_y p) - uint (node_y n) = - dy"
    using ux uy by simp_all
  show ?thesis
    using d unfolding diff unfolding allNeighbors_def node_pos_def x y by (auto simp: push_direction_def)
qed

lemma node_tile:
  assumes tile: "tile_at (field s) startPos \<noteq> None" and ok: "nodes_ok s startPos ns" and k: "k < length (nodes ns)"
  shows "tile_at (field s) (node_pos startPos (nodes ns ! k)) \<noteq> None"
proof (cases "k = 0")
  case True
  then show ?thesis
    using tile nodes_okD(6) [OF ok] by simp
next
  case False
  then have "canWalkTo s (node_pos startPos (nodes ns ! k)) \<noteq> None"
    using nodes_okD(7) [OF ok, of k] k unfolding node_ok_def allowed_def by blast
  then show ?thesis
    using canWalkTo_tile by fastforce
qed

lemma trace_back_ok:
  assumes tile: "tile_at (field s) startPos \<noteq> None" and ok: "nodes_ok s startPos ns"
  shows "k < length (nodes ns) \<Longrightarrow>
    \<exists>ds. (\<forall>dirs. \<exists>ds'. trace_back ns (node_x (nodes ns ! k)) (node_y (nodes ns ! k)) (parent (nodes ns ! k)) dirs = Some (ds' @ dirs) \<and>
            (edge_free (field s) \<longrightarrow> ds' = ds)) \<and>
      (edge_free (field s) \<longrightarrow> last (startPos # walks startPos ds) = node_pos startPos (nodes ns ! k) \<and>
         (\<forall>q\<in>set (walks startPos ds). allowed s startPos q))"
proof (induction "nat (f_of (nodes ns ! k))" arbitrary: k rule: less_induct)
  case less
  show ?case
  proof (cases "k = 0")
    case True
    then show ?thesis
      using nodes_okD(4,6) [OF ok] by (intro exI [of _ "[]"]) (simp add: trace_back.simps)
  next
    case False
    then obtain p where p: "p < length (nodes ns)" "parent (nodes ns ! k) = Some p" "f_of (nodes ns ! p) < f_of (nodes ns ! k)"
        "beside (nodes ns ! p) (nodes ns ! k)" and al: "allowed s startPos (node_pos startPos (nodes ns ! k))"
      using nodes_okD(7) [OF ok, of k] less.prems unfolding node_ok_def by blast
    have "nat (f_of (nodes ns ! p)) < nat (f_of (nodes ns ! k))"
      using p(3) nodes_okD(8) [OF ok p(1)] by simp
    from less.hyps [OF this p(1)] obtain ds where
      bk: "\<And>dirs. \<exists>ds'. trace_back ns (node_x (nodes ns ! p)) (node_y (nodes ns ! p)) (parent (nodes ns ! p)) dirs = Some (ds' @ dirs) \<and>
            (edge_free (field s) \<longrightarrow> ds' = ds)"
      and leads: "edge_free (field s) \<longrightarrow> last (startPos # walks startPos ds) = node_pos startPos (nodes ns ! p) \<and>
         (\<forall>q\<in>set (walks startPos ds). allowed s startPos q)"
      by blast
    define push where "push dirs = push_direction (uint (node_x (nodes ns ! p)) - uint (node_x (nodes ns ! k)))
        (uint (node_y (nodes ns ! p)) - uint (node_y (nodes ns ! k))) dirs" for dirs
    have step: "trace_back ns (node_x (nodes ns ! k)) (node_y (nodes ns ! k)) (parent (nodes ns ! k)) dirs =
        trace_back ns (node_x (nodes ns ! p)) (node_y (nodes ns ! p)) (parent (nodes ns ! p)) (push dirs)" for dirs
      by (subst trace_back.simps) (simp add: p(2) Let_def push_def)
    have pushed: "\<exists>es. push dirs = es @ dirs" for dirs
      by (auto simp: push_def push_direction_def)
    show ?thesis
    proof (cases "edge_free (field s)")
      case False
      have "\<exists>ds'. trace_back ns (node_x (nodes ns ! k)) (node_y (nodes ns ! k)) (parent (nodes ns ! k)) dirs = Some (ds' @ dirs)" for dirs
        using bk [of "push dirs"] pushed [of dirs] unfolding step by (metis append.assoc)
      then show ?thesis
        using False by blast
    next
      case True
      obtain dx dy where d: "(dx, dy) \<in> set allNeighbors" "node_x (nodes ns ! k) = node_x (nodes ns ! p) + word_of_int dx"
          "node_y (nodes ns ! k) = node_y (nodes ns ! p) + word_of_int dy"
        using p(4) unfolding beside_def by blast
      have inner: "node_x (nodes ns ! j) \<noteq> 65535" "node_y (nodes ns ! j) \<noteq> 65535" if "j < length (nodes ns)" for j
        using node_tile [OF tile ok that] True unfolding edge_free_def node_pos_def by fastforce+
      have dd: "dx \<in> {-1, 0, 1}" "dy \<in> {-1, 0, 1}"
        using d(1) by (auto simp: allNeighbors_def)
      have ux: "uint (node_x (nodes ns ! k)) = uint (node_x (nodes ns ! p)) + dx"
        using step_uint [of "node_x (nodes ns ! p)" dx] inner [OF p(1)] inner [OF less.prems] dd unfolding d(2) by blast
      have uy: "uint (node_y (nodes ns ! k)) = uint (node_y (nodes ns ! p)) + dy"
        using step_uint [of "node_y (nodes ns ! p)" dy] inner [OF p(1)] inner [OF less.prems] dd unfolding d(3) by blast
      obtain dir where dir: "\<And>ds. push ds = dir # ds"
          "getNextPosition dir (node_pos startPos (nodes ns ! p)) = node_pos startPos (nodes ns ! k)"
        using push_direction_leads [OF d ux uy, of startPos] unfolding push_def by blast
      have "trace_back ns (node_x (nodes ns ! k)) (node_y (nodes ns ! k)) (parent (nodes ns ! k)) dirs = Some ((ds @ [dir]) @ dirs)" for dirs
        using bk [of "push dirs"] True unfolding step dir(1) by auto
      moreover have "walks startPos (ds @ [dir]) = walks startPos ds @ [node_pos startPos (nodes ns ! k)]"
        using leads True dir(2) by (simp add: walks_append)
      ultimately show ?thesis
        using leads True al by (intro exI [of _ "ds @ [dir]"]) auto
    qed
  qed
qed

section \<open>What a search gives\<close>

lemma getPathMatching_outcome:
  assumes tile: "tile_at (field s) (walker_pos (walker s)) \<noteq> None"
  defines "startPos \<equiv> walker_pos (walker s)"
  shows "getPathMatching s dirList = Some NoPathFound \<or>
    (\<exists>ds. getPathMatching s dirList = Some (PathFound (ds @ dirList)) \<and>
      (edge_free (field s) \<longrightarrow>
         meets_condition s startPos (last (startPos # walks startPos ds)) \<and>
         (\<forall>q\<in>set (walks startPos ds). allowed s startPos q)))"
proof -
  have first: "nodes_ok s startPos (first_nodes (pos_x startPos) (pos_y startPos))"
    using first_nodes_ok [of s "pos_x startPos" "pos_y startPos" "pos_z startPos"] by simp
  have none: "found_ok s startPos None ns" for ns
    by (simp add: found_ok_def)
  obtain r where r: "search_loop s startPos None 0 (first_nodes (pos_x startPos) (pos_y startPos)) = Some r" "outcome_ok s startPos r"
    using search_loop_ok [OF tile [folded startPos_def] first none] by blast
  show ?thesis
  proof (cases r)
    case NoPath
    then show ?thesis
      using r(1) by (simp add: getPathMatching_def startPos_def)
  next
    case Crash
    then show ?thesis
      using r(2) by (simp add: outcome_ok_def)
  next
    case (FoundNode k endPos ns)
    have ok: "nodes_ok s startPos ns" and k: "k < length (nodes ns)" "endPos = node_pos startPos (nodes ns ! k)"
      "meets_condition s startPos endPos"
      using r(2) unfolding FoundNode outcome_ok_def found_ok_def outcome.case option.case prod.case by blast+
    obtain ds where bk: "\<And>dirs. \<exists>ds'. trace_back ns (node_x (nodes ns ! k)) (node_y (nodes ns ! k)) (parent (nodes ns ! k)) dirs = Some (ds' @ dirs) \<and>
          (edge_free (field s) \<longrightarrow> ds' = ds)"
      and leads: "edge_free (field s) \<longrightarrow> last (startPos # walks startPos ds) = node_pos startPos (nodes ns ! k) \<and>
         (\<forall>q\<in>set (walks startPos ds). allowed s startPos q)"
      using trace_back_ok [OF tile [folded startPos_def] ok k(1)] by blast
    obtain ds' where ds': "trace_back ns (pos_x endPos) (pos_y endPos) (parent (nodes ns ! k)) dirList = Some (ds' @ dirList)"
        "edge_free (field s) \<longrightarrow> ds' = ds"
      using bk [of dirList] by (auto simp: k(2) node_pos_def)
    have "getPathMatching s dirList = Some (PathFound (ds' @ dirList))"
      using r(1) ds'(1) by (simp add: getPathMatching_def startPos_def [symmetric] FoundNode)
    then show ?thesis
      using ds'(2) leads k(2,3) by auto
  qed
qed


text \<open>C12: \<open>Map::getPathMatching\<close> always returns, and on no map does it dereference a null tile: the search ends
  although nodes are opened again whenever a cheaper way to them is found and although without a limit on the
  distance it runs on while nodes are open, for there are at most 512 nodes and their costs only fall; and the
  way back along the parents ends, for a parent always costs less.\<close>
theorem path_search_answers:
  assumes "tile_at (field s) (walker_pos (walker s)) \<noteq> None"
  shows "getPathMatching s dirList \<noteq> None \<and> getPathMatching s dirList \<noteq> Some NullPointer"
  using getPathMatching_outcome [OF assms, of dirList] by auto

text \<open>C11: on a map with no tile in its last column and row (\<open>edge_free\<close>), the directions
  \<open>Map::getPathMatching\<close> puts before a list lead, one step after the other from where the
  creature is, only over tiles \<open>canWalkTo\<close> allows it, within the distance of search and, when it keeps its
  distance, within range of the target; and they end at a place that meets the condition: in range,
  in sight if that is asked for, and at a distance between the least and the greatest.  A tile in the column or
  row 65535 has neighbours in the column or row 0, for the coordinates wrap; a step between them is no
  difference of one, and the code puts no direction for it.\<close>
theorem found_path_leads_to_target:
  assumes "tile_at (field s) (walker_pos (walker s)) \<noteq> None" and "edge_free (field s)"
    and "getPathMatching s dirList = Some (PathFound dirs)"
  shows "\<exists>ds. dirs = ds @ dirList \<and>
    list_all (allowed s (walker_pos (walker s))) (walks (walker_pos (walker s)) ds) \<and>
    meets_condition s (walker_pos (walker s)) (last (walker_pos (walker s) # walks (walker_pos (walker s)) ds))"
  using getPathMatching_outcome [OF assms(1), of dirList] assms(2,3) by (auto simp: list_all_iff)

section \<open>One step east\<close>

definition two_tiles :: "Tile Map" where
  "two_tiles = load_tiles meadow [(Position 1000 1000 7, bare_tile), (Position 1001 1000 7, bare_tile)]"

definition step_east :: Search where
  "step_east = \<lparr>surroundings = meadow, beings = \<lambda>_. plain_being, field = two_tiles,
     walker = \<lparr>walker_addr = 5, walker_pos = Position 1000 1000 7, useCacheMap = True, localMapCache = \<lambda>_ _. True,
       has_access = \<lambda>_. False, plainly_seen = \<lambda>_. True\<rparr>,
     targetPos = Position 1002 1000 7,
     fpp = \<lparr>fullPathSearch = True, clearSight = False, allowDiagonal = True, keepDistance = False, maxSearchDist = 0,
       minTargetDist = 1, maxTargetDist = 1\<rparr>\<rparr>"

lemma step_east_found: "getPathMatching step_east [] = Some (PathFound [DIRECTION_EAST])"
  by code_simp


lemma two_tiles_at:
  "tile_at two_tiles = [Position 1000 1000 7 \<mapsto> bare_tile, Position 1001 1000 7 \<mapsto> bare_tile]"
  using load_tiles_store [OF map_ok_new, of meadow "[(Position 1000 1000 7, bare_tile), (Position 1001 1000 7, bare_tile)]"]
  by (simp add: two_tiles_def load_tiles_def tile_at_new store_tile_def)

lemma step_east_start: "tile_at (field step_east) (walker_pos (walker step_east)) \<noteq> None"
  by (simp add: step_east_def two_tiles_at)

theorem path_search_answers_witness:
  "tile_at (field step_east) (walker_pos (walker step_east)) \<noteq> None \<and>
   getPathMatching step_east [DIRECTION_WEST] \<noteq> None \<and> getPathMatching step_east [DIRECTION_WEST] \<noteq> Some NullPointer"
  using path_search_answers [OF step_east_start, of "[DIRECTION_WEST]"] step_east_start by blast

theorem found_path_leads_to_target_witness:
  "getPathMatching step_east [] = Some (PathFound [DIRECTION_EAST]) \<and>
   (\<exists>ds. [DIRECTION_EAST] = ds @ [] \<and> list_all (allowed step_east (Position 1000 1000 7)) (walks (Position 1000 1000 7) ds) \<and>
     meets_condition step_east (Position 1000 1000 7) (last (Position 1000 1000 7 # walks (Position 1000 1000 7) ds)))"
proof -
  have "edge_free (field step_east)"
    by (auto simp: edge_free_def step_east_def two_tiles_at)
  from found_path_leads_to_target [OF step_east_start this step_east_found] show ?thesis
    using step_east_found by (simp add: step_east_def)
qed

end
