(* ===== verification/Conditions.thy ===== *)
theory Conditions
  imports PropStream Enums "HOL-Library.Signed_Division"
begin

text \<open>
  Conditions: what befalls a creature for a time (condition.h, condition.cpp).  A condition is the
  fields of the class Condition and those of its subclass; the subclasses that add no fields are
  told apart by their constructor.  Signed 32-bit fields are words read with \<open>sint\<close>; floating-point
  fields are their bit patterns; the clock \<open>OTSYS_TIME()\<close> is the argument \<open>now\<close>.  This theory holds
  the data, the parameters that scripts set, and the form in which conditions are saved with a
  player (iologindata.cpp).
\<close>

section \<open>Enumerations\<close>

text \<open>The kinds of conditions are single bits.\<close>

definition CONDITION_NONE :: u32 where "CONDITION_NONE = 0"
definition CONDITION_POISON :: u32 where "CONDITION_POISON = 1"
definition CONDITION_FIRE :: u32 where "CONDITION_FIRE = 2"
definition CONDITION_ENERGY :: u32 where "CONDITION_ENERGY = 4"
definition CONDITION_BLEEDING :: u32 where "CONDITION_BLEEDING = 8"
definition CONDITION_HASTE :: u32 where "CONDITION_HASTE = 16"
definition CONDITION_PARALYZE :: u32 where "CONDITION_PARALYZE = 32"
definition CONDITION_OUTFIT :: u32 where "CONDITION_OUTFIT = 64"
definition CONDITION_INVISIBLE :: u32 where "CONDITION_INVISIBLE = 128"
definition CONDITION_LIGHT :: u32 where "CONDITION_LIGHT = 256"
definition CONDITION_MANASHIELD :: u32 where "CONDITION_MANASHIELD = 512"
definition CONDITION_INFIGHT :: u32 where "CONDITION_INFIGHT = 1024"
definition CONDITION_DRUNK :: u32 where "CONDITION_DRUNK = 2048"
definition CONDITION_EXHAUST_WEAPON :: u32 where "CONDITION_EXHAUST_WEAPON = 4096"
definition CONDITION_REGENERATION :: u32 where "CONDITION_REGENERATION = 8192"
definition CONDITION_SOUL :: u32 where "CONDITION_SOUL = 16384"
definition CONDITION_DROWN :: u32 where "CONDITION_DROWN = 32768"
definition CONDITION_MUTED :: u32 where "CONDITION_MUTED = 65536"
definition CONDITION_CHANNELMUTEDTICKS :: u32 where "CONDITION_CHANNELMUTEDTICKS = 131072"
definition CONDITION_YELLTICKS :: u32 where "CONDITION_YELLTICKS = 262144"
definition CONDITION_ATTRIBUTES :: u32 where "CONDITION_ATTRIBUTES = 524288"
definition CONDITION_FREEZING :: u32 where "CONDITION_FREEZING = 1048576"
definition CONDITION_DAZZLED :: u32 where "CONDITION_DAZZLED = 2097152"
definition CONDITION_CURSED :: u32 where "CONDITION_CURSED = 4194304"
definition CONDITION_EXHAUST_COMBAT :: u32 where "CONDITION_EXHAUST_COMBAT = 8388608"
definition CONDITION_EXHAUST_HEAL :: u32 where "CONDITION_EXHAUST_HEAL = 16777216"
definition CONDITION_PACIFIED :: u32 where "CONDITION_PACIFIED = 33554432"
definition CONDITION_SPELLCOOLDOWN :: u32 where "CONDITION_SPELLCOOLDOWN = 67108864"
definition CONDITION_SPELLGROUPCOOLDOWN :: u32 where "CONDITION_SPELLGROUPCOOLDOWN = 134217728"

lemmas condition_types =
  CONDITION_NONE_def CONDITION_POISON_def CONDITION_FIRE_def CONDITION_ENERGY_def
  CONDITION_BLEEDING_def CONDITION_HASTE_def CONDITION_PARALYZE_def CONDITION_OUTFIT_def
  CONDITION_INVISIBLE_def CONDITION_LIGHT_def CONDITION_MANASHIELD_def CONDITION_INFIGHT_def
  CONDITION_DRUNK_def CONDITION_EXHAUST_WEAPON_def CONDITION_REGENERATION_def CONDITION_SOUL_def
  CONDITION_DROWN_def CONDITION_MUTED_def CONDITION_CHANNELMUTEDTICKS_def
  CONDITION_YELLTICKS_def CONDITION_ATTRIBUTES_def CONDITION_FREEZING_def CONDITION_DAZZLED_def
  CONDITION_CURSED_def CONDITION_EXHAUST_COMBAT_def CONDITION_EXHAUST_HEAL_def
  CONDITION_PACIFIED_def CONDITION_SPELLCOOLDOWN_def CONDITION_SPELLGROUPCOOLDOWN_def

text \<open>An id is a signed byte.\<close>

definition CONDITIONID_DEFAULT :: u8 where "CONDITIONID_DEFAULT = - 1"
definition CONDITIONID_COMBAT :: u8 where "CONDITIONID_COMBAT = 0"
definition CONDITIONID_HEAD :: u8 where "CONDITIONID_HEAD = 1"
definition CONDITIONID_NECKLACE :: u8 where "CONDITIONID_NECKLACE = 2"
definition CONDITIONID_BACKPACK :: u8 where "CONDITIONID_BACKPACK = 3"
definition CONDITIONID_ARMOR :: u8 where "CONDITIONID_ARMOR = 4"
definition CONDITIONID_RIGHT :: u8 where "CONDITIONID_RIGHT = 5"
definition CONDITIONID_LEFT :: u8 where "CONDITIONID_LEFT = 6"
definition CONDITIONID_LEGS :: u8 where "CONDITIONID_LEGS = 7"
definition CONDITIONID_FEET :: u8 where "CONDITIONID_FEET = 8"
definition CONDITIONID_RING :: u8 where "CONDITIONID_RING = 9"
definition CONDITIONID_AMMO :: u8 where "CONDITIONID_AMMO = 10"

lemmas condition_ids =
  CONDITIONID_DEFAULT_def CONDITIONID_COMBAT_def CONDITIONID_HEAD_def CONDITIONID_NECKLACE_def
  CONDITIONID_BACKPACK_def CONDITIONID_ARMOR_def CONDITIONID_RIGHT_def CONDITIONID_LEFT_def
  CONDITIONID_LEGS_def CONDITIONID_FEET_def CONDITIONID_RING_def CONDITIONID_AMMO_def

text \<open>The tags of the stored form.\<close>

definition CONDITIONATTR_TYPE :: nat where "CONDITIONATTR_TYPE = 1"
definition CONDITIONATTR_ID :: nat where "CONDITIONATTR_ID = 2"
definition CONDITIONATTR_TICKS :: nat where "CONDITIONATTR_TICKS = 3"
definition CONDITIONATTR_HEALTHTICKS :: nat where "CONDITIONATTR_HEALTHTICKS = 4"
definition CONDITIONATTR_HEALTHGAIN :: nat where "CONDITIONATTR_HEALTHGAIN = 5"
definition CONDITIONATTR_MANATICKS :: nat where "CONDITIONATTR_MANATICKS = 6"
definition CONDITIONATTR_MANAGAIN :: nat where "CONDITIONATTR_MANAGAIN = 7"
definition CONDITIONATTR_DELAYED :: nat where "CONDITIONATTR_DELAYED = 8"
definition CONDITIONATTR_OWNER :: nat where "CONDITIONATTR_OWNER = 9"
definition CONDITIONATTR_INTERVALDATA :: nat where "CONDITIONATTR_INTERVALDATA = 10"
definition CONDITIONATTR_SPEEDDELTA :: nat where "CONDITIONATTR_SPEEDDELTA = 11"
definition CONDITIONATTR_FORMULA_MINA :: nat where "CONDITIONATTR_FORMULA_MINA = 12"
definition CONDITIONATTR_FORMULA_MINB :: nat where "CONDITIONATTR_FORMULA_MINB = 13"
definition CONDITIONATTR_FORMULA_MAXA :: nat where "CONDITIONATTR_FORMULA_MAXA = 14"
definition CONDITIONATTR_FORMULA_MAXB :: nat where "CONDITIONATTR_FORMULA_MAXB = 15"
definition CONDITIONATTR_LIGHTCOLOR :: nat where "CONDITIONATTR_LIGHTCOLOR = 16"
definition CONDITIONATTR_LIGHTLEVEL :: nat where "CONDITIONATTR_LIGHTLEVEL = 17"
definition CONDITIONATTR_LIGHTTICKS :: nat where "CONDITIONATTR_LIGHTTICKS = 18"
definition CONDITIONATTR_LIGHTINTERVAL :: nat where "CONDITIONATTR_LIGHTINTERVAL = 19"
definition CONDITIONATTR_SOULTICKS :: nat where "CONDITIONATTR_SOULTICKS = 20"
definition CONDITIONATTR_SOULGAIN :: nat where "CONDITIONATTR_SOULGAIN = 21"
definition CONDITIONATTR_SKILLS :: nat where "CONDITIONATTR_SKILLS = 22"
definition CONDITIONATTR_STATS :: nat where "CONDITIONATTR_STATS = 23"
definition CONDITIONATTR_OUTFIT :: nat where "CONDITIONATTR_OUTFIT = 24"
definition CONDITIONATTR_PERIODDAMAGE :: nat where "CONDITIONATTR_PERIODDAMAGE = 25"
definition CONDITIONATTR_ISBUFF :: nat where "CONDITIONATTR_ISBUFF = 26"
definition CONDITIONATTR_SUBID :: nat where "CONDITIONATTR_SUBID = 27"
definition CONDITIONATTR_END :: nat where "CONDITIONATTR_END = 254"

lemmas condition_attrs =
  CONDITIONATTR_TYPE_def CONDITIONATTR_ID_def CONDITIONATTR_TICKS_def
  CONDITIONATTR_HEALTHTICKS_def CONDITIONATTR_HEALTHGAIN_def CONDITIONATTR_MANATICKS_def
  CONDITIONATTR_MANAGAIN_def CONDITIONATTR_DELAYED_def CONDITIONATTR_OWNER_def
  CONDITIONATTR_INTERVALDATA_def CONDITIONATTR_SPEEDDELTA_def CONDITIONATTR_FORMULA_MINA_def
  CONDITIONATTR_FORMULA_MINB_def CONDITIONATTR_FORMULA_MAXA_def CONDITIONATTR_FORMULA_MAXB_def
  CONDITIONATTR_LIGHTCOLOR_def CONDITIONATTR_LIGHTLEVEL_def CONDITIONATTR_LIGHTTICKS_def
  CONDITIONATTR_LIGHTINTERVAL_def CONDITIONATTR_SOULTICKS_def CONDITIONATTR_SOULGAIN_def
  CONDITIONATTR_SKILLS_def CONDITIONATTR_STATS_def CONDITIONATTR_OUTFIT_def
  CONDITIONATTR_PERIODDAMAGE_def CONDITIONATTR_ISBUFF_def CONDITIONATTR_SUBID_def
  CONDITIONATTR_END_def

definition ICON_POISON :: u32 where "ICON_POISON = 1"
definition ICON_BURN :: u32 where "ICON_BURN = 2"
definition ICON_ENERGY :: u32 where "ICON_ENERGY = 4"
definition ICON_DRUNK :: u32 where "ICON_DRUNK = 8"
definition ICON_MANASHIELD :: u32 where "ICON_MANASHIELD = 16"
definition ICON_PARALYZE :: u32 where "ICON_PARALYZE = 32"
definition ICON_HASTE :: u32 where "ICON_HASTE = 64"
definition ICON_SWORDS :: u32 where "ICON_SWORDS = 128"
definition ICON_DROWNING :: u32 where "ICON_DROWNING = 256"
definition ICON_FREEZING :: u32 where "ICON_FREEZING = 512"
definition ICON_DAZZLED :: u32 where "ICON_DAZZLED = 1024"
definition ICON_CURSED :: u32 where "ICON_CURSED = 2048"
definition ICON_PARTY_BUFF :: u32 where "ICON_PARTY_BUFF = 4096"
definition ICON_REDSWORDS :: u32 where "ICON_REDSWORDS = 8192"
definition ICON_PIGEON :: u32 where "ICON_PIGEON = 16384"
definition ICON_BLEEDING :: u32 where "ICON_BLEEDING = 32768"

lemmas icon_defs =
  ICON_POISON_def ICON_BURN_def ICON_ENERGY_def ICON_DRUNK_def ICON_MANASHIELD_def
  ICON_PARALYZE_def ICON_HASTE_def ICON_SWORDS_def ICON_DROWNING_def ICON_FREEZING_def
  ICON_DAZZLED_def ICON_CURSED_def ICON_PARTY_BUFF_def ICON_REDSWORDS_def ICON_PIGEON_def
  ICON_BLEEDING_def

datatype (plugins only: code) ConditionParam_t =
    CONDITION_PARAM_OWNER | CONDITION_PARAM_TICKS | CONDITION_PARAM_HEALTHGAIN
    | CONDITION_PARAM_HEALTHTICKS | CONDITION_PARAM_MANAGAIN | CONDITION_PARAM_MANATICKS
    | CONDITION_PARAM_DELAYED | CONDITION_PARAM_SPEED | CONDITION_PARAM_LIGHT_LEVEL
    | CONDITION_PARAM_LIGHT_COLOR | CONDITION_PARAM_SOULGAIN | CONDITION_PARAM_SOULTICKS
    | CONDITION_PARAM_MINVALUE | CONDITION_PARAM_MAXVALUE | CONDITION_PARAM_STARTVALUE
    | CONDITION_PARAM_TICKINTERVAL | CONDITION_PARAM_FORCEUPDATE | CONDITION_PARAM_SKILL_MELEE
    | CONDITION_PARAM_SKILL_FIST | CONDITION_PARAM_SKILL_CLUB | CONDITION_PARAM_SKILL_SWORD
    | CONDITION_PARAM_SKILL_AXE | CONDITION_PARAM_SKILL_DISTANCE | CONDITION_PARAM_SKILL_SHIELD
    | CONDITION_PARAM_SKILL_FISHING | CONDITION_PARAM_STAT_MAXHITPOINTS
    | CONDITION_PARAM_STAT_MAXMANAPOINTS | CONDITION_PARAM_STAT_MAGICPOINTS
    | CONDITION_PARAM_STAT_MAXHITPOINTSPERCENT | CONDITION_PARAM_STAT_MAXMANAPOINTSPERCENT
    | CONDITION_PARAM_STAT_MAGICPOINTSPERCENT | CONDITION_PARAM_PERIODICDAMAGE
    | CONDITION_PARAM_SKILL_MELEEPERCENT | CONDITION_PARAM_SKILL_FISTPERCENT
    | CONDITION_PARAM_SKILL_CLUBPERCENT | CONDITION_PARAM_SKILL_SWORDPERCENT
    | CONDITION_PARAM_SKILL_AXEPERCENT | CONDITION_PARAM_SKILL_DISTANCEPERCENT
    | CONDITION_PARAM_SKILL_SHIELDPERCENT | CONDITION_PARAM_SKILL_FISHINGPERCENT
    | CONDITION_PARAM_BUFF_SPELL | CONDITION_PARAM_SUBID | CONDITION_PARAM_FIELD


text \<open>The statistics a condition may change.\<close>

datatype stats_t = STAT_MAXHITPOINTS | STAT_MAXMANAPOINTS | STAT_SOULPOINTS | STAT_MAGICPOINTS

fun stat_code :: "stats_t \<Rightarrow> nat" where
  "stat_code STAT_MAXHITPOINTS = 0"
| "stat_code STAT_MAXMANAPOINTS = 1"
| "stat_code STAT_SOULPOINTS = 2"
| "stat_code STAT_MAGICPOINTS = 3"

section \<open>State\<close>

record IntervalInfo =
  timeLeft :: u32
  "value" :: u32
  interval :: u32

record LightInfo =
  light_level :: u8
  light_color :: u8

text \<open>The structure has one byte of padding, which is saved with it.\<close>

record Outfit_t =
  lookType :: u16
  lookTypeEx :: u16
  lookMount :: u16
  lookHead :: u8
  lookBody :: u8
  lookLegs :: u8
  lookFeet :: u8
  lookAddons :: u8
  look_padding :: u8

record ConditionAttributes =
  skills :: "u32 list"
  skillsPercent :: "u32 list"
  stats :: "u32 list"
  statsPercent :: "u32 list"
  currentSkill :: nat
  currentStat :: nat

record ConditionRegeneration =
  internalHealthTicks :: u32
  internalManaTicks :: u32
  healthTicks :: u32
  manaTicks :: u32
  healthGain :: u32
  manaGain :: u32

record ConditionSoul =
  internalSoulTicks :: u32
  soulTicks :: u32
  soulGain :: u32

record ConditionDamage =
  maxDamage :: u32
  minDamage :: u32
  startDamage :: u32
  periodDamage :: u32
  periodDamageTick :: u32
  tickInterval :: u32
  forceUpdate :: bool
  delayed :: bool
  in_field :: bool
  owner :: u32
  damageList :: "IntervalInfo list"

record ConditionSpeed =
  speedDelta :: u32
  mina :: u32
  minb :: u32
  maxa :: u32
  maxb :: u32

record ConditionLight =
  lightInfo :: LightInfo
  internalLightTicks :: u32
  lightChangeInterval :: u32

datatype condition_class =
    ConditionGeneric
  | Attributes ConditionAttributes
  | Regeneration ConditionRegeneration
  | Soul ConditionSoul
  | ConditionInvisible
  | Damage ConditionDamage
  | Speed ConditionSpeed
  | OutfitChange Outfit_t
  | Light ConditionLight
  | ConditionSpellCooldown
  | ConditionSpellGroupCooldown

record Condition =
  endTime :: int
  subId :: u32
  ticks :: u32
  conditionType :: u32
  condition_id :: u8
  isBuff :: bool
  details :: condition_class

section \<open>Making conditions\<close>

text \<open>The greatest value of \<open>int64_t\<close> stands for a time that never comes.\<close>

definition never :: int where "never = 9223372036854775807"

definition new_condition :: "u8 \<Rightarrow> u32 \<Rightarrow> u32 \<Rightarrow> bool \<Rightarrow> u32 \<Rightarrow> condition_class \<Rightarrow> Condition" where
  "new_condition i ty tk buff sub s =
     \<lparr>endTime = (if tk = - 1 then never else 0), subId = sub, ticks = tk, conditionType = ty, condition_id = i,
      isBuff = buff, details = s\<rparr>"

definition new_attributes :: ConditionAttributes where
  "new_attributes = \<lparr>skills = replicate 7 0, skillsPercent = replicate 7 0, stats = replicate 4 0,
     statsPercent = replicate 4 0, currentSkill = 0, currentStat = 0\<rparr>"

definition new_regeneration :: ConditionRegeneration where
  "new_regeneration = \<lparr>internalHealthTicks = 0, internalManaTicks = 0, healthTicks = 1000, manaTicks = 1000,
     healthGain = 0, manaGain = 0\<rparr>"

definition new_soul :: ConditionSoul where
  "new_soul = \<lparr>internalSoulTicks = 0, soulTicks = 0, soulGain = 0\<rparr>"

definition new_damage :: ConditionDamage where
  "new_damage = \<lparr>maxDamage = 0, minDamage = 0, startDamage = 0, periodDamage = 0, periodDamageTick = 0,
     tickInterval = 2000, forceUpdate = False, delayed = False, in_field = False, owner = 0, damageList = []\<rparr>"

definition new_speed :: "u32 \<Rightarrow> ConditionSpeed" where
  "new_speed changeSpeed = \<lparr>speedDelta = changeSpeed, mina = 0, minb = 0, maxa = 0, maxb = 0\<rparr>"

definition new_outfit :: Outfit_t where
  "new_outfit = \<lparr>lookType = 0, lookTypeEx = 0, lookMount = 0, lookHead = 0, lookBody = 0, lookLegs = 0,
     lookFeet = 0, lookAddons = 0, look_padding = 0\<rparr>"

definition new_light :: "u8 \<Rightarrow> u8 \<Rightarrow> ConditionLight" where
  "new_light level color = \<lparr>lightInfo = \<lparr>light_level = level, light_color = color\<rparr>, internalLightTicks = 0,
     lightChangeInterval = 0\<rparr>"

definition damage_types :: "u32 list" where
  "damage_types = [CONDITION_POISON, CONDITION_FIRE, CONDITION_ENERGY, CONDITION_DROWN, CONDITION_FREEZING,
     CONDITION_DAZZLED, CONDITION_CURSED, CONDITION_BLEEDING]"

definition generic_types :: "u32 list" where
  "generic_types = [CONDITION_INFIGHT, CONDITION_DRUNK, CONDITION_EXHAUST_WEAPON, CONDITION_EXHAUST_COMBAT,
     CONDITION_EXHAUST_HEAL, CONDITION_MUTED, CONDITION_CHANNELMUTEDTICKS, CONDITION_YELLTICKS,
     CONDITION_PACIFIED, CONDITION_MANASHIELD]"

text \<open>\<open>createCondition\<close>; None is the null pointer.\<close>

definition createCondition :: "u8 \<Rightarrow> u32 \<Rightarrow> u32 \<Rightarrow> u32 \<Rightarrow> bool \<Rightarrow> u32 \<Rightarrow> Condition option" where
  "createCondition i ty tk param buff sub =
     (let make = (\<lambda>s. Some (new_condition i ty tk buff sub s)) in
      if ty \<in> set damage_types then Some (new_condition i ty 0 buff sub (Damage new_damage))
      else if ty = CONDITION_HASTE \<or> ty = CONDITION_PARALYZE then make (Speed (new_speed param))
      else if ty = CONDITION_INVISIBLE then make ConditionInvisible
      else if ty = CONDITION_OUTFIT then make (OutfitChange new_outfit)
      else if ty = CONDITION_LIGHT then
        make (Light (new_light (ucast (param AND 0xFF)) (ucast (drop_bit 8 (param AND 0xFF00)))))
      else if ty = CONDITION_REGENERATION then make (Regeneration new_regeneration)
      else if ty = CONDITION_SOUL then make (Soul new_soul)
      else if ty = CONDITION_ATTRIBUTES then make (Attributes new_attributes)
      else if ty = CONDITION_SPELLCOOLDOWN then make ConditionSpellCooldown
      else if ty = CONDITION_SPELLGROUPCOOLDOWN then make ConditionSpellGroupCooldown
      else if ty \<in> set generic_types then make ConditionGeneric
      else None)"

definition setTicks :: "int \<Rightarrow> u32 \<Rightarrow> Condition \<Rightarrow> Condition" where
  "setTicks now newTicks c = c\<lparr>ticks := newTicks, endTime := sint newTicks + now\<rparr>"

definition isPersistent :: "Condition \<Rightarrow> bool" where
  "isPersistent c =
     (if ticks c = - 1 then False
      else if \<not> (condition_id c = CONDITIONID_DEFAULT \<or> condition_id c = CONDITIONID_COMBAT) then False
      else True)"

section \<open>Parameters\<close>

text \<open>\<open>setParam\<close> answers whether it knows the parameter; each subclass asks its base first.\<close>

definition base_setParam :: "ConditionParam_t \<Rightarrow> u32 \<Rightarrow> Condition \<Rightarrow> bool \<times> Condition" where
  "base_setParam p v c =
     (case p of
        CONDITION_PARAM_TICKS \<Rightarrow> (True, c\<lparr>ticks := v\<rparr>)
      | CONDITION_PARAM_BUFF_SPELL \<Rightarrow> (True, c\<lparr>isBuff := (v \<noteq> 0)\<rparr>)
      | CONDITION_PARAM_SUBID \<Rightarrow> (True, c\<lparr>subId := v\<rparr>)
      | _ \<Rightarrow> (False, c))"

definition put :: "skills_t \<Rightarrow> u32 \<Rightarrow> u32 list \<Rightarrow> u32 list" where
  "put s v xs = xs[unat (skill_code s) := v]"

definition put_stat :: "stats_t \<Rightarrow> u32 \<Rightarrow> u32 list \<Rightarrow> u32 list" where
  "put_stat s v xs = xs[stat_code s := v]"

definition attributes_setParam :: "ConditionParam_t \<Rightarrow> u32 \<Rightarrow> ConditionAttributes \<Rightarrow> bool \<times> ConditionAttributes" where
  "attributes_setParam p v a =
     (case p of
      CONDITION_PARAM_SKILL_MELEE \<Rightarrow>
        (True, a\<lparr>skills := put SKILL_SWORD v (put SKILL_AXE v (put SKILL_CLUB v (skills a)))\<rparr>)
    | CONDITION_PARAM_SKILL_MELEEPERCENT \<Rightarrow>
        (True, a\<lparr>skillsPercent := put SKILL_SWORD v (put SKILL_AXE v (put SKILL_CLUB v (skillsPercent a)))\<rparr>)
    | CONDITION_PARAM_SKILL_FIST \<Rightarrow> (True, a\<lparr>skills := put SKILL_FIST v (skills a)\<rparr>)
    | CONDITION_PARAM_SKILL_FISTPERCENT \<Rightarrow> (True, a\<lparr>skillsPercent := put SKILL_FIST v (skillsPercent a)\<rparr>)
    | CONDITION_PARAM_SKILL_CLUB \<Rightarrow> (True, a\<lparr>skills := put SKILL_CLUB v (skills a)\<rparr>)
    | CONDITION_PARAM_SKILL_CLUBPERCENT \<Rightarrow> (True, a\<lparr>skillsPercent := put SKILL_CLUB v (skillsPercent a)\<rparr>)
    | CONDITION_PARAM_SKILL_SWORD \<Rightarrow> (True, a\<lparr>skills := put SKILL_SWORD v (skills a)\<rparr>)
    | CONDITION_PARAM_SKILL_SWORDPERCENT \<Rightarrow> (True, a\<lparr>skillsPercent := put SKILL_SWORD v (skillsPercent a)\<rparr>)
    | CONDITION_PARAM_SKILL_AXE \<Rightarrow> (True, a\<lparr>skills := put SKILL_AXE v (skills a)\<rparr>)
    | CONDITION_PARAM_SKILL_AXEPERCENT \<Rightarrow> (True, a\<lparr>skillsPercent := put SKILL_AXE v (skillsPercent a)\<rparr>)
    | CONDITION_PARAM_SKILL_DISTANCE \<Rightarrow> (True, a\<lparr>skills := put SKILL_DISTANCE v (skills a)\<rparr>)
    | CONDITION_PARAM_SKILL_DISTANCEPERCENT \<Rightarrow> (True, a\<lparr>skillsPercent := put SKILL_DISTANCE v (skillsPercent a)\<rparr>)
    | CONDITION_PARAM_SKILL_SHIELD \<Rightarrow> (True, a\<lparr>skills := put SKILL_SHIELD v (skills a)\<rparr>)
    | CONDITION_PARAM_SKILL_SHIELDPERCENT \<Rightarrow> (True, a\<lparr>skillsPercent := put SKILL_SHIELD v (skillsPercent a)\<rparr>)
    | CONDITION_PARAM_SKILL_FISHING \<Rightarrow> (True, a\<lparr>skills := put SKILL_FISHING v (skills a)\<rparr>)
    | CONDITION_PARAM_SKILL_FISHINGPERCENT \<Rightarrow> (True, a\<lparr>skillsPercent := put SKILL_FISHING v (skillsPercent a)\<rparr>)
    | CONDITION_PARAM_STAT_MAXHITPOINTS \<Rightarrow> (True, a\<lparr>stats := put_stat STAT_MAXHITPOINTS v (stats a)\<rparr>)
    | CONDITION_PARAM_STAT_MAXMANAPOINTS \<Rightarrow> (True, a\<lparr>stats := put_stat STAT_MAXMANAPOINTS v (stats a)\<rparr>)
    | CONDITION_PARAM_STAT_MAGICPOINTS \<Rightarrow> (True, a\<lparr>stats := put_stat STAT_MAGICPOINTS v (stats a)\<rparr>)
    | CONDITION_PARAM_STAT_MAXHITPOINTSPERCENT \<Rightarrow>
        (True, a\<lparr>statsPercent := put_stat STAT_MAXHITPOINTS (if sint v < 0 then 0 else v) (statsPercent a)\<rparr>)
    | CONDITION_PARAM_STAT_MAXMANAPOINTSPERCENT \<Rightarrow>
        (True, a\<lparr>statsPercent := put_stat STAT_MAXMANAPOINTS (if sint v < 0 then 0 else v) (statsPercent a)\<rparr>)
    | CONDITION_PARAM_STAT_MAGICPOINTSPERCENT \<Rightarrow>
        (True, a\<lparr>statsPercent := put_stat STAT_MAGICPOINTS (if sint v < 0 then 0 else v) (statsPercent a)\<rparr>)
    | _ \<Rightarrow> (False, a))"

definition regeneration_setParam :: "ConditionParam_t \<Rightarrow> u32 \<Rightarrow> ConditionRegeneration \<Rightarrow> bool \<times> ConditionRegeneration" where
  "regeneration_setParam p v r =
     (case p of
        CONDITION_PARAM_HEALTHGAIN \<Rightarrow> (True, r\<lparr>healthGain := v\<rparr>)
      | CONDITION_PARAM_HEALTHTICKS \<Rightarrow> (True, r\<lparr>healthTicks := v\<rparr>)
      | CONDITION_PARAM_MANAGAIN \<Rightarrow> (True, r\<lparr>manaGain := v\<rparr>)
      | CONDITION_PARAM_MANATICKS \<Rightarrow> (True, r\<lparr>manaTicks := v\<rparr>)
      | _ \<Rightarrow> (False, r))"

definition soul_setParam :: "ConditionParam_t \<Rightarrow> u32 \<Rightarrow> ConditionSoul \<Rightarrow> bool \<times> ConditionSoul" where
  "soul_setParam p v s =
     (case p of
        CONDITION_PARAM_SOULGAIN \<Rightarrow> (True, s\<lparr>soulGain := v\<rparr>)
      | CONDITION_PARAM_SOULTICKS \<Rightarrow> (True, s\<lparr>soulTicks := v\<rparr>)
      | _ \<Rightarrow> (False, s))"

text \<open>\<open>std::abs\<close>, which leaves the least integer as it is.\<close>

definition abs32 :: "u32 \<Rightarrow> u32" where
  "abs32 v = (if sint v < 0 then - v else v)"

text \<open>Six of the parameters are set although the answer is that of the base class, which does not
  know them; and for the parameters of the base class the answer is false.\<close>

definition damage_setParam :: "ConditionParam_t \<Rightarrow> u32 \<Rightarrow> bool \<Rightarrow> ConditionDamage \<Rightarrow> bool \<times> ConditionDamage" where
  "damage_setParam p v ret d =
     (case p of
        CONDITION_PARAM_OWNER \<Rightarrow> (True, d\<lparr>owner := v\<rparr>)
      | CONDITION_PARAM_FORCEUPDATE \<Rightarrow> (True, d\<lparr>forceUpdate := (v \<noteq> 0)\<rparr>)
      | CONDITION_PARAM_DELAYED \<Rightarrow> (True, d\<lparr>delayed := (v \<noteq> 0)\<rparr>)
      | CONDITION_PARAM_MAXVALUE \<Rightarrow> (ret, d\<lparr>maxDamage := abs32 v\<rparr>)
      | CONDITION_PARAM_MINVALUE \<Rightarrow> (ret, d\<lparr>minDamage := abs32 v\<rparr>)
      | CONDITION_PARAM_STARTVALUE \<Rightarrow> (ret, d\<lparr>startDamage := abs32 v\<rparr>)
      | CONDITION_PARAM_TICKINTERVAL \<Rightarrow> (ret, d\<lparr>tickInterval := abs32 v\<rparr>)
      | CONDITION_PARAM_PERIODICDAMAGE \<Rightarrow> (ret, d\<lparr>periodDamage := v\<rparr>)
      | CONDITION_PARAM_FIELD \<Rightarrow> (ret, d\<lparr>in_field := (v \<noteq> 0)\<rparr>)
      | _ \<Rightarrow> (False, d))"

definition light_setParam :: "ConditionParam_t \<Rightarrow> u32 \<Rightarrow> ConditionLight \<Rightarrow> bool \<times> ConditionLight" where
  "light_setParam p v l =
     (case p of
        CONDITION_PARAM_LIGHT_LEVEL \<Rightarrow> (True, l\<lparr>lightInfo := (lightInfo l)\<lparr>light_level := ucast v\<rparr>\<rparr>)
      | CONDITION_PARAM_LIGHT_COLOR \<Rightarrow> (True, l\<lparr>lightInfo := (lightInfo l)\<lparr>light_color := ucast v\<rparr>\<rparr>)
      | _ \<Rightarrow> (False, l))"

definition speed_setParam :: "ConditionParam_t \<Rightarrow> u32 \<Rightarrow> Condition \<Rightarrow> ConditionSpeed \<Rightarrow> bool \<times> Condition" where
  "speed_setParam p v c s =
     (if p \<noteq> CONDITION_PARAM_SPEED then (False, c)
      else (True, c\<lparr>conditionType := (if 0 < sint v then CONDITION_HASTE else CONDITION_PARALYZE),
                    details := Speed (s\<lparr>speedDelta := v\<rparr>)\<rparr>))"

text \<open>The virtual \<open>setParam\<close>: the class Condition takes the parameter first.\<close>

definition setParam :: "ConditionParam_t \<Rightarrow> u32 \<Rightarrow> Condition \<Rightarrow> bool \<times> Condition" where
  "setParam p v c =
     (let (ret, c1) = base_setParam p v c in
      case details c1 of
        Attributes a \<Rightarrow> (let (r, a') = attributes_setParam p v a in (r \<or> ret, c1\<lparr>details := Attributes a'\<rparr>))
      | Regeneration g \<Rightarrow> (let (r, g') = regeneration_setParam p v g in (r \<or> ret, c1\<lparr>details := Regeneration g'\<rparr>))
      | Soul s \<Rightarrow> (let (r, s') = soul_setParam p v s in (r \<or> ret, c1\<lparr>details := Soul s'\<rparr>))
      | Damage d \<Rightarrow> (let (r, d') = damage_setParam p v ret d in (r, c1\<lparr>details := Damage d'\<rparr>))
      | Speed s \<Rightarrow> speed_setParam p v c1 s
      | Light l \<Rightarrow>
          (if ret then (False, c1)
           else (let (r, l') = light_setParam p v l in (r, c1\<lparr>details := Light l'\<rparr>)))
      | _ \<Rightarrow> (ret, c1))"

section \<open>Icons\<close>

definition generic_icon :: "u32 \<Rightarrow> u32" where
  "generic_icon ty =
     (if ty = CONDITION_MANASHIELD then ICON_MANASHIELD else if ty = CONDITION_INFIGHT then ICON_SWORDS
      else if ty = CONDITION_DRUNK then ICON_DRUNK else 0)"

definition damage_icon :: "u32 \<Rightarrow> u32" where
  "damage_icon ty =
     (if ty = CONDITION_FIRE then ICON_BURN else if ty = CONDITION_ENERGY then ICON_ENERGY
      else if ty = CONDITION_DROWN then ICON_DROWNING else if ty = CONDITION_POISON then ICON_POISON
      else if ty = CONDITION_FREEZING then ICON_FREEZING else if ty = CONDITION_DAZZLED then ICON_DAZZLED
      else if ty = CONDITION_CURSED then ICON_CURSED else if ty = CONDITION_BLEEDING then ICON_BLEEDING else 0)"

definition speed_icon :: "u32 \<Rightarrow> u32" where
  "speed_icon ty =
     (if ty = CONDITION_HASTE then ICON_HASTE else if ty = CONDITION_PARALYZE then ICON_PARALYZE else 0)"

definition getIcons :: "Condition \<Rightarrow> u32" where
  "getIcons c =
     (let icons = (if isBuff c then ICON_PARTY_BUFF else 0) in
      case details c of
        Damage _ \<Rightarrow> icons OR damage_icon (conditionType c)
      | Speed _ \<Rightarrow> icons OR speed_icon (conditionType c)
      | OutfitChange _ \<Rightarrow> icons
      | Light _ \<Rightarrow> icons
      | _ \<Rightarrow> icons OR generic_icon (conditionType c))"

section \<open>Which of two conditions prevails\<close>

definition getTotalDamage :: "ConditionDamage \<Rightarrow> u32" where
  "getTotalDamage d =
     abs32 (if damageList d \<noteq> [] then sum_list (map value (damageList d))
            else minDamage d + word_of_int (sint (maxDamage d - minDamage d) sdiv 2))"

definition base_updateCondition :: "int \<Rightarrow> Condition \<Rightarrow> Condition \<Rightarrow> bool" where
  "base_updateCondition now c add =
     (if conditionType c \<noteq> conditionType add then False
      else if ticks c = - 1 \<and> 0 < sint (ticks add) then False
      else if 0 \<le> sint (ticks add) \<and> now + sint (ticks add) < endTime c then False
      else True)"

definition damage_updateCondition :: "Condition \<Rightarrow> ConditionDamage \<Rightarrow> Condition \<Rightarrow> ConditionDamage \<Rightarrow> bool" where
  "damage_updateCondition c d add da =
     (if forceUpdate da then True
      else if ticks c = - 1 \<and> 0 < sint (ticks add) then False
      else sint (getTotalDamage d) < sint (getTotalDamage da))"

definition updateCondition :: "int \<Rightarrow> Condition \<Rightarrow> Condition \<Rightarrow> bool" where
  "updateCondition now c add =
     (case (details c, details add) of
        (Damage d, Damage da) \<Rightarrow> damage_updateCondition c d add da
      | _ \<Rightarrow> base_updateCondition now c add)"

end
