(* ===== verification/ConditionStream.thy ===== *)
theory ConditionStream
  imports Conditions
begin

text \<open>
  Saving and loading conditions (condition.cpp, and the parts of iologindata.cpp that save them with
  a player).  A stored condition is a sequence of tagged fields that ends with
  \<open>CONDITIONATTR_END\<close>; the first five fields choose the subclass.
\<close>

section \<open>Saving\<close>

definition write8 :: "nat \<Rightarrow> prop_stream \<Rightarrow> prop_stream" where
  "write8 v = prop_write 1 v"

definition write16 :: "u16 \<Rightarrow> prop_stream \<Rightarrow> prop_stream" where
  "write16 v = prop_write 2 (unat v)"

definition write32 :: "u32 \<Rightarrow> prop_stream \<Rightarrow> prop_stream" where
  "write32 v = prop_write 4 (unat v)"

definition field32 :: "nat \<Rightarrow> u32 \<Rightarrow> prop_stream \<Rightarrow> prop_stream" where
  "field32 tag v w = write32 v (write8 tag w)"

definition flag_byte :: "bool \<Rightarrow> nat" where
  "flag_byte b = (if b then 1 else 0)"

definition base_serialize :: "Condition \<Rightarrow> prop_stream \<Rightarrow> prop_stream" where
  "base_serialize c w =
     field32 CONDITIONATTR_SUBID (subId c)
       (write8 (flag_byte (isBuff c)) (write8 CONDITIONATTR_ISBUFF
       (field32 CONDITIONATTR_TICKS (ticks c)
       (field32 CONDITIONATTR_ID (scast (condition_id c))
       (field32 CONDITIONATTR_TYPE (conditionType c) w)))))"

definition write_interval :: "IntervalInfo \<Rightarrow> prop_stream \<Rightarrow> prop_stream" where
  "write_interval i w = write32 (interval i) (write32 (value i) (write32 (timeLeft i) (write8 CONDITIONATTR_INTERVALDATA w)))"

definition write_outfit :: "Outfit_t \<Rightarrow> prop_stream \<Rightarrow> prop_stream" where
  "write_outfit f w =
     fold (\<lambda>b. write8 (unat b)) [lookHead f, lookBody f, lookLegs f, lookFeet f, lookAddons f, look_padding f]
       (write16 (lookMount f) (write16 (lookTypeEx f) (write16 (lookType f) w)))"

definition attributes_serialize :: "ConditionAttributes \<Rightarrow> prop_stream \<Rightarrow> prop_stream" where
  "attributes_serialize a w =
     fold (field32 CONDITIONATTR_STATS) (stats a) (fold (field32 CONDITIONATTR_SKILLS) (skills a) w)"

definition regeneration_serialize :: "ConditionRegeneration \<Rightarrow> prop_stream \<Rightarrow> prop_stream" where
  "regeneration_serialize r w =
     field32 CONDITIONATTR_MANAGAIN (manaGain r) (field32 CONDITIONATTR_MANATICKS (manaTicks r)
       (field32 CONDITIONATTR_HEALTHGAIN (healthGain r) (field32 CONDITIONATTR_HEALTHTICKS (healthTicks r) w)))"

definition soul_serialize :: "ConditionSoul \<Rightarrow> prop_stream \<Rightarrow> prop_stream" where
  "soul_serialize s w =
     field32 CONDITIONATTR_SOULTICKS (soulTicks s) (field32 CONDITIONATTR_SOULGAIN (soulGain s) w)"

definition damage_serialize :: "ConditionDamage \<Rightarrow> prop_stream \<Rightarrow> prop_stream" where
  "damage_serialize d w =
     fold write_interval (damageList d)
       (field32 CONDITIONATTR_PERIODDAMAGE (periodDamage d)
         (write8 (flag_byte (delayed d)) (write8 CONDITIONATTR_DELAYED w)))"

definition speed_serialize :: "ConditionSpeed \<Rightarrow> prop_stream \<Rightarrow> prop_stream" where
  "speed_serialize s w =
     field32 CONDITIONATTR_FORMULA_MAXB (maxb s) (field32 CONDITIONATTR_FORMULA_MAXA (maxa s)
       (field32 CONDITIONATTR_FORMULA_MINB (minb s) (field32 CONDITIONATTR_FORMULA_MINA (mina s)
         (field32 CONDITIONATTR_SPEEDDELTA (speedDelta s) w))))"

definition outfit_serialize :: "Outfit_t \<Rightarrow> prop_stream \<Rightarrow> prop_stream" where
  "outfit_serialize f w = write_outfit f (write8 CONDITIONATTR_OUTFIT w)"

definition light_serialize :: "ConditionLight \<Rightarrow> prop_stream \<Rightarrow> prop_stream" where
  "light_serialize l w =
     field32 CONDITIONATTR_LIGHTINTERVAL (lightChangeInterval l)
       (field32 CONDITIONATTR_LIGHTTICKS (internalLightTicks l)
         (field32 CONDITIONATTR_LIGHTLEVEL (ucast (light_level (lightInfo l)))
           (field32 CONDITIONATTR_LIGHTCOLOR (ucast (light_color (lightInfo l))) w)))"

text \<open>The virtual \<open>serialize\<close>: each subclass writes its fields after those of the class Condition.\<close>

definition serialize :: "Condition \<Rightarrow> prop_stream \<Rightarrow> prop_stream" where
  "serialize c w =
     (let w1 = base_serialize c w in
      case details c of
        Attributes a \<Rightarrow> attributes_serialize a w1
      | Regeneration r \<Rightarrow> regeneration_serialize r w1
      | Soul s \<Rightarrow> soul_serialize s w1
      | Damage d \<Rightarrow> damage_serialize d w1
      | Speed s \<Rightarrow> speed_serialize s w1
      | OutfitChange f \<Rightarrow> outfit_serialize f w1
      | Light l \<Rightarrow> light_serialize l w1
      | _ \<Rightarrow> w1)"

lemmas serialize_defs = serialize_def attributes_serialize_def regeneration_serialize_def soul_serialize_def
  damage_serialize_def speed_serialize_def outfit_serialize_def light_serialize_def

text \<open>What is saved with a player.\<close>

fun save_conditions :: "Condition list \<Rightarrow> prop_stream \<Rightarrow> prop_stream" where
  "save_conditions [] w = w"
| "save_conditions (c # cs) w =
     save_conditions cs (if isPersistent c then write8 CONDITIONATTR_END (serialize c w) else w)"

section \<open>Loading\<close>

text \<open>\<open>createCondition(PropStream&)\<close>: None for the condition is the null pointer, and the stream is left
  where the reading stopped.\<close>

definition read_tagged :: "nat \<Rightarrow> nat \<Rightarrow> prop_stream \<Rightarrow> nat option \<times> prop_stream" where
  "read_tagged tag n ps =
     (case prop_read 1 ps of
        None \<Rightarrow> (None, ps)
      | Some (attr, ps1) \<Rightarrow>
          if attr \<noteq> tag then (None, ps1)
          else (case prop_read n ps1 of None \<Rightarrow> (None, ps1) | Some (v, ps2) \<Rightarrow> (Some v, ps2)))"

definition createCondition_from :: "prop_stream \<Rightarrow> Condition option \<times> prop_stream" where
  "createCondition_from ps =
     (case read_tagged CONDITIONATTR_TYPE 4 ps of
        (None, ps1) \<Rightarrow> (None, ps1)
      | (Some ty, ps1) \<Rightarrow>
     (case read_tagged CONDITIONATTR_ID 4 ps1 of
        (None, ps2) \<Rightarrow> (None, ps2)
      | (Some i, ps2) \<Rightarrow>
     (case read_tagged CONDITIONATTR_TICKS 4 ps2 of
        (None, ps3) \<Rightarrow> (None, ps3)
      | (Some tk, ps3) \<Rightarrow>
     (case read_tagged CONDITIONATTR_ISBUFF 1 ps3 of
        (None, ps4) \<Rightarrow> (None, ps4)
      | (Some buff, ps4) \<Rightarrow>
     (case read_tagged CONDITIONATTR_SUBID 4 ps4 of
        (None, ps5) \<Rightarrow> (None, ps5)
      | (Some sub, ps5) \<Rightarrow>
          (createCondition (of_nat i) (of_nat ty) (of_nat tk) 0 (buff \<noteq> 0) (of_nat sub), ps5))))))"

text \<open>A reader of one field answers whether it could, with the condition as it is then.  None is a
  write past the end of an array.\<close>

type_synonym 'a reading = "(bool \<times> 'a \<times> prop_stream) option"

definition read_into :: "nat \<Rightarrow> (nat \<Rightarrow> 'a) \<Rightarrow> 'a \<Rightarrow> prop_stream \<Rightarrow> 'a reading" where
  "read_into n f old ps =
     (case prop_read n ps of None \<Rightarrow> Some (False, old, ps) | Some (v, ps') \<Rightarrow> Some (True, f v, ps'))"

definition base_unserializeProp :: "nat \<Rightarrow> Condition \<Rightarrow> prop_stream \<Rightarrow> Condition reading" where
  "base_unserializeProp attr c ps =
     (if attr = CONDITIONATTR_TYPE then read_into 4 (\<lambda>v. c\<lparr>conditionType := of_nat v\<rparr>) c ps
      else if attr = CONDITIONATTR_ID then read_into 4 (\<lambda>v. c\<lparr>condition_id := of_nat v\<rparr>) c ps
      else if attr = CONDITIONATTR_TICKS then read_into 4 (\<lambda>v. c\<lparr>ticks := of_nat v\<rparr>) c ps
      else if attr = CONDITIONATTR_ISBUFF then read_into 1 (\<lambda>v. c\<lparr>isBuff := (v \<noteq> 0)\<rparr>) c ps
      else if attr = CONDITIONATTR_SUBID then read_into 4 (\<lambda>v. c\<lparr>subId := of_nat v\<rparr>) c ps
      else if attr = CONDITIONATTR_END then Some (True, c, ps)
      else Some (False, c, ps))"

text \<open>The index advances even when the read fails, and is not compared with the size of the array.\<close>

definition read_entry :: "nat \<Rightarrow> nat \<Rightarrow> (u32 list \<Rightarrow> 'a) \<Rightarrow> u32 list \<Rightarrow> prop_stream \<Rightarrow> 'a reading" where
  "read_entry len i f xs ps =
     (case prop_read 4 ps of
        None \<Rightarrow> Some (False, f xs, ps)
      | Some (v, ps') \<Rightarrow> if i < len then Some (True, f (xs[i := of_nat v]), ps') else None)"

definition read_interval :: "prop_stream \<Rightarrow> (IntervalInfo \<times> prop_stream) option" where
  "read_interval ps =
     (case prop_read 12 ps of
        None \<Rightarrow> None
      | Some (v, ps') \<Rightarrow> Some (\<lparr>timeLeft = of_nat v, value = of_nat (v div 2 ^ 32), interval = of_nat (v div 2 ^ 64)\<rparr>, ps'))"

definition read_outfit :: "prop_stream \<Rightarrow> (Outfit_t \<times> prop_stream) option" where
  "read_outfit ps =
     (case prop_read 12 ps of
        None \<Rightarrow> None
      | Some (v, ps') \<Rightarrow>
          Some (\<lparr>lookType = of_nat v, lookTypeEx = of_nat (v div 2 ^ 16), lookMount = of_nat (v div 2 ^ 32),
                 lookHead = of_nat (v div 2 ^ 48), lookBody = of_nat (v div 2 ^ 56), lookLegs = of_nat (v div 2 ^ 64),
                 lookFeet = of_nat (v div 2 ^ 72), lookAddons = of_nat (v div 2 ^ 80), look_padding = of_nat (v div 2 ^ 88)\<rparr>, ps'))"

definition attributes_unserializeProp :: "nat \<Rightarrow> ConditionAttributes \<Rightarrow> Condition \<Rightarrow> prop_stream \<Rightarrow> Condition reading" where
  "attributes_unserializeProp attr a c ps =
     (if attr = CONDITIONATTR_SKILLS then
        read_entry 7 (currentSkill a)
          (\<lambda>xs. c\<lparr>details := Attributes (a\<lparr>skills := xs, currentSkill := currentSkill a + 1\<rparr>)\<rparr>) (skills a) ps
      else if attr = CONDITIONATTR_STATS then
        read_entry 4 (currentStat a)
          (\<lambda>xs. c\<lparr>details := Attributes (a\<lparr>stats := xs, currentStat := currentStat a + 1\<rparr>)\<rparr>) (stats a) ps
      else base_unserializeProp attr c ps)"

definition regeneration_unserializeProp :: "nat \<Rightarrow> ConditionRegeneration \<Rightarrow> Condition \<Rightarrow> prop_stream \<Rightarrow> Condition reading" where
  "regeneration_unserializeProp attr r c ps =
     (if attr = CONDITIONATTR_HEALTHTICKS then
        read_into 4 (\<lambda>v. c\<lparr>details := Regeneration (r\<lparr>healthTicks := of_nat v\<rparr>)\<rparr>) c ps
      else if attr = CONDITIONATTR_HEALTHGAIN then
        read_into 4 (\<lambda>v. c\<lparr>details := Regeneration (r\<lparr>healthGain := of_nat v\<rparr>)\<rparr>) c ps
      else if attr = CONDITIONATTR_MANATICKS then
        read_into 4 (\<lambda>v. c\<lparr>details := Regeneration (r\<lparr>manaTicks := of_nat v\<rparr>)\<rparr>) c ps
      else if attr = CONDITIONATTR_MANAGAIN then
        read_into 4 (\<lambda>v. c\<lparr>details := Regeneration (r\<lparr>manaGain := of_nat v\<rparr>)\<rparr>) c ps
      else base_unserializeProp attr c ps)"

definition soul_unserializeProp :: "nat \<Rightarrow> ConditionSoul \<Rightarrow> Condition \<Rightarrow> prop_stream \<Rightarrow> Condition reading" where
  "soul_unserializeProp attr s c ps =
     (if attr = CONDITIONATTR_SOULGAIN then read_into 4 (\<lambda>v. c\<lparr>details := Soul (s\<lparr>soulGain := of_nat v\<rparr>)\<rparr>) c ps
      else if attr = CONDITIONATTR_SOULTICKS then read_into 4 (\<lambda>v. c\<lparr>details := Soul (s\<lparr>soulTicks := of_nat v\<rparr>)\<rparr>) c ps
      else base_unserializeProp attr c ps)"

definition damage_unserializeProp :: "int \<Rightarrow> nat \<Rightarrow> ConditionDamage \<Rightarrow> Condition \<Rightarrow> prop_stream \<Rightarrow> Condition reading" where
  "damage_unserializeProp now attr d c ps =
     (if attr = CONDITIONATTR_DELAYED then read_into 1 (\<lambda>v. c\<lparr>details := Damage (d\<lparr>delayed := (v \<noteq> 0)\<rparr>)\<rparr>) c ps
      else if attr = CONDITIONATTR_PERIODDAMAGE then
        read_into 4 (\<lambda>v. c\<lparr>details := Damage (d\<lparr>periodDamage := of_nat v\<rparr>)\<rparr>) c ps
      else if attr = CONDITIONATTR_OWNER then
        (case prop_skip 4 ps of None \<Rightarrow> Some (False, c, ps) | Some ps' \<Rightarrow> Some (True, c, ps'))
      else if attr = CONDITIONATTR_INTERVALDATA then
        (case read_interval ps of
           None \<Rightarrow> Some (False, c, ps)
         | Some (i, ps') \<Rightarrow>
             let c1 = c\<lparr>details := Damage (d\<lparr>damageList := damageList d @ [i]\<rparr>)\<rparr>
             in Some (True, if ticks c \<noteq> - 1 then setTicks now (ticks c + interval i) c1 else c1, ps'))
      else base_unserializeProp attr c ps)"

definition speed_unserializeProp :: "nat \<Rightarrow> ConditionSpeed \<Rightarrow> Condition \<Rightarrow> prop_stream \<Rightarrow> Condition reading" where
  "speed_unserializeProp attr s c ps =
     (if attr = CONDITIONATTR_SPEEDDELTA then read_into 4 (\<lambda>v. c\<lparr>details := Speed (s\<lparr>speedDelta := of_nat v\<rparr>)\<rparr>) c ps
      else if attr = CONDITIONATTR_FORMULA_MINA then read_into 4 (\<lambda>v. c\<lparr>details := Speed (s\<lparr>mina := of_nat v\<rparr>)\<rparr>) c ps
      else if attr = CONDITIONATTR_FORMULA_MINB then read_into 4 (\<lambda>v. c\<lparr>details := Speed (s\<lparr>minb := of_nat v\<rparr>)\<rparr>) c ps
      else if attr = CONDITIONATTR_FORMULA_MAXA then read_into 4 (\<lambda>v. c\<lparr>details := Speed (s\<lparr>maxa := of_nat v\<rparr>)\<rparr>) c ps
      else if attr = CONDITIONATTR_FORMULA_MAXB then read_into 4 (\<lambda>v. c\<lparr>details := Speed (s\<lparr>maxb := of_nat v\<rparr>)\<rparr>) c ps
      else base_unserializeProp attr c ps)"

definition outfit_unserializeProp :: "nat \<Rightarrow> Condition \<Rightarrow> prop_stream \<Rightarrow> Condition reading" where
  "outfit_unserializeProp attr c ps =
     (if attr = CONDITIONATTR_OUTFIT then
        (case read_outfit ps of
           None \<Rightarrow> Some (False, c, ps)
         | Some (f', ps') \<Rightarrow> Some (True, c\<lparr>details := OutfitChange f'\<rparr>, ps'))
      else base_unserializeProp attr c ps)"

definition light_unserializeProp :: "nat \<Rightarrow> ConditionLight \<Rightarrow> Condition \<Rightarrow> prop_stream \<Rightarrow> Condition reading" where
  "light_unserializeProp attr l c ps =
     (if attr = CONDITIONATTR_LIGHTCOLOR then
        read_into 4 (\<lambda>v. c\<lparr>details := Light (l\<lparr>lightInfo := (lightInfo l)\<lparr>light_color := of_nat v\<rparr>\<rparr>)\<rparr>) c ps
      else if attr = CONDITIONATTR_LIGHTLEVEL then
        read_into 4 (\<lambda>v. c\<lparr>details := Light (l\<lparr>lightInfo := (lightInfo l)\<lparr>light_level := of_nat v\<rparr>\<rparr>)\<rparr>) c ps
      else if attr = CONDITIONATTR_LIGHTTICKS then
        read_into 4 (\<lambda>v. c\<lparr>details := Light (l\<lparr>internalLightTicks := of_nat v\<rparr>)\<rparr>) c ps
      else if attr = CONDITIONATTR_LIGHTINTERVAL then
        read_into 4 (\<lambda>v. c\<lparr>details := Light (l\<lparr>lightChangeInterval := of_nat v\<rparr>)\<rparr>) c ps
      else base_unserializeProp attr c ps)"

text \<open>The virtual \<open>unserializeProp\<close>.\<close>

definition unserializeProp :: "int \<Rightarrow> nat \<Rightarrow> Condition \<Rightarrow> prop_stream \<Rightarrow> Condition reading" where
  "unserializeProp now attr c ps =
     (case details c of
        Attributes a \<Rightarrow> attributes_unserializeProp attr a c ps
      | Regeneration r \<Rightarrow> regeneration_unserializeProp attr r c ps
      | Soul s \<Rightarrow> soul_unserializeProp attr s c ps
      | Damage d \<Rightarrow> damage_unserializeProp now attr d c ps
      | Speed s \<Rightarrow> speed_unserializeProp attr s c ps
      | OutfitChange _ \<Rightarrow> outfit_unserializeProp attr c ps
      | Light l \<Rightarrow> light_unserializeProp attr l c ps
      | _ \<Rightarrow> base_unserializeProp attr c ps)"

lemmas unserializeProp_defs = unserializeProp_def attributes_unserializeProp_def regeneration_unserializeProp_def
  soul_unserializeProp_def damage_unserializeProp_def speed_unserializeProp_def outfit_unserializeProp_def
  light_unserializeProp_def

lemma read_into_length: "read_into n f old ps = Some (b, x, ps') \<Longrightarrow> length ps' \<le> length ps"
  by (auto simp: read_into_def dest: prop_read_length split: option.splits)

lemma read_entry_length: "read_entry n i f xs ps = Some (b, x, ps') \<Longrightarrow> length ps' \<le> length ps"
  by (auto simp: read_entry_def dest: prop_read_length split: option.splits if_splits)

lemma base_unserializeProp_length: "base_unserializeProp attr c ps = Some (b, c', ps') \<Longrightarrow> length ps' \<le> length ps"
  by (auto simp: base_unserializeProp_def dest: read_into_length split: if_splits)

lemma unserializeProp_length: "unserializeProp now attr c ps = Some (b, c', ps') \<Longrightarrow> length ps' \<le> length ps"
  by (auto simp: unserializeProp_defs read_interval_def read_outfit_def Let_def
      dest: read_into_length read_entry_length base_unserializeProp_length prop_read_length prop_skip_length
      split: condition_class.splits if_splits option.splits)

function unserialize :: "int \<Rightarrow> Condition \<Rightarrow> prop_stream \<Rightarrow> Condition reading" where
  "unserialize now c ps =
     (case prop_read 1 ps of
        None \<Rightarrow> Some (True, c, ps)
      | Some (attr, ps1) \<Rightarrow>
          if attr = CONDITIONATTR_END then Some (True, c, ps1)
          else (case unserializeProp now attr c ps1 of
                  None \<Rightarrow> None
                | Some (False, c', ps2) \<Rightarrow> Some (False, c', ps2)
                | Some (True, c', ps2) \<Rightarrow> unserialize now c' ps2))"
  by pat_completeness auto
termination
  by (relation "measure (\<lambda>(now, c, ps). length ps)")
    (auto dest!: prop_read_length dest: unserializeProp_length)

declare unserialize.simps [simp del]

lemma read_tagged_length: "read_tagged tag n ps = (r, ps') \<Longrightarrow> length ps' \<le> length ps"
  by (auto simp: read_tagged_def dest!: prop_read_length split: option.splits if_splits)

lemma read_tagged_some_length: "read_tagged tag n ps = (Some v, ps') \<Longrightarrow> length ps' < length ps"
  by (auto simp: read_tagged_def dest!: prop_read_length split: option.splits if_splits)

lemma createCondition_from_length:
  assumes "createCondition_from ps = (Some c, ps')"
  shows "length ps' < length ps"
proof -
  obtain r1 p1 where 1: "read_tagged CONDITIONATTR_TYPE 4 ps = (r1, p1)" by fastforce
  obtain r2 p2 where 2: "read_tagged CONDITIONATTR_ID 4 p1 = (r2, p2)" by fastforce
  obtain r3 p3 where 3: "read_tagged CONDITIONATTR_TICKS 4 p2 = (r3, p3)" by fastforce
  obtain r4 p4 where 4: "read_tagged CONDITIONATTR_ISBUFF 1 p3 = (r4, p4)" by fastforce
  obtain r5 p5 where 5: "read_tagged CONDITIONATTR_SUBID 4 p4 = (r5, p5)" by fastforce
  have "ps' = p5 \<and> r1 \<noteq> None"
    using assms 1 2 3 4 5 by (simp add: createCondition_from_def split: option.splits)
  then show ?thesis
    using read_tagged_some_length [of CONDITIONATTR_TYPE 4 ps _ p1] 1 read_tagged_length [OF 2] read_tagged_length [OF 3]
      read_tagged_length [OF 4] read_tagged_length [OF 5] by auto
qed

lemma unserialize_length: "unserialize now c ps = Some (b, c', ps') \<Longrightarrow> length ps' \<le> length ps"
proof (induction now c ps rule: unserialize.induct)
  case (1 now c ps)
  show ?case
  proof (cases "prop_read 1 ps")
    case None
    then show ?thesis
      using "1.prems" by (simp add: unserialize.simps)
  next
    case (Some x)
    obtain attr ps1 where x: "x = (attr, ps1)" by fastforce
    note r = Some [unfolded x]
    have l: "length ps1 \<le> length ps"
      using prop_read_length [OF r] by simp
    show ?thesis
    proof (cases "attr = CONDITIONATTR_END")
      case True
      then show ?thesis
        using "1.prems" r l by (simp add: unserialize.simps)
    next
      case False
      then obtain ok c1 ps2 where u: "unserializeProp now attr c ps1 = Some (ok, c1, ps2)"
        using "1.prems" r by (cases "unserializeProp now attr c ps1") (auto simp: unserialize.simps)
      show ?thesis
      proof (cases ok)
        case True
        then have "unserialize now c1 ps2 = Some (b, c', ps')"
          using "1.prems" False r u by (simp add: unserialize.simps [of now c ps])
        then show ?thesis
          using "1.IH" [OF r refl False u refl _ refl] True unserializeProp_length [OF u] l by simp
      next
        case f: False
        then show ?thesis
          using "1.prems" False r u unserializeProp_length [OF u] l by (simp add: unserialize.simps)
      qed
    qed
  qed
qed

text \<open>The loop that loads a player's conditions, each in front of those before it.\<close>

function load_conditions :: "int \<Rightarrow> Condition list \<Rightarrow> prop_stream \<Rightarrow> Condition list option" where
  "load_conditions now acc ps =
     (case createCondition_from ps of
        (None, _) \<Rightarrow> Some acc
      | (Some c, ps1) \<Rightarrow>
          (case unserialize now c ps1 of
             None \<Rightarrow> None
           | Some (ok, c', ps2) \<Rightarrow> load_conditions now (if ok then c' # acc else acc) ps2))"
  by pat_completeness auto
termination
  by (relation "measure (\<lambda>(now, acc, ps). length ps)")
    (use createCondition_from_length [OF sym] unserialize_length in fastforce)+

declare load_conditions.simps [simp del]

section \<open>What is saved is loaded\<close>

definition byte :: "nat \<Rightarrow> u8 list" where
  "byte v = le_bytes 1 v"

definition half :: "u16 \<Rightarrow> u8 list" where
  "half v = le_bytes 2 (unat v)"

definition quad :: "u32 \<Rightarrow> u8 list" where
  "quad v = le_bytes 4 (unat v)"

lemma write_append [simp]:
  "write8 n w = w @ byte n" "write16 h w = w @ half h" "write32 v w = w @ quad v"
  by (simp_all add: write8_def write16_def write32_def prop_write_def byte_def half_def quad_def)

lemma read_byte [simp]: "n < 256 \<Longrightarrow> prop_read (Suc 0) (byte n @ ps) = Some (n, ps)"
  using prop_read_write [of n 1 ps] by (simp add: prop_write_def byte_def)

lemma read_quad [simp]: "prop_read 4 (quad v @ ps) = Some (unat v, ps)"
  using prop_read_write [of "unat v" 4 ps] unat_less_32 [of v] by (simp add: prop_write_def quad_def)

lemma le_value_append: "le_value (xs @ ys) = le_value xs + 256 ^ length xs * le_value ys"
  by (induction xs) (simp_all add: algebra_simps)

lemma le_value_parts [simp]:
  "n < 256 \<Longrightarrow> le_value (byte n) = n" "le_value (half h) = unat h" "le_value (quad v) = unat v"
  "length (byte n) = 1" "length (half h) = 2" "length (quad v) = 4"
  using unat_less_16 [of h] unat_less_32 [of v] by (simp_all add: byte_def half_def quad_def del: le_bytes.simps)

lemma split_low:
  "(unat (a :: 'a :: len word) + 2 ^ LENGTH('a) * k) div 2 ^ LENGTH('a) = k"
  "of_nat (unat a + 2 ^ LENGTH('a) * k) = a"
  using unsigned_less [of a, where ?'a = nat] by (simp_all add: word_of_nat_eq_0_iff)

lemma unserialize_end: "unserialize now c (byte CONDITIONATTR_END @ ps) = Some (True, c, ps)"
  by (subst unserialize.simps) (simp add: CONDITIONATTR_END_def)

lemma unserialize_field:
  assumes "tag < 254" and "unserializeProp now tag c ps = Some (True, c', ps')"
  shows "unserialize now c (byte tag @ ps) = unserialize now c' ps'"
  using assms by (subst unserialize.simps) (simp add: CONDITIONATTR_END_def)

lemma read_into_quad [simp]: "read_into 4 f old (quad v @ ps) = Some (True, f (unat v), ps)"
  by (simp add: read_into_def)

lemma read_into_byte [simp]: "n < 256 \<Longrightarrow> read_into (Suc 0) f old (byte n @ ps) = Some (True, f n, ps)"
  by (simp add: read_into_def)

lemma read_entry_quad [simp]: "i < len \<Longrightarrow> read_entry len i f xs (quad v @ ps) = Some (True, f (xs[i := v]), ps)"
  by (simp add: read_entry_def)

lemma read_interval_write:
  "read_interval (quad (timeLeft i) @ quad (value i) @ quad (interval i) @ ps) = Some (i, ps)"
proof -
  define v where "v = unat (timeLeft i) + 2 ^ 32 * (unat (value i) + 2 ^ 32 * unat (interval i))"
  have "le_value (quad (timeLeft i) @ quad (value i) @ quad (interval i)) = v"
    by (simp add: le_value_append v_def)
  then have r: "prop_read 12 (quad (timeLeft i) @ quad (value i) @ quad (interval i) @ ps) = Some (v, ps)"
    by (simp add: prop_read_def)
  have "v div 2 ^ 32 = unat (value i) + 2 ^ 32 * unat (interval i)" "(of_nat v :: u32) = timeLeft i"
    using split_low [of "timeLeft i" "unat (value i) + 2 ^ 32 * unat (interval i)"] by (simp_all add: v_def)
  moreover from this have "v div 2 ^ 64 = unat (interval i)"
    using split_low(1) [of "value i" "unat (interval i)"] div_mult2_eq [of v "2 ^ 32" "2 ^ 32"] by simp
  moreover have "(of_nat (v div 2 ^ 32) :: u32) = value i"
    using split_low(2) [of "value i" "unat (interval i)"] calculation by simp
  ultimately show ?thesis
    by (simp add: read_interval_def r)
qed


lemma split_step:
  fixes a :: "'a :: len word"
  assumes "v div 2 ^ k = unat a + 2 ^ LENGTH('a) * r"
  shows "of_nat (v div 2 ^ k) = a" "v div 2 ^ (k + LENGTH('a)) = r"
  using split_low [of a r] assms by (simp_all add: power_add div_mult2_eq)

lemma read_outfit_write:
  "read_outfit (half (lookType f) @ half (lookTypeEx f) @ half (lookMount f) @ byte (unat (lookHead f)) @
     byte (unat (lookBody f)) @ byte (unat (lookLegs f)) @ byte (unat (lookFeet f)) @ byte (unat (lookAddons f)) @
     byte (unat (look_padding f)) @ ps) = Some (f, ps)"
proof -
  define v9 where "v9 = unat (look_padding f) + 2 ^ 8 * (0 :: nat)"
  define v8 where "v8 = unat (lookAddons f) + 2 ^ 8 * v9"
  define v7 where "v7 = unat (lookFeet f) + 2 ^ 8 * v8"
  define v6 where "v6 = unat (lookLegs f) + 2 ^ 8 * v7"
  define v5 where "v5 = unat (lookBody f) + 2 ^ 8 * v6"
  define v4 where "v4 = unat (lookHead f) + 2 ^ 8 * v5"
  define v3 where "v3 = unat (lookMount f) + 2 ^ 16 * v4"
  define v2 where "v2 = unat (lookTypeEx f) + 2 ^ 16 * v3"
  define v where "v = unat (lookType f) + 2 ^ 16 * v2"
  have small: "unat (b :: u8) < 256" for b
    using unat_less_8 [of b] by simp
  have "le_value (half (lookType f) @ half (lookTypeEx f) @ half (lookMount f) @ byte (unat (lookHead f)) @
     byte (unat (lookBody f)) @ byte (unat (lookLegs f)) @ byte (unat (lookFeet f)) @ byte (unat (lookAddons f)) @
     byte (unat (look_padding f))) = v"
    by (simp add: le_value_append v_def v2_def v3_def v4_def v5_def v6_def v7_def v8_def v9_def small)
  then have r: "prop_read 12 (half (lookType f) @ half (lookTypeEx f) @ half (lookMount f) @ byte (unat (lookHead f)) @
     byte (unat (lookBody f)) @ byte (unat (lookLegs f)) @ byte (unat (lookFeet f)) @ byte (unat (lookAddons f)) @
     byte (unat (look_padding f)) @ ps) = Some (v, ps)"
    by (simp add: prop_read_def)
  have 0: "v div 2 ^ 0 = unat (lookType f) + 2 ^ LENGTH(16) * v2" by (simp add: v_def)
  have 1: "v div 2 ^ 16 = unat (lookTypeEx f) + 2 ^ LENGTH(16) * v3" using split_step(2) [OF 0] by (simp add: v2_def)
  have 2: "v div 2 ^ 32 = unat (lookMount f) + 2 ^ LENGTH(16) * v4" using split_step(2) [OF 1] by (simp add: v3_def)
  have 3: "v div 2 ^ 48 = unat (lookHead f) + 2 ^ LENGTH(8) * v5" using split_step(2) [OF 2] by (simp add: v4_def)
  have 4: "v div 2 ^ 56 = unat (lookBody f) + 2 ^ LENGTH(8) * v6" using split_step(2) [OF 3] by (simp add: v5_def)
  have 5: "v div 2 ^ 64 = unat (lookLegs f) + 2 ^ LENGTH(8) * v7" using split_step(2) [OF 4] by (simp add: v6_def)
  have 6: "v div 2 ^ 72 = unat (lookFeet f) + 2 ^ LENGTH(8) * v8" using split_step(2) [OF 5] by (simp add: v7_def)
  have 7: "v div 2 ^ 80 = unat (lookAddons f) + 2 ^ LENGTH(8) * v9" using split_step(2) [OF 6] by (simp add: v8_def)
  have 8: "v div 2 ^ 88 = unat (look_padding f) + 2 ^ LENGTH(8) * 0" using split_step(2) [OF 7] by (simp add: v9_def)
  note parts = split_step(1) [OF 0] split_step(1) [OF 1] split_step(1) [OF 2] split_step(1) [OF 3] split_step(1) [OF 4]
    split_step(1) [OF 5] split_step(1) [OF 6] split_step(1) [OF 7] split_step(1) [OF 8]
  show ?thesis
    using parts by (simp add: read_outfit_def r)
qed


text \<open>The subclass of a condition is the one its type is created with.\<close>

definition class_ok :: "Condition \<Rightarrow> bool" where
  "class_ok c \<longleftrightarrow>
     (case details c of
        ConditionGeneric \<Rightarrow> conditionType c \<in> set generic_types
      | Attributes a \<Rightarrow> conditionType c = CONDITION_ATTRIBUTES \<and> length (skills a) = 7 \<and> length (skillsPercent a) = 7 \<and>
          length (stats a) = 4 \<and> length (statsPercent a) = 4
      | Regeneration _ \<Rightarrow> conditionType c = CONDITION_REGENERATION
      | Soul _ \<Rightarrow> conditionType c = CONDITION_SOUL
      | ConditionInvisible \<Rightarrow> conditionType c = CONDITION_INVISIBLE
      | Damage _ \<Rightarrow> conditionType c \<in> set damage_types
      | Speed _ \<Rightarrow> conditionType c \<in> {CONDITION_HASTE, CONDITION_PARALYZE}
      | OutfitChange _ \<Rightarrow> conditionType c = CONDITION_OUTFIT
      | Light _ \<Rightarrow> conditionType c = CONDITION_LIGHT
      | ConditionSpellCooldown \<Rightarrow> conditionType c = CONDITION_SPELLCOOLDOWN
      | ConditionSpellGroupCooldown \<Rightarrow> conditionType c = CONDITION_SPELLGROUPCOOLDOWN)"

definition add_ticks :: "int \<Rightarrow> IntervalInfo \<Rightarrow> Condition \<Rightarrow> Condition" where
  "add_ticks now i c = (if ticks c \<noteq> - 1 then setTicks now (ticks c + interval i) c else c)"

text \<open>A condition as it comes back: the counters begin again, the time of a damage is the sum of its
  intervals, and what is not saved has the value of a new condition.\<close>

definition reloaded :: "int \<Rightarrow> Condition \<Rightarrow> Condition" where
  "reloaded now c =
     (let c0 = c\<lparr>endTime := 0\<rparr> in
      case details c of
        Attributes a \<Rightarrow> c0\<lparr>details := Attributes (a\<lparr>skillsPercent := replicate 7 0, statsPercent := replicate 4 0,
          currentSkill := 7, currentStat := 4\<rparr>)\<rparr>
      | Regeneration r \<Rightarrow> c0\<lparr>details := Regeneration (r\<lparr>internalHealthTicks := 0, internalManaTicks := 0\<rparr>)\<rparr>
      | Soul s \<Rightarrow> c0\<lparr>details := Soul (s\<lparr>internalSoulTicks := 0\<rparr>)\<rparr>
      | Damage d \<Rightarrow>
          fold (add_ticks now) (damageList d)
            (c0\<lparr>ticks := 0, details := Damage (new_damage\<lparr>delayed := delayed d, periodDamage := periodDamage d,
              damageList := damageList d\<rparr>)\<rparr>)
      | _ \<Rightarrow> c0)"

definition base_bytes :: "Condition \<Rightarrow> u8 list" where
  "base_bytes c =
     byte CONDITIONATTR_TYPE @ quad (conditionType c) @ byte CONDITIONATTR_ID @ quad (scast (condition_id c)) @
     byte CONDITIONATTR_TICKS @ quad (ticks c) @ byte CONDITIONATTR_ISBUFF @ byte (flag_byte (isBuff c)) @
     byte CONDITIONATTR_SUBID @ quad (subId c)"

definition fields :: "nat \<Rightarrow> u32 list \<Rightarrow> u8 list" where
  "fields tag vs = concat (map (\<lambda>v. byte tag @ quad v) vs)"

definition interval_bytes :: "IntervalInfo list \<Rightarrow> u8 list" where
  "interval_bytes is =
     concat (map (\<lambda>i. byte CONDITIONATTR_INTERVALDATA @ quad (timeLeft i) @ quad (value i) @ quad (interval i)) is)"

definition body_bytes :: "Condition \<Rightarrow> u8 list" where
  "body_bytes c =
     (case details c of
        Attributes a \<Rightarrow> fields CONDITIONATTR_SKILLS (skills a) @ fields CONDITIONATTR_STATS (stats a)
      | Regeneration r \<Rightarrow>
          byte CONDITIONATTR_HEALTHTICKS @ quad (healthTicks r) @ byte CONDITIONATTR_HEALTHGAIN @ quad (healthGain r) @
          byte CONDITIONATTR_MANATICKS @ quad (manaTicks r) @ byte CONDITIONATTR_MANAGAIN @ quad (manaGain r)
      | Soul s \<Rightarrow> byte CONDITIONATTR_SOULGAIN @ quad (soulGain s) @ byte CONDITIONATTR_SOULTICKS @ quad (soulTicks s)
      | Damage d \<Rightarrow>
          byte CONDITIONATTR_DELAYED @ byte (flag_byte (delayed d)) @ byte CONDITIONATTR_PERIODDAMAGE @ quad (periodDamage d) @
          interval_bytes (damageList d)
      | Speed s \<Rightarrow>
          byte CONDITIONATTR_SPEEDDELTA @ quad (speedDelta s) @ byte CONDITIONATTR_FORMULA_MINA @ quad (mina s) @
          byte CONDITIONATTR_FORMULA_MINB @ quad (minb s) @ byte CONDITIONATTR_FORMULA_MAXA @ quad (maxa s) @
          byte CONDITIONATTR_FORMULA_MAXB @ quad (maxb s)
      | OutfitChange f \<Rightarrow>
          byte CONDITIONATTR_OUTFIT @ half (lookType f) @ half (lookTypeEx f) @ half (lookMount f) @ byte (unat (lookHead f)) @
          byte (unat (lookBody f)) @ byte (unat (lookLegs f)) @ byte (unat (lookFeet f)) @ byte (unat (lookAddons f)) @
          byte (unat (look_padding f))
      | Light l \<Rightarrow>
          byte CONDITIONATTR_LIGHTCOLOR @ quad (ucast (light_color (lightInfo l))) @
          byte CONDITIONATTR_LIGHTLEVEL @ quad (ucast (light_level (lightInfo l))) @
          byte CONDITIONATTR_LIGHTTICKS @ quad (internalLightTicks l) @
          byte CONDITIONATTR_LIGHTINTERVAL @ quad (lightChangeInterval l)
      | _ \<Rightarrow> [])"

lemma field32_bytes: "field32 tag v w = w @ byte tag @ quad v"
  by (simp add: field32_def)

lemma fold_fields: "fold (field32 tag) vs w = w @ fields tag vs"
  by (induction vs arbitrary: w) (simp_all add: field32_bytes fields_def)

lemma fold_intervals: "fold write_interval is w = w @ interval_bytes is"
  by (induction "is" arbitrary: w) (simp_all add: write_interval_def interval_bytes_def)

lemma serialize_bytes: "serialize c w = w @ base_bytes c @ body_bytes c"
  by (simp add: serialize_defs base_serialize_def base_bytes_def body_bytes_def field32_bytes fold_fields fold_intervals
      write_outfit_def Let_def split: condition_class.split)

lemma read_tagged_quad [simp]: "tag < 256 \<Longrightarrow> read_tagged tag 4 (byte tag @ quad v @ ps) = (Some (unat v), ps)"
  by (simp add: read_tagged_def)

lemma read_tagged_byte [simp]:
  "tag < 256 \<Longrightarrow> n < 256 \<Longrightarrow> read_tagged tag (Suc 0) (byte tag @ byte n @ ps) = (Some n, ps)"
  by (simp add: read_tagged_def)

lemma flag_byte_less [simp]: "flag_byte b < 256" "flag_byte b \<noteq> 0 \<longleftrightarrow> b" "0 < flag_byte b \<longleftrightarrow> b"
  by (simp_all add: flag_byte_def)

lemma createCondition_from_base:
  "createCondition_from (base_bytes c @ ps) =
     (createCondition (condition_id c) (conditionType c) (ticks c) 0 (isBuff c) (subId c), ps)"
proof -
  have "(ucast (scast (condition_id c) :: u32) :: u8) = condition_id c"
    by (rule bit_word_eqI) (auto simp: bit_simps)
  then have "(of_nat (unat (scast (condition_id c) :: u32)) :: u8) = condition_id c"
    by simp
  then show ?thesis
    by (simp add: createCondition_from_def base_bytes_def condition_attrs)
qed


lemma unserialize_byte:
  "n < 256 \<Longrightarrow> unserialize now c (byte n @ ps) =
     (if n = 254 then Some (True, c, ps)
      else case unserializeProp now n c ps of
          None \<Rightarrow> None
        | Some (ok, c', ps') \<Rightarrow> if ok then unserialize now c' ps' else Some (False, c', ps'))"
  by (subst unserialize.simps) (auto simp: CONDITIONATTR_END_def split: option.split)

lemma unserialize_intervals:
  assumes "details c = Damage d"
  shows "unserialize now c (interval_bytes is @ ps) =
     unserialize now (fold (add_ticks now) is (c\<lparr>details := Damage (d\<lparr>damageList := damageList d @ is\<rparr>)\<rparr>)) ps"
  using assms
proof (induction "is" arbitrary: c d)
  case Nil
  then have "c\<lparr>details := Damage d\<rparr> = c"
    by (cases c) simp
  then show ?case by (simp add: interval_bytes_def)
next
  case (Cons i "is")
  have one: "unserializeProp now CONDITIONATTR_INTERVALDATA c (quad (timeLeft i) @ quad (value i) @ quad (interval i) @ rs) =
      Some (True, add_ticks now i (c\<lparr>details := Damage (d\<lparr>damageList := damageList d @ [i]\<rparr>)\<rparr>), rs)" for rs
    using Cons.prems by (simp add: unserializeProp_defs condition_attrs read_interval_write add_ticks_def Let_def setTicks_def)
  have swap: "(add_ticks now i c')\<lparr>details := x\<rparr> = add_ticks now i (c'\<lparr>details := x\<rparr>)" for c' x
    by (simp add: add_ticks_def setTicks_def)
  have "details (add_ticks now i (c\<lparr>details := Damage (d\<lparr>damageList := damageList d @ [i]\<rparr>)\<rparr>)) = Damage (d\<lparr>damageList := damageList d @ [i]\<rparr>)"
    by (simp add: add_ticks_def setTicks_def)
  from Cons.IH [OF this] show ?case
    by (simp add: interval_bytes_def unserialize_field [OF _ one] swap CONDITIONATTR_INTERVALDATA_def [THEN eq_refl, THEN le_less_trans])
qed

lemma list_7: "length xs = 7 \<Longrightarrow> \<exists>a b c d e f g. xs = [a, b, c, d, e, f, g]"
  by (auto simp: eval_nat_numeral length_Suc_conv)

lemma list_4: "length xs = 4 \<Longrightarrow> \<exists>a b c d. xs = [a, b, c, d]"
  by (auto simp: eval_nat_numeral length_Suc_conv)

definition fresh :: "Condition \<Rightarrow> Condition option" where
  "fresh c = createCondition (condition_id c) (conditionType c) (ticks c) 0 (isBuff c) (subId c)"

lemmas make_defs = createCondition_def damage_types_def generic_types_def condition_types Let_def

lemma create_generic: "ty \<in> set generic_types \<Longrightarrow>
    createCondition i ty tk p b s = Some (new_condition i ty tk b s ConditionGeneric)"
  by (auto simp: make_defs)

lemma create_damage: "ty \<in> set damage_types \<Longrightarrow>
    createCondition i ty tk p b s = Some (new_condition i ty 0 b s (Damage new_damage))"
  by (simp add: createCondition_def)

lemma create_speed: "ty = CONDITION_HASTE \<or> ty = CONDITION_PARALYZE \<Longrightarrow>
    createCondition i ty tk p b s = Some (new_condition i ty tk b s (Speed (new_speed p)))"
  by (auto simp: make_defs)

lemma create_others:
  "createCondition i CONDITION_INVISIBLE tk p b s = Some (new_condition i CONDITION_INVISIBLE tk b s ConditionInvisible)"
  "createCondition i CONDITION_OUTFIT tk p b s = Some (new_condition i CONDITION_OUTFIT tk b s (OutfitChange new_outfit))"
  "createCondition i CONDITION_LIGHT tk 0 b s = Some (new_condition i CONDITION_LIGHT tk b s (Light (new_light 0 0)))"
  "createCondition i CONDITION_REGENERATION tk p b s = Some (new_condition i CONDITION_REGENERATION tk b s (Regeneration new_regeneration))"
  "createCondition i CONDITION_SOUL tk p b s = Some (new_condition i CONDITION_SOUL tk b s (Soul new_soul))"
  "createCondition i CONDITION_ATTRIBUTES tk p b s = Some (new_condition i CONDITION_ATTRIBUTES tk b s (Attributes new_attributes))"
  "createCondition i CONDITION_SPELLCOOLDOWN tk p b s = Some (new_condition i CONDITION_SPELLCOOLDOWN tk b s ConditionSpellCooldown)"
  "createCondition i CONDITION_SPELLGROUPCOOLDOWN tk p b s =
     Some (new_condition i CONDITION_SPELLGROUPCOOLDOWN tk b s ConditionSpellGroupCooldown)"
  by (simp_all add: make_defs)

text \<open>\<open>reads_back now c\<close>: the stored form of \<open>c\<close> is read as \<open>reloaded now c\<close>, and what follows is left.\<close>

definition reads_back :: "int \<Rightarrow> Condition \<Rightarrow> bool" where
  "reads_back now c \<longleftrightarrow> (\<exists>c0. fresh c = Some c0 \<and>
     (\<forall>ps. unserialize now c0 (body_bytes c @ byte CONDITIONATTR_END @ ps) = Some (True, reloaded now c, ps)))"

lemma reads_backI:
  assumes "fresh c = Some c0"
    and "\<And>ps. unserialize now c0 (body_bytes c @ byte CONDITIONATTR_END @ ps) = Some (True, reloaded now c, ps)"
  shows "reads_back now c"
  using assms by (auto simp: reads_back_def)

lemmas read_defs = fresh_def new_condition_def body_bytes_def reloaded_def unserialize_byte unserializeProp_defs
  condition_attrs Let_def

lemma reads_back_plain:
  assumes "class_ok c" "ticks c \<noteq> - 1"
    and "details c \<in> {ConditionGeneric, ConditionInvisible, ConditionSpellCooldown, ConditionSpellGroupCooldown}"
  shows "reads_back now c"
  using assms
  by (cases c) (auto simp: class_ok_def create_generic create_others read_defs intro!: reads_backI)

lemma reads_back_regeneration:
  assumes "class_ok c" "ticks c \<noteq> - 1" "details c = Regeneration r"
  shows "reads_back now c"
  using assms
  by (cases c; cases r) (auto simp: class_ok_def create_others read_defs new_regeneration_def intro!: reads_backI)

lemma reads_back_soul:
  assumes "class_ok c" "ticks c \<noteq> - 1" "details c = Soul r"
  shows "reads_back now c"
  using assms
  by (cases c; cases r) (auto simp: class_ok_def create_others read_defs new_soul_def intro!: reads_backI)

lemma reads_back_speed:
  assumes "class_ok c" "ticks c \<noteq> - 1" "details c = Speed r"
  shows "reads_back now c"
  using assms
  by (cases c; cases r) (auto simp: class_ok_def create_speed read_defs new_speed_def intro!: reads_backI)

lemma reads_back_light:
  assumes "class_ok c" "ticks c \<noteq> - 1" "details c = Light r"
  shows "reads_back now c"
proof -
  have "(of_nat (unat (ucast (b :: u8) :: u32)) :: u8) = b" for b
  proof -
    have "(ucast (ucast (b :: u8) :: u32) :: u8) = b"
      by (rule bit_word_eqI) (auto simp: bit_simps)
    then show ?thesis by simp
  qed
  then show ?thesis
    using assms
    by (cases c; cases r; cases "lightInfo r") (auto simp: class_ok_def create_others read_defs new_light_def intro!: reads_backI)
qed

lemma reads_back_outfit:
  assumes "class_ok c" "ticks c \<noteq> - 1" "details c = OutfitChange f"
  shows "reads_back now c"
  using assms
  by (cases c) (auto simp: class_ok_def create_others read_defs read_outfit_write intro!: reads_backI)

lemma reads_back_attributes:
  assumes "class_ok c" "ticks c \<noteq> - 1" "details c = Attributes a"
  shows "reads_back now c"
proof -
  obtain a0 a1 a2 a3 a4 a5 a6 where s: "skills a = [a0, a1, a2, a3, a4, a5, a6]"
    using assms list_7 [of "skills a"] by (auto simp: class_ok_def)
  obtain b0 b1 b2 b3 where t: "stats a = [b0, b1, b2, b3]"
    using assms list_4 [of "stats a"] by (auto simp: class_ok_def)
  show ?thesis
    using assms s t
    by (cases c; cases a) (auto simp: class_ok_def create_others read_defs new_attributes_def fields_def eval_nat_numeral intro!: reads_backI)
qed

lemma reads_back_damage:
  assumes "class_ok c" "ticks c \<noteq> - 1" "details c = Damage d"
  shows "reads_back now c"
  using assms
  by (cases c) (auto simp: class_ok_def create_damage read_defs new_damage_def unserialize_intervals intro!: reads_backI)

lemma reads_back_all: "class_ok c \<Longrightarrow> ticks c \<noteq> - 1 \<Longrightarrow> reads_back now c"
  by (cases "details c")
    (auto intro: reads_back_plain reads_back_attributes reads_back_regeneration reads_back_soul reads_back_damage
      reads_back_speed reads_back_outfit reads_back_light)

definition stored :: "Condition list \<Rightarrow> u8 list" where
  "stored cs = concat (map (\<lambda>c. base_bytes c @ body_bytes c @ byte CONDITIONATTR_END) (filter isPersistent cs))"

lemma save_conditions_stored: "save_conditions cs w = w @ stored cs"
  by (induction cs arbitrary: w) (simp_all add: stored_def serialize_bytes)

lemma load_stored:
  assumes "list_all class_ok cs"
  shows "load_conditions now acc (stored cs) = Some (rev (map (reloaded now) (filter isPersistent cs)) @ acc)"
  using assms
proof (induction cs arbitrary: acc)
  case Nil
  then show ?case
    by (simp add: stored_def load_conditions.simps createCondition_from_def read_tagged_def prop_read_def)
next
  case (Cons c cs)
  show ?case
  proof (cases "isPersistent c")
    case False
    then show ?thesis
      using Cons by (simp add: stored_def)
  next
    case True
    then have "reads_back now c"
      using Cons.prems by (intro reads_back_all) (auto simp: isPersistent_def split: if_splits)
    then obtain c0 where c0: "fresh c = Some c0"
      "\<And>ps. unserialize now c0 (body_bytes c @ byte CONDITIONATTR_END @ ps) = Some (True, reloaded now c, ps)"
      by (auto simp: reads_back_def)
    have "stored (c # cs) = base_bytes c @ body_bytes c @ byte CONDITIONATTR_END @ stored cs"
      using True by (simp add: stored_def)
    then have "load_conditions now acc (stored (c # cs)) = load_conditions now (reloaded now c # acc) (stored cs)"
      using c0 by (subst load_conditions.simps) (simp add: createCondition_from_base fresh_def)
    then show ?thesis
      using Cons True by simp
  qed
qed

text \<open>C16: the conditions that are saved with a player are loaded again, in the reverse order, each as \<open>reloaded\<close>
  says.  Those that are permanent or come from an item are left out.  Every other keeps its type, id, sub id
  and whether it is a buff; it keeps its remaining time, unless it is a damage; and it keeps what it does: the
  skills and statistics that it gives, the gains and intervals of a regeneration, the speed, the outfit, the
  light, and of a damage the period, the delay and the list of rounds still to come.  Lost are the end that the
  remaining time stands for, which a start computes again, and the counters of the intervals, which begin again; the
  percentages of attributes; and of a damage its owner, its least, greatest and start value, its interval,
  its counter, its marks for a field and for a forced update, and its time, which becomes the sum of the
  intervals of its list.\<close>

theorem conditions_saved_and_loaded:
  assumes "list_all class_ok cs"
  shows "load_conditions now [] (save_conditions cs []) = Some (rev (map (reloaded now) (filter isPersistent cs)))"
  using load_stored [OF assms, of now "[]"] by (simp add: save_conditions_stored)

definition sample_conditions :: "Condition list" where
  "sample_conditions =
     [new_condition CONDITIONID_COMBAT CONDITION_HASTE 10000 False 0 (Speed (new_speed 60)),
      new_condition CONDITIONID_RING CONDITION_MANASHIELD (- 1) False 0 ConditionGeneric,
      new_condition CONDITIONID_DEFAULT CONDITION_POISON 4000 False 0
        (Damage (new_damage\<lparr>damageList := [\<lparr>timeLeft = 500, value = - 5, interval = 2000\<rparr>, \<lparr>timeLeft = 2000, value = - 4, interval = 2000\<rparr>]\<rparr>))]"

theorem conditions_saved_and_loaded_witness:
  "load_conditions 7 [] (save_conditions sample_conditions []) =
     Some (rev (map (reloaded 7) (filter isPersistent sample_conditions))) \<and>
   map conditionType (filter isPersistent sample_conditions) = [CONDITION_HASTE, CONDITION_POISON]"
proof
  have "list_all class_ok sample_conditions"
    by (simp add: sample_conditions_def class_ok_def new_condition_def generic_types_def damage_types_def)
  then show "load_conditions 7 [] (save_conditions sample_conditions []) =
      Some (rev (map (reloaded 7) (filter isPersistent sample_conditions)))"
    by (rule conditions_saved_and_loaded)
  show "map conditionType (filter isPersistent sample_conditions) = [CONDITION_HASTE, CONDITION_POISON]"
    by (simp add: sample_conditions_def isPersistent_def new_condition_def condition_ids)
qed

end
