(* ===== verification/FloatRound.thy ===== *)
theory FloatRound
  imports Complex_Main Prelude
begin

text \<open>
  Floating-point numbers as the code computes with them: rationals, rounded after each operation to a
  mantissa of p bits, to the nearest and to even in a tie (p is 24 for \<open>float\<close> and 53 for \<open>double\<close>).
  The range of the exponent is not bounded; no value of the code comes near its ends.
\<close>

section \<open>The exponent\<close>

fun ilog :: "nat \<Rightarrow> nat" where
  "ilog n = (if n < 2 then 0 else Suc (ilog (n div 2)))"

declare ilog.simps [simp del]

lemma ilog_bounds: "0 < n \<Longrightarrow> 2 ^ ilog n \<le> n \<and> n < 2 ^ Suc (ilog n)"
proof (induction n rule: ilog.induct)
  case (1 n)
  show ?case
  proof (cases "n < 2")
    case True
    then show ?thesis
      using "1.prems" by (subst ilog.simps, subst (2) ilog.simps) auto
  next
    case False
    then have "2 ^ ilog (n div 2) \<le> n div 2 \<and> n div 2 < 2 ^ Suc (ilog (n div 2))"
      using "1.IH" by simp
    moreover have "ilog n = Suc (ilog (n div 2))"
      using False by (subst ilog.simps) simp
    ultimately show ?thesis
      by auto
  qed
qed

text \<open>The power of two at or below a positive number.\<close>

definition exponent :: "rat \<Rightarrow> int" where
  "exponent x = (if 1 \<le> x then int (ilog (nat \<lfloor>x\<rfloor>)) else - int (Suc (ilog (nat (\<lceil>1 / x\<rceil> - 1)))))"

lemma exponent_bounds:
  assumes "0 < x"
  shows "2 powi exponent x \<le> x" and "x < 2 powi (exponent x + 1)"
proof -
  have "2 powi exponent x \<le> x \<and> x < 2 powi (exponent x + 1)"
  proof (cases "1 \<le> x")
    case True
    define n where "n = nat \<lfloor>x\<rfloor>"
    have n: "0 < n" "of_nat n \<le> x" "x < of_nat (Suc n)"
      using True by (auto simp: n_def) linarith+
    have "2 ^ ilog n \<le> n" "Suc n \<le> 2 ^ Suc (ilog n)"
      using ilog_bounds [OF n(1)] by auto
    then have "(2 :: rat) ^ ilog n \<le> of_nat n" "of_nat (Suc n) \<le> (2 :: rat) ^ Suc (ilog n)"
      by (metis of_nat_le_iff of_nat_numeral of_nat_power)+
    then have "(2 :: rat) ^ ilog n \<le> x" "x < (2 :: rat) ^ Suc (ilog n)"
      using n by linarith+
    moreover have "exponent x = int (ilog n)" "2 powi (int (ilog n) + 1) = (2 :: rat) ^ Suc (ilog n)"
      using True by (simp_all add: exponent_def n_def power_int_add)
    ultimately show ?thesis
      by (simp add: power_int_of_nat)
  next
    case False
    define c where "c = nat (\<lceil>1 / x\<rceil> - 1)"
    have "1 < 1 / x"
      using False assms by simp
    then have "1 < \<lceil>1 / x\<rceil>"
      by linarith
    then have c: "0 < c" "of_nat c < 1 / x" "1 / x \<le> of_nat (Suc c)"
      by (auto simp: c_def) linarith+
    define k where "k = Suc (ilog c)"
    have "2 ^ ilog c \<le> c" "Suc c \<le> 2 ^ k"
      using ilog_bounds [OF c(1)] by (auto simp: k_def)
    then have "(2 :: rat) ^ ilog c \<le> of_nat c" "of_nat (Suc c) \<le> (2 :: rat) ^ k"
      by (metis of_nat_le_iff of_nat_numeral of_nat_power)+
    then have "2 ^ ilog c < 1 / x" "1 / x \<le> 2 ^ k"
      using c by linarith+
    then have "1 / 2 ^ k \<le> x" "x < 1 / 2 ^ ilog c"
      using assms by (simp_all add: field_simps)
    moreover have "exponent x = - int k" "exponent x + 1 = - int (ilog c)"
      using False by (simp_all add: exponent_def k_def c_def)
    ultimately show ?thesis
      by (simp add: power_int_minus power_int_of_nat inverse_eq_divide)
  qed
  then show "2 powi exponent x \<le> x" "x < 2 powi (exponent x + 1)"
    by auto
qed

section \<open>Rounding\<close>

definition round_even :: "rat \<Rightarrow> int" where
  "round_even x =
     (let n = \<lfloor>x\<rfloor>; r = x - of_int n
      in if r < 1 / 2 then n else if 1 / 2 < r then n + 1 else if even n then n else n + 1)"

lemma round_even_near: "\<bar>of_int (round_even x) - x\<bar> \<le> 1 / 2"
proof -
  have "of_int \<lfloor>x\<rfloor> \<le> x" "x < of_int \<lfloor>x\<rfloor> + 1"
    by linarith+
  then show ?thesis
    unfolding round_even_def Let_def by (auto simp: abs_le_iff)
qed

lemma round_even_int [simp]: "round_even (of_int n) = n"
  by (simp add: round_even_def)

definition round_pos :: "nat \<Rightarrow> rat \<Rightarrow> rat" where
  "round_pos p x = (let u = 2 powi (exponent x - int p + 1) in of_int (round_even (x / u)) * u)"

definition fl :: "nat \<Rightarrow> rat \<Rightarrow> rat" where
  "fl p x = (if x = 0 then 0 else if x < 0 then - round_pos p (- x) else round_pos p x)"

lemma round_pos_error:
  assumes "0 < x"
  shows "\<bar>round_pos p x - x\<bar> \<le> x / 2 ^ p"
proof -
  define u :: rat where "u = 2 powi (exponent x - int p + 1)"
  have u: "0 < u"
    by (simp add: u_def)
  have r: "round_pos p x = of_int (round_even (x / u)) * u"
    by (simp only: round_pos_def Let_def u_def)
  have "u / 2 = 2 powi exponent x / 2 ^ p"
    by (simp add: u_def power_int_add power_int_diff power_int_of_nat)
  also have "\<dots> \<le> x / 2 ^ p"
    using exponent_bounds(1) [OF assms] by (simp add: divide_right_mono)
  finally have "u / 2 \<le> x / 2 ^ p" .
  moreover have "round_pos p x - x = (of_int (round_even (x / u)) - x / u) * u"
    using u by (simp add: r left_diff_distrib)
  then have "\<bar>round_pos p x - x\<bar> = \<bar>of_int (round_even (x / u)) - x / u\<bar> * u"
    using u by (simp add: abs_mult)
  then have "\<bar>round_pos p x - x\<bar> \<le> (1 / 2) * u"
    using round_even_near [of "x / u"] u by (simp add: mult_right_mono)
  ultimately show ?thesis
    by linarith
qed

lemma fl_error: "\<bar>fl p x - x\<bar> \<le> \<bar>x\<bar> / 2 ^ p"
proof (cases "x < 0")
  case True
  then have "\<bar>round_pos p (- x) - (- x)\<bar> \<le> - x / 2 ^ p"
    by (intro round_pos_error) simp
  then have "\<bar>- round_pos p (- x) - x\<bar> \<le> - x / 2 ^ p"
    by (simp add: abs_le_iff)
  then show ?thesis
    using True by (simp add: fl_def)
next
  case False
  then show ?thesis
    using round_pos_error [of x p] by (cases "x = 0") (simp_all add: fl_def)
qed

text \<open>An integer with no more bits than the mantissa is not changed.\<close>

lemma round_pos_nat:
  assumes "0 < n" and "n < 2 ^ p"
  shows "round_pos p (of_nat n) = of_nat n"
proof -
  define e where "e = ilog n"
  have "2 ^ e \<le> n"
    using ilog_bounds [OF assms(1)] by (simp add: e_def)
  then have "e < p"
    using assms(2) by (metis le_less_trans nat_power_less_imp_less zero_less_numeral)
  then obtain k where k: "p = Suc (e + k)"
    using less_imp_Suc_add by blast
  have "exponent (of_nat n) = int e"
    using assms(1) by (simp add: exponent_def e_def)
  then have u: "2 powi (exponent (of_nat n) - int p + 1) = 1 / (2 :: rat) ^ k"
    by (simp add: k power_int_minus power_int_of_nat inverse_eq_divide)
  have "(of_nat n :: rat) * 2 ^ k = of_int (int n * 2 ^ k)"
    by simp
  then show ?thesis
    unfolding round_pos_def Let_def u by (simp only: divide_divide_eq_right div_by_1 round_even_int) simp
qed

lemma fl_int: "0 \<le> k \<Longrightarrow> k < 2 ^ p \<Longrightarrow> fl p (of_int k) = of_int k"
proof (cases "k = 0")
  case False
  assume "0 \<le> k" "k < 2 ^ p"
  moreover from this have "nat k < 2 ^ p"
    by (simp add: nat_less_iff)
  ultimately show ?thesis
    using round_pos_nat [of "nat k" p] False by (simp add: fl_def)
qed (simp add: fl_def)

end
