(* ===== verification/DamageList.thy ===== *)
theory DamageList
  imports FloatRound
begin

text \<open>
  How a damage over time is shared out: \<open>ConditionDamage::generateDamageList\<close> (condition.cpp).  The list
  counts down from a start value to one and repeats each value while that brings the acc closer to
  its share of the amount; the comparison is made in floating point.  The products and sums of the
  code are \<open>int32_t\<close>; where they do not fit the code has no meaning, and the properties bound them.
\<close>

section \<open>The code\<close>

text \<open>The condition of the inner loop, \<open>x1 < x2\<close>.  A division by zero gives infinity on both sides.\<close>

definition off_share :: "rat \<Rightarrow> int \<Rightarrow> rat" where
  "off_share part med = \<bar>fl 53 (1 - fl 24 (part / fl 24 (of_int med)))\<bar>"

definition closer :: "int \<Rightarrow> int \<Rightarrow> int \<Rightarrow> bool" where
  "closer acc i med =
     (med \<noteq> 0 \<and>
      off_share (fl 24 (fl 24 (of_int acc) + fl 24 (of_int i))) med < off_share (fl 24 (of_int acc)) med)"

partial_function (option) damage_steps :: "int \<Rightarrow> int \<Rightarrow> int \<Rightarrow> int list \<Rightarrow> (int \<times> int list) option" where
  "damage_steps i med acc xs =
     (if closer (acc + i) i med then damage_steps i med (acc + i) (xs @ [i]) else Some (acc + i, xs @ [i]))"

declare damage_steps.simps [code]

fun damage_rounds :: "int \<Rightarrow> int \<Rightarrow> nat \<Rightarrow> int \<Rightarrow> int list \<Rightarrow> int list option" where
  "damage_rounds start amount 0 acc xs = Some xs"
| "damage_rounds start amount (Suc k) acc xs =
     (let i = int (Suc k); n = start + 1 - i; med = (n * amount) div start in
      case damage_steps i med acc xs of
        None \<Rightarrow> None
      | Some (acc', xs') \<Rightarrow> damage_rounds start amount k acc' xs')"

definition generateDamageList :: "int \<Rightarrow> int \<Rightarrow> int list option" where
  "generateDamageList amount start = damage_rounds start \<bar>amount\<bar> (nat start) 0 []"

text \<open>The start value of \<open>ConditionDamage::init\<close> when the script gives none: \<open>max(1, ceil(amount / 20.0))\<close>.\<close>

definition default_start :: "int \<Rightarrow> int" where
  "default_start amount = max 1 \<lceil>fl 53 (of_int amount / 20)\<rceil>"

section \<open>The comparison\<close>

lemma off_share_near:
  assumes "0 < med" "med < 2 ^ 22" "0 \<le> acc" "acc < 2 ^ 22"
  shows "\<bar>off_share (of_int acc) med * of_int med - of_int \<bar>med - acc\<bar>\<bar> < 1 / 2"
proof -
  define m k :: rat where "m = of_int med" and "k = of_int acc"
  have b: "1 \<le> m" "m \<le> 2 ^ 22" "0 \<le> k" "k \<le> 2 ^ 22"
  proof -
    show "1 \<le> m" "0 \<le> k"
      using assms by (simp_all add: m_def k_def)
    have "med \<le> 2 ^ 22" "acc \<le> 2 ^ 22"
      using assms by simp_all
    then show "m \<le> 2 ^ 22" "k \<le> 2 ^ 22"
      unfolding m_def k_def by (metis of_int_le_iff of_int_numeral of_int_power)+
  qed
  have "fl 24 (of_int med) = m"
    unfolding m_def using assms by (auto intro!: fl_int)
  then have off: "off_share (of_int acc) med = \<bar>fl 53 (1 - fl 24 (k / m))\<bar>"
    by (simp add: off_share_def k_def)
  define f d where "f = fl 24 (k / m)" and "d = fl 53 (1 - f)"
  have "\<bar>f - k / m\<bar> \<le> \<bar>k / m\<bar> / 2 ^ 24"
    unfolding f_def by (rule fl_error)
  then have f: "\<bar>f - k / m\<bar> \<le> k / m / 2 ^ 24"
    using b by simp
  then have f1: "\<bar>f * m - k\<bar> \<le> k / 2 ^ 24"
  proof -
    have "\<bar>f * m - k\<bar> = \<bar>f - k / m\<bar> * m"
      using b by (simp add: abs_mult_pos left_diff_distrib)
    also have "\<dots> \<le> (k / m / 2 ^ 24) * m"
      using f b by (intro mult_right_mono) simp_all
    finally show ?thesis
      using b by simp
  qed
  have "\<bar>d - (1 - f)\<bar> \<le> \<bar>1 - f\<bar> / 2 ^ 53"
    unfolding d_def by (rule fl_error)
  then have d1: "\<bar>d * m - (m - f * m)\<bar> \<le> \<bar>m - f * m\<bar> / 2 ^ 53"
  proof -
    assume a: "\<bar>d - (1 - f)\<bar> \<le> \<bar>1 - f\<bar> / 2 ^ 53"
    have "\<bar>d * m - (m - f * m)\<bar> = \<bar>d - (1 - f)\<bar> * m" "\<bar>m - f * m\<bar> = \<bar>1 - f\<bar> * m"
      using b abs_mult [of "d - (1 - f)" m] abs_mult [of "1 - f" m] by (simp_all add: left_diff_distrib)
    then show ?thesis
      using mult_right_mono [OF a, of m] b by simp
  qed
  have "\<bar>f * m - k\<bar> \<le> 1 / 4"
    using f1 b by simp
  moreover from this have "f * m \<le> k + 1 / 4" "k - 1 / 4 \<le> f * m"
    by linarith+
  then have "\<bar>m - f * m\<bar> \<le> 2 ^ 24"
    using b unfolding abs_le_iff by simp
  then have "\<bar>d * m - (m - f * m)\<bar> \<le> 1 / 8"
    using d1 by simp
  ultimately have "\<bar>\<bar>d * m\<bar> - \<bar>m - k\<bar>\<bar> < 1 / 2"
    by linarith
  moreover have "\<bar>d * m\<bar> = off_share (of_int acc) med * m"
    using b by (simp add: off d_def f_def abs_mult)
  moreover have "\<bar>m - k\<bar> = of_int \<bar>med - acc\<bar>"
    by (simp add: m_def k_def)
  ultimately show ?thesis
    by (simp add: m_def)
qed

text \<open>Away from ties the comparison is the one of the integers.\<close>

lemma closer_decides:
  assumes "0 \<le> med" "med < 2 ^ 22" "0 \<le> acc" "0 < i" "acc + i < 2 ^ 22"
  shows "2 * acc + i < 2 * med \<Longrightarrow> closer acc i med"
    and "2 * med < 2 * acc + i \<Longrightarrow> \<not> closer acc i med"
proof -
  define D D' where "D = \<bar>med - (acc + i)\<bar>" and "D' = \<bar>med - acc\<bar>"
  have near: "\<bar>off_share (of_int (acc + i)) med * of_int med - of_int D\<bar> < 1 / 2"
      "\<bar>off_share (of_int acc) med * of_int med - of_int D'\<bar> < 1 / 2" if "0 < med"
    using off_share_near [of med "acc + i"] off_share_near [of med acc] assms that by (simp_all add: D_def D'_def)
  have "fl 24 (of_int acc) = of_int acc" "fl 24 (of_int i) = of_int i" "fl 24 (of_int (acc + i)) = of_int (acc + i)"
    using assms by (auto intro!: fl_int simp del: of_int_add)
  then have cl: "closer acc i med \<longleftrightarrow> med \<noteq> 0 \<and> off_share (of_int (acc + i)) med < off_share (of_int acc) med"
    by (simp add: closer_def)
  {
    assume a: "2 * acc + i < 2 * med"
    then have "0 < med" "D + 1 \<le> D'"
      using assms by (auto simp: D_def D'_def)
    then have "(of_int D :: rat) + 1 \<le> of_int D'"
      by (metis of_int_1 of_int_add of_int_le_iff)
    then have "off_share (of_int (acc + i)) med * of_int med < off_share (of_int acc) med * of_int med"
      using near [OF \<open>0 < med\<close>] by linarith
    then show "closer acc i med"
      using \<open>0 < med\<close> by (simp add: cl)
  next
    assume a: "2 * med < 2 * acc + i"
    show "\<not> closer acc i med"
    proof (cases "med = 0")
      case False
      then have "0 < med" "D' + 1 \<le> D"
        using a assms by (auto simp: D_def D'_def)
      then have "(of_int D' :: rat) + 1 \<le> of_int D"
        by (metis of_int_1 of_int_add of_int_le_iff)
      then have "off_share (of_int acc) med * of_int med < off_share (of_int (acc + i)) med * of_int med"
        using near [OF \<open>0 < med\<close>] by linarith
      then show ?thesis
        using \<open>0 < med\<close> by (simp add: cl)
    qed (simp add: closer_def)
  }
qed

section \<open>A round and the whole list\<close>

lemma damage_steps_ends:
  assumes "0 \<le> med" "med < 2 ^ 21" "0 \<le> acc" "0 < i" "acc + i < 2 ^ 22 - 2 ^ 11" "i < 2 ^ 11"
  shows "\<exists>k. damage_steps i med acc xs = Some (acc + int (Suc k) * i, xs @ replicate (Suc k) i) \<and>
    2 * med \<le> 2 * (acc + int (Suc k) * i) + i \<and>
    (k = 0 \<or> 2 * (acc + int (Suc k) * i) \<le> 2 * med + i)"
  using assms
proof (induction "nat (med - acc)" arbitrary: acc xs rule: less_induct)
  case less
  have one: "acc + int (Suc 0) * i = acc + i" "xs @ replicate (Suc 0) i = xs @ [i]"
    by simp_all
  have cl: "2 * (acc + i) + i < 2 * med \<Longrightarrow> closer (acc + i) i med"
      "2 * med < 2 * (acc + i) + i \<Longrightarrow> \<not> closer (acc + i) i med"
    using closer_decides [of med "acc + i" i] less.prems by simp_all
  show ?case
  proof (cases "closer (acc + i) i med")
    case False
    then have "damage_steps i med acc xs = Some (acc + i, xs @ [i])"
      by (subst damage_steps.simps) simp
    moreover have "2 * med \<le> 2 * (acc + i) + i"
      using cl(1) False by linarith
    ultimately show ?thesis
      using one by (intro exI [of _ 0]) simp
  next
    case True
    then have le: "2 * (acc + i) + i \<le> 2 * med"
      using cl(2) by linarith
    then have "nat (med - (acc + i)) < nat (med - acc)" "acc + i + i < 2 ^ 22 - 2 ^ 11"
      using less.prems by auto
    from less.hyps [OF this(1), of "xs @ [i]"] this(2) less.prems obtain k where
      k: "damage_steps i med (acc + i) (xs @ [i]) = Some (acc + i + int (Suc k) * i, (xs @ [i]) @ replicate (Suc k) i)"
        "2 * med \<le> 2 * (acc + i + int (Suc k) * i) + i" "k = 0 \<or> 2 * (acc + i + int (Suc k) * i) \<le> 2 * med + i"
      by auto
    have "damage_steps i med acc xs = damage_steps i med (acc + i) (xs @ [i])"
      using True by (subst damage_steps.simps) simp
    moreover have "acc + i + int (Suc k) * i = acc + int (Suc (Suc k)) * i"
      by (simp add: algebra_simps)
    moreover have "(xs @ [i]) @ replicate (Suc k) i = xs @ replicate (Suc (Suc k)) i"
      by simp
    moreover have "2 * (acc + int (Suc (Suc k)) * i) \<le> 2 * med + i"
      using k(3) le by (auto simp: algebra_simps)
    ultimately show ?thesis
      using k by (intro exI [of _ "Suc k"]) simp
  qed
qed

text \<open>Every value from the start down to one occurs, and the list does not increase.\<close>

definition counts_down :: "nat \<Rightarrow> int list \<Rightarrow> bool" where
  "counts_down k ys \<longleftrightarrow> sorted_wrt (\<ge>) ys \<and> set ys = {1..int k}"

lemma counts_down_Suc:
  assumes "counts_down k ys"
  shows "counts_down (Suc k) (replicate (Suc n) (int (Suc k)) @ ys)"
proof -
  have "sorted_wrt (\<ge>) (replicate m (int (Suc k)))" for m
    by (induction m) auto
  moreover have "set ys \<union> {int (Suc k)} = {1..int (Suc k)}"
    using assms by (auto simp: counts_down_def)
  ultimately show ?thesis
    using assms by (auto simp: counts_down_def sorted_wrt_append)
qed

lemma room_step:
  assumes "0 < r" "r < s" "s * (s + 2) \<le> 2 * a + (1 :: int)"
  shows "2 * ((s - r) * a div s) + (r + 1) + r * (r + 1) \<le> 2 * a"
proof -
  have "s * (r + 1) * (r + 1) \<le> 2 * r * a"
  proof (cases "r = 1 \<and> s = 2")
    case True
    then show ?thesis using assms by simp
  next
    case False
    have "(r + 1) * (r + 1) \<le> r * (r + 3) - (r - 1)"
      by (simp add: algebra_simps)
    have "r * (s * (s + 2)) \<le> r * (2 * a + 1)"
      using assms by (intro mult_left_mono) simp_all
    then have "r * s * (s + 2) - r \<le> 2 * r * a"
      by (simp add: algebra_simps)
    moreover have "s * (r + 1) * (r + 1) + r \<le> r * s * (s + 2)"
    proof -
      have "s * ((r + 1) * (r + 1) + 1) \<le> s * (r * (s + 2))"
      proof (rule mult_left_mono)
        show "(r + 1) * (r + 1) + 1 \<le> r * (s + 2)"
        proof (cases "s = r + 1")
          case True
          then have "2 \<le> r" using False assms by auto
          then show ?thesis using True by (simp add: algebra_simps)
        next
          case ne: False
          then have "r * (r + 4) \<le> r * (s + 2)"
            using assms by (intro mult_left_mono) simp_all
          then show ?thesis
            using assms by (simp add: algebra_simps)
        qed
      qed (use assms in simp)
      then show ?thesis
        using assms by (simp add: algebra_simps)
    qed
    ultimately show ?thesis by linarith
  qed
  moreover have "s * ((s - r) * a div s) \<le> (s - r) * a"
    using assms minus_mod_eq_mult_div [of "(s - r) * a" s] pos_mod_sign [of s "(s - r) * a"] by linarith
  ultimately have "s * (2 * ((s - r) * a div s) + (r + 1) + r * (r + 1)) \<le> s * (2 * a)"
    by (simp add: algebra_simps)
  then show ?thesis
    using assms by simp
qed


lemma damage_rounds_end:
  assumes "0 \<le> amount" "amount \<le> 2 ^ 20" "0 < start" "start \<le> 2000" "int k \<le> start" "0 \<le> acc"
    and "2 * acc \<le> 2 ^ 21 + 2 * start + (start - int k) * (start + int k + 1)"
  shows "\<exists>ys. damage_rounds start amount k acc xs = Some (xs @ ys) \<and> counts_down k ys"
  using assms(5-)
proof (induction k arbitrary: acc xs)
  case 0
  then show ?case
    by (auto simp: counts_down_def)
next
  case (Suc k)
  define i med where "i = int (Suc k)" and "med = (start + 1 - i) * amount div start"
  have "(start + 1 - i) * amount \<le> start * amount"
    using assms Suc.prems by (intro mult_right_mono) (simp_all add: i_def)
  then have med: "0 \<le> med" "med \<le> amount"
    using assms Suc.prems zdiv_mono1 [of "(start + 1 - i) * amount" "start * amount" start]
    by (auto simp: med_def i_def pos_imp_zdiv_nonneg_iff)
  have sq: "(start - int (Suc k)) * (start + int (Suc k) + 1) \<le> 2000 * 2001"
  proof -
    have "(start - int (Suc k)) * (start + int (Suc k) + 1) = start * (start + 1) - i * (i + 1)"
      by (simp add: i_def algebra_simps)
    also have "\<dots> \<le> start * (start + 1)"
      by (simp add: i_def)
    also have "\<dots> \<le> 2000 * 2001"
      using assms by (intro mult_mono) simp_all
    finally show ?thesis .
  qed
  have small: "acc + i < 2 ^ 22 - 2 ^ 11" "i < 2 ^ 11" "med < 2 ^ 21" "0 < i"
    using assms Suc.prems sq med by (auto simp: i_def)
  obtain n where n: "damage_steps i med acc xs = Some (acc + int (Suc n) * i, xs @ replicate (Suc n) i)"
      "n = 0 \<or> 2 * (acc + int (Suc n) * i) \<le> 2 * med + i"
    using damage_steps_ends [OF med(1) small(3) _ small(4,1,2)] Suc.prems by blast
  have "2 * (acc + int (Suc n) * i) \<le> 2 ^ 21 + 2 * start + (start - int k) * (start + int k + 1)"
  proof (cases "n = 0")
    case True
    have "(start - int k) * (start + int k + 1) = (start - int (Suc k)) * (start + int (Suc k) + 1) + 2 * i"
      by (simp add: i_def algebra_simps)
    then show ?thesis
      using True Suc.prems by simp
  next
    case False
    have "0 \<le> (start - int k) * (start + int k + 1)"
      using assms Suc.prems by simp
    moreover have "2 * (acc + int (Suc n) * i) \<le> 2 * med + i"
      using False n(2) by blast
    moreover have "med \<le> 2 ^ 20" "i \<le> start" "(2 :: int) ^ 21 = 2 * 2 ^ 20"
      using med assms Suc.prems by (simp_all add: i_def)
    ultimately show ?thesis
      using small(4) by linarith
  qed
  then obtain ys where "damage_rounds start amount k (acc + int (Suc n) * i) (xs @ replicate (Suc n) i) =
      Some ((xs @ replicate (Suc n) i) @ ys)" "counts_down k ys"
    using Suc.IH [of "acc + int (Suc n) * i" "xs @ replicate (Suc n) i"] Suc.prems small by auto
  then show ?case
    using n(1) counts_down_Suc [of k ys n] by (auto simp: i_def med_def Let_def)
qed

lemma damage_rounds_total:
  assumes "0 < start" "start * (start + 2) \<le> 2 * amount + 1" "amount \<le> 2 ^ 20"
    and "0 < k" "int k \<le> start" "0 \<le> acc" "2 * acc + int k * (int k + 1) \<le> 2 * amount" "sum_list xs = acc"
  shows "\<exists>ys. damage_rounds start amount k acc xs = Some ys \<and> sum_list ys = amount"
  using assms(4-)
proof (induction k arbitrary: acc xs)
  case (Suc k)
  define i med where "i = int (Suc k)" and "med = (start + 1 - i) * amount div start"
  have "0 \<le> start * (start + 2)"
    using assms by simp
  then have am: "0 \<le> amount"
    using assms by linarith
  have "(start + 1 - i) * amount \<le> start * amount"
    using am Suc.prems by (intro mult_right_mono) (simp_all add: i_def)
  then have med: "0 \<le> med" "med \<le> amount"
    using am assms Suc.prems zdiv_mono1 [of "(start + 1 - i) * amount" "start * amount" start]
    by (auto simp: med_def i_def pos_imp_zdiv_nonneg_iff)
  have st: "start < 2 ^ 11"
  proof (rule ccontr)
    assume "\<not> start < 2 ^ 11"
    then have "2 ^ 11 * (2 ^ 11 + 2) \<le> start * (start + 2)"
      by (intro mult_mono) simp_all
    then show False
      using assms by simp
  qed
  have "0 \<le> int (Suc k) * (int (Suc k) + 1)"
    by simp
  have "(2 :: int) ^ 22 = 4 * 2 ^ 20" "(2 :: int) ^ 11 = 2048" "(2 :: int) ^ 20 = 1048576" "(2 :: int) ^ 21 = 2 * 2 ^ 20"
    by simp_all
  moreover have "0 < i" "i \<le> start" "2 * acc \<le> 2 * amount"
    using Suc.prems \<open>0 \<le> int (Suc k) * (int (Suc k) + 1)\<close> unfolding i_def by linarith+
  ultimately have small: "acc + i < 2 ^ 22 - 2 ^ 11" "i < 2 ^ 11" "med < 2 ^ 21" "0 < i"
    using assms(3) med st by linarith+
  obtain n where n: "damage_steps i med acc xs = Some (acc + int (Suc n) * i, xs @ replicate (Suc n) i)"
      "2 * med \<le> 2 * (acc + int (Suc n) * i) + i" "n = 0 \<or> 2 * (acc + int (Suc n) * i) \<le> 2 * med + i"
    using damage_steps_ends [OF med(1) small(3) _ small(4,1,2)] Suc.prems by blast
  define acc' where "acc' = acc + int (Suc n) * i"
  have xs': "sum_list (xs @ replicate (Suc n) i) = acc'" "0 \<le> acc'"
    using Suc.prems small by (simp_all add: acc'_def sum_list_replicate algebra_simps)
  have run: "damage_rounds start amount (Suc k) acc xs = damage_rounds start amount k acc' (xs @ replicate (Suc n) i)"
    using n(1) by (simp add: i_def med_def acc'_def Let_def)
  show ?case
  proof (cases "k = 0")
    case True
    then have "i = 1" "med = amount"
      using assms by (simp_all add: i_def med_def)
    then have "amount \<le> acc'" "n = 0 \<or> acc' \<le> amount"
      using n acc'_def by auto
    moreover have "acc' \<le> amount" if "n = 0"
      using that Suc.prems True by (simp add: acc'_def \<open>i = 1\<close>)
    ultimately have "acc' = amount"
      by linarith
    then show ?thesis
      using run xs' True by simp
  next
    case False
    have "2 * acc' + int k * (int k + 1) \<le> 2 * amount"
    proof (cases "n = 0")
      case True
      then show ?thesis
        using Suc.prems by (simp add: acc'_def i_def algebra_simps)
    next
      case other: False
      have "2 * ((start - int k) * amount div start) + (int k + 1) + int k * (int k + 1) \<le> 2 * amount"
        using False Suc.prems assms by (intro room_step) simp_all
      moreover have "2 * acc' \<le> 2 * med + i"
        using other n(3) acc'_def by blast
      moreover have "i = int k + 1" "med = (start - int k) * amount div start"
        by (simp_all add: i_def med_def)
      ultimately show ?thesis
        by simp
    qed
    then show ?thesis
      using Suc.IH [of acc' "xs @ replicate (Suc n) i"] False Suc.prems xs' run by simp
  qed
qed simp



lemma sum_set_le: "list_all (\<lambda>y. 0 \<le> y) ys \<Longrightarrow> \<Sum> (set ys) \<le> sum_list (ys :: int list)"
proof (induction ys)
  case (Cons y ys)
  then show ?case
    by (cases "y \<in> set ys") (auto simp: insert_absorb)
qed simp

lemma counts_down_total:
  assumes "counts_down k ys"
  shows "int k * (int k + 1) \<le> 2 * sum_list ys"
proof -
  have "2 * \<Sum> {1..int k} = int k * (int k + 1)"
  proof (induction k)
    case (Suc k)
    have "{1..int (Suc k)} = insert (int (Suc k)) {1..int k}"
      by auto
    then show ?case
      using Suc by (simp add: algebra_simps)
  qed simp
  moreover have "list_all (\<lambda>y. 0 \<le> y) ys"
    using assms by (auto simp: counts_down_def list_all_iff)
  ultimately show ?thesis
    using sum_set_le [of ys] assms by (simp add: counts_down_def)
qed

text \<open>C24: for a start value with \<open>start * (start + 2) <= 2 * amount + 1\<close>, which is about the root of twice the amount, and an
  amount of at most \<open>2 ^ 20\<close>, a damage over time deals exactly its amount: the list that is generated has the amount as its
  sum, counts down from the start value to one and omits no value between, whatever the rounding of the
  comparisons.  Above that bound it may deal more, as it does with the start value that the code chooses by
  itself for amounts above 780.\<close>

theorem damage_adds_up:
  assumes "0 < start" and "start * (start + 2) \<le> 2 * amount + 1" and "amount \<le> 2 ^ 20"
  shows "\<exists>ys. generateDamageList amount start = Some ys \<and> sum_list ys = amount \<and> counts_down (nat start) ys"
proof -
  have am: "0 \<le> amount"
    using assms(1,2) by (smt (verit) mult_pos_pos)
  have "start \<le> 2000"
  proof (rule ccontr)
    assume "\<not> start \<le> 2000"
    then have "2000 * 2002 \<le> start * (start + 2)"
      by (intro mult_mono) simp_all
    then show False
      using assms by simp
  qed
  have "2 * 0 + start * (start + 1) \<le> 2 * amount"
    using assms(1,2) by (simp add: algebra_simps)
  then have "\<exists>ys. damage_rounds start amount (nat start) 0 [] = Some ys \<and> sum_list ys = amount"
    using assms by (intro damage_rounds_total) simp_all
  moreover have "\<exists>ys. damage_rounds start amount (nat start) 0 [] = Some ([] @ ys) \<and> counts_down (nat start) ys"
    using assms am \<open>start \<le> 2000\<close> by (intro damage_rounds_end) simp_all
  ultimately show ?thesis
    using am by (auto simp: generateDamageList_def)
qed

theorem damage_adds_up_witness:
  "\<exists>ys. generateDamageList 100 (default_start 100) = Some ys \<and> sum_list ys = 100 \<and> counts_down 5 ys"
proof -
  have "(fl 53 (of_int 100 / 20)) = 5"
    using fl_int [of 5 53] by simp
  then have "default_start 100 = 5"
    by (simp add: default_start_def)
  then show ?thesis
    using damage_adds_up [of 5 100] by simp
qed

section \<open>When the start is too high\<close>

lemma default_start_ceiling:
  assumes "0 < amount" "amount \<le> 2 ^ 20"
  shows "default_start amount = \<lceil>(of_int amount :: rat) / 20\<rceil>"
proof -
  define x :: rat where "x = of_int amount / 20"
  define n where "n = \<lceil>x\<rceil>"
  have "amount \<le> 1048576" "(of_int 1048576 :: rat) = 1048576"
    using assms by simp_all
  then have "(of_int amount :: rat) \<le> 1048576"
    by (metis of_int_le_iff)
  then have x: "0 < x" "x \<le> 2 ^ 20"
    using assms by (simp_all add: x_def)
  have n: "of_int n - 1 < x" "x \<le> of_int n"
    unfolding n_def by linarith+
  have "20 * (n - 1) < amount" "amount \<le> 20 * n"
    using n unfolding x_def by (simp_all add: field_simps flip: of_int_less_iff [where 'a = rat] of_int_le_iff [where 'a = rat])
  then have gap: "of_int n - 1 + 1 / 20 \<le> x" "x = of_int n \<or> x \<le> of_int n - 1 / 20"
  proof -
    have "20 * (n - 1) + 1 \<le> amount" "amount = 20 * n \<or> amount \<le> 20 * n - 1"
      using \<open>20 * (n - 1) < amount\<close> \<open>amount \<le> 20 * n\<close> by auto
    then have "(of_int (20 * (n - 1) + 1) :: rat) \<le> of_int amount"
        "(of_int amount :: rat) = of_int (20 * n) \<or> (of_int amount :: rat) \<le> of_int (20 * n - 1)"
      by (simp_all only: of_int_le_iff of_int_eq_iff)
    then show "of_int n - 1 + 1 / 20 \<le> x" "x = of_int n \<or> x \<le> of_int n - 1 / 20"
      by (auto simp: x_def field_simps)
  qed
  have "\<bar>fl 53 x - x\<bar> \<le> 1 / 40"
    using fl_error [of 53 x] x by simp
  moreover have "fl 53 x = x" if "x = of_int n"
    proof -
    have "0 < (of_int n :: rat)" "(of_int n :: rat) \<le> of_int (2 ^ 20)"
      using that x by simp_all
    then have "0 < n" "n \<le> 2 ^ 20"
      by (simp_all only: of_int_0_less_iff of_int_le_iff)
    then show ?thesis
      using fl_int [of n 53] by (simp add: that)
  qed
  ultimately have "of_int n - 1 < fl 53 x" "fl 53 x \<le> of_int n"
    using gap by linarith+
  then have "\<lceil>fl 53 x\<rceil> = n"
    by (simp add: ceiling_eq_iff)
  moreover have "1 \<le> n"
    using x unfolding n_def by linarith
  ultimately show ?thesis
    by (simp add: default_start_def x_def n_def)
qed

text \<open>With the start value the code chooses by itself, every amount above 780 deals more than it should.\<close>

lemma default_start_deals_more:
  assumes "780 < amount" "amount \<le> 40000"
  shows "\<exists>ys. generateDamageList amount (default_start amount) = Some ys \<and> amount < sum_list ys"
proof -
  define s where "s = default_start amount"
  have s: "s = \<lceil>(of_int amount :: rat) / 20\<rceil>"
    using assms default_start_ceiling [of amount] by (simp add: s_def)
  have "(of_int amount :: rat) / 20 \<le> of_int s" "of_int s < (of_int amount :: rat) / 20 + 1"
    unfolding s by linarith+
  then have "(of_int amount :: rat) \<le> of_int (20 * s)" "(of_int (20 * s) :: rat) < of_int (amount + 20)"
    by (simp_all add: field_simps)
  then have b: "amount \<le> 20 * s" "20 * s < amount + 20"
    by (simp_all only: of_int_le_iff of_int_less_iff)
  then have "40 \<le> s" "s \<le> 2000"
    using assms by linarith+
  have "\<exists>ys. damage_rounds s amount (nat s) 0 [] = Some ([] @ ys) \<and> counts_down (nat s) ys"
    using assms \<open>40 \<le> s\<close> \<open>s \<le> 2000\<close> by (intro damage_rounds_end) simp_all
  then obtain ys where ys: "generateDamageList amount s = Some ys" "counts_down (nat s) ys"
    using assms by (auto simp: generateDamageList_def)
  have "40 * s < s * (s + 1)"
    using \<open>40 \<le> s\<close> by simp
  moreover have "s * (s + 1) \<le> 2 * sum_list ys"
    using counts_down_total [OF ys(2)] \<open>40 \<le> s\<close> by simp
  ultimately have "amount < sum_list ys"
    using b by linarith
  then show ?thesis
    using ys(1) by (auto simp: s_def)
qed

end
