(* ===== verification/ConditionRun.thy ===== *)
theory ConditionRun
  imports ConditionStream DamageList
begin

text \<open>
  Conditions at work: what starting, executing, renewing and ending a condition does to a creature
  (condition.cpp), and the list of conditions of a creature (creature.cpp, player.cpp).  What is
  sent to clients and asked of the combat is appended to \<open>events\<close>; the answers of the combat, of the
  scripts and of the random generator, the clock and the surroundings are the environment of a step.
  A hit on a player adds or renews the condition of a fight on the same list.  What else a hit may set off
  is left out: a script asked about it, or an item whose last charge absorbs it, gives and takes no condition.
  None is a division by zero, or a damage list that is never finished.
\<close>

section \<open>State\<close>

record Hit =
  hit_owner :: u32
  hit_type :: CombatType_t
  hit_value :: u32
  hit_field :: bool

datatype cond_event =
    SendStats | SendSkills | SendIcons | HealthShown | SpeedShown | VisibleShown bool | OutfitShown Outfit_t
  | LightShown | SpellCooldown u32 u32 | GroupCooldown u32 u32 | Healed u32 | Poff | BlockHit Hit | HealthChange Hit
  | AddLater int Condition | RemoveLater int u32 | IdleStatus | AttackedCleared | SkullCleared | StatusText u32
  | ItemDestroyed u8 | WalkStopped | WalkResumed

record Creature =
  isPlayer :: bool
  isMonster :: bool
  baseSpeed :: u32
  varSpeed :: u32
  walking :: bool
  health :: u32
  healthMax :: u32
  mana :: u32
  manaMax :: u32
  infiniteMana :: bool
  soul :: u8
  soulMax :: u8
  magLevel :: u32
  baseSkills :: "u16 list"
  varSkills :: "u32 list"
  varStats :: "u32 list"
  suppressions :: u32
  defaultOutfit :: Outfit_t
  currentOutfit :: Outfit_t
  mountSpeed :: u32
  internalLight :: LightInfo
  itemsLight :: LightInfo
  pzLocked :: bool
  skull :: Skulls_t
  conditions :: "Condition list"
  events :: "cond_event list"

record Env =
  now :: int
  random :: "u32 \<Rightarrow> u32 \<Rightarrow> u32"
  walkDelay :: int
  inProtection :: bool
  tileField :: "CombatType_t option"
  attackerIsPlayer :: "u32 \<Rightarrow> bool"
  mayHit :: "u32 \<Rightarrow> bool"
  ghost :: bool
  absorbs :: "Hit \<Rightarrow> u32"
  ownAttack :: "u32 \<Rightarrow> bool"
  changesHealth :: "Hit \<Rightarrow> bool \<times> bool \<times> u32 \<times> u32"
  notGainInFight :: bool
  pzLockedTime :: u32
  outfitAllowed :: "Outfit_t \<Rightarrow> bool"
  pvpEnforced :: bool
  itemInSlot :: "u8 \<Rightarrow> bool"
  canDoAction :: bool
  nextActionTime :: u32

definition tell :: "cond_event \<Rightarrow> Creature \<Rightarrow> Creature" where
  "tell ev cr = cr\<lparr>events := events cr @ [ev]\<rparr>"

definition tell_player :: "cond_event \<Rightarrow> Creature \<Rightarrow> Creature" where
  "tell_player ev cr = (if isPlayer cr then tell ev cr else cr)"

section \<open>The creature\<close>

definition max32 :: "int \<Rightarrow> u32 \<Rightarrow> u32" where
  "max32 lo v = (if sint v < lo then word_of_int lo else v)"

definition min32 :: "u32 \<Rightarrow> u32 \<Rightarrow> u32" where
  "min32 a b = (if sint b < sint a then b else a)"

definition getMaxHealth :: "Creature \<Rightarrow> u32" where
  "getMaxHealth cr = (if isPlayer cr then max32 1 (healthMax cr + varStats cr ! 0) else healthMax cr)"

definition getMaxMana :: "Creature \<Rightarrow> u32" where
  "getMaxMana cr = (if isPlayer cr then max32 0 (manaMax cr + varStats cr ! 1) else 0)"

definition getMagicLevel :: "Creature \<Rightarrow> u32" where
  "getMagicLevel cr = max32 0 (magLevel cr + varStats cr ! 3)"

definition creature_changeHealth :: "u32 \<Rightarrow> Creature \<Rightarrow> Creature" where
  "creature_changeHealth healthChange cr =
     (let h = (if 0 < sint healthChange then health cr + min32 healthChange (getMaxHealth cr - health cr)
               else max32 0 (health cr + healthChange))
      in (if h \<noteq> health cr then tell HealthShown else id) (cr\<lparr>health := h\<rparr>))"

definition changeHealth :: "u32 \<Rightarrow> Creature \<Rightarrow> Creature" where
  "changeHealth healthChange cr = tell_player SendStats (creature_changeHealth healthChange cr)"

definition creature_changeMana :: "u32 \<Rightarrow> Creature \<Rightarrow> Creature" where
  "creature_changeMana manaChange cr =
     cr\<lparr>mana := (if 0 < sint manaChange then mana cr + min32 manaChange (getMaxMana cr - mana cr)
                 else max32 0 (mana cr + manaChange))\<rparr>"

definition changeMana :: "u32 \<Rightarrow> Creature \<Rightarrow> Creature" where
  "changeMana manaChange cr =
     (if isPlayer cr then tell SendStats (if infiniteMana cr then cr else creature_changeMana manaChange cr)
      else creature_changeMana manaChange cr)"

definition changeSoul :: "u32 \<Rightarrow> Creature \<Rightarrow> Creature" where
  "changeSoul soulChange cr =
     tell SendStats
       (cr\<lparr>soul := ucast (if 0 < sint soulChange then ucast (soul cr) + min32 soulChange (ucast (soulMax cr) - ucast (soul cr))
                          else max32 0 (ucast (soul cr) + soulChange))\<rparr>)"

definition setVarSkill :: "nat \<Rightarrow> u32 \<Rightarrow> Creature \<Rightarrow> Creature" where
  "setVarSkill skill modifier cr = cr\<lparr>varSkills := (varSkills cr)[skill := varSkills cr ! skill + modifier]\<rparr>"

definition setVarStats :: "nat \<Rightarrow> u32 \<Rightarrow> Creature \<Rightarrow> Creature" where
  "setVarStats stat modifier cr =
     (let cr1 = cr\<lparr>varStats := (varStats cr)[stat := varStats cr ! stat + modifier]\<rparr> in
      if stat = stat_code STAT_MAXHITPOINTS then
        (if sint (getMaxHealth cr1) < sint (health cr1)
         then creature_changeHealth (getMaxHealth cr1 - health cr1) cr1 else tell HealthShown cr1)
      else if stat = stat_code STAT_MAXMANAPOINTS then
        (if getMaxMana cr1 < mana cr1 then creature_changeMana (getMaxMana cr1 - mana cr1) cr1 else cr1)
      else cr1)"

definition getSpeed :: "Creature \<Rightarrow> u32" where
  "getSpeed cr = baseSpeed cr + varSpeed cr"

definition setSpeed :: "u32 \<Rightarrow> Creature \<Rightarrow> Creature" where
  "setSpeed varSpeedDelta cr =
     (let cr1 = cr\<lparr>varSpeed := varSpeedDelta\<rparr> in
      if sint (getSpeed cr1) \<le> 0 then tell WalkStopped cr1
      else if sint (getSpeed cr) \<le> 0 \<and> walking cr then tell WalkResumed cr1
      else cr1)"

definition changeSpeed :: "u32 \<Rightarrow> Creature \<Rightarrow> Creature" where
  "changeSpeed varSpeedDelta cr = tell SpeedShown (setSpeed (getSpeed cr - baseSpeed cr + varSpeedDelta) cr)"

definition getCreatureLight :: "Creature \<Rightarrow> LightInfo" where
  "getCreatureLight cr =
     (if \<not> isPlayer cr \<or> light_level (itemsLight cr) < light_level (internalLight cr) then internalLight cr else itemsLight cr)"

definition isSuppress :: "u32 \<Rightarrow> Creature \<Rightarrow> bool" where
  "isSuppress ty cr = hasBitSet ty (suppressions cr)"

definition isInvisible :: "Creature \<Rightarrow> bool" where
  "isInvisible cr = list_ex (\<lambda>c. conditionType c = CONDITION_INVISIBLE) (conditions cr)"

definition internalCreatureChangeOutfit :: "Env \<Rightarrow> Outfit_t \<Rightarrow> Creature \<Rightarrow> Creature" where
  "internalCreatureChangeOutfit e outfit cr =
     (if \<not> outfitAllowed e outfit then cr
      else let cr1 = cr\<lparr>currentOutfit := outfit\<rparr> in if isInvisible cr1 then cr1 else tell (OutfitShown outfit) cr1)"

section \<open>Numbers with fractions\<close>

definition truncate32 :: "rat \<Rightarrow> u32" where
  "truncate32 x = word_of_int (if x < 0 then \<lceil>x\<rceil> else \<lfloor>x\<rfloor>)"

text \<open>\<open>v * ((percent - 100) / 100.f)\<close>.\<close>

definition percent_of :: "int \<Rightarrow> u32 \<Rightarrow> u32" where
  "percent_of v percent = truncate32 (fl 24 (fl 24 (of_int v) * fl 24 (fl 24 (of_int (sint percent - 100)) / 100)))"

text \<open>The number that the bits of a \<open>float\<close> stand for, when it is finite.\<close>

definition float_value :: "u32 \<Rightarrow> rat" where
  "float_value b =
     (let ex = unat (take_bit 8 (drop_bit 23 b)); m = unat (take_bit 23 b);
          v = (if ex = 0 then of_nat m * 2 powi (- 149) else of_nat (2 ^ 23 + m) * 2 powi (int ex - 150))
      in if bit b 31 then - v else v)"

definition getFormulaValues :: "u32 \<Rightarrow> ConditionSpeed \<Rightarrow> u32 \<times> u32" where
  "getFormulaValues var s =
     (let v = fl 24 (of_int (sint var))
      in (truncate32 (fl 24 (fl 24 (v * float_value (mina s)) + float_value (minb s))),
          truncate32 (fl 24 (fl 24 (v * float_value (maxa s)) + float_value (maxb s)))))"

definition uniform_random :: "Env \<Rightarrow> u32 \<Rightarrow> u32 \<Rightarrow> u32" where
  "uniform_random e minNumber maxNumber =
     (if minNumber = maxNumber then minNumber
      else if sint maxNumber < sint minNumber then random e maxNumber minNumber
      else random e minNumber maxNumber)"

definition chooseSpeed :: "Env \<Rightarrow> Creature \<Rightarrow> ConditionSpeed \<Rightarrow> ConditionSpeed" where
  "chooseSpeed e cr s =
     (if speedDelta s = 0
      then let (lo, hi) = getFormulaValues (baseSpeed cr) s in s\<lparr>speedDelta := uniform_random e lo hi\<rparr>
      else s)"

section \<open>Attributes\<close>

definition stat_percent :: "Creature \<Rightarrow> u32 \<Rightarrow> nat \<Rightarrow> u32 \<Rightarrow> u32" where
  "stat_percent cr percent i old =
     (if percent = 0 then old
      else if i = stat_code STAT_MAXHITPOINTS then percent_of (sint (getMaxHealth cr)) percent
      else if i = stat_code STAT_MAXMANAPOINTS then percent_of (uint (getMaxMana cr)) percent
      else if i = stat_code STAT_MAGICPOINTS then percent_of (uint (getMagicLevel cr)) percent
      else old)"

definition updatePercentStats :: "Creature \<Rightarrow> ConditionAttributes \<Rightarrow> ConditionAttributes" where
  "updatePercentStats cr a =
     a\<lparr>stats := map (\<lambda>i. stat_percent cr (statsPercent a ! i) i (stats a ! i)) [0..<4]\<rparr>"

definition updatePercentSkills :: "Creature \<Rightarrow> ConditionAttributes \<Rightarrow> ConditionAttributes" where
  "updatePercentSkills cr a =
     a\<lparr>skills := map (\<lambda>i. if skillsPercent a ! i = 0 then skills a ! i
                          else percent_of (uint (baseSkills cr ! i)) (skillsPercent a ! i)) [0..<7]\<rparr>"

text \<open>One pass over an array of modifiers.\<close>

definition apply_all :: "(nat \<Rightarrow> u32 \<Rightarrow> Creature \<Rightarrow> Creature) \<Rightarrow> (nat \<Rightarrow> bool) \<Rightarrow> (nat \<Rightarrow> u32) \<Rightarrow> nat \<Rightarrow> Creature \<Rightarrow> Creature" where
  "apply_all set_var touched modifier n cr =
     fold (\<lambda>i cr. if touched i then set_var i (modifier i) cr else cr) [0..<n] cr"

definition updateSkills :: "ConditionAttributes \<Rightarrow> Creature \<Rightarrow> Creature" where
  "updateSkills a cr =
     (let cr1 = apply_all setVarSkill (\<lambda>i. skills a ! i \<noteq> 0) (\<lambda>i. skills a ! i) 7 cr
      in if list_ex (\<lambda>i. skills a ! i \<noteq> 0) [0..<7] then tell SendSkills cr1 else cr1)"

definition updateStats :: "ConditionAttributes \<Rightarrow> Creature \<Rightarrow> Creature" where
  "updateStats a cr =
     (let cr1 = apply_all setVarStats (\<lambda>i. stats a ! i \<noteq> 0) (\<lambda>i. stats a ! i) 4 cr
      in if list_ex (\<lambda>i. stats a ! i \<noteq> 0) [0..<4] then tell SendStats cr1 else cr1)"

definition apply_attributes :: "ConditionAttributes \<Rightarrow> Creature \<Rightarrow> ConditionAttributes \<times> Creature" where
  "apply_attributes a cr =
     (if isPlayer cr then
        let a1 = updatePercentSkills cr a; cr1 = updateSkills a1 cr;
            a2 = updatePercentStats cr1 a1
        in (a2, updateStats a2 cr1)
      else (a, cr))"

definition end_attributes :: "ConditionAttributes \<Rightarrow> Creature \<Rightarrow> Creature" where
  "end_attributes a cr =
     (if isPlayer cr then
        let touched = (\<lambda>i. skills a ! i \<noteq> 0 \<or> skillsPercent a ! i \<noteq> 0);
            cr1 = apply_all setVarSkill touched (\<lambda>i. - (skills a ! i)) 7 cr;
            cr2 = (if list_ex touched [0..<7] then tell SendSkills cr1 else cr1);
            cr3 = apply_all setVarStats (\<lambda>i. stats a ! i \<noteq> 0) (\<lambda>i. - (stats a ! i)) 4 cr2
        in if list_ex (\<lambda>i. stats a ! i \<noteq> 0) [0..<4] then tell SendStats cr3 else cr3
      else cr)"

section \<open>Damage\<close>

text \<open>\<open>Combat::ConditionToDamageType\<close>.\<close>

definition ConditionToDamageType :: "u32 \<Rightarrow> CombatType_t" where
  "ConditionToDamageType ty =
     (if ty = CONDITION_FIRE then COMBAT_FIREDAMAGE else if ty = CONDITION_ENERGY then COMBAT_ENERGYDAMAGE
      else if ty = CONDITION_BLEEDING then COMBAT_PHYSICALDAMAGE else if ty = CONDITION_DROWN then COMBAT_DROWNDAMAGE
      else if ty = CONDITION_POISON then COMBAT_EARTHDAMAGE else if ty = CONDITION_FREEZING then COMBAT_ICEDAMAGE
      else if ty = CONDITION_DAZZLED then COMBAT_HOLYDAMAGE else if ty = CONDITION_CURSED then COMBAT_DEATHDAMAGE
      else COMBAT_NONE)"

text \<open>\<open>std::round(v / 2.)\<close>: halves go away from zero.\<close>

definition half_of :: "u32 \<Rightarrow> u32" where
  "half_of v = word_of_int ((if sint v < 0 then sint v - 1 else sint v + 1) sdiv 2)"

text \<open>The list of conditions of a creature, as far as a hit needs it.\<close>

definition same_key :: "Condition \<Rightarrow> Condition \<Rightarrow> bool" where
  "same_key a b = (conditionType a = conditionType b \<and> condition_id a = condition_id b \<and> subId a = subId b)"

text \<open>The place of the first condition with the property.\<close>

fun find_condition :: "(Condition \<Rightarrow> bool) \<Rightarrow> Condition list \<Rightarrow> nat option" where
  "find_condition P [] = None"
| "find_condition P (c # cs) = (if P c then Some 0 else map_option Suc (find_condition P cs))"

definition base_start :: "Env \<Rightarrow> Condition \<Rightarrow> Condition" where
  "base_start e c = (if 0 < sint (ticks c) then c\<lparr>endTime := sint (ticks c) + now e\<rparr> else c)"

text \<open>\<open>Player::addInFightTicks\<close>, with what \<open>addCondition\<close> does with a condition of this class.\<close>

definition infight :: "Env \<Rightarrow> Condition" where
  "infight e = new_condition CONDITIONID_DEFAULT CONDITION_INFIGHT (pzLockedTime e) False 0 ConditionGeneric"

definition addInFightTicks :: "Env \<Rightarrow> Creature \<Rightarrow> Creature" where
  "addInFightTicks e cr =
     (if notGainInFight e then cr
      else case find_condition (\<lambda>d. same_key d (infight e)) (conditions cr) of
          Some i \<Rightarrow>
            (if updateCondition (now e) (conditions cr ! i) (infight e)
             then cr\<lparr>conditions := (conditions cr)[i := setTicks (now e) (pzLockedTime e) (conditions cr ! i)]\<rparr> else cr)
        | None \<Rightarrow> tell SendIcons (cr\<lparr>conditions := conditions cr @ [base_start e (infight e)]\<rparr>))"

definition onAttacked :: "Env \<Rightarrow> Creature \<Rightarrow> Creature" where
  "onAttacked e cr = (if isPlayer cr then addInFightTicks e cr else cr)"

text \<open>\<open>blockHit\<close> of a hit that asks for neither defence nor armour: the attacker is told, which counts when
  it is the creature itself, and then the creature; \<open>absorbs\<close> is what is left of the damage.\<close>

definition blockHit :: "Env \<Rightarrow> Hit \<Rightarrow> Creature \<Rightarrow> u32 \<times> Creature" where
  "blockHit e hit cr =
     (absorbs e hit, onAttacked e (if ownAttack e (hit_owner hit) then onAttacked e cr else cr))"

text \<open>\<open>Game::combatBlockHit\<close>: there is no secondary damage, whose block type is therefore none, so that
  what is blocked goes on as a damage of zero.\<close>

definition combatBlockHit :: "Env \<Rightarrow> Hit \<Rightarrow> Creature \<Rightarrow> bool \<times> Hit \<times> Creature" where
  "combatBlockHit e hit cr =
     (if hit_type hit = COMBAT_NONE then (True, hit, cr)
      else if isPlayer cr \<and> ghost e then (True, hit, cr)
      else if 0 < sint (hit_value hit) then (False, hit, cr)
      else
        let (v, cr1) = blockHit e (hit\<lparr>hit_value := - hit_value hit\<rparr>) (tell (BlockHit hit) cr)
        in (False, hit\<lparr>hit_value := - v\<rparr>, cr1))"

text \<open>\<open>Game::combatChangeHealth\<close> is asked whether it went through, whether mana was drained, which counts as
  an attack, and what health and mana are left.\<close>

definition combatChangeHealth :: "Env \<Rightarrow> Hit \<Rightarrow> Creature \<Rightarrow> bool \<times> Creature" where
  "combatChangeHealth e hit cr =
     (let (ok, drained, h, m) = changesHealth e hit; cr1 = tell (HealthChange hit) (cr\<lparr>health := h, mana := m\<rparr>)
      in (ok, if drained then onAttacked e cr1 else cr1))"

definition doDamage :: "Env \<Rightarrow> u32 \<Rightarrow> ConditionDamage \<Rightarrow> u32 \<Rightarrow> Creature \<Rightarrow> bool \<times> Creature" where
  "doDamage e ty d healthChange cr =
     (if isSuppress ty cr then (True, cr)
      else
        let v = (if in_field d \<and> isPlayer cr \<and> attackerIsPlayer e (owner d) then half_of healthChange else healthChange);
            hit = \<lparr>hit_owner = owner d, hit_type = ConditionToDamageType ty, hit_value = v, hit_field = in_field d\<rparr>
        in if \<not> mayHit e (owner d) then (False, if ghost e then cr else tell Poff cr)
           else
             let (blocked, hit', cr1) = combatBlockHit e hit cr
             in if blocked then (False, cr1) else combatChangeHealth e hit' cr1)"

text \<open>\<open>addDamage\<close>; the damage is the last argument and the result, with the condition around it.\<close>

fun add_rounds :: "int \<Rightarrow> nat \<Rightarrow> IntervalInfo \<Rightarrow> Condition \<Rightarrow> ConditionDamage \<Rightarrow> Condition" where
  "add_rounds clock 0 i c d = c\<lparr>details := Damage d\<rparr>"
| "add_rounds clock (Suc k) i c d =
     add_rounds clock k i (if ticks c \<noteq> - 1 then setTicks clock (ticks c + interval i) c else c)
       (d\<lparr>damageList := damageList d @ [i]\<rparr>)"

definition addDamage :: "int \<Rightarrow> u32 \<Rightarrow> u32 \<Rightarrow> u32 \<Rightarrow> Condition \<Rightarrow> ConditionDamage \<Rightarrow> bool \<times> Condition" where
  "addDamage clock rounds tm v c d =
     (let time = max32 1000 tm in
      if rounds = - 1 then
        (True, c\<lparr>ticks := - 1, details := Damage (d\<lparr>periodDamage := v, tickInterval := abs32 time\<rparr>)\<rparr>)
      else if 0 < sint (periodDamage d) then (False, c\<lparr>details := Damage d\<rparr>)
      else (True, add_rounds clock (nat (sint rounds)) \<lparr>timeLeft = time, value = v, interval = time\<rparr> c d))"

definition damage_of :: "Condition \<Rightarrow> ConditionDamage" where
  "damage_of c = (case details c of Damage d \<Rightarrow> d | _ \<Rightarrow> new_damage)"

definition startValue :: "int \<Rightarrow> ConditionDamage \<Rightarrow> u32" where
  "startValue amount d =
     (if sint (maxDamage d) < sint (startDamage d) then maxDamage d
      else if startDamage d = 0 then word_of_int (default_start amount) else startDamage d)"

definition init :: "Env \<Rightarrow> Condition \<Rightarrow> ConditionDamage \<Rightarrow> (bool \<times> Condition) option" where
  "init e c d =
     (if periodDamage d \<noteq> 0 then Some (True, c\<lparr>details := Damage d\<rparr>)
      else if damageList d \<noteq> [] then Some (True, c\<lparr>details := Damage d\<rparr>)
      else
        let c1 = setTicks (now e) 0 c; amount = sint (uniform_random e (minDamage d) (maxDamage d)) in
        if amount = 0 then Some (False, c1\<lparr>details := Damage d\<rparr>)
        else
          let d1 = d\<lparr>startDamage := startValue amount d\<rparr> in
          (case generateDamageList amount (sint (startDamage d1)) of
             None \<Rightarrow> None
           | Some vs \<Rightarrow>
               let c2 = fold (\<lambda>v c. snd (addDamage (now e) 1 (tickInterval d1) (word_of_int (- v)) c (damage_of c)))
                          vs (c1\<lparr>details := Damage d1\<rparr>)
               in Some (damageList (damage_of c2) \<noteq> [], c2)))"

definition getNextDamage :: "Condition \<Rightarrow> ConditionDamage \<Rightarrow> u32 option \<times> ConditionDamage" where
  "getNextDamage c d =
     (if periodDamage d \<noteq> 0 then (Some (periodDamage d), d)
      else case damageList d of
          [] \<Rightarrow> (None, d)
        | i # rest \<Rightarrow> (Some (value i), if ticks c \<noteq> - 1 then d\<lparr>damageList := rest\<rparr> else d))"

text \<open>The first damage of a condition that does not wait.\<close>

definition first_damage :: "Env \<Rightarrow> Condition \<Rightarrow> Creature \<Rightarrow> bool \<times> Condition \<times> Creature" where
  "first_damage e c cr =
     (let d = damage_of c in
      if delayed d then (True, c, cr)
      else case getNextDamage c d of
          (None, d') \<Rightarrow> (True, c\<lparr>details := Damage d'\<rparr>, cr)
        | (Some v, d') \<Rightarrow>
            (let (ok, cr') = doDamage e (conditionType c) d' v cr in (ok, c\<lparr>details := Damage d'\<rparr>, cr')))"

text \<open>\<open>Creature::onTickCondition\<close>: whether an entry of the list is used up.\<close>

definition onTickCondition :: "u32 \<Rightarrow> CombatType_t option \<Rightarrow> bool \<Rightarrow> bool" where
  "onTickCondition ty on_tile bRemove =
     (case on_tile of
        None \<Rightarrow> bRemove
      | Some combatType \<Rightarrow>
          if ty \<in> set damage_types then combatType \<noteq> ConditionToDamageType ty else bRemove)"

section \<open>Executing\<close>

definition base_execute :: "Env \<Rightarrow> u32 \<Rightarrow> Condition \<Rightarrow> bool \<times> Condition" where
  "base_execute e iv c =
     (if ticks c = - 1 then (True, c)
      else let c1 = c\<lparr>ticks := max32 0 (ticks c - iv)\<rparr> in (now e \<le> endTime c1, c1))"

definition execute_damage :: "Env \<Rightarrow> u32 \<Rightarrow> Condition \<Rightarrow> ConditionDamage \<Rightarrow> Creature \<Rightarrow> Condition \<times> u32 \<times> Creature" where
  "execute_damage e iv c d cr =
     (if periodDamage d \<noteq> 0 then
        let t = periodDamageTick d + iv in
        if sint (tickInterval d) \<le> sint t then
          let d1 = d\<lparr>periodDamageTick := 0\<rparr>
          in (c\<lparr>details := Damage d1\<rparr>, iv, snd (doDamage e (conditionType c) d1 (periodDamage d) cr))
        else (c\<lparr>details := Damage (d\<lparr>periodDamageTick := t\<rparr>)\<rparr>, iv, cr)
      else case damageList d of
          [] \<Rightarrow> (c, iv, cr)
        | i # rest \<Rightarrow>
            let bRemove = onTickCondition (conditionType c) (tileField e) (ticks c \<noteq> - 1);
                i1 = i\<lparr>timeLeft := timeLeft i - iv\<rparr>;
                due = sint (timeLeft i1) \<le> 0;
                d1 = d\<lparr>damageList := (if due then (if bRemove then rest else i1\<lparr>timeLeft := interval i\<rparr> # rest) else i1 # rest)\<rparr>;
                cr1 = (if due then snd (doDamage e (conditionType c) d1 (value i) cr) else cr);
                c1 = c\<lparr>details := Damage d1\<rparr>;
                c2 = (if \<not> bRemove \<and> 0 < sint (ticks c) then c1\<lparr>endTime := endTime c + sint iv\<rparr> else c1)
            in (c2, if bRemove then iv else 0, cr1))"

definition execute_regeneration :: "Env \<Rightarrow> u32 \<Rightarrow> bool \<Rightarrow> ConditionRegeneration \<Rightarrow> Creature \<Rightarrow> ConditionRegeneration \<times> Creature" where
  "execute_regeneration e iv buff r cr =
     (let r1 = r\<lparr>internalHealthTicks := internalHealthTicks r + iv, internalManaTicks := internalManaTicks r + iv\<rparr> in
      if inProtection e then (r1, cr)
      else
        let (r2, cr2) =
              (if healthTicks r1 \<le> internalHealthTicks r1 then
                 let cr1 = changeHealth (healthGain r1) cr; gain = health cr1 - health cr
                 in (r1\<lparr>internalHealthTicks := 0\<rparr>, if buff \<and> 0 < sint gain then tell_player (Healed gain) cr1 else cr1)
               else (r1, cr))
        in if manaTicks r2 \<le> internalManaTicks r2 then (r2\<lparr>internalManaTicks := 0\<rparr>, changeMana (manaGain r2) cr2)
           else (r2, cr2))"

definition execute_soul :: "Env \<Rightarrow> u32 \<Rightarrow> ConditionSoul \<Rightarrow> Creature \<Rightarrow> ConditionSoul \<times> Creature" where
  "execute_soul e iv s cr =
     (let s1 = s\<lparr>internalSoulTicks := internalSoulTicks s + iv\<rparr> in
      if isPlayer cr \<and> \<not> inProtection e \<and> soulTicks s1 \<le> internalSoulTicks s1
      then (s1\<lparr>internalSoulTicks := 0\<rparr>, changeSoul (soulGain s1) cr) else (s1, cr))"

definition execute_light :: "u32 \<Rightarrow> ConditionLight \<Rightarrow> Creature \<Rightarrow> ConditionLight \<times> Creature" where
  "execute_light iv l cr =
     (let l1 = l\<lparr>internalLightTicks := internalLightTicks l + iv\<rparr> in
      if lightChangeInterval l1 \<le> internalLightTicks l1 then
        let light = getCreatureLight cr in
        (l1\<lparr>internalLightTicks := 0\<rparr>,
         if 0 < light_level light
         then tell LightShown (cr\<lparr>internalLight := light\<lparr>light_level := light_level light - 1\<rparr>\<rparr>) else cr)
      else (l1, cr))"

definition executeCondition :: "Env \<Rightarrow> u32 \<Rightarrow> Condition \<Rightarrow> Creature \<Rightarrow> bool \<times> Condition \<times> Creature" where
  "executeCondition e iv c cr =
     (case details c of
        Damage d \<Rightarrow>
          (let (c1, iv1, cr1) = execute_damage e iv c d cr; (ok, c2) = base_execute e iv1 c1 in (ok, c2, cr1))
      | Regeneration r \<Rightarrow>
          (let (r', cr1) = execute_regeneration e iv (isBuff c) r cr; (ok, c1) = base_execute e iv (c\<lparr>details := Regeneration r'\<rparr>)
           in (ok, c1, cr1))
      | Soul s \<Rightarrow>
          (let (s', cr1) = execute_soul e iv s cr; (ok, c1) = base_execute e iv (c\<lparr>details := Soul s'\<rparr>) in (ok, c1, cr1))
      | Light l \<Rightarrow>
          (let (l', cr1) = execute_light iv l cr; (ok, c1) = base_execute e iv (c\<lparr>details := Light l'\<rparr>) in (ok, c1, cr1))
      | _ \<Rightarrow> (let (ok, c1) = base_execute e iv c in (ok, c1, cr)))"

section \<open>Starting and ending\<close>

text \<open>The interval of a light is \<open>ticks / level\<close>, both signed.\<close>

definition light_interval :: "u32 \<Rightarrow> u8 \<Rightarrow> u32 option" where
  "light_interval tk level = (if level = 0 then None else Some (word_of_int (sint tk sdiv uint level)))"

definition cooldown_event :: "Condition \<Rightarrow> Creature \<Rightarrow> Creature" where
  "cooldown_event c cr =
     (if subId c \<noteq> 0 \<and> 0 < sint (ticks c) then
        (case details c of
           ConditionSpellCooldown \<Rightarrow> tell_player (SpellCooldown (subId c) (ticks c)) cr
         | ConditionSpellGroupCooldown \<Rightarrow> tell_player (GroupCooldown (subId c) (ticks c)) cr
         | _ \<Rightarrow> cr)
      else cr)"

definition show_light :: "LightInfo \<Rightarrow> Creature \<Rightarrow> Creature" where
  "show_light light cr = tell LightShown (cr\<lparr>internalLight := light\<rparr>)"

text \<open>Each subclass starts after \<open>Condition::startCondition\<close>, which never refuses; \<open>c\<close> is the condition then.\<close>

type_synonym started = "(bool \<times> Condition \<times> Creature) option"

definition attributes_start :: "ConditionAttributes \<Rightarrow> Condition \<Rightarrow> Creature \<Rightarrow> started" where
  "attributes_start a c cr =
     (let (a', cr') = apply_attributes a cr in Some (True, c\<lparr>details := Attributes a'\<rparr>, cr'))"

definition damage_start :: "Env \<Rightarrow> ConditionDamage \<Rightarrow> Condition \<Rightarrow> Creature \<Rightarrow> started" where
  "damage_start e d c cr =
     (case init e c d of
        None \<Rightarrow> None
      | Some (ok, c1) \<Rightarrow> if ok then Some (first_damage e c1 cr) else Some (False, c1, cr))"

definition speed_start :: "Env \<Rightarrow> ConditionSpeed \<Rightarrow> Condition \<Rightarrow> Creature \<Rightarrow> started" where
  "speed_start e s c cr =
     (let s' = chooseSpeed e cr s in Some (True, c\<lparr>details := Speed s'\<rparr>, changeSpeed (speedDelta s') cr))"

definition invisible_start :: "Condition \<Rightarrow> Creature \<Rightarrow> started" where
  "invisible_start c cr = Some (True, c, tell (VisibleShown False) cr)"

definition outfit_start :: "Env \<Rightarrow> Outfit_t \<Rightarrow> Condition \<Rightarrow> Creature \<Rightarrow> started" where
  "outfit_start e f c cr = Some (True, c, internalCreatureChangeOutfit e f cr)"

definition light_start :: "ConditionLight \<Rightarrow> Condition \<Rightarrow> Creature \<Rightarrow> started" where
  "light_start l c cr =
     (case light_interval (ticks c) (light_level (lightInfo l)) of
        None \<Rightarrow> None
      | Some i \<Rightarrow>
          Some (True, c\<lparr>details := Light (l\<lparr>internalLightTicks := 0, lightChangeInterval := i\<rparr>)\<rparr>,
                show_light (lightInfo l) cr))"

definition cooldown_start :: "Condition \<Rightarrow> Creature \<Rightarrow> started" where
  "cooldown_start c cr = Some (True, c, cooldown_event c cr)"

definition startCondition :: "Env \<Rightarrow> Condition \<Rightarrow> Creature \<Rightarrow> started" where
  "startCondition e c0 cr =
     (let c = base_start e c0 in
      case details c of
        Attributes a \<Rightarrow> attributes_start a c cr
      | ConditionInvisible \<Rightarrow> invisible_start c cr
      | Damage d \<Rightarrow> damage_start e d c cr
      | Speed s \<Rightarrow> speed_start e s c cr
      | OutfitChange f \<Rightarrow> outfit_start e f c cr
      | Light l \<Rightarrow> light_start l c cr
      | ConditionSpellCooldown \<Rightarrow> cooldown_start c cr
      | ConditionSpellGroupCooldown \<Rightarrow> cooldown_start c cr
      | _ \<Rightarrow> Some (True, c, cr))"

lemmas startCondition_defs = startCondition_def base_start_def attributes_start_def damage_start_def speed_start_def
  invisible_start_def outfit_start_def light_start_def cooldown_start_def

definition invisible_end :: "Creature \<Rightarrow> Creature" where
  "invisible_end cr = (if isInvisible cr then cr else tell (VisibleShown True) cr)"

definition speed_end :: "ConditionSpeed \<Rightarrow> Creature \<Rightarrow> Creature" where
  "speed_end s cr = changeSpeed (- speedDelta s) cr"

definition outfit_end :: "Env \<Rightarrow> Creature \<Rightarrow> Creature" where
  "outfit_end e cr = internalCreatureChangeOutfit e (defaultOutfit cr) cr"

definition light_end :: "Creature \<Rightarrow> Creature" where
  "light_end cr = show_light \<lparr>light_level = 0, light_color = 0\<rparr> cr"

definition endCondition :: "Env \<Rightarrow> Condition \<Rightarrow> Creature \<Rightarrow> Creature" where
  "endCondition e c cr =
     (case details c of
        Attributes a \<Rightarrow> end_attributes a cr
      | ConditionInvisible \<Rightarrow> invisible_end cr
      | Speed s \<Rightarrow> speed_end s cr
      | OutfitChange _ \<Rightarrow> outfit_end e cr
      | Light _ \<Rightarrow> light_end cr
      | _ \<Rightarrow> cr)"

lemmas endCondition_defs = endCondition_def invisible_end_def speed_end_def outfit_end_def light_end_def

section \<open>Renewing\<close>

text \<open>\<open>addCondition\<close> of a condition that is there already, with a new one of the same type and ids.\<close>

definition renew_damage :: "Env \<Rightarrow> Condition \<Rightarrow> ConditionDamage \<Rightarrow> Condition \<Rightarrow> ConditionDamage \<Rightarrow> Creature \<Rightarrow> (Condition \<times> Creature) option" where
  "renew_damage e c d add da cr =
     (if conditionType add \<noteq> conditionType c then Some (c, cr)
      else if \<not> updateCondition (now e) c add then Some (c, cr)
      else
        let c1 = setTicks (now e) (ticks add) c;
            nextTimeLeft = (case damageList d of [] \<Rightarrow> tickInterval da | i # _ \<Rightarrow> timeLeft i);
            d1 = d\<lparr>owner := owner da, maxDamage := maxDamage da, minDamage := minDamage da, startDamage := startDamage da,
                   tickInterval := tickInterval da, periodDamage := periodDamage da, damageList := damageList da\<rparr>
        in (case init e c1 d1 of
              None \<Rightarrow> None
            | Some (ok, c2) \<Rightarrow>
                if \<not> ok then Some (c2, cr)
                else
                  let d2 = damage_of c2;
                      d3 = (case damageList d2 of [] \<Rightarrow> d2 | i # rest \<Rightarrow> d2\<lparr>damageList := i\<lparr>timeLeft := nextTimeLeft\<rparr> # rest\<rparr>);
                      (_, c3, cr') = first_damage e (c2\<lparr>details := Damage d3\<rparr>) cr
                  in Some (c3, cr')))"

definition renew_speed :: "Env \<Rightarrow> Condition \<Rightarrow> ConditionSpeed \<Rightarrow> Condition \<Rightarrow> ConditionSpeed \<Rightarrow> Creature \<Rightarrow> Condition \<times> Creature" where
  "renew_speed e c s add sa cr =
     (if conditionType c \<noteq> conditionType add then (c, cr)
      else if ticks c = - 1 \<and> 0 < sint (ticks add) then (c, cr)
      else
        let s' = chooseSpeed e cr sa; change = speedDelta s' - speedDelta s
        in ((setTicks (now e) (ticks add) c)\<lparr>details := Speed s'\<rparr>, if change \<noteq> 0 then changeSpeed change cr else cr))"

text \<open>The other subclasses ask \<open>updateCondition\<close> first; these are what they do when it agrees, with the
  condition as it is after \<open>setTicks\<close>.\<close>

definition renew_attributes :: "Condition \<Rightarrow> ConditionAttributes \<Rightarrow> ConditionAttributes \<Rightarrow> Creature \<Rightarrow> Condition \<times> Creature" where
  "renew_attributes c a aa cr =
     (let cr1 = end_attributes a cr;
          (a', cr2) = apply_attributes (a\<lparr>skills := skills aa, skillsPercent := skillsPercent aa,
                                          stats := stats aa, statsPercent := statsPercent aa\<rparr>) cr1
      in (c\<lparr>details := Attributes a'\<rparr>, cr2))"

definition renew_regeneration :: "Condition \<Rightarrow> ConditionRegeneration \<Rightarrow> ConditionRegeneration \<Rightarrow> Condition" where
  "renew_regeneration c r ra =
     c\<lparr>details := Regeneration (r\<lparr>healthTicks := healthTicks ra, manaTicks := manaTicks ra,
                                 healthGain := healthGain ra, manaGain := manaGain ra\<rparr>)\<rparr>"

definition renew_soul :: "Condition \<Rightarrow> ConditionSoul \<Rightarrow> ConditionSoul \<Rightarrow> Condition" where
  "renew_soul c s sa = c\<lparr>details := Soul (s\<lparr>soulTicks := soulTicks sa, soulGain := soulGain sa\<rparr>)\<rparr>"

definition renew_outfit :: "Env \<Rightarrow> Condition \<Rightarrow> Outfit_t \<Rightarrow> Creature \<Rightarrow> Condition \<times> Creature" where
  "renew_outfit e c fa cr = (c\<lparr>details := OutfitChange fa\<rparr>, internalCreatureChangeOutfit e fa cr)"

definition renew_light :: "Condition \<Rightarrow> ConditionLight \<Rightarrow> ConditionLight \<Rightarrow> Creature \<Rightarrow> (Condition \<times> Creature) option" where
  "renew_light c l la cr =
     (case light_interval (ticks c) (light_level (lightInfo la)) of
        None \<Rightarrow> None
      | Some i \<Rightarrow>
          Some (c\<lparr>details := Light (l\<lparr>lightInfo := lightInfo la, lightChangeInterval := i, internalLightTicks := 0\<rparr>)\<rparr>,
                show_light (lightInfo la) cr))"

definition renewCondition :: "Env \<Rightarrow> Condition \<Rightarrow> Condition \<Rightarrow> Creature \<Rightarrow> (Condition \<times> Creature) option" where
  "renewCondition e c add cr =
     (let c1 = setTicks (now e) (ticks add) c; up = updateCondition (now e) c add in
      case (details c, details add) of
        (Damage d, Damage da) \<Rightarrow> renew_damage e c d add da cr
      | (Speed s, Speed sa) \<Rightarrow> Some (renew_speed e c s add sa cr)
      | (Attributes a, Attributes aa) \<Rightarrow> Some (if up then renew_attributes c1 a aa cr else (c, cr))
      | (Regeneration r, Regeneration ra) \<Rightarrow> Some (if up then renew_regeneration c1 r ra else c, cr)
      | (Soul s, Soul sa) \<Rightarrow> Some (if up then renew_soul c1 s sa else c, cr)
      | (OutfitChange f, OutfitChange fa) \<Rightarrow> Some (if up then renew_outfit e c1 fa cr else (c, cr))
      | (Light l, Light la) \<Rightarrow> if up then renew_light c1 l la cr else Some (c, cr)
      | _ \<Rightarrow> Some (if up then (c1, cooldown_event c1 cr) else (c, cr)))"

lemmas renewCondition_defs = renewCondition_def renew_speed_def renew_attributes_def renew_regeneration_def
  renew_soul_def renew_outfit_def renew_light_def

section \<open>The list of conditions of a creature\<close>

definition hasCondition :: "Env \<Rightarrow> u32 \<Rightarrow> u32 \<Rightarrow> Creature \<Rightarrow> bool" where
  "hasCondition e ty sub cr =
     (\<not> isSuppress ty cr \<and>
      list_ex (\<lambda>c. conditionType c = ty \<and> subId c = sub \<and> now e \<le> endTime c) (conditions cr))"

definition getCondition :: "u32 \<Rightarrow> Creature \<Rightarrow> Condition option" where
  "getCondition ty cr = map_option (\<lambda>i. conditions cr ! i) (find_condition (\<lambda>c. conditionType c = ty) (conditions cr))"

text \<open>\<open>Creature::onEndCondition\<close> does nothing; a player stops fighting when the last of it ends.\<close>

definition onEndCondition :: "u32 \<Rightarrow> Creature \<Rightarrow> Creature" where
  "onEndCondition ty cr =
     (if \<not> isPlayer cr then cr
      else
        let cr1 = (if ty = CONDITION_INFIGHT then
                     let cr2 = tell AttackedCleared ((tell IdleStatus cr)\<lparr>pzLocked := False\<rparr>)
                     in if skull cr \<noteq> SKULL_RED \<and> skull cr \<noteq> SKULL_BLACK
                        then tell SkullCleared (cr2\<lparr>skull := SKULL_NONE\<rparr>) else cr2
                   else cr)
        in tell SendIcons cr1)"

definition drop_condition :: "Env \<Rightarrow> Condition \<Rightarrow> Condition list \<Rightarrow> Creature \<Rightarrow> Creature" where
  "drop_condition e c remaining cr =
     onEndCondition (conditionType c) (endCondition e c (cr\<lparr>conditions := remaining\<rparr>))"

text \<open>The loop of both \<open>removeCondition\<close>s by type: \<open>kept\<close> is what it has passed.  A paralysis of a creature
  that may not walk yet is removed later.\<close>

fun remove_from :: "Env \<Rightarrow> (Condition \<Rightarrow> bool) \<Rightarrow> bool \<Rightarrow> Condition list \<Rightarrow> Condition list \<Rightarrow> Creature \<Rightarrow> Creature" where
  "remove_from e P force kept [] cr = cr\<lparr>conditions := kept\<rparr>"
| "remove_from e P force kept (c # cs) cr =
     (if \<not> P c then remove_from e P force (kept @ [c]) cs cr
      else if \<not> force \<and> conditionType c = CONDITION_PARALYZE \<and> 0 < walkDelay e
      then tell (RemoveLater (walkDelay e) (conditionType c)) (cr\<lparr>conditions := kept @ c # cs\<rparr>)
      else remove_from e P force kept cs (drop_condition e c (kept @ cs) cr))"

definition removeCondition :: "Env \<Rightarrow> u32 \<Rightarrow> bool \<Rightarrow> Creature \<Rightarrow> Creature" where
  "removeCondition e ty force cr = remove_from e (\<lambda>c. conditionType c = ty) force [] (conditions cr) cr"

definition removeConditionId :: "Env \<Rightarrow> u32 \<Rightarrow> u8 \<Rightarrow> bool \<Rightarrow> Creature \<Rightarrow> Creature" where
  "removeConditionId e ty i force cr =
     remove_from e (\<lambda>c. conditionType c = ty \<and> condition_id c = i) force [] (conditions cr) cr"

text \<open>\<open>removeCondition\<close> of one condition of the list, which is at place \<open>n\<close>.\<close>

definition removeConditionAt :: "Env \<Rightarrow> nat \<Rightarrow> bool \<Rightarrow> Creature \<Rightarrow> Creature" where
  "removeConditionAt e n force cr =
     (if length (conditions cr) \<le> n then cr
      else
        let c = conditions cr ! n in
        if \<not> force \<and> conditionType c = CONDITION_PARALYZE \<and> 0 < walkDelay e
        then tell (RemoveLater (walkDelay e) (conditionType c)) cr
        else drop_condition e c (take n (conditions cr) @ drop (Suc n) (conditions cr)) cr)"

text \<open>The two loops of \<open>Player::death\<close>, which wait for nothing.\<close>

definition death_removes :: "Env \<Rightarrow> Creature \<Rightarrow> Creature" where
  "death_removes e cr = remove_from e isPersistent True [] (conditions cr) cr"

text \<open>\<open>Player::onCombatRemoveCondition\<close> of the condition between \<open>kept\<close> and \<open>cs\<close>: what stays of it, and
  the creature.  \<open>destroys\<close> is the throw of the dice, one in four, for the item that the condition is from.\<close>

definition onCombatRemoveCondition :: "Env \<Rightarrow> bool \<Rightarrow> Condition list \<Rightarrow> Condition \<Rightarrow> Condition list \<Rightarrow> Creature \<Rightarrow> Condition list \<times> Creature" where
  "onCombatRemoveCondition e destroys kept c cs cr =
     (let remove = (if conditionType c = CONDITION_PARALYZE \<and> 0 < walkDelay e
                    then ([c], tell (RemoveLater (walkDelay e) (conditionType c)) cr)
                    else ([], drop_condition e c (kept @ cs) cr)) in
      if \<not> isPlayer cr then remove
      else if 0 < sint (condition_id c) then
        ([c], if pvpEnforced e \<and> itemInSlot e (condition_id c) \<and> destroys then tell (ItemDestroyed (condition_id c)) cr else cr)
      else if \<not> canDoAction e then
        let delay = nextActionTime e; tk = delay - delay mod 1000 in
        (if sint tk < 0 then remove else ([setTicks (now e) tk c], cr))
      else remove)"

fun combat_remove_from :: "Env \<Rightarrow> bool \<Rightarrow> u32 \<Rightarrow> Condition list \<Rightarrow> Condition list \<Rightarrow> Creature \<Rightarrow> Creature" where
  "combat_remove_from e destroys ty kept [] cr = cr\<lparr>conditions := kept\<rparr>"
| "combat_remove_from e destroys ty kept (c # cs) cr =
     (if conditionType c = ty then
        let (stays, cr') = onCombatRemoveCondition e destroys kept c cs cr
        in combat_remove_from e destroys ty (kept @ stays) cs (cr'\<lparr>conditions := kept @ stays @ cs\<rparr>)
      else combat_remove_from e destroys ty (kept @ [c]) cs cr)"

definition removeCombatCondition :: "Env \<Rightarrow> bool \<Rightarrow> u32 \<Rightarrow> Creature \<Rightarrow> Creature" where
  "removeCombatCondition e destroys ty cr = combat_remove_from e destroys ty [] (conditions cr) cr"

text \<open>\<open>onAddCondition\<close>: haste and paralysis drive each other out, but not of a monster, which overrides this
  without calling it; a new outfit ends a ride.\<close>

definition dismount :: "Creature \<Rightarrow> Creature" where
  "dismount cr =
     (if mountSpeed cr \<noteq> 0 then changeSpeed (- mountSpeed cr) cr else cr)
       \<lparr>mountSpeed := 0, defaultOutfit := (defaultOutfit cr)\<lparr>lookMount := 0\<rparr>\<rparr>"

definition onAddCondition :: "Env \<Rightarrow> u32 \<Rightarrow> Creature \<Rightarrow> Creature" where
  "onAddCondition e ty cr =
     (let cr1 = (if ty = CONDITION_PARALYZE \<and> hasCondition e CONDITION_HASTE 0 cr then removeCondition e CONDITION_HASTE False cr
                 else if ty = CONDITION_HASTE \<and> hasCondition e CONDITION_PARALYZE 0 cr
                 then removeCondition e CONDITION_PARALYZE False cr else cr)
      in if isMonster cr then cr
         else if \<not> isPlayer cr1 then cr1
         else tell SendIcons (if ty = CONDITION_OUTFIT \<and> lookMount (defaultOutfit cr1) \<noteq> 0 then dismount cr1 else cr1))"

definition addCondition :: "Env \<Rightarrow> bool \<Rightarrow> Condition \<Rightarrow> Creature \<Rightarrow> (bool \<times> Creature) option" where
  "addCondition e force c cr =
     (if \<not> force \<and> conditionType c = CONDITION_HASTE \<and> hasCondition e CONDITION_PARALYZE 0 cr \<and> 0 < walkDelay e
      then Some (False, tell (AddLater (walkDelay e) c) cr)
      else case find_condition (\<lambda>d. same_key d c) (conditions cr) of
          Some i \<Rightarrow>
            (case renewCondition e (conditions cr ! i) c cr of
               None \<Rightarrow> None
             | Some (c', cr') \<Rightarrow> Some (True, cr'\<lparr>conditions := (conditions cr')[i := c']\<rparr>))
        | None \<Rightarrow>
            (case startCondition e c cr of
               None \<Rightarrow> None
             | Some (ok, c', cr') \<Rightarrow>
                 Some (if ok then (True, onAddCondition e (conditionType c') (cr'\<lparr>conditions := conditions cr' @ [c']\<rparr>))
                       else (False, cr'))))"

definition status_types :: "u32 list" where
  "status_types = [CONDITION_POISON, CONDITION_DROWN, CONDITION_PARALYZE, CONDITION_DRUNK, CONDITION_CURSED,
     CONDITION_FREEZING, CONDITION_DAZZLED, CONDITION_BLEEDING]"

definition onAddCombatCondition :: "u32 \<Rightarrow> Creature \<Rightarrow> Creature" where
  "onAddCombatCondition ty cr = (if ty \<in> set status_types then tell_player (StatusText ty) cr else cr)"

definition addCombatCondition :: "Env \<Rightarrow> Condition \<Rightarrow> Creature \<Rightarrow> (bool \<times> Creature) option" where
  "addCombatCondition e c cr =
     (case addCondition e False c cr of
        None \<Rightarrow> None
      | Some (ok, cr') \<Rightarrow> Some (ok, if ok then onAddCombatCondition (conditionType c) cr' else cr'))"

text \<open>The loop of \<open>executeConditions\<close>: \<open>kept\<close> is what it has passed, \<open>cs\<close> what is still to come.  A hit
  may have renewed the fight on either side, or appended it at the end, where the loop will come to it.\<close>

definition is_damage_class :: "Condition \<Rightarrow> bool" where
  "is_damage_class c = (case details c of Damage d \<Rightarrow> True | _ \<Rightarrow> False)"

function execute_from :: "Env \<Rightarrow> u32 \<Rightarrow> Condition list \<Rightarrow> Condition list \<Rightarrow> Creature \<Rightarrow> Creature" where
  "execute_from e iv kept [] cr = cr\<lparr>conditions := kept\<rparr>"
| "execute_from e iv kept (c # cs) cr =
     (let (ok, c', cr1) = executeCondition e iv c (cr\<lparr>conditions := kept @ c # cs\<rparr>);
          kept1 = take (length kept) (conditions cr1); cs1 = drop (Suc (length kept)) (conditions cr1) in
      if ok then execute_from e iv (kept1 @ [c']) cs1 cr1
      else execute_from e iv kept1 cs1 (drop_condition e c' (kept1 @ cs1) cr1))"
  by pat_completeness auto

text \<open>What a hit appends is no damage, so that the loop ends.\<close>

definition grown :: "Condition list \<Rightarrow> Condition list \<Rightarrow> bool" where
  "grown xs ys \<longleftrightarrow> (\<exists>k. map details ys = map details xs @ replicate k ConditionGeneric)"

lemma grown_refl [simp, intro]: "grown xs xs"
  unfolding grown_def by (rule exI [of _ 0]) simp

lemma grown_trans: "grown xs ys \<Longrightarrow> grown ys zs \<Longrightarrow> grown xs zs"
  unfolding grown_def by (metis append.assoc replicate_add)

lemma conditions_tell [simp]: "conditions (tell ev cr) = conditions cr" "conditions (tell_player ev cr) = conditions cr"
  by (simp_all add: tell_def tell_player_def)

lemma grown_infight: "grown (conditions cr) (conditions (addInFightTicks e cr))"
proof -
  have "map details (xs[i := setTicks clock t (xs ! i)]) = map details xs" for xs i clock t
    using list_update_id [of "map details xs" i] by (cases "i < length xs") (simp_all add: map_update setTicks_def list_update_beyond)
  then have "grown xs (xs[i := setTicks clock t (xs ! i)])" for xs i clock t
    unfolding grown_def by (intro exI [of _ 0]) simp
  moreover have "grown xs (xs @ [base_start e (infight e)])" for xs
    unfolding grown_def
    by (rule exI [of _ 1]) (simp add: base_start_def infight_def new_condition_def)
  ultimately show ?thesis
    by (simp add: addInFightTicks_def split: option.split)
qed

lemma grown_attacked: "grown (conditions cr) (conditions (onAttacked e cr))"
  by (simp add: onAttacked_def grown_infight)

lemma grown_doDamage: "grown (conditions cr) (conditions (snd (doDamage e ty d v cr)))"
proof -
  have hit: "grown (conditions cr) (conditions cr')" if "combatBlockHit e h cr = (b, h', cr')" for h b h' cr'
  proof -
    have one: "grown (conditions cr) (conditions (onAttacked e (tell ev cr)))" for ev
      using grown_attacked [of "tell ev cr" e] by simp
    moreover have "grown (conditions cr) (conditions (onAttacked e (onAttacked e (tell ev cr))))" for ev
      by (rule grown_trans [OF one grown_attacked])
    ultimately show ?thesis
      using that by (auto simp: combatBlockHit_def blockHit_def split: if_splits)
  qed
  have health: "grown (conditions cr1) (conditions (snd (combatChangeHealth e h cr1)))" for h cr1
  proof -
    have "grown (conditions cr1) (conditions (onAttacked e (tell ev (cr1\<lparr>health := x, mana := y\<rparr>))))" for ev x y
      using grown_attacked [of "tell ev (cr1\<lparr>health := x, mana := y\<rparr>)" e] by simp
    then show ?thesis
      by (simp add: combatChangeHealth_def Let_def split: prod.split)
  qed
  show ?thesis
    unfolding doDamage_def Let_def
    by (auto dest: hit intro: grown_trans [OF _ health] split: prod.split)
qed

lemma executeCondition_grown:
  assumes "executeCondition e iv c cr = (ok, c', cr')"
  shows "if is_damage_class c then grown (conditions cr) (conditions cr') else conditions cr' = conditions cr"
proof -
  have "conditions (changeHealth h cr) = conditions cr" "conditions (changeMana h cr) = conditions cr" for h cr
    by (simp_all add: changeHealth_def creature_changeHealth_def changeMana_def creature_changeMana_def Let_def)
  then have "conditions (snd (execute_regeneration e iv b r cr)) = conditions cr" for b r cr
    by (simp add: execute_regeneration_def Let_def)
  moreover have "conditions (snd (execute_soul e iv s cr)) = conditions cr" for s
    by (simp add: execute_soul_def changeSoul_def Let_def)
  moreover have "conditions (snd (execute_light iv l cr)) = conditions cr" for l
    by (simp add: execute_light_def Let_def)
  moreover have "grown (conditions cr) (conditions (snd (snd (execute_damage e iv c d cr))))" for d
    by (auto simp: execute_damage_def Let_def grown_doDamage split: list.split)
  ultimately show ?thesis
    using assms
    by (auto simp: executeCondition_def is_damage_class_def split: condition_class.splits prod.splits) (metis snd_conv)+
qed

definition damages :: "Condition list \<Rightarrow> nat" where
  "damages cs = length (filter is_damage_class cs)"

lemma damages_grown: "map details ys = map details xs @ replicate k ConditionGeneric \<Longrightarrow> damages ys = damages xs"
proof -
  define isd where "isd = (\<lambda>s. case s of Damage d \<Rightarrow> True | _ \<Rightarrow> False)"
  have "damages zs = length (filter isd (map details zs))" for zs
    by (induction zs) (simp_all add: damages_def is_damage_class_def isd_def split: condition_class.split)
  then show "damages ys = damages xs" if "map details ys = map details xs @ replicate k ConditionGeneric"
    using that by (simp only: filter_append length_append filter_replicate) (simp add: isd_def)
qed

lemma execute_rest:
  assumes "executeCondition e iv c (cr\<lparr>conditions := kept @ c # cs\<rparr>) = (ok, c', cr1)"
  shows "damages (drop (Suc (length kept)) (conditions cr1)) = damages cs" (is "damages ?r = _")
    and "\<not> is_damage_class c \<Longrightarrow> drop (Suc (length kept)) (conditions cr1) = cs"
proof -
  note g = executeCondition_grown [OF assms]
  have "grown (kept @ c # cs) (conditions cr1)"
    using g by (auto split: if_splits)
  then obtain k where "map details (conditions cr1) = map details (kept @ c # cs) @ replicate k ConditionGeneric"
    by (auto simp: grown_def)
  then have "map details ?r = map details cs @ replicate k ConditionGeneric"
    by (simp add: drop_map [symmetric])
  then show "damages ?r = damages cs"
    by (rule damages_grown)
  show "\<not> is_damage_class c \<Longrightarrow> ?r = cs"
    using g by simp
qed

lemma execute_less:
  assumes "x = executeCondition e iv c (cr\<lparr>conditions := kept @ c # cs\<rparr>)" "(ok, y) = x" "(c', cr1) = y"
  shows "damages (drop (Suc (length kept)) (conditions cr1)) < damages (c # cs) \<or>
     damages (drop (Suc (length kept)) (conditions cr1)) = damages (c # cs) \<and>
     length (conditions cr1) - Suc (length kept) < Suc (length cs)"
proof -
  have ex: "executeCondition e iv c (cr\<lparr>conditions := kept @ c # cs\<rparr>) = (ok, c', cr1)"
    using assms by simp
  show ?thesis
    using execute_rest(1) [OF ex] arg_cong [OF execute_rest(2) [OF ex], of length]
    by (cases "is_damage_class c") (simp_all add: damages_def)
qed

termination execute_from
  by (relation "measures [\<lambda>(e, iv, kept, cs, cr). damages cs, \<lambda>(e, iv, kept, cs, cr). length cs]")
     (use execute_less [OF refl] in auto)

definition executeConditions :: "Env \<Rightarrow> u32 \<Rightarrow> Creature \<Rightarrow> Creature" where
  "executeConditions e iv cr = execute_from e iv [] (conditions cr) cr"

text \<open>The client does not stand ten icons: the lowest are left out.\<close>

definition bit_count :: "u16 \<Rightarrow> nat" where
  "bit_count icons = length (filter (bit icons) [0..<16])"

fun limit_icons :: "nat \<Rightarrow> nat \<Rightarrow> u16 \<Rightarrow> u16" where
  "limit_icons 0 pos icons = icons"
| "limit_icons (Suc k) pos icons =
     (if 10 \<le> bit_count icons then limit_icons k (pos + 1) (unset_bit pos icons) else icons)"

definition getClientIcons :: "bool \<Rightarrow> Creature \<Rightarrow> u16" where
  "getClientIcons protectionZone cr =
     (let icons = fold (\<lambda>c icons. if isSuppress (conditionType c) cr then icons else icons OR ucast (getIcons c)) (conditions cr) 0;
          icons1 = (if pzLocked cr then icons OR ucast ICON_REDSWORDS else icons);
          icons2 = (if protectionZone then
                      let i = icons1 OR ucast ICON_PIGEON
                      in if hasBitSet ICON_SWORDS (ucast i) then i AND NOT (ucast ICON_SWORDS) else i
                    else icons1)
      in limit_icons 16 0 icons2)"

lemma bit_count_unset: "bit_count icons \<le> Suc (bit_count (unset_bit pos icons))"
proof -
  have "set (filter (bit icons) [0..<16]) \<subseteq> insert pos (set (filter (bit (unset_bit pos icons)) [0..<16]))"
    by (auto simp: bit_simps)
  then have "card (set (filter (bit icons) [0..<16])) \<le> card (insert pos (set (filter (bit (unset_bit pos icons)) [0..<16])))"
    by (intro card_mono) simp_all
  also have "\<dots> \<le> Suc (card (set (filter (bit (unset_bit pos icons)) [0..<16])))"
    by (simp add: card_insert_le_m1 card_insert_if)
  finally show ?thesis
    by (simp only: bit_count_def distinct_card distinct_filter distinct_upt)
qed

lemma limit_icons_less:
  assumes "\<And>j. j < pos \<Longrightarrow> \<not> bit icons j" and "16 \<le> pos + k"
  shows "bit_count (limit_icons k pos icons) < 10"
  using assms
proof (induction k arbitrary: pos icons)
  case 0
  then have "bit_count icons = 0"
    by (auto simp: bit_count_def)
  then show ?case by simp
next
  case (Suc k)
  have "\<not> bit (unset_bit pos icons) j" if "j < Suc pos" for j
    using that Suc.prems(1) [of j] by (cases "j = pos") (auto simp: bit_simps)
  from Suc.IH [OF this] Suc.prems(2) show ?case
    by auto
qed

lemma client_icons_fit: "bit_count (getClientIcons protectionZone cr) < 10"
  unfolding getClientIcons_def Let_def by (rule limit_icons_less) simp_all

end
