(* ===== verification/ConditionLife.thy ===== *)
theory ConditionLife
  imports ConditionRun
begin

text \<open>
  What the conditions of a creature keep in order: its speed, skills and statistics are at any time
  what its equipment and mount make them plus the sum of what its conditions contribute, there is one
  condition for every type and ids, and a condition ends when its time has come and not before.
\<close>

section \<open>What a condition contributes\<close>

definition speed_mod :: "Condition \<Rightarrow> u32" where
  "speed_mod c = (case details c of Speed s \<Rightarrow> speedDelta s | _ \<Rightarrow> 0)"

definition skill_mod :: "nat \<Rightarrow> Condition \<Rightarrow> u32" where
  "skill_mod i c = (case details c of Attributes a \<Rightarrow> skills a ! i | _ \<Rightarrow> 0)"

definition stat_mod :: "nat \<Rightarrow> Condition \<Rightarrow> u32" where
  "stat_mod i c = (case details c of Attributes a \<Rightarrow> stats a ! i | _ \<Rightarrow> 0)"

lemmas mod_defs = speed_mod_def skill_mod_def stat_mod_def

definition wf :: "Creature \<Rightarrow> bool" where
  "wf cr \<longleftrightarrow> length (varSkills cr) = 7 \<and> length (varStats cr) = 4"

text \<open>\<open>shifts d f g cr cr'\<close>: from \<open>cr\<close> to \<open>cr'\<close> the speed has changed by \<open>d\<close>, and if it is a player, the skills by
  \<open>f\<close> and the statistics by \<open>g\<close>; the list of conditions is the same.\<close>

definition shifts :: "u32 \<Rightarrow> (nat \<Rightarrow> u32) \<Rightarrow> (nat \<Rightarrow> u32) \<Rightarrow> Creature \<Rightarrow> Creature \<Rightarrow> bool" where
  "shifts d f g cr cr' \<longleftrightarrow>
     isPlayer cr' = isPlayer cr \<and> mountSpeed cr' = mountSpeed cr \<and> conditions cr' = conditions cr \<and> wf cr' = wf cr \<and>
     varSpeed cr' = varSpeed cr + d \<and>
     (isPlayer cr \<and> wf cr \<longrightarrow> (\<forall>i < 7. varSkills cr' ! i = varSkills cr ! i + f i) \<and>
                   (\<forall>i < 4. varStats cr' ! i = varStats cr ! i + g i))"

abbreviation still :: "Creature \<Rightarrow> Creature \<Rightarrow> bool" where
  "still \<equiv> shifts 0 (\<lambda>_. 0) (\<lambda>_. 0)"

lemma still_refl [simp, intro]: "still cr cr"
  by (simp add: shifts_def)

lemma shifts_trans:
  "shifts d f g cr cr1 \<Longrightarrow> shifts d' f' g' cr1 cr2 \<Longrightarrow> shifts (d + d') (\<lambda>i. f i + f' i) (\<lambda>i. g i + g' i) cr cr2"
  by (auto simp: shifts_def algebra_simps)

lemma still_shifts: "still cr cr1 \<Longrightarrow> shifts d f g cr1 cr2 \<Longrightarrow> shifts d f g cr cr2"
  using shifts_trans [of 0 "\<lambda>_. 0" "\<lambda>_. 0" cr cr1 d f g cr2] by simp

lemma shifts_still: "shifts d f g cr cr1 \<Longrightarrow> still cr1 cr2 \<Longrightarrow> shifts d f g cr cr2"
  using shifts_trans [of d f g cr cr1 0 "\<lambda>_. 0" "\<lambda>_. 0" cr2] by simp

lemma still_tell [simp]: "still cr (tell ev cr)" "still cr (tell_player ev cr)"
  by (simp_all add: tell_player_def tell_def shifts_def wf_def)

lemma still_changeHealth: "still cr (creature_changeHealth h cr)" "still cr (changeHealth h cr)"
  by (simp_all add: changeHealth_def creature_changeHealth_def Let_def tell_player_def tell_def shifts_def wf_def)

lemma still_changeMana: "still cr (creature_changeMana h cr)" "still cr (changeMana h cr)"
  by (simp_all add: changeMana_def creature_changeMana_def tell_def shifts_def wf_def)

lemma still_changeSoul: "still cr (changeSoul h cr)"
  by (simp add: changeSoul_def tell_def shifts_def wf_def)

lemma still_outfit: "still cr (internalCreatureChangeOutfit e f cr)"
  by (simp add: internalCreatureChangeOutfit_def Let_def tell_def shifts_def wf_def)

lemma still_light: "still cr (show_light l cr)"
  by (simp add: show_light_def tell_def shifts_def wf_def)

lemma still_cooldown: "still cr (cooldown_event c cr)"
  by (auto simp: cooldown_event_def split: condition_class.split)

lemma shifts_changeSpeed: "shifts d (\<lambda>_. 0) (\<lambda>_. 0) cr (changeSpeed d cr)"
  by (auto simp: changeSpeed_def setSpeed_def getSpeed_def Let_def tell_def shifts_def wf_def)

section \<open>A hit\<close>

text \<open>What a hit does to the list of conditions: it renews the fight, or adds it at the end.\<close>

definition key :: "Condition \<Rightarrow> u32 \<times> u8 \<times> u32" where
  "key c = (conditionType c, condition_id c, subId c)"

lemma same_key_iff: "same_key a b \<longleftrightarrow> key a = key b"
  by (auto simp: same_key_def key_def)

definition total :: "(Condition \<Rightarrow> u32) \<Rightarrow> Condition list \<Rightarrow> u32" where
  "total f cs = sum_list (map f cs)"

lemma total_simps [simp]:
  "total f [] = 0" "total f (c # cs) = f c + total f cs" "total f (xs @ ys) = total f xs + total f ys"
  by (simp_all add: total_def)

definition infight_key :: "u32 \<times> u8 \<times> u32" where
  "infight_key = (CONDITION_INFIGHT, CONDITIONID_DEFAULT, 0)"

definition other_than_fight :: "Condition list \<Rightarrow> Condition list" where
  "other_than_fight cs = filter (\<lambda>c. key c \<noteq> infight_key) cs"

inductive touches :: "Env \<Rightarrow> Condition list \<Rightarrow> Condition list \<Rightarrow> bool" for e where
  hit_none: "touches e xs xs"
| hit_renews: "touches e xs ys \<Longrightarrow> i < length ys \<Longrightarrow> key (ys ! i) = infight_key \<Longrightarrow>
    updateCondition (now e) (ys ! i) (infight e) \<Longrightarrow>
    touches e xs (ys[i := setTicks (now e) (pzLockedTime e) (ys ! i)])"
| hit_adds: "touches e xs ys \<Longrightarrow> infight_key \<notin> key ` set ys \<Longrightarrow> touches e xs (ys @ [base_start e (infight e)])"

lemma touches_refl [simp, intro]: "touches e xs xs"
  by (rule hit_none)

lemma touches_trans:
  assumes "touches e ys zs" "touches e xs ys"
  shows "touches e xs zs"
  using assms by (induction rule: touches.induct) (auto intro: touches.intros)

lemma fight_facts [simp]:
  "key (setTicks clock t c) = key c" "key (base_start e c) = key c" "key (infight e) = infight_key"
  "details (setTicks clock t c) = details c" "details (base_start e c) = details c" "details (infight e) = ConditionGeneric"
  by (simp_all add: key_def setTicks_def base_start_def infight_def new_condition_def infight_key_def)

lemma touches_length: "touches e xs ys \<Longrightarrow> length xs \<le> length ys"
  by (induction rule: touches.induct) auto

lemma touches_nth:
  assumes "touches e xs ys" "i < length xs"
  shows "key (ys ! i) = key (xs ! i)" "details (ys ! i) = details (xs ! i)"
    "key (xs ! i) \<noteq> infight_key \<Longrightarrow> ys ! i = xs ! i"
proof -
  have "key (ys ! i) = key (xs ! i) \<and> details (ys ! i) = details (xs ! i) \<and> (key (xs ! i) \<noteq> infight_key \<longrightarrow> ys ! i = xs ! i)"
    using assms
  proof (induction rule: touches.induct)
    case (hit_renews xs ys j)
    then show ?case by (cases "j = i") auto
  next
    case (hit_adds xs ys)
    then show ?case using touches_length [OF hit_adds.hyps(1)] by (simp add: nth_append)
  qed simp
  then show "key (ys ! i) = key (xs ! i)" "details (ys ! i) = details (xs ! i)"
    "key (xs ! i) \<noteq> infight_key \<Longrightarrow> ys ! i = xs ! i" by auto
qed

lemma total_update:
  "i < length cs \<Longrightarrow> total f (cs[i := c]) = total f cs + (f c - f (cs ! i))"
proof (induction cs arbitrary: i)
  case (Cons a cs)
  then show ?case
    by (cases i) (simp_all add: algebra_simps)
qed simp

lemma touches_total:
  assumes "touches e xs ys" "\<And>c clock t. f (setTicks clock t c) = f c" "f (base_start e (infight e)) = 0"
  shows "total f ys = total f xs"
  using assms by (induction rule: touches.induct) (simp_all add: total_update)

lemma fight_mods [simp]:
  "speed_mod (setTicks clock t c) = speed_mod c" "skill_mod i (setTicks clock t c) = skill_mod i c"
  "stat_mod i (setTicks clock t c) = stat_mod i c" "speed_mod (base_start e (infight e)) = 0"
  "skill_mod i (base_start e (infight e)) = 0" "stat_mod i (base_start e (infight e)) = 0"
  by (simp_all add: mod_defs)

lemma touches_totals:
  "touches e xs ys \<Longrightarrow> total speed_mod ys = total speed_mod xs"
  "touches e xs ys \<Longrightarrow> total (skill_mod i) ys = total (skill_mod i) xs"
  "touches e xs ys \<Longrightarrow> total (stat_mod i) ys = total (stat_mod i) xs"
  by (erule touches_total; simp)+

lemma class_ok_cong: "details c' = details c \<Longrightarrow> conditionType c' = conditionType c \<Longrightarrow> class_ok c' = class_ok c"
  by (simp add: class_ok_def split: condition_class.split)

lemma class_ok_setTicks [simp]: "class_ok (setTicks clock t c) = class_ok c"
  by (rule class_ok_cong) (simp_all add: setTicks_def)

lemma class_ok_infight [simp]: "class_ok (base_start e (infight e))"
  by (simp add: class_ok_def) (simp add: base_start_def infight_def new_condition_def generic_types_def)

lemma touches_class: "touches e xs ys \<Longrightarrow> list_all class_ok xs \<Longrightarrow> list_all class_ok ys"
proof (induction rule: touches.induct)
  case (hit_renews xs ys i)
  then show ?case
    using set_update_subset_insert [of ys i] by (fastforce simp: list_all_iff)
qed simp_all

lemma touches_distinct: "touches e xs ys \<Longrightarrow> distinct (map key xs) \<Longrightarrow> distinct (map key ys)"
proof (induction rule: touches.induct)
  case (hit_renews xs ys i)
  then show ?case
    using list_update_id [of "map key ys" i] by (simp add: map_update)
qed auto

lemma touches_keys: "touches e xs ys \<Longrightarrow> key ` set ys \<subseteq> insert infight_key (key ` set xs)"
proof (induction rule: touches.induct)
  case (hit_renews xs ys i)
  then show ?case
    using set_update_subset_insert [of ys i] by fastforce
qed auto

lemma other_update: "key (ys ! i) = infight_key \<Longrightarrow> key z = infight_key \<Longrightarrow> other_than_fight (ys[i := z]) = other_than_fight ys"
proof (induction ys arbitrary: i)
  case (Cons y ys)
  then show ?case by (cases i) (auto simp: other_than_fight_def)
qed simp

lemma touches_other:
  assumes "touches e xs ys" "n \<le> length xs"
  shows "other_than_fight (take n ys) = other_than_fight (take n xs)"
    and "other_than_fight (drop n ys) = other_than_fight (drop n xs)"
proof -
  have "other_than_fight (take n ys) = other_than_fight (take n xs) \<and> other_than_fight (drop n ys) = other_than_fight (drop n xs)"
    using assms
  proof (induction rule: touches.induct)
    case (hit_renews xs ys i)
    then show ?case
      using touches_length [OF hit_renews.hyps(1)]
      by (cases "i < n") (simp_all add: take_update_swap drop_update_swap other_update list_update_beyond)
  next
    case (hit_adds xs ys)
    then show ?case
      using touches_length [OF hit_adds.hyps(1)] by (simp add: other_than_fight_def)
  qed simp
  then show "other_than_fight (take n ys) = other_than_fight (take n xs)"
    and "other_than_fight (drop n ys) = other_than_fight (drop n xs)" by auto
qed

text \<open>\<open>struck e d f g cr cr'\<close>: as \<open>shifts\<close>, but a hit may have touched the list.\<close>

definition struck :: "Env \<Rightarrow> u32 \<Rightarrow> (nat \<Rightarrow> u32) \<Rightarrow> (nat \<Rightarrow> u32) \<Rightarrow> Creature \<Rightarrow> Creature \<Rightarrow> bool" where
  "struck e d f g cr cr' \<longleftrightarrow>
     shifts d f g cr (cr'\<lparr>conditions := conditions cr\<rparr>) \<and> touches e (conditions cr) (conditions cr')"

abbreviation hit_only :: "Env \<Rightarrow> Creature \<Rightarrow> Creature \<Rightarrow> bool" where
  "hit_only e \<equiv> struck e 0 (\<lambda>_. 0) (\<lambda>_. 0)"

lemma shifts_struck: "shifts d f g cr cr' \<Longrightarrow> struck e d f g cr cr'"
  by (auto simp: struck_def shifts_def wf_def)

lemma struck_trans:
  "struck e d f g cr cr1 \<Longrightarrow> struck e d' f' g' cr1 cr2 \<Longrightarrow> struck e (d + d') (\<lambda>i. f i + f' i) (\<lambda>i. g i + g' i) cr cr2"
  by (auto simp: struck_def shifts_def wf_def algebra_simps intro: touches_trans)

lemma hit_only_trans: "hit_only e cr cr1 \<Longrightarrow> hit_only e cr1 cr2 \<Longrightarrow> hit_only e cr cr2"
  using struck_trans [of e 0 "\<lambda>_. 0" "\<lambda>_. 0" cr cr1 0 "\<lambda>_. 0" "\<lambda>_. 0" cr2] by simp

lemma hit_only_refl [simp, intro]: "hit_only e cr cr"
  by (simp add: shifts_struck)

lemma find_condition_Some: "find_condition P cs = Some i \<Longrightarrow> i < length cs \<and> P (cs ! i)"
  by (induction cs arbitrary: i) (auto split: if_splits)

lemma find_condition_None: "find_condition P cs = None \<longleftrightarrow> \<not> list_ex P cs"
  by (induction cs) auto

lemma hit_addInFightTicks: "hit_only e cr (addInFightTicks e cr)"
proof -
  have sh: "hit_only e cr (cr\<lparr>conditions := cs\<rparr>)" "hit_only e cr (tell ev (cr\<lparr>conditions := cs\<rparr>))"
    if "touches e (conditions cr) cs" for cs ev
    using that by (simp_all add: struck_def shifts_def wf_def tell_def)
  show ?thesis
  proof (cases "find_condition (\<lambda>d. same_key d (infight e)) (conditions cr)")
    case None
    then have "infight_key \<notin> key ` set (conditions cr)"
      by (auto simp: find_condition_None list_ex_iff same_key_iff)
    then show ?thesis
      using None sh(2) [OF hit_adds [OF hit_none]] by (simp add: addInFightTicks_def)
  next
    case (Some i)
    then show ?thesis
      using find_condition_Some [OF Some] sh(1) [OF hit_renews [OF hit_none]]
      by (simp add: addInFightTicks_def same_key_iff)
  qed
qed

lemma hit_onAttacked: "hit_only e cr (onAttacked e cr)"
  by (simp add: onAttacked_def hit_addInFightTicks)

lemma hit_combatBlockHit: "combatBlockHit e h cr = (b, h', cr') \<Longrightarrow> hit_only e cr cr'"
proof -
  have one: "hit_only e cr (onAttacked e (tell ev cr))" for ev
    by (rule hit_only_trans [OF shifts_struck hit_onAttacked]) simp
  moreover have "hit_only e cr (onAttacked e (onAttacked e (tell ev cr)))" for ev
    by (rule hit_only_trans [OF one hit_onAttacked])
  ultimately show "combatBlockHit e h cr = (b, h', cr') \<Longrightarrow> hit_only e cr cr'"
    by (auto simp: combatBlockHit_def blockHit_def split: if_splits)
qed

lemma hit_combatChangeHealth: "hit_only e cr (snd (combatChangeHealth e h cr))"
proof -
  have one: "hit_only e cr (tell ev (cr\<lparr>health := x, mana := y\<rparr>))" for ev x y
    by (rule shifts_struck) (simp add: tell_def shifts_def wf_def)
  moreover have "hit_only e cr (onAttacked e (tell ev (cr\<lparr>health := x, mana := y\<rparr>)))" for ev x y
    by (rule hit_only_trans [OF one hit_onAttacked])
  ultimately show ?thesis
    by (simp add: combatChangeHealth_def Let_def split: prod.split)
qed

lemma hit_doDamage: "hit_only e cr (snd (doDamage e ty d v cr))"
  unfolding doDamage_def Let_def
  by (auto dest: hit_combatBlockHit intro: hit_only_trans [OF _ hit_combatChangeHealth] shifts_struck split: prod.split)

lemma hit_first_damage: "first_damage e c cr = (ok, c', cr') \<Longrightarrow> hit_only e cr cr'"
  using hit_doDamage
  by (auto simp: first_damage_def Let_def split: if_splits prod.splits option.splits) (metis snd_conv)+

text \<open>A creature that is no player is not touched.\<close>

lemma not_player_untouched:
  assumes "\<not> isPlayer cr"
  shows "conditions (snd (doDamage e ty d v cr)) = conditions cr"
  using assms
  by (auto simp: doDamage_def combatBlockHit_def blockHit_def combatChangeHealth_def onAttacked_def tell_def Let_def split: prod.split)

section \<open>Attributes\<close>

lemma setVarStats_core:
  "isPlayer (setVarStats s v cr) = isPlayer cr" "mountSpeed (setVarStats s v cr) = mountSpeed cr"
  "conditions (setVarStats s v cr) = conditions cr" "varSpeed (setVarStats s v cr) = varSpeed cr"
  "varSkills (setVarStats s v cr) = varSkills cr" "varStats (setVarStats s v cr) = (varStats cr)[s := varStats cr ! s + v]"
  by (simp_all add: setVarStats_def creature_changeHealth_def creature_changeMana_def Let_def tell_def)

lemma apply_skills:
  "length (varSkills cr) = 7 \<Longrightarrow> n \<le> 7 \<Longrightarrow>
   (let cr' = apply_all setVarSkill t f n cr in
     isPlayer cr' = isPlayer cr \<and> mountSpeed cr' = mountSpeed cr \<and> conditions cr' = conditions cr \<and> varSpeed cr' = varSpeed cr \<and>
     varStats cr' = varStats cr \<and> length (varSkills cr') = 7 \<and>
     (\<forall>i < 7. varSkills cr' ! i = varSkills cr ! i + (if i < n \<and> t i then f i else 0)))"
proof (induction n)
  case (Suc n)
  then show ?case
    by (auto simp: apply_all_def Let_def setVarSkill_def nth_list_update less_Suc_eq)
qed (simp add: apply_all_def)

lemma apply_stats:
  "length (varStats cr) = 4 \<Longrightarrow> n \<le> 4 \<Longrightarrow>
   (let cr' = apply_all setVarStats t f n cr in
     isPlayer cr' = isPlayer cr \<and> mountSpeed cr' = mountSpeed cr \<and> conditions cr' = conditions cr \<and> varSpeed cr' = varSpeed cr \<and>
     varSkills cr' = varSkills cr \<and> length (varStats cr') = 4 \<and>
     (\<forall>i < 4. varStats cr' ! i = varStats cr ! i + (if i < n \<and> t i then f i else 0)))"
proof (induction n)
  case (Suc n)
  then show ?case
    by (auto simp: apply_all_def Let_def setVarStats_core nth_list_update less_Suc_eq)
qed (simp add: apply_all_def)

lemma shifts_updateSkills:
  assumes "wf cr" "isPlayer cr"
  shows "shifts 0 (\<lambda>i. skills a ! i) (\<lambda>_. 0) cr (updateSkills a cr)"
proof -
  have "shifts 0 (\<lambda>i. skills a ! i) (\<lambda>_. 0) cr (apply_all setVarSkill (\<lambda>i. skills a ! i \<noteq> 0) (\<lambda>i. skills a ! i) 7 cr)"
    using apply_skills [of cr 7 "\<lambda>i. skills a ! i \<noteq> 0" "\<lambda>i. skills a ! i"] assms by (auto simp: shifts_def wf_def Let_def)
  then show ?thesis
    by (auto simp: updateSkills_def Let_def intro: shifts_still)
qed

lemma shifts_updateStats:
  assumes "wf cr" "isPlayer cr"
  shows "shifts 0 (\<lambda>_. 0) (\<lambda>i. stats a ! i) cr (updateStats a cr)"
proof -
  have "shifts 0 (\<lambda>_. 0) (\<lambda>i. stats a ! i) cr (apply_all setVarStats (\<lambda>i. stats a ! i \<noteq> 0) (\<lambda>i. stats a ! i) 4 cr)"
    using apply_stats [of cr 4 "\<lambda>i. stats a ! i \<noteq> 0" "\<lambda>i. stats a ! i"] assms by (auto simp: shifts_def wf_def Let_def)
  then show ?thesis
    by (auto simp: updateStats_def Let_def intro: shifts_still)
qed

text \<open>The modifiers that count: those of a creature that is no player are not applied.\<close>

definition attributes_ok :: "ConditionAttributes \<Rightarrow> bool" where
  "attributes_ok a \<longleftrightarrow> length (skills a) = 7 \<and> length (skillsPercent a) = 7 \<and> length (stats a) = 4 \<and> length (statsPercent a) = 4"

lemma apply_attributes_shifts:
  assumes "wf cr" "attributes_ok a" "apply_attributes a cr = (a', cr')"
  shows "attributes_ok a'" and "shifts 0 (\<lambda>i. skills a' ! i) (\<lambda>i. stats a' ! i) cr cr'"
proof -
  have "attributes_ok a' \<and> shifts 0 (\<lambda>i. skills a' ! i) (\<lambda>i. stats a' ! i) cr cr'"
  proof (cases "isPlayer cr")
    case False
    then show ?thesis
      using assms by (auto simp: apply_attributes_def shifts_def)
  next
    case True
    define a1 cr1 a2 where "a1 = updatePercentSkills cr a" and "cr1 = updateSkills a1 cr" and "a2 = updatePercentStats cr1 a1"
    have "a' = a2" "cr' = updateStats a2 cr1"
      using assms(3) True by (auto simp: apply_attributes_def Let_def a1_def cr1_def a2_def)
    moreover have "attributes_ok a2"
      using assms(2) by (simp add: attributes_ok_def a2_def a1_def updatePercentStats_def updatePercentSkills_def)
    moreover have one: "shifts 0 (\<lambda>i. skills a1 ! i) (\<lambda>_. 0) cr cr1"
      using shifts_updateSkills [OF assms(1) True] by (simp add: cr1_def)
    then have "wf cr1" "isPlayer cr1"
      using assms(1) True by (simp_all add: shifts_def)
    then have "shifts 0 (\<lambda>_. 0) (\<lambda>i. stats a2 ! i) cr1 (updateStats a2 cr1)"
      by (rule shifts_updateStats)
    then have "shifts (0 + 0) (\<lambda>i. skills a1 ! i + 0) (\<lambda>i. 0 + stats a2 ! i) cr (updateStats a2 cr1)"
      by (rule shifts_trans [OF one])
    moreover have "skills a2 = skills a1"
      by (simp add: a2_def updatePercentStats_def)
    ultimately show ?thesis
      by simp
  qed
  then show "attributes_ok a'" "shifts 0 (\<lambda>i. skills a' ! i) (\<lambda>i. stats a' ! i) cr cr'"
    by auto
qed

lemma end_attributes_shifts:
  assumes "wf cr" "attributes_ok a"
  shows "shifts 0 (\<lambda>i. - (skills a ! i)) (\<lambda>i. - (stats a ! i)) cr (end_attributes a cr)"
proof (cases "isPlayer cr")
  case False
  then show ?thesis
    by (simp add: end_attributes_def shifts_def)
next
  case True
  define touched where "touched = (\<lambda>i. skills a ! i \<noteq> 0 \<or> skillsPercent a ! i \<noteq> 0)"
  define cr1 cr2 cr3 where "cr1 = apply_all setVarSkill touched (\<lambda>i. - (skills a ! i)) 7 cr"
    and "cr2 = (if list_ex touched [0..<7] then tell SendSkills cr1 else cr1)"
    and "cr3 = apply_all setVarStats (\<lambda>i. stats a ! i \<noteq> 0) (\<lambda>i. - (stats a ! i)) 4 cr2"
  have "shifts 0 (\<lambda>i. - (skills a ! i)) (\<lambda>_. 0) cr cr1"
    using apply_skills [of cr 7 touched "\<lambda>i. - (skills a ! i)"] assms(1)
    by (auto simp: shifts_def wf_def Let_def cr1_def touched_def)
  then have one: "shifts 0 (\<lambda>i. - (skills a ! i)) (\<lambda>_. 0) cr cr2"
    by (auto simp: cr2_def intro: shifts_still)
  then have "wf cr2"
    using assms(1) by (simp add: shifts_def)
  then have "shifts 0 (\<lambda>_. 0) (\<lambda>i. - (stats a ! i)) cr2 cr3"
    using apply_stats [of cr2 4 "\<lambda>i. stats a ! i \<noteq> 0" "\<lambda>i. - (stats a ! i)"]
    by (auto simp: shifts_def wf_def Let_def cr3_def)
  from shifts_trans [OF one this] have "shifts 0 (\<lambda>i. - (skills a ! i)) (\<lambda>i. - (stats a ! i)) cr cr3"
    by simp
  moreover have "end_attributes a cr = (if list_ex (\<lambda>i. stats a ! i \<noteq> 0) [0..<4] then tell SendStats cr3 else cr3)"
    unfolding end_attributes_def Let_def cr3_def cr2_def cr1_def touched_def using True by (simp only: if_True)
  ultimately show ?thesis
    by (auto intro: shifts_still)
qed

section \<open>Starting, executing, renewing, ending\<close>

definition keeps :: "Condition \<Rightarrow> Condition \<Rightarrow> bool" where
  "keeps c c' \<longleftrightarrow> same_key c' c \<and> (class_ok c \<longrightarrow> class_ok c') \<and>
     speed_mod c' = speed_mod c \<and> (\<forall>i. skill_mod i c' = skill_mod i c) \<and> (\<forall>i. stat_mod i c' = stat_mod i c)"

abbreviation contributes :: "Env \<Rightarrow> Condition \<Rightarrow> Creature \<Rightarrow> Creature \<Rightarrow> bool" where
  "contributes e c \<equiv> struck e (speed_mod c) (\<lambda>i. skill_mod i c) (\<lambda>i. stat_mod i c)"

lemma class_ok_damage: "class_ok (c\<lparr>details := Damage d\<rparr>) \<longleftrightarrow> conditionType c \<in> set damage_types"
  by (simp add: class_ok_def)

definition is_damage :: "Condition \<Rightarrow> Condition \<Rightarrow> bool" where
  "is_damage c c' \<longleftrightarrow> same_key c' c \<and> (\<exists>d. details c' = Damage d)"

lemma add_rounds_damage: "is_damage c (add_rounds clock k i c d)"
proof (induction k arbitrary: c d)
  case 0
  then show ?case by (simp add: is_damage_def same_key_def)
next
  case (Suc k)
  have "is_damage (if ticks c \<noteq> - 1 then setTicks clock (ticks c + interval i) c else c) (add_rounds clock (Suc k) i c d)"
    using Suc by simp
  then show ?case
    by (auto simp: is_damage_def same_key_def setTicks_def split: if_splits)
qed

lemma addDamage_damage: "is_damage c (snd (addDamage clock r t v c d))"
  using add_rounds_damage by (simp add: addDamage_def Let_def) (simp add: is_damage_def same_key_def)

lemma fold_damage:
  "is_damage c c0 \<Longrightarrow> is_damage c (fold (\<lambda>v c. snd (addDamage clock 1 t (f v) c (damage_of c))) vs c0)"
proof (induction vs arbitrary: c0)
  case (Cons v vs)
  have "is_damage c (snd (addDamage clock 1 t (f v) c0 (damage_of c0)))"
    using addDamage_damage [of c0 clock 1 t "f v" "damage_of c0"] Cons.prems by (auto simp: is_damage_def same_key_def)
  then show ?case
    using Cons.IH by simp
qed simp

lemma is_damage_set [simp]: "is_damage c (c\<lparr>details := Damage d\<rparr>)" "is_damage c ((setTicks clock t c)\<lparr>details := Damage d\<rparr>)"
  by (simp_all add: is_damage_def same_key_def setTicks_def)

lemma init_damage:
  assumes "init e c d = Some (ok, c')"
  shows "is_damage c c'"
proof (cases "periodDamage d = 0 \<and> damageList d = [] \<and> sint (uniform_random e (minDamage d) (maxDamage d)) \<noteq> 0")
  case False
  then show ?thesis
    using assms by (auto simp: init_def Let_def split: if_splits)
next
  case True
  then show ?thesis
    using assms unfolding init_def Let_def by (auto intro!: fold_damage split: option.splits)
qed

lemma first_damage_shape: "details c = Damage d \<Longrightarrow> first_damage e c cr = (ok, c', cr') \<Longrightarrow> is_damage c c' \<and> hit_only e cr cr'"
  using hit_first_damage
  by (auto simp: first_damage_def Let_def is_damage_def same_key_def split: if_splits prod.splits option.splits)

lemma is_damage_mods:
  assumes "is_damage c c'" "details c = Damage d"
  shows "keeps c c'" "speed_mod c' = 0" "skill_mod i c' = 0" "stat_mod i c' = 0"
  using assms by (auto simp: is_damage_def keeps_def mod_defs class_ok_def same_key_def)

lemma is_damage_trans: "is_damage c c1 \<Longrightarrow> is_damage c1 c2 \<Longrightarrow> is_damage c c2"
  by (auto simp: is_damage_def same_key_def)

lemma startCondition_ok:
  assumes "startCondition e c cr = Some (ok, c', cr')" and "class_ok c" and "wf cr"
  shows "same_key c' c" and "class_ok c'" and "ok \<Longrightarrow> contributes e c' cr cr'" and "\<not> ok \<Longrightarrow> hit_only e cr cr'"
    and "conditions cr' = conditions cr \<or> is_damage_class c"
proof -
  define c0 where "c0 = (if 0 < sint (ticks c) then c\<lparr>endTime := sint (ticks c) + now e\<rparr> else c)"
  have c0: "same_key c0 c" "details c0 = details c" "conditionType c0 = conditionType c"
    by (simp_all add: c0_def same_key_def)
  have cl: "class_ok c0"
    using assms(2) class_ok_cong [OF c0(2,3)] by simp
  have conds: "conditions cr' = conditions cr" if "still cr cr' \<or> (\<exists>d f g. shifts d f g cr cr')"
    using that by (auto simp: shifts_def)
  have "same_key c' c \<and> class_ok c' \<and> (ok \<longrightarrow> contributes e c' cr cr') \<and> (\<not> ok \<longrightarrow> hit_only e cr cr') \<and>
      (conditions cr' = conditions cr \<or> is_damage_class c)"
  proof (cases "details c")
    case (Attributes a)
    then obtain a' where a': "apply_attributes a cr = (a', cr')" "ok" "c' = c0\<lparr>details := Attributes a'\<rparr>"
      using assms(1) by (auto simp: startCondition_defs c0_def Let_def split: prod.splits if_splits)
    have ao: "attributes_ok a"
      using assms(2) Attributes by (simp add: class_ok_def attributes_ok_def)
    note ap = apply_attributes_shifts [OF assms(3) ao a'(1)]
    have "class_ok c'"
      using ap(1) assms(2) Attributes c0(3) by (simp add: a'(3) class_ok_def attributes_ok_def)
    moreover have "same_key c' c"
      using c0(1) by (simp add: a'(3) same_key_def)
    ultimately show ?thesis
      using ap(2) a' conds shifts_struck [OF ap(2), of e] by (auto simp: mod_defs)
  next
    case (Damage d)
    then obtain ok1 c1 where i: "init e c0 d = Some (ok1, c1)"
      and r: "Some (ok, c', cr') = (if ok1 then Some (first_damage e c1 cr) else Some (False, c1, cr))"
      using assms(1) unfolding startCondition_defs Let_def c0_def [symmetric] c0(2)
      by (auto split: option.splits)
    note d1 = init_damage [OF i]
    have "is_damage c c' \<and> hit_only e cr cr'"
    proof (cases ok1)
      case True
      obtain d1' where "details c1 = Damage d1'"
        using d1 by (auto simp: is_damage_def)
      moreover have "first_damage e c1 cr = (ok, c', cr')"
        using r True by simp
      ultimately have "is_damage c1 c' \<and> hit_only e cr cr'"
        by (rule first_damage_shape)
      then show ?thesis
        using d1 c0(1) by (auto simp: is_damage_def same_key_def)
    next
      case False
      then show ?thesis
        using r d1 c0(1) by (auto simp: is_damage_def same_key_def)
    qed
    then show ?thesis
      using is_damage_mods [OF _ Damage, of c'] assms(2) Damage by (auto simp: keeps_def is_damage_def is_damage_class_def)
  next
    case (Speed s)
    then show ?thesis
      using assms(1,2) shifts_struck [OF shifts_changeSpeed [of "speedDelta (chooseSpeed e cr s)" cr], of e]
        shifts_changeSpeed [of "speedDelta (chooseSpeed e cr s)" cr, unfolded shifts_def]
      by (auto simp: startCondition_defs Let_def same_key_def class_ok_def mod_defs split: if_splits)
  next
    case (OutfitChange f)
    then show ?thesis
      using assms(1,2) shifts_struck [OF still_outfit [of cr e f], of e] still_outfit [of cr e f, unfolded shifts_def]
      by (auto simp: startCondition_defs Let_def same_key_def class_ok_def mod_defs split: if_splits)
  next
    case (Light l)
    then show ?thesis
      using assms(1,2) shifts_struck [OF still_light [of cr "lightInfo l"], of e] still_light [of cr "lightInfo l", unfolded shifts_def]
      by (auto simp: startCondition_defs Let_def same_key_def class_ok_def mod_defs split: if_splits option.splits)
  qed (use assms(1,2) shifts_struck [OF still_cooldown [of cr c0], of e] still_cooldown [of cr c0, unfolded shifts_def]
        shifts_struck [OF still_tell(1) [of cr "VisibleShown False"], of e] c0_def in \<open>auto simp: startCondition_defs Let_def same_key_def class_ok_def mod_defs split: if_splits\<close>)
  then show "same_key c' c" and "class_ok c'" and "ok \<Longrightarrow> contributes e c' cr cr'" and "\<not> ok \<Longrightarrow> hit_only e cr cr'"
    and "conditions cr' = conditions cr \<or> is_damage_class c"
    by auto
qed

lemma base_execute_shape:
  "base_execute e iv c = (ok, c') \<Longrightarrow> details c' = details c \<and> same_key c' c \<and> endTime c' = endTime c \<and>
     (ok \<longleftrightarrow> ticks c = - 1 \<or> now e \<le> endTime c)"
  by (auto simp: base_execute_def same_key_def Let_def split: if_splits)

lemma execute_damage_shape:
  assumes "execute_damage e iv c d cr = (c', iv', cr')" and "details c = Damage d"
  shows "is_damage c c' \<and> hit_only e cr cr'"
  using assms hit_doDamage
  by (auto simp: execute_damage_def Let_def is_damage_def same_key_def split: if_splits list.splits)

lemma still_steps:
  "still cr cr1 \<Longrightarrow> still cr (changeHealth h cr1)" "still cr cr1 \<Longrightarrow> still cr (changeMana m cr1)"
  "still cr cr1 \<Longrightarrow> still cr (tell_player ev cr1)"
  by (blast intro: shifts_still still_changeHealth(2) still_changeMana(2) still_tell)+

lemma execute_regeneration_shape: "execute_regeneration e iv b r cr = (r', cr') \<Longrightarrow> still cr cr'"
  by (auto simp: execute_regeneration_def Let_def intro!: still_steps split: if_splits)

lemma execute_soul_shape: "execute_soul e iv s cr = (s', cr') \<Longrightarrow> still cr cr'"
  using still_changeSoul by (auto simp: execute_soul_def Let_def split: if_splits)

lemma execute_light_shape: "execute_light iv l cr = (l', cr') \<Longrightarrow> still cr cr'"
  by (auto simp: execute_light_def Let_def shifts_def wf_def tell_def split: if_splits)

lemma executeCondition_ok:
  assumes "executeCondition e iv c cr = (ok, c', cr')"
  shows "keeps c c'" and "hit_only e cr cr'"
proof -
  have upd: "keeps c c''" if "details c1 = x" "same_key c1 c" "details c'' = details c1" "same_key c'' c1"
    "(\<exists>r. details c = Regeneration r) \<and> (\<exists>r. x = Regeneration r) \<or> (\<exists>r. details c = Soul r) \<and> (\<exists>r. x = Soul r) \<or>
     (\<exists>r. details c = Light r) \<and> (\<exists>r. x = Light r) \<or> (\<exists>r. details c = Damage r) \<and> (\<exists>r. x = Damage r)" for c1 c'' x
    using that by (auto simp: keeps_def mod_defs class_ok_def same_key_def)
  have other: "keeps c c' \<and> hit_only e cr cr'"
    if "executeCondition e iv c cr = (let (ok, c1) = base_execute e iv c in (ok, c1, cr))"
  proof -
    have b: "base_execute e iv c = (ok, c')" "cr' = cr"
      using assms that by (auto split: prod.splits)
    have "details c' = details c" "same_key c' c"
      using base_execute_shape [OF b(1)] by auto
    moreover from this have "class_ok c' = class_ok c"
      by (intro class_ok_cong) (auto simp: same_key_def)
    ultimately show ?thesis
      by (simp add: keeps_def mod_defs b(2))
  qed
  have "keeps c c' \<and> hit_only e cr cr'"
  proof (cases "details c")
    case (Damage d)
    then obtain c1 iv1 where e1: "execute_damage e iv c d cr = (c1, iv1, cr')" and e2: "base_execute e iv1 c1 = (ok, c')"
      using assms by (auto simp: executeCondition_def Let_def split: prod.splits)
    show ?thesis
      using execute_damage_shape [OF e1 Damage] base_execute_shape [OF e2] Damage upd [of c1 "details c1" c']
      by (auto simp: is_damage_def)
  next
    case (Regeneration r)
    then obtain r' where e1: "execute_regeneration e iv (isBuff c) r cr = (r', cr')"
      and e2: "base_execute e iv (c\<lparr>details := Regeneration r'\<rparr>) = (ok, c')"
      using assms by (auto simp: executeCondition_def Let_def split: prod.splits)
    show ?thesis
      using shifts_struck [OF execute_regeneration_shape [OF e1], of e] base_execute_shape [OF e2] Regeneration
        upd [of "c\<lparr>details := Regeneration r'\<rparr>" "Regeneration r'" c'] by (auto simp: same_key_def)
  next
    case (Soul r)
    then obtain r' where e1: "execute_soul e iv r cr = (r', cr')"
      and e2: "base_execute e iv (c\<lparr>details := Soul r'\<rparr>) = (ok, c')"
      using assms by (auto simp: executeCondition_def Let_def split: prod.splits)
    show ?thesis
      using shifts_struck [OF execute_soul_shape [OF e1], of e] base_execute_shape [OF e2] Soul
        upd [of "c\<lparr>details := Soul r'\<rparr>" "Soul r'" c'] by (auto simp: same_key_def)
  next
    case (Light r)
    then obtain r' where e1: "execute_light iv r cr = (r', cr')"
      and e2: "base_execute e iv (c\<lparr>details := Light r'\<rparr>) = (ok, c')"
      using assms by (auto simp: executeCondition_def Let_def split: prod.splits)
    show ?thesis
      using shifts_struck [OF execute_light_shape [OF e1], of e] base_execute_shape [OF e2] Light
        upd [of "c\<lparr>details := Light r'\<rparr>" "Light r'" c'] by (auto simp: same_key_def)
  qed (rule other, simp add: executeCondition_def)+
  then show "keeps c c'" and "hit_only e cr cr'"
    by auto
qed

lemma endCondition_ok:
  assumes "class_ok c" and "wf cr"
  shows "shifts (- speed_mod c) (\<lambda>i. - skill_mod i c) (\<lambda>i. - stat_mod i c) cr (endCondition e c cr)"
proof (cases "details c")
  case (Attributes a)
  then have "attributes_ok a"
    using assms(1) by (simp add: class_ok_def attributes_ok_def)
  then show ?thesis
    using end_attributes_shifts [OF assms(2)] Attributes by (simp add: endCondition_defs mod_defs)
next
  case (Speed s)
  then show ?thesis
    using shifts_changeSpeed [of "- speedDelta s" cr] by (simp add: endCondition_defs mod_defs)
qed (use still_outfit still_light in \<open>auto simp: endCondition_defs mod_defs\<close>)

abbreviation moves_to :: "Env \<Rightarrow> Condition \<Rightarrow> Condition \<Rightarrow> Creature \<Rightarrow> Creature \<Rightarrow> bool" where
  "moves_to e c c' \<equiv> struck e (speed_mod c' - speed_mod c) (\<lambda>i. skill_mod i c' - skill_mod i c) (\<lambda>i. stat_mod i c' - stat_mod i c)"

definition renewed :: "Env \<Rightarrow> Condition \<Rightarrow> Creature \<Rightarrow> Condition \<Rightarrow> Creature \<Rightarrow> bool" where
  "renewed e c cr c' cr' \<longleftrightarrow>
     same_key c' c \<and> class_ok c' \<and> moves_to e c c' cr cr' \<and> (conditions cr' = conditions cr \<or> is_damage_class c)"

lemma renewed_shifts:
  "same_key c' c \<Longrightarrow> class_ok c' \<Longrightarrow>
   shifts (speed_mod c' - speed_mod c) (\<lambda>i. skill_mod i c' - skill_mod i c) (\<lambda>i. stat_mod i c' - stat_mod i c) cr cr' \<Longrightarrow>
   renewed e c cr c' cr'"
  unfolding renewed_def by (auto intro: shifts_struck) (simp add: shifts_def)

lemma keeps_renewed: "keeps c c' \<Longrightarrow> class_ok c \<Longrightarrow> still cr cr' \<Longrightarrow> renewed e c cr c' cr'"
  by (rule renewed_shifts) (simp_all add: keeps_def)

lemma keeps_hit: "keeps c c' \<Longrightarrow> class_ok c \<Longrightarrow> is_damage_class c \<Longrightarrow> hit_only e cr cr' \<Longrightarrow> renewed e c cr c' cr'"
  by (simp add: keeps_def renewed_def)

lemma renewed_refl: "class_ok c \<Longrightarrow> renewed e c cr c cr"
  by (rule keeps_renewed) (simp_all add: keeps_def same_key_def)

lemma keeps_setTicks: "keeps c (setTicks clock t c)"
  by (simp add: keeps_def same_key_def mod_defs) (simp add: setTicks_def)

lemma renew_damage_ok:
  assumes "renew_damage e c d add da cr = Some (c', cr')" and "class_ok c" and "details c = Damage d"
  shows "renewed e c cr c' cr'"
proof (cases "conditionType add \<noteq> conditionType c \<or> \<not> updateCondition (now e) c add")
  case True
  then have "c' = c" "cr' = cr"
    using assms(1) by (auto simp: renew_damage_def split: if_splits)
  then show ?thesis
    using renewed_refl [OF assms(2)] by simp
next
  case False
  define c1 d1 where "c1 = setTicks (now e) (ticks add) c"
    and "d1 = d\<lparr>owner := owner da, maxDamage := maxDamage da, minDamage := minDamage da, startDamage := startDamage da,
                   tickInterval := tickInterval da, periodDamage := periodDamage da, damageList := damageList da\<rparr>"
  obtain ok c2 where i: "init e c1 d1 = Some (ok, c2)"
    using assms(1) False by (auto simp: renew_damage_def Let_def c1_def [symmetric] d1_def [symmetric] split: option.splits)
  have d2: "is_damage c c2"
    using init_damage [OF i] by (auto simp: c1_def is_damage_def same_key_def setTicks_def)
  have "is_damage c c' \<and> hit_only e cr cr'"
  proof (cases ok)
    case no: False
    then show ?thesis
      using assms(1) False i d2 by (simp add: renew_damage_def Let_def c1_def [symmetric] d1_def [symmetric])
  next
    case True
    then obtain d3 ok2 where "first_damage e (c2\<lparr>details := Damage d3\<rparr>) cr = (ok2, c', cr')"
      using assms(1) False i by (auto simp: renew_damage_def Let_def c1_def [symmetric] d1_def [symmetric] split: prod.splits)
    then have "is_damage (c2\<lparr>details := Damage d3\<rparr>) c' \<and> hit_only e cr cr'"
      by (rule first_damage_shape [rotated]) simp
    then show ?thesis
      using d2 by (auto simp: is_damage_def same_key_def)
  qed
  then show ?thesis
    using is_damage_mods(1) [OF _ assms(3)] assms(2,3) by (auto simp: is_damage_class_def intro: keeps_hit)
qed

lemma renewCondition_ok:
  assumes "renewCondition e c add cr = Some (c', cr')" and "class_ok c" and "class_ok add" and "wf cr"
  shows "renewed e c cr c' cr'"
proof -
  define c1 up where "c1 = setTicks (now e) (ticks add) c" and "up = updateCondition (now e) c add"
  have c1: "keeps c c1" "same_key c1 c" "conditionType c1 = conditionType c"
    unfolding c1_def by (rule keeps_setTicks) (simp_all add: setTicks_def same_key_def)
  have plain: "renewed e c cr c' cr'" if "Some (if up then (c1, cooldown_event c1 cr) else (c, cr)) = Some (c', cr')"
    using that keeps_renewed [OF c1(1) assms(2) still_cooldown] renewed_refl [OF assms(2)] by (cases up) auto
  note eq = assms(1) [unfolded renewCondition_defs Let_def, folded c1_def up_def]
  show ?thesis
  proof (cases "details c")
    case (Damage d)
    show ?thesis
    proof (cases "details add")
      case d2: (Damage da)
      then show ?thesis
        using eq Damage assms(2) by (auto intro: renew_damage_ok)
    qed (rule plain, use eq Damage in simp)+
  next
    case (Speed s)
    show ?thesis
    proof (cases "details add")
      case sa: (Speed sa)
      define s' where "s' = chooseSpeed e cr sa"
      have "c' = c \<and> cr' = cr \<or>
          c' = c1\<lparr>details := Speed s'\<rparr> \<and> cr' = (if speedDelta s' - speedDelta s \<noteq> 0 then changeSpeed (speedDelta s' - speedDelta s) cr else cr)"
        using eq by (auto simp: Speed sa s'_def split: if_splits)
      moreover have "class_ok (c1\<lparr>details := Speed s'\<rparr>)" "same_key (c1\<lparr>details := Speed s'\<rparr>) c"
        using assms(2) c1(2,3) by (simp_all add: class_ok_def Speed same_key_def)
      then have "renewed e c cr (c1\<lparr>details := Speed s'\<rparr>)
          (if speedDelta s' - speedDelta s \<noteq> 0 then changeSpeed (speedDelta s' - speedDelta s) cr else cr)"
        using shifts_changeSpeed [of "speedDelta s' - speedDelta s" cr]
        by (intro renewed_shifts) (simp_all add: mod_defs Speed)
      ultimately show ?thesis
        using renewed_refl [OF assms(2), of e cr] by auto
    qed (rule plain, use eq Speed in simp)+
  next
    case (Attributes a)
    show ?thesis
    proof (cases "details add")
      case aa: (Attributes aa)
      define a1 where "a1 = a\<lparr>skills := skills aa, skillsPercent := skillsPercent aa, stats := stats aa, statsPercent := statsPercent aa\<rparr>"
      have ok: "attributes_ok a" "attributes_ok a1"
        using assms(2,3) by (simp_all add: class_ok_def Attributes aa attributes_ok_def a1_def)
      show ?thesis
      proof (cases up)
        case False
        then show ?thesis
          using eq renewed_refl [OF assms(2)] by (simp add: Attributes aa)
      next
        case True
        define cr1 where "cr1 = end_attributes a cr"
        obtain a' where ap: "apply_attributes a1 cr1 = (a', cr')" and c': "c' = c1\<lparr>details := Attributes a'\<rparr>"
          using eq True by (auto simp: Attributes aa cr1_def a1_def split: prod.splits)
        note s1 = end_attributes_shifts [OF assms(4) ok(1), folded cr1_def]
        then have "wf cr1"
          using assms(4) by (simp add: shifts_def)
        note s2 = apply_attributes_shifts [OF this ok(2) ap]
        have "shifts 0 (\<lambda>i. - skills a ! i + skills a' ! i) (\<lambda>i. - stats a ! i + stats a' ! i) cr cr'"
          using shifts_trans [OF s1 s2(2)] by simp
        then have "shifts (speed_mod c' - speed_mod c) (\<lambda>i. skill_mod i c' - skill_mod i c) (\<lambda>i. stat_mod i c' - stat_mod i c) cr cr'"
          by (simp add: mod_defs c' Attributes)
        moreover have "same_key c' c" "class_ok c'"
          using s2(1) assms(2) c1(2,3) by (simp_all add: c' same_key_def class_ok_def Attributes attributes_ok_def)
        ultimately show ?thesis
          by (blast intro: renewed_shifts)
      qed
    qed (rule plain, use eq Attributes in simp)+
  next
    case (Regeneration r)
    show ?thesis
    proof (cases "details add")
      case ra: (Regeneration ra)
      then show ?thesis
        using eq assms(2) c1 Regeneration by (auto intro!: renewed_shifts simp: same_key_def class_ok_def mod_defs split: if_splits)
    qed (rule plain, use eq Regeneration in simp)+
  next
    case (Soul r)
    show ?thesis
    proof (cases "details add")
      case ra: (Soul ra)
      then show ?thesis
        using eq assms(2) c1 Soul by (auto intro!: renewed_shifts simp: same_key_def class_ok_def mod_defs split: if_splits)
    qed (rule plain, use eq Soul in simp)+
  next
    case (OutfitChange r)
    show ?thesis
    proof (cases "details add")
      case ra: (OutfitChange ra)
      then show ?thesis
        using eq assms(2) c1 OutfitChange still_outfit by (auto intro!: renewed_shifts simp: same_key_def class_ok_def mod_defs split: if_splits)
    qed (rule plain, use eq OutfitChange in simp)+
  next
    case (Light r)
    show ?thesis
    proof (cases "details add")
      case ra: (Light ra)
      then show ?thesis
        using eq assms(2) c1 Light still_light
        by (auto intro!: renewed_shifts simp: same_key_def class_ok_def mod_defs split: if_splits option.splits)
    qed (rule plain, use eq Light in simp)+
  qed (rule plain, use eq in simp)+
qed

section \<open>The invariant\<close>

text \<open>What the equipment gives, and other things than conditions and mounts.\<close>

record Gear =
  gear_speed :: u32
  gear_skill :: "nat \<Rightarrow> u32"
  gear_stat :: "nat \<Rightarrow> u32"

definition mods_ok :: "Gear \<Rightarrow> Creature \<Rightarrow> bool" where
  "mods_ok g cr \<longleftrightarrow>
     varSpeed cr = gear_speed g + mountSpeed cr + total speed_mod (conditions cr) \<and>
     (isPlayer cr \<longrightarrow>
        (\<forall>i < 7. varSkills cr ! i = gear_skill g i + total (skill_mod i) (conditions cr)) \<and>
        (\<forall>i < 4. varStats cr ! i = gear_stat g i + total (stat_mod i) (conditions cr)))"

definition conditions_ok :: "Gear \<Rightarrow> Creature \<Rightarrow> bool" where
  "conditions_ok g cr \<longleftrightarrow>
     wf cr \<and> list_all class_ok (conditions cr) \<and> distinct (map key (conditions cr)) \<and> mods_ok g cr"

text \<open>The list may change together with the modifiers.\<close>

lemma conditions_ok_shift:
  assumes "conditions_ok g cr" and "shifts d f h cr cr'"
    and "total speed_mod cs = total speed_mod (conditions cr) + d"
    and "\<And>i. total (skill_mod i) cs = total (skill_mod i) (conditions cr) + f i"
    and "\<And>i. total (stat_mod i) cs = total (stat_mod i) (conditions cr) + h i"
    and "list_all class_ok cs" and "distinct (map key cs)"
  shows "conditions_ok g (cr'\<lparr>conditions := cs\<rparr>)"
  using assms by (auto simp: conditions_ok_def mods_ok_def shifts_def wf_def)

lemma with_conditions [simp]: "conditions cr = cs \<Longrightarrow> cr\<lparr>conditions := cs\<rparr> = cr"
  by auto

lemma conditions_ok_still: "conditions_ok g cr \<Longrightarrow> still cr cr' \<Longrightarrow> conditions_ok g cr'"
  using conditions_ok_shift [of g cr 0 "\<lambda>_. 0" "\<lambda>_. 0" cr' "conditions cr"]
  by (auto simp: conditions_ok_def shifts_def)

lemma conditions_ok_struck:
  assumes "conditions_ok g cr" and "struck e d f h cr cr'"
    and "total speed_mod cs = total speed_mod (conditions cr') + d"
    and "\<And>i. total (skill_mod i) cs = total (skill_mod i) (conditions cr') + f i"
    and "\<And>i. total (stat_mod i) cs = total (stat_mod i) (conditions cr') + h i"
    and "list_all class_ok cs" and "distinct (map key cs)"
  shows "conditions_ok g (cr'\<lparr>conditions := cs\<rparr>)"
proof -
  have sh: "shifts d f h cr (cr'\<lparr>conditions := conditions cr\<rparr>)" and tc: "touches e (conditions cr) (conditions cr')"
    using assms(2) by (simp_all add: struck_def)
  have "conditions_ok g (cr'\<lparr>conditions := conditions cr\<rparr>\<lparr>conditions := cs\<rparr>)"
    by (rule conditions_ok_shift [OF assms(1) sh]) (use assms(3-7) touches_totals [OF tc] in simp_all)
  then show ?thesis by simp
qed

lemma conditions_ok_hit: "conditions_ok g cr \<Longrightarrow> hit_only e cr cr' \<Longrightarrow> conditions_ok g cr'"
  using conditions_ok_struck [of g cr e 0 "\<lambda>_. 0" "\<lambda>_. 0" cr' "conditions cr'"] touches_class touches_distinct
  by (auto simp: conditions_ok_def struck_def)

lemma still_onEnd: "still cr (onEndCondition ty cr)"
  by (simp add: onEndCondition_def Let_def tell_def shifts_def wf_def)

lemma drop_condition_ok:
  assumes "conditions_ok g (cr\<lparr>conditions := kept @ c # cs\<rparr>)"
  shows "conditions_ok g (drop_condition e c (kept @ cs) cr)"
    and "conditions (drop_condition e c (kept @ cs) cr) = kept @ cs"
    and "isPlayer (drop_condition e c (kept @ cs) cr) = isPlayer cr"
proof -
  define cr0 cr1 where "cr0 = cr\<lparr>conditions := kept @ cs\<rparr>" and "cr1 = endCondition e c cr0"
  have c: "class_ok c" and w: "wf cr0"
    using assms by (simp_all add: conditions_ok_def wf_def cr0_def)
  note sh = endCondition_ok [OF c w, of e, folded cr1_def]
  have cs: "conditions cr1 = kept @ cs"
    using sh by (simp add: shifts_def cr0_def)
  have "shifts (- speed_mod c) (\<lambda>i. - skill_mod i c) (\<lambda>i. - stat_mod i c) (cr\<lparr>conditions := kept @ c # cs\<rparr>) (cr1\<lparr>conditions := kept @ c # cs\<rparr>)"
    using sh by (auto simp: shifts_def cr0_def wf_def)
  from conditions_ok_shift [OF assms this, of "kept @ cs"] assms have "conditions_ok g (cr1\<lparr>conditions := kept @ cs\<rparr>)"
    by (auto simp: conditions_ok_def)
  then have "conditions_ok g cr1"
    using cs by simp
  then show "conditions_ok g (drop_condition e c (kept @ cs) cr)"
    unfolding drop_condition_def cr0_def [symmetric] cr1_def [symmetric] by (rule conditions_ok_still [OF _ still_onEnd])
  show "conditions (drop_condition e c (kept @ cs) cr) = kept @ cs"
    using still_onEnd [of cr1 "conditionType c"] cs
    unfolding drop_condition_def cr0_def [symmetric] cr1_def [symmetric] by (simp add: shifts_def)
  show "isPlayer (drop_condition e c (kept @ cs) cr) = isPlayer cr"
    using still_onEnd [of cr1 "conditionType c"] sh
    unfolding drop_condition_def cr0_def [symmetric] cr1_def [symmetric] by (simp add: shifts_def cr0_def)
qed

lemma remove_from_ok:
  assumes "conditions_ok g (cr\<lparr>conditions := kept @ cs\<rparr>)"
  shows "conditions_ok g (remove_from e P force kept cs cr)"
  using assms
proof (induction e P force kept cs cr rule: remove_from.induct)
  case (2 e P force kept c cs cr)
  show ?case
  proof (cases "P c")
    case False
    then show ?thesis
      using 2 by simp
  next
    case True
    show ?thesis
    proof (cases "\<not> force \<and> conditionType c = CONDITION_PARALYZE \<and> 0 < walkDelay e")
      case delay: True
      then show ?thesis
        using True conditions_ok_still [OF "2.prems" still_tell(1)] by simp
    next
      case False
      have "conditions_ok g ((drop_condition e c (kept @ cs) cr)\<lparr>conditions := kept @ cs\<rparr>)"
        using drop_condition_ok [OF "2.prems", of e] by simp
      then show ?thesis
        using "2.IH"(2) True False by auto
    qed
  qed
qed simp

lemma removeCondition_ok:
  "conditions_ok g cr \<Longrightarrow> conditions_ok g (removeCondition e ty force cr)"
  "conditions_ok g cr \<Longrightarrow> conditions_ok g (removeConditionId e ty i force cr)"
  by (auto simp: removeCondition_def removeConditionId_def intro!: remove_from_ok)

lemma damage_is_no_fight:
  assumes "class_ok c" "is_damage_class c"
  shows "key c \<noteq> infight_key"
  using assms by (auto simp: class_ok_def is_damage_class_def key_def infight_key_def damage_types_def condition_types
      split: condition_class.splits)

text \<open>The condition that is executed stays in its place.\<close>

lemma executed_place:
  assumes "executeCondition e iv c (cr\<lparr>conditions := kept @ c # cs\<rparr>) = (ok, c', cr1)" and "class_ok c"
  obtains kept1 cs1 where "kept1 = take (length kept) (conditions cr1)" "cs1 = drop (Suc (length kept)) (conditions cr1)"
    "conditions cr1 = kept1 @ c # cs1" "length kept1 = length kept" "touches e (kept @ c # cs) (kept1 @ c # cs1)"
    "is_damage_class c \<or> kept1 = kept \<and> cs1 = cs"
proof -
  have tc: "touches e (kept @ c # cs) (conditions cr1)"
    using executeCondition_ok(2) [OF assms(1)] by (simp add: struck_def)
  have len: "length kept < length (conditions cr1)"
    using touches_length [OF tc] by simp
  have same: "\<not> is_damage_class c \<Longrightarrow> conditions cr1 = kept @ c # cs"
    using executeCondition_grown [OF assms(1)] by simp
  have "conditions cr1 ! length kept = c"
  proof (cases "is_damage_class c")
    case True
    then show ?thesis
      using touches_nth(3) [OF tc, of "length kept"] damage_is_no_fight [OF assms(2)] by simp
  qed (simp add: same)
  then have "conditions cr1 = take (length kept) (conditions cr1) @ c # drop (Suc (length kept)) (conditions cr1)"
    using id_take_nth_drop [OF len] by simp
  then show ?thesis
    using that [OF refl refl] tc len same by (cases "is_damage_class c") auto
qed

lemma executed_step:
  assumes "conditions_ok g (cr\<lparr>conditions := kept @ c # cs\<rparr>)"
    and "executeCondition e iv c (cr\<lparr>conditions := kept @ c # cs\<rparr>) = (ok, c', cr1)"
  obtains kept1 cs1 where "kept1 = take (length kept) (conditions cr1)" "cs1 = drop (Suc (length kept)) (conditions cr1)"
    "conditions_ok g (cr1\<lparr>conditions := kept1 @ c' # cs1\<rparr>)" "length kept1 = length kept"
    "touches e (kept @ c # cs) (kept1 @ c # cs1)" "is_damage_class c \<or> kept1 = kept \<and> cs1 = cs"
    "key c' = key c" "isPlayer cr1 = isPlayer cr"
proof -
  note k = executeCondition_ok [OF assms(2)]
  have "class_ok c"
    using assms(1) by (simp add: conditions_ok_def)
  from executed_place [OF assms(2) this] obtain kept1 cs1 where
    place: "kept1 = take (length kept) (conditions cr1)" "cs1 = drop (Suc (length kept)) (conditions cr1)"
      "length kept1 = length kept" "touches e (kept @ c # cs) (kept1 @ c # cs1)" "is_damage_class c \<or> kept1 = kept \<and> cs1 = cs"
    and conds: "conditions cr1 = kept1 @ c # cs1" by metis
  have ok1: "conditions_ok g cr1"
    by (rule conditions_ok_hit [OF assms(1) k(2)])
  have key: "key c' = key c"
    using k(1) by (simp add: keeps_def same_key_iff)
  have ok2: "conditions_ok g (cr1\<lparr>conditions := kept1 @ c' # cs1\<rparr>)"
  proof (rule conditions_ok_shift [OF ok1 still_refl])
    show "distinct (map key (kept1 @ c' # cs1))"
      using ok1 by (simp add: conditions_ok_def conds key)
    show "list_all class_ok (kept1 @ c' # cs1)"
      using ok1 k(1) by (simp add: conditions_ok_def conds keeps_def)
  qed (use k(1) in \<open>simp_all add: keeps_def conds\<close>)
  have "isPlayer cr1 = isPlayer cr"
    using k(2) by (simp add: struck_def shifts_def)
  then show ?thesis
    by (rule that [OF place(1,2) ok2 place(3-5) key])
qed

lemma execute_from_ok:
  assumes "conditions_ok g (cr\<lparr>conditions := kept @ cs\<rparr>)"
  shows "conditions_ok g (execute_from e iv kept cs cr)"
  using assms
proof (induction e iv kept cs cr rule: execute_from.induct)
  case (2 e iv kept c cs cr)
  define cr0 where "cr0 = cr\<lparr>conditions := kept @ c # cs\<rparr>"
  obtain ok c' cr1 where ex: "executeCondition e iv c cr0 = (ok, c', cr1)"
    by (metis prod_cases3)
  obtain kept1 cs1 where
    k1: "kept1 = take (length kept) (conditions cr1)" and c1: "cs1 = drop (Suc (length kept)) (conditions cr1)"
    and ok2: "conditions_ok g (cr1\<lparr>conditions := kept1 @ c' # cs1\<rparr>)"
    using executed_step [OF "2.prems" ex [unfolded cr0_def]] by metis
  note un = execute_from.simps(2) [of e iv kept c cs cr, folded cr0_def, unfolded ex Let_def prod.case, folded k1 c1]
  show ?case
  proof (cases ok)
    case True
    then show ?thesis
      using "2.IH"(1) [OF ex [unfolded cr0_def, symmetric] refl refl k1 c1 True] ok2 True unfolding un by simp
  next
    case False
    have "conditions_ok g ((drop_condition e c' (kept1 @ cs1) cr1)\<lparr>conditions := kept1 @ cs1\<rparr>)"
      using drop_condition_ok [OF ok2, of e] by simp
    then show ?thesis
      using "2.IH"(2) [OF ex [unfolded cr0_def, symmetric] refl refl k1 c1 False] False unfolding un by simp
  qed
qed simp

lemma removeConditionAt_ok:
  assumes "conditions_ok g cr"
  shows "conditions_ok g (removeConditionAt e n force cr)"
proof (cases "n < length (conditions cr)")
  case True
  have "conditions_ok g (cr\<lparr>conditions := take n (conditions cr) @ conditions cr ! n # drop (Suc n) (conditions cr)\<rparr>)"
    using assms id_take_nth_drop [OF True] by simp
  then show ?thesis
    using drop_condition_ok(1) [where e = e and cr = cr] conditions_ok_still [OF assms still_tell(1)]
    by (simp add: removeConditionAt_def Let_def assms)
qed (use assms in \<open>simp add: removeConditionAt_def\<close>)

lemma death_removes_ok: "conditions_ok g cr \<Longrightarrow> conditions_ok g (death_removes e cr)"
  by (auto simp: death_removes_def intro!: remove_from_ok)

lemma ticked_ok:
  assumes "conditions_ok g cr"
  shows "conditions_ok g (cr\<lparr>conditions := (conditions cr)[n := setTicks clock t (conditions cr ! n)]\<rparr>)"
proof (cases "n < length (conditions cr)")
  case True
  have "list_all class_ok ((conditions cr)[n := setTicks clock t (conditions cr ! n)])"
    using assms True set_update_subset_insert [of "conditions cr" n] by (fastforce simp: conditions_ok_def list_all_iff)
  then show ?thesis
    using conditions_ok_shift [OF assms still_refl, of "(conditions cr)[n := setTicks clock t (conditions cr ! n)]"]
      True assms list_update_id [of "map key (conditions cr)" n]
    by (simp add: total_update map_update conditions_ok_def)
qed (use assms in \<open>simp add: list_update_beyond\<close>)

lemma dismount_ok: "conditions_ok g cr \<Longrightarrow> conditions_ok g (dismount cr)"
  using shifts_changeSpeed [of "- mountSpeed cr" cr]
  by (auto simp: dismount_def conditions_ok_def mods_ok_def shifts_def wf_def)

lemma onAddCondition_ok: "conditions_ok g cr \<Longrightarrow> conditions_ok g (onAddCondition e ty cr)"
  by (auto simp: onAddCondition_def Let_def intro: removeCondition_ok dismount_ok conditions_ok_still [OF _ still_tell(1)])

lemma addCondition_ok:
  assumes "conditions_ok g cr" and "class_ok c" and "addCondition e force c cr = Some (ok, cr')"
  shows "conditions_ok g cr'"
proof (cases "\<not> force \<and> conditionType c = CONDITION_HASTE \<and> hasCondition e CONDITION_PARALYZE 0 cr \<and> 0 < walkDelay e")
  case True
  then have "cr' = tell (AddLater (walkDelay e) c) cr"
    using assms(3) by (simp add: addCondition_def)
  then show ?thesis
    using conditions_ok_still [OF assms(1) still_tell(1)] by simp
next
  case False
  note add = assms(3) [unfolded addCondition_def if_not_P [OF False]]
  have w: "wf cr"
    using assms(1) by (simp add: conditions_ok_def)
  show ?thesis
  proof (cases "find_condition (\<lambda>d. same_key d c) (conditions cr)")
    case (Some i)
    note i = find_condition_Some [OF Some]
    obtain c' cr1 where r: "renewCondition e (conditions cr ! i) c cr = Some (c', cr1)"
      and cr': "cr' = cr1\<lparr>conditions := (conditions cr1)[i := c']\<rparr>"
      using add Some by (auto split: option.splits)
    have cl: "class_ok (conditions cr ! i)"
      using assms(1) i by (auto simp: conditions_ok_def list_all_length)
    note rn = renewCondition_ok [OF r this assms(2) w]
    have mv: "moves_to e (conditions cr ! i) c' cr cr1"
      using rn by (simp add: renewed_def)
    then have tc: "touches e (conditions cr) (conditions cr1)"
      by (simp add: struck_def)
    have at: "conditions cr1 ! i = conditions cr ! i"
      using rn touches_nth(3) [OF tc conjunct1 [OF i]] damage_is_no_fight [OF cl] by (auto simp: renewed_def)
    have len: "i < length (conditions cr1)"
      using i touches_length [OF tc] by simp
    have kys: "key c' = map key (conditions cr1) ! i"
      using rn at len by (simp add: renewed_def same_key_iff)
    show ?thesis
      unfolding cr'
    proof (rule conditions_ok_struck [OF assms(1) mv])
      show "distinct (map key ((conditions cr1)[i := c']))"
        using assms(1) touches_distinct [OF tc] by (simp add: conditions_ok_def map_update kys list_update_id)
      show "list_all class_ok ((conditions cr1)[i := c'])"
        using assms(1) rn touches_class [OF tc] set_update_subset_insert [of "conditions cr1" i c']
        by (auto simp: conditions_ok_def renewed_def list_all_iff)
    qed (use len in \<open>simp_all add: total_update at\<close>)
  next
    case None
    obtain ok1 c' cr1 where st: "startCondition e c cr = Some (ok1, c', cr1)"
      using add None by (auto split: option.splits)
    note s = startCondition_ok [OF st assms(2) w]
    show ?thesis
    proof (cases ok1)
      case False
      then show ?thesis
        using add None st conditions_ok_hit [OF assms(1) s(4)] by simp
    next
      case True
      have tc: "touches e (conditions cr) (conditions cr1)"
        using s(3) [OF True] by (simp add: struck_def)
      have fresh: "key c' \<notin> key ` set (conditions cr)"
        using None s(1) by (auto simp: find_condition_None same_key_iff list_ex_iff)
      then have "key c' \<notin> key ` set (conditions cr1)"
        using s(1,5) touches_keys [OF tc] damage_is_no_fight [OF assms(2)] by (auto simp: same_key_iff)
      then have "conditions_ok g (cr1\<lparr>conditions := conditions cr1 @ [c']\<rparr>)"
        using assms(1) s(2) touches_distinct [OF tc] touches_class [OF tc]
        by (intro conditions_ok_struck [OF assms(1) s(3) [OF True]]) (auto simp: conditions_ok_def)
      then show ?thesis
        using add None st True by (auto intro: onAddCondition_ok)
    qed
  qed
qed

lemma addCombatCondition_ok:
  assumes "conditions_ok g cr" "class_ok c" "addCombatCondition e c cr = Some (ok, cr')"
  shows "conditions_ok g cr'"
proof -
  obtain cr1 where cr1: "addCondition e False c cr = Some (ok, cr1)"
    and cr': "cr' = (if ok then onAddCombatCondition (conditionType c) cr1 else cr1)"
    using assms(3) by (auto simp: addCombatCondition_def split: option.splits)
  have "still cr1 cr'"
    by (simp add: cr' onAddCombatCondition_def)
  then show ?thesis
    by (rule conditions_ok_still [OF addCondition_ok [OF assms(1,2) cr1]])
qed

lemma combat_remove_from_ok:
  assumes "conditions_ok g (cr\<lparr>conditions := kept @ cs\<rparr>)"
  shows "conditions_ok g (combat_remove_from e destroys ty kept cs cr)"
  using assms
proof (induction e destroys ty kept cs cr rule: combat_remove_from.induct)
  case (2 e destroys ty kept c cs cr)
  obtain stays cr' where on: "onCombatRemoveCondition e destroys kept c cs cr = (stays, cr')"
    by fastforce
  have told: "conditions_ok g ((tell ev cr)\<lparr>conditions := kept @ c # cs\<rparr>)" for ev
  proof -
    have "(tell ev cr)\<lparr>conditions := kept @ c # cs\<rparr> = tell ev (cr\<lparr>conditions := kept @ c # cs\<rparr>)"
      by (simp add: tell_def)
    then show ?thesis
      using conditions_ok_still [OF "2.prems" still_tell(1)] by simp
  qed
  have ticked: "conditions_ok g (cr\<lparr>conditions := kept @ setTicks clock t c # cs\<rparr>)" for clock t
    using conditions_ok_shift [OF "2.prems" still_refl, of "kept @ setTicks clock t c # cs"] "2.prems" keeps_setTicks [of c clock t]
    by (auto simp: keeps_def conditions_ok_def same_key_iff)
  have dropped: "conditions_ok g ((drop_condition e c (kept @ cs) cr)\<lparr>conditions := kept @ cs\<rparr>)"
    using drop_condition_ok [OF "2.prems", of e] by simp
  have "conditions_ok g (cr'\<lparr>conditions := kept @ stays @ cs\<rparr>)"
    using on told ticked dropped "2.prems"
    by (auto simp: onCombatRemoveCondition_def Let_def split: if_splits)
  then show ?case
    using "2.IH"(1) [OF _ on [symmetric] refl] "2.IH"(2) "2.prems" on by simp
qed simp

section \<open>The life of a creature\<close>

text \<open>Conditions come, are executed and go; equipment and mounts change; whatever else happens to a
  creature leaves its modifiers and conditions alone.\<close>

inductive living :: "Gear \<Rightarrow> Creature \<Rightarrow> bool" where
  born: "conditions cr = [] \<Longrightarrow> mods_ok g cr \<Longrightarrow> wf cr \<Longrightarrow> living g cr"
| added: "living g cr \<Longrightarrow> class_ok c \<Longrightarrow> addCondition e force c cr = Some (ok, cr') \<Longrightarrow> living g cr'"
| added_combat: "living g cr \<Longrightarrow> class_ok c \<Longrightarrow> addCombatCondition e c cr = Some (ok, cr') \<Longrightarrow> living g cr'"
| removed: "living g cr \<Longrightarrow> living g (removeCondition e ty force cr)"
| removed_id: "living g cr \<Longrightarrow> living g (removeConditionId e ty i force cr)"
| removed_combat: "living g cr \<Longrightarrow> living g (removeCombatCondition e destroys ty cr)"
| removed_one: "living g cr \<Longrightarrow> living g (removeConditionAt e n force cr)"
| died: "living g cr \<Longrightarrow> living g (death_removes e cr)"
| ticked: "living g cr \<Longrightarrow> living g (cr\<lparr>conditions := (conditions cr)[n := setTicks clock t (conditions cr ! n)]\<rparr>)"
| attacked: "living g cr \<Longrightarrow> living g (onAttacked e cr)"
| executed: "living g cr \<Longrightarrow> living g (executeConditions e iv cr)"
| equipped_speed: "living g cr \<Longrightarrow> living (g\<lparr>gear_speed := gear_speed g + d\<rparr>) (changeSpeed d cr)"
| equipped_skill: "living g cr \<Longrightarrow> living (g\<lparr>gear_skill := (gear_skill g)(i := gear_skill g i + d)\<rparr>) (setVarSkill i d cr)"
| equipped_stat: "living g cr \<Longrightarrow> living (g\<lparr>gear_stat := (gear_stat g)(i := gear_stat g i + d)\<rparr>) (setVarStats i d cr)"
| mounted: "living g cr \<Longrightarrow> mountSpeed cr = 0 \<Longrightarrow> living g ((changeSpeed d cr)\<lparr>mountSpeed := d\<rparr>)"
| dismounted: "living g cr \<Longrightarrow> living g (dismount cr)"
| others: "living g cr \<Longrightarrow> still cr cr' \<Longrightarrow> living g cr'"

lemma living_ok: "living g cr \<Longrightarrow> conditions_ok g cr"
proof (induction rule: living.induct)
  case (born cr g)
  then show ?case by (simp add: conditions_ok_def)
next
  case (added g cr c e force ok cr')
  then show ?case by (blast intro: addCondition_ok)
next
  case (added_combat g cr c e ok cr')
  then show ?case by (blast intro: addCombatCondition_ok)
next
  case (removed g cr e ty force)
  then show ?case by (blast intro: removeCondition_ok)
next
  case (removed_id g cr e ty i force)
  then show ?case by (blast intro: removeCondition_ok)
next
  case (removed_combat g cr e destroys ty)
  then show ?case by (auto simp: removeCombatCondition_def intro!: combat_remove_from_ok)
next
  case (removed_one g cr e n force)
  then show ?case by (blast intro: removeConditionAt_ok)
next
  case (died g cr e)
  then show ?case by (blast intro: death_removes_ok)
next
  case (ticked g cr n clock t)
  then show ?case by (blast intro: ticked_ok)
next
  case (attacked g cr e)
  then show ?case by (blast intro: conditions_ok_hit hit_onAttacked)
next
  case (executed g cr e iv)
  then show ?case by (auto simp: executeConditions_def intro!: execute_from_ok)
next
  case (equipped_speed g cr d)
  then show ?case
    using shifts_changeSpeed [of d cr] by (auto simp: conditions_ok_def mods_ok_def shifts_def)
next
  case (equipped_skill g cr i d)
  then show ?case
    by (auto simp: conditions_ok_def mods_ok_def wf_def setVarSkill_def nth_list_update)
next
  case (equipped_stat g cr i d)
  then show ?case
    by (auto simp: conditions_ok_def mods_ok_def wf_def setVarStats_core nth_list_update)
next
  case (mounted g cr d)
  then show ?case
    using shifts_changeSpeed [of d cr] by (auto simp: conditions_ok_def mods_ok_def shifts_def wf_def)
next
  case (dismounted g cr)
  then show ?case by (simp add: dismount_ok)
next
  case (others g cr cr')
  then show ?case by (blast intro: conditions_ok_still)
qed

text \<open>Haste and paralysis drive each other out, but not of a monster.\<close>

lemma monsters_keep_both: "isMonster cr \<Longrightarrow> conditions (onAddCondition e ty cr) = conditions cr"
  by (simp add: onAddCondition_def)


definition standing :: Creature where
  "standing =
     \<lparr>isPlayer = True, isMonster = False, baseSpeed = 220, varSpeed = 0, walking = False, health = 150, healthMax = 150, mana = 0, manaMax = 0,
      infiniteMana = False, soul = 0, soulMax = 100, magLevel = 0, baseSkills = replicate 7 10, varSkills = replicate 7 0,
      varStats = replicate 4 0, suppressions = 0, defaultOutfit = new_outfit, currentOutfit = new_outfit, mountSpeed = 0,
      internalLight = \<lparr>light_level = 0, light_color = 0\<rparr>, itemsLight = \<lparr>light_level = 0, light_color = 0\<rparr>,
      pzLocked = False, skull = SKULL_NONE, conditions = [], events = []\<rparr>"

definition calm :: Env where
  "calm =
     \<lparr>now = 1000, random = (\<lambda>a b. a), walkDelay = 0, inProtection = False, tileField = None, attackerIsPlayer = (\<lambda>_. False),
      mayHit = (\<lambda>_. True), ghost = False, absorbs = hit_value, ownAttack = (\<lambda>_. False),
      changesHealth = (\<lambda>_. (True, False, 150, 0)), notGainInFight = False, pzLockedTime = 60000, outfitAllowed = (\<lambda>_. True),
      pvpEnforced = False, itemInSlot = (\<lambda>_. False), canDoAction = True, nextActionTime = 0\<rparr>"

definition haste :: Condition where
  "haste = new_condition CONDITIONID_COMBAT CONDITION_HASTE 10000 False 0 (Speed (new_speed 60))"

definition bare :: Gear where
  "bare = \<lparr>gear_speed = 0, gear_skill = (\<lambda>_. 0), gear_stat = (\<lambda>_. 0)\<rparr>"

lemma living_standing: "living bare standing"
  by (rule living.born) (auto simp: bare_def standing_def mods_ok_def wf_def nth_Cons' eval_nat_numeral)

lemma standing_hasted:
  obtains cr where "addCondition calm False haste standing = Some (True, cr)" "living bare cr"
    "conditions cr = [haste\<lparr>endTime := 11000\<rparr>]" "mountSpeed cr = 0"
proof -
  have cl: "class_ok haste"
    by (simp add: class_ok_def haste_def new_condition_def)
  obtain ok cr where r: "addCondition calm False haste standing = Some (ok, cr)"
    by (simp add: addCondition_def standing_def haste_def calm_def new_condition_def new_speed_def startCondition_defs
          chooseSpeed_def hasCondition_def Let_def)
  moreover have "ok" "conditions cr = [haste\<lparr>endTime := 11000\<rparr>]" "mountSpeed cr = 0"
    using r
    by (auto simp: addCondition_def standing_def haste_def calm_def new_condition_def new_speed_def startCondition_defs
        chooseSpeed_def hasCondition_def changeSpeed_def setSpeed_def getSpeed_def tell_def onAddCondition_def
        Let_def condition_types new_outfit_def)
  ultimately show ?thesis
    using that [of cr] living.added [OF living_standing cl r] by simp
qed


section \<open>The end of a condition\<close>

text \<open>A damage does not run out while its victim stands in a field of its kind.\<close>

definition extension :: "Env \<Rightarrow> u32 \<Rightarrow> Condition \<Rightarrow> int" where
  "extension e iv c =
     (case details c of
        Damage d \<Rightarrow>
          (if periodDamage d = 0 \<and> damageList d \<noteq> [] \<and> 0 < sint (ticks c) \<and>
              \<not> onTickCondition (conditionType c) (tileField e) True then sint iv else 0)
      | _ \<Rightarrow> 0)"

definition stays :: "Env \<Rightarrow> u32 \<Rightarrow> Condition \<Rightarrow> bool" where
  "stays e iv c \<longleftrightarrow> ticks c = - 1 \<or> now e \<le> endTime c + extension e iv c"

lemma execute_damage_time:
  assumes "execute_damage e iv c d cr = (c', iv', cr')" "details c = Damage d"
  shows "ticks c' = ticks c" "endTime c' = endTime c + extension e iv c"
proof -
  have "ticks c \<noteq> - 1" if "0 < sint (ticks c)"
    using that by auto
  then show "ticks c' = ticks c" "endTime c' = endTime c + extension e iv c"
    using assms by (auto simp: execute_damage_def extension_def Let_def split: if_splits list.splits)
qed

lemma executeCondition_time:
  assumes "executeCondition e iv c cr = (ok, c', cr')"
  shows "ok = stays e iv c" "endTime c' = endTime c + extension e iv c"
proof -
  have "ok = stays e iv c \<and> endTime c' = endTime c + extension e iv c"
  proof (cases "details c")
    case (Damage d)
    then obtain c1 iv1 where e1: "execute_damage e iv c d cr = (c1, iv1, cr')" and e2: "base_execute e iv1 c1 = (ok, c')"
      using assms by (auto simp: executeCondition_def Let_def split: prod.splits)
    show ?thesis
      using execute_damage_time [OF e1 Damage] base_execute_shape [OF e2] by (auto simp: stays_def)
  qed (use assms in \<open>auto simp: executeCondition_def Let_def stays_def extension_def dest!: base_execute_shape split: prod.splits\<close>)
  then show "ok = stays e iv c" "endTime c' = endTime c + extension e iv c"
    by auto
qed

definition due :: "Condition \<Rightarrow> (u32 \<times> u8 \<times> u32) \<times> int" where
  "due c = (key c, endTime c)"

lemma fight_is_generic: "class_ok c \<Longrightarrow> key c = infight_key \<Longrightarrow> details c = ConditionGeneric"
  by (auto simp: class_ok_def key_def infight_key_def damage_types_def condition_types split: condition_class.splits)

text \<open>A fight is never shortened by a hit, unless its time is configured to be negative.\<close>

lemma touches_fight:
  assumes "touches e xs ys" "i < length xs" "key (xs ! i) = infight_key" "details (xs ! i) = ConditionGeneric"
    and "0 \<le> sint (pzLockedTime e)"
  shows "endTime (xs ! i) \<le> endTime (ys ! i)" "stays e iv (xs ! i) \<Longrightarrow> stays e iv (ys ! i)"
proof -
  have "endTime (xs ! i) \<le> endTime (ys ! i) \<and> (stays e iv (xs ! i) \<longrightarrow> stays e iv (ys ! i))"
    using assms
  proof (induction rule: touches.induct)
    case (hit_renews xs ys j)
    show ?case
    proof (cases "j = i")
      case True
      have "details (ys ! i) = ConditionGeneric"
        using touches_nth(2) [OF hit_renews.hyps(1)] hit_renews.prems by simp
      then show ?thesis
        using True hit_renews
        by (auto simp: updateCondition_def base_updateCondition_def infight_def new_condition_def setTicks_def stays_def
            extension_def split: if_splits)
    qed (use hit_renews in simp)
  next
    case (hit_adds xs ys)
    then show ?case
      using touches_length [OF hit_adds.hyps(1)] by (simp add: nth_append)
  qed simp
  then show "endTime (xs ! i) \<le> endTime (ys ! i)" "stays e iv (xs ! i) \<Longrightarrow> stays e iv (ys ! i)" by auto
qed

definition fight_until :: "int \<Rightarrow> Condition \<Rightarrow> bool" where
  "fight_until t c \<longleftrightarrow> key c = infight_key \<and> details c = ConditionGeneric \<and> t \<le> endTime c"

lemma fight_before:
  assumes "touches e (kept @ c # cs) (kept1 @ c # cs1)" "length kept1 = length kept" "0 \<le> sint (pzLockedTime e)"
  shows "list_ex (fight_until t) kept \<Longrightarrow> list_ex (fight_until t) kept1"
    and "list_ex (\<lambda>c. fight_until t c \<and> stays e iv c) cs \<Longrightarrow> list_ex (\<lambda>c. fight_until t c \<and> stays e iv c) cs1"
proof -
  have go: "fight_until t (ys ! i) \<and> (stays e iv (xs ! i) \<longrightarrow> stays e iv (ys ! i))"
    if "touches e xs ys" "i < length xs" "fight_until t (xs ! i)" for xs ys i
    using that touches_fight [OF that(1,2) _ _ assms(3)] touches_nth(1,2) [OF that(1,2)] by (auto simp: fight_until_def)
  show "list_ex (fight_until t) kept1" if "list_ex (fight_until t) kept"
  proof -
    obtain i where "i < length kept" "fight_until t (kept ! i)"
      using \<open>list_ex (fight_until t) kept\<close> by (auto simp: list_ex_length)
    then show ?thesis
      using go [OF assms(1), of i] assms(2) by (auto simp: list_ex_length nth_append)
  qed
  show "list_ex (\<lambda>c. fight_until t c \<and> stays e iv c) cs1" if "list_ex (\<lambda>c. fight_until t c \<and> stays e iv c) cs"
  proof -
    obtain i where i: "i < length cs" "fight_until t (cs ! i)" "stays e iv (cs ! i)"
      using \<open>list_ex (\<lambda>c. fight_until t c \<and> stays e iv c) cs\<close> by (auto simp: list_ex_length)
    moreover have "length cs \<le> length cs1"
      using touches_length [OF assms(1)] assms(2) by simp
    ultimately show ?thesis
      using go [OF assms(1), of "Suc (length kept) + i"] assms(2)
      by (auto simp: list_ex_length nth_append intro!: exI [of _ i])
  qed
qed

definition expected :: "Env \<Rightarrow> u32 \<Rightarrow> Condition list \<Rightarrow> ((u32 \<times> u8 \<times> u32) \<times> int) list" where
  "expected e iv cs = map (\<lambda>c. (key c, endTime c + extension e iv c)) (filter (stays e iv) cs)"

lemma on_time_simps:
  "expected e iv [] = []"
  "expected e iv (c # cs) = (if stays e iv c then [(key c, endTime c + extension e iv c)] else []) @ expected e iv cs"
  "other_than_fight [] = []" "other_than_fight (xs @ ys) = other_than_fight xs @ other_than_fight ys"
  "other_than_fight (c # cs) = (if key c \<noteq> infight_key then [c] else []) @ other_than_fight cs"
  by (simp_all add: expected_def other_than_fight_def)

text \<open>What is true of the rest of the loop: the conditions other than the fight, all conditions when nothing can
  touch the list, and a fight that was to last.\<close>

definition ends_on_time :: "Env \<Rightarrow> u32 \<Rightarrow> Condition list \<Rightarrow> Condition list \<Rightarrow> Creature \<Rightarrow> Creature \<Rightarrow> bool" where
  "ends_on_time e iv kept cs cr cr' \<longleftrightarrow>
     map due (other_than_fight (conditions cr')) = map due (other_than_fight kept) @ expected e iv (other_than_fight cs) \<and>
     (\<not> isPlayer cr \<longrightarrow> map due (conditions cr') = map due kept @ expected e iv cs) \<and>
     (0 \<le> sint (pzLockedTime e) \<longrightarrow>
        (\<forall>t. list_ex (fight_until t) kept \<or> list_ex (\<lambda>c. fight_until t c \<and> stays e iv c) cs \<longrightarrow>
             list_ex (fight_until t) (conditions cr')))"

lemma untouched_by_execution:
  assumes "executeCondition e iv c cr = (ok, c', cr')" "\<not> isPlayer cr"
  shows "conditions cr' = conditions cr"
proof (cases "is_damage_class c")
  case True
  then obtain d where d: "details c = Damage d"
    by (auto simp: is_damage_class_def split: condition_class.splits)
  then show ?thesis
    using assms not_player_untouched [OF assms(2)]
    by (auto simp: executeCondition_def execute_damage_def Let_def split: prod.splits list.splits if_splits)
qed (use executeCondition_grown [OF assms(1)] in simp)

lemma execute_from_on_time:
  assumes "conditions_ok g (cr\<lparr>conditions := kept @ cs\<rparr>)"
  shows "ends_on_time e iv kept cs cr (execute_from e iv kept cs cr)"
  using assms
proof (induction e iv kept cs cr rule: execute_from.induct)
  case (2 e iv kept c cs cr)
  obtain ok c' cr1 where ex: "executeCondition e iv c (cr\<lparr>conditions := kept @ c # cs\<rparr>) = (ok, c', cr1)"
    by (metis prod_cases3)
  obtain kept1 cs1 where
    k1: "kept1 = take (length kept) (conditions cr1)" and c1: "cs1 = drop (Suc (length kept)) (conditions cr1)"
    and ok2: "conditions_ok g (cr1\<lparr>conditions := kept1 @ c' # cs1\<rparr>)" and len: "length kept1 = length kept"
    and tc: "touches e (kept @ c # cs) (kept1 @ c # cs1)" and key: "key c' = key c" and pl: "isPlayer cr1 = isPlayer cr"
    using executed_step [OF "2.prems" ex] by metis
  note un = execute_from.simps(2) [of e iv kept c cs cr, unfolded ex Let_def prod.case, folded k1 c1]
  have ok_stays: "ok = stays e iv c" and end': "endTime c' = endTime c + extension e iv c"
    using executeCondition_time [OF ex] by auto
  have cl: "class_ok c"
    using "2.prems" by (simp add: conditions_ok_def)
  have others: "other_than_fight kept1 = other_than_fight kept" "other_than_fight cs1 = other_than_fight cs"
    using touches_other [OF tc, of "length kept"] touches_other [OF tc, of "Suc (length kept)"] len by simp_all
  have same: "kept1 = kept \<and> cs1 = cs" if "\<not> isPlayer cr"
    using untouched_by_execution [OF ex] that by (simp add: k1 c1)
  have fight: "0 \<le> sint (pzLockedTime e) \<Longrightarrow> list_ex (fight_until t) kept \<or> list_ex (\<lambda>c. fight_until t c \<and> stays e iv c) (c # cs) \<Longrightarrow>
      list_ex (fight_until t) kept1 \<or> fight_until t c \<and> stays e iv c \<or> list_ex (\<lambda>c. fight_until t c \<and> stays e iv c) cs1" for t
    using fight_before [OF tc len] by auto
  have details': "fight_until t c \<Longrightarrow> fight_until t c'" for t
    using end' key fight_is_generic [of c'] ok2 by (auto simp: fight_until_def extension_def conditions_ok_def)
  have due': "due c' = (key c, endTime c + extension e iv c)"
    by (simp add: due_def key end')
  show ?case
  proof (cases ok)
    case True
    have "ends_on_time e iv (kept1 @ [c']) cs1 cr1 (execute_from e iv (kept1 @ [c']) cs1 cr1)"
      using "2.IH"(1) [OF ex [symmetric] refl refl k1 c1 True] ok2 by simp
    then show ?thesis
      unfolding un if_P [OF True] ends_on_time_def
      using True ok_stays others same fight details' due' key pl
      by (auto simp: on_time_simps)
  next
    case False
    have "ends_on_time e iv kept1 cs1 (drop_condition e c' (kept1 @ cs1) cr1)
        (execute_from e iv kept1 cs1 (drop_condition e c' (kept1 @ cs1) cr1))"
      using "2.IH"(2) [OF ex [symmetric] refl refl k1 c1 False] drop_condition_ok [OF ok2, of e] by simp
    then show ?thesis
      unfolding un if_not_P [OF False] ends_on_time_def
      using False ok_stays others same fight key pl drop_condition_ok(3) [OF ok2, of e]
      by (auto simp: on_time_simps)
  qed
qed (simp add: ends_on_time_def on_time_simps)



text \<open>The fight of a hit is that of \<open>addCondition\<close>.\<close>

lemma infight_created:
  "createCondition CONDITIONID_DEFAULT CONDITION_INFIGHT (pzLockedTime e) 0 False 0 = Some (infight e)"
  by (simp add: createCondition_def infight_def damage_types_def generic_types_def condition_types)

lemma addInFightTicks_adds:
  assumes "isPlayer cr" "\<not> isMonster cr" "\<not> notGainInFight e" "list_all class_ok (conditions cr)"
  shows "addCondition e False (infight e) cr = Some (True, addInFightTicks e cr)"
proof (cases "find_condition (\<lambda>d. same_key d (infight e)) (conditions cr)")
  case None
  then show ?thesis
    using assms
    by (auto simp: addCondition_def addInFightTicks_def startCondition_def base_start_def infight_def new_condition_def
        onAddCondition_def condition_types Let_def)
next
  case (Some i)
  note i = find_condition_Some [OF Some]
  have k: "key (conditions cr ! i) = infight_key"
    using i by (simp add: same_key_iff)
  moreover have "class_ok (conditions cr ! i)"
    using assms(4) i by (auto simp: list_all_length)
  ultimately have "details (conditions cr ! i) = ConditionGeneric"
    by (blast intro: fight_is_generic)
  moreover have "conditionType (infight e) = CONDITION_INFIGHT" "ticks (infight e) = pzLockedTime e"
    by (simp_all add: infight_def new_condition_def)
  ultimately show ?thesis
    using assms(3) Some
    by (auto simp: addCondition_def addInFightTicks_def renewCondition_def cooldown_event_def condition_types Let_def)
qed

section \<open>Where conditions come from\<close>

lemma createCondition_ok:
  assumes "createCondition i ty tk param buff sub = Some c"
  shows "class_ok c"
  using assms
  by (auto simp: createCondition_def Let_def new_condition_def class_ok_def new_attributes_def split: if_splits)

lemma attributes_setParam_ok: "attributes_ok a \<Longrightarrow> attributes_ok (snd (attributes_setParam p v a))"
  by (cases p) (simp_all add: attributes_setParam_def attributes_ok_def put_def put_stat_def)

lemma setParam_ok:
  assumes "class_ok c"
  shows "class_ok (snd (setParam p v c))"
proof -
  obtain ret c1 where b: "base_setParam p v c = (ret, c1)"
    by fastforce
  have c1: "details c1 = details c" "conditionType c1 = conditionType c"
    using b by (cases p; auto simp: base_setParam_def)+
  show ?thesis
  proof (cases "details c")
    case (Attributes a)
    then show ?thesis
      using assms c1 attributes_setParam_ok [of a p v]
      by (auto simp: setParam_def speed_setParam_def b class_ok_def attributes_ok_def Let_def split: prod.splits)
  qed (use assms c1 class_ok_cong [OF c1] in \<open>auto simp: setParam_def speed_setParam_def b class_ok_def Let_def split: prod.splits\<close>)
qed

section \<open>Some flaws\<close>

text \<open>A condition to which a script gives the ticks -1 after it was made with a time is executed for ever, but
  \<open>hasCondition\<close> does not see it: its end lies in the past.\<close>

lemma permanent_condition_unseen:
  assumes "createCondition i CONDITION_MANASHIELD 0 0 False 0 = Some c0" and "setParam CONDITION_PARAM_TICKS (- 1) c0 = (b, c)"
    and "0 < now e"
  shows "startCondition e c cr = Some (True, c, cr)" and "stays e' iv c" and "conditions cr' = [c] \<Longrightarrow> \<not> hasCondition e CONDITION_MANASHIELD 0 cr'"
  using assms
  by (auto simp: create_generic generic_types_def setParam_def speed_setParam_def base_setParam_def new_condition_def startCondition_defs
      stays_def hasCondition_def Let_def condition_types)

text \<open>A light without a level divides by zero.\<close>

lemma light_without_level_divides_by_zero:
  "details c = Light l \<Longrightarrow> light_level (lightInfo l) = 0 \<Longrightarrow> startCondition e c cr = None"
  by (simp add: startCondition_defs light_interval_def Let_def)

text \<open>A torch replaces the light of a spell: when its interval is over, the spell's light becomes that of the
  items less one, and stays so when they are gone.\<close>

lemma items_light_becomes_own_light:
  assumes "isPlayer cr" "light_level (internalLight cr) \<le> light_level (itemsLight cr)" "0 < light_level (itemsLight cr)"
    and "lightChangeInterval l \<le> internalLightTicks l + iv"
  shows "light_level (internalLight (snd (execute_light iv l cr))) = light_level (itemsLight cr) - 1"
  using assms by (auto simp: execute_light_def getCreatureLight_def tell_def Let_def not_less)

text \<open>A periodic damage does not survive a logout: it is saved with its period but loaded without its time,
  and ends at once.\<close>

lemma periodic_damage_is_lost:
  assumes "details c = Damage d" "damageList d = []" "0 < now e"
  shows "ticks (reloaded clock c) = 0" and "\<not> stays e iv (reloaded clock c)"
  using assms by (auto simp: reloaded_def stays_def extension_def new_damage_def Let_def)

text \<open>A stored condition with an eighth skill is written past the end of the array.\<close>

lemma eighth_skill_overruns:
  assumes "details c = Attributes a" "currentSkill a = 7"
  shows "unserialize clock c (byte CONDITIONATTR_SKILLS @ quad v @ ps) = None"
  using assms by (simp add: unserialize_byte condition_attrs unserializeProp_defs read_entry_def)

end
