(* ===== verification/Spec2Isabelle.thy ===== *)
theory Spec2Isabelle
  imports NameTables CreatureRegistry OutputPool Party ContainerExample AdvanceLevels AdvanceSkills SchedulerRun TradeRun TileView TileQuery MapRun PathFound ConditionLife
begin

text \<open>
  A verification library of the Lloegrys game server, a fork of The Forgotten Server (C++, \<open>src/src/\<close>).

  \<^bold>\<open>The program.\<close>  Clients connect over TCP (server.cpp, connection.cpp).  A connection reads frames,
  gives them to its protocol (protocol.cpp, protocolgame.cpp), which deciphers them and turns orders
  into tasks, and writes the answers, which are gathered in output messages (networkmessage.cpp,
  outputmessage.cpp).  One thread, the dispatcher (tasks.cpp), runs all tasks; another, the scheduler
  (scheduler.cpp), hands it those that are due later.  The tasks work on the game (game.cpp): the
  registry of the creatures, the map of tiles (map.cpp, tile.cpp), the things on the tiles and in
  containers (item.cpp, container.cpp), the players with their advancement, parties, trades and
  conditions (player.cpp, vocation.h, party.cpp, condition.cpp).  Players, with their items and
  conditions, are saved as streams of bytes (fileloader.h, iologindata.cpp).

  \<^bold>\<open>Conventions.\<close>  A struct or class is a record with the source's field names, an enumeration a datatype
  with the source's enumerators.  Integers keep their width as words (\<open>u8\<close>, \<open>u16\<close>, \<open>u32\<close>, \<open>u64\<close> of
  \<open>Prelude\<close>); a signed one is the same word read with \<open>sint\<close>; where the code's own type is wide enough
  for every value it is an \<open>int\<close>.  Strings are lists of bytes.  Objects that are shared or point at each
  other live in a store, a map from addresses or names.  A method is a function from the state to the
  state; what it sends to clients or asks of the libraries is appended to a list of events.  The result
  None is what has no meaning in C++ (a null or dangling pointer, an access outside of a buffer, a
  division by zero) or a loop that does not end; loops that might not end are
  \<open>partial_function (option)\<close> or recursion over what is left, and that they do end is proved.  Scripts,
  libraries, the clock and the random generator are arguments.  Where a property does not hold for every
  answer of theirs, its hypotheses or its relation of steps say which ones it is about, its text says so in words,
  and a lemma shows what an answer that is left out leads to wherever that is a fault of the code.
\<close>

section \<open>The theories\<close>

text \<open>
  \<^bold>\<open>The base.\<close>  \<open>Prelude\<close>: the names of the integer types, the collections of lemmas, decimal numbers.
  \<open>Bytes\<close>: little-endian images of integers, as \<open>memcpy\<close> makes them.  \<open>Enums\<close>, \<open>ReturnValues\<close>,
  \<open>NameTables\<close>: the enumerations of enums.h and const.h, the answers of the queries, and the look-ups by
  name of tools.cpp.  \<open>Text\<close>: the string helpers of tools.cpp.  \<open>Positions\<close>: position.h and the directions of
  tools.cpp, with the order on positions as an instance of \<open>linorder\<close>.  \<open>FloatRound\<close>: floating-point
  arithmetic as rationals, rounded after each operation to 24 or 53 bits, to even in a tie.

  \<^bold>\<open>The wire.\<close>  \<open>NetMessage\<close> (networkmessage.cpp, outputmessage.h): the buffer of a message, its readers
  and writers; readers never look behind the frame, and typed fields that were written are read back.
  \<open>Checksum\<close> and \<open>Xtea\<close> (tools.cpp, protocol.cpp): the blockwise Adler-32 sum is the unbounded one;
  deciphering inverts enciphering.  \<open>Protocol\<close> (protocol.cpp): the in-place encoding of an outgoing
  message, which refines the specification \<open>frame\<close> and stays inside the buffer.  \<open>Connection\<close>
  (connection.cpp): the handlers of a connection as steps of a state machine \<open>conn_step\<close>; the bytes on the
  network are those sent, in order, one write at a time.  \<open>OutputPool\<close> (outputmessage.cpp,
  protocolgame.cpp): buffering, and the timer that flushes the buffers.

  \<^bold>\<open>Tasks.\<close>  \<open>Scheduler\<close> (scheduler.cpp, tasks.cpp, thread_holder_base.h): both lists of tasks; the thread of
  the scheduler is a program counter, and a step is what a thread does between two points where another
  may come in.  \<open>SchedulerRun\<close>: none of the first \<open>2 ^ 32 - 1\<close> events, after which the ids are given again,
  is lost, early, repeated or run after it was stopped, and a due one is handed over in at most four steps of
  the thread itself.

  \<^bold>\<open>Who is there.\<close>  \<open>CreatureRegistry\<close> (game.cpp, player.h, monster.h, npc.h): the maps of creatures and the
  ranges of their ids.  \<open>WildcardTree\<close> (wildcardtree.cpp): the prefix tree of names, interpreted in the
  locale \<open>name_register\<close> of a register of names, and its completion, which decides among the players online
  as long as no two of them have one name.

  \<^bold>\<open>Things.\<close>  \<open>PropStream\<close> (fileloader.h): property streams.  \<open>ItemAttributes\<close>, \<open>ItemStream\<close> (item.cpp): the
  attributes of an item as a finite map, and saving and loading of items.  \<open>Container\<close> (container.cpp,
  inbox.cpp, depotchest.cpp, depotlocker.cpp): the store of nested containers with every operation, query
  and the iterator; \<open>ContainerStore\<close> and \<open>ContainerOps\<close>: what makes a store well-formed and that each operation
  keeps it; \<open>ContainerWalk\<close>: the iterator visits a finite tree; \<open>ContainerSafety\<close>, \<open>ContainerLife\<close>,
  \<open>ContainerExample\<close>: the queries, the runs \<open>con_reach\<close>, and a store to apply the properties to.

  \<^bold>\<open>The map.\<close>  \<open>Tile\<close>, \<open>TileOps\<close>, \<open>TileQuery\<close> (tile.cpp): the stack of a tile with what is told to the players who
  see it; \<open>TileRun\<close>, \<open>TileLife\<close>: the sections of the stack and the flags through every run; \<open>TileView\<close>: the
  places that are sent are those in the description of the tile (protocolgame.cpp), and the list a client
  shows, changed message by message, stays that description.  \<open>MapTree\<close>, \<open>MapTiles\<close> (map.cpp): the quad tree with its
  linked leaves refines a table from positions to tiles.  \<open>MapSight\<close>: lines of sight.  \<open>MapSpectators\<close>,
  \<open>MapLife\<close>, \<open>MapRun\<close>: spectators with both caches, and creatures that come, move and go, through every run.
  \<open>PathSearch\<close>, \<open>PathFound\<close>: the A* search with its table of 512 nodes; it ends because every round closes
  a node or improves one, and the path it gives can be walked.

  \<^bold>\<open>Players.\<close>  \<open>Advance\<close>, \<open>AdvanceLevels\<close>, \<open>AdvanceSkills\<close> (player.cpp, vocation.cpp): experience, level,
  magic level and skills.  \<open>Party\<close> (party.cpp): membership, invitations and leadership.  \<open>Trade\<close>,
  \<open>TradeRun\<close> (game.cpp): the state machine of a trade, with both moves of the exchange and what each may answer.  \<open>Conditions\<close>, \<open>ConditionStream\<close> (condition.cpp,
  iologindata.cpp): the classes of conditions, their parameters, saving and loading; \<open>DamageList\<close>: how a
  damage is shared out over time; \<open>ConditionRun\<close>, \<open>ConditionLife\<close> (condition.cpp, creature.cpp, player.cpp):
  starting, executing, renewing and ending, also at a hit, which renews the fight of a player in the list that is
  being executed, and at a death; and what the modifiers of a creature add up to.  Monsters have their own
  \<open>onAddCondition\<close>, which lets haste and paralysis be together.
\<close>

section \<open>How the proofs are built\<close>

text \<open>
  A component has a predicate of well-formedness (\<open>store_ok\<close>, \<open>tile_ok\<close>, \<open>map_ok\<close>, \<open>party_ok\<close>, \<open>trade_ok\<close>,
  \<open>conditions_ok\<close>, ...), a lemma for each operation that keeps it, an inductive relation of the states that
  the operations reach (\<open>con_reach\<close>, \<open>conn_reach\<close>, \<open>reachable_world\<close>, \<open>living\<close>, ...), and properties of every
  state reached, by rule induction.  Where the code promises an abstract behaviour the property is a
  refinement: the tree of names is a set, the attribute list a map, the quad tree a table, the encoded
  message a frame, the tile the list of things it is described by.  Saving and loading are shown to be inverse on the
  bytes; what is not saved is said by the view of an item or a condition that is compared.  Each property
  with hypotheses is applied to a concrete input by the theorem named after it with \<open>_witness\<close>.

  \<^bold>\<open>Bounds.\<close>  Message buffers have 24590 bytes and the widths of the code, and every index is checked against
  them.  The highest level for which \<open>getExpForLevel\<close> does not wrap is computed in \<open>AdvanceLevels\<close>.  The
  list of a damage is treated for start values up to 2000 and amounts up to \<open>2 ^ 20\<close>, where the
  \<open>int32_t\<close> products of the code do not wrap.  The line of sight is computed with a test for
  overflow at each \<open>int32_t\<close> operation; up to 16383 columns and rows there is none.  The ranges of
  spectators are those whose sums fit \<open>int32_t\<close> (\<open>ranges_fit\<close>).  The experience that scripts give or take is
  bounded in \<open>adv_step\<close>.  A path is one that does not touch column or row 65535.
  Floating-point numbers have no bound on the exponent; no value of the code comes near one.
\<close>

section \<open>What was found\<close>

text \<open>
  The manifest lists all findings.  Lemmas state where the code does not do what it means to: \<open>OutputPool.full_message_not_padded\<close>,
  \<open>OutputPool.autosend_timers_multiply\<close>, \<open>Connection.forced_close_comes_too_late\<close>,
  \<open>ItemStream.emptied_item_differs\<close>, \<open>AdvanceSkills.cached_tries_differ\<close>,
  \<open>AdvanceSkills.rounding_takes_twenty_more\<close>, \<open>SchedulerRun.shutdown_can_be_missed\<close> and
  \<open>shutdown_can_break\<close> and \<open>reused_id_is_dropped\<close>, \<open>TradeRun.accept_without_offer\<close> and
  \<open>second_move_may_fail\<close>, \<open>Party.refused_logout_dangles\<close> and \<open>refused_disband_orphans\<close>, \<open>TileRun.immovableblockpath_is_never_set\<close> and
  \<open>special_flag_goes_with_the_first\<close>, \<open>TileView.order_is_lost\<close>,
  \<open>MapSpectators.second_query_is_cached_whole\<close>, \<open>MapSight.different_floors_one_line\<close> and \<open>far_lines_overflow\<close>,
  \<open>DamageList.default_start_deals_more\<close>, and in \<open>ConditionLife\<close> \<open>permanent_condition_unseen\<close>,
  \<open>light_without_level_divides_by_zero\<close>, \<open>items_light_becomes_own_light\<close>, \<open>periodic_damage_is_lost\<close> and
  \<open>eighth_skill_overruns\<close>.
\<close>

section \<open>What is left out\<close>

text \<open>
  The bindings to Lua and the tables of scripts, the SQL of the database, sockets, the RSA and big-number
  libraries, XML and OTB loading, and the packet layouts of the game protocol have no model: they are
  calls into libraries or data.  Monsters, spells, weapons, houses, spawns, raids, guilds, quests,
  outfits, mail, chat and the waiting list are not modelled.  Of the modelled parts: sharing experience
  in parties (floating point of many terms), the notifications of cylinders to scripts, browsing a field
  as a container, cloning and decay of items, the loading of map files, what a death does besides the
  losses and the end of the conditions, and the walk of a creature along its path.  Which replacements of items
  keep the order on a tile is an argument (\<open>keepsOrder\<close>), because items.xml decides it.
\<close>

end
